(* ===== verification/Prelude.thy ===== *)
theory Prelude
  imports Main "HOL-Library.Word"
begin

text \<open>
  Shared vocabulary of the development: bytes and byte strings, the JavaScript errors the
  code throws, the result type of a function that may throw, and the generic lemmas on lists,
  results and words that the component theories use.

  A function of the source that may throw is a function into \<^typ>\<open>'e + 'a\<close>: \<open>Inl\<close> is the
  thrown error, \<open>Inr\<close> the returned value. \<open>and_then\<close> is the sequencing of two such
  computations: the second runs only when the first returned.
\<close>

unbundle bit_operations_syntax

named_theorems result_simps \<open>sequencing of computations that may throw\<close>
named_theorems codec_simps \<open>lengths and evaluation of encoders\<close>

type_synonym byte = "8 word"
type_synonym bytes = "byte list"

text \<open>The error codes of \<open>EncryptionErrorCode\<close> (types/errors.ts) that the modelled code uses.\<close>

datatype EncryptionErrorCode =
    COUNTER_OVERFLOW
  | KEY_STORAGE_ERROR
  | MESSAGE_DUPLICATE
  | TOO_MANY_SKIPPED_MESSAGES
  | SESSION_CORRUPTED
  | SESSION_NOT_FOUND
  | INVALID_CIPHERTEXT
  | IDENTITY_MISMATCH
  | INITIALIZATION_FAILED
  | ENCRYPTION_FAILED
  | DECRYPTION_FAILED
  | PREKEY_NOT_FOUND
  | UNTRUSTED_IDENTITY
  | INVALID_DH_KEY
  | SIGNATURE_VERIFICATION_FAILED
  | INVALID_PREKEY_BUNDLE
  | PQXDH_REQUIRED
  | PQXDH_FAILED
  | TRIPLE_RATCHET_REQUIRED
  | SPQR_EPOCH_OUT_OF_RANGE
  | SPQR_MESSAGE_JUMP_TOO_LARGE
  | SPQR_COUNTER_OVERFLOW
  | SPQR_INVALID_CIPHERTEXT
  | SPQR_VERSION_MISMATCH
  | INVALID_STATE
  | SENDER_KEY_EXPIRED

text \<open>
  A thrown value is either a plain \<open>Error\<close> with its message (interpolated values are left out
  of the message) or an \<open>EncryptionError\<close> with its code.
\<close>

datatype js_error =
    PlainError string
  | EncryptionError EncryptionErrorCode

type_synonym 'a result = "js_error + 'a"

definition and_then :: "'e + 'a \<Rightarrow> ('a \<Rightarrow> 'e + 'b) \<Rightarrow> 'e + 'b" where
  "and_then m f = (case m of Inl e \<Rightarrow> Inl e | Inr a \<Rightarrow> f a)"

definition throw_if :: "bool \<Rightarrow> 'e \<Rightarrow> 'e + unit" where
  "throw_if b e = (if b then Inl e else Inr ())"

definition ok :: "'e + 'a \<Rightarrow> bool" where
  "ok r = (case r of Inl _ \<Rightarrow> False | Inr _ \<Rightarrow> True)"

lemma and_then_Inl [simp, result_simps]: "and_then (Inl e) f = Inl e"
  by (simp add: and_then_def)

lemma and_then_Inr [simp, result_simps]: "and_then (Inr a) f = f a"
  by (simp add: and_then_def)

lemma and_then_eq_Inr [result_simps]:
  "and_then m f = Inr b \<longleftrightarrow> (\<exists>a. m = Inr a \<and> f a = Inr b)"
  by (cases m) auto

lemma and_then_eq_Inl [result_simps]:
  "and_then m f = Inl e \<longleftrightarrow> m = Inl e \<or> (\<exists>a. m = Inr a \<and> f a = Inl e)"
  by (cases m) auto

lemma and_then_assoc: "and_then (and_then m f) g = and_then m (\<lambda>a. and_then (f a) g)"
  by (cases m) auto

lemma and_then_cong [fundef_cong]:
  "m = m' \<Longrightarrow> (\<And>a. m' = Inr a \<Longrightarrow> f a = f' a) \<Longrightarrow> and_then m f = and_then m' f'"
  by (cases m') auto

lemma throw_if_True [simp, result_simps]: "throw_if True e = Inl e"
  by (simp add: throw_if_def)

lemma throw_if_False [simp, result_simps]: "throw_if False e = Inr ()"
  by (simp add: throw_if_def)

lemma throw_if_eq_Inr [simp, result_simps]: "throw_if b e = Inr u \<longleftrightarrow> \<not> b"
  by (auto simp: throw_if_def)

lemma throw_if_eq_Inl [simp, result_simps]: "throw_if b e = Inl e' \<longleftrightarrow> b \<and> e' = e"
  by (auto simp: throw_if_def)

lemma ok_simps [simp]: "ok (Inr a)" "\<not> ok (Inl e)"
  by (simp_all add: ok_def)

lemma ok_iff: "ok r \<longleftrightarrow> (\<exists>a. r = Inr a)"
  by (cases r) auto

lemma not_ok_iff: "\<not> ok r \<longleftrightarrow> (\<exists>e. r = Inl e)"
  by (cases r) auto

text \<open>A call for each element, in their order; the first that throws ends the loop.\<close>

primrec map_result :: "('a \<Rightarrow> 'e + 'b) \<Rightarrow> 'a list \<Rightarrow> 'e + 'b list" where
  "map_result f [] = Inr []"
| "map_result f (x # xs) = and_then (f x) (\<lambda>y. and_then (map_result f xs) (\<lambda>ys. Inr (y # ys)))"

lemma map_result_ok: "(\<And>x. x \<in> set xs \<Longrightarrow> f x = Inr (g x)) \<Longrightarrow> map_result f xs = Inr (map g xs)"
  by (induction xs) auto

lemma map_result_mem: "map_result f xs = Inr ys \<Longrightarrow> y \<in> set ys \<Longrightarrow> \<exists>x \<in> set xs. f x = Inr y"
  by (induction xs arbitrary: ys) (auto simp: and_then_eq_Inr)

text \<open>\<open>Uint8Array.prototype.slice(from, to)\<close> with \<open>from \<le> to \<le> length\<close>.\<close>

definition js_slice :: "nat \<Rightarrow> nat \<Rightarrow> 'a list \<Rightarrow> 'a list" where
  "js_slice from to xs = take (to - from) (drop from xs)"

lemma length_js_slice [simp]: "to \<le> length xs \<Longrightarrow> length (js_slice from to xs) = to - from"
  by (auto simp: js_slice_def)

lemma js_slice_0 [simp]: "js_slice 0 n xs = take n xs"
  by (simp add: js_slice_def)

lemma js_slice_append_right:
  "length xs = n \<Longrightarrow> length ys = m \<Longrightarrow> js_slice n (n + m) (xs @ ys @ zs) = ys"
  by (simp add: js_slice_def)

text \<open>Words: a word below \<open>2 ^ n\<close> keeps only its low \<open>n\<close> bits.\<close>

lemma and_mask_63: "(w :: 32 word) AND 63 = take_bit 6 w"
  using take_bit_eq_mask [of 6 w] by (simp add: mask_eq_exp_minus_1)

lemma and_mask_255: "(w :: 32 word) AND 255 = take_bit 8 w"
  using take_bit_eq_mask [of 8 w] by (simp add: mask_eq_exp_minus_1)

text \<open>Naturals: a shifted value added below its low bits.\<close>

lemma or_push_bit_nat: "(v :: nat) < 2 ^ n \<Longrightarrow> v OR push_bit n x = v + 2 ^ n * x"
proof -
  assume "v < 2 ^ n"
  then have v: "take_bit n v = v" by (simp add: take_bit_nat_eq_self_iff)
  have "v AND push_bit n x = 0"
    by (subst v [symmetric], rule bit_eqI) (auto simp: bit_simps)
  then show ?thesis by (simp add: disjunctive_add_eq_or [symmetric] push_bit_eq_mult mult.commute)
qed

lemma unat_byte_less: "unat (b :: byte) < 256"
  using unsigned_less [of b] by simp

section \<open>Interfaces shared by the codecs\<close>

text \<open>
  A codec promises that decoding what was encoded from a valid value gives the value back. A
  canonical codec also promises that an accepted text is the encoding of what it decodes to,
  so that decoding then encoding is the identity on accepted texts.
\<close>

locale codec =
  fixes valid :: "'a \<Rightarrow> bool" and enc :: "'a \<Rightarrow> 'b" and dec :: "'b \<Rightarrow> 'e + 'a"
  assumes dec_enc: "valid x \<Longrightarrow> dec (enc x) = Inr x"
begin

lemma enc_inj: "valid x \<Longrightarrow> valid y \<Longrightarrow> enc x = enc y \<Longrightarrow> x = y"
  using dec_enc by (metis sum.inject(2))

lemma dec_enc_total: "valid x \<Longrightarrow> ok (dec (enc x))"
  by (simp add: dec_enc)

end

locale canonical_codec = codec +
  fixes accepted :: "'b \<Rightarrow> bool"
  assumes enc_dec: "accepted y \<Longrightarrow> dec y = Inr x \<Longrightarrow> enc x = y"
begin

lemma dec_inj: "accepted y \<Longrightarrow> accepted z \<Longrightarrow> dec y = Inr x \<Longrightarrow> dec z = Inr x \<Longrightarrow> y = z"
  using enc_dec by blast

lemma dec_iff: "accepted y \<Longrightarrow> valid x \<Longrightarrow> dec y = Inr x \<longleftrightarrow> y = enc x"
  using enc_dec dec_enc by blast

end

end
