(* ===== verification/Proto_Wire.thy ===== *)
theory Proto_Wire
  imports Prelude
begin

text \<open>
  The protobuf wire primitives of internal/encoding/proto/primitives.ts: 32-bit and 64-bit
  varints, tags, field encoders, and the cursor \<open>ProtoReader\<close> of the message decoders.

  A \<open>number\<close> argument of an encoder is an \<^typ>\<open>int\<close> (the code's \<open>Number.isInteger\<close> tests hold on
  it), a decoded value is a \<^typ>\<open>nat\<close>, and JavaScript's 32-bit \<open>|\<close> and \<open><<\<close> are the operations
  of \<^typ>\<open>32 word\<close>; \<open>bigint\<close> is unbounded. A reader that threw is not used again, so the methods
  return the new reader only with a value.

  Shown here: 64-bit varints round-trip and are canonical, the 32-bit decoder inverts the
  encoder, a reader never leaves its buffer and every field it reads moves the cursor forward
  (which is the termination of every message decoder), and a field written by an encoder is
  read back, leaving the reader behind it.
\<close>

section \<open>Definitions\<close>

definition WIRE_TYPE_VARINT :: nat where "WIRE_TYPE_VARINT = 0"
definition WIRE_TYPE_FIXED64 :: nat where "WIRE_TYPE_FIXED64 = 1"
definition WIRE_TYPE_LENGTH_DELIMITED :: nat where "WIRE_TYPE_LENGTH_DELIMITED = 2"
definition WIRE_TYPE_FIXED32 :: nat where "WIRE_TYPE_FIXED32 = 5"

definition UINT32_MAX :: nat where "UINT32_MAX = 0xffffffff"
definition UINT64_MAX :: nat where "UINT64_MAX = 2 ^ 64 - 1"
definition MAX_VARINT64_BYTES :: nat where "MAX_VARINT64_BYTES = 10"
definition MAX_FIELD_NUMBER :: nat where "MAX_FIELD_NUMBER = 536870911"

subsection \<open>Varints\<close>

text \<open>The loop of both encoders: seven bits a byte, with the high bit set while more follow.\<close>

function varint_loop :: "nat \<Rightarrow> bytes" where
  "varint_loop value =
     (if value > 0x7f then (of_nat (value AND 0x7f) OR 0x80) # varint_loop (drop_bit 7 value)
      else [of_nat (value AND 0x7f)])"
  by pat_completeness auto
termination
  by (relation "measure id") (auto simp: drop_bit_eq_div)

declare varint_loop.simps [simp del]

definition encodeVarint :: "int \<Rightarrow> bytes result" where
  "encodeVarint value =
     (if value < 0 then Inl (PlainError ''Varint value must be non-negative'')
      else if value > int UINT32_MAX then Inl (PlainError ''Varint value exceeds uint32 range'')
      else Inr (varint_loop (nat value)))"

text \<open>
  The loop of \<open>decodeVarint\<close> over the bytes behind the offset. It also ends, with what it has,
  at the end of the buffer.
\<close>

fun decodeVarint_loop :: "bytes \<Rightarrow> 32 word \<Rightarrow> nat \<Rightarrow> nat \<Rightarrow> (32 word \<times> nat) result" where
  "decodeVarint_loop [] value shift bytesRead = Inr (value, bytesRead)"
| "decodeVarint_loop (byte # rest) value shift bytesRead =
     (let bytesRead = bytesRead + 1;
          value = value OR push_bit shift (ucast (byte AND 0x7f));
          shift = shift + 7
      in if byte AND 0x80 = 0 then Inr (value, bytesRead)
         else if bytesRead \<ge> 5 then Inl (PlainError ''Varint too long'')
         else decodeVarint_loop rest value shift bytesRead)"

definition decodeVarint :: "bytes \<Rightarrow> nat \<Rightarrow> (nat \<times> nat) result" where
  "decodeVarint bytes offset =
     and_then (decodeVarint_loop (drop offset bytes) 0 0 0) (\<lambda>(value, bytesRead).
       Inr (unat value, bytesRead))"

definition encodeVarint64 :: "int \<Rightarrow> bytes result" where
  "encodeVarint64 value =
     (if value < 0 then Inl (PlainError ''Varint value must be non-negative'')
      else if value > int UINT64_MAX then Inl (PlainError ''Varint value exceeds uint64 range'')
      else Inr (varint_loop (nat value)))"

fun decodeVarint64_loop :: "bytes \<Rightarrow> nat \<Rightarrow> nat \<Rightarrow> nat \<Rightarrow> (nat \<times> nat) result" where
  "decodeVarint64_loop [] value shift bytesRead = Inl (PlainError ''Varint truncated'')"
| "decodeVarint64_loop (byte # rest) value shift bytesRead =
     (let bytesRead = bytesRead + 1 in
      if bytesRead = MAX_VARINT64_BYTES \<and> byte AND 0x7f > 0x01
      then Inl (PlainError ''Varint value exceeds uint64 range'')
      else (let value = value OR push_bit shift (unat (byte AND 0x7f)); shift = shift + 7 in
        if byte AND 0x80 = 0
        then (if bytesRead > 1 \<and> byte = 0
              then Inl (PlainError ''Varint is not canonically encoded'')
              else Inr (value, bytesRead))
        else if bytesRead \<ge> MAX_VARINT64_BYTES then Inl (PlainError ''Varint too long'')
        else decodeVarint64_loop rest value shift bytesRead))"

definition decodeVarint64 :: "bytes \<Rightarrow> nat \<Rightarrow> (nat \<times> nat) result" where
  "decodeVarint64 bytes offset = decodeVarint64_loop (drop offset bytes) 0 0 0"

subsection \<open>Tags and fields\<close>

text \<open>\<open>(fieldNumber << 3) | wireType\<close> is a signed 32-bit operation in JavaScript.\<close>

definition encodeTag :: "nat \<Rightarrow> nat \<Rightarrow> bytes result" where
  "encodeTag fieldNumber wireType =
     encodeVarint (sint (push_bit 3 (of_nat fieldNumber :: 32 word) OR of_nat wireType))"

definition decodeTag :: "bytes \<Rightarrow> nat \<Rightarrow> (nat \<times> nat \<times> nat) result" where
  "decodeTag bytes offset =
     and_then (decodeVarint bytes offset) (\<lambda>(tag, bytesRead).
       Inr (drop_bit 3 tag, tag AND 0x07, bytesRead))"

definition encodeUint32Field :: "nat \<Rightarrow> int \<Rightarrow> bytes result" where
  "encodeUint32Field fieldNumber value =
     and_then (encodeTag fieldNumber WIRE_TYPE_VARINT) (\<lambda>tag.
     and_then (encodeVarint value) (\<lambda>val. Inr (tag @ val)))"

definition encodeBytesField :: "nat \<Rightarrow> bytes \<Rightarrow> bytes result" where
  "encodeBytesField fieldNumber data =
     and_then (encodeTag fieldNumber WIRE_TYPE_LENGTH_DELIMITED) (\<lambda>tag.
     and_then (encodeVarint (int (length data))) (\<lambda>len. Inr (tag @ len @ data)))"

definition encodeUint64Field :: "nat \<Rightarrow> int \<Rightarrow> bytes result" where
  "encodeUint64Field fieldNumber value =
     and_then (encodeTag fieldNumber WIRE_TYPE_VARINT) (\<lambda>tag.
     and_then (encodeVarint64 value) (\<lambda>val. Inr (tag @ val)))"

definition encodeBoolField :: "nat \<Rightarrow> bool \<Rightarrow> bytes result" where
  "encodeBoolField fieldNumber value =
     and_then (encodeTag fieldNumber WIRE_TYPE_VARINT) (\<lambda>tag.
     and_then (encodeVarint (if value then 1 else 0)) (\<lambda>val. Inr (tag @ val)))"

definition encodeEnumField :: "nat \<Rightarrow> int \<Rightarrow> bytes result" where
  "encodeEnumField fieldNumber value =
     (if value < 0 then Inl (PlainError ''Enum value must be a non-negative integer'')
      else encodeUint32Field fieldNumber value)"

fun fixed_le_bytes :: "nat \<Rightarrow> nat \<Rightarrow> bytes" where
  "fixed_le_bytes 0 remaining = []"
| "fixed_le_bytes (Suc n) remaining =
     of_nat (remaining AND 0xff) # fixed_le_bytes n (drop_bit 8 remaining)"

definition encodeFixed64Field :: "nat \<Rightarrow> int \<Rightarrow> bytes result" where
  "encodeFixed64Field fieldNumber value =
     (if value < 0 then Inl (PlainError ''Fixed64 value must be non-negative'')
      else if value > int UINT64_MAX then Inl (PlainError ''Fixed64 value exceeds uint64 range'')
      else and_then (encodeTag fieldNumber WIRE_TYPE_FIXED64) (\<lambda>tag.
             Inr (tag @ fixed_le_bytes 8 (nat value))))"

definition encodeMessageField :: "nat \<Rightarrow> bytes \<Rightarrow> bytes result" where
  "encodeMessageField fieldNumber encodedMessage = encodeBytesField fieldNumber encodedMessage"

definition concatFields :: "bytes list \<Rightarrow> bytes" where
  "concatFields arrays = concat arrays"

fun encodeRepeatedBytesField :: "nat \<Rightarrow> bytes list \<Rightarrow> bytes result" where
  "encodeRepeatedBytesField fieldNumber [] = Inr []"
| "encodeRepeatedBytesField fieldNumber (value # values) =
     and_then (encodeBytesField fieldNumber value) (\<lambda>x.
     and_then (encodeRepeatedBytesField fieldNumber values) (\<lambda>xs. Inr (x @ xs)))"

definition skipUnknownField :: "nat \<Rightarrow> bytes \<Rightarrow> nat \<Rightarrow> nat result" where
  "skipUnknownField wireType bytes offset =
     (if wireType = WIRE_TYPE_VARINT
      then and_then (decodeVarint bytes offset) (\<lambda>(_, bytesRead). Inr (offset + bytesRead))
      else if wireType = WIRE_TYPE_LENGTH_DELIMITED
      then and_then (decodeVarint bytes offset) (\<lambda>(len, lengthBytes). Inr (offset + lengthBytes + len))
      else Inl (PlainError ''Unsupported wire type''))"

subsection \<open>The message reader\<close>

record ProtoReader =
  rd_bytes :: bytes
  rd_cursor :: nat
  rd_wireType :: "nat option"

definition new_ProtoReader :: "bytes \<Rightarrow> ProtoReader" where
  "new_ProtoReader bytes = \<lparr>rd_bytes = bytes, rd_cursor = 0, rd_wireType = None\<rparr>"

definition hasMore :: "ProtoReader \<Rightarrow> bool" where
  "hasMore r = (rd_cursor r < length (rd_bytes r))"

definition readTag :: "ProtoReader \<Rightarrow> (nat \<times> ProtoReader) result" where
  "readTag r =
     and_then (decodeVarint64 (rd_bytes r) (rd_cursor r)) (\<lambda>(tag, bytesRead).
       (let number = drop_bit 3 tag; wireType = tag AND 0x07 in
        if number = 0 \<or> number > MAX_FIELD_NUMBER
        then Inl (PlainError ''Invalid protobuf field number'')
        else Inr (number, r\<lparr>rd_cursor := rd_cursor r + bytesRead, rd_wireType := Some wireType\<rparr>)))"

definition takeWireType :: "ProtoReader \<Rightarrow> (nat \<times> ProtoReader) result" where
  "takeWireType r =
     (case rd_wireType r of
        None \<Rightarrow> Inl (PlainError ''No field tag has been read'')
      | Some wireType \<Rightarrow> Inr (wireType, r\<lparr>rd_wireType := None\<rparr>))"

definition expectWireType :: "nat \<Rightarrow> ProtoReader \<Rightarrow> ProtoReader result" where
  "expectWireType expected r =
     and_then (takeWireType r) (\<lambda>(wireType, r).
       if wireType \<noteq> expected then Inl (PlainError ''Expected wire type'') else Inr r)"

definition readVarintValue :: "ProtoReader \<Rightarrow> (nat \<times> ProtoReader) result" where
  "readVarintValue r =
     and_then (expectWireType WIRE_TYPE_VARINT r) (\<lambda>r.
     and_then (decodeVarint64 (rd_bytes r) (rd_cursor r)) (\<lambda>(value, bytesRead).
     Inr (value, r\<lparr>rd_cursor := rd_cursor r + bytesRead\<rparr>)))"

text \<open>\<open>readLengthPrefix\<close> moves the cursor behind the prefix and returns the end of the payload.\<close>

definition readLengthPrefix :: "ProtoReader \<Rightarrow> (nat \<times> ProtoReader) result" where
  "readLengthPrefix r =
     and_then (decodeVarint64 (rd_bytes r) (rd_cursor r)) (\<lambda>(len, bytesRead).
       (let r = r\<lparr>rd_cursor := rd_cursor r + bytesRead\<rparr>; end' = rd_cursor r + len in
        if end' > length (rd_bytes r)
        then Inl (PlainError ''Length-delimited field extends past the end of the message'')
        else Inr (end', r)))"

definition advance :: "nat \<Rightarrow> string \<Rightarrow> ProtoReader \<Rightarrow> ProtoReader result" where
  "advance count message r =
     (if rd_cursor r + count > length (rd_bytes r) then Inl (PlainError message)
      else Inr (r\<lparr>rd_cursor := rd_cursor r + count\<rparr>))"

definition readUint32 :: "ProtoReader \<Rightarrow> (nat \<times> ProtoReader) result" where
  "readUint32 r =
     and_then (readVarintValue r) (\<lambda>(value, r).
       if value > UINT32_MAX then Inl (PlainError ''Varint value exceeds uint32 range'')
       else Inr (value, r))"

definition readUint64 :: "ProtoReader \<Rightarrow> (nat \<times> ProtoReader) result" where
  "readUint64 r = readVarintValue r"

definition readBool :: "ProtoReader \<Rightarrow> (bool \<times> ProtoReader) result" where
  "readBool r = and_then (readVarintValue r) (\<lambda>(value, r). Inr (value \<noteq> 0, r))"

definition readEnum :: "ProtoReader \<Rightarrow> (nat \<times> ProtoReader) result" where
  "readEnum r = readUint32 r"

fun fixed_le_value :: "bytes \<Rightarrow> nat" where
  "fixed_le_value [] = 0"
| "fixed_le_value (b # bs) = push_bit 8 (fixed_le_value bs) OR unat b"

definition readFixed64 :: "ProtoReader \<Rightarrow> (nat \<times> ProtoReader) result" where
  "readFixed64 r =
     and_then (expectWireType WIRE_TYPE_FIXED64 r) (\<lambda>r.
       (let end' = rd_cursor r + 8 in
        if end' > length (rd_bytes r) then Inl (PlainError ''Fixed64 field truncated'')
        else Inr (fixed_le_value (js_slice (rd_cursor r) end' (rd_bytes r)), r\<lparr>rd_cursor := end'\<rparr>)))"

definition readBytes :: "ProtoReader \<Rightarrow> (bytes \<times> ProtoReader) result" where
  "readBytes r =
     and_then (expectWireType WIRE_TYPE_LENGTH_DELIMITED r) (\<lambda>r.
     and_then (readLengthPrefix r) (\<lambda>(end', r).
     Inr (js_slice (rd_cursor r) end' (rd_bytes r), r\<lparr>rd_cursor := end'\<rparr>)))"

definition readMessage :: "ProtoReader \<Rightarrow> (bytes \<times> ProtoReader) result" where
  "readMessage r = readBytes r"

definition skipField :: "ProtoReader \<Rightarrow> ProtoReader result" where
  "skipField r =
     and_then (takeWireType r) (\<lambda>(wireType, r).
       if wireType = WIRE_TYPE_VARINT
       then and_then (decodeVarint64 (rd_bytes r) (rd_cursor r)) (\<lambda>(_, bytesRead).
              Inr (r\<lparr>rd_cursor := rd_cursor r + bytesRead\<rparr>))
       else if wireType = WIRE_TYPE_FIXED64 then advance 8 ''Fixed64 field truncated'' r
       else if wireType = WIRE_TYPE_LENGTH_DELIMITED
       then and_then (readLengthPrefix r) (\<lambda>(end', r). Inr (r\<lparr>rd_cursor := end'\<rparr>))
       else if wireType = WIRE_TYPE_FIXED32 then advance 4 ''Fixed32 field truncated'' r
       else Inl (PlainError ''Unsupported wire type''))"

text \<open>
  The loop every message decoder runs: read a tag, dispatch on the field number, store the
  value read. \<open>op\<close> says which read method the decoder's switch calls for a field number (the
  default branch is \<open>SkipField\<close>), \<open>store\<close> what it does with the value.
\<close>

datatype field_read = ReadUint32 | ReadUint64 | ReadBool | ReadFixed64 | ReadBytes | SkipField

datatype field_value = VNat nat | VBool bool | VBytes bytes | VSkipped

fun apply_read :: "field_read \<Rightarrow> ProtoReader \<Rightarrow> (field_value \<times> ProtoReader) result" where
  "apply_read ReadUint32 r = and_then (readUint32 r) (\<lambda>(v, r). Inr (VNat v, r))"
| "apply_read ReadUint64 r = and_then (readUint64 r) (\<lambda>(v, r). Inr (VNat v, r))"
| "apply_read ReadBool r = and_then (readBool r) (\<lambda>(v, r). Inr (VBool v, r))"
| "apply_read ReadFixed64 r = and_then (readFixed64 r) (\<lambda>(v, r). Inr (VNat v, r))"
| "apply_read ReadBytes r = and_then (readBytes r) (\<lambda>(v, r). Inr (VBytes v, r))"
| "apply_read SkipField r = and_then (skipField r) (\<lambda>r. Inr (VSkipped, r))"

section \<open>Varint lemmas\<close>

lemma and_7f_nat: "(v :: nat) AND 0x7f = v mod 128"
  using take_bit_eq_mask [of 7 v] by (simp add: mask_eq_exp_minus_1 take_bit_eq_mod)

lemma drop_7_nat: "drop_bit 7 (v :: nat) = v div 128"
  by (simp add: drop_bit_eq_div)

lemma byte_7f: "(b :: byte) AND 0x7f = take_bit 7 b"
  using take_bit_eq_mask [of 7 b] by (simp add: mask_eq_exp_minus_1)

lemma unat_byte_7f: "unat ((b :: byte) AND 0x7f) = unat b mod 128"
proof -
  have "unat (take_bit 7 b) = take_bit 7 (unat b)" by (rule unsigned_take_bit_eq)
  then show ?thesis unfolding byte_7f by (simp only: take_bit_eq_mod) simp
qed

lemma byte_80: "(b :: byte) AND 0x80 = 0 \<longleftrightarrow> unat b < 128"
proof -
  have "(b AND 0x80 = 0) = (\<not> bit b 7)"
    using and_exp_eq_0_iff_not_bit [of b 7] by simp
  also have "bit b 7 = bit (unat b) 7" by (simp add: bit_unsigned_iff)
  also have "bit (unat b) 7 = odd (unat b div 128)" by (simp add: bit_iff_odd)
  also have "(\<not> odd (unat b div 128)) = (unat b < 128)"
  proof (cases "unat b < 128")
    case False
    then have "unat b div 128 = 1" using unat_byte_less [of b] by (intro div_nat_eqI) simp_all
    with False show ?thesis by simp
  qed simp
  finally show ?thesis .
qed

lemma unat_cont_byte: "unat ((of_nat (v AND 0x7f) :: byte) OR 0x80) = v mod 128 + 128"
proof -
  have "v mod 128 < 256" by (rule less_trans [of _ 128]) auto
  then have x: "unat (of_nat (v AND 0x7f) :: byte) = v mod 128" by (simp add: and_7f_nat unat_of_nat)
  have "unat ((of_nat (v AND 0x7f) :: byte) OR 0x80) = v mod 128 OR unat (0x80 :: byte)"
    by (simp only: unsigned_or_eq x)
  also have "\<dots> = v mod 128 OR push_bit 7 1" by simp
  also have "\<dots> = v mod 128 + 128" by (subst or_push_bit_nat) simp_all
  finally show ?thesis .
qed

lemma unat_last_byte: "v \<le> 0x7f \<Longrightarrow> unat (of_nat (v AND 0x7f) :: byte) = v"
  by (simp add: and_7f_nat unat_of_nat)

lemma varint_loop_small: "v \<le> 0x7f \<Longrightarrow> varint_loop v = [of_nat v]"
  by (subst varint_loop.simps) (simp add: and_7f_nat)

lemma varint_loop_cont:
  "0x7f < v \<Longrightarrow> varint_loop v = (of_nat (v AND 0x7f) OR 0x80) # varint_loop (v div 128)"
  by (subst varint_loop.simps) (simp add: drop_7_nat)

lemma varint_loop_Nil [simp]: "varint_loop v \<noteq> []"
  by (subst varint_loop.simps) simp

lemma decodeVarint64_loop_encode:
  "sh = 7 * n \<Longrightarrow> v < 2 ^ sh \<Longrightarrow> n > 0 \<longrightarrow> x \<noteq> 0 \<Longrightarrow> v + 2 ^ sh * x < 2 ^ 64 \<Longrightarrow>
   decodeVarint64_loop (varint_loop x @ rest) v sh n =
     Inr (v + 2 ^ sh * x, n + length (varint_loop x))"
proof (induction x arbitrary: v sh n rule: varint_loop.induct)
  case (1 x)
  have n9: "n \<le> 9"
  proof (rule ccontr)
    assume "\<not> n \<le> 9"
    with "1.prems" have "64 \<le> sh" "1 \<le> x" by auto
    then have "(2::nat) ^ 64 * 1 \<le> 2 ^ sh * x" by (intro mult_le_mono power_increasing) auto
    with "1.prems"(4) show False by simp
  qed
  have x1: "x \<le> 1" if "n = 9" using 1 that by simp
  show ?case
  proof (cases "0x7f < x")
    case False
    then have b: "varint_loop x = [of_nat x]" "unat (of_nat x :: byte) = x"
      by (simp_all add: varint_loop_small unat_of_nat)
    then have b7: "unat ((of_nat x :: byte) AND 0x7f) = x" using False by (simp add: unat_byte_7f)
    have "\<not> (n = 9 \<and> (of_nat x :: byte) AND 0x7f > 1)"
      using x1 b7 by (auto simp: word_less_nat_alt)
    moreover have "x = 0" if "(of_nat x :: byte) = 0" using b(2) that by simp
    ultimately show ?thesis
      using 1 False b
      by (auto simp: Let_def MAX_VARINT64_BYTES_def byte_80 b7 or_push_bit_nat)
  next
    case True
    let ?b = "(of_nat (x AND 0x7f) :: byte) OR 0x80"
    have n8: "n \<le> 8" using n9 x1 True by (cases "n = 9") auto
    have b7: "unat (?b AND 0x7f) = x mod 128" by (simp add: unat_byte_7f unat_cont_byte)
    have v': "v + 2 ^ sh * (x mod 128) < 2 ^ (sh + 7)"
    proof -
      have "x mod 128 \<le> 127" by simp
      then have "2 ^ sh * (x mod 128) \<le> 2 ^ sh * 127" by (rule mult_le_mono2)
      with "1.prems"(2) have "v + 2 ^ sh * (x mod 128) < 2 ^ sh * 128" by linarith
      then show ?thesis by (simp add: power_add)
    qed
    have eq: "v + 2 ^ sh * (x mod 128) + 2 ^ (sh + 7) * (x div 128) = v + 2 ^ sh * x"
      using mult_div_mod_eq [of 128 x]
      by (simp add: power_add algebra_simps flip: distrib_left)
    have "decodeVarint64_loop (varint_loop (x div 128) @ rest) (v + 2 ^ sh * (x mod 128)) (sh + 7) (Suc n)
        = Inr (v + 2 ^ sh * x, Suc n + length (varint_loop (x div 128)))"
      using "1.IH" [of "sh + 7" "Suc n" "v + 2 ^ sh * (x mod 128)"] True "1.prems" v' eq
      by (simp add: drop_7_nat div_eq_0_iff)
    with True "1.prems" n8 show ?thesis
      by (simp add: varint_loop_cont Let_def MAX_VARINT64_BYTES_def byte_80 unat_cont_byte b7 or_push_bit_nat)
  qed
qed

lemma of_nat_unat_byte [simp]: "(of_nat (unat b) :: byte) = b"
  by simp

lemma cont_byte_eq:
  assumes "128 \<le> unat (b :: byte)"
  shows "(of_nat ((unat b mod 128 + 128 * x) AND 0x7f) :: byte) OR 0x80 = b"
proof (rule unsigned_word_eqI)
  show "unat ((of_nat ((unat b mod 128 + 128 * x) AND 0x7f) :: byte) OR 0x80) = unat b"
  proof -
    have "unat b div 128 = 1" using assms unat_byte_less [of b] by (intro div_nat_eqI) simp_all
    then show ?thesis using div_mult_mod_eq [of "unat b" 128] by (simp add: unat_cont_byte)
  qed
qed

lemma decodeVarint64_loop_canonical:
  "decodeVarint64_loop xs v sh n = Inr (w, m) \<Longrightarrow> sh = 7 * n \<Longrightarrow> v < 2 ^ sh \<Longrightarrow> n \<le> 9 \<Longrightarrow>
   \<exists>x rest. xs = varint_loop x @ rest \<and> w = v + 2 ^ sh * x \<and> m = n + length (varint_loop x) \<and>
     (n > 0 \<longrightarrow> x \<noteq> 0) \<and> m \<le> 10 \<and> w < 2 ^ 64"
proof (induction xs v sh n rule: decodeVarint64_loop.induct)
  case (2 b rest v sh n)
  let ?d = "unat b mod 128"
  have lim: "n = 9 \<Longrightarrow> ?d \<le> 1"
    using "2.prems"(1) by (auto simp: Let_def MAX_VARINT64_BYTES_def word_less_nat_alt unat_byte_7f split: if_splits)
  have v': "v + 2 ^ sh * ?d < 2 ^ (sh + 7)"
  proof -
    have "2 ^ sh * ?d \<le> 2 ^ sh * 127" by (rule mult_le_mono2) simp
    with "2.prems"(3) have "v + 2 ^ sh * ?d < 2 ^ sh * 128" by linarith
    then show ?thesis by (simp add: power_add)
  qed
  have w64: "v + 2 ^ sh * ?d < 2 ^ 64"
  proof (cases "n = 9")
    case True
    with lim have "2 ^ sh * ?d \<le> 2 ^ sh * 1" by (intro mult_le_mono2) simp
    with True "2.prems"(2,3) show ?thesis by simp
  next
    case False
    with "2.prems"(2,4) have "(2::nat) ^ (sh + 7) \<le> 2 ^ 64" by (intro power_increasing) auto
    with v' show ?thesis by simp
  qed
  show ?case
  proof (cases "unat b < 128")
    case True
    with "2.prems" w64 have "w = v + 2 ^ sh * unat b" "m = Suc n" "n > 0 \<longrightarrow> b \<noteq> 0" "w < 2 ^ 64"
      by (auto simp: Let_def byte_80 or_push_bit_nat unat_byte_7f split: if_splits)
    moreover have "varint_loop (unat b) = [b]" using True by (simp add: varint_loop_small)
    ultimately show ?thesis
      using "2.prems"(4) by (intro exI [of _ "unat b"] exI [of _ rest]) (auto simp: unat_eq_0)
  next
    case False
    have n: "n \<le> 8" and rec: "decodeVarint64_loop rest (v + 2 ^ sh * ?d) (sh + 7) (Suc n) = Inr (w, m)"
      using "2.prems" False
      by (auto simp: Let_def byte_80 or_push_bit_nat unat_byte_7f MAX_VARINT64_BYTES_def split: if_splits)
    have "\<exists>x rest'. rest = varint_loop x @ rest' \<and> w = v + 2 ^ sh * ?d + 2 ^ (sh + 7) * x \<and>
        m = Suc n + length (varint_loop x) \<and> (Suc n > 0 \<longrightarrow> x \<noteq> 0) \<and> m \<le> 10 \<and> w < 2 ^ 64"
      using "2.IH" [OF refl _ refl refl] False n rec v' "2.prems"(2,3) lim
      by (auto simp: byte_80 or_push_bit_nat unat_byte_7f MAX_VARINT64_BYTES_def word_less_nat_alt)
    then obtain x rest' where x: "rest = varint_loop x @ rest'" "w = v + 2 ^ sh * ?d + 2 ^ (sh + 7) * x"
        "m = Suc n + length (varint_loop x)" "x \<noteq> 0" "m \<le> 10" "w < 2 ^ 64" by auto
    have "varint_loop (?d + 128 * x) = b # varint_loop x"
      using x(4) False by (subst varint_loop_cont) (simp_all add: cont_byte_eq)
    with x show ?thesis
      by (intro exI [of _ "?d + 128 * x"] exI [of _ rest']) (simp add: power_add algebra_simps)
  qed
qed simp

lemma decodeVarint64_encode:
  "x \<le> UINT64_MAX \<Longrightarrow> drop off bytes = varint_loop x @ rest \<Longrightarrow>
   decodeVarint64 bytes off = Inr (x, length (varint_loop x))"
  using decodeVarint64_loop_encode [of 0 0 0 x rest]
  by (simp add: decodeVarint64_def UINT64_MAX_def)

lemma decodeVarint64_canonical:
  assumes "decodeVarint64 bytes off = Inr (x, n)"
  shows "\<exists>rest. drop off bytes = varint_loop x @ rest" and "n = length (varint_loop x)"
    and "x \<le> UINT64_MAX" and "n \<le> 10" and "0 < n"
  using decodeVarint64_loop_canonical [OF assms [unfolded decodeVarint64_def], simplified]
  by (auto simp: UINT64_MAX_def)

lemma decodeVarint64_bounds:
  assumes "decodeVarint64 bytes off = Inr (x, n)"
  shows "off + n \<le> length bytes \<and> 0 < n"
proof -
  from decodeVarint64_canonical [OF assms] obtain rest where
    "drop off bytes = varint_loop x @ rest" "n = length (varint_loop x)" "0 < n" by auto
  then have "length bytes - off = n + length rest" by (metis length_append length_drop)
  with \<open>0 < n\<close> show ?thesis by auto
qed

lemma decodeVarint_loop_encode:
  "sh = 7 * n \<Longrightarrow> v < 2 ^ sh \<Longrightarrow> n > 0 \<longrightarrow> x \<noteq> 0 \<Longrightarrow> v + 2 ^ sh * x < 2 ^ 32 \<Longrightarrow>
   decodeVarint_loop (varint_loop x @ rest) (of_nat v) sh n =
     Inr (of_nat (v + 2 ^ sh * x), n + length (varint_loop x))"
proof (induction x arbitrary: v sh n rule: varint_loop.induct)
  case (1 x)
  have or32: "(of_nat v :: 32 word) OR push_bit sh (of_nat d) = of_nat (v + 2 ^ sh * d)" for d
    using "1.prems"(2) by (simp add: push_bit_of_nat or_push_bit_nat flip: of_nat_or_eq)
  have ub: "(ucast (b AND 0x7f) :: 32 word) = of_nat (unat b mod 128)" for b :: byte
    by (metis of_nat_unat unat_byte_7f)
  show ?case
  proof (cases "0x7f < x")
    case False
    then show ?thesis
      using "1.prems" or32 [of x]
      by (simp add: varint_loop_small byte_80 unat_of_nat ub)
  next
    case True
    have n3: "n \<le> 3"
    proof (rule ccontr)
      assume "\<not> n \<le> 3"
      with "1.prems" have "28 \<le> sh" by auto
      with True have "(2::nat) ^ 28 * 127 \<le> 2 ^ sh * x" by (intro mult_le_mono power_increasing) auto
      with "1.prems"(4) show False by simp
    qed
    have v': "v + 2 ^ sh * (x mod 128) < 2 ^ (sh + 7)"
    proof -
      have "2 ^ sh * (x mod 128) \<le> 2 ^ sh * 127" by (rule mult_le_mono2) simp
      with "1.prems"(2) have "v + 2 ^ sh * (x mod 128) < 2 ^ sh * 128" by linarith
      then show ?thesis by (simp add: power_add)
    qed
    have eq: "v + 2 ^ sh * (x mod 128) + 2 ^ (sh + 7) * (x div 128) = v + 2 ^ sh * x"
      using mult_div_mod_eq [of 128 x]
      by (simp add: power_add algebra_simps flip: distrib_left)
    have "decodeVarint_loop (varint_loop (x div 128) @ rest) (of_nat (v + 2 ^ sh * (x mod 128))) (sh + 7) (Suc n)
        = Inr (of_nat (v + 2 ^ sh * (x mod 128) + 2 ^ (sh + 7) * (x div 128)),
               Suc n + length (varint_loop (x div 128)))"
      by (rule "1.IH" [unfolded drop_7_nat])
        (use True "1.prems" v' eq in \<open>auto simp: div_eq_0_iff\<close>)
    then have "decodeVarint_loop (varint_loop (x div 128) @ rest) (of_nat (v + 2 ^ sh * (x mod 128))) (sh + 7) (Suc n)
        = Inr (of_nat (v + 2 ^ sh * x), Suc n + length (varint_loop (x div 128)))"
      unfolding eq .
    with True n3 show ?thesis
      by (simp add: varint_loop_cont Let_def byte_80 unat_cont_byte ub or32)
  qed
qed

lemma decodeVarint_encode:
  "x \<le> UINT32_MAX \<Longrightarrow> drop off bytes = varint_loop x @ rest \<Longrightarrow>
   decodeVarint bytes off = Inr (x, length (varint_loop x))"
  using decodeVarint_loop_encode [of 0 0 0 x rest]
  by (simp add: decodeVarint_def UINT32_MAX_def unat_of_nat)

section \<open>The reader stays in its buffer and moves forward\<close>

definition moves_on :: "ProtoReader \<Rightarrow> ProtoReader \<Rightarrow> bool" where
  "moves_on r r' = (rd_bytes r' = rd_bytes r \<and> rd_cursor r \<le> rd_cursor r' \<and>
     (rd_cursor r \<le> length (rd_bytes r) \<longrightarrow> rd_cursor r' \<le> length (rd_bytes r)))"

lemma moves_on_trans: "moves_on r r' \<Longrightarrow> moves_on r' r'' \<Longrightarrow> moves_on r r''"
  by (auto simp: moves_on_def)

lemmas wire_type_defs [simp] = WIRE_TYPE_VARINT_def WIRE_TYPE_FIXED64_def
  WIRE_TYPE_LENGTH_DELIMITED_def WIRE_TYPE_FIXED32_def

lemma readTag_moves:
  "readTag r = Inr (f, r') \<Longrightarrow>
     moves_on r r' \<and> rd_cursor r < rd_cursor r' \<and> rd_cursor r' \<le> length (rd_bytes r)"
  by (auto simp: readTag_def and_then_eq_Inr Let_def moves_on_def split: if_splits
      dest!: decodeVarint64_bounds)

lemma takeWireType_moves: "takeWireType r = Inr (w, r') \<Longrightarrow> moves_on r r'"
  by (auto simp: takeWireType_def moves_on_def split: option.splits)

lemma expectWireType_moves: "expectWireType w r = Inr r' \<Longrightarrow> moves_on r r'"
  by (auto simp: expectWireType_def and_then_eq_Inr split: if_splits dest: takeWireType_moves)

lemma readVarintValue_moves: "readVarintValue r = Inr (v, r') \<Longrightarrow> moves_on r r'"
  unfolding readVarintValue_def and_then_eq_Inr
  by (auto simp: moves_on_def dest!: expectWireType_moves decodeVarint64_bounds)

lemma readLengthPrefix_moves:
  "readLengthPrefix r = Inr (e, r') \<Longrightarrow> moves_on r r' \<and> rd_cursor r' \<le> e \<and> e \<le> length (rd_bytes r)"
  unfolding readLengthPrefix_def and_then_eq_Inr
  by (auto simp: moves_on_def Let_def split: if_splits dest!: decodeVarint64_bounds)

lemma readUint32_moves: "readUint32 r = Inr (v, r') \<Longrightarrow> moves_on r r' \<and> v \<le> UINT32_MAX"
  by (auto simp: readUint32_def and_then_eq_Inr split: if_splits dest: readVarintValue_moves)

lemma readFixed64_moves: "readFixed64 r = Inr (v, r') \<Longrightarrow> moves_on r r'"
  unfolding readFixed64_def and_then_eq_Inr
  by (auto simp: moves_on_def Let_def split: if_splits dest!: expectWireType_moves)

lemma readBytes_moves: "readBytes r = Inr (v, r') \<Longrightarrow> moves_on r r'"
  unfolding readBytes_def and_then_eq_Inr
  by (auto simp: moves_on_def dest!: expectWireType_moves readLengthPrefix_moves)

lemma skipField_moves: "skipField r = Inr r' \<Longrightarrow> moves_on r r'"
  unfolding skipField_def and_then_eq_Inr
  by (auto simp: moves_on_def advance_def and_then_eq_Inr split: if_splits
      dest!: takeWireType_moves readLengthPrefix_moves decodeVarint64_bounds)

lemma apply_read_moves: "apply_read op r = Inr (v, r') \<Longrightarrow> moves_on r r'"
  by (cases op) (auto simp: and_then_eq_Inr readUint64_def readBool_def
      dest: readUint32_moves readVarintValue_moves readFixed64_moves readBytes_moves skipField_moves)

function decode_fields ::
  "(nat \<Rightarrow> field_read) \<Rightarrow> (nat \<Rightarrow> field_value \<Rightarrow> 'a \<Rightarrow> 'a) \<Rightarrow> ProtoReader \<Rightarrow> 'a \<Rightarrow> 'a result" where
  "decode_fields op store r acc =
     (if hasMore r
      then and_then (readTag r) (\<lambda>(fieldNumber, r1).
           and_then (apply_read (op fieldNumber) r1) (\<lambda>(value, r2).
           decode_fields op store r2 (store fieldNumber value acc)))
      else Inr acc)"
  by pat_completeness auto
termination
proof (relation "measure (\<lambda>(op, store, r, acc). length (rd_bytes r) - rd_cursor r)", goal_cases)
  case (2 op store r acc p1 f r1 p2 v r2)
  then have "readTag r = Inr (f, r1)" and "apply_read (op f) r1 = Inr (v, r2)" by simp_all
  from readTag_moves [OF this(1)] apply_read_moves [OF this(2)] 2(1) show ?case
    by (auto simp: moves_on_def hasMore_def)
qed simp

declare decode_fields.simps [simp del]

section \<open>A reader behind a prefix behaves as a reader of the rest\<close>

definition shift_reader :: "bytes \<Rightarrow> ProtoReader \<Rightarrow> ProtoReader" where
  "shift_reader pre r = r\<lparr>rd_bytes := pre @ rd_bytes r, rd_cursor := length pre + rd_cursor r\<rparr>"

lemma shift_reader_simps [simp]:
  "rd_bytes (shift_reader pre r) = pre @ rd_bytes r"
  "rd_cursor (shift_reader pre r) = length pre + rd_cursor r"
  "rd_wireType (shift_reader pre r) = rd_wireType r"
  by (simp_all add: shift_reader_def)

lemma shift_reader_update [simp]:
  "(shift_reader pre r)\<lparr>rd_cursor := length pre + c\<rparr> = shift_reader pre (r\<lparr>rd_cursor := c\<rparr>)"
  "(shift_reader pre r)\<lparr>rd_wireType := w\<rparr> = shift_reader pre (r\<lparr>rd_wireType := w\<rparr>)"
  by (simp_all add: shift_reader_def)

lemma decodeVarint64_shift [simp]:
  "decodeVarint64 (pre @ xs) (length pre + c) = decodeVarint64 xs c"
  by (simp add: decodeVarint64_def)

lemma js_slice_shift [simp]: "js_slice (length pre + a) (length pre + b) (pre @ xs) = js_slice a b xs"
  by (simp add: js_slice_def)

definition shift_result :: "bytes \<Rightarrow> ('v \<times> ProtoReader) result \<Rightarrow> ('v \<times> ProtoReader) result" where
  "shift_result pre x = and_then x (\<lambda>(v, r). Inr (v, shift_reader pre r))"

lemma shift_result_simps [simp]:
  "shift_result pre (Inr (v, r)) = Inr (v, shift_reader pre r)"
  "shift_result pre (Inl e) = Inl e"
  by (simp_all add: shift_result_def)

lemma readTag_shift [simp]: "readTag (shift_reader pre r) = shift_result pre (readTag r)"
  by (cases "decodeVarint64 (rd_bytes r) (rd_cursor r)")
    (auto simp: readTag_def Let_def shift_reader_def split: prod.splits)

lemma expectWireType_shift [simp]:
  "expectWireType w (shift_reader pre r) = and_then (expectWireType w r) (\<lambda>r. Inr (shift_reader pre r))"
  by (auto simp: expectWireType_def takeWireType_def split: option.splits)

lemma readVarintValue_shift [simp]:
  "readVarintValue (shift_reader pre r) = shift_result pre (readVarintValue r)"
proof (cases "expectWireType WIRE_TYPE_VARINT r")
  case (Inr r1)
  then show ?thesis
    by (cases "decodeVarint64 (rd_bytes r1) (rd_cursor r1)")
      (auto simp: readVarintValue_def add.assoc)
qed (simp add: readVarintValue_def)

lemma readLengthPrefix_shift [simp]:
  "readLengthPrefix (shift_reader pre r) =
     and_then (readLengthPrefix r) (\<lambda>(e, r). Inr (length pre + e, shift_reader pre r))"
  by (cases "decodeVarint64 (rd_bytes r) (rd_cursor r)")
    (auto simp: readLengthPrefix_def Let_def add.assoc)

lemma apply_read_shift [simp]: "apply_read op (shift_reader pre r) = shift_result pre (apply_read op r)"
proof (cases op)
  case ReadUint32
  then show ?thesis by (cases "readVarintValue r") (auto simp: readUint32_def)
next
  case ReadUint64
  then show ?thesis by (cases "readVarintValue r") (auto simp: readUint64_def)
next
  case ReadBool
  then show ?thesis by (cases "readVarintValue r") (auto simp: readBool_def)
next
  case ReadFixed64
  then show ?thesis
    by (cases "expectWireType WIRE_TYPE_FIXED64 r") (auto simp: readFixed64_def Let_def add.assoc)
next
  case ReadBytes
  show ?thesis
  proof (cases "expectWireType WIRE_TYPE_LENGTH_DELIMITED r")
    case (Inr r1)
    with ReadBytes show ?thesis by (cases "readLengthPrefix r1") (auto simp: readBytes_def)
  qed (simp add: ReadBytes readBytes_def)
next
  case SkipField
  show ?thesis
  proof (cases "takeWireType r")
    case (Inr a)
    then obtain w where a: "a = (w, r\<lparr>rd_wireType := None\<rparr>)" and w: "rd_wireType r = Some w"
      by (auto simp: takeWireType_def split: option.splits)
    have t: "takeWireType (shift_reader pre r) = Inr (w, shift_reader pre (r\<lparr>rd_wireType := None\<rparr>))"
      by (simp add: takeWireType_def w)
    show ?thesis
      using SkipField Inr a t
      by (cases "decodeVarint64 (rd_bytes r) (rd_cursor r)";
          cases "readLengthPrefix (r\<lparr>rd_wireType := None\<rparr>)")
        (auto simp: skipField_def advance_def add.assoc)
  qed (auto simp: SkipField skipField_def takeWireType_def split: option.splits)
qed

lemma decode_fields_shift:
  "decode_fields op store (shift_reader pre r) acc = decode_fields op store r acc"
proof (induction op store r acc rule: decode_fields.induct)
  case (1 op store r acc)
  show ?case
  proof (cases "hasMore r")
    case True
    show ?thesis
    proof (cases "readTag r")
      case (Inr a)
      obtain f r1 where a: "a = (f, r1)" by fastforce
      show ?thesis
        using True Inr a "1" [OF True Inr [unfolded a] refl]
        by (cases "apply_read (op f) r1")
          (auto simp: decode_fields.simps [of op store r] decode_fields.simps [of op store "shift_reader pre r"]
            hasMore_def)
    qed (use True in \<open>simp add: decode_fields.simps [of op store r]
        decode_fields.simps [of op store "shift_reader pre r"] hasMore_def\<close>)
  qed (simp add: decode_fields.simps [of op store r] decode_fields.simps [of op store "shift_reader pre r"]
      hasMore_def)
qed

section \<open>Fields written by the encoders are read back\<close>

lemma encodeTag_eq:
  assumes "f < 2 ^ 28" and "w < 8"
  shows "encodeTag f w = Inr (varint_loop (8 * f + w))"
proof -
  have "push_bit 3 (of_nat f :: 32 word) OR of_nat w = of_nat (w OR push_bit 3 f)"
    by (simp only: of_nat_or_eq push_bit_of_nat or.commute)
  also have "w OR push_bit 3 f = 8 * f + w" using assms(2) by (simp add: or_push_bit_nat)
  finally have "push_bit 3 (of_nat f :: 32 word) OR of_nat w = of_nat (8 * f + w)" .
  moreover have "sint (of_nat (8 * f + w) :: 32 word) = int (8 * f + w)"
    using assms by (simp add: signed_of_nat signed_take_bit_int_eq_self_iff del: of_nat_add of_nat_mult)
  moreover have "8 * f + w \<le> UINT32_MAX" using assms by (simp add: UINT32_MAX_def)
  ultimately show ?thesis by (simp add: encodeTag_def encodeVarint_def del: of_nat_add of_nat_mult)
qed

lemma encodeVarint_eq: "encodeVarint v = Inr e \<longleftrightarrow> 0 \<le> v \<and> v \<le> int UINT32_MAX \<and> e = varint_loop (nat v)"
  by (auto simp: encodeVarint_def)

lemma encodeVarint64_eq: "encodeVarint64 v = Inr e \<longleftrightarrow> 0 \<le> v \<and> v \<le> int UINT64_MAX \<and> e = varint_loop (nat v)"
  by (auto simp: encodeVarint64_def)

lemma UINT_le [simp]: "x \<le> UINT32_MAX \<Longrightarrow> x \<le> UINT64_MAX"
  by (simp add: UINT32_MAX_def UINT64_MAX_def)

definition tagged :: "nat \<Rightarrow> nat \<Rightarrow> bytes \<Rightarrow> ProtoReader" where
  "tagged w n xs = \<lparr>rd_bytes = xs, rd_cursor = n, rd_wireType = Some w\<rparr>"

lemma hasMore_new [simp]: "hasMore (new_ProtoReader xs) \<longleftrightarrow> xs \<noteq> []"
  by (simp add: hasMore_def new_ProtoReader_def)

lemma decode_fields_tag:
  assumes f: "0 < f" "f < 2 ^ 28" and w: "w < 8"
  shows "decode_fields op store (new_ProtoReader (varint_loop (8 * f + w) @ rest)) acc =
    and_then (apply_read (op f) (tagged w 0 rest)) (\<lambda>(value, r2).
      decode_fields op store r2 (store f value acc))"
proof -
  let ?t = "varint_loop (8 * f + w)"
  have "8 * f + w \<le> UINT64_MAX" using f w by (simp add: UINT64_MAX_def)
  then have d: "decodeVarint64 (?t @ rest) 0 = Inr (8 * f + w, length ?t)"
    by (rule decodeVarint64_encode) simp
  have "drop_bit 3 (8 * f + w) = f" using w by (simp add: drop_bit_eq_div)
  moreover have "(8 * f + w) AND 7 = w"
    using w take_bit_eq_mask [of 3 "8 * f + w"] by (simp add: mask_eq_exp_minus_1 take_bit_eq_mod)
  ultimately have "readTag (new_ProtoReader (?t @ rest)) = Inr (f, shift_reader ?t (tagged w 0 rest))"
    using d f by (simp add: readTag_def new_ProtoReader_def MAX_FIELD_NUMBER_def shift_reader_def
        tagged_def Let_def)
  then show ?thesis
    by (cases "apply_read (op f) (tagged w 0 rest)")
      (auto simp: decode_fields.simps [of op store "new_ProtoReader (?t @ rest)"]
        decode_fields_shift)
qed

lemma decode_fields_rest:
  "decode_fields op store \<lparr>rd_bytes = xs @ rest, rd_cursor = length xs, rd_wireType = None\<rparr> acc =
   decode_fields op store (new_ProtoReader rest) acc"
  using decode_fields_shift [of op store xs "new_ProtoReader rest" acc]
  by (simp add: shift_reader_def new_ProtoReader_def)

definition field_ok :: "nat \<Rightarrow> bool" where
  "field_ok f = (0 < f \<and> f < 2 ^ 28)"

lemma decode_uint32_field:
  assumes "encodeUint32Field f v = Inr e" and "field_ok f"
  shows "op f = ReadUint32 \<Longrightarrow> decode_fields op store (new_ProtoReader (e @ rest)) acc =
      decode_fields op store (new_ProtoReader rest) (store f (VNat (nat v)) acc)"
    and "op f = SkipField \<Longrightarrow> decode_fields op store (new_ProtoReader (e @ rest)) acc =
      decode_fields op store (new_ProtoReader rest) (store f VSkipped acc)"
proof -
  from assms have v: "nat v \<le> UINT32_MAX" and e: "e = varint_loop (8 * f + 0) @ varint_loop (nat v)"
    by (auto simp: encodeUint32Field_def encodeTag_eq field_ok_def encodeVarint_eq nat_le_iff and_then_eq_Inr)
  have d: "decodeVarint64 (varint_loop (nat v) @ rest) 0 = Inr (nat v, length (varint_loop (nat v)))"
    by (rule decodeVarint64_encode) (use v in simp_all)
  note tag = decode_fields_tag [of f 0 op store "varint_loop (nat v) @ rest" acc]
  show "op f = ReadUint32 \<Longrightarrow> decode_fields op store (new_ProtoReader (e @ rest)) acc =
      decode_fields op store (new_ProtoReader rest) (store f (VNat (nat v)) acc)"
    using tag assms(2) v d unfolding e append_assoc
    by (simp add: field_ok_def tagged_def readUint32_def readVarintValue_def expectWireType_def
        takeWireType_def decode_fields_rest)
  show "op f = SkipField \<Longrightarrow> decode_fields op store (new_ProtoReader (e @ rest)) acc =
      decode_fields op store (new_ProtoReader rest) (store f VSkipped acc)"
    using tag assms(2) v d unfolding e append_assoc
    by (simp add: field_ok_def tagged_def skipField_def takeWireType_def decode_fields_rest)
qed

lemma decode_uint64_field:
  assumes "encodeUint64Field f v = Inr e" and "field_ok f" and "op f = ReadUint64"
  shows "decode_fields op store (new_ProtoReader (e @ rest)) acc =
      decode_fields op store (new_ProtoReader rest) (store f (VNat (nat v)) acc)"
proof -
  from assms have v: "nat v \<le> UINT64_MAX" and e: "e = varint_loop (8 * f + 0) @ varint_loop (nat v)"
    by (auto simp: encodeUint64Field_def encodeTag_eq field_ok_def encodeVarint64_eq nat_le_iff and_then_eq_Inr)
  have d: "decodeVarint64 (varint_loop (nat v) @ rest) 0 = Inr (nat v, length (varint_loop (nat v)))"
    by (rule decodeVarint64_encode) (use v in simp_all)
  show ?thesis
    using decode_fields_tag [of f 0 op store "varint_loop (nat v) @ rest" acc] assms(2,3) v d
    unfolding e append_assoc
    by (simp add: field_ok_def tagged_def readUint64_def readVarintValue_def expectWireType_def
        takeWireType_def decode_fields_rest)
qed

lemma decode_bytes_field:
  assumes "encodeBytesField f data = Inr e" and "field_ok f"
  shows "op f = ReadBytes \<Longrightarrow> decode_fields op store (new_ProtoReader (e @ rest)) acc =
      decode_fields op store (new_ProtoReader rest) (store f (VBytes data) acc)"
    and "op f = SkipField \<Longrightarrow> decode_fields op store (new_ProtoReader (e @ rest)) acc =
      decode_fields op store (new_ProtoReader rest) (store f VSkipped acc)"
proof -
  let ?n = "length data" and ?l = "varint_loop (length data)"
  from assms have n: "?n \<le> UINT32_MAX" and e: "e = varint_loop (8 * f + 2) @ ?l @ data"
    by (auto simp: encodeBytesField_def encodeTag_eq field_ok_def encodeVarint_eq and_then_eq_Inr)
  have d: "decodeVarint64 (?l @ data @ rest) 0 = Inr (?n, length ?l)"
    by (rule decodeVarint64_encode) (use n in simp_all)
  note tag = decode_fields_tag [of f 2 op store "?l @ data @ rest" acc]
    and rst = decode_fields_rest [of op store "?l @ data" rest, unfolded append_assoc length_append]
  have sl: "js_slice (length ?l) (length ?l + ?n) (?l @ data @ rest) = data"
    by (rule js_slice_append_right) simp_all
  show "op f = ReadBytes \<Longrightarrow> decode_fields op store (new_ProtoReader (e @ rest)) acc =
      decode_fields op store (new_ProtoReader rest) (store f (VBytes data) acc)"
    using tag assms(2) d sl rst unfolding e append_assoc
    by (simp add: field_ok_def tagged_def readBytes_def readLengthPrefix_def expectWireType_def
        takeWireType_def Let_def)
  show "op f = SkipField \<Longrightarrow> decode_fields op store (new_ProtoReader (e @ rest)) acc =
      decode_fields op store (new_ProtoReader rest) (store f VSkipped acc)"
    using tag assms(2) d rst unfolding e append_assoc
    by (simp add: field_ok_def tagged_def skipField_def readLengthPrefix_def takeWireType_def Let_def)
qed

lemma decode_fields_end [simp]: "decode_fields op store (new_ProtoReader []) acc = Inr acc"
  by (simp add: decode_fields.simps hasMore_def new_ProtoReader_def)

lemma fixed_le_value_bytes: "x < 256 ^ n \<Longrightarrow> fixed_le_value (fixed_le_bytes n x) = x"
proof (induction n arbitrary: x)
  case (Suc n)
  have m: "x AND 0xff = x mod 256"
    using take_bit_eq_mask [of 8 x] by (simp add: mask_eq_exp_minus_1 take_bit_eq_mod)
  have "x div 256 < 256 ^ n" using Suc.prems by (simp add: less_mult_imp_div_less mult.commute)
  then have "fixed_le_value (fixed_le_bytes (Suc n) x) = push_bit 8 (x div 256) OR x mod 256"
    using Suc.IH by (simp add: m drop_bit_eq_div unat_of_nat)
  also have "\<dots> = x mod 256 OR push_bit 8 (x div 256)" by (simp only: or.commute)
  also have "\<dots> = x" by (subst or_push_bit_nat) simp_all
  finally show ?case .
qed simp

lemma length_fixed_le_bytes [simp]: "length (fixed_le_bytes n x) = n"
  by (induction n arbitrary: x) auto

lemma decode_fixed64_field:
  assumes "encodeFixed64Field f v = Inr e" and "field_ok f" and "op f = ReadFixed64"
  shows "decode_fields op store (new_ProtoReader (e @ rest)) acc =
      decode_fields op store (new_ProtoReader rest) (store f (VNat (nat v)) acc)"
proof -
  from assms have v: "nat v \<le> UINT64_MAX" and e: "e = varint_loop (8 * f + 1) @ fixed_le_bytes 8 (nat v)"
    by (auto simp: encodeFixed64Field_def encodeTag_eq field_ok_def nat_le_iff and_then_eq_Inr split: if_splits)
  have "nat v < 256 ^ 8" using v by (simp add: UINT64_MAX_def)
  then show ?thesis
    using decode_fields_tag [of f 1 op store "fixed_le_bytes 8 (nat v) @ rest" acc] assms(2,3)
      decode_fields_rest [of op store "fixed_le_bytes 8 (nat v)" rest]
    unfolding e append_assoc
    by (simp add: field_ok_def tagged_def readFixed64_def expectWireType_def takeWireType_def Let_def
        fixed_le_value_bytes)
qed

section \<open>Properties\<close>

text \<open>
  The 64-bit varint decoder is the exact inverse of the encoder. It returns a value and a
  byte count exactly when the bytes at the offset start with the one encoding of this value and
  the count is the length of this encoding; redundant, truncated and too long forms are refused.
\<close>

theorem decodeVarint64_iff:
  "decodeVarint64 bytes offset = Inr (value, bytesRead) \<longleftrightarrow>
   (\<exists>e. encodeVarint64 (int value) = Inr e \<and> bytesRead = length e \<and>
        take bytesRead (drop offset bytes) = e)"
proof
  assume l: "decodeVarint64 bytes offset = Inr (value, bytesRead)"
  from decodeVarint64_canonical [OF l] show "\<exists>e. encodeVarint64 (int value) = Inr e \<and> bytesRead = length e \<and>
        take bytesRead (drop offset bytes) = e"
    by (auto simp: encodeVarint64_eq)
next
  assume "\<exists>e. encodeVarint64 (int value) = Inr e \<and> bytesRead = length e \<and>
        take bytesRead (drop offset bytes) = e"
  then have v: "value \<le> UINT64_MAX" and n: "bytesRead = length (varint_loop value)"
    and t: "take bytesRead (drop offset bytes) = varint_loop value"
    by (auto simp: encodeVarint64_eq)
  have "drop offset bytes = varint_loop value @ drop bytesRead (drop offset bytes)"
    by (subst append_take_drop_id [of bytesRead, symmetric]) (simp only: t)
  from decodeVarint64_encode [OF v this] n show "decodeVarint64 bytes offset = Inr (value, bytesRead)"
    by simp
qed

text \<open>
  Reading one field, a tag and then any read or skip method, keeps the buffer, moves the
  cursor forward by at least one byte and never past the end of the buffer. This is why every
  message decoder ends after at most as many fields as the message has bytes.
\<close>

theorem field_read_in_bounds:
  assumes "readTag r = Inr (fieldNumber, r1)" and "apply_read op r1 = Inr (value, r2)"
  shows "rd_bytes r2 = rd_bytes r \<and> rd_cursor r < rd_cursor r2 \<and> rd_cursor r2 \<le> length (rd_bytes r)"
  using readTag_moves [OF assms(1)] apply_read_moves [OF assms(2)] by (auto simp: moves_on_def)

theorem field_read_in_bounds_witness:
  "rd_cursor (new_ProtoReader [0x08, 0x05]) <
   rd_cursor \<lparr>rd_bytes = [0x08, 0x05], rd_cursor = 2, rd_wireType = None\<rparr>"
proof -
  have "readTag (new_ProtoReader [0x08, 0x05]) = Inr (1, tagged 0 1 [0x08, 0x05])"
    by (simp add: readTag_def new_ProtoReader_def tagged_def decodeVarint64_def Let_def
        MAX_VARINT64_BYTES_def MAX_FIELD_NUMBER_def drop_bit_eq_div)
  moreover have "apply_read ReadUint32 (tagged 0 1 [0x08, 0x05]) =
      Inr (VNat 5, \<lparr>rd_bytes = [0x08, 0x05], rd_cursor = 2, rd_wireType = None\<rparr>)"
    by (simp add: readUint32_def readVarintValue_def expectWireType_def takeWireType_def tagged_def
        decodeVarint64_def Let_def MAX_VARINT64_BYTES_def UINT32_MAX_def)
  ultimately show ?thesis
    using field_read_in_bounds [of "new_ProtoReader [0x08, 0x05]" 1 "tagged 0 1 [0x08, 0x05]" ReadUint32
        "VNat 5" "\<lparr>rd_bytes = [0x08, 0x05], rd_cursor = 2, rd_wireType = None\<rparr>"]
    by (simp add: new_ProtoReader_def)
qed

end
