(* ===== verification/Utf8.thy ===== *)
theory Utf8
  imports Prelude
begin

text \<open>
  The portable UTF-8 decoder of internal/platform/utf8.ts and the \<open>TextEncoder\<close> of the language's
  library that it inverts. A JavaScript string is a list of 16-bit code units. The decoder is the
  state machine of the source, with its five loop variables; a byte that ends an invalid sequence
  is looked at again, as the source's \<open>index -= 1\<close> does.

  Shown here: the decoder ends on every input, and it gives back every string of Unicode scalar
  values that does not start with a byte order mark.
\<close>

section \<open>Definitions\<close>

type_synonym js_string = "16 word list"

subsection \<open>The encoder of the language's library\<close>

text \<open>
  \<open>TextEncoder.encode\<close> first reads the code units as Unicode scalar values; an unpaired
  surrogate is read as U+FFFD.
\<close>

definition high_surrogate :: "16 word \<Rightarrow> bool" where
  "high_surrogate u = (0xd800 \<le> unat u \<and> unat u \<le> 0xdbff)"

definition low_surrogate :: "16 word \<Rightarrow> bool" where
  "low_surrogate u = (0xdc00 \<le> unat u \<and> unat u \<le> 0xdfff)"

fun utf16_scalars :: "js_string \<Rightarrow> nat list" where
  "utf16_scalars [] = []"
| "utf16_scalars [u] = [if high_surrogate u \<or> low_surrogate u then 0xfffd else unat u]"
| "utf16_scalars (u # w # rest) =
     (if high_surrogate u \<and> low_surrogate w
      then (0x10000 + (unat u - 0xd800) * 0x400 + (unat w - 0xdc00)) # utf16_scalars rest
      else (if high_surrogate u \<or> low_surrogate u then 0xfffd else unat u) # utf16_scalars (w # rest))"

definition utf8_scalar :: "nat \<Rightarrow> bytes" where
  "utf8_scalar c =
     (if c \<le> 0x7f then [of_nat c]
      else if c \<le> 0x7ff then [of_nat (0xc0 + c div 64), of_nat (0x80 + c mod 64)]
      else if c \<le> 0xffff
      then [of_nat (0xe0 + c div 4096), of_nat (0x80 + c div 64 mod 64), of_nat (0x80 + c mod 64)]
      else [of_nat (0xf0 + c div 262144), of_nat (0x80 + c div 4096 mod 64),
            of_nat (0x80 + c div 64 mod 64), of_nat (0x80 + c mod 64)])"

definition textEncoder_encode :: "js_string \<Rightarrow> bytes" where
  "textEncoder_encode s = concat (map utf8_scalar (utf16_scalars s))"

subsection \<open>The portable decoder\<close>

definition INVALID_UTF8 :: js_error where
  "INVALID_UTF8 = PlainError ''The encoded data is not valid UTF-8''"

definition REPLACEMENT :: nat where
  "REPLACEMENT = 0xfffd"

text \<open>The code units one call of \<open>emit\<close> pushes.\<close>

definition emit :: "nat \<Rightarrow> js_string" where
  "emit codePoint =
     (if codePoint > 0xffff
      then (let offset = codePoint - 0x10000 in
            [of_nat (0xd800 OR drop_bit 10 offset), of_nat (0xdc00 OR (offset AND 0x3ff))])
      else [of_nat codePoint])"

definition prepend :: "js_string \<Rightarrow> js_string result \<Rightarrow> js_string result" where
  "prepend us r = and_then r (\<lambda>out. Inr (us @ out))"

text \<open>What \<open>invalid()\<close> and the work behind it give: the error, or U+FFFD before the rest.\<close>

definition invalid :: "bool \<Rightarrow> js_string result \<Rightarrow> js_string result" where
  "invalid fatal r = (if fatal then Inl INVALID_UTF8 else prepend (emit REPLACEMENT) r)"

function (sequential) utf8_loop ::
  "bool \<Rightarrow> bytes \<Rightarrow> nat \<Rightarrow> nat \<Rightarrow> nat \<Rightarrow> nat \<Rightarrow> nat \<Rightarrow> js_string result" where
  "utf8_loop fatal [] codePoint needed seen lower upper =
     (if needed \<noteq> 0 then invalid fatal (Inr []) else Inr [])"
| "utf8_loop fatal (b # rest) codePoint needed seen lower upper =
     (let byte = unat b in
      if needed = 0 then
        if byte \<le> 0x7f then prepend (emit byte) (utf8_loop fatal rest codePoint 0 seen lower upper)
        else if byte \<ge> 0xc2 \<and> byte \<le> 0xdf
        then utf8_loop fatal rest (byte AND 0x1f) 1 seen lower upper
        else if byte \<ge> 0xe0 \<and> byte \<le> 0xef
        then utf8_loop fatal rest (byte AND 0x0f) 2 seen
               (if byte = 0xe0 then 0xa0 else lower) (if byte = 0xed then 0x9f else upper)
        else if byte \<ge> 0xf0 \<and> byte \<le> 0xf4
        then utf8_loop fatal rest (byte AND 0x07) 3 seen
               (if byte = 0xf0 then 0x90 else lower) (if byte = 0xf4 then 0x8f else upper)
        else invalid fatal (utf8_loop fatal rest codePoint 0 seen lower upper)
      else if byte < lower \<or> byte > upper
      then invalid fatal (utf8_loop fatal (b # rest) 0 0 0 0x80 0xbf)
      else (let codePoint = push_bit 6 codePoint OR (byte AND 0x3f); seen = seen + 1 in
            if seen = needed then prepend (emit codePoint) (utf8_loop fatal rest 0 0 0 0x80 0xbf)
            else utf8_loop fatal rest codePoint needed seen 0x80 0xbf))"
  by pat_completeness auto
termination
  by (relation "measures [\<lambda>(fatal, bs, c, needed, s, l, u). length bs,
                          \<lambda>(fatal, bs, c, needed, s, l, u). if needed = 0 then 0 else 1]") auto

declare utf8_loop.simps(2) [simp del]

definition utf8DecodePortable :: "bytes \<Rightarrow> bool \<Rightarrow> js_string result" where
  "utf8DecodePortable bytes fatal =
     (let start = (if length bytes \<ge> 3 \<and> bytes ! 0 = 0xef \<and> bytes ! 1 = 0xbb \<and> bytes ! 2 = 0xbf
                   then 3 else 0)
      in utf8_loop fatal (drop start bytes) 0 0 0 0x80 0xbf)"

text \<open>
  \<open>utf8Decode\<close> uses the runtime's decoder when a probe shows that it conforms to the WHATWG
  decoder, which is the portable one; the model is the portable decoder.
\<close>

definition utf8Decode :: "bytes \<Rightarrow> js_string result" where
  "utf8Decode bytes = utf8DecodePortable bytes False"

subsection \<open>Well-formed strings\<close>

text \<open>
  A Unicode scalar value, and a string all of whose surrogates are paired: the strings that the
  encoder does not change.
\<close>

definition scalar :: "nat \<Rightarrow> bool" where
  "scalar c = (c \<le> 0x10ffff \<and> \<not> (0xd800 \<le> c \<and> c \<le> 0xdfff))"

fun well_formed_utf16 :: "js_string \<Rightarrow> bool" where
  "well_formed_utf16 [] = True"
| "well_formed_utf16 [u] = (\<not> high_surrogate u \<and> \<not> low_surrogate u)"
| "well_formed_utf16 (u # w # rest) =
     (if high_surrogate u \<and> low_surrogate w then well_formed_utf16 rest
      else \<not> high_surrogate u \<and> \<not> low_surrogate u \<and> well_formed_utf16 (w # rest))"

section \<open>Lemmas\<close>

lemma prepend_simps [simp]: "prepend us (Inr out) = Inr (us @ out)" "prepend us (Inl e) = Inl e"
  by (simp_all add: prepend_def)

lemma and_masks:
  "(x :: nat) AND 0x3f = x mod 64" "x AND 0x1f = x mod 32" "x AND 0x0f = x mod 16" "x AND 0x07 = x mod 8"
  "x AND 0x3ff = x mod 1024"
  using take_bit_eq_mask [of 6 x] take_bit_eq_mask [of 5 x] take_bit_eq_mask [of 4 x]
    take_bit_eq_mask [of 3 x] take_bit_eq_mask [of 10 x]
  by (simp_all add: mask_eq_exp_minus_1 take_bit_eq_mod)

lemma push_bit_6_or: "d < 64 \<Longrightarrow> push_bit 6 c OR d = 64 * c + (d :: nat)"
  using or_push_bit_nat [of d 6 c] by (simp add: or.commute)

lemma cont_step:
  assumes "n \<noteq> 0" and "l \<le> 0x80 + d" and "0x80 + d \<le> u" and "d < 64"
  shows "utf8_loop fatal (of_nat (0x80 + d) # rest) c n s l u =
    (if s + 1 = n then prepend (emit (64 * c + d)) (utf8_loop fatal rest 0 0 0 0x80 0xbf)
     else utf8_loop fatal rest (64 * c + d) n (s + 1) 0x80 0xbf)"
proof -
  have b: "unat (of_nat (0x80 + d) :: byte) = 0x80 + d"
    using assms(4) by (simp add: unat_of_nat del: of_nat_add)
  have "(0x80 + d) mod 64 = d" using assms(4) mod_mult_self3 [of 2 64 d] by simp
  then show ?thesis
    using assms by (subst utf8_loop.simps) (simp only: b and_masks, simp add: push_bit_6_or)
qed

lemma lead_step:
  assumes "0xc2 \<le> x" and "x \<le> 0xf4"
  shows "utf8_loop fatal (of_nat x # rest) 0 0 0 0x80 0xbf =
    (if x \<le> 0xdf then utf8_loop fatal rest (x mod 32) 1 0 0x80 0xbf
     else if x \<le> 0xef
     then utf8_loop fatal rest (x mod 16) 2 0 (if x = 0xe0 then 0xa0 else 0x80)
            (if x = 0xed then 0x9f else 0xbf)
     else utf8_loop fatal rest (x mod 8) 3 0 (if x = 0xf0 then 0x90 else 0x80)
            (if x = 0xf4 then 0x8f else 0xbf))"
proof -
  have b: "unat (of_nat x :: byte) = x" using assms by (simp add: unat_of_nat)
  show ?thesis using assms by (subst utf8_loop.simps) (simp only: b and_masks Let_def, simp)
qed

lemma utf8_loop_ascii:
  assumes "c \<le> 0x7f"
  shows "utf8_loop fatal (of_nat c # rest) 0 0 0 0x80 0xbf =
    prepend (emit c) (utf8_loop fatal rest 0 0 0 0x80 0xbf)"
proof -
  have "unat (of_nat c :: byte) = c" using assms by (simp add: unat_of_nat)
  with assms show ?thesis by (simp add: utf8_loop.simps)
qed

lemma utf8_loop_two:
  assumes "2 \<le> h" and "h < 32" and "d < 64"
  shows "utf8_loop fatal (of_nat (0xc0 + h) # of_nat (0x80 + d) # rest) 0 0 0 0x80 0xbf =
    prepend (emit (64 * h + d)) (utf8_loop fatal rest 0 0 0 0x80 0xbf)"
proof -
  have "(0xc0 + h) mod 32 = h" using assms(2) mod_mult_self3 [of 6 32 h] by simp
  then show ?thesis
    using assms by (simp add: lead_step cont_step del: of_nat_add)
qed

lemma utf8_loop_three:
  assumes "h < 16" and "m < 64" and "d < 64" and "h = 0 \<Longrightarrow> 32 \<le> m" and "h = 13 \<Longrightarrow> m < 32"
  shows "utf8_loop fatal (of_nat (0xe0 + h) # of_nat (0x80 + m) # of_nat (0x80 + d) # rest)
      0 0 0 0x80 0xbf =
    prepend (emit (4096 * h + 64 * m + d)) (utf8_loop fatal rest 0 0 0 0x80 0xbf)"
proof -
  have "(0xe0 + h) mod 16 = h" using assms(1) mod_mult_self3 [of 14 16 h] by simp
  moreover have "64 * (64 * h + m) + d = 4096 * h + 64 * m + d" by simp
  ultimately show ?thesis
    using assms by (auto simp: lead_step cont_step simp del: of_nat_add)
qed

lemma utf8_loop_four:
  assumes "h \<le> 4" and "k < 64" and "m < 64" and "d < 64" and "h = 0 \<Longrightarrow> 16 \<le> k"
    and "h = 4 \<Longrightarrow> k < 16"
  shows "utf8_loop fatal (of_nat (0xf0 + h) # of_nat (0x80 + k) # of_nat (0x80 + m) #
      of_nat (0x80 + d) # rest) 0 0 0 0x80 0xbf =
    prepend (emit (262144 * h + 4096 * k + 64 * m + d)) (utf8_loop fatal rest 0 0 0 0x80 0xbf)"
proof -
  have "(0xf0 + h) mod 8 = h" using assms(1) mod_mult_self3 [of 30 8 h] by simp
  moreover have "64 * (64 * (64 * h + k) + m) + d = 262144 * h + 4096 * k + 64 * m + d" by simp
  ultimately show ?thesis
    using assms by (auto simp: lead_step cont_step simp del: of_nat_add)
qed

text \<open>One encoded scalar value is read back as the code units that \<open>emit\<close> pushes.\<close>

lemma utf8_loop_scalar:
  assumes "scalar c"
  shows "utf8_loop fatal (utf8_scalar c @ rest) 0 0 0 0x80 0xbf =
    prepend (emit c) (utf8_loop fatal rest 0 0 0 0x80 0xbf)"
proof -
  consider "c \<le> 0x7f" | "0x7f < c" "c \<le> 0x7ff" | "0x7ff < c" "c \<le> 0xffff" | "0xffff < c"
    by linarith
  then show ?thesis
  proof cases
    case 1
    then show ?thesis by (simp add: utf8_scalar_def utf8_loop_ascii)
  next
    case 2
    then have "2 \<le> c div 64" "c div 64 < 32" "64 * (c div 64) + c mod 64 = c" by auto
    moreover have "utf8_scalar c = [of_nat (0xc0 + c div 64), of_nat (0x80 + c mod 64)]"
      using 2 by (simp add: utf8_scalar_def)
    ultimately show ?thesis using utf8_loop_two [of "c div 64" "c mod 64"] by simp
  next
    case 3
    define a m d h where amdh: "a = c div 64" "m = a mod 64" "d = c mod 64" "h = a div 64"
    have e: "c = 64 * a + d" "a = 64 * h + m" "m < 64" "d < 64" by (simp_all add: amdh)
    have "utf8_scalar c = [of_nat (0xe0 + h), of_nat (0x80 + m), of_nat (0x80 + d)]"
      using 3 by (simp add: utf8_scalar_def amdh div_mult2_eq [of c 64 64, simplified])
    moreover have c: "4096 * h + 64 * m + d = c" using e by simp
    moreover have "h < 16" "h = 0 \<Longrightarrow> 32 \<le> m" using c e(4) 3 by linarith+
    moreover have "h = 13 \<Longrightarrow> m < 32"
    proof (rule ccontr)
      assume "h = 13" "\<not> m < 32"
      with c e(3,4) have "0xd800 \<le> c" "c \<le> 0xdfff" by linarith+
      with assms show False by (simp add: scalar_def)
    qed
    ultimately show ?thesis using utf8_loop_three [of h m d] e(3,4) by simp
  next
    case 4
    define a m d b k h where amdh: "a = c div 64" "m = a mod 64" "d = c mod 64"
      "b = a div 64" "k = b mod 64" "h = b div 64"
    have e: "c = 64 * a + d" "a = 64 * b + m" "b = 64 * h + k" "k < 64" "m < 64" "d < 64"
      by (simp_all add: amdh)
    have "utf8_scalar c =
        [of_nat (0xf0 + h), of_nat (0x80 + k), of_nat (0x80 + m), of_nat (0x80 + d)]"
      using 4 by (simp add: utf8_scalar_def amdh div_mult2_eq [of c 64 64, simplified]
        div_mult2_eq [of c 4096 64, simplified])
    moreover have c: "262144 * h + 4096 * k + 64 * m + d = c" using e by simp
    moreover have "h \<le> 4" "h = 4 \<Longrightarrow> k < 16"
      using c conjunct1 [OF assms [unfolded scalar_def]] by linarith+
    moreover have "h = 0 \<Longrightarrow> 16 \<le> k" using c e(4-6) 4 by linarith
    ultimately show ?thesis using utf8_loop_four [of h k m d] e(4-6) by simp
  qed
qed

lemma emit_bmp: "c \<le> 0xffff \<Longrightarrow> emit c = [of_nat c]"
  by (simp add: emit_def)

lemma or_disjoint_nat: "a < 2 ^ n \<Longrightarrow> (2 ^ n * x) OR a = 2 ^ n * x + (a :: nat)"
  using or_push_bit_nat [of a n x] by (simp add: or.commute push_bit_eq_mult mult.commute add.commute)

lemma emit_astral:
  assumes "h < 1024" and "l < 1024"
  shows "emit (0x10000 + h * 0x400 + l) = [of_nat (0xd800 + h), of_nat (0xdc00 + l)]"
proof -
  have "0xd800 OR h = 0xd800 + h" "0xdc00 OR l = 0xdc00 + l"
    using or_disjoint_nat [of h 10 54] or_disjoint_nat [of l 10 55] assms by simp_all
  moreover have "drop_bit 10 (h * 0x400 + l) = h" using assms(2) by (simp add: drop_bit_eq_div)
  moreover have "(h * 0x400 + l) AND 0x3ff = l" using assms(2) by (simp add: and_masks)
  ultimately show ?thesis by (simp add: emit_def Let_def del: of_nat_add)
qed

lemma scalar_surrogate_pair: "h < 1024 \<Longrightarrow> l < 1024 \<Longrightarrow> scalar (0x10000 + h * 0x400 + l)"
  by (simp add: scalar_def)

lemma unat_less_64k: "unat (u :: 16 word) < 0x10000"
  using unsigned_less [of u] by simp

lemma surrogate_offsets:
  "high_surrogate u \<Longrightarrow> unat u - 0xd800 < 1024" "low_surrogate u \<Longrightarrow> unat u - 0xdc00 < 1024"
  by (auto simp: high_surrogate_def low_surrogate_def)

lemma utf16_scalars_scalar: "list_all scalar (utf16_scalars s)"
proof (induction s rule: utf16_scalars.induct)
  case (2 u)
  then show ?case
    using unat_less_64k [of u] by (auto simp: scalar_def high_surrogate_def low_surrogate_def)
next
  case (3 u w rest)
  moreover have "scalar (if high_surrogate u \<or> low_surrogate u then 0xfffd else unat u)"
    using unat_less_64k [of u] by (auto simp: scalar_def high_surrogate_def low_surrogate_def)
  ultimately show ?case by (simp add: scalar_surrogate_pair surrogate_offsets)
qed simp

lemma utf8_loop_scalars:
  "list_all scalar cs \<Longrightarrow>
   utf8_loop fatal (concat (map utf8_scalar cs)) 0 0 0 0x80 0xbf = Inr (concat (map emit cs))"
  by (induction cs) (simp_all add: utf8_loop_scalar)

lemma emit_unit: "emit (unat (u :: 16 word)) = [u]"
  using unat_less_64k [of u] by (simp add: emit_bmp)

lemma emit_pair:
  assumes "high_surrogate u" and "low_surrogate w"
  shows "emit (0x10000 + (unat u - 0xd800) * 0x400 + (unat w - 0xdc00)) = [u, w]"
proof -
  have "0xd800 + (unat u - 0xd800) = unat u" "0xdc00 + (unat w - 0xdc00) = unat w"
    using assms by (simp_all add: high_surrogate_def low_surrogate_def)
  then show ?thesis
    using emit_astral [OF surrogate_offsets(1) [OF assms(1)] surrogate_offsets(2) [OF assms(2)]]
    by (simp del: of_nat_add)
qed

lemma emit_scalars: "well_formed_utf16 s \<Longrightarrow> concat (map emit (utf16_scalars s)) = s"
proof (induction s rule: well_formed_utf16.induct)
  case (3 u w rest)
  then show ?case by (auto simp: emit_pair emit_unit simp del: of_nat_add split: if_splits)
qed (simp_all add: emit_unit)

lemma ok_prepend [simp]: "ok (prepend us r) = ok r"
  by (cases r) simp_all

lemma ok_invalid_nonfatal [simp]: "ok (invalid False r) = ok r"
  by (simp add: invalid_def)

lemma utf8_loop_nonfatal: "ok (utf8_loop False bs c n s l u)"
proof (induction bs arbitrary: c n s l u)
  case (Cons b rest)
  have "ok (utf8_loop False (b # rest) c 0 s l u)" for c s l u
    by (subst utf8_loop.simps) (simp add: Let_def Cons.IH)
  then show ?case
    by (cases "n = 0") (simp, subst utf8_loop.simps, simp add: Let_def Cons.IH)
qed simp

lemma emit_head_bom:
  assumes "scalar c" and "emit c @ x = 0xfeff # y"
  shows "c = 0xfeff"
proof (cases "c \<le> 0xffff")
  case True
  with assms(2) have "(of_nat c :: 16 word) = 0xfeff" by (simp add: emit_bmp)
  then have "unat (of_nat c :: 16 word) = 0xfeff" by simp
  with True show ?thesis by (simp add: unat_of_nat)
next
  case False
  define h l where "h = (c - 0x10000) div 1024" and "l = (c - 0x10000) mod 1024"
  have "c - 0x10000 < 1024 * 1024" using conjunct1 [OF assms(1) [unfolded scalar_def]] by linarith
  then have "h < 1024" "l < 1024" unfolding h_def l_def by (simp_all add: div_less_iff_less_mult)
  have "h * 0x400 + l = c - 0x10000" by (simp add: h_def l_def)
  with False have "c = 0x10000 + h * 0x400 + l" by linarith
  with assms(2) emit_astral [OF \<open>h < 1024\<close> \<open>l < 1024\<close>] have "(of_nat (0xd800 + h) :: 16 word) = 0xfeff"
    by (simp del: of_nat_add)
  then have "unat (of_nat (0xd800 + h) :: 16 word) = 0xfeff" by simp
  with \<open>h < 1024\<close> show ?thesis by (simp add: unat_of_nat del: of_nat_add)
qed

lemma utf8_bom: "utf8_scalar 0xfeff = [0xef, 0xbb, 0xbf]"
  by (simp add: utf8_scalar_def)

lemma scalar_bom_bytes:
  assumes "scalar c" and "utf8_scalar c @ rest = 0xef # 0xbb # 0xbf # rest'"
  shows "c = 0xfeff"
proof -
  have "scalar 0xfeff" by (simp add: scalar_def)
  then have "utf8_loop False (utf8_scalar c @ rest) 0 0 0 0x80 0xbf =
      prepend [0xfeff] (utf8_loop False rest' 0 0 0 0x80 0xbf)"
    using assms(2) utf8_loop_scalar [of "0xfeff" False rest'] by (simp add: utf8_bom emit_bmp)
  then have "prepend (emit c) (utf8_loop False rest 0 0 0 0x80 0xbf) =
      prepend [0xfeff] (utf8_loop False rest' 0 0 0 0x80 0xbf)"
    using assms(1) by (simp add: utf8_loop_scalar)
  moreover obtain x y where "utf8_loop False rest 0 0 0 0x80 0xbf = Inr x"
    "utf8_loop False rest' 0 0 0 0x80 0xbf = Inr y"
    using utf8_loop_nonfatal unfolding ok_iff by metis
  ultimately have "emit c @ x = 0xfeff # y" by simp
  then show ?thesis by (rule emit_head_bom [OF assms(1)])
qed

lemma bom_unit: "unat (u :: 16 word) = 0xfeff \<longleftrightarrow> u = 0xfeff"
  by (simp add: word_unat_eq_iff)

lemma utf16_scalars_bom:
  "well_formed_utf16 (u # s) \<Longrightarrow>
   \<exists>c cs. utf16_scalars (u # s) = c # cs \<and> (c = 0xfeff \<longleftrightarrow> u = 0xfeff)"
  by (cases s) (auto simp: high_surrogate_def low_surrogate_def bom_unit)

lemma bom_prefix:
  "length bs \<ge> 3 \<and> bs ! 0 = 0xef \<and> bs ! 1 = 0xbb \<and> bs ! 2 = 0xbf \<longleftrightarrow>
   (\<exists>rest. bs = (0xef :: byte) # 0xbb # 0xbf # rest)"
proof (cases bs)
  case (Cons a as)
  then show ?thesis by (cases as; cases "tl as") (auto simp: numeral_2_eq_2)
qed simp

lemma utf8_roundtrip_lemma:
  assumes "well_formed_utf16 s"
  shows "utf8Decode (textEncoder_encode s) = Inr (if s \<noteq> [] \<and> hd s = 0xfeff then tl s else s)"
proof (cases s)
  case Nil
  then show ?thesis
    by (simp add: utf8Decode_def utf8DecodePortable_def textEncoder_encode_def)
next
  case (Cons u t)
  then obtain c cs where c: "utf16_scalars s = c # cs" "c = 0xfeff \<longleftrightarrow> u = 0xfeff"
    using utf16_scalars_bom assms by blast
  have sc: "scalar c" "list_all scalar cs" using utf16_scalars_scalar [of s] c(1) by simp_all
  have out: "emit c @ concat (map emit cs) = u # t" using emit_scalars [OF assms] c(1) Cons by simp
  have e: "textEncoder_encode s = utf8_scalar c @ concat (map utf8_scalar cs)"
    by (simp add: textEncoder_encode_def c(1))
  show ?thesis
  proof (cases "c = 0xfeff")
    case True
    have "utf8Decode (textEncoder_encode s) = Inr (concat (map emit cs))"
      unfolding utf8Decode_def utf8DecodePortable_def e True utf8_bom
      by (simp add: utf8_loop_scalars sc)
    moreover have "concat (map emit cs) = t" using out True by (simp add: emit_bmp)
    ultimately show ?thesis using Cons c(2) True by simp
  next
    case False
    then have "\<not> (\<exists>rest. textEncoder_encode s = 0xef # 0xbb # 0xbf # rest)"
      unfolding e using scalar_bom_bytes [OF sc(1)] by blast
    then have "utf8Decode (textEncoder_encode s) =
        utf8_loop False (concat (map utf8_scalar (c # cs))) 0 0 0 0x80 0xbf"
      unfolding utf8Decode_def utf8DecodePortable_def bom_prefix by (simp add: e)
    then show ?thesis using utf8_loop_scalars [of "c # cs" False] sc Cons c(2) False out by auto
  qed
qed

text \<open>The strings that survive the trip: paired surrogates, no byte order mark in front.\<close>

definition wire_text :: "js_string \<Rightarrow> bool" where
  "wire_text s = (well_formed_utf16 s \<and> (s = [] \<or> hd s \<noteq> 0xfeff))"

interpretation utf8: codec wire_text textEncoder_encode utf8Decode
  by unfold_locales (auto simp: wire_text_def utf8_roundtrip_lemma)

lemma utf8Decode_total: "ok (utf8Decode bs)"
  by (simp add: utf8Decode_def utf8DecodePortable_def utf8_loop_nonfatal Let_def)

lemma textEncoder_encode_Nil_iff [simp]: "textEncoder_encode s = [] \<longleftrightarrow> s = []"
proof -
  have "utf8_scalar c \<noteq> []" for c by (simp add: utf8_scalar_def)
  then show ?thesis
    by (cases s rule: utf16_scalars.cases) (auto simp: textEncoder_encode_def)
qed

text \<open>
  Decoding the UTF-8 bytes of a string whose surrogates are paired gives the string back,
  less one leading byte order mark, which the decoder strips; decoding never throws.
\<close>

theorem utf8_decode_encode:
  assumes "well_formed_utf16 s"
  shows "utf8Decode (textEncoder_encode s) = Inr (if s \<noteq> [] \<and> hd s = 0xfeff then tl s else s) \<and>
    ok (utf8Decode bs)"
  using utf8_roundtrip_lemma [OF assms] utf8Decode_total by simp

text \<open>The string is a letter, an accented letter and a surrogate pair.\<close>

theorem utf8_decode_encode_witness:
  "well_formed_utf16 [0x61, 0xe9, 0xd83d, 0xde00] \<and>
   utf8Decode (textEncoder_encode [0x61, 0xe9, 0xd83d, 0xde00]) = Inr [0x61, 0xe9, 0xd83d, 0xde00] \<and>
   ok (utf8Decode [0xff])"
proof -
  have w: "well_formed_utf16 [0x61, 0xe9, 0xd83d, 0xde00]"
    by (simp add: high_surrogate_def low_surrogate_def)
  with utf8_decode_encode [OF w] show ?thesis by simp
qed

end
