(* ===== verification/Signal_Message.thy ===== *)
theory Signal_Message
  imports Proto_Wire Utf8
begin

text \<open>
  The two message types of the Double Ratchet on the wire: internal/encoding/proto/signal-message.ts
  (the protobuf codecs and the sender and recipient address binding) and
  internal/encoding/proto/envelope.ts (version byte and MAC framing).

  A decoder is the generic tag loop \<open>decode_fields\<close> with the reader call and the assignment of each
  \<open>case\<close> of the source's switch, then the checks behind the loop in their order. The local
  variables of the loop are a record of options.

  Shown here: what an encoder writes for a valid message is read back, also with unknown fields in
  front of it and behind it; what a decoder returns is valid and can be encoded again; the address
  binding determines both addresses; framing and parsing invert each other.
\<close>

section \<open>Definitions\<close>

subsection \<open>Addresses\<close>

record ProtocolAddress =
  userId :: js_string
  deviceId :: int

definition MAX_SIGNAL_PROTOCOL_WIRE_MESSAGE_BYTES :: nat where
  "MAX_SIGNAL_PROTOCOL_WIRE_MESSAGE_BYTES = 16 * 1024 * 1024"

definition assertWireMessageSize :: "bytes \<Rightarrow> unit result" where
  "assertWireMessageSize bytes =
     throw_if (length bytes > MAX_SIGNAL_PROTOCOL_WIRE_MESSAGE_BYTES)
       (PlainError ''message exceeds the input limit'')"

definition ADDRESS_BINDING_FORMAT_VERSION :: byte where
  "ADDRESS_BINDING_FORMAT_VERSION = 1"

definition encodeUint32BE :: "int \<Rightarrow> bytes result" where
  "encodeUint32BE value =
     (if value < 0 \<or> value > 0xffffffff then Inl (PlainError ''deviceId must be a uint32'')
      else let v = nat value in
           Inr [of_nat (drop_bit 24 v), of_nat (drop_bit 16 v), of_nat (drop_bit 8 v), of_nat v])"

definition readUint32BE :: "bytes \<Rightarrow> nat \<Rightarrow> int result" where
  "readUint32BE bytes offset =
     (if offset + 4 > length bytes
      then Inl (PlainError ''Address binding truncated while reading deviceId'')
      else Inr (int (push_bit 24 (unat (bytes ! offset)) OR push_bit 16 (unat (bytes ! (offset + 1))) OR
                     push_bit 8 (unat (bytes ! (offset + 2))) OR unat (bytes ! (offset + 3)))))"

definition encodeAddress :: "ProtocolAddress \<Rightarrow> bytes result" where
  "encodeAddress address =
     (let userIdBytes = textEncoder_encode (userId address) in
      if userIdBytes = [] then Inl (PlainError ''Address binding userId cannot be empty'')
      else and_then (encodeVarint (int (length userIdBytes))) (\<lambda>len.
           and_then (encodeUint32BE (deviceId address)) (\<lambda>dev.
           Inr (len @ userIdBytes @ dev))))"

definition decodeAddress :: "bytes \<Rightarrow> nat \<Rightarrow> (ProtocolAddress \<times> nat) result" where
  "decodeAddress bytes offset =
     and_then (decodeVarint bytes offset) (\<lambda>(userIdLength, bytesRead).
       let offset = offset + bytesRead in
       if userIdLength = 0 then Inl (PlainError ''Address binding userId cannot be empty'')
       else if offset + userIdLength > length bytes
       then Inl (PlainError ''Address binding truncated while reading userId'')
       else and_then (utf8Decode (js_slice offset (offset + userIdLength) bytes)) (\<lambda>user.
            and_then (readUint32BE bytes (offset + userIdLength)) (\<lambda>device.
            Inr (\<lparr>userId = user, deviceId = device\<rparr>, offset + userIdLength + 4))))"

definition serializeSignalProtocolMessageAddresses ::
    "ProtocolAddress \<Rightarrow> ProtocolAddress \<Rightarrow> bytes result" where
  "serializeSignalProtocolMessageAddresses senderAddress recipientAddress =
     and_then (encodeAddress senderAddress) (\<lambda>s.
     and_then (encodeAddress recipientAddress) (\<lambda>r.
     Inr ([ADDRESS_BINDING_FORMAT_VERSION] @ s @ r)))"

definition deserializeSignalProtocolMessageAddresses ::
    "bytes \<Rightarrow> (ProtocolAddress \<times> ProtocolAddress) result" where
  "deserializeSignalProtocolMessageAddresses bytes =
     (if bytes = [] then Inl (PlainError ''SignalProtocolMessage address binding is missing'')
      else if bytes ! 0 \<noteq> ADDRESS_BINDING_FORMAT_VERSION
      then Inl (PlainError ''Unsupported SignalProtocolMessage address binding version'')
      else and_then (decodeAddress bytes 1) (\<lambda>(sender, offset).
           and_then (decodeAddress bytes offset) (\<lambda>(recipient, offset).
           if offset \<noteq> length bytes
           then Inl (PlainError ''SignalProtocolMessage address binding has trailing bytes'')
           else Inr (sender, recipient))))"

definition signalProtocolMessageAddressesEqual ::
    "bytes \<Rightarrow> ProtocolAddress \<Rightarrow> ProtocolAddress \<Rightarrow> bool result" where
  "signalProtocolMessageAddressesEqual encoded senderAddress recipientAddress =
     and_then (deserializeSignalProtocolMessageAddresses encoded) (\<lambda>(sender, recipient).
       Inr (userId sender = userId senderAddress \<and> deviceId sender = deviceId senderAddress \<and>
            userId recipient = userId recipientAddress \<and> deviceId recipient = deviceId recipientAddress))"

subsection \<open>SignalProtocolMessage\<close>

text \<open>\<open>SIGNAL_MESSAGE_FIELD\<close> and \<open>PREKEY_MESSAGE_FIELD\<close>: field numbers, by the name of the field.\<close>

definition SM_ratchetKey :: nat where "SM_ratchetKey = 1"
definition SM_counter :: nat where "SM_counter = 2"
definition SM_previousCounter :: nat where "SM_previousCounter = 3"
definition SM_ciphertext :: nat where "SM_ciphertext = 4"
definition SM_pqRatchet :: nat where "SM_pqRatchet = 5"
definition SM_addresses :: nat where "SM_addresses = 6"
definition SM_recipientIdentityType :: nat where "SM_recipientIdentityType = 100"

record SignalProtocolMessageFields =
  sm_ratchetKey :: bytes
  sm_counter :: int
  sm_previousCounter :: int
  sm_ciphertext :: bytes
  sm_pqRatchet :: "bytes option"
  sm_addresses :: bytes
  sm_recipientIdentityType :: "int option"

text \<open>An optional field is written when it is present.\<close>

definition optional_field :: "(nat \<Rightarrow> 'v \<Rightarrow> bytes result) \<Rightarrow> nat \<Rightarrow> 'v option \<Rightarrow> bytes result" where
  "optional_field enc f v = (case v of None \<Rightarrow> Inr [] | Some x \<Rightarrow> enc f x)"

definition identityType_invalid :: "int \<Rightarrow> bool" where
  "identityType_invalid t = (t \<noteq> 1 \<and> t \<noteq> 2)"

definition encodeSignalProtocolMessage :: "SignalProtocolMessageFields \<Rightarrow> bytes result" where
  "encodeSignalProtocolMessage msg =
     (if sm_addresses msg = []
      then Inl (PlainError ''SignalProtocolMessage addresses field is required'')
      else if \<exists>t \<in> set_option (sm_recipientIdentityType msg). identityType_invalid t
      then Inl (PlainError ''SignalProtocolMessage recipientIdentityType must be ACI=1 or PNI=2'')
      else
        and_then (encodeBytesField SM_ratchetKey (sm_ratchetKey msg)) (\<lambda>f1.
        and_then (encodeUint32Field SM_counter (sm_counter msg)) (\<lambda>f2.
        and_then (encodeUint32Field SM_previousCounter (sm_previousCounter msg)) (\<lambda>f3.
        and_then (encodeBytesField SM_ciphertext (sm_ciphertext msg)) (\<lambda>f4.
        and_then (optional_field encodeBytesField SM_pqRatchet (sm_pqRatchet msg)) (\<lambda>f5.
        and_then (encodeBytesField SM_addresses (sm_addresses msg)) (\<lambda>f6.
        and_then (optional_field encodeUint32Field SM_recipientIdentityType
                    (sm_recipientIdentityType msg)) (\<lambda>f100.
        Inr (concatFields [f1, f2, f3, f4, f5, f6, f100])))))))))"

text \<open>The variables of the decoding loop.\<close>

record SignalWire =
  sw_ratchetKey :: "bytes option"
  sw_counter :: "nat option"
  sw_previousCounter :: "nat option"
  sw_ciphertext :: "bytes option"
  sw_pqRatchet :: "bytes option"
  sw_addresses :: "bytes option"
  sw_recipientIdentityType :: "nat option"

definition signal_empty :: SignalWire where
  "signal_empty = \<lparr>sw_ratchetKey = None, sw_counter = None, sw_previousCounter = None,
     sw_ciphertext = None, sw_pqRatchet = None, sw_addresses = None,
     sw_recipientIdentityType = None\<rparr>"

definition signal_read :: "nat \<Rightarrow> field_read" where
  "signal_read f =
     (if f = SM_ratchetKey then ReadBytes
      else if f = SM_counter then ReadUint32
      else if f = SM_previousCounter then ReadUint32
      else if f = SM_ciphertext then ReadBytes
      else if f = SM_pqRatchet then ReadBytes
      else if f = SM_addresses then ReadBytes
      else if f = SM_recipientIdentityType then ReadUint32
      else SkipField)"

fun signal_store :: "nat \<Rightarrow> field_value \<Rightarrow> SignalWire \<Rightarrow> SignalWire" where
  "signal_store f (VBytes b) w =
     (if f = SM_ratchetKey then w\<lparr>sw_ratchetKey := Some b\<rparr>
      else if f = SM_ciphertext then w\<lparr>sw_ciphertext := Some b\<rparr>
      else if f = SM_pqRatchet then w\<lparr>sw_pqRatchet := Some b\<rparr>
      else if f = SM_addresses then w\<lparr>sw_addresses := Some b\<rparr>
      else w)"
| "signal_store f (VNat n) w =
     (if f = SM_counter then w\<lparr>sw_counter := Some n\<rparr>
      else if f = SM_previousCounter then w\<lparr>sw_previousCounter := Some n\<rparr>
      else if f = SM_recipientIdentityType then w\<lparr>sw_recipientIdentityType := Some n\<rparr>
      else w)"
| "signal_store f v w = w"

text \<open>\<open>!x?.length\<close>: absent or empty.\<close>

definition missing :: "bytes option \<Rightarrow> bool" where
  "missing b = (b = None \<or> b = Some [])"

definition nonempty :: "bytes option \<Rightarrow> bytes option" where
  "nonempty b = (if missing b then None else b)"

definition with_default :: "nat option \<Rightarrow> int" where
  "with_default n = (case n of None \<Rightarrow> 0 | Some n \<Rightarrow> int n)"

definition signal_finish :: "SignalWire \<Rightarrow> SignalProtocolMessageFields result" where
  "signal_finish w =
     (if missing (sw_addresses w) then Inl (PlainError ''Missing required field: addresses'')
      else if map_option length (sw_ratchetKey w) \<noteq> Some 33
      then Inl (PlainError ''SignalProtocolMessage ratchetKey must contain exactly 33 bytes'')
      else if missing (sw_ciphertext w)
      then Inl (PlainError ''SignalProtocolMessage ciphertext must not be empty'')
      else if \<exists>t \<in> set_option (sw_recipientIdentityType w). identityType_invalid (int t)
      then Inl (PlainError ''SignalProtocolMessage recipientIdentityType must be ACI=1 or PNI=2'')
      else Inr \<lparr>sm_ratchetKey = the (sw_ratchetKey w),
                sm_counter = with_default (sw_counter w),
                sm_previousCounter = with_default (sw_previousCounter w),
                sm_ciphertext = the (sw_ciphertext w),
                sm_pqRatchet = nonempty (sw_pqRatchet w),
                sm_addresses = the (sw_addresses w),
                sm_recipientIdentityType = map_option int (sw_recipientIdentityType w)\<rparr>)"

definition decodeSignalProtocolMessage :: "bytes \<Rightarrow> SignalProtocolMessageFields result" where
  "decodeSignalProtocolMessage bytes =
     and_then (assertWireMessageSize bytes) (\<lambda>_.
     and_then (decode_fields signal_read signal_store (new_ProtoReader bytes) signal_empty)
       signal_finish)"

subsection \<open>PreKeySignalProtocolMessage\<close>

definition PK_oneTimePreKeyId :: nat where "PK_oneTimePreKeyId = 1"
definition PK_baseKey :: nat where "PK_baseKey = 2"
definition PK_identityKey :: nat where "PK_identityKey = 3"
definition PK_message :: nat where "PK_message = 4"
definition PK_registrationId :: nat where "PK_registrationId = 5"
definition PK_signedPreKeyId :: nat where "PK_signedPreKeyId = 6"
definition PK_kyberPreKeyId :: nat where "PK_kyberPreKeyId = 7"
definition PK_kyberCiphertext :: nat where "PK_kyberCiphertext = 8"
definition PK_kemOneTimePreKeyId :: nat where "PK_kemOneTimePreKeyId = 100"
definition PK_kemOneTimeCiphertext :: nat where "PK_kemOneTimeCiphertext = 101"
definition PK_recipientIdentityType :: nat where "PK_recipientIdentityType = 102"

record PreKeySignalProtocolMessageFields =
  pk_ecOneTimePreKeyId :: "int option"
  pk_baseKey :: bytes
  pk_identityKey :: bytes
  pk_message :: bytes
  pk_registrationId :: int
  pk_ecSignedPreKeyId :: int
  pk_kemLastResortPreKeyId :: "int option"
  pk_kemLastResortCiphertext :: "bytes option"
  pk_kemOneTimePreKeyId :: "int option"
  pk_kemOneTimeCiphertext :: "bytes option"
  pk_recipientIdentityType :: int

definition encodePreKeySignalProtocolMessage ::
    "PreKeySignalProtocolMessageFields \<Rightarrow> bytes result" where
  "encodePreKeySignalProtocolMessage msg =
     (if identityType_invalid (pk_recipientIdentityType msg)
      then Inl (PlainError ''PreKeySignalProtocolMessage recipientIdentityType must be ACI=1 or PNI=2'')
      else
        and_then (optional_field encodeUint32Field PK_oneTimePreKeyId (pk_ecOneTimePreKeyId msg)) (\<lambda>f1.
        and_then (encodeBytesField PK_baseKey (pk_baseKey msg)) (\<lambda>f2.
        and_then (encodeBytesField PK_identityKey (pk_identityKey msg)) (\<lambda>f3.
        and_then (encodeBytesField PK_message (pk_message msg)) (\<lambda>f4.
        and_then (encodeUint32Field PK_registrationId (pk_registrationId msg)) (\<lambda>f5.
        and_then (encodeUint32Field PK_signedPreKeyId (pk_ecSignedPreKeyId msg)) (\<lambda>f6.
        and_then (optional_field encodeUint32Field PK_kyberPreKeyId
                    (pk_kemLastResortPreKeyId msg)) (\<lambda>f7.
        and_then (optional_field encodeBytesField PK_kyberCiphertext
                    (pk_kemLastResortCiphertext msg)) (\<lambda>f8.
        and_then (optional_field encodeUint32Field PK_kemOneTimePreKeyId
                    (pk_kemOneTimePreKeyId msg)) (\<lambda>f100.
        and_then (optional_field encodeBytesField PK_kemOneTimeCiphertext
                    (pk_kemOneTimeCiphertext msg)) (\<lambda>f101.
        and_then (encodeUint32Field PK_recipientIdentityType (pk_recipientIdentityType msg)) (\<lambda>f102.
        Inr (concatFields [f1, f2, f3, f4, f5, f6, f7, f8, f100, f101, f102])))))))))))))"

record PreKeyWire =
  pw_oneTimePreKeyId :: "nat option"
  pw_baseKey :: "bytes option"
  pw_identityKey :: "bytes option"
  pw_message :: "bytes option"
  pw_registrationId :: "nat option"
  pw_signedPreKeyId :: "nat option"
  pw_kyberPreKeyId :: "nat option"
  pw_kyberCiphertext :: "bytes option"
  pw_kemOneTimePreKeyId :: "nat option"
  pw_kemOneTimeCiphertext :: "bytes option"
  pw_recipientIdentityType :: "nat option"

definition prekey_empty :: PreKeyWire where
  "prekey_empty = \<lparr>pw_oneTimePreKeyId = None, pw_baseKey = None, pw_identityKey = None,
     pw_message = None, pw_registrationId = None, pw_signedPreKeyId = None,
     pw_kyberPreKeyId = None, pw_kyberCiphertext = None, pw_kemOneTimePreKeyId = None,
     pw_kemOneTimeCiphertext = None, pw_recipientIdentityType = None\<rparr>"

definition prekey_read :: "nat \<Rightarrow> field_read" where
  "prekey_read f =
     (if f = PK_oneTimePreKeyId then ReadUint32
      else if f = PK_baseKey then ReadBytes
      else if f = PK_identityKey then ReadBytes
      else if f = PK_message then ReadBytes
      else if f = PK_registrationId then ReadUint32
      else if f = PK_signedPreKeyId then ReadUint32
      else if f = PK_kyberPreKeyId then ReadUint32
      else if f = PK_kyberCiphertext then ReadBytes
      else if f = PK_kemOneTimePreKeyId then ReadUint32
      else if f = PK_kemOneTimeCiphertext then ReadBytes
      else if f = PK_recipientIdentityType then ReadUint32
      else SkipField)"

fun prekey_store :: "nat \<Rightarrow> field_value \<Rightarrow> PreKeyWire \<Rightarrow> PreKeyWire" where
  "prekey_store f (VNat n) w =
     (if f = PK_oneTimePreKeyId then w\<lparr>pw_oneTimePreKeyId := Some n\<rparr>
      else if f = PK_registrationId then w\<lparr>pw_registrationId := Some n\<rparr>
      else if f = PK_signedPreKeyId then w\<lparr>pw_signedPreKeyId := Some n\<rparr>
      else if f = PK_kyberPreKeyId then w\<lparr>pw_kyberPreKeyId := Some n\<rparr>
      else if f = PK_kemOneTimePreKeyId then w\<lparr>pw_kemOneTimePreKeyId := Some n\<rparr>
      else if f = PK_recipientIdentityType then w\<lparr>pw_recipientIdentityType := Some n\<rparr>
      else w)"
| "prekey_store f (VBytes b) w =
     (if f = PK_baseKey then w\<lparr>pw_baseKey := Some b\<rparr>
      else if f = PK_identityKey then w\<lparr>pw_identityKey := Some b\<rparr>
      else if f = PK_message then w\<lparr>pw_message := Some b\<rparr>
      else if f = PK_kyberCiphertext then w\<lparr>pw_kyberCiphertext := Some b\<rparr>
      else if f = PK_kemOneTimeCiphertext then w\<lparr>pw_kemOneTimeCiphertext := Some b\<rparr>
      else w)"
| "prekey_store f v w = w"

definition prekey_finish :: "PreKeyWire \<Rightarrow> PreKeySignalProtocolMessageFields result" where
  "prekey_finish w =
     (if map_option length (pw_baseKey w) \<noteq> Some 33
      then Inl (PlainError ''PreKeySignalProtocolMessage baseKey must contain exactly 33 bytes'')
      else if map_option length (pw_identityKey w) \<noteq> Some 67
      then Inl (PlainError ''PreKeySignalProtocolMessage identityKey must contain exactly 67 bytes'')
      else if missing (pw_message w)
      then Inl (PlainError ''PreKeySignalProtocolMessage message must not be empty'')
      else if pw_registrationId w = None
      then Inl (PlainError ''Missing required field: registrationId'')
      else if pw_signedPreKeyId w = None
      then Inl (PlainError ''Missing required field: signedPreKeyId'')
      else if pw_recipientIdentityType w \<noteq> Some 1 \<and> pw_recipientIdentityType w \<noteq> Some 2
      then Inl (PlainError ''PreKeySignalProtocolMessage recipientIdentityType must be ACI=1 or PNI=2'')
      else Inr \<lparr>pk_ecOneTimePreKeyId = map_option int (pw_oneTimePreKeyId w),
                pk_baseKey = the (pw_baseKey w),
                pk_identityKey = the (pw_identityKey w),
                pk_message = the (pw_message w),
                pk_registrationId = int (the (pw_registrationId w)),
                pk_ecSignedPreKeyId = int (the (pw_signedPreKeyId w)),
                pk_kemLastResortPreKeyId = map_option int (pw_kyberPreKeyId w),
                pk_kemLastResortCiphertext = nonempty (pw_kyberCiphertext w),
                pk_kemOneTimePreKeyId = map_option int (pw_kemOneTimePreKeyId w),
                pk_kemOneTimeCiphertext = nonempty (pw_kemOneTimeCiphertext w),
                pk_recipientIdentityType = int (the (pw_recipientIdentityType w))\<rparr>)"

definition decodePreKeySignalProtocolMessage ::
    "bytes \<Rightarrow> PreKeySignalProtocolMessageFields result" where
  "decodePreKeySignalProtocolMessage bytes =
     and_then (assertWireMessageSize bytes) (\<lambda>_.
     and_then (decode_fields prekey_read prekey_store (new_ProtoReader bytes) prekey_empty)
       prekey_finish)"

subsection \<open>Framing\<close>

definition CIPHERTEXT_MESSAGE_CURRENT_VERSION :: nat where
  "CIPHERTEXT_MESSAGE_CURRENT_VERSION = 4"

definition MAC_LENGTH :: nat where "MAC_LENGTH = 8"

definition makeVersionByte :: "nat \<Rightarrow> nat" where
  "makeVersionByte version = (push_bit 4 version OR CIPHERTEXT_MESSAGE_CURRENT_VERSION) AND 0xff"

definition getMessageVersion :: "bytes \<Rightarrow> nat result" where
  "getMessageVersion bytes =
     (if bytes = [] then Inl (PlainError ''Cannot read version from empty message'')
      else Inr (drop_bit 4 (unat (bytes ! 0))))"

definition frameSignalProtocolMessage :: "bytes \<Rightarrow> bytes \<Rightarrow> bytes result" where
  "frameSignalProtocolMessage protobufBytes macBytes =
     (if length macBytes \<noteq> MAC_LENGTH then Inl (PlainError ''MAC must be exactly 8 bytes'')
      else Inr ([of_nat (makeVersionByte CIPHERTEXT_MESSAGE_CURRENT_VERSION)] @ protobufBytes @ macBytes))"

definition parseSignalProtocolMessageEnvelope :: "bytes \<Rightarrow> (nat \<times> bytes \<times> bytes) result" where
  "parseSignalProtocolMessageEnvelope bytes =
     (if length bytes < 1 + MAC_LENGTH then Inl (PlainError ''SignalProtocolMessage too short'')
      else Inr (drop_bit 4 (unat (bytes ! 0)), js_slice 1 (length bytes - MAC_LENGTH) bytes,
                drop (length bytes - MAC_LENGTH) bytes))"

definition framePreKeySignalProtocolMessage :: "bytes \<Rightarrow> bytes" where
  "framePreKeySignalProtocolMessage protobufBytes =
     [of_nat (makeVersionByte CIPHERTEXT_MESSAGE_CURRENT_VERSION)] @ protobufBytes"

definition parsePreKeySignalProtocolMessageEnvelope :: "bytes \<Rightarrow> (nat \<times> bytes) result" where
  "parsePreKeySignalProtocolMessageEnvelope bytes =
     (if length bytes < 1 then Inl (PlainError ''PreKeySignalProtocolMessage too short'')
      else Inr (drop_bit 4 (unat (bytes ! 0)), drop 1 bytes))"

section \<open>Lemmas\<close>

subsection \<open>The address binding\<close>

lemma uint32_parts:
  "push_bit 24 (drop_bit 24 v) OR push_bit 16 (drop_bit 16 v mod 256) OR
   push_bit 8 (drop_bit 8 v mod 256) OR v mod 256 = (v :: nat)"
proof (rule bit_eqI)
  fix n :: nat
  have m: "x mod 256 = take_bit 8 x" for x :: nat by (simp add: take_bit_eq_mod)
  consider "n < 8" | "8 \<le> n" "n < 16" | "16 \<le> n" "n < 24" | "24 \<le> n" by linarith
  then show "bit (push_bit 24 (drop_bit 24 v) OR push_bit 16 (drop_bit 16 v mod 256) OR
      push_bit 8 (drop_bit 8 v mod 256) OR v mod 256) n = bit v n"
    unfolding m by cases (auto simp: bit_simps)
qed

lemma readUint32BE_encode:
  assumes "encodeUint32BE v = Inr d" and "off = length pre"
  shows "readUint32BE (pre @ d @ rest) off = Inr v" and "length d = 4"
proof -
  from assms(1) obtain k where k: "v = int k" "k < 2 ^ 32" and d: "d = [of_nat (drop_bit 24 k),
      of_nat (drop_bit 16 k), of_nat (drop_bit 8 k), of_nat k]"
    by (cases v) (auto simp: encodeUint32BE_def Let_def split: if_splits)
  have "drop_bit 24 k < 256" using k(2) by (simp add: drop_bit_eq_div)
  then show "readUint32BE (pre @ d @ rest) off = Inr v"
    using uint32_parts [of k]
    by (simp add: readUint32BE_def d assms(2) nth_append unat_of_nat k(1))
  show "length d = 4" by (simp add: d)
qed

lemma decodeAddress_encode:
  assumes "encodeAddress a = Inr e" and "wire_text (userId a)"
  shows "decodeAddress (pre @ e @ rest) (length pre) = Inr (a, length pre + length e)"
proof -
  let ?u = "textEncoder_encode (userId a)"
  let ?l = "varint_loop (length ?u)"
  from assms(1) obtain d where u: "?u \<noteq> []" "length ?u \<le> UINT32_MAX"
    and d: "encodeUint32BE (deviceId a) = Inr d" and e: "e = ?l @ ?u @ d"
    by (auto simp: encodeAddress_def Let_def and_then_eq_Inr encodeVarint_eq split: if_splits)
  have v: "decodeVarint (pre @ ?l @ ?u @ d @ rest) (length pre) = Inr (length ?u, length ?l)"
    by (rule decodeVarint_encode) (use u in simp_all)
  have s: "js_slice (length pre + length ?l) (length pre + length ?l + length ?u)
      (pre @ ?l @ ?u @ d @ rest) = ?u"
    using js_slice_append_right [of "pre @ ?l" _ ?u _ "d @ rest"] by simp
  have r: "readUint32BE (pre @ ?l @ ?u @ d @ rest) (length pre + length ?l + length ?u) =
      Inr (deviceId a)"
    using readUint32BE_encode(1) [OF d, of _ "pre @ ?l @ ?u" rest] by (simp add: add.assoc)
  show ?thesis
    using u(1) assms(2) readUint32BE_encode(2) [OF d refl]
    by (simp add: decodeAddress_def e v s r utf8.dec_enc)
qed

definition addressable :: "ProtocolAddress \<Rightarrow> bool" where
  "addressable a = wire_text (userId a)"

lemma deserialize_serialize:
  assumes "serializeSignalProtocolMessageAddresses s r = Inr bs" and "addressable s" and "addressable r"
  shows "deserializeSignalProtocolMessageAddresses bs = Inr (s, r)"
proof -
  from assms(1) obtain es er where e: "encodeAddress s = Inr es" "encodeAddress r = Inr er"
    and bs: "bs = ([1] @ es @ er)"
    by (auto simp: serializeSignalProtocolMessageAddresses_def and_then_eq_Inr
        ADDRESS_BINDING_FORMAT_VERSION_def)
  have "decodeAddress bs 1 = Inr (s, 1 + length es)"
    unfolding bs using decodeAddress_encode [OF e(1), of "[1]" er] assms(2)
    by (simp add: addressable_def)
  moreover have "decodeAddress bs (1 + length es) = Inr (r, length bs)"
    unfolding bs using decodeAddress_encode [OF e(2), of "[1] @ es" "[]"] assms(3)
    by (simp add: addressable_def)
  ultimately show ?thesis
    by (simp add: deserializeSignalProtocolMessageAddresses_def bs ADDRESS_BINDING_FORMAT_VERSION_def)
qed

subsection \<open>Framing\<close>

lemma makeVersionByte_current: "makeVersionByte CIPHERTEXT_MESSAGE_CURRENT_VERSION = 0x44"
  by (simp add: makeVersionByte_def CIPHERTEXT_MESSAGE_CURRENT_VERSION_def)

lemma parse_envelope_iff:
  "parseSignalProtocolMessageEnvelope bs = Inr (v, p, mac) \<longleftrightarrow>
   (\<exists>b. bs = b # p @ mac \<and> length mac = MAC_LENGTH \<and> v = unat b div 16)"
proof
  assume "parseSignalProtocolMessageEnvelope bs = Inr (v, p, mac)"
  then have len: "9 \<le> length bs" and v: "v = drop_bit 4 (unat (bs ! 0))"
    and p: "p = js_slice 1 (length bs - 8) bs" and mac: "mac = drop (length bs - 8) bs"
    by (auto simp: parseSignalProtocolMessageEnvelope_def MAC_LENGTH_def split: if_splits)
  then obtain b t where t: "bs = b # t" by (cases bs) auto
  have "length bs - 8 = Suc (length t - 8)" using len t by simp
  then have "p = take (length t - 8) t" "mac = drop (length t - 8) t"
    by (simp_all add: p mac t js_slice_def)
  then show "\<exists>b. bs = b # p @ mac \<and> length mac = MAC_LENGTH \<and> v = unat b div 16"
    using len t v by (auto simp: MAC_LENGTH_def drop_bit_eq_div)
qed (auto simp: parseSignalProtocolMessageEnvelope_def MAC_LENGTH_def drop_bit_eq_div js_slice_def)

subsection \<open>Reading fields back\<close>

lemma decode_optional_bytes:
  assumes "optional_field encodeBytesField f v = Inr e" and "field_ok f" and "op f = ReadBytes"
  shows "decode_fields op store (new_ProtoReader (e @ rest)) acc =
    decode_fields op store (new_ProtoReader rest) (case v of None \<Rightarrow> acc | Some b \<Rightarrow> store f (VBytes b) acc)"
  using assms decode_bytes_field(1) [of f _ e op]
  by (cases v) (auto simp: optional_field_def)

lemma decode_optional_uint32:
  assumes "optional_field encodeUint32Field f v = Inr e" and "field_ok f" and "op f = ReadUint32"
  shows "decode_fields op store (new_ProtoReader (e @ rest)) acc =
    decode_fields op store (new_ProtoReader rest) (case v of None \<Rightarrow> acc | Some n \<Rightarrow> store f (VNat (nat n)) acc)"
  using assms decode_uint32_field(1) [of f _ e op]
  by (cases v) (auto simp: optional_field_def)

text \<open>Fields of numbers that the decoder does not know, one after the other.\<close>

fun encode_unknown :: "(nat \<times> (int + bytes)) list \<Rightarrow> bytes result" where
  "encode_unknown [] = Inr []"
| "encode_unknown ((f, v) # fs) =
     and_then (case v of Inl n \<Rightarrow> encodeUint32Field f n | Inr b \<Rightarrow> encodeBytesField f b) (\<lambda>e1.
     and_then (encode_unknown fs) (\<lambda>e2. Inr (e1 @ e2)))"

definition unknown_fields :: "(nat \<Rightarrow> field_read) \<Rightarrow> (nat \<times> (int + bytes)) list \<Rightarrow> bytes \<Rightarrow> bool" where
  "unknown_fields op fs e =
     (list_all (\<lambda>(f, v). field_ok f \<and> op f = SkipField) fs \<and> encode_unknown fs = Inr e)"

lemma unknown_fields_Nil [simp]: "unknown_fields op [] e \<longleftrightarrow> e = []"
  by (auto simp: unknown_fields_def)

lemma decode_unknown_fields:
  assumes "unknown_fields op fs e" and "\<And>f acc. store f VSkipped acc = acc"
  shows "decode_fields op store (new_ProtoReader (e @ rest)) acc =
    decode_fields op store (new_ProtoReader rest) acc"
  using assms(1)
proof (induction fs arbitrary: e)
  case (Cons fv fs)
  obtain f v where "fv = (f, v)" by force
  with Cons show ?case
    by (cases v) (auto simp: unknown_fields_def and_then_eq_Inr decode_uint32_field(2)
        decode_bytes_field(2) assms(2))
qed simp

subsection \<open>SignalProtocolMessage\<close>

lemmas SM_field_defs = SM_ratchetKey_def SM_counter_def SM_previousCounter_def SM_ciphertext_def
  SM_pqRatchet_def SM_addresses_def SM_recipientIdentityType_def

lemmas PK_field_defs = PK_oneTimePreKeyId_def PK_baseKey_def PK_identityKey_def PK_message_def
  PK_registrationId_def PK_signedPreKeyId_def PK_kyberPreKeyId_def PK_kyberCiphertext_def
  PK_kemOneTimePreKeyId_def PK_kemOneTimeCiphertext_def PK_recipientIdentityType_def

lemma field_ok_numbers [simp]:
  "field_ok SM_ratchetKey" "field_ok SM_counter" "field_ok SM_previousCounter"
  "field_ok SM_ciphertext" "field_ok SM_pqRatchet" "field_ok SM_addresses"
  "field_ok SM_recipientIdentityType"
  "field_ok PK_oneTimePreKeyId" "field_ok PK_baseKey" "field_ok PK_identityKey"
  "field_ok PK_message" "field_ok PK_registrationId" "field_ok PK_signedPreKeyId"
  "field_ok PK_kyberPreKeyId" "field_ok PK_kyberCiphertext" "field_ok PK_kemOneTimePreKeyId"
  "field_ok PK_kemOneTimeCiphertext" "field_ok PK_recipientIdentityType"
  by (simp_all add: field_ok_def SM_field_defs PK_field_defs)

lemma signal_read_fields [simp]:
  "signal_read SM_ratchetKey = ReadBytes" "signal_read SM_counter = ReadUint32"
  "signal_read SM_previousCounter = ReadUint32" "signal_read SM_ciphertext = ReadBytes"
  "signal_read SM_pqRatchet = ReadBytes" "signal_read SM_addresses = ReadBytes"
  "signal_read SM_recipientIdentityType = ReadUint32"
  by (simp_all add: signal_read_def SM_field_defs)

lemma signal_store_fields [simp]:
  "signal_store SM_ratchetKey (VBytes b) w = w\<lparr>sw_ratchetKey := Some b\<rparr>"
  "signal_store SM_counter (VNat n) w = w\<lparr>sw_counter := Some n\<rparr>"
  "signal_store SM_previousCounter (VNat n) w = w\<lparr>sw_previousCounter := Some n\<rparr>"
  "signal_store SM_ciphertext (VBytes b) w = w\<lparr>sw_ciphertext := Some b\<rparr>"
  "signal_store SM_pqRatchet (VBytes b) w = w\<lparr>sw_pqRatchet := Some b\<rparr>"
  "signal_store SM_addresses (VBytes b) w = w\<lparr>sw_addresses := Some b\<rparr>"
  "signal_store SM_recipientIdentityType (VNat n) w = w\<lparr>sw_recipientIdentityType := Some n\<rparr>"
  by (simp_all add: SM_field_defs)

lemma prekey_read_fields [simp]:
  "prekey_read PK_oneTimePreKeyId = ReadUint32" "prekey_read PK_baseKey = ReadBytes"
  "prekey_read PK_identityKey = ReadBytes" "prekey_read PK_message = ReadBytes"
  "prekey_read PK_registrationId = ReadUint32" "prekey_read PK_signedPreKeyId = ReadUint32"
  "prekey_read PK_kyberPreKeyId = ReadUint32" "prekey_read PK_kyberCiphertext = ReadBytes"
  "prekey_read PK_kemOneTimePreKeyId = ReadUint32" "prekey_read PK_kemOneTimeCiphertext = ReadBytes"
  "prekey_read PK_recipientIdentityType = ReadUint32"
  by (simp_all add: prekey_read_def PK_field_defs)

lemma prekey_store_fields [simp]:
  "prekey_store PK_oneTimePreKeyId (VNat n) w = w\<lparr>pw_oneTimePreKeyId := Some n\<rparr>"
  "prekey_store PK_baseKey (VBytes b) w = w\<lparr>pw_baseKey := Some b\<rparr>"
  "prekey_store PK_identityKey (VBytes b) w = w\<lparr>pw_identityKey := Some b\<rparr>"
  "prekey_store PK_message (VBytes b) w = w\<lparr>pw_message := Some b\<rparr>"
  "prekey_store PK_registrationId (VNat n) w = w\<lparr>pw_registrationId := Some n\<rparr>"
  "prekey_store PK_signedPreKeyId (VNat n) w = w\<lparr>pw_signedPreKeyId := Some n\<rparr>"
  "prekey_store PK_kyberPreKeyId (VNat n) w = w\<lparr>pw_kyberPreKeyId := Some n\<rparr>"
  "prekey_store PK_kyberCiphertext (VBytes b) w = w\<lparr>pw_kyberCiphertext := Some b\<rparr>"
  "prekey_store PK_kemOneTimePreKeyId (VNat n) w = w\<lparr>pw_kemOneTimePreKeyId := Some n\<rparr>"
  "prekey_store PK_kemOneTimeCiphertext (VBytes b) w = w\<lparr>pw_kemOneTimeCiphertext := Some b\<rparr>"
  "prekey_store PK_recipientIdentityType (VNat n) w = w\<lparr>pw_recipientIdentityType := Some n\<rparr>"
  by (simp_all add: PK_field_defs)

declare signal_store.simps(1,2) [simp del]
declare prekey_store.simps(1,2) [simp del]

lemmas decode_field_simps =
  decode_uint32_field(1) decode_bytes_field(1) decode_optional_bytes decode_optional_uint32

text \<open>What a message must satisfy to be read back: the checks of the decoder.\<close>

definition uint32 :: "int \<Rightarrow> bool" where
  "uint32 n = (0 \<le> n \<and> n \<le> int UINT32_MAX)"

definition valid_signal :: "SignalProtocolMessageFields \<Rightarrow> bool" where
  "valid_signal m =
     (length (sm_ratchetKey m) = 33 \<and> sm_ciphertext m \<noteq> [] \<and> sm_addresses m \<noteq> [] \<and>
      sm_pqRatchet m \<noteq> Some [] \<and> uint32 (sm_counter m) \<and> uint32 (sm_previousCounter m) \<and>
      (sm_recipientIdentityType m = None \<or> sm_recipientIdentityType m = Some 1 \<or>
       sm_recipientIdentityType m = Some 2))"

definition signal_wire :: "SignalProtocolMessageFields \<Rightarrow> SignalWire" where
  "signal_wire m = \<lparr>sw_ratchetKey = Some (sm_ratchetKey m), sw_counter = Some (nat (sm_counter m)),
     sw_previousCounter = Some (nat (sm_previousCounter m)),
     sw_ciphertext = Some (sm_ciphertext m), sw_pqRatchet = sm_pqRatchet m,
     sw_addresses = Some (sm_addresses m),
     sw_recipientIdentityType = map_option nat (sm_recipientIdentityType m)\<rparr>"

lemma signal_finish_wire: "valid_signal m \<Longrightarrow> signal_finish (signal_wire m) = Inr m"
  by (cases m)
    (auto simp: signal_finish_def signal_wire_def valid_signal_def missing_def nonempty_def
      with_default_def uint32_def identityType_invalid_def)

lemma signal_decode_fields:
  assumes "encodeSignalProtocolMessage m = Inr e"
  shows "decode_fields signal_read signal_store (new_ProtoReader (e @ rest)) signal_empty =
    decode_fields signal_read signal_store (new_ProtoReader rest) (signal_wire m)"
proof -
  from assms obtain f1 f2 f3 f4 f5 f6 f100 where f:
    "encodeBytesField SM_ratchetKey (sm_ratchetKey m) = Inr f1"
    "encodeUint32Field SM_counter (sm_counter m) = Inr f2"
    "encodeUint32Field SM_previousCounter (sm_previousCounter m) = Inr f3"
    "encodeBytesField SM_ciphertext (sm_ciphertext m) = Inr f4"
    "optional_field encodeBytesField SM_pqRatchet (sm_pqRatchet m) = Inr f5"
    "encodeBytesField SM_addresses (sm_addresses m) = Inr f6"
    "optional_field encodeUint32Field SM_recipientIdentityType (sm_recipientIdentityType m) = Inr f100"
    "e = concatFields [f1, f2, f3, f4, f5, f6, f100]"
    by (auto simp: encodeSignalProtocolMessage_def and_then_eq_Inr split: if_splits)
  then show ?thesis
    by (cases "sm_pqRatchet m"; cases "sm_recipientIdentityType m")
      (simp_all add: concatFields_def decode_field_simps signal_empty_def signal_wire_def)
qed


lemma decode_signal_encoded:
  assumes "encodeSignalProtocolMessage m = Inr e" and "valid_signal m"
    and "unknown_fields signal_read us u" and "unknown_fields signal_read ts t"
    and "length (u @ e @ t) \<le> MAX_SIGNAL_PROTOCOL_WIRE_MESSAGE_BYTES"
  shows "decodeSignalProtocolMessage (u @ e @ t) = Inr m"
  using assms decode_unknown_fields [OF assms(4), of signal_store "[]"]
  by (simp add: decodeSignalProtocolMessage_def assertWireMessageSize_def decode_unknown_fields
      signal_decode_fields signal_finish_wire)

subsection \<open>PreKeySignalProtocolMessage\<close>

definition valid_prekey :: "PreKeySignalProtocolMessageFields \<Rightarrow> bool" where
  "valid_prekey m =
     (length (pk_baseKey m) = 33 \<and> length (pk_identityKey m) = 67 \<and> pk_message m \<noteq> [] \<and>
      uint32 (pk_registrationId m) \<and> uint32 (pk_ecSignedPreKeyId m) \<and>
      (\<forall>n \<in> set_option (pk_ecOneTimePreKeyId m). uint32 n) \<and>
      (\<forall>n \<in> set_option (pk_kemLastResortPreKeyId m). uint32 n) \<and>
      (\<forall>n \<in> set_option (pk_kemOneTimePreKeyId m). uint32 n) \<and>
      pk_kemLastResortCiphertext m \<noteq> Some [] \<and> pk_kemOneTimeCiphertext m \<noteq> Some [] \<and>
      (pk_recipientIdentityType m = 1 \<or> pk_recipientIdentityType m = 2))"

definition prekey_wire :: "PreKeySignalProtocolMessageFields \<Rightarrow> PreKeyWire" where
  "prekey_wire m = \<lparr>pw_oneTimePreKeyId = map_option nat (pk_ecOneTimePreKeyId m),
     pw_baseKey = Some (pk_baseKey m), pw_identityKey = Some (pk_identityKey m),
     pw_message = Some (pk_message m), pw_registrationId = Some (nat (pk_registrationId m)),
     pw_signedPreKeyId = Some (nat (pk_ecSignedPreKeyId m)),
     pw_kyberPreKeyId = map_option nat (pk_kemLastResortPreKeyId m),
     pw_kyberCiphertext = pk_kemLastResortCiphertext m,
     pw_kemOneTimePreKeyId = map_option nat (pk_kemOneTimePreKeyId m),
     pw_kemOneTimeCiphertext = pk_kemOneTimeCiphertext m,
     pw_recipientIdentityType = Some (nat (pk_recipientIdentityType m))\<rparr>"

lemma map_option_int_nat: "\<forall>n \<in> set_option v. uint32 n \<Longrightarrow> map_option (int \<circ> nat) v = v"
  by (cases v) (auto simp: uint32_def)

lemma prekey_finish_wire: "valid_prekey m \<Longrightarrow> prekey_finish (prekey_wire m) = Inr m"
  by (cases m)
    (auto simp: prekey_finish_def prekey_wire_def valid_prekey_def missing_def nonempty_def
      option.map_comp map_option_int_nat uint32_def)

lemma prekey_decode_fields:
  assumes "encodePreKeySignalProtocolMessage m = Inr e"
  shows "decode_fields prekey_read prekey_store (new_ProtoReader (e @ rest)) prekey_empty =
    decode_fields prekey_read prekey_store (new_ProtoReader rest) (prekey_wire m)"
proof -
  from assms obtain f1 f2 f3 f4 f5 f6 f7 f8 f100 f101 f102 where
    "optional_field encodeUint32Field PK_oneTimePreKeyId (pk_ecOneTimePreKeyId m) = Inr f1"
    "encodeBytesField PK_baseKey (pk_baseKey m) = Inr f2"
    "encodeBytesField PK_identityKey (pk_identityKey m) = Inr f3"
    "encodeBytesField PK_message (pk_message m) = Inr f4"
    "encodeUint32Field PK_registrationId (pk_registrationId m) = Inr f5"
    "encodeUint32Field PK_signedPreKeyId (pk_ecSignedPreKeyId m) = Inr f6"
    "optional_field encodeUint32Field PK_kyberPreKeyId (pk_kemLastResortPreKeyId m) = Inr f7"
    "optional_field encodeBytesField PK_kyberCiphertext (pk_kemLastResortCiphertext m) = Inr f8"
    "optional_field encodeUint32Field PK_kemOneTimePreKeyId (pk_kemOneTimePreKeyId m) = Inr f100"
    "optional_field encodeBytesField PK_kemOneTimeCiphertext (pk_kemOneTimeCiphertext m) = Inr f101"
    "encodeUint32Field PK_recipientIdentityType (pk_recipientIdentityType m) = Inr f102"
    "e = concatFields [f1, f2, f3, f4, f5, f6, f7, f8, f100, f101, f102]"
    by (auto simp: encodePreKeySignalProtocolMessage_def and_then_eq_Inr split: if_splits)
  then show ?thesis
    by (simp add: concatFields_def decode_field_simps prekey_empty_def prekey_wire_def
        split: option.splits)
qed

lemma decode_prekey_encoded:
  assumes "encodePreKeySignalProtocolMessage m = Inr e" and "valid_prekey m"
    and "unknown_fields prekey_read us u" and "unknown_fields prekey_read ts t"
    and "length (u @ e @ t) \<le> MAX_SIGNAL_PROTOCOL_WIRE_MESSAGE_BYTES"
  shows "decodePreKeySignalProtocolMessage (u @ e @ t) = Inr m"
  using assms decode_unknown_fields [OF assms(4), of prekey_store "[]"]
  by (simp add: decodePreKeySignalProtocolMessage_def assertWireMessageSize_def decode_unknown_fields
      prekey_decode_fields prekey_finish_wire)

subsection \<open>Decoded messages are valid\<close>

text \<open>A bound on the values that one call of the reader returns from a buffer of \<open>n\<close> bytes.\<close>

fun value_fits :: "nat \<Rightarrow> field_read \<Rightarrow> field_value \<Rightarrow> bool" where
  "value_fits n op (VBytes b) = (length b \<le> n)"
| "value_fits n op (VNat v) = (op = ReadUint32 \<longrightarrow> v \<le> UINT32_MAX)"
| "value_fits n op v = True"

lemma apply_read_fits:
  assumes "apply_read op r = Inr (v, r')"
  shows "value_fits (length (rd_bytes r)) op v \<and> rd_bytes r' = rd_bytes r"
proof -
  have "rd_bytes r' = rd_bytes r" using apply_read_moves [OF assms] by (simp add: moves_on_def)
  moreover have "value_fits (length (rd_bytes r)) op v"
    using assms
    by (cases op) (auto simp: and_then_eq_Inr readBytes_def readLengthPrefix_def expectWireType_def
        takeWireType_def readVarintValue_def Let_def js_slice_def dest!: readUint32_moves
        split: if_splits option.splits)
  ultimately show ?thesis by simp
qed

lemma decode_fields_invariant:
  assumes "decode_fields op store r acc = Inr acc'" and "P acc"
    and "\<And>f v acc. P acc \<Longrightarrow> value_fits (length (rd_bytes r)) (op f) v \<Longrightarrow> P (store f v acc)"
  shows "P acc'"
  using assms
proof (induction op store r acc rule: decode_fields.induct)
  case (1 op store r acc)
  show ?case
  proof (cases "hasMore r")
    case True
    with 1(2) obtain f r1 v r2 where t: "readTag r = Inr (f, r1)" and a: "apply_read (op f) r1 = Inr (v, r2)"
      and d: "decode_fields op store r2 (store f v acc) = Inr acc'"
      by (subst (asm) decode_fields.simps) (auto simp: and_then_eq_Inr)
    have "rd_bytes r1 = rd_bytes r" using readTag_moves [OF t] True by (auto simp: moves_on_def)
    with apply_read_fits [OF a] have e: "rd_bytes r2 = rd_bytes r"
      "value_fits (length (rd_bytes r)) (op f) v" by simp_all
    show ?thesis
      by (rule 1(1) [OF True t _ a _ d]) (use 1(3,4) e in auto)
  next
    case False
    with 1(2,3) show ?thesis by (simp add: decode_fields.simps)
  qed
qed

definition signal_fits :: "nat \<Rightarrow> SignalWire \<Rightarrow> bool" where
  "signal_fits n w =
     ((\<forall>b \<in> set_option (sw_ratchetKey w) \<union> set_option (sw_ciphertext w) \<union>
         set_option (sw_pqRatchet w) \<union> set_option (sw_addresses w). length b \<le> n) \<and>
      (\<forall>c \<in> set_option (sw_counter w) \<union> set_option (sw_previousCounter w). c \<le> UINT32_MAX))"

lemma signal_fits_store:
  "signal_fits n w \<Longrightarrow> value_fits n (signal_read f) v \<Longrightarrow> signal_fits n (signal_store f v w)"
  by (cases v) (auto simp: signal_fits_def signal_store.simps signal_read_def SM_field_defs)

lemma encodeBytesField_eq:
  "field_ok f \<Longrightarrow> length b \<le> UINT32_MAX \<Longrightarrow>
   encodeBytesField f b = Inr (varint_loop (8 * f + 2) @ varint_loop (length b) @ b)"
  by (simp add: encodeBytesField_def encodeTag_eq field_ok_def encodeVarint_def)

lemma encodeUint32Field_eq:
  "field_ok f \<Longrightarrow> uint32 n \<Longrightarrow> encodeUint32Field f n = Inr (varint_loop (8 * f) @ varint_loop (nat n))"
  using encodeTag_eq [of f 0]
  by (simp add: encodeUint32Field_def field_ok_def encodeVarint_def uint32_def)

lemma encodeBytesField_total:
  "field_ok f \<Longrightarrow> length b \<le> UINT32_MAX \<Longrightarrow> \<exists>e. encodeBytesField f b = Inr e"
  by (simp add: encodeBytesField_eq)

lemma encodeUint32Field_total: "field_ok f \<Longrightarrow> uint32 n \<Longrightarrow> \<exists>e. encodeUint32Field f n = Inr e"
  by (simp add: encodeUint32Field_eq)

lemma signal_decoded_fits:
  assumes "decodeSignalProtocolMessage bs = Inr m"
  obtains w where "signal_fits (length bs) w" and "signal_finish w = Inr m"
    and "length bs \<le> MAX_SIGNAL_PROTOCOL_WIRE_MESSAGE_BYTES"
proof -
  from assms obtain w where w: "decode_fields signal_read signal_store (new_ProtoReader bs) signal_empty = Inr w"
    "signal_finish w = Inr m" "length bs \<le> MAX_SIGNAL_PROTOCOL_WIRE_MESSAGE_BYTES"
    by (auto simp: decodeSignalProtocolMessage_def assertWireMessageSize_def and_then_eq_Inr)
  have "signal_fits (length bs) w"
    by (rule decode_fields_invariant [OF w(1)])
      (auto simp: signal_fits_store new_ProtoReader_def, simp add: signal_fits_def signal_empty_def)
  with w show ?thesis using that by blast
qed

lemma with_default_uint32: "\<forall>c \<in> set_option n. c \<le> UINT32_MAX \<Longrightarrow> uint32 (with_default n)"
  by (cases n) (simp_all add: with_default_def uint32_def)

lemma signal_finish_valid:
  assumes "signal_finish w = Inr m" and "signal_fits n w"
  shows "valid_signal m \<and> length (sm_ciphertext m) \<le> n \<and> length (sm_addresses m) \<le> n \<and>
    (\<forall>b \<in> set_option (sm_pqRatchet m). length b \<le> n)"
proof -
  from assms(1) have m: "m = \<lparr>sm_ratchetKey = the (sw_ratchetKey w),
      sm_counter = with_default (sw_counter w), sm_previousCounter = with_default (sw_previousCounter w),
      sm_ciphertext = the (sw_ciphertext w), sm_pqRatchet = nonempty (sw_pqRatchet w),
      sm_addresses = the (sw_addresses w),
      sm_recipientIdentityType = map_option int (sw_recipientIdentityType w)\<rparr>"
    and c: "\<not> missing (sw_addresses w)" "map_option length (sw_ratchetKey w) = Some 33"
      "\<not> missing (sw_ciphertext w)"
      "\<not> (\<exists>t \<in> set_option (sw_recipientIdentityType w). identityType_invalid (int t))"
    by (auto simp: signal_finish_def split: if_splits)
  from c(4) have "sw_recipientIdentityType w \<in> {None, Some 1, Some 2}"
    by (cases "sw_recipientIdentityType w") (auto simp: identityType_invalid_def)
  moreover have "uint32 (sm_counter m)" "uint32 (sm_previousCounter m)"
    using assms(2) by (simp_all add: m signal_fits_def with_default_uint32)
  ultimately show ?thesis
    using c(1-3) assms(2) by (auto simp: m valid_signal_def signal_fits_def missing_def nonempty_def)
qed

lemma signal_decoded_valid:
  assumes "decodeSignalProtocolMessage bs = Inr m"
  shows "valid_signal m \<and> length (sm_ciphertext m) \<le> length bs \<and> length (sm_addresses m) \<le> length bs \<and>
    (\<forall>b \<in> set_option (sm_pqRatchet m). length b \<le> length bs)"
  by (rule signal_decoded_fits [OF assms]) (rule signal_finish_valid)

lemma optional_bytes_total:
  "field_ok f \<Longrightarrow> \<forall>b \<in> set_option v. length b \<le> UINT32_MAX \<Longrightarrow>
   \<exists>e. optional_field encodeBytesField f v = Inr e"
  by (cases v) (auto simp: optional_field_def encodeBytesField_total)

lemma optional_uint32_total:
  "field_ok f \<Longrightarrow> \<forall>n \<in> set_option v. uint32 n \<Longrightarrow> \<exists>e. optional_field encodeUint32Field f v = Inr e"
  by (cases v) (auto simp: optional_field_def encodeUint32Field_total)

lemma ok_and_then: "\<exists>a. m = Inr a \<Longrightarrow> (\<And>a. \<exists>b. f a = Inr b) \<Longrightarrow> \<exists>b. and_then m f = Inr b"
  by auto

lemmas fields_total = encodeBytesField_total encodeUint32Field_total optional_bytes_total
  optional_uint32_total

lemma encodeSignal_total:
  assumes "valid_signal m" and "length (sm_ciphertext m) \<le> UINT32_MAX"
    and "length (sm_addresses m) \<le> UINT32_MAX"
    and "\<forall>b \<in> set_option (sm_pqRatchet m). length b \<le> UINT32_MAX"
  shows "\<exists>e. encodeSignalProtocolMessage m = Inr e"
proof -
  have u: "uint32 1" "uint32 2" by (simp_all add: uint32_def UINT32_MAX_def)
  have t: "\<not> (\<exists>t \<in> set_option (sm_recipientIdentityType m). identityType_invalid t)"
      "\<forall>n \<in> set_option (sm_recipientIdentityType m). uint32 n"
    using assms(1) u by (auto simp: valid_signal_def identityType_invalid_def)
  have r: "length (sm_ratchetKey m) \<le> UINT32_MAX" using assms(1) by (simp add: valid_signal_def UINT32_MAX_def)
  have a: "sm_addresses m = [] \<longleftrightarrow> False" using assms(1) by (simp add: valid_signal_def)
  show ?thesis
    unfolding encodeSignalProtocolMessage_def
    by (simp only: a t(1) if_False, intro ok_and_then fields_total)
      (use assms t r in \<open>simp_all add: valid_signal_def\<close>)
qed

lemma signal_reencode_lemma:
  assumes "decodeSignalProtocolMessage bs = Inr m"
  shows "valid_signal m \<and> (\<exists>e. encodeSignalProtocolMessage m = Inr e)"
proof -
  have "length bs \<le> UINT32_MAX"
    by (rule signal_decoded_fits [OF assms])
      (simp add: MAX_SIGNAL_PROTOCOL_WIRE_MESSAGE_BYTES_def UINT32_MAX_def)
  with signal_decoded_valid [OF assms] show ?thesis
    by (intro conjI encodeSignal_total) (auto intro: order_trans)
qed

text \<open>How long an encoded message is at most.\<close>

lemma length_varint: "n < 2 ^ (7 * Suc k) \<Longrightarrow> length (varint_loop n) \<le> Suc k"
proof (induction k arbitrary: n)
  case 0
  then show ?case by (subst varint_loop.simps) simp
next
  case (Suc k)
  then have "drop_bit 7 n < 2 ^ (7 * Suc k)" by (simp add: drop_bit_eq_div less_mult_imp_div_less power_add)
  with Suc.IH show ?case by (subst varint_loop.simps) simp
qed

lemma encodeVarint_length: "encodeVarint n = Inr bs \<Longrightarrow> length bs \<le> 5"
  using length_varint [of "nat n" 4] by (auto simp: encodeVarint_def UINT32_MAX_def split: if_splits)

lemma field_lengths:
  "encodeUint32Field f n = Inr bs \<Longrightarrow> length bs \<le> 10"
  "encodeBytesField f b = Inr bs \<Longrightarrow> length bs \<le> 10 + length b"
  by (auto simp: encodeUint32Field_def encodeBytesField_def encodeTag_def and_then_eq_Inr dest!: encodeVarint_length)

lemma encodeSignal_length:
  assumes "encodeSignalProtocolMessage m = Inr e"
  shows "length e \<le> 70 + length (sm_ratchetKey m) + length (sm_ciphertext m) + length (sm_addresses m) +
    (case sm_pqRatchet m of None \<Rightarrow> 0 | Some b \<Rightarrow> length b)"
proof -
  have o: "length bs \<le> 10" if "optional_field encodeUint32Field f v = Inr bs" for f v bs
    using that by (cases v) (auto simp: optional_field_def dest: field_lengths)
  have b: "length bs \<le> 10 + (case v of None \<Rightarrow> 0 | Some b \<Rightarrow> length b)" if "optional_field encodeBytesField f v = Inr bs" for f v bs
    using that by (cases v) (auto simp: optional_field_def dest: field_lengths)
  from assms obtain f1 f2 f3 f4 f5 f6 f100 where f:
    "encodeBytesField SM_ratchetKey (sm_ratchetKey m) = Inr f1" "encodeUint32Field SM_counter (sm_counter m) = Inr f2"
    "encodeUint32Field SM_previousCounter (sm_previousCounter m) = Inr f3"
    "encodeBytesField SM_ciphertext (sm_ciphertext m) = Inr f4" "optional_field encodeBytesField SM_pqRatchet (sm_pqRatchet m) = Inr f5"
    "encodeBytesField SM_addresses (sm_addresses m) = Inr f6"
    "optional_field encodeUint32Field SM_recipientIdentityType (sm_recipientIdentityType m) = Inr f100"
    "e = concatFields [f1, f2, f3, f4, f5, f6, f100]"
    by (auto simp: encodeSignalProtocolMessage_def and_then_eq_Inr split: if_splits)
  show ?thesis
    using field_lengths(2) [OF f(1)] field_lengths(1) [OF f(2)] field_lengths(1) [OF f(3)] field_lengths(2) [OF f(4)]
      b [OF f(5)] field_lengths(2) [OF f(6)] o [OF f(7)] by (simp add: f(8) concatFields_def)
qed

section \<open>Properties\<close>

text \<open>
  C29. what the encoder writes for a valid SignalProtocolMessage is decoded to the same message,
  also when fields of unknown numbers stand in front of it and behind it, as long as the whole
  stays within the input limit.
\<close>

theorem signal_message_roundtrip:
  assumes "encodeSignalProtocolMessage m = Inr e" and "valid_signal m"
    and "unknown_fields signal_read us u" and "unknown_fields signal_read ts t"
    and "length (u @ e @ t) \<le> MAX_SIGNAL_PROTOCOL_WIRE_MESSAGE_BYTES"
  shows "decodeSignalProtocolMessage (u @ e @ t) = Inr m"
  using assms by (rule decode_signal_encoded)

definition sample_signal :: SignalProtocolMessageFields where
  "sample_signal = \<lparr>sm_ratchetKey = 5 # replicate 32 9, sm_counter = 300, sm_previousCounter = 0,
     sm_ciphertext = [3], sm_pqRatchet = Some [7], sm_addresses = [1],
     sm_recipientIdentityType = Some 2\<rparr>"

definition sample_signal_bytes :: bytes where
  "sample_signal_bytes = [0x0a, 33, 5] @ replicate 32 9 @ [0x10, 0xac, 0x02, 0x18, 0, 0x22, 1, 3,
     0x2a, 1, 7, 0x32, 1, 1, 0xa0, 0x06, 2]"

lemmas encode_eval = encodeBytesField_eq encodeUint32Field_eq uint32_def UINT32_MAX_def
  optional_field_def identityType_invalid_def concatFields_def

lemma sample_signal_encode: "encodeSignalProtocolMessage sample_signal = Inr sample_signal_bytes"
  by (simp add: encodeSignalProtocolMessage_def sample_signal_def encode_eval)
    (simp add: SM_field_defs sample_signal_bytes_def varint_loop.simps)

lemma sample_signal_valid: "valid_signal sample_signal"
  by (simp add: valid_signal_def sample_signal_def uint32_def UINT32_MAX_def)

theorem signal_message_roundtrip_witness:
  "decodeSignalProtocolMessage ([] @ sample_signal_bytes @ [0x9a, 0x06, 1, 0xff]) = Inr sample_signal"
proof (rule signal_message_roundtrip [OF sample_signal_encode])
  show "valid_signal sample_signal" by (rule sample_signal_valid)
  show "unknown_fields signal_read [] []" by simp
  have "encodeBytesField 99 [0xff] = Inr [0x9a, 0x06, 1, 0xff]"
    by (simp add: encode_eval field_ok_def varint_loop.simps)
  then show "unknown_fields signal_read [(99, Inr [0xff])] [0x9a, 0x06, 1, 0xff]"
    by (simp add: unknown_fields_def field_ok_def signal_read_def SM_field_defs)
  show "length ([] @ sample_signal_bytes @ [0x9a, 0x06, 1, 0xff]) \<le>
      MAX_SIGNAL_PROTOCOL_WIRE_MESSAGE_BYTES"
    by (simp add: sample_signal_bytes_def MAX_SIGNAL_PROTOCOL_WIRE_MESSAGE_BYTES_def)
qed

text \<open>
  A SignalProtocolMessage that the decoder accepts, from any bytes, has a ratchet key of 33
  bytes, a non-empty ciphertext and address binding, counters that are 32-bit numbers and an
  identity type that is absent, ACI or PNI; the encoder does not throw on it.
\<close>

theorem signal_decode_valid:
  assumes "decodeSignalProtocolMessage bs = Inr m"
  shows "valid_signal m \<and> (\<exists>e. encodeSignalProtocolMessage m = Inr e)"
  using assms by (rule signal_reencode_lemma)

theorem signal_decode_valid_witness:
  "valid_signal sample_signal \<and> (\<exists>e. encodeSignalProtocolMessage sample_signal = Inr e)"
proof (rule signal_decode_valid)
  show "decodeSignalProtocolMessage sample_signal_bytes = Inr sample_signal"
    using decode_signal_encoded [OF sample_signal_encode, of "[]" "[]" "[]" "[]"]
      sample_signal_valid
    by (simp add: sample_signal_bytes_def MAX_SIGNAL_PROTOCOL_WIRE_MESSAGE_BYTES_def)
qed

text \<open>
  What the encoder writes for a valid PreKeySignalProtocolMessage is decoded to the same
  message, absent and zero key ids kept apart, also with unknown fields around it.
\<close>

theorem prekey_message_roundtrip:
  assumes "encodePreKeySignalProtocolMessage m = Inr e" and "valid_prekey m"
    and "unknown_fields prekey_read us u" and "unknown_fields prekey_read ts t"
    and "length (u @ e @ t) \<le> MAX_SIGNAL_PROTOCOL_WIRE_MESSAGE_BYTES"
  shows "decodePreKeySignalProtocolMessage (u @ e @ t) = Inr m"
  using assms by (rule decode_prekey_encoded)

definition sample_prekey :: PreKeySignalProtocolMessageFields where
  "sample_prekey = \<lparr>pk_ecOneTimePreKeyId = Some 0, pk_baseKey = 5 # replicate 32 9,
     pk_identityKey = replicate 67 1, pk_message = [0x44], pk_registrationId = 5,
     pk_ecSignedPreKeyId = 7, pk_kemLastResortPreKeyId = None, pk_kemLastResortCiphertext = None,
     pk_kemOneTimePreKeyId = Some 1, pk_kemOneTimeCiphertext = Some [8],
     pk_recipientIdentityType = 1\<rparr>"

definition sample_prekey_bytes :: bytes where
  "sample_prekey_bytes = [0x08, 0, 0x12, 33, 5] @ replicate 32 9 @ [0x1a, 67] @ replicate 67 1 @
     [0x22, 1, 0x44, 0x28, 5, 0x30, 7, 0xa0, 0x06, 1, 0xaa, 0x06, 1, 8, 0xb0, 0x06, 1]"

theorem prekey_message_roundtrip_witness:
  "decodePreKeySignalProtocolMessage ([] @ sample_prekey_bytes @ []) = Inr sample_prekey"
proof (rule prekey_message_roundtrip)
  show "encodePreKeySignalProtocolMessage sample_prekey = Inr sample_prekey_bytes"
    by (simp add: encodePreKeySignalProtocolMessage_def sample_prekey_def encode_eval)
      (simp add: PK_field_defs sample_prekey_bytes_def varint_loop.simps)
  show "valid_prekey sample_prekey"
    by (simp add: valid_prekey_def sample_prekey_def uint32_def UINT32_MAX_def)
  show "unknown_fields prekey_read [] []" by simp
  show "unknown_fields prekey_read [] []" by simp
  show "length ([] @ sample_prekey_bytes @ []) \<le> MAX_SIGNAL_PROTOCOL_WIRE_MESSAGE_BYTES"
    by (simp add: sample_prekey_bytes_def MAX_SIGNAL_PROTOCOL_WIRE_MESSAGE_BYTES_def)
qed

text \<open>
  C32. an address binding written for two addresses with well-formed user ids is accepted as the binding of exactly these two
  addresses, in this order: the check returns true for no other sender or recipient, so two
  devices of one user, or a swapped pair, are told apart.
\<close>

theorem address_binding_exact:
  assumes "serializeSignalProtocolMessageAddresses s r = Inr bs" and "addressable s" and "addressable r"
  shows "signalProtocolMessageAddressesEqual bs s' r' = Inr (s' = s \<and> r' = r)"
  using deserialize_serialize [OF assms]
  by (cases s; cases r; cases s'; cases r') (auto simp: signalProtocolMessageAddressesEqual_def)

theorem address_binding_exact_witness:
  "signalProtocolMessageAddressesEqual [1, 1, 0x61, 0, 0, 0, 1, 1, 0x62, 0, 0, 1, 2]
     \<lparr>userId = [0x61], deviceId = 1\<rparr> \<lparr>userId = [0x62], deviceId = 2\<rparr> = Inr False"
proof -
  let ?s = "\<lparr>userId = [0x61], deviceId = 1\<rparr>" and ?r = "\<lparr>userId = [0x62], deviceId = 258\<rparr>"
  have "serializeSignalProtocolMessageAddresses ?s ?r =
      Inr [1, 1, 0x61, 0, 0, 0, 1, 1, 0x62, 0, 0, 1, 2]"
    by (simp add: serializeSignalProtocolMessageAddresses_def encodeAddress_def textEncoder_encode_def
        high_surrogate_def low_surrogate_def utf8_scalar_def encodeVarint_def UINT32_MAX_def
        varint_loop.simps encodeUint32BE_def ADDRESS_BINDING_FORMAT_VERSION_def drop_bit_eq_div)
  from address_binding_exact [OF this, of ?s "\<lparr>userId = [0x62], deviceId = 2\<rparr>"] show ?thesis
    by (simp add: addressable_def wire_text_def high_surrogate_def low_surrogate_def)
qed

text \<open>
  Parsing a framed message gives back the protobuf bytes and the MAC that were framed, with
  version 4; and parsing any bytes splits them without loss: the version byte, the protobuf bytes
  and the last eight bytes in this order are the input.
\<close>

theorem envelope_parse_exact:
  "(parseSignalProtocolMessageEnvelope bs = Inr (v, p, mac) \<longleftrightarrow>
     (\<exists>b. bs = b # p @ mac \<and> length mac = MAC_LENGTH \<and> v = unat b div 16)) \<and>
   (frameSignalProtocolMessage p mac = Inr bs \<longleftrightarrow>
     parseSignalProtocolMessageEnvelope bs = Inr (4, p, mac) \<and> hd bs = 0x44)"
  by (auto simp: parse_envelope_iff frameSignalProtocolMessage_def makeVersionByte_current)

end
