(* ===== verification/Kdf.thy ===== *)
theory Kdf
  imports Signal_Message
begin

text \<open>
  The key derivation functions of internal/crypto/kdf/hkdf.ts: HKDF, the root and chain key steps
  of the Double Ratchet, the message key expansion, the hybrid mix and the three derivations of
  the post-quantum chain. HMAC-SHA256 comes from a library outside the repository and is the
  parameter \<open>hmac\<close> (key, data); the lemmas that need it assume that it returns 32 bytes. Zeroing
  of buffers that are no longer referenced has no effect on the results and is left out.

  Shown here: the expansion loop is the construction of RFC 5869, no derivation of the protocol
  throws on keys of the right size, and all derived keys have their size.
\<close>

section \<open>Definitions\<close>

type_synonym hmac_fun = "bytes \<Rightarrow> bytes \<Rightarrow> bytes"

definition ascii :: "string \<Rightarrow> js_string" where
  "ascii s = map (\<lambda>c. of_nat (of_char c)) s"

definition stringToBytes :: "js_string \<Rightarrow> bytes" where
  "stringToBytes str = textEncoder_encode str"

definition zeros :: "nat \<Rightarrow> bytes" where
  "zeros n = replicate n 0"

subsection \<open>HKDF\<close>

text \<open>The loop of \<open>hkdfExpand\<close>: \<open>t\<close> is the last block, \<open>i\<close> the index, \<open>k\<close> the blocks to come.\<close>

fun expand_loop :: "hmac_fun \<Rightarrow> bytes \<Rightarrow> bytes \<Rightarrow> bytes \<Rightarrow> nat \<Rightarrow> nat \<Rightarrow> bytes" where
  "expand_loop hmac prk info t i 0 = []"
| "expand_loop hmac prk info t i (Suc k) =
     (let t' = hmac prk (t @ info @ [of_nat (i + 1)])
      in t' @ expand_loop hmac prk info t' (i + 1) k)"

definition hkdfExpand :: "hmac_fun \<Rightarrow> bytes \<Rightarrow> bytes \<Rightarrow> nat \<Rightarrow> bytes result" where
  "hkdfExpand hmac prk info len =
     (let hashLength = 32; n = (len + (hashLength - 1)) div hashLength in
      if n > 255 then Inl (PlainError ''HKDF length too long'')
      else Inr (take len (expand_loop hmac prk info [] 0 n)))"

definition hkdf :: "hmac_fun \<Rightarrow> bytes \<Rightarrow> bytes \<Rightarrow> bytes \<Rightarrow> nat \<Rightarrow> bytes result" where
  "hkdf hmac ikm salt info len =
     (let prk = hmac (if length salt > 0 then salt else zeros 32) ikm in hkdfExpand hmac prk info len)"

subsection \<open>Double Ratchet\<close>

text \<open>Returns the new root key and the chain key.\<close>

definition kdfRootKey :: "hmac_fun \<Rightarrow> bytes \<Rightarrow> bytes \<Rightarrow> (bytes \<times> bytes) result" where
  "kdfRootKey hmac rootKey dhOutput =
     (let salt = rootKey; info = stringToBytes (ascii ''WhisperRatchet'') in
      and_then (hkdf hmac dhOutput salt info 64) (\<lambda>derived.
        Inr (js_slice 0 32 derived, js_slice 32 64 derived)))"

text \<open>Returns the next chain key and the message key.\<close>

definition kdfChainKey :: "hmac_fun \<Rightarrow> bytes \<Rightarrow> bytes \<times> bytes" where
  "kdfChainKey hmac chainKey =
     (let messageKey = hmac chainKey [0x01]; nextChainKey = hmac chainKey [0x02]
      in (nextChainKey, messageKey))"

record ExpandedKey =
  encryptionKey :: bytes
  authKey :: bytes
  iv :: bytes

definition expandMessageKey :: "hmac_fun \<Rightarrow> bytes \<Rightarrow> bytes option \<Rightarrow> ExpandedKey result" where
  "expandMessageKey hmac messageKey optionalSalt =
     (let salt = (case optionalSalt of None \<Rightarrow> zeros 32 | Some s \<Rightarrow> s);
          info = stringToBytes (ascii ''WhisperMessageKeys'') in
      and_then (hkdf hmac messageKey salt info 80) (\<lambda>expanded.
        Inr \<lparr>encryptionKey = js_slice 0 32 expanded, authKey = js_slice 32 64 expanded,
             iv = js_slice 64 80 expanded\<rparr>))"

subsection \<open>Hybrid mix and post-quantum chain\<close>

definition kdfHybrid :: "hmac_fun \<Rightarrow> bytes \<Rightarrow> bytes \<Rightarrow> js_string option \<Rightarrow> bytes result" where
  "kdfHybrid hmac ec_mk pq_mk infoString =
     (if length ec_mk \<noteq> 32 then Inl (PlainError ''EC message key must be 32 bytes'')
      else if length pq_mk \<noteq> 32 then Inl (PlainError ''PQ message key must be 32 bytes'')
      else hkdf hmac ec_mk pq_mk
             (stringToBytes (case infoString of None \<Rightarrow> ascii ''Signal Triple Ratchet V1'' | Some s \<Rightarrow> s)) 32)"

definition CHAIN_START :: js_string where
  "CHAIN_START = ascii ''Signal PQ Ratchet V1 Chain  Start''"

definition CHAIN_ADD_EPOCH :: js_string where
  "CHAIN_ADD_EPOCH = ascii ''Signal PQ Ratchet V1 Chain Add Epoch''"

definition CHAIN_NEXT :: js_string where
  "CHAIN_NEXT = ascii ''Signal PQ Ratchet V1 Chain Next''"

record SPQRInfoConfig =
  cfg_prefix :: "js_string option"
  cfg_chainStart :: "js_string option"
  cfg_chainAddEpoch :: "js_string option"
  cfg_chainNext :: "js_string option"

record ResolvedSPQRInfoStrings =
  chainStart :: js_string
  chainAddEpoch :: js_string
  chainNext :: js_string

definition or_else :: "'a option \<Rightarrow> 'a \<Rightarrow> 'a" where
  "or_else x d = (case x of None \<Rightarrow> d | Some y \<Rightarrow> y)"

definition resolveSPQRInfoStrings :: "SPQRInfoConfig option \<Rightarrow> ResolvedSPQRInfoStrings" where
  "resolveSPQRInfoStrings config =
     (let field = (\<lambda>f. Option.bind config f) in
      case field cfg_prefix of
        Some prefix \<Rightarrow>
          \<lparr>chainStart = or_else (field cfg_chainStart) (prefix @ ascii ''Start''),
           chainAddEpoch = or_else (field cfg_chainAddEpoch) (prefix @ ascii ''Add Epoch''),
           chainNext = or_else (field cfg_chainNext) (prefix @ ascii ''Next'')\<rparr>
      | None \<Rightarrow>
          \<lparr>chainStart = or_else (field cfg_chainStart) CHAIN_START,
           chainAddEpoch = or_else (field cfg_chainAddEpoch) CHAIN_ADD_EPOCH,
           chainNext = or_else (field cfg_chainNext) CHAIN_NEXT\<rparr>)"

text \<open>\<open>DataView.setUint32\<close> with a big-endian layout.\<close>

definition uint32_be :: "nat \<Rightarrow> bytes" where
  "uint32_be v = [of_nat (drop_bit 24 v), of_nat (drop_bit 16 v), of_nat (drop_bit 8 v), of_nat v]"

definition kdfChainKeySPQR :: "hmac_fun \<Rightarrow> bytes \<Rightarrow> int \<Rightarrow> js_string \<Rightarrow> (bytes \<times> bytes) result" where
  "kdfChainKeySPQR hmac chainKey index infoString =
     (if length chainKey \<noteq> 32 then Inl (PlainError ''Chain key must be 32 bytes'')
      else if index < 0 \<or> index > 0xffffffff then Inl (PlainError ''Index must be 0 to 2^32-1'')
      else let info = uint32_be (nat index) @ stringToBytes infoString in
           and_then (hkdf hmac chainKey (zeros 32) info 64) (\<lambda>derived.
             Inr (js_slice 0 32 derived, js_slice 32 64 derived)))"

text \<open>The two epoch derivations return the root key and the chain keys of both directions.\<close>

definition kdfSpqrInit :: "hmac_fun \<Rightarrow> bytes \<Rightarrow> js_string \<Rightarrow> (bytes \<times> bytes \<times> bytes) result" where
  "kdfSpqrInit hmac rootKey infoString =
     (if length rootKey \<noteq> 32 then Inl (PlainError ''Root key must be 32 bytes'')
      else and_then (hkdf hmac rootKey (zeros 0) (stringToBytes infoString) 96) (\<lambda>derived.
             Inr (js_slice 0 32 derived, js_slice 32 64 derived, js_slice 64 96 derived)))"

definition kdfSpqrEpoch ::
    "hmac_fun \<Rightarrow> bytes \<Rightarrow> bytes \<Rightarrow> js_string \<Rightarrow> (bytes \<times> bytes \<times> bytes) result" where
  "kdfSpqrEpoch hmac kyberSharedSecret currentRootKey infoString =
     (if length kyberSharedSecret \<noteq> 32 then Inl (PlainError ''Kyber shared secret must be 32 bytes'')
      else if length currentRootKey \<noteq> 32 then Inl (PlainError ''Current root key must be 32 bytes'')
      else and_then (hkdf hmac kyberSharedSecret currentRootKey (stringToBytes infoString) 96) (\<lambda>derived.
             Inr (js_slice 0 32 derived, js_slice 32 64 derived, js_slice 64 96 derived)))"

section \<open>The expansion of RFC 5869\<close>

text \<open>\<open>T(0)\<close> is empty, \<open>T(i) = HMAC(PRK, T(i-1) | info | i)\<close>; the output is a prefix of \<open>T(1) | T(2) | ...\<close>.\<close>

fun rfc5869_T :: "hmac_fun \<Rightarrow> bytes \<Rightarrow> bytes \<Rightarrow> nat \<Rightarrow> bytes" where
  "rfc5869_T hmac prk info 0 = []"
| "rfc5869_T hmac prk info (Suc i) = hmac prk (rfc5869_T hmac prk info i @ info @ [of_nat (Suc i)])"

definition rfc5869_expand :: "hmac_fun \<Rightarrow> bytes \<Rightarrow> bytes \<Rightarrow> nat \<Rightarrow> bytes" where
  "rfc5869_expand hmac prk info len =
     take len (concat (map (rfc5869_T hmac prk info) [1..<(len + 31) div 32 + 1]))"

lemma expand_loop_rfc:
  "expand_loop hmac prk info (rfc5869_T hmac prk info i) i k =
   concat (map (rfc5869_T hmac prk info) [Suc i..<Suc (i + k)])"
proof (induction k arbitrary: i)
  case (Suc k)
  have "[Suc i..<Suc (i + Suc k)] = Suc i # [Suc (Suc i)..<Suc (Suc i + k)]"
    by (simp add: upt_conv_Cons)
  with Suc [of "Suc i"] show ?case by (simp add: Let_def)
qed simp

lemma hkdfExpand_rfc:
  "len \<le> 8160 \<Longrightarrow> hkdfExpand hmac prk info len = Inr (rfc5869_expand hmac prk info len)"
  using expand_loop_rfc [of hmac prk info 0 "(len + 31) div 32"]
  by (simp add: hkdfExpand_def rfc5869_expand_def Let_def div_le_mono [of "len + 31" 8191 32, simplified]
      not_less del: upt_Suc)

lemma length_expand_loop:
  "(\<And>k d. length (hmac k d) = 32) \<Longrightarrow> length (expand_loop hmac prk info t i k) = 32 * k"
  by (induction k arbitrary: t i) (simp_all add: Let_def)

lemma hkdf_length:
  assumes "\<And>k d. length (hmac k d) = 32" and "len \<le> 8160"
  shows "\<exists>out. hkdf hmac ikm salt info len = Inr out \<and> length out = len"
proof -
  have "len \<le> 32 * ((len + 31) div 32)" by linarith
  then show ?thesis
    using assms(2) length_expand_loop [OF assms(1)] by (simp add: hkdf_def hkdfExpand_def Let_def)
qed

lemma kdfChainKey_length:
  "(\<And>k d. length (hmac k d) = 32) \<Longrightarrow> kdfChainKey hmac ck = (ck', mk) \<Longrightarrow> length ck' = 32 \<and> length mk = 32"
  by (auto simp: kdfChainKey_def Let_def)

lemma kdfRootKey_ok:
  assumes "\<And>k d. length (hmac k d) = 32"
  shows "\<exists>rk ck. kdfRootKey hmac rootKey dh = Inr (rk, ck) \<and> length rk = 32 \<and> length ck = 32"
  using hkdf_length [where hmac = hmac and len = 64, OF assms, of dh rootKey
      "stringToBytes (ascii ''WhisperRatchet'')"]
  by (auto simp: kdfRootKey_def)

lemma expandMessageKey_ok:
  assumes "\<And>k d. length (hmac k d) = 32"
  shows "\<exists>e. expandMessageKey hmac mk salt = Inr e \<and> length (encryptionKey e) = 32 \<and>
    length (authKey e) = 32 \<and> length (iv e) = 16"
  using hkdf_length [where hmac = hmac and len = 80, OF assms, of mk
      "case salt of None \<Rightarrow> zeros 32 | Some s \<Rightarrow> s" "stringToBytes (ascii ''WhisperMessageKeys'')"]
  by (auto simp: expandMessageKey_def Let_def)

lemma spqr_kdf_ok:
  assumes "\<And>k d. length (hmac k d) = 32" and "length a = 32" and "length b = 32"
  shows "\<exists>r s t. kdfSpqrEpoch hmac a b info = Inr (r, s, t) \<and> length r = 32 \<and> length s = 32 \<and> length t = 32"
    and "\<exists>r s t. kdfSpqrInit hmac a info = Inr (r, s, t) \<and> length r = 32 \<and> length s = 32 \<and> length t = 32"
  using hkdf_length [where hmac = hmac and len = 96, OF assms(1), of a b "stringToBytes info"]
    hkdf_length [where hmac = hmac and len = 96, OF assms(1), of a "zeros 0" "stringToBytes info"] assms(2,3)
  by (auto simp: kdfSpqrEpoch_def kdfSpqrInit_def)

section \<open>Properties\<close>

text \<open>
  C40. HKDF is extract then expand of RFC 5869 with a zero key for an empty salt, for every
  length up to 255 blocks; a longer request is the only one that throws.
\<close>

theorem hkdf_is_rfc5869:
  "hkdf hmac ikm salt info len =
     (if len \<le> 255 * 32
      then Inr (rfc5869_expand hmac (hmac (if salt = [] then replicate 32 0 else salt) ikm) info len)
      else Inl (PlainError ''HKDF length too long''))"
proof (cases "len \<le> 8160")
  case True
  then show ?thesis by (simp add: hkdf_def Let_def hkdfExpand_rfc zeros_def)
next
  case False
  then have "(len + 31) div 32 > 255" by linarith
  with False show ?thesis by (simp add: hkdf_def hkdfExpand_def Let_def)
qed

text \<open>
  With an HMAC of 32 bytes, the root key step, the chain key step and the message key
  expansion always return, and the keys they return have 32 bytes and the initialisation vector
  16, whatever their inputs are.
\<close>

theorem ratchet_kdf_sizes:
  assumes "\<And>k d. length (hmac k d) = 32"
  shows "(\<exists>rk ck. kdfRootKey hmac rootKey dh = Inr (rk, ck) \<and> length rk = 32 \<and> length ck = 32) \<and>
    length (fst (kdfChainKey hmac chainKey)) = 32 \<and> length (snd (kdfChainKey hmac chainKey)) = 32 \<and>
    (\<exists>e. expandMessageKey hmac mk salt = Inr e \<and> length (encryptionKey e) = 32 \<and>
      length (authKey e) = 32 \<and> length (iv e) = 16)"
proof -
  have "length (fst (kdfChainKey hmac chainKey)) = 32" "length (snd (kdfChainKey hmac chainKey)) = 32"
    by (simp_all add: kdfChainKey_def Let_def assms)
  with kdfRootKey_ok [of hmac, OF assms] expandMessageKey_ok [of hmac, OF assms] show ?thesis by blast
qed

theorem ratchet_kdf_sizes_witness:
  "length (fst (kdfChainKey (\<lambda>k d. take 32 (k @ d @ replicate 32 0)) [1, 2])) = 32"
  using ratchet_kdf_sizes [where hmac = "\<lambda>k d. take 32 (k @ d @ replicate 32 0)"] by simp

end
