(* ===== verification/Base64.thy ===== *)
theory Base64
  imports Prelude
begin

text \<open>
  The base64 codec of internal/crypto/utils.ts: the portable encoder and decoder behind
  \<open>bytesToBase64\<close> and \<open>base64ToBytes\<close>, the URL-safe variants and the fixed-work comparison.
  A \<open>Base64\<close> value of the source is an ASCII string; JavaScript's 32-bit shift and mask
  operations are the operations of \<^typ>\<open>32 word\<close>.

  Shown here: decoding inverts encoding, every accepted text that has no white space is the
  one canonical encoding of the bytes it stands for, and the comparison is equality.
\<close>

section \<open>Definitions\<close>

type_synonym Base64 = string

definition BASE64_ALPHABET :: string where
  "BASE64_ALPHABET = ''ABCDEFGHIJKLMNOPQRSTUVWXYZabcdefghijklmnopqrstuvwxyz0123456789+/''"

definition charCodeAt :: "char \<Rightarrow> nat" where
  "charCodeAt c = of_char c"

definition BASE64_LOOKUP :: "int list" where
  "BASE64_LOOKUP =
     fold (\<lambda>index lookup. lookup[charCodeAt (BASE64_ALPHABET ! index) := int index])
       [0..<64] (replicate 256 (-1))"

definition alphabet_at :: "32 word \<Rightarrow> char" where
  "alphabet_at i = BASE64_ALPHABET ! unat i"

definition triple_value :: "byte \<Rightarrow> byte \<Rightarrow> byte \<Rightarrow> 32 word" where
  "triple_value a b c = push_bit 16 (ucast a) OR push_bit 8 (ucast b) OR ucast c"

fun bytesToBase64Portable :: "bytes \<Rightarrow> string" where
  "bytesToBase64Portable [] = []"
| "bytesToBase64Portable [a] =
     (let value = triple_value a 0 0 in
      [alphabet_at (drop_bit 18 value AND 63), alphabet_at (drop_bit 12 value AND 63),
       CHR ''='', CHR ''=''])"
| "bytesToBase64Portable [a, b] =
     (let value = triple_value a b 0 in
      [alphabet_at (drop_bit 18 value AND 63), alphabet_at (drop_bit 12 value AND 63),
       alphabet_at (drop_bit 6 value AND 63), CHR ''=''])"
| "bytesToBase64Portable (a # b # c # rest) =
     (let value = triple_value a b c in
      [alphabet_at (drop_bit 18 value AND 63), alphabet_at (drop_bit 12 value AND 63),
       alphabet_at (drop_bit 6 value AND 63), alphabet_at (value AND 63)]
      @ bytesToBase64Portable rest)"

definition decodeBase64Char :: "char \<Rightarrow> (32 word) result" where
  "decodeBase64Char character =
     (let code = charCodeAt character;
          value = (if code < length BASE64_LOOKUP then BASE64_LOOKUP ! code else -1)
      in if value < 0 then Inl (PlainError ''Invalid base64 character'')
         else Inr (of_int value))"

text \<open>The characters below code 256 that JavaScript's \<open>\s\<close> matches.\<close>

definition is_js_space :: "char \<Rightarrow> bool" where
  "is_js_space c = (charCodeAt c \<in> {9, 10, 11, 12, 13, 32, 160})"

definition base64_padding :: "string \<Rightarrow> nat" where
  "base64_padding s =
     (if length s \<ge> 2 \<and> drop (length s - 2) s = ''=='' then 2
      else if length s \<ge> 1 \<and> drop (length s - 1) s = ''='' then 1 else 0)"

definition decode_quantum :: "nat \<Rightarrow> bool \<Rightarrow> char \<Rightarrow> char \<Rightarrow> char \<Rightarrow> char \<Rightarrow> (32 word) result" where
  "decode_quantum padding isFinalChunk c1 c2 c3 c4 =
     and_then (throw_if (c1 = CHR ''='' \<or> c2 = CHR ''='') (PlainError ''Invalid base64 padding'')) (\<lambda>_.
     and_then (throw_if (\<not> isFinalChunk \<and> (c3 = CHR ''='' \<or> c4 = CHR ''=''))
                 (PlainError ''Invalid base64 padding'')) (\<lambda>_.
     and_then (throw_if (c3 = CHR ''='' \<and> c4 \<noteq> CHR ''='') (PlainError ''Invalid base64 padding'')) (\<lambda>_.
     and_then (throw_if (c3 = CHR ''='' \<and> padding \<noteq> 2) (PlainError ''Invalid base64 padding'')) (\<lambda>_.
     and_then (throw_if (c4 = CHR ''='' \<and> padding = 0) (PlainError ''Invalid base64 padding'')) (\<lambda>_.
     and_then (decodeBase64Char c1) (\<lambda>firstValue.
     and_then (decodeBase64Char c2) (\<lambda>secondValue.
     and_then (if c3 = CHR ''='' then Inr 0 else decodeBase64Char c3) (\<lambda>thirdValue.
     and_then (if c4 = CHR ''='' then Inr 0 else decodeBase64Char c4) (\<lambda>fourthValue.
     and_then (throw_if (isFinalChunk \<and> padding = 2 \<and> secondValue AND 15 \<noteq> 0)
                 (PlainError ''Invalid base64 padding bits'')) (\<lambda>_.
     and_then (throw_if (isFinalChunk \<and> padding = 1 \<and> thirdValue AND 3 \<noteq> 0)
                 (PlainError ''Invalid base64 padding bits'')) (\<lambda>_.
     Inr (push_bit 18 firstValue OR push_bit 12 secondValue OR push_bit 6 thirdValue
          OR fourthValue))))))))))))"

definition quantum_bytes :: "32 word \<Rightarrow> bytes" where
  "quantum_bytes value =
     [ucast (drop_bit 16 value AND 255), ucast (drop_bit 8 value AND 255), ucast (value AND 255)]"

text \<open>
  The loop over the quanta. The source writes into an array of \<open>length / 4 * 3 - padding\<close> bytes
  and drops the bytes that do not fit; since only the last quantum can overflow, the loop
  appends the three bytes of a quantum cut to the space left.
\<close>

fun decode_quanta :: "nat \<Rightarrow> nat \<Rightarrow> string \<Rightarrow> bytes result" where
  "decode_quanta padding space (c1 # c2 # c3 # c4 # rest) =
     and_then (decode_quantum padding (rest = []) c1 c2 c3 c4) (\<lambda>value.
     and_then (decode_quanta padding (space - 3) rest) (\<lambda>bs.
     Inr (take space (quantum_bytes value) @ bs)))"
| "decode_quanta padding space _ = Inr []"

definition base64ToBytesPortable :: "string \<Rightarrow> bytes result" where
  "base64ToBytesPortable base64 =
     (let normalized = filter (\<lambda>c. \<not> is_js_space c) base64 in
      if normalized = [] then Inr []
      else if length normalized mod 4 \<noteq> 0 then Inl (PlainError ''Invalid base64 string length'')
      else (let padding = base64_padding normalized in
            decode_quanta padding (length normalized div 4 * 3 - padding) normalized))"

definition bytesToBase64 :: "bytes \<Rightarrow> Base64" where
  "bytesToBase64 bytes = bytesToBase64Portable bytes"

definition base64ToBytes :: "Base64 \<Rightarrow> bytes result" where
  "base64ToBytes base64 = base64ToBytesPortable base64"

fun stripBase64Padding_rev :: "string \<Rightarrow> string" where
  "stripBase64Padding_rev [] = []"
| "stripBase64Padding_rev (c # cs) = (if c = CHR ''='' then stripBase64Padding_rev cs else c # cs)"

definition stripBase64Padding :: "string \<Rightarrow> string" where
  "stripBase64Padding base64 = rev (stripBase64Padding_rev (rev base64))"

definition to_url_char :: "char \<Rightarrow> char" where
  "to_url_char c = (if c = CHR ''+'' then CHR ''-'' else if c = CHR ''/'' then CHR ''_'' else c)"

definition from_url_char :: "char \<Rightarrow> char" where
  "from_url_char c = (if c = CHR ''-'' then CHR ''+'' else if c = CHR ''_'' then CHR ''/'' else c)"

definition bytesToUrlSafeBase64 :: "bytes \<Rightarrow> string" where
  "bytesToUrlSafeBase64 bytes = stripBase64Padding (map to_url_char (bytesToBase64Portable bytes))"

definition base64ToUrlSafe :: "string \<Rightarrow> string" where
  "base64ToUrlSafe base64 = stripBase64Padding (map to_url_char base64)"

definition urlSafeToBase64 :: "string \<Rightarrow> string" where
  "urlSafeToBase64 urlSafe =
     (let base64 = map from_url_char urlSafe; pad = length base64 mod 4
      in if pad = 2 then base64 @ ''=='' else if pad = 3 then base64 @ ''='' else base64)"

text \<open>The fixed-work comparison: the accumulated difference over the common length.\<close>

definition byte_difference :: "bytes \<Rightarrow> bytes \<Rightarrow> byte" where
  "byte_difference a b = fold (\<lambda>(x, y) difference. difference OR (x XOR y)) (zip a b) 0"

definition constantTimeEqual :: "bytes \<Rightarrow> bytes \<Rightarrow> bool" where
  "constantTimeEqual a b =
     (if length a \<noteq> length b
      then byte_difference (replicate 32 0) (replicate 32 0) \<noteq> 0
      else byte_difference a b = 0)"

text \<open>Auxiliary values of the proofs: the lookup table after \<open>m\<close> entries, the padding of \<open>n\<close> bytes, the value of four sextets.\<close>

definition lookup_upto :: "nat \<Rightarrow> int list" where
  "lookup_upto m = fold (\<lambda>i l. l[charCodeAt (BASE64_ALPHABET ! i) := int i])
      [0..<m] (replicate 256 (-1))"

definition pad_of :: "nat \<Rightarrow> nat" where
  "pad_of n = (3 - n mod 3) mod 3"

definition sextets_value :: "32 word \<Rightarrow> 32 word \<Rightarrow> 32 word \<Rightarrow> 32 word \<Rightarrow> 32 word" where
  "sextets_value i1 i2 i3 i4 = push_bit 18 i1 OR push_bit 12 i2 OR push_bit 6 i3 OR i4"

section \<open>The alphabet and its lookup table\<close>

lemma length_BASE64_ALPHABET [simp]: "length BASE64_ALPHABET = 64"
  by (simp add: BASE64_ALPHABET_def)

lemma alphabet_codes_distinct: "distinct (map charCodeAt BASE64_ALPHABET)"
  by code_simp

lemma charCodeAt_less [simp]: "charCodeAt c < 256"
  by (simp add: charCodeAt_def)

lemma lookup_upto_simps [simp]:
  "lookup_upto 0 = replicate 256 (-1)"
  "lookup_upto (Suc m) = (lookup_upto m)[charCodeAt (BASE64_ALPHABET ! m) := int m]"
  by (simp_all add: lookup_upto_def)

lemma length_lookup_upto [simp]: "length (lookup_upto m) = 256"
  by (induction m) auto

lemma lookup_upto_alphabet:
  "i < m \<Longrightarrow> m \<le> 64 \<Longrightarrow> lookup_upto m ! charCodeAt (BASE64_ALPHABET ! i) = int i"
proof (induction m)
  case (Suc m)
  have "charCodeAt (BASE64_ALPHABET ! m) = charCodeAt (BASE64_ALPHABET ! i) \<longleftrightarrow> m = i"
    using Suc.prems nth_eq_iff_index_eq [OF alphabet_codes_distinct, of m i] by simp
  with Suc show ?case by (cases "m = i") auto
qed simp

lemma lookup_upto_hit:
  assumes "k < 256"
  shows "lookup_upto m ! k = -1 \<or>
    (\<exists>i < m. charCodeAt (BASE64_ALPHABET ! i) = k \<and> lookup_upto m ! k = int i)"
proof (induction m)
  case (Suc m)
  then show ?case
    using assms by (cases "charCodeAt (BASE64_ALPHABET ! m) = k") (auto simp: less_Suc_eq)
qed (simp add: assms)

lemma BASE64_LOOKUP_upto: "BASE64_LOOKUP = lookup_upto 64"
  by (simp add: BASE64_LOOKUP_def lookup_upto_def)

lemma length_BASE64_LOOKUP [simp]: "length BASE64_LOOKUP = 256"
  by (simp add: BASE64_LOOKUP_upto)

lemma lookup_alphabet: "i < 64 \<Longrightarrow> BASE64_LOOKUP ! charCodeAt (BASE64_ALPHABET ! i) = int i"
  by (simp add: BASE64_LOOKUP_upto lookup_upto_alphabet)

lemma lookup_hit:
  "k < 256 \<Longrightarrow> 0 \<le> BASE64_LOOKUP ! k \<Longrightarrow>
    \<exists>i < 64. charCodeAt (BASE64_ALPHABET ! i) = k \<and> BASE64_LOOKUP ! k = int i"
  using lookup_upto_hit [of k 64] by (auto simp: BASE64_LOOKUP_upto)

lemma alphabet_plain_all: "list_all (\<lambda>c. c \<noteq> CHR ''='' \<and> \<not> is_js_space c) BASE64_ALPHABET"
  by code_simp

lemma alphabet_at_plain [simp]:
  assumes "unat i < 64"
  shows "alphabet_at i \<noteq> CHR ''=''" and "\<not> is_js_space (alphabet_at i)"
  using alphabet_plain_all assms nth_mem [of "unat i" BASE64_ALPHABET]
  by (auto simp: list_all_iff alphabet_at_def)

lemma decode_alphabet_at [simp]: "unat i < 64 \<Longrightarrow> decodeBase64Char (alphabet_at i) = Inr i"
  by (simp add: decodeBase64Char_def alphabet_at_def lookup_alphabet)

lemma charCodeAt_inj: "charCodeAt c = charCodeAt d \<Longrightarrow> c = d"
  by (simp add: charCodeAt_def)

lemma decodeBase64Char_alphabet:
  assumes "decodeBase64Char c = Inr i"
  shows "unat i < 64 \<and> c = alphabet_at i"
proof -
  from assms have pos: "0 \<le> BASE64_LOOKUP ! charCodeAt c" and i: "i = of_int (BASE64_LOOKUP ! charCodeAt c)"
    by (auto simp: decodeBase64Char_def Let_def split: if_splits)
  from lookup_hit [OF charCodeAt_less pos] obtain j where j: "j < 64" "charCodeAt (BASE64_ALPHABET ! j) = charCodeAt c"
    "BASE64_LOOKUP ! charCodeAt c = int j" by blast
  then have "unat i = j" using i by (simp add: unat_of_nat)
  with j show ?thesis by (auto simp: alphabet_at_def dest: charCodeAt_inj)
qed

lemma unat_and_63: "unat ((w :: 32 word) AND 63) < 64"
  using take_bit_nat_less_exp [of 6 "unat w"] by (simp add: and_mask_63 unsigned_take_bit_eq)

lemma sextet_cases:
  fixes n :: nat
  obtains "n < 6" | "6 \<le> n" "n < 12" | "12 \<le> n" "n < 18" | "18 \<le> n" "n < 24" | "24 \<le> n"
  by linarith

lemma sextets_of_value:
  fixes v :: "32 word"
  assumes "take_bit 24 v = v"
  shows "push_bit 18 (drop_bit 18 v AND 63) OR push_bit 12 (drop_bit 12 v AND 63)
      OR push_bit 6 (drop_bit 6 v AND 63) OR (v AND 63) = v"
proof (rule bit_word_eqI)
  fix n assume "n < LENGTH(32)"
  have "bit v n \<longleftrightarrow> n < 24 \<and> bit v n"
    by (subst assms [symmetric]) (auto simp: bit_take_bit_iff)
  then show "bit (push_bit 18 (drop_bit 18 v AND 63) OR push_bit 12 (drop_bit 12 v AND 63)
      OR push_bit 6 (drop_bit 6 v AND 63) OR (v AND 63)) n = bit v n"
    by (cases n rule: sextet_cases) (auto simp: bit_simps and_mask_63)
qed

lemma take_bit_triple_value: "take_bit 24 (triple_value a b c) = triple_value a b c"
  by (rule bit_word_eqI) (auto simp: triple_value_def bit_simps dest: bit_imp_le_length)

lemma quantum_bytes_triple_value [simp]: "quantum_bytes (triple_value a b c) = [a, b, c]"
proof -
  have "ucast (drop_bit 16 (triple_value a b c) AND 255) = a"
    by (rule bit_word_eqI) (auto simp: triple_value_def bit_simps and_mask_255 dest: bit_imp_le_length)
  moreover have "ucast (drop_bit 8 (triple_value a b c) AND 255) = b"
    by (rule bit_word_eqI) (auto simp: triple_value_def bit_simps and_mask_255 dest: bit_imp_le_length)
  moreover have "ucast (triple_value a b c AND 255) = c"
    by (rule bit_word_eqI) (auto simp: triple_value_def bit_simps and_mask_255 dest: bit_imp_le_length)
  ultimately show ?thesis by (simp add: quantum_bytes_def)
qed


lemma pad_of_space: "(n + 2) div 3 * 3 - pad_of n = n"
proof -
  define q r where "q = n div 3" and "r = n mod 3"
  have n: "n = 3 * q + r" and "r = 0 \<or> r = 1 \<or> r = 2" by (auto simp: q_def r_def)
  then show ?thesis by (auto simp: pad_of_def)
qed

lemma enc_Nil_iff [simp]: "bytesToBase64Portable bs = [] \<longleftrightarrow> bs = []"
  by (cases bs rule: bytesToBase64Portable.cases) (auto simp: Let_def)

lemma length_bytesToBase64Portable [codec_simps]:
  "length (bytesToBase64Portable bs) = 4 * ((length bs + 2) div 3)"
proof (induction bs rule: bytesToBase64Portable.induct)
  case (4 a b c rest)
  have "(length (a # b # c # rest) + 2) div 3 = Suc ((length rest + 2) div 3)" by simp
  with 4 show ?case by (simp only: bytesToBase64Portable.simps Let_def length_append) simp
qed (simp_all add: Let_def)

lemma base64_padding_append:
  "2 \<le> length ys \<Longrightarrow> base64_padding (xs @ ys) = base64_padding ys"
  by (auto simp: base64_padding_def)

lemma base64_padding_quantum:
  "base64_padding [c1, c2, c3, c4] =
    (if c4 = CHR ''='' then if c3 = CHR ''='' then 2 else 1 else 0)"
  by (simp add: base64_padding_def numeral_2_eq_2)

lemma base64_padding_enc: "bs \<noteq> [] \<Longrightarrow> base64_padding (bytesToBase64Portable bs) = pad_of (length bs)"
proof (induction bs rule: bytesToBase64Portable.induct)
  case (4 a b c rest)
  show ?case
  proof (cases "rest = []")
    case True
    then show ?thesis
      by (simp add: Let_def base64_padding_quantum unat_and_63 pad_of_def)
  next
    case False
    then have "2 \<le> length (bytesToBase64Portable rest)"
      by (cases rest) (auto simp: length_bytesToBase64Portable)
    with 4 False show ?thesis
      by (simp add: Let_def base64_padding_append [of _ "[_, _, _, _]", simplified] pad_of_def)
  qed
qed (simp_all add: Let_def base64_padding_quantum unat_and_63 pad_of_def)

lemma low_sextets_triple:
  "drop_bit 6 (triple_value a 0 0) AND 63 = 0"
  "triple_value a b 0 AND 63 = 0"
  "(drop_bit 12 (triple_value a 0 0) AND 63) AND 15 = 0"
  "(drop_bit 6 (triple_value a b 0) AND 63) AND 3 = 0"
proof -
  have m15: "(w :: 32 word) AND 15 = take_bit 4 w" for w
    using take_bit_eq_mask [of 4 w] by (simp add: mask_eq_exp_minus_1)
  have m3: "(w :: 32 word) AND 3 = take_bit 2 w" for w
    using take_bit_eq_mask [of 2 w] by (simp add: mask_eq_exp_minus_1)
  show "drop_bit 6 (triple_value a 0 0) AND 63 = 0"
    by (rule bit_word_eqI) (auto simp: triple_value_def bit_simps and_mask_63 dest: bit_imp_le_length)
  show "triple_value a b 0 AND 63 = 0"
    by (rule bit_word_eqI) (auto simp: triple_value_def bit_simps and_mask_63 dest: bit_imp_le_length)
  show "(drop_bit 12 (triple_value a 0 0) AND 63) AND 15 = 0"
    by (rule bit_word_eqI) (auto simp: triple_value_def bit_simps and_mask_63 m15 dest: bit_imp_le_length)
  show "(drop_bit 6 (triple_value a b 0) AND 63) AND 3 = 0"
    by (rule bit_word_eqI) (auto simp: triple_value_def bit_simps and_mask_63 m3 dest: bit_imp_le_length)
qed

lemmas quantum_value = sextets_of_value [OF take_bit_triple_value]

lemma decode_quantum_full:
  "\<not> final \<or> p = 0 \<Longrightarrow> decode_quantum p final
     (alphabet_at (drop_bit 18 (triple_value a b c) AND 63))
     (alphabet_at (drop_bit 12 (triple_value a b c) AND 63))
     (alphabet_at (drop_bit 6 (triple_value a b c) AND 63))
     (alphabet_at (triple_value a b c AND 63)) = Inr (triple_value a b c)"
  using quantum_value [of a b c] by (auto simp: decode_quantum_def unat_and_63)

lemma decode_quantum_two:
  "decode_quantum (Suc 0) True
     (alphabet_at (drop_bit 18 (triple_value a b 0) AND 63))
     (alphabet_at (drop_bit 12 (triple_value a b 0) AND 63))
     (alphabet_at (drop_bit 6 (triple_value a b 0) AND 63)) CHR ''='' = Inr (triple_value a b 0)"
  using quantum_value [of a b 0]
  by (simp add: decode_quantum_def unat_and_63 low_sextets_triple)

lemma decode_quantum_one:
  "decode_quantum 2 True
     (alphabet_at (drop_bit 18 (triple_value a 0 0) AND 63))
     (alphabet_at (drop_bit 12 (triple_value a 0 0) AND 63)) CHR ''='' CHR ''='' = Inr (triple_value a 0 0)"
  using quantum_value [of a 0 0]
  by (simp add: decode_quantum_def unat_and_63 low_sextets_triple)

lemma decode_quanta_enc:
  "decode_quanta (pad_of (length bs)) (length bs) (bytesToBase64Portable bs) = Inr bs"
proof (induction bs rule: bytesToBase64Portable.induct)
  case (4 a b c rest)
  have p: "pad_of (length (a # b # c # rest)) = pad_of (length rest)"
    by (simp add: pad_of_def)
  have "decode_quantum (pad_of (length rest)) (rest = [])
     (alphabet_at (drop_bit 18 (triple_value a b c) AND 63))
     (alphabet_at (drop_bit 12 (triple_value a b c) AND 63))
     (alphabet_at (drop_bit 6 (triple_value a b c) AND 63))
     (alphabet_at (triple_value a b c AND 63)) = Inr (triple_value a b c)"
    by (rule decode_quantum_full) (auto simp: pad_of_def)
  with 4 show ?case unfolding p by (simp add: Let_def)
qed (simp_all add: Let_def pad_of_def decode_quantum_one decode_quantum_two)

lemma filter_enc: "filter (\<lambda>c. \<not> is_js_space c) (bytesToBase64Portable bs) = bytesToBase64Portable bs"
proof -
  have eq: "\<not> is_js_space CHR ''=''" by (simp add: is_js_space_def charCodeAt_def)
  show ?thesis
    by (induction bs rule: bytesToBase64Portable.induct) (simp_all add: Let_def eq unat_and_63)
qed

lemma base64_roundtrip: "base64ToBytes (bytesToBase64 bs) = Inr bs"
proof (cases "bs = []")
  case False
  then show ?thesis
    using pad_of_space [of "length bs"]
    by (simp add: base64ToBytes_def bytesToBase64_def base64ToBytesPortable_def filter_enc Let_def
        length_bytesToBase64Portable base64_padding_enc decode_quanta_enc)
qed (simp add: base64ToBytes_def bytesToBase64_def base64ToBytesPortable_def)


lemma sextet_take_bit: "unat (i :: 32 word) < 64 \<Longrightarrow> take_bit 6 i = i"
proof -
  assume "unat i < 64"
  then have "take_bit 6 (unat i) = unat i" by (simp add: take_bit_nat_eq_self_iff)
  then show ?thesis by (metis unsigned_take_bit_eq unsigned_word_eqI)
qed

lemma sextets_value_take:
  fixes j1 j2 j3 j4 :: "32 word"
  defines "v \<equiv> sextets_value (take_bit 6 j1) (take_bit 6 j2) (take_bit 6 j3) (take_bit 6 j4)"
  shows "drop_bit 18 v AND 63 = take_bit 6 j1" and "drop_bit 12 v AND 63 = take_bit 6 j2"
    and "drop_bit 6 v AND 63 = take_bit 6 j3" and "v AND 63 = take_bit 6 j4"
    and "take_bit 24 v = v"
  by (rule bit_word_eqI; auto simp: v_def sextets_value_def bit_simps and_mask_63)+

lemma sextets_value:
  assumes "unat i1 < 64" and "unat i2 < 64" and "unat i3 < 64" and "unat i4 < 64"
  shows "drop_bit 18 (sextets_value i1 i2 i3 i4) AND 63 = i1"
    and "drop_bit 12 (sextets_value i1 i2 i3 i4) AND 63 = i2"
    and "drop_bit 6 (sextets_value i1 i2 i3 i4) AND 63 = i3"
    and "sextets_value i1 i2 i3 i4 AND 63 = i4"
    and "take_bit 24 (sextets_value i1 i2 i3 i4) = sextets_value i1 i2 i3 i4"
  using sextets_value_take [of i1 i2 i3 i4] assms by (simp_all add: sextet_take_bit)

lemma triple_value_quantum_bytes:
  assumes "take_bit 24 v = v" and "quantum_bytes v = [a, b, c]"
  shows "triple_value a b c = v"
proof (rule bit_word_eqI)
  fix n assume "n < LENGTH(32)"
  have hi: "\<not> bit v n" if "24 \<le> n"
    using that by (subst assms(1) [symmetric]) (simp add: bit_take_bit_iff)
  have abc: "a = ucast (drop_bit 16 v AND 255)" "b = ucast (drop_bit 8 v AND 255)"
      "c = ucast (v AND 255)"
    using assms(2) by (auto simp: quantum_bytes_def)
  consider "n < 8" | "8 \<le> n" "n < 16" | "16 \<le> n" "n < 24" | "24 \<le> n" by linarith
  then show "bit (triple_value a b c) n = bit v n"
    using hi unfolding abc by cases (auto simp: triple_value_def bit_simps and_mask_255)
qed

lemma sextets_value_low:
  fixes i1 i2 i3 :: "32 word"
  shows "i3 AND 3 = 0 \<Longrightarrow> ucast (sextets_value i1 i2 i3 0 AND 255) = (0 :: byte)"
    and "i2 AND 15 = 0 \<Longrightarrow> ucast (sextets_value i1 i2 0 0 AND 255) = (0 :: byte)"
    and "i2 AND 15 = 0 \<Longrightarrow> ucast (drop_bit 8 (sextets_value i1 i2 0 0) AND 255) = (0 :: byte)"
proof -
  have m15: "(w :: 32 word) AND 15 = take_bit 4 w" for w
    using take_bit_eq_mask [of 4 w] by (simp add: mask_eq_exp_minus_1)
  have m3: "(w :: 32 word) AND 3 = take_bit 2 w" for w
    using take_bit_eq_mask [of 2 w] by (simp add: mask_eq_exp_minus_1)
  have b3: "i3 AND 3 = 0 \<Longrightarrow> n < 2 \<Longrightarrow> \<not> bit i3 n" for n
    using bit_take_bit_iff [of 2 i3 n] by (simp add: m3)
  have b2: "i2 AND 15 = 0 \<Longrightarrow> n < 4 \<Longrightarrow> \<not> bit i2 n" for n
    using bit_take_bit_iff [of 4 i2 n] by (simp add: m15)
  show "i3 AND 3 = 0 \<Longrightarrow> ucast (sextets_value i1 i2 i3 0 AND 255) = (0 :: byte)"
    by (rule bit_word_eqI) (auto simp: sextets_value_def bit_simps and_mask_255 b3)
  show "i2 AND 15 = 0 \<Longrightarrow> ucast (sextets_value i1 i2 0 0 AND 255) = (0 :: byte)"
    by (rule bit_word_eqI) (auto simp: sextets_value_def bit_simps and_mask_255 b2)
  show "i2 AND 15 = 0 \<Longrightarrow> ucast (drop_bit 8 (sextets_value i1 i2 0 0) AND 255) = (0 :: byte)"
    by (rule bit_word_eqI) (auto simp: sextets_value_def bit_simps and_mask_255 b2)
qed

lemma enc_quantum_bytes:
  assumes "unat i1 < 64" and "unat i2 < 64" and "unat i3 < 64" and "unat i4 < 64"
  shows "bytesToBase64Portable (quantum_bytes (sextets_value i1 i2 i3 i4) @ bs) =
      [alphabet_at i1, alphabet_at i2, alphabet_at i3, alphabet_at i4] @ bytesToBase64Portable bs"
proof -
  obtain a b c where q: "quantum_bytes (sextets_value i1 i2 i3 i4) = [a, b, c]"
    by (simp add: quantum_bytes_def)
  from triple_value_quantum_bytes [OF sextets_value(5) [OF assms] q]
  have "triple_value a b c = sextets_value i1 i2 i3 i4" .
  with q show ?thesis by (simp add: Let_def sextets_value [OF assms])
qed


lemma decode_quantum_value:
  assumes "decode_quantum p final c1 c2 c3 c4 = Inr v"
  obtains i1 i2 i3 i4 where "v = sextets_value i1 i2 i3 i4"
    and "unat i1 < 64" and "unat i2 < 64" and "unat i3 < 64" and "unat i4 < 64"
    and "c1 = alphabet_at i1" and "c2 = alphabet_at i2"
    and "c3 = CHR ''='' \<and> i3 = 0 \<and> c4 = CHR ''='' \<and> final \<and> p = 2 \<or>
         c3 \<noteq> CHR ''='' \<and> c3 = alphabet_at i3"
    and "c4 = CHR ''='' \<and> i4 = 0 \<and> final \<and> p \<noteq> 0 \<or> c4 \<noteq> CHR ''='' \<and> c4 = alphabet_at i4"
    and "final \<Longrightarrow> p = 2 \<Longrightarrow> i2 AND 15 = 0" and "final \<Longrightarrow> p = 1 \<Longrightarrow> i3 AND 3 = 0"
  using assms
  by (fastforce simp: decode_quantum_def and_then_eq_Inr sextets_value_def
      dest: decodeBase64Char_alphabet split: if_splits)

lemma quantum_bytes_append_take:
  "quantum_bytes v = [a, b, c] \<Longrightarrow> 3 \<le> n \<Longrightarrow> take n (quantum_bytes v) = quantum_bytes v"
  by simp

lemma final_quantum_canonical:
  assumes "decode_quantum (base64_padding [c1, c2, c3, c4]) True c1 c2 c3 c4 = Inr v"
  shows "bytesToBase64Portable (take (3 - base64_padding [c1, c2, c3, c4]) (quantum_bytes v)) =
    [c1, c2, c3, c4]"
  using assms
proof (rule decode_quantum_value)
  fix i1 i2 i3 i4
  assume v: "v = sextets_value i1 i2 i3 i4"
    and lt: "unat i1 < 64" "unat i2 < 64" "unat i3 < 64" "unat i4 < 64"
    and c12: "c1 = alphabet_at i1" "c2 = alphabet_at i2"
    and c3: "c3 = CHR ''='' \<and> i3 = 0 \<and> c4 = CHR ''='' \<and> True \<and> base64_padding [c1, c2, c3, c4] = 2 \<or>
         c3 \<noteq> CHR ''='' \<and> c3 = alphabet_at i3"
    and c4: "c4 = CHR ''='' \<and> i4 = 0 \<and> True \<and> base64_padding [c1, c2, c3, c4] \<noteq> 0 \<or>
         c4 \<noteq> CHR ''='' \<and> c4 = alphabet_at i4"
    and p2: "True \<Longrightarrow> base64_padding [c1, c2, c3, c4] = 2 \<Longrightarrow> i2 AND 15 = 0"
    and p1: "True \<Longrightarrow> base64_padding [c1, c2, c3, c4] = 1 \<Longrightarrow> i3 AND 3 = 0"
  obtain a b c where q: "quantum_bytes v = [a, b, c]" by (simp add: quantum_bytes_def)
  from triple_value_quantum_bytes [OF sextets_value(5) [OF lt]] q v
  have tv: "triple_value a b c = sextets_value i1 i2 i3 i4" by simp
  show ?thesis
  proof (cases "c4 = CHR ''=''")
    case False
    then have "base64_padding [c1, c2, c3, c4] = 0" "c3 \<noteq> CHR ''=''"
      using c3 by (auto simp: base64_padding_quantum)
    with False c3 c4 c12 q tv show ?thesis by (simp add: Let_def sextets_value [OF lt])
  next
    case eq4: True
    show ?thesis
    proof (cases "c3 = CHR ''=''")
      case True
      with eq4 have p: "base64_padding [c1, c2, c3, c4] = 2" by (simp add: base64_padding_quantum)
      with p2 c3 c4 True eq4 have "i2 AND 15 = 0" "i3 = 0" "i4 = 0" by auto
      with q v have "b = 0" "c = 0" by (auto simp: quantum_bytes_def sextets_value_low)
      with p q tv True eq4 c12 show ?thesis
        by (simp add: Let_def sextets_value [OF lt])
    next
      case False
      with eq4 have p: "base64_padding [c1, c2, c3, c4] = 1" by (simp add: base64_padding_quantum)
      with p1 c3 c4 False eq4 have "i3 AND 3 = 0" "i4 = 0" "c3 = alphabet_at i3" by auto
      with q v have "c = 0" by (auto simp: quantum_bytes_def sextets_value_low)
      with p q tv False eq4 c12 c3 show ?thesis
        by (simp add: Let_def sextets_value [OF lt])
    qed
  qed
qed

lemma decode_quanta_canonical:
  "p = base64_padding s \<Longrightarrow> sp = length s div 4 * 3 - p \<Longrightarrow> length s mod 4 = 0 \<Longrightarrow> s \<noteq> [] \<Longrightarrow>
   decode_quanta p sp s = Inr bs \<Longrightarrow> bytesToBase64Portable bs = s"
proof (induction p sp s arbitrary: bs rule: decode_quanta.induct)
  case (1 p sp c1 c2 c3 c4 rest)
  from "1.prems"(5) obtain v bs' where v: "decode_quantum p (rest = []) c1 c2 c3 c4 = Inr v"
    and bs': "decode_quanta p (sp - 3) rest = Inr bs'" and bs: "bs = take sp (quantum_bytes v) @ bs'"
    by (auto simp: and_then_eq_Inr)
  show ?case
  proof (cases "rest = []")
    case True
    with v bs bs' "1.prems"(1,2) final_quantum_canonical [of c1 c2 c3 c4 v] show ?thesis by simp
  next
    case False
    with "1.prems"(3) have len: "4 \<le> length rest" "length rest mod 4 = 0"
      by (simp_all, cases rest) (auto dest: dvd_imp_le simp: mod_eq_0_iff_dvd)
    have pad: "p = base64_padding rest"
      using "1.prems"(1) base64_padding_append [of rest "[c1, c2, c3, c4]"] len by simp
    have "p \<le> 2" by (simp add: pad base64_padding_def)
    with len "1.prems"(2) have sp: "sp - 3 = length rest div 4 * 3 - p" "3 \<le> sp" by auto
    from "1.IH" [OF v pad sp(1) len(2) False bs'] have IH: "bytesToBase64Portable bs' = rest" .
    from v show ?thesis
    proof (rule decode_quantum_value)
      fix i1 i2 i3 i4
      assume "v = sextets_value i1 i2 i3 i4"
        and lt: "unat i1 < 64" "unat i2 < 64" "unat i3 < 64" "unat i4 < 64"
        and "c1 = alphabet_at i1" "c2 = alphabet_at i2"
        and "c3 = CHR ''='' \<and> i3 = 0 \<and> c4 = CHR ''='' \<and> rest = [] \<and> p = 2 \<or>
          c3 \<noteq> CHR ''='' \<and> c3 = alphabet_at i3"
        and "c4 = CHR ''='' \<and> i4 = 0 \<and> rest = [] \<and> p \<noteq> 0 \<or> c4 \<noteq> CHR ''='' \<and> c4 = alphabet_at i4"
      moreover have "take sp (quantum_bytes v) = quantum_bytes v"
        using sp(2) by (simp add: quantum_bytes_def)
      ultimately show ?thesis using False IH bs by (simp add: enc_quantum_bytes [OF lt])
    qed
  qed
qed auto

lemma base64_canonical:
  assumes "base64ToBytes s = Inr bs"
  shows "bytesToBase64 bs = filter (\<lambda>c. \<not> is_js_space c) s"
proof (cases "filter (\<lambda>c. \<not> is_js_space c) s = []")
  case True
  with assms show ?thesis
    by (simp add: base64ToBytes_def base64ToBytesPortable_def bytesToBase64_def Let_def)
next
  case False
  with assms decode_quanta_canonical [OF refl refl _ False] show ?thesis
    by (auto simp: base64ToBytes_def base64ToBytesPortable_def bytesToBase64_def Let_def split: if_splits)
qed

lemma xor_byte_eq_0 [simp]: "(x :: byte) XOR y = 0 \<longleftrightarrow> x = y"
  by (auto simp: bit_eq_iff bit_simps)

lemma byte_difference_eq_0: "byte_difference a b = 0 \<longleftrightarrow> (\<forall>(x, y) \<in> set (zip a b). x = y)"
proof -
  have "fold (\<lambda>(x, y) d. d OR (x XOR y)) ps (d0 :: byte) = 0 \<longleftrightarrow> d0 = 0 \<and> (\<forall>(x, y) \<in> set ps. x = y)"
    for ps d0 by (induction ps arbitrary: d0) (auto simp: or_eq_0_iff)
  then show ?thesis by (simp add: byte_difference_def)
qed

lemma constantTimeEqual_iff [simp]: "constantTimeEqual a b \<longleftrightarrow> a = b"
proof (cases "length a = length b")
  case True
  then show ?thesis
    by (auto simp: constantTimeEqual_def byte_difference_eq_0 set_zip list_eq_iff_nth_eq)
next
  case False
  have "byte_difference (replicate 32 0) (replicate 32 0) = 0"
    unfolding byte_difference_eq_0 by simp
  with False show ?thesis by (auto simp: constantTimeEqual_def)
qed

lemma stripBase64Padding_append_eq:
  "stripBase64Padding (s @ replicate n CHR ''='') = stripBase64Padding s"
proof -
  have "stripBase64Padding_rev (replicate n CHR ''='' @ t) = stripBase64Padding_rev t" for t
    by (induction n) auto
  then show ?thesis by (simp add: stripBase64Padding_def)
qed

lemma stripBase64Padding_plain: "CHR ''='' \<notin> set s \<Longrightarrow> stripBase64Padding s = s"
proof -
  assume "CHR ''='' \<notin> set s"
  then have "stripBase64Padding_rev (rev s) = rev s"
    by (cases "rev s") auto
  then show ?thesis by (simp add: stripBase64Padding_def)
qed

lemma enc_body:
  "\<exists>body. bytesToBase64Portable bs = body @ replicate (pad_of (length bs)) CHR ''='' \<and>
     (\<forall>c \<in> set body. \<exists>i. unat i < 64 \<and> c = alphabet_at i)"
proof (induction bs rule: bytesToBase64Portable.induct)
  case (2 a)
  show ?case
    by (rule exI [of _ "take 2 (bytesToBase64Portable [a])"])
      (auto simp: Let_def pad_of_def numeral_2_eq_2 intro: unat_and_63)
next
  case (3 a b)
  show ?case
    by (rule exI [of _ "take 3 (bytesToBase64Portable [a, b])"])
      (auto simp: Let_def pad_of_def intro: unat_and_63)
next
  case (4 a b c rest)
  then obtain body where b: "bytesToBase64Portable rest = body @ replicate (pad_of (length rest)) CHR ''=''"
    "\<forall>c \<in> set body. \<exists>i. unat i < 64 \<and> c = alphabet_at i" by blast
  have p: "pad_of (length (a # b # c # rest)) = pad_of (length rest)" by (simp add: pad_of_def)
  show ?case unfolding p
    by (rule exI [of _ "take 4 (bytesToBase64Portable (a # b # c # rest)) @ body"])
      (use b in \<open>auto simp: Let_def intro: unat_and_63\<close>)
qed (simp add: pad_of_def)

lemma pad_mod_4:
  fixes m p k :: nat
  shows "m + p = 4 * k \<Longrightarrow> p \<le> 2 \<Longrightarrow>
    p = 0 \<and> m mod 4 = 0 \<or> p = 1 \<and> m mod 4 = 3 \<or> p = 2 \<and> m mod 4 = 2"
  by presburger

lemma alphabet_url_plain: "list_all (\<lambda>c. from_url_char (to_url_char c) = c \<and> to_url_char c \<noteq> CHR ''='') BASE64_ALPHABET"
  by code_simp

lemma alphabet_at_url:
  assumes "unat i < 64"
  shows "from_url_char (to_url_char (alphabet_at i)) = alphabet_at i"
    and "to_url_char (alphabet_at i) \<noteq> CHR ''=''"
  using alphabet_url_plain assms nth_mem [of "unat i" BASE64_ALPHABET]
  by (auto simp: list_all_iff alphabet_at_def)

lemma url_safe_roundtrip:
  "urlSafeToBase64 (bytesToUrlSafeBase64 bs) = bytesToBase64 bs"
proof -
  obtain body where b: "bytesToBase64Portable bs = body @ replicate (pad_of (length bs)) CHR ''=''"
    and al: "\<forall>c \<in> set body. \<exists>i. unat i < 64 \<and> c = alphabet_at i" using enc_body by blast
  have eq: "to_url_char CHR ''='' = CHR ''=''" by (simp add: to_url_char_def)
  have np: "CHR ''='' \<notin> set (map to_url_char body)"
    using al alphabet_at_url(2) by (metis imageE set_map)
  have strip: "bytesToUrlSafeBase64 bs = map to_url_char body"
    by (simp add: bytesToUrlSafeBase64_def b eq stripBase64Padding_append_eq stripBase64Padding_plain [OF np])
  have unmap: "map from_url_char (map to_url_char body) = body"
    unfolding map_map by (rule map_idI) (use al in \<open>auto simp: alphabet_at_url(1)\<close>)
  have len: "length body + pad_of (length bs) = 4 * ((length bs + 2) div 3)"
    using length_bytesToBase64Portable [of bs] by (simp add: b)
  have "pad_of (length bs) \<le> 2" by (auto simp: pad_of_def)
  from pad_mod_4 [OF len this] show ?thesis
    by (elim disjE conjE)
      (simp_all add: urlSafeToBase64_def strip unmap Let_def bytesToBase64_def b numeral_2_eq_2 del: map_map)
qed


section \<open>The codec as an interface\<close>

definition no_space :: "string \<Rightarrow> bool" where
  "no_space s = list_all (\<lambda>c. \<not> is_js_space c) s"

interpretation base64: canonical_codec "\<lambda>_. True" bytesToBase64 base64ToBytes no_space
  by unfold_locales
    (auto simp: base64_roundtrip base64_canonical no_space_def list_all_iff filter_id_conv)

declare base64_roundtrip [simp, codec_simps]

lemma base64ToBytes_filter: "base64ToBytes (filter (\<lambda>c. \<not> is_js_space c) s) = base64ToBytes s"
  by (simp add: base64ToBytes_def base64ToBytesPortable_def)

lemma bytesToBase64_inj [simp]: "bytesToBase64 a = bytesToBase64 b \<longleftrightarrow> a = b"
  using base64.enc_inj [of a b] by auto

lemma bytesToBase64_Nil_iff [simp]: "bytesToBase64 bs = [] \<longleftrightarrow> bs = []"
  by (simp add: bytesToBase64_def)

section \<open>Properties\<close>

text \<open>
  The decoder accepts a text exactly when the text without its white space is the canonical
  encoding of the bytes it returns, so decoding inverts encoding on all byte strings and no two
  different texts without white space decode to the same bytes.
\<close>

theorem base64_decode_iff:
  "base64ToBytes s = Inr bs \<longleftrightarrow> filter (\<lambda>c. \<not> is_js_space c) s = bytesToBase64 bs"
  using base64_canonical [of s bs] base64ToBytes_filter [of s] by auto

text \<open>
  The URL-safe form loses nothing: restoring the alphabet and the padding of the URL-safe
  text of a byte string gives its standard base64 text, which decodes to the byte string.
\<close>

theorem url_safe_base64_roundtrip:
  "urlSafeToBase64 (bytesToUrlSafeBase64 bs) = bytesToBase64 bs \<and>
   base64ToBytes (urlSafeToBase64 (bytesToUrlSafeBase64 bs)) = Inr bs"
  by (simp add: url_safe_roundtrip)

end
