(* ===== verification/Double_Ratchet.thy ===== *)
theory Double_Ratchet
  imports Kdf Base64
begin

text \<open>
  The Double Ratchet of internal/protocol/double-ratchet: ratchet.ts (state, configuration, the
  Diffie-Hellman step) and chains.ts (sending and receiving chains, skipped message keys and
  their cleanup).

  The state is an extensible record, as the code passes a session object where a
  \<open>DoubleRatchetState\<close> is expected; the fields that such a session may lack are options. A function
  that mutates the state returns it. HMAC is the parameter \<open>hmac\<close>, X25519 the parameter
  \<open>computeSharedSecret\<close>, the key pair of \<open>generateECDHKeyPair\<close> the argument \<open>fresh\<close>, and the clock of
  one call the argument \<open>now\<close>. Reading a field that is absent as a string is a \<open>TypeError\<close>.

  Shown here: bounds of the stored keys as an invariant of all operations; a stored key is returned
  at most once; the receiving chain gives each message its key in every order of arrival; the two
  ends of a ratchet step derive the same chain key.
\<close>

section \<open>Definitions\<close>

subsection \<open>State and configuration\<close>

record RatchetKeyPair =
  publicKey :: Base64
  privateKey :: Base64

record StoredMessageKey =
  mk_index :: nat
  mk_seed :: Base64
  mk_timestamp :: int

record ReceiverChain =
  rc_senderRatchetKey :: Base64
  rc_chainKey :: "Base64 option"
  rc_messageKeys :: "StoredMessageKey list"

record ProcessedChain =
  pc_lastNr :: nat
  pc_timestamp :: int

record DoubleRatchetState =
  DHs :: "RatchetKeyPair option"
  DHr :: "Base64 option"
  RK :: Base64
  CKs :: "Base64 option"
  Ns :: nat
  CKr :: "Base64 option"
  Nr :: nat
  PN :: nat
  receiverChains :: "ReceiverChain list"
  processedChains :: "(Base64 \<times> ProcessedChain) list option"

record DoubleRatchetConfig =
  maxSkippedMessages :: nat
  maxMessageKeysStored :: nat
  maxMessageKeyAge :: int

definition DEFAULT_RATCHET_CONFIG :: DoubleRatchetConfig where
  "DEFAULT_RATCHET_CONFIG = \<lparr>maxSkippedMessages = 25000, maxMessageKeysStored = 2000,
     maxMessageKeyAge = 7 * 24 * 60 * 60 * 1000\<rparr>"

definition MAX_RECEIVER_CHAINS :: nat where "MAX_RECEIVER_CHAINS = 5"

definition X25519_KEY_BYTES :: nat where "X25519_KEY_BYTES = 32"

text \<open>\<open>Number.MAX_SAFE_INTEGER - 1\<close>\<close>

definition MAX_MESSAGE_COUNTER :: nat where "MAX_MESSAGE_COUNTER = 2 ^ 53 - 1 - 1"

definition required :: "'a option \<Rightarrow> 'a result" where
  "required x = (case x of None \<Rightarrow> Inl (PlainError ''TypeError'') | Some a \<Rightarrow> Inr a)"

subsection \<open>The Diffie-Hellman step (ratchet.ts)\<close>

definition validateDHPublicKey :: "Base64 \<Rightarrow> unit result" where
  "validateDHPublicKey dhPublicKeyB64 =
     and_then (base64ToBytes dhPublicKeyB64) (\<lambda>bytes.
       throw_if (length bytes \<noteq> X25519_KEY_BYTES) (PlainError ''Invalid DH public key in message''))"

type_synonym dh_fun = "Base64 \<Rightarrow> Base64 \<Rightarrow> bytes result"

definition performDHRatchetStep ::
    "hmac_fun \<Rightarrow> dh_fun \<Rightarrow> RatchetKeyPair \<Rightarrow> 'a DoubleRatchetState_scheme \<Rightarrow> Base64 \<Rightarrow>
     'a DoubleRatchetState_scheme result" where
  "performDHRatchetStep hmac computeSharedSecret fresh state receivedDHPublicKey =
     and_then (validateDHPublicKey receivedDHPublicKey) (\<lambda>_.
     let state = state\<lparr>PN := Ns state, Ns := 0, Nr := 0, DHr := Some receivedDHPublicKey\<rparr> in
     and_then (base64ToBytes (RK state)) (\<lambda>rootKeyBytes.
     and_then (required (DHs state)) (\<lambda>dhs.
     and_then (computeSharedSecret (privateKey dhs) receivedDHPublicKey) (\<lambda>dhOutput1.
     and_then (kdfRootKey hmac rootKeyBytes dhOutput1) (\<lambda>(newRootKey1, newReceivingChainKey).
     let state = state\<lparr>RK := bytesToBase64 newRootKey1, CKr := Some (bytesToBase64 newReceivingChainKey),
                       DHs := Some fresh\<rparr> in
     and_then (computeSharedSecret (privateKey fresh) receivedDHPublicKey) (\<lambda>dhOutput2.
     and_then (kdfRootKey hmac newRootKey1 dhOutput2) (\<lambda>(newRootKey2, newSendingChainKey).
     Inr (state\<lparr>RK := bytesToBase64 newRootKey2, CKs := Some (bytesToBase64 newSendingChainKey)\<rparr>))))))))"

definition needsDHRatchet :: "'a DoubleRatchetState_scheme \<Rightarrow> Base64 \<Rightarrow> bool" where
  "needsDHRatchet state receivedDHPublicKey = (DHr state \<noteq> Some receivedDHPublicKey)"

subsection \<open>Chains (chains.ts)\<close>

definition deriveSendingKey ::
    "hmac_fun \<Rightarrow> 'a DoubleRatchetState_scheme \<Rightarrow> (bytes \<times> 'a DoubleRatchetState_scheme) result" where
  "deriveSendingKey hmac state =
     (if Ns state \<ge> MAX_MESSAGE_COUNTER then Inl (EncryptionError COUNTER_OVERFLOW)
      else and_then (and_then (required (CKs state)) base64ToBytes) (\<lambda>chainKeyBytes.
           if length chainKeyBytes \<noteq> 32 then Inl (EncryptionError KEY_STORAGE_ERROR)
           else let (newChainKey, messageKey) = kdfChainKey hmac chainKeyBytes in
                Inr (messageKey, state\<lparr>CKs := Some (bytesToBase64 newChainKey), Ns := Ns state + 1\<rparr>)))"

definition deriveReceivingKey ::
    "hmac_fun \<Rightarrow> 'a DoubleRatchetState_scheme \<Rightarrow> (bytes \<times> 'a DoubleRatchetState_scheme) result" where
  "deriveReceivingKey hmac state =
     (if Nr state \<ge> MAX_MESSAGE_COUNTER then Inl (EncryptionError COUNTER_OVERFLOW)
      else and_then (and_then (required (CKr state)) base64ToBytes) (\<lambda>chainKeyBytes.
           if length chainKeyBytes \<noteq> 32 then Inl (EncryptionError KEY_STORAGE_ERROR)
           else let (newChainKey, messageKey) = kdfChainKey hmac chainKeyBytes in
                Inr (messageKey, state\<lparr>CKr := Some (bytesToBase64 newChainKey), Nr := Nr state + 1\<rparr>)))"

text \<open>
  \<open>getOrCreateReceiverChain\<close> returns a reference into the list; the caller writes the changed chain
  back to the place of the first chain with this ratchet key, where \<open>find\<close> found it.
\<close>

definition find_chain :: "Base64 \<Rightarrow> ReceiverChain list \<Rightarrow> ReceiverChain option" where
  "find_chain key cs = find (\<lambda>c. rc_senderRatchetKey c = key) cs"

fun write_chain :: "ReceiverChain \<Rightarrow> ReceiverChain list \<Rightarrow> ReceiverChain list" where
  "write_chain c [] = []"
| "write_chain c (d # ds) =
     (if rc_senderRatchetKey d = rc_senderRatchetKey c then c # ds else d # write_chain c ds)"

definition getOrCreateReceiverChain ::
    "'a DoubleRatchetState_scheme \<Rightarrow> Base64 \<Rightarrow> ReceiverChain \<times> 'a DoubleRatchetState_scheme" where
  "getOrCreateReceiverChain state senderRatchetKey =
     (case find_chain senderRatchetKey (receiverChains state) of
        Some chain \<Rightarrow> (chain, state)
      | None \<Rightarrow>
          let chain = \<lparr>rc_senderRatchetKey = senderRatchetKey, rc_chainKey = None, rc_messageKeys = []\<rparr>;
              kept = (if length (receiverChains state) \<ge> MAX_RECEIVER_CHAINS
                      then drop 1 (receiverChains state) else receiverChains state)
          in (chain, state\<lparr>receiverChains := kept @ [chain]\<rparr>))"

text \<open>The scan of \<open>evictLowestIndex\<close>: position \<open>i\<close>, position of the lowest index so far.\<close>

fun lowest_scan :: "StoredMessageKey list \<Rightarrow> nat \<Rightarrow> nat \<Rightarrow> nat \<Rightarrow> nat" where
  "lowest_scan [] i lowest best = lowest"
| "lowest_scan (k # ks) i lowest best =
     (if mk_index k < best then lowest_scan ks (i + 1) i (mk_index k)
      else lowest_scan ks (i + 1) lowest best)"

definition evictLowestIndex :: "StoredMessageKey list \<Rightarrow> StoredMessageKey list" where
  "evictLowestIndex messageKeys =
     (case messageKeys of
        [] \<Rightarrow> []
      | k # ks \<Rightarrow> (let lowest = lowest_scan ks 1 0 (mk_index k)
                   in take lowest messageKeys @ drop (lowest + 1) messageKeys))"

lemma lowest_scan_bound: "lowest < i \<Longrightarrow> lowest_scan ks i lowest best < i + length ks"
proof (induction ks i lowest best rule: lowest_scan.induct)
  case (2 k ks i lowest best)
  then show ?case by (cases "mk_index k < best") auto
qed simp

lemma length_evictLowestIndex: "ks \<noteq> [] \<Longrightarrow> length (evictLowestIndex ks) = length ks - 1"
proof (cases ks)
  case (Cons k t)
  then show ?thesis
    using lowest_scan_bound [of 0 1 t "mk_index k"] by (auto simp: evictLowestIndex_def Let_def)
qed simp

function evict_while :: "nat \<Rightarrow> StoredMessageKey list \<Rightarrow> StoredMessageKey list" where
  "evict_while cap messageKeys =
     (if length messageKeys \<ge> cap \<and> length messageKeys > 0
      then evict_while cap (evictLowestIndex messageKeys) else messageKeys)"
  by pat_completeness auto
termination
  by (relation "measure (\<lambda>(cap, ks). length ks)") (auto simp: length_evictLowestIndex)

declare evict_while.simps [simp del]

definition storeMessageKeyInChain ::
    "'a DoubleRatchetState_scheme \<Rightarrow> Base64 \<Rightarrow> nat \<Rightarrow> bytes \<Rightarrow> DoubleRatchetConfig \<Rightarrow> int \<Rightarrow>
     'a DoubleRatchetState_scheme" where
  "storeMessageKeyInChain state senderRatchetKey index seed config now =
     (let (chain, state) = getOrCreateReceiverChain state senderRatchetKey in
      if list_ex (\<lambda>k. mk_index k = index) (rc_messageKeys chain) then state
      else let kept = evict_while (maxMessageKeysStored config) (rc_messageKeys chain);
               key = \<lparr>mk_index = index, mk_seed = bytesToBase64 seed, mk_timestamp = now\<rparr>;
               chain = chain\<lparr>rc_messageKeys := kept @ [key]\<rparr>
           in state\<lparr>receiverChains := write_chain chain (receiverChains state)\<rparr>)"

text \<open>The loop of \<open>storeSkippedKeys\<close> from counter \<open>i\<close> over \<open>k\<close> messages.\<close>

fun skip_loop ::
  "hmac_fun \<Rightarrow> DoubleRatchetConfig \<Rightarrow> int \<Rightarrow> Base64 \<Rightarrow> nat \<Rightarrow> nat \<Rightarrow> bytes \<Rightarrow>
   'a DoubleRatchetState_scheme \<Rightarrow> bytes \<times> 'a DoubleRatchetState_scheme" where
  "skip_loop hmac config now senderRatchetKey i 0 currentChainKey state = (currentChainKey, state)"
| "skip_loop hmac config now senderRatchetKey i (Suc k) currentChainKey state =
     (let (newChainKey, messageKey) = kdfChainKey hmac currentChainKey in
      skip_loop hmac config now senderRatchetKey (i + 1) k newChainKey
        (storeMessageKeyInChain state senderRatchetKey i messageKey config now))"

definition storeSkippedKeys ::
    "hmac_fun \<Rightarrow> 'a DoubleRatchetState_scheme \<Rightarrow> nat \<Rightarrow> DoubleRatchetConfig \<Rightarrow> int \<Rightarrow>
     'a DoubleRatchetState_scheme result" where
  "storeSkippedKeys hmac state untilCounter config now =
     (if untilCounter < Nr state then Inl (EncryptionError MESSAGE_DUPLICATE)
      else if Nr state + maxSkippedMessages config < untilCounter
      then Inl (PlainError ''Too many skipped messages'')
      else and_then (and_then (required (CKr state)) base64ToBytes) (\<lambda>chainKeyBytes.
           and_then (required (DHr state)) (\<lambda>senderRatchetKey.
           let (currentChainKey, state) =
                 skip_loop hmac config now senderRatchetKey (Nr state) (untilCounter - Nr state)
                   chainKeyBytes state
           in Inr (state\<lparr>CKr := Some (bytesToBase64 currentChainKey), Nr := untilCounter\<rparr>))))"

definition find_key :: "nat \<Rightarrow> StoredMessageKey list \<Rightarrow> StoredMessageKey option" where
  "find_key index ks = find (\<lambda>k. mk_index k = index) ks"

fun remove_key :: "nat \<Rightarrow> StoredMessageKey list \<Rightarrow> StoredMessageKey list" where
  "remove_key index [] = []"
| "remove_key index (k # ks) = (if mk_index k = index then ks else k # remove_key index ks)"

definition consumeMessageKeyFromChain ::
    "'a DoubleRatchetState_scheme \<Rightarrow> Base64 \<Rightarrow> nat \<Rightarrow>
     (bytes option \<times> 'a DoubleRatchetState_scheme) result" where
  "consumeMessageKeyFromChain state senderRatchetKey index =
     (case find_chain senderRatchetKey (receiverChains state) of
        None \<Rightarrow> Inr (None, state)
      | Some chain \<Rightarrow>
          (case find_key index (rc_messageKeys chain) of
             None \<Rightarrow> Inr (None, state)
           | Some removedKey \<Rightarrow>
               let chain = chain\<lparr>rc_messageKeys := remove_key index (rc_messageKeys chain)\<rparr> in
               and_then (base64ToBytes (mk_seed removedKey)) (\<lambda>seed.
               Inr (Some seed, state\<lparr>receiverChains := write_chain chain (receiverChains state)\<rparr>))))"

definition tryGetSkippedKey ::
    "'a DoubleRatchetState_scheme \<Rightarrow> Base64 \<Rightarrow> nat \<Rightarrow>
     (bytes option \<times> 'a DoubleRatchetState_scheme) result" where
  "tryGetSkippedKey state ratchetKey counter = consumeMessageKeyFromChain state ratchetKey counter"

text \<open>\<open>!chain.chainKey\<close>: null or empty.\<close>

definition no_chainKey :: "ReceiverChain \<Rightarrow> bool" where
  "no_chainKey chain = (rc_chainKey chain = None \<or> rc_chainKey chain = Some [])"

definition cleanupExpiredKeys ::
    "'a DoubleRatchetState_scheme \<Rightarrow> DoubleRatchetConfig \<Rightarrow> int \<Rightarrow> 'a DoubleRatchetState_scheme" where
  "cleanupExpiredKeys state config now =
     (let expirationTime = now - maxMessageKeyAge config;
          state = state\<lparr>processedChains :=
            map_option (filter (\<lambda>(dhKey, chainInfo). \<not> pc_timestamp chainInfo < expirationTime))
              (processedChains state)\<rparr>;
          cleaned = map (\<lambda>chain. chain\<lparr>rc_messageKeys :=
            filter (\<lambda>k. \<not> mk_timestamp k < expirationTime) (rc_messageKeys chain)\<rparr>) (receiverChains state)
      in state\<lparr>receiverChains :=
           filter (\<lambda>chain. \<not> (rc_messageKeys chain = [] \<and> no_chainKey chain)) cleaned\<rparr>)"

section \<open>Lists of stored keys\<close>

lemma find_key_Some: "find_key i ks = Some k \<Longrightarrow> k \<in> set ks \<and> mk_index k = i"
  by (auto simp: find_key_def find_Some_iff)

lemma find_key_None: "find_key i ks = None \<longleftrightarrow> i \<notin> mk_index ` set ks"
  by (auto simp: find_key_def find_None_iff)

lemma find_key_iff:
  "distinct (map mk_index ks) \<Longrightarrow> find_key i ks = Some k \<longleftrightarrow> k \<in> set ks \<and> mk_index k = i"
  by (induction ks) (auto simp: find_key_def)

lemma remove_key_filter:
  "distinct (map mk_index ks) \<Longrightarrow> remove_key i ks = filter (\<lambda>k. mk_index k \<noteq> i) ks"
  by (induction ks) (auto simp: image_iff intro!: filter_True [symmetric])

lemma find_key_remove:
  "distinct (map mk_index ks) \<Longrightarrow> find_key j (remove_key i ks) = (if j = i then None else find_key j ks)"
  by (induction ks) (auto simp: find_key_def find_None_iff image_iff)

text \<open>Eviction removes one key, of the lowest index.\<close>

lemma lowest_scan_min:
  assumes "lowest < length pre" and "best = mk_index (pre ! lowest)"
    and "\<forall>k \<in> set pre. best \<le> mk_index k"
  shows "lowest_scan ks (length pre) lowest best < length (pre @ ks) \<and>
    (\<forall>k \<in> set (pre @ ks). mk_index ((pre @ ks) ! lowest_scan ks (length pre) lowest best) \<le> mk_index k)"
  using assms
proof (induction ks arbitrary: pre lowest best)
  case (Cons k ks)
  show ?case
  proof (cases "mk_index k < best")
    case True
    then have "\<forall>x \<in> set (pre @ [k]). mk_index k \<le> mk_index x" using Cons.prems(3) by auto
    then show ?thesis
      using True Cons.IH [of "length pre" "pre @ [k]" "mk_index k"] by simp
  next
    case False
    then have "\<forall>x \<in> set (pre @ [k]). best \<le> mk_index x" "best = mk_index ((pre @ [k]) ! lowest)"
      using Cons.prems by (auto simp: nth_append)
    then show ?thesis
      using False Cons.IH [of lowest "pre @ [k]" best] Cons.prems(1) by simp
  qed
qed (auto simp: nth_append)

lemma evictLowestIndex_split:
  assumes "ks \<noteq> []"
  obtains a m b where "ks = a @ m # b" and "evictLowestIndex ks = a @ b"
    and "\<forall>k \<in> set ks. mk_index m \<le> mk_index k"
proof -
  obtain k t where ks: "ks = k # t" using assms by (cases ks) auto
  define n where "n = lowest_scan t 1 0 (mk_index k)"
  have n: "n < length ks" "\<forall>x \<in> set ks. mk_index (ks ! n) \<le> mk_index x"
    using lowest_scan_min [of 0 "[k]" "mk_index k" t] by (simp_all add: ks n_def)
  show ?thesis
  proof (rule that)
    show "ks = take n ks @ ks ! n # drop (Suc n) ks" using n(1) by (rule id_take_nth_drop)
    show "evictLowestIndex ks = take n ks @ drop (Suc n) ks"
      by (simp add: evictLowestIndex_def ks n_def Let_def)
    show "\<forall>k \<in> set ks. mk_index (ks ! n) \<le> mk_index k" by (rule n(2))
  qed
qed

lemma evict_while_sub:
  "set (evict_while cap ks) \<subseteq> set ks \<and>
   (distinct (map mk_index ks) \<longrightarrow> distinct (map mk_index (evict_while cap ks))) \<and>
   (length (evict_while cap ks) < cap \<or> evict_while cap ks = [])"
proof (induction cap ks rule: evict_while.induct)
  case (1 cap ks)
  show ?case
  proof (cases "length ks \<ge> cap \<and> length ks > 0")
    case True
    then have "ks \<noteq> []" by simp
    then obtain a m b where "ks = a @ m # b" "evictLowestIndex ks = a @ b"
      by (rule evictLowestIndex_split)
    with 1 [OF True] True show ?thesis by (subst (1 2 3 4) evict_while.simps) auto
  next
    case False
    then show ?thesis by (subst (1 2 3 4) evict_while.simps) auto
  qed
qed

lemma evict_while_in: "k \<in> set (evict_while cap ks) \<Longrightarrow> k \<in> set ks"
  using evict_while_sub by blast

lemma evict_while_keeps:
  "length (filter (\<lambda>k. n \<le> mk_index k) ks) < cap \<Longrightarrow>
   filter (\<lambda>k. n \<le> mk_index k) (evict_while cap ks) = filter (\<lambda>k. n \<le> mk_index k) ks"
proof (induction cap ks rule: evict_while.induct)
  case (1 cap ks)
  show ?case
  proof (cases "length ks \<ge> cap \<and> length ks > 0")
    case True
    then have "ks \<noteq> []" by simp
    then obtain a m b where ks: "ks = a @ m # b" and e: "evictLowestIndex ks = a @ b"
      and m: "\<forall>k \<in> set ks. mk_index m \<le> mk_index k"
      by (rule evictLowestIndex_split)
    have "\<not> n \<le> mk_index m"
    proof
      assume "n \<le> mk_index m"
      then have "filter (\<lambda>k. n \<le> mk_index k) ks = ks" using m by (intro filter_True) force
      with 1(2) True show False by simp
    qed
    then have f: "filter (\<lambda>k. n \<le> mk_index k) (evictLowestIndex ks) = filter (\<lambda>k. n \<le> mk_index k) ks"
      by (simp add: ks e [unfolded ks])
    show ?thesis
      using True 1(1) [OF True] 1(2) f by (subst evict_while.simps) simp
  qed (subst evict_while.simps, auto)
qed

section \<open>The list of receiver chains\<close>

text \<open>The seed stored for a ratchet key and a counter.\<close>

definition stored_seed :: "ReceiverChain list \<Rightarrow> Base64 \<Rightarrow> nat \<Rightarrow> Base64 option" where
  "stored_seed cs key i =
     (case find_chain key cs of None \<Rightarrow> None
      | Some c \<Rightarrow> map_option mk_seed (find_key i (rc_messageKeys c)))"

definition seed_ok :: "Base64 \<Rightarrow> bool" where
  "seed_ok b = (\<exists>bs. b = bytesToBase64 bs \<and> length bs = 32)"

definition chain_ok :: "nat \<Rightarrow> ReceiverChain \<Rightarrow> bool" where
  "chain_ok cap c =
     (distinct (map mk_index (rc_messageKeys c)) \<and> length (rc_messageKeys c) \<le> max 1 cap \<and>
      (\<forall>k \<in> set (rc_messageKeys c). seed_ok (mk_seed k)))"

text \<open>
  The bounds of the stored keys: at most five chains, one per ratchet key; in a chain at most the
  configured number of keys, one per counter, each the base64 text of 32 bytes.
\<close>

definition chains_ok :: "nat \<Rightarrow> ReceiverChain list \<Rightarrow> bool" where
  "chains_ok cap cs =
     (length cs \<le> MAX_RECEIVER_CHAINS \<and> distinct (map rc_senderRatchetKey cs) \<and>
      (\<forall>c \<in> set cs. chain_ok cap c))"

lemma find_chain_Some: "find_chain key cs = Some c \<Longrightarrow> c \<in> set cs \<and> rc_senderRatchetKey c = key"
  by (auto simp: find_chain_def find_Some_iff)

lemma find_chain_None: "find_chain key cs = None \<longleftrightarrow> key \<notin> rc_senderRatchetKey ` set cs"
  by (auto simp: find_chain_def find_None_iff)

lemma find_chain_append:
  "find_chain key (cs @ ds) = (case find_chain key cs of None \<Rightarrow> find_chain key ds | Some c \<Rightarrow> Some c)"
  by (induction cs) (auto simp: find_chain_def)

lemma find_chain_single: "find_chain key [c] = (if rc_senderRatchetKey c = key then Some c else None)"
  by (simp add: find_chain_def)

lemma length_write_chain [simp]: "length (write_chain c cs) = length cs"
  by (induction cs) auto

lemma keys_write_chain [simp]:
  "map rc_senderRatchetKey (write_chain c cs) = map rc_senderRatchetKey cs"
  by (induction cs) auto

lemma set_write_chain: "set (write_chain c cs) \<subseteq> insert c (set cs)"
  by (induction cs) auto

lemma find_chain_write:
  "find_chain key (write_chain c cs) =
     (if key = rc_senderRatchetKey c \<and> find_chain key cs \<noteq> None then Some c else find_chain key cs)"
  by (induction cs) (auto simp: find_chain_def)

lemma chains_ok_write:
  "chains_ok cap cs \<Longrightarrow> chain_ok cap c \<Longrightarrow> chains_ok cap (write_chain c cs)"
  using set_write_chain [of c cs] by (auto simp: chains_ok_def)

text \<open>Creating a chain drops the oldest of five and leaves the other chains as they were.\<close>

definition with_chain :: "Base64 \<Rightarrow> ReceiverChain list \<Rightarrow> ReceiverChain list" where
  "with_chain key cs =
     (if find_chain key cs \<noteq> None then cs
      else (if length cs \<ge> MAX_RECEIVER_CHAINS then drop 1 cs else cs) @
        [\<lparr>rc_senderRatchetKey = key, rc_chainKey = None, rc_messageKeys = []\<rparr>])"

lemma getOrCreate_eq:
  "getOrCreateReceiverChain st key =
     (the (find_chain key (with_chain key (receiverChains st))),
      st\<lparr>receiverChains := with_chain key (receiverChains st)\<rparr>)"
proof (cases "find_chain key (receiverChains st)")
  case None
  have "find_chain key (drop 1 (receiverChains st)) = None"
    using None set_drop_subset by (fastforce simp: find_chain_None)
  with None show ?thesis
    by (simp add: getOrCreateReceiverChain_def with_chain_def Let_def find_chain_append find_chain_single)
qed (simp add: getOrCreateReceiverChain_def with_chain_def)

lemma chain_ok_empty [simp]:
  "chain_ok cap \<lparr>rc_senderRatchetKey = key, rc_chainKey = None, rc_messageKeys = []\<rparr>"
  by (simp add: chain_ok_def)

lemma chains_ok_with_chain: "chains_ok cap cs \<Longrightarrow> chains_ok cap (with_chain key cs)"
  using set_drop_subset [of 1 cs]
  by (auto simp: chains_ok_def with_chain_def find_chain_None MAX_RECEIVER_CHAINS_def
      distinct_drop simp flip: drop_map dest: in_set_dropD)

lemma find_with_chain_self: "\<exists>c. find_chain key (with_chain key cs) = Some c \<and> rc_senderRatchetKey c = key"
proof (cases "find_chain key cs")
  case None
  have "find_chain key (drop 1 cs) = None"
    using None set_drop_subset by (fastforce simp: find_chain_None)
  with None show ?thesis by (simp add: with_chain_def find_chain_append find_chain_single)
next
  case (Some c)
  then show ?thesis using find_chain_Some by (auto simp: with_chain_def)
qed

section \<open>Storing a key\<close>

text \<open>What \<open>storeMessageKeyInChain\<close> does to the list of chains.\<close>

definition put_key :: "nat \<Rightarrow> Base64 \<Rightarrow> nat \<Rightarrow> bytes \<Rightarrow> int \<Rightarrow> ReceiverChain list \<Rightarrow> ReceiverChain list" where
  "put_key cap key i seed now cs =
     (let cs = with_chain key cs; c = the (find_chain key cs) in
      if list_ex (\<lambda>k. mk_index k = i) (rc_messageKeys c) then cs
      else write_chain (c\<lparr>rc_messageKeys := evict_while cap (rc_messageKeys c) @
             [\<lparr>mk_index = i, mk_seed = bytesToBase64 seed, mk_timestamp = now\<rparr>]\<rparr>) cs)"

lemma store_eq:
  "storeMessageKeyInChain st key i seed config now =
     st\<lparr>receiverChains := put_key (maxMessageKeysStored config) key i seed now (receiverChains st)\<rparr>"
  by (simp add: storeMessageKeyInChain_def getOrCreate_eq put_key_def Let_def)

lemma chain_ok_push:
  assumes "chain_ok cap c" and "\<not> list_ex (\<lambda>k. mk_index k = i) (rc_messageKeys c)" and "length seed = 32"
  shows "chain_ok cap (c\<lparr>rc_messageKeys := evict_while cap (rc_messageKeys c) @
      [\<lparr>mk_index = i, mk_seed = bytesToBase64 seed, mk_timestamp = now\<rparr>]\<rparr>)"
  using assms evict_while_sub [of cap "rc_messageKeys c"]
  by (auto simp: chain_ok_def seed_ok_def list_ex_iff)

lemma chains_ok_put:
  assumes "chains_ok cap cs" and "length seed = 32"
  shows "chains_ok cap (put_key cap key i seed now cs)"
proof -
  obtain c where c: "find_chain key (with_chain key cs) = Some c" using find_with_chain_self by blast
  have ok: "chains_ok cap (with_chain key cs)" using assms(1) by (rule chains_ok_with_chain)
  with c have "chain_ok cap c" using find_chain_Some by (fastforce simp: chains_ok_def)
  with ok assms(2) c show ?thesis by (simp add: put_key_def Let_def chains_ok_write chain_ok_push)
qed

text \<open>The keys of one chain, after a key was stored in it.\<close>

definition keys_of :: "Base64 \<Rightarrow> ReceiverChain list \<Rightarrow> StoredMessageKey list" where
  "keys_of key cs = (case find_chain key cs of None \<Rightarrow> [] | Some c \<Rightarrow> rc_messageKeys c)"

lemma stored_seed_keys_of: "stored_seed cs key i = map_option mk_seed (find_key i (keys_of key cs))"
  by (auto simp: stored_seed_def keys_of_def find_key_def split: option.splits)

lemma keys_of_with_chain: "keys_of key (with_chain key cs) = keys_of key cs"
proof (cases "find_chain key cs")
  case None
  have "find_chain key (drop 1 cs) = None"
    using None set_drop_subset by (fastforce simp: find_chain_None)
  with None show ?thesis
    by (simp add: keys_of_def with_chain_def find_chain_append find_chain_single)
qed (simp add: with_chain_def)

lemma keys_of_put:
  "keys_of key (put_key cap key i seed now cs) =
     (if list_ex (\<lambda>k. mk_index k = i) (keys_of key cs) then keys_of key cs
      else evict_while cap (keys_of key cs) @
        [\<lparr>mk_index = i, mk_seed = bytesToBase64 seed, mk_timestamp = now\<rparr>])"
proof -
  obtain c where c: "find_chain key (with_chain key cs) = Some c" "rc_senderRatchetKey c = key"
    using find_with_chain_self by blast
  then have "keys_of key cs = rc_messageKeys c"
    using keys_of_with_chain [of key cs] by (simp add: keys_of_def)
  with c show ?thesis
    by (simp add: put_key_def Let_def keys_of_def find_chain_write)
qed

lemma find_key_append:
  "find_key i (ks @ [k]) = (case find_key i ks of None \<Rightarrow> (if mk_index k = i then Some k else None) | Some x \<Rightarrow> Some x)"
  by (induction ks) (auto simp: find_key_def)

lemma find_key_filter: "n \<le> i \<Longrightarrow> find_key i (filter (\<lambda>k. n \<le> mk_index k) ks) = find_key i ks"
  by (induction ks) (auto simp: find_key_def)

text \<open>
  A stored key is there afterwards, and the keys from counter \<open>n\<close> on stay as long as fewer than
  the cap of them are there: eviction takes the lowest counters.
\<close>

lemma find_key_put:
  assumes "length (filter (\<lambda>k. n \<le> mk_index k) (keys_of key cs)) < cap" and "n \<le> j"
    and "\<not> list_ex (\<lambda>k. mk_index k = i) (keys_of key cs)"
  shows "find_key j (keys_of key (put_key cap key i seed now cs)) =
    (if j = i then Some \<lparr>mk_index = i, mk_seed = bytesToBase64 seed, mk_timestamp = now\<rparr>
     else find_key j (keys_of key cs))"
proof -
  let ?e = "evict_while cap (keys_of key cs)"
  have "find_key j ?e = find_key j (keys_of key cs)"
    using find_key_filter [OF assms(2)] evict_while_keeps [OF assms(1)] by metis
  moreover have "find_key i (keys_of key cs) = None"
    using assms(3) by (auto simp: find_key_None list_ex_iff)
  ultimately show ?thesis
    using assms(3) by (auto simp: keys_of_put find_key_append split: option.splits)
qed

section \<open>The symmetric chain\<close>

text \<open>The chain of the specification: the chain key after \<open>n\<close> steps and the key of message \<open>n\<close>.\<close>

fun chain_key :: "hmac_fun \<Rightarrow> bytes \<Rightarrow> nat \<Rightarrow> bytes" where
  "chain_key hmac ck 0 = ck"
| "chain_key hmac ck (Suc n) = chain_key hmac (fst (kdfChainKey hmac ck)) n"

definition message_key :: "hmac_fun \<Rightarrow> bytes \<Rightarrow> nat \<Rightarrow> bytes" where
  "message_key hmac ck n = snd (kdfChainKey hmac (chain_key hmac ck n))"

lemma chain_key_add: "chain_key hmac ck (m + n) = chain_key hmac (chain_key hmac ck m) n"
  by (induction m arbitrary: ck) simp_all

lemma chain_key_step: "chain_key hmac (fst (kdfChainKey hmac ck)) n = fst (kdfChainKey hmac (chain_key hmac ck n))"
  using chain_key_add [of hmac ck n 1] by simp

lemma message_key_shift: "message_key hmac (chain_key hmac ck m) n = message_key hmac ck (m + n)"
  by (simp add: message_key_def chain_key_add)

lemma length_chain_key:
  "(\<And>k d. length (hmac k d) = 32) \<Longrightarrow> length ck = 32 \<Longrightarrow> length (chain_key hmac ck n) = 32"
  by (induction n arbitrary: ck) (simp_all add: kdfChainKey_def Let_def)

lemma length_message_key: "(\<And>k d. length (hmac k d) = 32) \<Longrightarrow> length (message_key hmac ck n) = 32"
  by (simp add: message_key_def kdfChainKey_def Let_def)

fun put_range ::
  "hmac_fun \<Rightarrow> nat \<Rightarrow> int \<Rightarrow> Base64 \<Rightarrow> nat \<Rightarrow> nat \<Rightarrow> bytes \<Rightarrow> ReceiverChain list \<Rightarrow> ReceiverChain list" where
  "put_range hmac cap now key i 0 ck cs = cs"
| "put_range hmac cap now key i (Suc k) ck cs =
     put_range hmac cap now key (i + 1) k (fst (kdfChainKey hmac ck))
       (put_key cap key i (snd (kdfChainKey hmac ck)) now cs)"

lemma skip_loop_eq:
  "skip_loop hmac config now key i k ck st =
     (chain_key hmac ck k,
      st\<lparr>receiverChains := put_range hmac (maxMessageKeysStored config) now key i k ck (receiverChains st)\<rparr>)"
  by (induction k arbitrary: i ck st) (simp_all add: store_eq split: prod.splits)

lemma storeSkippedKeys_eq:
  "storeSkippedKeys hmac st u config now =
     (if u < Nr st then Inl (EncryptionError MESSAGE_DUPLICATE)
      else if Nr st + maxSkippedMessages config < u then Inl (PlainError ''Too many skipped messages'')
      else and_then (and_then (required (CKr st)) base64ToBytes) (\<lambda>ck.
           and_then (required (DHr st)) (\<lambda>key.
           Inr (st\<lparr>receiverChains := put_range hmac (maxMessageKeysStored config) now key (Nr st)
                     (u - Nr st) ck (receiverChains st),
                  CKr := Some (bytesToBase64 (chain_key hmac ck (u - Nr st))), Nr := u\<rparr>))))"
  by (simp add: storeSkippedKeys_def skip_loop_eq)

lemma chains_ok_put_range:
  assumes "\<And>k d. length (hmac k d) = 32" and "chains_ok cap cs"
  shows "chains_ok cap (put_range hmac cap now key i k ck cs)"
  using assms(2)
  by (induction k arbitrary: i ck cs) (simp_all add: chains_ok_put kdfChainKey_def Let_def assms(1))

lemma chain_ok_keys_of: "chains_ok cap cs \<Longrightarrow> distinct (map mk_index (keys_of key cs))"
  using find_chain_Some by (fastforce simp: keys_of_def chains_ok_def chain_ok_def split: option.splits)

lemma filter_index_bound:
  assumes "distinct (map mk_index ks)" and "\<forall>k \<in> set ks. mk_index k < i"
  shows "length (filter (\<lambda>k. n \<le> mk_index k) ks) \<le> i - n"
proof -
  let ?f = "filter (\<lambda>k. n \<le> mk_index k) ks"
  have "length ?f = card (mk_index ` set ?f)"
    using assms(1) distinct_card [of "map mk_index ?f"] by (simp add: distinct_map_filter)
  also have "\<dots> \<le> card {n..<i}" using assms(2) by (intro card_mono) auto
  finally show ?thesis by simp
qed

text \<open>
  Storing the keys of the counters \<open>i\<close> up to \<open>i + k\<close>: from counter \<open>n\<close> on, where at most the cap of
  them remain, every one can be found.
\<close>

lemma find_key_put_range:
  assumes "\<And>k d. length (hmac k d) = 32" and "0 < cap" and "chains_ok cap cs"
    and "\<forall>k \<in> set (keys_of key cs). mk_index k < i" and "i + k \<le> n + cap" and "n \<le> j"
  shows "find_key j (keys_of key (put_range hmac cap now key i k ck cs)) =
    (if i \<le> j \<and> j < i + k
     then Some \<lparr>mk_index = j, mk_seed = bytesToBase64 (message_key hmac ck (j - i)), mk_timestamp = now\<rparr>
     else find_key j (keys_of key cs))"
  using assms(3-5)
proof (induction k arbitrary: i ck cs)
  case (Suc k)
  let ?mk = "snd (kdfChainKey hmac ck)"
  let ?cs = "put_key cap key i ?mk now cs"
  have l: "length (filter (\<lambda>k. n \<le> mk_index k) (keys_of key cs)) < cap"
    using filter_index_bound [OF chain_ok_keys_of [OF Suc.prems(1)] Suc.prems(2), of n] Suc.prems(3) assms(2)
    by linarith
  have no: "\<not> list_ex (\<lambda>k. mk_index k = i) (keys_of key cs)"
    using Suc.prems(2) by (auto simp: list_ex_iff)
  have ok: "chains_ok cap ?cs"
    using Suc.prems(1) by (rule chains_ok_put) (simp add: kdfChainKey_def Let_def assms(1))
  have lt: "\<forall>k \<in> set (keys_of key ?cs). mk_index k < i + 1"
    using Suc.prems(2) no by (auto simp: keys_of_put less_SucI dest: evict_while_in)
  have "find_key j (keys_of key ?cs) = (if j = i
      then Some \<lparr>mk_index = i, mk_seed = bytesToBase64 ?mk, mk_timestamp = now\<rparr> else find_key j (keys_of key cs))"
    using l assms(6) no by (rule find_key_put)
  moreover have "i < j \<Longrightarrow> message_key hmac (fst (kdfChainKey hmac ck)) (j - Suc i) = message_key hmac ck (j - i)"
    using message_key_shift [of hmac ck 1 "j - Suc i"] by (simp add: Suc_diff_Suc)
  moreover have "message_key hmac ck 0 = ?mk" by (simp add: message_key_def)
  ultimately show ?case
    using Suc.IH [OF ok lt] Suc.prems(3) by auto
qed auto

section \<open>One-time stores\<close>

text \<open>
  The contract of a store of keys that may be used once: taking a key returns what is stored under
  its name, removes it and leaves every other key in place. Clients of such a store may take their
  keys in any order.
\<close>

locale one_time_store =
  fixes inv :: "'s \<Rightarrow> bool" and lookup :: "'s \<Rightarrow> 'k \<Rightarrow> 'v option"
    and consume :: "'s \<Rightarrow> 'k \<Rightarrow> 'v option \<times> 's"
  assumes consume_result: "inv s \<Longrightarrow> fst (consume s k) = lookup s k"
    and consume_inv: "inv s \<Longrightarrow> inv (snd (consume s k))"
    and lookup_consume: "inv s \<Longrightarrow> lookup (snd (consume s k)) k' = (if k' = k then None else lookup s k')"
begin

fun consume_all :: "'s \<Rightarrow> 'k list \<Rightarrow> 'v option list \<times> 's" where
  "consume_all s [] = ([], s)"
| "consume_all s (k # ks) =
     (let (v, s') = consume s k; (vs, s'') = consume_all s' ks in (v # vs, s''))"

lemma consume_all_result:
  "inv s \<Longrightarrow> distinct ks \<Longrightarrow> fst (consume_all s ks) = map (lookup s) ks"
proof (induction ks arbitrary: s)
  case (Cons k ks)
  obtain v s' where c: "consume s k = (v, s')" by force
  have "v = lookup s k" "inv s'" using consume_result [OF Cons.prems(1), of k]
      consume_inv [OF Cons.prems(1), of k] c by simp_all
  moreover have "map (lookup s') ks = map (lookup s) ks"
    using lookup_consume [OF Cons.prems(1), of k] Cons.prems(2) c by auto
  ultimately show ?case
    using Cons.IH [of s'] Cons.prems(2) c by (cases "consume_all s' ks") simp
qed simp

lemma consume_twice: "inv s \<Longrightarrow> fst (consume (snd (consume s k)) k) = None"
  by (simp add: consume_result consume_inv lookup_consume)

lemma consume_commute:
  "inv s \<Longrightarrow> k \<noteq> k' \<Longrightarrow> fst (consume (snd (consume s k')) k) = fst (consume s k)"
  by (simp add: consume_result consume_inv lookup_consume)

end

text \<open>The skipped keys of a ratchet state, named by ratchet key and counter.\<close>

definition skipped_key :: "'a DoubleRatchetState_scheme \<Rightarrow> Base64 \<times> nat \<Rightarrow> bytes option" where
  "skipped_key st name =
     (case stored_seed (receiverChains st) (fst name) (snd name) of
        None \<Rightarrow> None
      | Some b \<Rightarrow> (case base64ToBytes b of Inl _ \<Rightarrow> None | Inr bs \<Rightarrow> Some bs))"

definition take_skipped ::
    "'a DoubleRatchetState_scheme \<Rightarrow> Base64 \<times> nat \<Rightarrow> bytes option \<times> 'a DoubleRatchetState_scheme" where
  "take_skipped st name =
     (case tryGetSkippedKey st (fst name) (snd name) of Inl _ \<Rightarrow> (None, st) | Inr r \<Rightarrow> r)"

definition ratchet_ok :: "nat \<Rightarrow> 'a DoubleRatchetState_scheme \<Rightarrow> bool" where
  "ratchet_ok cap st = chains_ok cap (receiverChains st)"

lemma seed_ok_decodes: "seed_ok b \<Longrightarrow> \<exists>bs. base64ToBytes b = Inr bs \<and> b = bytesToBase64 bs \<and> length bs = 32"
  by (auto simp: seed_ok_def)

lemma stored_seed_ok: "chains_ok cap cs \<Longrightarrow> stored_seed cs key i = Some b \<Longrightarrow> seed_ok b"
  using find_chain_Some find_key_Some
  by (fastforce simp: stored_seed_def chains_ok_def chain_ok_def split: option.splits)

definition drop_key :: "Base64 \<Rightarrow> nat \<Rightarrow> ReceiverChain list \<Rightarrow> ReceiverChain list" where
  "drop_key key i cs =
     (case find_chain key cs of None \<Rightarrow> cs
      | Some c \<Rightarrow> write_chain (c\<lparr>rc_messageKeys := remove_key i (rc_messageKeys c)\<rparr>) cs)"

lemma drop_key_seed:
  assumes "chains_ok cap cs"
  shows "stored_seed (drop_key key i cs) key' i' =
    (if key' = key \<and> i' = i then None else stored_seed cs key' i')"
proof (cases "find_chain key cs")
  case (Some c)
  have "rc_senderRatchetKey c = key" "distinct (map mk_index (rc_messageKeys c))"
    using find_chain_Some [OF Some] assms by (auto simp: chains_ok_def chain_ok_def)
  with Some show ?thesis
    by (auto simp: drop_key_def stored_seed_def find_chain_write find_key_remove)
qed (simp add: drop_key_def stored_seed_def)

lemma chains_ok_drop_key:
  assumes "chains_ok cap cs"
  shows "chains_ok cap (drop_key key i cs)"
proof (cases "find_chain key cs")
  case (Some c)
  then have "chain_ok cap c" using find_chain_Some assms by (fastforce simp: chains_ok_def)
  then have "chain_ok cap (c\<lparr>rc_messageKeys := remove_key i (rc_messageKeys c)\<rparr>)"
    by (auto simp: chain_ok_def remove_key_filter distinct_map_filter intro: order_trans [OF length_filter_le])
  with Some assms show ?thesis by (simp add: drop_key_def chains_ok_write)
qed (use assms in \<open>simp add: drop_key_def\<close>)

lemma remove_key_None: "find_key i ks = None \<Longrightarrow> remove_key i ks = ks"
  by (induction ks) (auto simp: find_key_def split: if_splits)

lemma write_chain_same: "find_chain (rc_senderRatchetKey c) cs = Some c \<Longrightarrow> write_chain c cs = cs"
  by (induction cs) (auto simp: find_chain_def split: if_splits)

lemma drop_key_None: "stored_seed cs key i = None \<Longrightarrow> drop_key key i cs = cs"
  using find_chain_Some
  by (fastforce simp: stored_seed_def drop_key_def remove_key_None write_chain_same split: option.splits)

text \<open>The result of \<open>tryGetSkippedKey\<close> in terms of the stored seeds: it never throws.\<close>

lemma tryGet_eq:
  assumes "ratchet_ok cap st"
  shows "tryGetSkippedKey st key i =
    Inr (skipped_key st (key, i), st\<lparr>receiverChains := drop_key key i (receiverChains st)\<rparr>)"
proof (cases "stored_seed (receiverChains st) key i")
  case None
  then show ?thesis
    by (auto simp: tryGetSkippedKey_def consumeMessageKeyFromChain_def stored_seed_def skipped_key_def
        drop_key_None split: option.splits)
next
  case (Some b)
  then obtain bs where "base64ToBytes b = Inr bs"
    using stored_seed_ok seed_ok_decodes assms unfolding ratchet_ok_def by blast
  with Some show ?thesis
    by (auto simp: tryGetSkippedKey_def consumeMessageKeyFromChain_def stored_seed_def skipped_key_def
        drop_key_def split: option.splits)
qed

interpretation skipped_keys: one_time_store "ratchet_ok cap" skipped_key take_skipped
proof
  fix s :: "'a DoubleRatchetState_scheme" and k k' :: "Base64 \<times> nat"
  assume ok: "ratchet_ok cap s"
  then have t: "take_skipped s k =
      (skipped_key s k, s\<lparr>receiverChains := drop_key (fst k) (snd k) (receiverChains s)\<rparr>)"
    by (simp add: take_skipped_def tryGet_eq)
  show "fst (take_skipped s k) = skipped_key s k" by (simp add: t)
  show "ratchet_ok cap (snd (take_skipped s k))" using ok by (simp add: t ratchet_ok_def chains_ok_drop_key)
  show "skipped_key (snd (take_skipped s k)) k' = (if k' = k then None else skipped_key s k')"
    using drop_key_seed [OF ok [unfolded ratchet_ok_def], of "fst k" "snd k" "fst k'" "snd k'"]
    by (auto simp: t skipped_key_def prod_eq_iff)
qed

section \<open>Runs of the ratchet\<close>

text \<open>One operation of the two modules that returned, on a state of one session.\<close>

inductive ratchet_step ::
  "hmac_fun \<Rightarrow> dh_fun \<Rightarrow> DoubleRatchetConfig \<Rightarrow> 'a DoubleRatchetState_scheme \<Rightarrow>
   'a DoubleRatchetState_scheme \<Rightarrow> bool"
  for hmac dh config where
  dh_ratchet: "performDHRatchetStep hmac dh fresh st key = Inr st' \<Longrightarrow> ratchet_step hmac dh config st st'"
| send_key: "deriveSendingKey hmac st = Inr (mk, st') \<Longrightarrow> ratchet_step hmac dh config st st'"
| receive_key: "deriveReceivingKey hmac st = Inr (mk, st') \<Longrightarrow> ratchet_step hmac dh config st st'"
| skip_keys: "storeSkippedKeys hmac st u config now = Inr st' \<Longrightarrow> ratchet_step hmac dh config st st'"
| take_key: "tryGetSkippedKey st key i = Inr (r, st') \<Longrightarrow> ratchet_step hmac dh config st st'"
| cleanup: "ratchet_step hmac dh config st (cleanupExpiredKeys st config now)"

lemma performDHRatchetStep_chains:
  "performDHRatchetStep hmac dh fresh st key = Inr st' \<Longrightarrow> receiverChains st' = receiverChains st"
  by (auto simp: performDHRatchetStep_def Let_def and_then_eq_Inr)

lemma deriveSendingKey_chains: "deriveSendingKey hmac st = Inr (mk, st') \<Longrightarrow> receiverChains st' = receiverChains st"
  by (auto simp: deriveSendingKey_def and_then_eq_Inr split: if_splits prod.splits)

lemma deriveReceivingKey_chains:
  "deriveReceivingKey hmac st = Inr (mk, st') \<Longrightarrow> receiverChains st' = receiverChains st"
  by (auto simp: deriveReceivingKey_def and_then_eq_Inr split: if_splits prod.splits)

lemma storeSkippedKeys_ok:
  assumes "\<And>k d. length (hmac k d) = 32" and "storeSkippedKeys hmac st u config now = Inr st'"
    and "ratchet_ok (maxMessageKeysStored config) st"
  shows "ratchet_ok (maxMessageKeysStored config) st'"
  using assms(2,3) chains_ok_put_range [where hmac = hmac, OF assms(1)]
  by (auto simp: storeSkippedKeys_eq ratchet_ok_def and_then_eq_Inr split: if_splits)

lemma chain_ok_filter: "chain_ok cap c \<Longrightarrow> chain_ok cap (c\<lparr>rc_messageKeys := filter P (rc_messageKeys c)\<rparr>)"
  by (auto simp: chain_ok_def distinct_map_filter intro: order_trans [OF length_filter_le])

lemma cleanupExpiredKeys_ok:
  assumes "ratchet_ok cap st"
  shows "ratchet_ok cap (cleanupExpiredKeys st config now)"
proof -
  let ?m = "map (\<lambda>c. c\<lparr>rc_messageKeys :=
      filter (\<lambda>k. \<not> mk_timestamp k < now - maxMessageKeyAge config) (rc_messageKeys c)\<rparr>) (receiverChains st)"
  have "map rc_senderRatchetKey ?m = map rc_senderRatchetKey (receiverChains st)" by simp
  then have "chains_ok cap ?m" using assms
    by (auto simp: ratchet_ok_def chains_ok_def chain_ok_filter comp_def)
  then have "chains_ok cap (filter P ?m)" for P
    by (auto simp: chains_ok_def distinct_map_filter intro: order_trans [OF length_filter_le])
  then show ?thesis by (simp add: ratchet_ok_def cleanupExpiredKeys_def Let_def)
qed

lemma ratchet_step_ok:
  assumes "\<And>k d. length (hmac k d) = 32" and "ratchet_step hmac dh config st st'"
    and "ratchet_ok (maxMessageKeysStored config) st"
  shows "ratchet_ok (maxMessageKeysStored config) st'"
  using assms(2,3)
proof (cases rule: ratchet_step.cases)
  case (skip_keys u now)
  then show ?thesis using storeSkippedKeys_ok [where hmac = hmac, OF assms(1)] assms(3) by blast
next
  case (take_key key i r)
  then show ?thesis using assms(3) by (auto simp: tryGet_eq ratchet_ok_def chains_ok_drop_key)
qed (auto simp: ratchet_ok_def cleanupExpiredKeys_ok [unfolded ratchet_ok_def]
      dest: performDHRatchetStep_chains deriveSendingKey_chains deriveReceivingKey_chains)

lemma ratchet_run_ok:
  assumes "\<And>k d. length (hmac k d) = 32" and "(ratchet_step hmac dh config)\<^sup>*\<^sup>* st st'"
    and "ratchet_ok (maxMessageKeysStored config) st"
  shows "ratchet_ok (maxMessageKeysStored config) st'"
  using assms(2,3) by induction (auto intro: ratchet_step_ok [where hmac = hmac, OF assms(1)])

text \<open>Receiving message \<open>u\<close> of the current chain: skip to it, then take the next key.\<close>

definition receive_at ::
    "hmac_fun \<Rightarrow> DoubleRatchetConfig \<Rightarrow> int \<Rightarrow> nat \<Rightarrow> 'a DoubleRatchetState_scheme \<Rightarrow>
     (bytes \<times> 'a DoubleRatchetState_scheme) result" where
  "receive_at hmac config now u st =
     and_then (storeSkippedKeys hmac st u config now) (deriveReceivingKey hmac)"


definition receiving_from :: "bytes \<Rightarrow> Base64 \<Rightarrow> 'a DoubleRatchetState_scheme \<Rightarrow> bool" where
  "receiving_from ck key st =
     (CKr st = Some (bytesToBase64 ck) \<and> length ck = 32 \<and> DHr st = Some key \<and>
      (\<forall>k \<in> set (keys_of key (receiverChains st)). mk_index k < Nr st))"


lemma receive_at_eq:
  assumes "\<And>k d. length (hmac k d) = 32" and "receiving_from ck key st"
    and "Nr st \<le> u" and "u \<le> Nr st + maxSkippedMessages config" and "u < MAX_MESSAGE_COUNTER"
  shows "receive_at hmac config now u st =
    Inr (message_key hmac ck (u - Nr st),
      st\<lparr>receiverChains := put_range hmac (maxMessageKeysStored config) now key (Nr st) (u - Nr st) ck
           (receiverChains st),
         CKr := Some (bytesToBase64 (chain_key hmac ck (u - Nr st + 1))), Nr := u + 1\<rparr>)"
proof -
  have "length (chain_key hmac ck (u - Nr st)) = 32"
    using assms(2) by (intro length_chain_key [where hmac = hmac, OF assms(1)]) (simp add: receiving_from_def)
  then show ?thesis
    using assms(2-5)
    by (auto simp: receive_at_def storeSkippedKeys_eq receiving_from_def required_def
        deriveReceivingKey_def message_key_def chain_key_step split: prod.splits)
qed

lemma put_range_index:
  "\<forall>k \<in> set (keys_of key cs). mk_index k < i \<Longrightarrow>
   \<forall>x \<in> set (keys_of key (put_range hmac cap now key i k ck cs)). mk_index x < i + k"
proof (induction k arbitrary: i ck cs)
  case (Suc k)
  have "\<forall>x \<in> set (keys_of key (put_key cap key i (snd (kdfChainKey hmac ck)) now cs)). mk_index x < i + 1"
    using Suc.prems by (auto simp: keys_of_put less_SucI dest: evict_while_in)
  from Suc.IH [OF this] show ?case by simp
qed simp

lemma receive_at_ok:
  assumes "\<And>k d. length (hmac k d) = 32" and "receiving_from ck key st"
    and "ratchet_ok (maxMessageKeysStored config) st" and "0 < maxMessageKeysStored config"
    and "Nr st \<le> u" and "u \<le> Nr st + maxSkippedMessages config" and "u < MAX_MESSAGE_COUNTER"
  shows "\<exists>st'. receive_at hmac config now u st = Inr (message_key hmac ck (u - Nr st), st') \<and>
    Nr st' = u + 1 \<and> receiving_from (chain_key hmac ck (u + 1 - Nr st)) key st' \<and>
    ratchet_ok (maxMessageKeysStored config) st' \<and>
    (\<forall>j. Nr st \<le> j \<longrightarrow> u \<le> j + maxMessageKeysStored config \<longrightarrow> j < u \<longrightarrow>
       skipped_key st' (key, j) = Some (message_key hmac ck (j - Nr st)))"
proof -
  let ?cs = "put_range hmac (maxMessageKeysStored config) now key (Nr st) (u - Nr st) ck (receiverChains st)"
  have ok: "chains_ok (maxMessageKeysStored config) (receiverChains st)"
    using assms(3) by (simp add: ratchet_ok_def)
  have old: "\<forall>k \<in> set (keys_of key (receiverChains st)). mk_index k < Nr st" and ck: "length ck = 32"
    and dhr: "DHr st = Some key"
    using assms(2) by (simp_all add: receiving_from_def)
  have "\<forall>x \<in> set (keys_of key ?cs). mk_index x < u + 1"
    using put_range_index [OF old, where k = "u - Nr st"] assms(5) by (auto intro: less_SucI)
  moreover have "skipped_key (st\<lparr>receiverChains := ?cs, CKr := c, Nr := n\<rparr>) (key, j) = Some (message_key hmac ck (j - Nr st))"
    if "Nr st \<le> j" "u \<le> j + maxMessageKeysStored config" "j < u" for j c n
    using find_key_put_range [where hmac = hmac and n = j and j = j and k = "u - Nr st", OF assms(1,4) ok old] that
    by (simp add: skipped_key_def stored_seed_keys_of)
  moreover have "chains_ok (maxMessageKeysStored config) ?cs"
    by (rule chains_ok_put_range [where hmac = hmac, OF assms(1) ok])
  moreover have "length (chain_key hmac ck (u + 1 - Nr st)) = 32"
    by (rule length_chain_key [where hmac = hmac, OF assms(1) ck])
  ultimately show ?thesis
    using receive_at_eq [where hmac = hmac and now = now, OF assms(1,2,5,6,7)] assms(5) dhr
    by (simp add: receiving_from_def ratchet_ok_def Suc_diff_le)
qed

lemma keys_of_cleanup:
  assumes "ratchet_ok cap st"
  shows "keys_of key (receiverChains (cleanupExpiredKeys st config now)) =
    filter (\<lambda>k. \<not> mk_timestamp k < now - maxMessageKeyAge config) (keys_of key (receiverChains st))"
proof -
  let ?F = "filter (\<lambda>k. \<not> mk_timestamp k < now - maxMessageKeyAge config)"
  let ?g = "\<lambda>c. c\<lparr>rc_messageKeys := ?F (rc_messageKeys c)\<rparr>"
  have "distinct (map rc_senderRatchetKey cs) \<Longrightarrow>
      keys_of key (filter (\<lambda>c. \<not> (rc_messageKeys c = [] \<and> no_chainKey c)) (map ?g cs)) =
      ?F (keys_of key cs)" for cs
  proof (induction cs)
    case (Cons c cs)
    have n: "rc_senderRatchetKey c = key \<Longrightarrow> find_chain key cs = None" using Cons.prems by (auto simp: find_chain_None)
    have "find_chain key (filter P (map ?g cs)) = None" if "find_chain key cs = None" for P
      using that by (auto simp: find_chain_None)
    with Cons n show ?case by (auto simp: keys_of_def find_chain_def)
  qed (simp add: keys_of_def find_chain_def)
  then show ?thesis
    using assms by (simp add: cleanupExpiredKeys_def Let_def ratchet_ok_def chains_ok_def)
qed

lemma find_key_filter_time:
  assumes "distinct (map mk_index ks)"
  shows "find_key i (filter P ks) =
    (case find_key i ks of None \<Rightarrow> None | Some k \<Rightarrow> if P k then Some k else None)"
proof -
  have d: "distinct (map mk_index (filter P ks))" using assms by (rule distinct_map_filter)
  show ?thesis
  proof (cases "find_key i ks")
    case None
    then have "find_key i (filter P ks) = None" by (auto simp: find_key_None)
    with None show ?thesis by simp
  next
    case (Some k)
    then have k: "k \<in> set ks" "mk_index k = i" using find_key_Some by blast+
    show ?thesis
    proof (cases "P k")
      case True
      with k have "find_key i (filter P ks) = Some k" by (simp add: find_key_iff [OF d])
      with Some True show ?thesis by simp
    next
      case False
      have "\<forall>x \<in> set ks. mk_index x = i \<longrightarrow> x = k"
        using assms k by (auto simp: distinct_map inj_on_def)
      with False have "find_key i (filter P ks) = None" by (auto simp: find_key_None)
      with Some False show ?thesis by simp
    qed
  qed
qed

section \<open>The two ends of a session\<close>

text \<open>
  One end is one step ahead: its root key and sending chain key are derived from the root key of
  the other end and the shared secret of the two current key pairs.
\<close>

definition one_step_ahead ::
    "hmac_fun \<Rightarrow> dh_fun \<Rightarrow> 'a DoubleRatchetState_scheme \<Rightarrow> 'b DoubleRatchetState_scheme \<Rightarrow>
     RatchetKeyPair \<Rightarrow> RatchetKeyPair \<Rightarrow> bool" where
  "one_step_ahead hmac dh A B a b =
     (DHs A = Some a \<and> DHs B = Some b \<and> DHr A = Some (publicKey b) \<and>
      (\<exists>rk s rkA cks. RK B = bytesToBase64 rk \<and> dh (privateKey a) (publicKey b) = Inr s \<and>
         kdfRootKey hmac rk s = Inr (rkA, cks) \<and> RK A = bytesToBase64 rkA \<and>
         CKs A = Some (bytesToBase64 cks)))"

definition valid_ratchet_key :: "Base64 \<Rightarrow> bool" where
  "valid_ratchet_key k = (\<exists>bs. base64ToBytes k = Inr bs \<and> length bs = 32)"

lemma validateDHPublicKey_ok [simp]: "valid_ratchet_key k \<Longrightarrow> validateDHPublicKey k = Inr ()"
  by (auto simp: valid_ratchet_key_def validateDHPublicKey_def X25519_KEY_BYTES_def)

lemma ratchet_turn:
  assumes hmac: "\<And>k d. length (hmac k d) = 32" and ahead: "one_step_ahead hmac dh A B a b"
    and comm: "dh (privateKey b) (publicKey a) = dh (privateKey a) (publicKey b)"
    and fresh: "dh (privateKey b') (publicKey a) = Inr s'" and valid: "valid_ratchet_key (publicKey a)"
  shows "\<exists>B'. performDHRatchetStep hmac dh b' B (publicKey a) = Inr B' \<and> CKr B' = CKs A \<and>
    Nr B' = 0 \<and> Ns B' = 0 \<and> PN B' = Ns B \<and> one_step_ahead hmac dh B' A b' a"
proof -
  from ahead obtain rk s rkA cks where B: "RK B = bytesToBase64 rk" "DHs B = Some b" "DHs A = Some a"
    and s: "dh (privateKey a) (publicKey b) = Inr s" and k: "kdfRootKey hmac rk s = Inr (rkA, cks)"
    and A: "RK A = bytesToBase64 rkA" "CKs A = Some (bytesToBase64 cks)"
    by (auto simp: one_step_ahead_def)
  obtain rk2 ck2 where k2: "kdfRootKey hmac rkA s' = Inr (rk2, ck2)"
    using kdfRootKey_ok [where hmac = hmac, OF hmac] by blast
  show ?thesis
    using B s k A k2 comm fresh valid
    by (simp add: performDHRatchetStep_def Let_def required_def one_step_ahead_def)
qed

section \<open>Properties\<close>

text \<open>
  C33. whatever operations run on a session that starts without skipped keys, the state holds at
  most five receiver chains with different ratchet keys, each with at most the configured number
  of keys (one at a configured number of 0), no counter twice, and every key is the base64 text of 32 bytes.
\<close>

theorem skipped_keys_bounded:
  assumes "\<And>k d. length (hmac k d) = 32" and "receiverChains st = []"
    and "(ratchet_step hmac dh config)\<^sup>*\<^sup>* st st'"
  shows "ratchet_ok (maxMessageKeysStored config) st'"
  using assms(3)
  by (rule ratchet_run_ok [where hmac = hmac, OF assms(1)]) (simp add: ratchet_ok_def chains_ok_def assms(2))

definition sample_hmac :: hmac_fun where
  "sample_hmac k d = take 32 (d @ k @ replicate 32 0)"

definition sample_state :: DoubleRatchetState where
  "sample_state = \<lparr>DHs = None, DHr = Some ''peer'', RK = [], CKs = Some (bytesToBase64 (replicate 32 7)),
     Ns = 0, CKr = Some (bytesToBase64 (replicate 32 7)), Nr = 0, PN = 0, receiverChains = [],
     processedChains = None\<rparr>"

lemma length_sample_hmac [simp]: "length (sample_hmac k d) = 32"
  by (simp add: sample_hmac_def)

theorem skipped_keys_bounded_witness:
  "ratchet_ok 2000 (cleanupExpiredKeys sample_state DEFAULT_RATCHET_CONFIG 0)"
proof -
  have "(ratchet_step sample_hmac (\<lambda>_ _. Inr []) DEFAULT_RATCHET_CONFIG)\<^sup>*\<^sup>* sample_state
      (cleanupExpiredKeys sample_state DEFAULT_RATCHET_CONFIG 0)"
    by (rule r_into_rtranclp) (rule ratchet_step.cleanup)
  then show ?thesis
    using skipped_keys_bounded [where hmac = sample_hmac, OF length_sample_hmac, of sample_state]
    by (fastforce simp: sample_state_def DEFAULT_RATCHET_CONFIG_def)
qed

text \<open>
  C20. receiving message \<open>u\<close> of a chain, at any distance up to the skip limit, always succeeds and
  gives the key of message \<open>u\<close> of this chain; afterwards the keys of the skipped messages, the last
  ones up to the storage cap, can be fetched and are the keys of these messages, and the chain
  continues with message \<open>u + 1\<close>.
\<close>

theorem out_of_order_receive:
  assumes "\<And>k d. length (hmac k d) = 32" and "receiving_from ck key st"
    and "ratchet_ok (maxMessageKeysStored config) st" and "0 < maxMessageKeysStored config"
    and "Nr st \<le> u" and "u \<le> Nr st + maxSkippedMessages config" and "u < MAX_MESSAGE_COUNTER"
  shows "\<exists>st'. receive_at hmac config now u st = Inr (message_key hmac ck (u - Nr st), st') \<and>
    Nr st' = u + 1 \<and> receiving_from (chain_key hmac ck (u + 1 - Nr st)) key st' \<and>
    ratchet_ok (maxMessageKeysStored config) st' \<and>
    (\<forall>j. Nr st \<le> j \<longrightarrow> u \<le> j + maxMessageKeysStored config \<longrightarrow> j < u \<longrightarrow>
       skipped_key st' (key, j) = Some (message_key hmac ck (j - Nr st)))"
  using assms by (rule receive_at_ok)

definition sample_config :: DoubleRatchetConfig where
  "sample_config = \<lparr>maxSkippedMessages = 10, maxMessageKeysStored = 2, maxMessageKeyAge = 1000\<rparr>"

lemma sample_receiving: "receiving_from (replicate 32 7) ''peer'' sample_state"
  by (simp add: receiving_from_def sample_state_def keys_of_def find_chain_def)

lemma sample_ratchet_ok: "ratchet_ok cap sample_state"
  by (simp add: ratchet_ok_def chains_ok_def sample_state_def)

theorem out_of_order_receive_witness:
  "\<exists>st'. receive_at sample_hmac sample_config 0 3 sample_state =
     Inr (message_key sample_hmac (replicate 32 7) 3, st') \<and> Nr st' = 4 \<and>
     skipped_key st' (''peer'', 1) = Some (message_key sample_hmac (replicate 32 7) 1)"
proof -
  have "Nr sample_state = 0" by (simp add: sample_state_def)
  then show ?thesis
    using out_of_order_receive [where hmac = sample_hmac and config = sample_config and u = 3 and now = 0,
        OF length_sample_hmac sample_receiving sample_ratchet_ok]
    by (auto simp: sample_config_def MAX_MESSAGE_COUNTER_def)
qed



text \<open>
  C9. the Diffie-Hellman ratchet keeps the two ends in step. When one end is a step ahead and the
  other receives its ratchet key, the step of the receiver succeeds, its receiving chain key is the
  sending chain key of the first end, its counters restart with the old sending length as the
  previous counter, and now the receiver is the end that is a step ahead.
\<close>

theorem dh_ratchet_in_step:
  assumes "\<And>k d. length (hmac k d) = 32" and "one_step_ahead hmac dh A B a b"
    and "dh (privateKey b) (publicKey a) = dh (privateKey a) (publicKey b)"
    and "dh (privateKey b') (publicKey a) = Inr s'" and "valid_ratchet_key (publicKey a)"
  shows "\<exists>B'. performDHRatchetStep hmac dh b' B (publicKey a) = Inr B' \<and> CKr B' = CKs A \<and>
    Nr B' = 0 \<and> Ns B' = 0 \<and> PN B' = Ns B \<and> one_step_ahead hmac dh B' A b' a"
  using assms by (rule ratchet_turn)

text \<open>The concrete Diffie-Hellman function: the private key is the public key, secrets are combined symmetrically.\<close>

definition sample_dh :: dh_fun where
  "sample_dh x y = and_then (base64ToBytes x) (\<lambda>a. and_then (base64ToBytes y) (\<lambda>b. Inr (map2 (+) a b)))"

definition sample_pair :: "byte \<Rightarrow> RatchetKeyPair" where
  "sample_pair n = \<lparr>publicKey = bytesToBase64 (replicate 32 n), privateKey = bytesToBase64 (replicate 32 n)\<rparr>"

lemma sample_dh_commute:
  "sample_dh (privateKey (sample_pair m)) (publicKey (sample_pair n)) =
   sample_dh (privateKey (sample_pair n)) (publicKey (sample_pair m))"
  by (simp add: sample_dh_def sample_pair_def add.commute)

theorem dh_ratchet_in_step_witness:
  "\<exists>A B B'. performDHRatchetStep sample_hmac sample_dh (sample_pair 3) (B :: DoubleRatchetState)
     (publicKey (sample_pair 1)) = Inr B' \<and> CKr B' = CKs (A :: DoubleRatchetState)"
proof -
  let ?a = "sample_pair 1" and ?b = "sample_pair 2"
  obtain s where s: "sample_dh (privateKey ?a) (publicKey ?b) = Inr s"
    by (simp add: sample_dh_def sample_pair_def)
  obtain rkA cks where k: "kdfRootKey sample_hmac [] s = Inr (rkA, cks)"
    using kdfRootKey_ok [where hmac = sample_hmac, OF length_sample_hmac] by blast
  let ?A = "sample_state\<lparr>DHs := Some ?a, DHr := Some (publicKey ?b), RK := bytesToBase64 rkA,
      CKs := Some (bytesToBase64 cks)\<rparr>"
  let ?B = "sample_state\<lparr>DHs := Some ?b, RK := bytesToBase64 []\<rparr>"
  have "one_step_ahead sample_hmac sample_dh ?A ?B ?a ?b"
    using s k by (auto simp: one_step_ahead_def sample_state_def)
  moreover have "valid_ratchet_key (publicKey ?a)" by (simp add: valid_ratchet_key_def sample_pair_def)
  moreover have "\<exists>s'. sample_dh (privateKey (sample_pair 3)) (publicKey ?a) = Inr s'"
    by (simp add: sample_dh_def sample_pair_def)
  ultimately show ?thesis
    using dh_ratchet_in_step [where hmac = sample_hmac and dh = sample_dh and A = ?A and B = ?B and
        a = ?a and b = ?b and b' = "sample_pair 3", OF length_sample_hmac _ sample_dh_commute]
    by blast
qed

text \<open>
  A skipped key can be fetched once. A fetch never throws; the second fetch for the same
  ratchet key and counter finds nothing, and a fetch for any other message returns the same before
  and after, so that delayed messages may arrive in every order.
\<close>

theorem skipped_key_fetched_once:
  assumes "ratchet_ok cap st"
  shows "\<exists>r st'. tryGetSkippedKey st key i = Inr (r, st') \<and> r = skipped_key st (key, i) \<and>
    (\<exists>st''. tryGetSkippedKey st' key i = Inr (None, st'')) \<and>
    ((key', i') = (key, i) \<or>
      map_sum id fst (tryGetSkippedKey st' key' i') = map_sum id fst (tryGetSkippedKey st key' i'))"
proof -
  define st' where "st' = snd (take_skipped st (key, i))"
  have t: "tryGetSkippedKey st key i = Inr (skipped_key st (key, i), st')"
    using assms by (simp add: st'_def take_skipped_def tryGet_eq)
  have ok: "ratchet_ok cap st'" unfolding st'_def by (rule skipped_keys.consume_inv [OF assms])
  have "skipped_key st' (key, i) = None"
    using skipped_keys.lookup_consume [OF assms, of "(key, i)" "(key, i)"] by (simp add: st'_def)
  then have "\<exists>st''. tryGetSkippedKey st' key i = Inr (None, st'')" using tryGet_eq [OF ok] by simp
  moreover have "(key', i') \<noteq> (key, i) \<Longrightarrow> skipped_key st' (key', i') = skipped_key st (key', i')"
    using skipped_keys.lookup_consume [OF assms, of "(key, i)" "(key', i')"] by (auto simp: st'_def)
  ultimately show ?thesis using t tryGet_eq [OF ok] tryGet_eq [OF assms] by auto
qed

theorem skipped_key_fetched_once_witness:
  "\<exists>r st'. tryGetSkippedKey sample_state ''peer'' 0 = Inr (r, st') \<and>
     (\<exists>st''. tryGetSkippedKey st' ''peer'' 0 = Inr (None, st''))"
  using skipped_key_fetched_once [OF sample_ratchet_ok, of "''peer''" 0 "''peer''" 1] by blast

text \<open>
  Cleanup removes exactly the expired keys: a key is found afterwards when it was found before
  and is not older than the configured age, and the replay entries that are kept are those not
  older than this age.
\<close>

theorem cleanup_removes_expired:
  assumes "ratchet_ok cap st"
  shows "find_key i (keys_of key (receiverChains (cleanupExpiredKeys st config now))) =
      (case find_key i (keys_of key (receiverChains st)) of
         None \<Rightarrow> None
       | Some k \<Rightarrow> if now - maxMessageKeyAge config \<le> mk_timestamp k then Some k else None) \<and>
    processedChains (cleanupExpiredKeys st config now) =
      map_option (filter (\<lambda>(dhKey, info). now - maxMessageKeyAge config \<le> pc_timestamp info)) (processedChains st)"
proof -
  have "distinct (map mk_index (keys_of key (receiverChains st)))"
    using assms chain_ok_keys_of by (simp add: ratchet_ok_def)
  then show ?thesis
    by (simp add: keys_of_cleanup [OF assms] find_key_filter_time not_less)
      (simp add: cleanupExpiredKeys_def Let_def not_less)
qed

theorem cleanup_removes_expired_witness:
  "find_key 0 (keys_of ''peer'' (receiverChains (cleanupExpiredKeys sample_state sample_config 5000))) = None"
  using cleanup_removes_expired [OF sample_ratchet_ok, of 0 "''peer''" sample_config 5000]
  by (simp add: sample_state_def keys_of_def find_chain_def find_key_def)

end
