(* ===== verification/Identity.thy ===== *)
theory Identity
  imports Kdf Base64
begin

text \<open>
  The composite identity of keys/identity.ts: a tuple of an X25519 and an Ed25519 public key with
  one canonical encoding of 67 bytes, the commitment derived from it, the trust record of a contact
  with its rotation and verification, and the message MAC of internal/session/identity-binding.ts
  that binds both identities. SHA-256 is the parameter \<open>sha256\<close>, HMAC-SHA256 the parameter \<open>hmac\<close>.

  Shown here: the encoding is canonical in both directions; equality of identities is equality of
  tuples; a contact record never returns to an identity it has retired.
\<close>

section \<open>Definitions\<close>

subsection \<open>Composite identities\<close>

record CompositeIdentityV1 =
  ci_version :: nat
  x25519PublicKey :: Base64
  ed25519PublicKey :: Base64

text \<open>The parts of an \<open>IdentityKeyPair\<close>.\<close>

record IdentityKey =
  ik_publicKey :: Base64
  ik_privateKey :: Base64

record IdentityKeyPair =
  dhKey :: IdentityKey
  signingKey :: IdentityKey
  registrationId :: nat

definition COMPOSITE_IDENTITY_V1_VERSION :: nat where "COMPOSITE_IDENTITY_V1_VERSION = 1"
definition COMPOSITE_IDENTITY_V1_X25519_TAG :: byte where "COMPOSITE_IDENTITY_V1_X25519_TAG = 1"
definition COMPOSITE_IDENTITY_V1_ED25519_TAG :: byte where "COMPOSITE_IDENTITY_V1_ED25519_TAG = 2"
definition COMPOSITE_IDENTITY_V1_LENGTH :: nat where "COMPOSITE_IDENTITY_V1_LENGTH = 67"
definition PUBLIC_KEY_LENGTH :: nat where "PUBLIC_KEY_LENGTH = 32"

definition DOMAIN_BYTES :: bytes where
  "DOMAIN_BYTES = textEncoder_encode (ascii ''signal-protocol-js composite identity v1'')"

definition decodeCanonicalPublicKey :: "Base64 \<Rightarrow> bytes result" where
  "decodeCanonicalPublicKey publicKey =
     (case base64ToBytes publicKey of
        Inl _ \<Rightarrow> Inl (PlainError ''public key must be canonical base64'')
      | Inr decoded \<Rightarrow>
          if length decoded \<noteq> PUBLIC_KEY_LENGTH
          then Inl (PlainError ''public key must contain exactly 32 bytes'')
          else if bytesToBase64 decoded \<noteq> publicKey
          then Inl (PlainError ''public key must use canonical padded base64'')
          else Inr decoded)"

definition encodeCompositeIdentityV1 :: "CompositeIdentityV1 \<Rightarrow> bytes result" where
  "encodeCompositeIdentityV1 identity =
     (if ci_version identity \<noteq> COMPOSITE_IDENTITY_V1_VERSION
      then Inl (PlainError ''Unsupported composite identity version'')
      else and_then (decodeCanonicalPublicKey (x25519PublicKey identity)) (\<lambda>x25519.
           and_then (decodeCanonicalPublicKey (ed25519PublicKey identity)) (\<lambda>ed25519.
           Inr ([of_nat COMPOSITE_IDENTITY_V1_VERSION, COMPOSITE_IDENTITY_V1_X25519_TAG] @ x25519 @
                [COMPOSITE_IDENTITY_V1_ED25519_TAG] @ ed25519))))"

definition createCompositeIdentityV1 :: "IdentityKeyPair \<Rightarrow> CompositeIdentityV1 result" where
  "createCompositeIdentityV1 identity =
     (let composite = \<lparr>ci_version = 1, x25519PublicKey = ik_publicKey (dhKey identity),
                       ed25519PublicKey = ik_publicKey (signingKey identity)\<rparr> in
      and_then (encodeCompositeIdentityV1 composite) (\<lambda>_. Inr composite))"

definition decodeCompositeIdentityV1 :: "bytes \<Rightarrow> CompositeIdentityV1 result" where
  "decodeCompositeIdentityV1 encoded =
     (if length encoded \<noteq> COMPOSITE_IDENTITY_V1_LENGTH
      then Inl (PlainError ''CompositeIdentityV1 must contain exactly 67 bytes'')
      else if encoded ! 0 \<noteq> of_nat COMPOSITE_IDENTITY_V1_VERSION
      then Inl (PlainError ''Unsupported composite identity version'')
      else if encoded ! 1 \<noteq> COMPOSITE_IDENTITY_V1_X25519_TAG
      then Inl (PlainError ''Unsupported X25519 algorithm tag'')
      else if encoded ! 34 \<noteq> COMPOSITE_IDENTITY_V1_ED25519_TAG
      then Inl (PlainError ''Unsupported Ed25519 algorithm tag'')
      else Inr \<lparr>ci_version = 1, x25519PublicKey = bytesToBase64 (js_slice 2 34 encoded),
                ed25519PublicKey = bytesToBase64 (js_slice 35 67 encoded)\<rparr>)"

type_synonym hash_fun = "bytes \<Rightarrow> bytes"

definition deriveIdentityCommitment :: "hash_fun \<Rightarrow> CompositeIdentityV1 \<Rightarrow> bytes result" where
  "deriveIdentityCommitment sha256 identity =
     and_then (encodeCompositeIdentityV1 identity) (\<lambda>e. Inr (sha256 (DOMAIN_BYTES @ e)))"

definition assertIdentityCommitment :: "hash_fun \<Rightarrow> CompositeIdentityV1 \<Rightarrow> bytes \<Rightarrow> unit result" where
  "assertIdentityCommitment sha256 identity suppliedCommitment =
     and_then (deriveIdentityCommitment sha256 identity) (\<lambda>derived.
       throw_if (\<not> constantTimeEqual derived suppliedCommitment)
         (PlainError ''Supplied identity commitment does not match canonical composite identity''))"

definition compositeIdentitiesEqual :: "CompositeIdentityV1 \<Rightarrow> CompositeIdentityV1 \<Rightarrow> bool result" where
  "compositeIdentitiesEqual left right =
     and_then (encodeCompositeIdentityV1 left) (\<lambda>l.
     and_then (encodeCompositeIdentityV1 right) (\<lambda>r. Inr (constantTimeEqual l r)))"

subsection \<open>Identity keys of device records\<close>

definition UNPINNED_DEVICE_IDENTITY_KEY :: bytes where "UNPINNED_DEVICE_IDENTITY_KEY = []"

definition isValidDeviceIdentityKey :: "bytes \<Rightarrow> bool" where
  "isValidDeviceIdentityKey bytes =
     (if length bytes = 0 then True
      else case decodeCompositeIdentityV1 bytes of Inl _ \<Rightarrow> False | Inr _ \<Rightarrow> True)"

definition canonicalizeDeviceIdentityKey :: "bytes \<Rightarrow> bytes result" where
  "canonicalizeDeviceIdentityKey bytes =
     (if length bytes = 0 then Inr UNPINNED_DEVICE_IDENTITY_KEY
      else case and_then (decodeCompositeIdentityV1 bytes) encodeCompositeIdentityV1 of
             Inl _ \<Rightarrow> Inl (PlainError ''not a canonical composite identity tuple'')
           | Inr e \<Rightarrow> Inr e)"

datatype device_identity_status = Unpinned | Same | Changed

definition compareDeviceIdentityKeys :: "bytes \<Rightarrow> bytes \<Rightarrow> device_identity_status" where
  "compareDeviceIdentityKeys pinned incoming =
     (if length pinned = 0 then Unpinned
      else if constantTimeEqual pinned incoming then Same else Changed)"

subsection \<open>Trust records of contacts\<close>

datatype IdentityTrustState = UNVERIFIED_TOFU | VERIFIED

datatype IdentityCandidateStatus = NEW | MATCH | CHANGED | ROLLBACK

record ContactIdentityRecord =
  cr_identity :: CompositeIdentityV1
  trustState :: IdentityTrustState
  firstSeenAt :: int
  lastSeenAt :: int
  verifiedAt :: "int option"
  revision :: int
  retiredIdentities :: "CompositeIdentityV1 list"

definition cloneIdentity :: "CompositeIdentityV1 \<Rightarrow> CompositeIdentityV1 result" where
  "cloneIdentity identity = and_then (encodeCompositeIdentityV1 identity) decodeCompositeIdentityV1"

definition MAX_SAFE_INTEGER :: int where "MAX_SAFE_INTEGER = 2 ^ 53 - 1"

definition assertTimestamp :: "int \<Rightarrow> unit result" where
  "assertTimestamp value =
     throw_if (value > MAX_SAFE_INTEGER \<or> value < 0)
       (PlainError ''timestamp must be a non-negative safe integer'')"

text \<open>\<open>Array.prototype.some\<close> with a predicate that may throw.\<close>

fun js_some :: "('a \<Rightarrow> bool result) \<Rightarrow> 'a list \<Rightarrow> bool result" where
  "js_some p [] = Inr False"
| "js_some p (x # xs) = and_then (p x) (\<lambda>b. if b then Inr True else js_some p xs)"

text \<open>The loop over the retired identities; \<open>previous\<close> are those at lower positions.\<close>

fun validate_retired ::
  "CompositeIdentityV1 \<Rightarrow> CompositeIdentityV1 list \<Rightarrow> CompositeIdentityV1 list \<Rightarrow> unit result" where
  "validate_retired identity previous [] = Inr ()"
| "validate_retired identity previous (retired # rest) =
     and_then (encodeCompositeIdentityV1 retired) (\<lambda>_.
     and_then (compositeIdentitiesEqual identity retired) (\<lambda>current.
     if current then Inl (PlainError ''Current identity cannot also be retired'')
     else and_then (js_some (compositeIdentitiesEqual retired) previous) (\<lambda>duplicate.
          if duplicate then Inl (PlainError ''Duplicate retired identity'')
          else validate_retired identity (previous @ [retired]) rest)))"

definition validateContactIdentityRecord :: "ContactIdentityRecord \<Rightarrow> unit result" where
  "validateContactIdentityRecord r =
     and_then (encodeCompositeIdentityV1 (cr_identity r)) (\<lambda>_.
     and_then (assertTimestamp (firstSeenAt r)) (\<lambda>_.
     and_then (assertTimestamp (lastSeenAt r)) (\<lambda>_.
     and_then (throw_if (lastSeenAt r < firstSeenAt r)
                 (PlainError ''lastSeenAt cannot precede firstSeenAt'')) (\<lambda>_.
     and_then (throw_if (revision r > MAX_SAFE_INTEGER \<or> revision r < 1)
                 (PlainError ''Identity revision must be a positive safe integer'')) (\<lambda>_.
     and_then (case trustState r of
                 VERIFIED \<Rightarrow> (case verifiedAt r of
                     None \<Rightarrow> Inl (PlainError ''A verified identity must include verifiedAt'')
                   | Some t \<Rightarrow> assertTimestamp t)
               | UNVERIFIED_TOFU \<Rightarrow>
                   throw_if (verifiedAt r \<noteq> None)
                     (PlainError ''An unverified identity cannot include verifiedAt'')) (\<lambda>_.
     validate_retired (cr_identity r) [] (retiredIdentities r)))))))"

definition evaluateContactIdentityCandidate ::
    "hash_fun \<Rightarrow> ContactIdentityRecord option \<Rightarrow> CompositeIdentityV1 \<Rightarrow> bytes option \<Rightarrow>
     IdentityCandidateStatus result" where
  "evaluateContactIdentityCandidate sha256 record candidate suppliedCommitment =
     and_then (encodeCompositeIdentityV1 candidate) (\<lambda>_.
     and_then (case suppliedCommitment of
                 None \<Rightarrow> Inr () | Some c \<Rightarrow> assertIdentityCommitment sha256 candidate c) (\<lambda>_.
     case record of
       None \<Rightarrow> Inr NEW
     | Some r \<Rightarrow>
         and_then (validateContactIdentityRecord r) (\<lambda>_.
         and_then (compositeIdentitiesEqual (cr_identity r) candidate) (\<lambda>same.
         if same then Inr MATCH
         else and_then (js_some (\<lambda>retired. compositeIdentitiesEqual retired candidate)
                          (retiredIdentities r)) (\<lambda>rollback.
              Inr (if rollback then ROLLBACK else CHANGED))))))"

definition createUnverifiedContactIdentityRecord ::
    "CompositeIdentityV1 \<Rightarrow> int \<Rightarrow> ContactIdentityRecord result" where
  "createUnverifiedContactIdentityRecord identity now =
     and_then (assertTimestamp now) (\<lambda>_.
     and_then (cloneIdentity identity) (\<lambda>identity.
     Inr \<lparr>cr_identity = identity, trustState = UNVERIFIED_TOFU, firstSeenAt = now, lastSeenAt = now,
          verifiedAt = None, revision = 1, retiredIdentities = []\<rparr>))"

definition acceptContactIdentityRotation ::
    "hash_fun \<Rightarrow> ContactIdentityRecord \<Rightarrow> CompositeIdentityV1 \<Rightarrow> int \<Rightarrow> bytes option \<Rightarrow>
     ContactIdentityRecord result" where
  "acceptContactIdentityRotation sha256 record candidate now suppliedCommitment =
     and_then (assertTimestamp now) (\<lambda>_.
     and_then (evaluateContactIdentityCandidate sha256 (Some record) candidate suppliedCommitment) (\<lambda>status.
     case status of
       ROLLBACK \<Rightarrow> Inl (PlainError ''Refusing previously retired identity as a rollback'')
     | MATCH \<Rightarrow> Inr (record\<lparr>lastSeenAt := max (lastSeenAt record) now\<rparr>)
     | NEW \<Rightarrow> Inl (PlainError ''Identity rotation requires an existing different identity'')
     | CHANGED \<Rightarrow>
         and_then (cloneIdentity candidate) (\<lambda>identity.
         and_then (map_result cloneIdentity (retiredIdentities record)) (\<lambda>retired.
         and_then (cloneIdentity (cr_identity record)) (\<lambda>previous.
         Inr \<lparr>cr_identity = identity, trustState = UNVERIFIED_TOFU, firstSeenAt = now, lastSeenAt = now,
              verifiedAt = None, revision = revision record + 1,
              retiredIdentities = retired @ [previous]\<rparr>)))))"

definition verifyContactIdentityRecord ::
    "hash_fun \<Rightarrow> ContactIdentityRecord \<Rightarrow> CompositeIdentityV1 \<Rightarrow> int \<Rightarrow> bytes option \<Rightarrow>
     ContactIdentityRecord result" where
  "verifyContactIdentityRecord sha256 record candidate now suppliedCommitment =
     and_then (assertTimestamp now) (\<lambda>_.
     and_then (evaluateContactIdentityCandidate sha256 (Some record) candidate suppliedCommitment) (\<lambda>status.
     if status \<noteq> MATCH
     then Inl (PlainError ''Authenticated identity comparison requires the current tuple'')
     else Inr (record\<lparr>trustState := VERIFIED, lastSeenAt := max (lastSeenAt record) now,
                      verifiedAt := Some now\<rparr>)))"

subsection \<open>The message MAC (identity-binding.ts)\<close>

definition MESSAGE_MAC_V1_DOMAIN :: bytes where
  "MESSAGE_MAC_V1_DOMAIN = textEncoder_encode (ascii ''signal-protocol-js composite identity message mac v1'')"

definition computeCompositeIdentityMessageMac ::
    "hmac_fun \<Rightarrow> hash_fun \<Rightarrow> bytes \<Rightarrow> CompositeIdentityV1 \<Rightarrow> CompositeIdentityV1 \<Rightarrow> bytes \<Rightarrow> bytes result" where
  "computeCompositeIdentityMessageMac hmac sha256 macKey senderIdentity receiverIdentity serializedMessage =
     (if length macKey \<noteq> 32 then Inl (PlainError ''MAC key must be 32 bytes'')
      else and_then (deriveIdentityCommitment sha256 senderIdentity) (\<lambda>s.
           and_then (deriveIdentityCommitment sha256 receiverIdentity) (\<lambda>r.
           Inr (take MAC_LENGTH (hmac macKey (MESSAGE_MAC_V1_DOMAIN @ s @ r @ serializedMessage))))))"

definition verifyCompositeIdentityMessageMac ::
    "hmac_fun \<Rightarrow> hash_fun \<Rightarrow> bytes \<Rightarrow> CompositeIdentityV1 \<Rightarrow> CompositeIdentityV1 \<Rightarrow> bytes \<Rightarrow> bytes \<Rightarrow>
     bool result" where
  "verifyCompositeIdentityMessageMac hmac sha256 macKey senderIdentity receiverIdentity serializedMessage receivedMac =
     and_then (computeCompositeIdentityMessageMac hmac sha256 macKey senderIdentity receiverIdentity
                 serializedMessage) (\<lambda>mac.
     Inr (constantTimeEqual mac receivedMac))"

section \<open>Lemmas\<close>

lemmas identity_constants = COMPOSITE_IDENTITY_V1_VERSION_def COMPOSITE_IDENTITY_V1_X25519_TAG_def
  COMPOSITE_IDENTITY_V1_ED25519_TAG_def COMPOSITE_IDENTITY_V1_LENGTH_def PUBLIC_KEY_LENGTH_def

subsection \<open>The canonical encoding\<close>

lemma decodeCanonicalPublicKey_iff:
  "decodeCanonicalPublicKey k = Inr d \<longleftrightarrow> length d = 32 \<and> k = bytesToBase64 d"
proof
  assume "decodeCanonicalPublicKey k = Inr d"
  then show "length d = 32 \<and> k = bytesToBase64 d"
    by (auto simp: decodeCanonicalPublicKey_def PUBLIC_KEY_LENGTH_def split: sum.splits if_splits)
qed (simp add: decodeCanonicalPublicKey_def PUBLIC_KEY_LENGTH_def)

definition identity_of :: "bytes \<Rightarrow> bytes \<Rightarrow> CompositeIdentityV1" where
  "identity_of x e = \<lparr>ci_version = 1, x25519PublicKey = bytesToBase64 x, ed25519PublicKey = bytesToBase64 e\<rparr>"

definition tuple_bytes :: "bytes \<Rightarrow> bytes \<Rightarrow> bytes" where
  "tuple_bytes x e = [1, 1] @ x @ [2] @ e"

lemma encodeCompositeIdentityV1_iff:
  "encodeCompositeIdentityV1 i = Inr bs \<longleftrightarrow>
   (\<exists>x e. length x = 32 \<and> length e = 32 \<and> i = identity_of x e \<and> bs = tuple_bytes x e)"
  by (cases i) (auto simp: encodeCompositeIdentityV1_def and_then_eq_Inr decodeCanonicalPublicKey_iff
      identity_of_def tuple_bytes_def identity_constants)

lemma tuple_bytes_split:
  assumes "length bs = 67" and "bs ! 0 = 1" and "bs ! 1 = 1" and "bs ! 34 = 2"
  shows "bs = tuple_bytes (js_slice 2 34 bs) (js_slice 35 67 bs)"
proof -
  have "bs = take 34 bs @ [bs ! 34] @ drop 35 bs" using assms(1) id_take_nth_drop [of 34 bs] by simp
  moreover have "take 34 bs = take 2 bs @ take 32 (drop 2 bs)"
    using take_add [of 2 32 bs] by simp
  moreover have "take 2 bs = [bs ! 0, bs ! 1]"
    using assms(1) by (simp add: take_Suc_conv_app_nth numeral_2_eq_2)
  moreover have "take 32 (drop 35 bs) = drop 35 bs" using assms(1) by simp
  ultimately show ?thesis using assms(2-4) by (simp add: tuple_bytes_def js_slice_def)
qed

lemma decodeCompositeIdentityV1_iff:
  "decodeCompositeIdentityV1 bs = Inr i \<longleftrightarrow>
   (\<exists>x e. length x = 32 \<and> length e = 32 \<and> i = identity_of x e \<and> bs = tuple_bytes x e)"
proof
  assume "decodeCompositeIdentityV1 bs = Inr i"
  then have bs: "length bs = 67" "bs ! 0 = 1" "bs ! 1 = 1" "bs ! 34 = 2"
    and i: "i = identity_of (js_slice 2 34 bs) (js_slice 35 67 bs)"
    by (auto simp: decodeCompositeIdentityV1_def identity_constants identity_of_def split: if_splits)
  have "length (js_slice 2 34 bs) = 32" "length (js_slice 35 67 bs) = 32" using bs(1) by simp_all
  with tuple_bytes_split [OF bs] i
  show "\<exists>x e. length x = 32 \<and> length e = 32 \<and> i = identity_of x e \<and> bs = tuple_bytes x e" by blast
next
  assume "\<exists>x e. length x = 32 \<and> length e = 32 \<and> i = identity_of x e \<and> bs = tuple_bytes x e"
  then show "decodeCompositeIdentityV1 bs = Inr i"
    by (auto simp: decodeCompositeIdentityV1_def identity_constants identity_of_def tuple_bytes_def
        js_slice_def nth_append numeral_2_eq_2)
qed

definition valid_identity :: "CompositeIdentityV1 \<Rightarrow> bool" where
  "valid_identity i = (\<exists>x e. length x = 32 \<and> length e = 32 \<and> i = identity_of x e)"

definition identity_bytes :: "CompositeIdentityV1 \<Rightarrow> bytes" where
  "identity_bytes i = (case encodeCompositeIdentityV1 i of Inl _ \<Rightarrow> [] | Inr bs \<Rightarrow> bs)"

lemma encode_valid [simp]: "valid_identity i \<Longrightarrow> encodeCompositeIdentityV1 i = Inr (identity_bytes i)"
proof -
  assume "valid_identity i"
  then have "\<exists>bs. encodeCompositeIdentityV1 i = Inr bs"
    unfolding valid_identity_def encodeCompositeIdentityV1_iff by blast
  then show ?thesis by (auto simp: identity_bytes_def)
qed

lemma encode_eq_Inr: "encodeCompositeIdentityV1 i = Inr bs \<longleftrightarrow> valid_identity i \<and> bs = identity_bytes i"
proof
  assume e: "encodeCompositeIdentityV1 i = Inr bs"
  then have "valid_identity i" unfolding valid_identity_def encodeCompositeIdentityV1_iff by blast
  with e show "valid_identity i \<and> bs = identity_bytes i" by simp
qed simp

lemma decode_encode_iff: "decodeCompositeIdentityV1 bs = Inr i \<longleftrightarrow> encodeCompositeIdentityV1 i = Inr bs"
  by (simp add: decodeCompositeIdentityV1_iff encodeCompositeIdentityV1_iff)

interpretation composite: canonical_codec valid_identity identity_bytes decodeCompositeIdentityV1 "\<lambda>_. True"
  by unfold_locales (auto simp: decode_encode_iff encode_eq_Inr)

lemma compositeIdentitiesEqual_iff:
  "compositeIdentitiesEqual a b = Inr r \<longleftrightarrow> valid_identity a \<and> valid_identity b \<and> r = (a = b)"
  using composite.enc_inj
  by (auto simp: compositeIdentitiesEqual_def and_then_eq_Inr encode_eq_Inr)

lemma equal_valid [simp]:
  "valid_identity a \<Longrightarrow> valid_identity b \<Longrightarrow> compositeIdentitiesEqual a b = Inr (a = b)"
  by (simp add: compositeIdentitiesEqual_iff)

lemma cloneIdentity_iff: "cloneIdentity a = Inr b \<longleftrightarrow> valid_identity a \<and> b = a"
  by (auto simp: cloneIdentity_def and_then_eq_Inr encode_eq_Inr decode_encode_iff dest: composite.enc_inj)

subsection \<open>Contact records\<close>

lemma js_some_equal:
  "\<forall>x \<in> set xs. valid_identity x \<Longrightarrow> valid_identity c \<Longrightarrow>
   js_some (\<lambda>x. compositeIdentitiesEqual x c) xs = Inr (c \<in> set xs) \<and>
   js_some (compositeIdentitiesEqual c) xs = Inr (c \<in> set xs)"
  by (induction xs) auto

lemma validate_retired_iff:
  assumes "valid_identity i" and "\<forall>x \<in> set prev. valid_identity x"
  shows "validate_retired i prev xs = Inr () \<longleftrightarrow>
    (\<forall>x \<in> set xs. valid_identity x \<and> x \<noteq> i \<and> x \<notin> set prev) \<and> distinct xs"
  using assms(2)
proof (induction xs arbitrary: prev)
  case (Cons x xs)
  show ?case
  proof (cases "valid_identity x")
    case True
    then have "validate_retired i (prev @ [x]) xs = Inr () \<longleftrightarrow>
        (\<forall>y \<in> set xs. valid_identity y \<and> y \<noteq> i \<and> y \<notin> set prev \<and> y \<noteq> x) \<and> distinct xs"
      using Cons.IH [of "prev @ [x]"] Cons.prems by auto
    with True Cons.prems assms(1) js_some_equal [of prev x] show ?thesis by auto
  next
    case False
    then have "encodeCompositeIdentityV1 x \<noteq> Inr bs" for bs by (simp add: encode_eq_Inr)
    with False show ?thesis by (auto simp: and_then_eq_Inr)
  qed
qed simp

text \<open>What a valid record promises about its identities.\<close>

definition contact_ok :: "ContactIdentityRecord \<Rightarrow> bool" where
  "contact_ok r =
     (valid_identity (cr_identity r) \<and> (\<forall>x \<in> set (retiredIdentities r). valid_identity x) \<and>
      cr_identity r \<notin> set (retiredIdentities r) \<and> distinct (retiredIdentities r))"

lemma validate_contact_ok:
  assumes "validateContactIdentityRecord r = Inr ()"
  shows "contact_ok r"
proof -
  have i: "valid_identity (cr_identity r)"
    using assms by (auto simp: validateContactIdentityRecord_def and_then_eq_Inr encode_eq_Inr)
  then show ?thesis
    using assms validate_retired_iff [OF i, of "[]" "retiredIdentities r"]
    by (auto simp: validateContactIdentityRecord_def and_then_eq_Inr contact_ok_def)
qed

definition times_ok :: "ContactIdentityRecord \<Rightarrow> bool" where
  "times_ok r =
     (0 \<le> firstSeenAt r \<and> firstSeenAt r \<le> lastSeenAt r \<and> lastSeenAt r \<le> MAX_SAFE_INTEGER \<and>
      1 \<le> revision r \<and> revision r \<le> MAX_SAFE_INTEGER \<and>
      (case verifiedAt r of
         None \<Rightarrow> trustState r = UNVERIFIED_TOFU
       | Some t \<Rightarrow> trustState r = VERIFIED \<and> 0 \<le> t \<and> t \<le> MAX_SAFE_INTEGER))"

lemma assertTimestamp_iff [simp]: "assertTimestamp t = Inr u \<longleftrightarrow> 0 \<le> t \<and> t \<le> MAX_SAFE_INTEGER"
  by (auto simp: assertTimestamp_def)

lemma validate_iff: "validateContactIdentityRecord r = Inr () \<longleftrightarrow> contact_ok r \<and> times_ok r"
proof (cases "valid_identity (cr_identity r)")
  case True
  with validate_retired_iff [OF True, of "[]" "retiredIdentities r"] show ?thesis
    by (cases "trustState r"; cases "verifiedAt r")
      (auto simp: validateContactIdentityRecord_def and_then_eq_Inr contact_ok_def times_ok_def)
next
  case False
  then have "encodeCompositeIdentityV1 (cr_identity r) \<noteq> Inr e" for e by (simp add: encode_eq_Inr)
  with False show ?thesis by (auto simp: validateContactIdentityRecord_def and_then_eq_Inr contact_ok_def)
qed

lemma evaluate_valid:
  assumes "validateContactIdentityRecord r = Inr ()" and "valid_identity c"
  shows "evaluateContactIdentityCandidate sha256 (Some r) c None =
    Inr (if c = cr_identity r then MATCH else if c \<in> set (retiredIdentities r) then ROLLBACK else CHANGED)"
  using assms validate_contact_ok [OF assms(1)] js_some_equal [of "retiredIdentities r" c]
  by (auto simp: evaluateContactIdentityCandidate_def contact_ok_def)

lemma cloneIdentity_valid [simp]: "valid_identity i \<Longrightarrow> cloneIdentity i = Inr i"
  by (simp add: cloneIdentity_iff)

lemma map_result_clone_valid [simp]:
  "\<forall>x \<in> set xs. valid_identity x \<Longrightarrow> map_result cloneIdentity xs = Inr xs"
  by (induction xs) auto

lemma evaluate_iff:
  assumes "evaluateContactIdentityCandidate sha256 (Some r) c s = Inr status"
  shows "validateContactIdentityRecord r = Inr () \<and> valid_identity c \<and>
    status = (if c = cr_identity r then MATCH else if c \<in> set (retiredIdentities r) then ROLLBACK else CHANGED)"
proof -
  from assms have v: "validateContactIdentityRecord r = Inr ()" and c: "valid_identity c"
    by (auto simp: evaluateContactIdentityCandidate_def and_then_eq_Inr encode_eq_Inr)
  with validate_contact_ok [OF v] assms js_some_equal [of "retiredIdentities r" c] show ?thesis
    by (auto simp: evaluateContactIdentityCandidate_def and_then_eq_Inr contact_ok_def split: if_splits)
qed

lemma map_result_clone:
  "map_result cloneIdentity xs = Inr ys \<Longrightarrow> ys = xs"
  by (induction xs arbitrary: ys) (auto simp: and_then_eq_Inr cloneIdentity_iff)

lemma accept_cases:
  assumes "acceptContactIdentityRotation sha256 r c now s = Inr r'"
  shows "validateContactIdentityRecord r = Inr () \<and> valid_identity c \<and> c \<notin> set (retiredIdentities r) \<and>
    (if c = cr_identity r then r' = r\<lparr>lastSeenAt := max (lastSeenAt r) now\<rparr>
     else r' = \<lparr>cr_identity = c, trustState = UNVERIFIED_TOFU, firstSeenAt = now, lastSeenAt = now,
                verifiedAt = None, revision = revision r + 1,
                retiredIdentities = retiredIdentities r @ [cr_identity r]\<rparr>)"
proof -
  from assms obtain status where e: "evaluateContactIdentityCandidate sha256 (Some r) c s = Inr status"
    by (auto simp: acceptContactIdentityRotation_def and_then_eq_Inr)
  note ev = evaluate_iff [OF e]
  then have "c = cr_identity r \<Longrightarrow> c \<notin> set (retiredIdentities r)"
    using validate_contact_ok by (auto simp: contact_ok_def)
  with assms e ev show ?thesis
    by (auto simp: acceptContactIdentityRotation_def and_then_eq_Inr cloneIdentity_iff
        dest!: map_result_clone split: if_splits)
qed

lemma verify_cases:
  assumes "verifyContactIdentityRecord sha256 r c now s = Inr r'"
  shows "validateContactIdentityRecord r = Inr () \<and> c = cr_identity r \<and>
    r' = r\<lparr>trustState := VERIFIED, lastSeenAt := max (lastSeenAt r) now, verifiedAt := Some now\<rparr>"
  using assms
  by (auto simp: verifyContactIdentityRecord_def and_then_eq_Inr dest!: evaluate_iff split: if_splits)

text \<open>The ways in which the stored record of a contact changes.\<close>

inductive contact_step :: "hash_fun \<Rightarrow> ContactIdentityRecord \<Rightarrow> ContactIdentityRecord \<Rightarrow> bool"
  for sha256 where
  accept: "acceptContactIdentityRotation sha256 r c now s = Inr r' \<Longrightarrow> contact_step sha256 r r'"
| verify: "verifyContactIdentityRecord sha256 r c now s = Inr r' \<Longrightarrow> contact_step sha256 r r'"

inductive_cases contact_stepE: "contact_step sha256 r r'"

definition known_identities :: "ContactIdentityRecord \<Rightarrow> CompositeIdentityV1 list" where
  "known_identities r = retiredIdentities r @ [cr_identity r]"

lemma contact_step_ok:
  assumes "contact_step sha256 r r'"
  shows "contact_ok r' \<and> (\<exists>new. known_identities r' = known_identities r @ new)"
  using assms
proof (cases rule: contact_step.cases)
  case (accept c now s)
  note a = accept_cases [OF accept]
  then have ok: "contact_ok r" using validate_contact_ok by blast
  show ?thesis
  proof (cases "c = cr_identity r")
    case True
    with a have "r' = r\<lparr>lastSeenAt := max (lastSeenAt r) now\<rparr>" by simp
    with ok show ?thesis by (simp add: contact_ok_def known_identities_def)
  next
    case False
    with a have "cr_identity r' = c" "retiredIdentities r' = retiredIdentities r @ [cr_identity r]" by simp_all
    with ok a False show ?thesis by (auto simp: contact_ok_def known_identities_def)
  qed
next
  case (verify c now s)
  with verify_cases [OF verify] validate_contact_ok show ?thesis
    by (auto simp: contact_ok_def known_identities_def)
qed

lemma contact_run_ok:
  "(contact_step sha256)\<^sup>*\<^sup>* r r' \<Longrightarrow> contact_ok r \<Longrightarrow>
   contact_ok r' \<and> (\<exists>new. known_identities r' = known_identities r @ new)"
proof (induction rule: rtranclp_induct)
  case (step y z)
  then show ?case using contact_step_ok [OF step(2)] by auto
qed simp

text \<open>A concrete contact record.\<close>

definition sample_identity :: "byte \<Rightarrow> CompositeIdentityV1" where
  "sample_identity n = identity_of (replicate 32 n) (replicate 32 n)"

definition sample_contact :: ContactIdentityRecord where
  "sample_contact = \<lparr>cr_identity = sample_identity 2, trustState = UNVERIFIED_TOFU, firstSeenAt = 5,
     lastSeenAt = 6, verifiedAt = None, revision = 2, retiredIdentities = [sample_identity 1]\<rparr>"

lemma sample_identity_valid [simp]: "valid_identity (sample_identity n)"
  unfolding valid_identity_def sample_identity_def by (intro exI conjI) simp_all

lemma sample_identity_eq [simp]: "sample_identity m = sample_identity n \<longleftrightarrow> m = n"
  by (simp add: sample_identity_def identity_of_def)

lemma sample_contact_valid: "validateContactIdentityRecord sample_contact = Inr ()"
  by (simp add: validate_iff contact_ok_def times_ok_def sample_contact_def MAX_SAFE_INTEGER_def)

section \<open>Properties\<close>

text \<open>
  The 67-byte form of an identity is canonical: bytes decode to a tuple exactly when this
  tuple encodes to these bytes, and comparing two identities succeeds exactly on tuples that have
  such a form and then decides equality of both keys.
\<close>

theorem composite_identity_canonical:
  "(decodeCompositeIdentityV1 bs = Inr i \<longleftrightarrow> encodeCompositeIdentityV1 i = Inr bs) \<and>
   (compositeIdentitiesEqual a b = Inr r \<longleftrightarrow>
      ok (encodeCompositeIdentityV1 a) \<and> ok (encodeCompositeIdentityV1 b) \<and> r = (a = b))"
proof -
  have "ok (encodeCompositeIdentityV1 x) \<longleftrightarrow> valid_identity x" for x by (auto simp: ok_iff encode_eq_Inr)
  then show ?thesis by (simp add: decode_encode_iff compositeIdentitiesEqual_iff)
qed

text \<open>
  C34. through any sequence of accepted rotations and verifications of a contact record that
  validates, an identity that the record held before the current one never becomes current again,
  no identity is forgotten, and the record stays free of duplicates.
\<close>

theorem contact_never_rolls_back:
  assumes "validateContactIdentityRecord r = Inr ()" and "(contact_step sha256)\<^sup>*\<^sup>* r r'"
  shows "(\<forall>x \<in> set (retiredIdentities r). cr_identity r' \<noteq> x \<and> x \<in> set (retiredIdentities r')) \<and>
    (cr_identity r' = cr_identity r \<or> cr_identity r \<in> set (retiredIdentities r')) \<and>
    distinct (retiredIdentities r' @ [cr_identity r'])"
proof -
  from contact_run_ok [OF assms(2) validate_contact_ok [OF assms(1)]] obtain new
    where ok: "contact_ok r'" and k: "known_identities r' = known_identities r @ new" by auto
  have d: "distinct (retiredIdentities r' @ [cr_identity r'])" using ok by (simp add: contact_ok_def)
  have "set (retiredIdentities r') \<union> {cr_identity r'} = set (known_identities r @ new)"
    unfolding k [symmetric] by (auto simp: known_identities_def)
  then have sub: "\<forall>x \<in> set (retiredIdentities r @ [cr_identity r]).
      x \<in> set (retiredIdentities r') \<or> x = cr_identity r'"
    by (auto simp: known_identities_def)
  have "cr_identity r' \<notin> set (retiredIdentities r)"
  proof (cases new rule: rev_cases)
    case Nil
    with k have "cr_identity r' = cr_identity r" by (simp add: known_identities_def)
    then show ?thesis using validate_contact_ok [OF assms(1)] by (simp add: contact_ok_def)
  next
    case (snoc ys y)
    with k have "retiredIdentities r' = retiredIdentities r @ [cr_identity r] @ ys"
      by (simp add: known_identities_def)
    with d show ?thesis by auto
  qed
  with sub d show ?thesis by auto
qed

theorem contact_never_rolls_back_witness:
  "\<exists>r. contact_step (\<lambda>b. b) sample_contact r \<and> cr_identity r = sample_identity 3 \<and>
     retiredIdentities r = [sample_identity 1, sample_identity 2]"
proof -
  have "acceptContactIdentityRotation (\<lambda>b. b) sample_contact (sample_identity 3) 9 None =
      Inr \<lparr>cr_identity = sample_identity 3, trustState = UNVERIFIED_TOFU, firstSeenAt = 9, lastSeenAt = 9,
        verifiedAt = None, revision = 3, retiredIdentities = [sample_identity 1, sample_identity 2]\<rparr>"
    unfolding acceptContactIdentityRotation_def evaluate_valid [OF sample_contact_valid sample_identity_valid]
    by (simp add: sample_contact_def MAX_SAFE_INTEGER_def assertTimestamp_def)
  from contact_step.accept [OF this] obtain r where step: "contact_step (\<lambda>b. b) sample_contact r"
    and new: "cr_identity r = sample_identity 3" and old: "retiredIdentities r = [sample_identity 1, sample_identity 2]"
    by fastforce
  have "sample_identity 1 \<in> set (retiredIdentities r)"
    using contact_never_rolls_back [OF sample_contact_valid r_into_rtranclp, OF step] by (simp add: sample_contact_def)
  with step new old show ?thesis by blast
qed

text \<open>
  A rotation to an identity that was never seen, at a valid time, always succeeds; the new
  record validates, holds the new identity unverified with the next revision number, and has the
  old identity appended to the retired ones. A retired identity is refused.
\<close>

theorem rotation_retires_current:
  assumes "validateContactIdentityRecord r = Inr ()" and "encodeCompositeIdentityV1 c = Inr e"
    and "0 \<le> now" and "now \<le> MAX_SAFE_INTEGER" and "revision r < MAX_SAFE_INTEGER"
  shows "acceptContactIdentityRotation sha256 r c now None =
      (if c \<in> set (retiredIdentities r)
       then Inl (PlainError ''Refusing previously retired identity as a rollback'')
       else if c = cr_identity r then Inr (r\<lparr>lastSeenAt := max (lastSeenAt r) now\<rparr>)
       else Inr \<lparr>cr_identity = c, trustState = UNVERIFIED_TOFU, firstSeenAt = now, lastSeenAt = now,
                 verifiedAt = None, revision = revision r + 1,
                 retiredIdentities = retiredIdentities r @ [cr_identity r]\<rparr>) \<and>
    (\<forall>r'. acceptContactIdentityRotation sha256 r c now None = Inr r' \<longrightarrow>
       validateContactIdentityRecord r' = Inr ())"
proof -
  have c: "valid_identity c" using assms(2) by (simp add: encode_eq_Inr)
  have ok: "contact_ok r" "times_ok r" using assms(1) by (simp_all add: validate_iff)
  have t: "assertTimestamp now = Inr ()" using assms(3,4) by simp
  have "acceptContactIdentityRotation sha256 r c now None =
      (if c \<in> set (retiredIdentities r)
       then Inl (PlainError ''Refusing previously retired identity as a rollback'')
       else if c = cr_identity r then Inr (r\<lparr>lastSeenAt := max (lastSeenAt r) now\<rparr>)
       else Inr \<lparr>cr_identity = c, trustState = UNVERIFIED_TOFU, firstSeenAt = now, lastSeenAt = now,
                 verifiedAt = None, revision = revision r + 1,
                 retiredIdentities = retiredIdentities r @ [cr_identity r]\<rparr>)"
    using ok(1) c unfolding acceptContactIdentityRotation_def t evaluate_valid [OF assms(1) c]
    by (simp add: contact_ok_def)
  then show ?thesis
    using ok c assms(3-5) by (auto simp: validate_iff contact_ok_def times_ok_def split: if_splits option.splits)
qed

theorem rotation_retires_current_witness:
  "acceptContactIdentityRotation (\<lambda>b. b) sample_contact (sample_identity 3) 9 None =
     Inr \<lparr>cr_identity = sample_identity 3, trustState = UNVERIFIED_TOFU, firstSeenAt = 9, lastSeenAt = 9,
          verifiedAt = None, revision = 3, retiredIdentities = [sample_identity 1, sample_identity 2]\<rparr>"
  using rotation_retires_current [OF sample_contact_valid encode_valid [OF sample_identity_valid [of 3]], of 9 "\<lambda>b. b"]
  by (simp add: sample_contact_def MAX_SAFE_INTEGER_def)

end
