(* ===== verification/Session_Record.thy ===== *)
theory Session_Record
  imports Double_Ratchet Identity Signal_Message "HOL-Library.AList"
begin

text \<open>
  Session states and session records: types/session.ts (\<open>SessionState\<close>, \<open>SessionRecord\<close> and the
  functions of its namespace) and internal/session/session-resolver.ts.

  A session state extends the Double Ratchet state, as the code hands the session itself to the
  ratchet functions. The post-quantum state inside \<open>tripleRatchet\<close> is the type parameter \<open>'q\<close>.
  An object keyed by base key is an association list in insertion order: \<open>AList.update\<close> writes a
  present key in place and appends an absent one, \<open>AList.delete\<close> is \<open>delete\<close>, \<open>map_of\<close> reads. A base
  key is base64 text and never an array index, so insertion order is the order of JavaScript. A
  function that changes its record returns the changed record; \<open>now\<close> is \<open>Date.now()\<close> of the call.

  Shown here: the archive keeps at most its bound, the newest insertions, one entry per base key and
  no pending prekey state, in every record that the operations reach; promotion keeps every session
  of the record; the candidates for decryption are all sessions, the current one first.
\<close>

section \<open>Definitions\<close>

subsection \<open>Session states\<close>

datatype IdentityType = Aci | Pni

record KyberPreKeyUse =
  kpu_kyberPreKeyId :: nat
  kpu_kyberPreKeyInstanceId :: string
  kpu_signedPreKeyId :: nat
  kpu_baseKeyBytes :: bytes

record PendingPreKeyDeletion =
  pd_oneTimePreKeyId :: "nat option"
  pd_kemOneTimePreKeyId :: "nat option"
  pd_kyberPreKeyUse :: "KyberPreKeyUse option"
  pd_identityType :: IdentityType

record 'q TripleRatchetState =
  spqrState :: 'q
  tr_enabled :: bool
  tr_enabledAt :: int

record 'q SessionState = DoubleRatchetState +
  baseKey :: Base64
  localAddress :: ProtocolAddress
  remoteAddress :: ProtocolAddress
  localDeviceId :: int
  remoteDeviceId :: int
  localRegistrationId :: nat
  remoteRegistrationId :: nat
  recipientIdentityType :: "IdentityType option"
  usedSignedPreKeyId :: "nat option"
  usedOneTimePreKeyId :: "nat option"
  usedKyberPreKeyId :: "nat option"
  usedKemOneTimePreKeyId :: "nat option"
  pendingPreKeyDeletion :: "PendingPreKeyDeletion option"
  kyberCiphertext :: "Base64 option"
  kemOneTimePreKeyCiphertext :: "Base64 option"
  isInitiator :: "bool option"
  unacknowledgedPreKeyMessage :: "bool option"
  hasReceivedMessage :: "bool option"
  identityKeyPair :: IdentityKeyPair
  localIdentity :: CompositeIdentityV1
  remoteIdentity :: CompositeIdentityV1
  localIdentityType :: IdentityType
  remoteIdentityType :: IdentityType
  createdAt :: int
  lastUsedAt :: int
  tripleRatchet :: "'q TripleRatchetState option"

subsection \<open>Session records\<close>

record SessionRecordMetadata =
  md_lastUsedAt :: "int option"
  md_messagesSent :: "nat option"
  md_messagesReceived :: "nat option"
  md_isActive :: "bool option"
  md_label :: "string option"
  md_createdAt :: "int option"
  md_lastSentAt :: "int option option"
  md_lastReceivedAt :: "int option option"
  md_isInitiator :: "bool option"

definition empty_metadata :: SessionRecordMetadata where
  "empty_metadata = \<lparr>md_lastUsedAt = None, md_messagesSent = None, md_messagesReceived = None,
     md_isActive = None, md_label = None, md_createdAt = None, md_lastSentAt = None,
     md_lastReceivedAt = None, md_isInitiator = None\<rparr>"

record 'q SessionRecord =
  currentSession :: "'q SessionState option"
  archivedSessions :: "(Base64 \<times> 'q SessionState) list"
  sr_version :: nat
  metadata :: "SessionRecordMetadata option"

definition CURRENT_SESSION_RECORD_VERSION :: nat where "CURRENT_SESSION_RECORD_VERSION = 4"

definition MAX_ARCHIVED_SESSIONS :: nat where "MAX_ARCHIVED_SESSIONS = 40"

text \<open>
  The checks of \<open>assertSessionStateIdentityProfile\<close> on a value of the session type; the checks that
  a field is present at all hold by typing.
\<close>

definition assertSessionStateIdentityProfile :: "'q SessionState \<Rightarrow> unit result" where
  "assertSessionStateIdentityProfile session =
     and_then (encodeCompositeIdentityV1 (localIdentity session)) (\<lambda>_.
     and_then (encodeCompositeIdentityV1 (remoteIdentity session)) (\<lambda>_.
     and_then (createCompositeIdentityV1 (identityKeyPair session)) (\<lambda>expectedLocalIdentity.
     and_then (compositeIdentitiesEqual expectedLocalIdentity (localIdentity session)) (\<lambda>equal.
     if \<not> equal then Inl (PlainError ''local identity does not match its identity key pair'')
     else throw_if (baseKey session = []) (PlainError ''must contain a non-empty base key'')))))"

fun assert_archived :: "(Base64 \<times> 'q SessionState) list \<Rightarrow> unit result" where
  "assert_archived [] = Inr ()"
| "assert_archived ((key, archived) # rest) =
     and_then (assertSessionStateIdentityProfile archived) (\<lambda>_.
     if baseKey archived \<noteq> key then Inl (PlainError ''does not match its map key'')
     else assert_archived rest)"

definition assertCurrentSessionRecord :: "'q SessionRecord \<Rightarrow> unit result" where
  "assertCurrentSessionRecord candidate =
     (if sr_version candidate \<noteq> CURRENT_SESSION_RECORD_VERSION
      then Inl (PlainError ''Unsupported session record version'')
      else and_then (case currentSession candidate of None \<Rightarrow> Inr ()
                     | Some session \<Rightarrow> assertSessionStateIdentityProfile session) (\<lambda>_.
           assert_archived (archivedSessions candidate)))"

definition create :: "'q SessionState \<Rightarrow> 'q SessionRecord" where
  "create session = \<lparr>currentSession = Some session, archivedSessions = [],
     sr_version = CURRENT_SESSION_RECORD_VERSION, metadata = None\<rparr>"

definition withoutPendingPreKey :: "'q SessionState \<Rightarrow> 'q SessionState" where
  "withoutPendingPreKey session = session\<lparr>unacknowledgedPreKeyMessage := None,
     usedSignedPreKeyId := None, usedOneTimePreKeyId := None, usedKyberPreKeyId := None,
     usedKemOneTimePreKeyId := None, kyberCiphertext := None, kemOneTimePreKeyCiphertext := None\<rparr>"

definition insertArchived :: "'q SessionRecord \<Rightarrow> 'q SessionState \<Rightarrow> 'q SessionRecord" where
  "insertArchived record session =
     record\<lparr>archivedSessions := AList.update (baseKey session) session
              (AList.delete (baseKey session) (archivedSessions record))\<rparr>"

definition archiveCurrent ::
    "'q SessionRecord \<Rightarrow> 'q SessionState option \<Rightarrow> nat \<Rightarrow> 'q SessionRecord" where
  "archiveCurrent record newSession maxArchived =
     (let record = (case currentSession record of None \<Rightarrow> record
                    | Some session \<Rightarrow> insertArchived record (withoutPendingPreKey session));
          archivedKeys = map fst (archivedSessions record);
          removed = take (length archivedKeys - maxArchived) archivedKeys
      in record\<lparr>archivedSessions := fold AList.delete removed (archivedSessions record),
                currentSession := newSession\<rparr>)"

definition getAllSessions :: "'q SessionRecord \<Rightarrow> 'q SessionState list" where
  "getAllSessions record =
     (case currentSession record of None \<Rightarrow> [] | Some session \<Rightarrow> [session]) @
     map snd (archivedSessions record)"

definition findSession :: "'q SessionRecord \<Rightarrow> Base64 \<Rightarrow> 'q SessionState option" where
  "findSession record key =
     (if map_option baseKey (currentSession record) = Some key then currentSession record
      else map_of (archivedSessions record) key)"

definition hasCurrentSession :: "'q SessionRecord \<Rightarrow> bool" where
  "hasCurrentSession record = (currentSession record \<noteq> None)"

text \<open>\<open>None\<close> is the result \<open>false\<close>, with the record as it was.\<close>

definition promoteSession :: "'q SessionRecord \<Rightarrow> Base64 \<Rightarrow> 'q SessionRecord option" where
  "promoteSession record key =
     (case map_of (archivedSessions record) key of
        None \<Rightarrow> None
      | Some sessionToPromote \<Rightarrow>
          let record = (case currentSession record of None \<Rightarrow> record
                        | Some session \<Rightarrow> insertArchived record (withoutPendingPreKey session))
          in Some (record\<lparr>currentSession := Some sessionToPromote,
                          archivedSessions := AList.delete key (archivedSessions record)\<rparr>))"

definition getArchivedCount :: "'q SessionRecord \<Rightarrow> nat" where
  "getArchivedCount record = length (archivedSessions record)"

text \<open>\<open>DEFAULT_SESAME_CONFIG.maxUnacknowledgedSessionAge\<close>\<close>

definition maxUnacknowledgedSessionAge :: int where
  "maxUnacknowledgedSessionAge = 30 * 24 * 60 * 60 * 1000"

text \<open>\<open>!s\<close> of an optional string: absent or empty.\<close>

definition falsy :: "string option \<Rightarrow> bool" where
  "falsy s = (s = None \<or> s = Some [])"

definition hasUsableSenderChain :: "'q SessionRecord \<Rightarrow> int \<Rightarrow> bool" where
  "hasUsableSenderChain record now =
     (case currentSession record of
        None \<Rightarrow> False
      | Some session \<Rightarrow>
          if falsy (CKs session) then False
          else if hasReceivedMessage session = Some False \<and>
                  now - createdAt session > maxUnacknowledgedSessionAge then False
          else True)"

definition archiveCurrentState :: "'q SessionRecord \<Rightarrow> 'q SessionRecord" where
  "archiveCurrentState record = archiveCurrent record None MAX_ARCHIVED_SESSIONS"

subsection \<open>The session resolver\<close>

record 'q DecryptionCandidate =
  dc_session :: "'q SessionState"
  dc_baseKey :: "Base64 option"
  dc_isActive :: bool

definition insertSession ::
    "'q SessionRecord option \<Rightarrow> 'q SessionState \<Rightarrow> bool \<Rightarrow> nat \<Rightarrow> int \<Rightarrow> 'q SessionRecord" where
  "insertSession sessionRecord newSession initiator maxArchived now =
     (case sessionRecord of
        None \<Rightarrow> \<lparr>currentSession = Some newSession, archivedSessions = [],
                 sr_version = CURRENT_SESSION_RECORD_VERSION,
                 metadata = Some (empty_metadata\<lparr>md_createdAt := Some now, md_lastSentAt := Some None,
                   md_lastReceivedAt := Some None, md_isInitiator := Some initiator,
                   md_isActive := Some True\<rparr>)\<rparr>
      | Some record \<Rightarrow>
          let updated = archiveCurrent record (Some newSession) maxArchived;
              old = (case metadata record of None \<Rightarrow> empty_metadata | Some m \<Rightarrow> m);
              created = (case md_createdAt old of None \<Rightarrow> now | Some t \<Rightarrow> t)
          in updated\<lparr>metadata := Some (old\<lparr>md_createdAt := Some created,
               md_isInitiator := Some initiator, md_lastUsedAt := Some now\<rparr>)\<rparr>)"

definition findDecryptingSessions :: "'q SessionRecord option \<Rightarrow> 'q DecryptionCandidate list" where
  "findDecryptingSessions sessionRecord =
     (case sessionRecord of
        None \<Rightarrow> []
      | Some record \<Rightarrow>
          (case currentSession record of
             None \<Rightarrow> []
           | Some session \<Rightarrow> [\<lparr>dc_session = session, dc_baseKey = None, dc_isActive = True\<rparr>]) @
          map (\<lambda>(key, session). \<lparr>dc_session = session, dc_baseKey = Some key, dc_isActive = False\<rparr>)
            (archivedSessions record))"

definition resolver_promoteSession :: "'q SessionRecord \<Rightarrow> Base64 \<Rightarrow> int \<Rightarrow> 'q SessionRecord option" where
  "resolver_promoteSession sessionRecord key now =
     map_option (\<lambda>copy. copy\<lparr>metadata :=
         Some ((case metadata copy of None \<Rightarrow> empty_metadata | Some m \<Rightarrow> m)\<lparr>md_lastUsedAt := Some now\<rparr>)\<rparr>)
       (promoteSession sessionRecord key)"

definition archiveCurrentSession :: "'q SessionRecord \<Rightarrow> nat \<Rightarrow> 'q SessionRecord" where
  "archiveCurrentSession sessionRecord maxArchived = archiveCurrent sessionRecord None maxArchived"


section \<open>The archive as an ordered store\<close>

text \<open>
  What the record functions rely on of the archive object: a store of values under their own keys
  that remembers the order of insertion. Writing moves a key to the newest end.
\<close>

locale ordered_store =
  fixes key :: "'s \<Rightarrow> 'k" and get :: "'m \<Rightarrow> 'k \<Rightarrow> 's option" and keys :: "'m \<Rightarrow> 'k list"
    and put :: "'m \<Rightarrow> 's \<Rightarrow> 'm" and del :: "'k \<Rightarrow> 'm \<Rightarrow> 'm"
  assumes get_put: "get (put m s) k = (if k = key s then Some s else get m k)"
    and keys_put: "keys (put m s) = filter (\<lambda>k. k \<noteq> key s) (keys m) @ [key s]"
    and get_del: "get (del k m) j = (if j = k then None else get m j)"
    and keys_del: "keys (del k m) = filter (\<lambda>j. j \<noteq> k) (keys m)"
    and keys_get: "k \<in> set (keys m) \<longleftrightarrow> get m k \<noteq> None"
begin

lemma distinct_put: "distinct (keys m) \<Longrightarrow> distinct (keys (put m s))"
  by (simp add: keys_put)

lemma distinct_del: "distinct (keys m) \<Longrightarrow> distinct (keys (del k m))"
  by (simp add: keys_del)

lemma keys_dels: "keys (fold del ks m) = filter (\<lambda>j. j \<notin> set ks) (keys m)"
  by (induction ks arbitrary: m) (auto simp: keys_del intro!: filter_cong)

lemma get_dels: "get (fold del ks m) j = (if j \<in> set ks then None else get m j)"
  by (induction ks arbitrary: m) (auto simp: get_del)

text \<open>Deleting the oldest keys keeps the newest ones in order.\<close>

lemma keys_drop_oldest:
  assumes "distinct (keys m)"
  shows "keys (fold del (take n (keys m)) m) = drop n (keys m)"
proof -
  have "filter (\<lambda>j. j \<notin> set (take n xs)) xs = drop n xs" if d: "distinct xs" for xs :: "'k list"
  proof -
    have "filter (\<lambda>j. j \<notin> set (take n xs)) (take n xs @ drop n xs) = drop n xs"
      using set_take_disj_set_drop_if_distinct [OF d, of n n]
      by (simp only: filter_append) (auto simp: filter_empty_conv intro!: filter_True)
    then show ?thesis by simp
  qed
  then show ?thesis using assms by (simp add: keys_dels)
qed

lemma count_put: "distinct (keys m) \<Longrightarrow> k \<in> set (keys m) \<Longrightarrow> length (keys (del k (put m s))) \<le> length (keys m)"
proof (cases "k = key s")
  case False
  assume "k \<in> set (keys m)"
  then have "length (filter (\<lambda>j. j \<noteq> key s \<and> j \<noteq> k) (keys m)) < length (keys m)"
    by (intro length_filter_less [of k]) auto
  with False show ?thesis by (auto simp: keys_put keys_del)
next
  case True
  then show ?thesis by (simp add: keys_put keys_del)
qed

text \<open>Exchange of a stored value with an outside one: nothing else changes.\<close>

lemma get_swap:
  "key c \<noteq> k \<Longrightarrow> get (del k (put m c)) j = (if j = k then None else if j = key c then Some c else get m j)"
  by (simp add: get_put get_del)

end

definition put_archived :: "(Base64 \<times> 'q SessionState) list \<Rightarrow> 'q SessionState \<Rightarrow> (Base64 \<times> 'q SessionState) list" where
  "put_archived m s = AList.update (baseKey s) s (AList.delete (baseKey s) m)"

lemma update_absent: "k \<notin> fst ` set m \<Longrightarrow> AList.update k v m = m @ [(k, v)]"
  by (induction m) auto

lemma keys_delete: "map fst (AList.delete k m) = filter (\<lambda>j. j \<noteq> k) (map fst m)"
  by (induction m) auto

lemma put_archived_eq: "put_archived m s = AList.delete (baseKey s) m @ [(baseKey s, s)]"
  unfolding put_archived_def
proof (rule update_absent)
  have "baseKey s \<notin> set (map fst (AList.delete (baseKey s) m))" by (simp add: keys_delete del: set_map)
  then show "baseKey s \<notin> fst ` set (AList.delete (baseKey s) m)" by simp
qed

interpretation archive: ordered_store baseKey map_of "map fst" put_archived AList.delete
proof
  show "map_of (put_archived m s) k = (if k = baseKey s then Some s else map_of m k)" for m s k
    by (simp add: put_archived_def update_conv' delete_conv')
  show "map fst (put_archived m s) = filter (\<lambda>k. k \<noteq> baseKey s) (map fst m) @ [baseKey s]" for m s
    by (simp add: put_archived_eq keys_delete)
  show "map_of (AList.delete k m) j = (if j = k then None else map_of m j)" for k m j
    by (simp add: delete_conv')
  show "map fst (AList.delete k m) = filter (\<lambda>j. j \<noteq> k) (map fst m)" for k m
    by (rule keys_delete)
  show "k \<in> set (map fst m) \<longleftrightarrow> map_of m k \<noteq> None" for k m
    by (simp add: map_of_eq_None_iff)
qed

section \<open>Invariant of the records\<close>

definition no_pending :: "'q SessionState \<Rightarrow> bool" where
  "no_pending s = (unacknowledgedPreKeyMessage s = None \<and> usedSignedPreKeyId s = None \<and>
     usedOneTimePreKeyId s = None \<and> usedKyberPreKeyId s = None \<and> usedKemOneTimePreKeyId s = None \<and>
     kyberCiphertext s = None \<and> kemOneTimePreKeyCiphertext s = None)"

text \<open>
  One entry per base key, under its own base key, without pending prekey state, at most \<open>m\<close> of them.
\<close>

definition archive_ok :: "nat \<Rightarrow> 'q SessionRecord \<Rightarrow> bool" where
  "archive_ok m r = (distinct (map fst (archivedSessions r)) \<and> getArchivedCount r \<le> m \<and>
     (\<forall>(k, s) \<in> set (archivedSessions r). baseKey s = k \<and> no_pending s) \<and>
     sr_version r = CURRENT_SESSION_RECORD_VERSION)"

lemma withoutPendingPreKey_simps [simp]:
  "baseKey (withoutPendingPreKey s) = baseKey s" "no_pending (withoutPendingPreKey s)"
  "localIdentity (withoutPendingPreKey s) = localIdentity s"
  "remoteIdentity (withoutPendingPreKey s) = remoteIdentity s"
  "identityKeyPair (withoutPendingPreKey s) = identityKeyPair s"
  by (simp_all add: withoutPendingPreKey_def no_pending_def)

lemma insertArchived_eq:
  "insertArchived r s = r\<lparr>archivedSessions := put_archived (archivedSessions r) s\<rparr>"
  by (simp add: insertArchived_def put_archived_def)

text \<open>The archive after the current session was put there, if there is one.\<close>

definition with_current :: "'q SessionRecord \<Rightarrow> (Base64 \<times> 'q SessionState) list" where
  "with_current r = (case currentSession r of None \<Rightarrow> archivedSessions r
     | Some s \<Rightarrow> put_archived (archivedSessions r) (withoutPendingPreKey s))"

lemma archiveCurrent_eq:
  "archiveCurrent r new m = r\<lparr>currentSession := new, archivedSessions :=
     fold AList.delete (take (length (with_current r) - m) (map fst (with_current r))) (with_current r)\<rparr>"
  by (cases "currentSession r") (simp_all add: archiveCurrent_def with_current_def insertArchived_eq)

lemma promoteSession_eq:
  "promoteSession r k = map_option (\<lambda>s. r\<lparr>currentSession := Some s,
     archivedSessions := AList.delete k (with_current r)\<rparr>) (map_of (archivedSessions r) k)"
  by (cases "currentSession r"; cases "map_of (archivedSessions r) k")
    (simp_all add: promoteSession_def with_current_def insertArchived_eq)

lemma with_current_distinct:
  "distinct (map fst (archivedSessions r)) \<Longrightarrow> distinct (map fst (with_current r))"
  using archive.distinct_put by (auto simp: with_current_def split: option.splits)

lemma with_current_set:
  "x \<in> set (with_current r) \<Longrightarrow> x \<in> set (archivedSessions r) \<or>
     (\<exists>s. currentSession r = Some s \<and> x = (baseKey s, withoutPendingPreKey s))"
  by (auto simp: with_current_def put_archived_eq AList.delete_eq split: option.splits)

text \<open>With one entry per key the loop of deletions cuts off the front of the list.\<close>

lemma fold_delete_drop:
  assumes "distinct (map fst m)"
  shows "fold AList.delete (take n (map fst m)) m = drop n m"
  using assms
proof (induction n arbitrary: m)
  case (Suc n)
  show ?case
  proof (cases m)
    case (Cons p t)
    then have "AList.delete (fst p) m = t"
      using Suc.prems by (auto simp: AList.delete_eq image_iff intro!: filter_True)
    then show ?thesis using Suc Cons by simp
  qed simp
qed simp

lemma archiveCurrent_drop:
  assumes "distinct (map fst (archivedSessions r))"
  shows "archivedSessions (archiveCurrent r new m) = drop (length (with_current r) - m) (with_current r)"
  using fold_delete_drop [OF with_current_distinct [OF assms]] by (simp add: archiveCurrent_eq)

lemma archiveCurrent_ok:
  assumes "archive_ok m r"
  shows "archive_ok m (archiveCurrent r new m)"
proof -
  have d: "distinct (map fst (archivedSessions r))" using assms by (simp add: archive_ok_def)
  have "\<forall>(k, s) \<in> set (with_current r). baseKey s = k \<and> no_pending s"
    using assms by (auto simp: archive_ok_def dest!: with_current_set)
  then show ?thesis
    using assms d with_current_distinct [OF d] archiveCurrent_drop [OF d]
    by (auto simp: archive_ok_def getArchivedCount_def archiveCurrent_eq drop_map [symmetric]
        dest: in_set_dropD)
qed

lemma promoteSession_ok:
  assumes ok: "archive_ok m r" and p: "promoteSession r k = Some r'"
  shows "archive_ok m r'"
proof -
  obtain s where s: "map_of (archivedSessions r) k = Some s"
    and r': "r' = r\<lparr>currentSession := Some s, archivedSessions := AList.delete k (with_current r)\<rparr>"
    using p by (auto simp: promoteSession_eq)
  have d: "distinct (map fst (archivedSessions r))" using ok by (simp add: archive_ok_def)
  have k: "k \<in> set (map fst (archivedSessions r))"
    using archive.keys_get [of k "archivedSessions r"] s by simp
  have "length (AList.delete k (with_current r)) \<le> length (archivedSessions r)"
    using archive.count_put [OF d k] length_delete_le [of k "archivedSessions r"]
    by (auto simp: with_current_def split: option.splits)
  then have "getArchivedCount r' \<le> m" using ok by (simp add: archive_ok_def getArchivedCount_def r')
  moreover have "distinct (map fst (archivedSessions r'))"
    using archive.distinct_del [OF with_current_distinct [OF d]] by (simp add: r')
  moreover have "\<forall>(k, s) \<in> set (archivedSessions r'). baseKey s = k \<and> no_pending s"
    using ok by (auto simp: archive_ok_def r' AList.delete_eq dest!: with_current_set)
  ultimately show ?thesis using ok by (simp add: archive_ok_def r')
qed

text \<open>
  The records that the operations build: a first session, then insertions, archiving, promotions
  and any progress of the current session.
\<close>

inductive record_reach :: "nat \<Rightarrow> 'q SessionRecord \<Rightarrow> bool" for m where
  first: "record_reach m (create s)"
| inserted: "record_reach m (insertSession None s i m now)"
| insert: "record_reach m r \<Longrightarrow> record_reach m (insertSession (Some r) s i m now)"
| archive: "record_reach m r \<Longrightarrow> record_reach m (archiveCurrent r new m)"
| promote: "record_reach m r \<Longrightarrow> promoteSession r k = Some r' \<Longrightarrow> record_reach m r'"
| resolve: "record_reach m r \<Longrightarrow> resolver_promoteSession r k now = Some r' \<Longrightarrow> record_reach m r'"
| progress: "record_reach m r \<Longrightarrow> record_reach m (r\<lparr>currentSession := Some s\<rparr>)"

lemma archive_ok_metadata [simp]: "archive_ok m (r\<lparr>metadata := d\<rparr>) = archive_ok m r"
  "archive_ok m (r\<lparr>currentSession := c\<rparr>) = archive_ok m r"
  by (simp_all add: archive_ok_def getArchivedCount_def)

lemma record_reach_ok: "record_reach m r \<Longrightarrow> archive_ok m r"
proof (induction rule: record_reach.induct)
  case (insert r s i now)
  then show ?case using archiveCurrent_ok [of m r] by (simp add: insertSession_def Let_def)
next
  case (promote r k r')
  then show ?case by (blast intro: promoteSession_ok)
next
  case (resolve r k now r')
  then show ?case by (auto simp: resolver_promoteSession_def dest: promoteSession_ok)
qed (simp_all add: archiveCurrent_ok, simp_all add: archive_ok_def create_def insertSession_def getArchivedCount_def)

section \<open>Validation of stored records\<close>

definition profile_ok :: "'q SessionState \<Rightarrow> bool" where
  "profile_ok s = (valid_identity (localIdentity s) \<and> valid_identity (remoteIdentity s) \<and>
     createCompositeIdentityV1 (identityKeyPair s) = Inr (localIdentity s) \<and> baseKey s \<noteq> [])"

lemma assert_profile_iff: "assertSessionStateIdentityProfile s = Inr u \<longleftrightarrow> profile_ok s"
  by (auto simp: profile_ok_def assertSessionStateIdentityProfile_def and_then_eq_Inr encode_eq_Inr
      compositeIdentitiesEqual_iff split: if_splits)

lemma assert_archived_iff:
  "assert_archived m = Inr u \<longleftrightarrow> (\<forall>(k, s) \<in> set m. profile_ok s \<and> baseKey s = k)"
  by (induction m rule: assert_archived.induct) (auto simp: and_then_eq_Inr assert_profile_iff)

lemma assert_record_iff:
  "assertCurrentSessionRecord r = Inr u \<longleftrightarrow> sr_version r = CURRENT_SESSION_RECORD_VERSION \<and>
     (\<forall>s. currentSession r = Some s \<longrightarrow> profile_ok s) \<and>
     (\<forall>(k, s) \<in> set (archivedSessions r). profile_ok s \<and> baseKey s = k)"
  by (auto simp: assertCurrentSessionRecord_def and_then_eq_Inr assert_profile_iff assert_archived_iff
      split: option.splits)

lemma profile_ok_without [simp]: "profile_ok (withoutPendingPreKey s) = profile_ok s"
  by (simp add: profile_ok_def)

lemma with_current_accepted:
  "assertCurrentSessionRecord r = Inr () \<Longrightarrow> \<forall>(k, s) \<in> set (with_current r). profile_ok s \<and> baseKey s = k"
  unfolding assert_record_iff by (auto dest!: with_current_set)

lemma fold_delete_in: "x \<in> set (fold AList.delete ks m) \<Longrightarrow> x \<in> set m"
  by (induction ks arbitrary: m) (auto simp: AList.delete_eq, fastforce)

section \<open>Properties\<close>

text \<open>
  C27. Every record that insertions, archiving, promotions and the progress of the current session
  build holds at most the archive bound of sessions, one per base key and under its own base key,
  and no archived session carries pending prekey state.
\<close>

theorem reachable_archive_bounded:
  assumes "record_reach m r"
  shows "getArchivedCount r \<le> m \<and> distinct (map fst (archivedSessions r)) \<and>
    (\<forall>(k, s) \<in> set (archivedSessions r). baseKey s = k \<and> no_pending s)"
  using record_reach_ok [OF assms] by (simp add: archive_ok_def)

definition sample_address :: "nat \<Rightarrow> int \<Rightarrow> ProtocolAddress" where
  "sample_address c d = \<lparr>userId = [of_nat c], deviceId = d\<rparr>"

definition sample_keys :: IdentityKeyPair where
  "sample_keys = \<lparr>dhKey = \<lparr>ik_publicKey = bytesToBase64 (replicate 32 1), ik_privateKey = []\<rparr>,
     signingKey = \<lparr>ik_publicKey = bytesToBase64 (replicate 32 1), ik_privateKey = []\<rparr>, registrationId = 1\<rparr>"

definition sample_session :: "Base64 \<Rightarrow> unit SessionState" where
  "sample_session k = DoubleRatchetState.extend sample_state
     (SessionState.fields k (sample_address 97 1) (sample_address 98 1) 1 1 1 1 (Some Aci) (Some 7) None (Some 8) None
        None (Some ''QUJD'') None (Some True) (Some True) (Some False) sample_keys (sample_identity 1)
        (sample_identity 2) Aci Aci 0 0 None)"

theorem reachable_archive_bounded_witness:
  "record_reach 1 (archiveCurrent (insertSession (Some (create (sample_session ''AA''))) (sample_session ''BB'') True 1 5) None 1) \<and>
   getArchivedCount (archiveCurrent (insertSession (Some (create (sample_session ''AA''))) (sample_session ''BB'') True 1 5) None 1) \<le> 1"
proof -
  have "record_reach 1 (archiveCurrent (insertSession (Some (create (sample_session ''AA''))) (sample_session ''BB'') True 1 5) None 1)"
    by (intro record_reach.archive record_reach.insert record_reach.first)
  with reachable_archive_bounded [OF this] show ?thesis by simp
qed

text \<open>
  C28. Archiving puts the current session, without its pending prekey state, at the newest end of the
  archive; of the archive so extended the newest \<open>maxArchived\<close> sessions stay, in their order, and
  the new session is the current one.
\<close>

theorem archive_keeps_newest:
  assumes "archive_ok n r" and "currentSession r = Some s"
  defines "extended \<equiv> filter (\<lambda>(k, _). k \<noteq> baseKey s) (archivedSessions r) @ [(baseKey s, withoutPendingPreKey s)]"
  shows "archiveCurrent r new m =
    r\<lparr>currentSession := new, archivedSessions := drop (length extended - m) extended\<rparr>"
proof -
  have e: "with_current r = extended"
    unfolding extended_def using assms(2)
    by (auto simp: with_current_def put_archived_eq AList.delete_eq intro!: filter_cong)
  have "distinct (map fst (archivedSessions r))" using assms(1) by (simp add: archive_ok_def)
  from archiveCurrent_drop [OF this, of new m] e show ?thesis by (simp add: archiveCurrent_eq)
qed

theorem archive_keeps_newest_witness:
  "archivedSessions (archiveCurrent (create (sample_session ''AA'')) None 3) =
     [(''AA'', withoutPendingPreKey (sample_session ''AA''))]"
proof -
  have "archive_ok 3 (create (sample_session ''AA''))" "currentSession (create (sample_session ''AA'')) = Some (sample_session ''AA'')"
    by (simp_all add: archive_ok_def create_def getArchivedCount_def)
  from archive_keeps_newest [OF this, of None 3] show ?thesis
    by (simp add: create_def sample_session_def DoubleRatchetState.defs SessionState.defs)
qed

text \<open>
  Promoting an archived session makes it the current one, takes it out of the archive and keeps
  every other session of the record: the former current session is found in the archive without its
  pending prekey state, and the lookup of every other base key is as before.
\<close>

theorem promote_keeps_sessions:
  assumes "archive_ok n r" and "currentSession r = Some c" and "map_of (archivedSessions r) k = Some s"
    and "k \<noteq> baseKey c"
  shows "\<exists>r'. promoteSession r k = Some r' \<and> currentSession r' = Some s \<and>
    map_of (archivedSessions r') k = None \<and>
    (\<forall>j. findSession r' j = (if j = baseKey c then Some (withoutPendingPreKey c) else findSession r j))"
proof -
  define r' where "r' = r\<lparr>currentSession := Some s, archivedSessions := AList.delete k (with_current r)\<rparr>"
  have w: "with_current r = put_archived (archivedSessions r) (withoutPendingPreKey c)"
    using assms(2) by (simp add: with_current_def)
  have s: "baseKey s = k" using assms(1,3) by (auto simp: archive_ok_def dest!: map_of_SomeD)
  have g: "map_of (AList.delete k (with_current r)) j =
      (if j = k then None else if j = baseKey c then Some (withoutPendingPreKey c) else map_of (archivedSessions r) j)" for j
    using archive.get_swap [of "withoutPendingPreKey c" k] assms(4) by (simp add: w)
  have "promoteSession r k = Some r'" using assms(3) by (simp add: promoteSession_eq r'_def)
  moreover have "\<forall>j. findSession r' j = (if j = baseKey c then Some (withoutPendingPreKey c) else findSession r j)"
    using g s assms(2,3,4) by (auto simp: findSession_def r'_def)
  moreover have "map_of (archivedSessions r') k = None" using g by (simp add: r'_def)
  ultimately show ?thesis by (auto simp: r'_def)
qed

definition sample_record :: "unit SessionRecord" where
  "sample_record = archiveCurrent (create (sample_session ''AA'')) (Some (sample_session ''BB'')) 40"

lemma sample_session_key [simp]: "baseKey (sample_session k) = k"
  by (simp add: sample_session_def DoubleRatchetState.defs SessionState.defs)

lemma sample_record_eval:
  "sample_record = (create (sample_session ''BB''))\<lparr>archivedSessions := [(''AA'', withoutPendingPreKey (sample_session ''AA''))]\<rparr>"
  by (simp add: sample_record_def archiveCurrent_eq with_current_def create_def put_archived_eq)

lemma sample_record_ok: "archive_ok 40 sample_record"
  unfolding sample_record_def
  by (rule archiveCurrent_ok) (simp add: archive_ok_def create_def getArchivedCount_def)

theorem promote_keeps_sessions_witness:
  "map_option currentSession (promoteSession sample_record ''AA'') = Some (Some (withoutPendingPreKey (sample_session ''AA'')))"
proof -
  have "currentSession sample_record = Some (sample_session ''BB'')"
    "map_of (archivedSessions sample_record) ''AA'' = Some (withoutPendingPreKey (sample_session ''AA''))"
    by (simp_all add: sample_record_eval create_def)
  from promote_keeps_sessions [OF sample_record_ok this] show ?thesis by auto
qed

text \<open>
  The candidates for decryption are all sessions of the record, the current one first and the
  archived ones in order of insertion; a candidate is marked active exactly when it is the current
  session, and an archived one names the base key whose promotion makes it current.
\<close>

theorem candidates_complete:
  assumes "archive_ok n r"
  shows "map dc_session (findDecryptingSessions (Some r)) = getAllSessions r \<and>
    (\<forall>c \<in> set (findDecryptingSessions (Some r)).
       if dc_isActive c then currentSession r = Some (dc_session c) \<and> dc_baseKey c = None
       else \<exists>k r'. dc_baseKey c = Some k \<and> promoteSession r k = Some r' \<and>
              currentSession r' = Some (dc_session c))"
proof -
  have m: "map_of (archivedSessions r) k = Some s" if "(k, s) \<in> set (archivedSessions r)" for k s
    using assms that by (auto simp: archive_ok_def)
  show ?thesis
    by (auto simp: findDecryptingSessions_def getAllSessions_def promoteSession_eq comp_def case_prod_beta
        dest!: m split: option.splits)
qed

theorem candidates_complete_witness:
  "map dc_session (findDecryptingSessions (Some sample_record)) =
     [sample_session ''BB'', withoutPendingPreKey (sample_session ''AA'')]"
  using candidates_complete [OF sample_record_ok]
  by (simp add: getAllSessions_def sample_record_eval create_def)

text \<open>
  Archiving the current session and promoting its base key again restores it, less its pending
  prekey state, when the archive has room and held no session under this key; the archive is as
  it was before.
\<close>

theorem archive_promote_roundtrip:
  assumes "archive_ok m r" and "currentSession r = Some s"
    and "map_of (archivedSessions r) (baseKey s) = None" and "getArchivedCount r < m"
  shows "promoteSession (archiveCurrent r None m) (baseKey s) =
    Some (r\<lparr>currentSession := Some (withoutPendingPreKey s)\<rparr>)"
proof -
  have a: "baseKey s \<notin> fst ` set (archivedSessions r)" using assms(3) by (simp add: map_of_eq_None_iff)
  then have f: "filter (\<lambda>(k', _). baseKey s \<noteq> k') (archivedSessions r) = archivedSessions r"
    by (intro filter_True) force
  have w: "with_current r = archivedSessions r @ [(baseKey s, withoutPendingPreKey s)]"
    using assms(2) f by (simp add: with_current_def put_archived_eq AList.delete_eq)
  have "distinct (map fst (archivedSessions r))" using assms(1) by (simp add: archive_ok_def)
  from archiveCurrent_drop [OF this, of None m]
  have "archiveCurrent r None m = r\<lparr>currentSession := None,
      archivedSessions := archivedSessions r @ [(baseKey s, withoutPendingPreKey s)]\<rparr>"
    using assms(4) w by (simp add: archiveCurrent_eq getArchivedCount_def)
  then show ?thesis
    using assms(3) f by (simp add: promoteSession_eq with_current_def map_add_def AList.delete_eq)
qed

theorem archive_promote_roundtrip_witness:
  "promoteSession (archiveCurrent sample_record None 40) ''BB'' =
     Some (sample_record\<lparr>currentSession := Some (withoutPendingPreKey (sample_session ''BB''))\<rparr>)"
proof -
  have "currentSession sample_record = Some (sample_session ''BB'')"
    "map_of (archivedSessions sample_record) (baseKey (sample_session ''BB'')) = None" "getArchivedCount sample_record < 40"
    by (simp_all add: sample_record_eval create_def getArchivedCount_def)
  from archive_promote_roundtrip [OF sample_record_ok this] show ?thesis by simp
qed

text \<open>
  C39. The validator of stored records accepts what the operations build from accepted records:
  archiving with an accepted new session and promotion keep a record acceptable.
\<close>

theorem record_validation_preserved:
  assumes "assertCurrentSessionRecord r = Inr ()"
  shows "(\<forall>s. assertSessionStateIdentityProfile s = Inr () \<longrightarrow>
       assertCurrentSessionRecord (archiveCurrent r (Some s) m) = Inr ()) \<and>
    assertCurrentSessionRecord (archiveCurrentState r) = Inr () \<and>
    (\<forall>k r'. promoteSession r k = Some r' \<longrightarrow> assertCurrentSessionRecord r' = Inr ())"
proof (intro conjI allI impI)
  have v: "sr_version r = CURRENT_SESSION_RECORD_VERSION"
    "\<forall>(k, s) \<in> set (archivedSessions r). profile_ok s \<and> baseKey s = k"
    using assms unfolding assert_record_iff by simp_all
  note w = with_current_accepted [OF assms]
  show "assertCurrentSessionRecord (archiveCurrent r (Some s) m) = Inr ()"
    if "assertSessionStateIdentityProfile s = Inr ()" for s
    using that v w unfolding assert_record_iff assert_profile_iff
    by (auto simp: archiveCurrent_eq dest!: fold_delete_in)
  show "assertCurrentSessionRecord (archiveCurrentState r) = Inr ()"
    using v w unfolding assert_record_iff archiveCurrentState_def
    by (auto simp: archiveCurrent_eq dest!: fold_delete_in)
  show "assertCurrentSessionRecord r' = Inr ()" if "promoteSession r k = Some r'" for k r'
    using that v w unfolding assert_record_iff
    by (auto simp: promoteSession_eq AList.delete_eq dest!: map_of_SomeD)
qed

lemma sample_keys_identity: "createCompositeIdentityV1 sample_keys = Inr (sample_identity 1)"
  using encode_valid [OF sample_identity_valid [of 1]]
  by (simp add: createCompositeIdentityV1_def sample_keys_def sample_identity_def identity_of_def)

lemma sample_session_profile: "k \<noteq> [] \<Longrightarrow> profile_ok (sample_session k)"
  using sample_keys_identity
  by (simp add: profile_ok_def sample_session_def DoubleRatchetState.defs SessionState.defs)

theorem record_validation_preserved_witness:
  "assertCurrentSessionRecord (archiveCurrentState (create (sample_session ''AA''))) = Inr ()"
proof -
  have "assertCurrentSessionRecord (create (sample_session ''AA'')) = Inr ()"
    unfolding assert_record_iff by (simp add: create_def sample_session_profile)
  from record_validation_preserved [OF this] show ?thesis by blast
qed

end
