(* ===== verification/Session_Ratchet.thy ===== *)
theory Session_Ratchet
  imports Session_Record
begin

text \<open>
  Checks and ratchet steps on a session: internal/session/validation.ts (key ownership, integrity,
  self sessions) and internal/session/ratchet.ts (the Double Ratchet functions as the session layer
  calls them, with their checks before and after).

  \<open>DHs != null\<close> is \<open>DHs \<noteq> None\<close>; \<open>!session.CKs\<close> of a text is \<open>falsy\<close>: absent or empty. The log output is
  left out. The module's \<open>performDHRatchetStep\<close> is the one of Double_Ratchet; the wrapper here has the
  prefix \<open>session\<close>.

  Shown here: which sessions the checks accept; a ratchet step of an accepted session leaves one that
  can send; the limit on skipped messages is reported as such; the cleanup leaves no expired entry.
\<close>

section \<open>Definitions\<close>

subsection \<open>Validation\<close>

definition validateSessionKeyOwnership :: "'q SessionState \<Rightarrow> Base64 option \<Rightarrow> unit result" where
  "validateSessionKeyOwnership session mySignedPreKeyPublic =
     (if falsy mySignedPreKeyPublic then Inr ()
      else if isInitiator session \<noteq> Some True then
        throw_if (DHr session \<noteq> None \<and> DHr session = mySignedPreKeyPublic) (EncryptionError SESSION_CORRUPTED)
      else
        throw_if (map_option publicKey (DHs session) = mySignedPreKeyPublic) (EncryptionError SESSION_CORRUPTED))"

text \<open>The checks that \<open>receiverChains\<close> is an array hold by typing.\<close>

definition validateSessionStateIntegrity :: "'q SessionState \<Rightarrow> unit result" where
  "validateSessionStateIntegrity session =
     (case and_then (encodeCompositeIdentityV1 (localIdentity session)) (\<lambda>_.
           and_then (encodeCompositeIdentityV1 (remoteIdentity session)) (\<lambda>_.
           and_then (createCompositeIdentityV1 (identityKeyPair session)) (\<lambda>identityFromPrivateState.
           and_then (compositeIdentitiesEqual identityFromPrivateState (localIdentity session)) (\<lambda>equal.
           throw_if (\<not> equal) (PlainError ''cached local identity does not match the session identity keypair''))))) of
        Inl _ \<Rightarrow> Inl (EncryptionError SESSION_CORRUPTED)
      | Inr _ \<Rightarrow> throw_if (DHr session = Some []) (EncryptionError SESSION_CORRUPTED))"

definition isSelfSession :: "'q SessionState \<Rightarrow> bool result" where
  "isSelfSession session = compositeIdentitiesEqual (localIdentity session) (remoteIdentity session)"

definition getMaxSkipForSession :: "'q SessionState \<Rightarrow> nat \<Rightarrow> nat result" where
  "getMaxSkipForSession session defaultMaxSkip =
     and_then (isSelfSession session) (\<lambda>self. Inr (if self then 100000 else defaultMaxSkip))"

subsection \<open>Ratchet steps\<close>

definition isValidatedSession :: "'q SessionState \<Rightarrow> bool" where
  "isValidatedSession session = (DHs session \<noteq> None \<and> DHr session \<noteq> None)"

definition assertValidatedSession :: "'q SessionState \<Rightarrow> unit result" where
  "assertValidatedSession session =
     (if DHs session = None then Inl (EncryptionError SESSION_CORRUPTED)
      else if falsy (DHr session) then Inl (EncryptionError SESSION_CORRUPTED)
      else throw_if (falsy (CKs session)) (EncryptionError SESSION_CORRUPTED))"

definition session_performDHRatchetStep ::
    "hmac_fun \<Rightarrow> dh_fun \<Rightarrow> RatchetKeyPair \<Rightarrow> 'q SessionState \<Rightarrow> Base64 \<Rightarrow> 'q SessionState result" where
  "session_performDHRatchetStep hmac computeSharedSecret fresh session receivedDHPublicKey =
     (if DHs session = None then Inl (EncryptionError SESSION_CORRUPTED)
      else and_then (performDHRatchetStep hmac computeSharedSecret fresh session receivedDHPublicKey) (\<lambda>session.
           if falsy (DHr session) \<or> falsy (CKs session) \<or> falsy (CKr session)
           then Inl (EncryptionError SESSION_CORRUPTED) else Inr session))"

definition storeSkippedMessageKeys ::
    "hmac_fun \<Rightarrow> 'q SessionState \<Rightarrow> nat \<Rightarrow> DoubleRatchetConfig \<Rightarrow> int \<Rightarrow> 'q SessionState result" where
  "storeSkippedMessageKeys hmac session untilCounter config now =
     and_then (assertValidatedSession session) (\<lambda>_.
     case storeSkippedKeys hmac session untilCounter config now of
       Inl e \<Rightarrow> Inl (if e = PlainError ''Too many skipped messages''
                     then EncryptionError TOO_MANY_SKIPPED_MESSAGES else e)
     | Inr session \<Rightarrow> Inr session)"

definition cleanupExpiredProcessedChains :: "'q SessionState \<Rightarrow> int \<Rightarrow> 'q SessionState" where
  "cleanupExpiredProcessedChains session now =
     (let maxAge = 7 * 24 * 60 * 60 * 1000 in
      session\<lparr>processedChains := map_option (filter (\<lambda>(key, info). \<not> now - pc_timestamp info > maxAge))
        (processedChains session)\<rparr>)"

definition cleanupExpiredMessageKeys :: "'q SessionState \<Rightarrow> DoubleRatchetConfig \<Rightarrow> int \<Rightarrow> 'q SessionState" where
  "cleanupExpiredMessageKeys session config now =
     (if \<not> isValidatedSession session then session
      else cleanupExpiredProcessedChains (cleanupExpiredKeys session config now) now)"

section \<open>What the checks accept\<close>

lemma falsy_iff: "\<not> falsy x \<longleftrightarrow> (\<exists>b. x = Some b \<and> b \<noteq> [])"
  by (cases x) (auto simp: falsy_def)

definition sendable :: "'q SessionState \<Rightarrow> bool" where
  "sendable session = (DHs session \<noteq> None \<and> \<not> falsy (DHr session) \<and> \<not> falsy (CKs session))"

lemma assertValidatedSession_iff: "assertValidatedSession session = Inr u \<longleftrightarrow> sendable session"
  by (simp add: assertValidatedSession_def sendable_def)

text \<open>Both identities are canonical, the local one is that of the key pair, and the ratchet key is not empty.\<close>

definition intact :: "'q SessionState \<Rightarrow> bool" where
  "intact session =
     (valid_identity (localIdentity session) \<and> valid_identity (remoteIdentity session) \<and>
      createCompositeIdentityV1 (identityKeyPair session) = Inr (localIdentity session) \<and> DHr session \<noteq> Some [])"

lemma integrity_iff: "validateSessionStateIntegrity session = Inr u \<longleftrightarrow> intact session"
proof -
  let ?r = "and_then (encodeCompositeIdentityV1 (localIdentity session)) (\<lambda>_.
    and_then (encodeCompositeIdentityV1 (remoteIdentity session)) (\<lambda>_.
    and_then (createCompositeIdentityV1 (identityKeyPair session)) (\<lambda>i.
    and_then (compositeIdentitiesEqual i (localIdentity session)) (\<lambda>e.
    throw_if (\<not> e) (PlainError ''cached local identity does not match the session identity keypair'')))))"
  have "?r = Inr v \<longleftrightarrow> valid_identity (localIdentity session) \<and> valid_identity (remoteIdentity session) \<and>
      createCompositeIdentityV1 (identityKeyPair session) = Inr (localIdentity session)" for v
    by (auto simp: and_then_eq_Inr encode_eq_Inr compositeIdentitiesEqual_iff)
  then show ?thesis
    by (cases ?r) (auto simp: validateSessionStateIntegrity_def intact_def)
qed

lemma ownership_iff:
  "validateSessionKeyOwnership session (Some key) = Inr u \<longleftrightarrow>
     key = [] \<or> (if isInitiator session = Some True then map_option publicKey (DHs session) \<noteq> Some key
                 else DHr session \<noteq> Some key)"
  by (auto simp: validateSessionKeyOwnership_def falsy_def)

lemma getMaxSkip_valid [simp]:
  "intact session \<Longrightarrow> getMaxSkipForSession session n =
     Inr (if localIdentity session = remoteIdentity session then 100000 else n)"
  by (simp add: intact_def getMaxSkipForSession_def isSelfSession_def)

section \<open>The steps\<close>

text \<open>What a ratchet step changes of a session: the result can send, and its counters start again.\<close>

lemma session_step_Inr:
  assumes "session_performDHRatchetStep hmac dh fresh session key = Inr session'"
  shows "\<exists>rk ckr cks. session' = session\<lparr>PN := Ns session, Ns := 0, Nr := 0, DHr := Some key, CKr := Some ckr,
      DHs := Some fresh, RK := rk, CKs := Some cks\<rparr> \<and> sendable session' \<and> valid_ratchet_key key"
proof -
  from assms have step: "performDHRatchetStep hmac dh fresh session key = Inr session'"
    and d: "\<not> falsy (DHr session')" "\<not> falsy (CKs session')"
    by (auto simp: session_performDHRatchetStep_def and_then_eq_Inr split: if_splits)
  from step obtain rk ckr cks where "session' = session\<lparr>PN := Ns session, Ns := 0, Nr := 0, DHr := Some key, CKr := Some ckr,
      DHs := Some fresh, RK := rk, CKs := Some cks\<rparr>" and "validateDHPublicKey key = Inr ()"
    by (auto simp: performDHRatchetStep_def Let_def and_then_eq_Inr split: prod.splits)
  moreover from this(2) have "valid_ratchet_key key"
    by (auto simp: validateDHPublicKey_def valid_ratchet_key_def and_then_eq_Inr X25519_KEY_BYTES_def)
  ultimately show ?thesis using d by (auto simp: sendable_def)
qed

lemma storeSkippedMessageKeys_eq:
  assumes "sendable session"
  shows "storeSkippedMessageKeys hmac session u config now =
    (if u < Nr session then Inl (EncryptionError MESSAGE_DUPLICATE)
     else if Nr session + maxSkippedMessages config < u then Inl (EncryptionError TOO_MANY_SKIPPED_MESSAGES)
     else case storeSkippedKeys hmac session u config now of
            Inl e \<Rightarrow> Inl (if e = PlainError ''Too many skipped messages'' then EncryptionError TOO_MANY_SKIPPED_MESSAGES else e)
          | Inr s \<Rightarrow> Inr s)"
  using assms assertValidatedSession_iff [of session "()"]
  by (simp add: storeSkippedMessageKeys_def storeSkippedKeys_def)

lemma storeSkippedMessageKeys_Inr:
  assumes "storeSkippedMessageKeys hmac session u config now = Inr session'"
  shows "\<exists>ck key. CKr session = Some ck \<and> DHr session = Some key \<and> Nr session \<le> u \<and> u \<le> Nr session + maxSkippedMessages config \<and>
    (\<exists>bs. base64ToBytes ck = Inr bs \<and> session' = session\<lparr>receiverChains := put_range hmac (maxMessageKeysStored config) now key
       (Nr session) (u - Nr session) bs (receiverChains session),
       CKr := Some (bytesToBase64 (chain_key hmac bs (u - Nr session))), Nr := u\<rparr>)"
proof -
  from assms have "storeSkippedKeys hmac session u config now = Inr session'"
    by (auto simp: storeSkippedMessageKeys_def and_then_eq_Inr split: sum.splits)
  then show ?thesis
    by (auto simp: storeSkippedKeys_eq and_then_eq_Inr required_def split: if_splits option.splits)
qed

section \<open>Cleanup\<close>

lemma cleanup_shape:
  "\<exists>cs pc. cleanupExpiredMessageKeys session config now = session\<lparr>receiverChains := cs, processedChains := pc\<rparr>"
proof -
  have "\<exists>cs pc. cleanupExpiredProcessedChains (cleanupExpiredKeys session config now) now =
      session\<lparr>receiverChains := cs, processedChains := pc\<rparr>"
    by (auto simp: cleanupExpiredProcessedChains_def cleanupExpiredKeys_def Let_def)
  moreover have "session = session\<lparr>receiverChains := receiverChains session, processedChains := processedChains session\<rparr>"
    by simp
  ultimately show ?thesis unfolding cleanupExpiredMessageKeys_def by (metis (no_types))
qed

lemma cleanup_ok:
  "ratchet_ok cap session \<Longrightarrow> ratchet_ok cap (cleanupExpiredMessageKeys session config now)"
  using cleanupExpiredKeys_ok [of cap session config now]
  by (auto simp: cleanupExpiredMessageKeys_def cleanupExpiredProcessedChains_def ratchet_ok_def)

text \<open>A key that is not stored is not stored after the cleanup, and every entry left is young enough.\<close>

lemma cleanup_keys:
  assumes "ratchet_ok cap session"
  shows "set (keys_of key (receiverChains (cleanupExpiredMessageKeys session config now))) \<subseteq> set (keys_of key (receiverChains session))"
  using keys_of_cleanup [OF assms, of key config now]
  by (auto simp: cleanupExpiredMessageKeys_def cleanupExpiredProcessedChains_def Let_def)

lemma cleanup_chains_young:
  assumes "isValidatedSession session"
    and "processedChains (cleanupExpiredMessageKeys session config now) = Some pc" and "(key, info) \<in> set pc"
  shows "now - pc_timestamp info \<le> 7 * 24 * 60 * 60 * 1000"
  using assms by (auto simp: cleanupExpiredMessageKeys_def cleanupExpiredProcessedChains_def Let_def)

section \<open>Properties\<close>

text \<open>
  The skip limit: on a session that passes the checks, a message number below the next one is a
  duplicate, one further ahead than the limit is refused as too many skipped messages, and every other
  one succeeds when the receiving chain key is the text of bytes; then the session stands at this
  number and is otherwise as it was, but for its chain key and its stored keys.
\<close>

theorem skip_limit_reported:
  assumes "assertValidatedSession session = Inr ()" and "CKr session = Some (bytesToBase64 ck)"
  shows "case storeSkippedMessageKeys hmac session u config now of
      Inl e \<Rightarrow> e = EncryptionError (if u < Nr session then MESSAGE_DUPLICATE else TOO_MANY_SKIPPED_MESSAGES) \<and>
               (u < Nr session \<or> Nr session + maxSkippedMessages config < u)
    | Inr session' \<Rightarrow> Nr session \<le> u \<and> u \<le> Nr session + maxSkippedMessages config \<and> Nr session' = u \<and>
        session'\<lparr>receiverChains := receiverChains session, CKr := CKr session, Nr := Nr session\<rparr> = session"
  using assms
  by (auto simp: assertValidatedSession_iff storeSkippedMessageKeys_eq storeSkippedKeys_eq required_def sendable_def falsy_def
      split: sum.splits)

theorem skip_limit_reported_witness:
  "\<exists>session'. storeSkippedMessageKeys sample_hmac
      (sample_session ''k''\<lparr>DHs := Some \<lparr>publicKey = ''a'', privateKey = ''b''\<rparr>, DHr := Some ''c'', CKs := Some ''d'',
         CKr := Some (bytesToBase64 []), Nr := 3\<rparr>) 4 DEFAULT_RATCHET_CONFIG 0 = Inr session' \<and> Nr session' = 4"
  using skip_limit_reported [where session = "sample_session ''k''\<lparr>DHs := Some \<lparr>publicKey = ''a'', privateKey = ''b''\<rparr>,
      DHr := Some ''c'', CKs := Some ''d'', CKr := Some (bytesToBase64 []), Nr := 3\<rparr>"
    and ck = "[]" and u = 4 and hmac = sample_hmac and config = DEFAULT_RATCHET_CONFIG and now = 0]
  by (auto simp: assertValidatedSession_iff sendable_def falsy_def DEFAULT_RATCHET_CONFIG_def split: sum.splits)

end
