(* ===== verification/Receive_Work.thy ===== *)
theory Receive_Work
  imports Identity "HOL-Library.List_Lexorder" "HOL-Library.Product_Lexorder"
begin

text \<open>
  The receive records of local/store/receive-work.ts: the record of a decrypted message that the
  device has not finished, its validation, and the ordered, filtered and paged listing.

  Strings are lists of UTF-16 code units; \<open>compareStrings\<close> is the order of JavaScript on them, which
  is the lexicographic order of the code units. The shape checks of \<open>assertReceiveWork\<close> that test for
  a type hold by typing; the checks on values are written out.

  Shown here: a listing is sorted by arrival and identifier; walking the pages with the cursor of
  the last record visits every matching record once and in order, whatever the page sizes.
\<close>

section \<open>Definitions\<close>

datatype ReceiveWorkStage = Decrypted | ReceiptDue | AwaitingCompletion

datatype ReceiveWorkOrigin = Relay | Caller

datatype ReceiveMessageType = PrekeyBundle | CiphertextMessage | SenderKeyMessage

record AckIntent =
  ai_at :: int
  ai_hasReceiptJoin :: bool

text \<open>The key of a received message; the two further fields of the older shape come together.\<close>

record ReceivedMessageKey =
  rk_senderUserId :: js_string
  rk_timestamp :: int
  rk_legacy :: "(int \<times> js_string) option"

record ReceiveWorkRecord =
  workId :: js_string
  rw_revision :: int
  rw_stage :: ReceiveWorkStage
  rw_origin :: ReceiveWorkOrigin
  arrivalSeq :: int
  receivedAt :: int
  dueAt :: int
  sizeBytes :: int
  rw_plaintext :: "js_string option"
  rw_messageId :: js_string
  rw_envelopeId :: "js_string option"
  rw_senderUserId :: js_string
  rw_senderDeviceId :: int
  rw_messageType :: "ReceiveMessageType option"
  serverTimestamp :: "int option"
  arrivedSealed :: "bool option"
  senderTimestamp :: "int option"
  rw_groupId :: "js_string option"
  blockedOnGroupUpdate :: bool
  ackIntent :: "AckIntent option"
  relayOwnsReceipt :: "bool option"
  hookAttempts :: "int option"
  failedEnvelopeId :: "js_string option"
  received :: "ReceivedMessageKey option"

definition isOptional :: "('a \<Rightarrow> bool) \<Rightarrow> 'a option \<Rightarrow> bool" where
  "isOptional check value = (case value of None \<Rightarrow> True | Some v \<Rightarrow> check v)"

definition isNonEmptyString :: "js_string \<Rightarrow> bool" where
  "isNonEmptyString value = (value \<noteq> [])"

definition isSafeInteger :: "int \<Rightarrow> bool" where
  "isSafeInteger value = (- MAX_SAFE_INTEGER \<le> value \<and> value \<le> MAX_SAFE_INTEGER)"

definition isReceivedKey :: "ReceivedMessageKey \<Rightarrow> bool" where
  "isReceivedKey key = (isNonEmptyString (rk_senderUserId key) \<and>
     isOptional (\<lambda>(senderDeviceId, contentDigest). isSafeInteger senderDeviceId) (rk_legacy key))"

definition assertReceiveWork :: "ReceiveWorkRecord \<Rightarrow> js_string \<Rightarrow> unit result" where
  "assertReceiveWork candidate expectedWorkId =
     throw_if
       (\<not> isNonEmptyString (workId candidate) \<or>
        workId candidate \<noteq> expectedWorkId \<or>
        \<not> isSafeInteger (rw_revision candidate) \<or>
        rw_revision candidate < 0 \<or>
        \<not> isSafeInteger (arrivalSeq candidate) \<or>
        \<not> isSafeInteger (receivedAt candidate) \<or>
        \<not> isSafeInteger (dueAt candidate) \<or>
        \<not> isSafeInteger (sizeBytes candidate) \<or>
        \<not> isNonEmptyString (rw_messageId candidate) \<or>
        \<not> isNonEmptyString (rw_senderUserId candidate) \<or>
        \<not> isSafeInteger (rw_senderDeviceId candidate) \<or>
        \<not> isOptional isSafeInteger (serverTimestamp candidate) \<or>
        \<not> isOptional isSafeInteger (senderTimestamp candidate) \<or>
        \<not> isOptional isNonEmptyString (rw_groupId candidate) \<or>
        \<not> isOptional (\<lambda>a. isSafeInteger (ai_at a)) (ackIntent candidate) \<or>
        \<not> isOptional (\<lambda>v. isSafeInteger v \<and> v > 0) (hookAttempts candidate) \<or>
        \<not> isOptional isNonEmptyString (failedEnvelopeId candidate) \<or>
        \<not> isOptional isReceivedKey (received candidate))
       (PlainError ''Invalid receive-work record'')"

record ReceiveWorkQuery =
  q_stage :: "ReceiveWorkStage option"
  q_dueBy :: "int option"
  q_after :: "(int \<times> js_string) option"
  q_limit :: "int option"

definition RECEIVE_WORK_DEFAULT_LIMIT :: int where "RECEIVE_WORK_DEFAULT_LIMIT = 100"

definition compareStrings :: "js_string \<Rightarrow> js_string \<Rightarrow> int" where
  "compareStrings a b = (if a < b then -1 else if a > b then 1 else 0)"

definition isAfterReceiveWorkCursor :: "int \<Rightarrow> js_string \<Rightarrow> (int \<times> js_string) option \<Rightarrow> bool" where
  "isAfterReceiveWorkCursor seq wid after =
     (case after of None \<Rightarrow> True
      | Some (afterSeq, afterId) \<Rightarrow> seq > afterSeq \<or> (seq = afterSeq \<and> compareStrings wid afterId > 0))"

definition matchesReceiveWorkQuery :: "ReceiveWorkQuery \<Rightarrow> ReceiveWorkRecord \<Rightarrow> bool" where
  "matchesReceiveWorkQuery query record =
     ((q_stage query = None \<or> q_stage query = Some (rw_stage record)) \<and>
      (case q_dueBy query of None \<Rightarrow> True | Some t \<Rightarrow> dueAt record \<le> t) \<and>
      isAfterReceiveWorkCursor (arrivalSeq record) (workId record) (q_after query))"

definition receiveWorkLimit :: "ReceiveWorkQuery \<Rightarrow> nat result" where
  "receiveWorkLimit query =
     (let limit = (case q_limit query of None \<Rightarrow> RECEIVE_WORK_DEFAULT_LIMIT | Some l \<Rightarrow> l) in
      if \<not> isSafeInteger limit \<or> limit < 1 then Inl (PlainError ''limit must be a positive integer'')
      else Inr (nat limit))"

text \<open>
  The comparator of \<open>sort\<close> compares the arrival number and, when it is equal, the identifier; \<open>sort\<close> is
  stable, as \<open>sort_key\<close> is.
\<close>

definition selectReceiveWork :: "ReceiveWorkQuery \<Rightarrow> ReceiveWorkRecord list \<Rightarrow> ReceiveWorkRecord list result" where
  "selectReceiveWork query records =
     and_then (receiveWorkLimit query) (\<lambda>limit.
     Inr (take limit (sort_key (\<lambda>r. (arrivalSeq r, workId r)) (filter (matchesReceiveWorkQuery query) records))))"

definition isBlockedInGroup :: "ReceiveWorkRecord \<Rightarrow> js_string \<Rightarrow> bool" where
  "isBlockedInGroup record groupId = (blockedOnGroupUpdate record \<and> rw_groupId record = Some groupId)"

section \<open>Order of a listing\<close>

definition position :: "ReceiveWorkRecord \<Rightarrow> int \<times> js_string" where
  "position r = (arrivalSeq r, workId r)"

lemma position_sort: "(\<lambda>r. (arrivalSeq r, workId r)) = position"
  by (simp add: position_def fun_eq_iff)

lemma after_iff: "isAfterReceiveWorkCursor (arrivalSeq r) (workId r) (Some c) \<longleftrightarrow> c < position r"
  by (cases c) (auto simp: isAfterReceiveWorkCursor_def compareStrings_def position_def less_prod_def')

text \<open>The listing without its page limit.\<close>

definition matching :: "ReceiveWorkQuery \<Rightarrow> ReceiveWorkRecord list \<Rightarrow> ReceiveWorkRecord list" where
  "matching q rs = sort_key position (filter (matchesReceiveWorkQuery q) rs)"

lemma select_matching:
  "selectReceiveWork q rs = and_then (receiveWorkLimit q) (\<lambda>n. Inr (take n (matching q rs)))"
  by (simp add: selectReceiveWork_def matching_def position_sort)

lemma sorted_matching: "sorted (map position (matching q rs))"
  by (simp add: matching_def)

lemma set_matching: "set (matching q rs) = {r \<in> set rs. matchesReceiveWorkQuery q r}"
  by (auto simp: matching_def)

lemma sort_key_filter: "filter P (sort_key f xs) = sort_key f (filter P xs)"
  by (simp add: filter_sort)

text \<open>In a strictly increasing list the elements after a position are the rest of the list.\<close>

lemma filter_after_drop:
  fixes f :: "'a \<Rightarrow> 'b :: linorder"
  assumes "sorted_wrt (<) (map f xs)" and "n < length xs"
  shows "filter (\<lambda>x. f (xs ! n) < f x) xs = drop (Suc n) xs"
  using assms
proof (induction xs arbitrary: n)
  case (Cons x xs)
  show ?case
  proof (cases n)
    case 0
    then show ?thesis using Cons.prems(1) by (auto intro!: filter_True)
  next
    case (Suc m)
    then have "\<not> f (xs ! m) < f x" using Cons.prems by (auto dest!: bspec [where x = "xs ! m"])
    then show ?thesis using Suc Cons by simp
  qed
qed simp

lemma strict_matching:
  assumes "distinct (map position rs)"
  shows "sorted_wrt (<) (map position (matching q rs))"
proof -
  have "distinct (map position (filter (matchesReceiveWorkQuery q) rs))"
    using assms by (simp add: distinct_map_filter)
  then have "distinct (map position (matching q rs))"
    unfolding matching_def by (simp add: distinct_map distinct_sort)
  then show ?thesis using sorted_matching by (simp add: strict_sorted_iff)
qed

lemma matches_after:
  assumes "q_after q = None"
  shows "matchesReceiveWorkQuery (q\<lparr>q_after := Some c, q_limit := l\<rparr>) r \<longleftrightarrow>
    matchesReceiveWorkQuery q r \<and> c < position r"
  using assms after_iff [of r c] by (auto simp: matchesReceiveWorkQuery_def isAfterReceiveWorkCursor_def)

lemma matching_after:
  assumes "distinct (map position rs)" and "q_after q = None" and "n < length (matching q rs)"
  shows "matching (q\<lparr>q_after := Some (position (matching q rs ! n)), q_limit := l\<rparr>) rs =
    drop (Suc n) (matching q rs)"
proof -
  let ?c = "position (matching q rs ! n)"
  have m: "matchesReceiveWorkQuery (q\<lparr>q_after := Some ?c, q_limit := l\<rparr>) =
      (\<lambda>r. matchesReceiveWorkQuery q r \<and> ?c < position r)"
    by (rule ext) (rule matches_after [OF assms(2)])
  have "matching (q\<lparr>q_after := Some ?c, q_limit := l\<rparr>) rs =
      sort_key position (filter (\<lambda>r. ?c < position r) (filter (matchesReceiveWorkQuery q) rs))"
    unfolding matching_def [of "q\<lparr>q_after := _, q_limit := _\<rparr>"] m by (simp add: conj_commute)
  also have "\<dots> = filter (\<lambda>r. ?c < position r) (matching q rs)"
    by (simp add: matching_def sort_key_filter)
  also have "\<dots> = drop (Suc n) (matching q rs)"
    by (rule filter_after_drop [OF strict_matching [OF assms(1)] assms(3)])
  finally show ?thesis .
qed

section \<open>Properties\<close>

text \<open>
  Paging: when the first page of a query has a last record, the query with that record's position
  as its cursor returns the records that follow it in the listing, up to its own limit. Walking the
  pages therefore visits every matching record once and in order, whatever the limits.
\<close>

theorem receive_work_pages:
  assumes "distinct (map workId rs)" and "q_after q = None"
    and "selectReceiveWork q rs = Inr page" and "page \<noteq> []"
    and "receiveWorkLimit (q\<lparr>q_limit := l\<rparr>) = Inr m"
  shows "selectReceiveWork (q\<lparr>q_after := Some (arrivalSeq (last page), workId (last page)), q_limit := l\<rparr>) rs =
    Inr (take m (drop (length page) (matching q rs)))"
proof -
  obtain n where n: "page = take n (matching q rs)"
    using assms(3) by (auto simp: select_matching and_then_eq_Inr)
  have k: "length page - 1 < length (matching q rs)" "last page = matching q rs ! (length page - 1)"
    using assms(4) by (cases n; auto simp: n last_conv_nth min_def)+
  have "inj_on position (set rs)"
    using assms(1) by (auto simp: distinct_map position_def inj_on_def)
  then have d: "distinct (map position rs)" using assms(1) by (simp add: distinct_map)
  have "receiveWorkLimit (q\<lparr>q_after := c, q_limit := l\<rparr>) = Inr m" for c
    using assms(5) by (simp add: receiveWorkLimit_def)
  then show ?thesis
    using matching_after [OF d assms(2) k(1), of l] assms(4)
    by (simp add: select_matching k(2) position_def)
qed

definition sample_work :: "int \<Rightarrow> ReceiveWorkRecord" where
  "sample_work n = \<lparr>workId = [of_int n], rw_revision = 0, rw_stage = Decrypted, rw_origin = Relay,
     arrivalSeq = 10 - n, receivedAt = 0, dueAt = 0, sizeBytes = 0, rw_plaintext = None, rw_messageId = [1],
     rw_envelopeId = None, rw_senderUserId = [1], rw_senderDeviceId = 1, rw_messageType = None,
     serverTimestamp = None, arrivedSealed = None, senderTimestamp = None, rw_groupId = None,
     blockedOnGroupUpdate = False, ackIntent = None, relayOwnsReceipt = None, hookAttempts = None,
     failedEnvelopeId = None, received = None\<rparr>"

definition sample_query :: ReceiveWorkQuery where
  "sample_query = \<lparr>q_stage = None, q_dueBy = None, q_after = None, q_limit = Some 1\<rparr>"

theorem receive_work_pages_witness:
  "selectReceiveWork (sample_query\<lparr>q_after := Some (8, [2])\<rparr>) [sample_work 1, sample_work 2] = Inr [sample_work 1]"
proof -
  have m: "matching sample_query [sample_work 1, sample_work 2] = [sample_work 2, sample_work 1]"
    by (simp add: matching_def matchesReceiveWorkQuery_def sample_query_def sample_work_def
        isAfterReceiveWorkCursor_def position_def)
  have l: "receiveWorkLimit sample_query = Inr 1" "receiveWorkLimit (sample_query\<lparr>q_limit := Some 1\<rparr>) = Inr 1"
    by (simp_all add: receiveWorkLimit_def sample_query_def isSafeInteger_def MAX_SAFE_INTEGER_def)
  have "selectReceiveWork sample_query [sample_work 1, sample_work 2] = Inr [sample_work 2]"
    by (simp add: select_matching m l)
  from receive_work_pages [OF _ _ this _ l(2)] show ?thesis
    by (simp add: m) (simp add: sample_work_def sample_query_def)
qed

end
