(* ===== verification/Store_Action.thy ===== *)
theory Store_Action
  imports Prelude "HOL-Library.AList"
begin

text \<open>
  Actions on a store, and the failure controller of local/store/memory/failures.ts.

  An asynchronous method of a store that may throw is an action: a function from the state to a
  result and the next state. A thrown error keeps what was written before it, as it does in the
  source; \<open>bnd\<close> is the sequencing. The methods run one at a time, under the lock of their record.

  Shown here: what an action keeps of a view of the state is kept by every composition of actions.
\<close>

section \<open>Definitions\<close>

subsection \<open>Actions\<close>

type_synonym ('s, 'a) action = "'s \<Rightarrow> 'a result \<times> 's"

definition ret :: "'a \<Rightarrow> ('s, 'a) action" where
  "ret a = (\<lambda>s. (Inr a, s))"

definition throw :: "js_error \<Rightarrow> ('s, 'a) action" where
  "throw e = (\<lambda>s. (Inl e, s))"

definition bnd :: "('s, 'a) action \<Rightarrow> ('a \<Rightarrow> ('s, 'b) action) \<Rightarrow> ('s, 'b) action" where
  "bnd m f = (\<lambda>s. case m s of (Inl e, s') \<Rightarrow> (Inl e, s') | (Inr a, s') \<Rightarrow> f a s')"

text \<open>A computation that may throw and does not touch the store.\<close>

definition of_result :: "'a result \<Rightarrow> ('s, 'a) action" where
  "of_result r = (\<lambda>s. (r, s))"

definition read_store :: "('s \<Rightarrow> 'a) \<Rightarrow> ('s, 'a) action" where
  "read_store f = (\<lambda>s. (Inr (f s), s))"

definition write_store :: "('s \<Rightarrow> 's) \<Rightarrow> ('s, unit) action" where
  "write_store f = (\<lambda>s. (Inr (), f s))"

text \<open>\<open>try m catch (e) h\<close>: the handler runs on the state in which the error was thrown.\<close>

definition catch :: "('s, 'a) action \<Rightarrow> (js_error \<Rightarrow> ('s, 'a) action) \<Rightarrow> ('s, 'a) action" where
  "catch m h = (\<lambda>s. case m s of (Inl e, s') \<Rightarrow> h e s' | (Inr a, s') \<Rightarrow> (Inr a, s'))"

subsection \<open>The failure controller\<close>

record StoreFailureController =
  fc_seed :: int
  fc_writeFailureEvery :: "int option"
  fc_writeOrdinal :: nat
  fc_scheduled :: "(string \<times> nat) list"

text \<open>\<open>InjectedStorageWriteError\<close>\<close>

definition injected :: js_error where "injected = PlainError ''InjectedStorageWriteError''"

definition validate_failures :: "int \<Rightarrow> int option \<Rightarrow> unit result" where
  "validate_failures seed every =
     (if seed < 0 then Inl (PlainError ''seed must be a non-negative integer'')
      else throw_if (case every of None \<Rightarrow> False | Some n \<Rightarrow> n < 1)
             (PlainError ''writeFailureEvery must be a positive integer''))"

text \<open>
  The arguments are the options of the constructor: \<open>None\<close> for an absent one. In \<open>configure\<close> the outer
  option of the cadence is whether the property is present.
\<close>

definition new_failures :: "int option \<Rightarrow> int option \<Rightarrow> StoreFailureController result" where
  "new_failures seed every =
     (let c = \<lparr>fc_seed = (case seed of None \<Rightarrow> 0 | Some n \<Rightarrow> n), fc_writeFailureEvery = every,
               fc_writeOrdinal = 0, fc_scheduled = []\<rparr>
      in and_then (validate_failures (fc_seed c) every) (\<lambda>_. Inr c))"

definition configure_failures :: "int option \<Rightarrow> int option option \<Rightarrow> (StoreFailureController, unit) action" where
  "configure_failures seed every =
     bnd (read_store (\<lambda>c. (case seed of None \<Rightarrow> fc_seed c | Some n \<Rightarrow> n,
                           case every of None \<Rightarrow> fc_writeFailureEvery c | Some e \<Rightarrow> e))) (\<lambda>(candidateSeed, candidateEvery).
     bnd (of_result (validate_failures candidateSeed candidateEvery)) (\<lambda>_.
     write_store (\<lambda>c. c\<lparr>fc_seed := candidateSeed, fc_writeFailureEvery := candidateEvery\<rparr>)))"

definition failNextWrite :: "string \<Rightarrow> int \<Rightarrow> (StoreFailureController, unit) action" where
  "failNextWrite operation count =
     bnd (of_result (throw_if (count < 1) (PlainError ''count must be a positive integer''))) (\<lambda>_.
     write_store (\<lambda>c. c\<lparr>fc_scheduled := AList.update operation
       (nat count + (case map_of (fc_scheduled c) operation of None \<Rightarrow> 0 | Some n \<Rightarrow> n)) (fc_scheduled c)\<rparr>))"

definition consumeScheduled :: "string \<Rightarrow> (StoreFailureController, bool) action" where
  "consumeScheduled operation c =
     (let count = (case map_of (fc_scheduled c) operation of None \<Rightarrow> 0 | Some n \<Rightarrow> n) in
      if count = 0 then (Inr False, c)
      else if count = 1 then (Inr True, c\<lparr>fc_scheduled := AList.delete operation (fc_scheduled c)\<rparr>)
      else (Inr True, c\<lparr>fc_scheduled := AList.update operation (count - 1) (fc_scheduled c)\<rparr>))"

definition beforeWrite :: "string \<Rightarrow> (StoreFailureController, unit) action" where
  "beforeWrite operation =
     bnd (write_store (\<lambda>c. c\<lparr>fc_writeOrdinal := fc_writeOrdinal c + 1\<rparr>)) (\<lambda>_.
     bnd (consumeScheduled operation) (\<lambda>own.
     bnd (if own then ret True else consumeScheduled ''*'') (\<lambda>scheduled.
     if scheduled then throw injected
     else bnd (read_store (\<lambda>c. case fc_writeFailureEvery c of None \<Rightarrow> False
                 | Some every \<Rightarrow> every \<noteq> 0 \<and> (int (fc_writeOrdinal c) + fc_seed c) mod every = 0)) (\<lambda>cadence.
          if cadence then throw injected else ret ()))))"

definition reset_failures :: "StoreFailureController \<Rightarrow> StoreFailureController" where
  "reset_failures c = c\<lparr>fc_writeOrdinal := 0, fc_scheduled := []\<rparr>"

section \<open>Sequencing\<close>

named_theorems action_simps \<open>evaluation of actions\<close>

lemma action_eval [action_simps]:
  "ret a s = (Inr a, s)" "throw e s = (Inl e, s)" "of_result r s = (r, s)"
  "read_store f s = (Inr (f s), s)" "write_store g s = (Inr (), g s)"
  by (simp_all add: ret_def throw_def of_result_def read_store_def write_store_def)

lemma bnd_eval [action_simps]:
  "bnd m f s = (case fst (m s) of Inl e \<Rightarrow> (Inl e, snd (m s)) | Inr a \<Rightarrow> f a (snd (m s)))"
  by (simp add: bnd_def split: prod.splits sum.splits)

lemma bnd_throw [simp]: "bnd (throw e) f = throw e"
  by (simp add: fun_eq_iff action_simps)

lemma bnd_ret [simp]: "bnd (ret a) f = f a"
  by (simp add: fun_eq_iff action_simps)

lemma bnd_assoc: "bnd (bnd m f) g = bnd m (\<lambda>a. bnd (f a) g)"
  by (simp add: fun_eq_iff action_simps split: sum.splits)

lemma catch_eval [action_simps]:
  "catch m h s = (case fst (m s) of Inl e \<Rightarrow> h e (snd (m s)) | Inr a \<Rightarrow> (Inr a, snd (m s)))"
  by (simp add: catch_def split: prod.splits sum.splits)

lemma catch_Inr:
  "catch m h s = (Inr b, s') \<longleftrightarrow> m s = (Inr b, s') \<or> (\<exists>e t. m s = (Inl e, t) \<and> h e t = (Inr b, s'))"
  by (cases "m s") (auto simp: catch_def split: sum.splits)

text \<open>The successful end of a sequence.\<close>

lemma bnd_Inr:
  "bnd m f s = (Inr b, s') \<longleftrightarrow> (\<exists>a t. m s = (Inr a, t) \<and> f a t = (Inr b, s'))"
  by (cases "m s") (auto simp: bnd_def split: sum.splits)

lemma bnd_Inl:
  "bnd m f s = (Inl e, s') \<longleftrightarrow> m s = (Inl e, s') \<or> (\<exists>a t. m s = (Inr a, t) \<and> f a t = (Inl e, s'))"
  by (cases "m s") (auto simp: bnd_def split: sum.splits)

text \<open>
  \<open>keeps v m\<close>: the action leaves the view \<open>v\<close> of the state as it is, whatever its result.
  \<open>keeps_on_error\<close>: it does so when it throws.
\<close>

definition keeps :: "('s \<Rightarrow> 'v) \<Rightarrow> ('s, 'a) action \<Rightarrow> bool" where
  "keeps v m = (\<forall>s. v (snd (m s)) = v s)"

definition keeps_on_error :: "('s \<Rightarrow> 'v) \<Rightarrow> ('s, 'a) action \<Rightarrow> bool" where
  "keeps_on_error v m = (\<forall>s. \<not> ok (fst (m s)) \<longrightarrow> v (snd (m s)) = v s)"

named_theorems keeps_intros \<open>composition of actions that keep a view\<close>

lemma keeps_basic [keeps_intros]:
  "keeps v (ret a)" "keeps v (throw e)" "keeps v (of_result r)" "keeps v (read_store f)"
  by (simp_all add: keeps_def action_simps)

lemma keeps_bnd [keeps_intros]:
  "keeps v m \<Longrightarrow> (\<And>a. keeps v (f a)) \<Longrightarrow> keeps v (bnd m f)"
  by (simp add: keeps_def action_simps split: sum.splits)

lemma keeps_if [keeps_intros]: "keeps v m \<Longrightarrow> keeps v m' \<Longrightarrow> keeps v (if b then m else m')"
  by simp

lemma keeps_case_option [keeps_intros]:
  "keeps v m \<Longrightarrow> (\<And>a. keeps v (f a)) \<Longrightarrow> keeps v (case x of None \<Rightarrow> m | Some a \<Rightarrow> f a)"
  by (cases x) auto

lemma keeps_error: "keeps v m \<Longrightarrow> keeps_on_error v m"
  by (simp add: keeps_def keeps_on_error_def)

lemma keeps_on_error_basic [keeps_intros]:
  "keeps_on_error v (write_store g)" "keeps_on_error v (ret a)" "keeps_on_error v (throw e)"
  "keeps_on_error v (of_result r)"
  by (simp_all add: keeps_on_error_def action_simps)

text \<open>Steps that keep the view, and then one step that keeps it when it throws.\<close>

lemma keeps_on_error_bnd [keeps_intros]:
  "keeps v m \<Longrightarrow> (\<And>a. keeps_on_error v (f a)) \<Longrightarrow> keeps_on_error v (bnd m f)"
  by (auto simp: keeps_def keeps_on_error_def action_simps split: sum.splits)

lemma keeps_on_error_if [keeps_intros]:
  "keeps_on_error v m \<Longrightarrow> keeps_on_error v m' \<Longrightarrow> keeps_on_error v (if b then m else m')"
  by simp

lemma keeps_on_error_case_option [keeps_intros]:
  "keeps_on_error v m \<Longrightarrow> (\<And>a. keeps_on_error v (f a)) \<Longrightarrow>
   keeps_on_error v (case x of None \<Rightarrow> m | Some a \<Rightarrow> f a)"
  by (cases x) auto

text \<open>A step that keeps the view when it throws, and then one that cannot throw.\<close>

lemma keeps_on_error_then_ret [keeps_intros]:
  "keeps_on_error v m \<Longrightarrow> keeps_on_error v (bnd m (\<lambda>_. ret a))"
  by (auto simp: keeps_on_error_def action_simps split: sum.splits)

text \<open>A handler that keeps the view, or keeps it when it throws itself.\<close>

lemma keeps_catch [keeps_intros]:
  "keeps v m \<Longrightarrow> (\<And>e. keeps v (h e)) \<Longrightarrow> keeps v (catch m h)"
  by (simp add: keeps_def action_simps split: sum.splits)

lemma keeps_on_error_catch [keeps_intros]:
  assumes "keeps_on_error v m" and "\<And>e. keeps_on_error v (h e)"
  shows "keeps_on_error v (catch m h)"
  unfolding keeps_on_error_def
proof (intro allI impI)
  fix s
  assume e: "\<not> ok (fst (catch m h s))"
  show "v (snd (catch m h s)) = v s"
  proof (cases "fst (m s)")
    case (Inl a)
    then show ?thesis
      using e assms(1) assms(2) [of a] by (simp add: action_simps keeps_on_error_def)
  next
    case (Inr a)
    then show ?thesis using e by (simp add: action_simps)
  qed
qed

lemma keeps_case_prod [keeps_intros]:
  "(\<And>a b. keeps v (f a b)) \<Longrightarrow> keeps v (case p of (a, b) \<Rightarrow> f a b)"
  by (cases p) simp

lemma keeps_on_error_case_prod [keeps_intros]:
  "(\<And>a b. keeps_on_error v (f a b)) \<Longrightarrow> keeps_on_error v (case p of (a, b) \<Rightarrow> f a b)"
  by (cases p) simp

end
