(* ===== verification/Sender_Wire.thy ===== *)
theory Sender_Wire
  imports Signal_Message Base64
begin

text \<open>
  The data of the sender keys (internal/protocol/sender-keys/manager.ts) and their messages on the wire
  (internal/encoding/proto/sender-key-message.ts): the two protobuf codecs and the frame of version byte,
  protobuf bytes and signature.

  The decoders are the generic tag loop \<open>decode_fields\<close>, as in \<open>Signal_Message\<close>. Indices, generations and chain
  identifiers are naturals; a time is an integer, and \<open>None\<close> where the number of the source is not finite.

  Shown here: what an encoder writes is read back, also between unknown fields; the parser of the frame accepts exactly
  the frames of a non-empty body and a signature of 64 bytes.
\<close>

section \<open>Definitions\<close>

subsection \<open>Sender keys\<close>

record SenderKeyState =
  sk_senderKeyId :: js_string
  sk_senderKeyVersion :: string
  sk_chainId :: nat
  sk_generation :: nat
  sk_chainKey :: Base64
  sk_signatureKey :: Base64
  sk_publicSignatureKey :: Base64
  sk_chainIndex :: nat
  sk_createdAt :: "int option"

datatype OwnSenderKeyExpiry = NoCreationTime | Aged int

record SenderKeyDistributionMessage =
  sd_senderKeyVersion :: string
  sd_senderKeyId :: js_string
  sd_chainId :: nat
  sd_generation :: nat
  sd_chainIndex :: "nat option"
  sd_chainKey :: Base64
  sd_publicSignatureKey :: Base64

text \<open>The generation is not on the wire; the source writes 0 there and does not read it.\<close>

record EncryptedGroupMessage =
  gm_senderKeyId :: js_string
  gm_generation :: nat
  gm_chainIndex :: nat
  gm_ciphertext :: Base64
  gm_signature :: Base64

record SkippedSenderMessageKey =
  mk_cipherKey :: Base64
  mk_iv :: Base64

subsection \<open>The messages\<close>

definition SK_distributionUuid :: nat where "SK_distributionUuid = 1"
definition SK_chainId :: nat where "SK_chainId = 2"
definition SK_iteration :: nat where "SK_iteration = 3"
definition SK_ciphertext :: nat where "SK_ciphertext = 4"
definition SK_chainKey :: nat where "SK_chainKey = 4"
definition SK_signingKey :: nat where "SK_signingKey = 5"

definition requireDecoded :: "'v option \<Rightarrow> string \<Rightarrow> 'v result" where
  "requireDecoded v name = (case v of None \<Rightarrow> Inl (PlainError name) | Some x \<Rightarrow> Inr x)"

record SenderKeyMessageFields =
  km_distributionUuid :: "bytes option"
  km_chainId :: "nat option"
  km_iteration :: nat
  km_ciphertext :: bytes

definition encodeSenderKeyMessage :: "SenderKeyMessageFields \<Rightarrow> bytes result" where
  "encodeSenderKeyMessage msg =
     and_then (optional_field encodeBytesField SK_distributionUuid (km_distributionUuid msg)) (\<lambda>f1.
     and_then (optional_field encodeUint32Field SK_chainId (map_option int (km_chainId msg))) (\<lambda>f2.
     and_then (encodeUint32Field SK_iteration (int (km_iteration msg))) (\<lambda>f3.
     and_then (encodeBytesField SK_ciphertext (km_ciphertext msg)) (\<lambda>f4.
     Inr (concatFields [f1, f2, f3, f4])))))"

text \<open>The variables of the decoding loop.\<close>

record SenderKeyWire =
  kw_distributionUuid :: "bytes option"
  kw_chainId :: "nat option"
  kw_iteration :: "nat option"
  kw_ciphertext :: "bytes option"

definition sender_key_empty :: SenderKeyWire where
  "sender_key_empty = \<lparr>kw_distributionUuid = None, kw_chainId = None, kw_iteration = None, kw_ciphertext = None\<rparr>"

definition sender_key_read :: "nat \<Rightarrow> field_read" where
  "sender_key_read f =
     (if f = SK_distributionUuid then ReadBytes
      else if f = SK_chainId then ReadUint32
      else if f = SK_iteration then ReadUint32
      else if f = SK_ciphertext then ReadBytes
      else SkipField)"

fun sender_key_store :: "nat \<Rightarrow> field_value \<Rightarrow> SenderKeyWire \<Rightarrow> SenderKeyWire" where
  "sender_key_store f (VBytes b) w =
     (if f = SK_distributionUuid then w\<lparr>kw_distributionUuid := Some b\<rparr>
      else if f = SK_ciphertext then w\<lparr>kw_ciphertext := Some b\<rparr>
      else w)"
| "sender_key_store f (VNat n) w =
     (if f = SK_chainId then w\<lparr>kw_chainId := Some n\<rparr>
      else if f = SK_iteration then w\<lparr>kw_iteration := Some n\<rparr>
      else w)"
| "sender_key_store f v w = w"

definition decodeSenderKeyMessage :: "bytes \<Rightarrow> SenderKeyMessageFields result" where
  "decodeSenderKeyMessage bytes =
     and_then (decode_fields sender_key_read sender_key_store (new_ProtoReader bytes) sender_key_empty) (\<lambda>w.
     and_then (requireDecoded (kw_iteration w) ''Malformed SenderKeyMessage: missing iteration'') (\<lambda>iteration.
     and_then (requireDecoded (kw_ciphertext w) ''Malformed SenderKeyMessage: missing ciphertext'') (\<lambda>ciphertext.
     Inr \<lparr>km_distributionUuid = nonempty (kw_distributionUuid w), km_chainId = kw_chainId w,
          km_iteration = iteration, km_ciphertext = ciphertext\<rparr>)))"

subsection \<open>The distribution message\<close>

record SenderKeyDistributionMessageFields =
  kd_distributionUuid :: "bytes option"
  kd_chainId :: "nat option"
  kd_iteration :: nat
  kd_chainKey :: bytes
  kd_signingKey :: bytes

definition encodeSenderKeyDistributionMessage :: "SenderKeyDistributionMessageFields \<Rightarrow> bytes result" where
  "encodeSenderKeyDistributionMessage msg =
     and_then (optional_field encodeBytesField SK_distributionUuid (kd_distributionUuid msg)) (\<lambda>f1.
     and_then (optional_field encodeUint32Field SK_chainId (map_option int (kd_chainId msg))) (\<lambda>f2.
     and_then (encodeUint32Field SK_iteration (int (kd_iteration msg))) (\<lambda>f3.
     and_then (encodeBytesField SK_chainKey (kd_chainKey msg)) (\<lambda>f4.
     and_then (encodeBytesField SK_signingKey (kd_signingKey msg)) (\<lambda>f5.
     Inr (concatFields [f1, f2, f3, f4, f5]))))))"

record DistributionWire =
  dw_distributionUuid :: "bytes option"
  dw_chainId :: "nat option"
  dw_iteration :: "nat option"
  dw_chainKey :: "bytes option"
  dw_signingKey :: "bytes option"

definition distribution_empty :: DistributionWire where
  "distribution_empty = \<lparr>dw_distributionUuid = None, dw_chainId = None, dw_iteration = None, dw_chainKey = None,
     dw_signingKey = None\<rparr>"

definition distribution_read :: "nat \<Rightarrow> field_read" where
  "distribution_read f =
     (if f = SK_distributionUuid then ReadBytes
      else if f = SK_chainId then ReadUint32
      else if f = SK_iteration then ReadUint32
      else if f = SK_chainKey then ReadBytes
      else if f = SK_signingKey then ReadBytes
      else SkipField)"

fun distribution_store :: "nat \<Rightarrow> field_value \<Rightarrow> DistributionWire \<Rightarrow> DistributionWire" where
  "distribution_store f (VBytes b) w =
     (if f = SK_distributionUuid then w\<lparr>dw_distributionUuid := Some b\<rparr>
      else if f = SK_chainKey then w\<lparr>dw_chainKey := Some b\<rparr>
      else if f = SK_signingKey then w\<lparr>dw_signingKey := Some b\<rparr>
      else w)"
| "distribution_store f (VNat n) w =
     (if f = SK_chainId then w\<lparr>dw_chainId := Some n\<rparr>
      else if f = SK_iteration then w\<lparr>dw_iteration := Some n\<rparr>
      else w)"
| "distribution_store f v w = w"

definition decodeSenderKeyDistributionMessage :: "bytes \<Rightarrow> SenderKeyDistributionMessageFields result" where
  "decodeSenderKeyDistributionMessage bytes =
     and_then (decode_fields distribution_read distribution_store (new_ProtoReader bytes) distribution_empty) (\<lambda>w.
     and_then (requireDecoded (dw_iteration w) ''Malformed SenderKeyDistributionMessage: missing iteration'') (\<lambda>iteration.
     and_then (requireDecoded (dw_chainKey w) ''Malformed SenderKeyDistributionMessage: missing chainKey'') (\<lambda>chainKey.
     and_then (requireDecoded (dw_signingKey w) ''Malformed SenderKeyDistributionMessage: missing signingKey'') (\<lambda>signingKey.
     Inr \<lparr>kd_distributionUuid = nonempty (dw_distributionUuid w), kd_chainId = dw_chainId w,
          kd_iteration = iteration, kd_chainKey = chainKey, kd_signingKey = signingKey\<rparr>))))"

subsection \<open>The frame\<close>

definition SENDERKEY_MESSAGE_CURRENT_VERSION :: byte where "SENDERKEY_MESSAGE_CURRENT_VERSION = 4"
definition SIGNATURE_LEN :: nat where "SIGNATURE_LEN = 64"

definition sender_key_version_byte :: byte where
  "sender_key_version_byte = push_bit 4 SENDERKEY_MESSAGE_CURRENT_VERSION OR SENDERKEY_MESSAGE_CURRENT_VERSION"

definition frameSenderKeyMessage :: "bytes \<Rightarrow> bytes \<Rightarrow> bytes result" where
  "frameSenderKeyMessage protobufBytes signature =
     (if length signature \<noteq> SIGNATURE_LEN then Inl (PlainError ''Expected 64-byte signature'')
      else Inr ([sender_key_version_byte] @ protobufBytes @ signature))"

text \<open>The version, the protobuf bytes and the signature.\<close>

definition parseSenderKeyMessage :: "bytes \<Rightarrow> (byte \<times> bytes \<times> bytes) result" where
  "parseSenderKeyMessage bytes =
     (if length bytes < 1 + SIGNATURE_LEN + 1 then Inl (PlainError ''SenderKeyMessage too short'')
      else if bytes ! 0 \<noteq> sender_key_version_byte then Inl (PlainError ''Unsupported SenderKeyMessage version'')
      else Inr (drop_bit 4 (bytes ! 0), js_slice 1 (length bytes - SIGNATURE_LEN) bytes,
                drop (length bytes - SIGNATURE_LEN) bytes))"

section \<open>Round trips\<close>

lemmas SK_field_defs = SK_distributionUuid_def SK_chainId_def SK_iteration_def SK_ciphertext_def SK_chainKey_def
  SK_signingKey_def

lemma field_ok_sender [simp]:
  "field_ok SK_distributionUuid" "field_ok SK_chainId" "field_ok SK_iteration" "field_ok SK_ciphertext"
  "field_ok SK_chainKey" "field_ok SK_signingKey"
  by (simp_all add: field_ok_def SK_field_defs)

lemma sender_key_read_fields [simp]:
  "sender_key_read SK_distributionUuid = ReadBytes" "sender_key_read SK_chainId = ReadUint32"
  "sender_key_read SK_iteration = ReadUint32" "sender_key_read SK_ciphertext = ReadBytes"
  by (simp_all add: sender_key_read_def SK_field_defs)

lemma sender_key_store_fields [simp]:
  "sender_key_store SK_distributionUuid (VBytes b) w = w\<lparr>kw_distributionUuid := Some b\<rparr>"
  "sender_key_store SK_chainId (VNat n) w = w\<lparr>kw_chainId := Some n\<rparr>"
  "sender_key_store SK_iteration (VNat n) w = w\<lparr>kw_iteration := Some n\<rparr>"
  "sender_key_store SK_ciphertext (VBytes b) w = w\<lparr>kw_ciphertext := Some b\<rparr>"
  by (simp_all add: SK_field_defs)

lemma distribution_read_fields [simp]:
  "distribution_read SK_distributionUuid = ReadBytes" "distribution_read SK_chainId = ReadUint32"
  "distribution_read SK_iteration = ReadUint32" "distribution_read SK_chainKey = ReadBytes"
  "distribution_read SK_signingKey = ReadBytes"
  by (simp_all add: distribution_read_def SK_field_defs)

lemma distribution_store_fields [simp]:
  "distribution_store SK_distributionUuid (VBytes b) w = w\<lparr>dw_distributionUuid := Some b\<rparr>"
  "distribution_store SK_chainId (VNat n) w = w\<lparr>dw_chainId := Some n\<rparr>"
  "distribution_store SK_iteration (VNat n) w = w\<lparr>dw_iteration := Some n\<rparr>"
  "distribution_store SK_chainKey (VBytes b) w = w\<lparr>dw_chainKey := Some b\<rparr>"
  "distribution_store SK_signingKey (VBytes b) w = w\<lparr>dw_signingKey := Some b\<rparr>"
  by (simp_all add: SK_field_defs)

declare sender_key_store.simps [simp del] distribution_store.simps [simp del]

lemma requireDecoded_Some [simp]: "requireDecoded (Some x) name = Inr x"
  by (simp add: requireDecoded_def)

lemma nonempty_id: "b \<noteq> Some [] \<Longrightarrow> nonempty b = b"
  by (auto simp: nonempty_def missing_def)

lemma sender_key_decode_fields:
  assumes "encodeSenderKeyMessage m = Inr e"
  shows "decode_fields sender_key_read sender_key_store (new_ProtoReader (e @ rest)) sender_key_empty =
    decode_fields sender_key_read sender_key_store (new_ProtoReader rest)
      \<lparr>kw_distributionUuid = km_distributionUuid m, kw_chainId = km_chainId m,
       kw_iteration = Some (km_iteration m), kw_ciphertext = Some (km_ciphertext m)\<rparr>"
proof -
  from assms obtain f1 f2 f3 f4 where f:
    "optional_field encodeBytesField SK_distributionUuid (km_distributionUuid m) = Inr f1"
    "optional_field encodeUint32Field SK_chainId (map_option int (km_chainId m)) = Inr f2"
    "encodeUint32Field SK_iteration (int (km_iteration m)) = Inr f3"
    "encodeBytesField SK_ciphertext (km_ciphertext m) = Inr f4" "e = concatFields [f1, f2, f3, f4]"
    by (auto simp: encodeSenderKeyMessage_def and_then_eq_Inr)
  then show ?thesis
    by (cases "km_distributionUuid m"; cases "km_chainId m")
      (simp_all add: concatFields_def decode_field_simps sender_key_empty_def)
qed

lemma sender_key_decode_encoded:
  assumes "encodeSenderKeyMessage m = Inr e" and "km_distributionUuid m \<noteq> Some []"
    and "unknown_fields sender_key_read us u" and "unknown_fields sender_key_read ts t"
  shows "decodeSenderKeyMessage (u @ e @ t) = Inr m"
proof -
  have unknown: "decode_fields sender_key_read sender_key_store (new_ProtoReader (x @ rest)) acc =
      decode_fields sender_key_read sender_key_store (new_ProtoReader rest) acc"
    if "unknown_fields sender_key_read fs x" for x fs rest acc
    using that by (rule decode_unknown_fields) (simp add: sender_key_store.simps)
  note t = unknown [OF assms(4), of "[]"] and u = unknown [OF assms(3)]
  show ?thesis using assms(2) t
    by (simp add: decodeSenderKeyMessage_def u sender_key_decode_fields [OF assms(1)] nonempty_id)
qed

lemma distribution_decode_fields:
  assumes "encodeSenderKeyDistributionMessage m = Inr e"
  shows "decode_fields distribution_read distribution_store (new_ProtoReader (e @ rest)) distribution_empty =
    decode_fields distribution_read distribution_store (new_ProtoReader rest)
      \<lparr>dw_distributionUuid = kd_distributionUuid m, dw_chainId = kd_chainId m, dw_iteration = Some (kd_iteration m),
       dw_chainKey = Some (kd_chainKey m), dw_signingKey = Some (kd_signingKey m)\<rparr>"
proof -
  from assms obtain f1 f2 f3 f4 f5 where f:
    "optional_field encodeBytesField SK_distributionUuid (kd_distributionUuid m) = Inr f1"
    "optional_field encodeUint32Field SK_chainId (map_option int (kd_chainId m)) = Inr f2"
    "encodeUint32Field SK_iteration (int (kd_iteration m)) = Inr f3"
    "encodeBytesField SK_chainKey (kd_chainKey m) = Inr f4"
    "encodeBytesField SK_signingKey (kd_signingKey m) = Inr f5" "e = concatFields [f1, f2, f3, f4, f5]"
    by (auto simp: encodeSenderKeyDistributionMessage_def and_then_eq_Inr)
  then show ?thesis
    by (cases "kd_distributionUuid m"; cases "kd_chainId m")
      (simp_all add: concatFields_def decode_field_simps distribution_empty_def)
qed

lemma distribution_decode_encoded:
  assumes "encodeSenderKeyDistributionMessage m = Inr e" and "kd_distributionUuid m \<noteq> Some []"
    and "unknown_fields distribution_read us u" and "unknown_fields distribution_read ts t"
  shows "decodeSenderKeyDistributionMessage (u @ e @ t) = Inr m"
proof -
  have unknown: "decode_fields distribution_read distribution_store (new_ProtoReader (x @ rest)) acc =
      decode_fields distribution_read distribution_store (new_ProtoReader rest) acc"
    if "unknown_fields distribution_read fs x" for x fs rest acc
    using that by (rule decode_unknown_fields) (simp add: distribution_store.simps)
  note t = unknown [OF assms(4), of "[]"] and u = unknown [OF assms(3)]
  show ?thesis using assms(2) t
    by (simp add: decodeSenderKeyDistributionMessage_def u distribution_decode_fields [OF assms(1)] nonempty_id)
qed

lemma sender_key_version_byte_eq: "sender_key_version_byte = 0x44"
  by (simp add: sender_key_version_byte_def SENDERKEY_MESSAGE_CURRENT_VERSION_def)

lemma parse_sender_key_frame:
  "parseSenderKeyMessage bs = Inr (v, p, s) \<longleftrightarrow>
   v = 4 \<and> p \<noteq> [] \<and> length s = 64 \<and> frameSenderKeyMessage p s = Inr bs"
proof
  assume "parseSenderKeyMessage bs = Inr (v, p, s)"
  then have len: "66 \<le> length bs" and b: "bs ! 0 = 0x44" and v: "v = drop_bit 4 (bs ! 0)"
    and p: "p = js_slice 1 (length bs - 64) bs" and s: "s = drop (length bs - 64) bs"
    by (simp_all add: parseSenderKeyMessage_def sender_key_version_byte_eq SIGNATURE_LEN_def split: if_splits)
  obtain rest where bs: "bs = 0x44 # rest" using len b by (cases bs) auto
  have "rest = p @ s"
    using len unfolding p s bs js_slice_def by (simp add: drop_Cons')
  moreover have "p \<noteq> []" using len by (simp add: p js_slice_def)
  moreover have "length s = 64" using len by (simp add: s)
  ultimately show "v = 4 \<and> p \<noteq> [] \<and> length s = 64 \<and> frameSenderKeyMessage p s = Inr bs"
    using v by (simp add: bs frameSenderKeyMessage_def SIGNATURE_LEN_def sender_key_version_byte_eq)
next
  assume "v = 4 \<and> p \<noteq> [] \<and> length s = 64 \<and> frameSenderKeyMessage p s = Inr bs"
  then show "parseSenderKeyMessage bs = Inr (v, p, s)"
    by (auto simp: frameSenderKeyMessage_def parseSenderKeyMessage_def SIGNATURE_LEN_def sender_key_version_byte_eq
        js_slice_def Suc_le_eq split: if_splits)
qed

end
