(* ===== verification/Memory_Store.thy ===== *)
theory Memory_Store
  imports Session_Record Receive_Work Store_Action Sender_Wire
begin

text \<open>
  The in-memory store of local/store/memory/adapter.ts, as far as the session layer and the receive
  records use it: identity keys, contact identities, prekeys, session records, receive records and
  the sender-key handoffs (local/store/sender-key-handoff-table.ts), with the Kyber prekey lifecycle
  of local/store/kyber-prekey-lifecycle.ts.

  A \<open>Map\<close> is an association list in insertion order. The text key \<open>identityType:keyId\<close> of a prekey is
  the pair of its parts, and so is the key \<open>userId:identityType\<close> of a contact, whose last part is one
  of two names; \<open>startsWith\<close> of the former is equality of the first part. The key of a session record
  is the text \<open>userId.deviceId\<close> itself, because \<open>getSessionsForUser\<close> compares a part of it. The row key
  of a handoff is the tuple that the code turns into JSON. Values are copied on the way in and out, so
  a copy is the value itself. \<open>now\<close> is \<open>Date.now()\<close> of the call, \<open>fresh\<close> the random identifier.

  Shown here: session keys of different addresses differ; the commit of a session with its trust and
  prekeys happens completely or not at all; a Kyber prekey use is accepted once; a one-time prekey is
  consumed by at most one commit.
\<close>

section \<open>Definitions\<close>

subsection \<open>Keys\<close>

record EcSignedPreKey =
  es_keyId :: nat
  es_publicKey :: Base64
  es_privateKey :: Base64
  es_signature :: Base64
  es_timestamp :: int

record EcOneTimePreKey =
  eo_keyId :: nat
  eo_publicKey :: Base64
  eo_privateKey :: Base64

record KyberPreKey =
  ky_keyId :: nat
  ky_publicKey :: Base64
  ky_privateKey :: Base64
  ky_signature :: Base64
  ky_timestamp :: int

record KemOneTimePreKey =
  ko_keyId :: nat
  ko_publicKey :: Base64
  ko_privateKey :: Base64
  ko_signature :: Base64
  ko_timestamp :: int

subsection \<open>Kyber prekey lifecycle\<close>

type_synonym kyber_use_key = "IdentityType \<times> nat \<times> nat \<times> Base64"

record StoredKyberPreKeyInstance =
  instanceId :: string
  ki_key :: KyberPreKey
  replacedAt :: "int option"
  kyber_uses :: "kyber_use_key list"

record StoredKyberPreKeyState =
  ks_currentKeyId :: "nat option"
  ks_instances :: "(nat \<times> StoredKyberPreKeyInstance) list"

definition ReusedBaseKeyError :: js_error where
  "ReusedBaseKeyError = PlainError ''ReusedBaseKeyError''"

definition sameKyberPreKeyInstance :: "KyberPreKey \<Rightarrow> KyberPreKey \<Rightarrow> bool" where
  "sameKyberPreKeyInstance left right =
     (ky_keyId left = ky_keyId right \<and> ky_publicKey left = ky_publicKey right \<and>
      ky_privateKey left = ky_privateKey right \<and> ky_signature left = ky_signature right)"

definition assertUnambiguousKyberPreKeyStore :: "KyberPreKey option \<Rightarrow> KyberPreKey \<Rightarrow> unit result" where
  "assertUnambiguousKyberPreKeyStore existing candidate =
     (case existing of None \<Rightarrow> Inr ()
      | Some key \<Rightarrow> throw_if (\<not> sameKyberPreKeyInstance key candidate)
          (PlainError ''Kyber prekey key ID already identifies different retained material''))"

definition kyberPreKeyUseKey :: "IdentityType \<Rightarrow> KyberPreKeyUse \<Rightarrow> kyber_use_key" where
  "kyberPreKeyUseKey identityType use =
     (identityType, kpu_kyberPreKeyId use, kpu_signedPreKeyId use, bytesToBase64 (kpu_baseKeyBytes use))"

definition createKyberPreKeyState :: StoredKyberPreKeyState where
  "createKyberPreKeyState = \<lparr>ks_currentKeyId = None, ks_instances = []\<rparr>"

definition getCurrentKyberPreKey :: "StoredKyberPreKeyState option \<Rightarrow> KyberPreKey option" where
  "getCurrentKyberPreKey state =
     Option.bind state (\<lambda>st. Option.bind (ks_currentKeyId st) (\<lambda>keyId.
       map_option ki_key (map_of (ks_instances st) keyId)))"

definition getRetainedKyberPreKey ::
    "StoredKyberPreKeyState option \<Rightarrow> nat \<Rightarrow> (KyberPreKey \<times> string) option" where
  "getRetainedKyberPreKey state keyId =
     Option.bind state (\<lambda>st. map_option (\<lambda>i. (ki_key i, instanceId i)) (map_of (ks_instances st) keyId))"

definition replace_instance :: "int \<Rightarrow> StoredKyberPreKeyInstance \<Rightarrow> StoredKyberPreKeyInstance" where
  "replace_instance now current =
     (if replacedAt current = None then current\<lparr>replacedAt := Some now\<rparr> else current)"

definition new_instance :: "KyberPreKey \<Rightarrow> string \<Rightarrow> StoredKyberPreKeyInstance" where
  "new_instance candidate iid = \<lparr>instanceId = iid, ki_key = candidate, replacedAt = None, kyber_uses = []\<rparr>"

definition retainKyberPreKey ::
    "StoredKyberPreKeyState \<Rightarrow> KyberPreKey \<Rightarrow> int \<Rightarrow> string \<Rightarrow> (bool \<times> StoredKyberPreKeyState) result" where
  "retainKyberPreKey state candidate now iid =
     (let key = ky_keyId candidate; existing = map_of (ks_instances state) key in
      and_then (assertUnambiguousKyberPreKeyStore (map_option ki_key existing) candidate) (\<lambda>_.
      if existing \<noteq> None then Inr (False, state)
      else let instances = (case ks_currentKeyId state of None \<Rightarrow> ks_instances state
             | Some c \<Rightarrow> (case map_of (ks_instances state) c of None \<Rightarrow> ks_instances state
                 | Some current \<Rightarrow> AList.update c (replace_instance now current) (ks_instances state)))
           in Inr (True, \<lparr>ks_currentKeyId = Some key,
                          ks_instances = AList.update key (new_instance candidate iid) instances\<rparr>)))"

definition assertKyberPreKeyUse ::
    "StoredKyberPreKeyState option \<Rightarrow> IdentityType \<Rightarrow> KyberPreKeyUse \<Rightarrow> StoredKyberPreKeyInstance result" where
  "assertKyberPreKeyUse state identityType use =
     (case Option.bind state (\<lambda>st. map_of (ks_instances st) (kpu_kyberPreKeyId use)) of
        None \<Rightarrow> Inl (PlainError ''Kyber prekey is not retained'')
      | Some parent \<Rightarrow>
          if instanceId parent \<noteq> kpu_kyberPreKeyInstanceId use
          then Inl (PlainError ''Kyber prekey instance mismatch'')
          else if kyberPreKeyUseKey identityType use \<in> set (kyber_uses parent) then Inl ReusedBaseKeyError
          else Inr parent)"

text \<open>The use is written to the parent; the changed parent is the result.\<close>

definition recordKyberPreKeyUse ::
    "StoredKyberPreKeyState option \<Rightarrow> IdentityType \<Rightarrow> KyberPreKeyUse \<Rightarrow> StoredKyberPreKeyInstance result" where
  "recordKyberPreKeyUse state identityType use =
     and_then (assertKyberPreKeyUse state identityType use) (\<lambda>parent.
     Inr (parent\<lparr>kyber_uses := kyber_uses parent @ [kyberPreKeyUseKey identityType use]\<rparr>))"

definition recordKyberPreKeyUseById ::
    "StoredKyberPreKeyState option \<Rightarrow> IdentityType \<Rightarrow> nat \<Rightarrow> nat \<Rightarrow> bytes \<Rightarrow> StoredKyberPreKeyInstance result" where
  "recordKyberPreKeyUseById state identityType kyberPreKeyId signedPreKeyId baseKeyBytes =
     (case Option.bind state (\<lambda>st. map_of (ks_instances st) kyberPreKeyId) of
        None \<Rightarrow> Inl (PlainError ''Kyber prekey is not retained'')
      | Some parent \<Rightarrow> recordKyberPreKeyUse state identityType
          \<lparr>kpu_kyberPreKeyId = kyberPreKeyId, kpu_kyberPreKeyInstanceId = instanceId parent,
           kpu_signedPreKeyId = signedPreKeyId, kpu_baseKeyBytes = baseKeyBytes\<rparr>)"

subsection \<open>Sender-key handoffs\<close>

record SenderKeyHandoffRecord =
  ho_groupId :: js_string
  ho_senderKeyId :: js_string
  ho_generation :: nat
  ho_recipientUserId :: js_string
  ho_recipientDeviceId :: int
  ho_recipientRegistrationId :: nat
  ho_acceptedAt :: int

type_synonym handoff_key = "js_string \<times> nat \<times> js_string \<times> int \<times> nat"

type_synonym SenderKeyHandoffTable = "(js_string \<times> (handoff_key \<times> SenderKeyHandoffRecord) list) list"

definition rowKey :: "SenderKeyHandoffRecord \<Rightarrow> handoff_key" where
  "rowKey record = (ho_senderKeyId record, ho_generation record, ho_recipientUserId record,
     ho_recipientDeviceId record, ho_recipientRegistrationId record)"

definition isDevice :: "ProtocolAddress \<Rightarrow> SenderKeyHandoffRecord \<Rightarrow> bool" where
  "isDevice device record =
     (ho_recipientUserId record = userId device \<and> ho_recipientDeviceId record = deviceId device)"

definition handoff_record :: "SenderKeyHandoffRecord \<Rightarrow> SenderKeyHandoffTable \<Rightarrow> SenderKeyHandoffTable" where
  "handoff_record record groups =
     (let rows = (case map_of groups (ho_groupId record) of None \<Rightarrow> [] | Some rs \<Rightarrow> rs)
      in AList.update (ho_groupId record) (AList.update (rowKey record) record rows) groups)"

definition handoff_list :: "js_string \<Rightarrow> nat \<Rightarrow> SenderKeyHandoffTable \<Rightarrow> SenderKeyHandoffRecord list" where
  "handoff_list groupId generation groups =
     filter (\<lambda>record. ho_generation record = generation)
       (map snd (case map_of groups groupId of None \<Rightarrow> [] | Some rows \<Rightarrow> rows))"

definition deleteWhere ::
    "js_string \<Rightarrow> (SenderKeyHandoffRecord \<Rightarrow> bool) \<Rightarrow> SenderKeyHandoffTable \<Rightarrow> nat \<times> SenderKeyHandoffTable" where
  "deleteWhere groupId predicate groups =
     (case map_of groups groupId of
        None \<Rightarrow> (0, groups)
      | Some rows \<Rightarrow>
          let kept = filter (\<lambda>(key, record). \<not> predicate record) rows
          in (length rows - length kept,
              if kept = [] then AList.delete groupId groups else AList.update groupId kept groups))"

definition deleteDeviceInGroup :: "js_string \<Rightarrow> ProtocolAddress \<Rightarrow> SenderKeyHandoffTable \<Rightarrow> bool \<times> SenderKeyHandoffTable" where
  "deleteDeviceInGroup groupId device groups =
     (let (deleted, groups) = deleteWhere groupId (isDevice device) groups in (deleted > 0, groups))"

text \<open>The rows of all groups: the number of deleted rows and the table.\<close>

definition delete_everywhere ::
    "(SenderKeyHandoffRecord \<Rightarrow> bool) \<Rightarrow> SenderKeyHandoffTable \<Rightarrow> nat \<times> SenderKeyHandoffTable" where
  "delete_everywhere predicate groups =
     fold (\<lambda>groupId (deleted, g). case deleteWhere groupId predicate g of (d, g') \<Rightarrow> (deleted + d, g'))
       (map fst groups) (0, groups)"

definition deleteDevice :: "ProtocolAddress \<Rightarrow> SenderKeyHandoffTable \<Rightarrow> SenderKeyHandoffTable" where
  "deleteDevice device groups = snd (delete_everywhere (isDevice device) groups)"

definition deleteAccount :: "js_string \<Rightarrow> SenderKeyHandoffTable \<Rightarrow> bool \<times> SenderKeyHandoffTable" where
  "deleteAccount user groups =
     (let (deleted, groups) = delete_everywhere (\<lambda>record. ho_recipientUserId record = user) groups
      in (deleted > 0, groups))"

definition deleteGroup :: "js_string \<Rightarrow> SenderKeyHandoffTable \<Rightarrow> SenderKeyHandoffTable" where
  "deleteGroup groupId groups = AList.delete groupId groups"

definition retain_handoffs ::
    "js_string \<Rightarrow> js_string option \<Rightarrow> SenderKeyHandoffTable \<Rightarrow> nat \<times> SenderKeyHandoffTable" where
  "retain_handoffs groupId senderKeyId groups =
     deleteWhere groupId (\<lambda>record. senderKeyId = None \<or> Some (ho_senderKeyId record) \<noteq> senderKeyId) groups"

subsection \<open>State\<close>

record 'q MemoryStore =
  failures :: StoreFailureController
  identityKeys :: "(IdentityType \<times> IdentityKeyPair) list"
  registrationIds :: "(IdentityType \<times> nat) list"
  contactIdentities :: "((js_string \<times> IdentityType) \<times> ContactIdentityRecord) list"
  ecSignedPreKeys :: "((IdentityType \<times> nat) \<times> EcSignedPreKey) list"
  ecOneTimePreKeys :: "((IdentityType \<times> nat) \<times> EcOneTimePreKey) list"
  kyberPreKeys :: "((IdentityType \<times> nat) \<times> StoredKyberPreKeyInstance) list"
  currentKyberPreKeyIds :: "(IdentityType \<times> nat) list"
  kemOneTimePreKeys :: "((IdentityType \<times> nat) \<times> KemOneTimePreKey) list"
  sessionRecords :: "(js_string \<times> 'q SessionRecord) list"
  senderKeyHandoffs :: SenderKeyHandoffTable
  ms_metadata :: "(js_string \<times> js_string) list"
  receiveWork :: "(js_string \<times> ReceiveWorkRecord) list"
  senderKeys :: "(js_string \<times> (js_string \<times> (int \<times> SenderKeyState) list) list) list"
  senderKeyRecords :: "((js_string \<times> js_string \<times> int) \<times> SenderKeyState list) list"
  skippedSenderKeys :: "((js_string \<times> js_string \<times> int \<times> js_string \<times> nat) \<times> SkippedSenderMessageKey) list"

record 'q SessionTrustCommit =
  ct_address :: ProtocolAddress
  ct_record :: "'q SessionRecord"
  ct_contactIdentity :: CompositeIdentityV1
  ct_contactIdentityType :: IdentityType
  ct_localIdentityType :: IdentityType
  ct_oneTimePreKeyId :: "nat option"
  ct_kemOneTimePreKeyId :: "nat option"
  ct_kyberPreKeyUse :: "KyberPreKeyUse option"
  ct_receiveWork :: "ReceiveWorkRecord option"
  ct_senderKeyHandoffInvalidation :: "ProtocolAddress option"

datatype IdentityKeyChange = NEW_IDENTITY | UNCHANGED | KEY_CHANGED | KEY_ROLLBACK

definition failures_beforeWrite :: "string \<Rightarrow> ('q MemoryStore, unit) action" where
  "failures_beforeWrite operation s =
     (case beforeWrite operation (failures s) of (r, c) \<Rightarrow> (r, s\<lparr>failures := c\<rparr>))"

text \<open>\<open>String(n)\<close> of an integer, in code units.\<close>

fun decimal_digits :: "nat \<Rightarrow> js_string" where
  "decimal_digits n = (if n < 10 then [of_nat (48 + n)]
     else decimal_digits (n div 10) @ [of_nat (48 + n mod 10)])"

declare decimal_digits.simps [simp del]

definition js_decimal :: "int \<Rightarrow> js_string" where
  "js_decimal i = (if i < 0 then 45 # decimal_digits (nat (- i)) else decimal_digits (nat i))"

definition getAddressKey :: "ProtocolAddress \<Rightarrow> js_string" where
  "getAddressKey address = userId address @ [46] @ js_decimal (deviceId address)"

definition getContactIdentityKey :: "ProtocolAddress \<Rightarrow> IdentityType option \<Rightarrow> js_string \<times> IdentityType" where
  "getContactIdentityKey address identityType =
     (userId address, case identityType of None \<Rightarrow> Aci | Some it \<Rightarrow> it)"

definition or_aci :: "IdentityType option \<Rightarrow> IdentityType" where
  "or_aci identityType = (case identityType of None \<Rightarrow> Aci | Some it \<Rightarrow> it)"

subsection \<open>Own identity\<close>

definition storeIdentityKey :: "IdentityKeyPair \<Rightarrow> IdentityType option \<Rightarrow> ('q MemoryStore, unit) action" where
  "storeIdentityKey keyPair identityType =
     bnd (failures_beforeWrite ''storeIdentityKey'') (\<lambda>_.
     write_store (\<lambda>s. s\<lparr>identityKeys := AList.update (or_aci identityType) keyPair (identityKeys s)\<rparr>))"

definition getIdentityKey :: "IdentityType option \<Rightarrow> ('q MemoryStore, IdentityKeyPair option) action" where
  "getIdentityKey identityType = read_store (\<lambda>s. map_of (identityKeys s) (or_aci identityType))"

definition hasIdentityKey :: "IdentityType option \<Rightarrow> ('q MemoryStore, bool) action" where
  "hasIdentityKey identityType = read_store (\<lambda>s. map_of (identityKeys s) (or_aci identityType) \<noteq> None)"

definition getLocalRegistrationId :: "IdentityType option \<Rightarrow> ('q MemoryStore, nat) action" where
  "getLocalRegistrationId identityType =
     read_store (\<lambda>s. case map_of (registrationIds s) (or_aci identityType) of None \<Rightarrow> 0 | Some n \<Rightarrow> n)"

definition setLocalRegistrationId :: "nat \<Rightarrow> IdentityType option \<Rightarrow> ('q MemoryStore, unit) action" where
  "setLocalRegistrationId n identityType =
     bnd (failures_beforeWrite ''setLocalRegistrationId'') (\<lambda>_.
     write_store (\<lambda>s. s\<lparr>registrationIds := AList.update (or_aci identityType) n (registrationIds s)\<rparr>))"

subsection \<open>Contact identities\<close>

definition saveContactIdentity ::
    "hash_fun \<Rightarrow> int \<Rightarrow> ProtocolAddress \<Rightarrow> CompositeIdentityV1 \<Rightarrow> IdentityType option \<Rightarrow> bytes option \<Rightarrow>
     ('q MemoryStore, IdentityKeyChange) action" where
  "saveContactIdentity sha256 now address identity identityType suppliedCommitment =
     bnd (failures_beforeWrite ''saveContactIdentity'') (\<lambda>_.
     let key = getContactIdentityKey address identityType in
     bnd (read_store (\<lambda>s. map_of (contactIdentities s) key)) (\<lambda>existing.
     bnd (of_result (evaluateContactIdentityCandidate sha256 existing identity suppliedCommitment)) (\<lambda>status.
     if status = NEW then
       bnd (of_result (createUnverifiedContactIdentityRecord identity now)) (\<lambda>record.
       bnd (write_store (\<lambda>s. s\<lparr>contactIdentities := AList.update key record (contactIdentities s)\<rparr>)) (\<lambda>_.
       ret NEW_IDENTITY))
     else if status = MATCH then ret UNCHANGED
     else if status = ROLLBACK then ret KEY_ROLLBACK
     else ret KEY_CHANGED)))"

definition getContactIdentity ::
    "ProtocolAddress \<Rightarrow> IdentityType option \<Rightarrow> ('q MemoryStore, ContactIdentityRecord option) action" where
  "getContactIdentity address identityType =
     bnd (read_store (\<lambda>s. map_of (contactIdentities s) (getContactIdentityKey address identityType))) (\<lambda>record.
     case record of None \<Rightarrow> ret None
     | Some r \<Rightarrow> bnd (of_result (validateContactIdentityRecord r)) (\<lambda>_. ret (Some r)))"

text \<open>The states of a record, the current one first.\<close>

definition hasSessionWith :: "js_string \<Rightarrow> 'q SessionRecord \<Rightarrow> bool" where
  "hasSessionWith user record = list_ex (\<lambda>state. userId (remoteAddress state) = user) (getAllSessions record)"

definition acceptContactIdentityRotationAndDeleteSessions ::
    "hash_fun \<Rightarrow> int \<Rightarrow> ProtocolAddress \<Rightarrow> CompositeIdentityV1 \<Rightarrow> IdentityType option \<Rightarrow> bytes option \<Rightarrow>
     ('q MemoryStore, ContactIdentityRecord) action" where
  "acceptContactIdentityRotationAndDeleteSessions sha256 now address identity identityType suppliedCommitment =
     bnd (failures_beforeWrite ''acceptContactIdentityRotationAndDeleteSessions'') (\<lambda>_.
     let key = getContactIdentityKey address identityType in
     bnd (read_store (\<lambda>s. map_of (contactIdentities s) key)) (\<lambda>existing.
     case existing of None \<Rightarrow> throw (PlainError ''Cannot rotate an unseen identity'')
     | Some old \<Rightarrow>
         bnd (of_result (acceptContactIdentityRotation sha256 old identity now suppliedCommitment)) (\<lambda>replacement.
         bnd (read_store (\<lambda>s. map fst (filter (\<lambda>(k, record). hasSessionWith (userId address) record) (sessionRecords s)))) (\<lambda>sessionKeys.
         bnd (write_store (\<lambda>s. s\<lparr>contactIdentities := AList.update key replacement (contactIdentities s),
                sessionRecords := fold AList.delete sessionKeys (sessionRecords s),
                senderKeyHandoffs := snd (deleteAccount (userId address) (senderKeyHandoffs s))\<rparr>)) (\<lambda>_.
         ret replacement)))))"

definition store_acceptContactIdentityRotation ::
    "hash_fun \<Rightarrow> int \<Rightarrow> ProtocolAddress \<Rightarrow> CompositeIdentityV1 \<Rightarrow> IdentityType option \<Rightarrow> bytes option \<Rightarrow>
     ('q MemoryStore, ContactIdentityRecord) action" where
  "store_acceptContactIdentityRotation = acceptContactIdentityRotationAndDeleteSessions"

definition verifyContactIdentity ::
    "hash_fun \<Rightarrow> int \<Rightarrow> ProtocolAddress \<Rightarrow> CompositeIdentityV1 \<Rightarrow> IdentityType option \<Rightarrow> bytes option \<Rightarrow>
     ('q MemoryStore, ContactIdentityRecord) action" where
  "verifyContactIdentity sha256 now address identity identityType suppliedCommitment =
     bnd (failures_beforeWrite ''verifyContactIdentity'') (\<lambda>_.
     let key = getContactIdentityKey address identityType in
     bnd (read_store (\<lambda>s. map_of (contactIdentities s) key)) (\<lambda>existing.
     case existing of None \<Rightarrow> throw (PlainError ''Cannot verify an unseen identity'')
     | Some old \<Rightarrow>
         bnd (of_result (verifyContactIdentityRecord sha256 old identity now suppliedCommitment)) (\<lambda>verified.
         bnd (write_store (\<lambda>s. s\<lparr>contactIdentities := AList.update key verified (contactIdentities s)\<rparr>)) (\<lambda>_.
         ret verified))))"

text \<open>The direction of trust is ignored by this store.\<close>

definition isTrustedIdentity ::
    "hash_fun \<Rightarrow> ProtocolAddress \<Rightarrow> CompositeIdentityV1 \<Rightarrow> IdentityType option \<Rightarrow> ('q MemoryStore, bool) action" where
  "isTrustedIdentity sha256 address identity identityType =
     bnd (read_store (\<lambda>s. map_of (contactIdentities s) (getContactIdentityKey address identityType))) (\<lambda>saved.
     of_result (and_then (evaluateContactIdentityCandidate sha256 saved identity None) (\<lambda>status.
       Inr (status \<noteq> CHANGED \<and> status \<noteq> ROLLBACK))))"

subsection \<open>Prekeys\<close>

definition storeEcSignedPreKey :: "EcSignedPreKey \<Rightarrow> IdentityType option \<Rightarrow> ('q MemoryStore, unit) action" where
  "storeEcSignedPreKey signedPreKey identityType =
     bnd (failures_beforeWrite ''storeEcSignedPreKey'') (\<lambda>_.
     write_store (\<lambda>s. s\<lparr>ecSignedPreKeys :=
       AList.update (or_aci identityType, es_keyId signedPreKey) signedPreKey (ecSignedPreKeys s)\<rparr>))"

text \<open>The scan for the highest key identifier, from \<open>-1\<close>.\<close>

definition newest_signed :: "IdentityType \<Rightarrow> ((IdentityType \<times> nat) \<times> EcSignedPreKey) list \<Rightarrow> EcSignedPreKey option" where
  "newest_signed it keys =
     snd (fold (\<lambda>((t, keyId), value) (maxKeyId, result).
            if t = it \<and> int keyId > maxKeyId then (int keyId, Some value) else (maxKeyId, result)) keys (-1, None))"

definition getEcSignedPreKey :: "nat option \<Rightarrow> IdentityType option \<Rightarrow> ('q MemoryStore, EcSignedPreKey option) action" where
  "getEcSignedPreKey keyId identityType =
     read_store (\<lambda>s. case keyId of
         Some k \<Rightarrow> map_of (ecSignedPreKeys s) (or_aci identityType, k)
       | None \<Rightarrow> newest_signed (or_aci identityType) (ecSignedPreKeys s))"

definition of_type :: "IdentityType \<Rightarrow> ((IdentityType \<times> nat) \<times> 'k) list \<Rightarrow> 'k list" where
  "of_type it keys = map snd (filter (\<lambda>((t, _), _). t = it) keys)"

definition getAllEcSignedPreKeys :: "IdentityType option \<Rightarrow> ('q MemoryStore, EcSignedPreKey list) action" where
  "getAllEcSignedPreKeys identityType = read_store (\<lambda>s. of_type (or_aci identityType) (ecSignedPreKeys s))"

definition removeEcSignedPreKey :: "nat \<Rightarrow> IdentityType option \<Rightarrow> ('q MemoryStore, unit) action" where
  "removeEcSignedPreKey keyId identityType =
     bnd (failures_beforeWrite ''removeEcSignedPreKey'') (\<lambda>_.
     write_store (\<lambda>s. s\<lparr>ecSignedPreKeys := AList.delete (or_aci identityType, keyId) (ecSignedPreKeys s)\<rparr>))"

definition storeEcOneTimePreKeys :: "EcOneTimePreKey list \<Rightarrow> IdentityType option \<Rightarrow> ('q MemoryStore, unit) action" where
  "storeEcOneTimePreKeys prekeys identityType =
     bnd (failures_beforeWrite ''storeEcOneTimePreKeys'') (\<lambda>_.
     write_store (\<lambda>s. s\<lparr>ecOneTimePreKeys :=
       fold (\<lambda>pk. AList.update (or_aci identityType, eo_keyId pk) pk) prekeys (ecOneTimePreKeys s)\<rparr>))"

definition getEcOneTimePreKeys :: "IdentityType option \<Rightarrow> ('q MemoryStore, EcOneTimePreKey list) action" where
  "getEcOneTimePreKeys identityType = read_store (\<lambda>s. of_type (or_aci identityType) (ecOneTimePreKeys s))"

definition removeEcOneTimePreKey :: "nat \<Rightarrow> IdentityType option \<Rightarrow> ('q MemoryStore, unit) action" where
  "removeEcOneTimePreKey preKeyId identityType =
     bnd (failures_beforeWrite ''removeEcOneTimePreKey'') (\<lambda>_.
     write_store (\<lambda>s. s\<lparr>ecOneTimePreKeys := AList.delete (or_aci identityType, preKeyId) (ecOneTimePreKeys s)\<rparr>))"

definition storeKyberPreKey :: "int \<Rightarrow> string \<Rightarrow> KyberPreKey \<Rightarrow> IdentityType option \<Rightarrow> ('q MemoryStore, unit) action" where
  "storeKyberPreKey now fresh kyberPreKey identityType =
     bnd (failures_beforeWrite ''storeKyberPreKey'') (\<lambda>_.
     let it = or_aci identityType; storageKey = (it, ky_keyId kyberPreKey) in
     bnd (read_store (\<lambda>s. map_of (kyberPreKeys s) storageKey)) (\<lambda>existing.
     bnd (of_result (assertUnambiguousKyberPreKeyStore (map_option ki_key existing) kyberPreKey)) (\<lambda>_.
     if existing \<noteq> None then ret ()
     else write_store (\<lambda>s.
       let kept = (case map_of (currentKyberPreKeyIds s) it of None \<Rightarrow> kyberPreKeys s
             | Some c \<Rightarrow> (case map_of (kyberPreKeys s) (it, c) of None \<Rightarrow> kyberPreKeys s
                 | Some current \<Rightarrow> AList.update (it, c) (replace_instance now current) (kyberPreKeys s)))
       in s\<lparr>kyberPreKeys := AList.update storageKey (new_instance kyberPreKey fresh) kept,
            currentKyberPreKeyIds := AList.update it (ky_keyId kyberPreKey) (currentKyberPreKeyIds s)\<rparr>))))"

definition getKyberPreKey :: "IdentityType option \<Rightarrow> ('q MemoryStore, KyberPreKey option) action" where
  "getKyberPreKey identityType =
     read_store (\<lambda>s. Option.bind (map_of (currentKyberPreKeyIds s) (or_aci identityType)) (\<lambda>currentId.
       map_option ki_key (map_of (kyberPreKeys s) (or_aci identityType, currentId))))"

definition getKyberPreKeyById :: "nat \<Rightarrow> IdentityType option \<Rightarrow> ('q MemoryStore, (KyberPreKey \<times> string) option) action" where
  "getKyberPreKeyById keyId identityType =
     read_store (\<lambda>s. map_option (\<lambda>i. (ki_key i, instanceId i)) (map_of (kyberPreKeys s) (or_aci identityType, keyId)))"

text \<open>The state of one instance that the store hands to the lifecycle functions.\<close>

definition kyber_state :: "'q MemoryStore \<Rightarrow> IdentityType \<Rightarrow> nat \<Rightarrow> StoredKyberPreKeyState option" where
  "kyber_state s it keyId =
     map_option (\<lambda>i. \<lparr>ks_currentKeyId = Some keyId, ks_instances = [(keyId, i)]\<rparr>) (map_of (kyberPreKeys s) (it, keyId))"

definition markKyberPreKeyUsed :: "nat \<Rightarrow> nat \<Rightarrow> bytes \<Rightarrow> IdentityType option \<Rightarrow> ('q MemoryStore, unit) action" where
  "markKyberPreKeyUsed kyberPreKeyId signedPreKeyId baseKeyBytes identityType =
     bnd (failures_beforeWrite ''markKyberPreKeyUsed'') (\<lambda>_.
     let it = or_aci identityType in
     bnd (read_store (\<lambda>s. recordKyberPreKeyUseById (kyber_state s it kyberPreKeyId) it kyberPreKeyId signedPreKeyId baseKeyBytes)) (\<lambda>r.
     bnd (of_result r) (\<lambda>parent.
     write_store (\<lambda>s. s\<lparr>kyberPreKeys := AList.update (it, kyberPreKeyId) parent (kyberPreKeys s)\<rparr>))))"

definition storeKemOneTimePreKeys :: "KemOneTimePreKey list \<Rightarrow> IdentityType option \<Rightarrow> ('q MemoryStore, unit) action" where
  "storeKemOneTimePreKeys prekeys identityType =
     bnd (failures_beforeWrite ''storeKemOneTimePreKeys'') (\<lambda>_.
     write_store (\<lambda>s. s\<lparr>kemOneTimePreKeys :=
       fold (\<lambda>pk. AList.update (or_aci identityType, ko_keyId pk) pk) prekeys (kemOneTimePreKeys s)\<rparr>))"

definition getKemOneTimePreKeys :: "IdentityType option \<Rightarrow> ('q MemoryStore, KemOneTimePreKey list) action" where
  "getKemOneTimePreKeys identityType = read_store (\<lambda>s. of_type (or_aci identityType) (kemOneTimePreKeys s))"

definition getKemOneTimePreKey :: "nat \<Rightarrow> IdentityType option \<Rightarrow> ('q MemoryStore, KemOneTimePreKey option) action" where
  "getKemOneTimePreKey keyId identityType =
     read_store (\<lambda>s. map_of (kemOneTimePreKeys s) (or_aci identityType, keyId))"

definition removeKemOneTimePreKey :: "nat \<Rightarrow> IdentityType option \<Rightarrow> ('q MemoryStore, unit) action" where
  "removeKemOneTimePreKey keyId identityType =
     bnd (failures_beforeWrite ''removeKemOneTimePreKey'') (\<lambda>_.
     write_store (\<lambda>s. s\<lparr>kemOneTimePreKeys := AList.delete (or_aci identityType, keyId) (kemOneTimePreKeys s)\<rparr>))"

definition getKemOneTimePreKeyCount :: "IdentityType option \<Rightarrow> ('q MemoryStore, nat) action" where
  "getKemOneTimePreKeyCount identityType =
     read_store (\<lambda>s. length (of_type (or_aci identityType) (kemOneTimePreKeys s)))"

definition max_id :: "IdentityType \<Rightarrow> ((IdentityType \<times> nat) \<times> 'k) list \<Rightarrow> nat" where
  "max_id it keys = fold (\<lambda>((t, keyId), _) m. if t = it \<and> keyId > m then keyId else m) keys 0"

definition getEcSignedPreKeyMaxId :: "IdentityType option \<Rightarrow> ('q MemoryStore, nat) action" where
  "getEcSignedPreKeyMaxId identityType = read_store (\<lambda>s. max_id (or_aci identityType) (ecSignedPreKeys s))"

definition getKyberPreKeyMaxId :: "IdentityType option \<Rightarrow> ('q MemoryStore, nat) action" where
  "getKyberPreKeyMaxId identityType = read_store (\<lambda>s. max_id (or_aci identityType) (kyberPreKeys s))"

text \<open>The result is the number of deleted keys of each kind.\<close>

definition deleteAllPreKeys :: "IdentityType option \<Rightarrow> ('q MemoryStore, nat \<times> nat \<times> nat \<times> nat) action" where
  "deleteAllPreKeys identityType =
     bnd (failures_beforeWrite ''deleteAllPreKeys'') (\<lambda>_.
     let it = or_aci identityType in
     bnd (read_store (\<lambda>s. (length (of_type it (ecSignedPreKeys s)), length (of_type it (ecOneTimePreKeys s)),
                           length (of_type it (kyberPreKeys s)), length (of_type it (kemOneTimePreKeys s))))) (\<lambda>counts.
     bnd (write_store (\<lambda>s. s\<lparr>ecSignedPreKeys := filter (\<lambda>((t, _), _). t \<noteq> it) (ecSignedPreKeys s),
            ecOneTimePreKeys := filter (\<lambda>((t, _), _). t \<noteq> it) (ecOneTimePreKeys s),
            kyberPreKeys := filter (\<lambda>((t, _), _). t \<noteq> it) (kyberPreKeys s),
            currentKyberPreKeyIds := AList.delete it (currentKyberPreKeyIds s),
            kemOneTimePreKeys := filter (\<lambda>((t, _), _). t \<noteq> it) (kemOneTimePreKeys s)\<rparr>)) (\<lambda>_.
     ret counts)))"

subsection \<open>Session records\<close>

definition storeSessionRecord :: "ProtocolAddress \<Rightarrow> 'q SessionRecord \<Rightarrow> ('q MemoryStore, unit) action" where
  "storeSessionRecord address record =
     bnd (failures_beforeWrite ''storeSessionRecord'') (\<lambda>_.
     bnd (of_result (assertCurrentSessionRecord record)) (\<lambda>_.
     write_store (\<lambda>s. s\<lparr>sessionRecords := AList.update (getAddressKey address) record (sessionRecords s)\<rparr>)))"

text \<open>The checks of \<open>commitSessionTrust\<close> ahead of its writes; the result is the new contact record, if any.\<close>

definition commit_checks ::
    "hash_fun \<Rightarrow> int \<Rightarrow> 'q SessionTrustCommit \<Rightarrow> ('q MemoryStore, ContactIdentityRecord option) action" where
  "commit_checks sha256 now commit =
     bnd (of_result (assertCurrentSessionRecord (ct_record commit))) (\<lambda>_.
     bnd (read_store (\<lambda>s. map_of (contactIdentities s)
            (getContactIdentityKey (ct_address commit) (Some (ct_contactIdentityType commit))))) (\<lambda>existingContact.
     bnd (of_result (evaluateContactIdentityCandidate sha256 existingContact (ct_contactIdentity commit) None)) (\<lambda>contactStatus.
     bnd (of_result (throw_if (contactStatus \<noteq> NEW \<and> contactStatus \<noteq> MATCH)
            (PlainError ''Atomic session/trust commit rejected contact identity status''))) (\<lambda>_.
     bnd (if contactStatus = NEW
          then of_result (and_then (createUnverifiedContactIdentityRecord (ct_contactIdentity commit) now) (\<lambda>r. Inr (Some r)))
          else ret None) (\<lambda>newContact.
     bnd (case ct_oneTimePreKeyId commit of None \<Rightarrow> ret ()
          | Some k \<Rightarrow> bnd (read_store (\<lambda>s. map_of (ecOneTimePreKeys s) (ct_localIdentityType commit, k))) (\<lambda>key.
              of_result (throw_if (key = None)
                (PlainError ''Atomic session/trust commit cannot consume a missing EC one-time prekey'')))) (\<lambda>_.
     bnd (case ct_kemOneTimePreKeyId commit of None \<Rightarrow> ret ()
          | Some k \<Rightarrow> bnd (read_store (\<lambda>s. map_of (kemOneTimePreKeys s) (ct_localIdentityType commit, k))) (\<lambda>key.
              of_result (throw_if (key = None)
                (PlainError ''Atomic session/trust commit cannot consume a missing KEM one-time prekey'')))) (\<lambda>_.
     bnd (case ct_kyberPreKeyUse commit of None \<Rightarrow> ret ()
          | Some use \<Rightarrow> bnd (read_store (\<lambda>s. assertKyberPreKeyUse
                (kyber_state s (ct_localIdentityType commit) (kpu_kyberPreKeyId use)) (ct_localIdentityType commit) use)) (\<lambda>r.
              bnd (of_result r) (\<lambda>_. ret ()))) (\<lambda>_.
     bnd (case ct_receiveWork commit of None \<Rightarrow> ret ()
          | Some work \<Rightarrow> bnd (of_result (assertReceiveWork work (workId work))) (\<lambda>_.
              failures_beforeWrite ''putReceiveWork'')) (\<lambda>_.
     ret newContact)))))))))"

text \<open>
  The writes behind the checks. \<open>recordKyberPreKeyUse\<close> repeats the check that has just passed; its
  changed parent is written back.
\<close>

definition delete_opt :: "'k option \<Rightarrow> ('k \<times> 'v) list \<Rightarrow> ('k \<times> 'v) list" where
  "delete_opt k xs = (case k of None \<Rightarrow> xs | Some key \<Rightarrow> AList.delete key xs)"

definition commit_writes ::
    "'q SessionTrustCommit \<Rightarrow> ContactIdentityRecord option \<Rightarrow> 'q MemoryStore \<Rightarrow> 'q MemoryStore" where
  "commit_writes commit newContact s =
     (let it = ct_localIdentityType commit;
          s = (case newContact of None \<Rightarrow> s
               | Some c \<Rightarrow> s\<lparr>contactIdentities := AList.update
                   (getContactIdentityKey (ct_address commit) (Some (ct_contactIdentityType commit))) c (contactIdentities s)\<rparr>);
          s = s\<lparr>sessionRecords := AList.update (getAddressKey (ct_address commit)) (ct_record commit) (sessionRecords s),
                ecOneTimePreKeys := delete_opt (map_option (Pair it) (ct_oneTimePreKeyId commit)) (ecOneTimePreKeys s),
                kemOneTimePreKeys := delete_opt (map_option (Pair it) (ct_kemOneTimePreKeyId commit)) (kemOneTimePreKeys s)\<rparr>;
          s = (case ct_kyberPreKeyUse commit of None \<Rightarrow> s
               | Some use \<Rightarrow>
                   (case recordKyberPreKeyUse (kyber_state s it (kpu_kyberPreKeyId use)) it use of Inl _ \<Rightarrow> s
                    | Inr parent \<Rightarrow> s\<lparr>kyberPreKeys := AList.update (it, kpu_kyberPreKeyId use) parent (kyberPreKeys s)\<rparr>));
          s = (case ct_receiveWork commit of None \<Rightarrow> s
               | Some work \<Rightarrow> s\<lparr>receiveWork := AList.update (workId work) work (receiveWork s)\<rparr>)
      in (case ct_senderKeyHandoffInvalidation commit of None \<Rightarrow> s
          | Some device \<Rightarrow> s\<lparr>senderKeyHandoffs := deleteDevice device (senderKeyHandoffs s)\<rparr>))"

definition commitSessionTrust :: "hash_fun \<Rightarrow> int \<Rightarrow> 'q SessionTrustCommit \<Rightarrow> ('q MemoryStore, unit) action" where
  "commitSessionTrust sha256 now commit =
     bnd (failures_beforeWrite ''commitSessionTrust'') (\<lambda>_.
     bnd (commit_checks sha256 now commit) (\<lambda>newContact.
     write_store (commit_writes commit newContact)))"

definition readSession :: "ProtocolAddress \<Rightarrow> ('q MemoryStore, 'q SessionRecord option) action" where
  "readSession address =
     (let key = getAddressKey address in
      bnd (read_store (\<lambda>s. map_of (sessionRecords s) key)) (\<lambda>record.
      case record of None \<Rightarrow> ret None
      | Some r \<Rightarrow>
          (case assertCurrentSessionRecord r of
             Inr _ \<Rightarrow> ret (Some r)
           | Inl _ \<Rightarrow> bnd (write_store (\<lambda>s. s\<lparr>sessionRecords := AList.delete key (sessionRecords s)\<rparr>)) (\<lambda>_. ret None))))"

definition getSessionRecord :: "ProtocolAddress \<Rightarrow> ('q MemoryStore, 'q SessionRecord option) action" where
  "getSessionRecord address = readSession address"

definition deleteSessionRecord :: "ProtocolAddress \<Rightarrow> ('q MemoryStore, unit) action" where
  "deleteSessionRecord address =
     bnd (failures_beforeWrite ''deleteSessionRecord'') (\<lambda>_.
     write_store (\<lambda>s. s\<lparr>sessionRecords := AList.delete (getAddressKey address) (sessionRecords s),
       senderKeyHandoffs := deleteDevice address (senderKeyHandoffs s)\<rparr>))"

definition store_archiveCurrentSession ::
    "int \<Rightarrow> ProtocolAddress \<Rightarrow> 'q SessionState option \<Rightarrow> ('q MemoryStore, unit) action" where
  "store_archiveCurrentSession now address newSession =
     bnd (failures_beforeWrite ''archiveCurrentSession'') (\<lambda>_.
     let key = getAddressKey address in
     write_store (\<lambda>s.
       let old = map_of (sessionRecords s) key;
           s = s\<lparr>senderKeyHandoffs := deleteDevice address (senderKeyHandoffs s)\<rparr>
       in case old of
            Some r \<Rightarrow>
              let r = archiveCurrent r newSession MAX_ARCHIVED_SESSIONS;
                  r = r\<lparr>metadata := map_option (\<lambda>m. m\<lparr>md_lastSentAt := Some (Some now)\<rparr>) (metadata r)\<rparr>
              in s\<lparr>sessionRecords := AList.update key r (sessionRecords s)\<rparr>
          | None \<Rightarrow> (case newSession of None \<Rightarrow> s
              | Some n \<Rightarrow> s\<lparr>sessionRecords := AList.update key (create n) (sessionRecords s)\<rparr>)))"

definition session_key_of_user :: "js_string \<Rightarrow> js_string \<Rightarrow> bool" where
  "session_key_of_user user key = (take (length user + 1) key = user @ [46] \<or> key = user)"

definition getSessionsForUser :: "js_string \<Rightarrow> ('q MemoryStore, 'q SessionRecord list) action" where
  "getSessionsForUser user =
     bnd (read_store (\<lambda>s. map snd (filter (\<lambda>(key, record). session_key_of_user user key \<and>
            ok (assertCurrentSessionRecord record)) (sessionRecords s)))) (\<lambda>sessions.
     bnd (write_store (\<lambda>s. s\<lparr>sessionRecords := filter (\<lambda>(key, record). \<not> (session_key_of_user user key \<and>
            \<not> ok (assertCurrentSessionRecord record))) (sessionRecords s)\<rparr>)) (\<lambda>_.
     ret sessions))"

definition hasSession :: "ProtocolAddress \<Rightarrow> ('q MemoryStore, bool) action" where
  "hasSession address = read_store (\<lambda>s. map_of (sessionRecords s) (getAddressKey address) \<noteq> None)"

definition getSessionCount :: "('q MemoryStore, nat) action" where
  "getSessionCount = read_store (\<lambda>s. length (sessionRecords s))"

subsection \<open>Receive records\<close>

definition getReceiveWork :: "js_string \<Rightarrow> ('q MemoryStore, ReceiveWorkRecord option) action" where
  "getReceiveWork wid = read_store (\<lambda>s. map_of (receiveWork s) wid)"

definition putReceiveWork :: "ReceiveWorkRecord \<Rightarrow> int option \<Rightarrow> ('q MemoryStore, bool) action" where
  "putReceiveWork record expectedRevision =
     bnd (of_result (assertReceiveWork record (workId record))) (\<lambda>_.
     bnd (failures_beforeWrite ''putReceiveWork'') (\<lambda>_.
     bnd (read_store (\<lambda>s. map_of (receiveWork s) (workId record))) (\<lambda>current.
     if map_option rw_revision current \<noteq> expectedRevision then ret False
     else bnd (write_store (\<lambda>s. s\<lparr>receiveWork := AList.update (workId record) record (receiveWork s)\<rparr>)) (\<lambda>_. ret True))))"

definition listReceiveWork :: "ReceiveWorkQuery \<Rightarrow> ('q MemoryStore, ReceiveWorkRecord list) action" where
  "listReceiveWork query =
     bnd (read_store (\<lambda>s. selectReceiveWork query (map snd (receiveWork s)))) of_result"

definition receiveWorkUsage :: "js_string option \<Rightarrow> ('q MemoryStore, nat \<times> int) action" where
  "receiveWorkUsage groupId =
     read_store (\<lambda>s.
       let counted = filter (\<lambda>record. case groupId of None \<Rightarrow> True | Some g \<Rightarrow> isBlockedInGroup record g)
                       (map snd (receiveWork s))
       in (length counted, sum_list (map sizeBytes counted)))"

definition completeReceiveWork ::
    "js_string \<Rightarrow> int \<Rightarrow> (js_string \<times> js_string option) list \<Rightarrow> ('q MemoryStore, bool) action" where
  "completeReceiveWork wid expectedRevision writes =
     bnd (failures_beforeWrite ''completeReceiveWork'') (\<lambda>_.
     bnd (read_store (\<lambda>s. map_of (receiveWork s) wid)) (\<lambda>current.
     if map_option rw_revision current \<noteq> Some expectedRevision then ret False
     else bnd (write_store (\<lambda>s. s\<lparr>receiveWork := AList.delete wid (receiveWork s),
                 ms_metadata := fold (\<lambda>(key, value). case value of None \<Rightarrow> AList.delete key
                   | Some v \<Rightarrow> AList.update key v) writes (ms_metadata s)\<rparr>)) (\<lambda>_. ret True)))"

subsection \<open>The store as the session layer sees it\<close>

datatype TrustDirection = SENDING | RECEIVING

text \<open>The methods of \<open>SignalProtocolLocalStore\<close> that the session cipher calls.\<close>

record ('s, 'q) SignalProtocolLocalStore =
  st_getSessionRecord :: "ProtocolAddress \<Rightarrow> ('s, 'q SessionRecord option) action"
  st_deleteSessionRecord :: "ProtocolAddress \<Rightarrow> ('s, unit) action"
  st_isTrustedIdentity ::
    "ProtocolAddress \<Rightarrow> CompositeIdentityV1 \<Rightarrow> TrustDirection \<Rightarrow> IdentityType \<Rightarrow> ('s, bool) action"
  st_getEcSignedPreKey :: "('s, EcSignedPreKey option) action"
  st_getIdentityKey :: "('s, IdentityKeyPair option) action"
  st_commitSessionTrust :: "'q SessionTrustCommit \<Rightarrow> ('s, unit) action"

definition memory_storage :: "hash_fun \<Rightarrow> int \<Rightarrow> ('q MemoryStore, 'q) SignalProtocolLocalStore" where
  "memory_storage sha256 now =
     \<lparr>st_getSessionRecord = getSessionRecord, st_deleteSessionRecord = deleteSessionRecord,
      st_isTrustedIdentity = (\<lambda>address identity direction it. isTrustedIdentity sha256 address identity (Some it)),
      st_getEcSignedPreKey = getEcSignedPreKey None None, st_getIdentityKey = getIdentityKey None,
      st_commitSessionTrust = commitSessionTrust sha256 now\<rparr>"

section \<open>Keys of session records\<close>

lemma digit_unat: "k < 10 \<Longrightarrow> unat (of_nat (48 + k) :: 16 word) = 48 + k"
  by (subst unat_of_nat) simp

lemma decimal_digit_set: "d \<in> set (decimal_digits n) \<Longrightarrow> \<exists>k < 10. d = of_nat (48 + k)"
proof (induction n rule: decimal_digits.induct)
  case (1 n)
  have "\<exists>k < 10. of_nat (48 + n mod 10) = (of_nat (48 + k) :: 16 word)" by (rule exI [of _ "n mod 10"]) simp
  with 1 show ?case by (subst (asm) (2) decimal_digits.simps) (auto split: if_splits simp del: of_nat_add)
qed

lemma decimal_no_dot: "46 \<notin> set (decimal_digits n)"
proof
  assume "46 \<in> set (decimal_digits n)"
  then obtain k :: nat where "k < 10" "46 = (of_nat (48 + k) :: 16 word)" using decimal_digit_set by blast
  with digit_unat [of k] have "unat (46 :: 16 word) = 48 + k" by metis
  then show False by simp
qed

lemma decimal_no_minus: "45 \<notin> set (decimal_digits n)"
proof
  assume "45 \<in> set (decimal_digits n)"
  then obtain k :: nat where "k < 10" "45 = (of_nat (48 + k) :: 16 word)" using decimal_digit_set by blast
  with digit_unat [of k] have "unat (45 :: 16 word) = 48 + k" by metis
  then show False by simp
qed

definition digits_value :: "js_string \<Rightarrow> nat" where
  "digits_value ds = foldl (\<lambda>v d. 10 * v + (unat d - 48)) 0 ds"

lemma digits_value_decimal: "digits_value (decimal_digits n) = n"
proof (induction n rule: decimal_digits.induct)
  case (1 n)
  have d: "unat (of_nat (48 + n) :: 16 word) - 48 = n" if "n < 10" using that digit_unat by simp
  have m: "unat (of_nat (48 + n mod 10) :: 16 word) - 48 = n mod 10" using digit_unat [of "n mod 10"] by simp
  show ?case
  proof (cases "n < 10")
    case True
    then show ?thesis using d by (subst decimal_digits.simps) (simp add: digits_value_def del: of_nat_add)
  next
    case False
    then show ?thesis using 1 m by (subst decimal_digits.simps) (simp add: digits_value_def del: of_nat_add)
  qed
qed

lemma decimal_inj: "decimal_digits m = decimal_digits n \<longleftrightarrow> m = n"
  using digits_value_decimal by metis

lemma js_decimal_no_dot: "46 \<notin> set (js_decimal i)"
  using decimal_no_dot by (auto simp: js_decimal_def)

lemma js_decimal_inj: "js_decimal i = js_decimal j \<longleftrightarrow> i = j"
proof
  assume "js_decimal i = js_decimal j"
  then show "i = j"
    using decimal_no_minus [of "nat i"] decimal_no_minus [of "nat j"]
    by (auto simp: js_decimal_def decimal_inj split: if_splits) (metis list.set_intros(1))+
qed simp

text \<open>Two texts are cut at the last occurrence of a separator in one way only.\<close>

lemma last_separator_eq:
  assumes "xs @ c # ds = ys @ c # es" and "c \<notin> set ds" and "c \<notin> set es"
  shows "xs = ys \<and> ds = es"
  using assms by (auto simp: append_eq_append_conv2 Cons_eq_append_conv append_eq_Cons_conv)

lemma getAddressKey_inj: "getAddressKey a = getAddressKey b \<longleftrightarrow> a = b"
proof
  assume "getAddressKey a = getAddressKey b"
  then have "userId a = userId b \<and> js_decimal (deviceId a) = js_decimal (deviceId b)"
    unfolding getAddressKey_def using last_separator_eq [OF _ js_decimal_no_dot js_decimal_no_dot] by simp
  then show "a = b" by (simp add: js_decimal_inj)
qed simp

section \<open>The contract of a session store\<close>

text \<open>
  What the session layer relies on: reading gives the valid record of an address and changes no
  record; a commit or a deletion that succeeds changes the record of its address and no other; one
  that throws changes none.
\<close>

locale session_store =
  fixes st :: "('s, 'q) SignalProtocolLocalStore" and view :: "'s \<Rightarrow> ProtocolAddress \<Rightarrow> 'q SessionRecord option"
  assumes get_result: "fst (st_getSessionRecord st a s) = Inr (view s a)"
    and get_keeps: "keeps view (st_getSessionRecord st a)"
    and trusted_keeps: "keeps view (st_isTrustedIdentity st a i d t)"
    and signed_keeps: "keeps view (st_getEcSignedPreKey st)"
    and identity_keeps: "keeps view (st_getIdentityKey st)"
    and commit_ok: "st_commitSessionTrust st c s = (Inr (), s') \<Longrightarrow> view s' = (view s)(ct_address c \<mapsto> ct_record c)"
    and commit_error: "keeps_on_error view (st_commitSessionTrust st c)"
    and commit_version: "st_commitSessionTrust st c s = (Inr (), s') \<Longrightarrow> sr_version (ct_record c) = CURRENT_SESSION_RECORD_VERSION"
    and view_version: "view s a = Some r \<Longrightarrow> sr_version r = CURRENT_SESSION_RECORD_VERSION"
begin

lemmas reads_keep [keeps_intros] = get_keeps trusted_keeps signed_keeps identity_keeps

lemma get_Inr: "st_getSessionRecord st a s = (Inr r, s') \<Longrightarrow> r = view s a \<and> view s' = view s"
  using get_result [of a s] get_keeps [of a] by (simp add: keeps_def) (metis snd_conv)

text \<open>Reading after a commit gives the committed record; other addresses read as before.\<close>

lemma read_after_commit:
  assumes "st_commitSessionTrust st c s = (Inr (), s')"
  shows "fst (st_getSessionRecord st a s') =
    (if a = ct_address c then Inr (Some (ct_record c)) else fst (st_getSessionRecord st a s))"
  by (simp add: get_result commit_ok [OF assms])

end

definition session_view :: "'q MemoryStore \<Rightarrow> ProtocolAddress \<Rightarrow> 'q SessionRecord option" where
  "session_view s a = (case map_of (sessionRecords s) (getAddressKey a) of None \<Rightarrow> None
     | Some r \<Rightarrow> if ok (assertCurrentSessionRecord r) then Some r else None)"

text \<open>What a failed write may change: the counters of the failure controller.\<close>

definition beyond_failures :: "'q MemoryStore \<Rightarrow> 'q MemoryStore" where
  "beyond_failures s = s\<lparr>failures := \<lparr>fc_seed = 0, fc_writeFailureEvery = None, fc_writeOrdinal = 0, fc_scheduled = []\<rparr>\<rparr>"

lemma beforeWrite_keeps [keeps_intros]: "keeps beyond_failures (failures_beforeWrite op)"
  by (simp add: keeps_def failures_beforeWrite_def beyond_failures_def split: prod.splits)

lemma beyond_failures_eq: "beyond_failures s = beyond_failures t \<longleftrightarrow> t = s\<lparr>failures := failures t\<rparr>"
  by (cases s; cases t) (auto simp: beyond_failures_def)

lemma session_view_beyond: "beyond_failures s = beyond_failures t \<Longrightarrow> session_view s = session_view t"
  by (cases s; cases t) (auto simp: beyond_failures_def session_view_def)

lemma keeps_view: "keeps beyond_failures m \<Longrightarrow> keeps session_view m"
  by (auto simp: keeps_def intro: session_view_beyond)

lemma keeps_on_error_view: "keeps_on_error beyond_failures m \<Longrightarrow> keeps_on_error session_view m"
  by (auto simp: keeps_on_error_def intro: session_view_beyond)

lemma commit_checks_keeps: "keeps beyond_failures (commit_checks sha256 now c)"
  unfolding commit_checks_def by (intro keeps_intros)

lemma commit_keeps_on_error: "keeps_on_error beyond_failures (commitSessionTrust sha256 now c)"
  unfolding commitSessionTrust_def by (intro keeps_intros commit_checks_keeps)

lemma commit_writes_sessions:
  "sessionRecords (commit_writes c n s) = AList.update (getAddressKey (ct_address c)) (ct_record c) (sessionRecords s)"
  by (auto simp: commit_writes_def Let_def split: option.splits sum.splits)

text \<open>What the checks have established when they pass.\<close>

lemma commit_checks_Inr:
  assumes "commit_checks sha256 now c s = (Inr n, s')"
  defines "it \<equiv> ct_localIdentityType c"
  shows "assertCurrentSessionRecord (ct_record c) = Inr () \<and>
    (\<exists>status. evaluateContactIdentityCandidate sha256
        (map_of (contactIdentities s) (userId (ct_address c), ct_contactIdentityType c)) (ct_contactIdentity c) None = Inr status \<and>
      (status = MATCH \<and> n = None \<or>
       status = NEW \<and> (\<exists>r. createUnverifiedContactIdentityRecord (ct_contactIdentity c) now = Inr r \<and> n = Some r))) \<and>
    (\<forall>k. ct_oneTimePreKeyId c = Some k \<longrightarrow> map_of (ecOneTimePreKeys s) (it, k) \<noteq> None) \<and>
    (\<forall>k. ct_kemOneTimePreKeyId c = Some k \<longrightarrow> map_of (kemOneTimePreKeys s) (it, k) \<noteq> None) \<and>
    (\<forall>u. ct_kyberPreKeyUse c = Some u \<longrightarrow>
       (\<exists>p. assertKyberPreKeyUse (kyber_state s it (kpu_kyberPreKeyId u)) it u = Inr p))"
proof -
  have k: "getContactIdentityKey a (Some t) = (userId a, t)" for a t
    by (simp add: getContactIdentityKey_def)
  show ?thesis
    using assms unfolding commit_checks_def bnd_Inr k
    by (auto simp: action_eval and_then_eq_Inr bnd_Inr split: option.splits if_splits)
qed

lemma commit_Inr:
  assumes "commitSessionTrust sha256 now c s = (Inr (), s')"
  obtains n t t' where "beyond_failures t = beyond_failures s" and "beyond_failures t' = beyond_failures s"
    and "commit_checks sha256 now c t = (Inr n, t')" and "s' = commit_writes c n t'"
proof -
  from assms obtain u t n t' where t: "failures_beforeWrite ''commitSessionTrust'' s = (Inr u, t)"
    and c: "commit_checks sha256 now c t = (Inr n, t')" and s': "s' = commit_writes c n t'"
    unfolding commitSessionTrust_def bnd_Inr by (auto simp: action_simps)
  have "beyond_failures t = beyond_failures s"
    using beforeWrite_keeps [of "''commitSessionTrust''"] t unfolding keeps_def by (metis snd_conv)
  moreover have "beyond_failures t' = beyond_failures t"
    using commit_checks_keeps [of sha256 now c] c unfolding keeps_def by (metis snd_conv)
  ultimately show thesis using c s' that by simp
qed

lemma session_view_commit:
  assumes "commitSessionTrust sha256 now c s = (Inr (), s')"
  shows "session_view s' = (session_view s)(ct_address c \<mapsto> ct_record c)"
  using assms
proof (rule commit_Inr)
  fix n t t'
  assume b: "beyond_failures t = beyond_failures s" "beyond_failures t' = beyond_failures s"
    and c: "commit_checks sha256 now c t = (Inr n, t')" and s': "s' = commit_writes c n t'"
  have "ok (assertCurrentSessionRecord (ct_record c))" using commit_checks_Inr [OF c] by simp
  then have "session_view s' = (session_view t')(ct_address c \<mapsto> ct_record c)"
    by (auto simp: fun_eq_iff session_view_def s' commit_writes_sessions update_conv' getAddressKey_inj)
  then show ?thesis using session_view_beyond [OF b(2)] by simp
qed

lemma commit_record_valid:
  assumes "commitSessionTrust sha256 now c s = (Inr (), s')"
  shows "assertCurrentSessionRecord (ct_record c) = Inr ()"
  using assms by (rule commit_Inr) (use commit_checks_Inr in blast)

lemma readSession_eval:
  "fst (readSession a s) = Inr (session_view s a) \<and> session_view (snd (readSession a s)) = session_view s"
proof (cases "map_of (sessionRecords s) (getAddressKey a)")
  case (Some r)
  then show ?thesis
    by (cases "assertCurrentSessionRecord r")
      (auto simp: readSession_def Let_def session_view_def action_simps fun_eq_iff delete_conv' getAddressKey_inj split: option.splits)
qed (simp add: readSession_def Let_def session_view_def action_simps)

interpretation memory: session_store "memory_storage sha256 now" session_view
proof
  show "fst (st_getSessionRecord (memory_storage sha256 now) a s) = Inr (session_view s a)" for a s
    by (simp add: memory_storage_def getSessionRecord_def readSession_eval)
  show "keeps session_view (st_getSessionRecord (memory_storage sha256 now) a)" for a
    by (simp add: memory_storage_def getSessionRecord_def keeps_def readSession_eval)
  show "keeps session_view (st_isTrustedIdentity (memory_storage sha256 now) a i d t)" for a i d t
    unfolding memory_storage_def isTrustedIdentity_def by (simp, intro keeps_intros)
  show "keeps session_view (st_getEcSignedPreKey (memory_storage sha256 now))"
    unfolding memory_storage_def getEcSignedPreKey_def by (simp, intro keeps_intros)
  show "keeps session_view (st_getIdentityKey (memory_storage sha256 now))"
    unfolding memory_storage_def getIdentityKey_def by (simp, intro keeps_intros)
  show "session_view s' = (session_view s)(ct_address c \<mapsto> ct_record c)"
    if "st_commitSessionTrust (memory_storage sha256 now) c s = (Inr (), s')" for c s s'
    using that session_view_commit by (simp add: memory_storage_def)
  show "keeps_on_error session_view (st_commitSessionTrust (memory_storage sha256 now) c)" for c
    using keeps_on_error_view [OF commit_keeps_on_error] by (simp add: memory_storage_def)
  show "sr_version (ct_record c) = CURRENT_SESSION_RECORD_VERSION"
    if "st_commitSessionTrust (memory_storage sha256 now) c s = (Inr (), s')" for c s s'
    using that commit_record_valid assert_record_iff by (simp add: memory_storage_def) blast
  show "sr_version r = CURRENT_SESSION_RECORD_VERSION" if "session_view s a = Some r" for s a and r :: "'b SessionRecord"
    using that by (auto simp: session_view_def ok_iff assert_record_iff split: option.splits if_splits)
qed

section \<open>Effects of a commit\<close>

lemma beyond_fields:
  "beyond_failures t = beyond_failures s \<Longrightarrow>
   contactIdentities t = contactIdentities s \<and> ecOneTimePreKeys t = ecOneTimePreKeys s \<and>
   kemOneTimePreKeys t = kemOneTimePreKeys s \<and> kyberPreKeys t = kyberPreKeys s"
  by (cases s; cases t) (auto simp: beyond_failures_def)

lemma commit_writes_prekeys:
  "ecOneTimePreKeys (commit_writes c n s) =
     delete_opt (map_option (Pair (ct_localIdentityType c)) (ct_oneTimePreKeyId c)) (ecOneTimePreKeys s)"
  "kemOneTimePreKeys (commit_writes c n s) =
     delete_opt (map_option (Pair (ct_localIdentityType c)) (ct_kemOneTimePreKeyId c)) (kemOneTimePreKeys s)"
  by (auto simp: commit_writes_def Let_def split: option.splits sum.splits)

lemma commit_writes_contacts:
  "contactIdentities (commit_writes c n s) = (case n of None \<Rightarrow> contactIdentities s
     | Some r \<Rightarrow> AList.update (userId (ct_address c), ct_contactIdentityType c) r (contactIdentities s))"
  by (auto simp: commit_writes_def Let_def getContactIdentityKey_def split: option.splits sum.splits)

lemma assertKyberPreKeyUse_store:
  "assertKyberPreKeyUse (kyber_state s it (kpu_kyberPreKeyId u)) it u =
     (case map_of (kyberPreKeys s) (it, kpu_kyberPreKeyId u) of
        None \<Rightarrow> Inl (PlainError ''Kyber prekey is not retained'')
      | Some p \<Rightarrow> if instanceId p \<noteq> kpu_kyberPreKeyInstanceId u then Inl (PlainError ''Kyber prekey instance mismatch'')
          else if kyberPreKeyUseKey it u \<in> set (kyber_uses p) then Inl ReusedBaseKeyError else Inr p)"
  by (cases "map_of (kyberPreKeys s) (it, kpu_kyberPreKeyId u)")
    (simp_all add: assertKyberPreKeyUse_def kyber_state_def)

text \<open>A recorded use is refused from then on.\<close>

lemma commit_writes_kyber:
  assumes "ct_kyberPreKeyUse c = Some u"
    and "assertKyberPreKeyUse (kyber_state s (ct_localIdentityType c) (kpu_kyberPreKeyId u)) (ct_localIdentityType c) u = Inr p"
  shows "assertKyberPreKeyUse (kyber_state (commit_writes c n s) (ct_localIdentityType c) (kpu_kyberPreKeyId u))
    (ct_localIdentityType c) u = Inl ReusedBaseKeyError"
proof -
  let ?it = "ct_localIdentityType c" and ?id = "kpu_kyberPreKeyId u"
  obtain i where i: "map_of (kyberPreKeys s) (?it, ?id) = Some i" "instanceId i = kpu_kyberPreKeyInstanceId u"
    and p: "p = i"
    using assms(2) by (auto simp: assertKyberPreKeyUse_store split: option.splits if_splits)
  have "kyberPreKeys (commit_writes c n s) = AList.update (?it, ?id)
      (i\<lparr>kyber_uses := kyber_uses i @ [kyberPreKeyUseKey ?it u]\<rparr>) (kyberPreKeys s)"
    using assms p
    by (auto simp: commit_writes_def Let_def recordKyberPreKeyUse_def kyber_state_def split: option.splits)
  then show ?thesis
    using i(2) by (simp add: assertKyberPreKeyUse_store update_conv')
qed

lemma created_contact_valid:
  assumes "createUnverifiedContactIdentityRecord i now = Inr r"
  shows "validateContactIdentityRecord r = Inr () \<and> cr_identity r = i"
proof -
  have "0 \<le> now \<and> now \<le> MAX_SAFE_INTEGER" "valid_identity i"
    "r = \<lparr>cr_identity = i, trustState = UNVERIFIED_TOFU, firstSeenAt = now, lastSeenAt = now,
          verifiedAt = None, revision = 1, retiredIdentities = []\<rparr>"
    using assms by (auto simp: createUnverifiedContactIdentityRecord_def and_then_eq_Inr cloneIdentity_iff
        assertTimestamp_def)
  then show ?thesis by (simp add: validate_iff contact_ok_def times_ok_def MAX_SAFE_INTEGER_def)
qed

lemma commit_contact:
  assumes "commitSessionTrust sha256 now c s = (Inr (), s')"
  shows "\<exists>r. map_of (contactIdentities s') (userId (ct_address c), ct_contactIdentityType c) = Some r \<and>
    validateContactIdentityRecord r = Inr () \<and> cr_identity r = ct_contactIdentity c"
  using assms
proof (rule commit_Inr)
  fix n t t'
  assume b: "beyond_failures t = beyond_failures s" "beyond_failures t' = beyond_failures s"
    and c: "commit_checks sha256 now c t = (Inr n, t')" and s': "s' = commit_writes c n t'"
  let ?k = "(userId (ct_address c), ct_contactIdentityType c)"
  have t': "contactIdentities t' = contactIdentities t" using beyond_fields [of t' t] b by simp
  obtain status where e: "evaluateContactIdentityCandidate sha256 (map_of (contactIdentities t) ?k)
        (ct_contactIdentity c) None = Inr status"
    and n: "status = MATCH \<and> n = None \<or>
       status = NEW \<and> (\<exists>r. createUnverifiedContactIdentityRecord (ct_contactIdentity c) now = Inr r \<and> n = Some r)"
    using commit_checks_Inr [OF c] by blast
  from n show ?thesis
  proof
    assume m: "status = MATCH \<and> n = None"
    then obtain r where r: "map_of (contactIdentities t) ?k = Some r"
      using e by (cases "map_of (contactIdentities t) ?k")
        (auto simp: evaluateContactIdentityCandidate_def and_then_eq_Inr)
    then have "validateContactIdentityRecord r = Inr ()" "cr_identity r = ct_contactIdentity c"
      using evaluate_iff [OF e [unfolded r]] m by (auto split: if_splits)
    then show ?thesis using m r t' by (simp add: s' commit_writes_contacts)
  next
    assume "status = NEW \<and> (\<exists>r. createUnverifiedContactIdentityRecord (ct_contactIdentity c) now = Inr r \<and> n = Some r)"
    then show ?thesis using created_contact_valid by (auto simp: s' commit_writes_contacts update_conv')
  qed
qed

text \<open>A commit without prekeys succeeds for a trusted identity, unless a write failure is due.\<close>

lemma commit_plain_ok:
  assumes "fst (failures_beforeWrite ''commitSessionTrust'' s) = Inr ()"
    and "assertCurrentSessionRecord (ct_record c) = Inr ()"
    and "fst (isTrustedIdentity sha256 (ct_address c) (ct_contactIdentity c) (Some (ct_contactIdentityType c)) s) = Inr True"
    and "valid_identity (ct_contactIdentity c)" and "0 \<le> now" and "now \<le> MAX_SAFE_INTEGER"
    and "ct_oneTimePreKeyId c = None" and "ct_kemOneTimePreKeyId c = None" and "ct_kyberPreKeyUse c = None"
    and "ct_receiveWork c = None"
  shows "\<exists>s'. commitSessionTrust sha256 now c s = (Inr (), s')"
proof -
  obtain f where f: "failures_beforeWrite ''commitSessionTrust'' s = (Inr (), s\<lparr>failures := f\<rparr>)"
    using assms(1) by (auto simp: failures_beforeWrite_def split: prod.splits)
  let ?k = "getContactIdentityKey (ct_address c) (Some (ct_contactIdentityType c))"
  obtain status where e: "evaluateContactIdentityCandidate sha256 (map_of (contactIdentities s) ?k) (ct_contactIdentity c) None = Inr status"
    and "status \<noteq> CHANGED" "status \<noteq> ROLLBACK"
    using assms(3) by (auto simp: isTrustedIdentity_def action_simps and_then_eq_Inr)
  then have "status = NEW \<or> status = MATCH" by (cases status) auto
  moreover have "\<exists>r. createUnverifiedContactIdentityRecord (ct_contactIdentity c) now = Inr r"
    using assms(4-6) by (simp add: createUnverifiedContactIdentityRecord_def assertTimestamp_def)
  ultimately show ?thesis
    using f e assms(2,7-10) by (auto simp: commitSessionTrust_def commit_checks_def action_simps)
qed

lemma getSessionRecord_valid: "session_view s a = Some r \<Longrightarrow> getSessionRecord a s = (Inr (Some r), s)"
  by (auto simp: session_view_def getSessionRecord_def readSession_def Let_def action_simps ok_iff split: option.splits sum.splits if_splits)

lemma commit_trusts:
  assumes "commitSessionTrust sha256 now c s = (Inr (), s')" and "valid_identity i"
  shows "fst (isTrustedIdentity sha256 (ct_address c) i (Some (ct_contactIdentityType c)) s') =
    Inr (i = ct_contactIdentity c)"
proof -
  obtain r where r: "map_of (contactIdentities s') (userId (ct_address c), ct_contactIdentityType c) = Some r"
    and v: "validateContactIdentityRecord r = Inr ()" "cr_identity r = ct_contactIdentity c"
    using commit_contact [OF assms(1)] by blast
  have "evaluateContactIdentityCandidate sha256 (Some r) i None =
      Inr (if i = cr_identity r then MATCH else if i \<in> set (retiredIdentities r) then ROLLBACK else CHANGED)"
    by (rule evaluate_valid [OF v(1) assms(2)])
  then show ?thesis
    using r v(2) by (simp add: isTrustedIdentity_def action_simps getContactIdentityKey_def)
qed

section \<open>Properties\<close>

text \<open>
  C25. A commit of a session with its trust record and prekeys is atomic: when it throws, for whichever
  reason, nothing of the store has changed but the counters of the failure controller; when it
  succeeds, the record is the one that the next read of its address returns, every other address
  reads as before, and the consumed one-time prekeys, which were there, are gone.
\<close>

theorem commit_all_or_nothing:
  "case commitSessionTrust sha256 now c s of
     (Inl e, s') \<Rightarrow> s' = s\<lparr>failures := failures s'\<rparr>
   | (Inr _, s') \<Rightarrow>
       (\<forall>a. fst (getSessionRecord a s') =
          (if a = ct_address c then Inr (Some (ct_record c)) else fst (getSessionRecord a s))) \<and>
       (\<forall>k. ct_oneTimePreKeyId c = Some k \<longrightarrow>
          map_of (ecOneTimePreKeys s) (ct_localIdentityType c, k) \<noteq> None \<and>
          map_of (ecOneTimePreKeys s') (ct_localIdentityType c, k) = None) \<and>
       (\<forall>k. ct_kemOneTimePreKeyId c = Some k \<longrightarrow>
          map_of (kemOneTimePreKeys s) (ct_localIdentityType c, k) \<noteq> None \<and>
          map_of (kemOneTimePreKeys s') (ct_localIdentityType c, k) = None)"
proof (cases "commitSessionTrust sha256 now c s")
  case (Pair r s')
  show ?thesis
  proof (cases r)
    case (Inl e)
    then have "beyond_failures s = beyond_failures s'"
      using Pair commit_keeps_on_error [of sha256 now c] unfolding keeps_on_error_def
      by (metis fst_conv ok_simps(2) snd_conv)
    then show ?thesis using Inl Pair by (simp add: beyond_failures_eq)
  next
    case (Inr u)
    then have e: "commitSessionTrust sha256 now c s = (Inr (), s')" using Pair by simp
    then have read: "fst (getSessionRecord a s') =
        (if a = ct_address c then Inr (Some (ct_record c)) else fst (getSessionRecord a s))" for a
      using memory.read_after_commit [of sha256 now c s s' a] by (simp add: memory_storage_def)
    show ?thesis
      using e
    proof (rule commit_Inr)
      fix n t t'
      assume b: "beyond_failures t = beyond_failures s" "beyond_failures t' = beyond_failures s"
        and c: "commit_checks sha256 now c t = (Inr n, t')" and s': "s' = commit_writes c n t'"
      show ?thesis
        using read commit_checks_Inr [OF c] beyond_fields [OF b(1)] beyond_fields [OF b(2)] e
        by (auto simp: s' commit_writes_prekeys delete_opt_def delete_conv')
    qed
  qed
qed

text \<open>
  C26. Replay of prekeys: after a commit that consumed a one-time prekey, a KEM one-time prekey or a use
  of a reusable Kyber prekey, no further commit with the same one succeeds on the resulting store.
\<close>

theorem prekeys_used_once:
  assumes "commitSessionTrust sha256 now c s = (Inr (), s')"
    and "ct_localIdentityType c' = ct_localIdentityType c"
    and "ct_kyberPreKeyUse c \<noteq> None \<and> ct_kyberPreKeyUse c' = ct_kyberPreKeyUse c \<or>
         ct_oneTimePreKeyId c \<noteq> None \<and> ct_oneTimePreKeyId c' = ct_oneTimePreKeyId c \<or>
         ct_kemOneTimePreKeyId c \<noteq> None \<and> ct_kemOneTimePreKeyId c' = ct_kemOneTimePreKeyId c"
  shows "\<not> ok (fst (commitSessionTrust sha256 now' c' s'))"
proof
  assume "ok (fst (commitSessionTrust sha256 now' c' s'))"
  then obtain s'' where "commitSessionTrust sha256 now' c' s' = (Inr (), s'')"
    by (cases "commitSessionTrust sha256 now' c' s'") (auto simp: ok_iff)
  then show False
  proof (rule commit_Inr)
    fix n' t'' t'''
    assume b': "beyond_failures t'' = beyond_failures s'" and c': "commit_checks sha256 now' c' t'' = (Inr n', t''')"
    note f' = beyond_fields [OF b'] and k' = commit_checks_Inr [OF c']
    show False
      using assms(1)
    proof (rule commit_Inr)
      fix n t t'
      assume b: "beyond_failures t = beyond_failures s" "beyond_failures t' = beyond_failures s"
        and c: "commit_checks sha256 now c t = (Inr n, t')" and s': "s' = commit_writes c n t'"
      have "assertKyberPreKeyUse (kyber_state t'' (ct_localIdentityType c) (kpu_kyberPreKeyId u)) (ct_localIdentityType c) u
          = Inl ReusedBaseKeyError" if u: "ct_kyberPreKeyUse c = Some u" for u
      proof -
        obtain p where "assertKyberPreKeyUse (kyber_state t (ct_localIdentityType c) (kpu_kyberPreKeyId u)) (ct_localIdentityType c) u = Inr p"
          using commit_checks_Inr [OF c] u by blast
        moreover have "kyberPreKeys t = kyberPreKeys t'" using beyond_fields [of t t'] b by simp
        ultimately show ?thesis
          using commit_writes_kyber [OF u, of t' p n] f' by (simp add: kyber_state_def s')
      qed
      then show False
        using assms(2,3) k' f' by (auto simp: s' commit_writes_prekeys delete_opt_def delete_conv')
    qed
  qed
qed

text \<open>
  Trust on first use: after a commit, the identity that it carried is trusted for its contact and
  namespace, and no other identity is.
\<close>

theorem commit_pins_identity:
  assumes "commitSessionTrust sha256 now c s = (Inr (), s')" and "valid_identity i"
  shows "fst (isTrustedIdentity sha256 (ct_address c) i (Some (ct_contactIdentityType c)) s') =
    Inr (i = ct_contactIdentity c)"
  using assms by (rule commit_trusts)

definition no_failures :: StoreFailureController where
  "no_failures = \<lparr>fc_seed = 0, fc_writeFailureEvery = None, fc_writeOrdinal = 0, fc_scheduled = []\<rparr>"

definition sample_store :: "unit MemoryStore" where
  "sample_store = \<lparr>failures = no_failures, identityKeys = [], registrationIds = [], contactIdentities = [],
     ecSignedPreKeys = [], ecOneTimePreKeys = [((Aci, 5), \<lparr>eo_keyId = 5, eo_publicKey = [], eo_privateKey = []\<rparr>)],
     kyberPreKeys = [], currentKyberPreKeyIds = [], kemOneTimePreKeys = [], sessionRecords = [],
     senderKeyHandoffs = [], ms_metadata = [], receiveWork = [],
     senderKeys = [], senderKeyRecords = [], skippedSenderKeys = []\<rparr>"

definition sample_commit :: "unit SessionTrustCommit" where
  "sample_commit = \<lparr>ct_address = sample_address 98 1, ct_record = create (sample_session ''AA''),
     ct_contactIdentity = sample_identity 2, ct_contactIdentityType = Aci, ct_localIdentityType = Aci,
     ct_oneTimePreKeyId = Some 5, ct_kemOneTimePreKeyId = None, ct_kyberPreKeyUse = None,
     ct_receiveWork = None, ct_senderKeyHandoffInvalidation = None\<rparr>"

lemma sample_commit_ok: "\<exists>s'. commitSessionTrust (\<lambda>b. b) 7 sample_commit sample_store = (Inr (), s')"
proof -
  have "assertCurrentSessionRecord (ct_record sample_commit) = Inr ()"
    unfolding assert_record_iff by (simp add: sample_commit_def create_def sample_session_profile)
  then show ?thesis
    by (simp add: commitSessionTrust_def commit_checks_def action_simps failures_beforeWrite_def beforeWrite_def
        consumeScheduled_def sample_store_def no_failures_def evaluateContactIdentityCandidate_def
        encode_valid createUnverifiedContactIdentityRecord_def assertTimestamp_def MAX_SAFE_INTEGER_def
        sample_commit_def [unfolded create_def] sample_commit_def)
qed

theorem commit_all_or_nothing_witness:
  "\<exists>s'. commitSessionTrust (\<lambda>b. b) 7 sample_commit sample_store = (Inr (), s') \<and>
     fst (getSessionRecord (sample_address 98 1) s') = Inr (Some (create (sample_session ''AA''))) \<and>
     map_of (ecOneTimePreKeys s') (Aci, 5) = None"
proof -
  obtain s' where s': "commitSessionTrust (\<lambda>b. b) 7 sample_commit sample_store = (Inr (), s')"
    using sample_commit_ok by blast
  with commit_all_or_nothing [of sample_store sample_commit "\<lambda>b. b" 7] show ?thesis
    by (auto simp: sample_commit_def)
qed

theorem prekeys_used_once_witness:
  "\<exists>s'. commitSessionTrust (\<lambda>b. b) 7 sample_commit sample_store = (Inr (), s') \<and>
     \<not> ok (fst (commitSessionTrust (\<lambda>b. b) 8 sample_commit s'))"
proof -
  obtain s' where s': "commitSessionTrust (\<lambda>b. b) 7 sample_commit sample_store = (Inr (), s')"
    using sample_commit_ok by blast
  have "ct_oneTimePreKeyId sample_commit \<noteq> None" by (simp add: sample_commit_def)
  with prekeys_used_once [OF s', of sample_commit 8] s' show ?thesis by blast
qed

theorem commit_pins_identity_witness:
  "\<exists>s'. commitSessionTrust (\<lambda>b. b) 7 sample_commit sample_store = (Inr (), s') \<and>
     fst (isTrustedIdentity (\<lambda>b. b) (sample_address 98 1) (sample_identity 3) (Some Aci) s') = Inr False"
proof -
  obtain s' where s': "commitSessionTrust (\<lambda>b. b) 7 sample_commit sample_store = (Inr (), s')"
    using sample_commit_ok by blast
  from commit_pins_identity [OF s' sample_identity_valid [of 3]] s' show ?thesis
    by (auto simp: sample_commit_def)
qed

lemma fold_delete_iff:
  "x \<in> set (fold AList.delete ks m) \<longleftrightarrow> x \<in> set m \<and> fst x \<notin> set ks"
  by (induction ks arbitrary: m) (auto simp: AList.delete_eq)

lemma deleteWhere_map_of:
  "map_of (snd (deleteWhere g p m)) h = (if h = g
     then Option.bind (map_of m g) (\<lambda>rows. let kept = filter (\<lambda>(k, r). \<not> p r) rows in if kept = [] then None else Some kept)
     else map_of m h)"
  by (cases "map_of m g") (auto simp: deleteWhere_def Let_def delete_conv' update_conv')

lemma delete_fold_rows:
  "map_of (fold (\<lambda>g m. snd (deleteWhere g p m)) gs m) h = Some rows \<Longrightarrow>
   \<exists>old. map_of m h = Some old \<and> set rows \<subseteq> set old \<and> (h \<in> set gs \<longrightarrow> (\<forall>(k, r) \<in> set rows. \<not> p r))"
proof (induction gs arbitrary: m)
  case (Cons g gs)
  from Cons.IH [OF Cons.prems [simplified]]
  obtain old where "map_of (snd (deleteWhere g p m)) h = Some old" "set rows \<subseteq> set old"
    "h \<in> set gs \<longrightarrow> (\<forall>(k, r) \<in> set rows. \<not> p r)" by blast
  then show ?case
    by (auto simp: deleteWhere_map_of Let_def bind_eq_Some_conv split: if_splits)
qed auto

lemma snd_delete_everywhere: "snd (delete_everywhere p m) = fold (\<lambda>g m. snd (deleteWhere g p m)) (map fst m) m"
proof -
  have "snd (fold (\<lambda>g (d, m). case deleteWhere g p m of (d', m') \<Rightarrow> (d + d', m')) gs (n, m)) =
      fold (\<lambda>g m. snd (deleteWhere g p m)) gs m" for gs n and m :: SenderKeyHandoffTable
    by (induction gs arbitrary: n m) (auto split: prod.splits)
  then show ?thesis by (simp add: delete_everywhere_def)
qed

lemma delete_everywhere_rows:
  assumes "map_of (snd (delete_everywhere p m)) h = Some rows" and "(k, r) \<in> set rows"
  shows "\<not> p r"
proof -
  obtain old where "map_of m h = Some old" "h \<in> set (map fst m) \<longrightarrow> (\<forall>(k, r) \<in> set rows. \<not> p r)"
    using delete_fold_rows [OF assms(1) [unfolded snd_delete_everywhere]] by blast
  moreover from this(1) have "h \<in> set (map fst m)" by (force dest: map_of_SomeD)
  ultimately show ?thesis using assms(2) by blast
qed

lemma beforeWrite_state: "failures_beforeWrite op s = (r, t) \<Longrightarrow> t = s\<lparr>failures := failures t\<rparr>"
  by (auto simp: failures_beforeWrite_def split: prod.splits)

text \<open>
  C35. Accepting the rotation of a contact's identity leaves no session with that user: no stored record,
  current or archived, has a state whose remote user it is, no sender-key handoff to the user remains,
  and the new identity is the one on record.
\<close>

theorem rotation_deletes_sessions:
  assumes "acceptContactIdentityRotationAndDeleteSessions sha256 now a i it d s = (Inr r, s')"
  shows "(\<forall>(k, record) \<in> set (sessionRecords s'). \<not> hasSessionWith (userId a) record) \<and>
    (\<forall>g rows k h. map_of (senderKeyHandoffs s') g = Some rows \<and> (k, h) \<in> set rows \<longrightarrow> ho_recipientUserId h \<noteq> userId a) \<and>
    map_of (contactIdentities s') (getContactIdentityKey a it) = Some r \<and> cr_identity r = i"
proof -
  obtain t old where e: "acceptContactIdentityRotation sha256 old i now d = Inr r"
    and s': "s' = t\<lparr>contactIdentities := AList.update (getContactIdentityKey a it) r (contactIdentities t),
      sessionRecords := fold AList.delete (map fst (filter (\<lambda>(k, record). hasSessionWith (userId a) record) (sessionRecords t)))
        (sessionRecords t),
      senderKeyHandoffs := snd (deleteAccount (userId a) (senderKeyHandoffs t))\<rparr>"
    using assms
    by (auto simp: acceptContactIdentityRotationAndDeleteSessions_def Let_def bnd_Inr action_eval split: option.splits)
  have "cr_identity r = i" using accept_cases [OF e] by (auto split: if_splits)
  moreover have "\<forall>(k, record) \<in> set (sessionRecords s'). \<not> hasSessionWith (userId a) record"
    by (force simp: s' fold_delete_iff)
  moreover have "ho_recipientUserId h \<noteq> userId a"
    if "map_of (senderKeyHandoffs s') g = Some rows" "(k, h) \<in> set rows" for g rows k h
  proof -
    have "map_of (snd (delete_everywhere (\<lambda>h. ho_recipientUserId h = userId a) (senderKeyHandoffs t))) g = Some rows"
      using that(1) by (simp add: s' deleteAccount_def case_prod_beta)
    from delete_everywhere_rows [OF this that(2)] show ?thesis .
  qed
  moreover have "map_of (contactIdentities s') (getContactIdentityKey a it) = Some r" by (simp add: s' update_conv')
  ultimately show ?thesis by blast
qed

definition known_store :: "unit MemoryStore" where
  "known_store = sample_store\<lparr>contactIdentities := [(([98], Aci), sample_contact)],
     sessionRecords := [(getAddressKey (sample_address 98 1), create (sample_session ''AA''))]\<rparr>"

lemma rotation_sample: "\<exists>r. acceptContactIdentityRotation (\<lambda>b. b) sample_contact (sample_identity 3) 9 None = Inr r"
proof -
  have t: "assertTimestamp 9 = Inr ()" by (simp add: assertTimestamp_def MAX_SAFE_INTEGER_def)
  show ?thesis
    unfolding acceptContactIdentityRotation_def t evaluate_valid [OF sample_contact_valid sample_identity_valid]
    by (simp add: sample_contact_def)
qed

theorem rotation_deletes_sessions_witness:
  "\<exists>r s'. acceptContactIdentityRotationAndDeleteSessions (\<lambda>b. b) 9 (sample_address 98 1) (sample_identity 3) None None
      known_store = (Inr r, s') \<and> sessionRecords known_store \<noteq> [] \<and>
     (\<forall>(k, record) \<in> set (sessionRecords s'). \<not> hasSessionWith [98] record)"
proof -
  obtain r where "acceptContactIdentityRotation (\<lambda>b. b) sample_contact (sample_identity 3) 9 None = Inr r"
    using rotation_sample by blast
  then obtain s' where s': "acceptContactIdentityRotationAndDeleteSessions (\<lambda>b. b) 9 (sample_address 98 1) (sample_identity 3)
      None None known_store = (Inr r, s')"
    by (simp add: acceptContactIdentityRotationAndDeleteSessions_def Let_def action_simps failures_beforeWrite_def
        beforeWrite_def consumeScheduled_def sample_store_def no_failures_def known_store_def getContactIdentityKey_def
        sample_address_def)
  from rotation_deletes_sessions [OF this] s' show ?thesis by (auto simp: known_store_def sample_address_def)
qed

text \<open>
  C37. Receive records are updated by compare and set. After a write with an expected revision has succeeded, its record is
  stored, and a second write to the same item with the same expectation succeeds exactly when the first kept the revision
  at the expected one. So when the first write moved the revision on, the second is refused, and it changes
  nothing but the counters of the failure controller.
\<close>

theorem receive_work_compare_and_set:
  assumes "putReceiveWork w expected s = (Inr True, s')"
    and "putReceiveWork w' expected s' = (Inr b, s'')" and "workId w' = workId w"
  shows "map_of (receiveWork s') (workId w) = Some w \<and> (b \<longleftrightarrow> Some (rw_revision w) = expected) \<and>
    (\<not> b \<longrightarrow> s'' = s'\<lparr>failures := failures s''\<rparr>)"
proof -
  obtain t where "s' = t\<lparr>receiveWork := AList.update (workId w) w (receiveWork t)\<rparr>"
    using assms(1) by (auto simp: putReceiveWork_def bnd_Inr action_eval split: if_splits)
  then have s': "map_of (receiveWork s') (workId w) = Some w" by (simp add: update_conv')
  obtain u t' where t': "failures_beforeWrite ''putReceiveWork'' s' = (Inr u, t')"
    and e: "(if map_option rw_revision (map_of (receiveWork t') (workId w')) \<noteq> expected then ret False
       else bnd (write_store (\<lambda>s. s\<lparr>receiveWork := AList.update (workId w') w' (receiveWork s)\<rparr>)) (\<lambda>_. ret True)) t' = (Inr b, s'')"
    using assms(2) unfolding putReceiveWork_def bnd_Inr by (auto simp: action_eval)
  have "receiveWork t' = receiveWork s'" using beforeWrite_state [OF t'] by (metis MemoryStore.select_convs(13) MemoryStore.surjective MemoryStore.update_convs(1))
  then have "map_option rw_revision (map_of (receiveWork t') (workId w')) = Some (rw_revision w)"
    using s' assms(3) by simp
  then show ?thesis using s' e beforeWrite_state [OF t'] by (auto simp: action_eval bnd_Inr split: if_splits)
qed

definition sample_work_store :: "unit MemoryStore" where
  "sample_work_store = sample_store\<lparr>receiveWork := [([1], sample_work 1)]\<rparr>"

theorem receive_work_compare_and_set_witness:
  "\<exists>s' s''. putReceiveWork (sample_work 1\<lparr>rw_revision := 1\<rparr>) (Some 0) sample_work_store = (Inr True, s') \<and>
     putReceiveWork (sample_work 1\<lparr>rw_revision := 1\<rparr>) (Some 0) s' = (Inr False, s'')"
proof -
  let ?w = "sample_work 1\<lparr>rw_revision := 1\<rparr>"
  have p: "\<exists>b s'. putReceiveWork ?w (Some 0) s = (Inr b, s') \<and> failures s' = (failures s)\<lparr>fc_writeOrdinal := fc_writeOrdinal (failures s) + 1\<rparr> \<and>
      (map_option rw_revision (map_of (receiveWork s) [1]) = Some 0 \<longrightarrow> b)"
    if "failures s = no_failures\<lparr>fc_writeOrdinal := n\<rparr>" for s :: "unit MemoryStore" and n
    using that
    by (auto simp: putReceiveWork_def assertReceiveWork_def sample_work_def isNonEmptyString_def isSafeInteger_def
        MAX_SAFE_INTEGER_def isOptional_def action_simps failures_beforeWrite_def beforeWrite_def consumeScheduled_def
        no_failures_def)
  obtain s' where s': "putReceiveWork ?w (Some 0) sample_work_store = (Inr True, s')"
    "failures s' = no_failures\<lparr>fc_writeOrdinal := 1\<rparr>"
    using p [of sample_work_store 0] by (auto simp: sample_work_store_def sample_store_def sample_work_def no_failures_def)
  obtain b s'' where s'': "putReceiveWork ?w (Some 0) s' = (Inr b, s'')" using p [OF s'(2)] by blast
  from receive_work_compare_and_set [OF s'(1) s''] s' s'' show ?thesis by auto
qed

text \<open>
  The key of a session record determines the address, so that no two addresses share a record.
\<close>

theorem address_key_injective:
  "getAddressKey a = getAddressKey b \<longleftrightarrow> userId a = userId b \<and> deviceId a = deviceId b"
  by (cases a; cases b) (simp add: getAddressKey_inj)

text \<open>
  The lookup by user selects the record keys of the user's own devices, and besides them those of
  every user whose name continues the given one behind a dot.
\<close>

theorem sessions_for_user_keys:
  "session_key_of_user user (getAddressKey a) \<longleftrightarrow>
     userId a = user \<or> (\<exists>rest. userId a = user @ 46 # rest) \<or> getAddressKey a = user"
proof -
  have "take (length user + 1) key = user @ [46] \<longleftrightarrow> (\<exists>rest. key = user @ 46 # rest)" for key :: js_string
    by (auto intro: exI [of _ "drop (length user + 1) key"])
      (metis append.assoc append_Cons append_Nil append_take_drop_id)
  moreover have "(\<exists>rest. getAddressKey a = user @ 46 # rest) \<longleftrightarrow> userId a = user \<or> (\<exists>rest. userId a = user @ 46 # rest)"
    using js_decimal_no_dot [of "deviceId a"]
    by (auto simp: getAddressKey_def append_eq_append_conv2 Cons_eq_append_conv append_eq_Cons_conv)
  ultimately show ?thesis by (auto simp: session_key_of_user_def)
qed

end
