(* ===== verification/Key_Prefix.thy ===== *)
theory Key_Prefix
  imports Prelude
begin

text \<open>
  The 0x05 key type prefix of internal/crypto/key-prefix.ts: raw X25519 keys of 32 bytes are
  stored, keys of 33 bytes with the prefix are sent.

  Shown here: the pair \<open>serializePublicKey\<close>, \<open>deserializePublicKey\<close> is a bijection between the
  raw keys and the prefixed keys, and the two normalising functions agree with it on both forms.
\<close>

definition DJB_KEY_TYPE :: byte where "DJB_KEY_TYPE = 0x05"
definition X25519_RAW_KEY_BYTES :: nat where "X25519_RAW_KEY_BYTES = 32"
definition X25519_SERIALIZED_KEY_BYTES :: nat where "X25519_SERIALIZED_KEY_BYTES = 33"

definition serializePublicKey :: "bytes \<Rightarrow> bytes result" where
  "serializePublicKey rawKey =
     (if length rawKey \<noteq> X25519_RAW_KEY_BYTES
      then Inl (PlainError ''Cannot serialize: expected 32-byte raw key'')
      else Inr (DJB_KEY_TYPE # rawKey))"

definition deserializePublicKey :: "bytes \<Rightarrow> bytes result" where
  "deserializePublicKey serialized =
     (if length serialized \<noteq> X25519_SERIALIZED_KEY_BYTES
      then Inl (PlainError ''Cannot deserialize: expected 33-byte serialized key'')
      else if serialized ! 0 \<noteq> DJB_KEY_TYPE then Inl (PlainError ''Invalid key type prefix'')
      else Inr (drop 1 serialized))"

definition isSerializedPublicKey :: "bytes \<Rightarrow> bool" where
  "isSerializedPublicKey key =
     (length key = X25519_SERIALIZED_KEY_BYTES \<and> key ! 0 = DJB_KEY_TYPE)"

definition ensureSerializedPublicKey :: "bytes \<Rightarrow> bytes result" where
  "ensureSerializedPublicKey key =
     (if length key = X25519_RAW_KEY_BYTES then serializePublicKey key
      else if length key = X25519_SERIALIZED_KEY_BYTES
      then if key ! 0 \<noteq> DJB_KEY_TYPE then Inl (PlainError ''Invalid key type prefix'') else Inr key
      else Inl (PlainError ''Invalid key length''))"

definition ensureRawPublicKey :: "bytes \<Rightarrow> bytes result" where
  "ensureRawPublicKey key =
     (if length key = X25519_RAW_KEY_BYTES then Inr key
      else if length key = X25519_SERIALIZED_KEY_BYTES then deserializePublicKey key
      else Inl (PlainError ''Invalid key length''))"

lemmas key_prefix_sizes [simp] = X25519_RAW_KEY_BYTES_def X25519_SERIALIZED_KEY_BYTES_def

definition prefixed :: "bytes \<Rightarrow> bytes" where
  "prefixed key = DJB_KEY_TYPE # key"

lemma serializePublicKey_eq [simp]: "length key = 32 \<Longrightarrow> serializePublicKey key = Inr (prefixed key)"
  by (simp add: serializePublicKey_def prefixed_def)

lemma length_prefixed [simp]: "length (prefixed key) = Suc (length key)"
  by (simp add: prefixed_def)

lemma prefixed_inj [simp]: "prefixed a = prefixed b \<longleftrightarrow> a = b"
  by (simp add: prefixed_def)

lemma deserializePublicKey_iff:
  "deserializePublicKey s = Inr key \<longleftrightarrow> length key = 32 \<and> s = prefixed key"
  by (cases s) (auto simp: deserializePublicKey_def prefixed_def)

lemma deserialize_prefixed [simp]: "length key = 32 \<Longrightarrow> deserializePublicKey (prefixed key) = Inr key"
  by (simp add: deserializePublicKey_iff)

interpretation key_prefix: canonical_codec "\<lambda>key. length key = X25519_RAW_KEY_BYTES" prefixed
    deserializePublicKey "\<lambda>_. True"
  by unfold_locales (auto simp: deserializePublicKey_iff)

lemma isSerializedPublicKey_iff:
  "isSerializedPublicKey s \<longleftrightarrow> (\<exists>key. length key = 32 \<and> s = prefixed key)"
  by (cases s) (auto simp: isSerializedPublicKey_def prefixed_def)

lemma ensureRawPublicKey_iff:
  "ensureRawPublicKey s = Inr key \<longleftrightarrow> length key = 32 \<and> (s = key \<or> s = prefixed key)"
  by (auto simp: ensureRawPublicKey_def deserializePublicKey_iff)

lemma ensureSerializedPublicKey_iff:
  "ensureSerializedPublicKey s = Inr t \<longleftrightarrow>
   (\<exists>key. length key = 32 \<and> (s = key \<or> s = prefixed key) \<and> t = prefixed key)"
proof (cases "length s = 33")
  case True
  then show ?thesis
    by (cases s) (auto simp: ensureSerializedPublicKey_def prefixed_def)
next
  case False
  then show ?thesis by (auto simp: ensureSerializedPublicKey_def)
qed

text \<open>
  Normalising a key to the wire form succeeds exactly on the keys that can be normalised to
  the raw form, and the wire form it gives is the prefix followed by this raw form; a key that is
  neither a raw key nor a prefixed key is refused by both.
\<close>

theorem ensure_forms_agree:
  "(ensureSerializedPublicKey s = Inr t \<longleftrightarrow>
    (\<exists>key. ensureRawPublicKey s = Inr key \<and> serializePublicKey key = Inr t)) \<and>
   (isSerializedPublicKey t \<longleftrightarrow> ok (deserializePublicKey t))"
  by (auto simp: ensureSerializedPublicKey_iff ensureRawPublicKey_iff isSerializedPublicKey_iff
      ok_iff deserializePublicKey_iff)

end
