(* ===== verification/Padding.thy ===== *)
theory Padding
  imports Prelude
begin

text \<open>
  The length-hiding padding of internal/crypto/symmetric/padding.ts: \<open>padMessage\<close> fills a
  message up to a multiple of 160 bytes with the byte 0x80 and zero bytes, \<open>unpadMessage\<close> scans
  from the end for the 0x80. The quotient \<open>Math.ceil(n / 160)\<close> is \<open>(n + 159) div 160\<close>.

  Shown here: unpadding accepts exactly the texts of the form message, 0x80, zeros, it inverts
  padding, and the padded length is the least multiple of 160 above the message length.
\<close>

section \<open>Definitions\<close>

definition PADDING_BUCKET_SIZE :: nat where
  "PADDING_BUCKET_SIZE = 160"

definition PADDING_TERMINATOR :: byte where
  "PADDING_TERMINATOR = 0x80"

definition padMessage :: "bytes \<Rightarrow> bytes" where
  "padMessage message =
     (let paddedLength = (length message + 1 + (PADDING_BUCKET_SIZE - 1)) div PADDING_BUCKET_SIZE
                           * PADDING_BUCKET_SIZE;
          padded = replicate paddedLength 0;
          padded = message @ drop (length message) padded
      in padded[length message := PADDING_TERMINATOR])"

text \<open>The loop of \<open>unpadMessage\<close>: \<open>scan_terminator padded n\<close> looks at the indices \<open>n - 1, \<dots>, 0\<close>.\<close>

fun scan_terminator :: "bytes \<Rightarrow> nat \<Rightarrow> nat result" where
  "scan_terminator padded 0 = Inl (PlainError ''Invalid padding'')"
| "scan_terminator padded (Suc i) =
     (if padded ! i = PADDING_TERMINATOR then Inr i
      else if padded ! i \<noteq> 0 then Inl (PlainError ''Invalid padding'')
      else scan_terminator padded i)"

definition unpadMessage :: "bytes \<Rightarrow> bytes result" where
  "unpadMessage padded =
     and_then (scan_terminator padded (length padded)) (\<lambda>terminatorIndex.
       Inr (js_slice 0 terminatorIndex padded))"

section \<open>Lemmas\<close>

lemma PADDING_TERMINATOR_nonzero [simp]: "PADDING_TERMINATOR \<noteq> 0"
  by (simp add: PADDING_TERMINATOR_def)

lemma padMessage_eq:
  "padMessage m = m @ PADDING_TERMINATOR # replicate (159 - length m mod 160) 0"
proof -
  define q r where "q = length m div 160" and "r = length m mod 160"
  then have m: "length m = 160 * q + r" and r: "r < 160" by simp_all
  have "(160 * q + r + 160) div 160 = q + 1"
    using r by (intro div_nat_eqI) auto
  then have "(length m + 160) div 160 * 160 = length m + Suc (159 - r)"
    unfolding m using r by simp
  then have n: "(160 + length m) div 160 * 160 = length m + Suc (159 - length m mod 160)"
    by (simp add: r_def add.commute)
  have "160 - length m mod 160 = Suc (159 - length m mod 160)" using r by (simp add: r_def)
  with n show ?thesis
    by (simp add: padMessage_def PADDING_BUCKET_SIZE_def Let_def list_update_append)
qed

lemma scan_terminator_eq_Inr:
  "n \<le> length p \<Longrightarrow> scan_terminator p n = Inr i \<longleftrightarrow>
     i < n \<and> p ! i = PADDING_TERMINATOR \<and> (\<forall>j. i < j \<and> j < n \<longrightarrow> p ! j = 0)"
proof (induction n)
  case (Suc n)
  then show ?case by (auto simp: less_Suc_eq)
qed simp

lemma unpadMessage_eq_Inr:
  "unpadMessage p = Inr m \<longleftrightarrow> (\<exists>k. p = m @ PADDING_TERMINATOR # replicate k 0)"
proof
  assume "unpadMessage p = Inr m"
  then obtain i where i: "i < length p" "p ! i = PADDING_TERMINATOR"
      "\<forall>j. i < j \<and> j < length p \<longrightarrow> p ! j = 0" and m: "m = take i p"
    by (auto simp: unpadMessage_def and_then_eq_Inr scan_terminator_eq_Inr)
  have "drop (Suc i) p = replicate (length p - Suc i) 0"
    using i(3) by (auto simp: list_eq_iff_nth_eq)
  with i m have "p = m @ PADDING_TERMINATOR # replicate (length p - Suc i) 0"
    by (metis id_take_nth_drop)
  then show "\<exists>k. p = m @ PADDING_TERMINATOR # replicate k 0" ..
next
  assume "\<exists>k. p = m @ PADDING_TERMINATOR # replicate k 0"
  then obtain k where p: "p = m @ PADDING_TERMINATOR # replicate k 0" ..
  have "scan_terminator p (length p) = Inr (length m)"
    unfolding scan_terminator_eq_Inr [OF order_refl] by (auto simp: p nth_append nth_Cons')
  then show "unpadMessage p = Inr m" by (simp add: unpadMessage_def p)
qed

lemma unpad_pad [simp]: "unpadMessage (padMessage m) = Inr m"
  by (auto simp: unpadMessage_eq_Inr padMessage_eq)

interpretation padding: codec "\<lambda>_. True" padMessage unpadMessage
  by unfold_locales simp

section \<open>Properties\<close>

text \<open>
  Unpadding returns a message exactly on the texts that are this message followed by the
  byte 0x80 and any number of zero bytes; every padded message is such a text, so unpadding
  inverts padding, and a text with no terminator or with another byte behind it is refused.
\<close>

theorem unpad_accepts_exactly_padded:
  "(unpadMessage p = Inr m \<longleftrightarrow> (\<exists>k. p = m @ PADDING_TERMINATOR # replicate k 0)) \<and>
   unpadMessage (padMessage m) = Inr m"
  by (simp add: unpadMessage_eq_Inr padding.dec_enc)

text \<open>
  The padded length is a multiple of 160, it exceeds the message length by 1 to 160 bytes,
  and it depends on the bucket of the message length only, so two messages of the same bucket
  have padded texts of the same length.
\<close>

theorem padMessage_length:
  "length (padMessage m) = (length m div 160 + 1) * 160 \<and>
   length m < length (padMessage m) \<and> length (padMessage m) \<le> length m + 160 \<and>
   (length (padMessage m) = length (padMessage m') \<longleftrightarrow> length m div 160 = length m' div 160)"
proof -
  have len: "length (padMessage x) = (length x div 160 + 1) * 160" for x
  proof -
    define q r where "q = length x div 160" and "r = length x mod 160"
    then have "length x = 160 * q + r" and "r < 160" by simp_all
    then show ?thesis unfolding padMessage_eq r_def [symmetric] q_def [symmetric] by simp
  qed
  moreover have "length m mod 160 < 160" "length m = 160 * (length m div 160) + length m mod 160"
    by simp_all
  ultimately show ?thesis by simp
qed

end
