(* ===== verification/Session_Cipher.thy ===== *)
theory Session_Cipher
  imports Session_Ratchet Memory_Store Key_Prefix Padding
begin

text \<open>
  The session cipher: internal/session/decryption.ts and the encryption half of
  internal/session/cipher.ts. (Decryption is the theory Session_Decrypt.)

  The members of the cipher and what it imports from outside this layer are the record \<open>Cipher\<close>: the
  store, the limit on skipped messages, HMAC, SHA-256, X25519, the AES functions of the platform, the
  clock and the random key pairs of the call, the callback that establishes a session, and the three
  entry points of the post-quantum ratchet, which keep their own state \<open>'q\<close> inside the session.
  \<open>spqrSkippedKey\<close> is the key that a skipped message takes from that state, from its opaque bytes.

  A session is cloned when it is read, so that the functions work on a value and give it back; an
  error discards it. The calls run under the lock of their session and are one action each.

  Shown here: what is encrypted is decrypted by the peer with the same message key and is
  authenticated for exactly the two identities and addresses of the session; encryption advances the
  chain by one step and stores the session only after the message is complete.
\<close>

section \<open>Definitions\<close>

subsection \<open>Messages\<close>

record RatchetMessage =
  rm_ratchetKey :: Base64
  rm_counter :: nat
  rm_previousCounter :: nat
  rm_ciphertext :: Base64
  rm_mac :: Base64

record PreKeyMessage = RatchetMessage +
  pm_senderId :: js_string
  pm_senderDeviceId :: int
  pm_senderIdentity :: CompositeIdentityV1
  pm_senderEphemeralKey :: Base64
  pm_senderRegistrationId :: int
  pm_recipientIdentityType :: IdentityType
  pm_usedSignedPreKeyId :: int
  pm_usedOneTimePreKeyId :: "int option"
  pm_usedKyberPreKeyId :: "int option"
  pm_kyberCiphertext :: "Base64 option"
  pm_usedKemOneTimePreKeyId :: "int option"
  pm_kemOneTimePreKeyCiphertext :: "Base64 option"

record ProtobufMacContext =
  serializedForMac :: bytes
  mc_mac :: bytes
  mc_addresses :: bytes

subsection \<open>The cipher\<close>

record ('s, 'q) Cipher =
  keyStorage :: "('s, 'q) SignalProtocolLocalStore"
  maxSkip :: nat
  establishSession :: "ProtocolAddress \<Rightarrow> PreKeyMessage \<Rightarrow> ('s, 'q SessionState) action"
  c_hmac :: hmac_fun
  c_sha256 :: hash_fun
  computeSharedSecret :: dh_fun
  encryptAes :: "bytes \<Rightarrow> bytes \<Rightarrow> bytes \<Rightarrow> bytes result"
  decryptAes :: "bytes \<Rightarrow> bytes \<Rightarrow> bytes \<Rightarrow> bytes result"
  spqrSend :: "'q \<Rightarrow> ((bytes \<times> bytes option) \<times> 'q) result"
  spqrRecv :: "'q \<Rightarrow> bytes option \<Rightarrow> (bytes option \<times> 'q) result"
  spqrSkippedKey :: "'q \<Rightarrow> bytes \<Rightarrow> (bytes option \<times> 'q) result"
  freshKeyPair :: "nat \<Rightarrow> RatchetKeyPair"
  dateNow :: int

definition DEFAULT_MAX_SKIP :: nat where "DEFAULT_MAX_SKIP = 25000"

definition MAX_UNACKNOWLEDGED_SESSION_AGE_MS :: int where
  "MAX_UNACKNOWLEDGED_SESSION_AGE_MS = 30 * 24 * 60 * 60 * 1000"

definition identityTypeToWire :: "IdentityType \<Rightarrow> int" where
  "identityTypeToWire identityType = (if identityType = Aci then 1 else 2)"

definition identityTypeFromWire :: "int \<Rightarrow> IdentityType result" where
  "identityTypeFromWire value =
     (if value = 1 then Inr Aci else if value = 2 then Inr Pni
      else Inl (PlainError ''Recipient identity type must be ACI=1 or PNI=2''))"

definition wrapSession :: "'q SessionState \<Rightarrow> 'q SessionRecord" where
  "wrapSession session = \<lparr>currentSession = Some session, archivedSessions = [],
     sr_version = CURRENT_SESSION_RECORD_VERSION, metadata = None\<rparr>"

definition markSessionAcknowledged :: "'q SessionState \<Rightarrow> 'q SessionState" where
  "markSessionAcknowledged session = session\<lparr>hasReceivedMessage := Some True,
     unacknowledgedPreKeyMessage := Some False, kyberCiphertext := None, kemOneTimePreKeyCiphertext := None\<rparr>"

subsection \<open>AES-CBC with base64 text\<close>

definition aesCbcEncrypt :: "('s, 'q) Cipher \<Rightarrow> bytes \<Rightarrow> bytes \<Rightarrow> bytes \<Rightarrow> Base64 result" where
  "aesCbcEncrypt c key vector plaintext =
     and_then (encryptAes c key vector plaintext) (\<lambda>encrypted. Inr (bytesToBase64 encrypted))"

definition aesCbcDecrypt :: "('s, 'q) Cipher \<Rightarrow> bytes \<Rightarrow> bytes \<Rightarrow> Base64 \<Rightarrow> bytes result" where
  "aesCbcDecrypt c key vector ciphertext =
     (case and_then (base64ToBytes ciphertext) (decryptAes c key vector) of
        Inl _ \<Rightarrow> Inl (PlainError ''Decryption failed'')
      | Inr decrypted \<Rightarrow> Inr decrypted)"

subsection \<open>decryption.ts\<close>

definition createProtobufMacContext :: "bytes \<Rightarrow> bytes \<Rightarrow> bytes \<Rightarrow> ProtobufMacContext result" where
  "createProtobufMacContext framedMessage envelopeMac addresses =
     (if length envelopeMac = 0 \<or> length framedMessage \<le> length envelopeMac
      then Inl (EncryptionError INVALID_CIPHERTEXT)
      else if length addresses = 0 then Inl (EncryptionError INVALID_CIPHERTEXT)
      else Inr \<lparr>serializedForMac = take (length framedMessage - length envelopeMac) framedMessage,
                mc_mac = envelopeMac, mc_addresses = addresses\<rparr>)"

text \<open>\<open>decryptWithKey\<close> with the context of a protobuf message, as the cipher calls it.\<close>

definition decryptWithKey ::
    "('s, 'q) Cipher \<Rightarrow> bytes \<Rightarrow> Base64 \<Rightarrow> 'q SessionState \<Rightarrow> ProtobufMacContext \<Rightarrow> bytes option \<Rightarrow> js_string result" where
  "decryptWithKey c messageKey ciphertext session context optionalPqSalt =
     and_then (expandMessageKey (c_hmac c) messageKey optionalPqSalt) (\<lambda>keys.
     and_then (verifyCompositeIdentityMessageMac (c_hmac c) (c_sha256 c) (authKey keys)
                 (remoteIdentity session) (localIdentity session) (serializedForMac context) (mc_mac context)) (\<lambda>macValid.
     if \<not> macValid then Inl (EncryptionError DECRYPTION_FAILED)
     else if signalProtocolMessageAddressesEqual (mc_addresses context) (remoteAddress session) (localAddress session) \<noteq> Inr True
     then Inl (EncryptionError DECRYPTION_FAILED)
     else and_then (aesCbcDecrypt c (encryptionKey keys) (iv keys) ciphertext) (\<lambda>paddedPlaintext.
          and_then (unpadMessage paddedPlaintext) utf8Decode)))"

definition trySkippedMessageKeys ::
    "('s, 'q) Cipher \<Rightarrow> 'q SessionState \<Rightarrow> RatchetMessage \<Rightarrow> ProtobufMacContext \<Rightarrow> bytes option \<Rightarrow>
     (js_string option \<times> 'q SessionState) result" where
  "trySkippedMessageKeys c session message context pqRatchetBytes =
     and_then (tryGetSkippedKey session (rm_ratchetKey message) (rm_counter message)) (\<lambda>(messageKeyBytes, session).
     case messageKeyBytes of
       None \<Rightarrow> Inr (None, session)
     | Some key \<Rightarrow>
         and_then
           (case (tripleRatchet session, pqRatchetBytes) of
              (Some tr, Some pq) \<Rightarrow>
                if tr_enabled tr \<and> pq \<noteq> [] then
                  and_then (spqrSkippedKey c (spqrState tr) pq) (\<lambda>(pqMessageKey, q).
                  Inr (pqMessageKey, session\<lparr>tripleRatchet := Some (tr\<lparr>spqrState := q\<rparr>)\<rparr>))
                else Inr (None, session)
            | _ \<Rightarrow> Inr (None, session)) (\<lambda>(pqMessageKeySalt, session).
         and_then (decryptWithKey c key (rm_ciphertext message) session context pqMessageKeySalt) (\<lambda>plaintext.
         Inr (Some plaintext, session))))"

subsection \<open>Encryption\<close>

text \<open>The checks ahead of the key derivation; the session they return has its expired keys removed.\<close>

definition encrypt_load :: "('s, 'q) Cipher \<Rightarrow> ProtocolAddress \<Rightarrow> ('s, 'q SessionRecord \<times> 'q SessionState) action" where
  "encrypt_load c address =
     bnd (st_getSessionRecord (keyStorage c) address) (\<lambda>stored.
     bnd (case stored of None \<Rightarrow> ret ()
          | Some record \<Rightarrow>
              if sr_version record \<noteq> CURRENT_SESSION_RECORD_VERSION
              then bnd (st_deleteSessionRecord (keyStorage c) address) (\<lambda>_. throw (EncryptionError SESSION_NOT_FOUND))
              else ret ()) (\<lambda>_.
     case Option.bind stored (\<lambda>record. map_option (Pair record) (currentSession record)) of
       None \<Rightarrow> throw (EncryptionError SESSION_NOT_FOUND)
     | Some (record, session) \<Rightarrow>
         bnd (of_result (validateSessionStateIntegrity session)) (\<lambda>_.
         bnd (of_result (assertValidatedSession session)) (\<lambda>_.
         bnd (st_isTrustedIdentity (keyStorage c) address (remoteIdentity session) SENDING (remoteIdentityType session)) (\<lambda>isTrusted.
         if \<not> isTrusted then throw (EncryptionError UNTRUSTED_IDENTITY)
         else if hasReceivedMessage session = Some False \<and> dateNow c - createdAt session > MAX_UNACKNOWLEDGED_SESSION_AGE_MS
         then throw (EncryptionError SESSION_NOT_FOUND)
         else bnd (st_getEcSignedPreKey (keyStorage c)) (\<lambda>signedPreKey.
              bnd (case signedPreKey of None \<Rightarrow> ret ()
                   | Some key \<Rightarrow> of_result (validateSessionKeyOwnership session (Some (es_publicKey key)))) (\<lambda>_.
              ret (record, cleanupExpiredMessageKeys session DEFAULT_RATCHET_CONFIG (dateNow c)))))))))"

text \<open>The message key, the post-quantum salt and the opaque bytes, with the advanced session.\<close>

definition derive_send_key ::
    "('s, 'q) Cipher \<Rightarrow> 'q SessionState \<Rightarrow> (bytes \<times> bytes option \<times> bytes option \<times> 'q SessionState) result" where
  "derive_send_key c session =
     (case tripleRatchet session of
        Some tr \<Rightarrow>
          if tr_enabled tr then
            and_then (deriveSendingKey (c_hmac c) session) (\<lambda>(messageKey, session).
            and_then (spqrSend c (spqrState tr)) (\<lambda>((msgBytes, pqKey), q).
            Inr (messageKey, pqKey, if msgBytes = [] then None else Some msgBytes,
                 session\<lparr>tripleRatchet := Some (tr\<lparr>spqrState := q\<rparr>)\<rparr>)))
          else and_then (deriveSendingKey (c_hmac c) session) (\<lambda>(messageKey, session). Inr (messageKey, None, None, session))
      | None \<Rightarrow> and_then (deriveSendingKey (c_hmac c) session) (\<lambda>(messageKey, session). Inr (messageKey, None, None, session)))"

text \<open>The namespace that an unacknowledged prekey message authenticates.\<close>

definition authenticatedRecipientIdentityType :: "'q SessionState \<Rightarrow> int option result" where
  "authenticatedRecipientIdentityType session =
     (if unacknowledgedPreKeyMessage session = Some True then
        (case recipientIdentityType session of
           None \<Rightarrow> Inl (EncryptionError SESSION_CORRUPTED)
         | Some it \<Rightarrow> Inr (Some (identityTypeToWire it)))
      else Inr None)"

definition build_signal_message ::
    "('s, 'q) Cipher \<Rightarrow> 'q SessionState \<Rightarrow> ProtocolAddress \<Rightarrow> nat \<Rightarrow> bytes \<Rightarrow> bytes option \<Rightarrow> bytes option \<Rightarrow> js_string \<Rightarrow>
     (bytes \<times> int option) result" where
  "build_signal_message c session address counter messageKey pqSalt pqRatchetBytes plaintext =
     and_then (expandMessageKey (c_hmac c) messageKey pqSalt) (\<lambda>keys.
     and_then (required (DHs session)) (\<lambda>dhs.
     and_then (aesCbcEncrypt c (encryptionKey keys) (iv keys) (padMessage (stringToBytes plaintext))) (\<lambda>ciphertextBase64.
     and_then (and_then (base64ToBytes (publicKey dhs)) ensureSerializedPublicKey) (\<lambda>ratchetKeyBytes33.
     and_then (base64ToBytes ciphertextBase64) (\<lambda>ciphertextBytes.
     and_then (authenticatedRecipientIdentityType session) (\<lambda>recipientType.
     and_then (serializeSignalProtocolMessageAddresses (localAddress session) address) (\<lambda>addresses.
     and_then (encodeSignalProtocolMessage
       \<lparr>sm_ratchetKey = ratchetKeyBytes33, sm_counter = int counter, sm_previousCounter = int (PN session),
        sm_ciphertext = ciphertextBytes, sm_pqRatchet = pqRatchetBytes, sm_addresses = addresses,
        sm_recipientIdentityType = recipientType\<rparr>) (\<lambda>protobufBytes.
     let forMac = of_nat (makeVersionByte CIPHERTEXT_MESSAGE_CURRENT_VERSION) # protobufBytes in
     and_then (computeCompositeIdentityMessageMac (c_hmac c) (c_sha256 c) (authKey keys)
                 (localIdentity session) (remoteIdentity session) forMac) (\<lambda>macBytes.
     and_then (frameSignalProtocolMessage protobufBytes macBytes) (\<lambda>framed.
     Inr (framed, recipientType)))))))))))"

definition optional_bytes :: "Base64 option \<Rightarrow> bytes option result" where
  "optional_bytes b = (if falsy b then Inr None else and_then (base64ToBytes (the b)) (\<lambda>bs. Inr (Some bs)))"

definition wrap_prekey_message ::
    "'q SessionState \<Rightarrow> bytes \<Rightarrow> int option \<Rightarrow> bytes result" where
  "wrap_prekey_message session framed recipientType =
     and_then (required (DHs session)) (\<lambda>dhs.
     and_then (and_then (base64ToBytes (publicKey dhs)) ensureSerializedPublicKey) (\<lambda>baseKeyBytes.
     and_then (encodeCompositeIdentityV1 (localIdentity session)) (\<lambda>identityBytes.
     and_then (required (usedSignedPreKeyId session)) (\<lambda>signedId.
     and_then (required recipientType) (\<lambda>recipient.
     and_then (optional_bytes (kyberCiphertext session)) (\<lambda>kyber.
     and_then (optional_bytes (kemOneTimePreKeyCiphertext session)) (\<lambda>kem.
     and_then (encodePreKeySignalProtocolMessage
       \<lparr>pk_ecOneTimePreKeyId = map_option int (usedOneTimePreKeyId session), pk_baseKey = baseKeyBytes,
        pk_identityKey = identityBytes, pk_message = framed, pk_registrationId = int (localRegistrationId session),
        pk_ecSignedPreKeyId = int signedId, pk_kemLastResortPreKeyId = map_option int (usedKyberPreKeyId session),
        pk_kemLastResortCiphertext = kyber, pk_kemOneTimePreKeyId = map_option int (usedKemOneTimePreKeyId session),
        pk_kemOneTimeCiphertext = kem, pk_recipientIdentityType = recipient\<rparr>) (\<lambda>preKeyProtobuf.
     Inr (framePreKeySignalProtocolMessage preKeyProtobuf)))))))))"

definition encrypt_commit :: "ProtocolAddress \<Rightarrow> 'q SessionRecord \<Rightarrow> 'q SessionState \<Rightarrow> 'q SessionTrustCommit" where
  "encrypt_commit address record session =
     \<lparr>ct_address = address, ct_record = record\<lparr>currentSession := Some session\<rparr>,
      ct_contactIdentity = remoteIdentity session, ct_contactIdentityType = remoteIdentityType session,
      ct_localIdentityType = localIdentityType session, ct_oneTimePreKeyId = None, ct_kemOneTimePreKeyId = None,
      ct_kyberPreKeyUse = None, ct_receiveWork = None, ct_senderKeyHandoffInvalidation = None\<rparr>"

definition encrypt_body :: "('s, 'q) Cipher \<Rightarrow> ProtocolAddress \<Rightarrow> js_string \<Rightarrow> ('s, Base64) action" where
  "encrypt_body c address plaintext =
     bnd (encrypt_load c address) (\<lambda>(record, session).
     let originalNs = Ns session in
     bnd (of_result (derive_send_key c session)) (\<lambda>(messageKey, pqSalt, pqRatchetBytes, session).
     bnd (of_result (build_signal_message c session address originalNs messageKey pqSalt pqRatchetBytes plaintext)) (\<lambda>(framed, recipientType).
     let session = session\<lparr>lastUsedAt := dateNow c\<rparr> in
     bnd (if unacknowledgedPreKeyMessage session = Some True then
            bnd (st_getIdentityKey (keyStorage c)) (\<lambda>identityKey.
            if identityKey = None then throw (EncryptionError INITIALIZATION_FAILED)
            else of_result (and_then (wrap_prekey_message session framed recipientType) (\<lambda>bs. Inr (bytesToBase64 bs))))
          else ret (bytesToBase64 framed)) (\<lambda>encodedCiphertext.
     bnd (st_commitSessionTrust (keyStorage c) (encrypt_commit address record session)) (\<lambda>_.
     ret encodedCiphertext)))))"

definition encrypt_error :: "js_error \<Rightarrow> js_error" where
  "encrypt_error e = (case e of EncryptionError _ \<Rightarrow> e | PlainError _ \<Rightarrow> EncryptionError ENCRYPTION_FAILED)"

definition encrypt :: "('s, 'q) Cipher \<Rightarrow> ProtocolAddress \<Rightarrow> js_string \<Rightarrow> ('s, Base64) action" where
  "encrypt c address plaintext = catch (encrypt_body c address plaintext) (\<lambda>e. throw (encrypt_error e))"

text \<open>The cipher over the in-memory store, with its clock and hash.\<close>

definition memory_cipher :: "('q MemoryStore, 'q) Cipher \<Rightarrow> ('q MemoryStore, 'q) Cipher" where
  "memory_cipher c = c\<lparr>keyStorage := memory_storage (c_sha256 c) (dateNow c)\<rparr>"

lemma memory_cipher_fields [simp]:
  "keyStorage (memory_cipher c) = memory_storage (c_sha256 c) (dateNow c)" "c_hmac (memory_cipher c) = c_hmac c"
  "c_sha256 (memory_cipher c) = c_sha256 c" "maxSkip (memory_cipher c) = maxSkip c" "dateNow (memory_cipher c) = dateNow c"
  "establishSession (memory_cipher c) = establishSession c" "computeSharedSecret (memory_cipher c) = computeSharedSecret c"
  "encryptAes (memory_cipher c) = encryptAes c" "decryptAes (memory_cipher c) = decryptAes c"
  "spqrSend (memory_cipher c) = spqrSend c" "spqrRecv (memory_cipher c) = spqrRecv c"
  "spqrSkippedKey (memory_cipher c) = spqrSkippedKey c" "freshKeyPair (memory_cipher c) = freshKeyPair c"
  by (simp_all add: memory_cipher_def)

section \<open>Encryption over a session store\<close>

lemma deriveSendingKey_Inr:
  "deriveSendingKey hmac S = Inr (mk, S') \<Longrightarrow>
   \<exists>ck. CKs S = Some ck \<and> Ns S < MAX_MESSAGE_COUNTER \<and> (\<exists>bs. base64ToBytes ck = Inr bs \<and> length bs = 32 \<and> mk = snd (kdfChainKey hmac bs) \<and>
     S' = S\<lparr>CKs := Some (bytesToBase64 (fst (kdfChainKey hmac bs))), Ns := Ns S + 1\<rparr>)"
  by (auto simp: deriveSendingKey_def and_then_eq_Inr required_def split: if_splits option.splits prod.splits)

text \<open>Deriving the key of a message advances the sending chain by one, and the post-quantum state.\<close>

lemma derive_send_key_shape:
  assumes "derive_send_key c S = Inr (mk, pq, pqBytes, S')"
  shows "\<exists>ck tr. S' = S\<lparr>CKs := Some ck, Ns := Ns S + 1, tripleRatchet := tr\<rparr>"
proof -
  from assms obtain T where T: "deriveSendingKey (c_hmac c) S = Inr (mk, T)"
    and S': "S' = T \<or> (\<exists>tr. S' = T\<lparr>tripleRatchet := tr\<rparr>)"
    unfolding derive_send_key_def by (auto simp: and_then_eq_Inr split: option.splits if_splits)
  obtain ck where "T = S\<lparr>CKs := Some ck, Ns := Ns S + 1\<rparr>" using deriveSendingKey_Inr [OF T] by blast
  with S' have "S' = S\<lparr>CKs := Some ck, Ns := Ns S + 1, tripleRatchet := tripleRatchet S'\<rparr>" by auto
  then show ?thesis by blast
qed

text \<open>
  The cipher as a client of the store: what it shows holds over every store that keeps the contract
  \<open>session_store\<close>.
\<close>

locale session_cipher = session_store "keyStorage c" view
  for c :: "('s, 'q) Cipher" and view :: "'s \<Rightarrow> ProtocolAddress \<Rightarrow> 'q SessionRecord option"
begin

lemma get_step: "\<exists>t. st_getSessionRecord (keyStorage c) a s = (Inr (view s a), t) \<and> view t = view s"
  using get_result [of a s] get_keeps [of a] by (cases "st_getSessionRecord (keyStorage c) a s") (auto simp: keeps_def dest: spec [of _ s])

lemma keeps_after_get:
  assumes "\<And>r. (\<forall>x. r = Some x \<longrightarrow> sr_version x = CURRENT_SESSION_RECORD_VERSION) \<Longrightarrow> keeps view (f r)"
  shows "keeps view (bnd (st_getSessionRecord (keyStorage c) a) f)"
  unfolding keeps_def
proof
  fix s
  obtain t where "st_getSessionRecord (keyStorage c) a s = (Inr (view s a), t)" "view t = view s" using get_step by blast
  moreover have "keeps view (f (view s a))" by (rule assms) (auto intro: view_version)
  ultimately show "view (snd (bnd (st_getSessionRecord (keyStorage c) a) f s)) = view s"
    by (simp add: bnd_def keeps_def)
qed

lemma keeps_Inr: "keeps v m \<Longrightarrow> m s = (r, s') \<Longrightarrow> v s' = v s"
  by (metis keeps_def snd_conv)

lemma encrypt_load_keeps: "keeps view (encrypt_load c a)"
  unfolding encrypt_load_def
  by (rule keeps_after_get) (auto split: option.split intro!: keeps_intros reads_keep)

lemma encrypt_load_Inr:
  assumes "encrypt_load c a s = (Inr (record, S), s')"
  shows "view s a = Some record \<and> (\<exists>S0. currentSession record = Some S0 \<and> intact S0 \<and> sendable S0 \<and>
    S = cleanupExpiredMessageKeys S0 DEFAULT_RATCHET_CONFIG (dateNow c))"
proof -
  obtain t where get: "st_getSessionRecord (keyStorage c) a s = (Inr (view s a), t)" using get_step by blast
  from assms get obtain r S0 where r: "view s a = Some r" "currentSession r = Some S0"
    by (cases "view s a"; cases "currentSession (the (view s a))")
      (auto simp: encrypt_load_def bnd_Inr action_eval split: if_splits)
  with assms get view_version [OF r(1)] show ?thesis
    by (auto simp: encrypt_load_def bnd_Inr action_eval integrity_iff assertValidatedSession_iff split: if_splits)
qed

lemma encrypt_error_keeps: "keeps_on_error view (encrypt c a plaintext)"
  unfolding encrypt_def encrypt_body_def Let_def
  by (intro keeps_on_error_catch keeps_on_error_bnd encrypt_load_keeps keeps_on_error_case_prod keeps_basic keeps_if keeps_bnd
      reads_keep keeps_on_error_then_ret commit_error keeps_on_error_basic)

text \<open>A successful encryption stores the session it started from, one message further.\<close>

lemma encrypt_stores:
  assumes "encrypt c a plaintext s = (Inr ct, s')"
  shows "\<exists>record S0 S ck tr. view s a = Some record \<and> currentSession record = Some S0 \<and> intact S0 \<and> sendable S0 \<and>
    S = (cleanupExpiredMessageKeys S0 DEFAULT_RATCHET_CONFIG (dateNow c))
          \<lparr>CKs := Some ck, Ns := Ns S0 + 1, tripleRatchet := tr, lastUsedAt := dateNow c\<rparr> \<and>
    view s' = (view s)(a \<mapsto> record\<lparr>currentSession := Some S\<rparr>)"
proof -
  from assms have "encrypt_body c a plaintext s = (Inr ct, s')"
    by (auto simp: encrypt_def catch_Inr action_eval)
  then obtain rec S0 t mk pq pqb S where l: "encrypt_load c a s = (Inr (rec, S0), t)"
    and k: "derive_send_key c S0 = Inr (mk, pq, pqb, S)"
    and r: "\<exists>t'. view t' = view t \<and> st_commitSessionTrust (keyStorage c) (encrypt_commit a rec (S\<lparr>lastUsedAt := dateNow c\<rparr>)) t' = (Inr (), s')"
    unfolding encrypt_body_def
    by (fastforce simp: bnd_Inr action_eval Let_def dest: keeps_Inr [OF identity_keeps] split: prod.splits if_splits)
  from r obtain t' where t': "view t' = view t"
    and commit: "st_commitSessionTrust (keyStorage c) (encrypt_commit a rec (S\<lparr>lastUsedAt := dateNow c\<rparr>)) t' = (Inr (), s')" by blast
  from keeps_Inr [OF encrypt_load_keeps l] t' have "view t' = view s" by simp
  with commit_ok [OF commit] have "view s' = (view s)(a \<mapsto> rec\<lparr>currentSession := Some (S\<lparr>lastUsedAt := dateNow c\<rparr>)\<rparr>)"
    by (simp add: encrypt_commit_def)
  moreover obtain ck tr where S: "S = S0\<lparr>CKs := Some ck, Ns := Ns S0 + 1, tripleRatchet := tr\<rparr>"
    using derive_send_key_shape [OF k] by blast
  moreover obtain S1 where S1: "view s a = Some rec" "currentSession rec = Some S1" "intact S1" "sendable S1"
    and S0: "S0 = cleanupExpiredMessageKeys S1 DEFAULT_RATCHET_CONFIG (dateNow c)"
    using encrypt_load_Inr [OF l] by blast
  moreover have "Ns S0 = Ns S1" using cleanup_shape [of S1 DEFAULT_RATCHET_CONFIG "dateNow c"] S0 by auto
  ultimately show ?thesis by auto
qed

text \<open>The message that an acknowledged session sends.\<close>

lemma encrypt_message:
  assumes "encrypt c a plaintext s = (Inr encoded, s')" and "view s a = Some r" and "currentSession r = Some S0"
    and "unacknowledgedPreKeyMessage S0 \<noteq> Some True"
  obtains mk pq pqBytes S framed rt where
    "derive_send_key c (cleanupExpiredMessageKeys S0 DEFAULT_RATCHET_CONFIG (dateNow c)) = Inr (mk, pq, pqBytes, S)"
    "build_signal_message c S a (Ns S0) mk pq pqBytes plaintext = Inr (framed, rt)" "encoded = bytesToBase64 framed"
proof -
  let ?S = "cleanupExpiredMessageKeys S0 DEFAULT_RATCHET_CONFIG (dateNow c)"
  from assms(1) have "encrypt_body c a plaintext s = (Inr encoded, s')"
    by (auto simp: encrypt_def catch_Inr action_eval)
  then obtain r' S1 t mk pq pqb S framed rt where l: "encrypt_load c a s = (Inr (r', S1), t)"
    and k: "derive_send_key c S1 = Inr (mk, pq, pqb, S)"
    and b: "build_signal_message c S a (Ns S1) mk pq pqb plaintext = Inr (framed, rt)"
    and e: "unacknowledgedPreKeyMessage S = Some True \<or> encoded = bytesToBase64 framed"
    unfolding encrypt_body_def
    by (fastforce simp: bnd_Inr action_eval Let_def split: prod.splits if_splits)
  have S1: "S1 = ?S" using encrypt_load_Inr [OF l] assms(2,3) by auto
  obtain cs pc where shape: "?S = S0\<lparr>receiverChains := cs, processedChains := pc\<rparr>" using cleanup_shape by blast
  from k obtain ck tr where "S = S1\<lparr>CKs := Some ck, Ns := Ns S1 + 1, tripleRatchet := tr\<rparr>"
    using derive_send_key_shape by blast
  then have "unacknowledgedPreKeyMessage S = unacknowledgedPreKeyMessage S0" "Ns S1 = Ns S0" using S1 shape by simp_all
  with that k b e S1 assms(4) show ?thesis by auto
qed

end

interpretation memory_cipher: session_cipher "memory_cipher c" session_view for c
  using memory.session_store_axioms by (simp add: session_cipher_def memory_cipher_def)


section \<open>The content of a message\<close>

text \<open>What the platform promises: decrypting what was encrypted gives it back, and no ciphertext is empty.\<close>

definition aes_inverse :: "('s, 'q) Cipher \<Rightarrow> ('t, 'r) Cipher \<Rightarrow> bool" where
  "aes_inverse c c' = (\<forall>k v p b. encryptAes c k v p = Inr b \<longrightarrow> b \<noteq> [] \<and> decryptAes c' k v b = Inr p)"

text \<open>The two ends of a session: identities and addresses are those of each other.\<close>

definition mirrored :: "'q SessionState \<Rightarrow> ProtocolAddress \<Rightarrow> 'r SessionState \<Rightarrow> bool" where
  "mirrored S a R = (remoteIdentity R = localIdentity S \<and> localIdentity R = remoteIdentity S \<and>
     remoteAddress R = localAddress S \<and> localAddress R = a \<and> addressable (localAddress S) \<and> addressable a)"

definition signal_fields ::
    "'q SessionState \<Rightarrow> bytes \<Rightarrow> nat \<Rightarrow> bytes \<Rightarrow> bytes option \<Rightarrow> bytes \<Rightarrow> int option \<Rightarrow> SignalProtocolMessageFields" where
  "signal_fields S key n ct pqBytes addresses rt =
     \<lparr>sm_ratchetKey = key, sm_counter = int n, sm_previousCounter = int (PN S), sm_ciphertext = ct,
      sm_pqRatchet = pqBytes, sm_addresses = addresses, sm_recipientIdentityType = rt\<rparr>"

lemma encodeUint32_range: "encodeUint32Field f n = Inr bs \<Longrightarrow> uint32 n"
  by (auto simp: encodeUint32Field_def encodeVarint_def and_then_eq_Inr uint32_def split: if_splits)

lemma build_signal_Inr:
  assumes "build_signal_message c S a n mk pq pqBytes plaintext = Inr (framed, rt)"
  obtains keys dhs key ct addresses protobuf mac where
    "expandMessageKey (c_hmac c) mk pq = Inr keys" "DHs S = Some dhs" "length key = 32"
    "base64ToBytes (publicKey dhs) = Inr key \<or> base64ToBytes (publicKey dhs) = Inr (prefixed key)"
    "encryptAes c (encryptionKey keys) (iv keys) (padMessage (stringToBytes plaintext)) = Inr ct"
    "authenticatedRecipientIdentityType S = Inr rt"
    "serializeSignalProtocolMessageAddresses (localAddress S) a = Inr addresses"
    "encodeSignalProtocolMessage (signal_fields S (prefixed key) n ct pqBytes addresses rt) = Inr protobuf"
    "computeCompositeIdentityMessageMac (c_hmac c) (c_sha256 c) (authKey keys) (localIdentity S) (remoteIdentity S)
       (0x44 # protobuf) = Inr mac"
    "framed = 0x44 # protobuf @ mac" "length mac = MAC_LENGTH"
proof -
  from assms obtain keys dhs key ct addresses protobuf mac where
    "expandMessageKey (c_hmac c) mk pq = Inr keys" "DHs S = Some dhs"
    and key: "and_then (base64ToBytes (publicKey dhs)) ensureSerializedPublicKey = Inr key"
    and "encryptAes c (encryptionKey keys) (iv keys) (padMessage (stringToBytes plaintext)) = Inr ct"
    "authenticatedRecipientIdentityType S = Inr rt"
    "serializeSignalProtocolMessageAddresses (localAddress S) a = Inr addresses"
    "encodeSignalProtocolMessage (signal_fields S key n ct pqBytes addresses rt) = Inr protobuf"
    "computeCompositeIdentityMessageMac (c_hmac c) (c_sha256 c) (authKey keys) (localIdentity S) (remoteIdentity S)
       (0x44 # protobuf) = Inr mac"
    "framed = 0x44 # protobuf @ mac" "length mac = MAC_LENGTH"
    unfolding build_signal_message_def
    by (auto simp: and_then_eq_Inr required_def aesCbcEncrypt_def Let_def makeVersionByte_current frameSignalProtocolMessage_def
        signal_fields_def split: option.splits if_splits)
  moreover from key obtain raw where "length raw = 32" "key = prefixed raw"
    "base64ToBytes (publicKey dhs) = Inr raw \<or> base64ToBytes (publicKey dhs) = Inr (prefixed raw)"
    by (auto simp: and_then_eq_Inr ensureSerializedPublicKey_iff)
  ultimately show ?thesis using that by blast
qed

lemma identityTypeToWire_cases: "authenticatedRecipientIdentityType S = Inr rt \<Longrightarrow> rt = None \<or> rt = Some 1 \<or> rt = Some 2"
  by (auto simp: authenticatedRecipientIdentityType_def identityTypeToWire_def split: if_splits option.splits)

lemma serialize_nonempty: "serializeSignalProtocolMessageAddresses s r = Inr bs \<Longrightarrow> bs \<noteq> []"
  by (auto simp: serializeSignalProtocolMessageAddresses_def and_then_eq_Inr)

text \<open>The message that was built is valid, so that the decoder gives its fields back.\<close>

lemma decode_built:
  assumes "encodeSignalProtocolMessage (signal_fields S (prefixed key) n ct pqBytes addresses rt) = Inr protobuf"
    and "length key = 32" and "ct \<noteq> []" and "pqBytes \<noteq> Some []" and "addresses \<noteq> []"
    and "rt = None \<or> rt = Some 1 \<or> rt = Some 2"
    and "length protobuf \<le> MAX_SIGNAL_PROTOCOL_WIRE_MESSAGE_BYTES"
  shows "decodeSignalProtocolMessage protobuf = Inr (signal_fields S (prefixed key) n ct pqBytes addresses rt)"
proof -
  have "uint32 (int n)" "uint32 (int (PN S))"
    using assms(1) by (auto simp: encodeSignalProtocolMessage_def signal_fields_def and_then_eq_Inr
        dest: encodeUint32_range split: if_splits)
  then have "valid_signal (signal_fields S (prefixed key) n ct pqBytes addresses rt)"
    using assms by (auto simp: valid_signal_def signal_fields_def prefixed_def)
  from decode_signal_encoded [OF assms(1) this, of "[]" "[]" "[]" "[]"] assms(7) show ?thesis by simp
qed

lemma decryptWithKey_built:
  assumes "expandMessageKey (c_hmac c) mk pq = Inr keys"
    and "encryptAes c (encryptionKey keys) (iv keys) (padMessage (stringToBytes plaintext)) = Inr ct"
    and "serializeSignalProtocolMessageAddresses (localAddress S) a = Inr addresses"
    and "computeCompositeIdentityMessageMac (c_hmac c) (c_sha256 c) (authKey keys) (localIdentity S) (remoteIdentity S)
       body = Inr mac"
    and "mirrored S a R" and "aes_inverse c c'" and "c_hmac c' = c_hmac c" and "c_sha256 c' = c_sha256 c"
    and "wire_text plaintext"
  shows "decryptWithKey c' mk (bytesToBase64 ct) R
      \<lparr>serializedForMac = body, mc_mac = mac, mc_addresses = addresses\<rparr> pq = Inr plaintext"
  using assms deserialize_serialize [OF assms(3)]
  by (simp add: decryptWithKey_def verifyCompositeIdentityMessageMac_def signalProtocolMessageAddressesEqual_def
      mirrored_def aesCbcDecrypt_def aes_inverse_def padding.dec_enc utf8.dec_enc stringToBytes_def)

section \<open>Encryption succeeds\<close>

text \<open>
  What a device needs of its session with a peer: it passes the checks, the peer is trusted, the clock
  is a safe integer and no write failure is due.
\<close>

definition ready_session :: "('q MemoryStore, 'q) Cipher \<Rightarrow> ProtocolAddress \<Rightarrow> 'q SessionState \<Rightarrow> 'q MemoryStore \<Rightarrow> bool" where
  "ready_session c a R s =
     (intact R \<and> sendable R \<and> ratchet_ok 2000 R \<and>
      (\<forall>k. fst (getEcSignedPreKey None None s) = Inr (Some k) \<longrightarrow> validateSessionKeyOwnership R (Some (es_publicKey k)) = Inr ()) \<and>
      fst (isTrustedIdentity (c_sha256 c) a (remoteIdentity R) (Some (remoteIdentityType R)) s) = Inr True \<and>
      fst (failures_beforeWrite ''commitSessionTrust'' s) = Inr () \<and> 0 \<le> dateNow c \<and> dateNow c \<le> MAX_SAFE_INTEGER)"

lemma view_record_valid: "session_view s a = Some r \<Longrightarrow> assertCurrentSessionRecord r = Inr ()"
  by (auto simp: session_view_def ok_iff split: option.splits if_splits)

lemma trusted_eval:
  "fst (isTrustedIdentity sha256 a i t s) = Inr True \<Longrightarrow> isTrustedIdentity sha256 a i t s = (Inr True, s)"
  by (auto simp: isTrustedIdentity_def action_simps split: sum.splits)

lemma encrypt_load_ok:
  assumes "session_view s a = Some rec" and "currentSession rec = Some S" and "ready_session c a S s"
    and "hasReceivedMessage S = Some False \<Longrightarrow> dateNow c - createdAt S \<le> MAX_UNACKNOWLEDGED_SESSION_AGE_MS"
  shows "encrypt_load (memory_cipher c) a s = (Inr (rec, cleanupExpiredMessageKeys S DEFAULT_RATCHET_CONFIG (dateNow c)), s)"
proof -
  obtain key where signed: "getEcSignedPreKey None None s = (Inr key, s)"
    by (auto simp: getEcSignedPreKey_def action_simps)
  have "sr_version rec = CURRENT_SESSION_RECORD_VERSION"
    using view_record_valid [OF assms(1)] by (simp add: assert_record_iff)
  then show ?thesis
    using assms(2-4) signed getSessionRecord_valid [OF assms(1)] integrity_iff [of S "()"] assertValidatedSession_iff [of S "()"]
      trusted_eval [of "c_sha256 c" a "remoteIdentity S" "Some (remoteIdentityType S)" s]
    by (cases key) (auto simp: encrypt_load_def action_simps memory_storage_def ready_session_def)
qed

text \<open>The bytes of the message that is built, from the parts that the platform returns.\<close>

lemma build_signal_ok:
  assumes hmac: "\<And>k d. length (c_hmac c k d) = 32" and "intact S"
    and "DHs S = Some dhs" and "base64ToBytes (publicKey dhs) = Inr key" and "length key = 32"
    and aes: "\<And>k v. \<exists>ct. encryptAes c k v (padMessage (stringToBytes plaintext)) = Inr ct \<and> ct \<noteq> [] \<and> length ct \<le> l"
    and "serializeSignalProtocolMessageAddresses (localAddress S) a = Inr addresses" and "length addresses \<le> l"
    and "unacknowledgedPreKeyMessage S \<noteq> Some True" and "pqBytes \<noteq> Some []" and "\<forall>b \<in> set_option pqBytes. length b \<le> l"
    and "n \<le> UINT32_MAX" and "PN S \<le> UINT32_MAX" and "l \<le> UINT32_MAX"
  shows "\<exists>framed. build_signal_message c S a n mk pq pqBytes plaintext = Inr (framed, None) \<and> length framed \<le> 112 + 3 * l"
proof -
  obtain keys where keys: "expandMessageKey (c_hmac c) mk pq = Inr keys" "length (authKey keys) = 32"
    using expandMessageKey_ok [where hmac = "c_hmac c", OF hmac] by blast
  obtain ct where ct: "encryptAes c (encryptionKey keys) (iv keys) (padMessage (stringToBytes plaintext)) = Inr ct" "ct \<noteq> []" "length ct \<le> l"
    using aes by blast
  let ?m = "signal_fields S (prefixed key) n ct pqBytes addresses None"
  have addr: "addresses \<noteq> []" using assms(7) by (rule serialize_nonempty)
  have "valid_signal ?m"
    using assms(5,10,12,13) ct(2) addr by (simp add: valid_signal_def signal_fields_def prefixed_def uint32_def)
  moreover have "length (sm_ciphertext ?m) \<le> UINT32_MAX" "length (sm_addresses ?m) \<le> UINT32_MAX"
    "\<forall>b \<in> set_option (sm_pqRatchet ?m). length b \<le> UINT32_MAX"
    using ct(3) assms(8,11,14) by (auto simp: signal_fields_def)
  ultimately obtain e where e: "encodeSignalProtocolMessage ?m = Inr e" using encodeSignal_total by blast
  have "length e \<le> 103 + 3 * l"
    using encodeSignal_length [OF e] assms(5,8,11) ct(3) by (cases pqBytes) (auto simp: signal_fields_def prefixed_def)
  moreover obtain mac where mac: "computeCompositeIdentityMessageMac (c_hmac c) (c_sha256 c) (authKey keys) (localIdentity S)
      (remoteIdentity S) (0x44 # e) = Inr mac" "length mac = MAC_LENGTH"
    using keys(2) assms(2) hmac by (simp add: computeCompositeIdentityMessageMac_def deriveIdentityCommitment_def intact_def MAC_LENGTH_def)
  moreover have "ensureSerializedPublicKey key = Inr (prefixed key)"
    unfolding ensureSerializedPublicKey_iff using assms(5) by blast
  ultimately show ?thesis
    using keys(1) ct(1) e assms(3,4,7,9)
    by (simp add: build_signal_message_def required_def aesCbcEncrypt_def authenticatedRecipientIdentityType_def
        signal_fields_def makeVersionByte_current frameSignalProtocolMessage_def Let_def MAC_LENGTH_def)
qed

lemma encrypt_ok:
  fixes c :: "('q MemoryStore, 'q) Cipher"
  assumes view: "session_view s a = Some rec" "currentSession rec = Some S" and ready: "ready_session c a S s"
    and young: "hasReceivedMessage S = Some False \<Longrightarrow> dateNow c - createdAt S \<le> MAX_UNACKNOWLEDGED_SESSION_AGE_MS"
    and hmac: "\<And>k d. length (c_hmac c k d) = 32"
    and keys: "DHs S = Some dhs" "base64ToBytes (publicKey dhs) = Inr key" "length key = 32" "CKs S = Some (bytesToBase64 ck)" "length ck = 32"
    and aes: "\<And>k v. \<exists>ct. encryptAes c k v (padMessage (stringToBytes plaintext)) = Inr ct \<and> ct \<noteq> [] \<and> length ct \<le> l"
    and addr: "serializeSignalProtocolMessageAddresses (localAddress S) a = Inr addresses" "length addresses \<le> l"
    and ack: "unacknowledgedPreKeyMessage S \<noteq> Some True" and pq: "tripleRatchet S = None"
    and counters: "Ns S \<le> UINT32_MAX" "PN S \<le> UINT32_MAX" "l \<le> UINT32_MAX"
  shows "\<exists>framed s'. encrypt (memory_cipher c) a plaintext s = (Inr (bytesToBase64 framed), s') \<and> length framed \<le> 112 + 3 * l"
proof -
  let ?S = "cleanupExpiredMessageKeys S DEFAULT_RATCHET_CONFIG (dateNow c)"
  obtain cs pc where shape: "?S = S\<lparr>receiverChains := cs, processedChains := pc\<rparr>" using cleanup_shape by blast
  obtain ck2 mk2 where "kdfChainKey (c_hmac c) ck = (ck2, mk2)" by fastforce
  then obtain mk ck' where k: "deriveSendingKey (c_hmac c) ?S = Inr (mk, ?S\<lparr>CKs := Some ck', Ns := Ns S + 1\<rparr>)"
    using keys(4,5) counters(1) shape by (auto simp: deriveSendingKey_def required_def MAX_MESSAGE_COUNTER_def UINT32_MAX_def)
  let ?T = "?S\<lparr>CKs := Some ck', Ns := Ns S + 1\<rparr>"
  have send: "derive_send_key (memory_cipher c) ?S = Inr (mk, None, None, ?T)"
    using k pq by (simp add: derive_send_key_def shape)
  have "intact ?T" using ready by (simp add: shape ready_session_def intact_def)
  then obtain framed where b: "build_signal_message (memory_cipher c) ?T a (Ns S) mk None None plaintext = Inr (framed, None)"
    and len: "length framed \<le> 112 + 3 * l"
    using build_signal_ok [of "memory_cipher c" ?T dhs key plaintext l a addresses None "Ns S" mk None] hmac keys aes addr ack counters shape
    by auto
  let ?U = "?T\<lparr>lastUsedAt := dateNow c\<rparr>"
  let ?commit = "encrypt_commit a rec ?U"
  have fields: "ct_address ?commit = a" "ct_contactIdentity ?commit = remoteIdentity S"
      "ct_contactIdentityType ?commit = remoteIdentityType S" "ct_oneTimePreKeyId ?commit = None"
      "ct_kemOneTimePreKeyId ?commit = None" "ct_kyberPreKeyUse ?commit = None" "ct_receiveWork ?commit = None"
      "ct_record ?commit = rec\<lparr>currentSession := Some ?U\<rparr>"
    by (simp_all add: encrypt_commit_def shape)
  have "assertCurrentSessionRecord (ct_record ?commit) = Inr ()"
    using view_record_valid [OF view(1)] view(2) unfolding fields(8) assert_record_iff by (simp add: profile_ok_def shape)
  moreover have "valid_identity (remoteIdentity S)" using ready by (simp add: ready_session_def intact_def)
  ultimately obtain s' where commit: "commitSessionTrust (c_sha256 c) (dateNow c) ?commit s = (Inr (), s')"
    using commit_plain_ok [of s ?commit "c_sha256 c" "dateNow c"] ready fields unfolding ready_session_def by auto
  have "encrypt_body (memory_cipher c) a plaintext s = (Inr (bytesToBase64 framed), s')"
    using encrypt_load_ok [OF view ready young] send b commit ack shape
    by (simp add: encrypt_body_def bnd_Inr action_eval Let_def memory_storage_def)
  then show ?thesis using len by (auto simp: encrypt_def action_simps)
qed

section \<open>Two devices\<close>

text \<open>Two sessions of each other, with equal chain keys, for the witnesses.\<close>

definition sample_cipher :: "(unit MemoryStore, unit) Cipher" where
  "sample_cipher = \<lparr>keyStorage = memory_storage (\<lambda>b. b) 7, maxSkip = DEFAULT_MAX_SKIP,
     establishSession = (\<lambda>_ _. throw (EncryptionError PREKEY_NOT_FOUND)), c_hmac = sample_hmac, c_sha256 = (\<lambda>b. b),
     computeSharedSecret = (\<lambda>_ _. Inr (replicate 32 9)), encryptAes = (\<lambda>_ _ p. Inr (0 # p)),
     decryptAes = (\<lambda>_ _ b. Inr (tl b)), spqrSend = (\<lambda>_. Inr (([], None), ())), spqrRecv = (\<lambda>_ _. Inr (None, ())),
     spqrSkippedKey = (\<lambda>_ _. Inr (None, ())),
     freshKeyPair = (\<lambda>n. \<lparr>publicKey = bytesToBase64 (replicate 32 8), privateKey = []\<rparr>), dateNow = 7\<rparr>"

definition alice_session :: "unit SessionState" where
  "alice_session = sample_session (bytesToBase64 (replicate 32 5))
     \<lparr>DHs := Some \<lparr>publicKey = bytesToBase64 (replicate 32 5), privateKey = []\<rparr>,
      DHr := Some (bytesToBase64 (replicate 32 6)), unacknowledgedPreKeyMessage := Some False,
      hasReceivedMessage := Some True\<rparr>"

definition bob_session :: "unit SessionState" where
  "bob_session = alice_session
     \<lparr>DHs := Some \<lparr>publicKey = bytesToBase64 (replicate 32 6), privateKey = []\<rparr>,
      DHr := Some (bytesToBase64 (replicate 32 5)), localAddress := sample_address 98 1, remoteAddress := sample_address 97 1,
      isInitiator := Some False, localIdentity := sample_identity 2, remoteIdentity := sample_identity 1,
      identityKeyPair := \<lparr>dhKey = \<lparr>ik_publicKey = bytesToBase64 (replicate 32 2), ik_privateKey = []\<rparr>,
        signingKey = \<lparr>ik_publicKey = bytesToBase64 (replicate 32 2), ik_privateKey = []\<rparr>, registrationId = 1\<rparr>\<rparr>"

lemmas sample_session_defs = alice_session_def bob_session_def sample_session_def sample_state_def
  DoubleRatchetState.defs SessionState.defs

lemma sample_mirrored: "mirrored alice_session (sample_address 98 1) bob_session"
  by (simp add: mirrored_def sample_session_defs sample_address_def addressable_def wire_text_def high_surrogate_def low_surrogate_def)

lemma sample_addresses:
  "serializeSignalProtocolMessageAddresses (sample_address 97 1) (sample_address 98 1) =
     Inr [1, 1, 0x61, 0, 0, 0, 1, 1, 0x62, 0, 0, 0, 1]"
  by (simp add: serializeSignalProtocolMessageAddresses_def encodeAddress_def textEncoder_encode_def sample_address_def
      high_surrogate_def low_surrogate_def utf8_scalar_def encodeVarint_def UINT32_MAX_def
      varint_loop.simps encodeUint32BE_def ADDRESS_BINDING_FORMAT_VERSION_def drop_bit_eq_div)

lemma sample_cipher_aes: "aes_inverse sample_cipher sample_cipher"
  by (simp add: aes_inverse_def sample_cipher_def)

lemma sample_cipher_hmac [simp]: "c_hmac sample_cipher = sample_hmac" "c_sha256 sample_cipher = (\<lambda>b. b)"
  by (simp_all add: sample_cipher_def)

definition alice_store :: "unit MemoryStore" where
  "alice_store = sample_store\<lparr>sessionRecords := [(getAddressKey (sample_address 98 1), create alice_session)]\<rparr>"

definition bob_store :: "unit MemoryStore" where
  "bob_store = sample_store\<lparr>sessionRecords := [(getAddressKey (sample_address 97 1), create bob_session)]\<rparr>"

lemma sample_intact: "intact alice_session" "intact bob_session"
proof -
  have "createCompositeIdentityV1 (identityKeyPair bob_session) = Inr (sample_identity 2)"
    using encode_valid [OF sample_identity_valid [of 2]]
    by (simp add: sample_session_defs createCompositeIdentityV1_def sample_identity_def identity_of_def)
  then show "intact alice_session" "intact bob_session"
    using sample_keys_identity by (simp_all add: intact_def sample_session_defs)
qed

lemma sample_views:
  "session_view alice_store (sample_address 98 1) = Some (create alice_session)"
  "session_view bob_store (sample_address 97 1) = Some (create bob_session)"
proof -
  have "profile_ok alice_session" "profile_ok bob_session"
    using sample_intact by (simp_all add: profile_ok_def intact_def sample_session_defs)
  then show "session_view alice_store (sample_address 98 1) = Some (create alice_session)"
    "session_view bob_store (sample_address 97 1) = Some (create bob_session)"
    by (simp_all add: session_view_def alice_store_def bob_store_def ok_iff assert_record_iff create_def)
qed

lemma sample_ready:
  "ready_session sample_cipher (sample_address 98 1) alice_session alice_store"
  "ready_session sample_cipher (sample_address 97 1) bob_session bob_store"
proof -
  have "ratchet_ok 2000 alice_session" "ratchet_ok 2000 bob_session"
    by (simp_all add: ratchet_ok_def chains_ok_def sample_session_defs)
  moreover have "sendable alice_session" "sendable bob_session"
    by (simp_all add: sendable_def falsy_def sample_session_defs)
  moreover have "fst (isTrustedIdentity (\<lambda>b. b) a (sample_identity n) (Some Aci) st) = Inr True"
    if "contactIdentities st = []" for a n and st :: "unit MemoryStore"
    using that by (simp add: isTrustedIdentity_def action_simps evaluateContactIdentityCandidate_def)
  ultimately show "ready_session sample_cipher (sample_address 98 1) alice_session alice_store"
    "ready_session sample_cipher (sample_address 97 1) bob_session bob_store"
    using sample_intact
    by (simp_all add: ready_session_def getEcSignedPreKey_def action_simps alice_store_def bob_store_def sample_store_def no_failures_def
        newest_signed_def failures_beforeWrite_def beforeWrite_def consumeScheduled_def sample_cipher_def MAX_SAFE_INTEGER_def
        sample_session_defs)
qed

lemma sample_padded: "length (padMessage (stringToBytes [104])) \<le> 160"
  by (simp add: padMessage_def stringToBytes_def textEncoder_encode_def high_surrogate_def low_surrogate_def
      utf8_scalar_def PADDING_BUCKET_SIZE_def)

lemmas sample_sending = sample_addresses create_def sample_session_defs sample_cipher_def UINT32_MAX_def

lemma sample_encrypt:
  "\<exists>framed s'. encrypt (memory_cipher sample_cipher) (sample_address 98 1) [104] alice_store = (Inr (bytesToBase64 framed), s') \<and>
     length framed \<le> 595"
proof -
  have "\<exists>framed s'. encrypt (memory_cipher sample_cipher) (sample_address 98 1) [104] alice_store =
      (Inr (bytesToBase64 framed), s') \<and> length framed \<le> 112 + 3 * 161"
    by (rule encrypt_ok [OF sample_views(1) _ sample_ready(1), where ck = "replicate 32 7" and key = "replicate 32 5"
          and dhs = "\<lparr>publicKey = bytesToBase64 (replicate 32 5), privateKey = []\<rparr>"
          and addresses = "[1, 1, 0x61, 0, 0, 0, 1, 1, 0x62, 0, 0, 0, 1]"])
      (use sample_padded in \<open>simp_all add: sample_sending\<close>)
  then show ?thesis by simp
qed

section \<open>Properties\<close>

text \<open>
  C4. Encryption over the in-memory store is all or nothing. An error is an \<open>EncryptionError\<close> and leaves every
  stored session as it was. A success stores, at this address alone, the session with the next message
  number and chain key; the receiving side, the ratchet keys, the identities and the addresses of the
  session are unchanged.
\<close>

theorem encrypt_one_step:
  "case encrypt (memory_cipher c) a plaintext s of
     (Inl e, s') \<Rightarrow> session_view s' = session_view s \<and> (\<exists>code. e = EncryptionError code)
   | (Inr encoded, s') \<Rightarrow> \<exists>record S S'. session_view s a = Some record \<and> currentSession record = Some S \<and>
       session_view s' = (session_view s)(a \<mapsto> record\<lparr>currentSession := Some S'\<rparr>) \<and>
       Ns S' = Ns S + 1 \<and> PN S' = PN S \<and> Nr S' = Nr S \<and> CKr S' = CKr S \<and> RK S' = RK S \<and> DHs S' = DHs S \<and> DHr S' = DHr S \<and>
       localIdentity S' = localIdentity S \<and> remoteIdentity S' = remoteIdentity S \<and>
       localAddress S' = localAddress S \<and> remoteAddress S' = remoteAddress S"
proof (cases "encrypt (memory_cipher c) a plaintext s")
  case (Pair r s')
  show ?thesis
  proof (cases r)
    case (Inl e)
    with Pair have "session_view s' = session_view s"
      using memory_cipher.encrypt_error_keeps [of c a plaintext] by (auto simp: keeps_on_error_def dest: spec [of _ s])
    moreover have "\<exists>code. e = EncryptionError code"
      using Pair Inl by (auto simp: encrypt_def catch_def action_eval encrypt_error_def split: prod.splits sum.splits js_error.splits)
    ultimately show ?thesis using Pair Inl by simp
  next
    case (Inr encoded)
    with Pair have "encrypt (memory_cipher c) a plaintext s = (Inr encoded, s')" by simp
    from memory_cipher.encrypt_stores [OF this] obtain rec S0 ck tr where
      S: "session_view s a = Some rec" "currentSession rec = Some S0"
      and v: "session_view s' = (session_view s)(a \<mapsto> rec\<lparr>currentSession := Some
         ((cleanupExpiredMessageKeys S0 DEFAULT_RATCHET_CONFIG (dateNow (memory_cipher c)))
           \<lparr>CKs := Some ck, Ns := Ns S0 + 1, tripleRatchet := tr, lastUsedAt := dateNow (memory_cipher c)\<rparr>)\<rparr>)" by blast
    obtain cs pc where "cleanupExpiredMessageKeys S0 DEFAULT_RATCHET_CONFIG (dateNow (memory_cipher c)) =
        S0\<lparr>receiverChains := cs, processedChains := pc\<rparr>" using cleanup_shape by blast
    with S v Pair Inr show ?thesis by (simp, intro exI conjI) (rule refl, simp_all)
  qed
qed

text \<open>
  C3. A plaintext is returned only for an authenticated message: the MAC that came with it is the MAC,
  under the key expanded from the message key, of the received bytes and of the commitments of the
  identities of this session, the peer's as the sender; the address binding names the peer as the
  sender and this device as the recipient; and the plaintext is what the ciphertext decrypts to under
  that key, with its padding removed.
\<close>

theorem decrypt_authenticates:
  assumes "decryptWithKey c mk ciphertext R context pq = Inr plaintext"
  shows "\<exists>keys sc rc b p. expandMessageKey (c_hmac c) mk pq = Inr keys \<and>
    deriveIdentityCommitment (c_sha256 c) (remoteIdentity R) = Inr sc \<and>
    deriveIdentityCommitment (c_sha256 c) (localIdentity R) = Inr rc \<and>
    mc_mac context = take MAC_LENGTH (c_hmac c (authKey keys) (MESSAGE_MAC_V1_DOMAIN @ sc @ rc @ serializedForMac context)) \<and>
    deserializeSignalProtocolMessageAddresses (mc_addresses context) = Inr (remoteAddress R, localAddress R) \<and>
    base64ToBytes ciphertext = Inr b \<and> decryptAes c (encryptionKey keys) (iv keys) b = Inr p \<and>
    and_then (unpadMessage p) utf8Decode = Inr plaintext"
proof -
  from assms obtain keys p where keys: "expandMessageKey (c_hmac c) mk pq = Inr keys"
    and mac: "verifyCompositeIdentityMessageMac (c_hmac c) (c_sha256 c) (authKey keys) (remoteIdentity R) (localIdentity R)
      (serializedForMac context) (mc_mac context) = Inr True"
    and addr: "signalProtocolMessageAddressesEqual (mc_addresses context) (remoteAddress R) (localAddress R) = Inr True"
    and aes: "aesCbcDecrypt c (encryptionKey keys) (iv keys) ciphertext = Inr p" "and_then (unpadMessage p) utf8Decode = Inr plaintext"
    by (auto simp: decryptWithKey_def and_then_eq_Inr split: if_splits)
  have "deserializeSignalProtocolMessageAddresses (mc_addresses context) = Inr (remoteAddress R, localAddress R)"
    using addr by (cases "remoteAddress R"; cases "localAddress R") (auto simp: signalProtocolMessageAddressesEqual_def and_then_eq_Inr)
  moreover obtain b where "base64ToBytes ciphertext = Inr b" "decryptAes c (encryptionKey keys) (iv keys) b = Inr p"
    using aes(1) by (auto simp: aesCbcDecrypt_def and_then_eq_Inr split: sum.splits)
  moreover obtain sc rc where "deriveIdentityCommitment (c_sha256 c) (remoteIdentity R) = Inr sc"
    "deriveIdentityCommitment (c_sha256 c) (localIdentity R) = Inr rc"
    "mc_mac context = take MAC_LENGTH (c_hmac c (authKey keys) (MESSAGE_MAC_V1_DOMAIN @ sc @ rc @ serializedForMac context))"
    using mac by (auto simp: verifyCompositeIdentityMessageMac_def computeCompositeIdentityMessageMac_def and_then_eq_Inr split: if_splits)
  ultimately show ?thesis using keys aes(2) by blast
qed

theorem decrypt_authenticates_witness:
  "\<exists>text context keys sc rc. decryptWithKey sample_cipher (replicate 32 1) text bob_session context None = Inr [104] \<and>
    expandMessageKey sample_hmac (replicate 32 1) None = Inr keys \<and>
    deriveIdentityCommitment (\<lambda>b. b) (sample_identity 1) = Inr sc \<and> deriveIdentityCommitment (\<lambda>b. b) (sample_identity 2) = Inr rc \<and>
    mc_mac context = take MAC_LENGTH (sample_hmac (authKey keys) (MESSAGE_MAC_V1_DOMAIN @ sc @ rc @ serializedForMac context))"
proof -
  obtain keys where keys: "expandMessageKey sample_hmac (replicate 32 1) None = Inr keys" "length (authKey keys) = 32"
    using expandMessageKey_ok [of sample_hmac] by fastforce
  have ids: "localIdentity alice_session = sample_identity 1" "remoteIdentity alice_session = sample_identity 2"
    "remoteIdentity bob_session = sample_identity 1" "localIdentity bob_session = sample_identity 2"
    "localAddress alice_session = sample_address 97 1"
    by (simp_all add: sample_session_defs)
  obtain mac where mac: "computeCompositeIdentityMessageMac sample_hmac (\<lambda>b. b) (authKey keys) (sample_identity 1) (sample_identity 2) [1] = Inr mac"
    using keys by (simp add: computeCompositeIdentityMessageMac_def deriveIdentityCommitment_def)
  have "\<exists>text context. decryptWithKey sample_cipher (replicate 32 1) text bob_session context None = Inr [104]"
    using decryptWithKey_built [where c = sample_cipher and c' = sample_cipher and S = alice_session and R = bob_session
        and plaintext = "[104]" and pq = None and mk = "replicate 32 1" and keys = keys and a = "sample_address 98 1"
        and body = "[1]" and mac = mac and ct = "0 # padMessage (stringToBytes [104])"]
      keys mac sample_mirrored sample_cipher_aes sample_addresses
    by (fastforce simp: ids sample_cipher_def wire_text_def high_surrogate_def low_surrogate_def)
  then obtain ct cx where d: "decryptWithKey sample_cipher (replicate 32 1) ct bob_session cx None = Inr [104]" by blast
  from decrypt_authenticates [OF this] d show ?thesis by (simp add: ids) blast
qed

text \<open>
  A device with a ready session can send: when the peer is trusted, the session passes the checks, has
  its keys and has room for another message number, and the platform encrypts, then encryption
  returns a message.
\<close>

theorem encrypt_succeeds:
  assumes "session_view s a = Some rec" and "currentSession rec = Some S" and "ready_session c a S s"
    and "hasReceivedMessage S = Some False \<Longrightarrow> dateNow c - createdAt S \<le> MAX_UNACKNOWLEDGED_SESSION_AGE_MS"
    and "\<And>k d. length (c_hmac c k d) = 32"
    and "DHs S = Some dhs" and "base64ToBytes (publicKey dhs) = Inr key" and "length key = 32"
    and "CKs S = Some (bytesToBase64 ck)" and "length ck = 32"
    and "\<And>k v. \<exists>ct. encryptAes c k v (padMessage (stringToBytes plaintext)) = Inr ct \<and> ct \<noteq> [] \<and> length ct \<le> l"
    and "serializeSignalProtocolMessageAddresses (localAddress S) a = Inr addresses" and "length addresses \<le> l"
    and "unacknowledgedPreKeyMessage S \<noteq> Some True" and "tripleRatchet S = None"
    and "Ns S \<le> UINT32_MAX" and "PN S \<le> UINT32_MAX" and "l \<le> UINT32_MAX"
  shows "\<exists>framed s'. encrypt (memory_cipher c) a plaintext s = (Inr (bytesToBase64 framed), s') \<and> length framed \<le> 112 + 3 * l"
  using assms by (rule encrypt_ok)

theorem encrypt_succeeds_witness:
  "\<exists>framed s'. encrypt (memory_cipher sample_cipher) (sample_address 98 1) [104] alice_store = (Inr (bytesToBase64 framed), s') \<and>
     length framed \<le> 595"
proof -
  have "\<exists>framed s'. encrypt (memory_cipher sample_cipher) (sample_address 98 1) [104] alice_store =
      (Inr (bytesToBase64 framed), s') \<and> length framed \<le> 112 + 3 * 161"
    by (rule encrypt_succeeds [OF sample_views(1) _ sample_ready(1), where ck = "replicate 32 7" and key = "replicate 32 5"
          and dhs = "\<lparr>publicKey = bytesToBase64 (replicate 32 5), privateKey = []\<rparr>"
          and addresses = "[1, 1, 0x61, 0, 0, 0, 1, 1, 0x62, 0, 0, 0, 1]"])
      (use sample_padded in \<open>simp_all add: sample_sending\<close>)
  then show ?thesis by simp
qed

end
