(* ===== verification/Session_Decrypt.thy ===== *)
theory Session_Decrypt
  imports Session_Cipher
begin

text \<open>
  Decryption of internal/session/cipher.ts: parsing of the two message forms, the choice of the
  session, the attempt with its Double Ratchet steps, and the loop over attempts, which falls back to
  archived sessions for ratchet messages and to a new session for prekey messages.

  The local variables of the loop that survive an attempt are the record \<open>Attempt\<close>. The random key pair
  of an attempt is \<open>freshKeyPair\<close> of its number. \<open>seed\<close> is the optional callback that builds the receive
  record of the plaintext.

  Shown here: a failed decryption changes no stored session; a replayed message is refused without a
  retry and without a change; an untrusted identity is never committed; the loop ends after its
  attempts; a message of the peer is decrypted, in the state that the peer reached.
\<close>

section \<open>Definitions\<close>

subsection \<open>Parsing\<close>

record ParsedMessage =
  p_message :: RatchetMessage
  p_prekey :: "PreKeyMessage option"
  p_context :: ProtobufMacContext
  p_pqRatchet :: "bytes option"

definition raw_key :: "bytes \<Rightarrow> bytes result" where
  "raw_key key = (if length key = 33 then deserializePublicKey key else Inr key)"

definition optional_base64 :: "bytes option \<Rightarrow> Base64 option" where
  "optional_base64 b = (case b of None \<Rightarrow> None | Some bs \<Rightarrow> if bs = [] then None else Some (bytesToBase64 bs))"

definition ratchet_message :: "bytes \<Rightarrow> SignalProtocolMessageFields \<Rightarrow> bytes \<Rightarrow> RatchetMessage" where
  "ratchet_message ratchetKeyRaw sf mac =
     \<lparr>rm_ratchetKey = bytesToBase64 ratchetKeyRaw, rm_counter = nat (sm_counter sf),
      rm_previousCounter = nat (sm_previousCounter sf), rm_ciphertext = bytesToBase64 (sm_ciphertext sf),
      rm_mac = bytesToBase64 mac\<rparr>"

definition parse_prekey_message :: "ProtocolAddress \<Rightarrow> bytes \<Rightarrow> ParsedMessage result" where
  "parse_prekey_message address framedBytes =
     and_then (parsePreKeySignalProtocolMessageEnvelope framedBytes) (\<lambda>(_, outerProtobuf).
     and_then (decodePreKeySignalProtocolMessage outerProtobuf) (\<lambda>preKeyFields.
     let innerFramed = pk_message preKeyFields in
     and_then (parseSignalProtocolMessageEnvelope innerFramed) (\<lambda>(_, innerProtobuf, innerMac).
     and_then (decodeSignalProtocolMessage innerProtobuf) (\<lambda>signalFields.
     if sm_recipientIdentityType signalFields \<noteq> Some (pk_recipientIdentityType preKeyFields)
     then Inl (EncryptionError INVALID_CIPHERTEXT)
     else and_then (identityTypeFromWire (pk_recipientIdentityType preKeyFields)) (\<lambda>recipient.
          and_then (createProtobufMacContext innerFramed innerMac (sm_addresses signalFields)) (\<lambda>macContext.
          and_then (raw_key (sm_ratchetKey signalFields)) (\<lambda>ratchetKeyRaw.
          and_then (raw_key (pk_baseKey preKeyFields)) (\<lambda>baseKeyRaw.
          and_then (decodeCompositeIdentityV1 (pk_identityKey preKeyFields)) (\<lambda>senderIdentity.
          let message = ratchet_message ratchetKeyRaw signalFields innerMac in
          Inr \<lparr>p_message = message,
               p_prekey = Some (RatchetMessage.extend message (PreKeyMessage.fields
                 (userId address) (deviceId address) senderIdentity (bytesToBase64 baseKeyRaw)
                 (pk_registrationId preKeyFields) recipient (pk_ecSignedPreKeyId preKeyFields)
                 (pk_ecOneTimePreKeyId preKeyFields) (pk_kemLastResortPreKeyId preKeyFields)
                 (optional_base64 (pk_kemLastResortCiphertext preKeyFields)) (pk_kemOneTimePreKeyId preKeyFields)
                 (optional_base64 (pk_kemOneTimeCiphertext preKeyFields)))),
               p_context = macContext, p_pqRatchet = sm_pqRatchet signalFields\<rparr>)))))))))"

definition parse_ratchet_message :: "bytes \<Rightarrow> ParsedMessage result" where
  "parse_ratchet_message framedBytes =
     and_then (parseSignalProtocolMessageEnvelope framedBytes) (\<lambda>(_, protobufBytes, envelopeMac).
     and_then (decodeSignalProtocolMessage protobufBytes) (\<lambda>signalFields.
     and_then (createProtobufMacContext framedBytes envelopeMac (sm_addresses signalFields)) (\<lambda>macContext.
     and_then (raw_key (sm_ratchetKey signalFields)) (\<lambda>ratchetKeyRaw.
     Inr \<lparr>p_message = ratchet_message ratchetKeyRaw signalFields envelopeMac, p_prekey = None,
          p_context = macContext, p_pqRatchet = sm_pqRatchet signalFields\<rparr>))))"

text \<open>The first tag behind the version byte tells the two forms apart.\<close>

definition isBinaryPreKey :: "bytes \<Rightarrow> bool" where
  "isBinaryPreKey framedBytes = (length framedBytes > 1 \<and> (framedBytes ! 1 = 0x08 \<or> framedBytes ! 1 = 0x12))"

definition malformed :: "'a result \<Rightarrow> 'a result" where
  "malformed r = (case r of Inl (PlainError _) \<Rightarrow> Inl (EncryptionError INVALID_CIPHERTEXT) | _ \<Rightarrow> r)"

definition parse_message :: "ProtocolAddress \<Rightarrow> Base64 \<Rightarrow> ParsedMessage result" where
  "parse_message address ciphertext =
     malformed (and_then (base64ToBytes ciphertext) (\<lambda>framedBytes.
       if isBinaryPreKey framedBytes then parse_prekey_message address framedBytes
       else parse_ratchet_message framedBytes))"

subsection \<open>Choice of the session\<close>

text \<open>White space and line terminators that \<open>trim\<close> removes.\<close>

definition js_blank :: "16 word \<Rightarrow> bool" where
  "js_blank u = (u \<in> {9, 10, 11, 12, 13, 32, 160, 5760, 8232, 8233, 8239, 8287, 12288, 65279} \<or> (8192 \<le> u \<and> u \<le> 8202))"

definition validateComponents :: "js_string \<Rightarrow> int \<Rightarrow> string option" where
  "validateComponents user device =
     (if user = [] \<or> list_all js_blank user then Some ''userId cannot be empty''
      else if device < 0 then Some ''deviceId must be a non-negative integer'' else None)"

definition address_create :: "js_string \<Rightarrow> int \<Rightarrow> ProtocolAddress result" where
  "address_create user device =
     (case validateComponents user device of Some e \<Rightarrow> Inl (PlainError e)
      | None \<Rightarrow> Inr \<lparr>userId = user, deviceId = device\<rparr>)"

definition address_equals :: "ProtocolAddress \<Rightarrow> ProtocolAddress \<Rightarrow> bool" where
  "address_equals a b = (userId a = userId b \<and> deviceId a = deviceId b)"

text \<open>The session and the base key of an archived one.\<close>

definition findMatchingPreKeySession ::
    "'q SessionRecord option \<Rightarrow> PreKeyMessage \<Rightarrow> ('q SessionState \<times> Base64 option) option result" where
  "findMatchingPreKeySession record prekeyMessage =
     (case record of None \<Rightarrow> Inr None
      | Some r \<Rightarrow>
          let key = pm_senderEphemeralKey prekeyMessage in
          (case findSession r key of None \<Rightarrow> Inr None
           | Some matchingSession \<Rightarrow>
               and_then (compositeIdentitiesEqual (remoteIdentity matchingSession) (pm_senderIdentity prekeyMessage)) (\<lambda>same.
               if \<not> same then Inr None
               else Inr (Some (matchingSession, if map_option baseKey (currentSession r) = Some key then None else Some key)))))"

record 'q Attempt =
  a_session :: "'q SessionState option"
  a_record :: "'q SessionRecord option"
  a_usedArchived :: "Base64 option"
  a_candidateIndex :: nat
  a_retriedAfterArchive :: bool

definition archived_key :: "'q DecryptionCandidate \<Rightarrow> Base64 option" where
  "archived_key candidate =
     (if \<not> dc_isActive candidate \<and> \<not> falsy (dc_baseKey candidate) then dc_baseKey candidate else None)"

text \<open>The stored record; a record of another version is deleted.\<close>

definition load_record :: "('s, 'q) Cipher \<Rightarrow> ProtocolAddress \<Rightarrow> ('s, 'q SessionRecord option) action" where
  "load_record c address =
     bnd (st_getSessionRecord (keyStorage c) address) (\<lambda>stored.
     case stored of None \<Rightarrow> ret None
     | Some record \<Rightarrow>
         if sr_version record \<noteq> CURRENT_SESSION_RECORD_VERSION
         then bnd (st_deleteSessionRecord (keyStorage c) address) (\<lambda>_. ret None)
         else ret (Some record))"

definition first_attempt :: "bool \<Rightarrow> 'q SessionRecord option \<Rightarrow> 'q DecryptionCandidate list \<Rightarrow> 'q Attempt" where
  "first_attempt isPreKeyMessage existingRecord sessionCandidates =
     (let session = Option.bind existingRecord currentSession;
          index = (if session \<noteq> None then 1 else 0)
      in if \<not> isPreKeyMessage \<and> session = None \<and> sessionCandidates \<noteq> []
         then let firstCandidate = sessionCandidates ! index
              in \<lparr>a_session = Some (dc_session firstCandidate), a_record = existingRecord,
                  a_usedArchived = archived_key firstCandidate,
                  a_candidateIndex = index + 1, a_retriedAfterArchive = False\<rparr>
         else \<lparr>a_session = session, a_record = existingRecord, a_usedArchived = None,
               a_candidateIndex = index, a_retriedAfterArchive = False\<rparr>)"

text \<open>
  The checks on a prekey message ahead of the loop: the address, a changed identity, trust, and a
  session that already has its base key. The second result is \<open>preKeyMatchedExistingSession\<close>.
\<close>

definition prekey_checks ::
    "('s, 'q) Cipher \<Rightarrow> ProtocolAddress \<Rightarrow> PreKeyMessage option \<Rightarrow> 'q Attempt \<Rightarrow> ('s, 'q Attempt \<times> bool) action" where
  "prekey_checks c address prekey att =
     (case prekey of None \<Rightarrow> ret (att, False)
      | Some prekeyMessage \<Rightarrow>
          bnd (of_result (address_create (pm_senderId prekeyMessage) (pm_senderDeviceId prekeyMessage))) (\<lambda>prekeyAddress.
          if \<not> address_equals prekeyAddress address then throw (EncryptionError IDENTITY_MISMATCH)
          else
            bnd (case a_session att of None \<Rightarrow> ret att
                 | Some session \<Rightarrow>
                     bnd (of_result (compositeIdentitiesEqual (remoteIdentity session) (pm_senderIdentity prekeyMessage))) (\<lambda>same.
                     ret (if same then att else att\<lparr>a_session := None\<rparr>))) (\<lambda>att.
            bnd (st_isTrustedIdentity (keyStorage c) address (pm_senderIdentity prekeyMessage) RECEIVING Aci) (\<lambda>isTrusted.
            if \<not> isTrusted then throw (EncryptionError UNTRUSTED_IDENTITY)
            else
              bnd (of_result (findMatchingPreKeySession (a_record att) prekeyMessage)) (\<lambda>existing.
              case existing of None \<Rightarrow> ret (att, False)
              | Some (session, archivedKey) \<Rightarrow>
                  ret (att\<lparr>a_session := Some session,
                           a_usedArchived := (if falsy archivedKey then None else archivedKey)\<rparr>, True))))))"

subsection \<open>One attempt\<close>

text \<open>The archive that a retry stages, on a copy of the record.\<close>

definition prepare_attempt :: "'q Attempt \<Rightarrow> 'q Attempt" where
  "prepare_attempt att =
     (if a_retriedAfterArchive att
      then att\<lparr>a_record := map_option archiveCurrentState (a_record att), a_session := None, a_retriedAfterArchive := False\<rparr>
      else att)"

definition attempt_session ::
    "('s, 'q) Cipher \<Rightarrow> ProtocolAddress \<Rightarrow> ParsedMessage \<Rightarrow> 'q Attempt \<Rightarrow> ('s, 'q SessionState) action" where
  "attempt_session c address parsed att =
     bnd (case a_session att of Some session \<Rightarrow> ret session
          | None \<Rightarrow>
              (case p_prekey parsed of
                 Some prekeyMessage \<Rightarrow> establishSession c address prekeyMessage
               | None \<Rightarrow> throw (EncryptionError SESSION_NOT_FOUND))) (\<lambda>session.
     bnd (of_result (validateSessionStateIntegrity session)) (\<lambda>_.
     let session = cleanupExpiredMessageKeys session DEFAULT_RATCHET_CONFIG (dateNow c) in
     bnd (st_getEcSignedPreKey (keyStorage c)) (\<lambda>signedPreKey.
     bnd (case signedPreKey of None \<Rightarrow> ret ()
          | Some key \<Rightarrow> of_result (validateSessionKeyOwnership session (Some (es_publicKey key)))) (\<lambda>_.
     ret session))))"

text \<open>A message whose ratchet key is that of a chain already left behind is a replay.\<close>

definition check_processed_chain :: "'q SessionState \<Rightarrow> Base64 \<Rightarrow> 'q SessionState result" where
  "check_processed_chain session ratchetKey =
     (if DHr session \<noteq> None \<and> DHr session \<noteq> Some ratchetKey then
        let session = (if processedChains session = None then session\<lparr>processedChains := Some []\<rparr> else session) in
        if map_of (the (processedChains session)) ratchetKey \<noteq> None then Inl (EncryptionError MESSAGE_DUPLICATE)
        else Inr session
      else Inr session)"

text \<open>The keys that the old receiving chain still owes, kept before the chain is replaced.\<close>

definition skip_old_chain :: "('s, 'q) Cipher \<Rightarrow> 'q SessionState \<Rightarrow> nat \<Rightarrow> 'q SessionState result" where
  "skip_old_chain c session previousCounter =
     (case (DHr session, CKr session) of
        (Some oldDHr, Some ck) \<Rightarrow>
          if previousCounter > 0 \<and> ck \<noteq> [] \<and> oldDHr \<noteq> [] then
            and_then (base64ToBytes ck) (\<lambda>currentChainKey.
            and_then (getMaxSkipForSession session (maxSkip c)) (\<lambda>maxOldChainSkip.
            if Nr session + maxOldChainSkip < previousCounter
            then Inl (PlainError ''Too many skipped messages'')
            else let (_, session) = skip_loop (c_hmac c) DEFAULT_RATCHET_CONFIG (dateNow c) oldDHr (Nr session)
                        (previousCounter - Nr session) currentChainKey session;
                     entry = \<lparr>pc_lastNr = previousCounter, pc_timestamp = dateNow c\<rparr>;
                     old = (case processedChains session of None \<Rightarrow> [] | Some m \<Rightarrow> m)
                 in Inr (session\<lparr>processedChains := Some (AList.update oldDHr entry old)\<rparr>)))
          else Inr session
      | _ \<Rightarrow> Inr session)"

definition dh_ratchet_if_needed ::
    "('s, 'q) Cipher \<Rightarrow> nat \<Rightarrow> 'q SessionState \<Rightarrow> RatchetMessage \<Rightarrow> 'q SessionState result" where
  "dh_ratchet_if_needed c attempt session message =
     and_then (check_processed_chain session (rm_ratchetKey message)) (\<lambda>session.
     if DHr session = Some (rm_ratchetKey message) then Inr session
     else and_then (skip_old_chain c session (rm_previousCounter message)) (\<lambda>session.
          session_performDHRatchetStep (c_hmac c) (computeSharedSecret c) (freshKeyPair c attempt) session (rm_ratchetKey message)))"

definition receive_pq :: "('s, 'q) Cipher \<Rightarrow> 'q SessionState \<Rightarrow> bytes option \<Rightarrow> (bytes option \<times> 'q SessionState) result" where
  "receive_pq c session pqRatchetBytes =
     (case tripleRatchet session of None \<Rightarrow> Inr (None, session)
      | Some tr \<Rightarrow>
          if tr_enabled tr then
            and_then (spqrRecv c (spqrState tr) pqRatchetBytes) (\<lambda>(messageKey, q).
            Inr (messageKey, session\<lparr>tripleRatchet := Some (tr\<lparr>spqrState := q\<rparr>)\<rparr>))
          else Inr (None, session))"

definition receive_message ::
    "('s, 'q) Cipher \<Rightarrow> nat \<Rightarrow> 'q SessionState \<Rightarrow> ParsedMessage \<Rightarrow> (js_string \<times> 'q SessionState) result" where
  "receive_message c attempt session parsed =
     (let message = p_message parsed in
      and_then (dh_ratchet_if_needed c attempt session message) (\<lambda>session.
      and_then (getMaxSkipForSession session (maxSkip c)) (\<lambda>maxSkipped.
      and_then (storeSkippedMessageKeys (c_hmac c) session (rm_counter message)
                  (DEFAULT_RATCHET_CONFIG\<lparr>maxSkippedMessages := maxSkipped\<rparr>) (dateNow c)) (\<lambda>session.
      and_then (receive_pq c session (p_pqRatchet parsed)) (\<lambda>(pqSalt, session).
      and_then (deriveReceivingKey (c_hmac c) session) (\<lambda>(finalMessageKey, session).
      and_then (decryptWithKey c finalMessageKey (rm_ciphertext message) session (p_context parsed) pqSalt) (\<lambda>plaintext.
      Inr (plaintext, session\<lparr>lastUsedAt := dateNow c\<rparr>))))))))"

text \<open>The commit of a received message. The prekeys are consumed by a prekey message only.\<close>

definition receive_commit ::
    "ProtocolAddress \<Rightarrow> bool \<Rightarrow> (js_string \<Rightarrow> ReceiveWorkRecord) option \<Rightarrow> js_string \<Rightarrow> 'q SessionRecord \<Rightarrow> 'q SessionState \<Rightarrow>
     'q SessionTrustCommit" where
  "receive_commit address isPreKeyMessage seed plaintext record session =
     (let pending = (if isPreKeyMessage then pendingPreKeyDeletion session else None);
          stored = (if isPreKeyMessage then session\<lparr>pendingPreKeyDeletion := None\<rparr> else session)
      in \<lparr>ct_address = address, ct_record = record\<lparr>currentSession := Some stored\<rparr>,
          ct_contactIdentity = remoteIdentity session, ct_contactIdentityType = remoteIdentityType session,
          ct_localIdentityType = (case pending of None \<Rightarrow> localIdentityType session | Some d \<Rightarrow> pd_identityType d),
          ct_oneTimePreKeyId = Option.bind pending pd_oneTimePreKeyId,
          ct_kemOneTimePreKeyId = Option.bind pending pd_kemOneTimePreKeyId,
          ct_kyberPreKeyUse = Option.bind pending pd_kyberPreKeyUse,
          ct_receiveWork = map_option (\<lambda>f. f plaintext) seed,
          ct_senderKeyHandoffInvalidation = (if isPreKeyMessage then Some address else None)\<rparr>)"

definition record_or_wrap :: "'q SessionRecord option \<Rightarrow> 'q SessionState \<Rightarrow> 'q SessionRecord" where
  "record_or_wrap existingRecord session =
     (case existingRecord of None \<Rightarrow> wrapSession session | Some r \<Rightarrow> r\<lparr>currentSession := Some session\<rparr>)"

text \<open>Promotion of the archived session that decrypted, else the record with the session as current.\<close>

definition record_to_store :: "'q Attempt \<Rightarrow> 'q SessionState \<Rightarrow> int \<Rightarrow> 'q SessionRecord" where
  "record_to_store att session now =
     (case (a_usedArchived att, a_record att) of
        (Some key, Some existing) \<Rightarrow>
          (case resolver_promoteSession existing key now of
             Some promoted \<Rightarrow> promoted\<lparr>currentSession := Some session\<rparr>
           | None \<Rightarrow> existing\<lparr>currentSession := Some session\<rparr>)
      | _ \<Rightarrow> record_or_wrap (a_record att) session)"

definition commit_received ::
    "('s, 'q) Cipher \<Rightarrow> ProtocolAddress \<Rightarrow> bool \<Rightarrow> (js_string \<Rightarrow> ReceiveWorkRecord) option \<Rightarrow> js_string \<Rightarrow> 'q SessionRecord \<Rightarrow>
     'q SessionState \<Rightarrow> ('s, js_string) action" where
  "commit_received c address isPreKeyMessage seed plaintext record session =
     bnd (st_commitSessionTrust (keyStorage c)
            (receive_commit address isPreKeyMessage seed plaintext record (markSessionAcknowledged session))) (\<lambda>_.
     ret plaintext)"

definition check_receiving_trust :: "('s, 'q) Cipher \<Rightarrow> ProtocolAddress \<Rightarrow> 'q SessionState \<Rightarrow> ('s, unit) action" where
  "check_receiving_trust c address session =
     bnd (st_isTrustedIdentity (keyStorage c) address (remoteIdentity session) RECEIVING (remoteIdentityType session)) (\<lambda>isTrusted.
     if \<not> isTrusted then throw (EncryptionError UNTRUSTED_IDENTITY) else ret ())"

definition decrypt_attempt ::
    "('s, 'q) Cipher \<Rightarrow> ProtocolAddress \<Rightarrow> ParsedMessage \<Rightarrow> (js_string \<Rightarrow> ReceiveWorkRecord) option \<Rightarrow> nat \<Rightarrow> 'q Attempt \<Rightarrow>
     ('s, js_string) action" where
  "decrypt_attempt c address parsed seed attempt att =
     (let isPreKeyMessage = (p_prekey parsed \<noteq> None) in
      bnd (attempt_session c address parsed att) (\<lambda>session.
      bnd (of_result (trySkippedMessageKeys c session (p_message parsed) (p_context parsed) (p_pqRatchet parsed))) (\<lambda>(skipped, session).
      case skipped of
        Some plaintext \<Rightarrow>
          bnd (check_receiving_trust c address session) (\<lambda>_.
          commit_received c address isPreKeyMessage seed plaintext (record_or_wrap (a_record att) session) session)
      | None \<Rightarrow>
          bnd (of_result (receive_message c attempt session parsed)) (\<lambda>(plaintext, session).
          bnd (check_receiving_trust c address session) (\<lambda>_.
          commit_received c address isPreKeyMessage seed plaintext (record_to_store att session (dateNow c)) session)))))"

subsection \<open>The loop over attempts\<close>

text \<open>
  What follows a failed attempt: \<open>Inl\<close> is the error that ends the call, \<open>Inr\<close> the state of the next
  attempt.
\<close>

definition after_failure ::
    "bool \<Rightarrow> bool \<Rightarrow> bool \<Rightarrow> 'q DecryptionCandidate list \<Rightarrow> js_error \<Rightarrow> 'q Attempt \<Rightarrow> 'q Attempt result" where
  "after_failure isPreKeyMessage hadExistingSession preKeyMatched sessionCandidates e att =
     (if isPreKeyMessage \<and> e = ReusedBaseKeyError then Inl (EncryptionError DECRYPTION_FAILED)
      else if e = EncryptionError MESSAGE_DUPLICATE \<or> e = EncryptionError PREKEY_NOT_FOUND then Inl e
      else if isPreKeyMessage \<and> hadExistingSession \<and> \<not> preKeyMatched \<and> \<not> a_retriedAfterArchive att
      then Inr (att\<lparr>a_retriedAfterArchive := True\<rparr>)
      else if \<not> isPreKeyMessage \<and> a_candidateIndex att < length sessionCandidates
      then let next = sessionCandidates ! a_candidateIndex att
           in Inr (att\<lparr>a_session := Some (dc_session next), a_candidateIndex := a_candidateIndex att + 1,
                       a_usedArchived := archived_key next\<rparr>)
      else Inl e)"

fun decrypt_loop ::
  "('s, 'q) Cipher \<Rightarrow> ProtocolAddress \<Rightarrow> ParsedMessage \<Rightarrow> (js_string \<Rightarrow> ReceiveWorkRecord) option \<Rightarrow> bool \<Rightarrow> bool \<Rightarrow>
   'q DecryptionCandidate list \<Rightarrow> nat \<Rightarrow> nat \<Rightarrow> 'q Attempt \<Rightarrow> ('s, js_string) action" where
  "decrypt_loop c address parsed seed had matched candidates attempt 0 att = throw (EncryptionError DECRYPTION_FAILED)"
| "decrypt_loop c address parsed seed had matched candidates attempt (Suc n) att =
     (let att = prepare_attempt att in
      catch (decrypt_attempt c address parsed seed attempt att) (\<lambda>e.
        case after_failure (p_prekey parsed \<noteq> None) had matched candidates e att of
          Inl e' \<Rightarrow> throw e'
        | Inr att' \<Rightarrow> decrypt_loop c address parsed seed had matched candidates (attempt + 1) n att'))"

definition max_attempts :: "bool \<Rightarrow> 'q DecryptionCandidate list \<Rightarrow> nat" where
  "max_attempts isPreKeyMessage sessionCandidates = (if isPreKeyMessage then 2 else max 1 (length sessionCandidates))"

definition decrypt_body ::
    "('s, 'q) Cipher \<Rightarrow> ProtocolAddress \<Rightarrow> Base64 \<Rightarrow> (js_string \<Rightarrow> ReceiveWorkRecord) option \<Rightarrow> ('s, js_string) action" where
  "decrypt_body c address ciphertext seed =
     bnd (of_result (parse_message address ciphertext)) (\<lambda>parsed.
     let isPreKeyMessage = (p_prekey parsed \<noteq> None) in
     bnd (load_record c address) (\<lambda>existingRecord.
     let candidates = (if isPreKeyMessage then [] else findDecryptingSessions existingRecord) in
     bnd (prekey_checks c address (p_prekey parsed) (first_attempt isPreKeyMessage existingRecord candidates)) (\<lambda>(att, matched).
     decrypt_loop c address parsed seed (a_session att \<noteq> None) matched candidates 0
       (max_attempts isPreKeyMessage candidates) att)))"

definition decrypt_error :: "js_error \<Rightarrow> js_error" where
  "decrypt_error e = (case e of EncryptionError _ \<Rightarrow> e | PlainError _ \<Rightarrow> EncryptionError DECRYPTION_FAILED)"

definition decrypt ::
    "('s, 'q) Cipher \<Rightarrow> ProtocolAddress \<Rightarrow> Base64 \<Rightarrow> (js_string \<Rightarrow> ReceiveWorkRecord) option \<Rightarrow> ('s, js_string) action" where
  "decrypt c address ciphertext seed = catch (decrypt_body c address ciphertext seed) (\<lambda>e. throw (decrypt_error e))"

section \<open>Decryption over a session store\<close>

text \<open>Which attempts the loop makes: the later ones start from the state that a failure leaves.\<close>

inductive attempt_reached ::
  "bool \<Rightarrow> bool \<Rightarrow> bool \<Rightarrow> 'q DecryptionCandidate list \<Rightarrow> 'q Attempt \<Rightarrow> 'q Attempt \<Rightarrow> bool"
  for isPreKeyMessage had matched candidates att where
  first: "attempt_reached isPreKeyMessage had matched candidates att (prepare_attempt att)"
| retry: "attempt_reached isPreKeyMessage had matched candidates att att' \<Longrightarrow>
    after_failure isPreKeyMessage had matched candidates e att' = Inr att'' \<Longrightarrow>
    attempt_reached isPreKeyMessage had matched candidates att (prepare_attempt att'')"

lemma attempt_reached_from:
  "attempt_reached p had matched candidates (att'' :: 'q Attempt) att3 \<Longrightarrow>
   after_failure p had matched candidates e (prepare_attempt att) = Inr att'' \<Longrightarrow>
   attempt_reached p had matched candidates att att3"
  by (induction rule: attempt_reached.induct) (blast intro: attempt_reached.intros)+

lemma retry_Inr:
  "catch m (\<lambda>e. case f e of Inl e' \<Rightarrow> throw e' | Inr x \<Rightarrow> g x) s = (Inr b, s') \<Longrightarrow>
   m s = (Inr b, s') \<or> (\<exists>e t x. m s = (Inl e, t) \<and> f e = Inr x \<and> g x t = (Inr b, s'))"
  by (cases "m s") (auto simp: catch_def action_eval split: sum.splits)

context session_cipher
begin

lemma load_record_keeps: "keeps view (load_record c a)"
  unfolding load_record_def
  by (rule keeps_after_get) (auto split: option.split intro!: keeps_intros)

lemma load_record_ok: "\<exists>t. load_record c a s = (Inr (view s a), t) \<and> view t = view s"
proof -
  obtain t where t: "st_getSessionRecord (keyStorage c) a s = (Inr (view s a), t)" "view t = view s" using get_step by blast
  then show ?thesis
    by (cases "view s a") (auto simp: load_record_def bnd_def ret_def dest: view_version)
qed

lemma load_record_Inr: "load_record c a s = (Inr r, s') \<Longrightarrow> r = view s a \<and> view s' = view s"
  using load_record_ok [of a s] by auto

lemma prekey_checks_keeps: "keeps view (prekey_checks c a prekey att)"
  unfolding prekey_checks_def by (intro keeps_intros reads_keep)

lemma attempt_session_keeps:
  assumes "\<And>m. keeps view (establishSession c a m)"
  shows "keeps view (attempt_session c a parsed att)"
  unfolding attempt_session_def Let_def by (intro keeps_intros reads_keep assms)

lemma trust_keeps: "keeps view (check_receiving_trust c a session)"
  unfolding check_receiving_trust_def by (intro keeps_intros reads_keep)

lemma commit_received_error: "keeps_on_error view (commit_received c a p seed plaintext r session)"
  unfolding commit_received_def by (intro keeps_on_error_then_ret commit_error)

lemma decrypt_attempt_error:
  assumes "\<And>m. keeps view (establishSession c a m)"
  shows "keeps_on_error view (decrypt_attempt c a parsed seed attempt att)"
  unfolding decrypt_attempt_def Let_def
  by (intro keeps_on_error_bnd attempt_session_keeps assms keeps_basic keeps_on_error_case_prod keeps_on_error_case_option
      trust_keeps commit_received_error)

lemma decrypt_loop_error:
  assumes "\<And>m. keeps view (establishSession c a m)"
  shows "keeps_on_error view (decrypt_loop c a parsed seed had matched candidates attempt n att)"
proof (induction n arbitrary: attempt att)
  case 0
  show ?case by (simp add: keeps_on_error_basic)
next
  case (Suc n)
  show ?case
    by (simp add: Let_def, intro keeps_on_error_catch decrypt_attempt_error assms)
      (auto intro: keeps_on_error_basic Suc.IH split: sum.split)
qed

lemma decrypt_error_keeps:
  assumes "\<And>m. keeps view (establishSession c a m)"
  shows "keeps_on_error view (decrypt c a ciphertext seed)"
  unfolding decrypt_def decrypt_body_def Let_def
  by (intro keeps_on_error_catch keeps_on_error_bnd keeps_basic load_record_keeps prekey_checks_keeps keeps_on_error_case_prod
      decrypt_loop_error assms keeps_on_error_basic)

lemma decrypt_loop_Inr:
  assumes est: "\<And>m. keeps view (establishSession c a m)"
    and "decrypt_loop c a parsed seed had matched candidates attempt n att s = (Inr plaintext, s')"
  shows "\<exists>attempt' att' t. view t = view s \<and> decrypt_attempt c a parsed seed attempt' att' t = (Inr plaintext, s') \<and>
    attempt_reached (p_prekey parsed \<noteq> None) had matched candidates att att'"
  using assms(2)
proof (induction n arbitrary: attempt att s)
  case 0
  then show ?case by (simp add: action_eval)
next
  case (Suc n)
  let ?att = "prepare_attempt att"
  from retry_Inr [OF Suc.prems [unfolded decrypt_loop.simps Let_def]] consider "decrypt_attempt c a parsed seed attempt ?att s = (Inr plaintext, s')"
    | e t att' where "decrypt_attempt c a parsed seed attempt ?att s = (Inl e, t)"
      "after_failure (p_prekey parsed \<noteq> None) had matched candidates e ?att = Inr att'"
      "decrypt_loop c a parsed seed had matched candidates (attempt + 1) n att' t = (Inr plaintext, s')"
    by blast
  then show ?case
  proof cases
    case 1
    then show ?thesis by (blast intro: attempt_reached.first)
  next
    case 2
    from decrypt_attempt_error [OF est, of parsed seed attempt ?att] 2(1) have "view t = view s"
      by (auto simp: keeps_on_error_def dest: spec [of _ s])
    with Suc.IH [OF 2(3)] 2(2) show ?thesis by (metis attempt_reached_from)
  qed
qed

text \<open>A success is the commit of one attempt, on the sessions as they were before the call.\<close>

lemma decrypt_commits:
  assumes est: "\<And>m. keeps view (establishSession c a m)"
    and "decrypt c a ciphertext seed s = (Inr plaintext, s')"
  obtains parsed attempt att t where "parse_message a ciphertext = Inr parsed" "view t = view s"
    "decrypt_attempt c a parsed seed attempt att t = (Inr plaintext, s')"
proof -
  from assms(2) have "decrypt_body c a ciphertext seed s = (Inr plaintext, s')"
    by (auto simp: decrypt_def catch_Inr action_eval)
  then obtain parsed t r att matched t' where p: "parse_message a ciphertext = Inr parsed"
    and l: "load_record c a s = (Inr r, t)"
    and pc: "prekey_checks c a (p_prekey parsed) (first_attempt (p_prekey parsed \<noteq> None) r
       (if p_prekey parsed \<noteq> None then [] else findDecryptingSessions r)) t = (Inr (att, matched), t')"
    and d: "decrypt_loop c a parsed seed (a_session att \<noteq> None) matched (if p_prekey parsed \<noteq> None then [] else findDecryptingSessions r) 0
       (max_attempts (p_prekey parsed \<noteq> None) (if p_prekey parsed \<noteq> None then [] else findDecryptingSessions r)) att t' = (Inr plaintext, s')"
    unfolding decrypt_body_def Let_def by (auto simp: bnd_Inr action_eval split: prod.splits)
  have "view t' = view s"
    using load_record_Inr [OF l] keeps_Inr [OF prekey_checks_keeps pc] by simp
  with decrypt_loop_Inr [OF est d] p that show ?thesis by metis
qed

text \<open>What an attempt that succeeds has stored.\<close>

lemma decrypt_attempt_Inr:
  assumes est: "\<And>m. keeps view (establishSession c a m)"
    and "decrypt_attempt c a parsed seed attempt att s = (Inr plaintext, s')"
  shows "\<exists>t r session. view t = view s \<and> st_commitSessionTrust (keyStorage c)
      (receive_commit a (p_prekey parsed \<noteq> None) seed plaintext r (markSessionAcknowledged session)) t = (Inr (), s')"
proof -
  from assms(2) obtain session t where s: "attempt_session c a parsed att s = (Inr session, t)"
    and r: "\<exists>r t' session t''. check_receiving_trust c a session t = (Inr (), t') \<and>
       commit_received c a (p_prekey parsed \<noteq> None) seed plaintext r session t' = (Inr plaintext, s')"
    unfolding decrypt_attempt_def Let_def
    by (force simp: bnd_Inr action_eval commit_received_def split: option.splits prod.splits)
  then obtain r t' session' where tr: "check_receiving_trust c a session' t = (Inr (), t')"
    and cm: "commit_received c a (p_prekey parsed \<noteq> None) seed plaintext r session' t' = (Inr plaintext, s')" by blast
  have "view t' = view s"
    using keeps_Inr [OF attempt_session_keeps [OF est] s] keeps_Inr [OF trust_keeps tr] by simp
  with cm show ?thesis by (auto simp: commit_received_def bnd_Inr action_eval)
qed

end

section \<open>A message on its way\<close>

lemma raw_key_prefixed [simp]: "length key = 32 \<Longrightarrow> raw_key (prefixed key) = Inr key"
  using deserializePublicKey_iff [of "prefixed key" key] by (simp add: raw_key_def prefixed_def)

lemma encodeSignal_head:
  "encodeSignalProtocolMessage m = Inr e \<Longrightarrow> \<exists>t. e = 0x0A # t"
proof -
  have t: "encodeTag SM_ratchetKey 2 = Inr [0x0A]"
    by (simp add: SM_field_defs encodeTag_def encodeVarint_def UINT32_MAX_def varint_loop.simps)
  show "encodeSignalProtocolMessage m = Inr e \<Longrightarrow> \<exists>t. e = 0x0A # t"
    by (auto simp: encodeSignalProtocolMessage_def encodeBytesField_def and_then_eq_Inr t concatFields_def split: if_splits)
qed

text \<open>A ratchet message is parsed into what was sent.\<close>

lemma parse_built:
  assumes "encodeSignalProtocolMessage (signal_fields S (prefixed key) n ct pqBytes addresses rt) = Inr protobuf"
    and "length key = 32" and "ct \<noteq> []" and "pqBytes \<noteq> Some []" and "addresses \<noteq> []"
    and "rt = None \<or> rt = Some 1 \<or> rt = Some 2"
    and "length protobuf \<le> MAX_SIGNAL_PROTOCOL_WIRE_MESSAGE_BYTES" and "length mac = MAC_LENGTH"
  shows "parse_message a (bytesToBase64 (0x44 # protobuf @ mac)) = Inr
    \<lparr>p_message = \<lparr>rm_ratchetKey = bytesToBase64 key, rm_counter = n, rm_previousCounter = PN S,
       rm_ciphertext = bytesToBase64 ct, rm_mac = bytesToBase64 mac\<rparr>, p_prekey = None,
     p_context = \<lparr>serializedForMac = 0x44 # protobuf, mc_mac = mac, mc_addresses = addresses\<rparr>, p_pqRatchet = pqBytes\<rparr>"
proof -
  obtain t where t: "protobuf = 0x0A # t" using encodeSignal_head [OF assms(1)] by blast
  have env: "parseSignalProtocolMessageEnvelope (0x44 # protobuf @ mac) = Inr (4, protobuf, mac)"
    using assms(8) by (simp add: parse_envelope_iff)
  have mac: "createProtobufMacContext (0x44 # protobuf @ mac) mac addresses =
      Inr \<lparr>serializedForMac = 0x44 # protobuf, mc_mac = mac, mc_addresses = addresses\<rparr>"
    using assms(5,8) by (auto simp: createProtobufMacContext_def MAC_LENGTH_def)
  show ?thesis
    using decode_built [OF assms(1-7)] assms(2) env mac t
    by (simp add: parse_message_def malformed_def isBinaryPreKey_def parse_ratchet_message_def ratchet_message_def signal_fields_def)
qed

section \<open>Receiving in order and ahead\<close>

lemma tryGet_absent: "find_key i (keys_of key (receiverChains st)) = None \<Longrightarrow> tryGetSkippedKey st key i = Inr (None, st)"
  by (auto simp: tryGetSkippedKey_def consumeMessageKeyFromChain_def keys_of_def find_key_def split: option.splits)

lemma trySkipped_absent:
  "find_key (rm_counter m) (keys_of (rm_ratchetKey m) (receiverChains R)) = None \<Longrightarrow>
   trySkippedMessageKeys c R m cx pq = Inr (None, R)"
  by (simp add: trySkippedMessageKeys_def tryGet_absent)

text \<open>The post-quantum halves of the two sessions give the same key for the next message.\<close>

definition pq_in_step :: "('s, 'q) Cipher \<Rightarrow> ('t, 'r) Cipher \<Rightarrow> 'q SessionState \<Rightarrow> 'r SessionState \<Rightarrow> bool" where
  "pq_in_step c c' S R =
     (case (tripleRatchet S, tripleRatchet R) of
        (None, None) \<Rightarrow> True
      | (Some t, Some u) \<Rightarrow> tr_enabled t = tr_enabled u \<and>
          (tr_enabled t \<longrightarrow> (\<exists>m k q q'. spqrSend c (spqrState t) = Inr ((m, k), q) \<and>
             spqrRecv c' (spqrState u) (if m = [] then None else Some m) = Inr (k, q')))
      | _ \<Rightarrow> False)"

lemma pq_received:
  assumes "pq_in_step c c' S R" and "derive_send_key c S = Inr (mk, pq, pqBytes, S')" and "tripleRatchet R' = tripleRatchet R"
  shows "(\<exists>tr. receive_pq c' R' pqBytes = Inr (pq, R'\<lparr>tripleRatchet := tr\<rparr>)) \<and> pqBytes \<noteq> Some []"
proof -
  have same: "R' = R'\<lparr>tripleRatchet := tripleRatchet R'\<rparr>" by simp
  show ?thesis
  proof (cases "tripleRatchet S")
    case None
    with assms(2) have "pq = None" "pqBytes = None" by (auto simp: derive_send_key_def and_then_eq_Inr)
    moreover have "tripleRatchet R' = None" using None assms(1,3) by (simp add: pq_in_step_def split: option.splits)
    ultimately have "receive_pq c' R' pqBytes = Inr (pq, R')" "pqBytes \<noteq> Some []" by (simp_all add: receive_pq_def)
    with same show ?thesis by metis
  next
    case (Some t)
    with assms(1,3) obtain u where u: "tripleRatchet R' = Some u" "tr_enabled t = tr_enabled u"
      and q: "tr_enabled t \<longrightarrow> (\<exists>m k q q'. spqrSend c (spqrState t) = Inr ((m, k), q) \<and>
             spqrRecv c' (spqrState u) (if m = [] then None else Some m) = Inr (k, q'))"
      by (auto simp: pq_in_step_def split: option.splits)
    show ?thesis
    proof (cases "tr_enabled t")
      case True
      with q obtain m k q1 q2 where m: "spqrSend c (spqrState t) = Inr ((m, k), q1)"
        "spqrRecv c' (spqrState u) (if m = [] then None else Some m) = Inr (k, q2)" by blast
      with assms(2) Some True have "pq = k" "pqBytes = (if m = [] then None else Some m)"
        by (auto simp: derive_send_key_def and_then_eq_Inr)
      then show ?thesis using m(2) u True by (auto simp: receive_pq_def)
    next
      case False
      with assms(2) Some have "pq = None" "pqBytes = None" by (auto simp: derive_send_key_def and_then_eq_Inr)
      then have "receive_pq c' R' pqBytes = Inr (pq, R')" "pqBytes \<noteq> Some []" using u False by (simp_all add: receive_pq_def)
      with same show ?thesis by metis
    qed
  qed
qed

lemma send_key_of_chain:
  assumes "derive_send_key c S = Inr (mk, pq, pqBytes, S')" and "CKs S = Some (bytesToBase64 (chain_key (c_hmac c) ck m))"
  shows "mk = message_key (c_hmac c) ck m"
proof -
  from assms(1) obtain T where "deriveSendingKey (c_hmac c) S = Inr (mk, T)"
    unfolding derive_send_key_def by (auto simp: and_then_eq_Inr split: option.splits if_splits)
  from deriveSendingKey_Inr [OF this] assms(2) show ?thesis by (auto simp: message_key_def)
qed

text \<open>
  The receiving session stands at the chain of the message: its chain key is the one from which the
  sender's is derived by \<open>n - Nr\<close> steps.
\<close>

definition limit_of :: "('s, 'q) Cipher \<Rightarrow> 'q SessionState \<Rightarrow> nat" where
  "limit_of c R = (if localIdentity R = remoteIdentity R then 100000 else maxSkip c)"

lemma receive_message_ok:
  assumes hmac: "\<And>k d. length (c_hmac c' k d) = 32"
    and ratchet: "dh_ratchet_if_needed c' attempt R message = Inr R1"
    and R1: "receiving_from ck key R1" "ratchet_ok 2000 R1" "sendable R1" "intact R1"
    and n: "Nr R1 \<le> rm_counter message" "rm_counter message \<le> Nr R1 + limit_of c' R1" "rm_counter message < MAX_MESSAGE_COUNTER"
    and pq: "\<And>R'. tripleRatchet R' = tripleRatchet R1 \<Longrightarrow> \<exists>tr. receive_pq c' R' pqBytes = Inr (pq, R'\<lparr>tripleRatchet := tr\<rparr>)"
    and dec: "\<And>R'. localIdentity R' = localIdentity R1 \<Longrightarrow> remoteIdentity R' = remoteIdentity R1 \<Longrightarrow>
      localAddress R' = localAddress R1 \<Longrightarrow> remoteAddress R' = remoteAddress R1 \<Longrightarrow>
      decryptWithKey c' (message_key (c_hmac c') ck (rm_counter message - Nr R1)) (rm_ciphertext message) R' cx pq = Inr plaintext"
  shows "\<exists>cs ckr tr. receive_message c' attempt R
      \<lparr>p_message = message, p_prekey = prekey, p_context = cx, p_pqRatchet = pqBytes\<rparr> = Inr (plaintext,
        R1\<lparr>receiverChains := cs, CKr := Some ckr, Nr := rm_counter message + 1, tripleRatchet := tr, lastUsedAt := dateNow c'\<rparr>) \<and>
    chains_ok 2000 cs \<and> (\<forall>k \<in> set (keys_of key cs). mk_index k < rm_counter message)"
proof -
  let ?n = "rm_counter message"
  let ?cfg = "DEFAULT_RATCHET_CONFIG\<lparr>maxSkippedMessages := limit_of c' R1\<rparr>"
  have max: "getMaxSkipForSession R1 (maxSkip c') = Inr (limit_of c' R1)" using R1(4) by (simp add: limit_of_def)
  have len: "length ck = 32" and dhr: "DHr R1 = Some key" "CKr R1 = Some (bytesToBase64 ck)"
    using R1(1) by (simp_all add: receiving_from_def)
  let ?cs = "put_range (c_hmac c') 2000 (dateNow c') key (Nr R1) (?n - Nr R1) ck (receiverChains R1)"
  have stored: "chains_ok 2000 ?cs" "\<forall>k \<in> set (keys_of key ?cs). mk_index k < ?n"
    using chains_ok_put_range [where hmac = "c_hmac c'", OF hmac] R1(1,2) n(1)
      put_range_index [where key = key and cs = "receiverChains R1" and i = "Nr R1" and k = "?n - Nr R1"]
    by (auto simp: ratchet_ok_def receiving_from_def)
  then obtain cs where s1: "storeSkippedMessageKeys (c_hmac c') R1 ?n ?cfg (dateNow c') = Inr (R1\<lparr>receiverChains := cs,
      CKr := Some (bytesToBase64 (chain_key (c_hmac c') ck (?n - Nr R1))), Nr := ?n\<rparr>)"
    and cs: "chains_ok 2000 cs" "\<forall>k \<in> set (keys_of key cs). mk_index k < ?n"
    using n dhr by (simp add: storeSkippedMessageKeys_eq [OF R1(3)] storeSkippedKeys_eq required_def DEFAULT_RATCHET_CONFIG_def)
  let ?R2 = "R1\<lparr>receiverChains := cs, CKr := Some (bytesToBase64 (chain_key (c_hmac c') ck (?n - Nr R1))), Nr := ?n\<rparr>"
  obtain tr where s2: "receive_pq c' ?R2 pqBytes = Inr (pq, ?R2\<lparr>tripleRatchet := tr\<rparr>)" using pq [of ?R2] by auto
  have "length (chain_key (c_hmac c') ck (?n - Nr R1)) = 32"
    by (rule length_chain_key [where hmac = "c_hmac c'", OF hmac len])
  moreover obtain ck2 mk where "kdfChainKey (c_hmac c') (chain_key (c_hmac c') ck (?n - Nr R1)) = (ck2, mk)" by fastforce
  ultimately obtain ckr where s3: "deriveReceivingKey (c_hmac c') (?R2\<lparr>tripleRatchet := tr\<rparr>) =
      Inr (message_key (c_hmac c') ck (?n - Nr R1), ?R2\<lparr>tripleRatchet := tr, CKr := Some ckr, Nr := ?n + 1\<rparr>)"
    using n(3) by (simp add: deriveReceivingKey_def required_def message_key_def)
  have s4: "decryptWithKey c' (message_key (c_hmac c') ck (?n - Nr R1)) (rm_ciphertext message)
      (?R2\<lparr>tripleRatchet := tr, CKr := Some ckr, Nr := ?n + 1\<rparr>) cx pq = Inr plaintext"
    by (rule dec) simp_all
  show ?thesis
    by (simp add: receive_message_def ratchet max s1 [simplified] s2 [simplified] s3 [simplified] s4 [simplified] Let_def)
      (intro exI [of _ cs] conjI exI [of _ ckr] exI [of _ tr], use cs in simp_all)
qed

section \<open>Delivery between two stores\<close>

lemma commit_signed:
  assumes "commitSessionTrust sha256 now c s = (Inr (), s')"
  shows "ecSignedPreKeys s' = ecSignedPreKeys s"
  using assms
proof (rule commit_Inr)
  fix n t t'
  assume "beyond_failures t = beyond_failures s" "beyond_failures t' = beyond_failures s"
    and s': "s' = commit_writes c n t'"
  then have "ecSignedPreKeys t' = ecSignedPreKeys s" by (simp add: beyond_failures_eq) (metis MemoryStore.select_convs(5) MemoryStore.surjective MemoryStore.update_convs(1))
  then show ?thesis by (simp add: s' commit_writes_def Let_def split: option.split sum.split)
qed

definition current_attempt :: "'q SessionRecord \<Rightarrow> 'q SessionState \<Rightarrow> 'q Attempt" where
  "current_attempt rec R = \<lparr>a_session = Some R, a_record = Some rec, a_usedArchived = None, a_candidateIndex = 1,
     a_retriedAfterArchive = False\<rparr>"

lemma current_attempt_fields [simp]:
  "a_session (current_attempt rec R) = Some R" "a_record (current_attempt rec R) = Some rec"
  "a_usedArchived (current_attempt rec R) = None" "a_candidateIndex (current_attempt rec R) = 1"
  "\<not> a_retriedAfterArchive (current_attempt rec R)" "prepare_attempt (current_attempt rec R) = current_attempt rec R"
  by (simp_all add: current_attempt_def prepare_attempt_def)

text \<open>A session of a stored record that passes the checks of an attempt.\<close>

definition attemptable :: "'q MemoryStore \<Rightarrow> ProtocolAddress \<Rightarrow> 'q SessionRecord \<Rightarrow> 'q SessionState \<Rightarrow> bool" where
  "attemptable s a rec R =
     (session_view s a = Some rec \<and> currentSession rec = Some R \<and> intact R \<and> ratchet_ok 2000 R \<and>
      (\<forall>k. fst (getEcSignedPreKey None None s) = Inr (Some k) \<longrightarrow> validateSessionKeyOwnership R (Some (es_publicKey k)) = Inr ()))"

text \<open>A ratchet message goes to the current session first; without a stored key it is received by the chain.\<close>

lemma decrypt_current:
  fixes c :: "('q MemoryStore, 'q) Cipher"
  defines "C \<equiv> memory_cipher c"
  assumes parse: "parse_message a ciphertext = Inr p" "p_prekey p = None" and ok: "attemptable s a rec R"
  shows "\<exists>n. decrypt_body C a ciphertext seed s =
    decrypt_loop C a p seed True False (findDecryptingSessions (Some rec)) 0 (Suc n) (current_attempt rec R) s"
proof -
  have view: "session_view s a = Some rec" "currentSession rec = Some R" using ok by (simp_all add: attemptable_def)
  have load: "load_record C a s = (Inr (Some rec), s)"
    using view_record_valid [OF view(1)] getSessionRecord_valid [OF view(1)]
    by (simp add: load_record_def action_simps C_def memory_storage_def assert_record_iff)
  have first: "first_attempt False (Some rec) (findDecryptingSessions (Some rec)) = current_attempt rec R"
    by (simp add: first_attempt_def current_attempt_def view(2))
  obtain n where "max_attempts False (findDecryptingSessions (Some rec)) = Suc n"
    by (cases "max_attempts False (findDecryptingSessions (Some rec))") (simp_all add: max_attempts_def)
  then have "decrypt_body C a ciphertext seed s =
      decrypt_loop C a p seed True False (findDecryptingSessions (Some rec)) 0 (Suc n) (current_attempt rec R) s"
    unfolding decrypt_body_def
    by (simp add: action_simps parse load first prekey_checks_def Let_def del: decrypt_loop.simps)
  then show ?thesis by blast
qed

lemma decrypt_attempt_current:
  fixes c :: "('q MemoryStore, 'q) Cipher"
  defines "C \<equiv> memory_cipher c"
  assumes prekey: "p_prekey p = None" and ok: "attemptable s a rec R"
    and none: "find_key (rm_counter (p_message p)) (keys_of (rm_ratchetKey (p_message p)) (receiverChains R)) = None"
  shows "decrypt_attempt C a p seed n (current_attempt rec R) s =
    bnd (of_result (receive_message C n (cleanupExpiredMessageKeys R DEFAULT_RATCHET_CONFIG (dateNow c)) p)) (\<lambda>(plaintext, session).
    bnd (check_receiving_trust C a session) (\<lambda>_.
    commit_received C a False seed plaintext (rec\<lparr>currentSession := Some session\<rparr>) session)) s"
proof -
  let ?R = "cleanupExpiredMessageKeys R DEFAULT_RATCHET_CONFIG (dateNow c)"
  obtain cs pc where shape: "?R = R\<lparr>receiverChains := cs, processedChains := pc\<rparr>" using cleanup_shape by blast
  have own: "validateSessionKeyOwnership ?R k = validateSessionKeyOwnership R k" for k
    by (simp add: shape validateSessionKeyOwnership_def)
  obtain key where signed: "getEcSignedPreKey None None s = (Inr key, s)"
    by (auto simp: getEcSignedPreKey_def action_simps)
  have start: "attempt_session C a p (current_attempt rec R) s = (Inr ?R, s)"
    using ok signed own integrity_iff [of R "()"]
    by (cases key) (auto simp: attempt_session_def action_simps C_def memory_storage_def attemptable_def Let_def)
  have "ratchet_ok 2000 R" using ok by (simp add: attemptable_def)
  then have "find_key (rm_counter (p_message p)) (keys_of (rm_ratchetKey (p_message p)) (receiverChains ?R)) = None"
    using none cleanup_keys [of 2000 R "rm_ratchetKey (p_message p)" DEFAULT_RATCHET_CONFIG "dateNow c"] by (auto simp: find_key_None)
  then have "trySkippedMessageKeys C ?R (p_message p) (p_context p) (p_pqRatchet p) = Inr (None, ?R)"
    by (rule trySkipped_absent)
  with start show ?thesis
    by (simp add: decrypt_attempt_def action_simps prekey record_to_store_def record_or_wrap_def split: sum.split)
qed

lemma decrypt_first:
  fixes c :: "('q MemoryStore, 'q) Cipher"
  assumes parse: "parse_message a ciphertext = Inr p" "p_prekey p = None"
    and view: "session_view s a = Some rec" "currentSession rec = Some R" and ready: "ready_session c a R s"
    and none: "find_key (rm_counter (p_message p)) (keys_of (rm_ratchetKey (p_message p)) (receiverChains R)) = None"
    and got: "receive_message (memory_cipher c) 0 (cleanupExpiredMessageKeys R DEFAULT_RATCHET_CONFIG (dateNow c)) p =
      Inr (plaintext, R2)"
    and same: "localIdentity R2 = localIdentity R" "remoteIdentity R2 = remoteIdentity R" "identityKeyPair R2 = identityKeyPair R"
      "baseKey R2 = baseKey R" "remoteIdentityType R2 = remoteIdentityType R"
  shows "\<exists>s'. decrypt (memory_cipher c) a ciphertext None s = (Inr plaintext, s') \<and>
    session_view s' = (session_view s)(a \<mapsto> rec\<lparr>currentSession := Some (markSessionAcknowledged R2)\<rparr>) \<and>
    ecSignedPreKeys s' = ecSignedPreKeys s"
proof -
  let ?rec = "rec\<lparr>currentSession := Some R2\<rparr>"
  have ok: "attemptable s a rec R" using view ready by (simp add: attemptable_def ready_session_def)
  have trusted: "check_receiving_trust (memory_cipher c) a R2 s = (Inr (), s)"
    using ready same trusted_eval [of "c_sha256 c" a "remoteIdentity R" "Some (remoteIdentityType R)" s]
    by (simp add: check_receiving_trust_def action_simps memory_storage_def ready_session_def)
  let ?commit = "receive_commit a False None plaintext ?rec (markSessionAcknowledged R2)"
  have fields: "ct_address ?commit = a" "ct_contactIdentity ?commit = remoteIdentity R"
      "ct_contactIdentityType ?commit = remoteIdentityType R" "ct_oneTimePreKeyId ?commit = None"
      "ct_kemOneTimePreKeyId ?commit = None" "ct_kyberPreKeyUse ?commit = None" "ct_receiveWork ?commit = None"
      "ct_record ?commit = rec\<lparr>currentSession := Some (markSessionAcknowledged R2)\<rparr>"
    by (simp_all add: receive_commit_def markSessionAcknowledged_def Let_def same)
  have "assertCurrentSessionRecord (ct_record ?commit) = Inr ()"
    using view_record_valid [OF view(1)] view(2) same unfolding fields(8) assert_record_iff
    by (simp add: profile_ok_def markSessionAcknowledged_def)
  moreover have "valid_identity (remoteIdentity R)" using ready by (simp add: ready_session_def intact_def)
  ultimately obtain s' where commit: "commitSessionTrust (c_sha256 c) (dateNow c) ?commit s = (Inr (), s')"
    using commit_plain_ok [of s ?commit "c_sha256 c" "dateNow c"] ready fields unfolding ready_session_def by auto
  have "decrypt_attempt (memory_cipher c) a p None 0 (current_attempt rec R) s = (Inr plaintext, s')"
    using commit by (simp add: decrypt_attempt_current [OF parse(2) ok none] got action_simps trusted commit_received_def memory_storage_def)
  then have "decrypt_body (memory_cipher c) a ciphertext None s = (Inr plaintext, s')"
    using decrypt_current [OF parse ok, of c None] by (auto simp: Let_def catch_eval)
  then show ?thesis using session_view_commit [OF commit] fields commit_signed [OF commit] by (auto simp: decrypt_def action_simps)
qed

text \<open>A message number of the current chain that was passed, without a stored key, is a duplicate.\<close>

lemma decrypt_duplicate:
  fixes c :: "('q MemoryStore, 'q) Cipher"
  assumes parse: "parse_message a ciphertext = Inr p" "p_prekey p = None" and ok: "attemptable s a rec R" "sendable R"
    and passed: "DHr R = Some (rm_ratchetKey (p_message p))" "rm_counter (p_message p) < Nr R"
    and none: "find_key (rm_counter (p_message p)) (keys_of (rm_ratchetKey (p_message p)) (receiverChains R)) = None"
  shows "decrypt (memory_cipher c) a ciphertext seed s = (Inl (EncryptionError MESSAGE_DUPLICATE), s)"
proof -
  let ?R = "cleanupExpiredMessageKeys R DEFAULT_RATCHET_CONFIG (dateNow c)"
  obtain cs pc where shape: "?R = R\<lparr>receiverChains := cs, processedChains := pc\<rparr>" using cleanup_shape by blast
  have "intact ?R" "sendable ?R" using ok by (simp_all add: shape attemptable_def intact_def sendable_def)
  then have "receive_message (memory_cipher c) 0 ?R p = Inl (EncryptionError MESSAGE_DUPLICATE)"
    using passed by (simp add: receive_message_def dh_ratchet_if_needed_def check_processed_chain_def storeSkippedMessageKeys_eq shape Let_def)
  then have "decrypt_attempt (memory_cipher c) a p seed 0 (current_attempt rec R) s = (Inl (EncryptionError MESSAGE_DUPLICATE), s)"
    by (simp add: decrypt_attempt_current [OF parse(2) ok(1) none] action_simps)
  then have "decrypt_body (memory_cipher c) a ciphertext seed s = (Inl (EncryptionError MESSAGE_DUPLICATE), s)"
    using decrypt_current [OF parse ok(1), of c seed] by (auto simp: Let_def catch_eval after_failure_def parse(2) action_eval)
  then show ?thesis by (simp add: decrypt_def action_simps decrypt_error_def)
qed

section \<open>Properties\<close>

text \<open>
  C2. Decryption over the in-memory store is all or nothing, when establishing a session writes no
  session. An error is an \<open>EncryptionError\<close> and leaves every stored session as it was, whatever attempts
  were made. A success changes the record of this address alone; its current session is acknowledged,
  and the identity of this session is from then on the only one trusted for the peer.
\<close>

theorem decrypt_all_or_nothing:
  assumes "\<And>m. keeps session_view (establishSession c a m)"
  shows "case decrypt (memory_cipher c) a ciphertext seed s of
     (Inl e, s') \<Rightarrow> session_view s' = session_view s \<and> (\<exists>code. e = EncryptionError code)
   | (Inr plaintext, s') \<Rightarrow> \<exists>record session. session_view s' = (session_view s)(a \<mapsto> record) \<and>
       currentSession record = Some session \<and> hasReceivedMessage session = Some True \<and>
       unacknowledgedPreKeyMessage session = Some False \<and>
       (\<forall>i. valid_identity i \<longrightarrow> fst (isTrustedIdentity (c_sha256 c) a i (Some (remoteIdentityType session)) s') =
          Inr (i = remoteIdentity session))"
proof (cases "decrypt (memory_cipher c) a ciphertext seed s")
  case (Pair r s')
  have est: "\<And>m. keeps session_view (establishSession (memory_cipher c) a m)"
    using assms by (simp add: memory_cipher_def)
  show ?thesis
  proof (cases r)
    case (Inl e)
    with Pair have "session_view s' = session_view s"
      using memory_cipher.decrypt_error_keeps [OF est, of ciphertext seed] by (auto simp: keeps_on_error_def dest: spec [of _ s])
    moreover have "\<exists>code. e = EncryptionError code"
      using Pair Inl by (auto simp: decrypt_def catch_def action_eval decrypt_error_def split: prod.splits sum.splits js_error.splits)
    ultimately show ?thesis using Pair Inl by simp
  next
    case (Inr plaintext)
    with Pair have "decrypt (memory_cipher c) a ciphertext seed s = (Inr plaintext, s')" by simp
    then obtain parsed attempt att t where "parse_message a ciphertext = Inr parsed" and t: "session_view t = session_view s"
      and d: "decrypt_attempt (memory_cipher c) a parsed seed attempt att t = (Inr plaintext, s')"
      by (rule memory_cipher.decrypt_commits [OF est])
    from memory_cipher.decrypt_attempt_Inr [OF est d] obtain t' r' session where t': "session_view t' = session_view t"
      and cm: "st_commitSessionTrust (keyStorage (memory_cipher c))
        (receive_commit a (p_prekey parsed \<noteq> None) seed plaintext r' (markSessionAcknowledged session)) t' = (Inr (), s')" by blast
    have cm': "commitSessionTrust (c_sha256 c) (dateNow c)
        (receive_commit a (p_prekey parsed \<noteq> None) seed plaintext r' (markSessionAcknowledged session)) t' = (Inr (), s')"
      using cm by (simp add: memory_cipher_def memory_storage_def)
    let ?commit = "receive_commit a (p_prekey parsed \<noteq> None) seed plaintext r' (markSessionAcknowledged session)"
    let ?S = "markSessionAcknowledged session"
    define S where "S = (if p_prekey parsed \<noteq> None then ?S\<lparr>pendingPreKeyDeletion := None\<rparr> else ?S)"
    have ct: "ct_address ?commit = a" "ct_contactIdentity ?commit = remoteIdentity session"
      "ct_contactIdentityType ?commit = remoteIdentityType session"
      by (simp_all add: receive_commit_def markSessionAcknowledged_def Let_def)
    have S: "ct_record ?commit = r'\<lparr>currentSession := Some S\<rparr>" "hasReceivedMessage S = Some True"
      "unacknowledgedPreKeyMessage S = Some False" "remoteIdentity S = remoteIdentity session"
      "remoteIdentityType S = remoteIdentityType session"
      by (simp_all add: receive_commit_def markSessionAcknowledged_def S_def Let_def)
    have "session_view s' = (session_view s)(a \<mapsto> r'\<lparr>currentSession := Some S\<rparr>)"
      using session_view_commit [OF cm'] t t' ct(1) S(1) by simp
    moreover have "\<forall>i. valid_identity i \<longrightarrow> fst (isTrustedIdentity (c_sha256 c) a i (Some (remoteIdentityType S)) s') =
        Inr (i = remoteIdentity S)"
      using commit_trusts [OF cm'] ct(1-3) S(4,5) by simp
    ultimately show ?thesis using Pair Inr S(2,3) by auto
  qed
qed

theorem decrypt_all_or_nothing_witness:
  "\<exists>s'. decrypt (memory_cipher sample_cipher) (sample_address 97 1) (bytesToBase64 [0, 0, 0]) None bob_store =
      (Inl (EncryptionError INVALID_CIPHERTEXT), s') \<and> session_view s' = session_view bob_store"
proof -
  have "keeps session_view (establishSession sample_cipher a m)" for a m
    by (simp add: sample_cipher_def keeps_basic)
  note all = decrypt_all_or_nothing [where c = sample_cipher and a = "sample_address 97 1" and ciphertext = "bytesToBase64 [0, 0, 0]"
    and seed = None and s = bob_store, OF this]
  have "parse_message a (bytesToBase64 [0, 0, 0]) = Inl (EncryptionError INVALID_CIPHERTEXT)" for a
    by (simp add: parse_message_def isBinaryPreKey_def parse_ratchet_message_def parseSignalProtocolMessageEnvelope_def
        MAC_LENGTH_def malformed_def)
  then obtain s' where "decrypt (memory_cipher sample_cipher) (sample_address 97 1) (bytesToBase64 [0, 0, 0]) None bob_store =
      (Inl (EncryptionError INVALID_CIPHERTEXT), s')"
    by (simp add: decrypt_def decrypt_body_def action_simps decrypt_error_def)
  with all show ?thesis by simp
qed

text \<open>The checks of a prekey message keep the record, and no retry is staged yet.\<close>

lemma prekey_checks_attempt:
  assumes "prekey_checks c a (Some m) (first_attempt True r candidates) s = (Inr (att, matched), s')"
  shows "a_record att = r \<and> \<not> a_retriedAfterArchive att"
  using assms
  by (auto simp: prekey_checks_def first_attempt_def bnd_Inr action_eval Let_def split_beta
      simp del: split_paired_All split_paired_Ex split: option.splits if_splits)

text \<open>
  C38. A prekey message that meets a session it does not belong to (one with the same identity that does not hold its base key)
  is tried twice: with that session, and, after an error other than \<open>ReusedBaseKeyError\<close>, \<open>MESSAGE_DUPLICATE\<close> and
  \<open>PREKEY_NOT_FOUND\<close>, with a new session. When the second attempt throws too, \<open>decrypt\<close> throws its error only when it is
  \<open>MESSAGE_DUPLICATE\<close> or \<open>PREKEY_NOT_FOUND\<close>; every other error of the second attempt, an untrusted identity included,
  is reported as \<open>DECRYPTION_FAILED\<close>.
\<close>

theorem second_prekey_failure_masked:
  assumes "parse_message a ciphertext = Inr parsed" and "p_prekey parsed = Some m"
    and "load_record c a s = (Inr (Some rec), s1)"
    and "prekey_checks c a (Some m) (first_attempt True (Some rec) []) s1 = (Inr (att, False), s2)" and "a_session att = Some session"
    and "decrypt_attempt c a parsed seed 0 att s2 = (Inl e1, s3)"
    and "e1 \<notin> {ReusedBaseKeyError, EncryptionError MESSAGE_DUPLICATE, EncryptionError PREKEY_NOT_FOUND}"
    and "decrypt_attempt c a parsed seed 1 (att\<lparr>a_record := Some (archiveCurrentState rec), a_session := None\<rparr>) s3 = (Inl e2, s4)"
  shows "decrypt c a ciphertext seed s =
    (Inl (if e2 = EncryptionError MESSAGE_DUPLICATE \<or> e2 = EncryptionError PREKEY_NOT_FOUND then e2
          else EncryptionError DECRYPTION_FAILED), s4)"
proof -
  let ?att = "att\<lparr>a_record := Some (archiveCurrentState rec), a_session := None\<rparr>"
  have att: "a_record att = Some rec" "\<not> a_retriedAfterArchive att" using prekey_checks_attempt [OF assms(4)] by simp_all
  have p: "prepare_attempt att = att" "prepare_attempt (att\<lparr>a_retriedAfterArchive := True\<rparr>) = ?att"
    using att by (cases att, simp add: prepare_attempt_def)+
  have f: "after_failure True True False [] e1 att = Inr (att\<lparr>a_retriedAfterArchive := True\<rparr>)"
    using assms(7) att by (simp add: after_failure_def)
  have g: "after_failure True True False [] e2 ?att = (if e2 = ReusedBaseKeyError then Inl (EncryptionError DECRYPTION_FAILED)
      else if e2 = EncryptionError MESSAGE_DUPLICATE \<or> e2 = EncryptionError PREKEY_NOT_FOUND then Inl e2
      else Inr (?att\<lparr>a_retriedAfterArchive := True\<rparr>))"
    using att by (simp add: after_failure_def)
  have "decrypt_loop c a parsed seed True False [] 0 (Suc (Suc 0)) att s2 =
    (Inl (if e2 = EncryptionError MESSAGE_DUPLICATE \<or> e2 = EncryptionError PREKEY_NOT_FOUND then e2
          else EncryptionError DECRYPTION_FAILED), s4)"
    using assms(2,6,8) p f g by (auto simp: catch_def action_eval Let_def ReusedBaseKeyError_def)
  then have "decrypt_body c a ciphertext seed s =
    (Inl (if e2 = EncryptionError MESSAGE_DUPLICATE \<or> e2 = EncryptionError PREKEY_NOT_FOUND then e2
          else EncryptionError DECRYPTION_FAILED), s4)"
    using assms(1-5) by (simp add: decrypt_body_def max_attempts_def numeral_2_eq_2 bnd_def action_eval Let_def del: decrypt_loop.simps)
  then show ?thesis by (simp add: decrypt_def catch_def action_eval decrypt_error_def)
qed

text \<open>
  A prekey message to the device of the sample session, from the identity of that session but with another base key. Its inner
  message is too far ahead of the session, and the new session that is tried then is refused.
\<close>

definition sample_prekey_inner :: SignalProtocolMessageFields where
  "sample_prekey_inner = \<lparr>sm_ratchetKey = 5 # replicate 32 5, sm_counter = 1000000, sm_previousCounter = 0, sm_ciphertext = [1],
     sm_pqRatchet = None, sm_addresses = [1], sm_recipientIdentityType = Some 1\<rparr>"

definition sample_prekey_fields :: "bytes \<Rightarrow> PreKeySignalProtocolMessageFields" where
  "sample_prekey_fields inner = \<lparr>pk_ecOneTimePreKeyId = None, pk_baseKey = 5 # replicate 32 9,
     pk_identityKey = identity_bytes (sample_identity 1), pk_message = inner, pk_registrationId = 1, pk_ecSignedPreKeyId = 7,
     pk_kemLastResortPreKeyId = None, pk_kemLastResortCiphertext = None, pk_kemOneTimePreKeyId = None, pk_kemOneTimeCiphertext = None,
     pk_recipientIdentityType = 1\<rparr>"

lemma sample_prekey_parsed:
  obtains ciphertext parsed m where "parse_message (sample_address 97 1) ciphertext = Inr parsed" "p_prekey parsed = Some m"
    "pm_senderId m = [97]" "pm_senderDeviceId m = 1" "pm_senderIdentity m = sample_identity 1"
    "pm_senderEphemeralKey m = bytesToBase64 (replicate 32 9)" "rm_ratchetKey (p_message parsed) = bytesToBase64 (replicate 32 5)"
    "rm_counter (p_message parsed) = 1000000"
proof -
  have v: "valid_signal sample_prekey_inner" by (simp add: valid_signal_def sample_prekey_inner_def uint32_def UINT32_MAX_def)
  then obtain e where e: "encodeSignalProtocolMessage sample_prekey_inner = Inr e"
    using encodeSignal_total [of sample_prekey_inner] by (auto simp: sample_prekey_inner_def UINT32_MAX_def)
  have len: "length e \<le> 200" using encodeSignal_length [OF e] by (simp add: sample_prekey_inner_def)
  have dec: "decodeSignalProtocolMessage e = Inr sample_prekey_inner"
    using decode_signal_encoded [OF e v, of "[]" "[]" "[]" "[]"] len by (simp add: MAX_SIGNAL_PROTOCOL_WIRE_MESSAGE_BYTES_def)
  define inner where "inner = 0x44 # e @ replicate 8 0"
  have inner: "parseSignalProtocolMessageEnvelope inner = Inr (4, e, replicate 8 0)"
    by (simp add: parseSignalProtocolMessageEnvelope_def inner_def MAC_LENGTH_def js_slice_def drop_bit_eq_div)
  let ?m = "sample_prekey_fields inner"
  have id: "decodeCompositeIdentityV1 (identity_bytes (sample_identity 1)) = Inr (sample_identity 1)"
    using encode_valid [OF sample_identity_valid [of 1]] by (simp add: decode_encode_iff)
  then have id_len: "length (identity_bytes (sample_identity 1)) = 67" by (auto simp: decodeCompositeIdentityV1_iff tuple_bytes_def)
  have vp: "valid_prekey ?m" using id_len by (simp add: valid_prekey_def sample_prekey_fields_def inner_def uint32_def UINT32_MAX_def)
  let ?p = "varint_loop 33 @ 5 # replicate 32 9 @ varint_loop 26 @ varint_loop 67 @ identity_bytes (sample_identity 1) @
    varint_loop 34 @ varint_loop (length inner) @ inner @ varint_loop 40 @ varint_loop 1 @ varint_loop 48 @ varint_loop 7 @
    varint_loop (8 * PK_recipientIdentityType) @ varint_loop 1"
  have "length inner \<le> 209" using len by (simp add: inner_def)
  then have "length ?p \<le> 400"
    using length_varint [of "length inner" 1] length_varint [of "8 * PK_recipientIdentityType" 4] id_len
    by (simp add: varint_loop.simps PK_recipientIdentityType_def)
  have "encodePreKeySignalProtocolMessage ?m = Inr (varint_loop 18 @ ?p)"
    using id_len \<open>length inner \<le> 209\<close>
    by (simp add: encodePreKeySignalProtocolMessage_def sample_prekey_fields_def identityType_invalid_def optional_field_def
        encodeBytesField_eq encodeUint32Field_eq concatFields_def PK_field_defs field_ok_def uint32_def UINT32_MAX_def)
  then have "encodePreKeySignalProtocolMessage ?m = Inr (18 # ?p)" by (simp add: varint_loop.simps [of 18])
  with \<open>length ?p \<le> 400\<close> obtain p where p: "encodePreKeySignalProtocolMessage ?m = Inr (18 # p)" "length p \<le> 400" by blast
  have decp: "decodePreKeySignalProtocolMessage (18 # p) = Inr ?m"
    using decode_prekey_encoded [OF p(1) vp, of "[]" "[]" "[]" "[]"] p(2) by (simp add: MAX_SIGNAL_PROTOCOL_WIRE_MESSAGE_BYTES_def)
  let ?framed = "0x44 # 18 # p"
  have "parsePreKeySignalProtocolMessageEnvelope ?framed = Inr (4, 18 # p)"
    by (simp add: parsePreKeySignalProtocolMessageEnvelope_def drop_bit_eq_div)
  moreover have "createProtobufMacContext inner (replicate 8 0) [1] = Inr \<lparr>serializedForMac = 0x44 # e, mc_mac = replicate 8 0, mc_addresses = [1]\<rparr>"
    by (simp add: createProtobufMacContext_def inner_def)
  moreover have "raw_key (5 # replicate 32 n) = Inr (replicate 32 n)" for n
    by (simp add: raw_key_def deserializePublicKey_def X25519_SERIALIZED_KEY_BYTES_def DJB_KEY_TYPE_def)
  ultimately have "\<exists>parsed m. parse_prekey_message (sample_address 97 1) ?framed = Inr parsed \<and> p_prekey parsed = Some m \<and>
    pm_senderId m = [97] \<and> pm_senderDeviceId m = 1 \<and> pm_senderIdentity m = sample_identity 1 \<and>
    pm_senderEphemeralKey m = bytesToBase64 (replicate 32 9) \<and> rm_ratchetKey (p_message parsed) = bytesToBase64 (replicate 32 5) \<and>
    rm_counter (p_message parsed) = 1000000"
    using decp inner dec id
    by (simp add: parse_prekey_message_def Let_def sample_prekey_fields_def sample_prekey_inner_def identityTypeFromWire_def sample_address_def
        ratchet_message_def PreKeyMessage.defs RatchetMessage.defs)
  then obtain parsed m where P: "parse_prekey_message (sample_address 97 1) ?framed = Inr parsed" "p_prekey parsed = Some m"
    "pm_senderId m = [97]" "pm_senderDeviceId m = 1" "pm_senderIdentity m = sample_identity 1"
    "pm_senderEphemeralKey m = bytesToBase64 (replicate 32 9)" "rm_ratchetKey (p_message parsed) = bytesToBase64 (replicate 32 5)"
    "rm_counter (p_message parsed) = 1000000" by blast
  have "parse_message (sample_address 97 1) (bytesToBase64 ?framed) = Inr parsed"
    using P(1) by (simp add: parse_message_def isBinaryPreKey_def malformed_def)
  with P(2-) that show ?thesis by blast
qed

theorem second_prekey_failure_masked_witness:
  "\<exists>ciphertext s'. decrypt (memory_cipher (sample_cipher\<lparr>establishSession := \<lambda>_ _. throw (EncryptionError UNTRUSTED_IDENTITY)\<rparr>))
      (sample_address 97 1) ciphertext None bob_store = (Inl (EncryptionError DECRYPTION_FAILED), s')"
proof -
  let ?c = "memory_cipher (sample_cipher\<lparr>establishSession := \<lambda>_ _. throw (EncryptionError UNTRUSTED_IDENTITY)\<rparr>)"
  let ?a = "sample_address 97 1" and ?rec = "create bob_session"
  let ?att = "first_attempt True (Some ?rec) []"
  obtain ciphertext parsed m where P: "parse_message ?a ciphertext = Inr parsed" "p_prekey parsed = Some m"
    "pm_senderId m = [97]" "pm_senderDeviceId m = 1" "pm_senderIdentity m = sample_identity 1"
    "pm_senderEphemeralKey m = bytesToBase64 (replicate 32 9)" "rm_ratchetKey (p_message parsed) = bytesToBase64 (replicate 32 5)"
    "rm_counter (p_message parsed) = 1000000" by (rule sample_prekey_parsed)
  have load: "load_record ?c ?a bob_store = (Inr (Some ?rec), bob_store)"
    using view_record_valid [OF sample_views(2)] getSessionRecord_valid [OF sample_views(2)]
    by (simp add: load_record_def action_simps memory_storage_def assert_record_iff)
  have ids: "remoteIdentity bob_session = sample_identity 1" "localIdentity bob_session = sample_identity 2" "Nr bob_session = 0"
      "DHr bob_session = Some (bytesToBase64 (replicate 32 5))" "DHs bob_session \<noteq> None" "baseKey bob_session = bytesToBase64 (replicate 32 5)"
      "remoteIdentityType bob_session = Aci" "localAddress bob_session = sample_address 98 1" "remoteAddress bob_session = sample_address 97 1"
      "receiverChains bob_session = []"
    by (simp_all add: sample_session_defs)
  have addr: "address_create [97] 1 = Inr ?a" "address_equals ?a ?a"
    by (simp_all add: address_create_def validateComponents_def js_blank_def sample_address_def address_equals_def)
  have same: "compositeIdentitiesEqual (sample_identity 1) (sample_identity 1) = Inr True"
    by (simp add: compositeIdentitiesEqual_iff sample_identity_valid)
  have "(replicate 32 5 :: bytes) \<noteq> replicate 32 9" by simp
  then have "bytesToBase64 (replicate 32 5) \<noteq> bytesToBase64 (replicate 32 9)" by (metis base64_roundtrip sum.inject(2))
  then have nomatch: "findMatchingPreKeySession (Some ?rec) m = Inr None"
    using P(6) by (simp add: findMatchingPreKeySession_def findSession_def create_def ids)
  have trusted: "isTrustedIdentity (\<lambda>b. b) ?a (sample_identity 1) (Some Aci) bob_store = (Inr True, bob_store)"
    using sample_ready(2) trusted_eval [of "\<lambda>b. b" ?a "sample_identity 1" "Some Aci" bob_store]
    by (simp add: ready_session_def ids)
  have att: "a_session ?att = Some bob_session" "a_record ?att = Some ?rec" by (simp_all add: first_attempt_def create_def Let_def)
  have checks: "prekey_checks ?c ?a (Some m) ?att bob_store = (Inr (?att, False), bob_store)"
    using addr same nomatch trusted att P(3-5)
    by (simp add: prekey_checks_def action_simps ids memory_storage_def)
  let ?R = "cleanupExpiredMessageKeys bob_session DEFAULT_RATCHET_CONFIG 7"
  obtain cs pc where shape: "?R = bob_session\<lparr>receiverChains := cs, processedChains := pc\<rparr>" using cleanup_shape by blast
  have skipped: "trySkippedMessageKeys ?c ?R (p_message parsed) (p_context parsed) (p_pqRatchet parsed) = Inr (None, ?R)"
  proof (rule trySkipped_absent)
    have "ratchet_ok 2000 bob_session" using sample_ready(2) by (simp add: ready_session_def)
    from cleanup_keys [OF this, of "rm_ratchetKey (p_message parsed)" DEFAULT_RATCHET_CONFIG 7]
    show "find_key (rm_counter (p_message parsed)) (keys_of (rm_ratchetKey (p_message parsed)) (receiverChains ?R)) = None"
      by (auto simp: find_key_None ids keys_of_def find_chain_def)
  qed
  have start: "attempt_session ?c ?a parsed ?att bob_store = (Inr ?R, bob_store)"
  proof -
    obtain key where signed: "getEcSignedPreKey None None bob_store = (Inr key, bob_store)"
      by (auto simp: getEcSignedPreKey_def action_simps)
    have "validateSessionKeyOwnership ?R k = validateSessionKeyOwnership bob_session k" for k
      by (simp add: shape validateSessionKeyOwnership_def)
    then show ?thesis
      using sample_ready(2) signed att integrity_iff [of bob_session "()"]
      by (cases key) (auto simp: attempt_session_def action_simps memory_storage_def ready_session_def sample_cipher_def Let_def)
  qed
  have received: "receive_message ?c 0 ?R parsed = Inl (EncryptionError TOO_MANY_SKIPPED_MESSAGES)"
  proof -
    have "isSelfSession ?R = Inr False" by (simp add: isSelfSession_def compositeIdentitiesEqual_iff shape ids sample_identity_valid)
    moreover have "\<not> falsy (DHr ?R)" "\<not> falsy (CKs ?R)" unfolding shape by (simp_all add: falsy_def sample_session_defs)
    ultimately show ?thesis using P(7,8)
      by (simp add: receive_message_def dh_ratchet_if_needed_def check_processed_chain_def getMaxSkipForSession_def storeSkippedMessageKeys_def
          assertValidatedSession_def storeSkippedKeys_def shape ids sample_cipher_def DEFAULT_MAX_SKIP_def throw_if_def Let_def)
  qed
  have one: "decrypt_attempt ?c ?a parsed None 0 ?att bob_store = (Inl (EncryptionError TOO_MANY_SKIPPED_MESSAGES), bob_store)"
    using start skipped received by (simp add: decrypt_attempt_def action_simps Let_def)
  have two: "decrypt_attempt ?c ?a parsed None 1 (?att\<lparr>a_record := Some (archiveCurrentState ?rec), a_session := None\<rparr>) bob_store =
      (Inl (EncryptionError UNTRUSTED_IDENTITY), bob_store)"
    using P(2) by (simp add: decrypt_attempt_def attempt_session_def action_simps Let_def)
  from second_prekey_failure_masked [OF P(1,2) load checks att(1) one _ two] show ?thesis by (auto simp: ReusedBaseKeyError_def)
qed

text \<open>
  C1. Delivery. A device encrypts with a session whose sending chain is ahead of, or level with, the receiving
  chain of the peer's session, by at most the skip limit. Whatever the peer has received of the chain
  so far, it decrypts the message to the plaintext: it stores its session with the next message number
  and leaves every other session as it was. This holds for every message text without a lone surrogate
  or a leading byte order mark, with the post-quantum keys mixed in where the sessions have them.
\<close>

theorem message_delivered:
  assumes sent: "encrypt (memory_cipher c) b plaintext s = (Inr ciphertext, s')"
    and sender: "session_view s b = Some recS" "currentSession recS = Some S" "unacknowledgedPreKeyMessage S \<noteq> Some True"
    and receiver: "session_view t a = Some recR" "currentSession recR = Some R" "ready_session c' a R t"
    and ends: "mirrored S b R" "pq_in_step c c' S R"
    and chain: "DHs S = Some dhs" "receiving_from ck (publicKey dhs) R" "CKs S = Some (bytesToBase64 (chain_key (c_hmac c) ck (Ns S - Nr R)))"
      "publicKey dhs = bytesToBase64 key" "length key = 32"
    and ahead: "Nr R \<le> Ns S" "Ns S \<le> Nr R + limit_of c' R"
    and platform: "\<And>k d. length (c_hmac c k d) = 32" "c_hmac c' = c_hmac c" "c_sha256 c' = c_sha256 c" "aes_inverse c c'"
    and content: "wire_text plaintext" "length ciphertext \<le> MAX_SIGNAL_PROTOCOL_WIRE_MESSAGE_BYTES"
  shows "\<exists>t' R'. decrypt (memory_cipher c') a ciphertext None t = (Inr plaintext, t') \<and>
    session_view t' = (session_view t)(a \<mapsto> recR\<lparr>currentSession := Some R'\<rparr>) \<and> Nr R' = Ns S + 1 \<and> Ns R' = Ns R \<and> DHr R' = DHr R \<and>
    decrypt (memory_cipher c'') a ciphertext seed t' = (Inl (EncryptionError MESSAGE_DUPLICATE), t')"
proof -
  let ?S = "cleanupExpiredMessageKeys S DEFAULT_RATCHET_CONFIG (dateNow c)"
  let ?R = "cleanupExpiredMessageKeys R DEFAULT_RATCHET_CONFIG (dateNow c')"
  obtain mk pq pqBytes S1 framed rt where
    k: "derive_send_key (memory_cipher c) ?S = Inr (mk, pq, pqBytes, S1)"
    and built: "build_signal_message (memory_cipher c) S1 b (Ns S) mk pq pqBytes plaintext = Inr (framed, rt)"
    and encoded: "ciphertext = bytesToBase64 framed"
    by (rule memory_cipher.encrypt_message [OF sent sender, simplified memory_cipher_fields])
  obtain cs pc where shapeS: "?S = S\<lparr>receiverChains := cs, processedChains := pc\<rparr>" using cleanup_shape by blast
  obtain cs' pc' where shapeR: "?R = R\<lparr>receiverChains := cs', processedChains := pc'\<rparr>" using cleanup_shape by blast
  obtain ck1 tr where S1: "S1 = ?S\<lparr>CKs := Some ck1, Ns := Ns ?S + 1, tripleRatchet := tr\<rparr>"
    using derive_send_key_shape [OF k] by blast
  have counter: "Ns S < MAX_MESSAGE_COUNTER"
  proof -
    from k obtain T where "deriveSendingKey (c_hmac c) ?S = Inr (mk, T)"
      unfolding derive_send_key_def by (auto simp: and_then_eq_Inr split: option.splits if_splits)
    from deriveSendingKey_Inr [OF this] shapeS show ?thesis by auto
  qed
  have mk: "mk = message_key (c_hmac c) ck (Ns S - Nr R)"
    using send_key_of_chain [OF k, of ck "Ns S - Nr R"] chain(3) shapeS by simp
  have mirror: "mirrored S1 b R" using ends(1) S1 shapeS by (simp add: mirrored_def)
  have "pq_in_step (memory_cipher c) (memory_cipher c') ?S R = pq_in_step c c' S R"
    by (simp add: pq_in_step_def shapeS split: option.split)
  with ends(2) have step: "pq_in_step (memory_cipher c) (memory_cipher c') ?S R" by simp
  have pq: "\<And>R'. tripleRatchet R' = tripleRatchet R \<Longrightarrow>
      (\<exists>tr. receive_pq (memory_cipher c') R' pqBytes = Inr (pq, R'\<lparr>tripleRatchet := tr\<rparr>)) \<and> pqBytes \<noteq> Some []"
    by (rule pq_received [OF step k])
  from built obtain keys dhs' key' ct addresses protobuf mac where
    b: "expandMessageKey (c_hmac (memory_cipher c)) mk pq = Inr keys" "DHs S1 = Some dhs'" "length key' = 32"
    "base64ToBytes (publicKey dhs') = Inr key' \<or> base64ToBytes (publicKey dhs') = Inr (prefixed key')"
    "encryptAes (memory_cipher c) (encryptionKey keys) (iv keys) (padMessage (stringToBytes plaintext)) = Inr ct"
    "authenticatedRecipientIdentityType S1 = Inr rt"
    "serializeSignalProtocolMessageAddresses (localAddress S1) b = Inr addresses"
    "encodeSignalProtocolMessage (signal_fields S1 (prefixed key') (Ns S) ct pqBytes addresses rt) = Inr protobuf"
    "computeCompositeIdentityMessageMac (c_hmac (memory_cipher c)) (c_sha256 (memory_cipher c)) (authKey keys) (localIdentity S1) (remoteIdentity S1)
       (0x44 # protobuf) = Inr mac"
    "framed = 0x44 # protobuf @ mac" "length mac = MAC_LENGTH"
    by (rule build_signal_Inr)
  have key: "key' = key"
    using b(2-4) chain(1,4,5) S1 shapeS by (auto simp: prefixed_def)
  have ct: "ct \<noteq> []" using b(5) platform(4) by (auto simp: aes_inverse_def)
  have small: "length protobuf \<le> MAX_SIGNAL_PROTOCOL_WIRE_MESSAGE_BYTES"
    using content(2) unfolding encoded b(10) by (simp add: bytesToBase64_def length_bytesToBase64Portable)
  let ?m = "\<lparr>rm_ratchetKey = bytesToBase64 key, rm_counter = Ns S, rm_previousCounter = PN S1,
      rm_ciphertext = bytesToBase64 ct, rm_mac = bytesToBase64 mac\<rparr>"
  let ?cx = "\<lparr>serializedForMac = 0x44 # protobuf, mc_mac = mac, mc_addresses = addresses\<rparr>"
  have parse: "parse_message a ciphertext = Inr \<lparr>p_message = ?m, p_prekey = None, p_context = ?cx, p_pqRatchet = pqBytes\<rparr>"
    unfolding encoded b(10)
    by (rule parse_built [OF b(8) [unfolded key] _ ct _ serialize_nonempty [OF b(7)] identityTypeToWire_cases [OF b(6)] small b(11)])
      (use chain(5) pq in auto)
  have ok: "ratchet_ok 2000 R" "sendable R" "intact R" using receiver(3) by (simp_all add: ready_session_def)
  have keys: "\<forall>k \<in> set (keys_of (bytesToBase64 key) (receiverChains R)). mk_index k < Nr R"
    using chain(2,4) by (simp add: receiving_from_def)
  have old: "receiving_from ck (bytesToBase64 key) ?R"
    using chain(2,4) keys cleanup_keys [OF ok(1), of "bytesToBase64 key" DEFAULT_RATCHET_CONFIG "dateNow c'"] shapeR
    by (auto simp: receiving_from_def)
  have "dh_ratchet_if_needed (memory_cipher c') 0 ?R ?m = Inr ?R"
    using old by (simp add: dh_ratchet_if_needed_def check_processed_chain_def receiving_from_def)
  moreover have "ratchet_ok 2000 ?R" "sendable ?R" "intact ?R" "limit_of (memory_cipher c') ?R = limit_of c' R" "Nr ?R = Nr R"
    using ok cleanup_ok [OF ok(1), of DEFAULT_RATCHET_CONFIG "dateNow c'"] shapeR by (simp_all add: sendable_def intact_def limit_of_def)
  moreover have "decryptWithKey (memory_cipher c') mk (bytesToBase64 ct) R' ?cx pq = Inr plaintext"
    if "localIdentity R' = localIdentity ?R" "remoteIdentity R' = remoteIdentity ?R"
      "localAddress R' = localAddress ?R" "remoteAddress R' = remoteAddress ?R" for R'
    by (rule decryptWithKey_built [OF b(1,5,7,9)])
      (use that mirror platform content(1) shapeR in \<open>simp_all add: mirrored_def aes_inverse_def\<close>)
  ultimately obtain cs2 ckr tr2 where got: "receive_message (memory_cipher c') 0 ?R
      \<lparr>p_message = ?m, p_prekey = None, p_context = ?cx, p_pqRatchet = pqBytes\<rparr> = Inr (plaintext,
        ?R\<lparr>receiverChains := cs2, CKr := Some ckr, Nr := Ns S + 1, tripleRatchet := tr2, lastUsedAt := dateNow c'\<rparr>)"
    and stored: "chains_ok 2000 cs2" "\<forall>k \<in> set (keys_of (bytesToBase64 key) cs2). mk_index k < Ns S"
    using receive_message_ok [of "memory_cipher c'" 0 ?R ?m ?R ck "bytesToBase64 key" pqBytes pq ?cx plaintext None]
      platform(1,2) ahead counter pq shapeR mk old by auto
  have none: "find_key (rm_counter ?m) (keys_of (rm_ratchetKey ?m) (receiverChains R)) = None"
    using keys ahead(1) by (auto simp: find_key_None)
  define R3 where "R3 = markSessionAcknowledged
    (?R\<lparr>receiverChains := cs2, CKr := Some ckr, Nr := Ns S + 1, tripleRatchet := tr2, lastUsedAt := dateNow c'\<rparr>)"
  have R3: "Nr R3 = Ns S + 1" "Ns R3 = Ns R" "DHr R3 = DHr R" "receiverChains R3 = cs2" "intact R3" "sendable R3"
    "validateSessionKeyOwnership R3 k = validateSessionKeyOwnership R k" for k
    using ok(2,3) by (simp_all add: R3_def markSessionAcknowledged_def shapeR intact_def sendable_def validateSessionKeyOwnership_def)
  have "\<exists>t'. decrypt (memory_cipher c') a ciphertext None t = (Inr plaintext, t') \<and>
      session_view t' = (session_view t)(a \<mapsto> recR\<lparr>currentSession := Some R3\<rparr>) \<and> ecSignedPreKeys t' = ecSignedPreKeys t"
    unfolding R3_def
    by (rule decrypt_first [OF parse _ receiver _ got]) (use none in \<open>simp_all add: shapeR\<close>)
  then obtain t' where t': "decrypt (memory_cipher c') a ciphertext None t = (Inr plaintext, t')"
    "session_view t' = (session_view t)(a \<mapsto> recR\<lparr>currentSession := Some R3\<rparr>)" "ecSignedPreKeys t' = ecSignedPreKeys t" by blast
  have "attemptable t' a (recR\<lparr>currentSession := Some R3\<rparr>) R3"
    using receiver(3) t'(2,3) R3 stored(1)
    by (simp add: attemptable_def ready_session_def getEcSignedPreKey_def action_simps ratchet_ok_def)
  moreover have "DHr R3 = Some (bytesToBase64 key)" using R3(3) chain(2,4) by (simp add: receiving_from_def)
  moreover have "find_key (Ns S) (keys_of (bytesToBase64 key) (receiverChains R3)) = None"
    using stored(2) R3(4) by (auto simp: find_key_None)
  ultimately have "decrypt (memory_cipher c'') a ciphertext seed t' = (Inl (EncryptionError MESSAGE_DUPLICATE), t')"
    by (intro decrypt_duplicate [OF parse]) (use R3(1,6) in simp_all)
  with t'(1,2) R3(1-3) show ?thesis by blast
qed

theorem message_delivered_witness:
  "\<exists>ciphertext s' t' t''. encrypt (memory_cipher sample_cipher) (sample_address 98 1) [104] alice_store = (Inr ciphertext, s') \<and>
     decrypt (memory_cipher sample_cipher) (sample_address 97 1) ciphertext None bob_store = (Inr [104], t') \<and>
     decrypt (memory_cipher sample_cipher) (sample_address 97 1) ciphertext None t' = (Inl (EncryptionError MESSAGE_DUPLICATE), t'')"
proof -
  obtain framed s' where sent: "encrypt (memory_cipher sample_cipher) (sample_address 98 1) [104] alice_store = (Inr (bytesToBase64 framed), s')"
    and len: "length framed \<le> 595" using sample_encrypt by blast
  have small: "length (bytesToBase64 framed) \<le> MAX_SIGNAL_PROTOCOL_WIRE_MESSAGE_BYTES"
    using len by (simp add: bytesToBase64_def length_bytesToBase64Portable MAX_SIGNAL_PROTOCOL_WIRE_MESSAGE_BYTES_def)
  have chain: "receiving_from (replicate 32 7) (bytesToBase64 (replicate 32 5)) bob_session"
    by (simp add: receiving_from_def keys_of_def find_chain_def sample_session_defs)
  have "\<exists>t' R'. decrypt (memory_cipher sample_cipher) (sample_address 97 1) (bytesToBase64 framed) None bob_store = (Inr [104], t') \<and>
      session_view t' = (session_view bob_store)(sample_address 97 1 \<mapsto> (create bob_session)\<lparr>currentSession := Some R'\<rparr>) \<and>
      Nr R' = Ns alice_session + 1 \<and> Ns R' = Ns bob_session \<and> DHr R' = DHr bob_session \<and>
      decrypt (memory_cipher sample_cipher) (sample_address 97 1) (bytesToBase64 framed) None t' =
        (Inl (EncryptionError MESSAGE_DUPLICATE), t')"
    by (rule message_delivered [OF sent sample_views(1) _ _ sample_views(2) _ sample_ready(2) sample_mirrored, where dhs = "\<lparr>publicKey = bytesToBase64 (replicate 32 5), privateKey = []\<rparr>" and ck = "replicate 32 7" and key = "replicate 32 5"])
      (use chain sample_cipher_aes small in \<open>simp_all add: create_def sample_session_defs pq_in_step_def wire_text_def
        high_surrogate_def low_surrogate_def\<close>)
  with sent show ?thesis by blast
qed

end
