(* ===== verification/Pqxdh.thy ===== *)
theory Pqxdh
  imports Memory_Store
begin

text \<open>
  The key agreement PQXDH: internal/protocol/pqxdh/pqxdh.ts, the signed context of prekeys
  (keys/prekey-signature.ts), the serialized ML-KEM-1024 keys and ciphertexts of
  internal/crypto/pq/kyber.ts, and the checks and wrappers around X25519 and Ed25519 of
  internal/crypto/ec and internal/crypto/validation.ts.

  The primitives of the libraries are the record \<open>Primitives\<close>: X25519, Ed25519 and ML-KEM-1024 on raw
  bytes, SHA-256, HMAC, and \<open>isTorsionFree\<close>, which the code composes of curve operations of a library.
  Random bytes are arguments. Zeroing of buffers has no effect on a value and is left out.

  Shown here: the range check accepts exactly the little-endian numbers below the prime; the signed
  context of a prekey determines the key and all that is said about it; both ends derive the same secret.
\<close>

section \<open>Definitions\<close>

subsection \<open>The primitives\<close>

record Primitives =
  p_hmac :: hmac_fun
  p_sha256 :: hash_fun
  isTorsionFree :: "bytes \<Rightarrow> bool"
  x25519_getPublicKey :: "bytes \<Rightarrow> bytes result"
  x25519_getSharedSecret :: "bytes \<Rightarrow> bytes \<Rightarrow> bytes result"
  ed25519_getPublicKey :: "bytes \<Rightarrow> bytes result"
  ed25519_sign :: "bytes \<Rightarrow> bytes \<Rightarrow> bytes result"
  ed25519_verify :: "bytes \<Rightarrow> bytes \<Rightarrow> bytes \<Rightarrow> bool result"
  ml_kem1024_keygen :: "bytes \<Rightarrow> bytes \<times> bytes"
  ml_kem1024_encapsulate :: "bytes \<Rightarrow> bytes \<Rightarrow> (bytes \<times> bytes) result"
  ml_kem1024_decapsulate :: "bytes \<Rightarrow> bytes \<Rightarrow> bytes result"

subsection \<open>X25519 (ec/x25519-validation.ts, ec/x25519.ts, validation.ts)\<close>

text \<open>A byte behind the end of a shorter array is \<open>undefined\<close>, which no comparison of the function accepts.\<close>

definition scalarIsInRange :: "bytes \<Rightarrow> bool" where
  "scalarIsInRange keyBytes =
     (if length keyBytes < 32 then True
      else if keyBytes ! 31 AND 0x80 \<noteq> 0 then False
      else if keyBytes ! 31 = 0x7F then
        (let allFF = list_all (\<lambda>i. keyBytes ! i = 0xFF) [1..<31]
         in \<not> (allFF \<and> keyBytes ! 0 \<ge> 0xED))
      else True)"

definition isCanonicalX25519Point :: "Primitives \<Rightarrow> bytes \<Rightarrow> bool" where
  "isCanonicalX25519Point p keyBytes =
     (if length keyBytes \<noteq> 32 then False
      else if \<not> scalarIsInRange keyBytes then False
      else isTorsionFree p keyBytes)"

definition validateX25519PublicKey :: "Primitives \<Rightarrow> Base64 \<Rightarrow> unit result" where
  "validateX25519PublicKey p key =
     and_then (base64ToBytes key) (\<lambda>keyBytes.
     throw_if (\<not> isCanonicalX25519Point p keyBytes) (EncryptionError INVALID_DH_KEY))"

definition validateX25519KeyPair :: "Primitives \<Rightarrow> Base64 \<Rightarrow> Base64 \<Rightarrow> unit result" where
  "validateX25519KeyPair p pub priv =
     and_then (base64ToBytes priv) (\<lambda>privateBytes.
     and_then (x25519_getPublicKey p privateBytes) (\<lambda>derivedPublicBytes.
     and_then (base64ToBytes pub) (\<lambda>publicBytes.
     throw_if (\<not> constantTimeEqual derivedPublicBytes publicBytes) (EncryptionError KEY_STORAGE_ERROR))))"

definition generateECDHKeyPair :: "Primitives \<Rightarrow> bytes \<Rightarrow> RatchetKeyPair result" where
  "generateECDHKeyPair p privateKeyBytes =
     and_then (x25519_getPublicKey p privateKeyBytes) (\<lambda>publicKeyBytes.
     let pub = bytesToBase64 publicKeyBytes; priv = bytesToBase64 privateKeyBytes in
     and_then (validateX25519KeyPair p pub priv) (\<lambda>_.
     Inr \<lparr>publicKey = pub, privateKey = priv\<rparr>))"

definition asECDHSharedSecret :: "bytes \<Rightarrow> bytes result" where
  "asECDHSharedSecret bytes =
     (if length bytes \<noteq> 32 then Inl (PlainError ''ECDH shared secret must be 32 bytes'') else Inr bytes)"

definition x25519_computeSharedSecret :: "Primitives \<Rightarrow> dh_fun" where
  "x25519_computeSharedSecret p privateKeyB64 publicKeyB64 =
     and_then (base64ToBytes privateKeyB64) (\<lambda>privateKeyBytes.
     and_then (base64ToBytes publicKeyB64) (\<lambda>publicKeyBytes.
     if length privateKeyBytes \<noteq> X25519_KEY_BYTES then Inl (PlainError ''Invalid X25519 private key'')
     else if length publicKeyBytes \<noteq> X25519_KEY_BYTES then Inl (PlainError ''Invalid X25519 public key'')
     else and_then (x25519_getSharedSecret p privateKeyBytes publicKeyBytes) (\<lambda>sharedSecret.
          if constantTimeEqual sharedSecret (zeros X25519_KEY_BYTES)
          then Inl (PlainError ''Invalid X25519 key agreement output: all-zero shared secret'')
          else asECDHSharedSecret sharedSecret)))"

subsection \<open>Ed25519 (ec/ed25519.ts)\<close>

definition generateSigningKeyPair :: "Primitives \<Rightarrow> bytes \<Rightarrow> IdentityKey result" where
  "generateSigningKeyPair p privateKeyBytes =
     and_then (ed25519_getPublicKey p privateKeyBytes) (\<lambda>publicKeyBytes.
     Inr \<lparr>ik_publicKey = bytesToBase64 publicKeyBytes, ik_privateKey = bytesToBase64 privateKeyBytes\<rparr>)"

definition sign :: "Primitives \<Rightarrow> Base64 \<Rightarrow> bytes \<Rightarrow> Base64 result" where
  "sign p privateKeyB64 data =
     and_then (base64ToBytes privateKeyB64) (\<lambda>privateKeyBytes.
     and_then (ed25519_sign p data privateKeyBytes) (\<lambda>signature. Inr (bytesToBase64 signature)))"

definition verify :: "Primitives \<Rightarrow> Base64 \<Rightarrow> bytes \<Rightarrow> Base64 \<Rightarrow> bool" where
  "verify p publicKeyB64 data signatureB64 =
     (case and_then (base64ToBytes publicKeyB64) (\<lambda>publicKeyBytes.
           and_then (base64ToBytes signatureB64) (\<lambda>signatureBytes.
           ed25519_verify p signatureBytes data publicKeyBytes)) of
        Inl _ \<Rightarrow> False
      | Inr isValid \<Rightarrow> isValid)"

subsection \<open>ML-KEM-1024 (pq/kyber.ts)\<close>

definition ML_KEM_1024_RAW_PUBLIC_KEY_BYTES :: nat where "ML_KEM_1024_RAW_PUBLIC_KEY_BYTES = 1568"
definition ML_KEM_1024_ALGORITHM_TAG :: byte where "ML_KEM_1024_ALGORITHM_TAG = 0x0A"
definition ML_KEM_1024_PUBLIC_KEY_BYTES :: nat where "ML_KEM_1024_PUBLIC_KEY_BYTES = 1 + ML_KEM_1024_RAW_PUBLIC_KEY_BYTES"
definition ML_KEM_1024_PRIVATE_KEY_BYTES :: nat where "ML_KEM_1024_PRIVATE_KEY_BYTES = 3168"
definition ML_KEM_1024_RAW_CIPHERTEXT_BYTES :: nat where "ML_KEM_1024_RAW_CIPHERTEXT_BYTES = 1568"
definition ML_KEM_1024_CIPHERTEXT_BYTES :: nat where "ML_KEM_1024_CIPHERTEXT_BYTES = 1 + ML_KEM_1024_RAW_CIPHERTEXT_BYTES"

definition asKyberSharedSecret :: "bytes \<Rightarrow> bytes result" where
  "asKyberSharedSecret bytes =
     (if length bytes \<noteq> 32 then Inl (PlainError ''Kyber shared secret must be 32 bytes'') else Inr bytes)"

definition serializeMlKem1024PublicKey :: "bytes \<Rightarrow> bytes result" where
  "serializeMlKem1024PublicKey rawPublicKey =
     (if length rawPublicKey \<noteq> ML_KEM_1024_RAW_PUBLIC_KEY_BYTES
      then Inl (PlainError ''ML-KEM-1024 raw public key has the wrong length'')
      else Inr (ML_KEM_1024_ALGORITHM_TAG # rawPublicKey))"

definition parseMlKem1024PublicKey :: "bytes \<Rightarrow> bytes result" where
  "parseMlKem1024PublicKey serialized =
     (if length serialized \<noteq> ML_KEM_1024_PUBLIC_KEY_BYTES
      then Inl (PlainError ''ML-KEM-1024 public key must be tagged'')
      else if serialized ! 0 \<noteq> ML_KEM_1024_ALGORITHM_TAG
      then Inl (PlainError ''Unsupported ML-KEM-1024 public-key tag'')
      else Inr (drop 1 serialized))"

definition serializeMlKem1024Ciphertext :: "bytes \<Rightarrow> bytes result" where
  "serializeMlKem1024Ciphertext rawCiphertext =
     (if length rawCiphertext \<noteq> ML_KEM_1024_RAW_CIPHERTEXT_BYTES
      then Inl (PlainError ''ML-KEM-1024 raw ciphertext has the wrong length'')
      else Inr (ML_KEM_1024_ALGORITHM_TAG # rawCiphertext))"

definition parseMlKem1024Ciphertext :: "bytes \<Rightarrow> bytes result" where
  "parseMlKem1024Ciphertext serialized =
     (if length serialized \<noteq> ML_KEM_1024_CIPHERTEXT_BYTES
      then Inl (PlainError ''ML-KEM-1024 ciphertext must be tagged'')
      else if serialized ! 0 \<noteq> ML_KEM_1024_ALGORITHM_TAG
      then Inl (PlainError ''Unsupported ML-KEM-1024 ciphertext tag'')
      else Inr (drop 1 serialized))"

text \<open>The pair of the tagged public key and the private key, from 64 random bytes.\<close>

definition generateMlKem1024KeyPair :: "Primitives \<Rightarrow> bytes \<Rightarrow> (bytes \<times> bytes) result" where
  "generateMlKem1024KeyPair p seed =
     (let (pub, secretKey) = ml_kem1024_keygen p seed in
      and_then (serializeMlKem1024PublicKey pub) (\<lambda>serialized. Inr (serialized, secretKey)))"

text \<open>The shared secret and the tagged ciphertext, from 32 random bytes.\<close>

definition mlKem1024Encapsulate :: "Primitives \<Rightarrow> bytes \<Rightarrow> bytes \<Rightarrow> (bytes \<times> bytes) result" where
  "mlKem1024Encapsulate p serializedPublicKey random =
     and_then (parseMlKem1024PublicKey serializedPublicKey) (\<lambda>rawPublicKey.
     and_then (ml_kem1024_encapsulate p rawPublicKey random) (\<lambda>(secret, cipherText).
     and_then (asKyberSharedSecret secret) (\<lambda>secret.
     and_then (serializeMlKem1024Ciphertext cipherText) (\<lambda>serialized.
     Inr (secret, serialized)))))"

definition mlKem1024Decapsulate :: "Primitives \<Rightarrow> bytes \<Rightarrow> bytes \<Rightarrow> bytes result" where
  "mlKem1024Decapsulate p serializedCiphertext priv =
     and_then (parseMlKem1024Ciphertext serializedCiphertext) (\<lambda>rawCiphertext.
     if length priv \<noteq> ML_KEM_1024_PRIVATE_KEY_BYTES
     then Inl (PlainError ''Invalid ML-KEM-1024 private key'')
     else and_then (ml_kem1024_decapsulate p rawCiphertext priv) asKyberSharedSecret)"

definition concatPQXDHSecrets :: "bytes \<Rightarrow> bytes \<Rightarrow> bytes" where
  "concatPQXDHSecrets x3dhIKM kyberSharedSecret = x3dhIKM @ kyberSharedSecret"

subsection \<open>Signed prekeys (keys/prekey-signature.ts)\<close>

definition PREKEY_SIGNATURE_V1_DOMAIN :: js_string where
  "PREKEY_SIGNATURE_V1_DOMAIN = ascii ''signal-protocol-js prekey signature v1''"
definition PREKEY_ALGORITHM_X25519 :: byte where "PREKEY_ALGORITHM_X25519 = 0x01"
definition PREKEY_ALGORITHM_ML_KEM_1024 :: byte where "PREKEY_ALGORITHM_ML_KEM_1024 = 0x0A"

definition uint32be :: "int \<Rightarrow> bytes result" where
  "uint32be value =
     (if value < 0 \<or> value > 0xFFFFFFFF then Inl (PlainError ''Prekey ID must be an unsigned 32-bit integer'')
      else Inr (map (\<lambda>s. ucast (drop_bit s (word_of_int value :: 32 word))) [24, 16, 8, 0]))"

definition createPreKeySignatureContext ::
    "hash_fun \<Rightarrow> CompositeIdentityV1 \<Rightarrow> byte \<Rightarrow> int \<Rightarrow> bytes \<Rightarrow> bytes result" where
  "createPreKeySignatureContext sha256 identity algorithmTag keyId serializedPublicKey =
     (if algorithmTag \<noteq> PREKEY_ALGORITHM_X25519 \<and> algorithmTag \<noteq> PREKEY_ALGORITHM_ML_KEM_1024
      then Inl (PlainError ''Unsupported prekey algorithm tag'')
      else if length serializedPublicKey = 0 then Inl (PlainError ''Prekey public key cannot be empty'')
      else if algorithmTag = PREKEY_ALGORITHM_ML_KEM_1024 \<and> serializedPublicKey ! 0 \<noteq> PREKEY_ALGORITHM_ML_KEM_1024
      then Inl (PlainError ''ML-KEM-1024 prekey signature requires the complete 0x0A-tagged public key'')
      else and_then (deriveIdentityCommitment sha256 identity) (\<lambda>commitment.
           and_then (uint32be keyId) (\<lambda>keyIdBytes.
           Inr (stringToBytes PREKEY_SIGNATURE_V1_DOMAIN @ commitment @ [algorithmTag] @ keyIdBytes @ serializedPublicKey))))"

definition signPreKey :: "Primitives \<Rightarrow> IdentityKeyPair \<Rightarrow> byte \<Rightarrow> int \<Rightarrow> bytes \<Rightarrow> Base64 result" where
  "signPreKey p keyPair algorithmTag keyId serializedPublicKey =
     (let identity = \<lparr>ci_version = 1, x25519PublicKey = ik_publicKey (dhKey keyPair),
                      ed25519PublicKey = ik_publicKey (signingKey keyPair)\<rparr> in
      and_then (createPreKeySignatureContext (p_sha256 p) identity algorithmTag keyId serializedPublicKey)
        (sign p (ik_privateKey (signingKey keyPair))))"

definition verifyPreKeySignature ::
    "Primitives \<Rightarrow> CompositeIdentityV1 \<Rightarrow> byte \<Rightarrow> int \<Rightarrow> bytes \<Rightarrow> Base64 \<Rightarrow> bool result" where
  "verifyPreKeySignature p identity algorithmTag keyId bytes signature =
     and_then (createPreKeySignatureContext (p_sha256 p) identity algorithmTag keyId bytes) (\<lambda>context_bytes.
     Inr (verify p (ed25519PublicKey identity) context_bytes signature))"

text \<open>The same with the public key as base64 text.\<close>

definition verifyPreKeySignature_base64 ::
    "Primitives \<Rightarrow> CompositeIdentityV1 \<Rightarrow> byte \<Rightarrow> int \<Rightarrow> Base64 \<Rightarrow> Base64 \<Rightarrow> bool result" where
  "verifyPreKeySignature_base64 p identity algorithmTag keyId serializedPublicKey signature =
     and_then (base64ToBytes serializedPublicKey) (\<lambda>bytes.
     verifyPreKeySignature p identity algorithmTag keyId bytes signature)"

definition signMlKem1024PreKey :: "Primitives \<Rightarrow> IdentityKeyPair \<Rightarrow> int \<Rightarrow> bytes \<Rightarrow> Base64 result" where
  "signMlKem1024PreKey p keyPair keyId serializedPublicKey =
     signPreKey p keyPair PREKEY_ALGORITHM_ML_KEM_1024 keyId serializedPublicKey"

definition verifyMlKem1024PreKey :: "Primitives \<Rightarrow> CompositeIdentityV1 \<Rightarrow> int \<Rightarrow> bytes \<Rightarrow> Base64 \<Rightarrow> bool result" where
  "verifyMlKem1024PreKey p identity keyId serializedPublicKey signature =
     verifyPreKeySignature p identity PREKEY_ALGORITHM_ML_KEM_1024 keyId serializedPublicKey signature"

subsection \<open>Bundles (keys/types.ts)\<close>

record EcPublicPreKey =
  pp_keyId :: int
  pp_publicKey :: Base64

record SignedPublicPreKey = EcPublicPreKey +
  pp_signature :: Base64

record PreKeyBundle =
  pb_registrationId :: int
  pb_deviceId :: int
  pb_identity :: CompositeIdentityV1
  pb_ecSignedPreKey :: "SignedPublicPreKey option"
  pb_ecOneTimePreKey :: "EcPublicPreKey option"
  pb_kemLastResortPreKey :: "SignedPublicPreKey option"
  pb_kemOneTimePreKey :: "SignedPublicPreKey option"

subsection \<open>The initiator\<close>

text \<open>The result without \<open>ephemeralPublicKey\<close>, which is a part of the pair, and \<open>usedPQXDH\<close>, which is \<open>true\<close>.\<close>

record PQXDHResult =
  px_sharedSecret :: bytes
  px_additionalDerivedBytes :: bytes
  px_ephemeralKeyPair :: RatchetKeyPair
  px_usedSignedPreKeyId :: int
  px_usedOneTimePreKeyId :: "int option"
  px_kyberCiphertext :: "Base64 option"
  px_usedKyberPreKeyId :: "int option"
  px_kemOneTimePreKeyCiphertext :: "Base64 option"
  px_usedKemOneTimePreKeyId :: "int option"

definition reject_signature :: "bool result \<Rightarrow> unit result" where
  "reject_signature r = and_then r (\<lambda>isValid. throw_if (\<not> isValid) (EncryptionError SIGNATURE_VERIFICATION_FAILED))"

text \<open>The signature of a KEM prekey is verified just ahead of the encapsulation.\<close>

definition encapsulate_signed :: "Primitives \<Rightarrow> CompositeIdentityV1 \<Rightarrow> SignedPublicPreKey \<Rightarrow> bytes \<Rightarrow> (bytes \<times> bytes) result" where
  "encapsulate_signed p identity prekey random =
     and_then (base64ToBytes (pp_publicKey prekey)) (\<lambda>publicKeyBytes.
     and_then (reject_signature (verifyPreKeySignature p identity PREKEY_ALGORITHM_ML_KEM_1024
                 (pp_keyId prekey) publicKeyBytes (pp_signature prekey))) (\<lambda>_.
     mlKem1024Encapsulate p publicKeyBytes random))"

text \<open>\<open>F || DH1 || DH2 || DH3 || [DH4]\<close>\<close>

definition dh_material :: "bytes \<Rightarrow> bytes \<Rightarrow> bytes \<Rightarrow> bytes option \<Rightarrow> bytes" where
  "dh_material dh1 dh2 dh3 dh4 =
     replicate 32 0xFF @ dh1 @ dh2 @ dh3 @ (case dh4 of None \<Rightarrow> [] | Some dh \<Rightarrow> dh)"

text \<open>The shared secret and the additional bytes.\<close>

definition derive_secrets :: "Primitives \<Rightarrow> bytes \<Rightarrow> js_string \<Rightarrow> (bytes \<times> bytes) result" where
  "derive_secrets p ikm infoString =
     and_then (hkdf (p_hmac p) ikm (zeros 32) (stringToBytes infoString) 96) (\<lambda>derivedKeys.
     Inr (js_slice 0 32 derivedKeys, js_slice 32 96 derivedKeys))"

definition optional_dh :: "Primitives \<Rightarrow> Base64 \<Rightarrow> Base64 option \<Rightarrow> bytes option result" where
  "optional_dh p priv pub =
     (case pub of None \<Rightarrow> Inr None
      | Some key \<Rightarrow> and_then (x25519_computeSharedSecret p priv key) (\<lambda>dh. Inr (Some dh)))"

definition performPQXDH ::
    "Primitives \<Rightarrow> IdentityKeyPair \<Rightarrow> PreKeyBundle \<Rightarrow> js_string \<Rightarrow> bytes \<Rightarrow> bytes \<Rightarrow> PQXDHResult result" where
  "performPQXDH p myIdentityKey theirBundle infoString keyRandom kemRandom =
     (if pb_kemOneTimePreKey theirBundle = None \<and> pb_kemLastResortPreKey theirBundle = None
      then Inl (EncryptionError SIGNATURE_VERIFICATION_FAILED)
      else
        let identity = pb_identity theirBundle in
        and_then (required (pb_ecSignedPreKey theirBundle)) (\<lambda>signed.
        and_then (reject_signature (verifyPreKeySignature_base64 p identity PREKEY_ALGORITHM_X25519
                    (pp_keyId signed) (pp_publicKey signed) (pp_signature signed))) (\<lambda>_.
        and_then (validateX25519PublicKey p (x25519PublicKey identity)) (\<lambda>_.
        and_then (validateX25519PublicKey p (pp_publicKey signed)) (\<lambda>_.
        and_then (case pb_ecOneTimePreKey theirBundle of None \<Rightarrow> Inr ()
                  | Some oneTime \<Rightarrow> validateX25519PublicKey p (pp_publicKey oneTime)) (\<lambda>_.
        and_then (generateECDHKeyPair p keyRandom) (\<lambda>ephemeralKey.
        and_then (x25519_computeSharedSecret p (ik_privateKey (dhKey myIdentityKey)) (pp_publicKey signed)) (\<lambda>dh1.
        and_then (x25519_computeSharedSecret p (privateKey ephemeralKey) (x25519PublicKey identity)) (\<lambda>dh2.
        and_then (x25519_computeSharedSecret p (privateKey ephemeralKey) (pp_publicKey signed)) (\<lambda>dh3.
        and_then (optional_dh p (privateKey ephemeralKey) (map_option pp_publicKey (pb_ecOneTimePreKey theirBundle))) (\<lambda>dh4.
        let result = (\<lambda>secret additional. \<lparr>px_sharedSecret = secret, px_additionalDerivedBytes = additional,
              px_ephemeralKeyPair = ephemeralKey, px_usedSignedPreKeyId = pp_keyId signed,
              px_usedOneTimePreKeyId = map_option pp_keyId (pb_ecOneTimePreKey theirBundle),
              px_kyberCiphertext = None, px_usedKyberPreKeyId = None,
              px_kemOneTimePreKeyCiphertext = None, px_usedKemOneTimePreKeyId = None\<rparr>) in
        case pb_kemOneTimePreKey theirBundle of
          Some kemOneTime \<Rightarrow>
            and_then (encapsulate_signed p identity kemOneTime kemRandom) (\<lambda>(ss, ciphertext).
            and_then (derive_secrets p (concatPQXDHSecrets (dh_material dh1 dh2 dh3 dh4) ss) infoString) (\<lambda>(secret, additional).
            Inr ((result secret additional)\<lparr>px_kemOneTimePreKeyCiphertext := Some (bytesToBase64 ciphertext),
                   px_usedKemOneTimePreKeyId := Some (pp_keyId kemOneTime)\<rparr>)))
        | None \<Rightarrow>
            and_then (required (pb_kemLastResortPreKey theirBundle)) (\<lambda>lastResort.
            and_then (encapsulate_signed p identity lastResort kemRandom) (\<lambda>(ss, ciphertext).
            and_then (derive_secrets p (concatPQXDHSecrets (dh_material dh1 dh2 dh3 dh4) ss) infoString) (\<lambda>(secret, additional).
            Inr ((result secret additional)\<lparr>px_kyberCiphertext := Some (bytesToBase64 ciphertext),
                   px_usedKyberPreKeyId := Some (pp_keyId lastResort)\<rparr>)))))))))))))))"

subsection \<open>The responder\<close>

record PQXDHResponderInput =
  ri_senderIdentityKey :: Base64
  ri_senderEphemeralKey :: Base64
  ri_usedSignedPreKeyId :: int
  ri_usedOneTimePreKeyId :: "int option"
  ri_kyberCiphertext :: "Base64 option"
  ri_usedKyberPreKeyId :: "int option"
  ri_kemOneTimePreKeyCiphertext :: "Base64 option"
  ri_usedKemOneTimePreKeyId :: "int option"

definition decapsulate_text :: "Primitives \<Rightarrow> Base64 \<Rightarrow> Base64 \<Rightarrow> bytes result" where
  "decapsulate_text p ciphertext priv =
     and_then (base64ToBytes ciphertext) (\<lambda>ciphertextBytes.
     and_then (base64ToBytes priv) (\<lambda>privateKeyBytes.
     mlKem1024Decapsulate p ciphertextBytes privateKeyBytes))"

definition decapsulate_last_resort :: "Primitives \<Rightarrow> Base64 option \<Rightarrow> KyberPreKey option \<Rightarrow> bytes result" where
  "decapsulate_last_resort p kyberCt myKyberPreKey =
     (if falsy kyberCt then Inl (EncryptionError SIGNATURE_VERIFICATION_FAILED)
      else case myKyberPreKey of
             None \<Rightarrow> Inl (EncryptionError SIGNATURE_VERIFICATION_FAILED)
           | Some kyber \<Rightarrow> decapsulate_text p (the kyberCt) (ky_privateKey kyber))"

definition responder_dh4 :: "Primitives \<Rightarrow> EcOneTimePreKey option \<Rightarrow> PQXDHResponderInput \<Rightarrow> bytes option result" where
  "responder_dh4 p myOneTimePreKey input =
     (case (myOneTimePreKey, ri_usedOneTimePreKeyId input) of
        (Some oneTime, Some _) \<Rightarrow>
          and_then (x25519_computeSharedSecret p (eo_privateKey oneTime) (ri_senderEphemeralKey input)) (\<lambda>dh. Inr (Some dh))
      | _ \<Rightarrow> Inr None)"

definition responder_kem :: "Primitives \<Rightarrow> KyberPreKey option \<Rightarrow> KemOneTimePreKey option \<Rightarrow> PQXDHResponderInput \<Rightarrow> bytes result" where
  "responder_kem p myKyberPreKey myKemOneTimePreKey input =
     (case (ri_kemOneTimePreKeyCiphertext input, myKemOneTimePreKey) of
        (Some ciphertext, Some kemOneTime) \<Rightarrow>
          if ciphertext \<noteq> [] then decapsulate_text p ciphertext (ko_privateKey kemOneTime)
          else decapsulate_last_resort p (ri_kyberCiphertext input) myKyberPreKey
      | _ \<Rightarrow> decapsulate_last_resort p (ri_kyberCiphertext input) myKyberPreKey)"

text \<open>The shared secret and the additional bytes; \<open>usedPQXDH\<close> is \<open>true\<close>.\<close>

definition performPQXDHResponder ::
    "Primitives \<Rightarrow> IdentityKeyPair \<Rightarrow> EcSignedPreKey \<Rightarrow> EcOneTimePreKey option \<Rightarrow> KyberPreKey option \<Rightarrow>
     KemOneTimePreKey option \<Rightarrow> PQXDHResponderInput \<Rightarrow> js_string \<Rightarrow> (bytes \<times> bytes) result" where
  "performPQXDHResponder p myIdentityKey mySignedPreKey myOneTimePreKey myKyberPreKey myKemOneTimePreKey input infoString =
     and_then (validateX25519PublicKey p (ri_senderIdentityKey input)) (\<lambda>_.
     and_then (validateX25519PublicKey p (ri_senderEphemeralKey input)) (\<lambda>_.
     and_then (x25519_computeSharedSecret p (es_privateKey mySignedPreKey) (ri_senderIdentityKey input)) (\<lambda>dh1.
     and_then (x25519_computeSharedSecret p (ik_privateKey (dhKey myIdentityKey)) (ri_senderEphemeralKey input)) (\<lambda>dh2.
     and_then (x25519_computeSharedSecret p (es_privateKey mySignedPreKey) (ri_senderEphemeralKey input)) (\<lambda>dh3.
     and_then (responder_dh4 p myOneTimePreKey input) (\<lambda>dh4.
     and_then (responder_kem p myKyberPreKey myKemOneTimePreKey input) (\<lambda>kyberSharedSecret.
     derive_secrets p (concatPQXDHSecrets (dh_material dh1 dh2 dh3 dh4) kyberSharedSecret) infoString)))))))"

section \<open>X25519 keys\<close>

text \<open>The number that a byte string denotes in little-endian order.\<close>

definition le_number :: "bytes \<Rightarrow> nat" where
  "le_number bs = foldr (\<lambda>b n. unat b + 256 * n) bs 0"

lemma le_number_simps [simp]:
  "le_number [] = 0" "le_number (b # bs) = unat b + 256 * le_number bs"
  by (simp_all add: le_number_def)

lemma le_number_append: "le_number (as @ bs) = le_number as + 256 ^ length as * le_number bs"
  by (induction as) (simp_all add: algebra_simps)

lemma le_number_bound: "le_number bs < 256 ^ length bs"
proof (induction bs)
  case (Cons b bs)
  have "unat b < 256" using unsigned_less [of b, where ?'a = nat] by simp
  with Cons show ?case by simp
qed simp

lemma unat_byte_ff: "unat (b :: byte) = 255 \<longleftrightarrow> b = 0xFF"
  using word_unat_eq_iff [of b "0xFF"] by simp

lemma le_carry: "(u :: nat) < 256 \<Longrightarrow> n < x \<Longrightarrow> u + 256 * n + 1 = 256 * x \<longleftrightarrow> u = 255 \<and> n + 1 = x"
proof (intro iffI conjI)
  assume "u < 256" "n < x" and eq: "u + 256 * n + 1 = 256 * x"
  then show "n + 1 = x" by linarith
  with eq show "u = 255" by linarith
qed linarith

lemma le_number_full: "le_number bs + 1 = 256 ^ length bs \<longleftrightarrow> list_all (\<lambda>b. b = 0xFF) bs"
proof (induction bs)
  case (Cons b bs)
  have b: "unat b < 256" using unsigned_less [of b, where ?'a = nat] by simp
  have "unat b + 256 * le_number bs + 1 = 256 * 256 ^ length bs \<longleftrightarrow> unat b = 255 \<and> le_number bs + 1 = 256 ^ length bs"
    using le_carry [OF b le_number_bound [of bs]] .
  then show ?case using Cons by (simp add: unat_byte_ff)
qed simp

lemma high_bit: "(b :: byte) AND 0x80 = 0 \<longleftrightarrow> unat b < 128"
proof -
  have "b AND 2 ^ 7 = 0 \<longleftrightarrow> \<not> bit b 7" by (simp only: and_exp_eq_0_iff_not_bit)
  moreover have "bit b 7 \<longleftrightarrow> odd (unat b div 2 ^ 7)" using bit_iff_odd [of "unat b" 7] by (simp add: bit_unsigned_iff)
  moreover have "unat b < 256" using unsigned_less [of b, where ?'a = nat] by simp
  then have "unat b div 128 = (if unat b < 128 then 0 else 1)" by (auto intro: div_nat_eqI)
  ultimately show ?thesis by simp
qed

lemma split_key:
  assumes "length k = 32"
  obtains b0 mid b31 where "k = b0 # mid @ [b31]" "length mid = 30"
proof -
  obtain b0 r where r: "k = b0 # r" "length r = 31" using assms by (cases k) auto
  then obtain mid b31 where "r = mid @ [b31]" by (cases r rule: rev_cases) auto
  with r that show ?thesis by simp
qed

lemma below_prime:
  assumes "(u :: nat) < 256" and "m < 2 ^ 240"
  shows "v < 128 \<and> \<not> (v = 127 \<and> m + 1 = 2 ^ 240 \<and> 237 \<le> u) \<longleftrightarrow> u + 256 * m + 2 ^ 248 * v < 2 ^ 255 - 19"
proof -
  consider "v \<le> 126" | "v = 127" "m + 1 = 2 ^ 240" | "v = 127" "m + 2 \<le> 2 ^ 240" | "128 \<le> v" using assms(2) by linarith
  then show ?thesis using assms by cases auto
qed

lemma scalar_in_range:
  assumes "length k = 32"
  shows "scalarIsInRange k \<longleftrightarrow> le_number k < 2 ^ 255 - 19"
proof -
  obtain b0 mid b31 where k: "k = b0 # mid @ [b31]" and mid: "length mid = 30" using assms by (rule split_key)
  have nth: "k ! 31 = b31" "k ! 0 = b0" "\<And>i. i < 30 \<Longrightarrow> k ! Suc i = mid ! i"
    using mid by (simp_all add: k nth_append)
  have upt: "[1..<31] = map Suc [0..<30]" by (simp add: map_Suc_upt)
  have "list_all (\<lambda>i. k ! i = 0xFF) [1..<31] \<longleftrightarrow> (\<forall>i < 30. mid ! i = 0xFF)"
    using nth(3) unfolding upt list.pred_map by (simp add: list_all_iff Ball_def)
  then have all: "list_all (\<lambda>i. k ! i = 0xFF) [1..<31] \<longleftrightarrow> le_number mid + 1 = 2 ^ 240"
    using le_number_full [of mid] mid by (simp add: list_all_length)
  have num: "le_number k = unat b0 + 256 * le_number mid + 2 ^ 248 * unat b31"
    by (simp add: k le_number_append mid)
  have range: "le_number mid < 2 ^ 240" "unat b0 < 256" "unat b31 < 256"
    using le_number_bound [of mid] mid unsigned_less [of b0, where ?'a = nat] unsigned_less [of b31, where ?'a = nat] by simp_all
  have "b31 = 0x7F \<longleftrightarrow> unat b31 = 127" "0xED \<le> b0 \<longleftrightarrow> 237 \<le> unat b0"
    using word_unat_eq_iff [of b31 "0x7F"] by (simp_all add: word_le_nat_alt)
  then have "scalarIsInRange k \<longleftrightarrow> unat b31 < 128 \<and> \<not> (unat b31 = 127 \<and> le_number mid + 1 = 2 ^ 240 \<and> 237 \<le> unat b0)"
    using assms all nth by (auto simp: scalarIsInRange_def high_bit Let_def)
  also have "\<dots> \<longleftrightarrow> le_number k < 2 ^ 255 - 19"
    unfolding num by (rule below_prime [OF range(2,1)])
  finally show ?thesis .
qed

text \<open>
  The range check of a public key accepts exactly the canonical field elements: for 32
  bytes it holds if and only if the little-endian number is below the prime.
\<close>

theorem scalar_range_exact:
  assumes "length k = 32"
  shows "scalarIsInRange k \<longleftrightarrow> le_number k < 2 ^ 255 - 19"
  by (rule scalar_in_range [OF assms])

theorem scalar_range_exact_witness:
  "scalarIsInRange (0xEC # replicate 30 0xFF @ [0x7F]) \<and> \<not> scalarIsInRange (0xED # replicate 30 0xFF @ [0x7F])"
proof -
  have full: "le_number (replicate 30 0xFF) = 256 ^ 30 - 1"
    using le_number_full [of "replicate 30 0xFF"] by (simp add: list_all_length)
  have "le_number (0xEC # replicate 30 0xFF @ [0x7F]) < 2 ^ 255 - 19" "\<not> le_number (0xED # replicate 30 0xFF @ [0x7F]) < 2 ^ 255 - 19"
    using full by (simp_all add: le_number_append)
  then show ?thesis
    using scalar_range_exact [of "0xEC # replicate 30 0xFF @ [0x7F]"] scalar_range_exact [of "0xED # replicate 30 0xFF @ [0x7F]"]
    by simp
qed

section \<open>The signed context of a prekey\<close>

lemma length_uint32be: "uint32be n = Inr bs \<Longrightarrow> length bs = 4"
  by (auto simp: uint32be_def split: if_splits)

lemma word_of_bytes:
  fixes w w' :: "32 word"
  assumes "\<forall>s \<in> {24, 16, 8, 0}. ucast (drop_bit s w) = (ucast (drop_bit s w') :: byte)"
  shows "w = w'"
proof (rule bit_word_eqI)
  fix n
  assume n: "n < LENGTH(32)"
  have same: "bit w (s + m) = bit w' (s + m)" if "s \<in> {24, 16, 8, 0}" "m < 8" for s m
  proof -
    have "bit (ucast (drop_bit s w) :: byte) m = bit (ucast (drop_bit s w') :: byte) m" using bspec [OF assms that(1)] by simp
    then show ?thesis using that(2) by (simp add: bit_ucast_iff bit_drop_bit_eq)
  qed
  have "8 * (n div 8) \<in> {24, 16, 8, 0}" "n = 8 * (n div 8) + n mod 8"
    using n by auto
  with same [of "8 * (n div 8)" "n mod 8"] show "bit w n = bit w' n" by simp
qed

lemma uint32be_inj:
  assumes "uint32be m = Inr bs" and "uint32be n = Inr bs"
  shows "m = n"
proof -
  from assms have range: "0 \<le> m" "m \<le> 0xFFFFFFFF" "0 \<le> n" "n \<le> 0xFFFFFFFF"
    and "\<forall>s \<in> {24, 16, 8, 0}. ucast (drop_bit s (word_of_int m :: 32 word)) = (ucast (drop_bit s (word_of_int n :: 32 word)) :: byte)"
    by (auto simp: uint32be_def split: if_splits)
  then have "(word_of_int m :: 32 word) = word_of_int n" by (intro word_of_bytes)
  then have "m mod 2 ^ 32 = n mod 2 ^ 32" by (simp add: word_of_int_eq_iff take_bit_eq_mod)
  with range show ?thesis by simp
qed

text \<open>
  The signed bytes of a prekey determine what is signed: when two contexts agree, the algorithm,
  the key ID and the public key are the same, and so is the commitment to the identity that signs.
  A signature for one prekey says nothing about another key, another ID or another algorithm.
\<close>

theorem prekey_context_binding:
  assumes "\<And>b. length (sha256 b) = 32"
    and "createPreKeySignatureContext sha256 identity tag keyId key = Inr context_bytes"
    and "createPreKeySignatureContext sha256 identity' tag' keyId' key' = Inr context_bytes"
  shows "tag = tag' \<and> keyId = keyId' \<and> key = key' \<and>
    deriveIdentityCommitment sha256 identity = deriveIdentityCommitment sha256 identity'"
proof -
  from assms(2) obtain c ids where c: "deriveIdentityCommitment sha256 identity = Inr c" "uint32be keyId = Inr ids"
    "context_bytes = stringToBytes PREKEY_SIGNATURE_V1_DOMAIN @ c @ [tag] @ ids @ key"
    by (auto simp: createPreKeySignatureContext_def and_then_eq_Inr split: if_splits)
  from assms(3) obtain c' ids' where c': "deriveIdentityCommitment sha256 identity' = Inr c'" "uint32be keyId' = Inr ids'"
    "context_bytes = stringToBytes PREKEY_SIGNATURE_V1_DOMAIN @ c' @ [tag'] @ ids' @ key'"
    by (auto simp: createPreKeySignatureContext_def and_then_eq_Inr split: if_splits)
  have "length c = 32" "length c' = 32"
    using c(1) c'(1) assms(1) by (auto simp: deriveIdentityCommitment_def and_then_eq_Inr)
  with c(3) c'(3) length_uint32be [OF c(2)] length_uint32be [OF c'(2)]
  have "c = c'" "tag = tag'" "ids = ids'" "key = key'" by auto
  with c c' show ?thesis by (auto dest: uint32be_inj)
qed

section \<open>Agreement\<close>

text \<open>
  What the libraries promise: X25519 commutes, derived public keys are canonical, and
  decapsulation gives back the secret that was encapsulated.
\<close>

definition dh_commutes :: "Primitives \<Rightarrow> bool" where
  "dh_commutes p = (\<forall>a b A B. x25519_getPublicKey p a = Inr A \<longrightarrow> x25519_getPublicKey p b = Inr B \<longrightarrow>
     x25519_getSharedSecret p a B = x25519_getSharedSecret p b A)"

definition dh_canonical :: "Primitives \<Rightarrow> bool" where
  "dh_canonical p = (\<forall>a A. x25519_getPublicKey p a = Inr A \<longrightarrow> length a = 32 \<and> isCanonicalX25519Point p A)"

definition kem_correct :: "Primitives \<Rightarrow> bool" where
  "kem_correct p = (\<forall>seed pk sk random ss ct. ml_kem1024_keygen p seed = (pk, sk) \<longrightarrow>
     ml_kem1024_encapsulate p pk random = Inr (ss, ct) \<longrightarrow>
     length sk = ML_KEM_1024_PRIVATE_KEY_BYTES \<and> ml_kem1024_decapsulate p ct sk = Inr ss)"

text \<open>A stored KEM prekey: its public key is the tagged one of the private key.\<close>

definition kem_pair :: "Primitives \<Rightarrow> Base64 \<Rightarrow> Base64 \<Rightarrow> bool" where
  "kem_pair p pub priv = (\<exists>seed pk sk. ml_kem1024_keygen p seed = (pk, sk) \<and>
     base64ToBytes pub = Inr (ML_KEM_1024_ALGORITHM_TAG # pk) \<and> base64ToBytes priv = Inr sk)"

lemma validate_pair_iff:
  "validateX25519KeyPair p pub priv = Inr () \<longleftrightarrow>
   (\<exists>a A. base64ToBytes priv = Inr a \<and> x25519_getPublicKey p a = Inr A \<and> base64ToBytes pub = Inr A)"
  by (auto simp: validateX25519KeyPair_def and_then_eq_Inr constantTimeEqual_iff)

lemma generate_pair:
  "generateECDHKeyPair p random = Inr kp \<Longrightarrow> validateX25519KeyPair p (publicKey kp) (privateKey kp) = Inr ()"
  by (auto simp: generateECDHKeyPair_def and_then_eq_Inr Let_def)

lemma canonical_length: "isCanonicalX25519Point p A \<Longrightarrow> length A = 32"
  by (auto simp: isCanonicalX25519Point_def split: if_splits)

lemma shared_secret_commutes:
  assumes "dh_commutes p" and "dh_canonical p" and "validateX25519KeyPair p A a = Inr ()" and "validateX25519KeyPair p B b = Inr ()"
  shows "x25519_computeSharedSecret p a B = x25519_computeSharedSecret p b A"
proof -
  obtain a' b' A' B' where k: "base64ToBytes a = Inr a'" "x25519_getPublicKey p a' = Inr A'" "base64ToBytes A = Inr A'"
    "base64ToBytes b = Inr b'" "x25519_getPublicKey p b' = Inr B'" "base64ToBytes B = Inr B'"
    using assms(3,4) unfolding validate_pair_iff by blast
  then have "length a' = 32" "length b' = 32" "length A' = 32" "length B' = 32"
    using assms(2) canonical_length unfolding dh_canonical_def by blast+
  moreover have "x25519_getSharedSecret p a' B' = x25519_getSharedSecret p b' A'"
    using assms(1) k(2,5) unfolding dh_commutes_def by blast
  ultimately show ?thesis using k by (simp add: x25519_computeSharedSecret_def X25519_KEY_BYTES_def)
qed

lemma validated_public:
  "dh_canonical p \<Longrightarrow> validateX25519KeyPair p A a = Inr () \<Longrightarrow> validateX25519PublicKey p A = Inr ()"
  by (auto simp: validate_pair_iff validateX25519PublicKey_def dh_canonical_def)

lemma bytesToBase64_nonempty: "bytesToBase64 (b # bs) \<noteq> []"
  by (cases bs rule: bytesToBase64Portable.cases) (auto simp: bytesToBase64_def Let_def)

lemma decapsulate_encapsulated:
  assumes "kem_correct p" and "kem_pair p pub priv" and "base64ToBytes pub = Inr bs" and "mlKem1024Encapsulate p bs random = Inr (ss, ct)"
  shows "decapsulate_text p (bytesToBase64 ct) priv = Inr ss \<and> bytesToBase64 ct \<noteq> []"
proof -
  from assms(2) obtain seed pk sk where k: "ml_kem1024_keygen p seed = (pk, sk)"
    "base64ToBytes pub = Inr (ML_KEM_1024_ALGORITHM_TAG # pk)" "base64ToBytes priv = Inr sk" by (auto simp: kem_pair_def)
  with assms(3,4) obtain raw where e: "ml_kem1024_encapsulate p pk random = Inr (ss, raw)" "length ss = 32"
    and ct: "length raw = ML_KEM_1024_RAW_CIPHERTEXT_BYTES" "ct = ML_KEM_1024_ALGORITHM_TAG # raw"
    by (auto simp: mlKem1024Encapsulate_def parseMlKem1024PublicKey_def and_then_eq_Inr asKyberSharedSecret_def
        serializeMlKem1024Ciphertext_def split: if_splits)
  have "length sk = ML_KEM_1024_PRIVATE_KEY_BYTES" "ml_kem1024_decapsulate p raw sk = Inr ss"
    using assms(1) k(1) e(1) by (auto simp: kem_correct_def)
  with k(3) e(2) ct show ?thesis
    by (simp add: decapsulate_text_def mlKem1024Decapsulate_def parseMlKem1024Ciphertext_def asKyberSharedSecret_def
        ML_KEM_1024_CIPHERTEXT_BYTES_def bytesToBase64_nonempty)
qed

text \<open>
  The bundle publishes the keys of the responder. \<open>opk\<close>, \<open>kyber\<close> and \<open>kem\<close> are the private
  halves of the optional prekeys of the bundle.
\<close>

definition publishes ::
    "PreKeyBundle \<Rightarrow> IdentityKeyPair \<Rightarrow> EcSignedPreKey \<Rightarrow> EcOneTimePreKey option \<Rightarrow> KyberPreKey option \<Rightarrow> KemOneTimePreKey option \<Rightarrow> bool" where
  "publishes bundle bob spk opk kyber kem =
     (x25519PublicKey (pb_identity bundle) = ik_publicKey (dhKey bob) \<and>
      ed25519PublicKey (pb_identity bundle) = ik_publicKey (signingKey bob) \<and>
      map_option (\<lambda>k. (pp_keyId k, pp_publicKey k)) (pb_ecSignedPreKey bundle) = Some (int (es_keyId spk), es_publicKey spk) \<and>
      map_option (\<lambda>k. (pp_keyId k, pp_publicKey k)) (pb_ecOneTimePreKey bundle) = map_option (\<lambda>k. (int (eo_keyId k), eo_publicKey k)) opk \<and>
      map_option (\<lambda>k. (pp_keyId k, pp_publicKey k)) (pb_kemLastResortPreKey bundle) = map_option (\<lambda>k. (int (ky_keyId k), ky_publicKey k)) kyber \<and>
      map_option (\<lambda>k. (pp_keyId k, pp_publicKey k)) (pb_kemOneTimePreKey bundle) = map_option (\<lambda>k. (int (ko_keyId k), ko_publicKey k)) kem)"

text \<open>The private keys of the responder belong to the public ones.\<close>

definition own_pairs ::
    "Primitives \<Rightarrow> IdentityKeyPair \<Rightarrow> EcSignedPreKey \<Rightarrow> EcOneTimePreKey option \<Rightarrow> KyberPreKey option \<Rightarrow> KemOneTimePreKey option \<Rightarrow> bool" where
  "own_pairs p bob spk opk kyber kem =
     (validateX25519KeyPair p (ik_publicKey (dhKey bob)) (ik_privateKey (dhKey bob)) = Inr () \<and>
      validateX25519KeyPair p (es_publicKey spk) (es_privateKey spk) = Inr () \<and>
      (case opk of None \<Rightarrow> True | Some k \<Rightarrow> validateX25519KeyPair p (eo_publicKey k) (eo_privateKey k) = Inr ()) \<and>
      (case kyber of None \<Rightarrow> True | Some k \<Rightarrow> kem_pair p (ky_publicKey k) (ky_privateKey k)) \<and>
      (case kem of None \<Rightarrow> True | Some k \<Rightarrow> kem_pair p (ko_publicKey k) (ko_privateKey k)))"

text \<open>What the responder gets to know of an agreement.\<close>

definition responder_input :: "IdentityKeyPair \<Rightarrow> PQXDHResult \<Rightarrow> PQXDHResponderInput" where
  "responder_input alice res =
     \<lparr>ri_senderIdentityKey = ik_publicKey (dhKey alice), ri_senderEphemeralKey = publicKey (px_ephemeralKeyPair res),
      ri_usedSignedPreKeyId = px_usedSignedPreKeyId res, ri_usedOneTimePreKeyId = px_usedOneTimePreKeyId res,
      ri_kyberCiphertext = px_kyberCiphertext res, ri_usedKyberPreKeyId = px_usedKyberPreKeyId res,
      ri_kemOneTimePreKeyCiphertext = px_kemOneTimePreKeyCiphertext res,
      ri_usedKemOneTimePreKeyId = px_usedKemOneTimePreKeyId res\<rparr>"

lemma performPQXDH_Inr:
  assumes "performPQXDH p alice bundle info keyRandom kemRandom = Inr res"
  obtains signed dh1 dh2 dh3 dh4 kemKey ss ct where
    "pb_ecSignedPreKey bundle = Some signed" "generateECDHKeyPair p keyRandom = Inr (px_ephemeralKeyPair res)"
    "x25519_computeSharedSecret p (ik_privateKey (dhKey alice)) (pp_publicKey signed) = Inr dh1"
    "x25519_computeSharedSecret p (privateKey (px_ephemeralKeyPair res)) (x25519PublicKey (pb_identity bundle)) = Inr dh2"
    "x25519_computeSharedSecret p (privateKey (px_ephemeralKeyPair res)) (pp_publicKey signed) = Inr dh3"
    "optional_dh p (privateKey (px_ephemeralKeyPair res)) (map_option pp_publicKey (pb_ecOneTimePreKey bundle)) = Inr dh4"
    "encapsulate_signed p (pb_identity bundle) kemKey kemRandom = Inr (ss, ct)"
    "derive_secrets p (concatPQXDHSecrets (dh_material dh1 dh2 dh3 dh4) ss) info = Inr (px_sharedSecret res, px_additionalDerivedBytes res)"
    "px_usedSignedPreKeyId res = pp_keyId signed" "px_usedOneTimePreKeyId res = map_option pp_keyId (pb_ecOneTimePreKey bundle)"
    "verifyPreKeySignature_base64 p (pb_identity bundle) PREKEY_ALGORITHM_X25519 (pp_keyId signed) (pp_publicKey signed)
       (pp_signature signed) = Inr True"
    "pb_kemOneTimePreKey bundle = Some kemKey \<and> px_kyberCiphertext res = None \<and> px_usedKyberPreKeyId res = None \<and>
       px_kemOneTimePreKeyCiphertext res = Some (bytesToBase64 ct) \<and> px_usedKemOneTimePreKeyId res = Some (pp_keyId kemKey) \<or>
     pb_kemOneTimePreKey bundle = None \<and> pb_kemLastResortPreKey bundle = Some kemKey \<and>
       px_kyberCiphertext res = Some (bytesToBase64 ct) \<and> px_usedKyberPreKeyId res = Some (pp_keyId kemKey) \<and>
       px_kemOneTimePreKeyCiphertext res = None \<and> px_usedKemOneTimePreKeyId res = None"
proof (cases "pb_kemOneTimePreKey bundle")
  case None
  with assms that show ?thesis
    by (auto simp: performPQXDH_def Let_def and_then_eq_Inr required_def reject_signature_def split: if_splits option.splits prod.splits)
next
  case (Some k)
  with assms that show ?thesis
    by (auto simp: performPQXDH_def Let_def and_then_eq_Inr required_def reject_signature_def split: if_splits option.splits prod.splits)
qed

lemma pqxdh_agree_lemma:
  assumes "dh_commutes p" and "dh_canonical p" and "kem_correct p"
    and agreed: "performPQXDH p alice bundle info keyRandom kemRandom = Inr res"
    and keys: "publishes bundle bob spk opk kyber kem" "own_pairs p bob spk opk kyber kem"
    and alice: "validateX25519KeyPair p (ik_publicKey (dhKey alice)) (ik_privateKey (dhKey alice)) = Inr ()"
  shows "performPQXDHResponder p bob spk opk (if kem = None then kyber else None) kem (responder_input alice res) info =
    Inr (px_sharedSecret res, px_additionalDerivedBytes res)"
proof -
  note commutes = shared_secret_commutes [OF assms(1,2)]
  let ?e = "px_ephemeralKeyPair res"
  from agreed obtain signed dh1 dh2 dh3 dh4 kemKey ss ct where
    r: "pb_ecSignedPreKey bundle = Some signed" "generateECDHKeyPair p keyRandom = Inr ?e"
    "x25519_computeSharedSecret p (ik_privateKey (dhKey alice)) (pp_publicKey signed) = Inr dh1"
    "x25519_computeSharedSecret p (privateKey ?e) (x25519PublicKey (pb_identity bundle)) = Inr dh2"
    "x25519_computeSharedSecret p (privateKey ?e) (pp_publicKey signed) = Inr dh3"
    "optional_dh p (privateKey ?e) (map_option pp_publicKey (pb_ecOneTimePreKey bundle)) = Inr dh4"
    "encapsulate_signed p (pb_identity bundle) kemKey kemRandom = Inr (ss, ct)"
    "derive_secrets p (concatPQXDHSecrets (dh_material dh1 dh2 dh3 dh4) ss) info = Inr (px_sharedSecret res, px_additionalDerivedBytes res)"
    "px_usedOneTimePreKeyId res = map_option pp_keyId (pb_ecOneTimePreKey bundle)"
    and kemKey: "pb_kemOneTimePreKey bundle = Some kemKey \<and> px_kyberCiphertext res = None \<and>
       px_kemOneTimePreKeyCiphertext res = Some (bytesToBase64 ct) \<or>
     pb_kemOneTimePreKey bundle = None \<and> pb_kemLastResortPreKey bundle = Some kemKey \<and>
       px_kyberCiphertext res = Some (bytesToBase64 ct) \<and> px_kemOneTimePreKeyCiphertext res = None"
    by (rule performPQXDH_Inr) metis
  note eph = generate_pair [OF r(2)]
  have pub: "pp_publicKey signed = es_publicKey spk" "x25519PublicKey (pb_identity bundle) = ik_publicKey (dhKey bob)"
    using keys(1) r(1) by (auto simp: publishes_def)
  note own = keys(2) [unfolded own_pairs_def]
  have dh: "x25519_computeSharedSecret p (es_privateKey spk) (ik_publicKey (dhKey alice)) = Inr dh1"
    "x25519_computeSharedSecret p (ik_privateKey (dhKey bob)) (publicKey ?e) = Inr dh2"
    "x25519_computeSharedSecret p (es_privateKey spk) (publicKey ?e) = Inr dh3"
    using r(3-5) own alice eph pub commutes by metis+
  let ?i = "responder_input alice res"
  have opk: "responder_dh4 p opk ?i = Inr dh4"
  proof (cases opk)
    case None
    then show ?thesis using keys(1) r(6) by (auto simp: publishes_def optional_dh_def responder_dh4_def)
  next
    case (Some k)
    then obtain pk where pk: "pb_ecOneTimePreKey bundle = Some pk" "pp_publicKey pk = eo_publicKey k"
      using keys(1) by (auto simp: publishes_def)
    have "x25519_computeSharedSecret p (privateKey ?e) (eo_publicKey k) = x25519_computeSharedSecret p (eo_privateKey k) (publicKey ?e)"
      by (rule commutes [OF eph]) (use own Some in simp)
    then show ?thesis using r(6,9) pk Some by (simp add: optional_dh_def responder_dh4_def responder_input_def)
  qed
  obtain bs where bs: "base64ToBytes (pp_publicKey kemKey) = Inr bs" "mlKem1024Encapsulate p bs kemRandom = Inr (ss, ct)"
    using r(7) by (auto simp: encapsulate_signed_def and_then_eq_Inr)
  have kem: "responder_kem p (if kem = None then kyber else None) kem ?i = Inr ss"
  proof (cases kem)
    case None
    with keys(1) kemKey obtain k where k: "kyber = Some k" "pp_publicKey kemKey = ky_publicKey k"
      "px_kyberCiphertext res = Some (bytesToBase64 ct)" "px_kemOneTimePreKeyCiphertext res = None"
      by (cases kyber) (auto simp: publishes_def)
    with own have "kem_pair p (pp_publicKey kemKey) (ky_privateKey k)" by simp
    from decapsulate_encapsulated [OF assms(3) this bs] k None show ?thesis
      by (simp add: responder_kem_def responder_input_def decapsulate_last_resort_def falsy_def)
  next
    case (Some k)
    with keys(1) kemKey have k: "pp_publicKey kemKey = ko_publicKey k" "px_kemOneTimePreKeyCiphertext res = Some (bytesToBase64 ct)"
      by (auto simp: publishes_def)
    with own Some have "kem_pair p (pp_publicKey kemKey) (ko_privateKey k)" by simp
    from decapsulate_encapsulated [OF assms(3) this bs] k Some show ?thesis
      by (simp add: responder_kem_def responder_input_def)
  qed
  have "validateX25519PublicKey p (ik_publicKey (dhKey alice)) = Inr ()" "validateX25519PublicKey p (publicKey ?e) = Inr ()"
    using validated_public [OF assms(2)] alice eph by blast+
  then show ?thesis
    by (simp add: performPQXDHResponder_def opk kem r(8)) (simp add: responder_input_def dh r(8))
qed

text \<open>
  Both ends of PQXDH derive the same secret: when the initiator completes the agreement with a
  bundle of the responder's keys, with or without a one-time prekey and with either kind of KEM prekey,
  the responder derives the same root secret and the same additional bytes from its private keys and
  the data of the first message.
\<close>

theorem pqxdh_agree:
  assumes "dh_commutes p" and "dh_canonical p" and "kem_correct p"
    and agreed: "performPQXDH p alice bundle info keyRandom kemRandom = Inr res"
    and keys: "publishes bundle bob spk opk kyber kem" "own_pairs p bob spk opk kyber kem"
    and alice: "validateX25519KeyPair p (ik_publicKey (dhKey alice)) (ik_privateKey (dhKey alice)) = Inr ()"
  shows "performPQXDHResponder p bob spk opk (if kem = None then kyber else None) kem (responder_input alice res) info =
    Inr (px_sharedSecret res, px_additionalDerivedBytes res)"
  by (rule pqxdh_agree_lemma [OF assms])

section \<open>A concrete instance\<close>

text \<open>Primitives with the promised laws, for the witnesses: a group of byte vectors and a transparent KEM.\<close>

definition sample_primitives :: Primitives where
  "sample_primitives = \<lparr>p_hmac = sample_hmac, p_sha256 = (\<lambda>b. take 32 (b @ zeros 32)), isTorsionFree = (\<lambda>_. True),
     x25519_getPublicKey = (\<lambda>a. if length a = 32 then Inr (take 31 a @ [0]) else Inl (PlainError ''invalid'')),
     x25519_getSharedSecret = (\<lambda>a b. Inr (map2 (+) (take 31 a @ [1]) b)),
     ed25519_getPublicKey = (\<lambda>a. Inr (take 31 a @ [0])), ed25519_sign = (\<lambda>d k. Inr (zeros 64)), ed25519_verify = (\<lambda>s d k. Inr (s = zeros 64)),
     ml_kem1024_keygen = (\<lambda>seed. (zeros 1568, zeros 3168)),
     ml_kem1024_encapsulate = (\<lambda>pk r. if length r = 32 then Inr (r, r @ zeros 1536) else Inl (PlainError ''invalid'')),
     ml_kem1024_decapsulate = (\<lambda>ct sk. Inr (take 32 ct))\<rparr>"

lemma sample_primitives_laws:
  "dh_commutes sample_primitives" "dh_canonical sample_primitives" "kem_correct sample_primitives"
  "length (p_sha256 sample_primitives b) = 32" "length (p_hmac sample_primitives k d) = 32"
proof -
  have "map2 (+) (take 31 a @ [1]) (take 31 b @ [0]) = map2 (+) (take 31 b @ [1]) (take 31 a @ [0])"
    if "length a = 32" "length b = 32" for a b :: bytes
    using that by (intro nth_equalityI) (auto simp: nth_append add.commute)
  then show "dh_commutes sample_primitives"
    by (simp add: dh_commutes_def sample_primitives_def)
  show "dh_canonical sample_primitives"
    by (auto simp: dh_canonical_def sample_primitives_def isCanonicalX25519Point_def scalarIsInRange_def nth_append split: if_splits)
  show "kem_correct sample_primitives"
    by (auto simp: kem_correct_def sample_primitives_def ML_KEM_1024_PRIVATE_KEY_BYTES_def zeros_def split: if_splits)
qed (simp_all add: sample_primitives_def zeros_def length_sample_hmac)

definition sample_private :: "byte \<Rightarrow> Base64" where "sample_private n = bytesToBase64 (replicate 32 n)"

definition sample_public :: "byte \<Rightarrow> Base64" where "sample_public n = bytesToBase64 (replicate 31 n @ [0])"

definition sample_identity_pair :: "byte \<Rightarrow> IdentityKeyPair" where
  "sample_identity_pair n = \<lparr>dhKey = \<lparr>ik_publicKey = sample_public n, ik_privateKey = sample_private n\<rparr>,
     signingKey = \<lparr>ik_publicKey = sample_public (n + 1), ik_privateKey = sample_private (n + 1)\<rparr>, registrationId = 5\<rparr>"

definition sample_signature :: Base64 where "sample_signature = bytesToBase64 (zeros 64)"

definition sample_spk :: EcSignedPreKey where
  "sample_spk = \<lparr>es_keyId = 7, es_publicKey = sample_public 50, es_privateKey = sample_private 50,
     es_signature = sample_signature, es_timestamp = 0\<rparr>"

definition sample_kyber :: KyberPreKey where
  "sample_kyber = \<lparr>ky_keyId = 9, ky_publicKey = bytesToBase64 (0x0A # zeros 1568), ky_privateKey = bytesToBase64 (zeros 3168),
     ky_signature = sample_signature, ky_timestamp = 0\<rparr>"

definition sample_bundle :: PreKeyBundle where
  "sample_bundle = \<lparr>pb_registrationId = 5, pb_deviceId = 1,
     pb_identity = \<lparr>ci_version = 1, x25519PublicKey = sample_public 20, ed25519PublicKey = sample_public 21\<rparr>,
     pb_ecSignedPreKey = Some \<lparr>pp_keyId = 7, pp_publicKey = sample_public 50, pp_signature = sample_signature\<rparr>,
     pb_ecOneTimePreKey = None,
     pb_kemLastResortPreKey = Some \<lparr>pp_keyId = 9, pp_publicKey = bytesToBase64 (0x0A # zeros 1568), pp_signature = sample_signature\<rparr>,
     pb_kemOneTimePreKey = None\<rparr>"

lemma derive_secrets_ok:
  assumes "\<And>k d. length (p_hmac p k d) = 32"
  shows "\<exists>s a. derive_secrets p ikm info = Inr (s, a) \<and> length s = 32 \<and> length a = 64"
proof -
  obtain d where "hkdf (p_hmac p) ikm (zeros 32) (stringToBytes info) 96 = Inr d" "length d = 96"
    using hkdf_length [where hmac = "p_hmac p" and len = 96, OF assms] by fastforce
  then show ?thesis by (simp add: derive_secrets_def js_slice_def)
qed

lemma sample_keys:
  "base64ToBytes (sample_public n) = Inr (replicate 31 n @ [0])" "base64ToBytes (sample_private n) = Inr (replicate 32 n)"
  by (simp_all add: sample_public_def sample_private_def del: replicate.simps)

lemma sample_validate:
  "validateX25519KeyPair sample_primitives (sample_public n) (sample_private n) = Inr ()"
  "validateX25519PublicKey sample_primitives (sample_public n) = Inr ()"
proof -
  show v: "validateX25519KeyPair sample_primitives (sample_public n) (sample_private n) = Inr ()"
    by (simp add: validate_pair_iff sample_keys sample_primitives_def del: replicate.simps)
  show "validateX25519PublicKey sample_primitives (sample_public n) = Inr ()"
    by (rule validated_public [OF sample_primitives_laws(2) v])
qed

lemma sample_generate:
  "generateECDHKeyPair sample_primitives (replicate 32 n) = Inr \<lparr>publicKey = sample_public n, privateKey = sample_private n\<rparr>"
  using sample_validate(1) [of n]
  by (simp add: generateECDHKeyPair_def sample_primitives_def Let_def sample_public_def sample_private_def del: replicate.simps)

lemma sample_shared:
  "x25519_computeSharedSecret sample_primitives (sample_private m) (sample_public n) = Inr (replicate 31 (m + n) @ [1])"
proof -
  have "map2 (+) (replicate 31 m @ [1]) (replicate 31 n @ [0]) = replicate 31 (m + n) @ [1]"
    by (intro nth_equalityI) (auto simp: nth_append less_Suc_eq)
  moreover have "replicate 31 (m + n) @ [1] \<noteq> replicate 32 (0 :: byte)"
    by (metis last_replicate last_snoc zero_neq_one zero_neq_numeral)
  ultimately show ?thesis
    by (simp add: x25519_computeSharedSecret_def sample_keys X25519_KEY_BYTES_def sample_primitives_def asECDHSharedSecret_def
        zeros_def del: replicate.simps)
qed

lemma sample_context:
  assumes "tag = PREKEY_ALGORITHM_X25519 \<or> tag = PREKEY_ALGORITHM_ML_KEM_1024 \<and> hd key = PREKEY_ALGORITHM_ML_KEM_1024" and "key \<noteq> []"
    and "0 \<le> keyId" "keyId \<le> 0xFFFFFFFF"
  shows "verifyPreKeySignature sample_primitives
    \<lparr>ci_version = 1, x25519PublicKey = sample_public m, ed25519PublicKey = sample_public n\<rparr> tag keyId key sample_signature = Inr True"
proof -
  have enc: "\<exists>e. deriveIdentityCommitment s \<lparr>ci_version = 1, x25519PublicKey = sample_public m, ed25519PublicKey = sample_public n\<rparr> = Inr e" for s
    by (simp add: deriveIdentityCommitment_def encodeCompositeIdentityV1_def COMPOSITE_IDENTITY_V1_VERSION_def
        decodeCanonicalPublicKey_def sample_keys PUBLIC_KEY_LENGTH_def sample_public_def del: replicate.simps)
  obtain c where "createPreKeySignatureContext (p_sha256 sample_primitives)
      \<lparr>ci_version = 1, x25519PublicKey = sample_public m, ed25519PublicKey = sample_public n\<rparr> tag keyId key = Inr c"
    using enc [of "p_sha256 sample_primitives"] assms
    by (auto simp: createPreKeySignatureContext_def uint32be_def hd_conv_nth PREKEY_ALGORITHM_X25519_def PREKEY_ALGORITHM_ML_KEM_1024_def)
  then show ?thesis
    by (simp add: verifyPreKeySignature_def verify_def sample_keys sample_signature_def sample_primitives_def)
qed

lemma sample_agreement:
  "\<exists>res. performPQXDH sample_primitives (sample_identity_pair 10) sample_bundle info (replicate 32 30) (replicate 32 40) = Inr res"
proof -
  have sig: "verifyPreKeySignature_base64 sample_primitives (pb_identity sample_bundle) PREKEY_ALGORITHM_X25519 7 (sample_public 50)
      sample_signature = Inr True"
    using sample_context [of PREKEY_ALGORITHM_X25519 "replicate 31 50 @ [0]" 7 20 21]
    by (simp add: verifyPreKeySignature_base64_def sample_keys sample_bundle_def del: replicate.simps)
  have kem: "encapsulate_signed sample_primitives (pb_identity sample_bundle)
      \<lparr>pp_keyId = 9, pp_publicKey = bytesToBase64 (0x0A # zeros 1568), pp_signature = sample_signature\<rparr> (replicate 32 40) =
      Inr (replicate 32 40, 0x0A # replicate 32 40 @ zeros 1536)"
    using sample_context [of PREKEY_ALGORITHM_ML_KEM_1024 "0x0A # zeros 1568" 9 20 21]
    by (simp add: encapsulate_signed_def sample_bundle_def PREKEY_ALGORITHM_ML_KEM_1024_def reject_signature_def mlKem1024Encapsulate_def
        parseMlKem1024PublicKey_def sample_primitives_def zeros_def asKyberSharedSecret_def serializeMlKem1024Ciphertext_def
        ML_KEM_1024_PUBLIC_KEY_BYTES_def ML_KEM_1024_RAW_PUBLIC_KEY_BYTES_def ML_KEM_1024_ALGORITHM_TAG_def
        ML_KEM_1024_RAW_CIPHERTEXT_BYTES_def del: replicate.simps)
  have opt: "optional_dh p k None = Inr None" for p k by (simp add: optional_dh_def)
  obtain s a where secret: "derive_secrets sample_primitives (concatPQXDHSecrets (dh_material (replicate 31 60 @ [1]) (replicate 31 50 @ [1])
      (replicate 31 80 @ [1]) None) (replicate 32 40)) info = Inr (s, a)"
    using derive_secrets_ok [of sample_primitives, OF sample_primitives_laws(5)] by blast
  have shared: "x25519_computeSharedSecret sample_primitives (sample_private 10) (sample_public 50) = Inr (replicate 31 60 @ [1])"
    "x25519_computeSharedSecret sample_primitives (sample_private 30) (sample_public 20) = Inr (replicate 31 50 @ [1])"
    "x25519_computeSharedSecret sample_primitives (sample_private 30) (sample_public 50) = Inr (replicate 31 80 @ [1])"
    using sample_shared [of 10 50] sample_shared [of 30 20] sample_shared [of 30 50] by (simp_all del: replicate.simps)
  show ?thesis
    using sig kem
    by (simp add: performPQXDH_def sample_bundle_def required_def reject_signature_def sample_identity_pair_def opt
        sample_generate [of 30] sample_validate shared secret Let_def del: replicate.simps)
qed

theorem pqxdh_agree_witness:
  "\<exists>res. performPQXDHResponder sample_primitives (sample_identity_pair 20) sample_spk None (Some sample_kyber) None
      (responder_input (sample_identity_pair 10) res) [65] = Inr (px_sharedSecret res, px_additionalDerivedBytes res)"
proof -
  obtain res where r: "performPQXDH sample_primitives (sample_identity_pair 10) sample_bundle [65] (replicate 32 30) (replicate 32 40) = Inr res"
    using sample_agreement by blast
  have pub: "publishes sample_bundle (sample_identity_pair 20) sample_spk None (Some sample_kyber) None"
    by (simp add: publishes_def sample_bundle_def sample_identity_pair_def sample_spk_def sample_kyber_def)
  have "kem_pair sample_primitives (ky_publicKey sample_kyber) (ky_privateKey sample_kyber)"
    by (auto simp: kem_pair_def sample_kyber_def sample_primitives_def ML_KEM_1024_ALGORITHM_TAG_def)
  then have own: "own_pairs sample_primitives (sample_identity_pair 20) sample_spk None (Some sample_kyber) None"
    by (simp add: own_pairs_def sample_identity_pair_def sample_spk_def sample_validate)
  have alice: "validateX25519KeyPair sample_primitives (ik_publicKey (dhKey (sample_identity_pair 10)))
      (ik_privateKey (dhKey (sample_identity_pair 10))) = Inr ()"
    by (simp add: sample_identity_pair_def sample_validate)
  from pqxdh_agree [OF sample_primitives_laws(1-3) r pub own alice] show ?thesis by auto
qed

theorem prekey_context_binding_witness:
  "\<exists>c. createPreKeySignatureContext (p_sha256 sample_primitives) (pb_identity sample_bundle) 1 7 [1] = Inr c \<and>
     createPreKeySignatureContext (p_sha256 sample_primitives) (pb_identity sample_bundle) 1 8 [1] \<noteq> Inr c"
proof -
  have "\<exists>c. createPreKeySignatureContext (p_sha256 sample_primitives) (pb_identity sample_bundle) 1 7 [1] = Inr c"
    using sample_context [of PREKEY_ALGORITHM_X25519 "[1]" 7 20 21]
    by (auto simp: verifyPreKeySignature_def and_then_eq_Inr sample_bundle_def PREKEY_ALGORITHM_X25519_def)
  then obtain c where c: "createPreKeySignatureContext (p_sha256 sample_primitives) (pb_identity sample_bundle) 1 7 [1] = Inr c" ..
  from prekey_context_binding [OF sample_primitives_laws(4) c] have
    "createPreKeySignatureContext (p_sha256 sample_primitives) (pb_identity sample_bundle) 1 8 [1] \<noteq> Inr c" by fastforce
  with c show ?thesis by blast
qed

end
