(* ===== verification/Handshake.thy ===== *)
theory Handshake
  imports Pqxdh Session_Cipher
begin

text \<open>
  Session establishment: the checks and the orchestration of internal/session/handshake.ts, the
  session states of internal/session/factory.ts and the builders of internal/session/builder.ts.

  \<open>remoteAddress\<close> and the logger only reach error messages, and the protocol callback only
  observes; they are left out. An error of the key agreement itself becomes \<open>PQXDH_FAILED\<close>, whatever it
  was. The random bytes and the clock of a call are arguments.

  Shown here: which bundles are accepted; which prekey messages are refused and how; the two sessions
  that are built from one agreement are mirror images, one ratchet step apart, with the same
  post-quantum key.
\<close>

section \<open>Definitions\<close>

subsection \<open>Validation of a bundle\<close>

definition assertUint32 :: "int \<Rightarrow> int \<Rightarrow> int \<Rightarrow> unit result" where
  "assertUint32 value lo hi =
     throw_if (\<bar>value\<bar> > MAX_SAFE_INTEGER \<or> value < lo \<or> value > hi) (PlainError ''must be an integer in range'')"

definition decodeCanonicalBase64 :: "Base64 \<Rightarrow> nat \<Rightarrow> bytes result" where
  "decodeCanonicalBase64 value expectedLength =
     (case base64ToBytes value of
        Inl _ \<Rightarrow> Inl (PlainError ''must be canonical base64'')
      | Inr decoded \<Rightarrow>
          if length decoded \<noteq> expectedLength \<or> bytesToBase64 decoded \<noteq> value
          then Inl (PlainError ''must be canonical base64 for the expected length'')
          else Inr decoded)"

definition validate_kem_prekey :: "SignedPublicPreKey option \<Rightarrow> unit result" where
  "validate_kem_prekey prekey =
     (case prekey of None \<Rightarrow> Inr ()
      | Some k \<Rightarrow>
          and_then (assertUint32 (pp_keyId k) 0 0xFFFFFFFF) (\<lambda>_.
          and_then (decodeCanonicalBase64 (pp_publicKey k) 1569) (\<lambda>key.
          and_then (parseMlKem1024PublicKey key) (\<lambda>_.
          and_then (decodeCanonicalBase64 (pp_signature k) 64) (\<lambda>_. Inr ())))))"

definition validate_ec_one_time :: "Primitives \<Rightarrow> EcPublicPreKey option \<Rightarrow> unit result" where
  "validate_ec_one_time p prekey =
     (case prekey of None \<Rightarrow> Inr ()
      | Some k \<Rightarrow>
          and_then (assertUint32 (pp_keyId k) 0 0xFFFFFFFF) (\<lambda>_.
          and_then (decodeCanonicalBase64 (pp_publicKey k) 32) (\<lambda>_.
          validateX25519PublicKey p (pp_publicKey k))))"

definition validatePreKeyBundle :: "Primitives \<Rightarrow> PreKeyBundle \<Rightarrow> unit result" where
  "validatePreKeyBundle p prekeyBundle =
     and_then (assertUint32 (pb_registrationId prekeyBundle) 1 16384) (\<lambda>_.
     and_then (assertUint32 (pb_deviceId prekeyBundle) 1 0xFFFFFFFF) (\<lambda>_.
     and_then (encodeCompositeIdentityV1 (pb_identity prekeyBundle)) (\<lambda>_.
     and_then (validateX25519PublicKey p (x25519PublicKey (pb_identity prekeyBundle))) (\<lambda>_.
     case pb_ecSignedPreKey prekeyBundle of
       None \<Rightarrow> Inl (PlainError ''PreKeyBundle requires ecSignedPreKey'')
     | Some spk \<Rightarrow>
         and_then (assertUint32 (pp_keyId spk) 0 0xFFFFFFFF) (\<lambda>_.
         and_then (decodeCanonicalBase64 (pp_publicKey spk) 32) (\<lambda>_.
         and_then (validateX25519PublicKey p (pp_publicKey spk)) (\<lambda>_.
         and_then (decodeCanonicalBase64 (pp_signature spk) 64) (\<lambda>_.
         and_then (validate_ec_one_time p (pb_ecOneTimePreKey prekeyBundle)) (\<lambda>_.
         and_then (validate_kem_prekey (pb_kemLastResortPreKey prekeyBundle)) (\<lambda>_.
         validate_kem_prekey (pb_kemOneTimePreKey prekeyBundle)))))))))))"

subsection \<open>Key agreement\<close>

definition PQXDH_INFO_DEFAULT :: js_string where
  "PQXDH_INFO_DEFAULT = ascii ''OpenE2EE_X25519_SHA-256_ML-KEM-1024''"

text \<open>The member \<open>pqxdh\<close> of the result. An empty override counts as absent.\<close>

definition resolveKeyExchangeInfoStrings :: "js_string option \<Rightarrow> js_string" where
  "resolveKeyExchangeInfoStrings override =
     (case override of None \<Rightarrow> PQXDH_INFO_DEFAULT | Some s \<Rightarrow> if s = [] then PQXDH_INFO_DEFAULT else s)"

definition bundleHasAnyKemMaterial :: "PreKeyBundle \<Rightarrow> bool" where
  "bundleHasAnyKemMaterial prekeyBundle =
     (pb_kemLastResortPreKey prekeyBundle \<noteq> None \<or> pb_kemOneTimePreKey prekeyBundle \<noteq> None)"

definition pqxdh_failed :: "'a result \<Rightarrow> 'a result" where
  "pqxdh_failed r = (case r of Inl _ \<Rightarrow> Inl (EncryptionError PQXDH_FAILED) | Inr a \<Rightarrow> Inr a)"

definition performKeyAgreement ::
    "Primitives \<Rightarrow> IdentityKeyPair \<Rightarrow> PreKeyBundle \<Rightarrow> js_string option \<Rightarrow> bytes \<Rightarrow> bytes \<Rightarrow> PQXDHResult result" where
  "performKeyAgreement p keyPair prekeyBundle override keyRandom kemRandom =
     and_then (validatePreKeyBundle p prekeyBundle) (\<lambda>_.
     if \<not> bundleHasAnyKemMaterial prekeyBundle then Inl (EncryptionError PQXDH_REQUIRED)
     else pqxdh_failed (performPQXDH p keyPair prekeyBundle (resolveKeyExchangeInfoStrings override) keyRandom kemRandom))"

definition buildPqxdhResponderInput :: "PreKeyMessage \<Rightarrow> Base64 \<Rightarrow> Base64 \<Rightarrow> PQXDHResponderInput" where
  "buildPqxdhResponderInput prekeyMessage senderIdentityKey senderEphemeralKey =
     \<lparr>ri_senderIdentityKey = senderIdentityKey, ri_senderEphemeralKey = senderEphemeralKey,
      ri_usedSignedPreKeyId = pm_usedSignedPreKeyId prekeyMessage,
      ri_usedOneTimePreKeyId = pm_usedOneTimePreKeyId prekeyMessage,
      ri_kyberCiphertext = pm_kyberCiphertext prekeyMessage, ri_usedKyberPreKeyId = pm_usedKyberPreKeyId prekeyMessage,
      ri_kemOneTimePreKeyCiphertext = pm_kemOneTimePreKeyCiphertext prekeyMessage,
      ri_usedKemOneTimePreKeyId = pm_usedKemOneTimePreKeyId prekeyMessage\<rparr>"

definition performResponderKeyAgreement ::
    "Primitives \<Rightarrow> IdentityKeyPair \<Rightarrow> EcSignedPreKey \<Rightarrow> EcOneTimePreKey option \<Rightarrow> KyberPreKey option \<Rightarrow>
     KemOneTimePreKey option \<Rightarrow> PreKeyMessage \<Rightarrow> Base64 \<Rightarrow> Base64 \<Rightarrow> js_string option \<Rightarrow> (bytes \<times> bytes) result" where
  "performResponderKeyAgreement p keyPair signedPreKey oneTimePreKey kyberPreKey kemOneTimePreKey prekeyMessage
       aliceIdentityKey aliceEphemeralKey override =
     (let hasLastResortId = (pm_usedKyberPreKeyId prekeyMessage \<noteq> None);
          hasLastResortCiphertext = (\<not> falsy (pm_kyberCiphertext prekeyMessage));
          hasOneTimeId = (pm_usedKemOneTimePreKeyId prekeyMessage \<noteq> None);
          hasOneTimeCiphertext = (\<not> falsy (pm_kemOneTimePreKeyCiphertext prekeyMessage))
      in if hasLastResortId \<noteq> hasLastResortCiphertext then Inl (EncryptionError INVALID_CIPHERTEXT)
      else if hasOneTimeId \<noteq> hasOneTimeCiphertext then Inl (EncryptionError INVALID_CIPHERTEXT)
      else let hasLastResortMetadata = (hasLastResortId \<and> hasLastResortCiphertext);
               hasOneTimeMetadata = (hasOneTimeId \<and> hasOneTimeCiphertext)
      in if hasLastResortMetadata \<and> hasOneTimeMetadata then Inl (EncryptionError INVALID_CIPHERTEXT)
      else if hasLastResortMetadata \<or> hasOneTimeMetadata then
        if hasLastResortMetadata \<and> kyberPreKey = None then Inl (EncryptionError PQXDH_REQUIRED)
        else if hasOneTimeMetadata \<and> kemOneTimePreKey = None then Inl (EncryptionError PQXDH_REQUIRED)
        else pqxdh_failed (performPQXDHResponder p keyPair signedPreKey oneTimePreKey kyberPreKey kemOneTimePreKey
               (buildPqxdhResponderInput prekeyMessage aliceIdentityKey aliceEphemeralKey)
               (resolveKeyExchangeInfoStrings override))
      else Inl (EncryptionError PQXDH_REQUIRED))"

subsection \<open>Session states (factory.ts)\<close>

text \<open>The ranges \<open>HKDF_ADDITIONAL_RANGES\<close> of the additional bytes.\<close>

definition additional_chain_key :: "bytes \<Rightarrow> bytes" where
  "additional_chain_key additionalDerivedBytes = js_slice 0 32 additionalDerivedBytes"

definition additional_pqr_key :: "bytes \<Rightarrow> bytes" where
  "additional_pqr_key additionalDerivedBytes = js_slice 32 64 additionalDerivedBytes"

record InitiatorSessionInput =
  is_localAddress :: ProtocolAddress
  is_remoteAddress :: ProtocolAddress
  is_identityKeyPair :: IdentityKeyPair
  is_remoteIdentity :: CompositeIdentityV1
  is_remoteRegistrationId :: int
  is_recipientIdentityType :: IdentityType
  is_ephemeralKeyPair :: RatchetKeyPair
  is_remoteSignedPreKey :: EcPublicPreKey
  is_rootKey :: bytes
  is_sendingChainKey :: bytes
  is_receivingChainKey :: bytes
  is_usedOneTimePreKeyId :: "int option"
  is_usedKyberPreKeyId :: "int option"
  is_kyberCiphertext :: "Base64 option"
  is_usedKemOneTimePreKeyId :: "int option"
  is_kemOneTimePreKeyCiphertext :: "Base64 option"

definition truthy :: "Base64 option \<Rightarrow> Base64 option" where
  "truthy text_option = (if falsy text_option then None else text_option)"

definition createInitiatorSession :: "InitiatorSessionInput \<Rightarrow> int \<Rightarrow> 'q SessionState result" where
  "createInitiatorSession input now =
     and_then (createCompositeIdentityV1 (is_identityKeyPair input)) (\<lambda>identity.
     Inr \<lparr>DHs = Some (is_ephemeralKeyPair input), DHr = Some (pp_publicKey (is_remoteSignedPreKey input)),
          RK = bytesToBase64 (is_rootKey input), CKs = Some (bytesToBase64 (is_sendingChainKey input)), Ns = 0,
          CKr = Some (bytesToBase64 (is_receivingChainKey input)), Nr = 0, PN = 0, receiverChains = [], processedChains = None,
          baseKey = publicKey (is_ephemeralKeyPair input),
          localAddress = is_localAddress input, remoteAddress = is_remoteAddress input,
          localDeviceId = deviceId (is_localAddress input), remoteDeviceId = deviceId (is_remoteAddress input),
          localRegistrationId = registrationId (is_identityKeyPair input),
          remoteRegistrationId = nat (is_remoteRegistrationId input),
          recipientIdentityType = Some (is_recipientIdentityType input),
          usedSignedPreKeyId = Some (nat (pp_keyId (is_remoteSignedPreKey input))),
          usedOneTimePreKeyId = map_option nat (is_usedOneTimePreKeyId input),
          usedKyberPreKeyId = map_option nat (is_usedKyberPreKeyId input),
          usedKemOneTimePreKeyId = map_option nat (is_usedKemOneTimePreKeyId input),
          pendingPreKeyDeletion = None,
          kyberCiphertext = truthy (is_kyberCiphertext input),
          kemOneTimePreKeyCiphertext = truthy (is_kemOneTimePreKeyCiphertext input),
          isInitiator = Some True, unacknowledgedPreKeyMessage = Some True, hasReceivedMessage = Some False,
          identityKeyPair = is_identityKeyPair input, localIdentity = identity, remoteIdentity = is_remoteIdentity input,
          localIdentityType = Aci, remoteIdentityType = is_recipientIdentityType input,
          createdAt = now, lastUsedAt = now, tripleRatchet = None\<rparr>)"

record ResponderSessionInput =
  rs_localAddress :: ProtocolAddress
  rs_remoteAddress :: ProtocolAddress
  rs_senderEphemeralKey :: Base64
  rs_identityKeyPair :: IdentityKeyPair
  rs_remoteIdentity :: CompositeIdentityV1
  rs_remoteRegistrationId :: int
  rs_localIdentityType :: IdentityType
  rs_ecSignedPreKey :: EcSignedPreKey
  rs_rootKey :: bytes
  rs_sendingChainKey :: "bytes option"
  rs_receivingChainKey :: "bytes option"

definition createResponderSession :: "ResponderSessionInput \<Rightarrow> int \<Rightarrow> 'q SessionState result" where
  "createResponderSession input now =
     and_then (createCompositeIdentityV1 (rs_identityKeyPair input)) (\<lambda>identity.
     Inr \<lparr>DHs = Some \<lparr>publicKey = es_publicKey (rs_ecSignedPreKey input), privateKey = es_privateKey (rs_ecSignedPreKey input)\<rparr>,
          DHr = None, RK = bytesToBase64 (rs_rootKey input),
          CKs = map_option bytesToBase64 (rs_sendingChainKey input), Ns = 0,
          CKr = map_option bytesToBase64 (rs_receivingChainKey input), Nr = 0, PN = 0, receiverChains = [], processedChains = None,
          baseKey = rs_senderEphemeralKey input,
          localAddress = rs_localAddress input, remoteAddress = rs_remoteAddress input,
          localDeviceId = deviceId (rs_localAddress input), remoteDeviceId = deviceId (rs_remoteAddress input),
          localRegistrationId = registrationId (rs_identityKeyPair input),
          remoteRegistrationId = nat (rs_remoteRegistrationId input),
          recipientIdentityType = None, usedSignedPreKeyId = None, usedOneTimePreKeyId = None, usedKyberPreKeyId = None,
          usedKemOneTimePreKeyId = None, pendingPreKeyDeletion = None, kyberCiphertext = None, kemOneTimePreKeyCiphertext = None,
          isInitiator = Some False, unacknowledgedPreKeyMessage = None, hasReceivedMessage = Some True,
          identityKeyPair = rs_identityKeyPair input, localIdentity = identity, remoteIdentity = rs_remoteIdentity input,
          localIdentityType = rs_localIdentityType input, remoteIdentityType = Aci,
          createdAt = now, lastUsedAt = now, tripleRatchet = None\<rparr>)"

subsection \<open>Builders (builder.ts)\<close>

record SessionBuilderInitiatorInput =
  bi_localAddress :: ProtocolAddress
  bi_remoteAddress :: ProtocolAddress
  bi_identityKeyPair :: IdentityKeyPair
  bi_prekeyBundle :: PreKeyBundle
  bi_recipientIdentityType :: IdentityType
  bi_keyExchangeInfoString :: "js_string option"

text \<open>
  The session and \<open>initialRootKeyForSPQR\<close>, which is present because every agreement used PQXDH; the KEM
  ciphertext and prekey ID of the result are those of the session.
\<close>

definition buildInitiatorSession ::
    "Primitives \<Rightarrow> SessionBuilderInitiatorInput \<Rightarrow> int \<Rightarrow> bytes \<Rightarrow> bytes \<Rightarrow> ('q SessionState \<times> bytes) result" where
  "buildInitiatorSession p input now keyRandom kemRandom =
     and_then (performKeyAgreement p (bi_identityKeyPair input) (bi_prekeyBundle input) (bi_keyExchangeInfoString input)
                 keyRandom kemRandom) (\<lambda>agreement.
     let ephemeralKey = px_ephemeralKeyPair agreement; bundle = bi_prekeyBundle input in
     and_then (required (pb_ecSignedPreKey bundle)) (\<lambda>spk.
     and_then (x25519_computeSharedSecret p (privateKey ephemeralKey) (pp_publicKey spk)) (\<lambda>dhOutput.
     and_then (kdfRootKey (p_hmac p) (px_sharedSecret agreement) dhOutput) (\<lambda>(ratchetedRootKey, sendingChainKey).
     and_then (createInitiatorSession
       \<lparr>is_localAddress = bi_localAddress input, is_remoteAddress = bi_remoteAddress input,
        is_identityKeyPair = bi_identityKeyPair input, is_remoteIdentity = pb_identity bundle,
        is_remoteRegistrationId = pb_registrationId bundle, is_recipientIdentityType = bi_recipientIdentityType input,
        is_ephemeralKeyPair = ephemeralKey, is_remoteSignedPreKey = EcPublicPreKey.truncate spk,
        is_rootKey = ratchetedRootKey, is_sendingChainKey = sendingChainKey,
        is_receivingChainKey = additional_chain_key (px_additionalDerivedBytes agreement),
        is_usedOneTimePreKeyId = map_option pp_keyId (pb_ecOneTimePreKey bundle),
        is_usedKyberPreKeyId = px_usedKyberPreKeyId agreement, is_kyberCiphertext = px_kyberCiphertext agreement,
        is_usedKemOneTimePreKeyId = px_usedKemOneTimePreKeyId agreement,
        is_kemOneTimePreKeyCiphertext = px_kemOneTimePreKeyCiphertext agreement\<rparr> now) (\<lambda>sessionState.
     Inr (sessionState, additional_pqr_key (px_additionalDerivedBytes agreement)))))))"

record SessionBuilderResponderInput =
  br_localAddress :: ProtocolAddress
  br_remoteAddress :: ProtocolAddress
  br_identityKeyPair :: IdentityKeyPair
  br_prekeyMessage :: PreKeyMessage
  br_ecSignedPreKey :: EcSignedPreKey
  br_ecOneTimePreKey :: "EcOneTimePreKey option"
  br_kemLastResortPreKey :: "KyberPreKey option"
  br_kemOneTimePreKey :: "KemOneTimePreKey option"
  br_keyExchangeInfoString :: "js_string option"

text \<open>A prekey message always has a signed prekey ID, so that the first check of the source holds.\<close>

definition buildResponderSession ::
    "Primitives \<Rightarrow> SessionBuilderResponderInput \<Rightarrow> int \<Rightarrow> ('q SessionState \<times> bytes) result" where
  "buildResponderSession p input now =
     (let prekeyMessage = br_prekeyMessage input;
          aliceIdentityKey = x25519PublicKey (pm_senderIdentity prekeyMessage);
          aliceEphemeralKey = pm_senderEphemeralKey prekeyMessage in
      and_then (performResponderKeyAgreement p (br_identityKeyPair input) (br_ecSignedPreKey input) (br_ecOneTimePreKey input)
                  (br_kemLastResortPreKey input) (br_kemOneTimePreKey input) prekeyMessage aliceIdentityKey aliceEphemeralKey
                  (br_keyExchangeInfoString input)) (\<lambda>(rootKey, additionalDerivedBytes).
      and_then (createResponderSession
        \<lparr>rs_localAddress = br_localAddress input, rs_remoteAddress = br_remoteAddress input,
         rs_senderEphemeralKey = aliceEphemeralKey, rs_identityKeyPair = br_identityKeyPair input,
         rs_remoteIdentity = pm_senderIdentity prekeyMessage, rs_remoteRegistrationId = pm_senderRegistrationId prekeyMessage,
         rs_localIdentityType = pm_recipientIdentityType prekeyMessage, rs_ecSignedPreKey = br_ecSignedPreKey input,
         rs_rootKey = rootKey, rs_sendingChainKey = None, rs_receivingChainKey = None\<rparr> now) (\<lambda>sessionState.
      Inr (sessionState, additional_pqr_key additionalDerivedBytes))))"

section \<open>What a valid bundle is\<close>

lemma decodeCanonicalBase64_iff: "decodeCanonicalBase64 v n = Inr bs \<longleftrightarrow> v = bytesToBase64 bs \<and> length bs = n"
proof
  show "decodeCanonicalBase64 v n = Inr bs \<Longrightarrow> v = bytesToBase64 bs \<and> length bs = n"
    by (auto simp: decodeCanonicalBase64_def split: sum.splits if_splits)
qed (simp add: decodeCanonicalBase64_def)

lemma assertUint32_iff: "assertUint32 v lo hi = Inr u \<longleftrightarrow> lo \<le> v \<and> v \<le> hi \<and> \<bar>v\<bar> \<le> MAX_SAFE_INTEGER"
  by (auto simp: assertUint32_def)

lemma canonical_point_iff:
  "isCanonicalX25519Point p bs \<longleftrightarrow> length bs = 32 \<and> le_number bs < 2 ^ 255 - 19 \<and> isTorsionFree p bs"
  using scalar_in_range [of bs] by (auto simp: isCanonicalX25519Point_def)

lemma parseMlKem1024PublicKey_iff:
  "parseMlKem1024PublicKey bs = Inr raw \<longleftrightarrow> bs = 0x0A # raw \<and> length raw = 1568"
  by (cases bs) (auto simp: parseMlKem1024PublicKey_def ML_KEM_1024_PUBLIC_KEY_BYTES_def ML_KEM_1024_RAW_PUBLIC_KEY_BYTES_def
      ML_KEM_1024_ALGORITHM_TAG_def)

text \<open>
  The text of a public key: the canonical base64 text of a canonical point. A KEM key is tagged; a
  signature has 64 bytes.
\<close>

definition point_text :: "Primitives \<Rightarrow> Base64 \<Rightarrow> bool" where
  "point_text p v = (\<exists>bs. v = bytesToBase64 bs \<and> length bs = 32 \<and> le_number bs < 2 ^ 255 - 19 \<and> isTorsionFree p bs)"

definition key_id :: "int \<Rightarrow> bool" where "key_id n = (0 \<le> n \<and> n < 2 ^ 32)"

definition signature_text :: "Base64 \<Rightarrow> bool" where "signature_text v = (\<exists>bs. v = bytesToBase64 bs \<and> length bs = 64)"

definition kem_prekey_ok :: "SignedPublicPreKey \<Rightarrow> bool" where
  "kem_prekey_ok k = (key_id (pp_keyId k) \<and> signature_text (pp_signature k) \<and>
     (\<exists>raw. pp_publicKey k = bytesToBase64 (0x0A # raw) \<and> length raw = 1568))"

lemma key_id_iff: "assertUint32 n 0 0xFFFFFFFF = Inr u \<longleftrightarrow> key_id n"
  by (auto simp: assertUint32_iff key_id_def MAX_SAFE_INTEGER_def)

lemma signature_iff: "(\<exists>bs. decodeCanonicalBase64 v 64 = Inr bs) \<longleftrightarrow> signature_text v"
  by (auto simp: decodeCanonicalBase64_iff signature_text_def)

lemma validate_kem_iff: "validate_kem_prekey k = Inr u \<longleftrightarrow> pred_option kem_prekey_ok k"
  by (cases k) (auto simp: validate_kem_prekey_def and_then_eq_Inr key_id_iff decodeCanonicalBase64_iff
      parseMlKem1024PublicKey_iff kem_prekey_ok_def signature_text_def)

lemma point_iff:
  "(\<exists>bs. decodeCanonicalBase64 v 32 = Inr bs) \<and> validateX25519PublicKey p v = Inr u \<longleftrightarrow> point_text p v"
  by (auto simp: decodeCanonicalBase64_iff validateX25519PublicKey_def point_text_def canonical_point_iff)

lemma validate_one_time_iff:
  "validate_ec_one_time p k = Inr u \<longleftrightarrow> pred_option (\<lambda>k. key_id (pp_keyId k) \<and> point_text p (pp_publicKey k)) k"
  using point_iff [of _ p u] by (cases k) (auto simp: validate_ec_one_time_def and_then_eq_Inr key_id_iff)

lemma identity_point:
  "valid_identity i \<Longrightarrow> validateX25519PublicKey p (x25519PublicKey i) = Inr u \<longleftrightarrow> point_text p (x25519PublicKey i)"
  unfolding valid_identity_def
  by (auto simp: identity_of_def validateX25519PublicKey_def point_text_def canonical_point_iff dest: base64.enc_inj)

lemma bundle_accepted:
  "validatePreKeyBundle p b = Inr () \<longleftrightarrow>
     1 \<le> pb_registrationId b \<and> pb_registrationId b \<le> 16384 \<and> 1 \<le> pb_deviceId b \<and> pb_deviceId b < 2 ^ 32 \<and>
     valid_identity (pb_identity b) \<and> point_text p (x25519PublicKey (pb_identity b)) \<and>
     (\<exists>k. pb_ecSignedPreKey b = Some k \<and> key_id (pp_keyId k) \<and> point_text p (pp_publicKey k) \<and> signature_text (pp_signature k)) \<and>
     pred_option (\<lambda>k. key_id (pp_keyId k) \<and> point_text p (pp_publicKey k)) (pb_ecOneTimePreKey b) \<and>
     pred_option kem_prekey_ok (pb_kemLastResortPreKey b) \<and> pred_option kem_prekey_ok (pb_kemOneTimePreKey b)"
proof -
  have range: "assertUint32 (pb_deviceId b) 1 0xFFFFFFFF = Inr () \<longleftrightarrow> 1 \<le> pb_deviceId b \<and> pb_deviceId b < 2 ^ 32"
    "assertUint32 (pb_registrationId b) 1 16384 = Inr () \<longleftrightarrow> 1 \<le> pb_registrationId b \<and> pb_registrationId b \<le> 16384"
    by (auto simp: assertUint32_iff MAX_SAFE_INTEGER_def)
  show ?thesis
    using identity_point [of "pb_identity b" p "()"] point_iff [of _ p "()"] signature_iff
    by (cases "pb_ecSignedPreKey b")
      (auto simp: validatePreKeyBundle_def and_then_eq_Inr range key_id_iff validate_kem_iff validate_one_time_iff encode_eq_Inr)
qed

section \<open>The two sessions\<close>

text \<open>The responder succeeds only with exactly one KEM mode, whose private key is given.\<close>

lemma responder_agreement_iff:
  "performResponderKeyAgreement p bob spk opk kyber kem m ik ek info = Inr r \<longleftrightarrow>
     (pm_usedKyberPreKeyId m \<noteq> None \<longleftrightarrow> \<not> falsy (pm_kyberCiphertext m)) \<and>
     (pm_usedKemOneTimePreKeyId m \<noteq> None \<longleftrightarrow> \<not> falsy (pm_kemOneTimePreKeyCiphertext m)) \<and>
     (pm_usedKyberPreKeyId m \<noteq> None \<longleftrightarrow> pm_usedKemOneTimePreKeyId m = None) \<and>
     (pm_usedKyberPreKeyId m \<noteq> None \<longrightarrow> kyber \<noteq> None) \<and> (pm_usedKemOneTimePreKeyId m \<noteq> None \<longrightarrow> kem \<noteq> None) \<and>
     performPQXDHResponder p bob spk opk kyber kem (buildPqxdhResponderInput m ik ek) (resolveKeyExchangeInfoStrings info) = Inr r"
  by (auto simp: performResponderKeyAgreement_def Let_def pqxdh_failed_def split: sum.splits)

lemma pqxdh_failed_Inr: "pqxdh_failed r = Inr a \<longleftrightarrow> r = Inr a"
  by (cases r) (simp_all add: pqxdh_failed_def)

lemma createCompositeIdentityV1_Inr:
  "createCompositeIdentityV1 kp = Inr i \<Longrightarrow> valid_identity i \<and> i = \<lparr>ci_version = 1, x25519PublicKey = ik_publicKey (dhKey kp),
     ed25519PublicKey = ik_publicKey (signingKey kp)\<rparr>"
  by (auto simp: createCompositeIdentityV1_def and_then_eq_Inr encode_eq_Inr Let_def)

lemma valid_identity_version: "valid_identity i \<Longrightarrow> ci_version i = 1"
  unfolding valid_identity_def by (auto simp: identity_of_def)

text \<open>The first message of the session \<open>A\<close> names the keys of the session.\<close>

definition announces :: "PreKeyMessage \<Rightarrow> 'q SessionState \<Rightarrow> bool" where
  "announces m A =
     (pm_senderIdentity m = localIdentity A \<and> pm_senderEphemeralKey m = baseKey A \<and>
      pm_senderRegistrationId m = int (localRegistrationId A) \<and>
      recipientIdentityType A = Some (pm_recipientIdentityType m) \<and>
      map_option int (usedSignedPreKeyId A) = Some (pm_usedSignedPreKeyId m) \<and>
      pm_usedOneTimePreKeyId m = map_option int (usedOneTimePreKeyId A) \<and>
      pm_usedKyberPreKeyId m = map_option int (usedKyberPreKeyId A) \<and> pm_kyberCiphertext m = kyberCiphertext A \<and>
      pm_usedKemOneTimePreKeyId m = map_option int (usedKemOneTimePreKeyId A) \<and>
      pm_kemOneTimePreKeyCiphertext m = kemOneTimePreKeyCiphertext A)"

text \<open>The parts of a session that the initiator builds.\<close>

lemma buildInitiatorSession_Inr:
  assumes "buildInitiatorSession p inp now keyRandom kemRandom = Inr (A, pqr)"
  obtains res spk dhOutput rk cks identity where
    "performPQXDH p (bi_identityKeyPair inp) (bi_prekeyBundle inp) (resolveKeyExchangeInfoStrings (bi_keyExchangeInfoString inp))
       keyRandom kemRandom = Inr res"
    "validatePreKeyBundle p (bi_prekeyBundle inp) = Inr ()" "pb_ecSignedPreKey (bi_prekeyBundle inp) = Some spk"
    "x25519_computeSharedSecret p (privateKey (px_ephemeralKeyPair res)) (pp_publicKey spk) = Inr dhOutput"
    "kdfRootKey (p_hmac p) (px_sharedSecret res) dhOutput = Inr (rk, cks)"
    "createCompositeIdentityV1 (bi_identityKeyPair inp) = Inr identity"
    "pqr = additional_pqr_key (px_additionalDerivedBytes res)"
    "createInitiatorSession
       \<lparr>is_localAddress = bi_localAddress inp, is_remoteAddress = bi_remoteAddress inp,
        is_identityKeyPair = bi_identityKeyPair inp, is_remoteIdentity = pb_identity (bi_prekeyBundle inp),
        is_remoteRegistrationId = pb_registrationId (bi_prekeyBundle inp), is_recipientIdentityType = bi_recipientIdentityType inp,
        is_ephemeralKeyPair = px_ephemeralKeyPair res, is_remoteSignedPreKey = EcPublicPreKey.truncate spk,
        is_rootKey = rk, is_sendingChainKey = cks,
        is_receivingChainKey = additional_chain_key (px_additionalDerivedBytes res),
        is_usedOneTimePreKeyId = map_option pp_keyId (pb_ecOneTimePreKey (bi_prekeyBundle inp)),
        is_usedKyberPreKeyId = px_usedKyberPreKeyId res, is_kyberCiphertext = px_kyberCiphertext res,
        is_usedKemOneTimePreKeyId = px_usedKemOneTimePreKeyId res,
        is_kemOneTimePreKeyCiphertext = px_kemOneTimePreKeyCiphertext res\<rparr> now = Inr A"
proof -
  from assms obtain res spk dhOutput rk cks where r:
    "performKeyAgreement p (bi_identityKeyPair inp) (bi_prekeyBundle inp) (bi_keyExchangeInfoString inp) keyRandom kemRandom = Inr res"
    "pb_ecSignedPreKey (bi_prekeyBundle inp) = Some spk"
    "x25519_computeSharedSecret p (privateKey (px_ephemeralKeyPair res)) (pp_publicKey spk) = Inr dhOutput"
    "kdfRootKey (p_hmac p) (px_sharedSecret res) dhOutput = Inr (rk, cks)"
    "pqr = additional_pqr_key (px_additionalDerivedBytes res)"
    and c: "createInitiatorSession
       \<lparr>is_localAddress = bi_localAddress inp, is_remoteAddress = bi_remoteAddress inp,
        is_identityKeyPair = bi_identityKeyPair inp, is_remoteIdentity = pb_identity (bi_prekeyBundle inp),
        is_remoteRegistrationId = pb_registrationId (bi_prekeyBundle inp), is_recipientIdentityType = bi_recipientIdentityType inp,
        is_ephemeralKeyPair = px_ephemeralKeyPair res, is_remoteSignedPreKey = EcPublicPreKey.truncate spk,
        is_rootKey = rk, is_sendingChainKey = cks,
        is_receivingChainKey = additional_chain_key (px_additionalDerivedBytes res),
        is_usedOneTimePreKeyId = map_option pp_keyId (pb_ecOneTimePreKey (bi_prekeyBundle inp)),
        is_usedKyberPreKeyId = px_usedKyberPreKeyId res, is_kyberCiphertext = px_kyberCiphertext res,
        is_usedKemOneTimePreKeyId = px_usedKemOneTimePreKeyId res,
        is_kemOneTimePreKeyCiphertext = px_kemOneTimePreKeyCiphertext res\<rparr> now = Inr A"
    by (auto simp: buildInitiatorSession_def and_then_eq_Inr required_def Let_def split: option.splits)
  obtain identity where "createCompositeIdentityV1 (bi_identityKeyPair inp) = Inr identity"
    using c by (auto simp: createInitiatorSession_def and_then_eq_Inr)
  with r c that show ?thesis
    by (auto simp: performKeyAgreement_def and_then_eq_Inr pqxdh_failed_Inr split: if_splits)
qed

lemma announced_input:
  assumes "performPQXDH p (bi_identityKeyPair inp) (bi_prekeyBundle inp) info keyRandom kemRandom = Inr res"
    and keys: "publishes (bi_prekeyBundle inp) bob spk opk kyber kem"
    and A: "localIdentity A = \<lparr>ci_version = 1, x25519PublicKey = ik_publicKey (dhKey (bi_identityKeyPair inp)), ed25519PublicKey = e\<rparr>"
      "baseKey A = publicKey (px_ephemeralKeyPair res)" "usedSignedPreKeyId A = Some (es_keyId spk)"
      "usedOneTimePreKeyId A = map_option eo_keyId opk"
      "usedKyberPreKeyId A = map_option nat (px_usedKyberPreKeyId res)" "kyberCiphertext A = truthy (px_kyberCiphertext res)"
      "usedKemOneTimePreKeyId A = map_option nat (px_usedKemOneTimePreKeyId res)"
      "kemOneTimePreKeyCiphertext A = truthy (px_kemOneTimePreKeyCiphertext res)"
    and m: "announces m A" and kemPairs: "px_kyberCiphertext res \<noteq> Some []" "px_kemOneTimePreKeyCiphertext res \<noteq> Some []"
  shows "buildPqxdhResponderInput m (x25519PublicKey (pm_senderIdentity m)) (pm_senderEphemeralKey m) =
      responder_input (bi_identityKeyPair inp) res"
    and "(pm_usedKyberPreKeyId m \<noteq> None \<longleftrightarrow> \<not> falsy (pm_kyberCiphertext m)) \<and>
     (pm_usedKemOneTimePreKeyId m \<noteq> None \<longleftrightarrow> \<not> falsy (pm_kemOneTimePreKeyCiphertext m)) \<and>
     (pm_usedKyberPreKeyId m \<noteq> None \<longleftrightarrow> kem = None) \<and> (pm_usedKemOneTimePreKeyId m \<noteq> None \<longleftrightarrow> kem \<noteq> None) \<and>
     (pm_usedKyberPreKeyId m \<noteq> None \<longrightarrow> kyber \<noteq> None)"
proof -
  from assms(1) obtain sp kemKey ct where
    r: "pb_ecSignedPreKey (bi_prekeyBundle inp) = Some sp" "px_usedSignedPreKeyId res = pp_keyId sp"
    "px_usedOneTimePreKeyId res = map_option pp_keyId (pb_ecOneTimePreKey (bi_prekeyBundle inp))"
    and k: "pb_kemOneTimePreKey (bi_prekeyBundle inp) = Some kemKey \<and> px_kyberCiphertext res = None \<and> px_usedKyberPreKeyId res = None \<and>
       px_kemOneTimePreKeyCiphertext res = Some (bytesToBase64 ct) \<and> px_usedKemOneTimePreKeyId res = Some (pp_keyId kemKey) \<or>
     pb_kemOneTimePreKey (bi_prekeyBundle inp) = None \<and> pb_kemLastResortPreKey (bi_prekeyBundle inp) = Some kemKey \<and>
       px_kyberCiphertext res = Some (bytesToBase64 ct) \<and> px_usedKyberPreKeyId res = Some (pp_keyId kemKey) \<and>
       px_kemOneTimePreKeyCiphertext res = None \<and> px_usedKemOneTimePreKeyId res = None"
    by (rule performPQXDH_Inr) metis
  have spk: "pp_keyId sp = int (es_keyId spk)" using keys r(1) by (auto simp: publishes_def)
  have opk: "map_option int (map_option eo_keyId opk) = map_option pp_keyId (pb_ecOneTimePreKey (bi_prekeyBundle inp))"
    using keys by (cases opk; cases "pb_ecOneTimePreKey (bi_prekeyBundle inp)") (auto simp: publishes_def)
  have id: "\<exists>n. pp_keyId kemKey = int n"
    using keys k by (cases kem; cases kyber) (auto simp: publishes_def)
  note defs = announces_def buildPqxdhResponderInput_def responder_input_def truthy_def falsy_def option.map_comp
  show "buildPqxdhResponderInput m (x25519PublicKey (pm_senderIdentity m)) (pm_senderEphemeralKey m) =
      responder_input (bi_identityKeyPair inp) res"
    using m A r(2,3) k spk opk id kemPairs by (auto simp: defs)
  show "(pm_usedKyberPreKeyId m \<noteq> None \<longleftrightarrow> \<not> falsy (pm_kyberCiphertext m)) \<and>
     (pm_usedKemOneTimePreKeyId m \<noteq> None \<longleftrightarrow> \<not> falsy (pm_kemOneTimePreKeyCiphertext m)) \<and>
     (pm_usedKyberPreKeyId m \<noteq> None \<longleftrightarrow> kem = None) \<and> (pm_usedKemOneTimePreKeyId m \<noteq> None \<longleftrightarrow> kem \<noteq> None) \<and>
     (pm_usedKyberPreKeyId m \<noteq> None \<longrightarrow> kyber \<noteq> None)"
    using m A(5-8) k kemPairs keys by (cases kem; cases kyber) (auto simp: defs publishes_def)
qed

lemma pqxdh_ciphertexts:
  "performPQXDH p alice bundle info keyRandom kemRandom = Inr res \<Longrightarrow>
   px_kyberCiphertext res \<noteq> Some [] \<and> px_kemOneTimePreKeyCiphertext res \<noteq> Some []"
proof (rule performPQXDH_Inr, assumption)
  fix kemKey ss ct
  assume e: "encapsulate_signed p (pb_identity bundle) kemKey kemRandom = Inr (ss, ct)"
    and k: "pb_kemOneTimePreKey bundle = Some kemKey \<and> px_kyberCiphertext res = None \<and> px_usedKyberPreKeyId res = None \<and>
       px_kemOneTimePreKeyCiphertext res = Some (bytesToBase64 ct) \<and> px_usedKemOneTimePreKeyId res = Some (pp_keyId kemKey) \<or>
     pb_kemOneTimePreKey bundle = None \<and> pb_kemLastResortPreKey bundle = Some kemKey \<and>
       px_kyberCiphertext res = Some (bytesToBase64 ct) \<and> px_usedKyberPreKeyId res = Some (pp_keyId kemKey) \<and>
       px_kemOneTimePreKeyCiphertext res = None \<and> px_usedKemOneTimePreKeyId res = None"
  from e obtain c cs where "ct = c # cs"
    by (auto simp: encapsulate_signed_def mlKem1024Encapsulate_def and_then_eq_Inr serializeMlKem1024Ciphertext_def split: if_splits)
  with k show ?thesis using bytesToBase64_nonempty [of c cs] bytesToBase64_nonempty [of c cs, symmetric] by auto
qed

section \<open>Properties\<close>

text \<open>
  C36. A bundle is accepted exactly when its numbers are in range, its identity is canonical, every X25519
  key is the canonical text of a point below the prime and free of torsion, every ML-KEM key is the
  canonical text of 1568 bytes behind the tag, and every signature is the canonical text of 64 bytes.
\<close>

theorem bundle_accepted_iff:
  "validatePreKeyBundle p b = Inr () \<longleftrightarrow>
     1 \<le> pb_registrationId b \<and> pb_registrationId b \<le> 16384 \<and> 1 \<le> pb_deviceId b \<and> pb_deviceId b < 2 ^ 32 \<and>
     valid_identity (pb_identity b) \<and> point_text p (x25519PublicKey (pb_identity b)) \<and>
     (\<exists>k. pb_ecSignedPreKey b = Some k \<and> key_id (pp_keyId k) \<and> point_text p (pp_publicKey k) \<and> signature_text (pp_signature k)) \<and>
     pred_option (\<lambda>k. key_id (pp_keyId k) \<and> point_text p (pp_publicKey k)) (pb_ecOneTimePreKey b) \<and>
     pred_option kem_prekey_ok (pb_kemLastResortPreKey b) \<and> pred_option kem_prekey_ok (pb_kemOneTimePreKey b)"
  by (rule bundle_accepted)

text \<open>The two builders match: the initiator is one ratchet step ahead of the responder.\<close>

lemma established:
  fixes A :: "'q SessionState"
  assumes laws: "dh_commutes p" "dh_canonical p" "kem_correct p" "\<And>k d. length (p_hmac p k d) = 32"
    and built: "buildInitiatorSession p inp now keyRandom kemRandom = Inr (A, pqr)"
    and keys: "publishes (bi_prekeyBundle inp) bob spk opk kyber kem" "own_pairs p bob spk opk kyber kem"
    and alice: "validateX25519KeyPair p (ik_publicKey (dhKey (bi_identityKeyPair inp))) (ik_privateKey (dhKey (bi_identityKeyPair inp))) = Inr ()"
    and m: "announces m A"
  shows "\<exists>B :: 'q SessionState. buildResponderSession p \<lparr>br_localAddress = here, br_remoteAddress = there, br_identityKeyPair = bob,
      br_prekeyMessage = m, br_ecSignedPreKey = spk, br_ecOneTimePreKey = opk, br_kemLastResortPreKey = if kem = None then kyber else None,
      br_kemOneTimePreKey = kem, br_keyExchangeInfoString = bi_keyExchangeInfoString inp\<rparr> now' = Inr (B, pqr) \<and>
    baseKey B = baseKey A \<and> localAddress B = here \<and> remoteAddress B = there \<and>
    localIdentity B = remoteIdentity A \<and> remoteIdentity B = localIdentity A \<and> identityKeyPair B = bob \<and>
    (\<exists>a b. one_step_ahead (p_hmac p) (x25519_computeSharedSecret p) A B a b \<and> publicKey a = baseKey A \<and>
      (\<forall>fresh s. x25519_computeSharedSecret p (privateKey fresh) (publicKey a) = Inr s \<longrightarrow>
        (\<exists>B'. performDHRatchetStep (p_hmac p) (x25519_computeSharedSecret p) fresh B (publicKey a) = Inr B' \<and> CKr B' = CKs A)))"
proof -
  let ?theirs = "bi_prekeyBundle inp" and ?alice = "bi_identityKeyPair inp"
  let ?dh = "x25519_computeSharedSecret p"
  obtain res sp dhOutput rk cks identity where
    r: "performPQXDH p ?alice ?theirs (resolveKeyExchangeInfoStrings (bi_keyExchangeInfoString inp)) keyRandom kemRandom = Inr res"
    "validatePreKeyBundle p ?theirs = Inr ()" "pb_ecSignedPreKey ?theirs = Some sp"
    "?dh (privateKey (px_ephemeralKeyPair res)) (pp_publicKey sp) = Inr dhOutput"
    "kdfRootKey (p_hmac p) (px_sharedSecret res) dhOutput = Inr (rk, cks)"
    "createCompositeIdentityV1 ?alice = Inr identity" "pqr = additional_pqr_key (px_additionalDerivedBytes res)"
    and cA: "createInitiatorSession
       \<lparr>is_localAddress = bi_localAddress inp, is_remoteAddress = bi_remoteAddress inp,
        is_identityKeyPair = ?alice, is_remoteIdentity = pb_identity ?theirs,
        is_remoteRegistrationId = pb_registrationId ?theirs, is_recipientIdentityType = bi_recipientIdentityType inp,
        is_ephemeralKeyPair = px_ephemeralKeyPair res, is_remoteSignedPreKey = EcPublicPreKey.truncate sp,
        is_rootKey = rk, is_sendingChainKey = cks,
        is_receivingChainKey = additional_chain_key (px_additionalDerivedBytes res),
        is_usedOneTimePreKeyId = map_option pp_keyId (pb_ecOneTimePreKey ?theirs),
        is_usedKyberPreKeyId = px_usedKyberPreKeyId res, is_kyberCiphertext = px_kyberCiphertext res,
        is_usedKemOneTimePreKeyId = px_usedKemOneTimePreKeyId res,
        is_kemOneTimePreKeyCiphertext = px_kemOneTimePreKeyCiphertext res\<rparr> now = Inr A"
    by (rule buildInitiatorSession_Inr [OF built])
  let ?e = "px_ephemeralKeyPair res"
  have eph: "validateX25519KeyPair p (publicKey ?e) (privateKey ?e) = Inr ()" and ephOk: "valid_ratchet_key (publicKey ?e)"
  proof -
    from r(1) show v: "validateX25519KeyPair p (publicKey ?e) (privateKey ?e) = Inr ()"
      by (rule performPQXDH_Inr) (rule generate_pair)
    then show "valid_ratchet_key (publicKey ?e)"
      using laws(2) canonical_length unfolding validate_pair_iff valid_ratchet_key_def dh_canonical_def by blast
  qed
  have spk: "pp_publicKey sp = es_publicKey spk" "pp_keyId sp = int (es_keyId spk)"
    and opk: "map_option nat (map_option pp_keyId (pb_ecOneTimePreKey ?theirs)) = map_option eo_keyId opk"
    using keys(1) r(3) by (cases opk; cases "pb_ecOneTimePreKey ?theirs"; auto simp: publishes_def)+
  have A: "DHs A = Some ?e" "DHr A = Some (es_publicKey spk)" "RK A = bytesToBase64 rk" "CKs A = Some (bytesToBase64 cks)"
    "baseKey A = publicKey ?e" "usedSignedPreKeyId A = Some (es_keyId spk)" "usedOneTimePreKeyId A = map_option eo_keyId opk"
    "usedKyberPreKeyId A = map_option nat (px_usedKyberPreKeyId res)" "kyberCiphertext A = truthy (px_kyberCiphertext res)"
    "usedKemOneTimePreKeyId A = map_option nat (px_usedKemOneTimePreKeyId res)"
    "kemOneTimePreKeyCiphertext A = truthy (px_kemOneTimePreKeyCiphertext res)"
    "localIdentity A = identity" "remoteIdentity A = pb_identity ?theirs"
    using cA r(6) spk opk by (auto simp: createInitiatorSession_def EcPublicPreKey.truncate_def)
  have alice_id: "identity = \<lparr>ci_version = 1, x25519PublicKey = ik_publicKey (dhKey ?alice), ed25519PublicKey = ik_publicKey (signingKey ?alice)\<rparr>"
    using createCompositeIdentityV1_Inr [OF r(6)] by simp
  have bob_valid: "valid_identity (pb_identity ?theirs)" using r(2) by (simp add: bundle_accepted)
  then have bob_id: "createCompositeIdentityV1 bob = Inr (pb_identity ?theirs)"
    using keys(1) valid_identity_version [OF bob_valid]
    by (cases "pb_identity ?theirs") (auto simp: createCompositeIdentityV1_def publishes_def Let_def and_then_eq_Inr encode_eq_Inr)
  note input = announced_input [OF r(1) keys(1) _ A(5-11) m, of "ik_publicKey (signingKey ?alice)"]
  have agree: "performPQXDHResponder p bob spk opk (if kem = None then kyber else None) kem (responder_input ?alice res)
      (resolveKeyExchangeInfoStrings (bi_keyExchangeInfoString inp)) = Inr (px_sharedSecret res, px_additionalDerivedBytes res)"
    by (rule pqxdh_agree_lemma [OF laws(1-3) r(1) keys alice])
  then have key: "performResponderKeyAgreement p bob spk opk (if kem = None then kyber else None) kem m
      (x25519PublicKey (pm_senderIdentity m)) (pm_senderEphemeralKey m) (bi_keyExchangeInfoString inp) =
      Inr (px_sharedSecret res, px_additionalDerivedBytes res)"
    unfolding responder_agreement_iff using input alice_id A(12) pqxdh_ciphertexts [OF r(1)] by auto
  let ?b = "\<lparr>publicKey = es_publicKey spk, privateKey = es_privateKey spk\<rparr>"
  obtain B :: "'q SessionState" where built': "buildResponderSession p \<lparr>br_localAddress = here, br_remoteAddress = there, br_identityKeyPair = bob,
      br_prekeyMessage = m, br_ecSignedPreKey = spk, br_ecOneTimePreKey = opk, br_kemLastResortPreKey = if kem = None then kyber else None,
      br_kemOneTimePreKey = kem, br_keyExchangeInfoString = bi_keyExchangeInfoString inp\<rparr> now' = Inr (B, pqr)"
    and B: "baseKey B = pm_senderEphemeralKey m" "localAddress B = here" "remoteAddress B = there" "localIdentity B = pb_identity ?theirs"
      "remoteIdentity B = pm_senderIdentity m" "identityKeyPair B = bob" "DHs B = Some ?b" "RK B = bytesToBase64 (px_sharedSecret res)"
    using key bob_id r(7) by (simp add: buildResponderSession_def createResponderSession_def)
  have own: "validateX25519KeyPair p (publicKey ?b) (privateKey ?b) = Inr ()" using keys(2) by (simp add: own_pairs_def)
  have comm: "?dh (privateKey ?b) (publicKey ?e) = ?dh (privateKey ?e) (publicKey ?b)"
    by (rule shared_secret_commutes [OF laws(1,2) own eph])
  have ahead: "one_step_ahead (p_hmac p) ?dh A B ?e ?b"
    using A(1-4) B(7,8) r(4,5) spk by (auto simp: one_step_ahead_def)
  have "\<exists>B'. performDHRatchetStep (p_hmac p) ?dh fresh B (publicKey ?e) = Inr B' \<and> CKr B' = CKs A"
    if "?dh (privateKey fresh) (publicKey ?e) = Inr s" for fresh s
    using ratchet_turn [where hmac = "p_hmac p", OF laws(4) ahead comm that ephOk] by blast
  then show ?thesis using built' B A(5,12,13) m ahead unfolding announces_def by metis
qed

text \<open>
  C5. The two builders agree. A session that the initiator built from a bundle of the responder's keys, and
  the session that the responder builds from the message that announces it, have the same base key, the
  identities of each other and the same key for the post-quantum ratchet. The initiator is one
  Diffie-Hellman step ahead: the first step of the responder, with whatever fresh pair, reaches the
  sending chain of the initiator.
\<close>

theorem sessions_established:
  fixes A :: "'q SessionState"
  assumes laws: "dh_commutes p" "dh_canonical p" "kem_correct p" "\<And>k d. length (p_hmac p k d) = 32"
    and built: "buildInitiatorSession p inp now keyRandom kemRandom = Inr (A, pqr)"
    and keys: "publishes (bi_prekeyBundle inp) bob spk opk kyber kem" "own_pairs p bob spk opk kyber kem"
    and alice: "validateX25519KeyPair p (ik_publicKey (dhKey (bi_identityKeyPair inp))) (ik_privateKey (dhKey (bi_identityKeyPair inp))) = Inr ()"
    and m: "announces m A"
  shows "\<exists>B :: 'q SessionState. buildResponderSession p \<lparr>br_localAddress = here, br_remoteAddress = there, br_identityKeyPair = bob,
      br_prekeyMessage = m, br_ecSignedPreKey = spk, br_ecOneTimePreKey = opk, br_kemLastResortPreKey = if kem = None then kyber else None,
      br_kemOneTimePreKey = kem, br_keyExchangeInfoString = bi_keyExchangeInfoString inp\<rparr> now' = Inr (B, pqr) \<and>
    baseKey B = baseKey A \<and> localAddress B = here \<and> remoteAddress B = there \<and>
    localIdentity B = remoteIdentity A \<and> remoteIdentity B = localIdentity A \<and> identityKeyPair B = bob \<and>
    (\<exists>a b. one_step_ahead (p_hmac p) (x25519_computeSharedSecret p) A B a b \<and> publicKey a = baseKey A \<and>
      (\<forall>fresh s. x25519_computeSharedSecret p (privateKey fresh) (publicKey a) = Inr s \<longrightarrow>
        (\<exists>B'. performDHRatchetStep (p_hmac p) (x25519_computeSharedSecret p) fresh B (publicKey a) = Inr B' \<and> CKr B' = CKs A)))"
  by (rule established [OF laws built keys alice m])

text \<open>
  C7. No session is started without a verified post-quantum prekey: when the builder returns a session, the
  bundle was valid, the signature of its signed prekey verifies under the identity that the session
  records, and so does the signature of the KEM prekey that was used, which is the one-time prekey
  whenever the bundle has one. The session names exactly this key.
\<close>

theorem session_requires_signed_kem:
  fixes A :: "'q SessionState"
  assumes "buildInitiatorSession p inp now keyRandom kemRandom = Inr (A, pqr)"
  shows "\<exists>spk kem. validatePreKeyBundle p (bi_prekeyBundle inp) = Inr () \<and> remoteIdentity A = pb_identity (bi_prekeyBundle inp) \<and>
    pb_ecSignedPreKey (bi_prekeyBundle inp) = Some spk \<and> DHr A = Some (pp_publicKey spk) \<and>
    verifyPreKeySignature_base64 p (remoteIdentity A) PREKEY_ALGORITHM_X25519 (pp_keyId spk) (pp_publicKey spk) (pp_signature spk) = Inr True \<and>
    verifyPreKeySignature_base64 p (remoteIdentity A) PREKEY_ALGORITHM_ML_KEM_1024 (pp_keyId kem) (pp_publicKey kem) (pp_signature kem) = Inr True \<and>
    (case pb_kemOneTimePreKey (bi_prekeyBundle inp) of
       Some k \<Rightarrow> kem = k \<and> usedKemOneTimePreKeyId A = Some (nat (pp_keyId k)) \<and> kemOneTimePreKeyCiphertext A \<noteq> None \<and>
         usedKyberPreKeyId A = None \<and> kyberCiphertext A = None
     | None \<Rightarrow> pb_kemLastResortPreKey (bi_prekeyBundle inp) = Some kem \<and> usedKyberPreKeyId A = Some (nat (pp_keyId kem)) \<and>
         kyberCiphertext A \<noteq> None \<and> usedKemOneTimePreKeyId A = None \<and> kemOneTimePreKeyCiphertext A = None)"
proof -
  let ?theirs = "bi_prekeyBundle inp" and ?alice = "bi_identityKeyPair inp"
  obtain res sp rk cks identity where
    r: "performPQXDH p ?alice ?theirs (resolveKeyExchangeInfoStrings (bi_keyExchangeInfoString inp)) keyRandom kemRandom = Inr res"
    "validatePreKeyBundle p ?theirs = Inr ()" "pb_ecSignedPreKey ?theirs = Some sp"
    and cA: "createInitiatorSession
       \<lparr>is_localAddress = bi_localAddress inp, is_remoteAddress = bi_remoteAddress inp,
        is_identityKeyPair = ?alice, is_remoteIdentity = pb_identity ?theirs,
        is_remoteRegistrationId = pb_registrationId ?theirs, is_recipientIdentityType = bi_recipientIdentityType inp,
        is_ephemeralKeyPair = px_ephemeralKeyPair res, is_remoteSignedPreKey = EcPublicPreKey.truncate sp,
        is_rootKey = rk, is_sendingChainKey = cks,
        is_receivingChainKey = additional_chain_key (px_additionalDerivedBytes res),
        is_usedOneTimePreKeyId = map_option pp_keyId (pb_ecOneTimePreKey ?theirs),
        is_usedKyberPreKeyId = px_usedKyberPreKeyId res, is_kyberCiphertext = px_kyberCiphertext res,
        is_usedKemOneTimePreKeyId = px_usedKemOneTimePreKeyId res,
        is_kemOneTimePreKeyCiphertext = px_kemOneTimePreKeyCiphertext res\<rparr> now = Inr A"
    by (rule buildInitiatorSession_Inr [OF assms])
  have A: "remoteIdentity A = pb_identity ?theirs" "DHr A = Some (pp_publicKey sp)"
    "usedKyberPreKeyId A = map_option nat (px_usedKyberPreKeyId res)" "kyberCiphertext A = px_kyberCiphertext res"
    "usedKemOneTimePreKeyId A = map_option nat (px_usedKemOneTimePreKeyId res)"
    "kemOneTimePreKeyCiphertext A = px_kemOneTimePreKeyCiphertext res"
    using cA pqxdh_ciphertexts [OF r(1)]
    by (auto simp: createInitiatorSession_def and_then_eq_Inr EcPublicPreKey.truncate_def truthy_def falsy_def split: option.splits)
  from r(1) obtain sp' kem ss ct where
    k: "pb_ecSignedPreKey ?theirs = Some sp'" "encapsulate_signed p (pb_identity ?theirs) kem kemRandom = Inr (ss, ct)"
    "verifyPreKeySignature_base64 p (pb_identity ?theirs) PREKEY_ALGORITHM_X25519 (pp_keyId sp') (pp_publicKey sp') (pp_signature sp') = Inr True"
    and mode: "pb_kemOneTimePreKey ?theirs = Some kem \<and> px_kyberCiphertext res = None \<and> px_usedKyberPreKeyId res = None \<and>
       px_kemOneTimePreKeyCiphertext res = Some (bytesToBase64 ct) \<and> px_usedKemOneTimePreKeyId res = Some (pp_keyId kem) \<or>
     pb_kemOneTimePreKey ?theirs = None \<and> pb_kemLastResortPreKey ?theirs = Some kem \<and>
       px_kyberCiphertext res = Some (bytesToBase64 ct) \<and> px_usedKyberPreKeyId res = Some (pp_keyId kem) \<and>
       px_kemOneTimePreKeyCiphertext res = None \<and> px_usedKemOneTimePreKeyId res = None"
    by (rule performPQXDH_Inr) metis
  have sig: "verifyPreKeySignature_base64 p (pb_identity ?theirs) PREKEY_ALGORITHM_ML_KEM_1024 (pp_keyId kem) (pp_publicKey kem)
      (pp_signature kem) = Inr True"
    using k(2) by (auto simp: encapsulate_signed_def and_then_eq_Inr verifyPreKeySignature_base64_def reject_signature_def)
  show ?thesis
    by (rule exI [of _ sp], rule exI [of _ kem]) (use r(2,3) k(1,3) sig mode A in auto)
qed

definition sample_inp :: SessionBuilderInitiatorInput where
  "sample_inp = \<lparr>bi_localAddress = sample_address 97 1, bi_remoteAddress = sample_address 98 1,
     bi_identityKeyPair = sample_identity_pair 10, bi_prekeyBundle = sample_bundle, bi_recipientIdentityType = Aci,
     bi_keyExchangeInfoString = None\<rparr>"

lemma sample_point: "point_text sample_primitives (sample_public n)"
proof -
  have "le_number (replicate 31 n @ [0]) < 256 ^ 31"
    using le_number_bound [of "replicate 31 n"] by (simp add: le_number_append del: replicate.simps)
  then show ?thesis
    unfolding point_text_def sample_public_def
    by (intro exI [of _ "replicate 31 n @ [0]"]) (simp add: sample_primitives_def del: replicate.simps)
qed

lemma sample_pair_identity:
  "valid_identity \<lparr>ci_version = 1, x25519PublicKey = sample_public m, ed25519PublicKey = sample_public n\<rparr>"
  unfolding valid_identity_def identity_of_def sample_public_def by (intro exI conjI refl) simp_all

lemma sample_bundle_valid: "validatePreKeyBundle sample_primitives sample_bundle = Inr ()"
proof -
  have "signature_text sample_signature" unfolding signature_text_def sample_signature_def by (auto simp: zeros_def)
  moreover have "\<exists>raw. bytesToBase64 (0x0A # zeros 1568) = bytesToBase64 (0x0A # raw) \<and> length raw = 1568" by (auto simp: zeros_def)
  ultimately show ?thesis
    using sample_pair_identity [of 20 21]
    unfolding bundle_accepted by (simp add: sample_bundle_def sample_point key_id_def kem_prekey_ok_def)
qed

lemma sample_session:
  "\<exists>A pqr. buildInitiatorSession sample_primitives sample_inp now (replicate 32 30) (replicate 32 40) = Inr (A :: unit SessionState, pqr)"
proof -
  obtain res where res: "performPQXDH sample_primitives (sample_identity_pair 10) sample_bundle PQXDH_INFO_DEFAULT (replicate 32 30) (replicate 32 40) = Inr res"
    using sample_agreement by blast
  then have "generateECDHKeyPair sample_primitives (replicate 32 30) = Inr (px_ephemeralKeyPair res)" by (rule performPQXDH_Inr)
  then have eph: "px_ephemeralKeyPair res = \<lparr>publicKey = sample_public 30, privateKey = sample_private 30\<rparr>"
    using sample_generate [of 30] by simp
  obtain rk ck where "kdfRootKey (p_hmac sample_primitives) (px_sharedSecret res) (replicate 31 80 @ [1]) = Inr (rk, ck)"
    using kdfRootKey_ok [where hmac = "p_hmac sample_primitives", OF sample_primitives_laws(5)] by blast
  then show ?thesis
    using res eph sample_shared [of 30 50] sample_bundle_valid sample_pair_identity [of 10 11]
    by (simp add: buildInitiatorSession_def performKeyAgreement_def sample_inp_def resolveKeyExchangeInfoStrings_def pqxdh_failed_def
        bundleHasAnyKemMaterial_def required_def createInitiatorSession_def createCompositeIdentityV1_def sample_identity_pair_def
        sample_bundle_def Let_def del: replicate.simps)
qed

theorem session_requires_signed_kem_witness:
  "\<exists>A :: unit SessionState. kyberCiphertext A \<noteq> None \<and> verifyPreKeySignature_base64 sample_primitives (remoteIdentity A)
     PREKEY_ALGORITHM_ML_KEM_1024 9 (bytesToBase64 (0x0A # zeros 1568)) sample_signature = Inr True"
proof -
  obtain A :: "unit SessionState" and pqr where
    A: "buildInitiatorSession sample_primitives sample_inp 0 (replicate 32 30) (replicate 32 40) = Inr (A, pqr)"
    using sample_session by blast
  from session_requires_signed_kem [OF A] show ?thesis
    by (intro exI [of _ A]) (auto simp: sample_inp_def sample_bundle_def)
qed

text \<open>The message that announces a session of the initiator.\<close>

definition announcement :: "'q SessionState \<Rightarrow> PreKeyMessage" where
  "announcement A = RatchetMessage.extend
     \<lparr>rm_ratchetKey = [], rm_counter = 0, rm_previousCounter = 0, rm_ciphertext = [], rm_mac = []\<rparr>
     (PreKeyMessage.fields (userId (localAddress A)) (deviceId (localAddress A)) (localIdentity A) (baseKey A)
        (int (localRegistrationId A)) (the (recipientIdentityType A)) (int (the (usedSignedPreKeyId A)))
        (map_option int (usedOneTimePreKeyId A)) (map_option int (usedKyberPreKeyId A)) (kyberCiphertext A)
        (map_option int (usedKemOneTimePreKeyId A)) (kemOneTimePreKeyCiphertext A))"

lemma announcement_announces:
  "recipientIdentityType A \<noteq> None \<Longrightarrow> usedSignedPreKeyId A \<noteq> None \<Longrightarrow> announces (announcement A) A"
  by (auto simp: announcement_def announces_def RatchetMessage.defs PreKeyMessage.defs)

lemma sample_published:
  "publishes sample_bundle (sample_identity_pair 20) sample_spk None (Some sample_kyber) None"
  "own_pairs sample_primitives (sample_identity_pair 20) sample_spk None (Some sample_kyber) None"
proof -
  have "kem_pair sample_primitives (ky_publicKey sample_kyber) (ky_privateKey sample_kyber)"
    by (auto simp: kem_pair_def sample_kyber_def sample_primitives_def ML_KEM_1024_ALGORITHM_TAG_def)
  then show "own_pairs sample_primitives (sample_identity_pair 20) sample_spk None (Some sample_kyber) None"
    by (simp add: own_pairs_def sample_identity_pair_def sample_spk_def sample_validate)
qed (simp add: publishes_def sample_bundle_def sample_identity_pair_def sample_spk_def sample_kyber_def)

theorem sessions_established_witness:
  "\<exists>(A :: unit SessionState) (B :: unit SessionState) a b. one_step_ahead sample_hmac (x25519_computeSharedSecret sample_primitives) A B a b \<and>
     localIdentity B = remoteIdentity A"
proof -
  obtain A :: "unit SessionState" and pqr where
    A: "buildInitiatorSession sample_primitives sample_inp 0 (replicate 32 30) (replicate 32 40) = Inr (A, pqr)"
    using sample_session by blast
  then have "announces (announcement A) A"
    by (intro announcement_announces) (auto simp: buildInitiatorSession_def createInitiatorSession_def and_then_eq_Inr Let_def)
  moreover have "validateX25519KeyPair sample_primitives (ik_publicKey (dhKey (bi_identityKeyPair sample_inp)))
      (ik_privateKey (dhKey (bi_identityKeyPair sample_inp))) = Inr ()"
    by (simp add: sample_inp_def sample_identity_pair_def sample_validate)
  moreover have "bi_prekeyBundle sample_inp = sample_bundle" "p_hmac sample_primitives = sample_hmac"
    by (simp_all add: sample_inp_def sample_primitives_def)
  ultimately show ?thesis
    using sessions_established [where p = sample_primitives and inp = sample_inp and now' = 0, OF sample_primitives_laws(1-3,5) A,
        of "sample_identity_pair 20" sample_spk None "Some sample_kyber" None "announcement A" "sample_address 98 1" "sample_address 97 1"]
      sample_published by simp blast
qed

end
