(* ===== verification/Key_Generation.thy ===== *)
theory Key_Generation
  imports Handshake
begin

text \<open>
  Generation of the keys of a device (keys/generation.ts). Random bytes and the clock are arguments: the
  \<open>i\<close>-th key of a batch takes \<open>random i\<close>.

  Shown here: the numbers are in the ranges that the peers accept; a bundle of freshly generated
  keys is accepted by every peer, and every peer can start a session from it.
\<close>

section \<open>Definitions\<close>

definition generateRegistrationId :: "bytes \<Rightarrow> nat" where
  "generateRegistrationId bytes =
     unat (push_bit 8 (ucast (bytes ! 0)) OR ucast (bytes ! 1) :: 32 word) mod 16383 + 1"

definition generateIdentityKeyPair :: "Primitives \<Rightarrow> bytes \<Rightarrow> bytes \<Rightarrow> bytes \<Rightarrow> IdentityKeyPair result" where
  "generateIdentityKeyPair p dhRandom signingRandom idRandom =
     and_then (generateECDHKeyPair p dhRandom) (\<lambda>dhKeyPair.
     and_then (generateSigningKeyPair p signingRandom) (\<lambda>signingKeyPair.
     Inr \<lparr>dhKey = \<lparr>ik_publicKey = publicKey dhKeyPair, ik_privateKey = privateKey dhKeyPair\<rparr>,
          signingKey = signingKeyPair, registrationId = generateRegistrationId idRandom\<rparr>))"

definition generateEcSignedPreKeyId :: "bytes \<Rightarrow> nat" where
  "generateEcSignedPreKeyId bytes =
     unat (push_bit 16 (ucast (bytes ! 0)) OR push_bit 8 (ucast (bytes ! 1)) OR ucast (bytes ! 2) :: 32 word) mod 1000000"

definition generateEcSignedPreKey ::
    "Primitives \<Rightarrow> IdentityKeyPair \<Rightarrow> nat option \<Rightarrow> bytes \<Rightarrow> bytes \<Rightarrow> int \<Rightarrow> EcSignedPreKey result" where
  "generateEcSignedPreKey p keyPair id_option keyRandom idRandom now =
     and_then (generateECDHKeyPair p keyRandom) (\<lambda>prekeyPair.
     let keyId = (case id_option of Some n \<Rightarrow> n | None \<Rightarrow> generateEcSignedPreKeyId idRandom) in
     and_then (base64ToBytes (publicKey prekeyPair)) (\<lambda>publicKeyBytes.
     and_then (signPreKey p keyPair PREKEY_ALGORITHM_X25519 (int keyId) publicKeyBytes) (\<lambda>signature.
     Inr \<lparr>es_keyId = keyId, es_publicKey = publicKey prekeyPair, es_privateKey = privateKey prekeyPair,
          es_signature = signature, es_timestamp = now\<rparr>)))"

definition generateEcOneTimePreKeys :: "Primitives \<Rightarrow> nat \<Rightarrow> nat \<Rightarrow> (nat \<Rightarrow> bytes) \<Rightarrow> EcOneTimePreKey list result" where
  "generateEcOneTimePreKeys p count startId random =
     map_result (\<lambda>i. and_then (generateECDHKeyPair p (random i)) (\<lambda>keyPair.
       Inr \<lparr>eo_keyId = startId + i, eo_publicKey = publicKey keyPair, eo_privateKey = privateKey keyPair\<rparr>)) [0..<count]"

definition generateKyberLastResortPreKey :: "Primitives \<Rightarrow> IdentityKeyPair \<Rightarrow> nat \<Rightarrow> bytes \<Rightarrow> int \<Rightarrow> KyberPreKey result" where
  "generateKyberLastResortPreKey p keyPair keyId random now =
     and_then (generateMlKem1024KeyPair p random) (\<lambda>(pub, priv).
     and_then (signPreKey p keyPair PREKEY_ALGORITHM_ML_KEM_1024 (int keyId) pub) (\<lambda>signature.
     Inr \<lparr>ky_keyId = keyId, ky_publicKey = bytesToBase64 pub, ky_privateKey = bytesToBase64 priv,
          ky_signature = signature, ky_timestamp = now\<rparr>))"

definition generateKemOneTimePreKeys ::
    "Primitives \<Rightarrow> IdentityKeyPair \<Rightarrow> nat \<Rightarrow> nat \<Rightarrow> (nat \<Rightarrow> bytes) \<Rightarrow> int \<Rightarrow> KemOneTimePreKey list result" where
  "generateKemOneTimePreKeys p keyPair count startId random now =
     map_result (\<lambda>i. and_then (generateMlKem1024KeyPair p (random i)) (\<lambda>(pub, priv).
       let keyId = startId + i in
       and_then (signPreKey p keyPair PREKEY_ALGORITHM_ML_KEM_1024 (int keyId) pub) (\<lambda>signature.
       Inr \<lparr>ko_keyId = keyId, ko_publicKey = bytesToBase64 pub, ko_privateKey = bytesToBase64 priv,
            ko_signature = signature, ko_timestamp = now\<rparr>))) [0..<count]"

section \<open>Freshly generated keys\<close>

text \<open>
  More promises of the libraries: X25519 is total on 32 bytes and its secrets for derived keys are
  not zero; ML-KEM-1024 is total with the sizes of FIPS 203; a signature verifies under its key.
\<close>

definition x25519_total :: "Primitives \<Rightarrow> bool" where
  "x25519_total p =
     ((\<forall>a. length a = 32 \<longrightarrow> (\<exists>A. x25519_getPublicKey p a = Inr A)) \<and>
      (\<forall>a A b B. x25519_getPublicKey p a = Inr A \<longrightarrow> x25519_getPublicKey p b = Inr B \<longrightarrow>
         (\<exists>s. x25519_getSharedSecret p a B = Inr s \<and> length s = 32 \<and> s \<noteq> zeros 32)))"

definition kem_total :: "Primitives \<Rightarrow> bool" where
  "kem_total p = (\<forall>seed pk sk. ml_kem1024_keygen p seed = (pk, sk) \<longrightarrow> length pk = 1568 \<and> length sk = 3168 \<and>
     (\<forall>random. length random = 32 \<longrightarrow> (\<exists>ss ct. ml_kem1024_encapsulate p pk random = Inr (ss, ct) \<and> length ss = 32 \<and> length ct = 1568)))"

definition signatures_verify :: "Primitives \<Rightarrow> bool" where
  "signatures_verify p = (\<forall>seed. length seed = 32 \<longrightarrow> (\<exists>pub. ed25519_getPublicKey p seed = Inr pub \<and> length pub = 32 \<and>
     (\<forall>data. \<exists>s. ed25519_sign p data seed = Inr s \<and> length s = 64 \<and> ed25519_verify p s data pub = Inr True)))"

text \<open>The bundle that a relay hands out for these keys.\<close>

definition bundle_of ::
    "int \<Rightarrow> IdentityKeyPair \<Rightarrow> EcSignedPreKey \<Rightarrow> EcOneTimePreKey option \<Rightarrow> KyberPreKey option \<Rightarrow> KemOneTimePreKey option \<Rightarrow> PreKeyBundle" where
  "bundle_of device bob spk opk kyber kem =
     \<lparr>pb_registrationId = int (registrationId bob), pb_deviceId = device,
      pb_identity = \<lparr>ci_version = 1, x25519PublicKey = ik_publicKey (dhKey bob), ed25519PublicKey = ik_publicKey (signingKey bob)\<rparr>,
      pb_ecSignedPreKey = Some \<lparr>pp_keyId = int (es_keyId spk), pp_publicKey = es_publicKey spk, pp_signature = es_signature spk\<rparr>,
      pb_ecOneTimePreKey = map_option (\<lambda>k. \<lparr>pp_keyId = int (eo_keyId k), pp_publicKey = eo_publicKey k\<rparr>) opk,
      pb_kemLastResortPreKey = map_option (\<lambda>k. \<lparr>pp_keyId = int (ky_keyId k), pp_publicKey = ky_publicKey k, pp_signature = ky_signature k\<rparr>) kyber,
      pb_kemOneTimePreKey = map_option (\<lambda>k. \<lparr>pp_keyId = int (ko_keyId k), pp_publicKey = ko_publicKey k, pp_signature = ko_signature k\<rparr>) kem\<rparr>"

lemma generated_pair_text:
  assumes "dh_canonical p" and "generateECDHKeyPair p random = Inr kp"
  shows "point_text p (publicKey kp)" "validateX25519KeyPair p (publicKey kp) (privateKey kp) = Inr ()"
    "\<exists>bs. publicKey kp = bytesToBase64 bs \<and> length bs = 32"
proof -
  from assms(2) obtain A where A: "x25519_getPublicKey p random = Inr A" "publicKey kp = bytesToBase64 A"
    by (auto simp: generateECDHKeyPair_def and_then_eq_Inr Let_def)
  then have "isCanonicalX25519Point p A" using assms(1) by (auto simp: dh_canonical_def)
  with A(2) show "point_text p (publicKey kp)" "\<exists>bs. publicKey kp = bytesToBase64 bs \<and> length bs = 32"
    by (auto simp: point_text_def canonical_point_iff)
qed (rule generate_pair [OF assms(2)])

text \<open>An identity key pair that signs: its signing keys belong to each other.\<close>

definition signer :: "Primitives \<Rightarrow> IdentityKeyPair \<Rightarrow> bool" where
  "signer p kp = (valid_identity \<lparr>ci_version = 1, x25519PublicKey = ik_publicKey (dhKey kp), ed25519PublicKey = ik_publicKey (signingKey kp)\<rparr> \<and>
     (\<forall>data. \<exists>s. sign p (ik_privateKey (signingKey kp)) data = Inr (bytesToBase64 s) \<and> length s = 64 \<and>
        verify p (ik_publicKey (signingKey kp)) data (bytesToBase64 s)))"

lemma generated_signer:
  assumes "dh_canonical p" and "signatures_verify p" and "length signingRandom = 32"
    and "generateIdentityKeyPair p dhRandom signingRandom idRandom = Inr kp"
  shows "signer p kp" "validateX25519KeyPair p (ik_publicKey (dhKey kp)) (ik_privateKey (dhKey kp)) = Inr ()"
    "point_text p (ik_publicKey (dhKey kp))" "1 \<le> registrationId kp \<and> registrationId kp \<le> 16383"
proof -
  from assms(4) obtain d sp where d: "generateECDHKeyPair p dhRandom = Inr d" and sp: "ed25519_getPublicKey p signingRandom = Inr sp"
    and kp: "kp = \<lparr>dhKey = \<lparr>ik_publicKey = publicKey d, ik_privateKey = privateKey d\<rparr>,
       signingKey = \<lparr>ik_publicKey = bytesToBase64 sp, ik_privateKey = bytesToBase64 signingRandom\<rparr>, registrationId = generateRegistrationId idRandom\<rparr>"
    by (auto simp: generateIdentityKeyPair_def generateSigningKeyPair_def and_then_eq_Inr)
  obtain bs where bs: "publicKey d = bytesToBase64 bs" "length bs = 32" using generated_pair_text(3) [OF assms(1) d] by blast
  have sp_ok: "length sp = 32" "\<forall>data. \<exists>s. ed25519_sign p data signingRandom = Inr s \<and> length s = 64 \<and> ed25519_verify p s data sp = Inr True"
    using assms(2,3) sp by (auto simp: signatures_verify_def)
  have "valid_identity \<lparr>ci_version = 1, x25519PublicKey = publicKey d, ed25519PublicKey = bytesToBase64 sp\<rparr>"
    unfolding valid_identity_def identity_of_def using bs sp_ok(1) by blast
  moreover have "\<exists>s. sign p (bytesToBase64 signingRandom) data = Inr (bytesToBase64 s) \<and> length s = 64 \<and> verify p (bytesToBase64 sp) data (bytesToBase64 s)"
    for data
  proof -
    obtain s where "ed25519_sign p data signingRandom = Inr s" "length s = 64" "ed25519_verify p s data sp = Inr True" using sp_ok(2) by blast
    then show ?thesis by (auto simp: sign_def verify_def)
  qed
  ultimately show "signer p kp" by (simp add: signer_def kp)
  show "validateX25519KeyPair p (ik_publicKey (dhKey kp)) (ik_privateKey (dhKey kp)) = Inr ()" "point_text p (ik_publicKey (dhKey kp))"
    using generated_pair_text [OF assms(1) d] by (simp_all add: kp)
  show "1 \<le> registrationId kp \<and> registrationId kp \<le> 16383"
    using mod_less_divisor [of 16383] by (simp add: kp generateRegistrationId_def less_Suc_eq_le [symmetric] Suc_le_eq)
qed

text \<open>A prekey that a signer signed verifies in its context, and the signature has the right form.\<close>

lemma signed_prekey_verifies:
  assumes "signer p kp" and "signPreKey p kp tag keyId key = Inr signature"
  shows "verifyPreKeySignature p \<lparr>ci_version = 1, x25519PublicKey = ik_publicKey (dhKey kp), ed25519PublicKey = ik_publicKey (signingKey kp)\<rparr>
      tag keyId key signature = Inr True" "signature_text signature"
proof -
  let ?i = "\<lparr>ci_version = 1, x25519PublicKey = ik_publicKey (dhKey kp), ed25519PublicKey = ik_publicKey (signingKey kp)\<rparr>"
  from assms(2) obtain cx where cx: "createPreKeySignatureContext (p_sha256 p) ?i tag keyId key = Inr cx"
    and s: "sign p (ik_privateKey (signingKey kp)) cx = Inr signature"
    by (auto simp: signPreKey_def and_then_eq_Inr Let_def)
  from assms(1) obtain b where "sign p (ik_privateKey (signingKey kp)) cx = Inr (bytesToBase64 b)" "length b = 64"
    "verify p (ik_publicKey (signingKey kp)) cx (bytesToBase64 b)" by (auto simp: signer_def)
  with s cx show "verifyPreKeySignature p ?i tag keyId key signature = Inr True" "signature_text signature"
    by (auto simp: verifyPreKeySignature_def signature_text_def)
qed

text \<open>What one needs to know of the public half of a signed prekey.\<close>

definition good_kem :: "Primitives \<Rightarrow> IdentityKeyPair \<Rightarrow> int \<Rightarrow> Base64 \<Rightarrow> Base64 \<Rightarrow> Base64 \<Rightarrow> bool" where
  "good_kem p kp keyId pub priv signature =
     (kem_pair p pub priv \<and> signature_text signature \<and> (\<exists>raw. pub = bytesToBase64 (0x0A # raw) \<and> length raw = 1568 \<and>
        verifyPreKeySignature p \<lparr>ci_version = 1, x25519PublicKey = ik_publicKey (dhKey kp), ed25519PublicKey = ik_publicKey (signingKey kp)\<rparr>
          PREKEY_ALGORITHM_ML_KEM_1024 keyId (0x0A # raw) signature = Inr True))"

lemma generated_kem:
  assumes "kem_total p" and "signer p kp" and "generateMlKem1024KeyPair p random = Inr (pub, priv)"
    and "signPreKey p kp PREKEY_ALGORITHM_ML_KEM_1024 keyId pub = Inr signature"
  shows "good_kem p kp keyId (bytesToBase64 pub) (bytesToBase64 priv) signature"
proof -
  from assms(3) obtain pk where pk: "ml_kem1024_keygen p random = (pk, priv)" "pub = 0x0A # pk" "length pk = 1568"
    by (auto simp: generateMlKem1024KeyPair_def and_then_eq_Inr serializeMlKem1024PublicKey_def ML_KEM_1024_ALGORITHM_TAG_def
        ML_KEM_1024_RAW_PUBLIC_KEY_BYTES_def split: prod.splits if_splits)
  then have "kem_pair p (bytesToBase64 pub) (bytesToBase64 priv)"
    by (auto simp: kem_pair_def ML_KEM_1024_ALGORITHM_TAG_def)
  with pk signed_prekey_verifies [OF assms(2,4)] show ?thesis by (auto simp: good_kem_def)
qed

lemma generated_one_time:
  assumes "generateEcOneTimePreKeys p count startId random = Inr ks" and "k \<in> set ks" and "dh_canonical p"
  shows "point_text p (eo_publicKey k)" "validateX25519KeyPair p (eo_publicKey k) (eo_privateKey k) = Inr ()" "startId + count \<le> m \<Longrightarrow> eo_keyId k < m"
proof -
  obtain i kp where "i < count" "generateECDHKeyPair p (random i) = Inr kp"
    and k: "k = \<lparr>eo_keyId = startId + i, eo_publicKey = publicKey kp, eo_privateKey = privateKey kp\<rparr>"
    using map_result_mem [OF assms(1,2) [unfolded generateEcOneTimePreKeys_def]] by (auto simp: and_then_eq_Inr)
  with generated_pair_text [OF assms(3)] show "point_text p (eo_publicKey k)"
    "validateX25519KeyPair p (eo_publicKey k) (eo_privateKey k) = Inr ()" "startId + count \<le> m \<Longrightarrow> eo_keyId k < m" by auto
qed

lemma generated_kem_one_time:
  assumes "generateKemOneTimePreKeys p kp count startId random now = Inr ks" and "k \<in> set ks" and "kem_total p" and "signer p kp"
  shows "good_kem p kp (int (ko_keyId k)) (ko_publicKey k) (ko_privateKey k) (ko_signature k)" "startId + count \<le> m \<Longrightarrow> ko_keyId k < m"
proof -
  obtain i pub priv signature where i: "i < count" "generateMlKem1024KeyPair p (random i) = Inr (pub, priv)"
    "signPreKey p kp PREKEY_ALGORITHM_ML_KEM_1024 (int (startId + i)) pub = Inr signature"
    and k: "k = \<lparr>ko_keyId = startId + i, ko_publicKey = bytesToBase64 pub, ko_privateKey = bytesToBase64 priv,
       ko_signature = signature, ko_timestamp = now\<rparr>"
    using map_result_mem [OF assms(1,2) [unfolded generateKemOneTimePreKeys_def]] by (auto simp: and_then_eq_Inr Let_def)
  with generated_kem [OF assms(3,4) i(2,3)] show "good_kem p kp (int (ko_keyId k)) (ko_publicKey k) (ko_privateKey k) (ko_signature k)"
    "startId + count \<le> m \<Longrightarrow> ko_keyId k < m" by simp_all
qed

lemma generated_last_resort:
  assumes "generateKyberLastResortPreKey p kp n random now = Inr k" and "kem_total p" and "signer p kp"
  shows "good_kem p kp (int (ky_keyId k)) (ky_publicKey k) (ky_privateKey k) (ky_signature k)" "ky_keyId k = n"
  using assms(1) generated_kem [OF assms(2,3)]
  by (auto simp: generateKyberLastResortPreKey_def and_then_eq_Inr split: prod.splits)

lemma generated_ec_signed:
  assumes "generateEcSignedPreKey p kp None keyRandom idRandom now = Inr k" and "dh_canonical p" and "signer p kp"
  shows "point_text p (es_publicKey k)" "validateX25519KeyPair p (es_publicKey k) (es_privateKey k) = Inr ()" "es_keyId k < 1000000"
    "signature_text (es_signature k)"
    "verifyPreKeySignature_base64 p \<lparr>ci_version = 1, x25519PublicKey = ik_publicKey (dhKey kp), ed25519PublicKey = ik_publicKey (signingKey kp)\<rparr>
       PREKEY_ALGORITHM_X25519 (int (es_keyId k)) (es_publicKey k) (es_signature k) = Inr True"
proof -
  from assms(1) obtain pair bs where r: "generateECDHKeyPair p keyRandom = Inr pair" "base64ToBytes (publicKey pair) = Inr bs"
    "signPreKey p kp PREKEY_ALGORITHM_X25519 (int (generateEcSignedPreKeyId idRandom)) bs = Inr (es_signature k)"
    and k: "es_keyId k = generateEcSignedPreKeyId idRandom" "es_publicKey k = publicKey pair" "es_privateKey k = privateKey pair"
    by (auto simp: generateEcSignedPreKey_def and_then_eq_Inr Let_def)
  show "point_text p (es_publicKey k)" "validateX25519KeyPair p (es_publicKey k) (es_privateKey k) = Inr ()"
    using generated_pair_text [OF assms(2) r(1)] k by simp_all
  show "es_keyId k < 1000000" by (simp add: k generateEcSignedPreKeyId_def)
  show "signature_text (es_signature k)"
    "verifyPreKeySignature_base64 p \<lparr>ci_version = 1, x25519PublicKey = ik_publicKey (dhKey kp), ed25519PublicKey = ik_publicKey (signingKey kp)\<rparr>
       PREKEY_ALGORITHM_X25519 (int (es_keyId k)) (es_publicKey k) (es_signature k) = Inr True"
    using signed_prekey_verifies [OF assms(3) r(3)] r(2) k by (simp_all add: verifyPreKeySignature_base64_def)
qed

text \<open>The keys of a device: generated, with IDs that fit. The last-resort key is optional beside a one-time one.\<close>

definition fresh_device ::
    "Primitives \<Rightarrow> IdentityKeyPair \<Rightarrow> EcSignedPreKey \<Rightarrow> EcOneTimePreKey option \<Rightarrow> KyberPreKey option \<Rightarrow> KemOneTimePreKey option \<Rightarrow> bool" where
  "fresh_device p bob spk opk kyber kem =
     ((\<exists>d s i. length s = 32 \<and> generateIdentityKeyPair p d s i = Inr bob) \<and>
      (\<exists>r i now. generateEcSignedPreKey p bob None r i now = Inr spk) \<and>
      (\<forall>k \<in> set_option opk. \<exists>n start random ks. start + n \<le> 2 ^ 32 \<and> generateEcOneTimePreKeys p n start random = Inr ks \<and> k \<in> set ks) \<and>
      (\<forall>k \<in> set_option kyber. \<exists>n random now. n < 2 ^ 32 \<and> generateKyberLastResortPreKey p bob n random now = Inr k) \<and>
      (\<forall>k \<in> set_option kem. \<exists>n start random now ks. start + n \<le> 2 ^ 32 \<and> generateKemOneTimePreKeys p bob n start random now = Inr ks \<and> k \<in> set ks))"

lemma fresh_device_facts:
  assumes "fresh_device p bob spk opk kyber kem" and "dh_canonical p" and "signatures_verify p" and "kem_total p"
  shows "signer p bob" "validateX25519KeyPair p (ik_publicKey (dhKey bob)) (ik_privateKey (dhKey bob)) = Inr ()"
    "point_text p (ik_publicKey (dhKey bob))" "1 \<le> registrationId bob \<and> registrationId bob \<le> 16383"
    "point_text p (es_publicKey spk)" "validateX25519KeyPair p (es_publicKey spk) (es_privateKey spk) = Inr ()" "es_keyId spk < 1000000"
    "signature_text (es_signature spk)"
    "verifyPreKeySignature_base64 p \<lparr>ci_version = 1, x25519PublicKey = ik_publicKey (dhKey bob), ed25519PublicKey = ik_publicKey (signingKey bob)\<rparr>
       PREKEY_ALGORITHM_X25519 (int (es_keyId spk)) (es_publicKey spk) (es_signature spk) = Inr True"
    "pred_option (\<lambda>k. point_text p (eo_publicKey k) \<and> validateX25519KeyPair p (eo_publicKey k) (eo_privateKey k) = Inr () \<and> eo_keyId k < 2 ^ 32) opk"
    "pred_option (\<lambda>k. good_kem p bob (int (ky_keyId k)) (ky_publicKey k) (ky_privateKey k) (ky_signature k) \<and> ky_keyId k < 2 ^ 32) kyber"
    "pred_option (\<lambda>k. good_kem p bob (int (ko_keyId k)) (ko_publicKey k) (ko_privateKey k) (ko_signature k) \<and> ko_keyId k < 2 ^ 32) kem"
proof -
  from assms(1) obtain d s i where b: "length s = 32" "generateIdentityKeyPair p d s i = Inr bob" by (auto simp: fresh_device_def)
  note bob = generated_signer [OF assms(2,3) b]
  then show signs: "signer p bob" and "validateX25519KeyPair p (ik_publicKey (dhKey bob)) (ik_privateKey (dhKey bob)) = Inr ()"
    "point_text p (ik_publicKey (dhKey bob))" "1 \<le> registrationId bob \<and> registrationId bob \<le> 16383" by simp_all
  from assms(1) obtain r i now where "generateEcSignedPreKey p bob None r i now = Inr spk" by (auto simp: fresh_device_def)
  from generated_ec_signed [OF this assms(2) signs] show "point_text p (es_publicKey spk)"
    "validateX25519KeyPair p (es_publicKey spk) (es_privateKey spk) = Inr ()" "es_keyId spk < 1000000" "signature_text (es_signature spk)"
    "verifyPreKeySignature_base64 p \<lparr>ci_version = 1, x25519PublicKey = ik_publicKey (dhKey bob), ed25519PublicKey = ik_publicKey (signingKey bob)\<rparr>
       PREKEY_ALGORITHM_X25519 (int (es_keyId spk)) (es_publicKey spk) (es_signature spk) = Inr True" by simp_all
  show "pred_option (\<lambda>k. point_text p (eo_publicKey k) \<and> validateX25519KeyPair p (eo_publicKey k) (eo_privateKey k) = Inr () \<and> eo_keyId k < 2 ^ 32) opk"
    using assms(1) generated_one_time [OF _ _ assms(2)] by (cases opk) (auto simp: fresh_device_def)
  show "pred_option (\<lambda>k. good_kem p bob (int (ky_keyId k)) (ky_publicKey k) (ky_privateKey k) (ky_signature k) \<and> ky_keyId k < 2 ^ 32) kyber"
    using assms(1) generated_last_resort [OF _ assms(4) signs] by (cases kyber) (auto simp: fresh_device_def)
  show "pred_option (\<lambda>k. good_kem p bob (int (ko_keyId k)) (ko_publicKey k) (ko_privateKey k) (ko_signature k) \<and> ko_keyId k < 2 ^ 32) kem"
    using assms(1) generated_kem_one_time [OF _ _ assms(4) signs] by (cases kem) (auto simp: fresh_device_def)
qed

lemma fresh_publishes:
  assumes "fresh_device p bob spk opk kyber kem" and "dh_canonical p" and "signatures_verify p" and "kem_total p"
  shows "publishes (bundle_of device bob spk opk kyber kem) bob spk opk kyber kem" "own_pairs p bob spk opk kyber kem"
proof -
  note f = fresh_device_facts [OF assms]
  show "publishes (bundle_of device bob spk opk kyber kem) bob spk opk kyber kem"
    by (simp add: publishes_def bundle_of_def option.map_comp comp_def)
  show "own_pairs p bob spk opk kyber kem"
    using f(2,6,10,11,12) by (auto simp: own_pairs_def good_kem_def split: option.splits)
qed

lemma shared_secret_total:
  assumes "x25519_total p" and "dh_canonical p" and "validateX25519KeyPair p A a = Inr ()" and "validateX25519KeyPair p B b = Inr ()"
  shows "\<exists>s. x25519_computeSharedSecret p a B = Inr s \<and> length s = 32"
proof -
  obtain a' b' A' B' where k: "base64ToBytes a = Inr a'" "x25519_getPublicKey p a' = Inr A'"
    "x25519_getPublicKey p b' = Inr B'" "base64ToBytes B = Inr B'"
    using assms(3,4) unfolding validate_pair_iff by blast
  then have "length a' = 32" "length B' = 32" using assms(2) canonical_length unfolding dh_canonical_def by blast+
  moreover obtain s where "x25519_getSharedSecret p a' B' = Inr s" "length s = 32" "s \<noteq> zeros 32"
    using assms(1) k(2,3) unfolding x25519_total_def by blast
  ultimately show ?thesis using k(1,4) by (simp add: x25519_computeSharedSecret_def X25519_KEY_BYTES_def asECDHSharedSecret_def)
qed

lemma generate_total:
  assumes "x25519_total p" and "dh_canonical p" and "length random = 32"
  shows "\<exists>kp. generateECDHKeyPair p random = Inr kp"
proof -
  obtain A where "x25519_getPublicKey p random = Inr A" using assms(1,3) by (auto simp: x25519_total_def)
  then show ?thesis by (simp add: generateECDHKeyPair_def Let_def validateX25519KeyPair_def)
qed

lemma encapsulate_total:
  assumes "kem_total p" and "good_kem p kp keyId pub priv signature" and "length random = 32"
  shows "\<exists>ss ct. encapsulate_signed p \<lparr>ci_version = 1, x25519PublicKey = ik_publicKey (dhKey kp), ed25519PublicKey = ik_publicKey (signingKey kp)\<rparr>
    \<lparr>pp_keyId = keyId, pp_publicKey = pub, pp_signature = signature\<rparr> random = Inr (ss, ct)"
proof -
  from assms(2) obtain raw seed sk where raw: "pub = bytesToBase64 (0x0A # raw)" "length raw = 1568" "ml_kem1024_keygen p seed = (raw, sk)"
    "verifyPreKeySignature p \<lparr>ci_version = 1, x25519PublicKey = ik_publicKey (dhKey kp), ed25519PublicKey = ik_publicKey (signingKey kp)\<rparr>
          PREKEY_ALGORITHM_ML_KEM_1024 keyId (0x0A # raw) signature = Inr True"
    by (auto simp: good_kem_def kem_pair_def ML_KEM_1024_ALGORITHM_TAG_def)
  then obtain ss ct where "ml_kem1024_encapsulate p raw random = Inr (ss, ct)" "length ss = 32" "length ct = 1568"
    using assms(1,3) unfolding kem_total_def by blast
  with raw show ?thesis
    by (simp add: encapsulate_signed_def reject_signature_def mlKem1024Encapsulate_def asKyberSharedSecret_def serializeMlKem1024Ciphertext_def
        ML_KEM_1024_RAW_CIPHERTEXT_BYTES_def parseMlKem1024PublicKey_def ML_KEM_1024_PUBLIC_KEY_BYTES_def
        ML_KEM_1024_RAW_PUBLIC_KEY_BYTES_def ML_KEM_1024_ALGORITHM_TAG_def)
qed

lemma fresh_bundle_valid:
  assumes "fresh_device p bob spk opk kyber kem" and "dh_canonical p" and "signatures_verify p" and "kem_total p"
    and "1 \<le> device" and "device < 2 ^ 32"
  shows "validatePreKeyBundle p (bundle_of device bob spk opk kyber kem) = Inr ()"
proof -
  note f = fresh_device_facts [OF assms(1-4)]
  have "pred_option (\<lambda>k. key_id (pp_keyId k) \<and> point_text p (pp_publicKey k)) (pb_ecOneTimePreKey (bundle_of device bob spk opk kyber kem))"
    using f(10) by (cases opk) (auto simp: bundle_of_def key_id_def)
  moreover have "pred_option kem_prekey_ok (pb_kemLastResortPreKey (bundle_of device bob spk opk kyber kem))"
    using f(11) by (cases kyber) (auto simp: bundle_of_def kem_prekey_ok_def key_id_def good_kem_def)
  moreover have "pred_option kem_prekey_ok (pb_kemOneTimePreKey (bundle_of device bob spk opk kyber kem))"
    using f(12) by (cases kem) (auto simp: bundle_of_def kem_prekey_ok_def key_id_def good_kem_def)
  moreover have "valid_identity (pb_identity (bundle_of device bob spk opk kyber kem))"
    using f(1) by (simp add: bundle_of_def signer_def)
  ultimately show ?thesis
    unfolding bundle_accepted using f(3-5,7,8) assms(5,6) by (auto simp: bundle_of_def key_id_def)
qed

lemma fresh_agreement_total:
  assumes dev: "fresh_device p bob spk opk kyber kem" and laws: "dh_canonical p" "signatures_verify p" "kem_total p" "x25519_total p"
    "\<And>k d. length (p_hmac p k d) = 32"
    and alice: "validateX25519KeyPair p (ik_publicKey (dhKey alice)) (ik_privateKey (dhKey alice)) = Inr ()"
    and "kyber \<noteq> None \<or> kem \<noteq> None" and "length keyRandom = 32" and "length kemRandom = 32"
  shows "\<exists>res. performPQXDH p alice (bundle_of device bob spk opk kyber kem) info keyRandom kemRandom = Inr res"
proof -
  note f = fresh_device_facts [OF dev laws(1-3)]
  obtain e where e: "generateECDHKeyPair p keyRandom = Inr e" using generate_total [OF laws(4,1) assms(9)] by blast
  note eph = generate_pair [OF e]
  note total = shared_secret_total [OF laws(4,1)]
  obtain dh1 dh2 dh3 where dh: "x25519_computeSharedSecret p (ik_privateKey (dhKey alice)) (es_publicKey spk) = Inr dh1"
    "x25519_computeSharedSecret p (privateKey e) (ik_publicKey (dhKey bob)) = Inr dh2"
    "x25519_computeSharedSecret p (privateKey e) (es_publicKey spk) = Inr dh3"
    using total [OF alice f(6)] total [OF eph f(2)] total [OF eph f(6)] by blast
  have "\<exists>dh4. optional_dh p (privateKey e) (map_option eo_publicKey opk) = Inr dh4"
    using f(10) total [OF eph] by (cases opk) (force simp: optional_dh_def)+
  then obtain dh4 where dh4: "optional_dh p (privateKey e) (map_option eo_publicKey opk) = Inr dh4" ..
  have pub: "validateX25519PublicKey p (ik_publicKey (dhKey bob)) = Inr ()" "validateX25519PublicKey p (es_publicKey spk) = Inr ()"
    "(case opk of None \<Rightarrow> Inr () | Some k \<Rightarrow> validateX25519PublicKey p (eo_publicKey k)) = Inr ()"
    using validated_public [OF laws(1)] f(2,6,10) by (auto split: option.split)
  note start = performPQXDH_def bundle_of_def required_def reject_signature_def Let_def e dh dh4 pub f(9) option.map_comp comp_def
  show ?thesis
  proof (cases kem)
    case None
    then obtain k where k: "kyber = Some k" using assms(8) by auto
    with f(11) obtain ss ct where kk: "encapsulate_signed p \<lparr>ci_version = 1, x25519PublicKey = ik_publicKey (dhKey bob), ed25519PublicKey = ik_publicKey (signingKey bob)\<rparr>
        \<lparr>pp_keyId = int (ky_keyId k), pp_publicKey = ky_publicKey k, pp_signature = ky_signature k\<rparr> kemRandom = Inr (ss, ct)"
      using encapsulate_total [OF laws(3) _ assms(10)] by fastforce
    obtain s a where "derive_secrets p (concatPQXDHSecrets (dh_material dh1 dh2 dh3 dh4) ss) info = Inr (s, a)"
      using derive_secrets_ok [of p, OF laws(5)] by blast
    with None k kk show ?thesis by (cases opk) (use dh4 pub in \<open>simp_all add: start del: One_nat_def\<close>)
  next
    case (Some k)
    with f(12) obtain ss ct where kk: "encapsulate_signed p \<lparr>ci_version = 1, x25519PublicKey = ik_publicKey (dhKey bob), ed25519PublicKey = ik_publicKey (signingKey bob)\<rparr>
        \<lparr>pp_keyId = int (ko_keyId k), pp_publicKey = ko_publicKey k, pp_signature = ko_signature k\<rparr> kemRandom = Inr (ss, ct)"
      using encapsulate_total [OF laws(3) _ assms(10)] by fastforce
    obtain s a where "derive_secrets p (concatPQXDHSecrets (dh_material dh1 dh2 dh3 dh4) ss) info = Inr (s, a)"
      using derive_secrets_ok [of p, OF laws(5)] by blast
    with Some kk show ?thesis by (cases opk) (use dh4 pub in \<open>simp_all add: start del: One_nat_def\<close>)
  qed
qed

lemma fresh_session:
  assumes dev: "fresh_device p bob spk opk kyber kem" and laws: "dh_canonical p" "signatures_verify p" "kem_total p" "x25519_total p"
    "\<And>k d. length (p_hmac p k d) = 32"
    and alice: "length s = 32" "generateIdentityKeyPair p d s i = Inr (bi_identityKeyPair inp)"
    and some_kem: "kyber \<noteq> None \<or> kem \<noteq> None" and random: "length keyRandom = 32" "length kemRandom = 32"
    and pub: "bi_prekeyBundle inp = bundle_of device bob spk opk kyber kem" "1 \<le> device" "device < 2 ^ 32"
  shows "\<exists>(A :: 'q SessionState) pqr. buildInitiatorSession p inp now keyRandom kemRandom = Inr (A, pqr)"
proof -
  note f = fresh_device_facts [OF dev laws(1-3)]
  note al = generated_signer [OF laws(1,2) alice]
  let ?b = "bundle_of device bob spk opk kyber kem" and ?info = "resolveKeyExchangeInfoStrings (bi_keyExchangeInfoString inp)"
  obtain res where res: "performPQXDH p (bi_identityKeyPair inp) ?b ?info keyRandom kemRandom = Inr res"
    using fresh_agreement_total [OF dev laws al(2) some_kem random] by blast
  then have "generateECDHKeyPair p keyRandom = Inr (px_ephemeralKeyPair res)" by (rule performPQXDH_Inr)
  then obtain out where dh: "x25519_computeSharedSecret p (privateKey (px_ephemeralKeyPair res)) (es_publicKey spk) = Inr out"
    using shared_secret_total [OF laws(4,1) generate_pair f(6)] by blast
  obtain rk ck where kdf: "kdfRootKey (p_hmac p) (px_sharedSecret res) out = Inr (rk, ck)"
    using kdfRootKey_ok [where hmac = "p_hmac p", OF laws(5)] by blast
  have "\<exists>c. createCompositeIdentityV1 (bi_identityKeyPair inp) = Inr c"
    using al(1) by (auto simp: signer_def createCompositeIdentityV1_def Let_def and_then_eq_Inr encode_eq_Inr)
  moreover have "performKeyAgreement p (bi_identityKeyPair inp) ?b (bi_keyExchangeInfoString inp) keyRandom kemRandom = Inr res"
    using res fresh_bundle_valid [OF dev laws(1-3) pub(2,3)] some_kem
    by (auto simp: performKeyAgreement_def pqxdh_failed_def bundleHasAnyKemMaterial_def bundle_of_def)
  ultimately show ?thesis
    unfolding buildInitiatorSession_def using pub(1) dh kdf by (auto simp: required_def createInitiatorSession_def Let_def bundle_of_def)
qed

section \<open>Properties\<close>

text \<open>
  C6. A session can be started with every device whose keys were generated by this code: the bundle of these
  keys is valid, the initiator obtains a session, and the device that holds the private halves answers
  the announcement of this session with a matching one, one ratchet step behind, over the same
  post-quantum secret. This covers every choice of one-time keys, as long as one KEM prekey is there.
\<close>

theorem fresh_bundle_starts_session:
  assumes dev: "fresh_device p bob spk opk kyber kem"
    and laws: "dh_canonical p" "signatures_verify p" "kem_total p" "x25519_total p" "dh_commutes p" "kem_correct p"
      "\<And>k d. length (p_hmac p k d) = 32"
    and alice: "length s = 32" "generateIdentityKeyPair p d s i = Inr (bi_identityKeyPair inp)"
    and some_kem: "kyber \<noteq> None \<or> kem \<noteq> None" and random: "length keyRandom = 32" "length kemRandom = 32"
    and pub: "bi_prekeyBundle inp = bundle_of device bob spk opk kyber kem" "1 \<le> device" "device < 2 ^ 32"
  shows "validatePreKeyBundle p (bi_prekeyBundle inp) = Inr () \<and>
    (\<exists>(A :: 'q SessionState) pqr. buildInitiatorSession p inp now keyRandom kemRandom = Inr (A, pqr) \<and>
      (\<forall>m. announces m A \<longrightarrow> (\<exists>(B :: 'q SessionState) a b. buildResponderSession p \<lparr>br_localAddress = here, br_remoteAddress = there,
          br_identityKeyPair = bob, br_prekeyMessage = m, br_ecSignedPreKey = spk, br_ecOneTimePreKey = opk,
          br_kemLastResortPreKey = if kem = None then kyber else None, br_kemOneTimePreKey = kem,
          br_keyExchangeInfoString = bi_keyExchangeInfoString inp\<rparr> now' = Inr (B, pqr) \<and>
        one_step_ahead (p_hmac p) (x25519_computeSharedSecret p) A B a b)))"
proof -
  obtain A :: "'q SessionState" and pqr where A: "buildInitiatorSession p inp now keyRandom kemRandom = Inr (A, pqr)"
    using fresh_session [OF dev laws(1-4,7) alice some_kem random pub] by blast
  note keys = fresh_publishes(1) [OF dev laws(1-3), of device, folded pub(1)] fresh_publishes(2) [OF dev laws(1-3)]
  have "\<exists>(B :: 'q SessionState) a b. buildResponderSession p \<lparr>br_localAddress = here, br_remoteAddress = there,
          br_identityKeyPair = bob, br_prekeyMessage = m, br_ecSignedPreKey = spk, br_ecOneTimePreKey = opk,
          br_kemLastResortPreKey = if kem = None then kyber else None, br_kemOneTimePreKey = kem,
          br_keyExchangeInfoString = bi_keyExchangeInfoString inp\<rparr> now' = Inr (B, pqr) \<and>
        one_step_ahead (p_hmac p) (x25519_computeSharedSecret p) A B a b" if "announces m A" for m
    using established [OF laws(5,1,6,7) A keys generated_signer(2) [OF laws(1,2) alice] that] by blast
  with A show ?thesis using fresh_bundle_valid [OF dev laws(1-3) pub(2,3)] pub(1) by auto
qed

lemma sample_laws_total: "x25519_total sample_primitives" "kem_total sample_primitives" "signatures_verify sample_primitives"
proof -
  have "map2 (+) (take 31 a @ [1]) (take 31 b @ [0]) \<noteq> zeros 32" if "length a = 32" "length b = 32" for a b :: bytes
  proof
    assume "map2 (+) (take 31 a @ [1]) (take 31 b @ [0]) = zeros 32"
    then have "map2 (+) (take 31 a @ [1]) (take 31 b @ [0]) ! 31 = zeros 32 ! 31" by simp
    with that show False by (simp add: nth_append zeros_def)
  qed
  then show "x25519_total sample_primitives"
    by (auto simp: x25519_total_def sample_primitives_def split: if_splits)
  show "kem_total sample_primitives" "signatures_verify sample_primitives"
    by (auto simp: kem_total_def signatures_verify_def sample_primitives_def zeros_def)
qed

lemma sign_total:
  assumes "signer p kp" and "tag = PREKEY_ALGORITHM_X25519 \<or> tag = PREKEY_ALGORITHM_ML_KEM_1024 \<and> key ! 0 = PREKEY_ALGORITHM_ML_KEM_1024"
    and "key \<noteq> []" and "0 \<le> keyId" "keyId < 2 ^ 32"
  shows "\<exists>sg. signPreKey p kp tag keyId key = Inr sg"
proof -
  obtain c where "createPreKeySignatureContext (p_sha256 p) \<lparr>ci_version = 1, x25519PublicKey = ik_publicKey (dhKey kp),
      ed25519PublicKey = ik_publicKey (signingKey kp)\<rparr> tag keyId key = Inr c"
    using assms by (auto simp: createPreKeySignatureContext_def uint32be_def deriveIdentityCommitment_def signer_def encode_eq_Inr
        PREKEY_ALGORITHM_X25519_def PREKEY_ALGORITHM_ML_KEM_1024_def and_then_eq_Inr)
  moreover obtain s where "sign p (ik_privateKey (signingKey kp)) c = Inr s" using assms(1) by (auto simp: signer_def)
  ultimately show ?thesis by (auto simp: signPreKey_def)
qed

lemma sample_ed25519: "ed25519_getPublicKey sample_primitives (replicate 32 n) = Inr (replicate 31 n @ [0])"
  by (simp add: sample_primitives_def del: replicate.simps)

lemma sample_kem_pair: "generateMlKem1024KeyPair sample_primitives r = Inr (0x0A # zeros 1568, zeros 3168)"
  by (simp add: generateMlKem1024KeyPair_def sample_primitives_def serializeMlKem1024PublicKey_def
      ML_KEM_1024_RAW_PUBLIC_KEY_BYTES_def ML_KEM_1024_PRIVATE_KEY_BYTES_def ML_KEM_1024_ALGORITHM_TAG_def zeros_def)

theorem fresh_bundle_starts_session_witness:
  "\<exists>inp spk kem (A :: unit SessionState) pqr.
     generateEcSignedPreKey sample_primitives (bi_identityKeyPair inp) None (replicate 32 7) [1, 2, 3] 0 = Inr spk \<and>
     generateKemOneTimePreKeys sample_primitives (bi_identityKeyPair inp) 1 5 (\<lambda>_. []) 0 = Inr [kem] \<and>
     bi_prekeyBundle inp = bundle_of 1 (bi_identityKeyPair inp) spk None None (Some kem) \<and>
     buildInitiatorSession sample_primitives inp 0 (replicate 32 30) (replicate 32 40) = Inr (A, pqr)"
proof -
  note laws = sample_primitives_laws(1-3) sample_laws_total
  obtain kp where kp: "generateIdentityKeyPair sample_primitives (replicate 32 1) (replicate 32 2) [3, 4] = Inr kp"
    using sample_generate [of 1] sample_ed25519 [of 2]
    by (simp add: generateIdentityKeyPair_def generateSigningKeyPair_def del: replicate.simps)
  have signs: "signer sample_primitives kp" using generated_signer(1) [OF laws(2,6) _ kp] by simp
  obtain spk where spk: "generateEcSignedPreKey sample_primitives kp None (replicate 32 7) [1, 2, 3] 0 = Inr spk"
    using sample_generate [of 7] sample_keys(1) [of 7] sign_total [OF signs, where tag = PREKEY_ALGORITHM_X25519 and key = "replicate 31 7 @ [0]" and keyId = "int (generateEcSignedPreKeyId [1, 2, 3])"]
    by (auto simp: generateEcSignedPreKey_def generateEcSignedPreKeyId_def simp del: replicate.simps)
  obtain kem where kem: "generateKemOneTimePreKeys sample_primitives kp 1 5 (\<lambda>_. []) 0 = Inr [kem]"
    using sign_total [OF signs, where tag = PREKEY_ALGORITHM_ML_KEM_1024 and key = "0x0A # zeros 1568" and keyId = 5]
    by (auto simp: generateKemOneTimePreKeys_def sample_kem_pair PREKEY_ALGORITHM_ML_KEM_1024_def)
  have dev: "fresh_device sample_primitives kp spk None None (Some kem)"
    unfolding fresh_device_def
  proof (intro conjI ballI)
    show "\<exists>d s i. length s = 32 \<and> generateIdentityKeyPair sample_primitives d s i = Inr kp"
      using kp by (intro exI [of _ "replicate 32 1"] exI [of _ "replicate 32 2"] exI [of _ "[3, 4]"]) (simp del: replicate.simps)
    show "\<exists>r i now. generateEcSignedPreKey sample_primitives kp None r i now = Inr spk" using spk by blast
    show "\<exists>n start random now ks. start + n \<le> 2 ^ 32 \<and> generateKemOneTimePreKeys sample_primitives kp n start random now = Inr ks \<and> k \<in> set ks"
      if "k \<in> set_option (Some kem)" for k
      using kem that by (intro exI [of _ 1] exI [of _ 5] exI [of _ "\<lambda>_. []"] exI [of _ 0] exI [of _ "[kem]"]) simp
  qed simp_all
  let ?inp = "\<lparr>bi_localAddress = sample_address 97 1, bi_remoteAddress = sample_address 98 1, bi_identityKeyPair = kp,
    bi_prekeyBundle = bundle_of 1 kp spk None None (Some kem), bi_recipientIdentityType = Aci, bi_keyExchangeInfoString = None\<rparr>"
  have "generateIdentityKeyPair sample_primitives (replicate 32 1) (replicate 32 2) [3, 4] = Inr (bi_identityKeyPair ?inp)"
    "bi_prekeyBundle ?inp = bundle_of 1 kp spk None None (Some kem)" using kp by simp_all
  from fresh_bundle_starts_session [OF dev laws(2,6,5,4,1,3) sample_primitives_laws(5) length_replicate this(1) _ length_replicate length_replicate this(2),
      of 0 30 40, where here = "sample_address 98 1" and there = "sample_address 97 1" and now' = 0]
  obtain A :: "unit SessionState" and pqr where "buildInitiatorSession sample_primitives ?inp 0 (replicate 32 30) (replicate 32 40) = Inr (A, pqr)"
    by auto
  then show ?thesis using spk kem by (intro exI [of _ ?inp] exI [of _ spk] exI [of _ kem] exI [of _ A] exI [of _ pqr]) simp
qed

end
