(* ===== verification/Galois.thy ===== *)
theory Galois
  imports Prelude Complex_Main
begin

text \<open>
  The field of 65536 elements of the erasure code (internal/protocol/spqr/ml-kem-braid/rs/galois).

  The source multiplies and divides through two generated tables, of the powers of \<open>alpha = 2\<close> modulo
  \<open>x^16 + x^12 + x^3 + x + 1\<close> and of their logarithms; the definitions give the entries by the
  recurrence that the head of the file documents. Shown here: \<open>alpha\<close> generates all 65535 elements other than zero, so
  that the table operations form a field; the type \<open>gf16\<close> is an instance of the class \<open>field\<close>.
\<close>

section \<open>Definitions\<close>

type_synonym field_word = "16 word"

definition GF16_GENERATOR :: field_word where "GF16_GENERATOR = 0x100B"

text \<open>Multiplication by \<open>alpha\<close>: a shift, reduced when a bit leaves the word.\<close>

definition times_alpha :: "field_word \<Rightarrow> field_word" where
  "times_alpha a = (if bit a 15 then push_bit 1 a XOR GF16_GENERATOR else push_bit 1 a)"

primrec EXP_TABLE :: "nat \<Rightarrow> field_word" where
  "EXP_TABLE 0 = 1"
| "EXP_TABLE (Suc i) = times_alpha (EXP_TABLE i)"

text \<open>The table holds 0 for the argument 0.\<close>

definition LOG_TABLE :: "field_word \<Rightarrow> nat" where
  "LOG_TABLE x = (if x = 0 then 0 else length (takeWhile (\<lambda>i. EXP_TABLE i \<noteq> x) [0..<65535]))"

definition gf_mul :: "field_word \<Rightarrow> field_word \<Rightarrow> field_word" where
  "gf_mul x y = (if x = 0 \<or> y = 0 then 0 else EXP_TABLE (LOG_TABLE x + LOG_TABLE y))"

definition gf_div :: "field_word \<Rightarrow> field_word \<Rightarrow> field_word result" where
  "gf_div x y =
     (if y = 0 then Inl (PlainError ''Division by zero in GF(2^16)'')
      else let safeX = (if x = 0 then 1 else x);
               computedResult = EXP_TABLE (LOG_TABLE safeX + 65535 - LOG_TABLE y)
           in Inr (if x = 0 then 0 else computedResult))"

definition gf_add :: "field_word \<Rightarrow> field_word \<Rightarrow> field_word" where "gf_add x y = x XOR y"

section \<open>Powers of the generator\<close>

lemma times_alpha_xor: "times_alpha (a XOR b) = times_alpha a XOR times_alpha b"
  by (rule bit_word_eqI) (auto simp: times_alpha_def bit_simps)

lemma times_alpha_zero: "times_alpha a = 0 \<longleftrightarrow> a = 0"
proof
  assume z: "times_alpha a = 0"
  have "bit (times_alpha a) 0 = bit a 15" by (simp add: times_alpha_def GF16_GENERATOR_def bit_xor_iff bit_push_bit_iff del: push_bit_Suc push_bit_of_1)
  then have "\<not> bit a 15" using z by simp
  moreover have "bit (push_bit 1 a) (Suc n) = bit a n" if "n < 15" for n
    using that by (simp add: bit_push_bit_iff del: push_bit_Suc)
  ultimately have "\<not> bit a n" if "n < 16" for n
    using z that by (cases "n = 15") (auto simp: times_alpha_def)
  then show "a = 0" by (intro bit_word_eqI) simp
qed (simp add: times_alpha_def)

lemma times_alpha_inj: "times_alpha a = times_alpha b \<Longrightarrow> a = b"
proof -
  assume "times_alpha a = times_alpha b"
  then have "times_alpha (a XOR b) = 0" by (simp add: times_alpha_xor)
  then have "a XOR b = 0" using times_alpha_zero by blast
  then show "a = b" by (auto simp: bit_eq_iff bit_xor_iff)
qed

abbreviation shift_by :: "nat \<Rightarrow> field_word \<Rightarrow> field_word" where "shift_by n \<equiv> times_alpha ^^ n"

lemma EXP_shift: "EXP_TABLE n = shift_by n 1" by (induction n) simp_all

lemma shift_xor: "shift_by n (a XOR b) = shift_by n a XOR shift_by n b"
  by (induction n) (simp_all add: times_alpha_xor)

lemma shift_zero: "shift_by n a = 0 \<longleftrightarrow> a = 0" by (induction n) (simp_all add: times_alpha_zero)

lemma shift_inj: "shift_by n a = shift_by n b \<Longrightarrow> a = b"
  by (induction n) (auto dest: times_alpha_inj)

text \<open>
  A word is the sum of the powers of \<open>alpha\<close> at its bits, so that shifting by \<open>n\<close> is multiplying by
  \<open>EXP_TABLE n\<close> as polynomials.
\<close>

fun poly_mul :: "nat \<Rightarrow> field_word \<Rightarrow> field_word \<Rightarrow> field_word" where
  "poly_mul 0 a b = 0"
| "poly_mul (Suc n) a b = (if bit b 0 then a else 0) XOR poly_mul n (times_alpha a) (drop_bit 1 b)"

lemma poly_mul_xor: "poly_mul n (a XOR a') b = poly_mul n a b XOR poly_mul n a' b"
  by (induction n arbitrary: a a' b) (simp_all add: times_alpha_xor ac_simps xor.left_commute)

lemma poly_mul_times: "poly_mul n (times_alpha a) b = times_alpha (poly_mul n a b)"
  by (induction n arbitrary: a b) (simp_all add: times_alpha_xor times_alpha_zero [THEN iffD2])

lemma poly_mul_shift: "poly_mul n (shift_by m a) b = shift_by m (poly_mul n a b)"
  by (induction m) (simp_all add: poly_mul_times)

lemma alpha_push_bit: "k < 15 \<Longrightarrow> times_alpha (push_bit k 1) = push_bit (Suc k) 1"
  by (rule bit_word_eqI) (auto simp: times_alpha_def bit_push_bit_iff bit_1_iff simp del: push_bit_of_1)

lemma poly_mul_bits: "k + n \<le> 16 \<Longrightarrow> poly_mul n (push_bit k 1) b = push_bit k (take_bit n b)"
proof (induction n arbitrary: k b)
  case (Suc n)
  have "poly_mul n (times_alpha (push_bit k 1)) (drop_bit 1 b) = push_bit (Suc k) (take_bit n (drop_bit 1 b))"
  proof (cases n)
    case (Suc m)
    then have "times_alpha (push_bit k 1) = push_bit (Suc k) 1" using Suc.prems by (intro alpha_push_bit) simp
    then show ?thesis using Suc.IH [of "Suc k"] Suc.prems by (simp only:)
  qed simp
  moreover have "(if bit b 0 then push_bit k 1 else 0) XOR push_bit (Suc k) (take_bit n (drop_bit 1 b)) = push_bit k (take_bit (Suc n) b)"
  proof (rule bit_word_eqI)
    fix m
    consider "m < k" | "m = k" | d where "m = Suc (k + d)" by (metis less_imp_Suc_add linorder_neqE_nat)
    then show "bit ((if bit b 0 then push_bit k 1 else 0) XOR push_bit (Suc k) (take_bit n (drop_bit 1 b))) m \<longleftrightarrow>
        bit (push_bit k (take_bit (Suc n) b)) m" if "m < LENGTH(16)"
      using that by cases (auto simp: bit_xor_iff bit_push_bit_iff bit_take_bit_iff bit_drop_bit_eq bit_1_iff
        simp del: push_bit_of_1 push_bit_Suc drop_bit_Suc take_bit_Suc)
  qed
  ultimately show ?case by (simp only: poly_mul.simps)
qed simp

lemma poly_mul_one: "poly_mul 16 1 b = b"
  using poly_mul_bits [of 0 16 b] by (simp add: take_bit_word_eq_self)

lemma EXP_add: "EXP_TABLE (m + n) = poly_mul 16 (EXP_TABLE m) (EXP_TABLE n)"
proof -
  have "poly_mul 16 (EXP_TABLE m) (EXP_TABLE n) = shift_by m (EXP_TABLE n)"
    by (simp add: EXP_shift [of m] poly_mul_shift poly_mul_one)
  then show ?thesis by (simp add: EXP_shift funpow_add)
qed

section \<open>The order of the generator\<close>

text \<open>Powers by squaring, to evaluate the table at large exponents.\<close>

definition square_step :: "field_word \<Rightarrow> bool \<Rightarrow> field_word" where
  "square_step v b = (if b then times_alpha (poly_mul 16 v v) else poly_mul 16 v v)"

lemma EXP_step: "EXP_TABLE n = square_step (EXP_TABLE (n div 2)) (n mod 2 = 1)"
proof -
  have "poly_mul 16 (EXP_TABLE (n div 2)) (EXP_TABLE (n div 2)) = EXP_TABLE (2 * (n div 2))" by (metis EXP_add mult_2)
  moreover have "n = (if n mod 2 = 1 then Suc (2 * (n div 2)) else 2 * (n div 2))" by presburger
  ultimately show ?thesis by (metis EXP_TABLE.simps(2) square_step_def)
qed

lemmas EXP_numeral = EXP_step [of "numeral v"] for v

lemma poly_mul_numeral:
  "poly_mul (numeral v) a b = (if bit b 0 then a else 0) XOR poly_mul (pred_numeral v) (times_alpha a) (drop_bit 1 b)"
  by (simp only: numeral_eq_Suc poly_mul.simps)

lemma EXP_values:
  "EXP_TABLE 255 \<noteq> 1" "EXP_TABLE 3855 \<noteq> 1" "EXP_TABLE 13107 \<noteq> 1" "EXP_TABLE 21845 \<noteq> 1" "EXP_TABLE 65535 = 1"
  by (simp_all add: EXP_numeral square_step_def poly_mul_numeral times_alpha_def GF16_GENERATOR_def)

lemma EXP_period: "EXP_TABLE (i + 65535) = EXP_TABLE i"
  using EXP_values(5) by (simp add: EXP_shift funpow_add)

lemma EXP_add_one: "EXP_TABLE b = 1 \<Longrightarrow> EXP_TABLE (a + b) = EXP_TABLE a"
  by (simp add: EXP_shift funpow_add)

lemma EXP_mult_one: "EXP_TABLE b = 1 \<Longrightarrow> EXP_TABLE (a + b * q) = EXP_TABLE a"
proof (induction q)
  case (Suc q)
  then show ?case using EXP_add_one [of b "a + b * q"] by (simp add: ac_simps)
qed simp

lemma EXP_dvd_one: "EXP_TABLE g = 1 \<Longrightarrow> g dvd n \<Longrightarrow> EXP_TABLE n = 1"
  using EXP_mult_one [of g 0] by auto

lemma EXP_gcd_one: "EXP_TABLE a = 1 \<Longrightarrow> EXP_TABLE b = 1 \<Longrightarrow> EXP_TABLE (gcd a b) = 1"
proof (induction a b rule: gcd_nat_induct)
  case (step m n)
  have "EXP_TABLE (m mod n) = EXP_TABLE m"
    using EXP_mult_one [OF step.prems(2), of "m mod n" "m div n"] by simp
  with step show ?case by (simp add: gcd_red_nat [of m n])
qed simp

text \<open>65535 is 3 times 5 times 17 times 257; a proper divisor divides one of four cofactors.\<close>

lemma small_factor: "a \<le> 16 \<Longrightarrow> a * b = (257 :: nat) \<Longrightarrow> a = 1"
proof -
  assume a: "a \<le> 16" and ab: "a * b = 257"
  have "\<forall>a \<in> {..16 :: nat}. a = 1 \<or> 257 mod a \<noteq> 0" by (simp add: atMost_nat_numeral atMost_Suc)
  then show "a = 1" using a ab by (metis atMost_iff mod_mult_self1_is_0)
qed

lemma prime_257: "x * y = (257 :: nat) \<Longrightarrow> x = 1 \<or> y = 1"
proof (cases "x \<le> 16 \<or> y \<le> 16")
  case True
  moreover assume "x * y = 257"
  ultimately show ?thesis using small_factor [of x y] small_factor [of y x] by (auto simp: mult.commute)
next
  case False
  then have "17 * 17 \<le> x * y" by (intro mult_le_mono) simp_all
  moreover assume "x * y = 257"
  ultimately show ?thesis by simp
qed

lemma divisor_cases:
  assumes "x dvd p" and "p \<in> {3, 5, 17, 257 :: nat}"
  shows "x = 1 \<or> x = p"
proof (cases "p = 257")
  case True
  then obtain y where "x * y = 257" using assms(1) by (metis dvd_def)
  with prime_257 [OF this] True show ?thesis by auto
next
  case False
  have "\<forall>x \<in> {..17 :: nat}. \<forall>p \<in> {3, 5, 17}. x = 1 \<or> x = p \<or> p mod x \<noteq> 0"
    by (simp add: atMost_nat_numeral atMost_Suc)
  moreover have "x \<le> 17" "p \<in> {3, 5, 17}" using assms dvd_imp_le [of x p] False by auto
  ultimately show ?thesis using assms(1) by (auto simp: mod_eq_0_iff_dvd)
qed

lemma coprime_or_dvd: "p \<in> {3, 5, 17, 257 :: nat} \<Longrightarrow> p dvd k \<or> coprime p k"
  by (metis coprime_iff_gcd_eq_1 divisor_cases gcd_dvd1 gcd_dvd2)

lemma proper_divisor:
  assumes "g * k = (65535 :: nat)" and "k \<noteq> 1"
  shows "g dvd 255 \<or> g dvd 3855 \<or> g dvd 13107 \<or> g dvd 21845"
proof -
  have "k dvd 65535" using assms(1) by (metis dvd_triv_right)
  then have k: "k dvd 3 * (5 * (17 * 257))" by simp
  have drop: "k dvd p * n \<Longrightarrow> \<not> p dvd k \<Longrightarrow> p \<in> {3, 5, 17, 257} \<Longrightarrow> k dvd n" for p n
    using coprime_or_dvd [of p k] by (metis coprime_commute coprime_dvd_mult_right_iff)
  have "3 dvd k \<or> 5 dvd k \<or> 17 dvd k \<or> 257 dvd k"
  proof (rule ccontr)
    assume n: "\<not> (3 dvd k \<or> 5 dvd k \<or> 17 dvd k \<or> 257 dvd k)"
    have "k dvd 5 * (17 * 257)" by (rule drop [OF k]) (use n in auto)
    then have "k dvd 17 * 257" by (rule drop) (use n in auto)
    then have "k dvd 257" by (rule drop) (use n in auto)
    then show False using divisor_cases [of k 257] n assms(2) by auto
  qed
  then obtain p m where "p \<in> {3, 5, 17, 257}" and km: "k = p * m" by (metis dvd_def insert_iff)
  then show ?thesis using assms(1)
  proof (elim insertE)
    assume "p = 3" then have "g * m = 21845" using assms(1) km by simp then show ?thesis by (metis dvd_triv_left)
  next
    assume "p = 5" then have "g * m = 13107" using assms(1) km by simp then show ?thesis by (metis dvd_triv_left)
  next
    assume "p = 17" then have "g * m = 3855" using assms(1) km by simp then show ?thesis by (metis dvd_triv_left)
  next
    assume "p = 257" then have "g * m = 255" using assms(1) km by simp then show ?thesis by (metis dvd_triv_left)
  qed simp
qed

lemma EXP_order: "0 < d \<Longrightarrow> d < 65535 \<Longrightarrow> EXP_TABLE d \<noteq> 1"
proof
  assume d: "0 < d" "d < 65535" and one: "EXP_TABLE d = 1"
  let ?g = "gcd d 65535"
  have "?g dvd 65535" by (rule gcd_dvd2)
  then obtain k where k: "?g * k = 65535" by (metis dvd_def)
  have "?g \<le> d" using d by (simp add: gcd_le1_nat)
  then have "k \<noteq> 1" using k d by (metis leD mult_1_right)
  then show False using proper_divisor [OF k] EXP_dvd_one [OF EXP_gcd_one [OF one EXP_values(5)]] EXP_values by blast
qed

lemma EXP_inj: "inj_on EXP_TABLE {..<65535}"
proof -
  have lt: False if "i < j" "j < 65535" "EXP_TABLE i = EXP_TABLE j" for i j
  proof -
    have "EXP_TABLE j = shift_by i (EXP_TABLE (j - i))"
      using that(1) by (simp add: EXP_shift flip: funpow_add [THEN fun_cong, unfolded o_apply])
    then have "EXP_TABLE (j - i) = 1" using that(3) by (metis EXP_shift shift_inj)
    then show False using EXP_order [of "j - i"] that by simp
  qed
  show ?thesis by (rule inj_onI) (metis lessThan_iff linorder_neqE_nat lt)
qed

lemma EXP_nonzero: "EXP_TABLE i \<noteq> 0" by (simp add: EXP_shift shift_zero)

lemma card_field_word: "card (UNIV :: field_word set) = 65536"
  by (simp add: card_word)

lemma EXP_image: "EXP_TABLE ` {..<65535} = UNIV - {0}"
proof (rule card_subset_eq)
  show "finite (UNIV - {0 :: field_word})" by simp
  show "EXP_TABLE ` {..<65535} \<subseteq> UNIV - {0}" using EXP_nonzero by auto
  show "card (EXP_TABLE ` {..<65535}) = card (UNIV - {0 :: field_word})"
    by (simp add: card_image EXP_inj card_field_word card_Diff_singleton)
qed

lemma first_index:
  assumes "i < n" and "\<not> P i"
  shows "length (takeWhile P [0..<n]) < n" "\<not> P (length (takeWhile P [0..<n]))"
proof -
  let ?xs = "[0..<n]"
  have "takeWhile P ?xs \<noteq> ?xs" using assms by (auto simp: takeWhile_eq_all_conv)
  then have len: "length (takeWhile P ?xs) < length ?xs"
    by (metis length_takeWhile_le nat_less_le takeWhile_eq_take take_all_iff)
  then show "length (takeWhile P ?xs) < n" by simp
  then show "\<not> P (length (takeWhile P ?xs))" using nth_length_takeWhile [OF len] by simp
qed

lemma LOG_bound: "x \<noteq> 0 \<Longrightarrow> LOG_TABLE x < 65535"
  and EXP_LOG: "x \<noteq> 0 \<Longrightarrow> EXP_TABLE (LOG_TABLE x) = x"
proof -
  assume x: "x \<noteq> 0"
  then have "x \<in> EXP_TABLE ` {..<65535}" by (simp only: EXP_image) simp
  then obtain i where "i < 65535" "\<not> EXP_TABLE i \<noteq> x" by (metis imageE lessThan_iff)
  note first = first_index [of i 65535 "\<lambda>i. EXP_TABLE i \<noteq> x", OF this]
  show "LOG_TABLE x < 65535" unfolding LOG_TABLE_def if_not_P [OF x] by (rule first(1))
  show "EXP_TABLE (LOG_TABLE x) = x" using first(2) unfolding LOG_TABLE_def if_not_P [OF x] by blast
qed

lemma LOG_EXP: "i < 65535 \<Longrightarrow> LOG_TABLE (EXP_TABLE i) = i"
  using EXP_inj EXP_LOG [OF EXP_nonzero] LOG_bound [OF EXP_nonzero] by (metis inj_onD lessThan_iff)


section \<open>The operations of the tables are those of a field\<close>

lemma gf_mul_shift: "gf_mul x y = (if y = 0 then 0 else shift_by (LOG_TABLE y) x)"
proof (cases "x = 0 \<or> y = 0")
  case False
  then have "EXP_TABLE (LOG_TABLE x + LOG_TABLE y) = shift_by (LOG_TABLE y) (EXP_TABLE (LOG_TABLE x))"
    by (simp add: EXP_shift add.commute [of "LOG_TABLE x"] funpow_add)
  then show ?thesis using False by (simp add: gf_mul_def EXP_LOG)
qed (auto simp: gf_mul_def shift_zero)

lemma gf_mul_commute: "gf_mul x y = gf_mul y x" by (simp add: gf_mul_def add.commute disj_commute)

lemma gf_mul_xor: "gf_mul (a XOR b) y = gf_mul a y XOR gf_mul b y"
  by (simp add: gf_mul_shift shift_xor)

lemma gf_mul_EXP: "gf_mul x (EXP_TABLE n) = shift_by n x"
proof (cases "x = 0")
  case False
  have "shift_by n (EXP_TABLE (LOG_TABLE x)) = shift_by (LOG_TABLE x) (EXP_TABLE n)"
    by (metis EXP_shift add.commute comp_apply funpow_add)
  then show ?thesis
    using False by (metis EXP_LOG gf_mul_commute gf_mul_shift)
qed (simp add: gf_mul_def shift_zero)

lemma gf_mul_assoc: "gf_mul (gf_mul x y) z = gf_mul x (gf_mul y z)"
proof (cases "y = 0 \<or> z = 0")
  case False
  then have y: "y = EXP_TABLE (LOG_TABLE y)" and z: "z = EXP_TABLE (LOG_TABLE z)" by (simp_all add: EXP_LOG)
  have "gf_mul y z = EXP_TABLE (LOG_TABLE z + LOG_TABLE y)" using False by (simp add: gf_mul_def add.commute)
  then have "gf_mul x (gf_mul y z) = shift_by (LOG_TABLE z + LOG_TABLE y) x" by (simp add: gf_mul_EXP)
  moreover have "gf_mul (gf_mul x y) z = shift_by (LOG_TABLE z + LOG_TABLE y) x"
    using False by (simp add: gf_mul_shift funpow_add)
  ultimately show ?thesis by simp
qed (auto simp: gf_mul_def)

lemma LOG_one: "LOG_TABLE 1 = 0" using LOG_EXP [of 0] by simp

lemma gf_mul_one: "gf_mul x 1 = x" by (simp add: gf_mul_shift LOG_one)

lemma gf_div_mul: "y \<noteq> 0 \<Longrightarrow> gf_mul (projr (gf_div x y)) y = x" and gf_div_ok: "y \<noteq> 0 \<Longrightarrow> \<exists>q. gf_div x y = Inr q"
proof -
  assume y: "y \<noteq> 0"
  have "shift_by (LOG_TABLE y) (EXP_TABLE (LOG_TABLE x + 65535 - LOG_TABLE y)) = EXP_TABLE (LOG_TABLE x + 65535)"
    using LOG_bound [OF y] by (simp add: EXP_shift flip: funpow_add [THEN fun_cong, unfolded o_apply])
  then show "gf_mul (projr (gf_div x y)) y = x"
    using y by (cases "x = 0") (simp_all add: gf_div_def gf_mul_shift EXP_period EXP_LOG shift_zero Let_def)
  show "\<exists>q. gf_div x y = Inr q" using y by (simp add: gf_div_def Let_def)
qed

text \<open>The elements of the field, with the operations of the tables as the arithmetic of the library.\<close>

datatype gf16 = GF (gf_word: field_word)

instantiation gf16 :: field
begin

definition zero_gf16 :: gf16 where "zero_gf16 = GF 0"
definition one_gf16 :: gf16 where "one_gf16 = GF 1"
definition plus_gf16 :: "gf16 \<Rightarrow> gf16 \<Rightarrow> gf16" where "plus_gf16 a b = GF (gf_add (gf_word a) (gf_word b))"
definition minus_gf16 :: "gf16 \<Rightarrow> gf16 \<Rightarrow> gf16" where "minus_gf16 a b = GF (gf_add (gf_word a) (gf_word b))"
definition uminus_gf16 :: "gf16 \<Rightarrow> gf16" where "uminus_gf16 a = a"
definition times_gf16 :: "gf16 \<Rightarrow> gf16 \<Rightarrow> gf16" where "times_gf16 a b = GF (gf_mul (gf_word a) (gf_word b))"
definition inverse_gf16 :: "gf16 \<Rightarrow> gf16" where
  "inverse_gf16 a = (if a = GF 0 then GF 0 else GF (projr (gf_div 1 (gf_word a))))"
definition divide_gf16 :: "gf16 \<Rightarrow> gf16 \<Rightarrow> gf16" where "divide_gf16 a b = a * inverse b"

lemmas gf16_defs = zero_gf16_def one_gf16_def plus_gf16_def minus_gf16_def uminus_gf16_def times_gf16_def
  gf_add_def

instance
proof
  fix a b c :: gf16
  show "a * b * c = a * (b * c)" by (simp add: gf16_defs gf_mul_assoc)
  show "a * b = b * a" by (simp add: gf16_defs gf_mul_commute)
  show "1 * a = a" by (simp add: gf16_defs gf_mul_one gf_mul_commute [of 1])
  show "a + b + c = a + (b + c)" by (simp add: gf16_defs xor.assoc)
  show "a + b = b + a" by (simp add: gf16_defs xor.commute)
  show "0 + a = a" by (simp add: gf16_defs)
  show "- a + a = 0" by (simp add: gf16_defs)
  show "a - b = a + - b" by (simp add: gf16_defs)
  show "(a + b) * c = a * c + b * c" by (simp add: gf16_defs gf_mul_xor)
  show "(0 :: gf16) \<noteq> 1" by (simp add: gf16_defs)
  show "inverse a * a = 1" if "a \<noteq> 0"
    using that gf_div_mul [of "gf_word a" 1] by (cases a) (simp add: gf16_defs inverse_gf16_def)
  show "a div b = a * inverse b" by (rule divide_gf16_def)
  show "inverse (0 :: gf16) = 0" by (simp add: gf16_defs inverse_gf16_def)
qed

end

lemma gf_div_field: "b \<noteq> 0 \<Longrightarrow> gf_div (gf_word a) (gf_word b) = Inr (gf_word (a div b))"
proof -
  assume b: "b \<noteq> 0"
  then have nz: "gf_word b \<noteq> 0" by (cases b) (simp add: zero_gf16_def)
  obtain q where q: "gf_div (gf_word a) (gf_word b) = Inr q" using gf_div_ok [OF nz] by blast
  then have "GF q * b = a" using gf_div_mul [OF nz, of "gf_word a"] by (cases a) (simp add: times_gf16_def)
  then have "GF q = a div b" using b by (metis nonzero_mult_div_cancel_right)
  then show ?thesis using q by (metis gf16.sel)
qed

end
