(* ===== verification/Interpolation.thy ===== *)
theory Interpolation
  imports Complex_Main
begin

text \<open>
  Interpolation over any field, the mathematics behind the erasure code of internal/protocol/spqr/ml-kem-braid/rs:
  Newton's divided differences, and the uniqueness of a polynomial of degree below \<open>n\<close> with \<open>n\<close> given values.
  No definition of this theory models code.
\<close>

section \<open>Functions given by a polynomial\<close>

definition poly_fun :: "nat \<Rightarrow> ('a :: field \<Rightarrow> 'a) \<Rightarrow> bool" where
  "poly_fun n f \<longleftrightarrow> (\<exists>c. \<forall>z. f z = (\<Sum>i<n. c i * z ^ i))"

lemma poly_funI: "(\<And>z. f z = (\<Sum>i<n. c i * z ^ i)) \<Longrightarrow> poly_fun n f"
  by (auto simp: poly_fun_def)

lemma poly_fun_mono: "poly_fun m f \<Longrightarrow> m \<le> n \<Longrightarrow> poly_fun n f"
proof -
  assume "poly_fun m f" and mn: "m \<le> n"
  then obtain c where c: "\<And>z. f z = (\<Sum>i<m. c i * z ^ i)" by (auto simp: poly_fun_def)
  have "f z = (\<Sum>i<n. (if i < m then c i else 0) * z ^ i)" for z
    unfolding c using mn by (intro sum.mono_neutral_cong_left) auto
  then show ?thesis by (rule poly_funI)
qed

lemma poly_fun_const: "poly_fun 1 (\<lambda>z. a)"
  by (rule poly_funI [where c = "\<lambda>_. a"]) simp

lemma poly_fun_add: "poly_fun n f \<Longrightarrow> poly_fun n g \<Longrightarrow> poly_fun n (\<lambda>z. f z + g z)"
proof -
  assume "poly_fun n f" "poly_fun n g"
  then obtain c d where "\<And>z. f z = (\<Sum>i<n. c i * z ^ i)" "\<And>z. g z = (\<Sum>i<n. d i * z ^ i)" by (auto simp: poly_fun_def)
  then have "f z + g z = (\<Sum>i<n. (c i + d i) * z ^ i)" for z by (simp add: distrib_right sum.distrib)
  then show ?thesis by (rule poly_funI)
qed

lemma poly_fun_scale: "poly_fun n f \<Longrightarrow> poly_fun n (\<lambda>z. a * f z)"
proof -
  assume "poly_fun n f"
  then obtain c where "\<And>z. f z = (\<Sum>i<n. c i * z ^ i)" by (auto simp: poly_fun_def)
  then have "a * f z = (\<Sum>i<n. (a * c i) * z ^ i)" for z by (simp add: sum_distrib_left mult.assoc)
  then show ?thesis by (rule poly_funI)
qed

lemma poly_fun_diff: "poly_fun n f \<Longrightarrow> poly_fun n g \<Longrightarrow> poly_fun n (\<lambda>z. f z - g z)"
  using poly_fun_add [of n f "\<lambda>z. - 1 * g z"] poly_fun_scale [of n g "- 1"] by simp

lemma poly_fun_times_id: "poly_fun n f \<Longrightarrow> poly_fun (Suc n) (\<lambda>z. z * f z)"
proof -
  assume "poly_fun n f"
  then obtain c where c: "\<And>z. f z = (\<Sum>i<n. c i * z ^ i)" by (auto simp: poly_fun_def)
  have "z * f z = (\<Sum>i<Suc n. (case i of 0 \<Rightarrow> 0 | Suc j \<Rightarrow> c j) * z ^ i)" for z
    by (simp add: c sum.lessThan_Suc_shift sum_distrib_left mult.left_commute del: sum.lessThan_Suc)
  then show ?thesis by (rule poly_funI)
qed

lemma poly_fun_factor: "poly_fun n f \<Longrightarrow> poly_fun (Suc n) (\<lambda>z. (z - a) * f z)"
  using poly_fun_diff [OF poly_fun_times_id [of n f] poly_fun_mono [OF poly_fun_scale [of n f a], of "Suc n"]]
  by (simp add: left_diff_distrib)

lemma poly_fun_prod: "finite A \<Longrightarrow> poly_fun (Suc (card A)) (\<lambda>z. \<Prod>a\<in>A. z - x a)"
proof (induction A rule: finite_induct)
  case (insert a A)
  then show ?case using poly_fun_factor [OF insert.IH, of "x a"] by simp
qed (use poly_fun_const in simp)

lemma poly_fun_sum: "(\<And>a. a \<in> A \<Longrightarrow> poly_fun n (f a)) \<Longrightarrow> poly_fun n (\<lambda>z. \<Sum>a\<in>A. f a z)"
proof (induction A rule: infinite_finite_induct)
  case (insert a A)
  then show ?case using poly_fun_add [of n "f a" "\<lambda>z. \<Sum>a\<in>A. f a z"] by simp
qed (auto intro!: poly_funI [where c = "\<lambda>_. 0"])

lemma poly_fun_root: "poly_fun (Suc n) f \<Longrightarrow> f a = 0 \<Longrightarrow> \<exists>g. poly_fun n g \<and> (\<forall>z. f z = (z - a) * g z)"
proof -
  assume "poly_fun (Suc n) f" and a: "f a = 0"
  then obtain c where c: "\<And>z. f z = (\<Sum>i\<le>n. c i * z ^ i)" by (auto simp: poly_fun_def lessThan_Suc_atMost)
  then obtain b where "\<forall>z. (\<Sum>i\<le>n. c i * z ^ i) = (z - a) * (\<Sum>i<n. b i * z ^ i)"
    using polyfun_linear_factor_root [of c a n] a by metis
  then show ?thesis using c by (auto simp: poly_fun_def)
qed

text \<open>A function of degree below \<open>n\<close> that vanishes at \<open>n\<close> points is zero.\<close>

lemma poly_fun_zero:
  "poly_fun n f \<Longrightarrow> finite A \<Longrightarrow> n \<le> card A \<Longrightarrow> (\<And>a. a \<in> A \<Longrightarrow> f a = 0) \<Longrightarrow> f z = 0"
proof (induction n arbitrary: f A)
  case 0
  then show ?case by (simp add: poly_fun_def)
next
  case (Suc n)
  then obtain a where a: "a \<in> A" by (metis card.empty equals0I not_less_eq_eq zero_le)
  then obtain g where g: "poly_fun n g" "\<And>z. f z = (z - a) * g z" using poly_fun_root Suc.prems by metis
  have "g b = 0" if "b \<in> A - {a}" for b using Suc.prems(4) [of b] g(2) that by simp
  then have "g z = 0" using Suc.IH [OF g(1), of "A - {a}"] Suc.prems a by simp
  then show ?case by (simp add: g(2))
qed

lemma poly_fun_unique:
  assumes "poly_fun n f" "poly_fun n g" "finite A" "n \<le> card A" "\<And>a. a \<in> A \<Longrightarrow> f a = g a"
  shows "f z = g z"
  using poly_fun_zero [OF poly_fun_diff [OF assms(1,2)] assms(3,4)] assms(5) by simp

section \<open>Lagrange's formula\<close>

lemma lagrange:
  assumes f: "poly_fun n f" and xs: "distinct (map x [0..<n])"
  shows "(\<Sum>i<n. f (x i) * ((\<Prod>j\<in>{..<n} - {i}. z - x j) / (\<Prod>j\<in>{..<n} - {i}. x i - x j))) = f z"
proof -
  have inj: "inj_on x {..<n}" using xs by (simp add: distinct_map lessThan_atLeast0)
  let ?b = "\<lambda>i z. (\<Prod>j\<in>{..<n} - {i}. z - x j) / (\<Prod>j\<in>{..<n} - {i}. x i - x j)"
  have "poly_fun n (\<lambda>z. f (x i) * ?b i z)" if "i < n" for i
    using poly_fun_scale [OF poly_fun_prod [of "{..<n} - {i}" x], of "f (x i) / (\<Prod>j\<in>{..<n} - {i}. x i - x j)"] that
    by simp
  then have sum: "poly_fun n (\<lambda>z. \<Sum>i<n. f (x i) * ?b i z)" by (intro poly_fun_sum) simp
  have same: "(\<Sum>i<n. f (x i) * ?b i a) = f a" if a: "a \<in> x ` {..<n}" for a
  proof -
  obtain k where k: "k < n" "a = x k" using a by auto
  have "?b i a = (if i = k then 1 else 0)" if "i < n" for i
  proof (cases "i = k")
    case True
    have "x i - x j \<noteq> 0" if "j \<in> {..<n} - {i}" for j using that \<open>i < n\<close> inj by (auto dest: inj_onD)
    then have "(\<Prod>j\<in>{..<n} - {i}. x i - x j) \<noteq> 0" by (simp add: prod_zero_iff)
    then show ?thesis using True k by simp
  next
    case False
    then have "(\<Prod>j\<in>{..<n} - {i}. a - x j) = 0" using k by (auto intro!: prod_zero bexI [of _ k])
    then show ?thesis using False by simp
  qed
  then have "(\<Sum>i<n. f (x i) * ?b i a) = (\<Sum>i<n. f (x i) * (if i = k then 1 else 0))" by (intro sum.cong) simp_all
  then show ?thesis using k by (simp add: if_distrib sum.delta cong: if_cong)
  qed
  show ?thesis
    using poly_fun_unique [OF sum f, of "x ` {..<n}" z] same inj by (simp add: card_image)
qed

section \<open>Newton's divided differences\<close>

primrec dd :: "(nat \<Rightarrow> 'a :: field) \<Rightarrow> (nat \<Rightarrow> 'a) \<Rightarrow> nat \<Rightarrow> nat \<Rightarrow> 'a" where
  "dd x y 0 a = y a"
| "dd x y (Suc m) a = (dd x y m (Suc a) - dd x y m a) / (x (a + Suc m) - x a)"

definition node_product :: "(nat \<Rightarrow> 'a :: field) \<Rightarrow> nat \<Rightarrow> nat \<Rightarrow> 'a \<Rightarrow> 'a" where
  "node_product x a m t = (\<Prod>l<m. t - x (a + l))"

definition newton :: "(nat \<Rightarrow> 'a :: field) \<Rightarrow> (nat \<Rightarrow> 'a) \<Rightarrow> nat \<Rightarrow> nat \<Rightarrow> 'a \<Rightarrow> 'a" where
  "newton x y a n t = (\<Sum>j<n. dd x y j a * node_product x a j t)"

lemma node_product_Suc: "node_product x a (Suc m) t = node_product x a m t * (t - x (a + m))"
  by (simp add: node_product_def)

lemma node_product_shift: "node_product x a (Suc m) t = (t - x a) * node_product x (Suc a) m t"
  by (simp add: node_product_def prod.lessThan_Suc_shift del: prod.lessThan_Suc)

lemma newton_shift:
  "0 < m \<Longrightarrow> inj_on x {a..a + m} \<Longrightarrow> newton x y (Suc a) m t - newton x y a m t
    = (x (a + m) - x a) * dd x y m a * node_product x (Suc a) (m - 1) t"
proof (induction m)
  case (Suc m)
  show ?case
  proof (cases m)
    case 0
    have "x (Suc a) \<noteq> x a" using Suc.prems 0 by (auto dest: inj_onD)
    then show ?thesis using 0 by (simp add: newton_def node_product_def)
  next
    case (Suc n)
    have d: "x (a + Suc m) - x a \<noteq> 0" using Suc.prems by (auto dest: inj_onD)
    have left: "node_product x a m t = (t - x a) * node_product x (Suc a) n t"
      and right: "node_product x (Suc a) m t = node_product x (Suc a) n t * (t - x (a + m))"
      using \<open>m = Suc n\<close> by (simp_all only: node_product_shift [of x a] node_product_Suc [of x "Suc a"]) simp
    have IH: "newton x y (Suc a) m t - newton x y a m t = (x (a + m) - x a) * dd x y m a * node_product x (Suc a) n t"
      using Suc.IH inj_on_subset [OF Suc.prems(2), of "{a..a + m}"] \<open>m = Suc n\<close> by simp
    have "newton x y (Suc a) (Suc m) t - newton x y a (Suc m) t =
        (newton x y (Suc a) m t - newton x y a m t) + dd x y m (Suc a) * node_product x (Suc a) m t - dd x y m a * node_product x a m t"
      by (simp add: newton_def)
    also have "\<dots> = dd x y m a * node_product x (Suc a) n t * (x (a + m) - t) + dd x y m (Suc a) * node_product x (Suc a) m t"
      unfolding IH left by (simp add: algebra_simps)
    also have "\<dots> = node_product x (Suc a) m t * (dd x y m (Suc a) - dd x y m a)"
      unfolding right by (simp add: algebra_simps)
    also have "\<dots> = (x (a + Suc m) - x a) * dd x y (Suc m) a * node_product x (Suc a) m t" using d by simp
    finally show ?thesis by simp
  qed
qed simp

text \<open>Newton's form takes the values \<open>y\<close> at the nodes.\<close>

lemma newton_interpolates:
  "inj_on x {a..<a + n} \<Longrightarrow> a \<le> i \<Longrightarrow> i < a + n \<Longrightarrow> newton x y a n (x i) = y i"
proof (induction n arbitrary: a)
  case (Suc n)
  show ?case
  proof (cases "i < a + n")
    case True
    then have "node_product x a n (x i) = 0"
      unfolding node_product_def using Suc.prems by (intro prod_zero bexI [of _ "i - a"]) simp_all
    moreover have "newton x y a n (x i) = y i"
      using inj_on_subset [OF Suc.prems(1), of "{a..<a + n}"] Suc.prems(2) True by (intro Suc.IH) simp_all
    ultimately show ?thesis by (simp add: newton_def)
  next
    case False
    then have i: "i = a + n" using Suc.prems by simp
    show ?thesis
    proof (cases n)
      case 0
      then show ?thesis using i by (simp add: newton_def node_product_def)
    next
      case (Suc m)
      have "newton x y (Suc a) n (x i) = y i"
        using inj_on_subset [OF Suc.prems(1), of "{Suc a..<Suc a + n}"] i \<open>n = Suc m\<close> by (intro Suc.IH) simp_all
      moreover have "newton x y (Suc a) n (x i) - newton x y a n (x i) = dd x y n a * node_product x a n (x i)"
        using newton_shift [of n x a y "x i"] Suc.prems(1) i \<open>n = Suc m\<close>
        by (simp add: node_product_shift [of x a m] atLeastLessThanSuc_atLeastAtMost mult_ac)
      ultimately show ?thesis by (simp add: newton_def algebra_simps)
    qed
  qed
qed simp

end
