(* ===== verification/Erasure_Codec.thy ===== *)
theory Erasure_Codec
  imports Galois Kdf Interpolation
begin

text \<open>
  The erasure code of the braid (rs/lagrange.ts, rs/codec.ts and chunk-domain.ts of
  internal/protocol/spqr/ml-kem-braid).

  A message of at most 1152 bytes is cut in \<open>k\<close> chunks of 32 bytes; byte pairs at the same place of the chunks are
  the values at \<open>0 .. k - 1\<close> of one of 16 polynomials over the field of \<open>Galois\<close>. The encoder emits the data chunks,
  then evaluations at the points \<open>k .. 65535\<close>; the decoder interpolates. Shown here: Newton's divided
  differences give the coefficients of the interpolating polynomial, Lagrange's formula
  recovers its values, and any \<open>k\<close> different chunks in any order give the message back.
\<close>

section \<open>Points and chunks\<close>

definition BRAID_CHUNK_POINT_COUNT :: nat where "BRAID_CHUNK_POINT_COUNT = 65536"

definition assertBraidChunkIndex :: "int \<Rightarrow> nat result" where
  "assertBraidChunkIndex v =
     (if v < 0 \<or> v > int BRAID_CHUNK_POINT_COUNT - 1
      then Inl (PlainError ''Chunk index must be an integer between 0 and 65535'')
      else Inr (nat v))"

definition assertBraidEncoderCursor :: "int \<Rightarrow> nat result" where
  "assertBraidEncoderCursor v =
     (if v < 0 \<or> v > int BRAID_CHUNK_POINT_COUNT
      then Inl (PlainError ''Encoder cursor must be an integer between 0 and 65536'')
      else Inr (nat v))"

definition CHUNK_SIZE :: nat where "CHUNK_SIZE = 32"
definition NUM_POLYS :: nat where "NUM_POLYS = 16"
definition MAX_MESSAGE_SIZE :: nat where "MAX_MESSAGE_SIZE = 1152"

text \<open>\<open>Math.ceil(size / CHUNK_SIZE)\<close>.\<close>

definition chunk_count :: "nat \<Rightarrow> nat" where "chunk_count n = (n + CHUNK_SIZE - 1) div CHUNK_SIZE"

definition evaluation_point :: "nat \<Rightarrow> field_word" where "evaluation_point i = of_nat i"

text \<open>A field element as two bytes, the high one first.\<close>

definition read_element :: "byte \<Rightarrow> byte \<Rightarrow> field_word" where
  "read_element hi lo = push_bit 8 (ucast hi) OR ucast lo"

definition write_element :: "field_word \<Rightarrow> bytes" where
  "write_element v = [ucast (drop_bit 8 v), ucast v]"

section \<open>Lagrange interpolation\<close>

fun assert_points :: "nat list \<Rightarrow> nat list \<Rightarrow> unit result" where
  "assert_points seen [] = Inr ()"
| "assert_points seen (x # xs) =
     (if x \<ge> 65536 then Inl (PlainError ''Evaluation point out of field range'')
      else if x \<in> set seen then Inl (PlainError ''Duplicate evaluation point'')
      else assert_points (x # seen) xs)"

text \<open>The product of \<open>t - x\<^sub>j\<close> over the places other than \<open>i\<close>.\<close>

definition basis_product :: "nat list \<Rightarrow> nat \<Rightarrow> field_word \<Rightarrow> field_word" where
  "basis_product xs i t =
     fold (\<lambda>j d. if i \<noteq> j then gf_mul d (t XOR evaluation_point (xs ! j)) else d) [0..<length xs] 1"

definition computeDenominators :: "nat list \<Rightarrow> field_word list result" where
  "computeDenominators xs =
     and_then (assert_points [] xs) (\<lambda>_.
       Inr (map (\<lambda>i. basis_product xs i (evaluation_point (xs ! i))) [0..<length xs]))"

fun interpolate_loop ::
    "nat list \<Rightarrow> field_word list \<Rightarrow> field_word list \<Rightarrow> field_word \<Rightarrow> nat list \<Rightarrow> field_word \<Rightarrow> field_word result" where
  "interpolate_loop xs ys ds t [] r = Inr r"
| "interpolate_loop xs ys ds t (i # is) r =
     and_then (gf_div (basis_product xs i t) (ds ! i)) (\<lambda>basis.
       interpolate_loop xs ys ds t is (gf_add r (gf_mul (ys ! i) basis)))"

definition interpolateWithDenominators ::
    "nat list \<Rightarrow> field_word list \<Rightarrow> field_word list \<Rightarrow> field_word \<Rightarrow> field_word result" where
  "interpolateWithDenominators xs ys ds t = interpolate_loop xs ys ds t [0..<length xs] 0"

section \<open>The encoder\<close>

datatype EncoderState =
    Points "field_word list list"
  | Polys "field_word list list"

record PolyEncoder =
  enc_k :: nat
  parityChunks :: nat
  totalChunks :: nat
  enc_state :: EncoderState
  dataChunks :: "bytes list"
  currentChunkIdx :: nat
  originalDataSize :: nat
  enc_denominators :: "field_word list"

definition pad_data :: "nat \<Rightarrow> bytes \<Rightarrow> bytes" where
  "pad_data k data = data @ replicate (k * CHUNK_SIZE - length data) 0"

definition parseDataToPoints :: "nat \<Rightarrow> bytes \<Rightarrow> field_word list list" where
  "parseDataToPoints k data =
     (let padded = pad_data k data
      in map (\<lambda>polyIdx. map (\<lambda>chunkIdx.
             let byteOffset = chunkIdx * CHUNK_SIZE + polyIdx * 2
             in read_element (padded ! byteOffset) (padded ! (byteOffset + 1))) [0..<k]) [0..<NUM_POLYS])"

definition extractDataChunks :: "nat \<Rightarrow> bytes \<Rightarrow> bytes list" where
  "extractDataChunks k data =
     (let padded = pad_data k data
      in map (\<lambda>chunkIdx. js_slice (chunkIdx * CHUNK_SIZE) ((chunkIdx + 1) * CHUNK_SIZE) padded) [0..<k])"

definition createEncoder :: "bytes \<Rightarrow> PolyEncoder result" where
  "createEncoder data =
     (if data = [] then Inl (PlainError ''Cannot encode empty data'')
      else if length data > MAX_MESSAGE_SIZE
        then Inl (PlainError ''Message size exceeds maximum for interleaved encoding'')
      else let k = chunk_count (length data)
           in and_then (computeDenominators [0..<k]) (\<lambda>ds.
                Inr \<lparr>enc_k = k, parityChunks = 0, totalChunks = k, enc_state = Points (parseDataToPoints k data),
                  dataChunks = extractDataChunks k data, currentChunkIdx = 0, originalDataSize = length data,
                  enc_denominators = ds\<rparr>))"

definition restoreEncoderAt :: "bytes \<Rightarrow> int \<Rightarrow> PolyEncoder result" where
  "restoreEncoderAt data currentChunkIndex =
     and_then (assertBraidEncoderCursor currentChunkIndex) (\<lambda>cursor.
       and_then (createEncoder data) (\<lambda>encoder.
         let parity = max 0 (cursor - enc_k encoder)
         in Inr (encoder\<lparr>currentChunkIdx := cursor, parityChunks := parity, totalChunks := enc_k encoder + parity\<rparr>)))"

text \<open>The table of divided differences, one column per round, each updated in place from its end.\<close>

fun divided_round :: "nat \<Rightarrow> nat list \<Rightarrow> field_word list \<Rightarrow> field_word list result" where
  "divided_round j [] divDiff = Inr divDiff"
| "divided_round j (i # is) divDiff =
     and_then (gf_div (divDiff ! i XOR divDiff ! (i - 1)) (evaluation_point i XOR evaluation_point (i - j))) (\<lambda>q.
       divided_round j is (divDiff[i := q]))"

fun divided_rounds :: "nat list \<Rightarrow> field_word list \<Rightarrow> field_word list result" where
  "divided_rounds [] divDiff = Inr divDiff"
| "divided_rounds (j # js) divDiff =
     and_then (divided_round j (rev [j..<length divDiff]) divDiff) (divided_rounds js)"

definition expand_round :: "nat \<Rightarrow> field_word list \<Rightarrow> field_word list" where
  "expand_round j expansion =
     (let e = fold (\<lambda>i e. e[i := gf_add (e ! (i - 1)) (gf_mul (e ! i) (evaluation_point (j - 1)))])
                (rev [1..<j + 1]) expansion
      in e[0 := gf_mul (e ! 0) (evaluation_point (j - 1))])"

definition newton_step ::
    "field_word list \<Rightarrow> nat \<Rightarrow> field_word list \<times> field_word list \<Rightarrow> field_word list \<times> field_word list" where
  "newton_step divDiff j = (\<lambda>(coeffs, expansion).
     let e = expand_round j expansion
     in (fold (\<lambda>i c. c[i := gf_add (c ! i) (gf_mul (divDiff ! j) (e ! i))]) [0..<j + 1] coeffs, e))"

definition computePolynomialCoefficients :: "field_word list \<Rightarrow> field_word list result" where
  "computePolynomialCoefficients ys =
     (let k = length ys
      in if k = 0 then Inr []
         else if k = 1 then Inr [ys ! 0]
         else and_then (divided_rounds [1..<k] ys) (\<lambda>divDiff.
           let coeffs = (replicate k 0)[0 := divDiff ! 0]; expansion = (replicate k 0)[0 := 1]
           in Inr (fst (fold (newton_step divDiff) [1..<k] (coeffs, expansion)))))"

definition evaluatePolynomial :: "field_word list \<Rightarrow> field_word \<Rightarrow> field_word" where
  "evaluatePolynomial coeffs x =
     (case rev coeffs of
        [] \<Rightarrow> 0
      | c # cs \<Rightarrow> fold (\<lambda>a r. gf_add (gf_mul r x) a) cs c)"

definition convertToPolynomials :: "PolyEncoder \<Rightarrow> PolyEncoder result" where
  "convertToPolynomials e =
     (case enc_state e of
        Polys _ \<Rightarrow> Inr e
      | Points pointVectors \<Rightarrow>
          and_then (map_result computePolynomialCoefficients pointVectors) (\<lambda>polys.
            Inr (e\<lparr>enc_state := Polys polys\<rparr>)))"

definition evaluate_polys :: "PolyEncoder \<Rightarrow> nat \<Rightarrow> nat \<Rightarrow> field_word" where
  "evaluate_polys e polyIdx chunkIdx =
     (case enc_state e of
        Polys polys \<Rightarrow> evaluatePolynomial (polys ! polyIdx) (evaluation_point chunkIdx)
      | Points _ \<Rightarrow> 0)"

definition pointAt :: "PolyEncoder \<Rightarrow> nat \<Rightarrow> nat \<Rightarrow> (field_word \<times> PolyEncoder) result" where
  "pointAt e polyIdx chunkIdx =
     (case enc_state e of
        Points points \<Rightarrow>
          (if chunkIdx < length (points ! polyIdx) then Inr (points ! polyIdx ! chunkIdx, e)
           else and_then (convertToPolynomials e) (\<lambda>e'. Inr (evaluate_polys e' polyIdx chunkIdx, e')))
      | Polys _ \<Rightarrow> Inr (evaluate_polys e polyIdx chunkIdx, e))"

fun parity_loop :: "nat \<Rightarrow> nat list \<Rightarrow> PolyEncoder \<Rightarrow> (bytes \<times> PolyEncoder) result" where
  "parity_loop chunkIndex [] e = Inr ([], e)"
| "parity_loop chunkIndex (polyIdx # ps) e =
     and_then (pointAt e polyIdx chunkIndex) (\<lambda>(v, e').
       and_then (parity_loop chunkIndex ps e') (\<lambda>(bs, e''). Inr (write_element v @ bs, e'')))"

definition generateParityChunk :: "PolyEncoder \<Rightarrow> nat \<Rightarrow> (bytes \<times> PolyEncoder) result" where
  "generateParityChunk e chunkIndex = parity_loop chunkIndex [0..<NUM_POLYS] e"

definition hasMoreChunks :: "PolyEncoder \<Rightarrow> bool" where
  "hasMoreChunks e \<longleftrightarrow> currentChunkIdx e < BRAID_CHUNK_POINT_COUNT"

definition isDataComplete :: "PolyEncoder \<Rightarrow> bool" where
  "isDataComplete e \<longleftrightarrow> currentChunkIdx e \<ge> enc_k e"

definition nextChunk :: "PolyEncoder \<Rightarrow> (bytes \<times> PolyEncoder) result" where
  "nextChunk e =
     (if \<not> hasMoreChunks e then Inl (PlainError ''Braid encoder exhausted all GF(2^16) points'')
      else let idx = currentChunkIdx e; e1 = e\<lparr>currentChunkIdx := idx + 1\<rparr>
           in if idx < enc_k e then Inr (dataChunks e ! idx, e1)
              else let parity = idx - enc_k e + 1
                   in generateParityChunk (e1\<lparr>parityChunks := parity, totalChunks := enc_k e + parity\<rparr>) idx)"

text \<open>The next \<open>n\<close> chunks.\<close>

primrec next_chunks :: "nat \<Rightarrow> PolyEncoder \<Rightarrow> (bytes list \<times> PolyEncoder) result" where
  "next_chunks 0 e = Inr ([], e)"
| "next_chunks (Suc n) e =
     and_then (nextChunk e) (\<lambda>(c, e'). and_then (next_chunks n e') (\<lambda>(cs, e''). Inr (c # cs, e'')))"

section \<open>The decoder\<close>

text \<open>The map of received chunks keeps the order of their arrival.\<close>

record PolyDecoder =
  dec_k :: nat
  dec_totalChunks :: nat
  receivedChunks :: "(nat \<times> bytes) list"
  dec_messageSize :: nat
  totalShardsSet :: bool

definition createDecoder :: "nat \<Rightarrow> PolyDecoder result" where
  "createDecoder messageSize =
     (if messageSize = 0 then Inl (PlainError ''Message size must be positive'')
      else if messageSize > MAX_MESSAGE_SIZE
        then Inl (PlainError ''Message size exceeds maximum for interleaved decoding'')
      else Inr \<lparr>dec_k = chunk_count messageSize, dec_totalChunks = chunk_count messageSize, receivedChunks = [],
             dec_messageSize = messageSize, totalShardsSet = False\<rparr>)"

definition addChunk :: "PolyDecoder \<Rightarrow> int \<Rightarrow> bytes \<Rightarrow> PolyDecoder result" where
  "addChunk d chunkIndex chunk =
     and_then (assertBraidChunkIndex chunkIndex) (\<lambda>i.
       if totalShardsSet d \<and> i \<ge> dec_totalChunks d then Inl (PlainError ''Chunk index exceeds maximum'')
       else if chunk = [] then Inl (PlainError ''Chunk cannot be empty'')
       else if length chunk \<noteq> CHUNK_SIZE then Inl (PlainError ''Invalid chunk size'')
       else case map_of (receivedChunks d) i of
              Some existing \<Rightarrow>
                if existing \<noteq> chunk then Inl (PlainError ''Conflicting duplicate chunk at index'') else Inr d
            | None \<Rightarrow> Inr (d\<lparr>receivedChunks := receivedChunks d @ [(i, chunk)]\<rparr>))"

text \<open>All chunks of a map, in its order (\<open>getDecodedMessage\<close> of the state machine).\<close>

primrec add_chunks :: "PolyDecoder \<Rightarrow> (nat \<times> bytes) list \<Rightarrow> PolyDecoder result" where
  "add_chunks d [] = Inr d"
| "add_chunks d (c # cs) = and_then (addChunk d (int (fst c)) (snd c)) (\<lambda>d. add_chunks d cs)"

definition hasMessage :: "PolyDecoder \<Rightarrow> bool" where
  "hasMessage d \<longleftrightarrow> length (receivedChunks d) \<ge> dec_k d"

definition setTotalShards :: "PolyDecoder \<Rightarrow> int \<Rightarrow> PolyDecoder result" where
  "setTotalShards d n =
     (if n < int (dec_k d) \<or> n > int BRAID_CHUNK_POINT_COUNT
      then Inl (PlainError ''Total shard count must be an integer'')
      else Inr (d\<lparr>dec_totalChunks := nat n, totalShardsSet := True\<rparr>))"

definition element_of :: "bytes \<Rightarrow> nat \<Rightarrow> field_word" where
  "element_of chunk polyIdx = read_element (chunk ! (polyIdx * 2)) (chunk ! (polyIdx * 2 + 1))"

definition recover_chunk :: "(nat \<times> bytes) list \<Rightarrow> field_word list \<Rightarrow> nat \<Rightarrow> bytes result" where
  "recover_chunk available ds missingIdx =
     and_then (map_result (\<lambda>polyIdx.
         interpolateWithDenominators (map fst available) (map (\<lambda>(i, chunk). element_of chunk polyIdx) available) ds
           (evaluation_point missingIdx)) [0..<NUM_POLYS]) (\<lambda>vs.
       Inr (concat (map write_element vs)))"

text \<open>The chunks are copied one after the other while room is left in the message.\<close>

fun copy_chunks :: "nat \<Rightarrow> bytes list \<Rightarrow> bytes" where
  "copy_chunks remaining [] = zeros remaining"
| "copy_chunks remaining (chunk # chunks) =
     (if remaining = 0 then []
      else let copyLen = min CHUNK_SIZE remaining
           in take copyLen chunk @ copy_chunks (remaining - copyLen) chunks)"

definition message_of :: "PolyDecoder \<Rightarrow> bytes option result" where
  "message_of d =
     (if \<not> hasMessage d then Inr None
      else let k = dec_k d; received = map_of (receivedChunks d);
               missing = filter (\<lambda>i. received i = None) [0..<k]
           in if missing = [] then Inr (Some (copy_chunks (dec_messageSize d) (map (\<lambda>i. the (received i)) [0..<k])))
              else let available = take k (receivedChunks d)
                   in and_then (computeDenominators (map fst available)) (\<lambda>ds.
                        and_then (map_result (\<lambda>i. and_then (recover_chunk available ds i) (\<lambda>c. Inr (i, c))) missing) (\<lambda>recovered.
                          Inr (Some (copy_chunks (dec_messageSize d)
                            (map (\<lambda>i. case map_of recovered i of Some c \<Rightarrow> c | None \<Rightarrow> the (received i)) [0..<k]))))))"


section \<open>The loops as sums and products of the field\<close>

named_theorems gf_simps \<open>the operations of the tables, as arithmetic of the field\<close>

lemma GF_add [gf_simps]: "GF (gf_add a b) = GF a + GF b" by (simp add: plus_gf16_def)
lemma GF_xor [gf_simps]: "GF (a XOR b) = GF a - GF b" by (simp add: minus_gf16_def gf_add_def)
lemma GF_mul [gf_simps]: "GF (gf_mul a b) = GF a * GF b" by (simp add: times_gf16_def)
lemma GF_0 [gf_simps]: "GF 0 = 0" by (simp add: zero_gf16_def)
lemma GF_1 [gf_simps]: "GF 1 = 1" by (simp add: one_gf16_def)

lemma gf16_plus_minus: "(a :: gf16) + b = a - b" by (simp add: plus_gf16_def minus_gf16_def)

lemma gf_div_GF: "GF b \<noteq> 0 \<Longrightarrow> gf_div a b = Inr (gf_word (GF a / GF b))"
  using gf_div_field [of "GF b" "GF a"] by simp

abbreviation point :: "nat \<Rightarrow> gf16" where "point i \<equiv> GF (evaluation_point i)"

lemma point_inj: "i < 65536 \<Longrightarrow> j < 65536 \<Longrightarrow> point i = point j \<Longrightarrow> i = j"
proof -
  have u: "unat (evaluation_point n) = n" if "n < 65536" for n
    using that by (simp add: evaluation_point_def unat_of_nat take_bit_nat_eq_self_iff)
  show "i < 65536 \<Longrightarrow> j < 65536 \<Longrightarrow> point i = point j \<Longrightarrow> i = j" by (metis gf16.inject u)
qed

lemma point_inj_on: "A \<subseteq> {..<65536} \<Longrightarrow> inj_on point A"
  by (rule inj_onI) (auto intro: point_inj)

lemma point_nth_inj:
  "set xs \<subseteq> {..<65536} \<Longrightarrow> distinct xs \<Longrightarrow> i < length xs \<Longrightarrow> j < length xs \<Longrightarrow>
   point (xs ! i) = point (xs ! j) \<Longrightarrow> i = j"
  by (metis lessThan_iff nth_eq_iff_index_eq nth_mem point_inj subsetD)

lemma fold_product:
  "GF (fold (\<lambda>j d. if i \<noteq> j then gf_mul d (f j) else d) [0..<n] 1) = (\<Prod>j\<in>{..<n} - {i}. GF (f j))"
proof (induction n)
  case (Suc n)
  have "{..<Suc n} - {i} = (if i = n then {..<n} - {i} else insert n ({..<n} - {i}))" by auto
  moreover have "{..<n} - {n} = {..<n}" by auto
  ultimately show ?case using Suc by (cases "i = n") (simp_all add: gf_simps mult.commute)
qed (simp add: gf_simps)

lemma basis_product_field: "GF (basis_product xs i t) = (\<Prod>j\<in>{..<length xs} - {i}. GF t - point (xs ! j))"
  by (simp add: basis_product_def fold_product gf_simps)

lemma assert_points_ok:
  "assert_points seen xs = Inr () \<longleftrightarrow> set xs \<subseteq> {..<65536} \<and> distinct xs \<and> set xs \<inter> set seen = {}"
  by (induction seen xs rule: assert_points.induct) auto

lemma computeDenominators_ok:
  "set xs \<subseteq> {..<65536} \<Longrightarrow> distinct xs \<Longrightarrow>
   computeDenominators xs = Inr (map (\<lambda>i. basis_product xs i (evaluation_point (xs ! i))) [0..<length xs])"
  using assert_points_ok [of "[]" xs] by (simp add: computeDenominators_def)

lemma denominator_nonzero:
  assumes "set xs \<subseteq> {..<65536}" and "distinct xs" and "i < length xs"
  shows "GF (basis_product xs i (evaluation_point (xs ! i))) \<noteq> 0"
proof -
  have "point (xs ! i) - point (xs ! j) \<noteq> 0" if "j \<in> {..<length xs} - {i}" for j
    using point_nth_inj [OF assms, of j] that by auto
  then show ?thesis by (simp add: basis_product_field prod_zero_iff)
qed

lemma interpolate_loop_field:
  "\<forall>i \<in> set is. GF (ds ! i) \<noteq> 0 \<Longrightarrow> interpolate_loop xs ys ds t is r =
   Inr (gf_word (GF r + sum_list (map (\<lambda>i. GF (ys ! i) * (GF (basis_product xs i t) / GF (ds ! i))) is)))"
proof (induction "is" arbitrary: r)
  case (Cons i "is")
  then show ?case by (simp add: gf_div_GF gf_simps add.assoc)
qed simp

text \<open>Lagrange's formula, as the code computes it, gives the value of the polynomial.\<close>

lemma interpolation_correct:
  assumes f: "poly_fun (length xs) f" and xs: "set xs \<subseteq> {..<65536}" "distinct xs"
    and ds: "computeDenominators xs = Inr ds" and ys: "\<And>i. i < length xs \<Longrightarrow> GF (ys ! i) = f (point (xs ! i))"
  shows "interpolateWithDenominators xs ys ds t = Inr (gf_word (f (GF t)))"
proof -
  let ?n = "length xs" and ?x = "\<lambda>i. point (xs ! i)"
  have ds': "ds ! i = basis_product xs i (evaluation_point (xs ! i))" if "i < ?n" for i
    using ds computeDenominators_ok [OF xs] that by auto
  have "inj_on ?x {0..<?n}"
    by (intro inj_onI) (use point_nth_inj [OF xs] in auto)
  then have "distinct (map ?x [0..<?n])" by (simp add: distinct_map)
  note sum = lagrange [OF f this, of "GF t"]
  have "(\<Sum>i\<leftarrow>[0..<?n]. GF (ys ! i) * (GF (basis_product xs i t) / GF (ds ! i))) = f (GF t)"
    unfolding sum [symmetric] by (simp add: sum_set_upt_conv_sum_list_nat [symmetric] atLeast0LessThan ys ds' basis_product_field)
  then show ?thesis
    unfolding interpolateWithDenominators_def
    by (subst interpolate_loop_field) (simp_all add: ds' denominator_nonzero [OF xs] gf_simps)
qed

section \<open>Updates in place\<close>

lemma fold_update_down:
  "length e > j \<Longrightarrow> length (fold (\<lambda>i e. e[i := g i (e ! (i - 1)) (e ! i)]) (rev [1..<Suc j]) e) = length e \<and>
   (\<forall>n < length e. fold (\<lambda>i e. e[i := g i (e ! (i - 1)) (e ! i)]) (rev [1..<Suc j]) e ! n
     = (if 1 \<le> n \<and> n \<le> j then g n (e ! (n - 1)) (e ! n) else e ! n))"
proof (induction j arbitrary: e)
  case (Suc j)
  let ?e = "e[Suc j := g (Suc j) (e ! j) (e ! Suc j)]"
  have step: "fold (\<lambda>i e. e[i := g i (e ! (i - 1)) (e ! i)]) (rev [1..<Suc (Suc j)]) e =
      fold (\<lambda>i e. e[i := g i (e ! (i - 1)) (e ! i)]) (rev [1..<Suc j]) ?e" by simp
  have IH: "length (fold (\<lambda>i e. e[i := g i (e ! (i - 1)) (e ! i)]) (rev [1..<Suc j]) ?e) = length ?e \<and>
   (\<forall>n < length ?e. fold (\<lambda>i e. e[i := g i (e ! (i - 1)) (e ! i)]) (rev [1..<Suc j]) ?e ! n
     = (if 1 \<le> n \<and> n \<le> j then g n (?e ! (n - 1)) (?e ! n) else ?e ! n))"
    by (rule Suc.IH) (use Suc.prems in simp)
  have "(if 1 \<le> n \<and> n \<le> j then g n (?e ! (n - 1)) (?e ! n) else ?e ! n) =
      (if 1 \<le> n \<and> n \<le> Suc j then g n (e ! (n - 1)) (e ! n) else e ! n)" if "n < length e" for n
    using that by (cases "n = Suc j") (auto simp: nth_list_update)
  with IH show ?case unfolding step by simp
qed simp

lemma fold_update_up:
  "m \<le> length c \<Longrightarrow> length (fold (\<lambda>i c. c[i := h i (c ! i)]) [0..<m] c) = length c \<and>
   (\<forall>n < length c. fold (\<lambda>i c. c[i := h i (c ! i)]) [0..<m] c ! n = (if n < m then h n (c ! n) else c ! n))"
  by (induction m) (auto simp: nth_list_update less_Suc_eq)


section \<open>The coefficients interpolate the points\<close>

lemma divided_round_step:
  assumes "1 \<le> j" and "j \<le> m" and "k \<le> 65536" and "k \<le> length d"
  shows "\<exists>d'. divided_round j (rev [m..<k]) d = Inr d' \<and> length d' = length d \<and>
    (\<forall>i < length d. d' ! i = (if m \<le> i \<and> i < k then gf_word ((GF (d ! i) - GF (d ! (i - 1))) / (point i - point (i - j))) else d ! i))"
  using assms(3,4)
proof (induction k arbitrary: d)
  case (Suc k)
  show ?case
  proof (cases "m \<le> k")
    case True
    let ?q = "gf_word ((GF (d ! k) - GF (d ! (k - 1))) / (point k - point (k - j)))"
    have "point k \<noteq> point (k - j)" using point_inj [of k "k - j"] Suc.prems True assms(1,2) by (metis diff_less
      diff_le_self le_less_trans le_trans less_irrefl less_le_trans zero_less_one Suc_le_lessD)
    then have "point k - point (k - j) \<noteq> 0" by simp
    then have div: "gf_div (d ! k XOR d ! (k - 1)) (evaluation_point k XOR evaluation_point (k - j)) = Inr ?q"
      by (simp add: gf_div_GF gf_simps)
    obtain d' where d': "divided_round j (rev [m..<k]) (d[k := ?q]) = Inr d'" "length d' = length (d[k := ?q])"
      "\<forall>i < length (d[k := ?q]). d' ! i = (if m \<le> i \<and> i < k
         then gf_word ((GF (d[k := ?q] ! i) - GF (d[k := ?q] ! (i - 1))) / (point i - point (i - j))) else d[k := ?q] ! i)"
      using Suc.IH [of "d[k := ?q]"] Suc.prems by auto
    show ?thesis
      by (rule exI [of _ d']) (use d' div True Suc.prems in \<open>auto simp: nth_list_update less_Suc_eq\<close>)
  qed auto
qed simp

text \<open>After the rounds below \<open>j\<close>, place \<open>i\<close> holds the difference of the last \<open>min i (j - 1)\<close> places.\<close>

definition rounds_done :: "field_word list \<Rightarrow> nat \<Rightarrow> field_word list \<Rightarrow> bool" where
  "rounds_done ys j d \<longleftrightarrow> length d = length ys \<and>
     (\<forall>i < length ys. GF (d ! i) = dd point (\<lambda>n. GF (ys ! n)) (min i (j - 1)) (i - min i (j - 1)))"

lemma divided_rounds_step:
  assumes d: "rounds_done ys j d" and j: "1 \<le> j" and k: "length ys \<le> 65536"
  shows "\<exists>d'. divided_round j (rev [j..<length d]) d = Inr d' \<and> rounds_done ys (Suc j) d'"
proof -
  have len: "length d = length ys" using d by (simp add: rounds_done_def)
  obtain d' where d': "divided_round j (rev [j..<length d]) d = Inr d'" "length d' = length d"
    "\<And>i. i < length d \<Longrightarrow> d' ! i = (if j \<le> i \<and> i < length d
        then gf_word ((GF (d ! i) - GF (d ! (i - 1))) / (point i - point (i - j))) else d ! i)"
    using divided_round_step [of j j "length d" d] j k len by auto
  have "GF (d' ! i) = dd point (\<lambda>n. GF (ys ! n)) (min i j) (i - min i j)" if i: "i < length ys" for i
  proof (cases "j \<le> i")
    case True
    let ?D = "\<lambda>i. dd point (\<lambda>n. GF (ys ! n)) (min i (j - 1)) (i - min i (j - 1))"
    have "GF (d ! i) = ?D i" "GF (d ! (i - 1)) = ?D (i - 1)" using d i by (auto simp: rounds_done_def)
    then have "GF (d ! i) = dd point (\<lambda>n. GF (ys ! n)) (j - 1) (Suc (i - j))"
      and "GF (d ! (i - 1)) = dd point (\<lambda>n. GF (ys ! n)) (j - 1) (i - j)"
      using True j by (simp_all add: min_absorb2 Suc_diff_le)
    then show ?thesis using d'(3) [of i] True i j len by (cases j) (simp_all add: min_absorb2)
  next
    case False
    then show ?thesis using d d'(3) [of i] i len by (auto simp: rounds_done_def)
  qed
  then show ?thesis using d'(1,2) len by (auto simp: rounds_done_def)
qed

lemma divided_rounds_all:
  "rounds_done ys j d \<Longrightarrow> 1 \<le> j \<Longrightarrow> j \<le> k \<Longrightarrow> length ys \<le> 65536 \<Longrightarrow>
   \<exists>d'. divided_rounds [j..<k] d = Inr d' \<and> rounds_done ys k d'"
proof (induction "k - j" arbitrary: j d)
  case (Suc n)
  then obtain d' where "divided_round j (rev [j..<length d]) d = Inr d'" "rounds_done ys (Suc j) d'"
    using divided_rounds_step by blast
  then show ?case using Suc.hyps(1) [of "Suc j" d'] Suc.hyps(2) Suc.prems by (simp add: upt_conv_Cons)
qed auto

text \<open>The value of a list of coefficients.\<close>

definition peval :: "field_word list \<Rightarrow> gf16 \<Rightarrow> gf16" where
  "peval cs z = (\<Sum>i<length cs. GF (cs ! i) * z ^ i)"

lemma peval_poly: "length cs \<le> n \<Longrightarrow> poly_fun n (peval cs)"
  by (rule poly_fun_mono [of "length cs"], rule poly_funI [where c = "\<lambda>i. GF (cs ! i)"]) (simp_all add: peval_def)

lemma peval_Cons: "peval (a # cs) z = GF a + z * peval cs z"
  by (simp add: peval_def sum.lessThan_Suc_shift sum_distrib_left mult.left_commute del: sum.lessThan_Suc)

lemma evaluate_Cons:
  "cs \<noteq> [] \<Longrightarrow> evaluatePolynomial (a # cs) x = gf_add (gf_mul (evaluatePolynomial cs x) x) a"
  by (cases "rev cs") (simp_all add: evaluatePolynomial_def)

lemma evaluate_peval: "GF (evaluatePolynomial cs x) = peval cs (GF x)"
proof (induction cs)
  case (Cons a cs)
  then show ?case
    by (cases "cs = []") (simp_all add: evaluate_Cons peval_Cons gf_simps mult.commute add.commute,
      simp add: evaluatePolynomial_def peval_def)
qed (simp add: evaluatePolynomial_def peval_def gf_simps)

text \<open>The expansion after round \<open>j\<close> is the product of the first \<open>j\<close> factors.\<close>

definition expands :: "nat \<Rightarrow> nat \<Rightarrow> field_word list \<Rightarrow> bool" where
  "expands k j e \<longleftrightarrow> length e = k \<and> (\<forall>i < k. j < i \<longrightarrow> e ! i = 0) \<and> (\<forall>z. peval e z = node_product point 0 j z)"

lemma expand_round_nth:
  assumes "1 \<le> j" "j < length e"
  shows "length (expand_round j e) = length e"
    and "n < length e \<Longrightarrow> GF (expand_round j e ! n) =
      (if n = 0 then 0 else if n \<le> j then GF (e ! (n - 1)) else 0)
       + (if n \<le> j then point (j - 1) * GF (e ! n) else GF (e ! n))"
proof -
  note f = fold_update_down [of j e "\<lambda>i a b. gf_add a (gf_mul b (evaluation_point (j - 1)))", OF assms(2)]
  show "length (expand_round j e) = length e" using f by (simp add: expand_round_def Let_def)
  show "GF (expand_round j e ! n) = (if n = 0 then 0 else if n \<le> j then GF (e ! (n - 1)) else 0)
       + (if n \<le> j then point (j - 1) * GF (e ! n) else GF (e ! n))" if "n < length e"
    using f that by (cases "n = 0") (auto simp: expand_round_def Let_def nth_list_update gf_simps mult.commute)
qed

lemma expand_round_correct:
  assumes e: "expands k (j - 1) e" and j: "1 \<le> j" "j < k"
  shows "expands k j (expand_round j e)"
proof -
  have len: "length e = k" and zero: "\<And>i. i < k \<Longrightarrow> j - 1 < i \<Longrightarrow> GF (e ! i) = 0"
    and prod: "\<And>z. peval e z = node_product point 0 (j - 1) z"
    using e by (auto simp: expands_def gf_simps)
  have nth: "GF (expand_round j e ! n) = (if n = 0 then 0 else GF (e ! (n - 1))) + point (j - 1) * GF (e ! n)" if "n < k" for n
    using expand_round_nth(2) [of j e n] zero [of n] zero [of "n - 1"] that j len by auto
  have step: "peval (expand_round j e) z = z * peval e z + point (j - 1) * peval e z" for z
  proof -
    obtain m where m: "k = Suc m" using j by (cases k) auto
    have "(\<Sum>i<k. (if i = 0 then 0 else GF (e ! (i - 1))) * z ^ i) = (\<Sum>i<m. GF (e ! i) * z ^ Suc i)"
      unfolding m by (simp add: sum.lessThan_Suc_shift del: sum.lessThan_Suc)
    also have "\<dots> = z * peval e z"
      using zero [of m] j by (simp add: peval_def len m sum_distrib_left mult.left_commute)
    finally show ?thesis
      using j len by (simp add: peval_def expand_round_nth(1) nth distrib_right sum.distrib sum_distrib_left mult.assoc)
  qed
  have "peval (expand_round j e) z = node_product point 0 j z" for z
  proof -
    have "z * peval e z + point (j - 1) * peval e z = peval e z * (z - point (0 + (j - 1)))"
      unfolding distrib_right [symmetric] gf16_plus_minus [of z] by (simp add: mult.commute)
    also have "\<dots> = node_product point 0 (Suc (j - 1)) z" by (simp only: prod node_product_Suc)
    finally show ?thesis using step [of z] j by simp
  qed
  moreover have "GF (expand_round j e ! i) = 0" if "i < k" "j < i" for i
    using nth [OF that(1)] zero [of i] zero [of "i - 1"] that j by simp
  ultimately show ?thesis using expand_round_nth(1) [of j e] j len
    by (simp add: expands_def) (metis gf16.inject zero_gf16_def)
qed

definition newton_done :: "field_word list \<Rightarrow> field_word list \<Rightarrow> nat \<Rightarrow> field_word list \<times> field_word list \<Rightarrow> bool" where
  "newton_done ys d j ce \<longleftrightarrow> expands (length ys) j (snd ce) \<and> length (fst ce) = length ys \<and>
     (\<forall>z. peval (fst ce) z = newton point (\<lambda>n. GF (ys ! n)) 0 (Suc j) z)"

lemma peval_add:
  assumes "length c = k" "length c' = k" "length e = k" "\<And>i. i < k \<Longrightarrow> GF (c' ! i) = GF (c ! i) + a * GF (e ! i)"
  shows "peval c' z = peval c z + a * peval e z"
  using assms by (simp add: peval_def distrib_right sum.distrib sum_distrib_left mult.assoc)

lemma newton_step_correct:
  assumes ce: "newton_done ys d (j - 1) ce" and d: "rounds_done ys (length ys) d" and j: "1 \<le> j" "j < length ys"
  shows "newton_done ys d j (newton_step d j ce)"
proof -
  obtain c e where [simp]: "ce = (c, e)" by (cases ce)
  let ?e = "expand_round j e" and ?k = "length ys"
  let ?c = "fold (\<lambda>i c. c[i := gf_add (c ! i) (gf_mul (d ! j) (?e ! i))]) [0..<j + 1] c"
  have e: "expands ?k j ?e" using ce j by (intro expand_round_correct) (simp_all add: newton_done_def)
  have c: "length c = ?k" "\<And>z. peval c z = newton point (\<lambda>n. GF (ys ! n)) 0 j z"
    using ce j by (simp_all add: newton_done_def)
  have up: "length ?c = ?k" "\<And>i. i < ?k \<Longrightarrow> ?c ! i = (if i < j + 1 then gf_add (c ! i) (gf_mul (d ! j) (?e ! i)) else c ! i)"
    using fold_update_up [of "j + 1" c "\<lambda>i a. gf_add a (gf_mul (d ! j) (?e ! i))"] c(1) j by auto
  have "GF (?c ! i) = GF (c ! i) + GF (d ! j) * GF (?e ! i)" if "i < ?k" for i
    using up(2) [OF that] e that by (auto simp: expands_def gf_simps)
  then have "peval ?c z = peval c z + GF (d ! j) * peval ?e z" for z
    using e c(1) up(1) by (intro peval_add) (simp_all add: expands_def)
  moreover have "GF (d ! j) = dd point (\<lambda>n. GF (ys ! n)) j 0" using d j by (simp add: rounds_done_def min_absorb1)
  ultimately have "peval ?c z = newton point (\<lambda>n. GF (ys ! n)) 0 (Suc j) z" for z
    using e by (simp add: c(2) newton_def expands_def)
  then show ?thesis using e up(1) by (simp add: newton_done_def newton_step_def Let_def)
qed

lemma newton_fold:
  "newton_done ys d 0 ce \<Longrightarrow> rounds_done ys (length ys) d \<Longrightarrow> k < length ys \<Longrightarrow>
   newton_done ys d k (fold (newton_step d) [1..<Suc k] ce)"
proof (induction k)
  case (Suc k)
  then show ?case using newton_step_correct [of ys d "Suc k" "fold (newton_step d) [1..<Suc k] ce"] by simp
qed simp

lemma peval_replicate: "peval (replicate k 0) z = 0" by (simp add: peval_def gf_simps)

lemma peval_first: "0 < k \<Longrightarrow> peval ((replicate k 0)[0 := a]) z = GF a"
  by (cases k) (simp_all add: peval_Cons peval_replicate)

lemma coefficients_interpolate:
  assumes k: "length ys \<le> 65536"
  shows "\<exists>cs. computePolynomialCoefficients ys = Inr cs \<and> length cs = length ys \<and>
    (\<forall>i < length ys. peval cs (point i) = GF (ys ! i))"
proof -
  consider "length ys = 0" | "length ys = 1" | "1 < length ys" by linarith
  then show ?thesis
  proof cases
    case 2
    then show ?thesis by (cases ys) (auto simp: computePolynomialCoefficients_def peval_Cons peval_def)
  next
    case 3
    have "rounds_done ys 1 ys" by (simp add: rounds_done_def)
    then obtain d where d: "divided_rounds [1..<length ys] ys = Inr d" "rounds_done ys (length ys) d"
      using divided_rounds_all [of ys 1 ys "length ys"] 3 k by auto
    let ?ce = "((replicate (length ys) 0)[0 := d ! 0], (replicate (length ys) 0)[0 := 1]) :: field_word list \<times> field_word list"
    have "GF (d ! 0) = GF (ys ! 0)" using d(2) 3 by (auto simp: rounds_done_def dest: spec [of _ 0])
    moreover have "0 < length ys" using 3 by linarith
    ultimately have "newton_done ys d 0 ?ce"
      by (auto simp: newton_done_def expands_def peval_first newton_def node_product_def gf_simps nth_list_update)
    then have fin: "newton_done ys d (length ys - 1) (fold (newton_step d) [1..<length ys] ?ce)"
      using newton_fold [of ys d ?ce "length ys - 1"] d(2) \<open>0 < length ys\<close> by (simp del: upt_Suc)
    have "inj_on point {0..<0 + length ys}" using k by (intro point_inj_on) auto
    then have "newton point (\<lambda>n. GF (ys ! n)) 0 (length ys) (point i) = GF (ys ! i)" if "i < length ys" for i
      using newton_interpolates [of point 0 "length ys" i "\<lambda>n. GF (ys ! n)"] that by simp
    then show ?thesis using fin d(1) 3 by (auto simp: computePolynomialCoefficients_def newton_done_def Let_def)
  qed (simp add: computePolynomialCoefficients_def)
qed


section \<open>The chunks of a message\<close>

lemma read_write: "read_element (ucast (drop_bit 8 v)) (ucast v) = v"
  by (rule bit_word_eqI) (auto simp: read_element_def bit_simps)

lemma write_read: "write_element (read_element hi lo) = [hi, lo]"
proof -
  have "ucast (drop_bit 8 (read_element hi lo)) = hi" "ucast (read_element hi lo) = lo"
    by (rule bit_word_eqI; auto simp: read_element_def bit_simps dest: bit_imp_le_length)+
  then show ?thesis by (simp add: write_element_def)
qed

text \<open>The bytes of 16 elements, and the elements of 32 bytes.\<close>

definition chunk_of_elements :: "(nat \<Rightarrow> field_word) \<Rightarrow> bytes" where
  "chunk_of_elements f = concat (map (\<lambda>p. write_element (f p)) [0..<NUM_POLYS])"

lemma concat_pairs_nth:
  "p < n \<Longrightarrow> concat (map (\<lambda>p. write_element (f p)) [0..<n]) ! (p * 2) = write_element (f p) ! 0 \<and>
    concat (map (\<lambda>p. write_element (f p)) [0..<n]) ! (p * 2 + 1) = write_element (f p) ! 1"
proof (induction n)
  case (Suc n)
  have len: "length (concat (map (\<lambda>p. write_element (f p)) [0..<n])) = n * 2"
    by (induction n) (simp_all add: write_element_def)
  show ?case
  proof (cases "p = n")
    case True
    then show ?thesis using len by (simp add: nth_append)
  next
    case False
    then have "p < n" "p * 2 + 1 < n * 2" using Suc.prems by simp_all
    then show ?thesis using Suc.IH len by (simp add: nth_append)
  qed
qed simp

lemma length_chunk_of_elements: "length (chunk_of_elements f) = CHUNK_SIZE"
  by (simp add: chunk_of_elements_def NUM_POLYS_def CHUNK_SIZE_def length_concat write_element_def sum_list_triv comp_def)

lemma element_chunk: "p < NUM_POLYS \<Longrightarrow> element_of (chunk_of_elements f) p = f p"
  using concat_pairs_nth [of p NUM_POLYS f] by (simp add: element_of_def chunk_of_elements_def write_element_def read_write)

lemma chunk_elements:
  assumes "length c = CHUNK_SIZE"
  shows "chunk_of_elements (element_of c) = c"
proof (rule nth_equalityI)
  fix i assume "i < length (chunk_of_elements (element_of c))"
  then have i: "i < 32" by (simp add: length_chunk_of_elements CHUNK_SIZE_def)
  have p: "i div 2 < NUM_POLYS" using i by (simp add: NUM_POLYS_def)
  have "i = i div 2 * 2 \<or> i = i div 2 * 2 + 1" by presburger
  then show "chunk_of_elements (element_of c) ! i = c ! i"
    using concat_pairs_nth [OF p, of "element_of c"] by (auto simp: chunk_of_elements_def element_of_def write_read)
qed (simp add: length_chunk_of_elements assms)

text \<open>The 16 polynomials of a message and its chunk at any point.\<close>

definition message_points :: "bytes \<Rightarrow> nat \<Rightarrow> field_word list" where
  "message_points data p = parseDataToPoints (chunk_count (length data)) data ! p"

definition message_poly :: "bytes \<Rightarrow> nat \<Rightarrow> gf16 \<Rightarrow> gf16" where
  "message_poly data p = peval (projr (computePolynomialCoefficients (message_points data p)))"

definition chunk_at :: "bytes \<Rightarrow> nat \<Rightarrow> bytes" where
  "chunk_at data i = chunk_of_elements (\<lambda>p. gf_word (message_poly data p (point i)))"

definition encodable :: "bytes \<Rightarrow> bool" where
  "encodable data \<longleftrightarrow> data \<noteq> [] \<and> length data \<le> MAX_MESSAGE_SIZE"

lemma chunk_count_bound: "encodable data \<Longrightarrow> chunk_count (length data) \<le> 36"
  by (simp add: encodable_def chunk_count_def MAX_MESSAGE_SIZE_def CHUNK_SIZE_def less_eq_div_iff_mult_less_eq div_le_mono
    order_trans [OF div_le_mono [of _ "1183" 32]])

lemma chunk_count_pos: "encodable data \<Longrightarrow> 0 < chunk_count (length data)"
  by (cases data) (simp_all add: encodable_def chunk_count_def CHUNK_SIZE_def)

lemma chunk_count_cover: "length data \<le> chunk_count (length data) * CHUNK_SIZE"
  by (simp add: chunk_count_def CHUNK_SIZE_def)

lemma length_pad_data: "length (pad_data (chunk_count (length data)) data) = chunk_count (length data) * CHUNK_SIZE"
  using chunk_count_cover [of data] by (simp add: pad_data_def)

lemma message_points_nth:
  assumes "p < NUM_POLYS" "i < chunk_count (length data)"
  shows "message_points data p ! i = element_of (extractDataChunks (chunk_count (length data)) data ! i) p"
    and "length (message_points data p) = chunk_count (length data)"
proof -
  let ?k = "chunk_count (length data)"
  let ?padded = "pad_data ?k data"
  have "i * CHUNK_SIZE + p * 2 + 1 < length ?padded"
    using assms length_pad_data [of data] by (simp add: CHUNK_SIZE_def NUM_POLYS_def)
  then show "message_points data p ! i = element_of (extractDataChunks ?k data ! i) p"
    using assms by (simp add: message_points_def parseDataToPoints_def extractDataChunks_def element_of_def js_slice_def Let_def
      NUM_POLYS_def CHUNK_SIZE_def)
  show "length (message_points data p) = ?k" using assms by (simp add: message_points_def parseDataToPoints_def Let_def)
qed

lemma message_coefficients:
  assumes data: "encodable data" and p: "p < NUM_POLYS"
  obtains cs where "computePolynomialCoefficients (message_points data p) = Inr cs" "length cs = chunk_count (length data)"
    "\<And>z. peval cs z = message_poly data p z"
    "\<And>i. i < chunk_count (length data) \<Longrightarrow> message_poly data p (point i) = GF (message_points data p ! i)"
proof -
  have len: "length (message_points data p) = chunk_count (length data)"
    using message_points_nth(2) [OF p chunk_count_pos [OF data]] .
  then obtain cs where "computePolynomialCoefficients (message_points data p) = Inr cs" "length cs = length (message_points data p)"
    "\<And>i. i < length (message_points data p) \<Longrightarrow> peval cs (point i) = GF (message_points data p ! i)"
    using coefficients_interpolate [of "message_points data p"] chunk_count_bound [OF data] by auto
  then show ?thesis using that len by (simp add: message_poly_def)
qed

lemma message_poly_degree: "encodable data \<Longrightarrow> p < NUM_POLYS \<Longrightarrow> poly_fun (chunk_count (length data)) (message_poly data p)"
proof -
  assume "encodable data" "p < NUM_POLYS"
  then obtain cs where cs: "length cs = chunk_count (length data)" "\<And>z. peval cs z = message_poly data p z"
    using message_coefficients by metis
  then have "message_poly data p = peval cs" by auto
  then show ?thesis using peval_poly cs(1) by simp
qed

text \<open>The chunk at a point below \<open>k\<close> is a chunk of the padded message.\<close>

lemma chunk_of_elements_cong: "(\<And>p. p < NUM_POLYS \<Longrightarrow> f p = g p) \<Longrightarrow> chunk_of_elements f = chunk_of_elements g"
  unfolding chunk_of_elements_def by (intro arg_cong [of _ _ concat] map_cong) simp_all

lemma data_chunk:
  assumes "encodable data" "i < chunk_count (length data)"
  shows "extractDataChunks (chunk_count (length data)) data ! i = chunk_at data i"
proof -
  let ?c = "extractDataChunks (chunk_count (length data)) data ! i"
  have "(i + 1) * CHUNK_SIZE \<le> chunk_count (length data) * CHUNK_SIZE" using assms(2) by (intro mult_le_mono) simp_all
  then have "length ?c = CHUNK_SIZE"
    using assms(2) length_pad_data [of data] by (simp add: extractDataChunks_def Let_def)
  moreover have "gf_word (message_poly data p (point i)) = element_of ?c p" if p: "p < NUM_POLYS" for p
    using message_coefficients [OF assms(1) p] message_points_nth(1) [OF p assms(2)] assms(2) by (metis gf16.sel)
  ultimately show ?thesis
    unfolding chunk_at_def using chunk_elements [of ?c] chunk_of_elements_cong [of "\<lambda>p. gf_word (message_poly data p (point i))"] by metis
qed


section \<open>The encoder emits the chunks of the message\<close>

definition encodes :: "bytes \<Rightarrow> PolyEncoder \<Rightarrow> bool" where
  "encodes data e \<longleftrightarrow> (let k = chunk_count (length data) in
     enc_k e = k \<and> dataChunks e = extractDataChunks k data \<and>
     (enc_state e = Points (parseDataToPoints k data) \<or>
      enc_state e = Polys (map (\<lambda>p. projr (computePolynomialCoefficients (message_points data p))) [0..<NUM_POLYS])))"

lemma parse_message_points: "parseDataToPoints (chunk_count (length data)) data = map (message_points data) [0..<NUM_POLYS]"
  by (rule nth_equalityI) (simp_all add: message_points_def parseDataToPoints_def Let_def)

lemma createEncoder_encodes:
  assumes "encodable data"
  shows "\<exists>e. createEncoder data = Inr e \<and> encodes data e \<and> currentChunkIdx e = 0"
proof -
  have "set [0..<chunk_count (length data)] \<subseteq> {..<65536}" using chunk_count_bound [OF assms] by auto
  note ds = computeDenominators_ok [OF this distinct_upt]
  show ?thesis using assms by (auto simp: createEncoder_def ds encodable_def encodes_def Let_def)
qed

lemma convert_encodes:
  assumes "encodable data" "encodes data e"
  shows "\<exists>e'. convertToPolynomials e = Inr e' \<and> encodes data e' \<and> currentChunkIdx e' = currentChunkIdx e \<and>
    enc_state e' = Polys (map (\<lambda>p. projr (computePolynomialCoefficients (message_points data p))) [0..<NUM_POLYS])"
proof -
  have coeffs: "computePolynomialCoefficients (message_points data p) = Inr (projr (computePolynomialCoefficients (message_points data p)))"
    if "p < NUM_POLYS" for p using message_coefficients [OF assms(1) that] by (metis sum.sel(2))
  then have "map_result computePolynomialCoefficients (parseDataToPoints (chunk_count (length data)) data) =
      Inr (map (\<lambda>p. projr (computePolynomialCoefficients (message_points data p))) [0..<NUM_POLYS])"
    unfolding parse_message_points
    by (subst map_result_ok [of _ _ "\<lambda>ys. projr (computePolynomialCoefficients ys)"]) (use coeffs in auto)
  then show ?thesis using assms(2) by (auto simp: encodes_def convertToPolynomials_def Let_def)
qed

lemma pointAt_encodes:
  assumes data: "encodable data" and e: "encodes data e" and p: "p < NUM_POLYS" and i: "i < 65536"
  shows "\<exists>e'. pointAt e p i = Inr (gf_word (message_poly data p (point i)), e') \<and> encodes data e' \<and> currentChunkIdx e' = currentChunkIdx e"
proof -
  let ?polys = "Polys (map (\<lambda>p. projr (computePolynomialCoefficients (message_points data p))) [0..<NUM_POLYS])"
  obtain cs where cs: "computePolynomialCoefficients (message_points data p) = Inr cs"
    "\<And>z. peval cs z = message_poly data p z"
    "\<And>i. i < chunk_count (length data) \<Longrightarrow> message_poly data p (point i) = GF (message_points data p ! i)"
    using message_coefficients [OF data p] by metis
  have ev: "evaluate_polys e' p i = gf_word (message_poly data p (point i))" if "enc_state e' = ?polys" for e'
    using that p cs(1,2) evaluate_peval [of cs "evaluation_point i"] by (simp add: evaluate_polys_def) (metis gf16.sel)
  show ?thesis
  proof (cases "enc_state e")
    case (Points points)
    then have pts: "points ! p = message_points data p"
      using e by (auto simp: encodes_def Let_def message_points_def)
    have len: "length (message_points data p) = chunk_count (length data)"
      using message_points_nth(2) [OF p chunk_count_pos [OF data]] .
    show ?thesis
    proof (cases "i < chunk_count (length data)")
      case True
      then show ?thesis using Points pts len cs(3) e by (simp add: pointAt_def)
    next
      case False
      then show ?thesis using Points pts len ev convert_encodes [OF data e] by (auto simp: pointAt_def)
    qed
  next
    case (Polys polys)
    then have "enc_state e = ?polys" using e by (auto simp: encodes_def Let_def)
    then show ?thesis using ev e by (simp add: pointAt_def)
  qed
qed

lemma parity_loop_encodes:
  assumes "encodable data" and "i < 65536"
  shows "encodes data e \<Longrightarrow> set ps \<subseteq> {..<NUM_POLYS} \<Longrightarrow>
    \<exists>e'. parity_loop i ps e = Inr (concat (map (\<lambda>p. write_element (gf_word (message_poly data p (point i)))) ps), e')
      \<and> encodes data e' \<and> currentChunkIdx e' = currentChunkIdx e"
proof (induction ps arbitrary: e)
  case (Cons p ps)
  then obtain e1 where e1: "pointAt e p i = Inr (gf_word (message_poly data p (point i)), e1)" "encodes data e1"
    "currentChunkIdx e1 = currentChunkIdx e" using pointAt_encodes [OF assms(1) _ _ assms(2)] by fastforce
  with Cons.IH [OF e1(2)] Cons.prems show ?case by auto
qed simp

lemma nextChunk_encodes:
  assumes data: "encodable data" and e: "encodes data e" and i: "currentChunkIdx e < 65536"
  shows "\<exists>e'. nextChunk e = Inr (chunk_at data (currentChunkIdx e), e') \<and> encodes data e' \<and> currentChunkIdx e' = Suc (currentChunkIdx e)"
proof (cases "currentChunkIdx e < enc_k e")
  case True
  then have "dataChunks e ! currentChunkIdx e = chunk_at data (currentChunkIdx e)"
    using data_chunk [OF data] e by (simp add: encodes_def Let_def)
  moreover have "encodes data (e\<lparr>currentChunkIdx := Suc (currentChunkIdx e)\<rparr>)" using e by (simp add: encodes_def Let_def)
  ultimately show ?thesis using True i by (simp add: nextChunk_def hasMoreChunks_def BRAID_CHUNK_POINT_COUNT_def Let_def)
next
  case False
  let ?e = "e\<lparr>currentChunkIdx := Suc (currentChunkIdx e), parityChunks := currentChunkIdx e - enc_k e + 1,
    totalChunks := enc_k e + (currentChunkIdx e - enc_k e + 1)\<rparr>"
  have "encodes data ?e" using e by (simp add: encodes_def Let_def)
  moreover have "set [0..<NUM_POLYS] \<subseteq> {..<NUM_POLYS}" by auto
  ultimately show ?thesis using parity_loop_encodes [OF data i, of ?e "[0..<NUM_POLYS]"] False i
    by (auto simp: nextChunk_def hasMoreChunks_def BRAID_CHUNK_POINT_COUNT_def Let_def generateParityChunk_def
      chunk_at_def chunk_of_elements_def)
qed

lemma nextChunk_exhausted: "currentChunkIdx e \<ge> 65536 \<Longrightarrow> \<not> ok (nextChunk e)"
  by (simp add: nextChunk_def hasMoreChunks_def BRAID_CHUNK_POINT_COUNT_def)

lemma next_chunks_encodes:
  "encodable data \<Longrightarrow> encodes data e \<Longrightarrow> currentChunkIdx e + n \<le> 65536 \<Longrightarrow>
   \<exists>e'. next_chunks n e = Inr (map (chunk_at data) [currentChunkIdx e..<currentChunkIdx e + n], e')"
proof (induction n arbitrary: e)
  case (Suc n)
  obtain e' where e': "nextChunk e = Inr (chunk_at data (currentChunkIdx e), e')" "encodes data e'"
    "currentChunkIdx e' = Suc (currentChunkIdx e)" using nextChunk_encodes [OF Suc.prems(1,2)] Suc.prems(3) by auto
  have "[currentChunkIdx e..<currentChunkIdx e + Suc n] = currentChunkIdx e # [currentChunkIdx e'..<currentChunkIdx e' + n]"
    using e'(3) by (simp add: upt_rec)
  with e' Suc.IH [OF Suc.prems(1) e'(2)] Suc.prems(3) show ?case by (auto simp del: upt_Suc)
qed simp

lemma restore_encodes:
  "encodable data \<Longrightarrow> 0 \<le> i \<Longrightarrow> i \<le> 65536 \<Longrightarrow>
   \<exists>e. restoreEncoderAt data i = Inr e \<and> encodes data e \<and> currentChunkIdx e = nat i"
  using createEncoder_encodes [of data]
  by (auto simp: restoreEncoderAt_def assertBraidEncoderCursor_def BRAID_CHUNK_POINT_COUNT_def encodes_def Let_def)


section \<open>The decoder recovers the message\<close>

text \<open>The decoder holds the chunks of the message at the points \<open>is\<close>, in the order of their arrival.\<close>

definition decodes :: "bytes \<Rightarrow> nat list \<Rightarrow> PolyDecoder \<Rightarrow> bool" where
  "decodes data is d \<longleftrightarrow> dec_k d = chunk_count (length data) \<and> dec_messageSize d = length data \<and> \<not> totalShardsSet d \<and>
     distinct is \<and> set is \<subseteq> {..<65536} \<and> receivedChunks d = map (\<lambda>i. (i, chunk_at data i)) is"

lemma received_lookup:
  "decodes data is d \<Longrightarrow> map_of (receivedChunks d) i = (if i \<in> set is then Some (chunk_at data i) else None)"
  by (simp add: decodes_def map_of_map_restrict restrict_map_def)

lemma length_chunk_at: "length (chunk_at data i) = CHUNK_SIZE" by (simp add: chunk_at_def length_chunk_of_elements)

lemma createDecoder_decodes:
  "encodable data \<Longrightarrow> \<exists>d. createDecoder (length data) = Inr d \<and> decodes data [] d"
  by (auto simp: encodable_def createDecoder_def decodes_def)

lemma addChunk_decodes:
  assumes "decodes data is d" and "i < 65536"
  shows "\<exists>d'. addChunk d (int i) (chunk_at data i) = Inr d' \<and> decodes data (if i \<in> set is then is else is @ [i]) d'"
proof -
  have "chunk_at data i \<noteq> []" using length_chunk_at [of data i] by (auto simp: CHUNK_SIZE_def)
  then show ?thesis
    using assms received_lookup [OF assms(1), of i] length_chunk_at [of data i]
    by (auto simp: addChunk_def assertBraidChunkIndex_def BRAID_CHUNK_POINT_COUNT_def decodes_def)
qed

lemma add_chunks_decodes:
  "decodes data is d \<Longrightarrow> set js \<subseteq> {..<65536} \<Longrightarrow>
   \<exists>d' is'. add_chunks d (map (\<lambda>i. (i, chunk_at data i)) js) = Inr d' \<and> decodes data is' d' \<and> set is' = set is \<union> set js"
proof (induction js arbitrary: d "is")
  case (Cons j js)
  then obtain d1 where d1: "addChunk d (int j) (chunk_at data j) = Inr d1"
    "decodes data (if j \<in> set is then is else is @ [j]) d1" using addChunk_decodes [OF Cons.prems(1), of j] Cons.prems(2) by auto
  obtain d' is' where d': "add_chunks d1 (map (\<lambda>i. (i, chunk_at data i)) js) = Inr d'" "decodes data is' d'"
    "set is' = set (if j \<in> set is then is else is @ [j]) \<union> set js" using Cons.IH [OF d1(2)] Cons.prems(2) by auto
  moreover have "set (if j \<in> set is then is else is @ [j]) \<union> set js = set is \<union> set (j # js)" by auto
  ultimately show ?case using d1(1) by auto
qed auto

lemma recover_chunk_correct:
  assumes data: "encodable data" and xs: "distinct xs" "set xs \<subseteq> {..<65536}" "length xs = chunk_count (length data)"
    and ds: "computeDenominators xs = Inr ds"
  shows "recover_chunk (map (\<lambda>i. (i, chunk_at data i)) xs) ds m = Inr (chunk_at data m)"
proof -
  have "interpolateWithDenominators xs (map (\<lambda>i. element_of (chunk_at data i) p) xs) ds (evaluation_point m)
      = Inr (gf_word (message_poly data p (point m)))" if p: "p < NUM_POLYS" for p
    using message_poly_degree [OF data p] xs ds p
    by (intro interpolation_correct) (simp_all add: chunk_at_def element_chunk)
  then show ?thesis
    unfolding recover_chunk_def
    by (subst map_result_ok [of _ _ "\<lambda>p. gf_word (message_poly data p (point m))"])
      (auto simp: comp_def chunk_at_def chunk_of_elements_def)
qed

lemma copy_chunks_take:
  "\<forall>c \<in> set cs. length c = CHUNK_SIZE \<Longrightarrow> n \<le> length cs * CHUNK_SIZE \<Longrightarrow> copy_chunks n cs = take n (concat cs)"
  by (induction n cs rule: copy_chunks.induct) (auto simp: zeros_def Let_def min_def)

lemma concat_slices: "k * CHUNK_SIZE \<le> length xs \<Longrightarrow>
  concat (map (\<lambda>c. js_slice (c * CHUNK_SIZE) ((c + 1) * CHUNK_SIZE) xs) [0..<k]) = take (k * CHUNK_SIZE) xs"
proof (induction k)
  case (Suc k)
  then show ?case by (simp add: js_slice_def add.commute [of CHUNK_SIZE] take_add)
qed simp

lemma copy_message:
  assumes "encodable data"
  shows "copy_chunks (length data) (map (chunk_at data) [0..<chunk_count (length data)]) = data"
proof -
  let ?k = "chunk_count (length data)"
  have all: "map (chunk_at data) [0..<?k] = extractDataChunks ?k data"
    by (rule nth_equalityI) (simp_all add: data_chunk [OF assms] extractDataChunks_def Let_def flip: data_chunk [OF assms])
  have "concat (map (chunk_at data) [0..<?k]) = pad_data ?k data"
    unfolding all extractDataChunks_def Let_def by (subst concat_slices) (simp_all add: length_pad_data)
  then show ?thesis
    using copy_chunks_take [of "map (chunk_at data) [0..<?k]" "length data"] chunk_count_cover [of data]
    by (simp add: length_chunk_at pad_data_def)
qed

lemma message_decodes:
  assumes data: "encodable data" and d: "decodes data is d"
  shows "message_of d = Inr (if chunk_count (length data) \<le> length is then Some data else None)"
proof (cases "chunk_count (length data) \<le> length is")
  case False
  then show ?thesis using d by (simp add: message_of_def hasMessage_def decodes_def)
next
  case True
  let ?k = "chunk_count (length data)" and ?xs = "take (chunk_count (length data)) is"
  have has: "hasMessage d" and k: "dec_k d = ?k" and n: "dec_messageSize d = length data"
    and av: "take ?k (receivedChunks d) = map (\<lambda>i. (i, chunk_at data i)) ?xs"
    and xs: "distinct ?xs" "set ?xs \<subseteq> {..<65536}" "length ?xs = ?k"
    using d True set_take_subset [of ?k "is"] by (auto simp: decodes_def hasMessage_def take_map)
  let ?missing = "filter (\<lambda>i. map_of (receivedChunks d) i = None) [0..<?k]"
  show ?thesis
  proof (cases "?missing = []")
    case True
    then have all: "map (\<lambda>i. the (map_of (receivedChunks d) i)) [0..<?k] = map (chunk_at data) [0..<?k]"
      using received_lookup [OF d] by (auto simp: filter_empty_conv split: if_splits)
    show ?thesis unfolding message_of_def Let_def k n all copy_message [OF data] using True has \<open>?k \<le> length is\<close> by simp
  next
    case False
    obtain ds where ds: "computeDenominators ?xs = Inr ds" using computeDenominators_ok [OF xs(2,1)] by blast
    have rec: "map_result (\<lambda>i. and_then (recover_chunk (map (\<lambda>i. (i, chunk_at data i)) ?xs) ds i) (\<lambda>c. Inr (i, c))) ?missing
        = Inr (map (\<lambda>i. (i, chunk_at data i)) ?missing)"
      by (rule map_result_ok) (simp add: recover_chunk_correct [OF data xs ds])
    have "(case map_of (map (\<lambda>i. (i, chunk_at data i)) ?missing) i of Some c \<Rightarrow> c | None \<Rightarrow> the (map_of (receivedChunks d) i))
        = chunk_at data i" if "i < ?k" for i
      using received_lookup [OF d, of i] that by (auto simp: map_of_map_restrict restrict_map_def)
    then have all: "map (\<lambda>i. case map_of (map (\<lambda>i. (i, chunk_at data i)) ?missing) i of Some c \<Rightarrow> c
        | None \<Rightarrow> the (map_of (receivedChunks d) i)) [0..<?k] = map (chunk_at data) [0..<?k]"
      by (intro map_cong) auto
    have fst: "map fst (map (\<lambda>i. (i, chunk_at data i)) ?xs) = ?xs" by (simp add: comp_def)
    show ?thesis
      unfolding message_of_def Let_def k n av fst ds and_then_Inr rec all copy_message [OF data]
      using has False \<open>?k \<le> length is\<close> by simp
  qed
qed

text \<open>
  C24. Erasure code. From a message of 1 to 1152 bytes the encoder can emit up to 65536 chunks. A decoder
  that is given any of them, in any order and with repetitions, returns exactly the message as soon as it holds as many
  different chunks as the message has data chunks, and reports that it has no message before that.
\<close>

theorem erasure_code_recovers:
  assumes "data \<noteq> []" and "length data \<le> MAX_MESSAGE_SIZE" and "n \<le> BRAID_CHUNK_POINT_COUNT" and "set is \<subseteq> {..<n}"
  shows "\<exists>e e' cs d d'. createEncoder data = Inr e \<and> next_chunks n e = Inr (cs, e') \<and>
    createDecoder (length data) = Inr d \<and> add_chunks d (map (\<lambda>i. (i, cs ! i)) is) = Inr d' \<and>
    message_of d' = Inr (if chunk_count (length data) \<le> card (set is) then Some data else None)"
proof -
  have data: "encodable data" using assms(1,2) by (simp add: encodable_def)
  obtain e where e: "createEncoder data = Inr e" "encodes data e" "currentChunkIdx e = 0"
    using createEncoder_encodes [OF data] by blast
  obtain e' where e': "next_chunks n e = Inr (map (chunk_at data) [0..<n], e')"
    using next_chunks_encodes [OF data e(2), of n] e(3) assms(3) by (auto simp: BRAID_CHUNK_POINT_COUNT_def)
  obtain d where d: "createDecoder (length data) = Inr d" "decodes data [] d" using createDecoder_decodes [OF data] by blast
  have sub: "set is \<subseteq> {..<65536}" using assms(3,4) by (auto simp: BRAID_CHUNK_POINT_COUNT_def)
  from add_chunks_decodes [OF d(2) this] obtain d' is' where d': "add_chunks d (map (\<lambda>i. (i, chunk_at data i)) is) = Inr d'" "decodes data is' d'"
    "set is' = set is" by auto
  have same: "map (\<lambda>i. (i, map (chunk_at data) [0..<n] ! i)) is = map (\<lambda>i. (i, chunk_at data i)) is"
    using assms(4) by (intro map_cong) auto
  have "length is' = card (set is)" using d'(2,3) by (metis decodes_def distinct_card)
  note msg = message_decodes [OF data d'(2), unfolded this]
  show ?thesis
    by (rule exI [of _ e], rule exI [of _ e'], rule exI [of _ "map (chunk_at data) [0..<n]"], rule exI [of _ d],
      rule exI [of _ d'], unfold same) (intro conjI e(1) e' d(1) d'(1) msg)
qed

theorem erasure_code_recovers_witness:
  "\<exists>e e' cs d d'. createEncoder (replicate 40 7) = Inr e \<and> next_chunks 4 e = Inr (cs, e') \<and>
    createDecoder 40 = Inr d \<and> add_chunks d (map (\<lambda>i. (i, cs ! i)) [3, 2, 3]) = Inr d' \<and>
    message_of d' = Inr (Some (replicate 40 7))"
  using erasure_code_recovers [of "replicate 40 7" 4 "[3, 2, 3]"]
  by (simp add: MAX_MESSAGE_SIZE_def BRAID_CHUNK_POINT_COUNT_def chunk_count_def CHUNK_SIZE_def insert_commute)

end
