(* ===== verification/Braid.thy ===== *)
theory Braid
  imports Erasure_Codec
begin

text \<open>
  The ML-KEM braid (internal/protocol/spqr/ml-kem-braid: types.ts, kdf.ts, authenticator.ts, incremental-kem.ts,
  state-machine.ts, progress.ts): the machine of 11 states that spreads one encapsulation over many messages.

  Every handler is a function of the agent's state that returns the new state and its result, or throws. Throwing
  leaves no state: the callers work on a copy of the session that they drop. The lattice arithmetic of the
  incremental ML-KEM (the vendored noble-pq) is the parameter \<open>braid_kem\<close>, HMAC-SHA256 the parameter \<open>hmac\<close>.
\<close>

section \<open>Data\<close>

datatype MLKEMBraidState =
    KeysUnsampled | KeysSampled | HeaderSent | Ct1Received | EkSentCt1Received
  | NoHeaderReceived | HeaderReceived | Ct1Sampled | EkReceivedCt1Sampled | Ct1Acknowledged | Ct2Sampled

definition ALICE_STATES :: "MLKEMBraidState set" where
  "ALICE_STATES = {KeysUnsampled, KeysSampled, HeaderSent, Ct1Received, EkSentCt1Received}"

definition BOB_STATES :: "MLKEMBraidState set" where
  "BOB_STATES = {NoHeaderReceived, HeaderReceived, Ct1Sampled, EkReceivedCt1Sampled, Ct1Acknowledged, Ct2Sampled}"

text \<open>The message types 0 to 6; 0 is \<open>None\<close>.\<close>

datatype BraidMessageType = NoPayload | Hdr | Ek | EkCt1Ack | Ct1Ack | Ct1 | Ct2

record MLKEMBraidMessage =
  bm_epoch :: nat
  bm_type :: BraidMessageType
  bm_chunkIndex :: "int option"
  bm_data :: "bytes option"

record AuthenticatorState =
  root_key :: bytes
  mac_key :: bytes

text \<open>The chunks received, in the order of the map. \<open>receivedChunks\<close> is kept beside them.\<close>

record DecoderState =
  ds_receivedChunks :: nat
  ds_requiredChunks :: nat
  ds_messageSize :: nat
  ds_chunks :: "(nat \<times> bytes) list"

text \<open>\<open>es_encoder\<close> is the runtime cache: a state that was stored and loaded has none.\<close>

record BraidEncoderState =
  es_data :: bytes
  es_currentChunk :: nat
  es_totalChunks :: nat
  es_isComplete :: bool
  es_encoder :: "PolyEncoder option"

record MLKEMBraidAgentState =
  braid_state :: MLKEMBraidState
  braid_epoch :: nat
  auth :: AuthenticatorState
  dk :: "bytes option"
  ek_seed :: "bytes option"
  ek_vector :: "bytes option"
  hek :: "bytes option"
  encaps_secret :: "bytes option"
  ct1 :: "bytes option"
  ct2 :: "bytes option"
  ct1_for_mac :: "bytes option"
  ct1_decoded :: "bytes option"
  headerEncoder :: "BraidEncoderState option"
  ekEncoder :: "BraidEncoderState option"
  ct1Decoder :: "DecoderState option"
  ct2Decoder :: "DecoderState option"
  headerDecoder :: "DecoderState option"
  ekDecoder :: "DecoderState option"
  ct1Encoder :: "BraidEncoderState option"
  ct2Encoder :: "BraidEncoderState option"

record OutputKey =
  ok_epoch :: nat
  epoch_secret :: bytes

record SendResult =
  sent_message :: MLKEMBraidMessage
  sending_epoch :: nat
  sent_key :: "OutputKey option"

record ReceiveResult =
  receiving_epoch :: nat
  received_key :: "OutputKey option"

section \<open>Key derivation and authenticator\<close>

definition PROTOCOL_INFO :: js_string where "PROTOCOL_INFO = ascii ''Signal_PQCKA_V1_MLKEM768''"

definition uint64ToBytes :: "nat \<Rightarrow> bytes" where
  "uint64ToBytes v = map (\<lambda>i. of_nat (v div 256 ^ (7 - i))) [0..<8]"

definition bytesToUint64 :: "bytes \<Rightarrow> nat result" where
  "bytesToUint64 bs =
     (if length bs \<noteq> 8 then Inl (PlainError ''Invalid bytes length'')
      else Inr (fold (\<lambda>b r. r * 256 + unat b) bs 0))"

definition buildKdfInfo :: "js_string \<Rightarrow> nat \<Rightarrow> bytes" where
  "buildKdfInfo domain epoch = stringToBytes PROTOCOL_INFO @ stringToBytes domain @ uint64ToBytes epoch"

definition KDF_AUTH :: "hmac_fun \<Rightarrow> bytes \<Rightarrow> bytes \<Rightarrow> nat \<Rightarrow> bytes result" where
  "KDF_AUTH hmac rk uk epoch =
     (if length rk \<noteq> 32 then Inl (PlainError ''Invalid root_key size'')
      else if length uk \<noteq> 32 then Inl (PlainError ''Invalid update_key size'')
      else hkdf hmac (rk @ uk) (zeros 32) (buildKdfInfo (ascii '':Authenticator Update'') epoch) 64)"

definition KDF_OK :: "hmac_fun \<Rightarrow> bytes \<Rightarrow> nat \<Rightarrow> bytes result" where
  "KDF_OK hmac shared_secret epoch =
     (if length shared_secret \<noteq> 32 then Inl (PlainError ''Invalid shared_secret size'')
      else hkdf hmac shared_secret (zeros 32) (buildKdfInfo (ascii '':SCKA Key'') epoch) 32)"

definition authUpdate :: "hmac_fun \<Rightarrow> AuthenticatorState \<Rightarrow> nat \<Rightarrow> bytes \<Rightarrow> AuthenticatorState result" where
  "authUpdate hmac a epoch key =
     and_then (KDF_AUTH hmac (root_key a) key epoch) (\<lambda>derived.
       Inr \<lparr>root_key = js_slice 0 32 derived, mac_key = js_slice 32 64 derived\<rparr>)"

definition authInit :: "hmac_fun \<Rightarrow> nat \<Rightarrow> bytes \<Rightarrow> AuthenticatorState result" where
  "authInit hmac epoch initial_key = authUpdate hmac \<lparr>root_key = zeros 32, mac_key = zeros 32\<rparr> epoch initial_key"

definition initAuthenticatorState :: "hmac_fun \<Rightarrow> bytes \<Rightarrow> AuthenticatorState result" where
  "initAuthenticatorState hmac initial_key = authInit hmac 0 initial_key"

definition buildMacInput :: "js_string \<Rightarrow> nat \<Rightarrow> bytes \<Rightarrow> bytes" where
  "buildMacInput domain epoch data =
     stringToBytes PROTOCOL_INFO @ stringToBytes domain @ uint64ToBytes epoch @ data"

definition MacHdr :: "hmac_fun \<Rightarrow> AuthenticatorState \<Rightarrow> nat \<Rightarrow> bytes \<Rightarrow> bytes" where
  "MacHdr hmac a epoch header = hmac (mac_key a) (buildMacInput (ascii '':ekheader'') epoch header)"

definition MacCt :: "hmac_fun \<Rightarrow> AuthenticatorState \<Rightarrow> nat \<Rightarrow> bytes \<Rightarrow> bytes" where
  "MacCt hmac a epoch ciphertext = hmac (mac_key a) (buildMacInput (ascii '':ciphertext'') epoch ciphertext)"

definition VfyHdr :: "hmac_fun \<Rightarrow> AuthenticatorState \<Rightarrow> nat \<Rightarrow> bytes \<Rightarrow> bytes \<Rightarrow> unit result" where
  "VfyHdr hmac a epoch header expected =
     throw_if (MacHdr hmac a epoch header \<noteq> expected) (PlainError ''Header MAC verification failed'')"

definition VfyCt :: "hmac_fun \<Rightarrow> AuthenticatorState \<Rightarrow> nat \<Rightarrow> bytes \<Rightarrow> bytes \<Rightarrow> unit result" where
  "VfyCt hmac a epoch ciphertext expected =
     throw_if (MacCt hmac a epoch ciphertext \<noteq> expected) (PlainError ''Ciphertext MAC verification failed'')"

section \<open>The incremental KEM\<close>

text \<open>
  The functions of noble-pq: key pair \<open>(dk, ek_seed, ek_vector, hek)\<close>, first half of an encapsulation
  \<open>(encaps_secret, ct1, shared_secret)\<close>, second half, decapsulation and the hash of the public key.
\<close>

record braid_kem =
  kem_keygen :: "bytes \<Rightarrow> bytes \<times> bytes \<times> bytes \<times> bytes"
  kem_encaps1 :: "bytes \<Rightarrow> bytes \<Rightarrow> bytes \<Rightarrow> bytes \<times> bytes \<times> bytes"
  kem_encaps2 :: "bytes \<Rightarrow> bytes \<Rightarrow> bytes \<Rightarrow> bytes \<Rightarrow> bytes result"
  kem_decaps :: "bytes \<Rightarrow> bytes \<Rightarrow> bytes \<Rightarrow> bytes result"
  computeHek :: "bytes \<Rightarrow> bytes \<Rightarrow> bytes"

definition KEM_KeyGen :: "braid_kem \<Rightarrow> bytes \<Rightarrow> (bytes \<times> bytes \<times> bytes \<times> bytes) result" where
  "KEM_KeyGen kem randomness =
     (if length randomness \<noteq> 64 then Inl (PlainError ''Invalid randomness size'') else Inr (kem_keygen kem randomness))"

definition KEM_Encaps1 :: "braid_kem \<Rightarrow> bytes \<Rightarrow> bytes \<Rightarrow> bytes \<Rightarrow> (bytes \<times> bytes \<times> bytes) result" where
  "KEM_Encaps1 kem seed h randomness =
     (if length seed \<noteq> 32 then Inl (PlainError ''Invalid ek_seed size'')
      else if length h \<noteq> 32 then Inl (PlainError ''Invalid hek size'')
      else if length randomness \<noteq> 32 then Inl (PlainError ''Invalid randomness size'')
      else Inr (kem_encaps1 kem seed h randomness))"

definition KEM_Encaps2 :: "braid_kem \<Rightarrow> bytes \<Rightarrow> bytes \<Rightarrow> bytes \<Rightarrow> bytes result" where
  "KEM_Encaps2 kem secret seed vector =
     (if length vector \<noteq> 1152 then Inl (PlainError ''Invalid ek_vector size'')
      else if length seed \<noteq> 32 then Inl (PlainError ''Invalid ek_seed size'')
      else kem_encaps2 kem secret seed vector (computeHek kem seed vector))"

definition KEM_Decaps :: "braid_kem \<Rightarrow> bytes \<Rightarrow> bytes \<Rightarrow> bytes \<Rightarrow> bytes result" where
  "KEM_Decaps kem d c1 c2 =
     (if length d \<noteq> 2400 then Inl (PlainError ''Invalid dk size'')
      else if length c1 \<noteq> 960 then Inl (PlainError ''Invalid ct1 size'')
      else if length c2 \<noteq> 128 then Inl (PlainError ''Invalid ct2 size'')
      else kem_decaps kem d c1 c2)"

section \<open>Encoders and decoders\<close>

definition HEADER_SIZE :: nat where "HEADER_SIZE = 96"
definition EK_SIZE :: nat where "EK_SIZE = 1152"
definition CT1_SIZE :: nat where "CT1_SIZE = 960"
definition CT2_SIZE :: nat where "CT2_SIZE = 160"

text \<open>\<open>Math.ceil(totalChunks * 1.3)\<close>, informative only.\<close>

definition createEncoderState :: "bytes \<Rightarrow> BraidEncoderState result" where
  "createEncoderState data =
     and_then (createEncoder data) (\<lambda>encoder.
       Inr \<lparr>es_data = data, es_currentChunk = 0, es_totalChunks = (13 * chunk_count (length data) + 9) div 10,
         es_isComplete = False, es_encoder = Some encoder\<rparr>)"

definition createDecoderState :: "nat \<Rightarrow> DecoderState" where
  "createDecoderState n =
     \<lparr>ds_receivedChunks = 0, ds_requiredChunks = chunk_count n, ds_messageSize = n, ds_chunks = []\<rparr>"

definition restoreEncoder :: "BraidEncoderState \<Rightarrow> PolyEncoder result" where
  "restoreEncoder e =
     (case es_encoder e of
        Some encoder \<Rightarrow> Inr encoder
      | None \<Rightarrow> restoreEncoderAt (es_data e) (int (es_currentChunk e)))"

definition getNextEncoderChunk :: "BraidEncoderState \<Rightarrow> ((bytes \<times> nat) \<times> BraidEncoderState) result" where
  "getNextEncoderChunk e =
     and_then (restoreEncoder e) (\<lambda>encoder.
       if \<not> hasMoreChunks encoder
       then Inl (PlainError ''Braid encoder exhausted all GF(2^16) evaluation points'')
       else let index = es_currentChunk e
            in and_then (nextChunk encoder) (\<lambda>(chunk, encoder').
                 Inr ((chunk, index),
                   e\<lparr>es_currentChunk := index + 1, es_isComplete := isDataComplete encoder', es_encoder := Some encoder'\<rparr>)))"

definition addDecoderChunk :: "DecoderState \<Rightarrow> int \<Rightarrow> bytes \<Rightarrow> DecoderState result" where
  "addDecoderChunk d chunkIndex chunk =
     and_then (assertBraidChunkIndex chunkIndex) (\<lambda>i.
       if length chunk \<noteq> CHUNK_SIZE then Inl (PlainError ''Braid chunk must contain exactly 32 bytes'')
       else case map_of (ds_chunks d) i of
              Some existing \<Rightarrow>
                if existing \<noteq> chunk then Inl (PlainError ''Conflicting duplicate Braid chunk'') else Inr d
            | None \<Rightarrow> let chunks = ds_chunks d @ [(i, chunk)]
                      in Inr (d\<lparr>ds_chunks := chunks, ds_receivedChunks := length chunks\<rparr>))"

definition isDecoderComplete :: "DecoderState \<Rightarrow> bool" where
  "isDecoderComplete d \<longleftrightarrow> length (ds_chunks d) \<ge> ds_requiredChunks d"

definition getDecodedMessage :: "DecoderState \<Rightarrow> bytes result" where
  "getDecodedMessage d =
     and_then (createDecoder (ds_messageSize d)) (\<lambda>decoder.
       and_then (add_chunks decoder (ds_chunks d)) (\<lambda>decoder.
         and_then (message_of decoder) (\<lambda>m.
           case m of None \<Rightarrow> Inl (PlainError ''Failed to decode message'') | Some data \<Rightarrow> Inr data)))"

text \<open>A decoder created on the first chunk, and the index of a message that carries none.\<close>

definition decoder_or :: "DecoderState option \<Rightarrow> nat \<Rightarrow> DecoderState" where
  "decoder_or d n = (case d of Some d \<Rightarrow> d | None \<Rightarrow> createDecoderState n)"

definition chunk_index :: "MLKEMBraidMessage \<Rightarrow> DecoderState \<Rightarrow> int" where
  "chunk_index m d = (case bm_chunkIndex m of Some i \<Rightarrow> i | None \<Rightarrow> int (ds_receivedChunks d))"

section \<open>Transitions\<close>

datatype braid_event =
    KEYGEN | RECEIVE_CT1 | CT1_COMPLETE | RECEIVE_CT2 | CT2_COMPLETE | HEADER_COMPLETE | SAMPLE_CT1
  | EK_COMPLETE_NO_ACK | EKCT1_ACK_EK_INCOMPLETE | EKCT1_ACK_EK_COMPLETE | EKCT1_ACK | EK_COMPLETE | BOB_NEW_EPOCH

definition STATE_TRANSITIONS :: "((MLKEMBraidState \<times> braid_event) \<times> MLKEMBraidState) list" where
  "STATE_TRANSITIONS =
     [((KeysUnsampled, KEYGEN), KeysSampled),
      ((KeysSampled, RECEIVE_CT1), HeaderSent),
      ((HeaderSent, CT1_COMPLETE), Ct1Received),
      ((Ct1Received, RECEIVE_CT2), EkSentCt1Received),
      ((EkSentCt1Received, CT2_COMPLETE), NoHeaderReceived),
      ((NoHeaderReceived, HEADER_COMPLETE), HeaderReceived),
      ((HeaderReceived, SAMPLE_CT1), Ct1Sampled),
      ((Ct1Sampled, EK_COMPLETE_NO_ACK), EkReceivedCt1Sampled),
      ((Ct1Sampled, EKCT1_ACK_EK_INCOMPLETE), Ct1Acknowledged),
      ((Ct1Sampled, EKCT1_ACK_EK_COMPLETE), Ct2Sampled),
      ((EkReceivedCt1Sampled, EKCT1_ACK), Ct2Sampled),
      ((Ct1Acknowledged, EK_COMPLETE), Ct2Sampled),
      ((Ct2Sampled, BOB_NEW_EPOCH), KeysUnsampled)]"

definition transition :: "MLKEMBraidAgentState \<Rightarrow> braid_event \<Rightarrow> MLKEMBraidAgentState result" where
  "transition s event =
     (case map_of STATE_TRANSITIONS (braid_state s, event) of
        None \<Rightarrow> Inl (PlainError ''Invalid transition'')
      | Some next_state \<Rightarrow> Inr (s\<lparr>braid_state := next_state\<rparr>))"

text \<open>Only the epoch and the authenticator survive; Bob needs a header decoder at once.\<close>

definition resetForNewEpoch :: "MLKEMBraidAgentState \<Rightarrow> MLKEMBraidState \<Rightarrow> MLKEMBraidAgentState" where
  "resetForNewEpoch s newState =
     s\<lparr>dk := None, ek_seed := None, ek_vector := None, hek := None, encaps_secret := None, ct1 := None, ct2 := None,
       ct1_for_mac := None, ct1_decoded := None, headerEncoder := None, ekEncoder := None, ct1Decoder := None,
       ct2Decoder := None, headerDecoder := (if newState \<in> BOB_STATES then Some (createDecoderState HEADER_SIZE) else None),
       ekDecoder := None, ct1Encoder := None, ct2Encoder := None, braid_state := newState\<rparr>"

definition initial_agent :: "MLKEMBraidState \<Rightarrow> AuthenticatorState \<Rightarrow> DecoderState option \<Rightarrow> MLKEMBraidAgentState" where
  "initial_agent st a d =
     \<lparr>braid_state = st, braid_epoch = 1, auth = a, dk = None, ek_seed = None, ek_vector = None, hek = None,
       encaps_secret = None, ct1 = None, ct2 = None, ct1_for_mac = None, ct1_decoded = None, headerEncoder = None,
       ekEncoder = None, ct1Decoder = None, ct2Decoder = None, headerDecoder = d, ekDecoder = None, ct1Encoder = None,
       ct2Encoder = None\<rparr>"

definition InitAlice :: "hmac_fun \<Rightarrow> bytes \<Rightarrow> MLKEMBraidAgentState result" where
  "InitAlice hmac secret =
     and_then (initAuthenticatorState hmac secret) (\<lambda>a. Inr (initial_agent KeysUnsampled a None))"

definition InitBob :: "hmac_fun \<Rightarrow> bytes \<Rightarrow> MLKEMBraidAgentState result" where
  "InitBob hmac secret =
     and_then (initAuthenticatorState hmac secret) (\<lambda>a.
       Inr (initial_agent NoHeaderReceived a (Some (createDecoderState HEADER_SIZE))))"


section \<open>Sending\<close>

definition chunk_message :: "MLKEMBraidAgentState \<Rightarrow> BraidMessageType \<Rightarrow> nat \<Rightarrow> bytes \<Rightarrow> MLKEMBraidMessage" where
  "chunk_message s t index chunk =
     \<lparr>bm_epoch = braid_epoch s, bm_type = t, bm_chunkIndex = Some (int index), bm_data = Some chunk\<rparr>"

definition bare_message :: "MLKEMBraidAgentState \<Rightarrow> BraidMessageType \<Rightarrow> MLKEMBraidMessage" where
  "bare_message s t = \<lparr>bm_epoch = braid_epoch s, bm_type = t, bm_chunkIndex = None, bm_data = None\<rparr>"

definition send_result :: "MLKEMBraidAgentState \<Rightarrow> MLKEMBraidMessage \<Rightarrow> OutputKey option \<Rightarrow> SendResult" where
  "send_result s m key = \<lparr>sent_message = m, sending_epoch = braid_epoch s, sent_key = key\<rparr>"

definition aliceSendHeaderChunk :: "MLKEMBraidAgentState \<Rightarrow> (MLKEMBraidAgentState \<times> SendResult) result" where
  "aliceSendHeaderChunk s =
     (case headerEncoder s of
        None \<Rightarrow> Inl (PlainError ''No header encoder'')
      | Some e \<Rightarrow> and_then (getNextEncoderChunk e) (\<lambda>((chunk, index), e').
          Inr (s\<lparr>headerEncoder := Some e'\<rparr>, send_result s (chunk_message s Hdr index chunk) None)))"

definition aliceSendFromKeysUnsampled ::
    "hmac_fun \<Rightarrow> braid_kem \<Rightarrow> bytes \<Rightarrow> MLKEMBraidAgentState \<Rightarrow> (MLKEMBraidAgentState \<times> SendResult) result" where
  "aliceSendFromKeysUnsampled hmac kem randomness s =
     and_then (KEM_KeyGen kem randomness) (\<lambda>(d, seed, vector, h).
       let s1 = s\<lparr>dk := Some d, ek_seed := Some seed, ek_vector := Some vector, hek := Some h\<rparr>;
           header = seed @ h;
           headerWithMac = header @ MacHdr hmac (auth s) (braid_epoch s) header
       in and_then (createEncoderState headerWithMac) (\<lambda>he.
            and_then (createEncoderState vector) (\<lambda>ee.
              and_then (transition (s1\<lparr>headerEncoder := Some he, ekEncoder := Some ee\<rparr>) KEYGEN) aliceSendHeaderChunk)))"

definition aliceSendEkChunk ::
    "MLKEMBraidAgentState \<Rightarrow> BraidMessageType \<Rightarrow> (MLKEMBraidAgentState \<times> SendResult) result" where
  "aliceSendEkChunk s t =
     (case ekEncoder s of
        None \<Rightarrow> Inl (PlainError ''No ek encoder'')
      | Some e \<Rightarrow> and_then (getNextEncoderChunk e) (\<lambda>((chunk, index), e').
          Inr (s\<lparr>ekEncoder := Some e'\<rparr>, send_result s (chunk_message s t index chunk) None)))"

definition sendAlice ::
    "hmac_fun \<Rightarrow> braid_kem \<Rightarrow> (nat \<Rightarrow> bytes) \<Rightarrow> MLKEMBraidAgentState \<Rightarrow> (MLKEMBraidAgentState \<times> SendResult) result" where
  "sendAlice hmac kem randomBytes s =
     (case braid_state s of
        KeysUnsampled \<Rightarrow> aliceSendFromKeysUnsampled hmac kem (randomBytes 64) s
      | KeysSampled \<Rightarrow> aliceSendHeaderChunk s
      | HeaderSent \<Rightarrow> aliceSendEkChunk s Ek
      | Ct1Received \<Rightarrow> aliceSendEkChunk s EkCt1Ack
      | EkSentCt1Received \<Rightarrow> Inr (s, send_result s (bare_message s Ct1Ack) None)
      | _ \<Rightarrow> Inl (PlainError ''Invalid transition''))"

definition bobSendFromHeaderReceived ::
    "hmac_fun \<Rightarrow> braid_kem \<Rightarrow> bytes \<Rightarrow> MLKEMBraidAgentState \<Rightarrow> (MLKEMBraidAgentState \<times> SendResult) result" where
  "bobSendFromHeaderReceived hmac kem randomness s =
     (case (ek_seed s, hek s) of
        (Some seed, Some h) \<Rightarrow>
          and_then (KEM_Encaps1 kem seed h randomness) (\<lambda>(secret, c1, sharedSecret).
            and_then (createEncoderState c1) (\<lambda>ce.
              and_then (KDF_OK hmac sharedSecret (braid_epoch s)) (\<lambda>outputKeyBytes.
                and_then (authUpdate hmac (auth s) (braid_epoch s) outputKeyBytes) (\<lambda>a.
                  and_then (transition (s\<lparr>encaps_secret := Some secret, ct1 := Some c1, ct1_for_mac := Some c1, auth := a\<rparr>) SAMPLE_CT1) (\<lambda>s1.
                    and_then (getNextEncoderChunk ce) (\<lambda>((chunk, index), ce').
                      Inr (s1\<lparr>ct1Encoder := Some ce'\<rparr>,
                        send_result s (chunk_message s Ct1 index chunk)
                          (Some \<lparr>ok_epoch = braid_epoch s, epoch_secret = outputKeyBytes\<rparr>))))))))
      | _ \<Rightarrow> Inl (PlainError ''Missing ek_seed or hek''))"

definition bobSendCt1Chunk :: "MLKEMBraidAgentState \<Rightarrow> (MLKEMBraidAgentState \<times> SendResult) result" where
  "bobSendCt1Chunk s =
     (case ct1Encoder s of
        None \<Rightarrow> Inl (PlainError ''No CT1 encoder'')
      | Some e \<Rightarrow> and_then (getNextEncoderChunk e) (\<lambda>((chunk, index), e').
          Inr (s\<lparr>ct1Encoder := Some e'\<rparr>, send_result s (chunk_message s Ct1 index chunk) None)))"

definition bobSendFromCt2Sampled :: "MLKEMBraidAgentState \<Rightarrow> (MLKEMBraidAgentState \<times> SendResult) result" where
  "bobSendFromCt2Sampled s =
     (case ct2Encoder s of
        None \<Rightarrow> Inl (PlainError ''No CT2 encoder'')
      | Some e \<Rightarrow> and_then (getNextEncoderChunk e) (\<lambda>((chunk, index), e').
          Inr (s\<lparr>ct2Encoder := Some e'\<rparr>, send_result s (chunk_message s Ct2 index chunk) None)))"

definition sendBob ::
    "hmac_fun \<Rightarrow> braid_kem \<Rightarrow> (nat \<Rightarrow> bytes) \<Rightarrow> MLKEMBraidAgentState \<Rightarrow> (MLKEMBraidAgentState \<times> SendResult) result" where
  "sendBob hmac kem randomBytes s =
     (case braid_state s of
        NoHeaderReceived \<Rightarrow> Inr (s, send_result s (bare_message s NoPayload) None)
      | HeaderReceived \<Rightarrow> bobSendFromHeaderReceived hmac kem (randomBytes 32) s
      | Ct1Sampled \<Rightarrow> bobSendCt1Chunk s
      | EkReceivedCt1Sampled \<Rightarrow> bobSendCt1Chunk s
      | Ct1Acknowledged \<Rightarrow> Inr (s, send_result s (bare_message s NoPayload) None)
      | Ct2Sampled \<Rightarrow> bobSendFromCt2Sampled s
      | _ \<Rightarrow> Inl (PlainError ''Invalid transition''))"

definition braid_Send ::
    "hmac_fun \<Rightarrow> braid_kem \<Rightarrow> (nat \<Rightarrow> bytes) \<Rightarrow> MLKEMBraidAgentState \<Rightarrow> (MLKEMBraidAgentState \<times> SendResult) result" where
  "braid_Send hmac kem randomBytes s =
     (if braid_state s \<in> ALICE_STATES then sendAlice hmac kem randomBytes s else sendBob hmac kem randomBytes s)"

section \<open>Receiving\<close>

definition receive_result :: "MLKEMBraidMessage \<Rightarrow> OutputKey option \<Rightarrow> ReceiveResult" where
  "receive_result m key = \<lparr>receiving_epoch = bm_epoch m, received_key = key\<rparr>"

definition alice_receive_ct1 :: "MLKEMBraidMessage \<Rightarrow> bytes \<Rightarrow> MLKEMBraidAgentState \<Rightarrow> MLKEMBraidAgentState result" where
  "alice_receive_ct1 m data s =
     (let d = decoder_or (ct1Decoder s) CT1_SIZE
      in and_then (addDecoderChunk d (chunk_index m d) data) (\<lambda>d.
           let s1 = s\<lparr>ct1Decoder := Some d\<rparr>
           in and_then (if braid_state s = KeysSampled then transition s1 RECEIVE_CT1 else Inr s1) (\<lambda>s2.
                if isDecoderComplete d
                then and_then (getDecodedMessage d) (\<lambda>c1. transition (s2\<lparr>ct1_decoded := Some c1\<rparr>) CT1_COMPLETE)
                else Inr s2)))"

definition alice_complete_ct2 ::
    "hmac_fun \<Rightarrow> braid_kem \<Rightarrow> MLKEMBraidMessage \<Rightarrow> DecoderState \<Rightarrow> MLKEMBraidAgentState \<Rightarrow> (MLKEMBraidAgentState \<times> OutputKey) result" where
  "alice_complete_ct2 hmac kem m d s =
     (case (ct1_decoded s, dk s) of
        (None, _) \<Rightarrow> Inl (PlainError ''CT1 not decoded - state corruption'')
      | (Some c1, None) \<Rightarrow> Inl (PlainError ''dk is undefined'')
      | (Some c1, Some key) \<Rightarrow>
          and_then (getDecodedMessage d) (\<lambda>ct2Data.
            let c2 = take 128 ct2Data; combinedMac = drop 128 ct2Data; combined = c1 @ c2
            in and_then (KEM_Decaps kem key c1 c2) (\<lambda>shared_secret.
                 and_then (KDF_OK hmac shared_secret (braid_epoch s)) (\<lambda>outputKeyBytes.
                   and_then (authUpdate hmac (auth s) (braid_epoch s) outputKeyBytes) (\<lambda>a.
                     and_then (VfyCt hmac a (bm_epoch m) combined combinedMac) (\<lambda>_.
                       and_then (transition (s\<lparr>auth := a\<rparr>) CT2_COMPLETE) (\<lambda>s1.
                         let s2 = s1\<lparr>braid_epoch := braid_epoch s1 + 1\<rparr>
                         in Inr (resetForNewEpoch s2 (braid_state s2),
                              \<lparr>ok_epoch = braid_epoch s, epoch_secret = outputKeyBytes\<rparr>))))))))"

definition alice_receive_ct2 ::
    "hmac_fun \<Rightarrow> braid_kem \<Rightarrow> MLKEMBraidMessage \<Rightarrow> bytes \<Rightarrow> MLKEMBraidAgentState \<Rightarrow> (MLKEMBraidAgentState \<times> OutputKey option) result" where
  "alice_receive_ct2 hmac kem m data s =
     (let d = decoder_or (ct2Decoder s) CT2_SIZE
      in and_then (addDecoderChunk d (chunk_index m d) data) (\<lambda>d.
           let s1 = s\<lparr>ct2Decoder := Some d\<rparr>
           in and_then (if braid_state s = Ct1Received then transition s1 RECEIVE_CT2 else Inr s1) (\<lambda>s2.
                if isDecoderComplete d \<and> braid_state s2 = EkSentCt1Received
                then and_then (alice_complete_ct2 hmac kem m d s2) (\<lambda>(s3, key). Inr (s3, Some key))
                else Inr (s2, None))))"

definition receiveAlice ::
    "hmac_fun \<Rightarrow> braid_kem \<Rightarrow> MLKEMBraidAgentState \<Rightarrow> MLKEMBraidMessage \<Rightarrow> (MLKEMBraidAgentState \<times> ReceiveResult) result" where
  "receiveAlice hmac kem s m =
     (if bm_epoch m < braid_epoch s then Inr (s, receive_result m None)
      else if bm_epoch m > braid_epoch s then Inl (PlainError ''Epoch mismatch'')
      else case (bm_type m, bm_data m) of
             (Ct1, Some data) \<Rightarrow>
               (if braid_state s = KeysSampled \<or> braid_state s = HeaderSent
                then and_then (alice_receive_ct1 m data s) (\<lambda>s'. Inr (s', receive_result m None))
                else Inr (s, receive_result m None))
           | (Ct2, Some data) \<Rightarrow>
               (if braid_state s = Ct1Received \<or> braid_state s = EkSentCt1Received
                then and_then (alice_receive_ct2 hmac kem m data s) (\<lambda>(s', key). Inr (s', receive_result m key))
                else Inr (s, receive_result m None))
           | _ \<Rightarrow> Inr (s, receive_result m None))"

definition bob_receive_header ::
    "hmac_fun \<Rightarrow> MLKEMBraidMessage \<Rightarrow> bytes \<Rightarrow> MLKEMBraidAgentState \<Rightarrow> MLKEMBraidAgentState result" where
  "bob_receive_header hmac m data s =
     (let d = decoder_or (headerDecoder s) HEADER_SIZE
      in and_then (addDecoderChunk d (chunk_index m d) data) (\<lambda>d.
           let s1 = s\<lparr>headerDecoder := Some d\<rparr>
           in if isDecoderComplete d
              then and_then (getDecodedMessage d) (\<lambda>headerData.
                     let header = take 64 headerData; headerMac = drop 64 headerData
                     in and_then (VfyHdr hmac (auth s1) (bm_epoch m) header headerMac) (\<lambda>_.
                          transition (s1\<lparr>ek_seed := Some (take 32 header), hek := Some (drop 32 header)\<rparr>) HEADER_COMPLETE))
              else Inr s1))"

definition bobSampleCt2 ::
    "hmac_fun \<Rightarrow> braid_kem \<Rightarrow> MLKEMBraidAgentState \<Rightarrow> MLKEMBraidAgentState result" where
  "bobSampleCt2 hmac kem s =
     (case (encaps_secret s, ek_seed s, ek_vector s) of
        (Some secret, Some seed, Some vector) \<Rightarrow>
          and_then (KEM_Encaps2 kem secret seed vector) (\<lambda>c2.
            case ct1_for_mac s of
              None \<Rightarrow> Inl (PlainError ''CT1 not stored for combined MAC - state corruption'')
            | Some c1 \<Rightarrow>
                let combinedMac = MacCt hmac (auth s) (braid_epoch s) (c1 @ c2)
                in and_then (createEncoderState (c2 @ combinedMac)) (\<lambda>e.
                     Inr (s\<lparr>encaps_secret := None, ct2 := Some c2, ct2Encoder := Some e, ct1_for_mac := None\<rparr>)))
      | _ \<Rightarrow> Inl (PlainError ''Missing encaps_secret, ek_seed, or ek_vector''))"

definition verifyEkHashBinding :: "braid_kem \<Rightarrow> bytes \<Rightarrow> bytes \<Rightarrow> bytes \<Rightarrow> unit result" where
  "verifyEkHashBinding kem seed vector expected =
     throw_if (computeHek kem seed vector \<noteq> expected) (PlainError ''EK hash binding verification failed'')"

definition bob_complete_ek ::
    "hmac_fun \<Rightarrow> braid_kem \<Rightarrow> BraidMessageType \<Rightarrow> MLKEMBraidAgentState \<Rightarrow> MLKEMBraidAgentState result" where
  "bob_complete_ek hmac kem t s =
     (if braid_state s = Ct1Sampled
      then if t = EkCt1Ack
           then and_then (transition s EKCT1_ACK_EK_COMPLETE) (bobSampleCt2 hmac kem)
           else transition s EK_COMPLETE_NO_ACK
      else if braid_state s = Ct1Acknowledged
      then and_then (transition s EK_COMPLETE) (bobSampleCt2 hmac kem)
      else Inr s)"

definition bob_receive_ek ::
    "hmac_fun \<Rightarrow> braid_kem \<Rightarrow> MLKEMBraidMessage \<Rightarrow> bytes \<Rightarrow> MLKEMBraidAgentState \<Rightarrow> MLKEMBraidAgentState result" where
  "bob_receive_ek hmac kem m data s =
     (let d = decoder_or (ekDecoder s) EK_SIZE
      in and_then (addDecoderChunk d (chunk_index m d) data) (\<lambda>d.
           let s1 = s\<lparr>ekDecoder := Some d\<rparr>
           in if isDecoderComplete d
              then and_then (getDecodedMessage d) (\<lambda>ekVector.
                     case (ek_seed s1, hek s1) of
                       (Some seed, Some h) \<Rightarrow>
                         and_then (verifyEkHashBinding kem seed ekVector h) (\<lambda>_.
                           bob_complete_ek hmac kem (bm_type m) (s1\<lparr>ek_vector := Some ekVector\<rparr>))
                     | _ \<Rightarrow> Inl (PlainError ''ek_seed is undefined''))
              else if bm_type m = EkCt1Ack \<and> braid_state s1 = Ct1Sampled
              then transition s1 EKCT1_ACK_EK_INCOMPLETE
              else Inr s1))"

definition receiveBob ::
    "hmac_fun \<Rightarrow> braid_kem \<Rightarrow> MLKEMBraidAgentState \<Rightarrow> MLKEMBraidMessage \<Rightarrow> (MLKEMBraidAgentState \<times> ReceiveResult) result" where
  "receiveBob hmac kem s m =
     (let unchanged = Inr (s, receive_result m None);
          done = (\<lambda>r. and_then r (\<lambda>s'. Inr (s', receive_result m None)))
      in if bm_epoch m < braid_epoch s then unchanged
         else if braid_state s = Ct2Sampled \<and> bm_epoch m = braid_epoch s + 1
         then done (and_then (transition s BOB_NEW_EPOCH) (\<lambda>s1.
                let s2 = s1\<lparr>braid_epoch := braid_epoch s1 + 1\<rparr> in Inr (resetForNewEpoch s2 (braid_state s2))))
         else if bm_epoch m > braid_epoch s then Inl (PlainError ''Epoch mismatch'')
         else if bm_type m = Hdr
         then (case bm_data m of
                 Some data \<Rightarrow> if braid_state s = NoHeaderReceived then done (bob_receive_header hmac m data s) else unchanged
               | None \<Rightarrow> unchanged)
         else if bm_type m = Ek \<or> bm_type m = EkCt1Ack
         then if braid_state s = EkReceivedCt1Sampled \<and> bm_type m = EkCt1Ack
              then done (and_then (transition s EKCT1_ACK) (bobSampleCt2 hmac kem))
              else (case bm_data m of
                      Some data \<Rightarrow> if braid_state s = Ct1Sampled \<or> braid_state s = Ct1Acknowledged
                                   then done (bob_receive_ek hmac kem m data s) else unchanged
                    | None \<Rightarrow> unchanged)
         else if bm_type m = Ct1Ack
         then if braid_state s = EkReceivedCt1Sampled
              then done (and_then (transition s EKCT1_ACK) (bobSampleCt2 hmac kem))
              else unchanged
         else unchanged)"

definition braid_Receive ::
    "hmac_fun \<Rightarrow> braid_kem \<Rightarrow> MLKEMBraidAgentState \<Rightarrow> MLKEMBraidMessage \<Rightarrow> (MLKEMBraidAgentState \<times> ReceiveResult) result" where
  "braid_Receive hmac kem s m =
     (if braid_state s \<in> ALICE_STATES then receiveAlice hmac kem s m else receiveBob hmac kem s m)"

section \<open>Progress\<close>

definition readBraidChunkProgress :: "MLKEMBraidAgentState \<Rightarrow> nat \<times> nat" where
  "readBraidChunkProgress s =
     (let encoders = List.map_filter (\<lambda>f. f s) [headerEncoder, ekEncoder, ct1Encoder, ct2Encoder];
          decoders = List.map_filter (\<lambda>f. f s) [headerDecoder, ekDecoder, ct1Decoder, ct2Decoder]
      in (sum_list (map es_currentChunk encoders) + sum_list (map ds_receivedChunks decoders),
          sum_list (map es_totalChunks encoders) + sum_list (map ds_requiredChunks decoders)))"

text \<open>A state that was stored and loaded again has lost the cached encoders.\<close>

definition drop_encoders :: "MLKEMBraidAgentState \<Rightarrow> MLKEMBraidAgentState" where
  "drop_encoders s =
     (let drop = map_option (\<lambda>e. e\<lparr>es_encoder := None\<rparr>)
      in s\<lparr>headerEncoder := drop (headerEncoder s), ekEncoder := drop (ekEncoder s),
           ct1Encoder := drop (ct1Encoder s), ct2Encoder := drop (ct2Encoder s)\<rparr>)"


section \<open>Key derivations have their sizes\<close>

lemma KDF_OK_ok:
  assumes "\<And>k d. length (hmac k d) = 32" and "length ss = 32"
  shows "\<exists>key. KDF_OK hmac ss e = Inr key \<and> length key = 32"
  using hkdf_length [where hmac = hmac and len = 32, OF assms(1), of ss "zeros 32" "buildKdfInfo (ascii '':SCKA Key'') e"] assms(2)
  by (simp add: KDF_OK_def)

lemma authUpdate_ok:
  assumes "\<And>k d. length (hmac k d) = 32" and "length (root_key a) = 32" and "length key = 32"
  shows "\<exists>a'. authUpdate hmac a e key = Inr a' \<and> length (root_key a') = 32 \<and> length (mac_key a') = 32"
proof -
  obtain dd where "hkdf hmac (root_key a @ key) (zeros 32) (buildKdfInfo (ascii '':Authenticator Update'') e) 64 = Inr dd"
    "length dd = 64"
    using hkdf_length [where hmac = hmac and len = 64, OF assms(1), of "root_key a @ key" "zeros 32"
      "buildKdfInfo (ascii '':Authenticator Update'') e"] by auto
  then show ?thesis using assms(2,3) by (simp add: authUpdate_def KDF_AUTH_def)
qed

lemma initAuthenticatorState_ok:
  assumes "\<And>k d. length (hmac k d) = 32" and "length key = 32"
  shows "\<exists>a. initAuthenticatorState hmac key = Inr a \<and> length (root_key a) = 32"
  using authUpdate_ok [where hmac = hmac, OF assms(1), of "\<lparr>root_key = zeros 32, mac_key = zeros 32\<rparr>" key 0] assms(2)
  by (auto simp: initAuthenticatorState_def authInit_def zeros_def)

section \<open>Encoders emit and decoders collect the chunks of a message\<close>

definition encoder_for :: "bytes \<Rightarrow> BraidEncoderState \<Rightarrow> bool" where
  "encoder_for data e \<longleftrightarrow> encodable data \<and> es_data e = data \<and> es_currentChunk e \<le> 65536 \<and>
     (\<forall>c. es_encoder e = Some c \<longrightarrow> encodes data c \<and> currentChunkIdx c = es_currentChunk e)"

lemma createEncoderState_for:
  "encodable data \<Longrightarrow> \<exists>e. createEncoderState data = Inr e \<and> encoder_for data e \<and> es_currentChunk e = 0"
  using createEncoder_encodes [of data] by (auto simp: createEncoderState_def encoder_for_def)

lemma restoreEncoder_for:
  assumes "encoder_for data e"
  shows "\<exists>c. restoreEncoder e = Inr c \<and> encodes data c \<and> currentChunkIdx c = es_currentChunk e"
  using assms restore_encodes [of data "int (es_currentChunk e)"]
  by (cases "es_encoder e") (auto simp: restoreEncoder_def encoder_for_def)

lemma getNext_for:
  assumes e: "encoder_for data e" and "getNextEncoderChunk e = Inr ((c, i), e')"
  shows "c = chunk_at data i" "i < 65536" "i = es_currentChunk e" "encoder_for data e'" "es_currentChunk e' = Suc i"
proof -
  obtain enc where enc: "restoreEncoder e = Inr enc" "encodes data enc" "currentChunkIdx enc = es_currentChunk e"
    using restoreEncoder_for [OF e] by blast
  have lt: "es_currentChunk e < 65536" and i: "i = es_currentChunk e"
    using assms(2) enc by (auto simp: getNextEncoderChunk_def hasMoreChunks_def BRAID_CHUNK_POINT_COUNT_def Let_def
      result_simps split: if_splits)
  obtain enc' where "nextChunk enc = Inr (chunk_at data (es_currentChunk e), enc')" "encodes data enc'"
    "currentChunkIdx enc' = Suc (es_currentChunk e)"
    using nextChunk_encodes [of data enc] e enc lt by (auto simp: encoder_for_def)
  then show "c = chunk_at data i" "i < 65536" "i = es_currentChunk e" "encoder_for data e'" "es_currentChunk e' = Suc i"
    using assms(2) e enc lt by (auto simp: getNextEncoderChunk_def hasMoreChunks_def BRAID_CHUNK_POINT_COUNT_def Let_def encoder_for_def)
qed

lemma getNext_ok: "encoder_for data e \<Longrightarrow> ok (getNextEncoderChunk e) \<longleftrightarrow> es_currentChunk e < 65536"
proof -
  assume e: "encoder_for data e"
  obtain enc where enc: "restoreEncoder e = Inr enc" "encodes data enc" "currentChunkIdx enc = es_currentChunk e"
    using restoreEncoder_for [OF e] by blast
  then show ?thesis
    using nextChunk_encodes [of data enc] e
    by (auto simp: getNextEncoderChunk_def hasMoreChunks_def BRAID_CHUNK_POINT_COUNT_def Let_def encoder_for_def)
qed

lemma encoder_for_drop: "encoder_for data e \<Longrightarrow> encoder_for data (e\<lparr>es_encoder := None\<rparr>)"
  by (simp add: encoder_for_def)

definition decoder_for :: "bytes \<Rightarrow> DecoderState \<Rightarrow> bool" where
  "decoder_for data d \<longleftrightarrow> encodable data \<and> ds_requiredChunks d = chunk_count (length data) \<and> ds_messageSize d = length data \<and>
     (\<exists>is. distinct is \<and> set is \<subseteq> {..<65536} \<and> ds_chunks d = map (\<lambda>i. (i, chunk_at data i)) is)"

lemma decoder_for_new: "encodable data \<Longrightarrow> n = length data \<Longrightarrow> decoder_for data (createDecoderState n)"
  by (auto simp: decoder_for_def createDecoderState_def intro: exI [of _ "[]"])

lemma decoder_for_or:
  "encodable data \<Longrightarrow> n = length data \<Longrightarrow> (\<And>d. od = Some d \<Longrightarrow> decoder_for data d) \<Longrightarrow> decoder_for data (decoder_or od n)"
  by (cases od) (simp_all add: decoder_or_def decoder_for_new)

lemma addDecoderChunk_for:
  assumes d: "decoder_for data d" and i: "i < 65536"
  shows "\<exists>d'. addDecoderChunk d (int i) (chunk_at data i) = Inr d' \<and> decoder_for data d'"
proof -
  obtain "is" where is': "distinct is" "set is \<subseteq> {..<65536}" "ds_chunks d = map (\<lambda>i. (i, chunk_at data i)) is"
    using d by (auto simp: decoder_for_def)
  have look: "map_of (ds_chunks d) i = (if i \<in> set is then Some (chunk_at data i) else None)"
    by (simp add: is'(3) map_of_map_restrict restrict_map_def)
  show ?thesis
  proof (cases "i \<in> set is")
    case True
    then show ?thesis using look d i
      by (simp add: addDecoderChunk_def assertBraidChunkIndex_def BRAID_CHUNK_POINT_COUNT_def length_chunk_at)
  next
    case False
    have "\<exists>js. distinct js \<and> set js \<subseteq> {..<65536} \<and>
        ds_chunks d @ [(i, chunk_at data i)] = map (\<lambda>i. (i, chunk_at data i)) js"
      using is' i False by (intro exI [of _ "is @ [i]"]) auto
    then show ?thesis using look d i False
      by (simp add: addDecoderChunk_def assertBraidChunkIndex_def BRAID_CHUNK_POINT_COUNT_def length_chunk_at
        decoder_for_def Let_def)
  qed
qed

lemma getDecodedMessage_for:
  assumes d: "decoder_for data d" and "isDecoderComplete d"
  shows "getDecodedMessage d = Inr data"
proof -
  obtain "is" where is': "distinct is" "set is \<subseteq> {..<65536}" "ds_chunks d = map (\<lambda>i. (i, chunk_at data i)) is"
    using d by (auto simp: decoder_for_def)
  have data: "encodable data" using d by (simp add: decoder_for_def)
  obtain d0 where d0: "createDecoder (length data) = Inr d0" "decodes data [] d0" using createDecoder_decodes [OF data] by blast
  obtain d1 js where d1: "add_chunks d0 (map (\<lambda>i. (i, chunk_at data i)) is) = Inr d1" "decodes data js d1" "set js = set is"
    using add_chunks_decodes [OF d0(2) is'(2)] by auto
  have "length js = length is" using d1(2,3) is'(1) by (metis decodes_def distinct_card)
  then have "message_of d1 = Inr (Some data)"
    using message_decodes [OF data d1(2)] assms is'(3) by (simp add: isDecoderComplete_def decoder_for_def)
  then show ?thesis using d0(1) d1(1) is'(3) d by (simp add: getDecodedMessage_def decoder_for_def)
qed

end
