(* ===== verification/Braid_Run.thy ===== *)
theory Braid_Run
  imports Braid
begin

text \<open>
  Two ends of a braid over a network that loses, repeats and reorders messages.

  A world holds both agents, every message each has sent and the keys each has emitted. A step sends, receives any
  message the other end has sent so far, or stores and loads an agent. Shown here by an invariant over all reachable worlds: no
  message of the other end is ever rejected, both ends emit the keys of the epochs 1, 2, .. in order, and
  the keys of one end are a prefix of those of the other, at most one shorter.
\<close>

section \<open>Worlds and steps\<close>

record braid_world =
  w_agent :: "bool \<Rightarrow> MLKEMBraidAgentState"
  w_sent :: "bool \<Rightarrow> MLKEMBraidMessage set"
  w_keys :: "bool \<Rightarrow> OutputKey list"

definition output_to :: "OutputKey option \<Rightarrow> OutputKey list \<Rightarrow> OutputKey list" where
  "output_to key ks = (case key of None \<Rightarrow> ks | Some k \<Rightarrow> ks @ [k])"

definition after_send :: "bool \<Rightarrow> MLKEMBraidAgentState \<Rightarrow> SendResult \<Rightarrow> braid_world \<Rightarrow> braid_world" where
  "after_send i s r w =
     w\<lparr>w_agent := (w_agent w)(i := s), w_sent := (w_sent w)(i := insert (sent_message r) (w_sent w i)),
       w_keys := (w_keys w)(i := output_to (sent_key r) (w_keys w i))\<rparr>"

definition after_receive :: "bool \<Rightarrow> MLKEMBraidAgentState \<Rightarrow> ReceiveResult \<Rightarrow> braid_world \<Rightarrow> braid_world" where
  "after_receive i s r w =
     w\<lparr>w_agent := (w_agent w)(i := s), w_keys := (w_keys w)(i := output_to (received_key r) (w_keys w i))\<rparr>"

text \<open>\<open>delivers\<close> says which messages the layer above hands to the machine.\<close>

inductive braid_step ::
    "hmac_fun \<Rightarrow> braid_kem \<Rightarrow> (MLKEMBraidMessage \<Rightarrow> bool) \<Rightarrow> braid_world \<Rightarrow> braid_world \<Rightarrow> bool"
  for hmac kem delivers where
  send: "(\<And>n. length (rnd n) = n) \<Longrightarrow> braid_Send hmac kem rnd (w_agent w i) = Inr (s, r) \<Longrightarrow>
    braid_step hmac kem delivers w (after_send i s r w)"
| receive: "m \<in> w_sent w (\<not> i) \<Longrightarrow> delivers m \<Longrightarrow> braid_Receive hmac kem (w_agent w i) m = Inr (s, r) \<Longrightarrow>
    braid_step hmac kem delivers w (after_receive i s r w)"
| reload: "braid_step hmac kem delivers w (w\<lparr>w_agent := (w_agent w)(i := drop_encoders (w_agent w i))\<rparr>)"

text \<open>The end \<open>True\<close> is the initiator.\<close>

definition braid_start :: "hmac_fun \<Rightarrow> bytes \<Rightarrow> braid_world \<Rightarrow> bool" where
  "braid_start hmac secret w \<longleftrightarrow>
     InitAlice hmac secret = Inr (w_agent w True) \<and> InitBob hmac secret = Inr (w_agent w False) \<and>
     w_sent w = (\<lambda>_. {}) \<and> w_keys w = (\<lambda>_. [])"

text \<open>
  What the machine relies on in the incremental KEM: sizes, the hash in the key pair, and that decapsulating the two
  halves of an encapsulation gives its shared secret.
\<close>

definition encapsulates :: "braid_kem \<Rightarrow> bytes \<Rightarrow> bytes \<Rightarrow> bytes \<Rightarrow> bytes \<Rightarrow> bytes \<Rightarrow> bool" where
  "encapsulates kem d seed vector h r =
     (case kem_encaps1 kem seed h r of (secret, c1, ss) \<Rightarrow> length c1 = 960 \<and> length ss = 32 \<and>
        (\<exists>c2. kem_encaps2 kem secret seed vector h = Inr c2 \<and> length c2 = 128 \<and> kem_decaps kem d c1 c2 = Inr ss))"

definition braid_kem_laws :: "braid_kem \<Rightarrow> bool" where
  "braid_kem_laws kem \<longleftrightarrow> (\<forall>r. length r = 64 \<longrightarrow>
     (case kem_keygen kem r of (d, seed, vector, h) \<Rightarrow> length d = 2400 \<and> length seed = 32 \<and> length vector = 1152 \<and>
        h = computeHek kem seed vector \<and> length h = 32 \<and> (\<forall>r. length r = 32 \<longrightarrow> encapsulates kem d seed vector h r)))"

section \<open>The exchange of one epoch\<close>

record exchange =
  x_dk :: bytes
  x_seed :: bytes
  x_vector :: bytes
  x_hek :: bytes
  x_secret :: bytes
  x_c1 :: bytes
  x_c2 :: bytes
  x_key :: bytes
  x_next :: AuthenticatorState

definition offer_ok :: "braid_kem \<Rightarrow> exchange \<Rightarrow> bool" where
  "offer_ok kem X \<longleftrightarrow> length (x_dk X) = 2400 \<and> length (x_seed X) = 32 \<and> length (x_vector X) = 1152 \<and>
     x_hek X = computeHek kem (x_seed X) (x_vector X) \<and> length (x_hek X) = 32 \<and>
     (\<forall>r. length r = 32 \<longrightarrow> encapsulates kem (x_dk X) (x_seed X) (x_vector X) (x_hek X) r)"

definition answer_ok :: "hmac_fun \<Rightarrow> braid_kem \<Rightarrow> AuthenticatorState \<Rightarrow> nat \<Rightarrow> exchange \<Rightarrow> bool" where
  "answer_ok hmac kem a e X \<longleftrightarrow> length (x_c1 X) = 960 \<and> length (x_c2 X) = 128 \<and>
     kem_encaps2 kem (x_secret X) (x_seed X) (x_vector X) (x_hek X) = Inr (x_c2 X) \<and>
     (\<exists>ss. kem_decaps kem (x_dk X) (x_c1 X) (x_c2 X) = Inr ss \<and> KDF_OK hmac ss e = Inr (x_key X)) \<and>
     authUpdate hmac a e (x_key X) = Inr (x_next X) \<and> length (root_key (x_next X)) = 32"

definition header_of :: "hmac_fun \<Rightarrow> AuthenticatorState \<Rightarrow> nat \<Rightarrow> exchange \<Rightarrow> bytes" where
  "header_of hmac a e X = (x_seed X @ x_hek X) @ MacHdr hmac a e (x_seed X @ x_hek X)"

definition ct2_of :: "hmac_fun \<Rightarrow> nat \<Rightarrow> exchange \<Rightarrow> bytes" where
  "ct2_of hmac e X = x_c2 X @ MacCt hmac (x_next X) e (x_c1 X @ x_c2 X)"

definition key_of :: "nat \<Rightarrow> exchange \<Rightarrow> OutputKey" where
  "key_of e X = \<lparr>ok_epoch = e, epoch_secret = x_key X\<rparr>"

text \<open>A message with a genuine chunk of the data.\<close>

definition carries :: "MLKEMBraidMessage \<Rightarrow> BraidMessageType \<Rightarrow> bytes \<Rightarrow> bool" where
  "carries m t data \<longleftrightarrow> bm_type m = t \<and>
     (\<exists>i<65536. bm_chunkIndex m = Some (int i) \<and> bm_data m = Some (chunk_at data i))"

definition encoder_is :: "bytes \<Rightarrow> BraidEncoderState option \<Rightarrow> bool" where
  "encoder_is data e \<longleftrightarrow> (\<exists>c. e = Some c \<and> encoder_for data c)"

definition decoder_is :: "bytes \<Rightarrow> DecoderState option \<Rightarrow> bool" where
  "decoder_is data d \<longleftrightarrow> (\<forall>c. d = Some c \<longrightarrow> decoder_for data c)"

subsection \<open>The generator of the key pair\<close>

definition fresh_generator :: "AuthenticatorState \<Rightarrow> nat \<Rightarrow> MLKEMBraidAgentState \<Rightarrow> bool" where
  "fresh_generator a e s \<longleftrightarrow> braid_state s = KeysUnsampled \<and> braid_epoch s = e \<and> auth s = a \<and>
     ct1Decoder s = None \<and> ct2Decoder s = None"

definition generator :: "hmac_fun \<Rightarrow> AuthenticatorState \<Rightarrow> nat \<Rightarrow> exchange \<Rightarrow> MLKEMBraidAgentState \<Rightarrow> bool" where
  "generator hmac a e X s \<longleftrightarrow> braid_epoch s = e \<and> auth s = a \<and> dk s = Some (x_dk X) \<and>
     encoder_is (header_of hmac a e X) (headerEncoder s) \<and> encoder_is (x_vector X) (ekEncoder s)"

definition offering :: "hmac_fun \<Rightarrow> AuthenticatorState \<Rightarrow> nat \<Rightarrow> exchange \<Rightarrow> MLKEMBraidAgentState \<Rightarrow> bool" where
  "offering hmac a e X s \<longleftrightarrow> generator hmac a e X s \<and> braid_state s = KeysSampled \<and> ct1Decoder s = None \<and> ct2Decoder s = None"

definition collecting :: "hmac_fun \<Rightarrow> AuthenticatorState \<Rightarrow> nat \<Rightarrow> exchange \<Rightarrow> MLKEMBraidAgentState \<Rightarrow> bool" where
  "collecting hmac a e X s \<longleftrightarrow> generator hmac a e X s \<and> decoder_is (x_c1 X) (ct1Decoder s) \<and> decoder_is (ct2_of hmac e X) (ct2Decoder s) \<and>
     (braid_state s = KeysSampled \<or> braid_state s = HeaderSent \<or>
      (braid_state s = Ct1Received \<or> braid_state s = EkSentCt1Received) \<and> ct1_decoded s = Some (x_c1 X))"

subsection \<open>The encapsulator\<close>

definition fresh_encapsulator :: "AuthenticatorState \<Rightarrow> nat \<Rightarrow> MLKEMBraidAgentState \<Rightarrow> bool" where
  "fresh_encapsulator a e s \<longleftrightarrow> braid_state s = NoHeaderReceived \<and> braid_epoch s = e \<and> auth s = a \<and>
     headerDecoder s = Some (createDecoderState HEADER_SIZE) \<and> ekDecoder s = None"

definition awaiting :: "hmac_fun \<Rightarrow> AuthenticatorState \<Rightarrow> nat \<Rightarrow> exchange \<Rightarrow> MLKEMBraidAgentState \<Rightarrow> bool" where
  "awaiting hmac a e X s \<longleftrightarrow> braid_epoch s = e \<and> auth s = a \<and> ekDecoder s = None \<and>
     (braid_state s = NoHeaderReceived \<and> decoder_is (header_of hmac a e X) (headerDecoder s) \<or>
      braid_state s = HeaderReceived \<and> ek_seed s = Some (x_seed X) \<and> hek s = Some (x_hek X))"

definition answering :: "hmac_fun \<Rightarrow> nat \<Rightarrow> exchange \<Rightarrow> MLKEMBraidAgentState \<Rightarrow> bool" where
  "answering hmac e X s \<longleftrightarrow> braid_epoch s = e \<and> auth s = x_next X \<and>
     (braid_state s = Ct2Sampled \<and> encoder_is (ct2_of hmac e X) (ct2Encoder s) \<or>
      (braid_state s = Ct1Sampled \<or> braid_state s = Ct1Acknowledged \<or> braid_state s = EkReceivedCt1Sampled \<and> ek_vector s = Some (x_vector X)) \<and>
      ek_seed s = Some (x_seed X) \<and> hek s = Some (x_hek X) \<and> encaps_secret s = Some (x_secret X) \<and>
      ct1_for_mac s = Some (x_c1 X) \<and> encoder_is (x_c1 X) (ct1Encoder s) \<and> decoder_is (x_vector X) (ekDecoder s))"

subsection \<open>The messages in flight\<close>

definition offer_message :: "hmac_fun \<Rightarrow> AuthenticatorState \<Rightarrow> nat \<Rightarrow> exchange \<Rightarrow> MLKEMBraidMessage \<Rightarrow> bool" where
  "offer_message hmac a e X m \<longleftrightarrow> bm_epoch m < e \<or> bm_epoch m = e \<and> carries m Hdr (header_of hmac a e X)"

definition generator_message :: "hmac_fun \<Rightarrow> AuthenticatorState \<Rightarrow> nat \<Rightarrow> exchange \<Rightarrow> MLKEMBraidMessage \<Rightarrow> bool" where
  "generator_message hmac a e X m \<longleftrightarrow> bm_epoch m < e \<or> bm_epoch m = e \<and>
     (carries m Hdr (header_of hmac a e X) \<or> carries m Ek (x_vector X) \<or> carries m EkCt1Ack (x_vector X) \<or>
      bm_type m = Ct1Ack \<and> bm_data m = None)"

definition idle_message :: "nat \<Rightarrow> MLKEMBraidMessage \<Rightarrow> bool" where
  "idle_message e m \<longleftrightarrow> bm_epoch m < e \<or> bm_epoch m = e \<and> bm_type m = NoPayload"

definition answer_message :: "hmac_fun \<Rightarrow> nat \<Rightarrow> exchange \<Rightarrow> bool \<Rightarrow> MLKEMBraidMessage \<Rightarrow> bool" where
  "answer_message hmac e X ct2s m \<longleftrightarrow> idle_message e m \<or> bm_epoch m = e \<and>
     (carries m Ct1 (x_c1 X) \<or> carries m Ct2 (ct2_of hmac e X) \<and> ct2s)"

subsection \<open>The phases of an epoch\<close>

text \<open>
  The end \<open>x\<close> generates the key pair of epoch \<open>e\<close>; \<open>a\<close> is the common authenticator and \<open>ks\<close> the keys of the epochs
  before.
\<close>

definition phase_idle :: "AuthenticatorState \<Rightarrow> bool \<Rightarrow> nat \<Rightarrow> OutputKey list \<Rightarrow> braid_world \<Rightarrow> bool" where
  "phase_idle a x e ks w \<longleftrightarrow> fresh_generator a e (w_agent w x) \<and> fresh_encapsulator a e (w_agent w (\<not> x)) \<and>
     (\<forall>m \<in> w_sent w x. bm_epoch m < e) \<and> (\<forall>m \<in> w_sent w (\<not> x). idle_message e m) \<and>
     w_keys w x = ks \<and> w_keys w (\<not> x) = ks"

definition phase_offered ::
    "hmac_fun \<Rightarrow> AuthenticatorState \<Rightarrow> bool \<Rightarrow> nat \<Rightarrow> OutputKey list \<Rightarrow> exchange \<Rightarrow> braid_world \<Rightarrow> bool" where
  "phase_offered hmac a x e ks X w \<longleftrightarrow> offering hmac a e X (w_agent w x) \<and> awaiting hmac a e X (w_agent w (\<not> x)) \<and>
     (\<forall>m \<in> w_sent w x. offer_message hmac a e X m) \<and> (\<forall>m \<in> w_sent w (\<not> x). idle_message e m) \<and>
     w_keys w x = ks \<and> w_keys w (\<not> x) = ks"

definition phase_answered ::
    "hmac_fun \<Rightarrow> AuthenticatorState \<Rightarrow> bool \<Rightarrow> nat \<Rightarrow> OutputKey list \<Rightarrow> exchange \<Rightarrow> braid_world \<Rightarrow> bool" where
  "phase_answered hmac a x e ks X w \<longleftrightarrow> collecting hmac a e X (w_agent w x) \<and> answering hmac e X (w_agent w (\<not> x)) \<and>
     (\<forall>m \<in> w_sent w x. generator_message hmac a e X m) \<and>
     (\<forall>m \<in> w_sent w (\<not> x). answer_message hmac e X (braid_state (w_agent w (\<not> x)) = Ct2Sampled) m) \<and>
     w_keys w x = ks \<and> w_keys w (\<not> x) = ks @ [key_of e X]"

definition phase_agreed ::
    "hmac_fun \<Rightarrow> AuthenticatorState \<Rightarrow> bool \<Rightarrow> nat \<Rightarrow> OutputKey list \<Rightarrow> exchange \<Rightarrow> braid_world \<Rightarrow> bool" where
  "phase_agreed hmac a x e ks X w \<longleftrightarrow> fresh_encapsulator (x_next X) (e + 1) (w_agent w x) \<and>
     answering hmac e X (w_agent w (\<not> x)) \<and> braid_state (w_agent w (\<not> x)) = Ct2Sampled \<and>
     (\<forall>m \<in> w_sent w x. generator_message hmac a e X m \<or> bm_epoch m = e + 1 \<and> bm_type m = NoPayload) \<and>
     (\<forall>m \<in> w_sent w (\<not> x). answer_message hmac e X True m) \<and>
     w_keys w x = ks @ [key_of e X] \<and> w_keys w (\<not> x) = ks @ [key_of e X]"

definition braid_inv :: "hmac_fun \<Rightarrow> braid_kem \<Rightarrow> bool \<Rightarrow> nat \<Rightarrow> OutputKey list \<Rightarrow> braid_world \<Rightarrow> bool" where
  "braid_inv hmac kem x e ks w \<longleftrightarrow> 1 \<le> e \<and> map ok_epoch ks = [1..<e] \<and> (\<exists>a. length (root_key a) = 32 \<and>
     (phase_idle a x e ks w \<or>
      (\<exists>X. offer_ok kem X \<and> (phase_offered hmac a x e ks X w \<or>
        answer_ok hmac kem a e X \<and> (phase_answered hmac a x e ks X w \<or> phase_agreed hmac a x e ks X w)))))"


section \<open>Sending in every phase\<close>

lemma roles: "KeysUnsampled \<in> ALICE_STATES" "KeysSampled \<in> ALICE_STATES" "HeaderSent \<in> ALICE_STATES"
    "Ct1Received \<in> ALICE_STATES" "EkSentCt1Received \<in> ALICE_STATES" "NoHeaderReceived \<notin> ALICE_STATES"
    "HeaderReceived \<notin> ALICE_STATES" "Ct1Sampled \<notin> ALICE_STATES" "EkReceivedCt1Sampled \<notin> ALICE_STATES"
    "Ct1Acknowledged \<notin> ALICE_STATES" "Ct2Sampled \<notin> ALICE_STATES" "NoHeaderReceived \<in> BOB_STATES" "KeysUnsampled \<notin> BOB_STATES"
  by (simp_all add: ALICE_STATES_def BOB_STATES_def)

lemma carries_chunk: "i < 65536 \<Longrightarrow> carries (chunk_message s t i (chunk_at data i)) t data"
  by (auto simp: carries_def chunk_message_def)

lemma chunk_message_epoch [simp]: "bm_epoch (chunk_message s t i c) = braid_epoch s" "bm_epoch (bare_message s t) = braid_epoch s"
    "bm_type (bare_message s t) = t" "bm_data (bare_message s t) = None"
  by (simp_all add: chunk_message_def bare_message_def)

lemma send_result_simps [simp]: "sent_message (send_result s m k) = m" "sent_key (send_result s m k) = k"
  by (simp_all add: send_result_def)

lemma encoder_next:
  assumes "encoder_is data (Some e)" and "getNextEncoderChunk e = Inr ((c, i), e')"
  shows "encoder_is data (Some e')" "carries (chunk_message s t i c) t data"
  using getNext_for [of data e c i e'] assms carries_chunk [of i s t data] by (auto simp: encoder_is_def)

lemma sendable_length: "0 < length d \<Longrightarrow> length d \<le> 1152 \<Longrightarrow> encodable d"
  by (auto simp: encodable_def MAX_MESSAGE_SIZE_def)

lemma length_header_of:
  "(\<And>k d. length (hmac k d) = 32) \<Longrightarrow> offer_ok kem X \<Longrightarrow> length (header_of hmac a e X) = 96"
  by (auto simp: header_of_def offer_ok_def MacHdr_def)

lemma length_ct2_of:
  "(\<And>k d. length (hmac k d) = 32) \<Longrightarrow> answer_ok hmac kem a e X \<Longrightarrow> length (ct2_of hmac e X) = 160"
  by (simp add: ct2_of_def answer_ok_def MacCt_def)

lemma sendable_header: "(\<And>k d. length (hmac k d) = 32) \<Longrightarrow> offer_ok kem X \<Longrightarrow> encodable (header_of hmac a e X)"
  by (intro sendable_length) (simp_all add: length_header_of [where kem = kem])

lemma sendable_vector: "offer_ok kem X \<Longrightarrow> encodable (x_vector X)"
  by (intro sendable_length) (auto simp: offer_ok_def)

lemma sendable_c1: "answer_ok hmac kem a e X \<Longrightarrow> encodable (x_c1 X)"
  by (intro sendable_length) (auto simp: answer_ok_def)

lemma sendable_ct2: "(\<And>k d. length (hmac k d) = 32) \<Longrightarrow> answer_ok hmac kem a e X \<Longrightarrow> encodable (ct2_of hmac e X)"
  by (intro sendable_length) (simp_all add: length_ct2_of [where kem = kem and a = a])

lemma header_chunk_sent:
  assumes "aliceSendHeaderChunk s = Inr (s', r)" and "generator hmac a e X s"
  shows "generator hmac a e X s' \<and> braid_state s' = braid_state s \<and> ct1Decoder s' = ct1Decoder s \<and> ct2Decoder s' = ct2Decoder s \<and>
    ct1_decoded s' = ct1_decoded s \<and> bm_epoch (sent_message r) = e \<and> carries (sent_message r) Hdr (header_of hmac a e X) \<and> sent_key r = None"
proof -
  obtain h where h: "headerEncoder s = Some h" using assms by (auto simp: generator_def encoder_is_def)
  then obtain c i h' where n: "getNextEncoderChunk h = Inr ((c, i), h')" "s' = s\<lparr>headerEncoder := Some h'\<rparr>"
    "r = send_result s (chunk_message s Hdr i c) None"
    using assms(1) by (auto simp: aliceSendHeaderChunk_def result_simps)
  then show ?thesis using assms(2) h encoder_next(1) [of _ h c i h'] encoder_next(2) [of _ h c i h' s Hdr] by (auto simp: generator_def)
qed

lemma ek_chunk_sent:
  assumes "aliceSendEkChunk s t = Inr (s', r)" and "generator hmac a e X s"
  shows "generator hmac a e X s' \<and> braid_state s' = braid_state s \<and> ct1Decoder s' = ct1Decoder s \<and> ct2Decoder s' = ct2Decoder s \<and>
    ct1_decoded s' = ct1_decoded s \<and> bm_epoch (sent_message r) = e \<and> carries (sent_message r) t (x_vector X) \<and> sent_key r = None"
proof -
  obtain h where h: "ekEncoder s = Some h" using assms by (auto simp: generator_def encoder_is_def)
  then obtain c i h' where n: "getNextEncoderChunk h = Inr ((c, i), h')" "s' = s\<lparr>ekEncoder := Some h'\<rparr>"
    "r = send_result s (chunk_message s t i c) None"
    using assms(1) by (auto simp: aliceSendEkChunk_def result_simps)
  then show ?thesis using assms(2) h encoder_next(1) [of _ h c i h'] encoder_next(2) [of _ h c i h' s t] by (auto simp: generator_def)
qed

lemma send_fresh_generator:
  assumes hmac: "\<And>k d. length (hmac k d) = 32" and kem: "braid_kem_laws kem" and rnd: "\<And>n. length (rnd n) = n"
    and s: "fresh_generator a e s" and send: "braid_Send hmac kem rnd s = Inr (s', r)"
  shows "\<exists>X. offer_ok kem X \<and> offering hmac a e X s' \<and> offer_message hmac a e X (sent_message r) \<and> sent_key r = None"
proof -
  obtain d seed vector h where kp: "kem_keygen kem (rnd 64) = (d, seed, vector, h)" by (rule prod_cases4)
  define X where "X = \<lparr>x_dk = d, x_seed = seed, x_vector = vector, x_hek = h, x_secret = [], x_c1 = [], x_c2 = [], x_key = [], x_next = a\<rparr>"
  have X: "offer_ok kem X"
    using kem [unfolded braid_kem_laws_def, THEN spec, THEN mp, OF rnd, unfolded kp prod.case]
    unfolding offer_ok_def X_def exchange.select_convs .
  have hdr: "(seed @ h) @ MacHdr hmac (auth s) (braid_epoch s) (seed @ h) = header_of hmac a e X"
    using s by (simp add: header_of_def X_def fresh_generator_def)
  have "encodable (header_of hmac a e X)" "encodable vector"
    using sendable_header [where hmac = hmac, OF hmac X, of a e] sendable_vector [OF X] by (simp_all add: X_def)
  then obtain he ee where enc: "createEncoderState (header_of hmac a e X) = Inr he" "encoder_for (header_of hmac a e X) he"
    "createEncoderState vector = Inr ee" "encoder_for vector ee"
    using createEncoderState_for by metis
  let ?s = "s\<lparr>dk := Some d, ek_seed := Some seed, ek_vector := Some vector, hek := Some h, headerEncoder := Some he,
    ekEncoder := Some ee, braid_state := KeysSampled\<rparr>"
  have "aliceSendHeaderChunk ?s = Inr (s', r)"
    using send s kp rnd [of 64] enc(1,3) hdr
    by (simp add: braid_Send_def roles fresh_generator_def sendAlice_def aliceSendFromKeysUnsampled_def KEM_KeyGen_def
      transition_def STATE_TRANSITIONS_def Let_def)
  moreover have "generator hmac a e X ?s" using s enc(2,4) by (auto simp: generator_def fresh_generator_def encoder_is_def X_def)
  ultimately have "generator hmac a e X s' \<and> braid_state s' = braid_state ?s \<and> ct1Decoder s' = ct1Decoder ?s \<and> ct2Decoder s' = ct2Decoder ?s \<and>
    ct1_decoded s' = ct1_decoded ?s \<and> bm_epoch (sent_message r) = e \<and> carries (sent_message r) Hdr (header_of hmac a e X) \<and> sent_key r = None"
    by (rule header_chunk_sent)
  then show ?thesis using X s by (intro exI [of _ X]) (auto simp: offering_def offer_message_def fresh_generator_def)
qed

lemma send_offering:
  assumes "offering hmac a e X s" and "braid_Send hmac kem rnd s = Inr (s', r)"
  shows "offering hmac a e X s' \<and> offer_message hmac a e X (sent_message r) \<and> sent_key r = None"
proof -
  have "aliceSendHeaderChunk s = Inr (s', r)" using assms by (simp add: offering_def braid_Send_def roles sendAlice_def)
  from header_chunk_sent [OF this] show ?thesis using assms(1) by (auto simp: offering_def offer_message_def)
qed

lemma send_collecting:
  assumes s: "collecting hmac a e X s" and send: "braid_Send hmac kem rnd s = Inr (s', r)"
  shows "collecting hmac a e X s' \<and> generator_message hmac a e X (sent_message r) \<and> sent_key r = None"
proof -
  have g: "generator hmac a e X s" using s by (simp add: collecting_def)
  consider "braid_state s = KeysSampled" | "braid_state s = HeaderSent" | "braid_state s = Ct1Received"
    | "braid_state s = EkSentCt1Received" using s by (auto simp: collecting_def)
  then show ?thesis
  proof cases
    case 1
    then have "aliceSendHeaderChunk s = Inr (s', r)" using send by (simp add: braid_Send_def roles sendAlice_def)
    from header_chunk_sent [OF this g] show ?thesis using s by (auto simp: collecting_def generator_message_def)
  next
    case 2
    then have "aliceSendEkChunk s Ek = Inr (s', r)" using send by (simp add: braid_Send_def roles sendAlice_def)
    from ek_chunk_sent [OF this g] show ?thesis using s by (auto simp: collecting_def generator_message_def)
  next
    case 3
    then have "aliceSendEkChunk s EkCt1Ack = Inr (s', r)" using send by (simp add: braid_Send_def roles sendAlice_def)
    from ek_chunk_sent [OF this g] show ?thesis using s by (auto simp: collecting_def generator_message_def)
  next
    case 4
    then have "s' = s" "r = send_result s (bare_message s Ct1Ack) None"
      using send by (auto simp: braid_Send_def roles sendAlice_def)
    then show ?thesis using s by (auto simp: collecting_def generator_message_def generator_def)
  qed
qed

lemma send_no_header:
  assumes "braid_state s = NoHeaderReceived" and "braid_Send hmac kem rnd s = Inr (s', r)"
  shows "s' = s \<and> bm_epoch (sent_message r) = braid_epoch s \<and> bm_type (sent_message r) = NoPayload \<and> sent_key r = None"
  using assms by (auto simp: braid_Send_def roles sendBob_def)

lemma send_awaiting:
  assumes hmac: "\<And>k d. length (hmac k d) = 32" and a: "length (root_key a) = 32" and X: "offer_ok kem X"
    and rnd: "\<And>n. length (rnd n) = n" and s: "awaiting hmac a e X s" and send: "braid_Send hmac kem rnd s = Inr (s', r)"
  shows "awaiting hmac a e X s' \<and> idle_message e (sent_message r) \<and> sent_key r = None \<or>
    (\<exists>secret c1 c2 key a'. let Y = X\<lparr>x_secret := secret, x_c1 := c1, x_c2 := c2, x_key := key, x_next := a'\<rparr> in
      answer_ok hmac kem a e Y \<and> answering hmac e Y s' \<and> answer_message hmac e Y False (sent_message r) \<and> sent_key r = Some (key_of e Y))"
proof (cases "braid_state s = NoHeaderReceived")
  case True
  from send_no_header [OF True send] s show ?thesis by (auto simp: awaiting_def idle_message_def)
next
  case False
  then have st: "braid_state s = HeaderReceived" and seed: "ek_seed s = Some (x_seed X)" "hek s = Some (x_hek X)"
    and ep: "braid_epoch s = e" "auth s = a" "ekDecoder s = None" using s by (auto simp: awaiting_def)
  obtain secret c1 ss where e1: "kem_encaps1 kem (x_seed X) (x_hek X) (rnd 32) = (secret, c1, ss)" by (rule prod_cases3)
  have enc: "encapsulates kem (x_dk X) (x_seed X) (x_vector X) (x_hek X) (rnd 32)"
    and sizes: "length (x_seed X) = 32" "length (x_hek X) = 32" using X rnd [of 32] unfolding offer_ok_def by blast+
  then obtain c2 where c1: "length c1 = 960" "length ss = 32" and c2: "length c2 = 128"
    "kem_encaps2 kem secret (x_seed X) (x_vector X) (x_hek X) = Inr c2" "kem_decaps kem (x_dk X) c1 c2 = Inr ss"
    unfolding encapsulates_def e1 by auto
  obtain key where key: "KDF_OK hmac ss e = Inr key" "length key = 32" using KDF_OK_ok [where hmac = hmac, OF hmac c1(2)] by blast
  obtain a' where a': "authUpdate hmac a e key = Inr a'" "length (root_key a') = 32"
    using authUpdate_ok [where hmac = hmac, OF hmac a key(2)] by blast
  have "encodable c1" using c1(1) by (intro sendable_length) simp_all
  then obtain ce where ce: "createEncoderState c1 = Inr ce" "encoder_for c1 ce" using createEncoderState_for by blast
  define Y where "Y = X\<lparr>x_secret := secret, x_c1 := c1, x_c2 := c2, x_key := key, x_next := a'\<rparr>"
  have "ok (getNextEncoderChunk ce)"
    using send st seed sizes rnd [of 32] e1 ce(1) key(1) a'(1) ep
    by (cases "getNextEncoderChunk ce") (simp_all add: braid_Send_def roles sendBob_def bobSendFromHeaderReceived_def KEM_Encaps1_def
      transition_def STATE_TRANSITIONS_def)
  then obtain c i ce' where n: "getNextEncoderChunk ce = Inr ((c, i), ce')" by (auto simp: ok_iff)
  have s': "s' = s\<lparr>encaps_secret := Some secret, ct1 := Some c1, ct1_for_mac := Some c1, auth := a', braid_state := Ct1Sampled,
      ct1Encoder := Some ce'\<rparr>"
    and r: "r = send_result s (chunk_message s Ct1 i c) (Some \<lparr>ok_epoch = e, epoch_secret = key\<rparr>)"
    using send st seed sizes rnd [of 32] e1 ce(1) key(1) a'(1) ep n
    by (simp_all add: braid_Send_def roles sendBob_def bobSendFromHeaderReceived_def KEM_Encaps1_def transition_def
      STATE_TRANSITIONS_def)
  have next_chunk: "encoder_is c1 (Some ce')" "carries (chunk_message s Ct1 i c) Ct1 c1"
    using encoder_next(1) [of c1 ce c i ce'] encoder_next(2) [of c1 ce c i ce' s Ct1] ce(2) n by (auto simp: encoder_is_def)
  have "answer_ok hmac kem a e Y"
    using c1 c2 key(1) a' unfolding answer_ok_def Y_def by simp
  moreover have "answering hmac e Y s'"
    using next_chunk(1) seed ep by (simp add: answering_def s' Y_def decoder_is_def)
  moreover have "answer_message hmac e Y False (sent_message r)" "sent_key r = Some (key_of e Y)"
    using next_chunk(2) ep by (simp_all add: answer_message_def r Y_def key_of_def)
  ultimately show ?thesis unfolding Y_def Let_def by blast
qed

lemma send_answering:
  assumes s: "answering hmac e X s" and send: "braid_Send hmac kem rnd s = Inr (s', r)"
  shows "answering hmac e X s' \<and> answer_message hmac e X (braid_state s' = Ct2Sampled) (sent_message r) \<and> sent_key r = None \<and>
    braid_state s' = braid_state s"
proof -
  consider "braid_state s = Ct1Acknowledged" | "braid_state s = Ct1Sampled \<or> braid_state s = EkReceivedCt1Sampled"
    | "braid_state s = Ct2Sampled" using s by (auto simp: answering_def)
  then show ?thesis
  proof cases
    case 1
    then have "s' = s \<and> r = send_result s (bare_message s NoPayload) None" using send by (auto simp: braid_Send_def roles sendBob_def)
    then show ?thesis using s by (auto simp: answer_message_def idle_message_def answering_def)
  next
    case 2
    then have "bobSendCt1Chunk s = Inr (s', r)" using send by (auto simp: braid_Send_def roles sendBob_def)
    moreover obtain h where h: "ct1Encoder s = Some h" "encoder_is (x_c1 X) (Some h)"
      using s 2 by (auto simp: answering_def encoder_is_def)
    ultimately obtain c i h' where n: "getNextEncoderChunk h = Inr ((c, i), h')" "s' = s\<lparr>ct1Encoder := Some h'\<rparr>"
      "r = send_result s (chunk_message s Ct1 i c) None" by (auto simp: bobSendCt1Chunk_def result_simps)
    show ?thesis using s 2 n encoder_next(1) [OF h(2) n(1)] encoder_next(2) [OF h(2) n(1), of s Ct1]
      by (auto simp: answering_def answer_message_def)
  next
    case 3
    then have "bobSendFromCt2Sampled s = Inr (s', r)" using send by (auto simp: braid_Send_def roles sendBob_def)
    moreover obtain h where h: "ct2Encoder s = Some h" "encoder_is (ct2_of hmac e X) (Some h)"
      using s 3 by (auto simp: answering_def encoder_is_def)
    ultimately obtain c i h' where n: "getNextEncoderChunk h = Inr ((c, i), h')" "s' = s\<lparr>ct2Encoder := Some h'\<rparr>"
      "r = send_result s (chunk_message s Ct2 i c) None" by (auto simp: bobSendFromCt2Sampled_def result_simps)
    show ?thesis using s 3 n encoder_next(1) [OF h(2) n(1)] encoder_next(2) [OF h(2) n(1), of s Ct2]
      by (auto simp: answering_def answer_message_def)
  qed
qed

lemma send_fresh_encapsulator:
  assumes "fresh_encapsulator a e s" and "braid_Send hmac kem rnd s = Inr (s', r)"
  shows "s' = s \<and> bm_epoch (sent_message r) = e \<and> bm_type (sent_message r) = NoPayload \<and> sent_key r = None"
  using send_no_header [of s] assms by (auto simp: fresh_encapsulator_def)


section \<open>Receiving in every phase\<close>

lemma receive_result_simps [simp]: "received_key (receive_result m k) = k" by (simp add: receive_result_def)

lemma receive_old: "bm_epoch m < braid_epoch s \<Longrightarrow> braid_Receive hmac kem s m = Inr (s, receive_result m None)"
  by (simp add: braid_Receive_def receiveAlice_def receiveBob_def Let_def)

lemma receive_no_payload:
  "bm_epoch m = braid_epoch s \<Longrightarrow> bm_type m = NoPayload \<Longrightarrow> braid_Receive hmac kem s m = Inr (s, receive_result m None)"
  by (simp add: braid_Receive_def receiveAlice_def receiveBob_def Let_def)

lemma receive_idle:
  "idle_message (braid_epoch s) m \<Longrightarrow> braid_Receive hmac kem s m = Inr (s, receive_result m None)"
  using receive_old receive_no_payload by (auto simp: idle_message_def)

lemma chunk_index_carried: "bm_chunkIndex m = Some i \<Longrightarrow> chunk_index m d = i" by (simp add: chunk_index_def)

lemma decoder_or_is: "encodable data \<Longrightarrow> n = length data \<Longrightarrow> decoder_is data d \<Longrightarrow> decoder_for data (decoder_or d n)"
  using decoder_for_or [of data n d] by (auto simp: decoder_is_def)

text \<open>One genuine chunk more.\<close>

lemma decoder_next:
  assumes "encodable data" "n = length data" "decoder_is data d" "carries m t data"
  obtains chunk c where "bm_data m = Some chunk" "bm_type m = t"
    "addDecoderChunk (decoder_or d n) (chunk_index m (decoder_or d n)) chunk = Inr c" "decoder_for data c"
proof -
  obtain i where i: "i < 65536" "bm_chunkIndex m = Some (int i)" "bm_data m = Some (chunk_at data i)" "bm_type m = t"
    using assms(4) by (auto simp: carries_def)
  obtain c where "addDecoderChunk (decoder_or d n) (int i) (chunk_at data i) = Inr c" "decoder_for data c"
    using addDecoderChunk_for [OF decoder_or_is [OF assms(1-3)] i(1)] by blast
  then show ?thesis using that i by (simp add: chunk_index_carried)
qed

lemma carries_type: "carries m t data \<Longrightarrow> bm_type m = t" by (simp add: carries_def)

lemma receive_awaiting:
  assumes hmac: "\<And>k d. length (hmac k d) = 32" and X: "offer_ok kem X" and s: "awaiting hmac a e X s" and m: "offer_message hmac a e X m"
  shows "\<exists>s'. braid_Receive hmac kem s m = Inr (s', receive_result m None) \<and> awaiting hmac a e X s'"
proof (cases "bm_epoch m < e \<or> braid_state s = HeaderReceived")
  case True
  then have "braid_Receive hmac kem s m = Inr (s, receive_result m None)"
    using receive_old [of m s] s m
    by (auto simp: awaiting_def offer_message_def braid_Receive_def roles receiveBob_def Let_def carries_def)
  then show ?thesis using s by blast
next
  case False
  let ?h = "header_of hmac a e X"
  have ep: "bm_epoch m = e" "carries m Hdr ?h" "braid_state s = NoHeaderReceived" "braid_epoch s = e" "auth s = a" "ekDecoder s = None"
    "decoder_is ?h (headerDecoder s)" using False m s by (auto simp: offer_message_def awaiting_def)
  have len: "HEADER_SIZE = length ?h" by (simp add: HEADER_SIZE_def length_header_of [where hmac = hmac, OF hmac X])
  obtain chunk c where c: "bm_data m = Some chunk" "bm_type m = Hdr"
    "addDecoderChunk (decoder_or (headerDecoder s) HEADER_SIZE) (chunk_index m (decoder_or (headerDecoder s) HEADER_SIZE)) chunk = Inr c"
    "decoder_for ?h c"
    using decoder_next [OF sendable_header [where hmac = hmac, OF hmac X] len ep(7,2)] by blast
  let ?s = "if isDecoderComplete c then s\<lparr>headerDecoder := Some c, ek_seed := Some (x_seed X), hek := Some (x_hek X), braid_state := HeaderReceived\<rparr>
    else s\<lparr>headerDecoder := Some c\<rparr>"
  have "length (x_seed X) = 32" "length (x_hek X) = 32" using X unfolding offer_ok_def by blast+
  then have "bob_receive_header hmac m chunk s = Inr ?s"
    using c getDecodedMessage_for [OF c(4)] ep
    by (simp add: bob_receive_header_def Let_def header_of_def VfyHdr_def transition_def STATE_TRANSITIONS_def)
  then have "braid_Receive hmac kem s m = Inr (?s, receive_result m None)"
    using c(1,2) ep by (simp add: braid_Receive_def roles receiveBob_def Let_def)
  moreover have "awaiting hmac a e X ?s" using ep c(4) by (simp add: awaiting_def decoder_is_def)
  ultimately show ?thesis by blast
qed

lemma complete_ct2:
  assumes hmac: "\<And>k d. length (hmac k d) = 32" and X: "offer_ok kem X" "answer_ok hmac kem a e X"
    and s: "generator hmac a e X s" "ct1_decoded s = Some (x_c1 X)" "braid_state s = EkSentCt1Received"
    and d: "decoder_for (ct2_of hmac e X) d" "isDecoderComplete d" and m: "bm_epoch m = e"
  shows "\<exists>s'. alice_complete_ct2 hmac kem m d s = Inr (s', key_of e X) \<and> fresh_encapsulator (x_next X) (e + 1) s'"
proof -
  have sizes: "length (x_c2 X) = 128" "length (x_c1 X) = 960" "length (x_dk X) = 2400"
    using X unfolding answer_ok_def offer_ok_def by blast+
  obtain ss where ss: "kem_decaps kem (x_dk X) (x_c1 X) (x_c2 X) = Inr ss" "KDF_OK hmac ss e = Inr (x_key X)"
    "authUpdate hmac a e (x_key X) = Inr (x_next X)" using X(2) unfolding answer_ok_def by blast
  have split: "take 128 (ct2_of hmac e X) = x_c2 X" "drop 128 (ct2_of hmac e X) = MacCt hmac (x_next X) e (x_c1 X @ x_c2 X)"
    using sizes(1) by (simp_all add: ct2_of_def)
  show ?thesis
    using s ss sizes m getDecodedMessage_for [OF d] length_ct2_of [where hmac = hmac, OF hmac X(2)]
    by (simp add: alice_complete_ct2_def generator_def Let_def split KEM_Decaps_def VfyCt_def transition_def
      STATE_TRANSITIONS_def key_of_def resetForNewEpoch_def fresh_encapsulator_def roles)
qed

lemma receive_collecting:
  assumes hmac: "\<And>k d. length (hmac k d) = 32" and X: "offer_ok kem X" "answer_ok hmac kem a e X"
    and s: "collecting hmac a e X s" and m: "answer_message hmac e X ct2s m"
  shows "\<exists>s' key. braid_Receive hmac kem s m = Inr (s', receive_result m key) \<and>
    (key = None \<and> collecting hmac a e X s' \<or> key = Some (key_of e X) \<and> ct2s \<and> fresh_encapsulator (x_next X) (e + 1) s')"
proof -
  have g: "generator hmac a e X s" and ep: "braid_epoch s = e" using s by (auto simp: collecting_def generator_def)
  have al: "braid_state s \<in> ALICE_STATES" using s by (auto simp: collecting_def roles)
  consider "idle_message e m" | "bm_epoch m = e" "carries m Ct1 (x_c1 X)" | "bm_epoch m = e" "carries m Ct2 (ct2_of hmac e X)" "ct2s"
    using m by (auto simp: answer_message_def)
  then show ?thesis
  proof cases
    case 1
    then show ?thesis using receive_idle [of s m hmac kem] ep s by auto
  next
    case 2
    show ?thesis
    proof (cases "braid_state s = KeysSampled \<or> braid_state s = HeaderSent")
      case False
      then have "braid_Receive hmac kem s m = Inr (s, receive_result m None)"
        using 2 ep al by (auto simp: braid_Receive_def receiveAlice_def carries_def)
      then show ?thesis using s by blast
    next
      case True
      have dec: "decoder_is (x_c1 X) (ct1Decoder s)" "decoder_is (ct2_of hmac e X) (ct2Decoder s)" using s by (auto simp: collecting_def)
      have len: "CT1_SIZE = length (x_c1 X)" using X(2) unfolding answer_ok_def by (simp add: CT1_SIZE_def)
      obtain chunk c where c: "bm_data m = Some chunk" "bm_type m = Ct1"
        "addDecoderChunk (decoder_or (ct1Decoder s) CT1_SIZE) (chunk_index m (decoder_or (ct1Decoder s) CT1_SIZE)) chunk = Inr c"
        "decoder_for (x_c1 X) c"
        using decoder_next [OF sendable_c1 [OF X(2)] len dec(1) 2(2)] by blast
      let ?s = "if isDecoderComplete c then s\<lparr>ct1Decoder := Some c, ct1_decoded := Some (x_c1 X), braid_state := Ct1Received\<rparr>
        else s\<lparr>ct1Decoder := Some c, braid_state := HeaderSent\<rparr>"
      have "alice_receive_ct1 m chunk s = Inr ?s"
        using True c getDecodedMessage_for [OF c(4)]
        by (auto simp: alice_receive_ct1_def Let_def transition_def STATE_TRANSITIONS_def)
      then have "braid_Receive hmac kem s m = Inr (?s, receive_result m None)"
        using c(1,2) 2(1) ep al True by (simp add: braid_Receive_def receiveAlice_def)
      moreover have "collecting hmac a e X ?s" using g dec(2) c(4) by (simp add: collecting_def generator_def decoder_is_def)
      ultimately show ?thesis by blast
    qed
  next
    case 3
    show ?thesis
    proof (cases "braid_state s = Ct1Received \<or> braid_state s = EkSentCt1Received")
      case False
      then have "braid_Receive hmac kem s m = Inr (s, receive_result m None)"
        using 3 ep al by (auto simp: braid_Receive_def receiveAlice_def carries_def)
      then show ?thesis using s by blast
    next
      case True
      have dec: "decoder_is (x_c1 X) (ct1Decoder s)" "decoder_is (ct2_of hmac e X) (ct2Decoder s)" and c1: "ct1_decoded s = Some (x_c1 X)"
        using s True by (auto simp: collecting_def)
      have len: "CT2_SIZE = length (ct2_of hmac e X)" by (simp add: CT2_SIZE_def length_ct2_of [where hmac = hmac, OF hmac X(2)])
      obtain chunk c where c: "bm_data m = Some chunk" "bm_type m = Ct2"
        "addDecoderChunk (decoder_or (ct2Decoder s) CT2_SIZE) (chunk_index m (decoder_or (ct2Decoder s) CT2_SIZE)) chunk = Inr c"
        "decoder_for (ct2_of hmac e X) c"
        using decoder_next [OF sendable_ct2 [where hmac = hmac, OF hmac X(2)] len dec(2) 3(2)] by blast
      let ?s = "s\<lparr>ct2Decoder := Some c, braid_state := EkSentCt1Received\<rparr>"
      have st: "(if braid_state s = Ct1Received then transition (s\<lparr>ct2Decoder := Some c\<rparr>) RECEIVE_CT2 else Inr (s\<lparr>ct2Decoder := Some c\<rparr>)) = Inr ?s"
        using True by (auto simp: transition_def STATE_TRANSITIONS_def)
      have g': "generator hmac a e X ?s" "ct1_decoded ?s = Some (x_c1 X)" "braid_state ?s = EkSentCt1Received"
        using g c1 by (auto simp: generator_def)
      show ?thesis
      proof (cases "isDecoderComplete c")
        case True
        then obtain s' where s': "alice_complete_ct2 hmac kem m c ?s = Inr (s', key_of e X)" "fresh_encapsulator (x_next X) (e + 1) s'"
          using complete_ct2 [where hmac = hmac, OF hmac X g' c(4) True 3(1)] by blast
        have "alice_receive_ct2 hmac kem m chunk s = Inr (s', Some (key_of e X))"
          using c(3) st s'(1) True by (simp add: alice_receive_ct2_def Let_def)
        then have "braid_Receive hmac kem s m = Inr (s', receive_result m (Some (key_of e X)))"
          using c(1,2) 3(1) ep al \<open>braid_state s = Ct1Received \<or> _\<close> by (simp add: braid_Receive_def receiveAlice_def)
        then show ?thesis using s'(2) 3(3) by blast
      next
        case False
        then have "alice_receive_ct2 hmac kem m chunk s = Inr (?s, None)"
          using c(3) st by (simp add: alice_receive_ct2_def Let_def)
        then have "braid_Receive hmac kem s m = Inr (?s, receive_result m None)"
          using c(1,2) 3(1) ep al True by (simp add: braid_Receive_def receiveAlice_def)
        moreover have "collecting hmac a e X ?s" using g'(1) dec(1) c1 c(4) by (simp add: collecting_def decoder_is_def)
        ultimately show ?thesis by blast
      qed
    qed
  qed
qed

lemma sample_ct2:
  assumes hmac: "\<And>k d. length (hmac k d) = 32" and X: "offer_ok kem X" "answer_ok hmac kem a e X"
    and s: "braid_epoch s = e" "auth s = x_next X" "ek_seed s = Some (x_seed X)" "ek_vector s = Some (x_vector X)"
      "encaps_secret s = Some (x_secret X)" "ct1_for_mac s = Some (x_c1 X)" "braid_state s = Ct2Sampled"
  shows "\<exists>s'. bobSampleCt2 hmac kem s = Inr s' \<and> answering hmac e X s' \<and> braid_state s' = Ct2Sampled"
proof -
  have sizes: "length (x_vector X) = 1152" "length (x_seed X) = 32" and h: "computeHek kem (x_seed X) (x_vector X) = x_hek X"
    using X(1) unfolding offer_ok_def by metis+
  have c2: "kem_encaps2 kem (x_secret X) (x_seed X) (x_vector X) (x_hek X) = Inr (x_c2 X)" using X(2) unfolding answer_ok_def by blast
  obtain enc where enc: "createEncoderState (ct2_of hmac e X) = Inr enc" "encoder_for (ct2_of hmac e X) enc"
    using createEncoderState_for [OF sendable_ct2 [where hmac = hmac, OF hmac X(2)]] by blast
  then have "createEncoderState (x_c2 X @ MacCt hmac (x_next X) e (x_c1 X @ x_c2 X)) = Inr enc" by (simp add: ct2_of_def)
  then show ?thesis using s sizes h c2 enc(2)
    by (simp add: bobSampleCt2_def KEM_Encaps2_def Let_def answering_def encoder_is_def)
qed

lemma receive_answering:
  assumes hmac: "\<And>k d. length (hmac k d) = 32" and X: "offer_ok kem X" "answer_ok hmac kem a e X"
    and s: "answering hmac e X s" and m: "generator_message hmac a e X m"
  shows "\<exists>s'. braid_Receive hmac kem s m = Inr (s', receive_result m None) \<and> answering hmac e X s' \<and>
    (braid_state s = Ct2Sampled \<longrightarrow> braid_state s' = Ct2Sampled)"
proof -
  let ?keep = "braid_Receive hmac kem s m = Inr (s, receive_result m None)"
  have ep: "braid_epoch s = e" "auth s = x_next X" and bob: "braid_state s \<notin> ALICE_STATES" using s by (auto simp: answering_def roles)
  show ?thesis
  proof (cases "bm_epoch m < e \<or> braid_state s = Ct2Sampled \<or> bm_type m = Hdr")
    case True
    have no: "braid_state s \<noteq> NoHeaderReceived" using s by (auto simp: answering_def)
    consider "bm_epoch m < e" | "bm_epoch m = e" "braid_state s = Ct2Sampled" | "bm_epoch m = e" "bm_type m = Hdr"
      using True m by (auto simp: generator_message_def)
    then have ?keep
    proof cases
      case 1
      then show ?thesis using ep by (intro receive_old) simp
    next
      case 2
      then show ?thesis using ep bob by (cases "bm_data m") (simp_all add: braid_Receive_def receiveBob_def Let_def)
    next
      case 3
      then show ?thesis using ep bob no by (cases "bm_data m") (simp_all add: braid_Receive_def receiveBob_def Let_def)
    qed
    then show ?thesis using s by blast
  next
    case False
    then have me: "bm_epoch m = e" and mt: "carries m Ek (x_vector X) \<or> carries m EkCt1Ack (x_vector X) \<or> bm_type m = Ct1Ack \<and> bm_data m = None"
      using m by (auto simp: generator_message_def carries_def)
    have f: "ek_seed s = Some (x_seed X)" "hek s = Some (x_hek X)" "encaps_secret s = Some (x_secret X)"
      "ct1_for_mac s = Some (x_c1 X)" "encoder_is (x_c1 X) (ct1Encoder s)" "decoder_is (x_vector X) (ekDecoder s)"
      and st: "braid_state s = Ct1Sampled \<or> braid_state s = Ct1Acknowledged \<or> braid_state s = EkReceivedCt1Sampled \<and> ek_vector s = Some (x_vector X)"
      using s False by (auto simp: answering_def)
    show ?thesis
    proof (cases "braid_state s = EkReceivedCt1Sampled")
      case ekr: True
      show ?thesis
      proof (cases "bm_type m = Ek")
        case True
        then have ?keep using ekr me ep bob by (cases "bm_data m") (simp_all add: braid_Receive_def receiveBob_def Let_def)
        then show ?thesis using s by blast
      next
        case False
        then have type: "bm_type m = EkCt1Ack \<or> bm_type m = Ct1Ack" using mt carries_type by blast
        let ?s = "s\<lparr>braid_state := Ct2Sampled\<rparr>"
        obtain s' where s': "bobSampleCt2 hmac kem ?s = Inr s'" "answering hmac e X s'" "braid_state s' = Ct2Sampled"
          using sample_ct2 [where hmac = hmac, OF hmac X, of ?s] ep f st ekr by auto
        have "braid_Receive hmac kem s m = Inr (s', receive_result m None)"
          using ekr me ep bob type s'(1) by (auto simp: braid_Receive_def receiveBob_def Let_def transition_def STATE_TRANSITIONS_def)
        then show ?thesis using s' by blast
      qed
    next
      case open_state: False
      then have st': "braid_state s = Ct1Sampled \<or> braid_state s = Ct1Acknowledged" using st by blast
      show ?thesis
      proof (cases "bm_type m = Ct1Ack")
        case True
        then have ?keep using open_state me ep bob st' by (auto simp: braid_Receive_def receiveBob_def Let_def)
        then show ?thesis using s by blast
      next
        case False
        then obtain t where t: "t = Ek \<or> t = EkCt1Ack" "carries m t (x_vector X)" using mt by blast
        have len: "EK_SIZE = length (x_vector X)" using X(1) unfolding offer_ok_def by (simp add: EK_SIZE_def)
        obtain chunk c where c: "bm_data m = Some chunk" "bm_type m = t"
          "addDecoderChunk (decoder_or (ekDecoder s) EK_SIZE) (chunk_index m (decoder_or (ekDecoder s) EK_SIZE)) chunk = Inr c"
          "decoder_for (x_vector X) c"
          using decoder_next [OF sendable_vector [OF X(1)] len f(6) t(2)] by blast
        have h: "computeHek kem (x_seed X) (x_vector X) = x_hek X" using X(1) unfolding offer_ok_def by metis
        have rec: "braid_Receive hmac kem s m = and_then (bob_receive_ek hmac kem m chunk s) (\<lambda>s'. Inr (s', receive_result m None))"
          using c(1,2) t(1) me ep bob st' by (auto simp: braid_Receive_def receiveBob_def Let_def)
        show ?thesis
        proof (cases "isDecoderComplete c")
          case False
          let ?s = "s\<lparr>ekDecoder := Some c, braid_state := (if t = EkCt1Ack then Ct1Acknowledged else braid_state s)\<rparr>"
          have "bob_receive_ek hmac kem m chunk s = Inr ?s"
            using c(2,3) False st' by (auto simp: bob_receive_ek_def Let_def transition_def STATE_TRANSITIONS_def)
          moreover have "answering hmac e X ?s" using ep f c(4) st' by (auto simp: answering_def decoder_is_def)
          ultimately show ?thesis using rec st' by auto
        next
          case True
          let ?s = "s\<lparr>ekDecoder := Some c, ek_vector := Some (x_vector X)\<rparr>"
          have ek: "bob_receive_ek hmac kem m chunk s = bob_complete_ek hmac kem t ?s"
            using c(2,3) True getDecodedMessage_for [OF c(4)] f h by (simp add: bob_receive_ek_def Let_def verifyEkHashBinding_def)
          show ?thesis
          proof (cases "braid_state s = Ct1Sampled \<and> t = Ek")
            case True
            then have "bob_complete_ek hmac kem t ?s = Inr (?s\<lparr>braid_state := EkReceivedCt1Sampled\<rparr>)"
              by (simp add: bob_complete_ek_def transition_def STATE_TRANSITIONS_def)
            moreover have "answering hmac e X (?s\<lparr>braid_state := EkReceivedCt1Sampled\<rparr>)"
              using ep f c(4) by (auto simp: answering_def decoder_is_def)
            ultimately show ?thesis using rec ek st' by auto
          next
            case False
            have "bob_complete_ek hmac kem t ?s = bobSampleCt2 hmac kem (?s\<lparr>braid_state := Ct2Sampled\<rparr>)"
              using False st' t(1) by (auto simp: bob_complete_ek_def transition_def STATE_TRANSITIONS_def)
            moreover obtain s' where "bobSampleCt2 hmac kem (?s\<lparr>braid_state := Ct2Sampled\<rparr>) = Inr s'" "answering hmac e X s'"
              using sample_ct2 [where hmac = hmac, OF hmac X, of "?s\<lparr>braid_state := Ct2Sampled\<rparr>"] ep f by auto
            ultimately show ?thesis using rec ek st' by auto
          qed
        qed
      qed
    qed
  qed
qed

lemma receive_new_epoch:
  assumes "answering hmac e X s" and "braid_state s = Ct2Sampled" and "bm_epoch m = e + 1"
  shows "\<exists>s'. braid_Receive hmac kem s m = Inr (s', receive_result m None) \<and> fresh_generator (x_next X) (e + 1) s'"
  using assms by (auto simp: answering_def braid_Receive_def roles receiveBob_def Let_def transition_def STATE_TRANSITIONS_def
    resetForNewEpoch_def fresh_generator_def)


section \<open>Every step keeps the invariant\<close>

lemma encoder_is_drop: "encoder_is data o' \<Longrightarrow> encoder_is data (map_option (\<lambda>e. e\<lparr>es_encoder := None\<rparr>) o')"
  by (auto simp: encoder_is_def encoder_for_drop)

lemma drop_encoders_simps [simp]:
  "braid_state (drop_encoders s) = braid_state s" "braid_epoch (drop_encoders s) = braid_epoch s" "auth (drop_encoders s) = auth s"
  "dk (drop_encoders s) = dk s" "ct1_decoded (drop_encoders s) = ct1_decoded s" "ek_seed (drop_encoders s) = ek_seed s"
  "hek (drop_encoders s) = hek s" "ek_vector (drop_encoders s) = ek_vector s" "encaps_secret (drop_encoders s) = encaps_secret s"
  "ct1_for_mac (drop_encoders s) = ct1_for_mac s" "ct1Decoder (drop_encoders s) = ct1Decoder s"
  "ct2Decoder (drop_encoders s) = ct2Decoder s" "headerDecoder (drop_encoders s) = headerDecoder s" "ekDecoder (drop_encoders s) = ekDecoder s"
  "headerEncoder (drop_encoders s) = map_option (\<lambda>e. e\<lparr>es_encoder := None\<rparr>) (headerEncoder s)"
  "ekEncoder (drop_encoders s) = map_option (\<lambda>e. e\<lparr>es_encoder := None\<rparr>) (ekEncoder s)"
  "ct1Encoder (drop_encoders s) = map_option (\<lambda>e. e\<lparr>es_encoder := None\<rparr>) (ct1Encoder s)"
  "ct2Encoder (drop_encoders s) = map_option (\<lambda>e. e\<lparr>es_encoder := None\<rparr>) (ct2Encoder s)"
  by (simp_all add: drop_encoders_def Let_def)

lemma reload_phases:
  "fresh_generator a e s \<Longrightarrow> fresh_generator a e (drop_encoders s)" "fresh_encapsulator a e s \<Longrightarrow> fresh_encapsulator a e (drop_encoders s)"
  "offering hmac a e X s \<Longrightarrow> offering hmac a e X (drop_encoders s)" "collecting hmac a e X s \<Longrightarrow> collecting hmac a e X (drop_encoders s)"
  "awaiting hmac a e X s \<Longrightarrow> awaiting hmac a e X (drop_encoders s)" "answering hmac e X s \<Longrightarrow> answering hmac e X (drop_encoders s)"
  by (auto simp: fresh_generator_def fresh_encapsulator_def offering_def generator_def collecting_def awaiting_def answering_def
    encoder_is_drop)

lemma fresh_awaiting:
  "(\<And>k d. length (hmac k d) = 32) \<Longrightarrow> offer_ok kem X \<Longrightarrow> fresh_encapsulator a e s \<Longrightarrow> awaiting hmac a e X s"
  by (auto simp: fresh_encapsulator_def awaiting_def decoder_is_def HEADER_SIZE_def sendable_header [where kem = kem]
    length_header_of [where kem = kem] intro!: decoder_for_new)

lemma offer_extend:
  fixes X :: exchange
  defines "Y \<equiv> \<lambda>secret c1 c2 key a'. X\<lparr>x_secret := secret, x_c1 := c1, x_c2 := c2, x_key := key, x_next := a'\<rparr>"
  shows "offer_ok kem X \<Longrightarrow> offer_ok kem (Y secret c1 c2 key a')"
    and "offering hmac a e X s \<Longrightarrow> collecting hmac a e (Y secret c1 c2 key a') s"
    and "offer_message hmac a e X m \<Longrightarrow> generator_message hmac a e (Y secret c1 c2 key a') m"
  unfolding Y_def
  by (simp add: offer_ok_def, auto simp: offering_def collecting_def generator_def decoder_is_def header_of_def
    offer_message_def generator_message_def)

lemma emit_simps [simp]: "output_to None ks = ks" "output_to (Some k) ks = ks @ [k]" by (simp_all add: output_to_def)

text \<open>The world after a step, seen from the end that moved.\<close>

lemma after_send_simps [simp]:
  "w_agent (after_send i s r w) = (w_agent w)(i := s)" "w_sent (after_send i s r w) = (w_sent w)(i := insert (sent_message r) (w_sent w i))"
  "w_keys (after_send i s r w) = (w_keys w)(i := output_to (sent_key r) (w_keys w i))"
  "w_agent (after_receive i s r' w) = (w_agent w)(i := s)" "w_sent (after_receive i s r' w) = w_sent w"
  "w_keys (after_receive i s r' w) = (w_keys w)(i := output_to (received_key r') (w_keys w i))"
  by (simp_all add: after_send_def after_receive_def)

lemma unchanged_receive: "after_receive i (w_agent w i) (receive_result m None) w = w"
  by (simp add: after_receive_def)

lemma step_idle:
  assumes hmac: "\<And>k d. length (hmac k d) = 32" and kem: "braid_kem_laws kem" and w: "phase_idle a x e ks w"
    and step: "braid_step hmac kem delivers w w'"
  shows "phase_idle a x e ks w' \<or> (\<exists>X. offer_ok kem X \<and> phase_offered hmac a x e ks X w')"
  using step
proof cases
  case (send rnd i s r)
  show ?thesis
  proof (cases "i = x")
    case True
    have fresh: "fresh_generator a e (w_agent w i)" using w True by (simp add: phase_idle_def)
    obtain X where X: "offer_ok kem X" "offering hmac a e X s" "offer_message hmac a e X (sent_message r)" "sent_key r = None"
      using send_fresh_generator [where hmac = hmac, OF hmac kem send(2) fresh send(3)] by blast
    have "awaiting hmac a e X (w_agent w (\<not> x))"
      using w by (intro fresh_awaiting [where hmac = hmac, OF hmac X(1)]) (simp add: phase_idle_def)
    then have "phase_offered hmac a x e ks X w'"
      using w X True by (auto simp: send(1) phase_idle_def phase_offered_def offer_message_def)
    then show ?thesis using X(1) by blast
  next
    case False
    then have "i = (\<not> x)" by simp
    then have "phase_idle a x e ks w'"
      using send_fresh_encapsulator [of a e _ hmac kem rnd s r] w send(3) by (auto simp: send(1) phase_idle_def idle_message_def)
    then show ?thesis by blast
  qed
next
  case (receive m i s r)
  have "braid_Receive hmac kem (w_agent w i) m = Inr (w_agent w i, receive_result m None)"
  proof (cases "i = x")
    case True
    then show ?thesis using receive(2) w by (intro receive_idle) (auto simp: phase_idle_def fresh_generator_def)
  next
    case False
    then have "i = (\<not> x)" by simp
    then show ?thesis using receive(2) w by (intro receive_old) (auto simp: phase_idle_def fresh_encapsulator_def)
  qed
  then have "w' = w" using receive(1,4) unchanged_receive by auto
  then show ?thesis using w by blast
next
  case (reload i)
  then have "phase_idle a x e ks w'" using w by (cases "i = x") (auto simp: phase_idle_def reload_phases)
  then show ?thesis by blast
qed

lemma step_offered:
  assumes hmac: "\<And>k d. length (hmac k d) = 32" and a: "length (root_key a) = 32" and X: "offer_ok kem X"
    and w: "phase_offered hmac a x e ks X w" and step: "braid_step hmac kem delivers w w'"
  shows "phase_offered hmac a x e ks X w' \<or> (\<exists>Y. offer_ok kem Y \<and> answer_ok hmac kem a e Y \<and> phase_answered hmac a x e ks Y w')"
  using step
proof cases
  case (send rnd i s r)
  show ?thesis
  proof (cases "i = x")
    case True
    then have "phase_offered hmac a x e ks X w'"
      using send_offering [of hmac a e X _ kem rnd s r] w send(3) by (auto simp: send(1) phase_offered_def)
    then show ?thesis by blast
  next
    case False
    then have i: "i = (\<not> x)" by simp
    then have aw: "awaiting hmac a e X (w_agent w i)" using w by (simp add: phase_offered_def)
    from send_awaiting [where hmac = hmac, OF hmac a X send(2) aw send(3)] show ?thesis
    proof
      assume "awaiting hmac a e X s \<and> idle_message e (sent_message r) \<and> sent_key r = None"
      then have "phase_offered hmac a x e ks X w'" using w i by (auto simp: send(1) phase_offered_def)
      then show ?thesis by blast
    next
      assume "\<exists>secret c1 c2 key a'. let Y = X\<lparr>x_secret := secret, x_c1 := c1, x_c2 := c2, x_key := key, x_next := a'\<rparr> in
        answer_ok hmac kem a e Y \<and> answering hmac e Y s \<and> answer_message hmac e Y False (sent_message r) \<and> sent_key r = Some (key_of e Y)"
      then obtain secret c1 c2 key a' Y where Ydef: "Y = X\<lparr>x_secret := secret, x_c1 := c1, x_c2 := c2, x_key := key, x_next := a'\<rparr>"
        and Y: "answer_ok hmac kem a e Y" "answering hmac e Y s" "answer_message hmac e Y False (sent_message r)" "sent_key r = Some (key_of e Y)"
        by (auto simp: Let_def)
      have ok: "offer_ok kem Y" unfolding Ydef by (rule offer_extend(1) [OF X])
      have coll: "collecting hmac a e Y (w_agent w x)"
        unfolding Ydef by (rule offer_extend(2)) (use w in \<open>simp add: phase_offered_def\<close>)
      have msgs: "\<forall>m \<in> w_sent w x. generator_message hmac a e Y m"
        unfolding Ydef using w by (intro ballI offer_extend(3)) (simp add: phase_offered_def)
      have "\<forall>m \<in> w_sent w (\<not> x). idle_message e m" "w_keys w x = ks" "w_keys w (\<not> x) = ks" using w by (simp_all add: phase_offered_def)
      then have "phase_answered hmac a x e ks Y w'"
        using coll msgs Y i by (auto simp: send(1) phase_answered_def answer_message_def)
      then show ?thesis using ok Y(1) by blast
    qed
  qed
next
  case (receive m i s r)
  show ?thesis
  proof (cases "i = x")
    case True
    then have "braid_Receive hmac kem (w_agent w i) m = Inr (w_agent w i, receive_result m None)"
      using receive(2) w by (intro receive_idle) (auto simp: phase_offered_def offering_def generator_def)
    then have "w' = w" using receive(1,4) unchanged_receive by auto
    then show ?thesis using w by blast
  next
    case False
    then have i: "i = (\<not> x)" by simp
    then have aw: "awaiting hmac a e X (w_agent w i)" "offer_message hmac a e X m" using w receive(2) by (auto simp: phase_offered_def)
    from receive_awaiting [where hmac = hmac and kem = kem, OF hmac X aw] receive(4) have "awaiting hmac a e X s" "received_key r = None" by auto
    then have "phase_offered hmac a x e ks X w'" using w i by (auto simp: receive(1) phase_offered_def)
    then show ?thesis by blast
  qed
next
  case (reload i)
  then have "phase_offered hmac a x e ks X w'" using w by (cases "i = x") (auto simp: phase_offered_def reload_phases)
  then show ?thesis by blast
qed


lemma answer_message_mono: "answer_message hmac e X c m \<Longrightarrow> (c \<longrightarrow> c') \<Longrightarrow> answer_message hmac e X c' m"
  by (auto simp: answer_message_def)

lemma step_answered:
  assumes hmac: "\<And>k d. length (hmac k d) = 32" and X: "offer_ok kem X" "answer_ok hmac kem a e X"
    and w: "phase_answered hmac a x e ks X w" and step: "braid_step hmac kem delivers w w'"
  shows "phase_answered hmac a x e ks X w' \<or> phase_agreed hmac a x e ks X w'"
  using step
proof cases
  case (send rnd i s r)
  have "phase_answered hmac a x e ks X w'"
  proof (cases "i = x")
    case True
    then show ?thesis using send_collecting [of hmac a e X _ kem rnd s r] w send(3) by (auto simp: send(1) phase_answered_def)
  next
    case False
    then have "i = (\<not> x)" by simp
    then show ?thesis using send_answering [of hmac e X _ kem rnd s r] w send(3) by (auto simp: send(1) phase_answered_def)
  qed
  then show ?thesis by blast
next
  case (receive m i s r)
  show ?thesis
  proof (cases "i = x")
    case True
    let ?c = "braid_state (w_agent w (\<not> x)) = Ct2Sampled"
    have c: "collecting hmac a e X (w_agent w i)" "answer_message hmac e X ?c m" using w True receive(2) by (auto simp: phase_answered_def)
    obtain s' key where s': "braid_Receive hmac kem (w_agent w i) m = Inr (s', receive_result m key)"
      "key = None \<and> collecting hmac a e X s' \<or> key = Some (key_of e X) \<and> ?c \<and> fresh_encapsulator (x_next X) (e + 1) s'"
      using receive_collecting [where hmac = hmac, OF hmac X c] by blast
    then have sr: "s = s'" "received_key r = key" using receive(4) by auto
    from s'(2) show ?thesis
    proof
      assume "key = None \<and> collecting hmac a e X s'"
      then have "phase_answered hmac a x e ks X w'" using w True sr by (auto simp: receive(1) phase_answered_def)
      then show ?thesis by blast
    next
      assume k: "key = Some (key_of e X) \<and> ?c \<and> fresh_encapsulator (x_next X) (e + 1) s'"
      then have "phase_agreed hmac a x e ks X w'" using w True sr by (auto simp: receive(1) phase_answered_def phase_agreed_def)
      then show ?thesis by blast
    qed
  next
    case False
    then have i: "i = (\<not> x)" by simp
    then have an: "answering hmac e X (w_agent w i)" "generator_message hmac a e X m" using w receive(2) by (auto simp: phase_answered_def)
    from receive_answering [where hmac = hmac, OF hmac X an] receive(4)
    have s: "answering hmac e X s" "braid_state (w_agent w i) = Ct2Sampled \<longrightarrow> braid_state s = Ct2Sampled" "received_key r = None" by auto
    have "\<forall>m \<in> w_sent w (\<not> x). answer_message hmac e X (braid_state s = Ct2Sampled) m"
      using w s(2) i by (auto simp: phase_answered_def intro: answer_message_mono)
    then have "phase_answered hmac a x e ks X w'" using w i s by (auto simp: receive(1) phase_answered_def)
    then show ?thesis by blast
  qed
next
  case (reload i)
  then have "phase_answered hmac a x e ks X w'" using w by (cases "i = x") (auto simp: phase_answered_def reload_phases)
  then show ?thesis by blast
qed

lemma step_agreed:
  assumes hmac: "\<And>k d. length (hmac k d) = 32" and X: "offer_ok kem X" "answer_ok hmac kem a e X"
    and w: "phase_agreed hmac a x e ks X w" and step: "braid_step hmac kem delivers w w'"
  shows "phase_agreed hmac a x e ks X w' \<or>
    phase_idle (x_next X) (\<not> x) (e + 1) (ks @ [key_of e X]) w' \<and> (\<exists>m. delivers m \<and> bm_type m = NoPayload)"
  using step
proof cases
  case (send rnd i s r)
  have "phase_agreed hmac a x e ks X w'"
  proof (cases "i = x")
    case True
    then show ?thesis
      using send_fresh_encapsulator [of "x_next X" "e + 1" _ hmac kem rnd s r] w send(3) by (auto simp: send(1) phase_agreed_def)
  next
    case False
    then have i: "i = (\<not> x)" by simp
    then have "answering hmac e X (w_agent w i)" "braid_state (w_agent w i) = Ct2Sampled" using w by (simp_all add: phase_agreed_def)
    with send_answering [OF this(1) send(3)]
    have "answering hmac e X s" "braid_state s = Ct2Sampled" "answer_message hmac e X True (sent_message r)" "sent_key r = None" by auto
    then show ?thesis using w i by (auto simp: send(1) phase_agreed_def)
  qed
  then show ?thesis by blast
next
  case (receive m i s r)
  show ?thesis
  proof (cases "i = x")
    case True
    have "bm_epoch m < braid_epoch (w_agent w i)"
      using w receive(2) True by (auto simp: phase_agreed_def fresh_encapsulator_def answer_message_def idle_message_def)
    then have "w' = w" using receive(1,4) receive_old [of m] unchanged_receive by auto
    then show ?thesis using w by blast
  next
    case False
    then have i: "i = (\<not> x)" by simp
    have an: "answering hmac e X (w_agent w i)" "braid_state (w_agent w i) = Ct2Sampled" using w i by (auto simp: phase_agreed_def)
    have "generator_message hmac a e X m \<or> bm_epoch m = e + 1 \<and> bm_type m = NoPayload" using w i receive(2) by (auto simp: phase_agreed_def)
    then show ?thesis
    proof
      assume "generator_message hmac a e X m"
      from receive_answering [where hmac = hmac, OF hmac X an(1) this] receive(4) an(2)
      have "answering hmac e X s" "braid_state s = Ct2Sampled" "received_key r = None" by auto
      then have "phase_agreed hmac a x e ks X w'" using w i by (auto simp: receive(1) phase_agreed_def)
      then show ?thesis by blast
    next
      assume m: "bm_epoch m = e + 1 \<and> bm_type m = NoPayload"
      then have "fresh_generator (x_next X) (e + 1) s" "received_key r = None"
        using receive_new_epoch [OF an, of m kem] receive(4) by auto
      moreover have "\<forall>m \<in> w_sent w x. idle_message (e + 1) m" "\<forall>m \<in> w_sent w (\<not> x). bm_epoch m < e + 1"
        using w by (auto simp: phase_agreed_def generator_message_def idle_message_def answer_message_def)
      ultimately have "phase_idle (x_next X) (\<not> x) (e + 1) (ks @ [key_of e X]) w'"
        using w i by (auto simp: receive(1) phase_agreed_def phase_idle_def)
      then show ?thesis using m receive(3) by blast
    qed
  qed
next
  case (reload i)
  then have "phase_agreed hmac a x e ks X w'" using w by (cases "i = x") (auto simp: phase_agreed_def reload_phases)
  then show ?thesis by blast
qed

lemma braid_inv_step:
  assumes hmac: "\<And>k d. length (hmac k d) = 32" and kem: "braid_kem_laws kem" and inv: "braid_inv hmac kem x e ks w"
    and step: "braid_step hmac kem delivers w w'"
  shows "braid_inv hmac kem x e ks w' \<or>
    (\<exists>k. braid_inv hmac kem (\<not> x) (e + 1) (ks @ [k]) w') \<and> (\<exists>m. delivers m \<and> bm_type m = NoPayload)"
proof -
  obtain a where e: "1 \<le> e" "map ok_epoch ks = [1..<e]" and a: "length (root_key a) = 32"
    and phases: "phase_idle a x e ks w \<or> (\<exists>X. offer_ok kem X \<and> (phase_offered hmac a x e ks X w \<or>
        answer_ok hmac kem a e X \<and> (phase_answered hmac a x e ks X w \<or> phase_agreed hmac a x e ks X w)))"
    using inv by (auto simp: braid_inv_def)
  from phases consider "phase_idle a x e ks w" | X where "offer_ok kem X" "phase_offered hmac a x e ks X w"
    | X where "offer_ok kem X" "answer_ok hmac kem a e X" "phase_answered hmac a x e ks X w"
    | X where "offer_ok kem X" "answer_ok hmac kem a e X" "phase_agreed hmac a x e ks X w" by blast
  then show ?thesis
  proof cases
    case 1
    from step_idle [where hmac = hmac, OF hmac kem this step] show ?thesis using e a unfolding braid_inv_def by blast
  next
    case 2
    from step_offered [where hmac = hmac, OF hmac a this step] 2(1) show ?thesis using e a unfolding braid_inv_def by blast
  next
    case 3
    from step_answered [where hmac = hmac, OF hmac this step] 3(1,2) show ?thesis using e a unfolding braid_inv_def by blast
  next
    case 4
    have next_e: "1 \<le> e + 1" "map ok_epoch (ks @ [key_of e X]) = [1..<e + 1]" using e by (simp_all add: key_of_def)
    have "length (root_key (x_next X)) = 32" using 4(2) unfolding answer_ok_def by blast
    with step_agreed [where hmac = hmac, OF hmac 4 step] show ?thesis using 4(1,2) e a next_e unfolding braid_inv_def by blast
  qed
qed

lemma braid_inv_start:
  assumes "\<And>k d. length (hmac k d) = 32" and "length secret = 32" and "braid_start hmac secret w"
  shows "braid_inv hmac kem True 1 [] w"
proof -
  obtain a where a: "initAuthenticatorState hmac secret = Inr a" "length (root_key a) = 32"
    using initAuthenticatorState_ok [where hmac = hmac, OF assms(1,2)] by blast
  then have "w_agent w True = initial_agent KeysUnsampled a None"
    "w_agent w False = initial_agent NoHeaderReceived a (Some (createDecoderState HEADER_SIZE))"
    "w_sent w = (\<lambda>_. {})" "w_keys w = (\<lambda>_. [])"
    using assms(3) by (auto simp: braid_start_def InitAlice_def InitBob_def)
  then have "phase_idle a True 1 [] w"
    by (simp add: phase_idle_def fresh_generator_def fresh_encapsulator_def initial_agent_def)
  then show ?thesis using a(2) by (auto simp: braid_inv_def)
qed

lemma braid_inv_reachable:
  assumes "\<And>k d. length (hmac k d) = 32" and "braid_kem_laws kem" and "length secret = 32" and "braid_start hmac secret w0"
    and "(braid_step hmac kem delivers)\<^sup>*\<^sup>* w0 w"
  shows "\<exists>x e ks. braid_inv hmac kem x e ks w \<and> ((\<forall>m. delivers m \<longrightarrow> bm_type m \<noteq> NoPayload) \<longrightarrow> x \<and> e = 1 \<and> ks = [])"
  using assms(5)
proof (induction rule: rtranclp_induct)
  case base
  then show ?case using braid_inv_start [where hmac = hmac, OF assms(1,3,4)] by blast
next
  case (step w w')
  then obtain x e ks where "braid_inv hmac kem x e ks w" "(\<forall>m. delivers m \<longrightarrow> bm_type m \<noteq> NoPayload) \<longrightarrow> x \<and> e = 1 \<and> ks = []" by blast
  with braid_inv_step [where hmac = hmac, OF assms(1,2) this(1) step.hyps(2)] show ?case by blast
qed

section \<open>What the invariant says\<close>

lemma inv_receives:
  assumes hmac: "\<And>k d. length (hmac k d) = 32" and inv: "braid_inv hmac kem x e ks w" and m: "m \<in> w_sent w (\<not> i)"
  shows "ok (braid_Receive hmac kem (w_agent w i) m)"
proof -
  obtain a where phases: "phase_idle a x e ks w \<or> (\<exists>X. offer_ok kem X \<and> (phase_offered hmac a x e ks X w \<or>
        answer_ok hmac kem a e X \<and> (phase_answered hmac a x e ks X w \<or> phase_agreed hmac a x e ks X w)))"
    using inv by (auto simp: braid_inv_def)
  have i: "i = x \<or> i = (\<not> x)" by blast
  from phases consider "phase_idle a x e ks w" | X where "offer_ok kem X" "phase_offered hmac a x e ks X w"
    | X where "offer_ok kem X" "answer_ok hmac kem a e X" "phase_answered hmac a x e ks X w"
    | X where "offer_ok kem X" "answer_ok hmac kem a e X" "phase_agreed hmac a x e ks X w" by blast
  then show ?thesis
  proof cases
    case 1
    from i show ?thesis
    proof
      assume "i = x"
      then have "idle_message (braid_epoch (w_agent w i)) m" using 1 m by (auto simp: phase_idle_def fresh_generator_def)
      then show ?thesis by (simp add: receive_idle)
    next
      assume "i = (\<not> x)"
      then have "bm_epoch m < braid_epoch (w_agent w i)" using 1 m by (auto simp: phase_idle_def fresh_encapsulator_def)
      then show ?thesis by (simp add: receive_old)
    qed
  next
    case 2
    from i show ?thesis
    proof
      assume "i = x"
      then have "idle_message (braid_epoch (w_agent w i)) m" using 2(2) m by (auto simp: phase_offered_def offering_def generator_def)
      then show ?thesis by (simp add: receive_idle)
    next
      assume "i = (\<not> x)"
      then have aw: "awaiting hmac a e X (w_agent w i)" "offer_message hmac a e X m" using 2(2) m by (auto simp: phase_offered_def)
      from receive_awaiting [where hmac = hmac and kem = kem, OF hmac 2(1) aw] show ?thesis by auto
    qed
  next
    case 3
    from i show ?thesis
    proof
      assume "i = x"
      then have c: "collecting hmac a e X (w_agent w i)" "answer_message hmac e X (braid_state (w_agent w (\<not> x)) = Ct2Sampled) m"
        using 3(3) m by (auto simp: phase_answered_def)
      from receive_collecting [where hmac = hmac, OF hmac 3(1,2) c] show ?thesis by auto
    next
      assume "i = (\<not> x)"
      then have an: "answering hmac e X (w_agent w i)" "generator_message hmac a e X m" using 3(3) m by (auto simp: phase_answered_def)
      from receive_answering [where hmac = hmac, OF hmac 3(1,2) an] show ?thesis by auto
    qed
  next
    case 4
    from i show ?thesis
    proof
      assume "i = x"
      then have "bm_epoch m < braid_epoch (w_agent w i)"
        using 4(3) m by (auto simp: phase_agreed_def fresh_encapsulator_def answer_message_def idle_message_def)
      then show ?thesis by (simp add: receive_old)
    next
      assume "i = (\<not> x)"
      then have an: "answering hmac e X (w_agent w i)" "braid_state (w_agent w i) = Ct2Sampled"
        and "generator_message hmac a e X m \<or> bm_epoch m = e + 1" using 4(3) m by (auto simp: phase_agreed_def)
      then show ?thesis
        using receive_answering [where hmac = hmac, OF hmac 4(1,2) an(1)] receive_new_epoch [OF an] by (metis ok_simps(1))
    qed
  qed
qed

lemma inv_keys:
  assumes "braid_inv hmac kem x e ks w"
  shows "\<exists>ks d. (w_keys w True = ks \<or> w_keys w True = ks @ [d]) \<and> (w_keys w False = ks \<or> w_keys w False = ks @ [d]) \<and>
    map ok_epoch (ks @ [d]) = [1..<Suc (Suc (length ks))]"
proof -
  obtain d where ks: "w_keys w x = ks \<or> w_keys w x = ks @ [d]" "w_keys w (\<not> x) = ks \<or> w_keys w (\<not> x) = ks @ [d]" "ok_epoch d = e"
  proof -
    have "ok_epoch (key_of e X) = e" for X by (simp add: key_of_def)
    moreover have "(w_keys w x = ks \<and> w_keys w (\<not> x) = ks) \<or> (\<exists>X. (w_keys w x = ks \<or> w_keys w x = ks @ [key_of e X]) \<and>
        w_keys w (\<not> x) = ks @ [key_of e X])"
      using assms unfolding braid_inv_def phase_idle_def phase_offered_def phase_answered_def phase_agreed_def by blast
    ultimately show ?thesis using that by metis
  qed
  have e: "1 \<le> e" "map ok_epoch ks = [1..<e]" using assms by (auto simp: braid_inv_def)
  then have "length ks = e - 1" by (metis length_map length_upt)
  then have "map ok_epoch (ks @ [d]) = [1..<Suc (Suc (length ks))]" using e ks(3) by simp
  moreover have "(w_keys w True = ks \<or> w_keys w True = ks @ [d]) \<and> (w_keys w False = ks \<or> w_keys w False = ks @ [d])"
    using ks(1,2) by (cases x) simp_all
  ultimately show ?thesis by blast
qed

lemma inv_epochs:
  "braid_inv hmac kem x e ks w \<Longrightarrow> braid_epoch (w_agent w (\<not> x)) = e \<and> (braid_epoch (w_agent w x) = e \<or> braid_epoch (w_agent w x) = e + 1)"
  by (auto simp: braid_inv_def phase_idle_def phase_offered_def phase_answered_def phase_agreed_def fresh_generator_def
    fresh_encapsulator_def offering_def generator_def awaiting_def collecting_def answering_def)


section \<open>A sample of the parameters\<close>

definition braid_hmac :: hmac_fun where "braid_hmac k d = take 32 (k @ d @ zeros 32)"

definition sample_braid_kem :: braid_kem where
  "sample_braid_kem = \<lparr>kem_keygen = (\<lambda>r. (zeros 2400, take 32 r, zeros 1152, take 32 r)),
     kem_encaps1 = (\<lambda>seed h r. (r, r @ zeros 928, r)), kem_encaps2 = (\<lambda>secret seed vector h. Inr (zeros 128)),
     kem_decaps = (\<lambda>d c1 c2. Inr (take 32 c1)), computeHek = (\<lambda>seed vector. seed)\<rparr>"

lemma length_braid_hmac: "length (braid_hmac k d) = 32" by (simp add: braid_hmac_def zeros_def)

lemma sample_braid_laws: "braid_kem_laws sample_braid_kem"
  by (simp add: braid_kem_laws_def sample_braid_kem_def encapsulates_def zeros_def)

lemma braid_start_exists:
  assumes "\<And>k d. length (hmac k d) = 32" and "length secret = 32"
  shows "\<exists>w. braid_start hmac secret w"
proof -
  obtain a where a: "initAuthenticatorState hmac secret = Inr a"
    using initAuthenticatorState_ok [where hmac = hmac, OF assms] by blast
  have "braid_start hmac secret \<lparr>w_agent = (\<lambda>i. if i then initial_agent KeysUnsampled a None
    else initial_agent NoHeaderReceived a (Some (createDecoderState HEADER_SIZE))), w_sent = (\<lambda>_. {}), w_keys = (\<lambda>_. [])\<rparr>"
    using a by (simp add: braid_start_def InitAlice_def InitBob_def)
  then show ?thesis by blast
qed

lemma fresh_generator_sends:
  assumes hmac: "\<And>k d. length (hmac k d) = 32" and kem: "braid_kem_laws kem" and rnd: "\<And>n. length (rnd n) = n"
    and s: "fresh_generator a e s"
  shows "ok (braid_Send hmac kem rnd s)"
proof -
  obtain d seed vector h where kp: "kem_keygen kem (rnd 64) = (d, seed, vector, h)" by (rule prod_cases4)
  have len: "length vector = 1152" "length seed = 32" "length h = 32"
    using kem [unfolded braid_kem_laws_def, THEN spec, THEN mp, OF rnd, unfolded kp prod.case] by blast+
  let ?h = "seed @ h @ MacHdr hmac (auth s) (braid_epoch s) (seed @ h)"
  have "encodable ?h" "encodable vector" using len hmac by (auto intro!: sendable_length simp: MacHdr_def)
  then obtain he ee where enc: "createEncoderState ?h = Inr he" "encoder_for ?h he" "es_currentChunk he = 0"
    "createEncoderState vector = Inr ee" using createEncoderState_for by metis
  have "ok (getNextEncoderChunk he)" using getNext_ok [OF enc(2)] enc(3) by simp
  then show ?thesis
    using s kp rnd [of 64] enc(1,4)
    by (auto simp: ok_iff braid_Send_def roles fresh_generator_def sendAlice_def aliceSendFromKeysUnsampled_def KEM_KeyGen_def
      transition_def STATE_TRANSITIONS_def Let_def aliceSendHeaderChunk_def)
qed

text \<open>A reachable world in which the initiator has sent a message.\<close>

lemma sample_run:
  "\<exists>w0 w m. braid_start braid_hmac (zeros 32) w0 \<and> (braid_step braid_hmac sample_braid_kem delivers)\<^sup>*\<^sup>* w0 w \<and> m \<in> w_sent w True"
proof -
  obtain w0 where w0: "braid_start braid_hmac (zeros 32) w0"
    using braid_start_exists [where hmac = braid_hmac, OF length_braid_hmac, of "zeros 32"] by (auto simp: zeros_def)
  obtain a where a: "fresh_generator a 1 (w_agent w0 True)"
  proof -
    obtain a where "initAuthenticatorState braid_hmac (zeros 32) = Inr a"
      using initAuthenticatorState_ok [where hmac = braid_hmac, OF length_braid_hmac, of "zeros 32"] by (auto simp: zeros_def)
    then have "w_agent w0 True = initial_agent KeysUnsampled a None" using w0 by (auto simp: braid_start_def InitAlice_def)
    then have "fresh_generator a 1 (w_agent w0 True)" by (simp add: fresh_generator_def initial_agent_def)
    then show ?thesis by (rule that)
  qed
  have rnd: "length (zeros n) = n" for n by (simp add: zeros_def)
  obtain s r where "braid_Send braid_hmac sample_braid_kem zeros (w_agent w0 True) = Inr (s, r)"
    using fresh_generator_sends [where hmac = braid_hmac, OF length_braid_hmac sample_braid_laws rnd a] by (auto simp: ok_iff)
  then have "braid_step braid_hmac sample_braid_kem delivers w0 (after_send True s r w0)"
    by (intro braid_step.send) (simp_all add: zeros_def)
  moreover have "sent_message r \<in> w_sent (after_send True s r w0) True" by simp
  ultimately show ?thesis using w0 by blast
qed

section \<open>Properties\<close>

text \<open>
  C11. The braid rejects no genuine message. In every world that two ends can reach by sending, receiving, storing and loading
  in any order, either end accepts every message the other has sent so far, whatever the losses,
  repetitions and reorderings before.
\<close>

theorem braid_accepts_genuine:
  assumes "\<And>k d. length (hmac k d) = 32" and "braid_kem_laws kem" and "length secret = 32" and "braid_start hmac secret w0"
    and "(braid_step hmac kem delivers)\<^sup>*\<^sup>* w0 w" and "m \<in> w_sent w (\<not> i)"
  shows "ok (braid_Receive hmac kem (w_agent w i) m)"
  using braid_inv_reachable [where hmac = hmac, OF assms(1-5)] inv_receives [where hmac = hmac, OF assms(1) _ assms(6)] by blast

theorem braid_accepts_genuine_witness:
  "\<exists>w0 w m. braid_start braid_hmac (zeros 32) w0 \<and> (braid_step braid_hmac sample_braid_kem (\<lambda>_. True))\<^sup>*\<^sup>* w0 w \<and>
     m \<in> w_sent w True \<and> ok (braid_Receive braid_hmac sample_braid_kem (w_agent w False) m)"
proof -
  obtain w0 w m where run: "braid_start braid_hmac (zeros 32) w0"
    "(braid_step braid_hmac sample_braid_kem (\<lambda>_. True))\<^sup>*\<^sup>* w0 w" "m \<in> w_sent w True"
    using sample_run by blast
  have "length (zeros 32) = 32" by (simp add: zeros_def)
  from braid_accepts_genuine [OF length_braid_hmac sample_braid_laws this run(1,2), of m False] run show ?thesis by auto
qed

text \<open>
  C10. Both ends of a braid derive the same keys. In every reachable world the keys of either end carry the
  epochs 1, 2, .. in order, the keys both ends have are equal, and neither end is more than one key ahead.
\<close>

theorem braid_keys_agree:
  assumes "\<And>k d. length (hmac k d) = 32" and "braid_kem_laws kem" and "length secret = 32" and "braid_start hmac secret w0"
    and "(braid_step hmac kem delivers)\<^sup>*\<^sup>* w0 w"
  shows "map ok_epoch (w_keys w i) = [1..<Suc (length (w_keys w i))] \<and>
    length (w_keys w i) \<le> length (w_keys w (\<not> i)) + 1 \<and>
    take (length (w_keys w (\<not> i))) (w_keys w i) = take (length (w_keys w i)) (w_keys w (\<not> i))"
proof -
  obtain x e ks where "braid_inv hmac kem x e ks w" using braid_inv_reachable [where hmac = hmac, OF assms] by blast
  from inv_keys [OF this] obtain ks d where k: "w_keys w True = ks \<or> w_keys w True = ks @ [d]"
    "w_keys w False = ks \<or> w_keys w False = ks @ [d]" and n: "map ok_epoch (ks @ [d]) = [1..<Suc (Suc (length ks))]" by blast
  have ki: "w_keys w i = ks \<or> w_keys w i = ks @ [d]" "w_keys w (\<not> i) = ks \<or> w_keys w (\<not> i) = ks @ [d]"
    using k by (cases i; simp)+
  have "map ok_epoch ks = [1..<Suc (length ks)]" using n by simp
  then have "map ok_epoch (w_keys w i) = [1..<Suc (length (w_keys w i))]" using ki(1) n by auto
  moreover have "length (w_keys w i) \<le> length (w_keys w (\<not> i)) + 1" using ki by auto
  moreover have "take (length (w_keys w (\<not> i))) (w_keys w i) = take (length (w_keys w i)) (w_keys w (\<not> i))" using ki by auto
  ultimately show ?thesis by blast
qed

theorem braid_keys_agree_witness:
  "\<exists>w0 w m. braid_start braid_hmac (zeros 32) w0 \<and> (braid_step braid_hmac sample_braid_kem (\<lambda>_. True))\<^sup>*\<^sup>* w0 w \<and>
     m \<in> w_sent w True \<and> length (w_keys w True) \<le> length (w_keys w False) + 1"
proof -
  obtain w0 w m where run: "braid_start braid_hmac (zeros 32) w0"
    "(braid_step braid_hmac sample_braid_kem (\<lambda>_. True))\<^sup>*\<^sup>* w0 w" "m \<in> w_sent w True"
    using sample_run by blast
  have "length (zeros 32) = 32" by (simp add: zeros_def)
  from braid_keys_agree [OF length_braid_hmac sample_braid_laws this run(1,2), of True] run show ?thesis by auto
qed

text \<open>Without the messages that carry no payload, the braid never leaves its first epoch.\<close>

lemma braid_first_epoch:
  assumes "\<And>k d. length (hmac k d) = 32" and "braid_kem_laws kem" and "length secret = 32" and "braid_start hmac secret w0"
    and "(braid_step hmac kem delivers)\<^sup>*\<^sup>* w0 w" and "\<forall>m. delivers m \<longrightarrow> bm_type m \<noteq> NoPayload"
  shows "braid_epoch (w_agent w False) = 1" "braid_epoch (w_agent w True) \<le> 2" "length (w_keys w i) \<le> 1"
proof -
  obtain x e ks where "braid_inv hmac kem x e ks w" "(\<forall>m. delivers m \<longrightarrow> bm_type m \<noteq> NoPayload) \<longrightarrow> x \<and> e = 1 \<and> ks = []"
    using braid_inv_reachable [where hmac = hmac, OF assms(1-5)] by blast
  then have inv: "braid_inv hmac kem True 1 [] w" using assms(6) by simp
  show "braid_epoch (w_agent w False) = 1" "braid_epoch (w_agent w True) \<le> 2" using inv_epochs [OF inv] by auto
  show "length (w_keys w i) \<le> 1"
    using inv by (cases i) (auto simp: braid_inv_def phase_idle_def phase_offered_def phase_answered_def phase_agreed_def)
qed

end
