(* ===== verification/Spqr_Wire.thy ===== *)
theory Spqr_Wire
  imports Braid
begin

text \<open>
  The binary form of the post-quantum ratchet message (internal/encoding/proto/pq-ratchet-serialize.ts), carried as field 5 of a
  message.

  Numbers are naturals, so that the checks against negative and fractional values have no counterpart. The read position
  of the decoder is the rest of its input. The output buffer of the encoder has exactly the size of what is written, except
  for the Kyber fields, which are copied into places of fixed size.

  Shown here: the decoder reads back every message the encoder accepts, whatever bytes follow it; what it accepts
  satisfies the field rules.
\<close>

section \<open>Definitions\<close>

definition VERSION_V1 :: byte where "VERSION_V1 = 0x01"
definition DIRECT_CIPHERTEXT :: byte where "DIRECT_CIPHERTEXT = 0x80"
definition DIRECT_PUBLIC_KEY :: byte where "DIRECT_PUBLIC_KEY = 0x81"
definition DIRECT_BOTH :: byte where "DIRECT_BOTH = 0x82"
definition MLKEM768_CIPHERTEXT_SIZE :: nat where "MLKEM768_CIPHERTEXT_SIZE = 1088"
definition MLKEM768_PUBLIC_KEY_SIZE :: nat where "MLKEM768_PUBLIC_KEY_SIZE = 1184"
definition MAX_VARINT_U64_BYTES :: nat where "MAX_VARINT_U64_BYTES = 10"
definition MAX_SAFE_INTEGER_BIGINT :: nat where "MAX_SAFE_INTEGER_BIGINT = 2 ^ 53 - 1"

datatype spqr_mode = NoneMode | BraidMode | DirectMode

record SPQRWireMessage =
  wm_version :: nat
  wm_epoch :: "nat option"
  wm_chainIndex :: "nat option"
  wm_mode :: spqr_mode
  wm_braidMsgType :: "BraidMessageType option"
  wm_braidChunkIndex :: "nat option"
  wm_braidChunkData :: "bytes option"
  wm_kyberCiphertext :: "bytes option"
  wm_kyberPublicKey :: "bytes option"

text \<open>The values of the enumeration \<open>MessageType\<close>.\<close>

fun message_type_byte :: "BraidMessageType \<Rightarrow> byte" where
  "message_type_byte NoPayload = 0"
| "message_type_byte Hdr = 1"
| "message_type_byte Ek = 2"
| "message_type_byte EkCt1Ack = 3"
| "message_type_byte Ct1Ack = 4"
| "message_type_byte Ct1 = 5"
| "message_type_byte Ct2 = 6"

definition message_types :: "BraidMessageType list" where
  "message_types = [NoPayload, Hdr, Ek, EkCt1Ack, Ct1Ack, Ct1, Ct2]"

definition message_type_of_byte :: "byte \<Rightarrow> BraidMessageType option" where
  "message_type_of_byte b = find (\<lambda>t. message_type_byte t = b) message_types"

definition assertUint64 :: "nat \<Rightarrow> nat \<Rightarrow> nat result" where
  "assertUint64 v least =
     (if v < least \<or> v > UINT64_MAX then Inl (PlainError ''Invalid SPQR number'') else Inr v)"

definition bigintToSafeNumber :: "nat \<Rightarrow> nat result" where
  "bigintToSafeNumber v =
     (if v > MAX_SAFE_INTEGER_BIGINT then Inl (PlainError ''exceeds JavaScript safe integer range'') else Inr v)"

definition assertUint32In :: "nat \<Rightarrow> nat \<Rightarrow> nat \<Rightarrow> unit result" where
  "assertUint32In v least greatest =
     throw_if (v < least \<or> v > greatest) (PlainError ''Invalid SPQR number'')"

function leb128_loop :: "nat \<Rightarrow> bytes" where
  "leb128_loop v =
     (if v \<ge> 0x80 then (of_nat (v AND 0x7f) OR 0x80) # leb128_loop (drop_bit 7 v) else [of_nat v])"
  by pat_completeness auto
termination
  by (relation "measure id") (auto simp: drop_bit_eq_div)

declare leb128_loop.simps [simp del]

definition encodeVarintLEB128 :: "nat \<Rightarrow> bytes result" where
  "encodeVarintLEB128 v = and_then (assertUint64 v 0) (\<lambda>v. Inr (leb128_loop v))"

text \<open>\<open>k\<close> is the number of bytes that may still be read.\<close>

fun leb128_decode :: "nat \<Rightarrow> bytes \<Rightarrow> nat \<Rightarrow> nat \<Rightarrow> (nat \<times> bytes) result" where
  "leb128_decode 0 rest v shift = Inl (PlainError ''Varint too long (> 10 bytes for uint64)'')"
| "leb128_decode (Suc k) [] v shift = Inl (PlainError ''Unexpected end of varint'')"
| "leb128_decode (Suc k) (b # rest) v shift =
     (let v = v OR push_bit shift (unat (b AND 0x7f))
      in if b AND 0x80 = 0
         then (if v > UINT64_MAX then Inl (PlainError ''Varint too large (> uint64)'') else Inr (v, rest))
         else leb128_decode k rest v (shift + 7))"

definition decodeVarintLEB128Bigint :: "bytes \<Rightarrow> (nat \<times> bytes) result" where
  "decodeVarintLEB128Bigint from = leb128_decode MAX_VARINT_U64_BYTES from 0 0"

definition decodeVarintLEB128 :: "bytes \<Rightarrow> (nat \<times> bytes) result" where
  "decodeVarintLEB128 from =
     and_then (decodeVarintLEB128Bigint from) (\<lambda>(v, rest).
       if v > UINT32_MAX then Inl (PlainError ''Varint too large for uint32'') else Inr (v, rest))"

definition braidMessageTypeRequiresChunk :: "BraidMessageType \<Rightarrow> bool" where
  "braidMessageTypeRequiresChunk t \<longleftrightarrow> t \<noteq> NoPayload \<and> t \<noteq> Ct1Ack"

definition spqrInternalEpochToWireEpoch :: "nat \<Rightarrow> nat result" where
  "spqrInternalEpochToWireEpoch e = and_then (assertUint32In e 0 (UINT32_MAX - 1)) (\<lambda>_. Inr (e + 1))"

definition spqrWireEpochToInternalEpoch :: "nat \<Rightarrow> nat result" where
  "spqrWireEpochToInternalEpoch e = and_then (assertUint64 e 1) (\<lambda>e. bigintToSafeNumber (e - 1))"

definition spqrWireEpochToBigInt :: "nat \<Rightarrow> nat result" where
  "spqrWireEpochToBigInt e = assertUint64 e 1"

text \<open>\<open>buf.set(xs, offset)\<close>.\<close>

definition buffer_set :: "bytes \<Rightarrow> nat \<Rightarrow> bytes \<Rightarrow> bytes result" where
  "buffer_set buf offset xs =
     (if offset + length xs > length buf then Inl (PlainError ''RangeError'')
      else Inr (take offset buf @ xs @ drop (offset + length xs) buf))"

definition encode_braid_payload :: "SPQRWireMessage \<Rightarrow> bytes result" where
  "encode_braid_payload m =
     (let t = or_else (wm_braidMsgType m) NoPayload
      in if braidMessageTypeRequiresChunk t
         then (case wm_braidChunkData m of
                 None \<Rightarrow> Inl (PlainError ''Missing braid chunk for message type'')
               | Some chunk \<Rightarrow>
                   and_then (assertBraidChunkIndex (int (or_else (wm_braidChunkIndex m) 0))) (\<lambda>i.
                     and_then (encodeVarintLEB128 i) (\<lambda>index.
                       if length chunk \<noteq> CHUNK_SIZE then Inl (PlainError ''Invalid braid chunk length'')
                       else Inr (message_type_byte t # index @ chunk))))
         else if wm_braidChunkData m \<noteq> None then Inl (PlainError ''Unexpected braid chunk for message type'')
         else Inr [message_type_byte t])"

definition encode_direct_payload :: "SPQRWireMessage \<Rightarrow> bytes result" where
  "encode_direct_payload m =
     (case (wm_kyberCiphertext m, wm_kyberPublicKey m) of
        (Some c, Some p) \<Rightarrow>
          and_then (buffer_set (zeros (MLKEM768_CIPHERTEXT_SIZE + MLKEM768_PUBLIC_KEY_SIZE)) 0 c) (\<lambda>buf.
            and_then (buffer_set buf MLKEM768_CIPHERTEXT_SIZE p) (\<lambda>buf. Inr (DIRECT_BOTH # buf)))
      | (Some c, None) \<Rightarrow> and_then (buffer_set (zeros MLKEM768_CIPHERTEXT_SIZE) 0 c) (\<lambda>buf. Inr (DIRECT_CIPHERTEXT # buf))
      | (None, Some p) \<Rightarrow> and_then (buffer_set (zeros MLKEM768_PUBLIC_KEY_SIZE) 0 p) (\<lambda>buf. Inr (DIRECT_PUBLIC_KEY # buf))
      | (None, None) \<Rightarrow> Inr [message_type_byte NoPayload])"

definition encodeSPQRWire :: "SPQRWireMessage \<Rightarrow> bytes result" where
  "encodeSPQRWire m =
     (if wm_version m \<noteq> 1 then Inl (PlainError ''Unsupported SPQR wire version for encode'')
      else case wm_epoch m of
             None \<Rightarrow> Inl (PlainError ''SPQR wire epoch is required'')
           | Some epoch \<Rightarrow>
               let chainIndex = or_else (wm_chainIndex m) 0
               in and_then (assertUint64 epoch 1) (\<lambda>_.
                    and_then (assertUint32In chainIndex 0 UINT32_MAX) (\<lambda>_.
                      and_then (encodeVarintLEB128 epoch) (\<lambda>e.
                        and_then (encodeVarintLEB128 chainIndex) (\<lambda>c.
                          and_then (case wm_mode m of
                              BraidMode \<Rightarrow> encode_braid_payload m
                            | DirectMode \<Rightarrow> encode_direct_payload m
                            | NoneMode \<Rightarrow> Inr [message_type_byte NoPayload]) (\<lambda>payload.
                            Inr (VERSION_V1 # e @ c @ payload)))))))"

definition wire_header :: "nat \<Rightarrow> nat \<Rightarrow> spqr_mode \<Rightarrow> SPQRWireMessage" where
  "wire_header epoch chainIndex mode =
     \<lparr>wm_version = 1, wm_epoch = Some epoch, wm_chainIndex = Some chainIndex, wm_mode = mode, wm_braidMsgType = None,
       wm_braidChunkIndex = None, wm_braidChunkData = None, wm_kyberCiphertext = None, wm_kyberPublicKey = None\<rparr>"

text \<open>The next \<open>n\<close> bytes, and what follows them.\<close>

definition take_exactly :: "nat \<Rightarrow> bytes \<Rightarrow> (bytes \<times> bytes) result" where
  "take_exactly n rest =
     (if n > length rest then Inl (PlainError ''Truncated'') else Inr (take n rest, drop n rest))"

definition decode_direct_payload :: "byte \<Rightarrow> SPQRWireMessage \<Rightarrow> bytes \<Rightarrow> SPQRWireMessage result" where
  "decode_direct_payload modeByte m rest =
     and_then (if modeByte = DIRECT_CIPHERTEXT \<or> modeByte = DIRECT_BOTH
         then and_then (take_exactly MLKEM768_CIPHERTEXT_SIZE rest) (\<lambda>(c, rest). Inr (m\<lparr>wm_kyberCiphertext := Some c\<rparr>, rest))
         else Inr (m, rest)) (\<lambda>(m, rest).
       if modeByte = DIRECT_PUBLIC_KEY \<or> modeByte = DIRECT_BOTH
       then and_then (take_exactly MLKEM768_PUBLIC_KEY_SIZE rest) (\<lambda>(p, rest). Inr (m\<lparr>wm_kyberPublicKey := Some p\<rparr>))
       else Inr m)"

definition decode_braid_payload :: "BraidMessageType \<Rightarrow> SPQRWireMessage \<Rightarrow> bytes \<Rightarrow> SPQRWireMessage result" where
  "decode_braid_payload t m rest =
     (if \<not> braidMessageTypeRequiresChunk t then Inr m
      else if rest = [] then Inl (PlainError ''Missing braid chunk for message type'')
      else and_then (decodeVarintLEB128 rest) (\<lambda>(i, rest).
             and_then (assertBraidChunkIndex (int i)) (\<lambda>i.
               and_then (take_exactly CHUNK_SIZE rest) (\<lambda>(chunk, _).
                 Inr (m\<lparr>wm_braidChunkIndex := Some i, wm_braidChunkData := Some chunk\<rparr>)))))"

definition decode_payload :: "nat \<Rightarrow> nat \<Rightarrow> bytes \<Rightarrow> SPQRWireMessage result" where
  "decode_payload epoch chainIndex rest =
     (case rest of
        [] \<Rightarrow> Inl (PlainError ''Truncated SPQR wire payload: missing mode byte'')
      | modeByte # rest \<Rightarrow>
          (if modeByte = DIRECT_CIPHERTEXT \<or> modeByte = DIRECT_PUBLIC_KEY \<or> modeByte = DIRECT_BOTH
           then decode_direct_payload modeByte (wire_header epoch chainIndex DirectMode) rest
           else if modeByte = message_type_byte NoPayload then Inr (wire_header epoch chainIndex NoneMode)
           else case message_type_of_byte modeByte of
                  None \<Rightarrow> Inl (PlainError ''Unknown SPQR mode byte'')
                | Some t \<Rightarrow>
                    decode_braid_payload t ((wire_header epoch chainIndex BraidMode)\<lparr>wm_braidMsgType := Some t\<rparr>) rest))"

definition decodeSPQRWire :: "bytes \<Rightarrow> SPQRWireMessage result" where
  "decodeSPQRWire bytes =
     (case bytes of
        [] \<Rightarrow> Inl (PlainError ''Missing SPQR wire payload: v1 is required'')
      | version # rest \<Rightarrow>
          (if version = 0 then Inl (PlainError ''Unsupported SPQR wire version: 0; v1 is required'')
           else if version \<noteq> VERSION_V1 then Inl (PlainError ''Unknown SPQR wire version'')
           else and_then (decodeVarintLEB128Bigint rest) (\<lambda>(epoch, rest).
                  and_then (spqrWireEpochToBigInt epoch) (\<lambda>epoch.
                    and_then (decodeVarintLEB128 rest) (\<lambda>(chainIndex, rest).
                      and_then (assertUint32In chainIndex 0 UINT32_MAX) (\<lambda>_.
                        decode_payload epoch chainIndex rest))))))"

section \<open>Varints\<close>

lemma leb128_small: "x < 128 \<Longrightarrow> leb128_loop x = [of_nat x]"
  by (subst leb128_loop.simps) simp

lemma leb128_cont: "128 \<le> x \<Longrightarrow> leb128_loop x = (of_nat (x AND 0x7f) OR 0x80) # leb128_loop (x div 128)"
  by (subst leb128_loop.simps) (simp add: drop_7_nat)

lemma leb128_Nil [simp]: "leb128_loop x \<noteq> []" "[] \<noteq> leb128_loop x"
  by (subst leb128_loop.simps, simp)+

lemma length_leb128: "x < 2 ^ (7 * Suc k) \<Longrightarrow> length (leb128_loop x) \<le> Suc k"
proof (induction k arbitrary: x)
  case (Suc k)
  show ?case
  proof (cases "x < 128")
    case False
    have "x div 128 < 2 ^ (7 * Suc k)" using Suc.prems by (simp add: div_less_iff_less_mult power_add mult.commute)
    with Suc.IH [of "x div 128"] False show ?thesis by (simp add: leb128_cont)
  qed (simp add: leb128_small)
qed (simp add: leb128_small)

lemma leb128_decode_encode:
  "v < 2 ^ sh \<Longrightarrow> length (leb128_loop x) \<le> k \<Longrightarrow> v + 2 ^ sh * x \<le> UINT64_MAX \<Longrightarrow>
   leb128_decode k (leb128_loop x @ rest) v sh = Inr (v + 2 ^ sh * x, rest)"
proof (induction x arbitrary: v sh k rule: leb128_loop.induct)
  case (1 x)
  show ?case
  proof (cases "x < 128")
    case True
    have b: "unat (of_nat x :: byte) = x" using True by (simp add: unat_of_nat)
    obtain k' where "k = Suc k'" using "1.prems"(2) True by (cases k) (auto simp: leb128_small)
    then show ?thesis using "1.prems" True b
      by (simp add: leb128_small byte_80 unat_byte_7f or_push_bit_nat not_less Let_def)
  next
    case False
    let ?b = "(of_nat (x AND 0x7f) :: byte) OR 0x80"
    obtain k' where k: "k = Suc k'" using "1.prems"(2) False by (cases k) (auto simp: leb128_cont)
    have b: "unat (?b AND 0x7f) = x mod 128" by (simp add: unat_byte_7f unat_cont_byte)
    have "2 ^ sh * (x mod 128) \<le> 2 ^ sh * 127" by (intro mult_le_mono2) simp
    with "1.prems"(1) have "v + 2 ^ sh * (x mod 128) < 2 ^ sh * 128" by linarith
    then have v': "v + 2 ^ sh * (x mod 128) < 2 ^ (sh + 7)" by (simp add: power_add)
    have eq: "v + 2 ^ sh * (x mod 128) + 2 ^ (sh + 7) * (x div 128) = v + 2 ^ sh * x"
      using mult_div_mod_eq [of 128 x] by (simp add: power_add algebra_simps flip: distrib_left)
    have "leb128_decode k' (leb128_loop (x div 128) @ rest) (v + 2 ^ sh * (x mod 128)) (sh + 7) = Inr (v + 2 ^ sh * x, rest)"
      using "1.IH" [of "v + 2 ^ sh * (x mod 128)" "sh + 7" k'] False "1.prems" v' eq k by (simp add: drop_7_nat leb128_cont)
    with False k "1.prems"(1) show ?thesis
      by (simp add: leb128_cont Let_def byte_80 unat_cont_byte b or_push_bit_nat)
  qed
qed

lemma decode_leb128 [simp]:
  assumes "x \<le> UINT64_MAX"
  shows "decodeVarintLEB128Bigint (leb128_loop x @ rest) = Inr (x, rest)"
proof -
  have "length (leb128_loop x) \<le> 10" using assms length_leb128 [of x 9] by (simp add: UINT64_MAX_def)
  then show ?thesis using leb128_decode_encode [of 0 0 x 10 rest] assms by (simp add: decodeVarintLEB128Bigint_def MAX_VARINT_U64_BYTES_def)
qed

lemma decode_leb128_32 [simp]: "x \<le> UINT32_MAX \<Longrightarrow> decodeVarintLEB128 (leb128_loop x @ rest) = Inr (x, rest)"
  by (simp add: decodeVarintLEB128_def UINT32_MAX_def UINT64_MAX_def)

lemma leb128_decode_bound: "leb128_decode k from v sh = Inr (x, rest) \<Longrightarrow> x \<le> UINT64_MAX"
  by (induction k "from" v sh rule: leb128_decode.induct) (auto simp: Let_def split: if_splits)

lemma decode_varint_bounds:
  "decodeVarintLEB128Bigint from = Inr (x, rest) \<Longrightarrow> x \<le> UINT64_MAX"
  "decodeVarintLEB128 from = Inr (x, rest) \<Longrightarrow> x \<le> UINT32_MAX"
  by (auto simp: decodeVarintLEB128_def decodeVarintLEB128Bigint_def and_then_eq_Inr split: if_splits dest: leb128_decode_bound)


section \<open>Messages\<close>

text \<open>What the decoder returns for an encoded message: the defaults are filled in, and a payload that carries nothing is mode none.\<close>

definition wire_normal :: "SPQRWireMessage \<Rightarrow> SPQRWireMessage" where
  "wire_normal m =
     (let h = wire_header (the (wm_epoch m)) (or_else (wm_chainIndex m) 0); t = or_else (wm_braidMsgType m) NoPayload
      in case wm_mode m of
           NoneMode \<Rightarrow> h NoneMode
         | BraidMode \<Rightarrow>
             (if t = NoPayload then h NoneMode
              else if t = Ct1Ack then (h BraidMode)\<lparr>wm_braidMsgType := Some t\<rparr>
              else (h BraidMode)\<lparr>wm_braidMsgType := Some t, wm_braidChunkIndex := Some (or_else (wm_braidChunkIndex m) 0),
                     wm_braidChunkData := wm_braidChunkData m\<rparr>)
         | DirectMode \<Rightarrow>
             (if wm_kyberCiphertext m = None \<and> wm_kyberPublicKey m = None then h NoneMode
              else (h DirectMode)\<lparr>wm_kyberCiphertext := wm_kyberCiphertext m, wm_kyberPublicKey := wm_kyberPublicKey m\<rparr>))"

definition kyber_sizes :: "SPQRWireMessage \<Rightarrow> bool" where
  "kyber_sizes m \<longleftrightarrow> (\<forall>c. wm_kyberCiphertext m = Some c \<longrightarrow> length c = MLKEM768_CIPHERTEXT_SIZE) \<and>
     (\<forall>p. wm_kyberPublicKey m = Some p \<longrightarrow> length p = MLKEM768_PUBLIC_KEY_SIZE)"

named_theorems wire_simps \<open>evaluation of the wire codec\<close>

lemma message_type_of_byte_inverse [simp, wire_simps]: "message_type_of_byte (message_type_byte t) = Some t"
  by (cases t) (simp_all add: message_type_of_byte_def message_types_def)

lemma message_type_byte_distinct [simp, wire_simps]:
  "message_type_byte t \<noteq> DIRECT_CIPHERTEXT" "message_type_byte t \<noteq> DIRECT_PUBLIC_KEY" "message_type_byte t \<noteq> DIRECT_BOTH"
  "message_type_byte t = 0 \<longleftrightarrow> t = NoPayload"
  by (cases t; simp add: DIRECT_CIPHERTEXT_def DIRECT_PUBLIC_KEY_def DIRECT_BOTH_def)+

lemma direct_tags [simp]: "DIRECT_CIPHERTEXT \<noteq> 0" "DIRECT_PUBLIC_KEY \<noteq> 0" "DIRECT_BOTH \<noteq> 0"
  "DIRECT_CIPHERTEXT \<noteq> 4" "DIRECT_PUBLIC_KEY \<noteq> 4" "DIRECT_BOTH \<noteq> 4"
  by (simp_all add: DIRECT_CIPHERTEXT_def DIRECT_PUBLIC_KEY_def DIRECT_BOTH_def)

lemma message_type_of_4 [simp]: "message_type_of_byte 4 = Some Ct1Ack"
  by (simp add: message_type_of_byte_def message_types_def)

lemma message_type_of_byte_Some: "message_type_of_byte b = Some t \<longleftrightarrow> message_type_byte t = b"
proof
  assume "message_type_of_byte b = Some t"
  then show "message_type_byte t = b" by (auto simp: message_type_of_byte_def find_Some_iff)
qed (auto)

lemma take_exactly_append [simp, wire_simps]: "length xs = n \<Longrightarrow> take_exactly n (xs @ rest) = Inr (xs, rest)"
  by (simp add: take_exactly_def)

lemma take_exactly_eq: "take_exactly n xs = Inr (ys, zs) \<longleftrightarrow> xs = ys @ zs \<and> length ys = n"
  by (auto simp: take_exactly_def)

lemma buffer_set_whole: "length xs = n \<Longrightarrow> buffer_set (zeros n) 0 xs = Inr xs"
  by (simp add: buffer_set_def zeros_def)

lemma buffer_set_parts:
  "length xs = n \<Longrightarrow> length ys = k \<Longrightarrow> and_then (buffer_set (zeros (n + k)) 0 xs) (\<lambda>buf. buffer_set buf n ys) = Inr (xs @ ys)"
  by (simp add: buffer_set_def zeros_def)

lemma assertBraidChunkIndex_nat: "assertBraidChunkIndex (int i) = Inr j \<longleftrightarrow> i < 65536 \<and> j = i"
  by (auto simp: assertBraidChunkIndex_def BRAID_CHUNK_POINT_COUNT_def)

lemma small_uint64 [simp]: "v \<le> UINT32_MAX \<Longrightarrow> v \<le> UINT64_MAX" "v < 65536 \<Longrightarrow> v \<le> UINT32_MAX"
  by (auto simp: UINT32_MAX_def UINT64_MAX_def)

lemma encodeVarintLEB128_eq: "encodeVarintLEB128 v = Inr e \<longleftrightarrow> v \<le> UINT64_MAX \<and> e = leb128_loop v"
  by (auto simp: encodeVarintLEB128_def assertUint64_def)

lemma decode_payload_braid:
  assumes "encode_braid_payload m = Inr p" and "wm_mode m = BraidMode" and "wm_epoch m = Some epoch"
  shows "decode_payload epoch (or_else (wm_chainIndex m) 0) (p @ rest) = Inr (wire_normal m)"
proof (cases "braidMessageTypeRequiresChunk (or_else (wm_braidMsgType m) NoPayload)")
  case True
  with assms(1) obtain chunk where c: "wm_braidChunkData m = Some chunk" "length chunk = CHUNK_SIZE"
    "or_else (wm_braidChunkIndex m) 0 < 65536"
    "p = message_type_byte (or_else (wm_braidMsgType m) NoPayload) # leb128_loop (or_else (wm_braidChunkIndex m) 0) @ chunk"
    by (auto simp: encode_braid_payload_def Let_def and_then_eq_Inr assertBraidChunkIndex_nat encodeVarintLEB128_eq
        split: option.splits if_splits)
  have "assertBraidChunkIndex (int (or_else (wm_braidChunkIndex m) 0)) = Inr (or_else (wm_braidChunkIndex m) 0)"
    using c(3) by (simp add: assertBraidChunkIndex_nat)
  with True c assms(2,3) show ?thesis
    by (simp add: decode_payload_def wire_simps decode_braid_payload_def wire_normal_def Let_def braidMessageTypeRequiresChunk_def
        wire_header_def)
next
  case False
  with assms show ?thesis
    by (auto simp: encode_braid_payload_def decode_payload_def decode_braid_payload_def wire_normal_def Let_def
        braidMessageTypeRequiresChunk_def wire_header_def split: if_splits)
qed

lemma decode_payload_direct:
  assumes "encode_direct_payload m = Inr p" and "kyber_sizes m" and "wm_mode m = DirectMode" and "wm_epoch m = Some epoch"
  shows "decode_payload epoch (or_else (wm_chainIndex m) 0) (p @ rest) = Inr (wire_normal m)"
proof -
  have tags: "DIRECT_CIPHERTEXT \<noteq> DIRECT_PUBLIC_KEY" "DIRECT_CIPHERTEXT \<noteq> DIRECT_BOTH" "DIRECT_PUBLIC_KEY \<noteq> DIRECT_BOTH"
    by (simp_all add: DIRECT_CIPHERTEXT_def DIRECT_PUBLIC_KEY_def DIRECT_BOTH_def)
  show ?thesis
  proof (cases "wm_kyberCiphertext m"; cases "wm_kyberPublicKey m")
    fix c p' assume k: "wm_kyberCiphertext m = Some c" "wm_kyberPublicKey m = Some p'"
    with assms have "p = DIRECT_BOTH # c @ p'" "length c = MLKEM768_CIPHERTEXT_SIZE" "length p' = MLKEM768_PUBLIC_KEY_SIZE"
      using buffer_set_parts [of c MLKEM768_CIPHERTEXT_SIZE p' MLKEM768_PUBLIC_KEY_SIZE]
      by (auto simp: encode_direct_payload_def kyber_sizes_def and_then_eq_Inr)
    with k assms(3,4) tags show ?thesis
      by (simp add: decode_payload_def decode_direct_payload_def wire_normal_def wire_header_def Let_def)
  qed (use assms tags in \<open>auto simp: encode_direct_payload_def decode_payload_def decode_direct_payload_def wire_normal_def
        wire_header_def Let_def kyber_sizes_def buffer_set_whole\<close>)
qed

lemma encodeSPQRWire_eq:
  "encodeSPQRWire m = Inr b \<longleftrightarrow> wm_version m = 1 \<and> (\<exists>epoch p. wm_epoch m = Some epoch \<and> 1 \<le> epoch \<and> epoch \<le> UINT64_MAX \<and>
     or_else (wm_chainIndex m) 0 \<le> UINT32_MAX \<and>
     (case wm_mode m of BraidMode \<Rightarrow> encode_braid_payload m | DirectMode \<Rightarrow> encode_direct_payload m
      | NoneMode \<Rightarrow> Inr [message_type_byte NoPayload]) = Inr p \<and>
     b = VERSION_V1 # leb128_loop epoch @ leb128_loop (or_else (wm_chainIndex m) 0) @ p)"
  by (auto simp: encodeSPQRWire_def and_then_eq_Inr assertUint64_def assertUint32In_def encodeVarintLEB128_eq Let_def
      split: option.splits if_splits)

lemma decode_header:
  assumes "1 \<le> epoch" and "epoch \<le> UINT64_MAX" and "c \<le> UINT32_MAX"
  shows "decodeSPQRWire (VERSION_V1 # leb128_loop epoch @ leb128_loop c @ p) = decode_payload epoch c p"
  using assms by (simp add: decodeSPQRWire_def VERSION_V1_def spqrWireEpochToBigInt_def assertUint64_def assertUint32In_def not_less)

lemma spqr_wire_decode:
  assumes "encodeSPQRWire m = Inr b" and "kyber_sizes m"
  shows "decodeSPQRWire (b @ rest) = Inr (wire_normal m)"
proof -
  obtain epoch p where e: "wm_epoch m = Some epoch" "1 \<le> epoch" "epoch \<le> UINT64_MAX" "or_else (wm_chainIndex m) 0 \<le> UINT32_MAX"
    and p: "(case wm_mode m of BraidMode \<Rightarrow> encode_braid_payload m | DirectMode \<Rightarrow> encode_direct_payload m
      | NoneMode \<Rightarrow> Inr [message_type_byte NoPayload]) = Inr p"
    and b: "b = VERSION_V1 # leb128_loop epoch @ leb128_loop (or_else (wm_chainIndex m) 0) @ p"
    using assms(1) unfolding encodeSPQRWire_eq by blast
  have "decode_payload epoch (or_else (wm_chainIndex m) 0) (p @ rest) = Inr (wire_normal m)"
  proof (cases "wm_mode m")
    case NoneMode
    with p e show ?thesis by (auto simp: decode_payload_def wire_normal_def Let_def)
  next
    case BraidMode
    with p show ?thesis by (intro decode_payload_braid) (use e in auto)
  next
    case DirectMode
    with p assms(2) show ?thesis by (intro decode_payload_direct) (use e in auto)
  qed
  with decode_header [OF e(2-4), of "p @ rest"] b show ?thesis by simp
qed

text \<open>
  The encoder does not check the sizes of the fields of the direct mode: it writes a shorter one into its slot of fixed size
  and leaves the rest of the slot zero.
\<close>

definition kyber_fits :: "SPQRWireMessage \<Rightarrow> bool" where
  "kyber_fits m \<longleftrightarrow> (\<forall>c. wm_kyberCiphertext m = Some c \<longrightarrow> length c \<le> MLKEM768_CIPHERTEXT_SIZE) \<and>
     (\<forall>p. wm_kyberPublicKey m = Some p \<longrightarrow> length p \<le> MLKEM768_PUBLIC_KEY_SIZE)"

definition fill_slot :: "nat \<Rightarrow> bytes \<Rightarrow> bytes" where
  "fill_slot n xs = xs @ zeros (n - length xs)"

definition kyber_filled :: "SPQRWireMessage \<Rightarrow> SPQRWireMessage" where
  "kyber_filled m = m\<lparr>wm_kyberCiphertext := map_option (fill_slot MLKEM768_CIPHERTEXT_SIZE) (wm_kyberCiphertext m),
     wm_kyberPublicKey := map_option (fill_slot MLKEM768_PUBLIC_KEY_SIZE) (wm_kyberPublicKey m)\<rparr>"

lemma length_fill_slot: "length xs \<le> n \<Longrightarrow> length (fill_slot n xs) = n"
  by (simp add: fill_slot_def zeros_def)

lemma buffer_set_fill: "length xs \<le> n \<Longrightarrow> buffer_set (zeros n) 0 xs = Inr (fill_slot n xs)"
  by (simp add: buffer_set_def zeros_def fill_slot_def)

lemma buffer_set_fill_parts:
  "length xs \<le> n \<Longrightarrow> length ys \<le> k \<Longrightarrow>
   and_then (buffer_set (zeros (n + k)) 0 xs) (\<lambda>buf. buffer_set buf n ys) = Inr (fill_slot n xs @ fill_slot k ys)"
  by (simp add: buffer_set_def zeros_def fill_slot_def)

lemma kyber_filled_sizes: "kyber_fits m \<Longrightarrow> kyber_sizes (kyber_filled m)"
  by (auto simp: kyber_sizes_def kyber_fits_def kyber_filled_def length_fill_slot)

lemma kyber_filled_same: "kyber_sizes m \<Longrightarrow> kyber_filled m = m"
  by (cases "wm_kyberCiphertext m"; cases "wm_kyberPublicKey m")
    (simp_all add: kyber_sizes_def kyber_filled_def fill_slot_def zeros_def)

lemma encode_direct_filled:
  assumes "kyber_fits m" shows "encode_direct_payload (kyber_filled m) = encode_direct_payload m"
proof -
  let ?c = MLKEM768_CIPHERTEXT_SIZE and ?k = MLKEM768_PUBLIC_KEY_SIZE
  have same: "fill_slot n (fill_slot n xs) = fill_slot n xs" if "length xs \<le> n" for n xs
    using that by (simp add: fill_slot_def zeros_def)
  have both: "and_then (buffer_set (zeros (?c + ?k)) 0 xs) (\<lambda>buf. and_then (buffer_set buf ?c ys) (\<lambda>buf. Inr (DIRECT_BOTH # buf))) =
      Inr (DIRECT_BOTH # fill_slot ?c xs @ fill_slot ?k ys)" if "length xs \<le> ?c" "length ys \<le> ?k" for xs ys
    using buffer_set_fill_parts [OF that] by (auto simp: and_then_eq_Inr)
  show ?thesis
  proof (cases "\<exists>xs ys. wm_kyberCiphertext m = Some xs \<and> wm_kyberPublicKey m = Some ys")
    case True
    with assms show ?thesis
      by (auto simp add: encode_direct_payload_def kyber_fits_def kyber_filled_def length_fill_slot both same)
  next
    case False
    with assms show ?thesis
      by (cases "wm_kyberCiphertext m"; cases "wm_kyberPublicKey m")
        (simp_all add: encode_direct_payload_def kyber_fits_def kyber_filled_def buffer_set_fill length_fill_slot same)
  qed
qed

lemma spqr_wire_decode_filled:
  assumes enc: "encodeSPQRWire m = Inr b" and "wm_mode m = DirectMode \<Longrightarrow> kyber_fits m"
  shows "decodeSPQRWire (b @ rest) = Inr (wire_normal (kyber_filled m))"
proof (cases "wm_mode m = DirectMode")
  case True
  then have "encodeSPQRWire (kyber_filled m) = Inr b"
    using enc encode_direct_filled [OF assms(2)] by (simp add: encodeSPQRWire_eq) (simp add: kyber_filled_def)
  then show ?thesis using spqr_wire_decode kyber_filled_sizes assms(2) True by blast
next
  case False
  let ?m = "m\<lparr>wm_kyberCiphertext := None, wm_kyberPublicKey := None\<rparr>"
  have "encode_braid_payload ?m = encode_braid_payload m" by (simp add: encode_braid_payload_def Let_def split: option.split)
  then have "encodeSPQRWire ?m = encodeSPQRWire m"
    using False by (cases "wm_mode m") (simp_all add: encodeSPQRWire_def Let_def split: option.split)
  with enc have "encodeSPQRWire ?m = Inr b" by simp
  moreover have "kyber_sizes ?m" by (simp add: kyber_sizes_def)
  moreover have "wire_normal ?m = wire_normal (kyber_filled m)"
    using False by (cases "wm_mode m") (simp_all add: wire_normal_def kyber_filled_def Let_def)
  ultimately show ?thesis using spqr_wire_decode by metis
qed

text \<open>
  C31. Round trip of the post-quantum ratchet message. Of every message that the encoder accepts, with direct-mode fields no
  longer than those of ML-KEM-768, the decoder reads back the message with the defaults filled in and the direct-mode fields
  filled up with zeros, whatever bytes follow it; with fields of the right sizes it is the message itself. A braid message
  without payload is read as mode none.
\<close>

theorem spqr_wire_roundtrip:
  assumes "encodeSPQRWire m = Inr b" and "wm_mode m = DirectMode \<Longrightarrow> kyber_fits m"
  shows "decodeSPQRWire (b @ rest) = Inr (wire_normal (kyber_filled m)) \<and>
    (kyber_sizes m \<longrightarrow> decodeSPQRWire (b @ rest) = Inr (wire_normal m))"
  using spqr_wire_decode_filled [OF assms] kyber_filled_same by metis

text \<open>
  A chunk message of the generator with bytes behind it, and a message of the direct mode with a ciphertext of two bytes, which
  is read as one of 1,088 bytes.
\<close>

theorem spqr_wire_roundtrip_witness:
  "(\<exists>m b. encodeSPQRWire m = Inr b \<and> wm_mode m = BraidMode \<and> decodeSPQRWire (b @ [9, 9]) = Inr (wire_normal m) \<and>
     wm_mode (wire_normal m) = BraidMode) \<and>
   (\<exists>m b m'. encodeSPQRWire m = Inr b \<and> wm_kyberCiphertext m = Some [1, 2] \<and> decodeSPQRWire (b @ [9, 9]) = Inr m' \<and>
     wm_kyberCiphertext m' = Some ([1, 2] @ zeros 1086))"
proof
  let ?m = "(wire_header 1 7 BraidMode)\<lparr>wm_braidMsgType := Some Hdr, wm_braidChunkIndex := Some 2,
    wm_braidChunkData := Some (replicate 32 5)\<rparr>"
  have "\<exists>b. encodeSPQRWire ?m = Inr b"
    by (simp add: encodeSPQRWire_eq encode_braid_payload_def wire_header_def braidMessageTypeRequiresChunk_def or_else_def
        CHUNK_SIZE_def assertBraidChunkIndex_def BRAID_CHUNK_POINT_COUNT_def encodeVarintLEB128_def assertUint64_def
        UINT32_MAX_def UINT64_MAX_def)
  then obtain b where b: "encodeSPQRWire ?m = Inr b" by blast
  have "kyber_sizes ?m" "wm_mode ?m \<noteq> DirectMode" by (simp_all add: kyber_sizes_def wire_header_def)
  then have "decodeSPQRWire (b @ [9, 9]) = Inr (wire_normal ?m)"
    using spqr_wire_roundtrip [OF b] by blast
  moreover have "wm_mode (wire_normal ?m) = BraidMode" by (simp add: wire_normal_def wire_header_def or_else_def)
  ultimately show "\<exists>m b. encodeSPQRWire m = Inr b \<and> wm_mode m = BraidMode \<and> decodeSPQRWire (b @ [9, 9]) = Inr (wire_normal m) \<and>
     wm_mode (wire_normal m) = BraidMode" using b by (intro exI [of _ ?m] exI [of _ b]) (simp add: wire_header_def)
next
  let ?m = "(wire_header 1 7 DirectMode)\<lparr>wm_kyberCiphertext := Some [1, 2]\<rparr>"
  have fits: "kyber_fits ?m" by (simp add: kyber_fits_def wire_header_def MLKEM768_CIPHERTEXT_SIZE_def)
  have "\<exists>b. encodeSPQRWire ?m = Inr b"
    by (simp add: encodeSPQRWire_eq encode_direct_payload_def wire_header_def buffer_set_fill MLKEM768_CIPHERTEXT_SIZE_def or_else_def
        UINT32_MAX_def UINT64_MAX_def)
  then obtain b where b: "encodeSPQRWire ?m = Inr b" by blast
  have "decodeSPQRWire (b @ [9, 9]) = Inr (wire_normal (kyber_filled ?m))"
    using spqr_wire_roundtrip [OF b] fits by simp
  moreover have "wm_kyberCiphertext (wire_normal (kyber_filled ?m)) = Some ([1, 2] @ zeros 1086)"
    by (simp add: wire_normal_def kyber_filled_def wire_header_def fill_slot_def MLKEM768_CIPHERTEXT_SIZE_def Let_def)
  ultimately show "\<exists>m b m'. encodeSPQRWire m = Inr b \<and> wm_kyberCiphertext m = Some [1, 2] \<and> decodeSPQRWire (b @ [9, 9]) = Inr m' \<and>
     wm_kyberCiphertext m' = Some ([1, 2] @ zeros 1086)" using b by (intro exI [of _ ?m]) (simp add: wire_header_def)
qed

text \<open>The fields of a decoded message are in range.\<close>

lemma decode_direct_payload_frame:
  "decode_direct_payload modeByte m rest = Inr m' \<Longrightarrow> wm_epoch m' = wm_epoch m \<and> wm_chainIndex m' = wm_chainIndex m \<and> wm_mode m' = wm_mode m"
  unfolding decode_direct_payload_def
  by (cases "modeByte = DIRECT_CIPHERTEXT \<or> modeByte = DIRECT_BOTH"; cases "modeByte = DIRECT_PUBLIC_KEY \<or> modeByte = DIRECT_BOTH")
    (auto simp: and_then_eq_Inr simp del: disj_not1)

lemma decode_braid_payload_frame:
  "decode_braid_payload t m rest = Inr m' \<Longrightarrow>
   wm_epoch m' = wm_epoch m \<and> wm_chainIndex m' = wm_chainIndex m \<and> wm_mode m' = wm_mode m \<and> wm_braidMsgType m' = wm_braidMsgType m"
  by (auto simp: decode_braid_payload_def and_then_eq_Inr split: if_splits)

lemma decode_payload_frame:
  assumes "decode_payload e c rest = Inr m"
  shows "wm_epoch m = Some e \<and> wm_chainIndex m = Some c"
proof (cases rest)
  case (Cons b r)
  let ?h = "wire_header e c"
  from assms consider "decode_direct_payload b (?h DirectMode) r = Inr m" | "m = ?h NoneMode"
    | t where "decode_braid_payload t ((?h BraidMode)\<lparr>wm_braidMsgType := Some t\<rparr>) r = Inr m"
    unfolding decode_payload_def Cons by (fastforce split: if_splits option.splits)
  then show ?thesis
    by cases (auto simp: wire_header_def dest!: decode_direct_payload_frame decode_braid_payload_frame)
qed (use assms in \<open>simp add: decode_payload_def\<close>)

lemma decode_epoch_bounds:
  assumes "decodeSPQRWire b = Inr m"
  shows "\<exists>e c. wm_epoch m = Some e \<and> 1 \<le> e \<and> e \<le> UINT64_MAX \<and> wm_chainIndex m = Some c \<and> c \<le> UINT32_MAX"
proof -
  obtain e c r1 r2 where "1 \<le> e" "decode_payload e c r2 = Inr m" "decodeVarintLEB128Bigint (tl b) = Inr (e, r1)"
    "decodeVarintLEB128 r1 = Inr (c, r2)"
    using assms by (cases b) (auto simp: decodeSPQRWire_def and_then_eq_Inr spqrWireEpochToBigInt_def assertUint64_def split: if_splits)
  with decode_varint_bounds decode_payload_frame show ?thesis by metis
qed

end
