(* ===== verification/Spqr.thy ===== *)
theory Spqr
  imports Spqr_Wire Braid_Run Pqxdh "HOL-Library.AList"
begin

text \<open>
  The sparse post-quantum ratchet: internal/protocol/spqr (spqr.ts, validate.ts, braid.ts, index.ts) and
  internal/protocol/version.ts, with the ML-KEM-768 functions of internal/crypto/pq/kyber.ts.

  A function that changes the state returns it. The names \<open>epoch:index\<close> of the skipped keys are pairs, so
  \<open>parseSkippedKeyName\<close> is the identity. The checks for a state that changed during an asynchronous derivation
  have no counterpart. Random bytes and the clock are arguments; HMAC, the braid KEM and ML-KEM-768 come from outside
  (\<open>spqr_primitives\<close>). The progress hook and logging have no effect on the state.

  Shown here: the skipped keys of an epoch stay below the trim size; the send epoch never decreases; the batch
  sender of the braid does not return while the machine waits for the second ciphertext.
\<close>

section \<open>Version negotiation\<close>

datatype negotiation_status = Negotiating | Complete
datatype PeerSPQRVersion = V0 | V1

record VersionNegotiationState =
  vn_status :: negotiation_status
  vn_maxVersion :: PeerSPQRVersion
  vn_minVersion :: PeerSPQRVersion
  vn_negotiatedVersion :: "PeerSPQRVersion option"
  vn_peerVersion :: "PeerSPQRVersion option"

definition initVersionNegotiation :: "PeerSPQRVersion \<Rightarrow> PeerSPQRVersion \<Rightarrow> VersionNegotiationState" where
  "initVersionNegotiation maxVersion minVersion =
     \<lparr>vn_status = Negotiating, vn_maxVersion = maxVersion, vn_minVersion = minVersion, vn_negotiatedVersion = None,
       vn_peerVersion = None\<rparr>"

definition processVersionCapability :: "VersionNegotiationState \<Rightarrow> PeerSPQRVersion \<Rightarrow> VersionNegotiationState result" where
  "processVersionCapability v peerMaxVersion =
     (if vn_status v = Complete then Inr v
      else if peerMaxVersion \<noteq> V1 then Inl (EncryptionError SPQR_VERSION_MISMATCH)
      else Inr (v\<lparr>vn_status := Complete, vn_negotiatedVersion := Some V1, vn_peerVersion := Some peerMaxVersion\<rparr>))"

definition isVersionNegotiationComplete :: "VersionNegotiationState option \<Rightarrow> bool" where
  "isVersionNegotiationComplete v = (case v of None \<Rightarrow> False | Some v \<Rightarrow> vn_status v = Complete)"

definition getNegotiatedVersion :: "VersionNegotiationState option \<Rightarrow> PeerSPQRVersion option" where
  "getNegotiatedVersion v =
     (case v of None \<Rightarrow> Some V1
      | Some v \<Rightarrow> if vn_status v = Complete then vn_negotiatedVersion v else Some (vn_maxVersion v))"

definition processVersionFromByte :: "VersionNegotiationState \<Rightarrow> nat \<Rightarrow> VersionNegotiationState result" where
  "processVersionFromByte v peerVersionByte = processVersionCapability v (if peerVersionByte = 1 then V1 else V0)"

section \<open>State\<close>

datatype Direction = A2B | B2A

record KDFChain =
  ch_CK :: Base64
  ch_N :: nat

record EpochChains =
  ec_send :: KDFChain
  ec_receive :: KDFChain

record SkippedSPQRKey =
  sk_key :: Base64
  sk_timestamp :: int

record SCKAState =
  sc_epoch :: nat
  sc_direction :: Direction
  ourKyberPrivateKey :: "Base64 option"
  theirKyberPublicKey :: "Base64 option"
  lastRefreshTimestamp :: int
  lastRefreshMessageCount :: nat

record ResolvedSPQRLimits =
  maxMessageJump :: nat
  maxOutOfOrderKeys :: nat

definition SPQR_LIMITS_DEFAULTS :: ResolvedSPQRLimits where
  "SPQR_LIMITS_DEFAULTS = \<lparr>maxMessageJump = 25000, maxOutOfOrderKeys = 2000\<rparr>"

record SPQRLimits =
  lim_maxMessageJump :: "nat option"
  lim_maxOutOfOrderKeys :: "nat option"

definition resolveSPQRLimits :: "SPQRLimits option \<Rightarrow> ResolvedSPQRLimits" where
  "resolveSPQRLimits limits =
     \<lparr>maxMessageJump = or_else (Option.bind limits lim_maxMessageJump) (maxMessageJump SPQR_LIMITS_DEFAULTS),
      maxOutOfOrderKeys = or_else (Option.bind limits lim_maxOutOfOrderKeys) (maxOutOfOrderKeys SPQR_LIMITS_DEFAULTS)\<rparr>"

datatype SCKAMode = SckaDirect | SckaBraid

record SPQRState =
  sp_RK :: Base64
  sp_epoch :: nat
  sp_sendEpoch :: "nat option"
  kdfChains :: "(nat \<times> EpochChains) list"
  sp_MKSKIPPED :: "((nat \<times> nat) \<times> SkippedSPQRKey) list"
  sp_direction :: Direction
  sckaState :: SCKAState
  sp_mode :: SCKAMode
  braidState :: "MLKEMBraidAgentState option"
  pendingOutgoingChunks :: "MLKEMBraidMessage list option"
  versionNegotiation :: "VersionNegotiationState option"
  sp_infoStrings :: "ResolvedSPQRInfoStrings option"
  sp_limits :: "ResolvedSPQRLimits option"
  needsSendRatchet :: bool

definition chain_add_info :: "SPQRState \<Rightarrow> js_string" where
  "chain_add_info s = (case sp_infoStrings s of None \<Rightarrow> CHAIN_ADD_EPOCH | Some i \<Rightarrow> chainAddEpoch i)"

definition chain_next_info :: "SPQRState \<Rightarrow> js_string" where
  "chain_next_info s = (case sp_infoStrings s of None \<Rightarrow> CHAIN_NEXT | Some i \<Rightarrow> chainNext i)"

definition limits_of :: "SPQRState \<Rightarrow> ResolvedSPQRLimits" where
  "limits_of s = or_else (sp_limits s) SPQR_LIMITS_DEFAULTS"

definition ZEROED_CHAIN_KEY :: Base64 where "ZEROED_CHAIN_KEY = bytesToBase64 (zeros 32)"
definition SPQR_EPOCH_SECRET_LENGTH :: nat where "SPQR_EPOCH_SECRET_LENGTH = 32"
definition EPOCHS_TO_KEEP_PRIOR_TO_SEND_EPOCH :: nat where "EPOCHS_TO_KEEP_PRIOR_TO_SEND_EPOCH = 1"
definition MAX_INDEX :: nat where "MAX_INDEX = 1000000"

subsection \<open>ML-KEM-768 and the functions from outside\<close>

record spqr_primitives =
  sp_hmac :: hmac_fun
  sp_braid_kem :: braid_kem
  ml_kem768_keygen :: "bytes \<Rightarrow> bytes \<times> bytes"
  ml_kem768_encapsulate :: "bytes \<Rightarrow> bytes \<Rightarrow> (bytes \<times> bytes) result"
  ml_kem768_decapsulate :: "bytes \<Rightarrow> bytes \<Rightarrow> bytes result"

text \<open>Public and private key.\<close>

definition generateKyber768KeyPair :: "spqr_primitives \<Rightarrow> bytes \<Rightarrow> bytes \<times> bytes" where
  "generateKyber768KeyPair p random = ml_kem768_keygen p random"

text \<open>Shared secret and ciphertext.\<close>

definition kyber768Encapsulate :: "spqr_primitives \<Rightarrow> bytes \<Rightarrow> bytes \<Rightarrow> (bytes \<times> bytes) result" where
  "kyber768Encapsulate p kyberPublicKey random =
     (if length kyberPublicKey \<noteq> 1184 then Inl (PlainError ''Invalid Kyber-768 public key'')
      else and_then (ml_kem768_encapsulate p kyberPublicKey random) (\<lambda>(secret, ciphertext).
             and_then (asKyberSharedSecret secret) (\<lambda>secret. Inr (secret, ciphertext))))"

definition kyber768Decapsulate :: "spqr_primitives \<Rightarrow> bytes \<Rightarrow> bytes \<Rightarrow> bytes result" where
  "kyber768Decapsulate p ciphertext kyberPrivateKey =
     (if length ciphertext \<noteq> 1088 then Inl (PlainError ''Invalid Kyber-768 ciphertext'')
      else if length kyberPrivateKey \<noteq> 2400 then Inl (PlainError ''Invalid Kyber-768 private key'')
      else and_then (ml_kem768_decapsulate p ciphertext kyberPrivateKey) asKyberSharedSecret)"

section \<open>Validation and trimming (validate.ts)\<close>

definition validateSPQRState :: "SPQRState \<Rightarrow> unit result" where
  "validateSPQRState s = throw_if (sp_RK s = []) (EncryptionError INVALID_STATE)"

definition skippedKeyTrimSize :: "nat \<Rightarrow> nat" where
  "skippedKeyTrimSize n = (n * 11) div 10 + 1"

definition trimEpochSkippedKeys :: "SPQRState \<Rightarrow> nat \<Rightarrow> SPQRState" where
  "trimEpochSkippedKeys s epoch =
     (case map_of (kdfChains s) epoch of
        None \<Rightarrow> s
      | Some chs \<Rightarrow>
          let maxOOOKeys = maxOutOfOrderKeys (limits_of s);
              held = filter (\<lambda>(name, _). fst name = epoch) (sp_MKSKIPPED s)
          in if length held < skippedKeyTrimSize maxOOOKeys then s
             else s\<lparr>sp_MKSKIPPED := filter (\<lambda>(name, _). \<not> (fst name = epoch \<and> int (snd name) < int (ch_N (ec_receive chs)) - int maxOOOKeys))
                      (sp_MKSKIPPED s)\<rparr>)"

section \<open>Initialization\<close>

definition order_chains :: "Direction \<Rightarrow> bytes \<Rightarrow> bytes \<Rightarrow> bytes \<times> bytes" where
  "order_chains direction a2b b2a = (if direction = A2B then (a2b, b2a) else (b2a, a2b))"

definition fresh_chain :: "bytes \<Rightarrow> KDFChain" where
  "fresh_chain key = \<lparr>ch_CK = bytesToBase64 key, ch_N = 0\<rparr>"

definition initial_scka :: "Direction \<Rightarrow> Base64 option \<Rightarrow> Base64 option \<Rightarrow> int \<Rightarrow> SCKAState" where
  "initial_scka direction priv pub now =
     \<lparr>sc_epoch = 0, sc_direction = direction, ourKyberPrivateKey = Option.bind priv (\<lambda>k. if k = [] then None else Some k),
      theirKyberPublicKey = Option.bind pub (\<lambda>k. if k = [] then None else Some k), lastRefreshTimestamp = now,
      lastRefreshMessageCount = 0\<rparr>"

definition initializeSPQRState ::
    "hmac_fun \<Rightarrow> bytes \<Rightarrow> Direction \<Rightarrow> Base64 option \<Rightarrow> Base64 option \<Rightarrow> ResolvedSPQRInfoStrings option \<Rightarrow>
     ResolvedSPQRLimits option \<Rightarrow> int \<Rightarrow> SPQRState result" where
  "initializeSPQRState hmac initialRootKey direction priv pub infoStrings limits now =
     (let info = or_else infoStrings (resolveSPQRInfoStrings None)
      in and_then (kdfSpqrInit hmac initialRootKey (chainStart info)) (\<lambda>(newRootKey, a2b, b2a).
           let (sendKey, receiveKey) = order_chains direction a2b b2a
           in Inr \<lparr>sp_RK = bytesToBase64 newRootKey, sp_epoch = 0, sp_sendEpoch = Some 0,
                kdfChains = [(0, \<lparr>ec_send = fresh_chain sendKey, ec_receive = fresh_chain receiveKey\<rparr>)], sp_MKSKIPPED = [],
                sp_direction = direction, sckaState = initial_scka direction priv pub now, sp_mode = SckaDirect, braidState = None,
                pendingOutgoingChunks = None, versionNegotiation = Some (initVersionNegotiation V1 V1),
                sp_infoStrings = Some info, sp_limits = Some (or_else limits SPQR_LIMITS_DEFAULTS), needsSendRatchet = False\<rparr>))"

record SPQRInitOptions =
  io_mode :: SCKAMode
  io_initialRootKey :: bytes
  io_direction :: Direction
  io_ourKyberPrivateKey :: "Base64 option"
  io_theirKyberPublicKey :: "Base64 option"
  io_maxVersion :: "PeerSPQRVersion option"
  io_minVersion :: "PeerSPQRVersion option"
  io_spqrInfoStrings :: "SPQRInfoConfig option"
  io_spqrLimits :: "SPQRLimits option"

definition negotiation_of :: "SPQRInitOptions \<Rightarrow> VersionNegotiationState" where
  "negotiation_of opts = initVersionNegotiation (or_else (io_maxVersion opts) V1) (or_else (io_minVersion opts) V1)"

definition initializeSPQRBraid :: "hmac_fun \<Rightarrow> SPQRInitOptions \<Rightarrow> int \<Rightarrow> SPQRState result" where
  "initializeSPQRBraid hmac opts now =
     and_then ((if io_direction opts = A2B then InitAlice else InitBob) hmac (io_initialRootKey opts)) (\<lambda>agent.
       and_then (kdfSpqrInit hmac (io_initialRootKey opts) (chainStart (resolveSPQRInfoStrings (io_spqrInfoStrings opts)))) (\<lambda>(newRootKey, a2b, b2a).
         let (sendKey, receiveKey) = order_chains (io_direction opts) a2b b2a
         in Inr \<lparr>sp_RK = bytesToBase64 newRootKey, sp_epoch = 0, sp_sendEpoch = Some 0,
              kdfChains = [(0, \<lparr>ec_send = fresh_chain sendKey, ec_receive = fresh_chain receiveKey\<rparr>)], sp_MKSKIPPED = [],
              sp_direction = io_direction opts,
              sckaState = initial_scka (io_direction opts) (io_ourKyberPrivateKey opts) (io_theirKyberPublicKey opts) now,
              sp_mode = SckaBraid, braidState = Some agent, pendingOutgoingChunks = Some [],
              versionNegotiation = Some (negotiation_of opts), sp_infoStrings = None, sp_limits = None, needsSendRatchet = False\<rparr>))"

definition initializeSPQR :: "hmac_fun \<Rightarrow> SPQRInitOptions \<Rightarrow> int \<Rightarrow> SPQRState result" where
  "initializeSPQR hmac opts now =
     (let info = resolveSPQRInfoStrings (io_spqrInfoStrings opts); limits = resolveSPQRLimits (io_spqrLimits opts)
      in if io_mode opts = SckaBraid
         then and_then (initializeSPQRBraid hmac opts now) (\<lambda>s.
                Inr (s\<lparr>sp_infoStrings := Some info, sp_limits := Some limits, versionNegotiation := Some (negotiation_of opts)\<rparr>))
         else and_then (initializeSPQRState hmac (io_initialRootKey opts) (io_direction opts) (io_ourKyberPrivateKey opts)
                  (io_theirKyberPublicKey opts) (Some info) (Some limits) now) (\<lambda>s.
                Inr (s\<lparr>sp_mode := SckaDirect, versionNegotiation := Some (negotiation_of opts)\<rparr>)))"

section \<open>Epochs\<close>

definition getNextSPQREpoch :: "SPQRState \<Rightarrow> nat result" where
  "getNextSPQREpoch s =
     and_then (validateSPQRState s) (\<lambda>_.
       if int (sp_epoch s) \<ge> MAX_SAFE_INTEGER then Inl (EncryptionError SPQR_EPOCH_OUT_OF_RANGE) else Inr (sp_epoch s + 1))"

datatype chains_to_init = BothChains | ReceiveChain

definition addSPQREpochSecret ::
    "hmac_fun \<Rightarrow> SPQRState \<Rightarrow> bytes \<Rightarrow> chains_to_init \<Rightarrow> nat \<Rightarrow> int \<Rightarrow> SPQRState result" where
  "addSPQREpochSecret hmac s epochSecret which expectedEpoch now =
     and_then (getNextSPQREpoch s) (\<lambda>nextEpoch.
       if expectedEpoch \<noteq> nextEpoch then Inl (EncryptionError INVALID_STATE)
       else if sc_epoch (sckaState s) \<noteq> sp_epoch s then Inl (EncryptionError INVALID_STATE)
       else if length epochSecret \<noteq> SPQR_EPOCH_SECRET_LENGTH then Inl (EncryptionError INVALID_STATE)
       else and_then (base64ToBytes (sp_RK s)) (\<lambda>currentRootKey.
              if length currentRootKey \<noteq> 32 then Inl (EncryptionError INVALID_STATE)
              else and_then (kdfSpqrEpoch hmac epochSecret currentRootKey (chain_add_info s)) (\<lambda>(newRootKey, a2b, b2a).
                let (sendKey, receiveKey) = order_chains (sp_direction s) a2b b2a;
                    send = (case which of
                        BothChains \<Rightarrow> fresh_chain sendKey
                      | ReceiveChain \<Rightarrow> (case map_of (kdfChains s) nextEpoch of
                            Some c \<Rightarrow> ec_send c
                          | None \<Rightarrow> \<lparr>ch_CK = ZEROED_CHAIN_KEY, ch_N = 0\<rparr>))
                in Inr (s\<lparr>sp_RK := bytesToBase64 newRootKey,
                     kdfChains := AList.update nextEpoch \<lparr>ec_send = send, ec_receive = fresh_chain receiveKey\<rparr> (kdfChains s),
                     sp_epoch := nextEpoch, sckaState := (sckaState s)\<lparr>sc_epoch := nextEpoch, lastRefreshTimestamp := now\<rparr>\<rparr>))))"

definition advanceSPQREpochFromRawSecret ::
    "hmac_fun \<Rightarrow> SPQRState \<Rightarrow> bytes \<Rightarrow> chains_to_init \<Rightarrow> int \<Rightarrow> SPQRState result" where
  "advanceSPQREpochFromRawSecret hmac s rawSharedSecret which now =
     and_then (getNextSPQREpoch s) (\<lambda>nextEpoch.
       and_then (KDF_OK hmac rawSharedSecret nextEpoch) (\<lambda>epochSecret.
         addSPQREpochSecret hmac s epochSecret which nextEpoch now))"

definition addSPQRBraidEpoch :: "hmac_fun \<Rightarrow> SPQRState \<Rightarrow> OutputKey \<Rightarrow> chains_to_init \<Rightarrow> int \<Rightarrow> SPQRState result" where
  "addSPQRBraidEpoch hmac s outputKey which now =
     and_then (getNextSPQREpoch s) (\<lambda>expectedEpoch.
       if ok_epoch outputKey \<noteq> expectedEpoch then Inl (EncryptionError INVALID_STATE)
       else addSPQREpochSecret hmac s (epoch_secret outputKey) which expectedEpoch now)"

section \<open>The batch interface of the braid (braid.ts)\<close>

record SPQRChunkResult =
  cr_chunks :: "MLKEMBraidMessage list"
  cr_outputKey :: "OutputKey option"
  cr_epoch :: nat

definition MAX_CHUNKS_PER_SEND :: nat where "MAX_CHUNKS_PER_SEND = 100"

text \<open>The body of the loop of \<open>spqrBraidSend\<close>; \<open>None\<close> when the fuel ends before the loop does.\<close>

fun braid_send_loop ::
    "spqr_primitives \<Rightarrow> (nat \<Rightarrow> nat \<Rightarrow> bytes) \<Rightarrow> nat \<Rightarrow> MLKEMBraidAgentState \<Rightarrow> MLKEMBraidMessage list \<Rightarrow> OutputKey option \<Rightarrow>
     (MLKEMBraidAgentState \<times> SPQRChunkResult) result option" where
  "braid_send_loop p random 0 agent out key = None"
| "braid_send_loop p random (Suc fuel) agent out key =
     (case braid_Send (sp_hmac p) (sp_braid_kem p) (random fuel) agent of
        Inl e \<Rightarrow> Some (Inl e)
      | Inr (agent, r) \<Rightarrow>
          let out = (if bm_type (sent_message r) \<noteq> NoPayload \<and> bm_data (sent_message r) \<noteq> None then out @ [sent_message r] else out);
              key = (case sent_key r of Some k \<Rightarrow> Some k | None \<Rightarrow> key)
          in if bm_type (sent_message r) \<noteq> NoPayload \<and> length out < MAX_CHUNKS_PER_SEND
             then braid_send_loop p random fuel agent out key
             else Some (Inr (agent, \<lparr>cr_chunks = out, cr_outputKey = key, cr_epoch = sending_epoch r\<rparr>)))"

definition spqrBraidSend ::
    "spqr_primitives \<Rightarrow> (nat \<Rightarrow> nat \<Rightarrow> bytes) \<Rightarrow> nat \<Rightarrow> SPQRState \<Rightarrow> (SPQRState \<times> SPQRChunkResult) result option" where
  "spqrBraidSend p random fuel s =
     (if sp_mode s \<noteq> SckaBraid then Some (Inl (EncryptionError INVALID_STATE))
      else case braidState s of
             None \<Rightarrow> Some (Inl (EncryptionError INVALID_STATE))
           | Some agent \<Rightarrow>
               map_option (\<lambda>r. and_then r (\<lambda>(agent, c). Inr (s\<lparr>braidState := Some agent\<rparr>, c)))
                 (braid_send_loop p random fuel agent [] None))"

definition spqrBraidReceive ::
    "spqr_primitives \<Rightarrow> SPQRState \<Rightarrow> MLKEMBraidMessage \<Rightarrow> (SPQRState \<times> SPQRChunkResult) result" where
  "spqrBraidReceive p s m =
     (if sp_mode s \<noteq> SckaBraid then Inl (EncryptionError INVALID_STATE)
      else case braidState s of
             None \<Rightarrow> Inl (EncryptionError INVALID_STATE)
           | Some agent \<Rightarrow>
               and_then (braid_Receive (sp_hmac p) (sp_braid_kem p) agent m) (\<lambda>(agent, r).
                 Inr (s\<lparr>braidState := Some agent\<rparr>,
                   \<lparr>cr_chunks = [], cr_outputKey = received_key r, cr_epoch = receiving_epoch r\<rparr>)))"

definition getNextBraidChunk :: "SPQRState \<Rightarrow> MLKEMBraidMessage option \<times> SPQRState" where
  "getNextBraidChunk s =
     (if sp_mode s \<noteq> SckaBraid then (None, s)
      else case pendingOutgoingChunks s of
             Some (m # ms) \<Rightarrow> (Some m, s\<lparr>pendingOutgoingChunks := Some ms\<rparr>)
           | _ \<Rightarrow> (None, s))"

definition hasPendingBraidChunks :: "SPQRState \<Rightarrow> bool" where
  "hasPendingBraidChunks s \<longleftrightarrow> sp_mode s = SckaBraid \<and> length (or_else (pendingOutgoingChunks s) []) > 0"

section \<open>The direct mode\<close>

definition isSpqrBootstrapComplete :: "SPQRState \<Rightarrow> bool" where
  "isSpqrBootstrapComplete s \<longleftrightarrow>
     (if sp_mode s = SckaBraid then braidState s \<noteq> None \<and> isVersionNegotiationComplete (versionNegotiation s)
      else theirKyberPublicKey (sckaState s) \<noteq> None \<and> isVersionNegotiationComplete (versionNegotiation s))"

text \<open>Ciphertext and public key to send, in the direct mode.\<close>

definition direct_ratchet_step ::
    "spqr_primitives \<Rightarrow> (nat \<Rightarrow> bytes) \<Rightarrow> int \<Rightarrow> SPQRState \<Rightarrow> ((bytes \<times> bytes) \<times> SPQRState) result" where
  "direct_ratchet_step p random now s =
     and_then (validateSPQRState s) (\<lambda>_.
       let (newPublic, newPrivate) = generateKyber768KeyPair p (random 64);
           s = s\<lparr>sckaState := (sckaState s)\<lparr>ourKyberPrivateKey := Some (bytesToBase64 newPrivate)\<rparr>\<rparr>
       in case theirKyberPublicKey (sckaState s) of
            None \<Rightarrow> Inl (EncryptionError SPQR_INVALID_CIPHERTEXT)
          | Some theirs \<Rightarrow>
              and_then (base64ToBytes theirs) (\<lambda>theirPubKeyBytes.
                and_then (kyber768Encapsulate p theirPubKeyBytes (random 32)) (\<lambda>(secret, ciphertext).
                  and_then (advanceSPQREpochFromRawSecret (sp_hmac p) s secret BothChains now) (\<lambda>s.
                    Inr ((ciphertext, newPublic), s)))))"

definition processSPQRReceivedCiphertext ::
    "spqr_primitives \<Rightarrow> int \<Rightarrow> SPQRState \<Rightarrow> bytes \<Rightarrow> SPQRState result" where
  "processSPQRReceivedCiphertext p now s ciphertext =
     and_then (validateSPQRState s) (\<lambda>_.
       if sp_mode s = SckaBraid then Inl (EncryptionError INVALID_STATE)
       else if length ciphertext \<noteq> 1088 then Inl (EncryptionError SPQR_INVALID_CIPHERTEXT)
       else case ourKyberPrivateKey (sckaState s) of
              None \<Rightarrow> Inl (EncryptionError SPQR_INVALID_CIPHERTEXT)
            | Some priv \<Rightarrow>
                and_then (base64ToBytes priv) (\<lambda>privBytes.
                  and_then (kyber768Decapsulate p ciphertext privBytes) (\<lambda>secret.
                    advanceSPQREpochFromRawSecret (sp_hmac p) s secret ReceiveChain now)))"


section \<open>Message keys\<close>

record SPQRKeyResult =
  kr_messageKey :: bytes
  kr_index :: nat
  kr_epoch :: nat

text \<open>A new send epoch: older epochs are deleted, the send chains below it are cleared.\<close>

definition advance_send_epoch :: "SPQRState \<Rightarrow> nat \<Rightarrow> SPQRState" where
  "advance_send_epoch s epoch =
     (let oldestToKeep = epoch - EPOCHS_TO_KEEP_PRIOR_TO_SEND_EPOCH
      in s\<lparr>sp_sendEpoch := Some epoch,
           kdfChains := map (\<lambda>(e, c). (e, if e < epoch then c\<lparr>ec_send := \<lparr>ch_CK = ZEROED_CHAIN_KEY, ch_N = 0\<rparr>\<rparr> else c))
             (filter (\<lambda>(e, _). e \<ge> oldestToKeep) (kdfChains s)),
           sp_MKSKIPPED := filter (\<lambda>(name, _). fst name \<ge> oldestToKeep) (sp_MKSKIPPED s)\<rparr>)"

definition derive_from_send_chain ::
    "hmac_fun \<Rightarrow> SPQRState \<Rightarrow> nat \<Rightarrow> EpochChains \<Rightarrow> (SPQRKeyResult \<times> SPQRState) result" where
  "derive_from_send_chain hmac s epoch c =
     (let sendChain = ec_send c
      in if ch_CK sendChain = ZEROED_CHAIN_KEY then Inl (EncryptionError INVALID_STATE)
         else if ch_N sendChain \<ge> MAX_INDEX then Inl (EncryptionError SPQR_COUNTER_OVERFLOW)
         else and_then (base64ToBytes (ch_CK sendChain)) (\<lambda>currentChainKey.
                let currentIndex = ch_N sendChain + 1
                in and_then (kdfChainKeySPQR hmac currentChainKey (int currentIndex) (chain_next_info s)) (\<lambda>(newChainKey, messageKey).
                     Inr (\<lparr>kr_messageKey = messageKey, kr_index = currentIndex, kr_epoch = epoch\<rparr>,
                       s\<lparr>kdfChains := AList.update epoch (c\<lparr>ec_send := \<lparr>ch_CK = bytesToBase64 newChainKey, ch_N = currentIndex\<rparr>\<rparr>)
                           (kdfChains s)\<rparr>))))"

definition deriveSPQRSendKey ::
    "hmac_fun \<Rightarrow> SPQRState \<Rightarrow> nat option \<Rightarrow> (SPQRKeyResult option \<times> SPQRState) result" where
  "deriveSPQRSendKey hmac s epochOverride =
     and_then (validateSPQRState s) (\<lambda>_.
       if \<not> isSpqrBootstrapComplete s then Inr (None, s)
       else let epoch = or_else epochOverride (sp_epoch s); previousSendEpoch = or_else (sp_sendEpoch s) 0
            in if map_of (kdfChains s) epoch = None then Inl (EncryptionError SPQR_EPOCH_OUT_OF_RANGE)
               else if epoch < previousSendEpoch then Inl (EncryptionError SPQR_EPOCH_OUT_OF_RANGE)
               else let s = (if epoch > previousSendEpoch then advance_send_epoch s epoch else s)
                    in and_then (required (map_of (kdfChains s) epoch)) (\<lambda>c.
                         and_then (derive_from_send_chain hmac s epoch c) (\<lambda>(key, s). Inr (Some key, s))))"

definition isBelowTrimHorizon :: "SPQRState \<Rightarrow> nat \<Rightarrow> nat \<Rightarrow> bool" where
  "isBelowTrimHorizon s epoch index =
     (case map_of (kdfChains s) epoch of
        None \<Rightarrow> False
      | Some c \<Rightarrow> index + maxOutOfOrderKeys (limits_of s) < ch_N (ec_receive c))"

definition assertNotTrimmed :: "SPQRState \<Rightarrow> nat \<Rightarrow> nat \<Rightarrow> unit result" where
  "assertNotTrimmed s epoch index = throw_if (isBelowTrimHorizon s epoch index) (EncryptionError DECRYPTION_FAILED)"

text \<open>
  The loop over the receive chain: \<open>k\<close> steps are left, \<open>n\<close> is the counter. The result is the message key, if any, the chain
  key and the keys to hold.
\<close>

fun receive_steps ::
    "hmac_fun \<Rightarrow> js_string \<Rightarrow> nat \<Rightarrow> nat \<Rightarrow> nat \<Rightarrow> nat \<Rightarrow> bytes \<Rightarrow> bytes option \<Rightarrow> (nat \<times> bytes) list \<Rightarrow>
     (bytes option \<times> bytes \<times> (nat \<times> bytes) list) result" where
  "receive_steps hmac info maxOOOKeys index 0 n ck mk pending = Inr (mk, ck, pending)"
| "receive_steps hmac info maxOOOKeys index (Suc k) n ck mk pending =
     (let n = n + 1
      in and_then (kdfChainKeySPQR hmac ck (int n) info) (\<lambda>(ck, key).
           if n = index then receive_steps hmac info maxOOOKeys index k n ck (Some key) pending
           else if n + maxOOOKeys < index then receive_steps hmac info maxOOOKeys index k n ck mk pending
           else receive_steps hmac info maxOOOKeys index k n ck mk (pending @ [(n, key)])))"

definition hold_keys :: "nat \<Rightarrow> int \<Rightarrow> (nat \<times> bytes) list \<Rightarrow> ((nat \<times> nat) \<times> SkippedSPQRKey) list \<Rightarrow>
    ((nat \<times> nat) \<times> SkippedSPQRKey) list" where
  "hold_keys epoch now pending held =
     fold (\<lambda>(n, key). AList.update (epoch, n) \<lparr>sk_key = bytesToBase64 key, sk_timestamp = now\<rparr>) pending held"

definition advance_receive_chain ::
    "hmac_fun \<Rightarrow> SPQRState \<Rightarrow> nat \<Rightarrow> nat \<Rightarrow> int \<Rightarrow> EpochChains \<Rightarrow> (bytes \<times> SPQRState) result" where
  "advance_receive_chain hmac s index epoch now c =
     (let receiveChain = ec_receive c; n = ch_N receiveChain; maxOOOKeys = maxOutOfOrderKeys (limits_of s)
      in if index > n + maxMessageJump (limits_of s) then Inl (EncryptionError SPQR_MESSAGE_JUMP_TOO_LARGE)
         else and_then (base64ToBytes (ch_CK receiveChain)) (\<lambda>ck.
           and_then (receive_steps hmac (chain_next_info s) maxOOOKeys index (index - n) n ck None []) (\<lambda>(mk, ck, pending).
             case mk of
               None \<Rightarrow> Inl (EncryptionError DECRYPTION_FAILED)
             | Some messageKey \<Rightarrow>
                 let held = (if index > n + maxOOOKeys then filter (\<lambda>(name, _). fst name \<noteq> epoch) (sp_MKSKIPPED s) else sp_MKSKIPPED s);
                     s = s\<lparr>sp_MKSKIPPED := hold_keys epoch now pending held,
                           kdfChains := AList.update epoch (c\<lparr>ec_receive := \<lparr>ch_CK = bytesToBase64 ck, ch_N = max n index\<rparr>\<rparr>) (kdfChains s)\<rparr>
                 in Inr (messageKey, trimEpochSkippedKeys s epoch))))"

definition deriveSPQRReceiveKey ::
    "hmac_fun \<Rightarrow> SPQRState \<Rightarrow> nat \<Rightarrow> nat \<Rightarrow> int \<Rightarrow> (bytes option \<times> SPQRState) result" where
  "deriveSPQRReceiveKey hmac s index epoch now =
     and_then (validateSPQRState s) (\<lambda>_.
       if \<not> isSpqrBootstrapComplete s then Inr (None, s)
       else and_then (assertNotTrimmed s epoch index) (\<lambda>_.
         case map_of (sp_MKSKIPPED s) (epoch, index) of
           Some held \<Rightarrow>
             and_then (base64ToBytes (sk_key held)) (\<lambda>storedKey.
               Inr (Some storedKey, s\<lparr>sp_MKSKIPPED := AList.delete (epoch, index) (sp_MKSKIPPED s)\<rparr>))
         | None \<Rightarrow>
             if epoch > sp_epoch s then Inl (EncryptionError SPQR_EPOCH_OUT_OF_RANGE)
             else if index > MAX_INDEX then Inl (EncryptionError SPQR_COUNTER_OVERFLOW)
             else if epoch < sp_epoch s - EPOCHS_TO_KEEP_PRIOR_TO_SEND_EPOCH then Inl (EncryptionError SPQR_EPOCH_OUT_OF_RANGE)
             else case map_of (kdfChains s) epoch of
                    None \<Rightarrow> Inl (EncryptionError SPQR_EPOCH_OUT_OF_RANGE)
                  | Some c \<Rightarrow> and_then (advance_receive_chain hmac s index epoch now c) (\<lambda>(key, s). Inr (Some key, s))))"

definition tryGetSkippedSPQRKey :: "SPQRState \<Rightarrow> nat \<Rightarrow> nat \<Rightarrow> (bytes option \<times> SPQRState) result" where
  "tryGetSkippedSPQRKey s epoch index =
     (case map_of (sp_MKSKIPPED s) (epoch, index) of
        None \<Rightarrow> Inr (None, s)
      | Some held \<Rightarrow>
          if isBelowTrimHorizon s epoch index then Inr (None, s)
          else and_then (base64ToBytes (sk_key held)) (\<lambda>mk.
                 Inr (Some mk, s\<lparr>sp_MKSKIPPED := AList.delete (epoch, index) (sp_MKSKIPPED s)\<rparr>)))"

section \<open>Sending and receiving\<close>

text \<open>The part of \<open>spqrSend\<close> for the direct mode: ciphertext and public key to send.\<close>

definition direct_send ::
    "spqr_primitives \<Rightarrow> (nat \<Rightarrow> bytes) \<Rightarrow> int \<Rightarrow> SPQRState \<Rightarrow> ((bytes option \<times> bytes option) \<times> SPQRState) result" where
  "direct_send p random now s =
     (if needsSendRatchet s \<and> sp_mode s \<noteq> SckaBraid
      then and_then (if theirKyberPublicKey (sckaState s) \<noteq> None
             then and_then (direct_ratchet_step p random now s) (\<lambda>((c, k), s). Inr ((Some c, Some k), s))
             else let (newPublic, newPrivate) = generateKyber768KeyPair p (random 64)
                  in Inr ((None, Some newPublic),
                       s\<lparr>sckaState := (sckaState s)\<lparr>ourKyberPrivateKey := Some (bytesToBase64 newPrivate)\<rparr>\<rparr>)) (\<lambda>(out, s).
             Inr (out, s\<lparr>needsSendRatchet := False\<rparr>))
      else Inr ((None, None), s))"

text \<open>The part for the braid: the message, if it has a payload, and the sending epoch.\<close>

definition braid_send ::
    "spqr_primitives \<Rightarrow> (nat \<Rightarrow> bytes) \<Rightarrow> int \<Rightarrow> SPQRState \<Rightarrow> ((MLKEMBraidMessage option \<times> nat option) \<times> SPQRState) result" where
  "braid_send p random now s =
     (case (sp_mode s, braidState s) of
        (SckaBraid, Some agent) \<Rightarrow>
          and_then (braid_Send (sp_hmac p) (sp_braid_kem p) random agent) (\<lambda>(agent, r).
            let s = s\<lparr>braidState := Some agent\<rparr>;
                m = (if bm_type (sent_message r) \<noteq> NoPayload then Some (sent_message r) else None)
            in and_then (case sent_key r of None \<Rightarrow> Inr s | Some key \<Rightarrow> addSPQRBraidEpoch (sp_hmac p) s key BothChains now) (\<lambda>s.
                 Inr ((m, Some (sending_epoch r)), s)))
      | _ \<Rightarrow> Inr ((None, None), s))"

definition wire_message ::
    "nat \<Rightarrow> SPQRKeyResult option \<Rightarrow> MLKEMBraidMessage option \<Rightarrow> bytes option \<Rightarrow> bytes option \<Rightarrow> SPQRWireMessage" where
  "wire_message wireEpoch key m c k =
     \<lparr>wm_version = 1, wm_epoch = Some wireEpoch, wm_chainIndex = map_option kr_index key,
       wm_mode = (if m \<noteq> None then BraidMode else if c \<noteq> None \<or> k \<noteq> None then DirectMode else NoneMode),
       wm_braidMsgType = map_option bm_type m, wm_braidChunkIndex = map_option nat (Option.bind m bm_chunkIndex),
       wm_braidChunkData = Option.bind m bm_data, wm_kyberCiphertext = c, wm_kyberPublicKey = k\<rparr>"

definition spqrSendWith ::
    "spqr_primitives \<Rightarrow> (nat \<Rightarrow> bytes) \<Rightarrow> int \<Rightarrow> SPQRState \<Rightarrow> ((bytes \<times> bytes option) \<times> SPQRState) result" where
  "spqrSendWith p random now s =
     and_then (direct_send p random now s) (\<lambda>((c, k), s).
       and_then (braid_send p random now s) (\<lambda>((m, sendingEpoch), s).
         and_then (case sendingEpoch of
             None \<Rightarrow> Inr None
           | Some e \<Rightarrow> and_then (spqrWireEpochToInternalEpoch e) (\<lambda>e. Inr (Some e))) (\<lambda>sendKeyEpoch.
           and_then (deriveSPQRSendKey (sp_hmac p) s sendKeyEpoch) (\<lambda>(key, s).
             if key = None \<and> c = None \<and> k = None \<and> m = None then Inr (([], None), s)
             else and_then (case sendingEpoch of
                 Some e \<Rightarrow> Inr e
               | None \<Rightarrow> spqrInternalEpochToWireEpoch (case key of Some r \<Rightarrow> kr_epoch r | None \<Rightarrow> sp_epoch s)) (\<lambda>wireEpoch.
                 and_then (encodeSPQRWire (wire_message wireEpoch key m c k)) (\<lambda>msgBytes.
                   Inr ((msgBytes, map_option kr_messageKey key), s)))))))"

text \<open>The payload of a received message.\<close>

definition receive_direct :: "spqr_primitives \<Rightarrow> int \<Rightarrow> SPQRState \<Rightarrow> SPQRWireMessage \<Rightarrow> SPQRState result" where
  "receive_direct p now s pqr =
     (let s = (case wm_kyberPublicKey pqr of
          Some k \<Rightarrow> if length k > 0 then s\<lparr>sckaState := (sckaState s)\<lparr>theirKyberPublicKey := Some (bytesToBase64 k)\<rparr>\<rparr> else s
        | None \<Rightarrow> s)
      in case wm_kyberCiphertext pqr of
           Some c \<Rightarrow>
             if length c > 0
             then and_then (processSPQRReceivedCiphertext p now s c) (\<lambda>s. Inr (s\<lparr>needsSendRatchet := True\<rparr>))
             else Inr s
         | None \<Rightarrow> Inr s)"

definition braid_chunk_of :: "SPQRWireMessage \<Rightarrow> MLKEMBraidMessage result" where
  "braid_chunk_of pqr =
     and_then (spqrWireEpochToBigInt (or_else (wm_epoch pqr) 0)) (\<lambda>epoch.
       Inr \<lparr>bm_epoch = epoch, bm_type = or_else (wm_braidMsgType pqr) NoPayload,
         bm_chunkIndex = map_option int (wm_braidChunkIndex pqr), bm_data = wm_braidChunkData pqr\<rparr>)"

definition receive_braid :: "spqr_primitives \<Rightarrow> int \<Rightarrow> SPQRState \<Rightarrow> MLKEMBraidAgentState \<Rightarrow> SPQRWireMessage \<Rightarrow> SPQRState result" where
  "receive_braid p now s agent pqr =
     and_then (braid_chunk_of pqr) (\<lambda>chunk.
       and_then (braid_Receive (sp_hmac p) (sp_braid_kem p) agent chunk) (\<lambda>(agent, r).
         let s = s\<lparr>braidState := Some agent\<rparr>
         in case received_key r of None \<Rightarrow> Inr s | Some key \<Rightarrow> addSPQRBraidEpoch (sp_hmac p) s key BothChains now))"

definition receive_payload :: "spqr_primitives \<Rightarrow> int \<Rightarrow> SPQRState \<Rightarrow> SPQRWireMessage \<Rightarrow> SPQRState result" where
  "receive_payload p now s pqr =
     (case (wm_mode pqr, sp_mode s, braidState s) of
        (DirectMode, _, _) \<Rightarrow> receive_direct p now s pqr
      | (BraidMode, SckaBraid, Some agent) \<Rightarrow> receive_braid p now s agent pqr
      | _ \<Rightarrow> Inr s)"

definition negotiate :: "SPQRState \<Rightarrow> nat \<Rightarrow> SPQRState result" where
  "negotiate s version =
     (case versionNegotiation s of
        Some v \<Rightarrow>
          if vn_status v = Negotiating
          then and_then (processVersionFromByte v version) (\<lambda>v. Inr (s\<lparr>versionNegotiation := Some v\<rparr>))
          else Inr s
      | None \<Rightarrow> Inr s)"

definition spqrRecvAt ::
    "spqr_primitives \<Rightarrow> int \<Rightarrow> SPQRState \<Rightarrow> bytes option \<Rightarrow> (bytes option \<times> SPQRState) result" where
  "spqrRecvAt p now s msgBytes =
     (case msgBytes of
        None \<Rightarrow> Inr (None, s)
      | Some bs \<Rightarrow>
          if bs = [] then Inr (None, s)
          else and_then (decodeSPQRWire bs) (\<lambda>pqr.
            and_then (negotiate s (wm_version pqr)) (\<lambda>s.
              and_then (receive_payload p now s pqr) (\<lambda>s.
                case (wm_epoch pqr, wm_chainIndex pqr) of
                  (Some e, Some index) \<Rightarrow>
                    if index \<ge> 1
                    then and_then (spqrWireEpochToInternalEpoch e) (\<lambda>epoch. deriveSPQRReceiveKey (sp_hmac p) s index epoch now)
                    else Inr (None, s)
                | _ \<Rightarrow> Inr (None, s)))))"

text \<open>The key of a message whose Double Ratchet key was skipped (\<open>decryptWithSkippedKey\<close>, internal/session/decryption.ts).\<close>

definition spqr_skipped_key :: "hmac_fun \<Rightarrow> int \<Rightarrow> SPQRState \<Rightarrow> bytes \<Rightarrow> (bytes option \<times> SPQRState) result" where
  "spqr_skipped_key hmac now s pqRatchetBytes =
     (if pqRatchetBytes = [] then Inr (None, s)
      else and_then (decodeSPQRWire pqRatchetBytes) (\<lambda>pqr.
        case (wm_epoch pqr, wm_chainIndex pqr) of
          (Some e, Some index) \<Rightarrow>
            and_then (spqrWireEpochToInternalEpoch e) (\<lambda>epoch.
              if index \<ge> 1
              then and_then (tryGetSkippedSPQRKey s epoch index) (\<lambda>(key, s).
                     case key of Some _ \<Rightarrow> Inr (key, s) | None \<Rightarrow> deriveSPQRReceiveKey hmac s index epoch now)
              else Inr (None, s))
        | _ \<Rightarrow> Inr (None, s)))"


section \<open>Held keys\<close>

definition held_at :: "SPQRState \<Rightarrow> nat \<Rightarrow> ((nat \<times> nat) \<times> SkippedSPQRKey) list" where
  "held_at s e = filter (\<lambda>(name, _). fst name = e) (sp_MKSKIPPED s)"

definition ooo_of :: "SPQRState \<Rightarrow> nat" where "ooo_of s = maxOutOfOrderKeys (limits_of s)"

text \<open>
  Names are distinct, held epochs are not ahead, an index is behind the counter of its chain, and each epoch holds
  fewer keys than the trim size.
\<close>

definition behind :: "SPQRState \<Rightarrow> nat \<times> nat \<Rightarrow> bool" where
  "behind s name \<longleftrightarrow> fst name \<le> sp_epoch s \<and> (\<forall>c. map_of (kdfChains s) (fst name) = Some c \<longrightarrow> snd name < ch_N (ec_receive c))"

definition held_ok :: "SPQRState \<Rightarrow> bool" where
  "held_ok s \<longleftrightarrow> distinct (map fst (sp_MKSKIPPED s)) \<and> (\<forall>name \<in> fst ` set (sp_MKSKIPPED s). behind s name) \<and>
     (\<forall>e. length (held_at s e) < skippedKeyTrimSize (ooo_of s))"

lemma map_of_filter_keys:
  "map_of (map (\<lambda>(e, c). (e, f e c)) (filter (\<lambda>(e, _). P e) al)) e = (if P e then map_option (f e) (map_of al e) else None)"
  by (induction al) auto

lemma length_filter_mono: "(\<And>x. P x \<Longrightarrow> Q x) \<Longrightarrow> length (filter P xs) \<le> length (filter Q xs)"
  by (induction xs) auto

lemma distinct_filter_fst: "distinct (map fst xs) \<Longrightarrow> distinct (map fst (filter P xs))"
  by (induction xs) auto

text \<open>Fewer keys, with the same chains or chains at least as far, keep the invariant.\<close>

lemma held_ok_fewer:
  assumes "held_ok s" and "sp_MKSKIPPED s' = filter P (sp_MKSKIPPED s)" and "ooo_of s' = ooo_of s"
    and "\<And>name. name \<in> fst ` set (sp_MKSKIPPED s') \<Longrightarrow> behind s name \<Longrightarrow> behind s' name"
  shows "held_ok s'"
proof -
  have "length (held_at s' e) \<le> length (held_at s e)" for e
    unfolding held_at_def assms(2) filter_filter by (intro length_filter_mono) auto
  then have "length (held_at s' e) < skippedKeyTrimSize (ooo_of s')" for e
    using assms(1,3) by (metis held_ok_def order.strict_trans1)
  moreover have "behind s' name" if name: "name \<in> fst ` set (sp_MKSKIPPED s')" for name
  proof (rule assms(4) [OF name])
    have "name \<in> fst ` set (sp_MKSKIPPED s)" using name by (auto simp: assms(2))
    with assms(1) show "behind s name" by (auto simp: held_ok_def)
  qed
  ultimately show ?thesis using assms(1) by (simp add: held_ok_def assms(2) distinct_filter_fst)
qed

lemma held_ok_same:
  "held_ok s \<Longrightarrow> sp_MKSKIPPED s' = sp_MKSKIPPED s \<Longrightarrow> ooo_of s' = ooo_of s \<Longrightarrow> sp_epoch s \<le> sp_epoch s' \<Longrightarrow>
   (\<And>e. e \<le> sp_epoch s \<Longrightarrow> map_option (ch_N \<circ> ec_receive) (map_of (kdfChains s') e) = map_option (ch_N \<circ> ec_receive) (map_of (kdfChains s) e)) \<Longrightarrow>
   held_ok s'"
proof (rule held_ok_fewer [where P = "\<lambda>_. True"])
  assume chains: "\<And>e. e \<le> sp_epoch s \<Longrightarrow> map_option (ch_N \<circ> ec_receive) (map_of (kdfChains s') e) = map_option (ch_N \<circ> ec_receive) (map_of (kdfChains s) e)"
    and le: "sp_epoch s \<le> sp_epoch s'"
  fix name assume b: "behind s name"
  show "behind s' name"
    unfolding behind_def
  proof (intro conjI allI impI)
    fix c assume "map_of (kdfChains s') (fst name) = Some c"
    with chains [of "fst name"] b have "map_option (ch_N \<circ> ec_receive) (map_of (kdfChains s) (fst name)) = Some (ch_N (ec_receive c))"
      by (simp add: behind_def)
    then obtain d where "map_of (kdfChains s) (fst name) = Some d" "ch_N (ec_receive d) = ch_N (ec_receive c)" by auto
    with b show "snd name < ch_N (ec_receive c)" by (auto simp: behind_def)
  qed (use b le in \<open>simp add: behind_def\<close>)
qed simp_all

lemma limits_of_simps [simp]:
  "limits_of (s\<lparr>sp_RK := a\<rparr>) = limits_of s" "limits_of (s\<lparr>sp_epoch := b\<rparr>) = limits_of s"
  "limits_of (s\<lparr>sp_sendEpoch := c\<rparr>) = limits_of s" "limits_of (s\<lparr>kdfChains := d\<rparr>) = limits_of s"
  "limits_of (s\<lparr>sp_MKSKIPPED := e\<rparr>) = limits_of s" "limits_of (s\<lparr>sckaState := f\<rparr>) = limits_of s"
  "limits_of (s\<lparr>braidState := g\<rparr>) = limits_of s" "limits_of (s\<lparr>versionNegotiation := h\<rparr>) = limits_of s"
  "limits_of (s\<lparr>needsSendRatchet := i\<rparr>) = limits_of s"
  by (simp_all add: limits_of_def)

lemma ooo_of_simps [simp]:
  "ooo_of (s\<lparr>sp_RK := a\<rparr>) = ooo_of s" "ooo_of (s\<lparr>sp_epoch := b\<rparr>) = ooo_of s" "ooo_of (s\<lparr>sp_sendEpoch := c\<rparr>) = ooo_of s"
  "ooo_of (s\<lparr>kdfChains := d\<rparr>) = ooo_of s" "ooo_of (s\<lparr>sp_MKSKIPPED := e\<rparr>) = ooo_of s" "ooo_of (s\<lparr>sckaState := f\<rparr>) = ooo_of s"
  "ooo_of (s\<lparr>braidState := g\<rparr>) = ooo_of s" "ooo_of (s\<lparr>versionNegotiation := h\<rparr>) = ooo_of s" "ooo_of (s\<lparr>needsSendRatchet := i\<rparr>) = ooo_of s"
  by (simp_all add: ooo_of_def)

subsection \<open>Epochs and sending\<close>

lemma addSPQREpochSecret_held:
  assumes "held_ok s" and "addSPQREpochSecret hmac s x which e now = Inr s'"
  shows "held_ok s' \<and> ooo_of s' = ooo_of s"
proof -
  obtain rk c scka where s': "s' = s\<lparr>sp_RK := rk, kdfChains := AList.update (sp_epoch s + 1) c (kdfChains s),
      sp_epoch := sp_epoch s + 1, sckaState := scka\<rparr>"
    using assms(2)
    by (auto simp: addSPQREpochSecret_def getNextSPQREpoch_def and_then_eq_Inr Let_def split_beta split: if_splits)
  have "held_ok s'" by (rule held_ok_same [OF assms(1)]) (auto simp: s' update_conv')
  then show ?thesis by (simp add: s')
qed

lemma addSPQRBraidEpoch_held:
  "held_ok s \<Longrightarrow> addSPQRBraidEpoch hmac s k which now = Inr s' \<Longrightarrow> held_ok s' \<and> ooo_of s' = ooo_of s"
  by (auto simp: addSPQRBraidEpoch_def and_then_eq_Inr dest: addSPQREpochSecret_held split: if_splits)

lemma advanceSPQREpochFromRawSecret_held:
  "held_ok s \<Longrightarrow> advanceSPQREpochFromRawSecret hmac s x which now = Inr s' \<Longrightarrow> held_ok s' \<and> ooo_of s' = ooo_of s"
  by (auto simp: advanceSPQREpochFromRawSecret_def and_then_eq_Inr dest: addSPQREpochSecret_held)

lemma advance_send_epoch_held: "held_ok s \<Longrightarrow> held_ok (advance_send_epoch s e)"
  by (rule held_ok_fewer)
    (auto simp: advance_send_epoch_def Let_def behind_def map_of_filter_keys split: if_splits)

lemma derive_from_send_chain_held:
  assumes "held_ok s" and "map_of (kdfChains s) e = Some c" and "derive_from_send_chain hmac s e c = Inr (k, s')"
  shows "held_ok s'"
  using assms
  by (auto simp: derive_from_send_chain_def and_then_eq_Inr Let_def update_conv' split: if_splits
      intro!: held_ok_same [OF assms(1)])

lemma deriveSPQRSendKey_cases:
  assumes "deriveSPQRSendKey hmac s e = Inr (k, s')"
  obtains (bootstrap) "k = None" "s' = s" "\<not> isSpqrBootstrapComplete s"
  | (key) key c r where "k = Some key" "isSpqrBootstrapComplete s" "or_else (sp_sendEpoch s) 0 \<le> or_else e (sp_epoch s)"
      "r = (if or_else e (sp_epoch s) > or_else (sp_sendEpoch s) 0 then advance_send_epoch s (or_else e (sp_epoch s)) else s)"
      "map_of (kdfChains r) (or_else e (sp_epoch s)) = Some c"
      "derive_from_send_chain hmac r (or_else e (sp_epoch s)) c = Inr (key, s')"
proof (cases "isSpqrBootstrapComplete s")
  case True
  let ?x = "or_else e (sp_epoch s)"
  let ?r = "if ?x > or_else (sp_sendEpoch s) 0 then advance_send_epoch s ?x else s"
  from assms True have "or_else (sp_sendEpoch s) 0 \<le> ?x" and d: "and_then (required (map_of (kdfChains ?r) ?x)) (\<lambda>c.
      and_then (derive_from_send_chain hmac ?r ?x c) (\<lambda>(key, s). Inr (Some key, s))) = Inr (k, s')"
    by (auto simp: deriveSPQRSendKey_def and_then_eq_Inr Let_def simp del: required_def split: if_splits)
  moreover from d obtain c key where "map_of (kdfChains ?r) ?x = Some c" "derive_from_send_chain hmac ?r ?x c = Inr (key, s')" "k = Some key"
    by (cases "map_of (kdfChains ?r) ?x") (auto simp: and_then_eq_Inr required_def)
  ultimately show ?thesis using key True by blast
next
  case False
  with assms bootstrap show ?thesis by (auto simp: deriveSPQRSendKey_def and_then_eq_Inr)
qed

lemma deriveSPQRSendKey_held:
  assumes "held_ok s" and "deriveSPQRSendKey hmac s e = Inr (k, s')"
  shows "held_ok s'"
  using assms(2)
proof (cases rule: deriveSPQRSendKey_cases)
  case (key key c r)
  have "held_ok r" using assms(1) key(4) by (simp add: advance_send_epoch_held)
  with key(5,6) show ?thesis by (blast intro: derive_from_send_chain_held)
qed (use assms(1) in simp)

subsection \<open>Receiving\<close>

lemma receive_steps_pending:
  "receive_steps hmac info ooo index k n ck mk pending = Inr (mk', ck', pending') \<Longrightarrow> n + k = index \<Longrightarrow>
   \<exists>more. pending' = pending @ more \<and> sorted_wrt (<) (map fst more) \<and> (\<forall>i \<in> fst ` set more. n < i \<and> i < index \<and> index \<le> i + ooo)"
proof (induction k arbitrary: n ck mk pending)
  case (Suc k)
  from Suc.prems(1) obtain ck1 key where key: "kdfChainKeySPQR hmac ck (int (n + 1)) info = Inr (ck1, key)"
    by (cases "kdfChainKeySPQR hmac ck (int (n + 1)) info") (auto simp: Let_def)
  define p1 where "p1 = (if n + 1 = index \<or> n + 1 + ooo < index then pending else pending @ [(n + 1, key)])"
  define mk1 where "mk1 = (if n + 1 = index then Some key else mk)"
  have r: "receive_steps hmac info ooo index k (n + 1) ck1 mk1 p1 = Inr (mk', ck', pending')"
    using Suc.prems(1) key by (simp add: p1_def mk1_def Let_def split: if_splits)
  have p1: "p1 = pending \<or> p1 = pending @ [(n + 1, key)] \<and> n + 1 \<noteq> index \<and> index \<le> n + 1 + ooo"
    by (auto simp: p1_def)
  from Suc.IH [OF r] Suc.prems(2) obtain more where m: "pending' = p1 @ more" "sorted_wrt (<) (map fst more)"
    "\<forall>i \<in> fst ` set more. n + 1 < i \<and> i < index \<and> index \<le> i + ooo" by auto
  from p1 show ?case
  proof
    assume "p1 = pending"
    with m show ?thesis by (intro exI [of _ more]) auto
  next
    assume "p1 = pending @ [(n + 1, key)] \<and> n + 1 \<noteq> index \<and> index \<le> n + 1 + ooo"
    with m Suc.prems(2) show ?thesis by (intro exI [of _ "(n + 1, key) # more"]) auto
  qed
qed auto

lemma hold_keys_Cons [simp]: "hold_keys e now [] held = held"
  "hold_keys e now (p # ps) held = hold_keys e now ps (AList.update (e, fst p) \<lparr>sk_key = bytesToBase64 (snd p), sk_timestamp = now\<rparr> held)"
  by (simp_all add: hold_keys_def split_beta)

lemma hold_keys_dom: "fst ` set (hold_keys e now ps held) = (\<lambda>(i, _). (e, i)) ` set ps \<union> fst ` set held"
  by (induction ps arbitrary: held) (auto simp: dom_update)

lemma hold_keys_distinct: "distinct (map fst held) \<Longrightarrow> distinct (map fst (hold_keys e now ps held))"
  by (induction ps arbitrary: held) (auto simp: distinct_update)

lemma update_filter_other:
  "\<not> P k \<Longrightarrow> filter (\<lambda>(x, _). P x) (AList.update k v al) = filter (\<lambda>(x, _). P x) al"
  by (induction al) auto

lemma hold_keys_other: "e' \<noteq> e \<Longrightarrow> filter (\<lambda>(name, _). fst name = e') (hold_keys e now ps held) = filter (\<lambda>(name, _). fst name = e') held"
proof (induction ps arbitrary: held)
  case (Cons p ps)
  then show ?case using update_filter_other [of "\<lambda>x. fst x = e'" "(e, fst p)"] by simp
qed simp

lemma window_count:
  assumes "distinct (map fst xs)" and "\<And>name. name \<in> fst ` set xs \<Longrightarrow> fst name = e \<and> snd name < n \<and> n \<le> snd name + w"
  shows "length xs \<le> w"
proof -
  have inj: "inj_on snd (fst ` set xs)" by (rule inj_onI) (metis assms(2) prod.expand)
  have "length xs = card (fst ` set xs)" using distinct_card [OF assms(1)] by simp
  also have "\<dots> = card (snd ` fst ` set xs)" using card_image [OF inj] by simp
  also have "\<dots> \<le> card {n - w..<n}"
  proof (rule card_mono)
    show "snd ` fst ` set xs \<subseteq> {n - w..<n}"
    proof
      fix i assume "i \<in> snd ` fst ` set xs"
      then obtain name where "name \<in> fst ` set xs" "i = snd name" by blast
      with assms(2) [of name] show "i \<in> {n - w..<n}" by auto
    qed
  qed simp
  also have "\<dots> \<le> w" by simp
  finally show ?thesis .
qed

lemma trim_count: "n < skippedKeyTrimSize n"
  by (simp add: skippedKeyTrimSize_def)


lemma hold_keys_mem:
  "name \<in> fst ` set (hold_keys e now ps held) \<longleftrightarrow> fst name = e \<and> snd name \<in> fst ` set ps \<or> name \<in> fst ` set held"
  by (cases name) (force simp: hold_keys_dom image_iff)

lemma deriveSPQRReceiveKey_cases:
  assumes "deriveSPQRReceiveKey hmac s index e now = Inr (key, s')"
  obtains (bootstrap) "key = None" "s' = s" "\<not> isSpqrBootstrapComplete s"
  | (held) h k where "key = Some k" "isSpqrBootstrapComplete s" "map_of (sp_MKSKIPPED s) (e, index) = Some h"
      "base64ToBytes (sk_key h) = Inr k" "\<not> isBelowTrimHorizon s e index"
      "s' = s\<lparr>sp_MKSKIPPED := AList.delete (e, index) (sp_MKSKIPPED s)\<rparr>"
  | (advance) c k where "key = Some k" "isSpqrBootstrapComplete s" "map_of (sp_MKSKIPPED s) (e, index) = None"
      "e \<le> sp_epoch s" "sp_epoch s \<le> e + 1" "map_of (kdfChains s) e = Some c"
      "advance_receive_chain hmac s index e now c = Inr (k, s')"
proof (cases "isSpqrBootstrapComplete s")
  case False
  with assms bootstrap show ?thesis by (auto simp: deriveSPQRReceiveKey_def and_then_eq_Inr)
next
  case True
  show ?thesis
  proof (cases "map_of (sp_MKSKIPPED s) (e, index)")
    case None
    with assms True advance show ?thesis
      by (auto simp: deriveSPQRReceiveKey_def and_then_eq_Inr EPOCHS_TO_KEEP_PRIOR_TO_SEND_EPOCH_def split: if_splits option.splits)
  next
    case (Some h)
    with assms True held show ?thesis
      by (auto simp: deriveSPQRReceiveKey_def and_then_eq_Inr assertNotTrimmed_def)
  qed
qed

lemma receive_steps_Some:
  "receive_steps hmac info ooo index k n ck None pending = Inr (Some mk, ck', pending') \<Longrightarrow> 0 < k"
  by (cases k) auto

lemma advance_receive_chain_cases:
  assumes "advance_receive_chain hmac s index e now c = Inr (key, s')"
  obtains ck0 ck more where "ch_N (ec_receive c) < index" "index \<le> ch_N (ec_receive c) + maxMessageJump (limits_of s)"
    "base64ToBytes (ch_CK (ec_receive c)) = Inr ck0"
    "receive_steps hmac (chain_next_info s) (ooo_of s) index (index - ch_N (ec_receive c)) (ch_N (ec_receive c)) ck0 None [] =
       Inr (Some key, ck, more)"
    "s' = trimEpochSkippedKeys (s\<lparr>sp_MKSKIPPED := hold_keys e now more
         (if index > ch_N (ec_receive c) + ooo_of s then filter (\<lambda>(name, _). fst name \<noteq> e) (sp_MKSKIPPED s) else sp_MKSKIPPED s),
       kdfChains := AList.update e (c\<lparr>ec_receive := \<lparr>ch_CK = bytesToBase64 ck, ch_N = index\<rparr>\<rparr>) (kdfChains s)\<rparr>) e"
proof -
  let ?n = "ch_N (ec_receive c)"
  obtain ck0 ck more where *: "index \<le> ?n + maxMessageJump (limits_of s)" "base64ToBytes (ch_CK (ec_receive c)) = Inr ck0"
    "receive_steps hmac (chain_next_info s) (ooo_of s) index (index - ?n) ?n ck0 None [] = Inr (Some key, ck, more)"
    "s' = trimEpochSkippedKeys (s\<lparr>sp_MKSKIPPED := hold_keys e now more
         (if index > ?n + ooo_of s then filter (\<lambda>(name, _). fst name \<noteq> e) (sp_MKSKIPPED s) else sp_MKSKIPPED s),
       kdfChains := AList.update e (c\<lparr>ec_receive := \<lparr>ch_CK = bytesToBase64 ck, ch_N = max ?n index\<rparr>\<rparr>) (kdfChains s)\<rparr>) e"
    using assms by (auto simp: advance_receive_chain_def Let_def and_then_eq_Inr ooo_of_def split: if_splits option.splits)
  from receive_steps_Some [OF *(3)] have n: "?n < index" by simp
  then have "max ?n index = index" by simp
  with that [OF n *(1-3)] *(4) show ?thesis by simp
qed

text \<open>The chains and held keys that \<open>trimEpochSkippedKeys\<close> leaves.\<close>

lemma trim_frame:
  "sp_epoch (trimEpochSkippedKeys s e) = sp_epoch s" "kdfChains (trimEpochSkippedKeys s e) = kdfChains s"
  "limits_of (trimEpochSkippedKeys s e) = limits_of s" "ooo_of (trimEpochSkippedKeys s e) = ooo_of s"
  by (auto simp: ooo_of_def trimEpochSkippedKeys_def Let_def split: option.splits)

lemma trim_none:
  "map_of (kdfChains s) e = Some c \<Longrightarrow> length (held_at s e) < skippedKeyTrimSize (ooo_of s) \<Longrightarrow> trimEpochSkippedKeys s e = s"
  by (simp add: trimEpochSkippedKeys_def Let_def held_at_def ooo_of_def)

lemma trim_held:
  "map_of (kdfChains s) e = Some c \<Longrightarrow> sp_MKSKIPPED (trimEpochSkippedKeys s e) =
   (if length (held_at s e) < skippedKeyTrimSize (ooo_of s) then sp_MKSKIPPED s
    else filter (\<lambda>(name, _). \<not> (fst name = e \<and> snd name + ooo_of s < ch_N (ec_receive c))) (sp_MKSKIPPED s))"
  by (auto simp: trimEpochSkippedKeys_def Let_def held_at_def ooo_of_def intro!: filter_cong)

lemma advance_receive_chain_held:
  assumes s: "held_ok s" and c: "map_of (kdfChains s) e = Some c" "e \<le> sp_epoch s"
    and adv: "advance_receive_chain hmac s index e now c = Inr (key, s')"
  shows "held_ok s'"
  using adv
proof (cases rule: advance_receive_chain_cases)
  case (1 ck0 ck more)
  define n where "n = ch_N (ec_receive c)"
  define old where "old = (if index > n + ooo_of s then filter (\<lambda>(name, _). fst name \<noteq> e) (sp_MKSKIPPED s) else sp_MKSKIPPED s)"
  define c' where "c' = c\<lparr>ec_receive := \<lparr>ch_CK = bytesToBase64 ck, ch_N = index\<rparr>\<rparr>"
  define r where "r = s\<lparr>sp_MKSKIPPED := hold_keys e now more old, kdfChains := AList.update e c' (kdfChains s)\<rparr>"
  have s': "s' = trimEpochSkippedKeys r e" using 1(5) by (simp add: r_def old_def c'_def n_def)
  have n: "n < index" using 1(1) by (simp add: n_def)
  have more: "\<forall>i \<in> fst ` set more. n < i \<and> i < index \<and> index \<le> i + ooo_of s"
    using receive_steps_pending [OF 1(4)] n by (auto simp: n_def)
  have chain: "map_of (kdfChains r) e = Some c'" "ch_N (ec_receive c') = index" and [simp]: "sp_epoch r = sp_epoch s" "ooo_of r = ooo_of s"
    by (simp_all add: r_def c'_def update_conv')
  have old_distinct: "distinct (map fst old)" using s by (auto simp: held_ok_def old_def distinct_filter_fst)
  have old_behind: "behind s name" if "name \<in> fst ` set old" for name
    using s that by (auto simp: held_ok_def old_def split: if_splits)
  have distinct: "distinct (map fst (sp_MKSKIPPED r))" by (simp add: r_def hold_keys_distinct old_distinct)
  have behind: "behind r name" if name: "name \<in> fst ` set (sp_MKSKIPPED r)" for name
  proof -
    from name consider "fst name = e" "snd name \<in> fst ` set more" | "name \<in> fst ` set old"
      by (auto simp: r_def hold_keys_mem)
    then show ?thesis
    proof cases
      case 1
      with more c(2) chain show ?thesis by (auto simp: behind_def)
    next
      case 2
      from old_behind [OF this] n c(1) chain show ?thesis
        by (cases "fst name = e") (auto simp: behind_def r_def update_conv' n_def)
    qed
  qed
  have other: "held_at r e' = held_at s e'" if "e' \<noteq> e" for e'
  proof -
    have "held_at r e' = filter (\<lambda>(name, _). fst name = e') old" by (simp add: held_at_def r_def hold_keys_other [OF that])
    also have "\<dots> = held_at s e'" using that by (auto simp: old_def held_at_def intro!: filter_cong)
    finally show ?thesis .
  qed
  show ?thesis
  proof (cases "length (held_at r e) < skippedKeyTrimSize (ooo_of s)")
    case True
    have "held_ok r"
      using distinct behind other True s by (auto simp: held_ok_def) (metis other)
    moreover have "s' = r"
      using trim_none [OF chain(1)] True by (simp add: s')
    ultimately show ?thesis by simp
  next
    case False
    have kept: "sp_MKSKIPPED s' = filter (\<lambda>(name, _). \<not> (fst name = e \<and> snd name + ooo_of s < index)) (sp_MKSKIPPED r)"
      using trim_held [OF chain(1)] False chain(2) by (simp add: s')
    have "length (held_at s' e) \<le> ooo_of s"
    proof (rule window_count)
      show "distinct (map fst (held_at s' e))" using distinct by (simp add: held_at_def kept distinct_filter_fst)
      fix name assume "name \<in> fst ` set (held_at s' e)"
      then have "name \<in> fst ` set (sp_MKSKIPPED r)" "fst name = e" "\<not> snd name + ooo_of s < index"
        by (auto simp: held_at_def kept)
      with behind [of name] chain show "fst name = e \<and> snd name < index \<and> index \<le> snd name + ooo_of s"
        by (auto simp: behind_def)
    qed
    then have e: "length (held_at s' e) < skippedKeyTrimSize (ooo_of s)" using trim_count [of "ooo_of s"] by linarith
    have e': "length (held_at s' x) < skippedKeyTrimSize (ooo_of s)" if "x \<noteq> e" for x
    proof -
      have "length (held_at s' x) \<le> length (held_at r x)"
        unfolding held_at_def kept filter_filter by (intro length_filter_mono) auto
      also have "\<dots> < skippedKeyTrimSize (ooo_of s)" using s other [OF that] by (simp add: held_ok_def)
      finally show ?thesis .
    qed
    have frame: "sp_epoch s' = sp_epoch s" "kdfChains s' = kdfChains r" "ooo_of s' = ooo_of s"
      by (simp_all add: s' trim_frame)
    have "behind s' name" if name: "name \<in> fst ` set (sp_MKSKIPPED s')" for name
    proof -
      have "name \<in> fst ` set (sp_MKSKIPPED r)" using name by (auto simp: kept)
      from behind [OF this] show ?thesis by (simp add: behind_def frame)
    qed
    moreover have "distinct (map fst (sp_MKSKIPPED s'))" using distinct by (simp add: kept distinct_filter_fst)
    moreover have "length (held_at s' x) < skippedKeyTrimSize (ooo_of s)" for x using e e' by (cases "x = e") auto
    ultimately show ?thesis by (simp add: held_ok_def frame)
  qed
qed

lemma deriveSPQRReceiveKey_held:
  assumes "held_ok s" and "deriveSPQRReceiveKey hmac s index e now = Inr (key, s')"
  shows "held_ok s'"
  using assms(2)
proof (cases rule: deriveSPQRReceiveKey_cases)
  case (held h k)
  show ?thesis
    by (rule held_ok_fewer [OF assms(1), where P = "\<lambda>(name, _). (e, index) \<noteq> name"])
      (auto simp: held(6) AList.delete_eq behind_def)
qed (use assms(1) advance_receive_chain_held in auto)


end
