(* ===== verification/Spqr_Keys.thy ===== *)
theory Spqr_Keys
  imports Spqr
begin

text \<open>
  What one end of the post-quantum ratchet keeps over its whole life, whatever bytes the network hands it: the held keys stay
  bounded and behind their chains, epochs never go back, and a message key is handed out once.
\<close>

section \<open>What no operation takes back\<close>

text \<open>A key that was taken: it is not held, and the counter of its chain, while the chain is kept, has passed it.\<close>

definition spent :: "SPQRState \<Rightarrow> nat \<times> nat \<Rightarrow> bool" where
  "spent s name \<longleftrightarrow> name \<notin> fst ` set (sp_MKSKIPPED s) \<and> fst name \<le> sp_epoch s \<and>
     (\<forall>c. map_of (kdfChains s) (fst name) = Some c \<longrightarrow> snd name \<le> ch_N (ec_receive c))"

text \<open>
  What no operation takes back: the limits stay, neither the epoch nor the send epoch decreases, and a taken key stays
  taken.
\<close>

definition forward :: "SPQRState \<Rightarrow> SPQRState \<Rightarrow> bool" where
  "forward s s' \<longleftrightarrow> limits_of s' = limits_of s \<and> sp_epoch s \<le> sp_epoch s' \<and> or_else (sp_sendEpoch s) 0 \<le> or_else (sp_sendEpoch s') 0 \<and>
     (\<forall>name. spent s name \<longrightarrow> spent s' name)"

lemma spent_fewer:
  "spent s name \<Longrightarrow> fst ` set (sp_MKSKIPPED s') \<subseteq> fst ` set (sp_MKSKIPPED s) \<Longrightarrow> sp_epoch s \<le> sp_epoch s' \<Longrightarrow>
   (\<And>c. map_of (kdfChains s') (fst name) = Some c \<Longrightarrow>
     \<exists>d. map_of (kdfChains s) (fst name) = Some d \<and> ch_N (ec_receive d) \<le> ch_N (ec_receive c)) \<Longrightarrow> spent s' name"
  unfolding spent_def by (intro conjI allI impI) (blast, force, metis le_trans)

lemma forward_refl [simp]: "forward s s"
  by (simp add: forward_def)

lemma forward_trans [trans]: "forward s t \<Longrightarrow> forward t u \<Longrightarrow> forward s u"
  by (simp add: forward_def)

named_theorems spqr_update \<open>updates of fields that the invariant does not read\<close>

lemma held_ok_update [spqr_update]:
  "held_ok (s\<lparr>sckaState := a\<rparr>) = held_ok s" "held_ok (s\<lparr>braidState := b\<rparr>) = held_ok s"
  "held_ok (s\<lparr>versionNegotiation := c\<rparr>) = held_ok s" "held_ok (s\<lparr>needsSendRatchet := d\<rparr>) = held_ok s"
  by (simp_all add: held_ok_def held_at_def behind_def)

lemma forward_update [spqr_update]:
  "forward s (t\<lparr>sckaState := a\<rparr>) = forward s t" "forward s (t\<lparr>braidState := b\<rparr>) = forward s t"
  "forward s (t\<lparr>versionNegotiation := c\<rparr>) = forward s t" "forward s (t\<lparr>needsSendRatchet := d\<rparr>) = forward s t"
  "forward (s\<lparr>sckaState := a\<rparr>) t = forward s t" "forward (s\<lparr>braidState := b\<rparr>) t = forward s t"
  by (simp_all add: forward_def spent_def)

text \<open>One step keeps the invariant and moves forward.\<close>

definition keeps :: "SPQRState \<Rightarrow> SPQRState \<Rightarrow> bool" where
  "keeps s s' \<longleftrightarrow> (held_ok s \<longrightarrow> held_ok s') \<and> forward s s'"

lemma keeps_refl [simp]: "keeps s s"
  by (simp add: keeps_def)

lemma keeps_trans [trans]: "keeps s t \<Longrightarrow> keeps t u \<Longrightarrow> keeps s u"
  using forward_trans by (auto simp: keeps_def)

lemma keeps_update [spqr_update]:
  "keeps s (t\<lparr>sckaState := a\<rparr>) = keeps s t" "keeps s (t\<lparr>braidState := b\<rparr>) = keeps s t"
  "keeps s (t\<lparr>versionNegotiation := c\<rparr>) = keeps s t" "keeps s (t\<lparr>needsSendRatchet := d\<rparr>) = keeps s t"
  "keeps (s\<lparr>sckaState := a\<rparr>) t = keeps s t" "keeps (s\<lparr>braidState := b\<rparr>) t = keeps s t"
  by (simp_all add: keeps_def spqr_update)

lemma addSPQREpochSecret_forward:
  assumes "addSPQREpochSecret hmac s x which e now = Inr s'" shows "forward s s'"
proof -
  from assms obtain c where c: "kdfChains s' = AList.update (sp_epoch s + 1) c (kdfChains s)" "sp_epoch s' = sp_epoch s + 1"
      "sp_MKSKIPPED s' = sp_MKSKIPPED s" "limits_of s' = limits_of s" "sp_sendEpoch s' = sp_sendEpoch s"
    by (auto simp: addSPQREpochSecret_def getNextSPQREpoch_def and_then_eq_Inr Let_def split_beta split: if_splits)
  then show ?thesis by (auto simp: forward_def spent_def update_conv' split: if_splits)
qed

lemma addSPQREpochSecret_keeps: "addSPQREpochSecret hmac s x which e now = Inr s' \<Longrightarrow> keeps s s'"
  using addSPQREpochSecret_forward addSPQREpochSecret_held by (auto simp: keeps_def)

lemma addSPQRBraidEpoch_keeps: "addSPQRBraidEpoch hmac s k which now = Inr s' \<Longrightarrow> keeps s s'"
  by (auto simp: addSPQRBraidEpoch_def and_then_eq_Inr split: if_splits intro: addSPQREpochSecret_keeps)

lemma advanceSPQREpochFromRawSecret_keeps: "advanceSPQREpochFromRawSecret hmac s x which now = Inr s' \<Longrightarrow> keeps s s'"
  by (auto simp: advanceSPQREpochFromRawSecret_def and_then_eq_Inr intro: addSPQREpochSecret_keeps)

lemma direct_ratchet_step_keeps: "direct_ratchet_step p random now s = Inr (out, s') \<Longrightarrow> keeps s s'"
  by (auto simp: direct_ratchet_step_def and_then_eq_Inr spqr_update split: prod.splits option.splits
      dest!: advanceSPQREpochFromRawSecret_keeps)

lemma processSPQRReceivedCiphertext_keeps: "processSPQRReceivedCiphertext p now s c = Inr s' \<Longrightarrow> keeps s s'"
  by (auto simp: processSPQRReceivedCiphertext_def and_then_eq_Inr split: if_splits option.splits
      intro: advanceSPQREpochFromRawSecret_keeps)

lemma direct_send_keeps:
  assumes "direct_send p random now s = Inr (out, s')" shows "keeps s s'"
proof (cases "needsSendRatchet s \<and> sp_mode s \<noteq> SckaBraid")
  case True
  with assms obtain t where "s' = t\<lparr>needsSendRatchet := False\<rparr>"
    and "(\<exists>c k. direct_ratchet_step p random now s = Inr ((c, k), t)) \<or>
      (\<exists>priv. t = s\<lparr>sckaState := (sckaState s)\<lparr>ourKyberPrivateKey := Some (bytesToBase64 priv)\<rparr>\<rparr>)"
    by (auto simp: direct_send_def and_then_eq_Inr split: prod.splits if_splits)
  then show ?thesis using direct_ratchet_step_keeps by (auto simp: spqr_update)
qed (use assms in \<open>auto simp: direct_send_def\<close>)

lemma braid_send_keeps: "braid_send p random now s = Inr (out, s') \<Longrightarrow> keeps s s'"
  by (auto simp: braid_send_def and_then_eq_Inr Let_def spqr_update split: SCKAMode.splits option.splits
      dest!: addSPQRBraidEpoch_keeps)

lemma derive_from_send_chain_forward:
  "map_of (kdfChains s) e = Some c \<Longrightarrow> derive_from_send_chain hmac s e c = Inr (k, s') \<Longrightarrow> forward s s'"
  by (auto simp: derive_from_send_chain_def and_then_eq_Inr Let_def forward_def update_conv' split: if_splits intro!: spent_fewer [of s])

lemma advance_send_epoch_forward: "or_else (sp_sendEpoch s) 0 \<le> e \<Longrightarrow> forward s (advance_send_epoch s e)"
proof -
  assume e: "or_else (sp_sendEpoch s) 0 \<le> e"
  have "map_of (kdfChains (advance_send_epoch s e)) x = Some c \<Longrightarrow>
      \<exists>d. map_of (kdfChains s) x = Some d \<and> ch_N (ec_receive d) \<le> ch_N (ec_receive c)" for x c
    by (auto simp: advance_send_epoch_def Let_def map_of_filter_keys map_of_map split: if_splits)
  moreover have "fst ` set (sp_MKSKIPPED (advance_send_epoch s e)) \<subseteq> fst ` set (sp_MKSKIPPED s)"
    by (auto simp: advance_send_epoch_def Let_def)
  ultimately have "spent s name \<Longrightarrow> spent (advance_send_epoch s e) name" for name
    using spent_fewer [of s name "advance_send_epoch s e"] by (simp add: advance_send_epoch_def Let_def)
  then show ?thesis using e by (simp add: forward_def) (simp add: advance_send_epoch_def Let_def or_else_def limits_of_def)
qed

lemma deriveSPQRSendKey_keeps:
  assumes "deriveSPQRSendKey hmac s e = Inr (k, s')" shows "keeps s s'"
proof -
  have "forward s s'" using assms
  proof (cases rule: deriveSPQRSendKey_cases)
    case (key key c r)
    have "forward s r" using key(3,4) by (simp add: advance_send_epoch_forward)
    with derive_from_send_chain_forward [OF key(5,6)] show ?thesis by (rule forward_trans [rotated])
  qed simp
  with deriveSPQRSendKey_held [OF _ assms] show ?thesis by (auto simp: keeps_def)
qed

lemma trim_fewer: "fst ` set (sp_MKSKIPPED (trimEpochSkippedKeys s e)) \<subseteq> fst ` set (sp_MKSKIPPED s)"
  by (auto simp: trimEpochSkippedKeys_def Let_def split: option.splits)

lemma trim_fewer': "sp_MKSKIPPED t = held \<Longrightarrow> fst ` set (sp_MKSKIPPED (trimEpochSkippedKeys t e)) \<subseteq> fst ` set held"
  using trim_fewer by blast

lemma trim_sendEpoch: "sp_sendEpoch (trimEpochSkippedKeys s e) = sp_sendEpoch s"
  by (auto simp: trimEpochSkippedKeys_def Let_def split: option.splits)

text \<open>Advancing a receive chain takes the key it returns, and gives back none that was taken.\<close>

lemma advance_receive_chain_forward:
  assumes c: "map_of (kdfChains s) e = Some c" "e \<le> sp_epoch s" and adv: "advance_receive_chain hmac s i e now c = Inr (k, s')"
  shows "forward s s'" and "held_ok s \<Longrightarrow> spent s' (e, i)"
proof -
  obtain ck0 ck more where n: "ch_N (ec_receive c) < i"
    and r: "receive_steps hmac (chain_next_info s) (ooo_of s) i (i - ch_N (ec_receive c)) (ch_N (ec_receive c)) ck0 None [] = Inr (Some k, ck, more)"
    and s': "s' = trimEpochSkippedKeys (s\<lparr>sp_MKSKIPPED := hold_keys e now more
         (if i > ch_N (ec_receive c) + ooo_of s then filter (\<lambda>(name, _). fst name \<noteq> e) (sp_MKSKIPPED s) else sp_MKSKIPPED s),
       kdfChains := AList.update e (c\<lparr>ec_receive := \<lparr>ch_CK = bytesToBase64 ck, ch_N = i\<rparr>\<rparr>) (kdfChains s)\<rparr>) e"
    using adv by (rule advance_receive_chain_cases)
  have more: "\<forall>j \<in> fst ` set more. ch_N (ec_receive c) < j \<and> j < i" using receive_steps_pending [OF r] n by auto
  have fewer: "fst ` set (sp_MKSKIPPED s') \<subseteq> fst ` set (hold_keys e now more
      (if i > ch_N (ec_receive c) + ooo_of s then filter (\<lambda>(name, _). fst name \<noteq> e) (sp_MKSKIPPED s) else sp_MKSKIPPED s))"
    unfolding s' by (rule trim_fewer') simp
  have names: "fst name = e \<and> ch_N (ec_receive c) < snd name \<and> snd name < i \<or> name \<in> fst ` set (sp_MKSKIPPED s)"
    if "name \<in> fst ` set (sp_MKSKIPPED s')" for name
    using subsetD [OF fewer that] more by (auto simp: hold_keys_mem split: if_splits)
  have chains: "map_of (kdfChains s') x = (if x = e then Some (c\<lparr>ec_receive := \<lparr>ch_CK = bytesToBase64 ck, ch_N = i\<rparr>\<rparr>) else map_of (kdfChains s) x)" for x
    by (simp add: s' trim_frame update_conv')
  have epoch: "sp_epoch s' = sp_epoch s" by (simp add: s' trim_frame)
  have "spent s' name" if "spent s name" for name
  proof (cases "fst name = e")
    case True
    then show ?thesis using that n c names [of name] by (force simp: spent_def chains epoch)
  next
    case False
    then show ?thesis using that names [of name] by (simp add: spent_def chains epoch) blast
  qed
  then show "forward s s'" by (auto simp: forward_def s' trim_frame trim_sendEpoch)
  assume "held_ok s"
  then have "(e, i) \<in> fst ` set (sp_MKSKIPPED s) \<Longrightarrow> i < ch_N (ec_receive c)"
    using c(1) by (fastforce simp: held_ok_def behind_def)
  with n names [of "(e, i)"] have "(e, i) \<notin> fst ` set (sp_MKSKIPPED s')" by fastforce
  then show "spent s' (e, i)" using c(2) by (simp add: spent_def chains epoch)
qed

lemma forward_delete: "forward s (s\<lparr>sp_MKSKIPPED := AList.delete name (sp_MKSKIPPED s)\<rparr>)"
  by (auto simp: forward_def spent_def delete_conv' AList.delete_eq)

lemma deriveSPQRReceiveKey_keeps:
  assumes "deriveSPQRReceiveKey hmac s i e now = Inr (k, s')" shows "keeps s s'"
proof -
  have "forward s s'" using assms
  proof (cases rule: deriveSPQRReceiveKey_cases)
    case (held h k)
    show ?thesis unfolding held(6) by (rule forward_delete)
  qed (auto intro: advance_receive_chain_forward)
  with deriveSPQRReceiveKey_held [OF _ assms] show ?thesis by (auto simp: keeps_def)
qed

text \<open>A key that was handed out is spent, and a spent key is not handed out.\<close>

lemma spent_delete: "held_ok s \<Longrightarrow> name \<in> fst ` set (sp_MKSKIPPED s) \<Longrightarrow> fst name \<le> sp_epoch s \<Longrightarrow>
    spent (s\<lparr>sp_MKSKIPPED := AList.delete name (sp_MKSKIPPED s)\<rparr>) name"
  by (auto simp: spent_def AList.delete_eq held_ok_def behind_def dest: less_imp_le)

lemma deriveSPQRReceiveKey_spends:
  assumes "held_ok s" and "deriveSPQRReceiveKey hmac s i e now = Inr (Some k, s')" shows "spent s' (e, i)"
  using assms(2)
proof (cases rule: deriveSPQRReceiveKey_cases)
  case (held h k)
  then have "(e, i) \<in> fst ` set (sp_MKSKIPPED s)" by (force dest: map_of_SomeD)
  with assms(1) show ?thesis unfolding held(6) by (intro spent_delete) (auto simp: held_ok_def behind_def)
qed (use advance_receive_chain_forward(2) assms(1) in auto)

lemma spent_not_derived:
  assumes "spent s (e, i)" shows "deriveSPQRReceiveKey hmac s i e now \<noteq> Inr (Some k, s')"
proof
  assume "deriveSPQRReceiveKey hmac s i e now = Inr (Some k, s')"
  then show False
  proof (cases rule: deriveSPQRReceiveKey_cases)
    case (held h k)
    then show ?thesis using assms by (force simp: spent_def dest: map_of_SomeD)
  next
    case (advance c k)
    from advance(7) have "ch_N (ec_receive c) < i" by (rule advance_receive_chain_cases)
    then show ?thesis using assms advance(6) by (auto simp: spent_def)
  qed simp
qed

lemma spent_not_held: "spent s (e, i) \<Longrightarrow> tryGetSkippedSPQRKey s e i = Inr (None, s)"
  by (auto simp: tryGetSkippedSPQRKey_def spent_def image_iff split: option.splits dest!: map_of_SomeD)

lemma tryGetSkippedSPQRKey_keeps:
  assumes "tryGetSkippedSPQRKey s e i = Inr (k, s')" shows "keeps s s'"
proof -
  have s': "s' = s \<or> s' = s\<lparr>sp_MKSKIPPED := AList.delete (e, i) (sp_MKSKIPPED s)\<rparr>"
    using assms by (auto simp: tryGetSkippedSPQRKey_def and_then_eq_Inr split: option.splits if_splits)
  have "held_ok s \<Longrightarrow> held_ok (s\<lparr>sp_MKSKIPPED := AList.delete (e, i) (sp_MKSKIPPED s)\<rparr>)"
    by (rule held_ok_fewer [where P = "\<lambda>(name, _). (e, i) \<noteq> name"]) (auto simp: AList.delete_eq behind_def)
  with s' show ?thesis using forward_delete by (auto simp: keeps_def)
qed

lemma receive_payload_keeps: "receive_payload p now s pqr = Inr s' \<Longrightarrow> keeps s s'"
  by (auto simp: receive_payload_def receive_direct_def receive_braid_def and_then_eq_Inr Let_def spqr_update
      split: spqr_mode.splits SCKAMode.splits option.splits if_splits
      dest!: processSPQRReceivedCiphertext_keeps addSPQRBraidEpoch_keeps)

lemma negotiate_keeps: "negotiate s v = Inr s' \<Longrightarrow> keeps s s'"
  by (auto simp: negotiate_def and_then_eq_Inr spqr_update split: option.splits if_splits)

lemma spqrSendWith_keeps:
  assumes "spqrSendWith p random now s = Inr (out, s')" shows "keeps s s'"
proof -
  obtain a b c d e t u where "direct_send p random now s = Inr (a, t)" "braid_send p random now t = Inr (b, u)"
    "deriveSPQRSendKey (sp_hmac p) u d = Inr (e, s')"
    using assms by (auto simp: spqrSendWith_def and_then_eq_Inr split: if_splits)
  then show ?thesis by (meson braid_send_keeps deriveSPQRSendKey_keeps direct_send_keeps keeps_trans)
qed

lemma spqrRecvAt_keeps:
  assumes "spqrRecvAt p now s (Some bs) = Inr (k, s')" shows "keeps s s'"
proof (cases "bs = []")
  case False
  with assms obtain pqr t u where "negotiate s (wm_version pqr) = Inr t" "receive_payload p now t pqr = Inr u"
    and "s' = u \<or> (\<exists>i e k. deriveSPQRReceiveKey (sp_hmac p) u i e now = Inr (k, s'))"
    by (fastforce simp: spqrRecvAt_def and_then_eq_Inr split: option.splits if_splits)
  then show ?thesis by (meson negotiate_keeps receive_payload_keeps deriveSPQRReceiveKey_keeps keeps_trans)
qed (use assms in \<open>simp add: spqrRecvAt_def\<close>)

lemma spqr_skipped_key_keeps:
  assumes "spqr_skipped_key hmac now s bs = Inr (k, s')" shows "keeps s s'"
proof -
  from assms consider "s' = s" | e i j t where "tryGetSkippedSPQRKey s e i = Inr (j, t)"
      "s' = t \<or> (\<exists>i e k. deriveSPQRReceiveKey hmac t i e now = Inr (k, s'))"
    by (fastforce simp: spqr_skipped_key_def and_then_eq_Inr split: option.splits if_splits)
  then show ?thesis
    by cases (simp, meson tryGetSkippedSPQRKey_keeps deriveSPQRReceiveKey_keeps keeps_trans)
qed


section \<open>Runs of one end\<close>

text \<open>
  A step of one end: it sends, receives any bytes, takes the key of a skipped message, or is stored and loaded. Nothing is
  assumed of the bytes or of the other end.
\<close>

inductive spqr_end_step :: "spqr_primitives \<Rightarrow> SPQRState \<Rightarrow> SPQRState \<Rightarrow> bool" for p where
  end_send: "spqrSendWith p random now s = Inr (out, s') \<Longrightarrow> spqr_end_step p s s'"
| end_receive: "spqrRecvAt p now s (Some bs) = Inr (key, s') \<Longrightarrow> spqr_end_step p s s'"
| end_skipped: "spqr_skipped_key (sp_hmac p) now s bs = Inr (key, s') \<Longrightarrow> spqr_end_step p s s'"
| end_reload: "spqr_end_step p s (s\<lparr>braidState := map_option drop_encoders (braidState s)\<rparr>)"

lemma spqr_end_step_keeps: "spqr_end_step p s s' \<Longrightarrow> keeps s s'"
  by (induction rule: spqr_end_step.induct)
    (auto intro: spqrSendWith_keeps spqrRecvAt_keeps spqr_skipped_key_keeps simp: spqr_update)

lemma spqr_run_keeps: "(spqr_end_step p)\<^sup>*\<^sup>* s s' \<Longrightarrow> keeps s s'"
  by (induction rule: rtranclp_induct) (auto intro: keeps_trans dest: spqr_end_step_keeps)

lemma initializeSPQR_held: "initializeSPQR hmac opts now = Inr s \<Longrightarrow> held_ok s"
  by (auto simp: initializeSPQR_def initializeSPQRBraid_def initializeSPQRState_def and_then_eq_Inr Let_def split_beta
      held_ok_def held_at_def skippedKeyTrimSize_def split: if_splits)

text \<open>
  C14. The held keys are bounded. Whatever bytes arrive, an end that was initialized by the code holds, for each epoch, fewer
  keys than the trim size, none of them twice, and each of them is behind the counter of its receive chain; neither of the
  two limits (the jump of an index and the number of keys out of order) ever changes, and neither the epoch nor the send epoch ever decreases.
\<close>

theorem spqr_held_bounded:
  assumes "initializeSPQR hmac opts now = Inr s0" and "(spqr_end_step p)\<^sup>*\<^sup>* s0 s" and "(spqr_end_step p)\<^sup>*\<^sup>* s s'"
  shows "length (filter (\<lambda>(name, _). fst name = e) (sp_MKSKIPPED s)) < skippedKeyTrimSize (maxOutOfOrderKeys (limits_of s0)) \<and>
    distinct (map fst (sp_MKSKIPPED s)) \<and>
    (\<forall>i c. (e, i) \<in> fst ` set (sp_MKSKIPPED s) \<and> map_of (kdfChains s) e = Some c \<longrightarrow> i < ch_N (ec_receive c)) \<and>
    limits_of s = limits_of s0 \<and> sp_epoch s \<le> sp_epoch s' \<and>
    or_else (sp_sendEpoch s) 0 \<le> or_else (sp_sendEpoch s') 0"
proof -
  have "held_ok s" and limits: "limits_of s = limits_of s0"
    using spqr_run_keeps [OF assms(2)] initializeSPQR_held [OF assms(1)] by (auto simp: keeps_def forward_def)
  moreover have "forward s s'" using spqr_run_keeps [OF assms(3)] by (simp add: keeps_def)
  moreover have "length (held_at s e) < skippedKeyTrimSize (ooo_of s0)" using \<open>held_ok s\<close> limits by (metis held_ok_def ooo_of_def)
  ultimately show ?thesis
    using limits by (auto simp: held_ok_def behind_def held_at_def ooo_of_def forward_def)
qed

definition sample_options :: SPQRInitOptions where
  "sample_options = \<lparr>io_mode = SckaBraid, io_initialRootKey = zeros 32, io_direction = A2B, io_ourKyberPrivateKey = None,
     io_theirKyberPublicKey = None, io_maxVersion = None, io_minVersion = None, io_spqrInfoStrings = None,
     io_spqrLimits = Some \<lparr>lim_maxMessageJump = None, lim_maxOutOfOrderKeys = Some 10\<rparr>\<rparr>"

definition sample_spqr :: spqr_primitives where
  "sample_spqr = \<lparr>sp_hmac = braid_hmac, sp_braid_kem = sample_braid_kem, ml_kem768_keygen = (\<lambda>r. (zeros 1184, zeros 2400)),
     ml_kem768_encapsulate = (\<lambda>k r. Inr (zeros 32, zeros 1088)), ml_kem768_decapsulate = (\<lambda>c k. Inr (zeros 32))\<rparr>"

text \<open>A message that gives a key: received, or taken with a skipped key.\<close>

definition gives_key :: "spqr_primitives \<Rightarrow> SPQRState \<Rightarrow> bytes \<Rightarrow> bytes \<Rightarrow> SPQRState \<Rightarrow> bool" where
  "gives_key p s bs k s' \<longleftrightarrow>
     (\<exists>now. spqrRecvAt p now s (Some bs) = Inr (Some k, s') \<or> spqr_skipped_key (sp_hmac p) now s bs = Inr (Some k, s'))"

lemma tryGetSkippedSPQRKey_spends:
  "held_ok s \<Longrightarrow> tryGetSkippedSPQRKey s e i = Inr (Some k, s') \<Longrightarrow> spent s' (e, i)"
  by (auto simp: tryGetSkippedSPQRKey_def and_then_eq_Inr held_ok_def behind_def intro!: spent_delete
      split: option.splits if_splits dest!: map_of_SomeD) (force simp: held_ok_def behind_def)+

lemma gives_key_cases:
  assumes "gives_key p s bs k s'"
  obtains m e0 e i u now where "decodeSPQRWire bs = Inr m" "wm_epoch m = Some e0" "wm_chainIndex m = Some i"
    "spqrWireEpochToInternalEpoch e0 = Inr e" "keeps s u"
    "deriveSPQRReceiveKey (sp_hmac p) u i e now = Inr (Some k, s') \<or> tryGetSkippedSPQRKey u e i = Inr (Some k, s')"
proof -
  from assms obtain now where "spqrRecvAt p now s (Some bs) = Inr (Some k, s') \<or> spqr_skipped_key (sp_hmac p) now s bs = Inr (Some k, s')"
    by (auto simp: gives_key_def)
  then show ?thesis
  proof
    assume got: "spqrRecvAt p now s (Some bs) = Inr (Some k, s')"
    then obtain m where m: "decodeSPQRWire bs = Inr m" by (auto simp: spqrRecvAt_def and_then_eq_Inr split: if_splits)
    from got m obtain e0 i where names: "wm_epoch m = Some e0" "wm_chainIndex m = Some i"
      by (cases "wm_epoch m"; cases "wm_chainIndex m") (auto simp: spqrRecvAt_def and_then_eq_Inr split: if_splits)
    from got m names obtain e t u where "spqrWireEpochToInternalEpoch e0 = Inr e" "negotiate s (wm_version m) = Inr t" "receive_payload p now t m = Inr u"
        "deriveSPQRReceiveKey (sp_hmac p) u i e now = Inr (Some k, s')"
      by (auto simp: spqrRecvAt_def and_then_eq_Inr split: if_splits)
    with m names that show ?thesis by (meson negotiate_keeps receive_payload_keeps keeps_trans)
  next
    assume got: "spqr_skipped_key (sp_hmac p) now s bs = Inr (Some k, s')"
    then obtain m where m: "decodeSPQRWire bs = Inr m" by (auto simp: spqr_skipped_key_def and_then_eq_Inr split: if_splits)
    from got m obtain e0 i where names: "wm_epoch m = Some e0" "wm_chainIndex m = Some i"
      by (cases "wm_epoch m"; cases "wm_chainIndex m") (auto simp: spqr_skipped_key_def and_then_eq_Inr split: if_splits)
    from got m names obtain e where "spqrWireEpochToInternalEpoch e0 = Inr e" and "tryGetSkippedSPQRKey s e i = Inr (Some k, s') \<or>
         (\<exists>u. tryGetSkippedSPQRKey s e i = Inr (None, u) \<and> deriveSPQRReceiveKey (sp_hmac p) u i e now = Inr (Some k, s'))"
      by (auto simp: spqr_skipped_key_def and_then_eq_Inr split: option.splits if_splits)
    with m names that show ?thesis by (meson keeps_refl tryGetSkippedSPQRKey_keeps)
  qed
qed

lemma gives_key_spends:
  assumes "held_ok s" and "gives_key p s bs k s'"
  obtains m e0 e i where "decodeSPQRWire bs = Inr m" "wm_epoch m = Some e0" "wm_chainIndex m = Some i"
    "spqrWireEpochToInternalEpoch e0 = Inr e" "spent s' (e, i)"
  using assms(2)
proof (cases rule: gives_key_cases)
  case (1 m e0 e i u now)
  then have "spent s' (e, i)"
    using assms(1) deriveSPQRReceiveKey_spends tryGetSkippedSPQRKey_spends by (auto simp: keeps_def)
  with 1 that show ?thesis by blast
qed

lemma spent_gives_no_key:
  assumes "spent s (e, i)" and "decodeSPQRWire bs = Inr m" "wm_epoch m = Some e0" "wm_chainIndex m = Some i"
    "spqrWireEpochToInternalEpoch e0 = Inr e"
  shows "\<not> gives_key p s bs k s'"
proof
  assume "gives_key p s bs k s'"
  then show False
  proof (cases rule: gives_key_cases)
    case (1 m' e0' e' i' u now)
    with assms have "spent u (e, i)" "e' = e" "i' = i" by (auto simp: keeps_def forward_def)
    with 1(6) spent_not_derived spent_not_held show ?thesis by fastforce
  qed
qed

text \<open>
  C13. A message key of the post-quantum ratchet is handed out once. When a message gave the key of an epoch and an index, no
  message of that epoch and index gives a key in any later state, received or with a skipped key: neither the same bytes
  replayed nor other bytes.
\<close>

theorem spqr_key_once:
  assumes "initializeSPQR hmac opts now = Inr s0" and "(spqr_end_step p)\<^sup>*\<^sup>* s0 s"
    and "gives_key p s bs k s'" and "(spqr_end_step p)\<^sup>*\<^sup>* s' t"
    and "decodeSPQRWire bs = Inr m" "decodeSPQRWire bs' = Inr m'" "wm_epoch m' = wm_epoch m" "wm_chainIndex m' = wm_chainIndex m"
  shows "\<not> gives_key p t bs' k' t'"
proof -
  have "held_ok s" using spqr_run_keeps [OF assms(2)] initializeSPQR_held [OF assms(1)] by (simp add: keeps_def)
  then obtain e0 e i where "wm_epoch m = Some e0" "wm_chainIndex m = Some i" "spqrWireEpochToInternalEpoch e0 = Inr e"
      and "spent s' (e, i)" using assms(3,5) by (auto elim: gives_key_spends)
  moreover from this(4) have "spent t (e, i)" using spqr_run_keeps [OF assms(4)] by (auto simp: keeps_def forward_def)
  ultimately show ?thesis using spent_gives_no_key [OF _ assms(6)] assms(7,8) by simp
qed

text \<open>The next key of a receive chain is derived.\<close>

lemma kdfChainKeySPQR_ok:
  assumes "\<And>k d. length (hmac k d) = 32" and "length ck = 32" and "n \<le> 0xffffffff"
  shows "\<exists>a b. kdfChainKeySPQR hmac ck (int n) info = Inr (a, b) \<and> length a = 32 \<and> length b = 32"
proof -
  obtain out where "hkdf hmac ck (zeros 32) (uint32_be n @ stringToBytes info) 64 = Inr out" "length out = 64"
    using hkdf_length [where hmac = hmac and len = 64, OF assms(1), of ck "zeros 32"] by auto
  with assms(2,3) show ?thesis by (simp add: kdfChainKeySPQR_def Let_def)
qed

lemma MAX_INDEX_le: "n \<le> MAX_INDEX \<Longrightarrow> n \<le> 0xffffffff"
  by (simp add: MAX_INDEX_def)

lemma receive_steps_ok:
  assumes hmac: "\<And>k d. length (hmac k d) = 32"
  shows "length ck = 32 \<Longrightarrow> n + k = index \<Longrightarrow> index \<le> 0xffffffff \<Longrightarrow>
    \<exists>key ck' more. receive_steps hmac info ooo index k n ck mk pending = Inr (if k = 0 then mk else Some key, ck', pending @ more) \<and>
      map fst more = filter (\<lambda>j. index \<le> j + ooo) [Suc n..<index]"
proof (induction k arbitrary: n ck mk pending)
  case (Suc k)
  from Suc.prems kdfChainKeySPQR_ok [where hmac = hmac and n = "n + 1" and info = info, OF hmac Suc.prems(1)] obtain ck1 key where
    key: "kdfChainKeySPQR hmac ck (int (n + 1)) info = Inr (ck1, key)" "length ck1 = 32" by auto
  show ?case
  proof (cases "k = 0")
    case True
    with key Suc.prems show ?thesis by (auto simp: Let_def simp del: of_nat_Suc of_nat_add)
  next
    case False
    define p where "p = (if n + 1 + ooo < index then pending else pending @ [(n + 1, key)])"
    have i: "n + 1 \<noteq> index" "Suc n < index" using False Suc.prems by simp_all
    from Suc.IH [of ck1 "n + 1" mk p] key False Suc.prems obtain k1 ck' more where
      r: "receive_steps hmac info ooo index k (n + 1) ck1 mk p = Inr (Some k1, ck', p @ more)"
      and more: "map fst more = filter (\<lambda>j. index \<le> j + ooo) [Suc (n + 1)..<index]" by auto
    let ?more = "if n + 1 + ooo < index then more else (n + 1, key) # more"
    have "receive_steps hmac info ooo index (Suc k) n ck mk pending = receive_steps hmac info ooo index k (n + 1) ck1 mk p"
      using key i by (simp add: p_def Let_def del: of_nat_Suc of_nat_add)
    moreover have "p @ more = pending @ ?more" by (simp add: p_def)
    moreover have "map fst ?more = filter (\<lambda>j. index \<le> j + ooo) [Suc n..<index]"
      using more i by (simp add: upt_conv_Cons)
    ultimately show ?thesis using r by auto
  qed
qed simp

lemma deriveSPQRReceiveKey_next:
  assumes hmac: "\<And>k d. length (hmac k d) = 32" and "sp_RK s \<noteq> []" "isSpqrBootstrapComplete s" "sp_MKSKIPPED s = []"
    and c: "map_of (kdfChains s) e = Some c" "ch_CK (ec_receive c) = bytesToBase64 ck" "length ck = 32"
    and "e \<le> sp_epoch s" "sp_epoch s \<le> e + 1"
    and i: "ch_N (ec_receive c) < i" "i \<le> MAX_INDEX" "i \<le> ch_N (ec_receive c) + maxMessageJump (limits_of s)"
      "i \<le> ch_N (ec_receive c) + ooo_of s"
  shows "\<exists>k s'. deriveSPQRReceiveKey hmac s i e now = Inr (Some k, s') \<and>
    fst ` set (sp_MKSKIPPED s') = {e} \<times> {ch_N (ec_receive c)<..<i}"
proof -
  let ?n = "ch_N (ec_receive c)"
  obtain key ck' more where r: "receive_steps hmac (chain_next_info s) (ooo_of s) i (i - ?n) ?n ck None [] = Inr (Some key, ck', more)"
    and "map fst more = filter (\<lambda>j. i \<le> j + ooo_of s) [Suc ?n..<i]"
    using receive_steps_ok [where hmac = hmac and n = ?n and k = "i - ?n" and index = i and pending = "[]" and mk = None
        and info = "chain_next_info s" and ooo = "ooo_of s", OF hmac c(3)] i MAX_INDEX_le by fastforce
  moreover from this(2) have "map fst more = [Suc ?n..<i]" using i by (simp add: filter_id_conv)
  ultimately have names: "fst ` set more = {?n<..<i}" by (metis atLeastSucLessThan_greaterThanLessThan list.set_map set_upt)
  define t where "t = s\<lparr>sp_MKSKIPPED := hold_keys e now more [],
      kdfChains := AList.update e (c\<lparr>ec_receive := \<lparr>ch_CK = bytesToBase64 ck', ch_N = i\<rparr>\<rparr>) (kdfChains s)\<rparr>"
  have "name \<in> fst ` set (sp_MKSKIPPED t) \<longleftrightarrow> name \<in> {e} \<times> {?n<..<i}" for name
    by (simp add: t_def hold_keys_mem names mem_Times_iff)
  then have held: "fst ` set (sp_MKSKIPPED t) = {e} \<times> {?n<..<i}" by blast
  have "filter (\<lambda>(name, _). \<not> (fst name = e \<and> snd name + ooo_of t < i)) (sp_MKSKIPPED t) = sp_MKSKIPPED t"
  proof (rule filter_True, clarify)
    fix e' j h assume "((e', j), h) \<in> set (sp_MKSKIPPED t)"
    then have "(e', j) \<in> {e} \<times> {?n<..<i}" unfolding held [symmetric] by force
    moreover assume "snd (e', j) + ooo_of t < i"
    ultimately show False using i by (simp add: t_def)
  qed
  then have "sp_MKSKIPPED (trimEpochSkippedKeys t e) = sp_MKSKIPPED t"
    using trim_held [of t e "c\<lparr>ec_receive := \<lparr>ch_CK = bytesToBase64 ck', ch_N = i\<rparr>\<rparr>"] by (simp add: t_def update_conv')
  moreover have "deriveSPQRReceiveKey hmac s i e now = Inr (Some key, trimEpochSkippedKeys t e)"
    using assms r by (auto simp: deriveSPQRReceiveKey_def validateSPQRState_def assertNotTrimmed_def isBelowTrimHorizon_def
        EPOCHS_TO_KEEP_PRIOR_TO_SEND_EPOCH_def advance_receive_chain_def Let_def ooo_of_def t_def)
  ultimately show ?thesis using held by simp
qed

text \<open>The first message of a fresh end, and its replay.\<close>

lemma initializeSPQR_first:
  assumes hmac: "\<And>k d. length (hmac k d) = 32" and "length (io_initialRootKey opts) = 32" and "io_mode opts = SckaBraid"
  shows "\<exists>s c agent sk rk. initializeSPQR hmac opts now = Inr s \<and> sp_RK s \<noteq> [] \<and> sp_mode s = SckaBraid \<and> braidState s = Some agent \<and>
    sp_MKSKIPPED s = [] \<and> sp_epoch s = 0 \<and> kdfChains s = [(0, c)] \<and> ec_receive c = fresh_chain rk \<and> ec_send c = fresh_chain sk \<and>
    length rk = 32 \<and> length sk = 32 \<and> versionNegotiation s = Some (negotiation_of opts) \<and>
    sp_limits s = Some (resolveSPQRLimits (io_spqrLimits opts))"
proof -
  obtain a where "initAuthenticatorState hmac (io_initialRootKey opts) = Inr a"
    using initAuthenticatorState_ok [where hmac = hmac, OF assms(1,2)] by blast
  moreover obtain r x y where "kdfSpqrInit hmac (io_initialRootKey opts) (chainStart (resolveSPQRInfoStrings (io_spqrInfoStrings opts))) = Inr (r, x, y)"
    "length r = 32" "length x = 32" "length y = 32"
    using spqr_kdf_ok(2) [where hmac = hmac, OF hmac assms(2,2)] by metis
  moreover from this(2) have "bytesToBase64 r \<noteq> []" by auto
  ultimately show ?thesis using assms(3)
    by (cases "io_direction opts") (auto simp: initializeSPQR_def initializeSPQRBraid_def InitAlice_def InitBob_def Let_def order_chains_def)
qed

lemma sample_options_root: "length (io_initialRootKey sample_options) = 32" "io_mode sample_options = SckaBraid"
  by (simp_all add: sample_options_def zeros_def)

lemma sample_first_message:
  assumes "0 < i" and "i \<le> 10"
  shows "\<exists>s b k s'. initializeSPQR braid_hmac sample_options 5 = Inr s \<and> decodeSPQRWire b = Inr (wire_header 1 i NoneMode) \<and>
    spqrRecvAt sample_spqr 5 s (Some b) = Inr (Some k, s') \<and> fst ` set (sp_MKSKIPPED s') = {0} \<times> {0<..<i} \<and>
    limits_of s = \<lparr>maxMessageJump = 25000, maxOutOfOrderKeys = 10\<rparr>"
proof -
  define m where "m = wire_header 1 i NoneMode"
  then have m: "wm_version m = 1" "wm_epoch m = Some 1" "wm_chainIndex m = Some i" "wm_mode m = NoneMode"
    by (simp_all add: wire_header_def)
  obtain s c agent rk sk where s: "initializeSPQR braid_hmac sample_options 5 = Inr s" "sp_RK s \<noteq> []" "sp_mode s = SckaBraid"
      "braidState s = Some agent" "sp_MKSKIPPED s = []" "sp_epoch s = 0" "kdfChains s = [(0, c)]" "ec_receive c = fresh_chain rk"
      "ec_send c = fresh_chain sk" "length rk = 32" "versionNegotiation s = Some (negotiation_of sample_options)"
      "sp_limits s = Some (resolveSPQRLimits (io_spqrLimits sample_options))"
    using initializeSPQR_first [where hmac = braid_hmac and opts = sample_options and now = 5, OF length_braid_hmac] sample_options_root
    by blast
  have limits: "limits_of s = \<lparr>maxMessageJump = 25000, maxOutOfOrderKeys = 10\<rparr>"
    by (simp add: limits_of_def s(12) sample_options_def resolveSPQRLimits_def or_else_def SPQR_LIMITS_DEFAULTS_def)
  have "\<exists>b. encodeSPQRWire m = Inr b"
    using assms by (simp add: encodeSPQRWire_eq m or_else_def UINT32_MAX_def UINT64_MAX_def)
  then obtain b where b: "encodeSPQRWire m = Inr b" by blast
  have d: "decodeSPQRWire b = Inr m"
    using spqr_wire_decode [OF b, of "[]"] by (simp add: kyber_sizes_def m_def wire_header_def wire_normal_def or_else_def Let_def)
  have "b \<noteq> []" using b by (auto simp: encodeSPQRWire_eq)
  let ?v = "(negotiation_of sample_options)\<lparr>vn_status := Complete, vn_negotiatedVersion := Some V1, vn_peerVersion := Some V1\<rparr>"
  let ?s = "s\<lparr>versionNegotiation := Some ?v\<rparr>"
  have "\<exists>k s'. deriveSPQRReceiveKey braid_hmac ?s i 0 5 = Inr (Some k, s') \<and>
      fst ` set (sp_MKSKIPPED s') = {0} \<times> {ch_N (ec_receive c)<..<i}"
    by (rule deriveSPQRReceiveKey_next [where hmac = braid_hmac and ck = rk, OF length_braid_hmac])
      (use assms in \<open>simp_all add: s limits isSpqrBootstrapComplete_def isVersionNegotiationComplete_def fresh_chain_def MAX_INDEX_def ooo_of_def\<close>)
  then obtain k s' where "spqrRecvAt sample_spqr 5 s (Some b) = Inr (Some k, s')" "fst ` set (sp_MKSKIPPED s') = {0} \<times> {0<..<i}"
    using d \<open>b \<noteq> []\<close> assms by (auto simp: s m spqrRecvAt_def negotiate_def processVersionFromByte_def processVersionCapability_def
        receive_payload_def negotiation_of_def initVersionNegotiation_def sample_options_def or_else_def
        spqrWireEpochToInternalEpoch_def assertUint64_def bigintToSafeNumber_def sample_spqr_def fresh_chain_def UINT64_MAX_def
        MAX_SAFE_INTEGER_BIGINT_def)
  with s(1) d limits show ?thesis unfolding m_def by blast
qed

theorem spqr_key_once_witness:
  "\<exists>s b k s'. initializeSPQR braid_hmac sample_options 5 = Inr s \<and> gives_key sample_spqr s b k s' \<and>
     (\<forall>k' t. \<not> gives_key sample_spqr s' b k' t)"
proof -
  obtain s b k s' where s: "initializeSPQR braid_hmac sample_options 5 = Inr s" and d: "decodeSPQRWire b = Inr (wire_header 1 1 NoneMode)"
    and "spqrRecvAt sample_spqr 5 s (Some b) = Inr (Some k, s')"
    using sample_first_message [of 1] by auto
  then have k: "gives_key sample_spqr s b k s'" by (auto simp: gives_key_def)
  with spqr_key_once [OF s rtranclp.rtrancl_refl k rtranclp.rtrancl_refl d d] s show ?thesis by blast
qed

text \<open>An end whose first message has the index 3 holds the keys of the indices 1 and 2.\<close>

theorem spqr_held_bounded_witness:
  "\<exists>s0 s. initializeSPQR braid_hmac sample_options 5 = Inr s0 \<and> (spqr_end_step sample_spqr)\<^sup>*\<^sup>* s0 s \<and>
     fst ` set (sp_MKSKIPPED s) = {(0, 1), (0, 2)} \<and>
     length (filter (\<lambda>(name, _). fst name = 0) (sp_MKSKIPPED s)) < skippedKeyTrimSize 10 \<and>
     limits_of s = \<lparr>maxMessageJump = 25000, maxOutOfOrderKeys = 10\<rparr>"
proof -
  obtain s0 b k s where s0: "initializeSPQR braid_hmac sample_options 5 = Inr s0"
    and "spqrRecvAt sample_spqr 5 s0 (Some b) = Inr (Some k, s)" and held: "fst ` set (sp_MKSKIPPED s) = {0} \<times> {0<..<3}"
    and limits: "limits_of s0 = \<lparr>maxMessageJump = 25000, maxOutOfOrderKeys = 10\<rparr>"
    using sample_first_message [of 3] by auto
  then have run: "(spqr_end_step sample_spqr)\<^sup>*\<^sup>* s0 s" by (blast intro: end_receive)
  have "{0} \<times> {0<..<3} = {(0, 1), (0, 2 :: nat)}" by force
  with held have "fst ` set (sp_MKSKIPPED s) = {(0, 1), (0, 2)}" by simp
  moreover have "length (filter (\<lambda>(name, _). fst name = 0) (sp_MKSKIPPED s)) < skippedKeyTrimSize 10"
    and "limits_of s = \<lparr>maxMessageJump = 25000, maxOutOfOrderKeys = 10\<rparr>"
    using spqr_held_bounded [where e = 0, OF s0 run rtranclp.rtrancl_refl] limits by simp_all
  ultimately show ?thesis using s0 run by blast
qed

end
