(* ===== verification/Spqr_Batch.thy ===== *)
theory Spqr_Batch
  imports Spqr_Keys
begin

text \<open>
  The batch interface of the braid (internal/protocol/spqr/braid.ts): the shape of what the machine sends, and the states
  from which the loop of \<open>spqrBraidSend\<close> returns.
\<close>

section \<open>What the machine sends\<close>

text \<open>A chunk with its index, an acknowledgement, or nothing.\<close>

definition sends_chunk :: "SendResult \<Rightarrow> bool" where
  "sends_chunk r \<longleftrightarrow> bm_type (sent_message r) \<notin> {NoPayload, Ct1Ack} \<and>
     (\<exists>i d. bm_chunkIndex (sent_message r) = Some (int i) \<and> bm_data (sent_message r) = Some d)"

definition sends_bare :: "BraidMessageType \<Rightarrow> SendResult \<Rightarrow> bool" where
  "sends_bare t r \<longleftrightarrow> bm_type (sent_message r) = t \<and> bm_chunkIndex (sent_message r) = None \<and> bm_data (sent_message r) = None \<and>
     sent_key r = None"

lemma braid_Send_epoch:
  assumes "braid_Send hmac kem random s = Inr (s', r)"
  shows "sending_epoch r = braid_epoch s \<and> bm_epoch (sent_message r) = braid_epoch s \<and> braid_epoch s' = braid_epoch s"
  using assms
  by (auto simp: braid_Send_def sendAlice_def sendBob_def aliceSendFromKeysUnsampled_def aliceSendHeaderChunk_def
      aliceSendEkChunk_def bobSendFromHeaderReceived_def bobSendCt1Chunk_def bobSendFromCt2Sampled_def
      send_result_def chunk_message_def bare_message_def transition_def and_then_eq_Inr Let_def
      split: if_splits MLKEMBraidState.splits option.splits)

lemma braid_Send_shape:
  assumes "braid_Send hmac kem random s = Inr (s', r)"
  shows "(if braid_state s = EkSentCt1Received then s' = s \<and> sends_bare Ct1Ack r
     else braid_state s' \<noteq> EkSentCt1Received \<and>
       (if braid_state s \<in> {NoHeaderReceived, Ct1Acknowledged} then s' = s \<and> sends_bare NoPayload r else sends_chunk r))"
  using assms
  by (cases "braid_state s")
    (auto simp: braid_Send_def ALICE_STATES_def sendAlice_def sendBob_def aliceSendFromKeysUnsampled_def aliceSendHeaderChunk_def
      aliceSendEkChunk_def bobSendFromHeaderReceived_def bobSendCt1Chunk_def bobSendFromCt2Sampled_def
      send_result_def chunk_message_def bare_message_def transition_def STATE_TRANSITIONS_def and_then_eq_Inr Let_def
      sends_chunk_def sends_bare_def split: option.splits)

section \<open>The loop\<close>

text \<open>Each round that goes on has added a chunk, unless the machine waits for the second ciphertext.\<close>

lemma braid_send_loop_returns:
  "braid_state agent \<noteq> EkSentCt1Received \<Longrightarrow> MAX_CHUNKS_PER_SEND - length out \<le> n \<Longrightarrow> 0 < n \<Longrightarrow>
   braid_send_loop p random n agent out key \<noteq> None"
proof (induction n arbitrary: agent out key)
  case (Suc n)
  show ?case
  proof (cases "braid_Send (sp_hmac p) (sp_braid_kem p) (random n) agent")
    case (Inr x)
    obtain a r where x: "x = (a, r)" by (cases x)
    from braid_Send_shape [OF Inr [unfolded x]] Suc.prems(1) have a: "braid_state a \<noteq> EkSentCt1Received"
      and r: "sends_bare NoPayload r \<or> sends_chunk r" by (auto split: if_splits)
    from r show ?thesis
    proof
      assume "sends_chunk r"
      then obtain d where "bm_type (sent_message r) \<noteq> NoPayload" "bm_data (sent_message r) = Some d" by (auto simp: sends_chunk_def)
      with Suc.IH [OF a, of "out @ [sent_message r]"] Suc.prems(2) show ?thesis by (auto simp: Inr x Let_def)
    qed (auto simp: Inr x sends_bare_def Let_def)
  qed simp
qed simp

text \<open>The acknowledgement carries no data, so no chunk is counted and the loop goes round.\<close>

lemma braid_send_loop_stuck:
  "braid_state agent = EkSentCt1Received \<Longrightarrow> length out < MAX_CHUNKS_PER_SEND \<Longrightarrow> braid_send_loop p random n agent out key = None"
proof (induction n arbitrary: key)
  case (Suc n)
  then show ?case
    by (auto simp: braid_Send_def ALICE_STATES_def sendAlice_def send_result_def bare_message_def Let_def split: sum.splits)
qed simp

lemma spqrBraidSend_returns:
  "spqrBraidSend p random (MAX_CHUNKS_PER_SEND + n) s = None \<longleftrightarrow>
   sp_mode s = SckaBraid \<and> (\<exists>agent. braidState s = Some agent \<and> braid_state agent = EkSentCt1Received)"
proof (cases "sp_mode s = SckaBraid \<and> braidState s \<noteq> None")
  case True
  then obtain agent where agent: "sp_mode s = SckaBraid" "braidState s = Some agent" by auto
  have fuel: "MAX_CHUNKS_PER_SEND - length [] \<le> MAX_CHUNKS_PER_SEND + n" "0 < MAX_CHUNKS_PER_SEND + n" "length [] < MAX_CHUNKS_PER_SEND"
    by (simp_all add: MAX_CHUNKS_PER_SEND_def)
  have "braid_send_loop p random (MAX_CHUNKS_PER_SEND + n) agent [] None = None \<longleftrightarrow> braid_state agent = EkSentCt1Received"
    using braid_send_loop_returns [OF _ fuel(1,2)] braid_send_loop_stuck [OF _ fuel(3)] by blast
  then show ?thesis by (simp add: spqrBraidSend_def agent)
qed (auto simp: spqrBraidSend_def split: option.splits)

text \<open>The ratchet step of the public interface: a batch in braid mode, one encapsulation in direct mode.\<close>

record SPQRRatchetResult =
  kyberCiphertextToSend :: "bytes option"
  kyberPublicKeyToSend :: "bytes option"
  braidChunks :: "MLKEMBraidMessage list option"
  rr_outputKey :: "OutputKey option"

definition performSPQRRatchetStep ::
    "spqr_primitives \<Rightarrow> (nat \<Rightarrow> nat \<Rightarrow> bytes) \<Rightarrow> int \<Rightarrow> nat \<Rightarrow> SPQRState \<Rightarrow> (SPQRState \<times> SPQRRatchetResult) result option" where
  "performSPQRRatchetStep p random now fuel s =
     (case validateSPQRState s of
        Inl e \<Rightarrow> Some (Inl e)
      | Inr _ \<Rightarrow>
          if sp_mode s = SckaBraid
          then map_option (\<lambda>r. and_then r (\<lambda>(s, b). Inr (s, \<lparr>kyberCiphertextToSend = None, kyberPublicKeyToSend = None,
                 braidChunks = Some (cr_chunks b), rr_outputKey = cr_outputKey b\<rparr>))) (spqrBraidSend p random fuel s)
          else Some (and_then (direct_ratchet_step p (random 0) now s) (\<lambda>((c, k), s).
                 Inr (s, \<lparr>kyberCiphertextToSend = Some c, kyberPublicKeyToSend = Some k, braidChunks = None,
                   rr_outputKey = None\<rparr>))))"

text \<open>
  C16. Termination of the batch interface. With fuel for \<open>MAX_CHUNKS_PER_SEND\<close> rounds or more, \<open>spqrBraidSend\<close>, and
  \<open>performSPQRRatchetStep\<close> which calls it, return (a batch or an error) in every state but one: in braid mode, when the machine has sent its key and waits for the second
  ciphertext, the loop never ends, whatever the fuel, because the acknowledgement that it sends has a type but no data.
\<close>

theorem spqr_batch_returns:
  "(spqrBraidSend p random (MAX_CHUNKS_PER_SEND + n) s = None \<longleftrightarrow>
    sp_mode s = SckaBraid \<and> (\<exists>agent. braidState s = Some agent \<and> braid_state agent = EkSentCt1Received)) \<and>
   (performSPQRRatchetStep p random now (MAX_CHUNKS_PER_SEND + n) s = None \<longleftrightarrow>
    sp_RK s \<noteq> [] \<and> sp_mode s = SckaBraid \<and> (\<exists>agent. braidState s = Some agent \<and> braid_state agent = EkSentCt1Received))"
  by (auto simp: spqrBraidSend_returns performSPQRRatchetStep_def validateSPQRState_def throw_if_def)

end
