(* ===== verification/Spqr_Ends.thy ===== *)
theory Spqr_Ends
  imports Spqr_Batch
begin

text \<open>
  The message keys of the post-quantum ratchet as functions of the initial root key and of the epoch secrets, and the
  invariant that ties the state of one end to them.
\<close>

section \<open>The keys an end should have\<close>

definition the_right :: "'e + 'a \<Rightarrow> 'a" where "the_right r = (case r of Inr x \<Rightarrow> x | Inl _ \<Rightarrow> undefined)"

lemma the_right_Inr [simp]: "the_right (Inr x) = x" by (simp add: the_right_def)

text \<open>The chain key after \<open>n\<close> messages, and the key of message \<open>n\<close>.\<close>

primrec chain_at :: "hmac_fun \<Rightarrow> js_string \<Rightarrow> bytes \<Rightarrow> nat \<Rightarrow> bytes" where
  "chain_at hmac info seed 0 = seed"
| "chain_at hmac info seed (Suc n) = fst (the_right (kdfChainKeySPQR hmac (chain_at hmac info seed n) (int (Suc n)) info))"

definition key_at :: "hmac_fun \<Rightarrow> js_string \<Rightarrow> bytes \<Rightarrow> nat \<Rightarrow> bytes" where
  "key_at hmac info seed n = snd (the_right (kdfChainKeySPQR hmac (chain_at hmac info seed (n - 1)) (int n) info))"

lemma kdfChainKeySPQR_at:
  "kdfChainKeySPQR hmac (chain_at hmac info seed n) (int (Suc n)) info = Inr (ck, mk) \<Longrightarrow>
   ck = chain_at hmac info seed (Suc n) \<and> mk = key_at hmac info seed (Suc n)"
  by (simp add: key_at_def)

text \<open>Root key and the chain seeds of both directions, after the epoch secrets \<open>ks\<close>.\<close>

definition epoch_seeds :: "hmac_fun \<Rightarrow> ResolvedSPQRInfoStrings \<Rightarrow> bytes \<Rightarrow> OutputKey list \<Rightarrow> bytes \<times> bytes \<times> bytes" where
  "epoch_seeds hmac info secret ks =
     fold (\<lambda>k (r, _). the_right (kdfSpqrEpoch hmac (epoch_secret k) r (chainAddEpoch info))) ks
       (the_right (kdfSpqrInit hmac secret (chainStart info)))"

lemma epoch_seeds_Nil: "kdfSpqrInit hmac secret (chainStart info) = Inr x \<Longrightarrow> epoch_seeds hmac info secret [] = x"
  by (simp add: epoch_seeds_def)

lemma epoch_seeds_snoc:
  "kdfSpqrEpoch hmac (epoch_secret k) (fst (epoch_seeds hmac info secret ks)) (chainAddEpoch info) = Inr x \<Longrightarrow>
   epoch_seeds hmac info secret (ks @ [k]) = x"
  by (simp add: epoch_seeds_def split_beta)

definition send_seed :: "hmac_fun \<Rightarrow> ResolvedSPQRInfoStrings \<Rightarrow> bytes \<Rightarrow> Direction \<Rightarrow> OutputKey list \<Rightarrow> bytes" where
  "send_seed hmac info secret d ks = (case epoch_seeds hmac info secret ks of (_, a2b, b2a) \<Rightarrow> fst (order_chains d a2b b2a))"

definition receive_seed :: "hmac_fun \<Rightarrow> ResolvedSPQRInfoStrings \<Rightarrow> bytes \<Rightarrow> Direction \<Rightarrow> OutputKey list \<Rightarrow> bytes" where
  "receive_seed hmac info secret d ks = (case epoch_seeds hmac info secret ks of (_, a2b, b2a) \<Rightarrow> snd (order_chains d a2b b2a))"

lemma seeds_cross:
  "receive_seed hmac info secret B2A ks = send_seed hmac info secret A2B ks"
  "receive_seed hmac info secret A2B ks = send_seed hmac info secret B2A ks"
  by (simp_all add: send_seed_def receive_seed_def order_chains_def split: prod.splits)

section \<open>The invariant of one end\<close>

text \<open>A chain that started from the seed.\<close>

definition chain_from :: "hmac_fun \<Rightarrow> js_string \<Rightarrow> bytes \<Rightarrow> KDFChain \<Rightarrow> bool" where
  "chain_from hmac info seed c \<longleftrightarrow> ch_CK c = bytesToBase64 (chain_at hmac info seed (ch_N c))"

lemma fresh_chain_from [simp]: "chain_from hmac info seed (fresh_chain seed)"
  by (simp add: chain_from_def fresh_chain_def)

lemma chain_from_at [simp]: "chain_from hmac info seed \<lparr>ch_CK = bytesToBase64 (chain_at hmac info seed n), ch_N = n\<rparr>"
  by (simp add: chain_from_def)

text \<open>The chains of epoch \<open>e\<close>; a send chain may have been cleared.\<close>

definition chains_from :: "hmac_fun \<Rightarrow> ResolvedSPQRInfoStrings \<Rightarrow> bytes \<Rightarrow> Direction \<Rightarrow> OutputKey list \<Rightarrow> EpochChains \<Rightarrow> bool" where
  "chains_from hmac info secret d ks c \<longleftrightarrow>
     (ch_CK (ec_send c) = ZEROED_CHAIN_KEY \<or> chain_from hmac (chainNext info) (send_seed hmac info secret d ks) (ec_send c)) \<and>
     chain_from hmac (chainNext info) (receive_seed hmac info secret d ks) (ec_receive c)"

definition chains_ok :: "hmac_fun \<Rightarrow> ResolvedSPQRInfoStrings \<Rightarrow> bytes \<Rightarrow> Direction \<Rightarrow> OutputKey list \<Rightarrow> (nat \<rightharpoonup> EpochChains) \<Rightarrow> bool" where
  "chains_ok hmac info secret d ks m \<longleftrightarrow> (\<forall>e c. m e = Some c \<longrightarrow> e \<le> length ks \<and> chains_from hmac info secret d (take e ks) c)"

definition skipped_ok ::
    "hmac_fun \<Rightarrow> ResolvedSPQRInfoStrings \<Rightarrow> bytes \<Rightarrow> Direction \<Rightarrow> OutputKey list \<Rightarrow> (nat \<times> nat \<rightharpoonup> SkippedSPQRKey) \<Rightarrow> bool" where
  "skipped_ok hmac info secret d ks m \<longleftrightarrow> (\<forall>e n h. m (e, n) = Some h \<longrightarrow> e \<le> length ks \<and>
     sk_key h = bytesToBase64 (key_at hmac (chainNext info) (receive_seed hmac info secret d (take e ks)) n))"

text \<open>The end of direction \<open>d\<close> with the machine \<open>agent\<close>, after the epoch secrets \<open>ks\<close>.\<close>

definition end_ok ::
    "hmac_fun \<Rightarrow> ResolvedSPQRInfoStrings \<Rightarrow> bytes \<Rightarrow> Direction \<Rightarrow> OutputKey list \<Rightarrow> MLKEMBraidAgentState \<Rightarrow> SPQRState \<Rightarrow> bool" where
  "end_ok hmac info secret d ks agent s \<longleftrightarrow> sp_mode s = SckaBraid \<and> braidState s = Some agent \<and> sp_infoStrings s = Some info \<and>
     versionNegotiation s \<noteq> None \<and> sp_direction s = d \<and> sp_epoch s = length ks \<and> sp_RK s = bytesToBase64 (fst (epoch_seeds hmac info secret ks)) \<and>
     chains_ok hmac info secret d ks (map_of (kdfChains s)) \<and> skipped_ok hmac info secret d ks (map_of (sp_MKSKIPPED s))"

lemma end_ok_info:
  "end_ok hmac info secret d ks agent s \<Longrightarrow> chain_add_info s = chainAddEpoch info \<and> chain_next_info s = chainNext info"
  by (simp add: end_ok_def chain_add_info_def chain_next_info_def)

lemma end_ok_update [spqr_update]:
  "end_ok hmac info secret d ks agent (s\<lparr>needsSendRatchet := b\<rparr>) = end_ok hmac info secret d ks agent s"
  "end_ok hmac info secret d ks agent (s\<lparr>sckaState := a\<rparr>) = end_ok hmac info secret d ks agent s"
  by (simp_all add: end_ok_def)

lemma end_ok_negotiated: "end_ok hmac info secret d ks agent s \<Longrightarrow> end_ok hmac info secret d ks agent (s\<lparr>versionNegotiation := Some v\<rparr>)"
  by (simp add: end_ok_def)

lemma end_ok_agent: "end_ok hmac info secret d ks agent s \<Longrightarrow> end_ok hmac info secret d ks agent' (s\<lparr>braidState := Some agent'\<rparr>)"
  by (simp add: end_ok_def)

text \<open>Fewer held keys, or an update of one chain.\<close>

lemma end_ok_skipped:
  "end_ok hmac info secret d ks agent s \<Longrightarrow> skipped_ok hmac info secret d ks (map_of held) \<Longrightarrow>
   end_ok hmac info secret d ks agent (s\<lparr>sp_MKSKIPPED := held\<rparr>)"
  by (simp add: end_ok_def)

lemma skipped_ok_le: "skipped_ok hmac info secret d ks m \<Longrightarrow> m' \<subseteq>\<^sub>m m \<Longrightarrow> skipped_ok hmac info secret d ks m'"
  unfolding skipped_ok_def map_le_def by (metis domI)

lemma map_of_filter_fst: "map_of (filter (\<lambda>(name, _). P name) al) x = (if P x then map_of al x else None)"
  by (induction al) auto

lemma filter_fst_le: "map_of (filter (\<lambda>(name, _). P name) al) \<subseteq>\<^sub>m map_of al"
  by (auto simp: map_le_def map_of_filter_fst split: if_splits)

lemma delete_le: "map_of (AList.delete x al) \<subseteq>\<^sub>m map_of al"
  by (auto simp: map_le_def delete_conv')

lemma end_ok_chains:
  "end_ok hmac info secret d ks agent s \<Longrightarrow> chains_ok hmac info secret d ks (map_of cs) \<Longrightarrow>
   end_ok hmac info secret d ks agent (s\<lparr>kdfChains := cs\<rparr>)"
  by (simp add: end_ok_def)

lemma chains_ok_update:
  "chains_ok hmac info secret d ks m \<Longrightarrow> e \<le> length ks \<Longrightarrow> chains_from hmac info secret d (take e ks) c \<Longrightarrow>
   chains_ok hmac info secret d ks (m(e \<mapsto> c))"
  by (simp add: chains_ok_def)


section \<open>The operations keep it\<close>

lemma initializeSPQR_end:
  assumes "initializeSPQR hmac opts now = Inr s" and "io_mode opts = SckaBraid"
  shows "\<exists>agent. (if io_direction opts = A2B then InitAlice else InitBob) hmac (io_initialRootKey opts) = Inr agent \<and>
    end_ok hmac (resolveSPQRInfoStrings (io_spqrInfoStrings opts)) (io_initialRootKey opts) (io_direction opts) [] agent s"
proof -
  let ?info = "resolveSPQRInfoStrings (io_spqrInfoStrings opts)"
  from assms obtain agent r x y where agent: "(if io_direction opts = A2B then InitAlice else InitBob) hmac (io_initialRootKey opts) = Inr agent"
    and k: "kdfSpqrInit hmac (io_initialRootKey opts) (chainStart ?info) = Inr (r, x, y)"
    by (auto simp: initializeSPQR_def initializeSPQRBraid_def and_then_eq_Inr Let_def)
  note seeds = epoch_seeds_Nil [where hmac = hmac, OF k]
  obtain a b where o: "order_chains (io_direction opts) x y = (a, b)" by (cases "order_chains (io_direction opts) x y")
  have s: "sp_mode s = SckaBraid" "braidState s = Some agent" "sp_infoStrings s = Some ?info" "versionNegotiation s \<noteq> None" "sp_direction s = io_direction opts"
      "sp_epoch s = 0" "sp_RK s = bytesToBase64 r" "sp_MKSKIPPED s = []"
      "kdfChains s = [(0, \<lparr>ec_send = fresh_chain a, ec_receive = fresh_chain b\<rparr>)]"
    using assms agent k o by (auto simp: initializeSPQR_def initializeSPQRBraid_def Let_def)
  have "send_seed hmac ?info (io_initialRootKey opts) (io_direction opts) [] = a"
    "receive_seed hmac ?info (io_initialRootKey opts) (io_direction opts) [] = b"
    by (simp_all add: send_seed_def receive_seed_def seeds o)
  then have "end_ok hmac ?info (io_initialRootKey opts) (io_direction opts) [] agent s"
    by (simp add: end_ok_def s seeds chains_ok_def skipped_ok_def chains_from_def)
  with agent show ?thesis by blast
qed

text \<open>The next epoch secret.\<close>

lemma take_snoc_le: "e \<le> length ks \<Longrightarrow> take e (ks @ [k]) = take e ks"
  by simp

lemma chains_ok_snoc: "chains_ok hmac info secret d ks m \<Longrightarrow> chains_ok hmac info secret d (ks @ [k]) m"
  by (simp add: chains_ok_def le_SucI)

lemma skipped_ok_snoc: "skipped_ok hmac info secret d ks m \<Longrightarrow> skipped_ok hmac info secret d (ks @ [k]) m"
  by (simp add: skipped_ok_def le_SucI)

lemma addSPQRBraidEpoch_end:
  assumes s: "end_ok hmac info secret d ks agent s" and add: "addSPQRBraidEpoch hmac s k BothChains now = Inr s'"
  shows "end_ok hmac info secret d (ks @ [k]) agent s' \<and> ok_epoch k = Suc (length ks)"
proof -
  let ?root = "fst (epoch_seeds hmac info secret ks)"
  from s have f: "sp_epoch s = length ks" "sp_RK s = bytesToBase64 ?root" "sp_direction s = d" "chain_add_info s = chainAddEpoch info"
    and ch: "chains_ok hmac info secret d ks (map_of (kdfChains s))" and sk: "skipped_ok hmac info secret d ks (map_of (sp_MKSKIPPED s))"
    by (auto simp: end_ok_def chain_add_info_def)
  from add f obtain r x y where k: "ok_epoch k = Suc (length ks)" "kdfSpqrEpoch hmac (epoch_secret k) ?root (chainAddEpoch info) = Inr (r, x, y)"
    and s': "s' = s\<lparr>sp_RK := bytesToBase64 r, kdfChains := AList.update (Suc (length ks)) \<lparr>ec_send = fresh_chain (fst (order_chains d x y)),
        ec_receive = fresh_chain (snd (order_chains d x y))\<rparr> (kdfChains s), sp_epoch := Suc (length ks),
        sckaState := (sckaState s)\<lparr>sc_epoch := Suc (length ks), lastRefreshTimestamp := now\<rparr>\<rparr>"
    by (auto simp: addSPQRBraidEpoch_def addSPQREpochSecret_def getNextSPQREpoch_def and_then_eq_Inr Let_def split_beta split: if_splits)
  note seeds = epoch_seeds_snoc [OF k(2)]
  have "chains_from hmac info secret d (take (Suc (length ks)) (ks @ [k]))
      \<lparr>ec_send = fresh_chain (fst (order_chains d x y)), ec_receive = fresh_chain (snd (order_chains d x y))\<rparr>"
    by (simp add: chains_from_def send_seed_def receive_seed_def seeds)
  then have "chains_ok hmac info secret d (ks @ [k]) (map_of (kdfChains s'))"
    unfolding s' by (simp add: update_conv' chains_ok_update [OF chains_ok_snoc [OF ch]])
  with s sk k(1) show ?thesis by (simp add: end_ok_def s' seeds skipped_ok_snoc)
qed

text \<open>A send key is the key of its index.\<close>

lemma chains_from_cleared:
  "chains_from hmac info secret d ks c \<Longrightarrow> chains_from hmac info secret d ks (c\<lparr>ec_send := \<lparr>ch_CK = ZEROED_CHAIN_KEY, ch_N = 0\<rparr>\<rparr>)"
  by (simp add: chains_from_def)

lemma advance_send_epoch_end:
  assumes "end_ok hmac info secret d ks agent s" shows "end_ok hmac info secret d ks agent (advance_send_epoch s e)"
proof -
  have "chains_ok hmac info secret d ks (map_of (kdfChains (advance_send_epoch s e)))"
    using assms by (auto simp: end_ok_def advance_send_epoch_def Let_def chains_ok_def map_of_filter_keys chains_from_cleared split: if_splits)
  moreover have "skipped_ok hmac info secret d ks (map_of (sp_MKSKIPPED (advance_send_epoch s e)))"
    using assms skipped_ok_le [OF _ filter_fst_le] by (fastforce simp: end_ok_def advance_send_epoch_def Let_def)
  ultimately show ?thesis using assms by (simp add: end_ok_def advance_send_epoch_def Let_def)
qed

lemma derive_from_send_chain_end:
  assumes s: "end_ok hmac info secret d ks agent s" and c: "map_of (kdfChains s) e = Some c"
    and k: "derive_from_send_chain hmac s e c = Inr (r, s')"
  shows "end_ok hmac info secret d ks agent s'" and "e \<le> length ks" and "kr_epoch r = e" and "1 \<le> kr_index r" and "kr_index r \<le> MAX_INDEX"
    and "kr_messageKey r = key_at hmac (chainNext info) (send_seed hmac info secret d (take e ks)) (kr_index r)"
proof -
  let ?seed = "send_seed hmac info secret d (take e ks)" and ?n = "ch_N (ec_send c)"
  from s c have e: "e \<le> length ks" "chains_from hmac info secret d (take e ks) c" and i: "chain_next_info s = chainNext info"
    and ch: "chains_ok hmac info secret d ks (map_of (kdfChains s))"
    by (auto simp: end_ok_def chains_ok_def chain_next_info_def)
  from k have z: "ch_CK (ec_send c) \<noteq> ZEROED_CHAIN_KEY" "?n < MAX_INDEX"
    by (auto simp: derive_from_send_chain_def Let_def split: if_splits)
  with e(2) have ck: "ch_CK (ec_send c) = bytesToBase64 (chain_at hmac (chainNext info) ?seed ?n)"
    by (simp add: chains_from_def chain_from_def)
  from k z obtain ck' mk where km: "kdfChainKeySPQR hmac (chain_at hmac (chainNext info) ?seed ?n) (int (Suc ?n)) (chainNext info) = Inr (ck', mk)"
    and r: "r = \<lparr>kr_messageKey = mk, kr_index = Suc ?n, kr_epoch = e\<rparr>"
    and s': "s' = s\<lparr>kdfChains := AList.update e (c\<lparr>ec_send := \<lparr>ch_CK = bytesToBase64 ck', ch_N = Suc ?n\<rparr>\<rparr>) (kdfChains s)\<rparr>"
    by (auto simp: derive_from_send_chain_def Let_def ck i and_then_eq_Inr)
  note at = kdfChainKeySPQR_at [OF km]
  show "end_ok hmac info secret d ks agent s'"
    unfolding s' using e at chains_ok_update [OF ch e(1)]
    by (intro end_ok_chains [OF s]) (simp add: update_conv' chains_from_def chain_from_def del: chain_at.simps)
  show "e \<le> length ks" "kr_epoch r = e" "1 \<le> kr_index r" "kr_index r \<le> MAX_INDEX" "kr_messageKey r = key_at hmac (chainNext info) ?seed (kr_index r)"
    using e z at by (simp_all add: r)
qed

lemma deriveSPQRSendKey_end:
  assumes s: "end_ok hmac info secret d ks agent s" and k: "deriveSPQRSendKey hmac s epoch = Inr (k, s')"
  shows "end_ok hmac info secret d ks agent s'"
    and "k = Some r \<Longrightarrow> kr_epoch r = or_else epoch (length ks) \<and> kr_epoch r \<le> length ks \<and> 1 \<le> kr_index r \<and> kr_index r \<le> MAX_INDEX \<and>
      kr_messageKey r = key_at hmac (chainNext info) (send_seed hmac info secret d (take (kr_epoch r) ks)) (kr_index r)"
proof -
  have "end_ok hmac info secret d ks agent s' \<and> (\<forall>r. k = Some r \<longrightarrow> kr_epoch r = or_else epoch (length ks) \<and> kr_epoch r \<le> length ks \<and>
      1 \<le> kr_index r \<and> kr_index r \<le> MAX_INDEX \<and>
      kr_messageKey r = key_at hmac (chainNext info) (send_seed hmac info secret d (take (kr_epoch r) ks)) (kr_index r))"
    using k
  proof (cases rule: deriveSPQRSendKey_cases)
    case bootstrap
    with s show ?thesis by simp
  next
    case (key key c r)
    have "sp_epoch s = length ks" using s by (simp add: end_ok_def)
    moreover have "end_ok hmac info secret d ks agent r" using s key(4) by (simp add: advance_send_epoch_end)
    from derive_from_send_chain_end [OF this key(5,6)] key(1) calculation show ?thesis by simp
  qed
  then show "end_ok hmac info secret d ks agent s'"
    "k = Some r \<Longrightarrow> kr_epoch r = or_else epoch (length ks) \<and> kr_epoch r \<le> length ks \<and> 1 \<le> kr_index r \<and> kr_index r \<le> MAX_INDEX \<and>
      kr_messageKey r = key_at hmac (chainNext info) (send_seed hmac info secret d (take (kr_epoch r) ks)) (kr_index r)" by auto
qed

text \<open>The loop over the receive chain gives the key of the index, the chain key after it and the keys to hold.\<close>

lemma receive_steps_keys:
  assumes "receive_steps hmac info ooo index k n (chain_at hmac info seed n) mk pending = Inr (mk', ck', pending')"
    and "\<forall>(j, key) \<in> set pending. key = key_at hmac info seed j" and "\<And>x. mk = Some x \<Longrightarrow> x = key_at hmac info seed index"
  shows "ck' = chain_at hmac info seed (n + k)" and "\<forall>(j, key) \<in> set pending'. key = key_at hmac info seed j"
    and "mk' = Some x \<Longrightarrow> x = key_at hmac info seed index"
proof -
  have "ck' = chain_at hmac info seed (n + k) \<and> (\<forall>(j, key) \<in> set pending'. key = key_at hmac info seed j) \<and>
      (\<forall>x. mk' = Some x \<longrightarrow> x = key_at hmac info seed index)"
    using assms
  proof (induction k arbitrary: n mk pending)
    case (Suc k)
    from Suc.prems(1) obtain ck1 key where key: "kdfChainKeySPQR hmac (chain_at hmac info seed n) (int (Suc n)) info = Inr (ck1, key)"
      by (cases "kdfChainKeySPQR hmac (chain_at hmac info seed n) (int (Suc n)) info") (auto simp: Let_def)
    note at = kdfChainKeySPQR_at [OF key]
    define p1 where "p1 = (if Suc n = index \<or> Suc n + ooo < index then pending else pending @ [(Suc n, key)])"
    define mk1 where "mk1 = (if Suc n = index then Some key else mk)"
    have r: "receive_steps hmac info ooo index k (Suc n) (chain_at hmac info seed (Suc n)) mk1 p1 = Inr (mk', ck', pending')"
      using Suc.prems(1) key at by (simp add: p1_def mk1_def Let_def del: chain_at.simps of_nat_Suc split: if_splits)
    have "\<forall>(j, key) \<in> set p1. key = key_at hmac info seed j" "\<And>x. mk1 = Some x \<Longrightarrow> x = key_at hmac info seed index"
      using Suc.prems(2,3) at by (auto simp: p1_def mk1_def split: if_splits)
    from Suc.IH [OF r this] show ?case by simp
  qed simp
  then show "ck' = chain_at hmac info seed (n + k)" "\<forall>(j, key) \<in> set pending'. key = key_at hmac info seed j"
    "mk' = Some x \<Longrightarrow> x = key_at hmac info seed index" by auto
qed

lemma hold_keys_ok:
  assumes "skipped_ok hmac info secret d ks (map_of held)" and "e \<le> length ks"
    and "\<forall>(j, key) \<in> set pending. key = key_at hmac (chainNext info) (receive_seed hmac info secret d (take e ks)) j"
  shows "skipped_ok hmac info secret d ks (map_of (hold_keys e now pending held))"
  using assms(1,3)
proof (induction pending arbitrary: held)
  case (Cons p pending)
  have "skipped_ok hmac info secret d ks (map_of (AList.update (e, fst p) \<lparr>sk_key = bytesToBase64 (snd p), sk_timestamp = now\<rparr> held))"
    using Cons.prems assms(2) by (auto simp: skipped_ok_def update_conv')
  with Cons.IH Cons.prems(2) show ?case by simp
qed simp

lemma trim_le: "map_of (sp_MKSKIPPED (trimEpochSkippedKeys s e)) \<subseteq>\<^sub>m map_of (sp_MKSKIPPED s)"
  by (auto simp: trimEpochSkippedKeys_def Let_def filter_fst_le split: option.splits)

lemma trim_end:
  assumes "end_ok hmac info secret d ks agent s" shows "end_ok hmac info secret d ks agent (trimEpochSkippedKeys s e)"
proof -
  have "trimEpochSkippedKeys s e = s\<lparr>sp_MKSKIPPED := sp_MKSKIPPED (trimEpochSkippedKeys s e)\<rparr>"
    by (auto simp: trimEpochSkippedKeys_def Let_def split: option.splits)
  then show ?thesis using end_ok_skipped [OF assms] assms skipped_ok_le [OF _ trim_le] by (metis end_ok_def)
qed

lemma advance_receive_chain_end:
  assumes s: "end_ok hmac info secret d ks agent s" and c: "map_of (kdfChains s) e = Some c"
    and adv: "advance_receive_chain hmac s i e now c = Inr (k, s')"
  shows "end_ok hmac info secret d ks agent s'" and "e \<le> length ks"
    and "k = key_at hmac (chainNext info) (receive_seed hmac info secret d (take e ks)) i"
proof -
  let ?seed = "receive_seed hmac info secret d (take e ks)" and ?n = "ch_N (ec_receive c)"
  from s c have e: "e \<le> length ks" "chains_from hmac info secret d (take e ks) c" and i: "chain_next_info s = chainNext info"
    and ch: "chains_ok hmac info secret d ks (map_of (kdfChains s))" and sk: "skipped_ok hmac info secret d ks (map_of (sp_MKSKIPPED s))"
    by (auto simp: end_ok_def chains_ok_def chain_next_info_def)
  obtain ck0 ck more where n: "?n < i" "base64ToBytes (ch_CK (ec_receive c)) = Inr ck0"
    and r: "receive_steps hmac (chain_next_info s) (ooo_of s) i (i - ?n) ?n ck0 None [] = Inr (Some k, ck, more)"
    and s': "s' = trimEpochSkippedKeys (s\<lparr>sp_MKSKIPPED := hold_keys e now more
         (if i > ?n + ooo_of s then filter (\<lambda>(name, _). fst name \<noteq> e) (sp_MKSKIPPED s) else sp_MKSKIPPED s),
       kdfChains := AList.update e (c\<lparr>ec_receive := \<lparr>ch_CK = bytesToBase64 ck, ch_N = i\<rparr>\<rparr>) (kdfChains s)\<rparr>) e"
    using adv by (rule advance_receive_chain_cases)
  have "ck0 = chain_at hmac (chainNext info) ?seed ?n" using n(2) e(2) by (simp add: chains_from_def chain_from_def)
  note keys = receive_steps_keys [OF r [unfolded i this]]
  have ck: "ck = chain_at hmac (chainNext info) ?seed i" using keys(1) n(1) by simp
  show "k = key_at hmac (chainNext info) ?seed i" using keys(3) by simp
  have "skipped_ok hmac info secret d ks (map_of (if i > ?n + ooo_of s then filter (\<lambda>(name, _). fst name \<noteq> e) (sp_MKSKIPPED s) else sp_MKSKIPPED s))"
    using sk skipped_ok_le [OF sk filter_fst_le] by simp
  from hold_keys_ok [OF this e(1)] keys(2)
  have held: "skipped_ok hmac info secret d ks (map_of (hold_keys e now more
      (if i > ?n + ooo_of s then filter (\<lambda>(name, _). fst name \<noteq> e) (sp_MKSKIPPED s) else sp_MKSKIPPED s)))" by simp
  have "chains_from hmac info secret d (take e ks) (c\<lparr>ec_receive := \<lparr>ch_CK = bytesToBase64 ck, ch_N = i\<rparr>\<rparr>)"
    using e(2) by (simp add: chains_from_def ck)
  then have "chains_ok hmac info secret d ks (map_of (AList.update e (c\<lparr>ec_receive := \<lparr>ch_CK = bytesToBase64 ck, ch_N = i\<rparr>\<rparr>) (kdfChains s)))"
    using chains_ok_update [OF ch e(1)] by (simp add: update_conv')
  from end_ok_chains [OF end_ok_skipped [OF s held] this] show "end_ok hmac info secret d ks agent s'" unfolding s' by (rule trim_end)
  show "e \<le> length ks" by (rule e)
qed

lemma skipped_end:
  assumes s: "end_ok hmac info secret d ks agent s" and h: "map_of (sp_MKSKIPPED s) (e, i) = Some h" and k: "base64ToBytes (sk_key h) = Inr k"
  shows "end_ok hmac info secret d ks agent (s\<lparr>sp_MKSKIPPED := AList.delete (e, i) (sp_MKSKIPPED s)\<rparr>)" and "e \<le> length ks"
    and "k = key_at hmac (chainNext info) (receive_seed hmac info secret d (take e ks)) i"
proof -
  have sk: "skipped_ok hmac info secret d ks (map_of (sp_MKSKIPPED s))" using s by (simp add: end_ok_def)
  from end_ok_skipped [OF s skipped_ok_le [OF this delete_le]]
  show "end_ok hmac info secret d ks agent (s\<lparr>sp_MKSKIPPED := AList.delete (e, i) (sp_MKSKIPPED s)\<rparr>)" .
  show "e \<le> length ks" "k = key_at hmac (chainNext info) (receive_seed hmac info secret d (take e ks)) i"
    using sk h k by (auto simp: skipped_ok_def)
qed

lemma deriveSPQRReceiveKey_end:
  assumes s: "end_ok hmac info secret d ks agent s" and k: "deriveSPQRReceiveKey hmac s i e now = Inr (k, s')"
  shows "end_ok hmac info secret d ks agent s'"
    and "k = Some x \<Longrightarrow> e \<le> length ks \<and> x = key_at hmac (chainNext info) (receive_seed hmac info secret d (take e ks)) i"
    and "k = None \<Longrightarrow> \<not> isSpqrBootstrapComplete s"
proof -
  have "end_ok hmac info secret d ks agent s' \<and> (k = None \<longrightarrow> \<not> isSpqrBootstrapComplete s) \<and>
      (\<forall>x. k = Some x \<longrightarrow> e \<le> length ks \<and> x = key_at hmac (chainNext info) (receive_seed hmac info secret d (take e ks)) i)"
    using k
  proof (cases rule: deriveSPQRReceiveKey_cases)
    case (held h k)
    with skipped_end [OF s held(3,4)] show ?thesis by simp
  next
    case (advance c k)
    with advance_receive_chain_end [OF s advance(6,7)] show ?thesis by simp
  qed (use s in simp)
  then show "end_ok hmac info secret d ks agent s'" "k = None \<Longrightarrow> \<not> isSpqrBootstrapComplete s"
    "k = Some x \<Longrightarrow> e \<le> length ks \<and> x = key_at hmac (chainNext info) (receive_seed hmac info secret d (take e ks)) i" by auto
qed

lemma tryGetSkippedSPQRKey_end:
  assumes s: "end_ok hmac info secret d ks agent s" and k: "tryGetSkippedSPQRKey s e i = Inr (k, s')"
  shows "end_ok hmac info secret d ks agent s'"
    and "k = Some x \<Longrightarrow> e \<le> length ks \<and> x = key_at hmac (chainNext info) (receive_seed hmac info secret d (take e ks)) i"
proof -
  from k consider "k = None" "s' = s" | h x where "k = Some x" "map_of (sp_MKSKIPPED s) (e, i) = Some h" "base64ToBytes (sk_key h) = Inr x"
      "s' = s\<lparr>sp_MKSKIPPED := AList.delete (e, i) (sp_MKSKIPPED s)\<rparr>"
    by (auto simp: tryGetSkippedSPQRKey_def and_then_eq_Inr split: option.splits if_splits)
  then have "end_ok hmac info secret d ks agent s' \<and>
      (\<forall>x. k = Some x \<longrightarrow> e \<le> length ks \<and> x = key_at hmac (chainNext info) (receive_seed hmac info secret d (take e ks)) i)"
  proof cases
    case 2
    with skipped_end [OF s 2(2,3)] show ?thesis by simp
  qed (use s in simp)
  then show "end_ok hmac info secret d ks agent s'"
    "k = Some x \<Longrightarrow> e \<le> length ks \<and> x = key_at hmac (chainNext info) (receive_seed hmac info secret d (take e ks)) i" by auto
qed

end
