(* ===== verification/Spqr_Run.thy ===== *)
theory Spqr_Run
  imports Spqr_Ends
begin

text \<open>
  Two ends of the post-quantum ratchet in braid mode over a network that loses, repeats and reorders messages. Every run of
  the two ends is a run of the two machines in which the messages without payload are never delivered; the message keys of
  both ends agree, and the ratchet stays in its first epochs.
\<close>

section \<open>Messages on the wire\<close>

text \<open>What the encoder makes of the message of the machine.\<close>

definition wire_carries :: "nat \<Rightarrow> nat \<Rightarrow> MLKEMBraidMessage option \<Rightarrow> SPQRWireMessage \<Rightarrow> bool" where
  "wire_carries epoch index m W \<longleftrightarrow> wm_version W = 1 \<and> wm_epoch W = Some epoch \<and> wm_chainIndex W = Some index \<and>
     (case m of None \<Rightarrow> wm_mode W = NoneMode | Some b \<Rightarrow> wm_mode W = BraidMode \<and> braid_chunk_of W = Inr b)"

lemma encode_wire_message:
  assumes enc: "encodeSPQRWire (wire_message e key m None None) = Inr bs"
    and m: "\<And>b. m = Some b \<Longrightarrow> bm_epoch b = e \<and> (bm_type b = Ct1Ack \<and> bm_chunkIndex b = None \<and> bm_data b = None \<or>
      bm_type b \<notin> {NoPayload, Ct1Ack} \<and> (\<exists>i d. bm_chunkIndex b = Some (int i) \<and> bm_data b = Some d))"
  shows "bs \<noteq> [] \<and> (\<exists>W. decodeSPQRWire bs = Inr W \<and> wire_carries e (case key of None \<Rightarrow> 0 | Some r \<Rightarrow> kr_index r) m W)"
proof -
  let ?M = "wire_message e key m None None"
  have d: "decodeSPQRWire bs = Inr (wire_normal ?M)"
    using spqr_wire_decode [OF enc, of "[]"] by (simp add: kyber_sizes_def wire_message_def)
  have e: "1 \<le> e" "e \<le> UINT64_MAX" and "bs \<noteq> []" using enc by (auto simp: encodeSPQRWire_eq wire_message_def)
  have "wire_carries e (case key of None \<Rightarrow> 0 | Some r \<Rightarrow> kr_index r) m (wire_normal ?M)"
  proof (cases m)
    case None
    then show ?thesis by (simp add: wire_carries_def wire_normal_def wire_message_def wire_header_def or_else_def Let_def split: option.splits)
  next
    case (Some b)
    have "spqrWireEpochToBigInt e = Inr e" using e by (simp add: spqrWireEpochToBigInt_def assertUint64_def)
    with Some m [OF Some] show ?thesis
      by (cases b) (auto simp: wire_carries_def wire_normal_def wire_message_def wire_header_def or_else_def Let_def braid_chunk_of_def
          split: option.splits)
  qed
  with d \<open>bs \<noteq> []\<close> show ?thesis by blast
qed

section \<open>A step of one end\<close>

text \<open>A sent message with its key: it carries the message of the machine, and the key is the one of its epoch and index.\<close>

definition sent_ok ::
    "hmac_fun \<Rightarrow> ResolvedSPQRInfoStrings \<Rightarrow> bytes \<Rightarrow> Direction \<Rightarrow> OutputKey list \<Rightarrow> MLKEMBraidMessage set \<Rightarrow> bytes \<times> bytes option \<Rightarrow> bool" where
  "sent_ok hmac info secret d ks ms x \<longleftrightarrow> (case x of (bs, k) \<Rightarrow> bs = [] \<and> k = None \<or>
     bs \<noteq> [] \<and> (\<exists>W e n m. decodeSPQRWire bs = Inr W \<and> wire_carries (Suc e) n m W \<and>
       (\<forall>b. m = Some b \<longrightarrow> b \<in> ms \<and> bm_type b \<noteq> NoPayload) \<and>
       (n = 0 \<and> k = None \<or> 1 \<le> n \<and> e \<le> length ks \<and>
         k = Some (key_at hmac (chainNext info) (send_seed hmac info secret d (take e ks)) n))))"

lemma sent_okI:
  "bs \<noteq> [] \<Longrightarrow> decodeSPQRWire bs = Inr W \<Longrightarrow> wire_carries (Suc e) n m W \<Longrightarrow>
   (\<And>b. m = Some b \<Longrightarrow> b \<in> ms \<and> bm_type b \<noteq> NoPayload) \<Longrightarrow>
   n = 0 \<and> k = None \<or> 1 \<le> n \<and> e \<le> length ks \<and> k = Some (key_at hmac (chainNext info) (send_seed hmac info secret d (take e ks)) n) \<Longrightarrow>
   sent_ok hmac info secret d ks ms (bs, k)"
  unfolding sent_ok_def by blast

lemma sent_ok_mono:
  assumes "sent_ok hmac info secret d ks ms x" and "ms \<subseteq> ms'" shows "sent_ok hmac info secret d (ks @ ls) ms' x"
proof -
  obtain bs k where x: "x = (bs, k)" by (cases x)
  show ?thesis
  proof (cases "bs = []")
    case False
    with assms(1) x obtain W e n m where W: "decodeSPQRWire bs = Inr W" "wire_carries (Suc e) n m W" "\<And>b. m = Some b \<Longrightarrow> b \<in> ms \<and> bm_type b \<noteq> NoPayload"
      and k: "n = 0 \<and> k = None \<or> 1 \<le> n \<and> e \<le> length ks \<and> k = Some (key_at hmac (chainNext info) (send_seed hmac info secret d (take e ks)) n)"
      unfolding sent_ok_def by blast
    show ?thesis unfolding x by (rule sent_okI [OF False W(1,2)]) (use W(3) assms(2) k in auto)
  qed (use assms(1) x in \<open>simp add: sent_ok_def\<close>)
qed

lemma output_to_extends: "\<exists>ls. output_to k ks = ks @ ls"
  by (cases k) auto

text \<open>Sending is a step of the machine.\<close>

lemma braid_send_end:
  assumes s: "end_ok (sp_hmac p) info secret d ks agent s" and b: "braid_send p random now s = Inr ((m, e), s')"
  obtains agent' r where "braid_Send (sp_hmac p) (sp_braid_kem p) random agent = Inr (agent', r)" "e = Some (braid_epoch agent)"
    "m = (if bm_type (sent_message r) \<noteq> NoPayload then Some (sent_message r) else None)"
    "end_ok (sp_hmac p) info secret d (output_to (sent_key r) ks) agent' s'"
proof -
  have a: "sp_mode s = SckaBraid" "braidState s = Some agent" using s by (simp_all add: end_ok_def)
  from b a obtain agent' r where S: "braid_Send (sp_hmac p) (sp_braid_kem p) random agent = Inr (agent', r)"
    and m: "m = (if bm_type (sent_message r) \<noteq> NoPayload then Some (sent_message r) else None)" and e: "e = Some (sending_epoch r)"
    and s': "(case sent_key r of None \<Rightarrow> Inr (s\<lparr>braidState := Some agent'\<rparr>)
        | Some key \<Rightarrow> addSPQRBraidEpoch (sp_hmac p) (s\<lparr>braidState := Some agent'\<rparr>) key BothChains now) = Inr s'"
    by (auto simp: braid_send_def and_then_eq_Inr Let_def)
  have "end_ok (sp_hmac p) info secret d (output_to (sent_key r) ks) agent' s'"
    using s' end_ok_agent [OF s, of agent'] addSPQRBraidEpoch_end [where hmac = "sp_hmac p"]
    by (cases "sent_key r") auto
  then show ?thesis using that S m e braid_Send_epoch [OF S] by simp
qed

lemma spqrSendWith_end:
  assumes s: "end_ok (sp_hmac p) info secret d ks agent s" and send: "spqrSendWith p random now s = Inr ((bs, k), s')"
  obtains agent' r where "braid_Send (sp_hmac p) (sp_braid_kem p) random agent = Inr (agent', r)"
    "end_ok (sp_hmac p) info secret d (output_to (sent_key r) ks) agent' s'"
    "sent_ok (sp_hmac p) info secret d (output_to (sent_key r) ks) {sent_message r} (bs, k)"
proof -
  have "direct_send p random now s = Inr ((None, None), s)" using s by (simp add: direct_send_def end_ok_def)
  note direct = this
  with send obtain m u e where b: "braid_send p random now s = Inr ((m, e), u)"
    by (auto simp: spqrSendWith_def and_then_eq_Inr)
  obtain agent' r where S: "braid_Send (sp_hmac p) (sp_braid_kem p) random agent = Inr (agent', r)" and e: "e = Some (braid_epoch agent)"
    and m: "m = (if bm_type (sent_message r) \<noteq> NoPayload then Some (sent_message r) else None)"
    and u: "end_ok (sp_hmac p) info secret d (output_to (sent_key r) ks) agent' u"
    using braid_send_end [OF s b] .
  from send direct b e obtain t key where t: "spqrWireEpochToInternalEpoch (braid_epoch agent) = Inr t"
    and key: "deriveSPQRSendKey (sp_hmac p) u (Some t) = Inr (key, s')" and k: "k = map_option kr_messageKey key"
    and bs: "key = None \<and> m = None \<and> bs = [] \<or> encodeSPQRWire (wire_message (braid_epoch agent) key m None None) = Inr bs"
    by (auto simp: spqrSendWith_def and_then_eq_Inr split: if_splits)
  have t: "t = braid_epoch agent - 1" "1 \<le> braid_epoch agent"
    using t by (auto simp: spqrWireEpochToInternalEpoch_def assertUint64_def bigintToSafeNumber_def and_then_eq_Inr split: if_splits)
  let ?ks = "output_to (sent_key r) ks"
  note key = deriveSPQRSendKey_end [OF u key]
  have "sent_ok (sp_hmac p) info secret d ?ks {sent_message r} (bs, k)"
  proof (cases "key = None \<and> m = None \<and> bs = []")
    case False
    then have "encodeSPQRWire (wire_message (braid_epoch agent) key m None None) = Inr bs" using bs by auto
    from encode_wire_message [OF this] obtain W where W: "bs \<noteq> []" "decodeSPQRWire bs = Inr W"
        "wire_carries (braid_epoch agent) (case key of None \<Rightarrow> 0 | Some r \<Rightarrow> kr_index r) m W"
      using m braid_Send_epoch [OF S] braid_Send_shape [OF S] by (auto simp: sends_chunk_def sends_bare_def split: if_splits)
    have e: "braid_epoch agent = Suc t" using t by simp
    show ?thesis
    proof (rule sent_okI [OF W(1,2) W(3) [unfolded e]])
      show "b \<in> {sent_message r} \<and> bm_type b \<noteq> NoPayload" if "m = Some b" for b using that m by (auto split: if_splits)
      show "(case key of None \<Rightarrow> 0 | Some r \<Rightarrow> kr_index r) = 0 \<and> k = None \<or> 1 \<le> (case key of None \<Rightarrow> 0 | Some r \<Rightarrow> kr_index r) \<and>
          t \<le> length ?ks \<and> k = Some (key_at (sp_hmac p) (chainNext info) (send_seed (sp_hmac p) info secret d (take t ?ks))
            (case key of None \<Rightarrow> 0 | Some r \<Rightarrow> kr_index r))"
        using key(2) k by (cases key) (auto simp: or_else_def)
    qed
  qed (use k in \<open>simp add: sent_ok_def\<close>)
  with that S key(1) show ?thesis by blast
qed


text \<open>Receiving a sent message is a step of the machine, unless the message has no payload; the keys of both ends correspond.\<close>

lemma negotiate_end:
  assumes s: "end_ok hmac info secret d ks agent s" and n: "negotiate s 1 = Inr t"
  shows "end_ok hmac info secret d ks agent t" and "isSpqrBootstrapComplete t"
proof -
  from s obtain v where v: "versionNegotiation s = Some v" and m: "sp_mode s = SckaBraid" "braidState s = Some agent" by (auto simp: end_ok_def)
  from n v consider "vn_status v \<noteq> Negotiating" "t = s" | v' where "processVersionFromByte v 1 = Inr v'" "t = s\<lparr>versionNegotiation := Some v'\<rparr>"
    by (auto simp: negotiate_def and_then_eq_Inr split: if_splits)
  then show "end_ok hmac info secret d ks agent t" "isSpqrBootstrapComplete t"
  proof (atomize (full), cases)
    case 1
    then have "vn_status v = Complete" by (cases "vn_status v") auto
    with 1 s v m show "end_ok hmac info secret d ks agent t \<and> isSpqrBootstrapComplete t"
      by (simp add: isSpqrBootstrapComplete_def isVersionNegotiationComplete_def)
  next
    case 2
    then have "vn_status v' = Complete" by (auto simp: processVersionFromByte_def processVersionCapability_def split: if_splits)
    with 2 s m show "end_ok hmac info secret d ks agent t \<and> isSpqrBootstrapComplete t"
      by (simp add: isSpqrBootstrapComplete_def isVersionNegotiationComplete_def end_ok_negotiated)
  qed
qed

lemma receive_braid_end:
  assumes s: "end_ok (sp_hmac p) info secret d ks agent s" and b: "receive_braid p now s agent W = Inr s'" and m: "braid_chunk_of W = Inr m"
  obtains agent' r where "braid_Receive (sp_hmac p) (sp_braid_kem p) agent m = Inr (agent', r)"
    "end_ok (sp_hmac p) info secret d (output_to (received_key r) ks) agent' s'"
    "versionNegotiation s' = versionNegotiation s"
proof -
  from b m obtain agent' r where R: "braid_Receive (sp_hmac p) (sp_braid_kem p) agent m = Inr (agent', r)"
    and s': "(case received_key r of None \<Rightarrow> Inr (s\<lparr>braidState := Some agent'\<rparr>)
        | Some key \<Rightarrow> addSPQRBraidEpoch (sp_hmac p) (s\<lparr>braidState := Some agent'\<rparr>) key BothChains now) = Inr s'"
    by (auto simp: receive_braid_def and_then_eq_Inr Let_def)
  have "end_ok (sp_hmac p) info secret d (output_to (received_key r) ks) agent' s'"
    using s' end_ok_agent [OF s, of agent'] addSPQRBraidEpoch_end [where hmac = "sp_hmac p"]
    by (cases "received_key r") auto
  moreover have "versionNegotiation s' = versionNegotiation s"
    using s' by (auto simp: addSPQRBraidEpoch_def addSPQREpochSecret_def and_then_eq_Inr Let_def split_beta split: option.splits if_splits)
  ultimately show ?thesis using that R by blast
qed

text \<open>The machine of an end takes a message, or not; the third argument is the key that it emits.\<close>

definition machine_takes ::
    "spqr_primitives \<Rightarrow> MLKEMBraidMessage set \<Rightarrow> MLKEMBraidAgentState \<Rightarrow> OutputKey option \<Rightarrow> MLKEMBraidAgentState \<Rightarrow> bool" where
  "machine_takes p ms agent key agent' \<longleftrightarrow> agent' = agent \<and> key = None \<or>
     (\<exists>m r. m \<in> ms \<and> bm_type m \<noteq> NoPayload \<and> braid_Receive (sp_hmac p) (sp_braid_kem p) agent m = Inr (agent', r) \<and> key = received_key r)"

definition same_key ::
    "hmac_fun \<Rightarrow> ResolvedSPQRInfoStrings \<Rightarrow> bytes \<Rightarrow> Direction \<Rightarrow> OutputKey list \<Rightarrow> Direction \<Rightarrow> OutputKey list \<Rightarrow>
     bytes \<Rightarrow> bytes \<Rightarrow> bool" where
  "same_key hmac info secret d ks d' ks' k k' \<longleftrightarrow> (\<exists>e n. e \<le> length ks \<and> e \<le> length ks' \<and>
     k = key_at hmac (chainNext info) (send_seed hmac info secret d (take e ks)) n \<and>
     k' = key_at hmac (chainNext info) (receive_seed hmac info secret d' (take e ks')) n)"

lemma spqrRecvAt_end:
  assumes s: "end_ok (sp_hmac p) info secret d ks agent s" and x: "sent_ok (sp_hmac p) info secret d' ks' ms (bs, k0)"
    and recv: "spqrRecvAt p now s (Some bs) = Inr (k, s')"
  obtains key agent' where "machine_takes p ms agent key agent'" "end_ok (sp_hmac p) info secret d (output_to key ks) agent' s'"
    "k0 = None \<and> k = None \<or> (\<exists>a b. k0 = Some a \<and> k = Some b \<and> same_key (sp_hmac p) info secret d' ks' d (output_to key ks) a b)"
proof (cases "bs = []")
  case True
  with x recv have "k0 = None" "k = None" "s' = s" by (auto simp: sent_ok_def spqrRecvAt_def)
  with s show ?thesis by (intro that [of None agent]) (auto simp: machine_takes_def)
next
  case False
  with x obtain W e n m where W: "decodeSPQRWire bs = Inr W" "wire_carries (Suc e) n m W" "\<And>b. m = Some b \<Longrightarrow> b \<in> ms \<and> bm_type b \<noteq> NoPayload"
    and k0: "n = 0 \<and> k0 = None \<or> 1 \<le> n \<and> e \<le> length ks' \<and>
      k0 = Some (key_at (sp_hmac p) (chainNext info) (send_seed (sp_hmac p) info secret d' (take e ks')) n)"
    unfolding sent_ok_def by blast
  from W(2) have w: "wm_version W = 1" "wm_epoch W = Some (Suc e)" "wm_chainIndex W = Some n" by (auto simp: wire_carries_def)
  from recv False W(1) w obtain t u where t: "negotiate s 1 = Inr t" and u: "receive_payload p now t W = Inr u"
    and k: "(if 1 \<le> n then and_then (spqrWireEpochToInternalEpoch (Suc e)) (\<lambda>epoch. deriveSPQRReceiveKey (sp_hmac p) u n epoch now)
      else Inr (None, u)) = Inr (k, s')"
    by (auto simp: spqrRecvAt_def and_then_eq_Inr)
  note t = negotiate_end [OF s t]
  have t': "sp_mode t = SckaBraid" "braidState t = Some agent" using t(1) by (auto simp: end_ok_def)
  obtain key agent' where a: "machine_takes p ms agent key agent'" "end_ok (sp_hmac p) info secret d (output_to key ks) agent' u"
    "isSpqrBootstrapComplete u"
  proof (cases m)
    case None
    then have "u = t" using W(2) u by (simp add: wire_carries_def receive_payload_def)
    with t show ?thesis by (intro that [of None agent]) (auto simp: machine_takes_def)
  next
    case (Some b)
    then have "receive_braid p now t agent W = Inr u" "braid_chunk_of W = Inr b" using W(2) u t'
      by (simp_all add: wire_carries_def receive_payload_def)
    from receive_braid_end [OF t(1) this] obtain agent' r where R: "braid_Receive (sp_hmac p) (sp_braid_kem p) agent b = Inr (agent', r)"
      "end_ok (sp_hmac p) info secret d (output_to (received_key r) ks) agent' u" "versionNegotiation u = versionNegotiation t" .
    moreover from R(2) have "sp_mode u = SckaBraid" "braidState u \<noteq> None" by (auto simp: end_ok_def)
    ultimately have "isSpqrBootstrapComplete u" using t(2) t' by (simp add: isSpqrBootstrapComplete_def)
    with R W(3) [OF Some] show ?thesis by (intro that [of "received_key r" agent']) (auto simp: machine_takes_def)
  qed
  show ?thesis
  proof (cases "1 \<le> n")
    case False
    with k k0 a that show ?thesis by auto
  next
    case True
    with k have d: "deriveSPQRReceiveKey (sp_hmac p) u n e now = Inr (k, s')"
      by (auto simp: and_then_eq_Inr spqrWireEpochToInternalEpoch_def assertUint64_def bigintToSafeNumber_def split: if_splits)
    note r = deriveSPQRReceiveKey_end [OF a(2) d]
    from r(3) a(3) obtain y where y: "k = Some y" by (cases k) auto
    from True k0 r(2) [OF y] have "\<exists>a b. k0 = Some a \<and> k = Some b \<and> same_key (sp_hmac p) info secret d' ks' d (output_to key ks) a b"
      unfolding same_key_def using y by auto
    with that [OF a(1) r(1)] show ?thesis by blast
  qed
qed

lemma spqr_skipped_key_end:
  assumes s: "end_ok (sp_hmac p) info secret d ks agent s" and x: "sent_ok (sp_hmac p) info secret d' ks' ms (bs, k0)"
    and key: "spqr_skipped_key (sp_hmac p) now s bs = Inr (k, s')"
  shows "end_ok (sp_hmac p) info secret d ks agent s'"
    and "k = Some b \<Longrightarrow> \<exists>a. k0 = Some a \<and> same_key (sp_hmac p) info secret d' ks' d ks a b"
proof -
  have "end_ok (sp_hmac p) info secret d ks agent s' \<and> (\<forall>b. k = Some b \<longrightarrow> (\<exists>a. k0 = Some a \<and> same_key (sp_hmac p) info secret d' ks' d ks a b))"
  proof (cases "bs = []")
    case True
    with s key show ?thesis by (simp add: spqr_skipped_key_def)
  next
    case False
    with x obtain W e n m where W: "decodeSPQRWire bs = Inr W" "wire_carries (Suc e) n m W"
      and k0: "n = 0 \<and> k0 = None \<or> 1 \<le> n \<and> e \<le> length ks' \<and>
        k0 = Some (key_at (sp_hmac p) (chainNext info) (send_seed (sp_hmac p) info secret d' (take e ks')) n)"
      unfolding sent_ok_def by blast
    from W(2) have w: "wm_epoch W = Some (Suc e)" "wm_chainIndex W = Some n" by (auto simp: wire_carries_def)
    show ?thesis
    proof (cases "1 \<le> n")
      case True
      from key False W(1) w True obtain j t where t: "tryGetSkippedSPQRKey s e n = Inr (j, t)"
        and d: "(case j of Some _ \<Rightarrow> Inr (j, t) | None \<Rightarrow> deriveSPQRReceiveKey (sp_hmac p) t n e now) = Inr (k, s')"
        by (auto simp: spqr_skipped_key_def and_then_eq_Inr spqrWireEpochToInternalEpoch_def assertUint64_def bigintToSafeNumber_def split: if_splits)
      note t = tryGetSkippedSPQRKey_end [OF s t]
      have "end_ok (sp_hmac p) info secret d ks agent s' \<and> (\<forall>b. k = Some b \<longrightarrow> e \<le> length ks \<and>
          b = key_at (sp_hmac p) (chainNext info) (receive_seed (sp_hmac p) info secret d (take e ks)) n)"
        using d t deriveSPQRReceiveKey_end [OF t(1)] by (cases j) auto
      with True k0 show ?thesis unfolding same_key_def by auto
    next
      case False
      with key \<open>bs \<noteq> []\<close> W(1) w have "s' = s" "k = None" by (auto simp: spqr_skipped_key_def and_then_eq_Inr)
      with s show ?thesis by simp
    qed
  qed
  then show "end_ok (sp_hmac p) info secret d ks agent s'"
    "k = Some b \<Longrightarrow> \<exists>a. k0 = Some a \<and> same_key (sp_hmac p) info secret d' ks' d ks a b" by auto
qed


section \<open>Two ends\<close>

text \<open>The states of both ends and, in order, what each has sent, with the message key it used. The end \<open>True\<close> is the initiator.\<close>

record spqr_world =
  sw_state :: "bool \<Rightarrow> SPQRState"
  sw_sent :: "bool \<Rightarrow> (bytes \<times> bytes option) list"

definition end_direction :: "bool \<Rightarrow> Direction" where "end_direction i = (if i then A2B else B2A)"

inductive spqr_step :: "spqr_primitives \<Rightarrow> spqr_world \<Rightarrow> spqr_world \<Rightarrow> bool" for p where
  sends: "(\<And>n. length (random n) = n) \<Longrightarrow> spqrSendWith p random now (sw_state w i) = Inr (x, s) \<Longrightarrow>
    spqr_step p w (w\<lparr>sw_state := (sw_state w)(i := s), sw_sent := (sw_sent w)(i := sw_sent w i @ [x])\<rparr>)"
| receives: "(bs, k0) \<in> set (sw_sent w (\<not> i)) \<Longrightarrow> spqrRecvAt p now (sw_state w i) (Some bs) = Inr (k, s) \<Longrightarrow>
    spqr_step p w (w\<lparr>sw_state := (sw_state w)(i := s)\<rparr>)"
| takes_skipped: "(bs, k0) \<in> set (sw_sent w (\<not> i)) \<Longrightarrow> spqr_skipped_key (sp_hmac p) now (sw_state w i) bs = Inr (k, s) \<Longrightarrow>
    spqr_step p w (w\<lparr>sw_state := (sw_state w)(i := s)\<rparr>)"
| reloads: "spqr_step p w (w\<lparr>sw_state := (sw_state w)(i := (sw_state w i)\<lparr>braidState := map_option drop_encoders (braidState (sw_state w i))\<rparr>)\<rparr>)"

definition spqr_start :: "spqr_primitives \<Rightarrow> bytes \<Rightarrow> ResolvedSPQRInfoStrings \<Rightarrow> spqr_world \<Rightarrow> bool" where
  "spqr_start p secret info w \<longleftrightarrow> sw_sent w = (\<lambda>_. []) \<and>
     (\<forall>i. \<exists>opts now. initializeSPQR (sp_hmac p) opts now = Inr (sw_state w i) \<and> io_mode opts = SckaBraid \<and>
        io_initialRootKey opts = secret \<and> io_direction opts = end_direction i \<and>
        resolveSPQRInfoStrings (io_spqrInfoStrings opts) = info)"

text \<open>The world of the two machines behind a world of two ends.\<close>

definition with_payload :: "MLKEMBraidMessage \<Rightarrow> bool" where "with_payload m \<longleftrightarrow> bm_type m \<noteq> NoPayload"

definition machines ::
    "spqr_primitives \<Rightarrow> bytes \<Rightarrow> ResolvedSPQRInfoStrings \<Rightarrow> spqr_world \<Rightarrow> braid_world \<Rightarrow> bool" where
  "machines p secret info w b \<longleftrightarrow>
     (\<forall>i. end_ok (sp_hmac p) info secret (end_direction i) (w_keys b i) (w_agent b i) (sw_state w i) \<and>
       (\<forall>x \<in> set (sw_sent w i). sent_ok (sp_hmac p) info secret (end_direction i) (w_keys b i) (w_sent b i) x))"

lemma machines_end: "machines p secret info w b \<Longrightarrow> end_ok (sp_hmac p) info secret (end_direction i) (w_keys b i) (w_agent b i) (sw_state w i)"
  and machines_sent: "machines p secret info w b \<Longrightarrow> x \<in> set (sw_sent w i) \<Longrightarrow>
    sent_ok (sp_hmac p) info secret (end_direction i) (w_keys b i) (w_sent b i) x"
  by (simp_all add: machines_def)

text \<open>One end changes: its keys and messages grow, the other end stays.\<close>

lemma machines_update:
  assumes "machines p secret info w b"
    and "end_ok (sp_hmac p) info secret (end_direction i) (w_keys b' i) (w_agent b' i) s"
    and "w_keys b' i = w_keys b i @ ls" "w_sent b i \<subseteq> w_sent b' i" "w_keys b' (\<not> i) = w_keys b (\<not> i)" "w_sent b' (\<not> i) = w_sent b (\<not> i)"
      "w_agent b' (\<not> i) = w_agent b (\<not> i)"
    and "\<And>x. x \<in> set sent \<Longrightarrow> x \<in> set (sw_sent w i) \<or> sent_ok (sp_hmac p) info secret (end_direction i) (w_keys b' i) (w_sent b' i) x"
  shows "machines p secret info (w\<lparr>sw_state := (sw_state w)(i := s), sw_sent := (sw_sent w)(i := sent)\<rparr>) b'"
  unfolding machines_def
proof (intro allI conjI ballI)
  fix j x
  let ?w = "w\<lparr>sw_state := (sw_state w)(i := s), sw_sent := (sw_sent w)(i := sent)\<rparr>"
  have j: "j = i \<or> j = (\<not> i)" by blast
  show "end_ok (sp_hmac p) info secret (end_direction j) (w_keys b' j) (w_agent b' j) (sw_state ?w j)"
    using j assms(2,5,7) machines_end [OF assms(1), of j] by auto
  show "sent_ok (sp_hmac p) info secret (end_direction j) (w_keys b' j) (w_sent b' j) x" if "x \<in> set (sw_sent ?w j)"
  proof (cases "j = i")
    case True
    then have "x \<in> set sent" using that by simp
    from assms(8) [OF this] show ?thesis
    proof
      assume "x \<in> set (sw_sent w i)"
      from sent_ok_mono [OF machines_sent [OF assms(1) this] assms(4)] True assms(3) show ?thesis by simp
    qed (use True in simp)
  qed (use j that assms(5,6) machines_sent [OF assms(1)] in auto)
qed

lemma machines_state:
  assumes "machines p secret info w b"
    and "end_ok (sp_hmac p) info secret (end_direction i) (w_keys b' i) (w_agent b' i) s"
    and "w_keys b' i = w_keys b i @ ls" "w_sent b i \<subseteq> w_sent b' i" "w_keys b' (\<not> i) = w_keys b (\<not> i)" "w_sent b' (\<not> i) = w_sent b (\<not> i)"
      "w_agent b' (\<not> i) = w_agent b (\<not> i)"
  shows "machines p secret info (w\<lparr>sw_state := (sw_state w)(i := s)\<rparr>) b'"
  using machines_update [OF assms, of "sw_sent w i"] by simp

lemma w_sent_after [simp]:
  "w_sent (after_receive i s r b) = w_sent b" "w_keys (after_receive i s r b) i = output_to (received_key r) (w_keys b i)"
  "w_agent (after_receive i s r b) i = s" "w_keys (after_receive i s r b) (\<not> i) = w_keys b (\<not> i)"
  "w_agent (after_receive i s r b) (\<not> i) = w_agent b (\<not> i)"
  by (simp_all add: after_receive_def)

lemma machines_take:
  assumes b: "machines p secret info w b" and t: "machine_takes p (w_sent b (\<not> i)) (w_agent b i) key agent'"
    and s: "end_ok (sp_hmac p) info secret (end_direction i) (output_to key (w_keys b i)) agent' s"
  obtains b' where "(braid_step (sp_hmac p) (sp_braid_kem p) with_payload)\<^sup>*\<^sup>* b b'" "w_keys b' i = output_to key (w_keys b i)"
    "w_keys b' (\<not> i) = w_keys b (\<not> i)" "machines p secret info (w\<lparr>sw_state := (sw_state w)(i := s)\<rparr>) b'"
proof -
  from t show ?thesis unfolding machine_takes_def
  proof (elim disjE exE conjE)
    assume "agent' = w_agent b i" "key = None"
    with s machines_state [OF b, of i b s "[]"] show ?thesis by (intro that [of b]) auto
  next
    fix m r
    assume m: "m \<in> w_sent b (\<not> i)" "bm_type m \<noteq> NoPayload" "braid_Receive (sp_hmac p) (sp_braid_kem p) (w_agent b i) m = Inr (agent', r)"
      and key: "key = received_key r"
    let ?b = "after_receive i agent' r b"
    have "braid_step (sp_hmac p) (sp_braid_kem p) with_payload b ?b" using m by (intro braid_step.receive) (auto simp: with_payload_def)
    moreover obtain ls where "w_keys ?b i = w_keys b i @ ls" using output_to_extends by fastforce
    then have "machines p secret info (w\<lparr>sw_state := (sw_state w)(i := s)\<rparr>) ?b"
      using s key by (intro machines_state [OF b]) auto
    ultimately show ?thesis using key by (intro that [of ?b]) auto
  qed
qed

lemma machines_start:
  assumes "spqr_start p secret info w"
  obtains b where "braid_start (sp_hmac p) secret b" "machines p secret info w b"
proof -
  have "\<exists>agent. (if end_direction i = A2B then InitAlice else InitBob) (sp_hmac p) secret = Inr agent \<and>
      end_ok (sp_hmac p) info secret (end_direction i) [] agent (sw_state w i)" for i
    using assms initializeSPQR_end [where hmac = "sp_hmac p"] unfolding spqr_start_def by metis
  then obtain f where f: "\<And>i. (if end_direction i = A2B then InitAlice else InitBob) (sp_hmac p) secret = Inr (f i)"
    "\<And>i. end_ok (sp_hmac p) info secret (end_direction i) [] (f i) (sw_state w i)" by metis
  let ?b = "\<lparr>w_agent = f, w_sent = (\<lambda>_. {}), w_keys = (\<lambda>_. [])\<rparr>"
  have "braid_start (sp_hmac p) secret ?b" using f(1) [of True] f(1) [of False] by (simp add: braid_start_def end_direction_def)
  moreover have "machines p secret info w ?b" using f(2) assms by (simp add: machines_def spqr_start_def)
  ultimately show ?thesis by (rule that)
qed

lemma drop_encoders_end: "end_ok hmac info secret d ks agent s \<Longrightarrow>
    end_ok hmac info secret d ks (drop_encoders agent) (s\<lparr>braidState := map_option drop_encoders (braidState s)\<rparr>)"
  by (simp add: end_ok_def)

text \<open>Every step of the two ends is a run of the machines.\<close>

lemma machines_step:
  assumes b: "machines p secret info w b" and step: "spqr_step p w w'"
  obtains b' where "(braid_step (sp_hmac p) (sp_braid_kem p) with_payload)\<^sup>*\<^sup>* b b'" "machines p secret info w' b'"
  using step
proof cases
  case (sends random now i x s)
  obtain bs k where x: "x = (bs, k)" by (cases x)
  from spqrSendWith_end [OF machines_end [OF b] sends(3) [unfolded x]] obtain agent' r
    where S: "braid_Send (sp_hmac p) (sp_braid_kem p) random (w_agent b i) = Inr (agent', r)"
      "end_ok (sp_hmac p) info secret (end_direction i) (output_to (sent_key r) (w_keys b i)) agent' s"
      "sent_ok (sp_hmac p) info secret (end_direction i) (output_to (sent_key r) (w_keys b i)) {sent_message r} x" unfolding x .
  let ?b = "after_send i agent' r b"
  have "braid_step (sp_hmac p) (sp_braid_kem p) with_payload b ?b" using sends(2) S(1) by (intro braid_step.send)
  moreover obtain ls where "w_keys ?b i = w_keys b i @ ls" using output_to_extends by fastforce
  then have "machines p secret info w' ?b"
    unfolding sends(1) using S sent_ok_mono [of _ _ _ _ _ "{sent_message r}" _ "w_sent ?b i" "[]"]
    by (intro machines_update [OF b]) auto
  ultimately show ?thesis using that by blast
next
  case (receives bs k0 i now k s)
  from spqrRecvAt_end [OF machines_end [OF b] machines_sent [OF b receives(2)] receives(3)] obtain key agent'
    where R: "machine_takes p (w_sent b (\<not> i)) (w_agent b i) key agent'"
      "end_ok (sp_hmac p) info secret (end_direction i) (output_to key (w_keys b i)) agent' s" .
  from machines_take [OF b this] that show ?thesis unfolding receives(1) by blast
next
  case (takes_skipped bs k0 i now k s)
  from spqr_skipped_key_end(1) [OF machines_end [OF b] machines_sent [OF b takes_skipped(2)] takes_skipped(3)]
  have "end_ok (sp_hmac p) info secret (end_direction i) (output_to None (w_keys b i)) (w_agent b i) s" by simp
  from machines_take [OF b _ this] that show ?thesis unfolding takes_skipped(1) machine_takes_def by blast
next
  case (reloads i)
  let ?b = "b\<lparr>w_agent := (w_agent b)(i := drop_encoders (w_agent b i))\<rparr>"
  have "braid_step (sp_hmac p) (sp_braid_kem p) with_payload b ?b" by (rule braid_step.reload)
  moreover have "machines p secret info w' ?b"
    using machines_state [OF b, of i ?b "(sw_state w i)\<lparr>braidState := map_option drop_encoders (braidState (sw_state w i))\<rparr>" "[]"]
      drop_encoders_end [OF machines_end [OF b]] unfolding reloads(1) by simp
  ultimately show ?thesis using that by blast
qed


lemma machines_run:
  assumes "(spqr_step p)\<^sup>*\<^sup>* w w'" and "machines p secret info w b"
  obtains b' where "(braid_step (sp_hmac p) (sp_braid_kem p) with_payload)\<^sup>*\<^sup>* b b'" "machines p secret info w' b'"
  using assms
proof (induction arbitrary: thesis rule: rtranclp_induct)
  case (step w' w'')
  from step.IH [OF _ step.prems(2)] obtain b' where b': "(braid_step (sp_hmac p) (sp_braid_kem p) with_payload)\<^sup>*\<^sup>* b b'" "machines p secret info w' b'" .
  from machines_step [OF b'(2) step.hyps(2)] obtain b'' where
    "(braid_step (sp_hmac p) (sp_braid_kem p) with_payload)\<^sup>*\<^sup>* b' b''" "machines p secret info w'' b''" .
  with b'(1) step.prems(1) show ?case by (meson rtranclp_trans)
qed auto

text \<open>In a reachable world the machines are in their first exchange, and both ends have the same key, if they have one.\<close>

lemma machines_reachable:
  assumes hmac: "\<And>k d. length (sp_hmac p k d) = 32" and kem: "braid_kem_laws (sp_braid_kem p)" and "length secret = 32"
    and "spqr_start p secret info w0" and "(spqr_step p)\<^sup>*\<^sup>* w0 w"
  obtains b where "machines p secret info w b" "braid_inv (sp_hmac p) (sp_braid_kem p) True 1 [] b"
proof -
  from machines_start [OF assms(4)] obtain b0 where b0: "braid_start (sp_hmac p) secret b0" "machines p secret info w0 b0" .
  from machines_run [OF assms(5) b0(2)] obtain b where b: "(braid_step (sp_hmac p) (sp_braid_kem p) with_payload)\<^sup>*\<^sup>* b0 b"
    "machines p secret info w b" .
  have "\<forall>m. with_payload m \<longrightarrow> bm_type m \<noteq> NoPayload" by (simp add: with_payload_def)
  with braid_inv_reachable [where hmac = "sp_hmac p", OF hmac kem assms(3) b0(1) b(1)] have "braid_inv (sp_hmac p) (sp_braid_kem p) True 1 [] b"
    by (elim exE conjE) simp
  with b(2) that show ?thesis by blast
qed

lemma first_exchange:
  assumes "braid_inv hmac kem True 1 [] b"
  obtains d where "\<And>i. w_keys b i = [] \<or> w_keys b i = [d]"
proof -
  have "\<exists>d. (w_keys b True = [] \<or> w_keys b True = [d]) \<and> (w_keys b False = [] \<or> w_keys b False = [d])"
    using assms by (auto simp: braid_inv_def phase_idle_def phase_offered_def phase_answered_def phase_agreed_def)
  then obtain d where "(w_keys b True = [] \<or> w_keys b True = [d]) \<and> (w_keys b False = [] \<or> w_keys b False = [d])" ..
  then have "w_keys b i = [] \<or> w_keys b i = [d]" for i by (cases i) simp_all
  then show ?thesis by (rule that)
qed

lemma seeds_opposite:
  "receive_seed hmac info secret (end_direction i) ks = send_seed hmac info secret (end_direction (\<not> i)) ks"
  by (simp add: end_direction_def seeds_cross)

lemma same_key_eq:
  assumes "same_key hmac info secret (end_direction (\<not> i)) ks (end_direction i) ks' k k'"
    and "\<And>e. e \<le> length ks \<Longrightarrow> e \<le> length ks' \<Longrightarrow> take e ks = take e ks'"
  shows "k' = k"
  using assms by (auto simp: same_key_def seeds_opposite)

lemma first_exchange_prefix:
  assumes "ks = [] \<or> ks = [d]" "ks' = [] \<or> ks' = [d]" "e \<le> length ks" "e \<le> length ks'"
  shows "take e ks = take e ks'"
  using assms by (cases e) auto

lemma received_keys_agree:
  assumes hmac: "\<And>k d. length (sp_hmac p k d) = 32" and kem: "braid_kem_laws (sp_braid_kem p)" and "length secret = 32"
    and "spqr_start p secret info w0" and "(spqr_step p)\<^sup>*\<^sup>* w0 w" and bs: "(bs, k0) \<in> set (sw_sent w (\<not> i))"
  shows "spqrRecvAt p now (sw_state w i) (Some bs) = Inr (k, s) \<Longrightarrow> k = k0"
    and "spqr_skipped_key (sp_hmac p) now (sw_state w i) bs = Inr (Some k', s) \<Longrightarrow> k0 = Some k'"
proof -
  from machines_reachable [OF assms(1-5)] obtain b where b: "machines p secret info w b"
    "braid_inv (sp_hmac p) (sp_braid_kem p) True 1 [] b" .
  note x = machines_sent [OF b(1) bs]
  {
    assume r: "spqrRecvAt p now (sw_state w i) (Some bs) = Inr (k, s)"
    from spqrRecvAt_end [OF machines_end [OF b(1)] x r] obtain key agent'
      where R: "machine_takes p (w_sent b (\<not> i)) (w_agent b i) key agent'"
        "end_ok (sp_hmac p) info secret (end_direction i) (output_to key (w_keys b i)) agent' s"
      and k: "k0 = None \<and> k = None \<or> (\<exists>a c. k0 = Some a \<and> k = Some c \<and> same_key (sp_hmac p) info secret (end_direction (\<not> i))
        (w_keys b (\<not> i)) (end_direction i) (output_to key (w_keys b i)) a c)" .
    from machines_take [OF b(1) R] obtain b' where run: "(braid_step (sp_hmac p) (sp_braid_kem p) with_payload)\<^sup>*\<^sup>* b b'"
      and ks: "w_keys b' i = output_to key (w_keys b i)" "w_keys b' (\<not> i) = w_keys b (\<not> i)" .
    have "braid_inv (sp_hmac p) (sp_braid_kem p) True 1 [] b'" using run b(2)
    proof (induction rule: rtranclp_induct)
      case (step x y)
      then show ?case using braid_inv_step [where hmac = "sp_hmac p", OF hmac kem] unfolding with_payload_def by blast
    qed
    then obtain d where d: "\<And>i. w_keys b' i = [] \<or> w_keys b' i = [d]" by (rule first_exchange) blast
    have "take e (w_keys b (\<not> i)) = take e (output_to key (w_keys b i))"
      if "e \<le> length (w_keys b (\<not> i))" "e \<le> length (output_to key (w_keys b i))" for e
      using first_exchange_prefix [OF d [of "\<not> i"] d [of i]] that unfolding ks by blast
    with k show "k = k0" using same_key_eq by metis
  }
  assume r: "spqr_skipped_key (sp_hmac p) now (sw_state w i) bs = Inr (Some k', s)"
  from spqr_skipped_key_end(2) [OF machines_end [OF b(1)] x r] obtain a where a: "k0 = Some a"
    "same_key (sp_hmac p) info secret (end_direction (\<not> i)) (w_keys b (\<not> i)) (end_direction i) (w_keys b i) a k'" by blast
  obtain d where d: "\<And>i. w_keys b i = [] \<or> w_keys b i = [d]" using b(2) by (rule first_exchange) blast
  from same_key_eq [OF a(2) first_exchange_prefix [OF d d]] a(1) show "k0 = Some k'" by simp
qed


section \<open>A run in which a key is used\<close>

lemma encode_wire_ok:
  assumes "1 \<le> e" "e \<le> UINT64_MAX" "(case key of None \<Rightarrow> 0 | Some r \<Rightarrow> kr_index r) \<le> UINT32_MAX"
    and "\<And>b. m = Some b \<Longrightarrow> carries b (bm_type b) data \<and> bm_type b \<notin> {NoPayload, Ct1Ack}"
  shows "\<exists>bs. encodeSPQRWire (wire_message e key m None None) = Inr bs"
proof (cases m)
  case None
  with assms(1-3) show ?thesis by (cases key) (auto simp: encodeSPQRWire_eq wire_message_def or_else_def)
next
  case (Some b)
  then obtain i where "i < 65536" "bm_chunkIndex b = Some (int i)" "bm_data b = Some (chunk_at data i)" "bm_type b \<notin> {NoPayload, Ct1Ack}"
    using assms(4) by (auto simp: carries_def)
  moreover from this(1) have "encodeVarintLEB128 i = Inr (leb128_loop i)" by (simp add: encodeVarintLEB128_eq UINT64_MAX_def)
  ultimately show ?thesis using assms(1-3) Some
    by (cases key) (auto simp: encodeSPQRWire_eq wire_message_def or_else_def encode_braid_payload_def braidMessageTypeRequiresChunk_def
        assertBraidChunkIndex_def BRAID_CHUNK_POINT_COUNT_def length_chunk_at Let_def)
qed

text \<open>The first chunk of a header.\<close>

lemma receive_first_chunk:
  assumes "braid_state s = NoHeaderReceived" "headerDecoder s = Some (createDecoderState HEADER_SIZE)"
    and "bm_epoch m = braid_epoch s" and m: "carries m Hdr data"
  shows "\<exists>s'. braid_Receive hmac kem s m = Inr (s', receive_result m None) \<and> braid_state s' = NoHeaderReceived \<and> braid_epoch s' = braid_epoch s"
proof -
  obtain i where i: "i < 65536" "bm_chunkIndex m = Some (int i)" "bm_data m = Some (chunk_at data i)" "bm_type m = Hdr"
    using m by (auto simp: carries_def)
  let ?d = "createDecoderState HEADER_SIZE"
  let ?e = "?d\<lparr>ds_chunks := [(i, chunk_at data i)], ds_receivedChunks := 1\<rparr>"
  have "addDecoderChunk ?d (int i) (chunk_at data i) = Inr ?e"
    using i(1) by (simp add: addDecoderChunk_def createDecoderState_def assertBraidChunkIndex_def BRAID_CHUNK_POINT_COUNT_def length_chunk_at)
  moreover have "\<not> isDecoderComplete ?e"
    by (simp add: isDecoderComplete_def createDecoderState_def HEADER_SIZE_def chunk_count_def CHUNK_SIZE_def)
  ultimately have "bob_receive_header hmac m (chunk_at data i) s = Inr (s\<lparr>headerDecoder := Some ?e\<rparr>)"
    using assms(2) i(2) by (simp add: bob_receive_header_def decoder_or_def chunk_index_carried)
  then show ?thesis using assms(1,3) i(3,4) by (simp add: braid_Receive_def roles receiveBob_def Let_def)
qed

text \<open>An end that is not ready sends without a key; one that is ready takes the first key of its chain.\<close>

lemma first_send_key:
  assumes hmac: "\<And>k d. length (hmac k d) = 32" and s: "sp_RK s \<noteq> []" "isSpqrBootstrapComplete s" "sp_sendEpoch s = Some 0"
    and c: "kdfChains s = [(0, c)]" "ec_send c = fresh_chain sk" "length sk = 32" "bytesToBase64 sk \<noteq> ZEROED_CHAIN_KEY"
  shows "\<exists>key s'. deriveSPQRSendKey hmac s (Some 0) = Inr (Some key, s') \<and> kr_index key = 1"
proof -
  obtain a b where "kdfChainKeySPQR hmac sk 1 (chain_next_info s) = Inr (a, b)"
    using kdfChainKeySPQR_ok [where hmac = hmac, OF hmac c(3), of 1 "chain_next_info s"] by auto
  with s c show ?thesis
    by (simp add: deriveSPQRSendKey_def validateSPQRState_def or_else_def derive_from_send_chain_def fresh_chain_def MAX_INDEX_def required_def Let_def)
qed


definition run_hmac :: hmac_fun where "run_hmac k d = replicate 32 1"

definition run_spqr :: spqr_primitives where "run_spqr = sample_spqr\<lparr>sp_hmac := run_hmac\<rparr>"

definition run_options :: "bool \<Rightarrow> SPQRInitOptions" where "run_options i = sample_options\<lparr>io_direction := end_direction i\<rparr>"

lemma length_run_hmac: "length (run_hmac k d) = 32"
  by (simp add: run_hmac_def)

lemma run_hmac_loop: "b \<in> set (expand_loop run_hmac prk info t i k) \<Longrightarrow> b = 1"
  by (induction k arbitrary: t i) (auto simp: run_hmac_def Let_def)

lemma run_spqr_simps [simp]: "sp_hmac run_spqr = run_hmac" "sp_braid_kem run_spqr = sample_braid_kem"
  by (simp_all add: run_spqr_def sample_spqr_def)

lemma run_options_simps [simp]:
  "io_mode (run_options i) = SckaBraid" "io_initialRootKey (run_options i) = zeros 32" "io_direction (run_options i) = end_direction i"
  "io_spqrInfoStrings (run_options i) = None" "negotiation_of (run_options i) = initVersionNegotiation V1 V1"
  by (simp_all add: run_options_def sample_options_def negotiation_of_def or_else_def)

text \<open>A fresh end of the run: its first send key exists.\<close>

lemma run_start_end:
  obtains s c sk where "initializeSPQR run_hmac (run_options i) 5 = Inr s" "sp_RK s \<noteq> []" "sp_sendEpoch s = Some 0"
    "kdfChains s = [(0, c)]" "ec_send c = fresh_chain sk" "length sk = 32" "bytesToBase64 sk \<noteq> ZEROED_CHAIN_KEY"
    "versionNegotiation s = Some (initVersionNegotiation V1 V1)"
proof -
  let ?info = "chainStart (resolveSPQRInfoStrings None)"
  have z: "length (zeros 32) = 32" by (simp add: zeros_def)
  obtain s c agent sk rk where s: "initializeSPQR run_hmac (run_options i) 5 = Inr s" "sp_RK s \<noteq> []"
      "kdfChains s = [(0, c)]" "ec_send c = fresh_chain sk" "length sk = 32" "versionNegotiation s = Some (initVersionNegotiation V1 V1)"
    using initializeSPQR_first [where hmac = run_hmac and opts = "run_options i" and now = 5, OF length_run_hmac] z by auto
  have "sp_sendEpoch s = Some 0"
    using s(1) by (auto simp: initializeSPQR_def initializeSPQRBraid_def and_then_eq_Inr Let_def split_beta)
  moreover have "0 \<notin> set sk"
  proof -
    obtain r x y where k: "kdfSpqrInit run_hmac (zeros 32) ?info = Inr (r, x, y)"
      using spqr_kdf_ok(2) [where hmac = run_hmac, OF length_run_hmac z z] by blast
    then have "set x \<subseteq> {1}" "set y \<subseteq> {1}"
      using run_hmac_loop by (auto simp: kdfSpqrInit_def hkdf_def hkdfExpand_def js_slice_def z Let_def dest!: in_set_takeD in_set_dropD)
    moreover have "sk = x \<or> sk = y" using s(1,3,4) k
      by (cases i) (auto simp: initializeSPQR_def initializeSPQRBraid_def and_then_eq_Inr Let_def split_beta order_chains_def end_direction_def
          fresh_chain_def dest!: arg_cong [where f = base64ToBytes])
    ultimately show ?thesis by auto
  qed
  then have "bytesToBase64 sk \<noteq> ZEROED_CHAIN_KEY"
    by (metis ZEROED_CHAIN_KEY_def base64_roundtrip sum.inject(2) zeros_def in_set_replicate zero_neq_numeral)
  ultimately show ?thesis using s that by blast
qed


text \<open>The initiator sends a chunk, the responder receives it and answers with a key.\<close>

lemma run_start:
  obtains w0 where "spqr_start run_spqr (zeros 32) (resolveSPQRInfoStrings None) w0"
    "\<And>i. initializeSPQR run_hmac (run_options i) 5 = Inr (sw_state w0 i)"
proof -
  have "\<exists>s. initializeSPQR run_hmac (run_options i) 5 = Inr s" for i by (rule run_start_end [of i]) blast
  then obtain f where f: "\<And>i. initializeSPQR run_hmac (run_options i) 5 = Inr (f i)" by metis
  let ?w = "\<lparr>sw_state = f, sw_sent = (\<lambda>_. [])\<rparr>"
  have "spqr_start run_spqr (zeros 32) (resolveSPQRInfoStrings None) ?w"
    unfolding spqr_start_def
  proof (intro conjI allI)
    fix i
    show "\<exists>opts now. initializeSPQR (sp_hmac run_spqr) opts now = Inr (sw_state ?w i) \<and> io_mode opts = SckaBraid \<and>
        io_initialRootKey opts = zeros 32 \<and> io_direction opts = end_direction i \<and>
        resolveSPQRInfoStrings (io_spqrInfoStrings opts) = resolveSPQRInfoStrings None"
      by (intro exI [of _ "run_options i"] exI [of _ 5]) (simp add: f)
  qed simp
  with f that show ?thesis by (simp add: run_spqr_def)
qed

lemma sends_without_key:
  assumes s: "sp_mode s = SckaBraid" "braidState s = Some agent" "sp_RK s \<noteq> []"
      "\<not> isVersionNegotiationComplete (versionNegotiation s)"
    and S: "braid_Send (sp_hmac p) (sp_braid_kem p) random agent = Inr (agent', r)" "sent_key r = None"
      "carries (sent_message r) Hdr data" "braid_epoch agent = 1"
  shows "\<exists>bs W. spqrSendWith p random now s = Inr ((bs, None), s\<lparr>braidState := Some agent'\<rparr>) \<and> bs \<noteq> [] \<and>
    decodeSPQRWire bs = Inr W \<and> wire_carries 1 0 (Some (sent_message r)) W"
proof -
  have m: "bm_type (sent_message r) = Hdr" using S(3) by (simp add: carries_def)
  have e: "sending_epoch r = 1" "bm_epoch (sent_message r) = 1" using braid_Send_epoch [OF S(1)] S(4) by auto
  obtain bs where bs: "encodeSPQRWire (wire_message 1 None (Some (sent_message r)) None None) = Inr bs"
    using encode_wire_ok [of 1 None "Some (sent_message r)" data] S(3) m by (auto simp: UINT64_MAX_def)
  from encode_wire_message [OF this] e m S(3) obtain W where W: "bs \<noteq> []" "decodeSPQRWire bs = Inr W"
    "wire_carries 1 0 (Some (sent_message r)) W" by (auto simp: carries_def)
  have "spqrSendWith p random now s = Inr ((bs, None), s\<lparr>braidState := Some agent'\<rparr>)"
    using s S(1,2) m e bs
    by (simp add: spqrSendWith_def direct_send_def braid_send_def Let_def spqrWireEpochToInternalEpoch_def assertUint64_def
        bigintToSafeNumber_def UINT64_MAX_def MAX_SAFE_INTEGER_BIGINT_def deriveSPQRSendKey_def validateSPQRState_def isSpqrBootstrapComplete_def)
  with W show ?thesis by blast
qed

lemma answers_with_key:
  assumes hmac: "\<And>k d. length (sp_hmac p k d) = 32" and s: "sp_mode s = SckaBraid" "braidState s = Some agent" "isSpqrBootstrapComplete s"
      "sp_RK s \<noteq> []" "sp_sendEpoch s = Some 0" "braid_state agent = NoHeaderReceived" "braid_epoch agent = 1"
    and c: "kdfChains s = [(0, c)]" "ec_send c = fresh_chain sk" "length sk = 32" "bytesToBase64 sk \<noteq> ZEROED_CHAIN_KEY"
  shows "\<exists>bs k s'. spqrSendWith p random now s = Inr ((bs, Some k), s')"
proof -
  let ?s = "s\<lparr>braidState := Some agent\<rparr>"
  have b: "braid_send p random now s = Inr ((None, Some 1), ?s)" using s
    by (simp add: braid_send_def braid_Send_def roles sendBob_def Let_def bare_message_def send_result_def)
  have "isSpqrBootstrapComplete ?s" using s(2,3) by (simp add: isSpqrBootstrapComplete_def)
  then obtain key s' where k: "deriveSPQRSendKey (sp_hmac p) ?s (Some 0) = Inr (Some key, s')" "kr_index key = 1"
    using first_send_key [where hmac = "sp_hmac p", OF hmac _ _ _ _ _ c(3,4), of ?s c] s c by auto
  obtain bs where "encodeSPQRWire (wire_message 1 (Some key) None None None) = Inr bs"
    using encode_wire_ok [of 1 "Some key" None] k(2) by (auto simp: UINT64_MAX_def UINT32_MAX_def)
  with b k(1) s show ?thesis
    by (simp add: spqrSendWith_def direct_send_def spqrWireEpochToInternalEpoch_def assertUint64_def bigintToSafeNumber_def UINT64_MAX_def
        MAX_SAFE_INTEGER_BIGINT_def)
qed

lemma receives_first:
  assumes s: "sp_mode s = SckaBraid" "braidState s = Some agent" "versionNegotiation s = Some (initVersionNegotiation V1 V1)"
    and W: "bs \<noteq> []" "decodeSPQRWire bs = Inr W" "wire_carries 1 0 (Some m) W"
    and R: "braid_Receive (sp_hmac p) (sp_braid_kem p) agent m = Inr (agent', receive_result m None)"
  shows "spqrRecvAt p now s (Some bs) = Inr (None, s\<lparr>versionNegotiation := Some ((initVersionNegotiation V1 V1)\<lparr>vn_status := Complete,
    vn_negotiatedVersion := Some V1, vn_peerVersion := Some V1\<rparr>), braidState := Some agent'\<rparr>)"
  using assms
  by (simp add: spqrRecvAt_def wire_carries_def negotiate_def processVersionFromByte_def processVersionCapability_def initVersionNegotiation_def
      receive_payload_def receive_braid_def Let_def)

lemma spqr_sample_run:
  "\<exists>info w0 w bs k. spqr_start run_spqr (zeros 32) info w0 \<and> (spqr_step run_spqr)\<^sup>*\<^sup>* w0 w \<and> (bs, Some k) \<in> set (sw_sent w False)"
proof -
  have z: "length (zeros 32) = 32" and rnd: "\<And>n. length (zeros n) = n" by (simp_all add: zeros_def)
  obtain w0 where w0: "spqr_start run_spqr (zeros 32) (resolveSPQRInfoStrings None) w0"
    "\<And>i. initializeSPQR run_hmac (run_options i) 5 = Inr (sw_state w0 i)" by (rule run_start) blast
  obtain b where b: "braid_start run_hmac (zeros 32) b" "machines run_spqr (zeros 32) (resolveSPQRInfoStrings None) w0 b"
    using machines_start [OF w0(1)] by auto
  have ends: "sp_mode (sw_state w0 i) = SckaBraid" "braidState (sw_state w0 i) = Some (w_agent b i)" for i
    using machines_end [OF b(2), of i] by (auto simp: end_ok_def)
  obtain a where "initial_agent KeysUnsampled a None = w_agent b True"
    "initial_agent NoHeaderReceived a (Some (createDecoderState HEADER_SIZE)) = w_agent b False"
    using b(1) by (auto simp: braid_start_def InitAlice_def InitBob_def and_then_eq_Inr)
  then have agents: "w_agent b True = initial_agent KeysUnsampled a None"
    "w_agent b False = initial_agent NoHeaderReceived a (Some (createDecoderState HEADER_SIZE))"
    by simp_all
  then have fresh: "fresh_generator a 1 (w_agent b True)" by (simp add: fresh_generator_def initial_agent_def)
  obtain s c sk where F: "sw_state w0 False = s" "sp_RK s \<noteq> []" "sp_sendEpoch s = Some 0" "kdfChains s = [(0, c)]"
    "ec_send c = fresh_chain sk" "length sk = 32" "bytesToBase64 sk \<noteq> ZEROED_CHAIN_KEY"
    "versionNegotiation s = Some (initVersionNegotiation V1 V1)" using run_start_end [of False] w0(2) [of False] by auto
  have "sp_RK (sw_state w0 True) \<noteq> []" "versionNegotiation (sw_state w0 True) = Some (initVersionNegotiation V1 V1)"
    using run_start_end [of True] w0(2) [of True] by auto
  then have T: "sp_RK (sw_state w0 True) \<noteq> []" "\<not> isVersionNegotiationComplete (versionNegotiation (sw_state w0 True))"
    by (simp_all add: isVersionNegotiationComplete_def initVersionNegotiation_def)
  obtain agent' r where S: "braid_Send run_hmac sample_braid_kem zeros (w_agent b True) = Inr (agent', r)"
    using fresh_generator_sends [where hmac = run_hmac, OF length_run_hmac sample_braid_laws rnd fresh] by (auto simp: ok_iff)
  from send_fresh_generator [where hmac = run_hmac, OF length_run_hmac sample_braid_laws rnd fresh S] obtain X
    where X: "offer_message run_hmac a 1 X (sent_message r)" "sent_key r = None" by blast
  have e: "braid_epoch (w_agent b True) = 1" "bm_epoch (sent_message r) = 1"
    using braid_Send_epoch [OF S] fresh by (auto simp: fresh_generator_def)
  with X(1) have m: "carries (sent_message r) Hdr (header_of run_hmac a 1 X)" by (simp add: offer_message_def)
  obtain bs W where bs: "spqrSendWith run_spqr zeros 5 (sw_state w0 True) = Inr ((bs, None), (sw_state w0 True)\<lparr>braidState := Some agent'\<rparr>)"
      "bs \<noteq> []" "decodeSPQRWire bs = Inr W" "wire_carries 1 0 (Some (sent_message r)) W"
    using sends_without_key [OF ends T, of run_spqr zeros agent' r _ 5, OF _ X(2) m e(1)] S by auto
  let ?w1 = "w0\<lparr>sw_state := (sw_state w0)(True := (sw_state w0 True)\<lparr>braidState := Some agent'\<rparr>),
    sw_sent := (sw_sent w0)(True := sw_sent w0 True @ [(bs, None)])\<rparr>"
  have step1: "spqr_step run_spqr w0 ?w1" by (rule spqr_step.sends [OF rnd bs(1)])
  obtain agent2 where R: "braid_Receive run_hmac sample_braid_kem (w_agent b False) (sent_message r) = Inr (agent2, receive_result (sent_message r) None)"
    "braid_state agent2 = NoHeaderReceived" "braid_epoch agent2 = 1"
    using receive_first_chunk [OF _ _ _ m, of "w_agent b False"] agents(2) e(2) by (auto simp: initial_agent_def)
  let ?v = "(initVersionNegotiation V1 V1)\<lparr>vn_status := Complete, vn_negotiatedVersion := Some V1, vn_peerVersion := Some V1\<rparr>"
  let ?s2 = "s\<lparr>versionNegotiation := Some ?v, braidState := Some agent2\<rparr>"
  have r2: "spqrRecvAt run_spqr 5 s (Some bs) = Inr (None, ?s2)"
    using receives_first [OF _ _ F(8) bs(2-4), of "w_agent b False" run_spqr agent2 5] ends [of False] R(1) F(1) by simp
  let ?w2 = "?w1\<lparr>sw_state := (sw_state ?w1)(False := ?s2)\<rparr>"
  have step2: "spqr_step run_spqr ?w1 ?w2"
    by (rule spqr_step.receives [where bs = bs and ?k0.0 = None and now = 5 and k = None]) (use r2 F(1) in simp_all)
  have "isSpqrBootstrapComplete ?s2" using ends [of False] F(1) by (simp add: isSpqrBootstrapComplete_def isVersionNegotiationComplete_def)
  then obtain bs2 k s3 where s3: "spqrSendWith run_spqr zeros 5 ?s2 = Inr ((bs2, Some k), s3)"
    using answers_with_key [of run_spqr ?s2 agent2 c sk zeros 5] length_run_hmac ends [of False] F R by auto
  let ?w3 = "?w2\<lparr>sw_state := (sw_state ?w2)(False := s3), sw_sent := (sw_sent ?w2)(False := sw_sent ?w2 False @ [(bs2, Some k)])\<rparr>"
  have step3: "spqr_step run_spqr ?w2 ?w3"
    by (rule spqr_step.sends [OF rnd, where now = 5]) (use s3 in simp)
  have "(bs2, Some k) \<in> set (sw_sent ?w3 False)" by simp
  moreover have "(spqr_step run_spqr)\<^sup>*\<^sup>* w0 ?w3" using step1 step2 step3 by (meson converse_rtranclp_into_rtranclp rtranclp.rtrancl_refl)
  ultimately show ?thesis using w0(1) by blast
qed


section \<open>An initiator without an answer\<close>

text \<open>
  As long as the responder has sent nothing, the initiator repeats the chunks of its header, and its version negotiation is
  not complete.
\<close>

definition unanswered :: "spqr_world \<Rightarrow> bool" where
  "unanswered w \<longleftrightarrow> sp_RK (sw_state w True) \<noteq> [] \<and> \<not> isVersionNegotiationComplete (versionNegotiation (sw_state w True)) \<and>
     (\<exists>agent. braidState (sw_state w True) = Some agent \<and>
     (sw_sent w True = [] \<and> braid_state agent = KeysUnsampled \<or>
      braid_state agent = KeysSampled \<and> length (sw_sent w True) \<le> 65536 \<and>
      (\<exists>e. headerEncoder agent = Some e \<and> es_currentChunk e = length (sw_sent w True))))"

lemma getNextEncoderChunk_count: "getNextEncoderChunk e = Inr (x, e') \<Longrightarrow> es_currentChunk e' = Suc (es_currentChunk e)"
  by (auto simp: getNextEncoderChunk_def and_then_eq_Inr Let_def split: if_splits)

lemma generator_sends_header:
  assumes S: "braid_Send hmac kem random agent = Inr (agent', r)" and agent: "braid_state agent \<in> {KeysUnsampled, KeysSampled}"
  obtains e e' x where "braid_state agent' = KeysSampled" "getNextEncoderChunk e = Inr (x, e')" "headerEncoder agent' = Some e'"
    "es_currentChunk e' = Suc (es_currentChunk e)"
    "if braid_state agent = KeysUnsampled then es_currentChunk e = 0 else headerEncoder agent = Some e"
proof (cases "braid_state agent = KeysUnsampled")
  case True
  then show ?thesis using S that
    by (auto simp: braid_Send_def roles sendAlice_def aliceSendFromKeysUnsampled_def aliceSendHeaderChunk_def transition_def
        STATE_TRANSITIONS_def createEncoderState_def and_then_eq_Inr Let_def getNextEncoderChunk_count)
next
  case False
  then show ?thesis using S agent that
    by (auto simp: braid_Send_def roles sendAlice_def aliceSendHeaderChunk_def and_then_eq_Inr getNextEncoderChunk_count split: option.splits)
qed

text \<open>The machine of an initiator without an answer.\<close>

lemma unanswered_machine:
  assumes b: "machines p secret info w b" "braid_inv (sp_hmac p) (sp_braid_kem p) True 1 [] b" and u: "unanswered w"
  obtains (fresh) a where "fresh_generator a 1 (w_agent b True)" "sw_sent w True = []"
  | (sampled) a X e where "generator (sp_hmac p) a 1 X (w_agent b True)" "braid_state (w_agent b True) = KeysSampled"
      "headerEncoder (w_agent b True) = Some e" "encoder_for (header_of (sp_hmac p) a 1 X) e" "es_currentChunk e = length (sw_sent w True)"
proof -
  have agent: "braidState (sw_state w True) = Some (w_agent b True)" using machines_end [OF b(1), of True] by (simp add: end_ok_def)
  with u consider "sw_sent w True = []" "braid_state (w_agent b True) = KeysUnsampled"
    | e where "braid_state (w_agent b True) = KeysSampled" "headerEncoder (w_agent b True) = Some e" "es_currentChunk e = length (sw_sent w True)"
    by (auto simp: unanswered_def)
  then show ?thesis
  proof cases
    case 1
    then obtain a where "fresh_generator a 1 (w_agent b True)" using b(2)
      by (auto simp: braid_inv_def phase_idle_def phase_offered_def phase_answered_def phase_agreed_def offering_def collecting_def
          fresh_encapsulator_def)
    then show ?thesis using 1 fresh by blast
  next
    case 2
    then obtain a X where g: "generator (sp_hmac p) a 1 X (w_agent b True)" using b(2)
      by (auto simp: braid_inv_def phase_idle_def phase_offered_def phase_answered_def phase_agreed_def fresh_generator_def offering_def
          collecting_def fresh_encapsulator_def)
    then have "encoder_for (header_of (sp_hmac p) a 1 X) e" using 2 by (simp add: generator_def encoder_is_def)
    with g 2 sampled show ?thesis by blast
  qed
qed

text \<open>It sends a chunk of its header as long as there is one.\<close>

lemma unanswered_machine_sends:
  assumes hmac: "\<And>k d. length (sp_hmac p k d) = 32" and kem: "braid_kem_laws (sp_braid_kem p)" and rnd: "\<And>n. length (random n) = n"
    and b: "machines p secret info w b" "braid_inv (sp_hmac p) (sp_braid_kem p) True 1 [] b" and u: "unanswered w"
  shows "ok (braid_Send (sp_hmac p) (sp_braid_kem p) random (w_agent b True)) \<longleftrightarrow> length (sw_sent w True) < 65536"
  using b u
proof (cases rule: unanswered_machine)
  case (fresh a)
  with fresh_generator_sends [where hmac = "sp_hmac p", OF hmac kem rnd] show ?thesis by simp
next
  case (sampled a X e)
  then have "ok (braid_Send (sp_hmac p) (sp_braid_kem p) random (w_agent b True)) \<longleftrightarrow> ok (getNextEncoderChunk e)"
    by (auto simp: ok_iff braid_Send_def roles sendAlice_def aliceSendHeaderChunk_def result_simps)
  with getNext_ok [OF sampled(4)] sampled(5) show ?thesis by simp
qed

lemma unanswered_chunk:
  assumes hmac: "\<And>k d. length (sp_hmac p k d) = 32" and kem: "braid_kem_laws (sp_braid_kem p)" and rnd: "\<And>n. length (random n) = n"
    and b: "machines p secret info w b" "braid_inv (sp_hmac p) (sp_braid_kem p) True 1 [] b" and u: "unanswered w"
    and S: "braid_Send (sp_hmac p) (sp_braid_kem p) random (w_agent b True) = Inr (agent', r)"
  shows "(\<exists>data. carries (sent_message r) Hdr data) \<and> sent_key r = None \<and> braid_epoch (w_agent b True) = 1 \<and>
    braid_state agent' = KeysSampled \<and> (\<exists>e. headerEncoder agent' = Some e \<and> es_currentChunk e = Suc (length (sw_sent w True)))"
proof -
  have st: "braid_state (w_agent b True) \<in> {KeysUnsampled, KeysSampled}"
    using b u by (cases rule: unanswered_machine) (auto simp: fresh_generator_def)
  from generator_sends_header [OF S st] obtain e e' y where e: "braid_state agent' = KeysSampled" "headerEncoder agent' = Some e'"
    "es_currentChunk e' = Suc (es_currentChunk e)"
    "if braid_state (w_agent b True) = KeysUnsampled then es_currentChunk e = 0 else headerEncoder (w_agent b True) = Some e" .
  from b u show ?thesis
  proof (cases rule: unanswered_machine)
    case (fresh a)
    with send_fresh_generator [where hmac = "sp_hmac p", OF hmac kem rnd _ S] braid_Send_epoch [OF S] e show ?thesis
      by (auto simp: fresh_generator_def offer_message_def)
  next
    case (sampled a X h)
    then have "aliceSendHeaderChunk (w_agent b True) = Inr (agent', r)" using S by (simp add: braid_Send_def roles sendAlice_def)
    from header_chunk_sent [OF this sampled(1)] sampled e show ?thesis by (auto simp: generator_def)
  qed
qed

lemma unanswered_send:
  assumes hmac: "\<And>k d. length (sp_hmac p k d) = 32" and kem: "braid_kem_laws (sp_braid_kem p)" and rnd: "\<And>n. length (random n) = n"
    and b: "machines p secret info w b" "braid_inv (sp_hmac p) (sp_braid_kem p) True 1 [] b" and u: "unanswered w"
  shows "ok (spqrSendWith p random now (sw_state w True)) \<longleftrightarrow> length (sw_sent w True) < 65536"
    and "spqrSendWith p random now (sw_state w True) = Inr (x, s) \<Longrightarrow>
      unanswered (w\<lparr>sw_state := (sw_state w)(True := s), sw_sent := (sw_sent w)(True := sw_sent w True @ [x])\<rparr>)"
proof -
  let ?agent = "w_agent b True"
  let ?s = "sw_state w True"
  have s: "sp_mode ?s = SckaBraid" "braidState ?s = Some ?agent" using machines_end [OF b(1), of True] by (simp_all add: end_ok_def)
  note ok = unanswered_machine_sends [where p = p and random = random, OF hmac kem rnd b u]
  have sends: "\<exists>bs. spqrSendWith p random now ?s = Inr ((bs, None), ?s\<lparr>braidState := Some agent'\<rparr>)"
    if S: "braid_Send (sp_hmac p) (sp_braid_kem p) random ?agent = Inr (agent', r)" for agent' r
    using unanswered_chunk [where p = p and random = random, OF hmac kem rnd b u S] sends_without_key [OF s _ _ S] u
    by (auto simp: unanswered_def)
  have machine: "\<exists>agent' r. braid_Send (sp_hmac p) (sp_braid_kem p) random ?agent = Inr (agent', r)"
    if "spqrSendWith p random now ?s = Inr (x, s)" for x s
    using spqrSendWith_end [OF machines_end [OF b(1), of True]] that by (metis surj_pair)
  show "ok (spqrSendWith p random now ?s) \<longleftrightarrow> length (sw_sent w True) < 65536"
  proof
    assume "ok (spqrSendWith p random now ?s)"
    then obtain x s where "spqrSendWith p random now ?s = Inr (x, s)" by (auto simp: ok_iff)
    from machine [OF this] ok show "length (sw_sent w True) < 65536" by (auto simp: ok_iff)
  next
    assume "length (sw_sent w True) < 65536"
    then obtain agent' r where "braid_Send (sp_hmac p) (sp_braid_kem p) random ?agent = Inr (agent', r)"
      using ok unfolding ok_iff by auto
    with sends show "ok (spqrSendWith p random now ?s)" unfolding ok_iff by blast
  qed
  assume x: "spqrSendWith p random now ?s = Inr (x, s)"
  then obtain agent' r where S: "braid_Send (sp_hmac p) (sp_braid_kem p) random ?agent = Inr (agent', r)" using machine by blast
  with sends x have "s = ?s\<lparr>braidState := Some agent'\<rparr>" by fastforce
  moreover have "length (sw_sent w True) < 65536" using S ok by (auto simp: ok_iff)
  ultimately show "unanswered (w\<lparr>sw_state := (sw_state w)(True := s), sw_sent := (sw_sent w)(True := sw_sent w True @ [x])\<rparr>)"
    using unanswered_chunk [where p = p and random = random, OF hmac kem rnd b u S] u by (auto simp: unanswered_def)
qed

lemma unanswered_reachable:
  assumes hmac: "\<And>k d. length (sp_hmac p k d) = 32" and kem: "braid_kem_laws (sp_braid_kem p)" and secret: "length secret = 32"
    and start: "spqr_start p secret info w0" and "(spqr_step p)\<^sup>*\<^sup>* w0 w"
  shows "sw_sent w False = [] \<longrightarrow> unanswered w"
  using assms(5)
proof (induction rule: rtranclp_induct)
  case base
  obtain opts now where o: "initializeSPQR (sp_hmac p) opts now = Inr (sw_state w0 True)" "io_mode opts = SckaBraid" "io_direction opts = A2B"
    "io_initialRootKey opts = secret"
    using start unfolding spqr_start_def end_direction_def by metis
  from initializeSPQR_end [OF o(1,2)] o(3) obtain agent where agent: "InitAlice (sp_hmac p) (io_initialRootKey opts) = Inr agent"
    "braidState (sw_state w0 True) = Some agent" by (auto simp: end_ok_def)
  then have "braid_state agent = KeysUnsampled" by (auto simp: InitAlice_def initial_agent_def and_then_eq_Inr)
  moreover have "sp_RK (sw_state w0 True) \<noteq> []" "versionNegotiation (sw_state w0 True) = Some (negotiation_of opts)"
    using initializeSPQR_first [where hmac = "sp_hmac p" and opts = opts and now = now, OF hmac] o secret by auto
  ultimately show ?case using start agent(2)
    by (auto simp: unanswered_def spqr_start_def isVersionNegotiationComplete_def negotiation_of_def initVersionNegotiation_def)
next
  case (step w w')
  from machines_reachable [OF hmac kem assms(3,4) step.hyps(1)] obtain b where b: "machines p secret info w b"
    "braid_inv (sp_hmac p) (sp_braid_kem p) True 1 [] b" .
  from step.hyps(2) show ?case
  proof cases
    case (sends random now i x s)
    note next_send = unanswered_send(2) [where p = p and random = random, OF hmac kem sends(2) b]
    show ?thesis
    proof (cases i)
      case True
      with step.IH next_send [of now x s] sends(1,3) show ?thesis by simp
    next
      case False
      with step.IH sends(1) show ?thesis by (simp add: unanswered_def)
    qed
  next
    case (receives bs k0 i now k s)
    then show ?thesis using step.IH by (cases i) (auto simp: unanswered_def)
  next
    case (takes_skipped bs k0 i now k s)
    then show ?thesis using step.IH by (cases i) (auto simp: unanswered_def)
  next
    case (reloads i)
    then show ?thesis using step.IH by (cases i) (auto simp: unanswered_def drop_encoders_def Let_def)
  qed
qed

section \<open>Properties\<close>

text \<open>
  C12. Both ends use the same post-quantum key for a message. In every world that two ends in braid mode, the default, reach by
  sending, receiving, storing and loading in any order over a network that loses, repeats and reorders, a message of the other end gives, when
  \<open>spqrRecv\<close> accepts it, exactly the key with which it was sent (none, when it was sent without), and a key taken
  for a skipped message is that key too.
\<close>

theorem spqr_keys_agree:
  assumes "\<And>k d. length (sp_hmac p k d) = 32" and "braid_kem_laws (sp_braid_kem p)" and "length secret = 32"
    and "spqr_start p secret info w0" and "(spqr_step p)\<^sup>*\<^sup>* w0 w" and "(bs, k0) \<in> set (sw_sent w (\<not> i))"
  shows "(spqrRecvAt p now (sw_state w i) (Some bs) = Inr (k, s) \<longrightarrow> k = k0) \<and>
    (spqr_skipped_key (sp_hmac p) now (sw_state w i) bs = Inr (Some k', s) \<longrightarrow> k0 = Some k')"
  using received_keys_agree [where p = p, OF assms] by blast

theorem spqr_keys_agree_witness:
  "\<exists>info w0 w bs k. spqr_start run_spqr (zeros 32) info w0 \<and> (spqr_step run_spqr)\<^sup>*\<^sup>* w0 w \<and> (bs, Some k) \<in> set (sw_sent w False) \<and>
     (\<forall>now k' s. spqrRecvAt run_spqr now (sw_state w True) (Some bs) = Inr (k', s) \<longrightarrow> k' = Some k)"
proof -
  obtain info w0 w bs k where r: "spqr_start run_spqr (zeros 32) info w0" "(spqr_step run_spqr)\<^sup>*\<^sup>* w0 w" "(bs, Some k) \<in> set (sw_sent w False)"
    using spqr_sample_run by blast
  have laws: "\<And>k d. length (sp_hmac run_spqr k d) = 32" "braid_kem_laws (sp_braid_kem run_spqr)" "length (zeros 32) = 32"
    by (simp_all add: length_run_hmac sample_braid_laws zeros_def)
  have "(bs, Some k) \<in> set (sw_sent w (\<not> True))" using r(3) by simp
  from spqr_keys_agree [where p = run_spqr, OF laws r(1,2) this] r show ?thesis by blast
qed

text \<open>
  C15. The post-quantum ratchet never passes its first epoch. In every world that two ends reach, neither has passed epoch 1:
  the machine that finished the first exchange announces the second epoch with messages that carry no payload, and
  \<open>spqrRecv\<close> hands none of these to the other machine.
\<close>

theorem spqr_single_epoch:
  assumes "\<And>k d. length (sp_hmac p k d) = 32" and "braid_kem_laws (sp_braid_kem p)" and "length secret = 32"
    and "spqr_start p secret info w0" and "(spqr_step p)\<^sup>*\<^sup>* w0 w"
  shows "sp_epoch (sw_state w i) \<le> 1"
proof -
  from machines_reachable [where p = p, OF assms] obtain b where b: "machines p secret info w b" "braid_inv (sp_hmac p) (sp_braid_kem p) True 1 [] b" .
  obtain d where "\<And>i. w_keys b i = [] \<or> w_keys b i = [d]" using b(2) by (rule first_exchange) blast
  then have "length (w_keys b i) \<le> 1" by (metis One_nat_def le_zero_eq length_0_conv length_Cons nat_le_linear)
  then show ?thesis using machines_end [OF b(1), of i] by (simp add: end_ok_def)
qed

theorem spqr_single_epoch_witness:
  "\<exists>info w0 w bs k. spqr_start run_spqr (zeros 32) info w0 \<and> (spqr_step run_spqr)\<^sup>*\<^sup>* w0 w \<and> (bs, Some k) \<in> set (sw_sent w False) \<and>
     sp_epoch (sw_state w False) \<le> 1"
proof -
  obtain info w0 w bs k where r: "spqr_start run_spqr (zeros 32) info w0" "(spqr_step run_spqr)\<^sup>*\<^sup>* w0 w" "(bs, Some k) \<in> set (sw_sent w False)"
    using spqr_sample_run by blast
  have laws: "\<And>k d. length (sp_hmac run_spqr k d) = 32" "braid_kem_laws (sp_braid_kem run_spqr)" "length (zeros 32) = 32"
    by (simp_all add: length_run_hmac sample_braid_laws zeros_def)
  from spqr_single_epoch [where p = run_spqr, OF laws r(1,2)] r show ?thesis by blast
qed

text \<open>
  C17. An unanswered initiator can send 65,536 messages and no more. In every world in which the responder has sent nothing, the
  next \<open>spqrSend\<close> of the initiator succeeds exactly when the initiator has sent fewer than 65,536 messages:
  then the encoder of its header has a chunk left, and afterwards every \<open>spqrSend\<close> fails.
\<close>

theorem spqr_one_way_bounded:
  assumes "\<And>k d. length (sp_hmac p k d) = 32" and "braid_kem_laws (sp_braid_kem p)" and "length secret = 32"
    and "spqr_start p secret info w0" and "(spqr_step p)\<^sup>*\<^sup>* w0 w" and "sw_sent w False = []" and "\<And>n. length (random n) = n"
  shows "length (sw_sent w True) \<le> 65536 \<and>
    (ok (spqrSendWith p random now (sw_state w True)) \<longleftrightarrow> length (sw_sent w True) < 65536)"
proof
  obtain b where b: "machines p secret info w b" "braid_inv (sp_hmac p) (sp_braid_kem p) True 1 [] b"
    using assms(1-5) by (rule machines_reachable)
  have "unanswered w" using unanswered_reachable [where p = p, OF assms(1-5)] assms(6) by simp
  then show "ok (spqrSendWith p random now (sw_state w True)) \<longleftrightarrow> length (sw_sent w True) < 65536"
    using b assms(1,2,7) by (intro unanswered_send(1))
  from \<open>unanswered w\<close> show "length (sw_sent w True) \<le> 65536" by (auto simp: unanswered_def)
qed

text \<open>The bound is reached: the initiator of the sample run sends 65,536 messages and then no other.\<close>

theorem spqr_one_way_bounded_witness:
  "\<exists>info w0 w. spqr_start run_spqr (zeros 32) info w0 \<and> (spqr_step run_spqr)\<^sup>*\<^sup>* w0 w \<and> sw_sent w False = [] \<and>
     length (sw_sent w True) = 65536 \<and> \<not> ok (spqrSendWith run_spqr zeros 5 (sw_state w True))"
proof -
  obtain info w0 where r: "spqr_start run_spqr (zeros 32) info w0"
    using spqr_sample_run by blast
  have laws: "\<And>k d. length (sp_hmac run_spqr k d) = 32" "braid_kem_laws (sp_braid_kem run_spqr)" "length (zeros 32) = 32"
    and rnd: "\<And>n. length (zeros n) = n"
    by (simp_all add: length_run_hmac sample_braid_laws zeros_def)
  note bound = spqr_one_way_bounded [where p = run_spqr and random = zeros and now = 5, OF laws r _ _ rnd]
  have "\<exists>w. (spqr_step run_spqr)\<^sup>*\<^sup>* w0 w \<and> sw_sent w False = [] \<and> length (sw_sent w True) = n" if "n \<le> 65536" for n
    using that
  proof (induction n)
    case 0
    with r show ?case by (auto simp: spqr_start_def)
  next
    case (Suc n)
    then obtain w where w: "(spqr_step run_spqr)\<^sup>*\<^sup>* w0 w" "sw_sent w False = []" "length (sw_sent w True) = n" by auto
    with Suc.prems bound [OF w(1,2)] obtain x s where x: "spqrSendWith run_spqr zeros 5 (sw_state w True) = Inr (x, s)"
      by (auto simp: ok_iff)
    let ?w = "w\<lparr>sw_state := (sw_state w)(True := s), sw_sent := (sw_sent w)(True := sw_sent w True @ [x])\<rparr>"
    have "(spqr_step run_spqr)\<^sup>*\<^sup>* w0 ?w" using w(1) spqr_step.sends [OF rnd x] by (meson rtranclp.rtrancl_into_rtrancl)
    with w show ?case by (intro exI [of _ ?w]) simp
  qed
  then obtain w where w: "(spqr_step run_spqr)\<^sup>*\<^sup>* w0 w" "sw_sent w False = []" "length (sw_sent w True) = 65536" by blast
  with r bound [OF w(1,2)] show ?thesis by auto
qed

end
