(* ===== verification/Sender_Store.thy ===== *)
theory Sender_Store
  imports Memory_Store
begin

text \<open>
  The sender keys of the in-memory store (local/store/memory/adapter.ts): the current state of each device of a group,
  the records of the current and previous states, the skipped message keys, and the handoff rows.

  The nested maps of groups, users and devices are nested association lists. The text keys of the records and of the
  skipped keys are the tuples that the code turns into JSON, so a prefix of such a text is equality of the first parts.
  A sort by chain index is \<open>sort_key\<close>, which is stable as the sort of JavaScript is. A write is staged and published
  at its end, so an injected failure leaves the tables as they were.

  Shown here: what the sender-key manager relies on (the locale \<open>sender_key_store\<close>), proved of this store.
\<close>

section \<open>Definitions\<close>

subsection \<open>Maps of maps\<close>

type_synonym sender_addr = "js_string \<times> js_string \<times> int"
type_synonym skipped_id = "js_string \<times> js_string \<times> int \<times> js_string \<times> nat"
type_synonym skipped_table = "(skipped_id \<times> SkippedSenderMessageKey) list"
type_synonym sender_key_table = "(js_string \<times> (js_string \<times> (int \<times> SenderKeyState) list) list) list"

definition map_or_new :: "'k \<Rightarrow> ('k \<times> ('l \<times> 'v) list) list \<Rightarrow> ('l \<times> 'v) list" where
  "map_or_new k m = (case map_of m k of None \<Rightarrow> [] | Some inner \<Rightarrow> inner)"

definition nested_set :: "js_string \<Rightarrow> js_string \<Rightarrow> int \<Rightarrow> SenderKeyState \<Rightarrow> sender_key_table \<Rightarrow> sender_key_table" where
  "nested_set groupId user device state m =
     (let groupMap = map_or_new groupId m; userMap = map_or_new user groupMap
      in AList.update groupId (AList.update user (AList.update device state userMap) groupMap) m)"

definition nested_get :: "js_string \<Rightarrow> js_string \<Rightarrow> int \<Rightarrow> sender_key_table \<Rightarrow> SenderKeyState option" where
  "nested_get groupId user device m =
     Option.bind (map_of m groupId) (\<lambda>groupMap. Option.bind (map_of groupMap user) (\<lambda>userMap. map_of userMap device))"

subsection \<open>Current states\<close>

definition storeSenderKey ::
    "js_string \<Rightarrow> js_string \<Rightarrow> int \<Rightarrow> SenderKeyState \<Rightarrow> ('q MemoryStore, unit) action" where
  "storeSenderKey groupId user device state =
     bnd (failures_beforeWrite ''storeSenderKey'') (\<lambda>_.
     write_store (\<lambda>s. s\<lparr>senderKeys := nested_set groupId user device state (senderKeys s)\<rparr>))"

definition getSenderKey :: "js_string \<Rightarrow> js_string \<Rightarrow> int \<Rightarrow> ('q MemoryStore, SenderKeyState option) action" where
  "getSenderKey groupId user device = read_store (\<lambda>s. nested_get groupId user device (senderKeys s))"

definition delete_group_handoffs :: "bool \<Rightarrow> js_string \<Rightarrow> 'q MemoryStore \<Rightarrow> 'q MemoryStore" where
  "delete_group_handoffs deleteSenderKeyHandoffs groupId s =
     (if deleteSenderKeyHandoffs then s\<lparr>senderKeyHandoffs := deleteGroup groupId (senderKeyHandoffs s)\<rparr> else s)"

definition forget_sender_key ::
    "js_string \<Rightarrow> js_string \<Rightarrow> int \<Rightarrow> 'q MemoryStore \<Rightarrow> 'q MemoryStore" where
  "forget_sender_key groupId user device s =
     (case map_of (senderKeys s) groupId of None \<Rightarrow> s
      | Some groupMap \<Rightarrow>
          (case map_of groupMap user of None \<Rightarrow> s
           | Some userMap \<Rightarrow>
               let userMap = AList.delete device userMap;
                   groupMap = (if userMap = [] then AList.delete user groupMap else AList.update user userMap groupMap)
               in s\<lparr>senderKeyRecords := AList.delete (groupId, user, device) (senderKeyRecords s),
                    senderKeys := (if groupMap = [] then AList.delete groupId (senderKeys s)
                                   else AList.update groupId groupMap (senderKeys s))\<rparr>))"

definition deleteSenderKey ::
    "js_string \<Rightarrow> js_string \<Rightarrow> int \<Rightarrow> bool \<Rightarrow> ('q MemoryStore, unit) action" where
  "deleteSenderKey groupId user device deleteSenderKeyHandoffs =
     bnd (failures_beforeWrite ''deleteSenderKey'') (\<lambda>_.
     write_store (\<lambda>s. forget_sender_key groupId user device (delete_group_handoffs deleteSenderKeyHandoffs groupId s)))"

definition has_sender_key :: "js_string \<Rightarrow> SenderKeyState list \<Rightarrow> bool" where
  "has_sender_key senderKeyId record = list_ex (\<lambda>previous. sk_senderKeyId previous = senderKeyId) record"

definition resolveGroupForSenderKeyId ::
    "js_string \<Rightarrow> js_string \<Rightarrow> int \<Rightarrow> ('q MemoryStore, js_string option) action" where
  "resolveGroupForSenderKeyId senderKeyId user device =
     read_store (\<lambda>s. if senderKeyId = [] then None
       else map_option fst (find (\<lambda>(groupId, groupMap).
              case Option.bind (map_of groupMap user) (\<lambda>userMap. map_of userMap device) of
                None \<Rightarrow> False
              | Some state \<Rightarrow> sk_senderKeyId state = senderKeyId \<or>
                  (case map_of (senderKeyRecords s) (groupId, user, device) of
                     None \<Rightarrow> False | Some record \<Rightarrow> has_sender_key senderKeyId record)) (senderKeys s)))"

definition getAllSenderKeysForGroup :: "js_string \<Rightarrow> ('q MemoryStore, SenderKeyState list) action" where
  "getAllSenderKeysForGroup groupId =
     read_store (\<lambda>s. concat (map (\<lambda>(user, userMap). map snd userMap) (map_or_new groupId (senderKeys s))))"

definition deleteAllSenderKeysForGroup :: "js_string \<Rightarrow> ('q MemoryStore, nat) action" where
  "deleteAllSenderKeysForGroup groupId =
     bnd (failures_beforeWrite ''deleteAllSenderKeysForGroup'') (\<lambda>_.
     bnd (write_store (\<lambda>s. s\<lparr>senderKeyHandoffs := deleteGroup groupId (senderKeyHandoffs s),
            skippedSenderKeys := filter (\<lambda>((g, _), _). g \<noteq> groupId) (skippedSenderKeys s)\<rparr>)) (\<lambda>_.
     bnd (read_store (\<lambda>s. map_of (senderKeys s) groupId)) (\<lambda>groupMap.
     case groupMap of None \<Rightarrow> ret 0
     | Some groupMap \<Rightarrow>
         bnd (write_store (\<lambda>s. s\<lparr>senderKeyRecords := fold (\<lambda>(user, userMap). fold (\<lambda>(device, _).
                  AList.delete (groupId, user, device)) userMap) groupMap (senderKeyRecords s),
                senderKeys := AList.delete groupId (senderKeys s)\<rparr>)) (\<lambda>_.
         ret (sum_list (map (\<lambda>(user, userMap). length userMap) groupMap))))))"

subsection \<open>Skipped message keys\<close>

definition skipped_addr :: "skipped_id \<Rightarrow> sender_addr" where
  "skipped_addr k = (case k of (groupId, user, device, senderKeyId, i) \<Rightarrow> (groupId, user, device))"

definition skipped_index :: "skipped_id \<Rightarrow> nat" where
  "skipped_index k = (case k of (groupId, user, device, senderKeyId, i) \<Rightarrow> i)"

definition storeSkippedSenderKey :: "js_string \<Rightarrow> js_string \<Rightarrow> int \<Rightarrow> js_string \<Rightarrow> nat \<Rightarrow>
    SkippedSenderMessageKey \<Rightarrow> ('q MemoryStore, unit) action" where
  "storeSkippedSenderKey groupId sender device senderKeyId i messageKey =
     bnd (failures_beforeWrite ''storeSkippedSenderKey'') (\<lambda>_.
     write_store (\<lambda>s. s\<lparr>skippedSenderKeys :=
       AList.update (groupId, sender, device, senderKeyId, i) messageKey (skippedSenderKeys s)\<rparr>))"

definition getSkippedSenderKey :: "js_string \<Rightarrow> js_string \<Rightarrow> int \<Rightarrow> js_string \<Rightarrow> nat \<Rightarrow>
    ('q MemoryStore, SkippedSenderMessageKey option) action" where
  "getSkippedSenderKey groupId sender device senderKeyId i =
     read_store (\<lambda>s. map_of (skippedSenderKeys s) (groupId, sender, device, senderKeyId, i))"

definition deleteSkippedSenderKey :: "js_string \<Rightarrow> js_string \<Rightarrow> int \<Rightarrow> js_string \<Rightarrow> nat \<Rightarrow>
    ('q MemoryStore, unit) action" where
  "deleteSkippedSenderKey groupId sender device senderKeyId i =
     bnd (failures_beforeWrite ''deleteSkippedSenderKey'') (\<lambda>_.
     write_store (\<lambda>s. s\<lparr>skippedSenderKeys :=
       AList.delete (groupId, sender, device, senderKeyId, i) (skippedSenderKeys s)\<rparr>))"

text \<open>The keys of one device of a group, the lowest chain index first.\<close>

definition skipped_of :: "sender_addr \<Rightarrow> skipped_table \<Rightarrow> skipped_id list" where
  "skipped_of a table = sort_key skipped_index (filter (\<lambda>k. skipped_addr k = a) (map fst table))"

definition countSkippedSenderKeys :: "js_string \<Rightarrow> js_string \<Rightarrow> int \<Rightarrow> ('q MemoryStore, nat) action" where
  "countSkippedSenderKeys groupId sender device =
     read_store (\<lambda>s. length (filter (\<lambda>k. skipped_addr k = (groupId, sender, device)) (map fst (skippedSenderKeys s))))"

definition deleteOldestSkippedSenderKeys ::
    "js_string \<Rightarrow> js_string \<Rightarrow> int \<Rightarrow> nat \<Rightarrow> ('q MemoryStore, nat) action" where
  "deleteOldestSkippedSenderKeys groupId sender device count =
     bnd (failures_beforeWrite ''deleteOldestSkippedSenderKeys'') (\<lambda>_.
     bnd (read_store (\<lambda>s. take count (skipped_of (groupId, sender, device) (skippedSenderKeys s)))) (\<lambda>toDelete.
     bnd (write_store (\<lambda>s. s\<lparr>skippedSenderKeys := fold AList.delete toDelete (skippedSenderKeys s)\<rparr>)) (\<lambda>_.
     ret (length toDelete))))"

subsection \<open>Records\<close>

record StagedSkippedKey =
  ss_senderKeyId :: js_string
  ss_chainIndex :: nat
  ss_messageKey :: SkippedSenderMessageKey

text \<open>An absent \<open>skippedKeys\<close> is an empty list of keys.\<close>

record SenderKeyReceiveCommit =
  rc_work :: "ReceiveWorkRecord option"
  rc_consumedSkippedKey :: "(js_string \<times> nat) option"
  rc_maxSkippedKeys :: nat
  rc_skippedKeys :: "StagedSkippedKey list"

definition no_receive :: SenderKeyReceiveCommit where
  "no_receive = \<lparr>rc_work = None, rc_consumedSkippedKey = None, rc_maxSkippedKeys = 0, rc_skippedKeys = []\<rparr>"

definition skipped_sender_key :: "sender_addr \<Rightarrow> js_string \<times> nat \<Rightarrow> skipped_id" where
  "skipped_sender_key a k = (fst a, fst (snd a), snd (snd a), fst k, snd k)"

primrec stage_skipped ::
    "sender_addr \<Rightarrow> nat \<Rightarrow> StagedSkippedKey list \<Rightarrow> skipped_table \<Rightarrow> ('q MemoryStore, skipped_table) action" where
  "stage_skipped a maxSkippedKeys [] skippedKeys = ret skippedKeys"
| "stage_skipped a maxSkippedKeys (skipped # more_keys) skippedKeys =
     (let existing = skipped_of a skippedKeys; count = length existing - (maxSkippedKeys - 1) in
      bnd (if count > 0
           then bnd (failures_beforeWrite ''deleteOldestSkippedSenderKeys'') (\<lambda>_.
                ret (fold AList.delete (take count existing) skippedKeys))
           else ret skippedKeys) (\<lambda>skippedKeys.
      bnd (failures_beforeWrite ''storeSkippedSenderKey'') (\<lambda>_.
      stage_skipped a maxSkippedKeys more_keys
        (AList.update (skipped_sender_key a (ss_senderKeyId skipped, ss_chainIndex skipped)) (ss_messageKey skipped) skippedKeys))))"

definition storeSenderKeyRecord :: "js_string \<Rightarrow> js_string \<Rightarrow> int \<Rightarrow> SenderKeyState list \<Rightarrow>
    SenderKeyReceiveCommit \<Rightarrow> bool \<Rightarrow> ('q MemoryStore, unit) action" where
  "storeSenderKeyRecord groupId user device states receive deleteSenderKeyHandoffs =
     bnd (failures_beforeWrite ''storeSenderKeyRecord'') (\<lambda>_.
     if states = [] then ret ()
     else
       bnd (of_result (case rc_work receive of None \<Rightarrow> Inr () | Some work \<Rightarrow> assertReceiveWork work (workId work))) (\<lambda>_.
       bnd (read_store skippedSenderKeys) (\<lambda>skippedKeys.
       bnd (stage_skipped (groupId, user, device) (rc_maxSkippedKeys receive) (rc_skippedKeys receive) skippedKeys) (\<lambda>skippedKeys.
       bnd (case rc_consumedSkippedKey receive of None \<Rightarrow> ret skippedKeys
            | Some k \<Rightarrow> bnd (failures_beforeWrite ''deleteSkippedSenderKey'') (\<lambda>_.
                ret (AList.delete (skipped_sender_key (groupId, user, device) k) skippedKeys))) (\<lambda>skippedKeys.
       bnd (if rc_work receive = None then ret () else failures_beforeWrite ''putReceiveWork'') (\<lambda>_.
       write_store (\<lambda>s. delete_group_handoffs deleteSenderKeyHandoffs groupId
         (s\<lparr>senderKeys := nested_set groupId user device (hd states) (senderKeys s),
            senderKeyRecords := AList.update (groupId, user, device) states (senderKeyRecords s),
            skippedSenderKeys := skippedKeys,
            receiveWork := (case rc_work receive of None \<Rightarrow> receiveWork s
              | Some work \<Rightarrow> AList.update (workId work) work (receiveWork s))\<rparr>))))))))"

definition getSenderKeyRecord :: "js_string \<Rightarrow> js_string \<Rightarrow> int \<Rightarrow> ('q MemoryStore, SenderKeyState list option) action" where
  "getSenderKeyRecord groupId user device =
     read_store (\<lambda>s. case map_of (senderKeyRecords s) (groupId, user, device) of
         Some record \<Rightarrow> Some record
       | None \<Rightarrow> map_option (\<lambda>currentState. [currentState]) (nested_get groupId user device (senderKeys s)))"

subsection \<open>Handoff rows\<close>

definition recordSenderKeyHandoff :: "SenderKeyHandoffRecord \<Rightarrow> ('q MemoryStore, unit) action" where
  "recordSenderKeyHandoff record =
     bnd (failures_beforeWrite ''recordSenderKeyHandoff'') (\<lambda>_.
     write_store (\<lambda>s. s\<lparr>senderKeyHandoffs := handoff_record record (senderKeyHandoffs s)\<rparr>))"

definition listSenderKeyHandoffs :: "js_string \<Rightarrow> nat \<Rightarrow> ('q MemoryStore, SenderKeyHandoffRecord list) action" where
  "listSenderKeyHandoffs groupId generation = read_store (\<lambda>s. handoff_list groupId generation (senderKeyHandoffs s))"

text \<open>A change of the handoff table with a result.\<close>

definition change_handoffs ::
    "(SenderKeyHandoffTable \<Rightarrow> 'a \<times> SenderKeyHandoffTable) \<Rightarrow> ('q MemoryStore, 'a) action" where
  "change_handoffs f s = (Inr (fst (f (senderKeyHandoffs s))), s\<lparr>senderKeyHandoffs := snd (f (senderKeyHandoffs s))\<rparr>)"

definition invalidateSenderKeyHandoff :: "js_string \<Rightarrow> ProtocolAddress \<Rightarrow> ('q MemoryStore, bool) action" where
  "invalidateSenderKeyHandoff groupId device =
     bnd (failures_beforeWrite ''invalidateSenderKeyHandoff'') (\<lambda>_. change_handoffs (deleteDeviceInGroup groupId device))"

definition invalidateAccountSenderKeyHandoffs :: "js_string \<Rightarrow> ('q MemoryStore, bool) action" where
  "invalidateAccountSenderKeyHandoffs user =
     bnd (failures_beforeWrite ''invalidateAccountSenderKeyHandoffs'') (\<lambda>_. change_handoffs (deleteAccount user))"

definition listSenderKeyHandoffGroupIds :: "('q MemoryStore, js_string list) action" where
  "listSenderKeyHandoffGroupIds = read_store (\<lambda>s. map fst (senderKeyHandoffs s))"

definition retainSenderKeyHandoffs :: "js_string \<Rightarrow> js_string option \<Rightarrow> ('q MemoryStore, nat) action" where
  "retainSenderKeyHandoffs groupId senderKeyId =
     bnd (failures_beforeWrite ''retainSenderKeyHandoffs'') (\<lambda>_. change_handoffs (retain_handoffs groupId senderKeyId))"

subsection \<open>The store as the sender-key manager sees it\<close>

record 's SenderKeyStorage =
  ks_getSenderKey :: "js_string \<Rightarrow> js_string \<Rightarrow> int \<Rightarrow> ('s, SenderKeyState option) action"
  ks_storeSenderKey :: "js_string \<Rightarrow> js_string \<Rightarrow> int \<Rightarrow> SenderKeyState \<Rightarrow> ('s, unit) action"
  ks_deleteSenderKey :: "js_string \<Rightarrow> js_string \<Rightarrow> int \<Rightarrow> bool \<Rightarrow> ('s, unit) action"
  ks_resolveGroupForSenderKeyId :: "js_string \<Rightarrow> js_string \<Rightarrow> int \<Rightarrow> ('s, js_string option) action"
  ks_getSenderKeyRecord :: "js_string \<Rightarrow> js_string \<Rightarrow> int \<Rightarrow> ('s, SenderKeyState list option) action"
  ks_storeSenderKeyRecord ::
    "js_string \<Rightarrow> js_string \<Rightarrow> int \<Rightarrow> SenderKeyState list \<Rightarrow> SenderKeyReceiveCommit \<Rightarrow> bool \<Rightarrow> ('s, unit) action"
  ks_getSkippedSenderKey ::
    "js_string \<Rightarrow> js_string \<Rightarrow> int \<Rightarrow> js_string \<Rightarrow> nat \<Rightarrow> ('s, SkippedSenderMessageKey option) action"
  ks_countSkippedSenderKeys :: "js_string \<Rightarrow> js_string \<Rightarrow> int \<Rightarrow> ('s, nat) action"

definition memory_sender_keys :: "'q MemoryStore SenderKeyStorage" where
  "memory_sender_keys =
     \<lparr>ks_getSenderKey = getSenderKey, ks_storeSenderKey = storeSenderKey, ks_deleteSenderKey = deleteSenderKey,
      ks_resolveGroupForSenderKeyId = resolveGroupForSenderKeyId, ks_getSenderKeyRecord = getSenderKeyRecord,
      ks_storeSenderKeyRecord = storeSenderKeyRecord, ks_getSkippedSenderKey = getSkippedSenderKey,
      ks_countSkippedSenderKeys = countSkippedSenderKeys\<rparr>"

section \<open>The contract of a sender-key store\<close>

text \<open>
  What the manager relies on. The state of a store shows a current state, a record and the skipped keys of each device of a
  group. Reading gives what is shown. A write that succeeds changes what it is told to change, for its device only; one that
  throws changes nothing that is shown. Staged keys are added unless there are too many: no key appears that was not stored
  or staged, a consumed key is gone, the bound holds, and nothing is evicted while all keys fit.
\<close>

definition previous_states :: "SenderKeyState list option \<Rightarrow> SenderKeyState list" where
  "previous_states r = (case r of None \<Rightarrow> [] | Some states \<Rightarrow> tl states)"

definition staged_map :: "StagedSkippedKey list \<Rightarrow> js_string \<times> nat \<Rightarrow> SkippedSenderMessageKey option" where
  "staged_map ks = map_of (rev (map (\<lambda>k. ((ss_senderKeyId k, ss_chainIndex k), ss_messageKey k)) ks))"

definition consumed_keys :: "SenderKeyReceiveCommit \<Rightarrow> (js_string \<times> nat) set" where
  "consumed_keys receive = set_option (rc_consumedSkippedKey receive)"

locale sender_key_store =
  fixes st :: "'s SenderKeyStorage" and valid :: "'s \<Rightarrow> bool"
    and cur :: "'s \<Rightarrow> sender_addr \<Rightarrow> SenderKeyState option"
    and rcd :: "'s \<Rightarrow> sender_addr \<Rightarrow> SenderKeyState list option"
    and skp :: "'s \<Rightarrow> sender_addr \<Rightarrow> js_string \<times> nat \<Rightarrow> SkippedSenderMessageKey option"
  assumes get_key: "ks_getSenderKey st g u d s = (Inr (cur s (g, u, d)), s)"
    and get_record: "ks_getSenderKeyRecord st g u d s = (Inr (rcd s (g, u, d)), s)"
    and get_skipped: "ks_getSkippedSenderKey st g u d i n s = (Inr (skp s (g, u, d) (i, n)), s)"
    and valid_record: "valid s \<Longrightarrow> (rcd s a = None \<longleftrightarrow> cur s a = None) \<and> rcd s a \<noteq> Some []"
    and valid_skipped: "valid s \<Longrightarrow> finite (dom (skp s a))"
    and store_key: "ks_storeSenderKey st g u d k s = (Inr (), t) \<Longrightarrow> valid s \<Longrightarrow>
      valid t \<and> cur t = (cur s)((g, u, d) \<mapsto> k) \<and> skp t = skp s \<and> (\<forall>b. b \<noteq> (g, u, d) \<longrightarrow> rcd t b = rcd s b) \<and>
      previous_states (rcd t (g, u, d)) = previous_states (rcd s (g, u, d)) \<and>
      (rcd t (g, u, d) = Some (k # previous_states (rcd s (g, u, d))) \<or> rcd t (g, u, d) = rcd s (g, u, d))"
    and store_key_error: "ks_storeSenderKey st g u d k s = (Inl e, t) \<Longrightarrow>
      cur t = cur s \<and> rcd t = rcd s \<and> skp t = skp s \<and> (valid s \<longrightarrow> valid t)"
    and store_record: "ks_storeSenderKeyRecord st g u d (k # ks) receive h s = (Inr (), t) \<Longrightarrow> valid s \<Longrightarrow>
      valid t \<and> cur t = (cur s)((g, u, d) \<mapsto> k) \<and> rcd t = (rcd s)((g, u, d) \<mapsto> k # ks) \<and>
      (\<forall>b. b \<noteq> (g, u, d) \<longrightarrow> skp t b = skp s b) \<and>
      (\<forall>x v. skp t (g, u, d) x = Some v \<longrightarrow>
        x \<notin> consumed_keys receive \<and> (skp s (g, u, d) ++ staged_map (rc_skippedKeys receive)) x = Some v) \<and>
      (card (dom (skp s (g, u, d))) \<le> max 1 (rc_maxSkippedKeys receive) \<or> rc_skippedKeys receive \<noteq> [] \<longrightarrow>
        card (dom (skp t (g, u, d))) \<le> max 1 (rc_maxSkippedKeys receive)) \<and>
      (rc_skippedKeys receive = [] \<longrightarrow> skp t (g, u, d) = (skp s (g, u, d)) |` (- consumed_keys receive)) \<and>
      (card (dom (skp s (g, u, d))) + length (rc_skippedKeys receive) \<le> rc_maxSkippedKeys receive \<longrightarrow>
        skp t (g, u, d) = (skp s (g, u, d) ++ staged_map (rc_skippedKeys receive)) |` (- consumed_keys receive))"
    and store_record_error: "ks_storeSenderKeyRecord st g u d ks receive h s = (Inl e, t) \<Longrightarrow>
      cur t = cur s \<and> rcd t = rcd s \<and> skp t = skp s \<and> (valid s \<longrightarrow> valid t)"
    and delete_key: "ks_deleteSenderKey st g u d h s = (Inr (), t) \<Longrightarrow> valid s \<Longrightarrow>
      valid t \<and> cur t = (cur s)((g, u, d) := None) \<and> rcd t = (rcd s)((g, u, d) := None) \<and> skp t = skp s"
    and delete_key_error: "ks_deleteSenderKey st g u d h s = (Inl e, t) \<Longrightarrow>
      cur t = cur s \<and> rcd t = rcd s \<and> skp t = skp s \<and> (valid s \<longrightarrow> valid t)"
begin

lemma record_cases:
  assumes "valid s" and "cur s a = Some c"
  obtains x xs where "rcd s a = Some (x # xs)"
  using valid_record [OF assms(1), of a] assms(2) by (cases "rcd s a") (auto simp: neq_Nil_conv)

lemma no_record: "valid s \<Longrightarrow> cur s a = None \<Longrightarrow> rcd s a = None"
  using valid_record by blast

end

section \<open>The memory store keeps the contract\<close>

definition key_view :: "'q MemoryStore \<Rightarrow> sender_addr \<Rightarrow> SenderKeyState option" where
  "key_view s a = nested_get (fst a) (fst (snd a)) (snd (snd a)) (senderKeys s)"

definition record_view :: "'q MemoryStore \<Rightarrow> sender_addr \<Rightarrow> SenderKeyState list option" where
  "record_view s a = (case map_of (senderKeyRecords s) a of
      Some record \<Rightarrow> Some record | None \<Rightarrow> map_option (\<lambda>c. [c]) (key_view s a))"

definition skipped_view :: "'q MemoryStore \<Rightarrow> sender_addr \<Rightarrow> js_string \<times> nat \<Rightarrow> SkippedSenderMessageKey option" where
  "skipped_view s a k = map_of (skippedSenderKeys s) (skipped_sender_key a k)"

definition sender_tables_ok :: "'q MemoryStore \<Rightarrow> bool" where
  "sender_tables_ok s =
     (distinct (map fst (skippedSenderKeys s)) \<and>
      (\<forall>a r. map_of (senderKeyRecords s) a = Some r \<longrightarrow> r \<noteq> [] \<and> key_view s a \<noteq> None))"

lemma skipped_key_simps [simp]: "skipped_addr (skipped_sender_key a k) = a" "skipped_index (skipped_sender_key a k) = snd k"
  by (cases k; simp add: skipped_addr_def skipped_sender_key_def skipped_index_def)+

lemma skipped_key_inj [simp]: "skipped_sender_key a k = skipped_sender_key b l \<longleftrightarrow> a = b \<and> k = l"
  by (auto simp: skipped_sender_key_def prod_eq_iff)

lemma skipped_key_surj: "skipped_addr x = a \<Longrightarrow> \<exists>k. x = skipped_sender_key a k"
  by (auto simp: skipped_addr_def skipped_sender_key_def split: prod.splits)

lemma nested_get_set:
  "nested_get g u d (nested_set g' u' d' k m) = (if g = g' \<and> u = u' \<and> d = d' then Some k else nested_get g u d m)"
  by (auto simp: nested_get_def nested_set_def map_or_new_def Let_def update_conv' split: option.splits)

text \<open>The staging without the injected failures.\<close>

definition evicted :: "sender_addr \<Rightarrow> nat \<Rightarrow> skipped_table \<Rightarrow> skipped_table" where
  "evicted a M t = fold AList.delete (take (length (skipped_of a t) - (M - 1)) (skipped_of a t)) t"

primrec staged_table :: "sender_addr \<Rightarrow> nat \<Rightarrow> StagedSkippedKey list \<Rightarrow> skipped_table \<Rightarrow> skipped_table" where
  "staged_table a M [] t = t"
| "staged_table a M (k # ks) t = staged_table a M ks
     (AList.update (skipped_sender_key a (ss_senderKeyId k, ss_chainIndex k)) (ss_messageKey k) (evicted a M t))"

lemma stage_skipped_keeps: "keeps beyond_failures (stage_skipped a M ks t)"
  by (induction ks arbitrary: t) (auto simp: Let_def intro!: keeps_intros)

lemma stage_skipped_Inr: "stage_skipped a M ks t s = (Inr t', s') \<Longrightarrow> t' = staged_table a M ks t"
  by (induction ks arbitrary: t s) (auto simp: Let_def bnd_Inr action_eval evicted_def split: if_splits)

lemma fold_delete_map: "map_of (fold AList.delete xs t) = (map_of t) |` (- set xs)"
  by (induction xs arbitrary: t) (auto simp: delete_conv' fun_eq_iff restrict_map_def)

lemma fold_delete_distinct: "distinct (map fst t) \<Longrightarrow> distinct (map fst (fold AList.delete xs t))"
  by (induction xs arbitrary: t) (auto simp: distinct_delete)

lemma staged_distinct: "distinct (map fst t) \<Longrightarrow> distinct (map fst (staged_table a M ks t))"
  by (induction ks arbitrary: t) (simp_all add: distinct_update fold_delete_distinct evicted_def)

definition skipped_part :: "skipped_table \<Rightarrow> sender_addr \<Rightarrow> js_string \<times> nat \<Rightarrow> SkippedSenderMessageKey option" where
  "skipped_part t a k = map_of t (skipped_sender_key a k)"

lemma set_skipped_of: "set (skipped_of a t) = skipped_sender_key a ` dom (skipped_part t a)"
proof
  show "set (skipped_of a t) \<subseteq> skipped_sender_key a ` dom (skipped_part t a)"
  proof
    fix x assume "x \<in> set (skipped_of a t)"
    then have "x \<in> fst ` set t" "skipped_addr x = a" by (auto simp: skipped_of_def)
    then obtain k where "x = skipped_sender_key a k" "map_of t x \<noteq> None" using skipped_key_surj by (metis map_of_eq_None_iff)
    then show "x \<in> skipped_sender_key a ` dom (skipped_part t a)" by (auto simp: skipped_part_def)
  qed
  show "skipped_sender_key a ` dom (skipped_part t a) \<subseteq> set (skipped_of a t)"
    by (auto simp: skipped_part_def skipped_of_def dest: map_of_SomeD)
      (metis (no_types) fst_conv image_eqI map_of_SomeD)
qed

lemma finite_skipped_part: "finite (dom (skipped_part t a))"
proof -
  have "inj_on (skipped_sender_key a) (dom (skipped_part t a))" by (rule inj_onI) simp
  then show ?thesis using finite_imageD [of "skipped_sender_key a"] set_skipped_of [of a t] by (metis List.finite_set)
qed

lemma length_skipped_of: "distinct (map fst t) \<Longrightarrow> length (skipped_of a t) = card (dom (skipped_part t a))"
proof -
  assume "distinct (map fst t)"
  then have "distinct (skipped_of a t)" by (simp add: skipped_of_def)
  then have "length (skipped_of a t) = card (skipped_sender_key a ` dom (skipped_part t a))"
    by (simp only: distinct_card [symmetric] set_skipped_of)
  also have "\<dots> = card (dom (skipped_part t a))" by (rule card_image) (simp add: inj_on_def)
  finally show ?thesis .
qed

lemma evicted_other: "b \<noteq> a \<Longrightarrow> skipped_part (evicted a M t) b = skipped_part t b"
proof -
  assume "b \<noteq> a"
  then have "skipped_sender_key b k \<notin> set (take n (skipped_of a t))" for k n
    using set_take_subset [of n "skipped_of a t"] set_skipped_of [of a t] by auto
  then show ?thesis by (simp add: fun_eq_iff skipped_part_def evicted_def fold_delete_map)
qed

lemma evicted_le: "skipped_part (evicted a M t) a \<subseteq>\<^sub>m skipped_part t a"
  by (auto simp: map_le_def skipped_part_def evicted_def fold_delete_map restrict_map_def split: if_splits)

lemma evicted_none: "length (skipped_of a t) \<le> M - 1 \<Longrightarrow> evicted a M t = t"
  by (simp add: evicted_def)

lemma card_evicted:
  assumes "distinct (map fst t)"
  shows "card (dom (skipped_part (evicted a M t) a)) \<le> M - 1"
proof -
  let ?xs = "skipped_of a t" and ?n = "length (skipped_of a t) - (M - 1)"
  have d: "distinct ?xs" using assms by (simp add: skipped_of_def)
  have "skipped_sender_key a ` dom (skipped_part (evicted a M t) a) \<subseteq> set (drop ?n ?xs)"
  proof
    fix x assume "x \<in> skipped_sender_key a ` dom (skipped_part (evicted a M t) a)"
    then have "x \<notin> set (take ?n ?xs)" "x \<in> set ?xs"
      by (auto simp: set_skipped_of skipped_part_def evicted_def fold_delete_map restrict_map_def split: if_splits)
    then show "x \<in> set (drop ?n ?xs)" by (metis Un_iff append_take_drop_id set_append)
  qed
  then have "card (skipped_sender_key a ` dom (skipped_part (evicted a M t) a)) \<le> card (set (drop ?n ?xs))"
    by (rule card_mono [OF List.finite_set])
  also have "\<dots> \<le> length (drop ?n ?xs)" by (rule card_length)
  also have "\<dots> \<le> M - 1" by simp
  finally show ?thesis by (simp add: card_image inj_on_def)
qed

lemma part_update:
  "skipped_part (AList.update (skipped_sender_key a x) v t) b = (if b = a then (skipped_part t b)(x \<mapsto> v) else skipped_part t b)"
  by (auto simp: skipped_part_def fun_eq_iff update_conv')

lemma evicted_distinct: "distinct (map fst t) \<Longrightarrow> distinct (map fst (evicted a M t))"
  by (simp add: evicted_def fold_delete_distinct)

lemma staged_map_Cons: "staged_map (k # ks) = [(ss_senderKeyId k, ss_chainIndex k) \<mapsto> ss_messageKey k] ++ staged_map ks"
  by (simp add: staged_map_def map_add_def fun_eq_iff split: option.splits)

lemma staged_map_Nil [simp]: "staged_map [] = Map.empty"
  by (simp add: staged_map_def)

lemma staged_other: "b \<noteq> a \<Longrightarrow> skipped_part (staged_table a M ks t) b = skipped_part t b"
  by (induction ks arbitrary: t) (simp_all add: part_update evicted_other)

lemma staged_le: "skipped_part (staged_table a M ks t) a \<subseteq>\<^sub>m skipped_part t a ++ staged_map ks"
proof (induction ks arbitrary: t)
  case (Cons k ks)
  let ?x = "(ss_senderKeyId k, ss_chainIndex k)"
  have "(skipped_part (evicted a M t) a)(?x \<mapsto> ss_messageKey k) \<subseteq>\<^sub>m (skipped_part t a)(?x \<mapsto> ss_messageKey k)"
    using evicted_le [of a M t] by (auto simp: map_le_def)
  then have le: "(skipped_part (evicted a M t) a)(?x \<mapsto> ss_messageKey k) ++ staged_map ks \<subseteq>\<^sub>m
      skipped_part t a ++ staged_map (k # ks)"
    by (auto simp: map_le_def staged_map_Cons map_add_def split: option.splits if_splits)
  have "skipped_part (staged_table a M (k # ks) t) a \<subseteq>\<^sub>m
      (skipped_part (evicted a M t) a)(?x \<mapsto> ss_messageKey k) ++ staged_map ks"
    using Cons.IH [of "AList.update (skipped_sender_key a ?x) (ss_messageKey k) (evicted a M t)"]
    by (simp only: part_update if_True simp_thms staged_table.simps)
  then show ?case using le by (rule map_le_trans)
qed simp

lemma staged_card:
  "distinct (map fst t) \<Longrightarrow> card (dom (skipped_part t a)) \<le> max 1 M \<or> ks \<noteq> [] \<Longrightarrow>
   card (dom (skipped_part (staged_table a M ks t) a)) \<le> max 1 M"
proof (induction ks arbitrary: t)
  case (Cons k ks)
  let ?t = "AList.update (skipped_sender_key a (ss_senderKeyId k, ss_chainIndex k)) (ss_messageKey k) (evicted a M t)"
  have d: "distinct (map fst ?t)" by (simp add: distinct_update evicted_distinct Cons.prems)
  have "card (dom (skipped_part ?t a)) \<le> Suc (card (dom (skipped_part (evicted a M t) a)))"
    by (simp add: part_update card_insert_if finite_skipped_part)
  also have "\<dots> \<le> Suc (M - 1)" using card_evicted Cons.prems by simp
  finally have "card (dom (skipped_part ?t a)) \<le> max 1 M" by simp
  with Cons.IH [OF d] show ?case by simp
qed simp

lemma staged_all:
  "distinct (map fst t) \<Longrightarrow> card (dom (skipped_part t a)) + length ks \<le> M \<Longrightarrow>
   skipped_part (staged_table a M ks t) a = skipped_part t a ++ staged_map ks"
proof (induction ks arbitrary: t)
  case (Cons k ks)
  let ?x = "(ss_senderKeyId k, ss_chainIndex k)"
  let ?t = "AList.update (skipped_sender_key a ?x) (ss_messageKey k) t"
  have e: "evicted a M t = t" using Cons.prems by (intro evicted_none) (simp add: length_skipped_of)
  have "card (dom (skipped_part ?t a)) \<le> Suc (card (dom (skipped_part t a)))"
    by (simp add: part_update card_insert_if finite_skipped_part)
  then have "skipped_part (staged_table a M ks ?t) a = skipped_part ?t a ++ staged_map ks"
    using Cons.IH [of ?t] Cons.prems by (simp add: distinct_update)
  then show ?case by (simp add: e part_update staged_map_Cons map_add_assoc [symmetric]) 
qed simp

lemma skipped_view_part: "skipped_view s = skipped_part (skippedSenderKeys s)"
  by (simp add: fun_eq_iff skipped_view_def skipped_part_def)

lemma part_delete: "skipped_part (AList.delete (skipped_sender_key a x) t) b =
    (if b = a then (skipped_part t b) |` (- {x}) else skipped_part t b)"
  by (auto simp: skipped_part_def fun_eq_iff delete_conv' restrict_map_def)

text \<open>What a failed write keeps; the tables stay well-formed with it.\<close>

lemma sender_views_beyond:
  assumes "beyond_failures t = beyond_failures s"
  shows "key_view t = key_view s \<and> record_view t = record_view s \<and> skipped_view t = skipped_view s \<and>
    (sender_tables_ok s \<longrightarrow> sender_tables_ok t)"
proof -
  have t: "t = s\<lparr>failures := failures t\<rparr>" using assms by (metis beyond_failures_eq)
  have k: "key_view t = key_view s" by (subst t) (simp add: fun_eq_iff key_view_def)
  have f: "skippedSenderKeys t = skippedSenderKeys s" "senderKeyRecords t = senderKeyRecords s" by (subst t, simp)+
  have "record_view t a = record_view s a" for a unfolding record_view_def f k ..
  moreover have "skipped_view t = skipped_view s" by (simp add: fun_eq_iff skipped_view_def f)
  ultimately show ?thesis using k by (simp add: sender_tables_ok_def f ext)
qed

lemma storeSenderKey_error: "keeps_on_error beyond_failures (storeSenderKey g u d k)"
  and deleteSenderKey_error: "keeps_on_error beyond_failures (deleteSenderKey g u d h)"
  unfolding storeSenderKey_def deleteSenderKey_def
  by (intro keeps_intros)+

lemma storeSenderKeyRecord_error: "keeps_on_error beyond_failures (storeSenderKeyRecord g u d ks receive h)"
  unfolding storeSenderKeyRecord_def
  by (intro keeps_intros stage_skipped_keeps keeps_error)

lemma sender_views_error:
  assumes "keeps_on_error beyond_failures m" and "m s = (Inl e, t)"
  shows "key_view t = key_view s \<and> record_view t = record_view s \<and> skipped_view t = skipped_view s \<and>
    (sender_tables_ok s \<longrightarrow> sender_tables_ok t)"
proof (rule sender_views_beyond)
  have "\<not> ok (fst (m s)) \<longrightarrow> beyond_failures (snd (m s)) = beyond_failures s"
    using assms(1) unfolding keeps_on_error_def ..
  then show "beyond_failures t = beyond_failures s" by (simp add: assms(2))
qed

lemma beyond_state: "beyond_failures t = beyond_failures s \<Longrightarrow> t = s\<lparr>failures := failures t\<rparr>"
  by (metis beyond_failures_eq)

lemma keeps_state: "keeps beyond_failures m \<Longrightarrow> m s = (r, t) \<Longrightarrow> t = s\<lparr>failures := failures t\<rparr>"
  by (rule beyond_state) (simp add: keeps_def, metis snd_conv)

lemma beforeWrite_Inr:
  assumes "failures_beforeWrite op s = (r, t)" obtains f where "t = s\<lparr>failures := f\<rparr>"
  using beforeWrite_state [OF assms] that by blast

lemma storeSenderKey_ok:
  assumes "storeSenderKey g u d k s = (Inr (), t)"
  shows "\<exists>f. t = s\<lparr>failures := f, senderKeys := nested_set g u d k (senderKeys s)\<rparr>"
proof -
  from assms obtain s1 where s1: "failures_beforeWrite ''storeSenderKey'' s = (Inr (), s1)"
    "t = s1\<lparr>senderKeys := nested_set g u d k (senderKeys s1)\<rparr>"
    by (auto simp: storeSenderKey_def bnd_Inr action_eval)
  show ?thesis by (rule beforeWrite_Inr [OF s1(1)]) (auto simp: s1(2))
qed

lemma storeSenderKeyRecord_ok:
  assumes "storeSenderKeyRecord g u d (k # ks) receive h s = (Inr (), t)"
  shows "\<exists>table. senderKeys t = nested_set g u d k (senderKeys s) \<and>
     senderKeyRecords t = AList.update (g, u, d) (k # ks) (senderKeyRecords s) \<and>
     table = staged_table (g, u, d) (rc_maxSkippedKeys receive) (rc_skippedKeys receive) (skippedSenderKeys s) \<and>
     skippedSenderKeys t = (case rc_consumedSkippedKey receive of None \<Rightarrow> table
       | Some x \<Rightarrow> AList.delete (skipped_sender_key (g, u, d) x) table) \<and>
     senderKeyHandoffs t = (if h then deleteGroup g (senderKeyHandoffs s) else senderKeyHandoffs s)"
proof -
  let ?consume = "\<lambda>table. case rc_consumedSkippedKey receive of None \<Rightarrow> ret table
            | Some k \<Rightarrow> bnd (failures_beforeWrite ''deleteSkippedSenderKey'') (\<lambda>_.
                ret (AList.delete (skipped_sender_key (g, u, d) k) table))"
  let ?work = "if rc_work receive = None then ret () else failures_beforeWrite ''putReceiveWork''"
  from assms obtain s1 s2 s3 s4 table table2 where
    s1: "failures_beforeWrite ''storeSenderKeyRecord'' s = (Inr (), s1)"
    and s2: "stage_skipped (g, u, d) (rc_maxSkippedKeys receive) (rc_skippedKeys receive) (skippedSenderKeys s1) s1 = (Inr table, s2)"
    and s3: "?consume table s2 = (Inr table2, s3)" and s4: "?work s3 = (Inr (), s4)"
    and t: "t = delete_group_handoffs h g
         (s4\<lparr>senderKeys := nested_set g u d k (senderKeys s4),
            senderKeyRecords := AList.update (g, u, d) (k # ks) (senderKeyRecords s4),
            skippedSenderKeys := table2,
            receiveWork := (case rc_work receive of None \<Rightarrow> receiveWork s4
              | Some work \<Rightarrow> AList.update (workId work) work (receiveWork s4))\<rparr>)"
    by (auto simp: storeSenderKeyRecord_def bnd_Inr action_eval)
  have table: "table = staged_table (g, u, d) (rc_maxSkippedKeys receive) (rc_skippedKeys receive) (skippedSenderKeys s1)"
    by (rule stage_skipped_Inr [OF s2])
  have table2: "table2 = (case rc_consumedSkippedKey receive of None \<Rightarrow> table
       | Some x \<Rightarrow> AList.delete (skipped_sender_key (g, u, d) x) table)"
    using s3 by (auto simp: action_eval bnd_Inr split: option.splits)
  obtain f1 where f1: "s1 = s\<lparr>failures := f1\<rparr>" using beforeWrite_Inr [OF s1] .
  have f2: "s2 = s1\<lparr>failures := failures s2\<rparr>" using keeps_state [OF stage_skipped_keeps s2] .
  have f3: "s3 = s2\<lparr>failures := failures s3\<rparr>"
    by (rule keeps_state [where m = "?consume table", OF _ s3]) (intro keeps_intros)
  have f4: "s4 = s3\<lparr>failures := failures s4\<rparr>"
    by (rule keeps_state [where m = ?work, OF _ s4]) (intro keeps_intros)
  have f: "s4 = s\<lparr>failures := failures s4\<rparr>" by (subst f4, subst f3, subst f2, subst f1) simp
  have "senderKeys s4 = senderKeys s" "senderKeyRecords s4 = senderKeyRecords s" "senderKeyHandoffs s4 = senderKeyHandoffs s"
    by (subst f, simp)+
  moreover have "table = staged_table (g, u, d) (rc_maxSkippedKeys receive) (rc_skippedKeys receive) (skippedSenderKeys s)"
    by (simp add: table f1)
  ultimately show ?thesis
    by (intro exI [of _ table]) (simp add: t table2 delete_group_handoffs_def)
qed

lemma record_view_update:
  assumes "senderKeys t = nested_set g u d k (senderKeys s)"
    and "senderKeyRecords t = AList.update (g, u, d) ks (senderKeyRecords s)"
  shows "key_view t = (key_view s)((g, u, d) \<mapsto> k)" and "record_view t = (record_view s)((g, u, d) \<mapsto> ks)"
proof -
  show k: "key_view t = (key_view s)((g, u, d) \<mapsto> k)"
    by (auto simp: fun_eq_iff key_view_def assms nested_get_set)
  show "record_view t = (record_view s)((g, u, d) \<mapsto> ks)"
    by (rule ext) (auto simp: record_view_def assms(2) update_conv' k split: option.splits)
qed

lemma storeSenderKeyRecord_views:
  assumes "storeSenderKeyRecord g u d (k # ks) receive h s = (Inr (), t)" and "sender_tables_ok s"
  shows "sender_tables_ok t" and "key_view t = (key_view s)((g, u, d) \<mapsto> k)"
    and "record_view t = (record_view s)((g, u, d) \<mapsto> k # ks)"
    and "skipped_view t b = (if b = (g, u, d)
       then skipped_part (staged_table (g, u, d) (rc_maxSkippedKeys receive) (rc_skippedKeys receive) (skippedSenderKeys s)) b |`
         (- consumed_keys receive) else skipped_view s b)"
proof -
  from storeSenderKeyRecord_ok [OF assms(1)] obtain table where t: "senderKeys t = nested_set g u d k (senderKeys s)"
    "senderKeyRecords t = AList.update (g, u, d) (k # ks) (senderKeyRecords s)"
    and table: "table = staged_table (g, u, d) (rc_maxSkippedKeys receive) (rc_skippedKeys receive) (skippedSenderKeys s)"
    and skipped: "skippedSenderKeys t = (case rc_consumedSkippedKey receive of None \<Rightarrow> table
       | Some x \<Rightarrow> AList.delete (skipped_sender_key (g, u, d) x) table)" by blast
  show k: "key_view t = (key_view s)((g, u, d) \<mapsto> k)"
    and "record_view t = (record_view s)((g, u, d) \<mapsto> k # ks)"
    using record_view_update [OF t] by simp_all
  have "distinct (map fst table)" using assms(2) by (simp add: table sender_tables_ok_def staged_distinct)
  then have "distinct (map fst (skippedSenderKeys t))"
    by (simp add: skipped distinct_delete split: option.split)
  then show "sender_tables_ok t"
    using assms(2) k by (auto simp: sender_tables_ok_def t(2) update_conv' split: if_splits)
  show "skipped_view t b = (if b = (g, u, d)
       then skipped_part (staged_table (g, u, d) (rc_maxSkippedKeys receive) (rc_skippedKeys receive) (skippedSenderKeys s)) b |`
         (- consumed_keys receive) else skipped_view s b)"
    by (auto simp: skipped_view_part skipped part_delete table staged_other consumed_keys_def restrict_map_def split: option.split)
qed

lemma sender_tables_record: "sender_tables_ok s \<Longrightarrow> map_of (senderKeyRecords s) a = Some r \<Longrightarrow> r \<noteq> [] \<and> key_view s a \<noteq> None"
  unfolding sender_tables_ok_def by blast

text \<open>A deletion, on the tables: nothing is left of the device, and everything of the others.\<close>

definition nested_delete :: "js_string \<Rightarrow> js_string \<Rightarrow> int \<Rightarrow> sender_key_table \<Rightarrow> sender_key_table" where
  "nested_delete g u d m = (case map_of m g of None \<Rightarrow> m | Some groupMap \<Rightarrow> (case map_of groupMap u of None \<Rightarrow> m
     | Some userMap \<Rightarrow>
         let userMap = AList.delete d userMap;
             groupMap = (if userMap = [] then AList.delete u groupMap else AList.update u userMap groupMap)
         in if groupMap = [] then AList.delete g m else AList.update g groupMap m))"

lemma map_of_delete_or_update:
  "map_of (if x = [] then AList.delete k m else AList.update k x m) l =
   (if l = k then (if x = [] then None else Some x) else map_of m l)"
  by (simp add: delete_conv' update_conv')

lemma nested_get_delete:
  "nested_get g u d (nested_delete g' u' d' m) = (if g = g' \<and> u = u' \<and> d = d' then None else nested_get g u d m)"
proof -
  have n: "map_of xs y = None" if "AList.delete x xs = []" "y \<noteq> x" for xs :: "('a \<times> 'b) list" and x y
    using that fun_cong [OF delete_conv' [of x xs], of y] by simp
  show ?thesis
    by (auto simp: nested_get_def nested_delete_def Let_def map_of_delete_or_update delete_conv' dest: n
        split: option.splits if_splits)
qed

lemma deleteSenderKey_views:
  assumes "deleteSenderKey g u d h s = (Inr (), t)" and "sender_tables_ok s"
  shows "sender_tables_ok t" and "key_view t = (key_view s)((g, u, d) := None)"
    and "record_view t = (record_view s)((g, u, d) := None)" and "skipped_view t = skipped_view s"
proof -
  have absent: "map_of (senderKeyRecords s) (g, u, d) = None" if "nested_get g u d (senderKeys s) = None"
    using sender_tables_record [OF assms(2), of "(g, u, d)"] that
    by (cases "map_of (senderKeyRecords s) (g, u, d)") (auto simp: key_view_def)
  from assms(1) obtain s1 where s1: "failures_beforeWrite ''deleteSenderKey'' s = (Inr (), s1)"
    and t1: "t = forget_sender_key g u d (delete_group_handoffs h g s1)"
    by (auto simp: deleteSenderKey_def bnd_Inr action_eval)
  have h: "senderKeys (delete_group_handoffs h g s1) = senderKeys s1"
    "senderKeyRecords (delete_group_handoffs h g s1) = senderKeyRecords s1"
    "skippedSenderKeys (delete_group_handoffs h g s1) = skippedSenderKeys s1"
    by (simp_all add: delete_group_handoffs_def)
  have t: "senderKeys t = nested_delete g u d (senderKeys s1)" "skippedSenderKeys t = skippedSenderKeys s1"
    "map_of (senderKeyRecords t) = (if map_of (senderKeys s1) g = None \<or> map_of (the (map_of (senderKeys s1) g)) u = None
         then map_of (senderKeyRecords s1) else (map_of (senderKeyRecords s1))((g, u, d) := None))"
    by (simp_all add: t1 forget_sender_key_def nested_delete_def Let_def h delete_conv' split: option.split)
  obtain f where f: "s1 = s\<lparr>failures := f\<rparr>" using beforeWrite_Inr [OF s1] .
  have r: "map_of (senderKeyRecords t) = (map_of (senderKeyRecords s))((g, u, d) := None)"
    using absent by (cases "map_of (senderKeys s) g") (auto simp: t f fun_eq_iff nested_get_def)
  show k: "key_view t = (key_view s)((g, u, d) := None)"
    by (auto simp: fun_eq_iff key_view_def t f nested_get_delete)
  show "record_view t = (record_view s)((g, u, d) := None)"
    by (rule ext) (auto simp: record_view_def r k split: option.splits)
  show "skipped_view t = skipped_view s" by (simp add: fun_eq_iff skipped_view_def t f)
  show "sender_tables_ok t" using assms(2) k by (auto simp: sender_tables_ok_def r t f split: if_splits)
qed

interpretation memory_keys: sender_key_store memory_sender_keys sender_tables_ok key_view record_view skipped_view
proof (unfold_locales, goal_cases)
  case (1 g u d s)
  then show ?case by (simp add: memory_sender_keys_def getSenderKey_def action_eval key_view_def)
next
  case (2 g u d s)
  then show ?case by (simp add: memory_sender_keys_def getSenderKeyRecord_def action_eval record_view_def key_view_def split: option.split)
next
  case (3 g u d i n s)
  then show ?case by (simp add: memory_sender_keys_def getSkippedSenderKey_def action_eval skipped_view_def skipped_sender_key_def)
next
  case (4 s a)
  then show ?case using sender_tables_record [OF 4, of a] by (auto simp: record_view_def split: option.splits)
next
  case (5 s a)
  show ?case by (simp add: skipped_view_part finite_skipped_part)
next
  case (6 g u d k s t)
  then obtain f where t: "t = s\<lparr>failures := f, senderKeys := nested_set g u d k (senderKeys s)\<rparr>"
    using storeSenderKey_ok [of g u d k s t] by (auto simp: memory_sender_keys_def)
  have key: "key_view t = (key_view s)((g, u, d) \<mapsto> k)"
    by (auto simp: fun_eq_iff key_view_def t nested_get_set)
  have recs: "senderKeyRecords t = senderKeyRecords s" "skippedSenderKeys t = skippedSenderKeys s" by (simp_all add: t)
  moreover have "skipped_view t = skipped_view s" by (simp add: fun_eq_iff skipped_view_def t)
  moreover have "record_view t b = record_view s b" if "b \<noteq> (g, u, d)" for b
    using that by (auto simp: record_view_def key recs split: option.split)
  moreover have "sender_tables_ok t" using 6(2) key by (auto simp: sender_tables_ok_def recs)
  moreover have "previous_states (record_view t (g, u, d)) = previous_states (record_view s (g, u, d))"
    by (auto simp: previous_states_def record_view_def key recs split: option.split)
  moreover have "record_view t (g, u, d) = Some (k # previous_states (record_view s (g, u, d))) \<or>
      record_view t (g, u, d) = record_view s (g, u, d)"
    by (auto simp: previous_states_def record_view_def key recs split: option.split)
  ultimately show ?case using key by (intro conjI allI impI; (assumption | simp only:))
next
  case (7 g u d k s e t)
  then show ?case by (intro sender_views_error [OF storeSenderKey_error]) (simp add: memory_sender_keys_def)
next
  case (8 g u d k ks receive h s t)
  note v = storeSenderKeyRecord_views [OF 8(1) [simplified memory_sender_keys_def, simplified] 8(2)]
  let ?a = "(g, u, d)" and ?M = "rc_maxSkippedKeys receive" and ?ks = "rc_skippedKeys receive"
  let ?t = "staged_table ?a ?M ?ks (skippedSenderKeys s)"
  have dist: "distinct (map fst (skippedSenderKeys s))" using 8(2) by (simp add: sender_tables_ok_def)
  have view: "skipped_view t ?a = skipped_part ?t ?a |` (- consumed_keys receive)" "skipped_view s ?a = skipped_part (skippedSenderKeys s) ?a"
    using v(4) by (simp_all add: skipped_view_part)
  have dom: "card (dom (skipped_view t ?a)) \<le> card (dom (skipped_part ?t ?a))"
    by (rule card_mono) (auto simp: view(1) finite_skipped_part)
  have le: "x \<notin> consumed_keys receive \<and> (skipped_view s ?a ++ staged_map ?ks) x = Some w" if "skipped_view t ?a x = Some w" for x w
  proof -
    have x: "x \<notin> consumed_keys receive" "skipped_part ?t ?a x = Some w"
      using that by (auto simp: view(1) restrict_map_def split: if_splits)
    then show ?thesis using staged_le [of ?a ?M ?ks "skippedSenderKeys s"] unfolding view(2) map_le_def by (metis domI)
  qed
  have bound: "card (dom (skipped_view s ?a)) \<le> max 1 ?M \<or> ?ks \<noteq> [] \<longrightarrow> card (dom (skipped_view t ?a)) \<le> max 1 ?M"
    using staged_card [OF dist, of ?a ?M ?ks] dom unfolding view(2) by (meson order_trans)
  have none: "?ks = [] \<longrightarrow> skipped_view t ?a = skipped_view s ?a |` (- consumed_keys receive)"
    by (simp add: view)
  have all: "card (dom (skipped_view s ?a)) + length ?ks \<le> ?M \<longrightarrow>
      skipped_view t ?a = (skipped_view s ?a ++ staged_map ?ks) |` (- consumed_keys receive)"
    using staged_all [OF dist, of ?a ?ks ?M] by (simp add: view)
  have other: "\<forall>b. b \<noteq> ?a \<longrightarrow> skipped_view t b = skipped_view s b" using v(4) by simp
  have "\<forall>x w. skipped_view t ?a x = Some w \<longrightarrow> x \<notin> consumed_keys receive \<and> (skipped_view s ?a ++ staged_map ?ks) x = Some w"
    by (intro allI impI) (rule le)
  then show ?case using v(1,2,3) bound none all other by - (intro conjI; assumption)
next
  case (9 g u d ks receive h s e t)
  then show ?case by (intro sender_views_error [OF storeSenderKeyRecord_error]) (simp add: memory_sender_keys_def)
next
  case (10 g u d h s t)
  then have "deleteSenderKey g u d h s = (Inr (), t)" by (simp add: memory_sender_keys_def)
  from deleteSenderKey_views [OF this 10(2)] show ?case by - (intro conjI; assumption)
next
  case (11 g u d h s e t)
  then show ?case by (intro sender_views_error [OF deleteSenderKey_error]) (simp add: memory_sender_keys_def)
qed

end
