(* ===== verification/Sender_Keys.thy ===== *)
theory Sender_Keys
  imports Sender_Store Pqxdh
begin

text \<open>
  The sender-key manager (internal/protocol/sender-keys/manager.ts) and the handoff ledger
  (internal/protocol/sender-keys/handoff-ledger.ts), over a storage with the methods of \<open>SenderKeyStorage\<close>.

  A member function is an action on the state of the storage. HMAC and Ed25519 are in \<open>Primitives\<close>, AES-CBC is a pair of
  functions of the manager. \<open>now\<close> is \<open>Date.now()\<close> of the call; random bytes are arguments in the order in which they
  are drawn. Logging and the zeroing of buffers are left out. A generation of 0 in the internal form of a message is
  written and never read.

  The two branches of \<open>decryptGroupMessage\<close>, for the current and for a previous state, repeat the same steps on the state
  they found; these steps are \<open>open_group_message\<close>.
\<close>

section \<open>Definitions\<close>

subsection \<open>The manager\<close>

record 's SenderKeyManager =
  sm_storage :: "'s SenderKeyStorage"
  sm_hkdfInfoString :: js_string
  sm_maxChainAdvance :: nat
  sm_maxSkippedKeys :: nat
  sm_maxSenderKeyAge :: int
  sm_primitives :: Primitives
  sm_encryptAes :: "bytes \<Rightarrow> bytes \<Rightarrow> bytes \<Rightarrow> bytes result"
  sm_decryptAes :: "bytes \<Rightarrow> bytes \<Rightarrow> bytes \<Rightarrow> bytes result"

definition SENDER_KEY_AGE_CEILING :: int where "SENDER_KEY_AGE_CEILING = 90 * 24 * 60 * 60 * 1000"
definition SENDER_KEY_AGE_FLOOR :: int where "SENDER_KEY_AGE_FLOOR = 60 * 60 * 1000"
definition DEFAULT_hkdfInfoString :: js_string where "DEFAULT_hkdfInfoString = ascii ''WhisperGroup''"
definition DEFAULT_maxChainAdvance :: nat where "DEFAULT_maxChainAdvance = 25000"
definition DEFAULT_maxSkippedKeys :: nat where "DEFAULT_maxSkippedKeys = 2000"
definition DEFAULT_maxSenderKeyAge :: int where "DEFAULT_maxSenderKeyAge = 14 * 24 * 60 * 60 * 1000"
definition MAX_SENDER_KEY_STATES :: nat where "MAX_SENDER_KEY_STATES = 5"

definition SENDER_KEY_FORMAT :: string where "SENDER_KEY_FORMAT = ''v2''"
definition SENDER_KEY_MESSAGE_VERSION :: byte where "SENDER_KEY_MESSAGE_VERSION = 0x44"

text \<open>\<open>None\<close> is an absent value, \<open>Some None\<close> a number that is not finite.\<close>

definition resolveMaxSenderKeyAge :: "int option option \<Rightarrow> int" where
  "resolveMaxSenderKeyAge configured =
     (case configured of
        None \<Rightarrow> DEFAULT_maxSenderKeyAge
      | Some None \<Rightarrow> DEFAULT_maxSenderKeyAge
      | Some (Some age) \<Rightarrow>
          if age \<le> 0 then DEFAULT_maxSenderKeyAge
          else if age > SENDER_KEY_AGE_CEILING then SENDER_KEY_AGE_CEILING
          else if age < SENDER_KEY_AGE_FLOOR then SENDER_KEY_AGE_FLOOR
          else age)"

record SenderKeysConfig =
  sc_hkdfInfoString :: "js_string option"
  sc_maxChainAdvance :: "nat option"
  sc_maxSkippedKeys :: "nat option"
  sc_maxSenderKeyAge :: "int option option"

definition new_SenderKeyManager :: "'s SenderKeyStorage \<Rightarrow> Primitives \<Rightarrow> (bytes \<Rightarrow> bytes \<Rightarrow> bytes \<Rightarrow> bytes result) \<Rightarrow>
    (bytes \<Rightarrow> bytes \<Rightarrow> bytes \<Rightarrow> bytes result) \<Rightarrow> SenderKeysConfig \<Rightarrow> 's SenderKeyManager" where
  "new_SenderKeyManager storage p encrypt decrypt config =
     \<lparr>sm_storage = storage, sm_hkdfInfoString = or_else (sc_hkdfInfoString config) DEFAULT_hkdfInfoString,
      sm_maxChainAdvance = or_else (sc_maxChainAdvance config) DEFAULT_maxChainAdvance,
      sm_maxSkippedKeys = or_else (sc_maxSkippedKeys config) DEFAULT_maxSkippedKeys,
      sm_maxSenderKeyAge = resolveMaxSenderKeyAge (sc_maxSenderKeyAge config),
      sm_primitives = p, sm_encryptAes = encrypt, sm_decryptAes = decrypt\<rparr>"

subsection \<open>States\<close>

definition ownSenderKeyExpiry :: "int \<Rightarrow> SenderKeyState \<Rightarrow> int \<Rightarrow> OwnSenderKeyExpiry option" where
  "ownSenderKeyExpiry now state maxSenderKeyAge =
     (if sk_signatureKey state = [] then None
      else case sk_createdAt state of
             None \<Rightarrow> Some NoCreationTime
           | Some created \<Rightarrow>
               if created \<le> 0 then Some NoCreationTime
               else let ageMs = now - created in if ageMs > maxSenderKeyAge then Some (Aged ageMs) else None)"

definition assertSenderKeyVersion :: "string \<Rightarrow> unit result" where
  "assertSenderKeyVersion version =
     throw_if (version \<noteq> SENDER_KEY_FORMAT) (PlainError ''Unsupported sender-key format'')"

definition withoutRetiredFields :: "SenderKeyState \<Rightarrow> SenderKeyState" where
  "withoutRetiredFields state =
     \<lparr>sk_senderKeyId = sk_senderKeyId state, sk_senderKeyVersion = sk_senderKeyVersion state,
      sk_chainId = sk_chainId state, sk_generation = sk_generation state, sk_chainKey = sk_chainKey state,
      sk_signatureKey = sk_signatureKey state, sk_publicSignatureKey = sk_publicSignatureKey state,
      sk_chainIndex = sk_chainIndex state, sk_createdAt = sk_createdAt state\<rparr>"

definition currentDistribution :: "SenderKeyState \<Rightarrow> SenderKeyDistributionMessage result" where
  "currentDistribution state =
     and_then (assertSenderKeyVersion (sk_senderKeyVersion state)) (\<lambda>_.
     Inr \<lparr>sd_senderKeyVersion = SENDER_KEY_FORMAT, sd_senderKeyId = sk_senderKeyId state,
          sd_chainId = sk_chainId state, sd_generation = sk_generation state,
          sd_chainIndex = Some (sk_chainIndex state), sd_chainKey = sk_chainKey state,
          sd_publicSignatureKey = sk_publicSignatureKey state\<rparr>)"

text \<open>An unreadable frame, and one that names no key, belong to no group.\<close>

definition resolveGroupForFramedMessage ::
    "'s SenderKeyManager \<Rightarrow> bytes \<Rightarrow> js_string \<Rightarrow> int \<Rightarrow> ('s, js_string option) action" where
  "resolveGroupForFramedMessage m framedMessage senderId senderDeviceId =
     (case and_then (parseSenderKeyMessage framedMessage) (\<lambda>(version, protobufBytes, signature).
           and_then (decodeSenderKeyMessage protobufBytes) (\<lambda>decoded.
           case km_distributionUuid decoded of None \<Rightarrow> Inr [] | Some uuid \<Rightarrow> utf8Decode uuid)) of
        Inl _ \<Rightarrow> ret None
      | Inr senderKeyId \<Rightarrow>
          if senderKeyId = [] then ret None
          else ks_resolveGroupForSenderKeyId (sm_storage m) senderKeyId senderId senderDeviceId)"

definition encodeLosslessPlaintext :: "bytes \<Rightarrow> js_string result" where
  "encodeLosslessPlaintext plaintextBytes =
     and_then (utf8Decode plaintextBytes) (\<lambda>text.
     let roundTrip = textEncoder_encode text in
     if length roundTrip = length plaintextBytes \<and> list_all (\<lambda>(byte, b). byte = b) (zip roundTrip plaintextBytes)
     then Inr text
     else Inr (ascii (bytesToBase64 plaintextBytes)))"

text \<open>FNV-1a on 32-bit integers.\<close>

definition generateChainId :: "js_string \<Rightarrow> nat" where
  "generateChainId senderKeyId =
     unat (foldl (\<lambda>hash c. (hash XOR ucast c) * 0x01000193) (0x811c9dc5 :: 32 word) senderKeyId)"

subsection \<open>Random identifiers (internal/crypto/random.ts)\<close>

definition hex_digit :: "nat \<Rightarrow> 16 word" where
  "hex_digit n = of_nat (if n < 10 then 48 + n else 87 + n)"

text \<open>\<open>byte.toString(16).padStart(2, '0')\<close>.\<close>

definition hex_byte :: "byte \<Rightarrow> js_string" where
  "hex_byte b = [hex_digit (unat b div 16), hex_digit (unat b mod 16)]"

text \<open>From 16 random bytes.\<close>

definition generateUuidV4 :: "bytes \<Rightarrow> js_string" where
  "generateUuidV4 random =
     (let bytes = random[6 := (random ! 6 AND 0x0f) OR 0x40];
          bytes = bytes[8 := (bytes ! 8 AND 0x3f) OR 0x80];
          hex = concat (map hex_byte bytes)
      in js_slice 0 8 hex @ [45] @ js_slice 8 12 hex @ [45] @ js_slice 12 16 hex @ [45] @
         js_slice 16 20 hex @ [45] @ drop 20 hex)"

subsection \<open>Keys\<close>

text \<open>The cipher key and the initialization vector.\<close>

definition deriveMessageKey :: "'s SenderKeyManager \<Rightarrow> Base64 \<Rightarrow> (bytes \<times> bytes) result" where
  "deriveMessageKey m chainKeyBase64 =
     and_then (base64ToBytes chainKeyBase64) (\<lambda>chainKey.
     let seed = p_hmac (sm_primitives m) chainKey [0x01]; info = stringToBytes (sm_hkdfInfoString m) in
     and_then (hkdf (p_hmac (sm_primitives m)) seed (zeros 32) info 48) (\<lambda>derived.
     Inr (js_slice 16 48 derived, js_slice 0 16 derived)))"

definition advanceChainKey :: "'s SenderKeyManager \<Rightarrow> Base64 \<Rightarrow> Base64 result" where
  "advanceChainKey m chainKeyBase64 =
     and_then (base64ToBytes chainKeyBase64) (\<lambda>chainKey.
     Inr (bytesToBase64 (p_hmac (sm_primitives m) chainKey [0x02])))"

definition group_aesCbcEncrypt :: "'s SenderKeyManager \<Rightarrow> bytes \<Rightarrow> bytes \<Rightarrow> bytes \<Rightarrow> Base64 result" where
  "group_aesCbcEncrypt m key vector plaintext =
     and_then (sm_encryptAes m key vector plaintext) (\<lambda>encrypted. Inr (bytesToBase64 encrypted))"

definition group_aesCbcDecrypt :: "'s SenderKeyManager \<Rightarrow> bytes \<Rightarrow> bytes \<Rightarrow> Base64 \<Rightarrow> bytes result" where
  "group_aesCbcDecrypt m key vector ciphertext =
     (case and_then (base64ToBytes ciphertext) (sm_decryptAes m key vector) of
        Inl _ \<Rightarrow> Inl (PlainError ''Decryption failed'')
      | Inr decrypted \<Rightarrow> Inr decrypted)"

text \<open>The identifier is left out when it is empty.\<close>

definition serializeForSigning :: "nat \<Rightarrow> Base64 \<Rightarrow> js_string \<Rightarrow> nat \<Rightarrow> bytes result" where
  "serializeForSigning i ciphertext senderKeyId chainId =
     and_then (base64ToBytes ciphertext) (\<lambda>ciphertextBytes.
     and_then (encodeSenderKeyMessage
       \<lparr>km_distributionUuid = (if senderKeyId = [] then None else Some (stringToBytes senderKeyId)),
        km_chainId = Some chainId, km_iteration = i, km_ciphertext = ciphertextBytes\<rparr>) (\<lambda>protoBytes.
     Inr ([SENDER_KEY_MESSAGE_VERSION] @ protoBytes)))"

subsection \<open>Reading the storage\<close>

definition loadSenderKey ::
    "'s SenderKeyManager \<Rightarrow> js_string \<Rightarrow> js_string \<Rightarrow> int \<Rightarrow> ('s, SenderKeyState option) action" where
  "loadSenderKey m groupId user device =
     bnd (ks_getSenderKey (sm_storage m) groupId user device) (\<lambda>state. ret (map_option withoutRetiredFields state))"

definition loadSenderKeyRecord ::
    "'s SenderKeyManager \<Rightarrow> js_string \<Rightarrow> js_string \<Rightarrow> int \<Rightarrow> ('s, SenderKeyState list option) action" where
  "loadSenderKeyRecord m groupId user device =
     bnd (ks_getSenderKeyRecord (sm_storage m) groupId user device) (\<lambda>record.
     ret (map_option (map withoutRetiredFields) record))"

definition loadPreviousStates ::
    "'s SenderKeyManager \<Rightarrow> js_string \<Rightarrow> js_string \<Rightarrow> int \<Rightarrow> ('s, SenderKeyState list) action" where
  "loadPreviousStates m groupId user device =
     bnd (loadSenderKeyRecord m groupId user device) (\<lambda>record.
     ret (case record of None \<Rightarrow> []
          | Some states \<Rightarrow> if length states > 1 then take (MAX_SENDER_KEY_STATES - 1) (drop 1 states) else []))"

definition persistSenderKeyRecord :: "'s SenderKeyManager \<Rightarrow> js_string \<Rightarrow> js_string \<Rightarrow> int \<Rightarrow> SenderKeyState \<Rightarrow>
    SenderKeyState list \<Rightarrow> bool \<Rightarrow> ('s, unit) action" where
  "persistSenderKeyRecord m groupId user device currentState previousStatesList deleteSenderKeyHandoffs =
     ks_storeSenderKeyRecord (sm_storage m) groupId user device (currentState # previousStatesList) no_receive
       deleteSenderKeyHandoffs"

subsection \<open>Own keys\<close>

definition distribution_of :: "SenderKeyState \<Rightarrow> SenderKeyDistributionMessage" where
  "distribution_of state =
     \<lparr>sd_senderKeyVersion = SENDER_KEY_FORMAT, sd_senderKeyId = sk_senderKeyId state, sd_chainId = sk_chainId state,
      sd_generation = sk_generation state, sd_chainIndex = Some 0, sd_chainKey = sk_chainKey state,
      sd_publicSignatureKey = sk_publicSignatureKey state\<rparr>"

text \<open>A new state from the random bytes of its identifier, its chain key and its signing key.\<close>

definition new_sender_key :: "'s SenderKeyManager \<Rightarrow> int \<Rightarrow> bytes \<times> bytes \<times> bytes \<Rightarrow> nat \<Rightarrow> SenderKeyState result" where
  "new_sender_key m now random generation =
     (case random of (uuid, chainKey, signing) \<Rightarrow>
      let senderKeyId = generateUuidV4 uuid in
      and_then (generateSigningKeyPair (sm_primitives m) signing) (\<lambda>signatureKeyPair.
      Inr \<lparr>sk_senderKeyId = senderKeyId, sk_senderKeyVersion = SENDER_KEY_FORMAT,
           sk_chainId = generateChainId senderKeyId, sk_generation = generation,
           sk_chainKey = bytesToBase64 chainKey, sk_signatureKey = ik_privateKey signatureKeyPair,
           sk_publicSignatureKey = ik_publicKey signatureKeyPair, sk_chainIndex = 0, sk_createdAt = Some now\<rparr>))"

definition createSenderKey :: "'s SenderKeyManager \<Rightarrow> int \<Rightarrow> bytes \<times> bytes \<times> bytes \<Rightarrow> js_string \<Rightarrow> js_string \<Rightarrow> int \<Rightarrow>
    ('s, js_string \<times> SenderKeyDistributionMessage) action" where
  "createSenderKey m now random groupId user device =
     bnd (of_result (new_sender_key m now random 1)) (\<lambda>state.
     bnd (persistSenderKeyRecord m groupId user device state [] True) (\<lambda>_.
     ret (sk_senderKeyId state, distribution_of state)))"

definition rotateSenderKey :: "'s SenderKeyManager \<Rightarrow> int \<Rightarrow> bytes \<times> bytes \<times> bytes \<Rightarrow> js_string \<Rightarrow> js_string \<Rightarrow> int \<Rightarrow>
    ('s, js_string \<times> SenderKeyDistributionMessage) action" where
  "rotateSenderKey m now random groupId user device =
     bnd (loadSenderKey m groupId user device) (\<lambda>oldState.
     bnd (of_result (case oldState of None \<Rightarrow> Inr () | Some old \<Rightarrow> assertSenderKeyVersion (sk_senderKeyVersion old))) (\<lambda>_.
     bnd (of_result (new_sender_key m now random (case oldState of None \<Rightarrow> 1 | Some old \<Rightarrow> sk_generation old + 1))) (\<lambda>newState.
     bnd (case oldState of None \<Rightarrow> ret []
          | Some old \<Rightarrow> bnd (loadPreviousStates m groupId user device) (\<lambda>previous.
              ret (take (MAX_SENDER_KEY_STATES - 1) (old # previous)))) (\<lambda>prev.
     bnd (persistSenderKeyRecord m groupId user device newState prev True) (\<lambda>_.
     ret (sk_senderKeyId newState, distribution_of newState))))))"

definition isOwnSenderKeyExpired ::
    "'s SenderKeyManager \<Rightarrow> int \<Rightarrow> js_string \<Rightarrow> js_string \<Rightarrow> int \<Rightarrow> ('s, bool) action" where
  "isOwnSenderKeyExpired m now groupId user device =
     bnd (loadSenderKey m groupId user device) (\<lambda>state.
     ret (case state of None \<Rightarrow> False | Some st \<Rightarrow> ownSenderKeyExpiry now st (sm_maxSenderKeyAge m) \<noteq> None))"

definition getCurrentSenderKeyDistribution ::
    "'s SenderKeyManager \<Rightarrow> js_string \<Rightarrow> js_string \<Rightarrow> int \<Rightarrow> ('s, SenderKeyDistributionMessage option) action" where
  "getCurrentSenderKeyDistribution m groupId user device =
     bnd (loadSenderKey m groupId user device) (\<lambda>state.
     case state of None \<Rightarrow> ret None | Some st \<Rightarrow> bnd (of_result (currentDistribution st)) (\<lambda>d. ret (Some d)))"

definition manager_deleteSenderKey :: "'s SenderKeyManager \<Rightarrow> js_string \<Rightarrow> js_string \<Rightarrow> int \<Rightarrow> ('s, unit) action" where
  "manager_deleteSenderKey m groupId user device =
     bnd (loadSenderKey m groupId user device) (\<lambda>state.
     ks_deleteSenderKey (sm_storage m) groupId user device
       (case state of None \<Rightarrow> False | Some st \<Rightarrow> sk_signatureKey st \<noteq> []))"

text \<open>The chain index, the generation and the number of skipped keys.\<close>

definition getStats :: "'s SenderKeyManager \<Rightarrow> js_string \<Rightarrow> js_string \<Rightarrow> int \<Rightarrow> ('s, nat \<times> nat \<times> nat) action" where
  "getStats m groupId senderId senderDeviceId =
     bnd (loadSenderKey m groupId senderId senderDeviceId) (\<lambda>state.
     case state of None \<Rightarrow> ret (0, 0, 0)
     | Some st \<Rightarrow> bnd (ks_countSkippedSenderKeys (sm_storage m) groupId senderId senderDeviceId) (\<lambda>count.
         ret (sk_chainIndex st, sk_generation st, count)))"

subsection \<open>Received distributions\<close>

text \<open>Whether the existing states make the message stale; a state in an unsupported format throws.\<close>

definition distribution_is_stale ::
    "SenderKeyState option \<Rightarrow> SenderKeyState list \<Rightarrow> SenderKeyDistributionMessage \<Rightarrow> bool result" where
  "distribution_is_stale existing previous message =
     (case existing of
        None \<Rightarrow> Inr False
      | Some old \<Rightarrow>
          and_then (assertSenderKeyVersion (sk_senderKeyVersion old)) (\<lambda>_.
          if sk_senderKeyId old \<noteq> sd_senderKeyId message
          then Inr (list_ex (\<lambda>state. sk_senderKeyId state = sd_senderKeyId message) previous)
          else Inr (sd_generation message \<le> sk_generation old)))"

definition processSenderKeyDistribution :: "'s SenderKeyManager \<Rightarrow> int \<Rightarrow> js_string \<Rightarrow> js_string \<Rightarrow> int \<Rightarrow>
    SenderKeyDistributionMessage \<Rightarrow> ('s, unit) action" where
  "processSenderKeyDistribution m now groupId senderId senderDeviceId message =
     bnd (of_result (assertSenderKeyVersion (sd_senderKeyVersion message))) (\<lambda>_.
     bnd (loadSenderKey m groupId senderId senderDeviceId) (\<lambda>existing.
     bnd (case existing of None \<Rightarrow> ret [] | Some _ \<Rightarrow> loadPreviousStates m groupId senderId senderDeviceId) (\<lambda>previous.
     bnd (of_result (distribution_is_stale existing previous message)) (\<lambda>stale.
     if stale then ret ()
     else
       let state = \<lparr>sk_senderKeyId = sd_senderKeyId message, sk_senderKeyVersion = SENDER_KEY_FORMAT,
             sk_chainId = sd_chainId message, sk_generation = sd_generation message,
             sk_chainKey = sd_chainKey message, sk_signatureKey = [],
             sk_publicSignatureKey = sd_publicSignatureKey message,
             sk_chainIndex = or_else (sd_chainIndex message) 0, sk_createdAt = Some now\<rparr>;
           prev = (case existing of None \<Rightarrow> []
             | Some old \<Rightarrow> if sk_senderKeyId old = sd_senderKeyId message then previous
                           else take (MAX_SENDER_KEY_STATES - 1) (old # previous))
       in persistSenderKeyRecord m groupId senderId senderDeviceId state prev False))))"

subsection \<open>Sending\<close>

definition encryptGroupMessage ::
    "'s SenderKeyManager \<Rightarrow> int \<Rightarrow> js_string \<Rightarrow> js_string \<Rightarrow> int \<Rightarrow> bytes \<Rightarrow> ('s, bytes) action" where
  "encryptGroupMessage m now groupId user device plaintextBytes =
     bnd (loadSenderKey m groupId user device) (\<lambda>loaded.
     case loaded of None \<Rightarrow> throw (PlainError ''SENDER_KEY_NOT_FOUND: No sender key for this group'')
     | Some state \<Rightarrow>
         bnd (of_result (assertSenderKeyVersion (sk_senderKeyVersion state))) (\<lambda>_.
         if ownSenderKeyExpiry now state (sm_maxSenderKeyAge m) \<noteq> None then throw (EncryptionError SENDER_KEY_EXPIRED)
         else if sk_chainIndex state \<ge> 0xfffffffe then throw (EncryptionError ENCRYPTION_FAILED)
         else
           bnd (of_result (deriveMessageKey m (sk_chainKey state))) (\<lambda>(cipherKey, vector).
           bnd (of_result (group_aesCbcEncrypt m cipherKey vector plaintextBytes)) (\<lambda>ciphertextBase64.
           bnd (of_result (and_then (base64ToBytes ciphertextBase64) (\<lambda>ciphertext.
             encodeSenderKeyMessage
               \<lparr>km_distributionUuid = Some (stringToBytes (sk_senderKeyId state)),
                km_chainId = Some (sk_chainId state), km_iteration = sk_chainIndex state,
                km_ciphertext = ciphertext\<rparr>))) (\<lambda>protoBytes.
           bnd (of_result (and_then (sign (sm_primitives m) (sk_signatureKey state) (sender_key_version_byte # protoBytes))
             base64ToBytes)) (\<lambda>signatureBytes.
           bnd (of_result (advanceChainKey m (sk_chainKey state))) (\<lambda>newChainKey.
           bnd (ks_storeSenderKey (sm_storage m) groupId user device
             (state\<lparr>sk_chainKey := newChainKey, sk_chainIndex := sk_chainIndex state + 1\<rparr>)) (\<lambda>_.
           of_result (frameSenderKeyMessage protoBytes signatureBytes)))))))))"

subsection \<open>Receiving\<close>

text \<open>The loop over the skipped indices: \<open>k\<close> of them are left. The staged keys and the state behind the loop.\<close>

primrec stage_gap ::
    "'s SenderKeyManager \<Rightarrow> nat \<Rightarrow> SenderKeyState \<Rightarrow> (StagedSkippedKey list \<times> SenderKeyState) result" where
  "stage_gap m 0 state = Inr ([], state)"
| "stage_gap m (Suc k) state =
     and_then (deriveMessageKey m (sk_chainKey state)) (\<lambda>(cipherKey, vector).
     and_then (advanceChainKey m (sk_chainKey state)) (\<lambda>chainKey.
     and_then (stage_gap m k (state\<lparr>sk_chainKey := chainKey, sk_chainIndex := sk_chainIndex state + 1\<rparr>)) (\<lambda>(keys, state').
     Inr (\<lparr>ss_senderKeyId = sk_senderKeyId state, ss_chainIndex = sk_chainIndex state,
           ss_messageKey = \<lparr>mk_cipherKey = bytesToBase64 cipherKey, mk_iv = bytesToBase64 vector\<rparr>\<rparr> # keys, state'))))"

text \<open>What the state that a message names says of it: an index behind the chain, or the plaintext.\<close>

datatype opened_message = OldIndex | Opened js_string SenderKeyState "StagedSkippedKey list"

definition open_group_message ::
    "'s SenderKeyManager \<Rightarrow> SenderKeyState \<Rightarrow> EncryptedGroupMessage \<Rightarrow> opened_message result" where
  "open_group_message m state message =
     and_then (serializeForSigning (gm_chainIndex message) (gm_ciphertext message) (gm_senderKeyId message)
       (sk_chainId state)) (\<lambda>messageToVerify.
     if \<not> verify (sm_primitives m) (sk_publicSignatureKey state) messageToVerify (gm_signature message)
     then Inl (PlainError ''INVALID_SIGNATURE: Message signature verification failed'')
     else if gm_chainIndex message > sk_chainIndex state \<and>
             gm_chainIndex message - sk_chainIndex state > sm_maxChainAdvance m
     then Inl (PlainError ''CHAIN_GAP_TOO_LARGE'')
     else if gm_chainIndex message < sk_chainIndex state then Inr OldIndex
     else
       and_then (stage_gap m (gm_chainIndex message - sk_chainIndex state) state) (\<lambda>(keys, state).
       and_then (deriveMessageKey m (sk_chainKey state)) (\<lambda>(cipherKey, vector).
       and_then (group_aesCbcDecrypt m cipherKey vector (gm_ciphertext message)) (\<lambda>plaintextBytes.
       and_then (encodeLosslessPlaintext plaintextBytes) (\<lambda>plaintext.
       and_then (advanceChainKey m (sk_chainKey state)) (\<lambda>chainKey.
       Inr (Opened plaintext (state\<lparr>sk_chainKey := chainKey, sk_chainIndex := sk_chainIndex state + 1\<rparr>) keys)))))))"

type_synonym receive_seed = "js_string \<Rightarrow> js_string \<Rightarrow> ReceiveWorkRecord"

definition group_receive_commit ::
    "'s SenderKeyManager \<Rightarrow> StagedSkippedKey list \<Rightarrow> receive_seed option \<Rightarrow> js_string \<Rightarrow> js_string \<Rightarrow> SenderKeyReceiveCommit" where
  "group_receive_commit m keys seed plaintext groupId =
     \<lparr>rc_work = map_option (\<lambda>f. f plaintext groupId) seed, rc_consumedSkippedKey = None,
      rc_maxSkippedKeys = sm_maxSkippedKeys m, rc_skippedKeys = keys\<rparr>"

definition decryptWithSkippedKey :: "'s SenderKeyManager \<Rightarrow> js_string \<Rightarrow> js_string \<Rightarrow> int \<Rightarrow>
    EncryptedGroupMessage \<Rightarrow> receive_seed option \<Rightarrow> ('s, js_string) action" where
  "decryptWithSkippedKey m groupId senderId senderDeviceId message seed =
     bnd (ks_getSkippedSenderKey (sm_storage m) groupId senderId senderDeviceId
       (gm_senderKeyId message) (gm_chainIndex message)) (\<lambda>skippedKey.
     case skippedKey of None \<Rightarrow> throw (EncryptionError MESSAGE_DUPLICATE)
     | Some key \<Rightarrow>
         bnd (of_result (and_then (base64ToBytes (mk_cipherKey key)) (\<lambda>skippedCipherKey.
           and_then (base64ToBytes (mk_iv key)) (\<lambda>skippedIv.
           and_then (group_aesCbcDecrypt m skippedCipherKey skippedIv (gm_ciphertext message))
             encodeLosslessPlaintext)))) (\<lambda>plaintext.
         bnd (loadSenderKeyRecord m groupId senderId senderDeviceId) (\<lambda>record.
         case record of None \<Rightarrow> throw (PlainError ''Missing sender-key record during receive'')
         | Some states \<Rightarrow>
             if states = [] then throw (PlainError ''Missing sender-key record during receive'')
             else bnd (ks_storeSenderKeyRecord (sm_storage m) groupId senderId senderDeviceId states
               \<lparr>rc_work = map_option (\<lambda>f. f plaintext groupId) seed,
                rc_consumedSkippedKey = Some (gm_senderKeyId message, gm_chainIndex message),
                rc_maxSkippedKeys = 0, rc_skippedKeys = []\<rparr> False) (\<lambda>_.
             ret plaintext))))"

text \<open>\<open>prevStates[matchIdx]\<close> is changed in place; the other states stay.\<close>

definition tryDecryptWithPreviousState :: "'s SenderKeyManager \<Rightarrow> js_string \<Rightarrow> js_string \<Rightarrow> int \<Rightarrow>
    EncryptedGroupMessage \<Rightarrow> receive_seed option \<Rightarrow> ('s, js_string option) action" where
  "tryDecryptWithPreviousState m groupId senderId senderDeviceId message seed =
     bnd (loadPreviousStates m groupId senderId senderDeviceId) (\<lambda>prevStates.
     case find (\<lambda>i. sk_senderKeyId (prevStates ! i) = gm_senderKeyId message) [0..<length prevStates] of
       None \<Rightarrow> ret None
     | Some matchIdx \<Rightarrow>
         bnd (of_result (assertSenderKeyVersion (sk_senderKeyVersion (prevStates ! matchIdx)))) (\<lambda>_.
         bnd (of_result (open_group_message m (prevStates ! matchIdx) message)) (\<lambda>opened.
         case opened of
           OldIndex \<Rightarrow> bnd (decryptWithSkippedKey m groupId senderId senderDeviceId message seed) (\<lambda>plaintext.
             ret (Some plaintext))
         | Opened plaintext prevState keys \<Rightarrow>
             bnd (loadSenderKey m groupId senderId senderDeviceId) (\<lambda>currentState.
             case currentState of None \<Rightarrow> throw (PlainError ''Missing sender-key record during receive'')
             | Some current_state \<Rightarrow>
                 bnd (ks_storeSenderKeyRecord (sm_storage m) groupId senderId senderDeviceId
                   (current_state # prevStates[matchIdx := prevState])
                   (group_receive_commit m keys seed plaintext groupId) False) (\<lambda>_.
                 ret (Some plaintext))))))"

definition encrypted_message :: "bytes \<Rightarrow> EncryptedGroupMessage result" where
  "encrypted_message framedMessage =
     and_then (parseSenderKeyMessage framedMessage) (\<lambda>(version, protobufBytes, signature).
     and_then (decodeSenderKeyMessage protobufBytes) (\<lambda>decoded.
     and_then (case km_distributionUuid decoded of None \<Rightarrow> Inr [] | Some uuid \<Rightarrow> utf8Decode uuid) (\<lambda>senderKeyId.
     Inr \<lparr>gm_senderKeyId = senderKeyId, gm_generation = 0, gm_chainIndex = km_iteration decoded,
          gm_ciphertext = bytesToBase64 (km_ciphertext decoded), gm_signature = bytesToBase64 signature\<rparr>)))"

definition decryptGroupMessage :: "'s SenderKeyManager \<Rightarrow> js_string \<Rightarrow> js_string \<Rightarrow> int \<Rightarrow> bytes \<Rightarrow>
    receive_seed option \<Rightarrow> ('s, js_string) action" where
  "decryptGroupMessage m groupId senderId senderDeviceId framedMessage seed =
     bnd (of_result (encrypted_message framedMessage)) (\<lambda>message.
     bnd (loadSenderKey m groupId senderId senderDeviceId) (\<lambda>loaded.
     case loaded of None \<Rightarrow> throw (PlainError ''SENDER_KEY_NOT_FOUND'')
     | Some state \<Rightarrow>
         bnd (of_result (assertSenderKeyVersion (sk_senderKeyVersion state))) (\<lambda>_.
         if sk_senderKeyId state \<noteq> gm_senderKeyId message
         then bnd (tryDecryptWithPreviousState m groupId senderId senderDeviceId message seed) (\<lambda>prevResult.
              case prevResult of
                Some plaintext \<Rightarrow> ret plaintext
              | None \<Rightarrow> throw (PlainError ''SENDER_KEY_MISMATCH: Key rotation needed (use newer sender key)''))
         else
           bnd (of_result (open_group_message m state message)) (\<lambda>opened.
           case opened of
             OldIndex \<Rightarrow> decryptWithSkippedKey m groupId senderId senderDeviceId message seed
           | Opened plaintext state keys \<Rightarrow>
               bnd (loadPreviousStates m groupId senderId senderDeviceId) (\<lambda>previous.
               bnd (ks_storeSenderKeyRecord (sm_storage m) groupId senderId senderDeviceId (state # previous)
                 (group_receive_commit m keys seed plaintext groupId) False) (\<lambda>_.
               ret plaintext))))))"

subsection \<open>The handoff ledger\<close>

record SenderKeyHandoffKey =
  hk_senderKeyId :: js_string
  hk_generation :: nat

text \<open>A target is a device and the registration identifier of its session, if there is one.\<close>

definition devicesNeedingKey :: "js_string \<Rightarrow> SenderKeyHandoffKey \<Rightarrow> (ProtocolAddress \<times> nat option) list \<Rightarrow>
    ('q MemoryStore, (ProtocolAddress \<times> nat option) list) action" where
  "devicesNeedingKey groupId key targets =
     (if targets = [] then ret []
      else bnd (listSenderKeyHandoffs groupId (hk_generation key)) (\<lambda>rows.
        let handedOff = map (\<lambda>row. (ho_recipientUserId row, ho_recipientDeviceId row, ho_recipientRegistrationId row))
              (filter (\<lambda>row. ho_senderKeyId row = hk_senderKeyId key \<and> ho_generation row = hk_generation key) rows)
        in ret (filter (\<lambda>(device, rid). case rid of None \<Rightarrow> True
             | Some r \<Rightarrow> (userId device, deviceId device, r) \<notin> set handedOff) targets)))"

definition ledger_record :: "int \<Rightarrow> js_string \<Rightarrow> SenderKeyHandoffKey \<Rightarrow> ProtocolAddress \<Rightarrow> nat \<Rightarrow>
    ('q MemoryStore, unit) action" where
  "ledger_record now groupId key device rid =
     recordSenderKeyHandoff \<lparr>ho_groupId = groupId, ho_senderKeyId = hk_senderKeyId key,
       ho_generation = hk_generation key, ho_recipientUserId = userId device,
       ho_recipientDeviceId = deviceId device, ho_recipientRegistrationId = rid, ho_acceptedAt = now\<rparr>"

definition ledger_invalidate :: "js_string \<Rightarrow> ProtocolAddress \<Rightarrow> ('q MemoryStore, bool) action" where
  "ledger_invalidate groupId device = invalidateSenderKeyHandoff groupId device"

definition ledger_invalidateAccount :: "js_string \<Rightarrow> ('q MemoryStore, bool) action" where
  "ledger_invalidateAccount user = invalidateAccountSenderKeyHandoffs user"

text \<open>The sweep of one group after the other; \<open>currentSenderKeyId\<close> is the callback of the caller.\<close>

primrec sweep_groups :: "(js_string \<Rightarrow> ('q MemoryStore, js_string option) action) \<Rightarrow> js_string list \<Rightarrow> nat \<Rightarrow>
    ('q MemoryStore, nat) action" where
  "sweep_groups currentSenderKeyId [] deleted = ret deleted"
| "sweep_groups currentSenderKeyId (groupId # groups) deleted =
     bnd (currentSenderKeyId groupId) (\<lambda>senderKeyId.
     bnd (retainSenderKeyHandoffs groupId senderKeyId) (\<lambda>n.
     sweep_groups currentSenderKeyId groups (deleted + n)))"

definition sweep :: "(js_string \<Rightarrow> ('q MemoryStore, js_string option) action) \<Rightarrow> ('q MemoryStore, nat) action" where
  "sweep currentSenderKeyId = bnd listSenderKeyHandoffGroupIds (\<lambda>groups. sweep_groups currentSenderKeyId groups 0)"

end
