(* ===== verification/Sender_Record.thy ===== *)
theory Sender_Record
  imports Sender_Keys
begin

text \<open>
  What the sender-key manager does, seen on the list of states of a device: \<open>loaded_states\<close> is the current state and the
  previous ones that a call reads. Receiving a message is finding the state that it names in this list, whichever branch
  of the code handles it (\<open>decrypt_by_record\<close>).

  Shown here: this equivalence; that a message is accepted only under the public key of the state it names; and what each
  operation does to the current state, the record and the skipped keys, where a call that throws changes nothing.
\<close>

section \<open>Reading\<close>

lemma withoutRetiredFields_id [simp]: "withoutRetiredFields state = state"
  by (simp add: withoutRetiredFields_def)

lemma map_withoutRetiredFields [simp]: "map withoutRetiredFields states = states"
  by (induction states) auto

text \<open>The states that a call loads: the current one, and at most four from the record.\<close>

definition loaded_list :: "SenderKeyState option \<Rightarrow> SenderKeyState list option \<Rightarrow> SenderKeyState list" where
  "loaded_list c r = (case c of None \<Rightarrow> [] | Some state \<Rightarrow> state # take (MAX_SENDER_KEY_STATES - 1) (previous_states r))"

definition state_named :: "js_string \<Rightarrow> SenderKeyState list \<Rightarrow> nat option" where
  "state_named senderKeyId states = find (\<lambda>i. sk_senderKeyId (states ! i) = senderKeyId) [0..<length states]"

lemma find_upt_Suc: "find P [Suc 0..<Suc n] = map_option Suc (find (\<lambda>i. P (Suc i)) [0..<n])"
proof -
  have "find P (map Suc xs) = map_option Suc (find (\<lambda>i. P (Suc i)) xs)" for xs by (induction xs) auto
  then show ?thesis by (simp only: map_Suc_upt [symmetric])
qed

lemma state_named_Cons:
  "state_named i (x # xs) = (if sk_senderKeyId x = i then Some 0 else map_option Suc (state_named i xs))"
  unfolding state_named_def by (simp add: upt_conv_Cons find_upt_Suc del: upt_Suc)

lemma state_named_Nil [simp]: "state_named i [] = None"
  by (simp add: state_named_def)

lemma state_named_Some: "state_named i xs = Some j \<Longrightarrow> j < length xs \<and> sk_senderKeyId (xs ! j) = i"
  by (auto simp: state_named_def find_Some_iff)

lemma state_named_None: "state_named i xs = None \<longleftrightarrow> i \<notin> sk_senderKeyId ` set xs"
  by (induction xs) (auto simp: state_named_Cons)

text \<open>The specification of \<open>decryptGroupMessage\<close> over the loaded states.\<close>

definition decrypt_by_record :: "'s SenderKeyManager \<Rightarrow> js_string \<Rightarrow> js_string \<Rightarrow> int \<Rightarrow> EncryptedGroupMessage \<Rightarrow>
    receive_seed option \<Rightarrow> SenderKeyState list \<Rightarrow> ('s, js_string) action" where
  "decrypt_by_record m g u d message seed states =
     (if states = [] then throw (PlainError ''SENDER_KEY_NOT_FOUND'')
      else bnd (of_result (assertSenderKeyVersion (sk_senderKeyVersion (hd states)))) (\<lambda>_.
        case state_named (gm_senderKeyId message) states of
          None \<Rightarrow> throw (PlainError ''SENDER_KEY_MISMATCH: Key rotation needed (use newer sender key)'')
        | Some j \<Rightarrow>
            bnd (of_result (assertSenderKeyVersion (sk_senderKeyVersion (states ! j)))) (\<lambda>_.
            bnd (of_result (open_group_message m (states ! j) message)) (\<lambda>opened.
            case opened of
              OldIndex \<Rightarrow> decryptWithSkippedKey m g u d message seed
            | Opened plaintext state keys \<Rightarrow>
                bnd (ks_storeSenderKeyRecord (sm_storage m) g u d (states[j := state])
                  (group_receive_commit m keys seed plaintext g) False) (\<lambda>_. ret plaintext)))))"

context sender_key_store
begin

lemma load_key: "sm_storage m = st \<Longrightarrow> loadSenderKey m g u d s = (Inr (cur s (g, u, d)), s)"
  by (cases "cur s (g, u, d)") (simp_all add: loadSenderKey_def bnd_def get_key ret_def)

lemma load_record: "sm_storage m = st \<Longrightarrow> loadSenderKeyRecord m g u d s = (Inr (rcd s (g, u, d)), s)"
  by (cases "rcd s (g, u, d)") (simp_all add: loadSenderKeyRecord_def bnd_def get_record ret_def)

lemma load_previous: "sm_storage m = st \<Longrightarrow>
    loadPreviousStates m g u d s = (Inr (take (MAX_SENDER_KEY_STATES - 1) (previous_states (rcd s (g, u, d)))), s)"
  by (simp add: loadPreviousStates_def bnd_def load_record ret_def previous_states_def drop_Suc split: option.split)
    (metis Nil_tl less_Suc0 list.size(3) length_tl linorder_not_less take_Nil not_less_eq_eq One_nat_def diff_is_0_eq length_0_conv less_one)

definition loaded_states :: "'s \<Rightarrow> sender_addr \<Rightarrow> SenderKeyState list" where
  "loaded_states s a = loaded_list (cur s a) (rcd s a)"

lemma loaded_cases:
  obtains "loaded_states s a = []" "cur s a = None"
  | c where "cur s a = Some c" "loaded_states s a = c # take (MAX_SENDER_KEY_STATES - 1) (previous_states (rcd s a))"
  by (cases "cur s a") (auto simp: loaded_states_def loaded_list_def)

lemma decrypt_message:
  assumes m: "sm_storage m = st"
  shows "decryptGroupMessage m g u d f seed s = bnd (of_result (encrypted_message f)) (\<lambda>message.
    decrypt_by_record m g u d message seed (loaded_states s (g, u, d))) s"
proof (cases "encrypted_message f")
  case (Inr message)
  let ?prev = "take (MAX_SENDER_KEY_STATES - 1) (previous_states (rcd s (g, u, d)))"
  note eval = decryptGroupMessage_def decrypt_by_record_def tryDecryptWithPreviousState_def bnd_eval action_eval Inr
    load_key [OF m] load_previous [OF m]
  show ?thesis
  proof (rule loaded_cases [of s "(g, u, d)"])
    assume "loaded_states s (g, u, d) = []" "cur s (g, u, d) = None"
    then show ?thesis by (simp add: eval)
  next
    fix c assume c: "cur s (g, u, d) = Some c" "loaded_states s (g, u, d) = c # ?prev"
    show ?thesis
    proof (cases "sk_senderKeyId c = gm_senderKeyId message")
      case True
      then show ?thesis
        by (auto simp: eval c state_named_Cons split: sum.splits opened_message.splits)
    next
      case False
      then show ?thesis
        by (auto simp: eval c state_named_Cons state_named_def [symmetric]
            split: sum.splits opened_message.splits option.splits intro!: prod_eqI)
    qed
  qed
qed (simp add: decryptGroupMessage_def bnd_eval action_eval)

end

section \<open>Opening a message\<close>

lemma stage_gap_shape:
  "stage_gap m k state = Inr (keys, state') \<Longrightarrow>
   (\<exists>ck. state' = state\<lparr>sk_chainKey := ck, sk_chainIndex := sk_chainIndex state + k\<rparr>) \<and>
   map (\<lambda>k. (ss_senderKeyId k, ss_chainIndex k)) keys =
     map (\<lambda>j. (sk_senderKeyId state, j)) [sk_chainIndex state..<sk_chainIndex state + k]"
proof (induction k arbitrary: state keys)
  case 0
  then show ?case by (auto intro: exI [of _ "sk_chainKey state"])
next
  case (Suc k)
  from Suc.prems obtain ck keys' where
    "stage_gap m k (state\<lparr>sk_chainKey := ck, sk_chainIndex := sk_chainIndex state + 1\<rparr>) = Inr (keys', state')"
    and k: "map (\<lambda>k. (ss_senderKeyId k, ss_chainIndex k)) keys =
      (sk_senderKeyId state, sk_chainIndex state) # map (\<lambda>k. (ss_senderKeyId k, ss_chainIndex k)) keys'"
    by (auto simp: and_then_eq_Inr)
  from Suc.IH [OF this(1)] k show ?case
    by (auto simp: upt_conv_Cons simp del: upt_Suc)
qed

lemma open_Opened:
  assumes "open_group_message m state message = Inr (Opened plaintext state' keys)"
  shows "sk_chainIndex state \<le> gm_chainIndex message"
    and "\<exists>ck. state' = state\<lparr>sk_chainKey := ck, sk_chainIndex := gm_chainIndex message + 1\<rparr>"
    and "map (\<lambda>k. (ss_senderKeyId k, ss_chainIndex k)) keys =
      map (\<lambda>j. (sk_senderKeyId state, j)) [sk_chainIndex state..<gm_chainIndex message]"
proof -
  let ?n = "gm_chainIndex message - sk_chainIndex state"
  show le: "sk_chainIndex state \<le> gm_chainIndex message"
    using assms by (auto simp: open_group_message_def and_then_eq_Inr split: if_splits)
  from assms obtain state1 ck where g: "stage_gap m ?n state = Inr (keys, state1)"
    and s: "state' = state1\<lparr>sk_chainKey := ck, sk_chainIndex := sk_chainIndex state1 + 1\<rparr>"
    by (auto simp: open_group_message_def and_then_eq_Inr split: if_splits)
  from stage_gap_shape [OF g] le s show "\<exists>ck. state' = state\<lparr>sk_chainKey := ck, sk_chainIndex := gm_chainIndex message + 1\<rparr>"
    and "map (\<lambda>k. (ss_senderKeyId k, ss_chainIndex k)) keys =
      map (\<lambda>j. (sk_senderKeyId state, j)) [sk_chainIndex state..<gm_chainIndex message]"
    by auto
qed

lemma open_OldIndex:
  "open_group_message m state message = Inr OldIndex \<Longrightarrow> gm_chainIndex message < sk_chainIndex state"
  by (auto simp: open_group_message_def and_then_eq_Inr split: if_splits)

text \<open>Every message that is opened, or is looked up among the skipped keys, carries a valid signature.\<close>

lemma open_verified:
  assumes "open_group_message m state message = Inr r"
  shows "\<exists>signed. serializeForSigning (gm_chainIndex message) (gm_ciphertext message) (gm_senderKeyId message)
      (sk_chainId state) = Inr signed \<and>
    verify (sm_primitives m) (sk_publicSignatureKey state) signed (gm_signature message)"
  using assms by (auto simp: open_group_message_def and_then_eq_Inr split: if_splits)

lemma staged_dom: "dom (staged_map keys) = set (map (\<lambda>k. (ss_senderKeyId k, ss_chainIndex k)) keys)"
  by (simp add: staged_map_def dom_map_of_conv_image_fst image_image)

section \<open>The effects of the operations\<close>

definition skipped_plaintext :: "'s SenderKeyManager \<Rightarrow> SkippedSenderMessageKey \<Rightarrow> Base64 \<Rightarrow> js_string result" where
  "skipped_plaintext m key ciphertext =
     and_then (base64ToBytes (mk_cipherKey key)) (\<lambda>skippedCipherKey.
     and_then (base64ToBytes (mk_iv key)) (\<lambda>skippedIv.
     and_then (group_aesCbcDecrypt m skippedCipherKey skippedIv ciphertext) encodeLosslessPlaintext))"

definition consume_commit :: "EncryptedGroupMessage \<Rightarrow> receive_seed option \<Rightarrow> js_string \<Rightarrow> js_string \<Rightarrow> SenderKeyReceiveCommit" where
  "consume_commit message seed plaintext groupId =
     \<lparr>rc_work = map_option (\<lambda>f. f plaintext groupId) seed,
      rc_consumedSkippedKey = Some (gm_senderKeyId message, gm_chainIndex message),
      rc_maxSkippedKeys = 0, rc_skippedKeys = []\<rparr>"

context sender_key_store
begin

definition same_keys :: "'s \<Rightarrow> 's \<Rightarrow> bool" where
  "same_keys s t \<longleftrightarrow> cur t = cur s \<and> rcd t = rcd s \<and> skp t = skp s \<and> (valid s \<longrightarrow> valid t)"

lemma same_keys_refl [simp]: "same_keys s s"
  by (simp add: same_keys_def)

lemma decrypt_skipped_eval:
  assumes m: "sm_storage m = st"
  shows "decryptWithSkippedKey m g u d message seed s =
    (case skp s (g, u, d) (gm_senderKeyId message, gm_chainIndex message) of
       None \<Rightarrow> (Inl (EncryptionError MESSAGE_DUPLICATE), s)
     | Some key \<Rightarrow> (case skipped_plaintext m key (gm_ciphertext message) of
         Inl e \<Rightarrow> (Inl e, s)
       | Inr plaintext \<Rightarrow> (case rcd s (g, u, d) of
           None \<Rightarrow> (Inl (PlainError ''Missing sender-key record during receive''), s)
         | Some states \<Rightarrow> if states = [] then (Inl (PlainError ''Missing sender-key record during receive''), s)
             else bnd (ks_storeSenderKeyRecord st g u d states (consume_commit message seed plaintext g) False)
               (\<lambda>_. ret plaintext) s)))"
  by (auto simp: decryptWithSkippedKey_def bnd_eval [of "ks_getSkippedSenderKey _ _ _ _ _ _"] bnd_eval [of "of_result _"]
      bnd_eval [of "loadSenderKeyRecord _ _ _ _"] m get_skipped load_record [OF m] action_eval skipped_plaintext_def
      consume_commit_def split: option.split sum.split)

lemma decrypt_skipped_cases:
  assumes m: "sm_storage m = st" and "decryptWithSkippedKey m g u d message seed s = (r, t)"
  shows "(\<exists>e. r = Inl e \<and> same_keys s t) \<or>
    (\<exists>key plaintext states. r = Inr plaintext \<and>
      skp s (g, u, d) (gm_senderKeyId message, gm_chainIndex message) = Some key \<and>
      skipped_plaintext m key (gm_ciphertext message) = Inr plaintext \<and>
      rcd s (g, u, d) = Some states \<and> states \<noteq> [] \<and>
      ks_storeSenderKeyRecord st g u d states (consume_commit message seed plaintext g) False s = (Inr (), t))"
proof -
  note d = assms(2) [unfolded decrypt_skipped_eval [OF m]]
  show ?thesis
  proof (cases "skp s (g, u, d) (gm_senderKeyId message, gm_chainIndex message)")
    case key: (Some key)
    show ?thesis
    proof (cases "skipped_plaintext m key (gm_ciphertext message)")
      case plaintext: (Inr plaintext)
      show ?thesis
      proof (cases "\<exists>states. rcd s (g, u, d) = Some states \<and> states \<noteq> []")
        case True
        then obtain states where states: "rcd s (g, u, d) = Some states" "states \<noteq> []" by blast
        obtain x t' where w: "ks_storeSenderKeyRecord st g u d states (consume_commit message seed plaintext g) False s = (x, t')"
          by fastforce
        show ?thesis
        proof (cases x)
          case (Inl e)
          with d key plaintext states w have "r = Inl e" "t = t'" by (simp_all add: bnd_def)
          then show ?thesis using store_record_error [OF w [unfolded Inl]] by (simp add: same_keys_def)
        next
          case (Inr v)
          with d key plaintext states w show ?thesis by (auto simp: bnd_def ret_def)
        qed
      next
        case False
        with d key plaintext show ?thesis by (auto split: option.splits)
      qed
    next
      case (Inl e)
      with d key have "r = Inl e \<and> s = t" by simp
      then show ?thesis by simp
    qed
  qed (use d in auto)
qed

lemma decrypt_cases:
  assumes m: "sm_storage m = st" and dec: "decryptGroupMessage m g u d f seed s = (r, t)"
  obtains (error) e where "r = Inl e" "same_keys s t"
  | (old) message j key plaintext states where "r = Inr plaintext" "encrypted_message f = Inr message"
      "state_named (gm_senderKeyId message) (loaded_states s (g, u, d)) = Some j"
      "open_group_message m (loaded_states s (g, u, d) ! j) message = Inr OldIndex"
      "skp s (g, u, d) (gm_senderKeyId message, gm_chainIndex message) = Some key"
      "skipped_plaintext m key (gm_ciphertext message) = Inr plaintext"
      "rcd s (g, u, d) = Some states" "states \<noteq> []"
      "ks_storeSenderKeyRecord st g u d states (consume_commit message seed plaintext g) False s = (Inr (), t)"
  | (opened) message j plaintext state keys where "r = Inr plaintext" "encrypted_message f = Inr message"
      "state_named (gm_senderKeyId message) (loaded_states s (g, u, d)) = Some j"
      "open_group_message m (loaded_states s (g, u, d) ! j) message = Inr (Opened plaintext state keys)"
      "ks_storeSenderKeyRecord st g u d ((loaded_states s (g, u, d))[j := state])
        (group_receive_commit m keys seed plaintext g) False s = (Inr (), t)"
proof -
  note d = dec [unfolded decrypt_message [OF m]]
  have fail: thesis if "(\<exists>e. r = Inl e) \<and> t = s" using that by (auto intro: error)
  have err: thesis if "ks_storeSenderKeyRecord st g u d x y z s = (Inl e, t)" "r = Inl e" for x y z e
    using error [OF that(2)] store_record_error [OF that(1)] by (simp add: same_keys_def)
  show thesis
  proof (cases "encrypted_message f")
    case (Inl e)
    with d have "(\<exists>e. r = Inl e) \<and> t = s" by (auto simp: bnd_eval action_eval)
    then show ?thesis by (rule fail)
  next
    case (Inr message)
    let ?L = "loaded_states s (g, u, d)"
    from d have d: "decrypt_by_record m g u d message seed ?L s = (r, t)" by (simp add: Inr bnd_eval action_eval)
    show ?thesis
    proof (cases "state_named (gm_senderKeyId message) ?L")
      case None
      with d have "(\<exists>e. r = Inl e) \<and> t = s"
        by (auto simp: decrypt_by_record_def bnd_eval action_eval split: if_splits sum.splits)
      then show ?thesis by (rule fail)
    next
      case (Some j)
      show ?thesis
      proof (cases "open_group_message m (?L ! j) message")
        case (Inl e)
        with d Some have "(\<exists>e. r = Inl e) \<and> t = s"
          by (auto simp: decrypt_by_record_def bnd_eval action_eval split: if_splits sum.splits)
        then show ?thesis by (rule fail)
      next
        case opn: (Inr x)
        from d Some opn have d: "(\<exists>e. r = Inl e \<and> t = s) \<or> (case x of OldIndex \<Rightarrow> decryptWithSkippedKey m g u d message seed
            | Opened plaintext state keys \<Rightarrow> bnd (ks_storeSenderKeyRecord st g u d (?L[j := state])
                  (group_receive_commit m keys seed plaintext g) False) (\<lambda>_. ret plaintext)) s = (r, t)"
          by (auto simp: decrypt_by_record_def bnd_eval [of "of_result _"] action_eval m split: if_splits sum.splits)
        show ?thesis
        proof (cases "\<exists>e. r = Inl e \<and> t = s")
          case True
          then show ?thesis by (auto intro: fail)
        next
          case no: False
          show ?thesis
          proof (cases x)
            case OldIndex
            with d no have "decryptWithSkippedKey m g u d message seed s = (r, t)" by auto
            from decrypt_skipped_cases [OF m this] show ?thesis
              using old [OF _ Inr Some opn [unfolded OldIndex]] error by blast
          next
            case (Opened plaintext state keys)
            with d no have "bnd (ks_storeSenderKeyRecord st g u d (?L[j := state])
                  (group_receive_commit m keys seed plaintext g) False) (\<lambda>_. ret plaintext) s = (r, t)" by auto
            then show ?thesis using opened [OF _ Inr Some opn [unfolded Opened]] err
              by (auto simp: bnd_def ret_def split: sum.splits prod.splits)
          qed
        qed
      qed
    qed
  qed
qed

end

text \<open>Elimination of the steps of an action that do not touch the storage.\<close>

lemma of_resultE:
  assumes "bnd (of_result x) f s = (r, t)"
  obtains "(\<exists>e. r = Inl e) \<and> t = s" | a where "x = Inr a" "f a s = (r, t)"
  using assms by (cases x) (auto simp: bnd_eval action_eval)

lemma of_result_pairE:
  assumes "bnd (of_result x) (\<lambda>(a, b). f a b) s = (r, t)"
  obtains "(\<exists>e. r = Inl e) \<and> t = s" | a b where "x = Inr (a, b)" "f a b s = (r, t)"
  using assms by (cases x) (auto simp: bnd_eval action_eval)

lemma if_throwE:
  assumes "(if b then throw e else f) s = (r, t)"
  obtains "(\<exists>e. r = Inl e) \<and> t = s" | "\<not> b" "f s = (r, t)"
  using assms by (auto simp: action_eval split: if_splits)

text \<open>The frame that a state makes of a plaintext, and what the state becomes.\<close>

definition group_frame :: "'s SenderKeyManager \<Rightarrow> SenderKeyState \<Rightarrow> bytes \<Rightarrow> bytes \<Rightarrow> SenderKeyState \<Rightarrow> bool" where
  "group_frame m c plaintextBytes frame c' \<longleftrightarrow>
     (\<exists>cipherKey vector ct proto sigText sig ck.
        deriveMessageKey m (sk_chainKey c) = Inr (cipherKey, vector) \<and>
        sm_encryptAes m cipherKey vector plaintextBytes = Inr ct \<and>
        encodeSenderKeyMessage \<lparr>km_distributionUuid = Some (stringToBytes (sk_senderKeyId c)),
          km_chainId = Some (sk_chainId c), km_iteration = sk_chainIndex c, km_ciphertext = ct\<rparr> = Inr proto \<and>
        sign (sm_primitives m) (sk_signatureKey c) (sender_key_version_byte # proto) = Inr sigText \<and>
        base64ToBytes sigText = Inr sig \<and> advanceChainKey m (sk_chainKey c) = Inr ck \<and>
        frameSenderKeyMessage proto sig = Inr frame \<and>
        c' = c\<lparr>sk_chainKey := ck, sk_chainIndex := sk_chainIndex c + 1\<rparr>)"

context sender_key_store
begin

lemma encrypt_cases:
  assumes m: "sm_storage m = st" and enc: "encryptGroupMessage m now g u d plaintextBytes s = (r, t)"
  shows "(\<exists>e. r = Inl e) \<and> same_keys s t \<or>
    (\<exists>c c'. cur s (g, u, d) = Some c \<and> sk_chainIndex c < 0xfffffffe \<and>
       ownSenderKeyExpiry now c (sm_maxSenderKeyAge m) = None \<and>
       (\<exists>ck. c' = c\<lparr>sk_chainKey := ck, sk_chainIndex := sk_chainIndex c + 1\<rparr>) \<and>
       ks_storeSenderKey st g u d c' s = (Inr (), t) \<and>
       (\<forall>frame. r = Inr frame \<longrightarrow> group_frame m c plaintextBytes frame c'))"
proof -
  note ev = bnd_eval [of "loadSenderKey _ _ _ _"] bnd_eval [of "of_result _"] bnd_eval [of "if _ then _ else _"] load_key [OF m] action_eval m
  show ?thesis
  proof (cases "cur s (g, u, d)")
    case None
    with enc show ?thesis by (auto simp: encryptGroupMessage_def ev)
  next
    case (Some c)
    consider (bad) "(\<exists>e. r = Inl e) \<and> t = s"
      | (good) cipherKey vector ct proto sigText sig ck where "sk_chainIndex c < 0xfffffffe"
        "ownSenderKeyExpiry now c (sm_maxSenderKeyAge m) = None"
        "deriveMessageKey m (sk_chainKey c) = Inr (cipherKey, vector)"
        "sm_encryptAes m cipherKey vector plaintextBytes = Inr ct"
        "encodeSenderKeyMessage \<lparr>km_distributionUuid = Some (stringToBytes (sk_senderKeyId c)),
          km_chainId = Some (sk_chainId c), km_iteration = sk_chainIndex c, km_ciphertext = ct\<rparr> = Inr proto"
        "sign (sm_primitives m) (sk_signatureKey c) (sender_key_version_byte # proto) = Inr sigText"
        "base64ToBytes sigText = Inr sig" "advanceChainKey m (sk_chainKey c) = Inr ck"
        "bnd (ks_storeSenderKey st g u d (c\<lparr>sk_chainKey := ck, sk_chainIndex := sk_chainIndex c + 1\<rparr>))
           (\<lambda>_. of_result (frameSenderKeyMessage proto sig)) s = (r, t)"
    proof -
      from enc Some have "bnd (of_result (assertSenderKeyVersion (sk_senderKeyVersion c))) (\<lambda>_.
         if ownSenderKeyExpiry now c (sm_maxSenderKeyAge m) \<noteq> None then throw (EncryptionError SENDER_KEY_EXPIRED)
         else if sk_chainIndex c \<ge> 0xfffffffe then throw (EncryptionError ENCRYPTION_FAILED)
         else
           bnd (of_result (deriveMessageKey m (sk_chainKey c))) (\<lambda>(cipherKey, vector).
           bnd (of_result (group_aesCbcEncrypt m cipherKey vector plaintextBytes)) (\<lambda>ciphertextBase64.
           bnd (of_result (and_then (base64ToBytes ciphertextBase64) (\<lambda>ciphertext.
             encodeSenderKeyMessage
               \<lparr>km_distributionUuid = Some (stringToBytes (sk_senderKeyId c)),
                km_chainId = Some (sk_chainId c), km_iteration = sk_chainIndex c,
                km_ciphertext = ciphertext\<rparr>))) (\<lambda>protoBytes.
           bnd (of_result (and_then (sign (sm_primitives m) (sk_signatureKey c) (sender_key_version_byte # protoBytes))
             base64ToBytes)) (\<lambda>signatureBytes.
           bnd (of_result (advanceChainKey m (sk_chainKey c))) (\<lambda>newChainKey.
           bnd (ks_storeSenderKey st g u d
             (c\<lparr>sk_chainKey := newChainKey, sk_chainIndex := sk_chainIndex c + 1\<rparr>)) (\<lambda>_.
           of_result (frameSenderKeyMessage protoBytes signatureBytes)))))))) s = (r, t)"
        by (simp only: encryptGroupMessage_def bnd_eval [of "loadSenderKey _ _ _ _"] load_key [OF m] m fst_conv snd_conv
            sum.case option.case)
      then show thesis
        by (elim of_resultE of_result_pairE if_throwE)
          (auto intro: bad good simp: group_aesCbcEncrypt_def base64.dec_enc and_then_eq_Inr not_le)
    qed
    then show ?thesis
    proof cases
      case good
      let ?c = "c\<lparr>sk_chainKey := ck, sk_chainIndex := sk_chainIndex c + 1\<rparr>"
      obtain x t' where w: "ks_storeSenderKey st g u d ?c s = (x, t')" by fastforce
      show ?thesis
      proof (cases x)
        case (Inl e)
        with good w have "r = Inl e" "t = t'" by (simp_all add: bnd_def)
        then show ?thesis using store_key_error [OF w [unfolded Inl]] by (simp add: same_keys_def)
      next
        case (Inr y)
        have t: "t = t'" "r = frameSenderKeyMessage proto sig" using good(9) w Inr by (simp_all add: bnd_def of_result_def)
        have "group_frame m c plaintextBytes frame ?c" if "r = Inr frame" for frame
        proof -
          have frame: "frameSenderKeyMessage proto sig = Inr frame" using that t by simp
          show ?thesis unfolding group_frame_def
            by (rule exI [of _ cipherKey], rule exI [of _ vector], rule exI [of _ ct], rule exI [of _ proto],
                rule exI [of _ sigText], rule exI [of _ sig], rule exI [of _ ck]) (simp add: good(3-8) frame)
        qed
        moreover have "ks_storeSenderKey st g u d ?c s = (Inr (), t)" using w Inr t(1) by simp
        ultimately show ?thesis
          by (intro disjI2 exI [of _ c] exI [of _ ?c] conjI allI impI exI [of _ ck]) (simp_all add: Some good(1,2))
      qed
    qed simp
  qed
qed

lemma persist_cases:
  assumes m: "sm_storage m = st"
    and "bnd (persistSenderKeyRecord m g u d state prev h) (\<lambda>_. ret x) s = (r, t)"
  shows "(\<exists>e. r = Inl e) \<and> same_keys s t \<or>
    r = Inr x \<and> ks_storeSenderKeyRecord st g u d (state # prev) no_receive h s = (Inr (), t)"
proof -
  obtain y t' where w: "ks_storeSenderKeyRecord st g u d (state # prev) no_receive h s = (y, t')" by fastforce
  show ?thesis
  proof (cases y)
    case (Inl e)
    with assms w have "r = Inl e" "t = t'" by (simp_all add: persistSenderKeyRecord_def bnd_def)
    then show ?thesis using store_record_error [OF w [unfolded Inl]] by (simp add: same_keys_def)
  next
    case (Inr v)
    with assms w show ?thesis by (simp add: persistSenderKeyRecord_def bnd_def ret_def)
  qed
qed

lemma create_cases:
  assumes m: "sm_storage m = st" and c: "createSenderKey m now random g u d s = (r, t)"
  shows "(\<exists>e. r = Inl e) \<and> same_keys s t \<or>
    (\<exists>state. new_sender_key m now random 1 = Inr state \<and> r = Inr (sk_senderKeyId state, distribution_of state) \<and>
       ks_storeSenderKeyRecord st g u d [state] no_receive True s = (Inr (), t))"
  using c unfolding createSenderKey_def
proof (elim of_resultE)
  fix state assume n: "new_sender_key m now random 1 = Inr state"
    and p: "bnd (persistSenderKeyRecord m g u d state [] True) (\<lambda>_. ret (sk_senderKeyId state, distribution_of state)) s = (r, t)"
  from persist_cases [OF m p] n show ?thesis by blast
qed auto

lemma rotate_cases:
  assumes m: "sm_storage m = st" and c: "rotateSenderKey m now random g u d s = (r, t)"
  shows "(\<exists>e. r = Inl e) \<and> same_keys s t \<or>
    (\<exists>state generation. new_sender_key m now random generation = Inr state \<and>
       r = Inr (sk_senderKeyId state, distribution_of state) \<and>
       ks_storeSenderKeyRecord st g u d (state # take (MAX_SENDER_KEY_STATES - 1) (loaded_states s (g, u, d)))
         no_receive True s = (Inr (), t))"
proof -
  from c have "bnd (of_result (case cur s (g, u, d) of None \<Rightarrow> Inr () | Some old \<Rightarrow> assertSenderKeyVersion (sk_senderKeyVersion old))) (\<lambda>_.
     bnd (of_result (new_sender_key m now random (case cur s (g, u, d) of None \<Rightarrow> 1 | Some old \<Rightarrow> sk_generation old + 1))) (\<lambda>newState.
     bnd (case cur s (g, u, d) of None \<Rightarrow> ret []
          | Some old \<Rightarrow> bnd (loadPreviousStates m g u d) (\<lambda>previous.
              ret (take (MAX_SENDER_KEY_STATES - 1) (old # previous)))) (\<lambda>prev.
     bnd (persistSenderKeyRecord m g u d newState prev True) (\<lambda>_.
     ret (sk_senderKeyId newState, distribution_of newState))))) s = (r, t)"
    by (simp add: rotateSenderKey_def bnd_eval [of "loadSenderKey _ _ _ _"] load_key [OF m])
  then show ?thesis
  proof (elim of_resultE)
    fix state assume n: "new_sender_key m now random (case cur s (g, u, d) of None \<Rightarrow> 1 | Some old \<Rightarrow> sk_generation old + 1) = Inr state"
      and "bnd (case cur s (g, u, d) of None \<Rightarrow> ret []
          | Some old \<Rightarrow> bnd (loadPreviousStates m g u d) (\<lambda>previous.
              ret (take (MAX_SENDER_KEY_STATES - 1) (old # previous)))) (\<lambda>prev.
     bnd (persistSenderKeyRecord m g u d state prev True) (\<lambda>_.
     ret (sk_senderKeyId state, distribution_of state))) s = (r, t)"
    then have "bnd (persistSenderKeyRecord m g u d state (take (MAX_SENDER_KEY_STATES - 1) (loaded_states s (g, u, d))) True)
        (\<lambda>_. ret (sk_senderKeyId state, distribution_of state)) s = (r, t)"
      by (cases "cur s (g, u, d)")
        (simp_all add: loaded_states_def loaded_list_def bnd_eval [of "loadPreviousStates _ _ _ _"] load_previous [OF m] bnd_assoc)
    from persist_cases [OF m this] n show ?thesis by blast
  qed auto
qed

lemma process_cases:
  assumes m: "sm_storage m = st" and c: "processSenderKeyDistribution m now g u d message s = (r, t)"
  shows "((\<exists>e. r = Inl e) \<or> distribution_is_stale (cur s (g, u, d)) (tl (loaded_states s (g, u, d))) message = Inr True \<and> r = Inr ()) \<and> same_keys s t \<or>
    (\<exists>state prev. distribution_is_stale (cur s (g, u, d)) (tl (loaded_states s (g, u, d))) message = Inr False \<and>
       sk_senderKeyId state = sd_senderKeyId message \<and> sk_senderKeyVersion state = SENDER_KEY_FORMAT \<and>
       sk_chainId state = sd_chainId message \<and> sk_chainKey state = sd_chainKey message \<and>
       sk_publicSignatureKey state = sd_publicSignatureKey message \<and>
       sk_chainIndex state = or_else (sd_chainIndex message) 0 \<and> r = Inr () \<and>
       prev = (case cur s (g, u, d) of None \<Rightarrow> [] | Some old \<Rightarrow>
         if sk_senderKeyId old = sd_senderKeyId message then tl (loaded_states s (g, u, d))
         else take (MAX_SENDER_KEY_STATES - 1) (loaded_states s (g, u, d))) \<and>
       ks_storeSenderKeyRecord st g u d (state # prev) no_receive False s = (Inr (), t))"
proof -
  let ?c = "cur s (g, u, d)" and ?L = "loaded_states s (g, u, d)"
  let ?state = "\<lparr>sk_senderKeyId = sd_senderKeyId message, sk_senderKeyVersion = SENDER_KEY_FORMAT,
             sk_chainId = sd_chainId message, sk_generation = sd_generation message,
             sk_chainKey = sd_chainKey message, sk_signatureKey = [],
             sk_publicSignatureKey = sd_publicSignatureKey message,
             sk_chainIndex = or_else (sd_chainIndex message) 0, sk_createdAt = Some now\<rparr>"
  let ?prev = "case ?c of None \<Rightarrow> [] | Some old \<Rightarrow>
         if sk_senderKeyId old = sd_senderKeyId message then tl ?L else take (MAX_SENDER_KEY_STATES - 1) ?L"
  show ?thesis
    using c unfolding processSenderKeyDistribution_def
  proof (elim of_resultE)
    fix v
    let ?rest = "bnd (of_result (distribution_is_stale ?c (tl ?L) message)) (\<lambda>stale.
       if stale then ret () else persistSenderKeyRecord m g u d ?state ?prev False)"
    assume "bnd (loadSenderKey m g u d) (\<lambda>existing.
     bnd (case existing of None \<Rightarrow> ret [] | Some _ \<Rightarrow> loadPreviousStates m g u d) (\<lambda>previous.
     bnd (of_result (distribution_is_stale existing previous message)) (\<lambda>stale.
     if stale then ret ()
     else
       let state = ?state;
           prev = (case existing of None \<Rightarrow> []
             | Some old \<Rightarrow> if sk_senderKeyId old = sd_senderKeyId message then previous
                           else take (MAX_SENDER_KEY_STATES - 1) (old # previous))
       in persistSenderKeyRecord m g u d state prev False))) s = (r, t)"
    then have "?rest s = (r, t)"
      by (cases ?c) (simp_all only: bnd_eval [of "loadSenderKey _ _ _ _"] load_key [OF m] fst_conv snd_conv sum.case option.case
        bnd_ret bnd_eval [of "loadPreviousStates _ _ _ _"] load_previous [OF m] Let_def loaded_states_def loaded_list_def list.sel)
    then show ?thesis
    proof (elim of_resultE)
    fix stale assume s: "distribution_is_stale ?c (tl ?L) message = Inr stale"
      and "(if stale then ret () else persistSenderKeyRecord m g u d ?state ?prev False) s = (r, t)"
    then consider "stale" "r = Inr ()" "t = s" | "\<not> stale" "bnd (persistSenderKeyRecord m g u d ?state ?prev False) (\<lambda>_. ret ()) s = (r, t)"
      by (cases stale) (auto simp: action_eval bnd_eval split: sum.splits intro: prod_eqI)
    then show ?thesis
    proof cases
      case 1
      then show ?thesis using s by simp
    next
      case 2
      from persist_cases [OF m 2(2)] show ?thesis
      proof
        assume w: "r = Inr () \<and> ks_storeSenderKeyRecord st g u d (?state # ?prev) no_receive False s = (Inr (), t)"
        show ?thesis
          by (rule disjI2, rule exI [of _ ?state], rule exI [of _ ?prev]) (use s 2(1) w in simp)
      qed simp
    qed
    qed auto
  qed auto
qed

lemma delete_cases:
  assumes m: "sm_storage m = st" and c: "manager_deleteSenderKey m g u d s = (r, t)"
  shows "(\<exists>e. r = Inl e) \<and> same_keys s t \<or> r = Inr () \<and> (\<exists>h. ks_deleteSenderKey st g u d h s = (Inr (), t))"
proof -
  from c obtain h where h: "ks_deleteSenderKey st g u d h s = (r, t)"
    by (auto simp: manager_deleteSenderKey_def bnd_eval load_key [OF m] m)
  then show ?thesis using delete_key_error by (cases r) (auto simp: same_keys_def)
qed

end

end
