(* ===== verification/Sender_Run.thy ===== *)
theory Sender_Run
  imports Sender_Record
begin

text \<open>
  Runs of the sender-key manager: any sequence of its operations, with any arguments and with injected failures of the
  storage, on the own devices and on the devices of others.

  A run keeps ghosts for each device of a group: the identifiers of all keys it ever had here, those of them that were
  renewed, the messages \<open>(senderKeyId, chainIndex)\<close> that a decryption returned, and those that an encryption returned. Keys
  made here have new identifiers, which is what the random identifiers are for. Distributions of other devices are arbitrary:
  new ones, the same one again, late ones, a known identifier with other contents. A device does not decrypt its own
  messages.

  Shown here: on every run a record has at most five states with different identifiers and the current one at its head, and
  the skipped keys are bounded; no message of a key that was not renewed is returned twice by decryptions, whatever frames
  and distributions arrive and however often; no index of a chain is used by two encryptions.
\<close>

section \<open>Definitions\<close>

type_synonym message_log = "sender_addr \<Rightarrow> (js_string \<times> nat) list"

text \<open>The message that a returned frame, or a frame whose decryption returned, names.\<close>

definition frame_entry :: "bytes \<Rightarrow> (js_string \<times> nat) list" where
  "frame_entry f = (case encrypted_message f of
      Inl _ \<Rightarrow> [] | Inr message \<Rightarrow> [(gm_senderKeyId message, gm_chainIndex message)])"

definition log_entry :: "'a result \<Rightarrow> (js_string \<times> nat) list \<Rightarrow> (js_string \<times> nat) list" where
  "log_entry r entries = (case r of Inl _ \<Rightarrow> [] | Inr _ \<Rightarrow> entries)"

definition sent_entry :: "bytes result \<Rightarrow> (js_string \<times> nat) list" where
  "sent_entry r = (case r of Inl _ \<Rightarrow> [] | Inr f \<Rightarrow> frame_entry f)"

text \<open>
  The states of a device that the manager loads, and the distributions that repeat one of them: those of the current key in
  its generation or an earlier one, and those of a previous key.
\<close>

definition held_states :: "'s SenderKeyManager \<Rightarrow> sender_addr \<Rightarrow> 's \<Rightarrow> SenderKeyState list" where
  "held_states m a s = (case a of (g, u, d) \<Rightarrow>
     case (fst (loadSenderKey m g u d s), fst (loadPreviousStates m g u d s)) of
       (Inr (Some state), Inr previous) \<Rightarrow> state # previous
     | _ \<Rightarrow> [])"

definition repeats :: "SenderKeyDistributionMessage \<Rightarrow> SenderKeyState list \<Rightarrow> bool" where
  "repeats message states \<longleftrightarrow> (\<exists>j < length states. sk_senderKeyId (states ! j) = sd_senderKeyId message \<and>
     (j = 0 \<longrightarrow> sd_generation message \<le> sk_generation (states ! j)))"

text \<open>
  The ghosts after a distribution that was processed without an error. A key that was known is renewed unless the
  distribution repeats a state: then it was deleted or evicted in between, or it comes in a later generation.
\<close>

definition after_install :: "'a result \<Rightarrow> SenderKeyDistributionMessage \<Rightarrow> js_string set \<Rightarrow> js_string set" where
  "after_install r message ids = (case r of Inl _ \<Rightarrow> ids | Inr _ \<Rightarrow> insert (sd_senderKeyId message) ids)"

definition after_renewal ::
    "'a result \<Rightarrow> SenderKeyDistributionMessage \<Rightarrow> SenderKeyState list \<Rightarrow> js_string set \<Rightarrow> js_string set \<Rightarrow> js_string set" where
  "after_renewal r message states ids ren =
     (if sd_senderKeyId message \<in> ids \<and> \<not> repeats message states then after_install r message ren else ren)"

inductive group_run :: "sender_addr set \<Rightarrow> 's SenderKeyManager \<Rightarrow> 's \<Rightarrow> 's \<Rightarrow> (sender_addr \<Rightarrow> js_string set) \<Rightarrow>
    (sender_addr \<Rightarrow> js_string set) \<Rightarrow> message_log \<Rightarrow> message_log \<Rightarrow> bool" for own m s0 where
  start: "group_run own m s0 s0 (\<lambda>_. {}) (\<lambda>_. {}) (\<lambda>_. []) (\<lambda>_. [])"
| create: "group_run own m s0 s known renewed opened sent \<Longrightarrow> (g, u, d) \<in> own \<Longrightarrow>
    generateUuidV4 (fst random) \<notin> known (g, u, d) \<Longrightarrow> createSenderKey m now random g u d s = (r, t) \<Longrightarrow>
    group_run own m s0 t (known((g, u, d) := insert (generateUuidV4 (fst random)) (known (g, u, d)))) renewed opened sent"
| rotate: "group_run own m s0 s known renewed opened sent \<Longrightarrow> (g, u, d) \<in> own \<Longrightarrow>
    generateUuidV4 (fst random) \<notin> known (g, u, d) \<Longrightarrow> rotateSenderKey m now random g u d s = (r, t) \<Longrightarrow>
    group_run own m s0 t (known((g, u, d) := insert (generateUuidV4 (fst random)) (known (g, u, d)))) renewed opened sent"
| encrypt: "group_run own m s0 s known renewed opened sent \<Longrightarrow> (g, u, d) \<in> own \<Longrightarrow>
    encryptGroupMessage m now g u d plaintextBytes s = (frame, t) \<Longrightarrow>
    group_run own m s0 t known renewed opened (sent((g, u, d) := sent (g, u, d) @ sent_entry frame))"
| delete: "group_run own m s0 s known renewed opened sent \<Longrightarrow> manager_deleteSenderKey m g u d s = (result, t) \<Longrightarrow>
    group_run own m s0 t known renewed opened sent"
| install: "group_run own m s0 s known renewed opened sent \<Longrightarrow> (g, u, d) \<notin> own \<Longrightarrow>
    processSenderKeyDistribution m now g u d message s = (result, t) \<Longrightarrow>
    group_run own m s0 t (known((g, u, d) := after_install result message (known (g, u, d))))
      (renewed((g, u, d) := after_renewal result message (held_states m (g, u, d) s) (known (g, u, d)) (renewed (g, u, d)))) opened sent"
| decrypt: "group_run own m s0 s known renewed opened sent \<Longrightarrow> (g, u, d) \<notin> own \<Longrightarrow>
    decryptGroupMessage m g u d f seed s = (plain, t) \<Longrightarrow>
    group_run own m s0 t known renewed (opened((g, u, d) := opened (g, u, d) @ log_entry plain (frame_entry f))) sent"

text \<open>The messages of keys that were not renewed.\<close>

definition kept :: "js_string set \<Rightarrow> (js_string \<times> nat) set \<Rightarrow> (js_string \<times> nat) set" where
  "kept ren messages = {k \<in> messages. fst k \<notin> ren}"

definition kept_log :: "js_string set \<Rightarrow> (js_string \<times> nat) list \<Rightarrow> (js_string \<times> nat) list" where
  "kept_log ren log = filter (\<lambda>k. fst k \<notin> ren) log"

text \<open>
  What holds of one device of a group: of its current state and record, of the chain indices of its states, and of its
  skipped keys \<open>D\<close> and logs.
\<close>

definition record_ok :: "bool \<Rightarrow> SenderKeyState option \<Rightarrow> SenderKeyState list option \<Rightarrow> js_string set \<Rightarrow> bool" where
  "record_ok own c R ids \<longleftrightarrow>
     (case R of None \<Rightarrow> c = None
      | Some xs \<Rightarrow> xs \<noteq> [] \<and> length xs \<le> MAX_SENDER_KEY_STATES \<and> distinct (map sk_senderKeyId xs) \<and>
          sk_senderKeyId ` set xs \<subseteq> ids \<and> (\<exists>x. c = Some x \<and> sk_senderKeyId x = sk_senderKeyId (hd xs) \<and>
            (if own then wire_text (sk_senderKeyId x) \<and> sk_senderKeyId x \<noteq> [] else x = hd xs)))"

definition beyond :: "SenderKeyState set \<Rightarrow> (js_string \<times> nat) set \<Rightarrow> bool" where
  "beyond states messages \<longleftrightarrow> (\<forall>x \<in> states. \<forall>n. (sk_senderKeyId x, n) \<in> messages \<longrightarrow> n < sk_chainIndex x)"

definition logs_ok :: "bool \<Rightarrow> (js_string \<times> nat) set \<Rightarrow> js_string set \<Rightarrow> (js_string \<times> nat) list \<Rightarrow>
    (js_string \<times> nat) list \<Rightarrow> bool" where
  "logs_ok own D ids ops snt \<longleftrightarrow>
     (if own then D = {} \<and> ops = [] else snt = []) \<and> D \<inter> set ops = {} \<and>
     fst ` (D \<union> set ops \<union> set snt) \<subseteq> ids \<and> distinct ops \<and> distinct snt"

definition addr_ok :: "bool \<Rightarrow> SenderKeyState option \<Rightarrow> SenderKeyState list option \<Rightarrow>
    (js_string \<times> nat) set \<Rightarrow> js_string set \<Rightarrow> (js_string \<times> nat) list \<Rightarrow> (js_string \<times> nat) list \<Rightarrow> bool" where
  "addr_ok own c R D ids ops snt \<longleftrightarrow>
     record_ok own c R ids \<and> beyond (\<Union>xs \<in> set_option R. set xs) (D \<union> set ops) \<and> beyond (set_option c) (set snt) \<and>
     logs_ok own D ids ops snt"

section \<open>Identifiers\<close>

definition plain_ascii :: "js_string \<Rightarrow> bool" where
  "plain_ascii s = list_all (\<lambda>c. c < 128) s"

lemma plain_ascii_wf: "plain_ascii s \<Longrightarrow> well_formed_utf16 s"
proof (induction s rule: well_formed_utf16.induct)
  case (1)
  then show ?case by simp
qed (auto simp: plain_ascii_def high_surrogate_def low_surrogate_def word_less_nat_alt word_le_nat_alt)

lemma plain_ascii_wire: "plain_ascii s \<Longrightarrow> wire_text s"
  using plain_ascii_wf [of s] by (cases s) (auto simp: wire_text_def plain_ascii_def)

lemma hex_byte_ascii: "plain_ascii (hex_byte b)"
proof -
  have "hex_digit n < 128" if "n < 16" for n
  proof -
    have "n \<in> {0..<16}" using that by simp
    then show ?thesis by (auto simp: hex_digit_def atLeastLessThan_nat_numeral word_less_nat_alt unat_of_nat)
  qed
  then show ?thesis using unat_byte_less [of b] by (simp add: plain_ascii_def hex_byte_def)
qed

lemma uuid_ascii: "plain_ascii (generateUuidV4 random)"
proof -
  have h: "plain_ascii (concat (map hex_byte bs))" for bs
    using hex_byte_ascii by (induction bs) (auto simp: plain_ascii_def)
  have sub: "plain_ascii (take n xs)" "plain_ascii (drop n xs)" if "plain_ascii xs" for n xs
    using that by (auto simp: plain_ascii_def list_all_iff dest: in_set_takeD in_set_dropD)
  have app: "plain_ascii (xs @ ys) \<longleftrightarrow> plain_ascii xs \<and> plain_ascii ys"
    "plain_ascii (c # xs) \<longleftrightarrow> c < 128 \<and> plain_ascii xs" for xs ys c by (simp_all add: plain_ascii_def)
  show ?thesis by (simp add: generateUuidV4_def Let_def js_slice_def app sub h)
qed

lemma uuid_wire: "wire_text (generateUuidV4 random) \<and> generateUuidV4 random \<noteq> []"
  using plain_ascii_wire [OF uuid_ascii] by (simp add: generateUuidV4_def Let_def)

section \<open>Every operation keeps what holds of a device\<close>

lemma beyondD: "beyond X messages \<Longrightarrow> x \<in> X \<Longrightarrow> (sk_senderKeyId x, n) \<in> messages \<Longrightarrow> n < sk_chainIndex x"
  unfolding beyond_def by blast

lemma beyond_mono: "beyond X messages \<Longrightarrow> Y \<subseteq> X \<Longrightarrow> messages' \<subseteq> messages \<Longrightarrow> beyond Y messages'"
  unfolding beyond_def by blast

lemma beyond_insert:
  "beyond (insert x X) messages \<longleftrightarrow> (\<forall>n. (sk_senderKeyId x, n) \<in> messages \<longrightarrow> n < sk_chainIndex x) \<and> beyond X messages"
  unfolding beyond_def by blast

lemma loaded_list_eq:
  "length xs \<le> MAX_SENDER_KEY_STATES \<Longrightarrow> loaded_list (Some x) (Some xs) = x # tl xs"
  by (simp add: loaded_list_def previous_states_def)

lemma record_ok_cases:
  assumes "record_ok own c R ids"
  obtains (none) "R = None" "c = None" "loaded_list c R = []"
  | (some) x y ys where "R = Some (y # ys)" "c = Some x" "loaded_list c R = x # ys" "sk_senderKeyId x = sk_senderKeyId y"
      "length ys < MAX_SENDER_KEY_STATES" "distinct (map sk_senderKeyId (y # ys))" "sk_senderKeyId ` set (y # ys) \<subseteq> ids"
      "if own then wire_text (sk_senderKeyId x) \<and> sk_senderKeyId x \<noteq> [] else x = y"
proof (cases R)
  case None
  with assms none show ?thesis by (simp add: record_ok_def loaded_list_def)
next
  case (Some xs)
  with assms obtain y ys x where "xs = y # ys" "c = Some x" by (cases xs) (auto simp: record_ok_def)
  with assms Some some [of y ys x] show ?thesis
    by (cases own) (auto simp: record_ok_def loaded_list_eq Suc_le_eq)
qed

lemma loaded_ids:
  assumes "record_ok own c R ids"
  shows "distinct (map sk_senderKeyId (loaded_list c R)) \<and> sk_senderKeyId ` set (loaded_list c R) \<subseteq> ids"
  by (rule record_ok_cases [OF assms]) auto

text \<open>A new key in front of loaded states, or with no previous states.\<close>

lemma addr_ok_new:
  assumes "addr_ok own c R D ids ops snt" and i: "sk_senderKeyId state \<notin> fst ` (D \<union> set ops \<union> set snt)"
    and prev: "prev \<in> {[], tl (loaded_list c R), take (MAX_SENDER_KEY_STATES - 1) (loaded_list c R)}"
    and fresh: "sk_senderKeyId state \<notin> sk_senderKeyId ` set prev"
    and wire: "own \<Longrightarrow> wire_text (sk_senderKeyId state) \<and> sk_senderKeyId state \<noteq> []"
  shows "addr_ok own (Some state) (Some (state # prev)) D (insert (sk_senderKeyId state) ids) ops snt"
proof -
  have r: "record_ok own c R ids" and b: "beyond (\<Union>xs \<in> set_option R. set xs) (D \<union> set ops)"
    and l: "logs_ok own D ids ops snt" using assms(1) by (simp_all add: addr_ok_def)
  have "set (tl xs) \<subseteq> set xs" for xs :: "SenderKeyState list" by (cases xs) auto
  then have sub: "set prev \<subseteq> set (loaded_list c R)" using prev by (auto dest: in_set_takeD)
  have dist: "distinct (map sk_senderKeyId prev)"
    using prev loaded_ids [OF r] by (auto simp: take_map [symmetric] map_tl distinct_tl)
  have "length (loaded_list c R) \<le> MAX_SENDER_KEY_STATES" by (rule record_ok_cases [OF r]) simp_all
  then have "length prev \<le> MAX_SENDER_KEY_STATES - 1" using prev by auto
  then have len: "length (state # prev) \<le> MAX_SENDER_KEY_STATES" by (simp add: MAX_SENDER_KEY_STATES_def)
  have new: "(sk_senderKeyId state, n) \<notin> D \<union> set ops \<union> set snt" for n using i by force
  have "record_ok own (Some state) (Some (state # prev)) (insert (sk_senderKeyId state) ids)"
    using len dist sub loaded_ids [OF r] fresh wire by (auto simp: record_ok_def)
  moreover have "beyond (set (state # prev)) (D \<union> set ops)"
  proof (cases own)
    case True
    then show ?thesis using l by (simp add: logs_ok_def beyond_def)
  next
    case False
    have "set (loaded_list c R) \<subseteq> (\<Union>xs \<in> set_option R. set xs)"
      by (rule record_ok_cases [OF r]) (use False in simp_all)
    with sub have "set prev \<subseteq> (\<Union>xs \<in> set_option R. set xs)" by (rule subset_trans)
    then have "beyond (set prev) (D \<union> set ops)" by (rule beyond_mono [OF b]) simp
    then show ?thesis using new by (simp add: beyond_insert)
  qed
  moreover have "beyond {state} (set snt)" using new by (simp add: beyond_def)
  moreover have "logs_ok own D (insert (sk_senderKeyId state) ids) ops snt" using l by (auto simp: logs_ok_def split: if_splits)
  ultimately show ?thesis by (simp add: addr_ok_def)
qed

lemma addr_ok_encrypt:
  assumes "addr_ok own (Some x) R D ids ops snt" and own
    and x': "x' = x\<lparr>sk_chainKey := ck, sk_chainIndex := sk_chainIndex x + 1\<rparr>"
    and R': "R' = Some (x' # previous_states R) \<or> R' = R" and log: "log = [] \<or> log = [(sk_senderKeyId x, sk_chainIndex x)]"
  shows "addr_ok own (Some x') R' D ids ops (snt @ log)"
proof -
  have r: "record_ok own (Some x) R ids" and c: "beyond {x} (set snt)"
    and l: "logs_ok own D ids ops snt" using assms(1) by (simp_all add: addr_ok_def)
  have e: "D = {}" "ops = []" using l \<open>own\<close> by (simp_all add: logs_ok_def)
  obtain y ys where R: "R = Some (y # ys)" "sk_senderKeyId x = sk_senderKeyId y" "sk_senderKeyId x \<in> ids"
    by (rule record_ok_cases [OF r]) auto
  have new: "(sk_senderKeyId x, sk_chainIndex x) \<notin> set snt" using beyondD [OF c] by blast
  have "record_ok own (Some x') R' ids" using r R' \<open>own\<close> by (auto simp: record_ok_def R x' previous_states_def)
  moreover have "beyond {x'} (set (snt @ log))"
    using c log by (auto simp: beyond_def x' less_Suc_eq)
  moreover have "logs_ok own D ids ops (snt @ log)" using l log new R(3) \<open>own\<close> by (auto simp: logs_ok_def)
  ultimately show ?thesis by (simp add: addr_ok_def e) (simp add: beyond_def)
qed

lemma addr_ok_delete: "addr_ok own c R D ids ops snt \<Longrightarrow> addr_ok own None None D ids ops snt"
  by (simp add: addr_ok_def record_ok_def beyond_def)

text \<open>More known keys, and fewer messages to look at.\<close>

lemma addr_ok_fewer:
  assumes "addr_ok own c R D ids ops snt" and "ids \<subseteq> ids'" and "D' \<subseteq> D"
  shows "addr_ok own c R D' ids' (filter P ops) snt"
proof -
  have "record_ok own c R ids'" using assms(1,2) by (auto simp: addr_ok_def record_ok_def split: option.splits)
  moreover have "beyond (\<Union>xs \<in> set_option R. set xs) (D' \<union> set (filter P ops))"
    using assms(1,3) by (auto simp: addr_ok_def intro: beyond_mono)
  moreover have "logs_ok own D' ids' (filter P ops) snt"
    using assms by (fastforce simp: addr_ok_def logs_ok_def)
  ultimately show ?thesis using assms(1) by (simp add: addr_ok_def)
qed

lemma addr_ok_ids: "addr_ok own c R D ids ops snt \<Longrightarrow> ids \<subseteq> ids' \<Longrightarrow> addr_ok own c R D ids' ops snt"
  using addr_ok_fewer [where P = "\<lambda>_. True"] by fastforce

lemma kept_mono: "ren \<subseteq> ren' \<Longrightarrow> kept ren' D \<subseteq> kept ren D"
  by (auto simp: kept_def)

lemma addr_ok_renewed:
  assumes "addr_ok own c R (kept ren D) ids (kept_log ren ops) snt" and "ids \<subseteq> ids'" "ren \<subseteq> ren'"
  shows "addr_ok own c R (kept ren' D) ids' (kept_log ren' ops) snt"
proof -
  have "kept_log ren' ops = filter (\<lambda>k. fst k \<notin> ren') (kept_log ren ops)"
    using assms(3) by (auto simp: kept_log_def intro!: filter_cong)
  then show ?thesis using addr_ok_fewer [OF assms(1,2) kept_mono [OF assms(3)]] by simp
qed

text \<open>A skipped key is used.\<close>

lemma addr_ok_consume:
  assumes "addr_ok False c (Some xs) D ids ops snt" and k: "k \<in> D"
  shows "addr_ok False (Some (hd xs)) (Some xs) (D - {k}) ids (ops @ [k]) snt"
proof -
  have l: "logs_ok False D ids ops snt" and b: "beyond (set xs) (D \<union> set ops)" using assms(1) by (simp_all add: addr_ok_def)
  have "logs_ok False (D - {k}) ids (ops @ [k]) snt" using l k by (auto simp: logs_ok_def)
  moreover have "beyond (set xs) (D - {k} \<union> set (ops @ [k]))" using k by (intro beyond_mono [OF b]) auto
  moreover have "record_ok False (Some (hd xs)) (Some xs) ids" using assms(1) by (auto simp: addr_ok_def record_ok_def)
  moreover have "snt = []" using l by (simp add: logs_ok_def)
  ultimately show ?thesis by (simp add: addr_ok_def) (simp add: beyond_def)
qed

text \<open>A message at or beyond the chain index of the state it names is opened: the state moves behind it.\<close>

lemma addr_ok_opened:
  assumes ok: "addr_ok False c (Some xs) D ids ops snt" and j: "j < length xs"
    and x': "x' = (xs ! j)\<lparr>sk_chainKey := ck, sk_chainIndex := i + 1\<rparr>" and i: "sk_chainIndex (xs ! j) \<le> i"
    and D': "D' \<subseteq> D \<union> Pair (sk_senderKeyId (xs ! j)) ` {sk_chainIndex (xs ! j)..<i}"
  shows "addr_ok False (Some (hd (xs[j := x']))) (Some (xs[j := x'])) D' ids (ops @ [(sk_senderKeyId (xs ! j), i)]) snt"
proof -
  let ?x = "xs ! j" and ?id = "sk_senderKeyId (xs ! j)"
  have l: "logs_ok False D ids ops snt" and b: "beyond (set xs) (D \<union> set ops)" and r: "record_ok False c (Some xs) ids"
    using ok by (simp_all add: addr_ok_def)
  have ids: "map sk_senderKeyId (xs[j := x']) = map sk_senderKeyId xs"
    using j by (simp add: map_update x' list_update_same_conv)
  have dist: "distinct (map sk_senderKeyId xs)" using r by (simp add: record_ok_def)
  have sub: "sk_senderKeyId ` set (xs[j := x']) \<subseteq> ids"
    unfolding image_set ids using r by (simp add: record_ok_def)
  have id_in: "?id \<in> ids" using r j by (auto simp: record_ok_def)
  have old: "n < sk_chainIndex ?x" if "(?id, n) \<in> D \<union> set ops" for n using beyondD [OF b _ that] j by simp
  have D'_id: "n < i" if "(?id, n) \<in> D'" for n
  proof -
    have "(?id, n) \<in> D \<union> Pair ?id ` {sk_chainIndex ?x..<i}" using that D' by (rule subsetD [rotated])
    then show ?thesis using old [of n] i by auto
  qed
  have D'_old: "k \<in> D \<or> (\<exists>n. k = (?id, n) \<and> sk_chainIndex ?x \<le> n)" if "k \<in> D'" for k
    using subsetD [OF D' that] by auto
  have ops_id: "n < i" if "(?id, n) \<in> set ops" for n using old [of n] that i by simp
  have "record_ok False (Some (hd (xs[j := x']))) (Some (xs[j := x'])) ids"
    using r j by (simp add: record_ok_def ids sub)
  moreover have "beyond (set (xs[j := x'])) (D' \<union> set (ops @ [(?id, i)]))"
    unfolding beyond_def
  proof (intro ballI allI impI)
    fix y n assume y: "y \<in> set (xs[j := x'])" and m: "(sk_senderKeyId y, n) \<in> D' \<union> set (ops @ [(?id, i)])"
    obtain k where k: "k < length xs" "y = xs[j := x'] ! k" using y by (auto simp: in_set_conv_nth)
    show "n < sk_chainIndex y"
    proof (cases "k = j")
      case True
      then have y: "y = x'" using k j by simp
      show ?thesis using m D'_id [of n] ops_id [of n] by (auto simp: y x')
    next
      case False
      then have y: "y = xs ! k" using k by simp
      have "sk_senderKeyId y \<noteq> ?id" using dist False k(1) j by (simp add: y distinct_conv_nth)
      with m D'_old have "(sk_senderKeyId y, n) \<in> D \<union> set ops" by auto
      then show ?thesis using beyondD [OF b] k(1) by (simp add: y)
    qed
  qed
  moreover have "logs_ok False D' ids (ops @ [(?id, i)]) snt"
  proof -
    have "(?id, i) \<notin> D'" "(?id, i) \<notin> set ops" using D'_id ops_id by blast+
    moreover have "k \<notin> set ops" if "k \<in> D'" for k
    proof
      assume o: "k \<in> set ops"
      from D'_old [OF that] show False
      proof (elim disjE exE conjE)
        assume "k \<in> D"
        then show False using l o by (auto simp: logs_ok_def)
      next
        fix n assume "k = (?id, n)" "sk_chainIndex ?x \<le> n"
        then show False using old [of n] o by simp
      qed
    qed
    moreover have "fst k \<in> ids" if "k \<in> D'" for k using D'_old [OF that] l id_in by (auto simp: logs_ok_def)
    ultimately show ?thesis using l id_in by (auto simp: logs_ok_def)
  qed
  moreover have "snt = []" using l by (simp add: logs_ok_def)
  ultimately show ?thesis by (simp add: addr_ok_def) (simp add: beyond_def)
qed

text \<open>The same steps where the key may be renewed: then neither its messages nor its skipped keys are looked at.\<close>

lemma kept_log_append: "kept_log ren (ops @ [k]) = kept_log ren ops @ (if fst k \<in> ren then [] else [k])"
  by (simp add: kept_log_def)

lemma addr_ok_consumed:
  assumes "addr_ok False c (Some xs) (kept ren D) ids (kept_log ren ops) snt" and "k \<in> D"
  shows "addr_ok False (Some (hd xs)) (Some xs) (kept ren (D - {k})) ids (kept_log ren (ops @ [k])) snt"
proof (cases "fst k \<in> ren")
  case True
  then have "kept ren (D - {k}) = kept ren D" by (auto simp: kept_def)
  moreover have "c = Some (hd xs)" using assms(1) by (auto simp: addr_ok_def record_ok_def)
  ultimately show ?thesis using assms(1) True by (simp add: kept_log_append)
next
  case False
  have "kept ren (D - {k}) = kept ren D - {k}" by (auto simp: kept_def)
  with addr_ok_consume [OF assms(1), of k] assms(2) False show ?thesis by (simp add: kept_log_append) (simp add: kept_def)
qed

lemma addr_ok_advanced:
  assumes ok: "addr_ok False c (Some xs) (kept ren D) ids (kept_log ren ops) snt" and j: "j < length xs"
    and x': "x' = (xs ! j)\<lparr>sk_chainKey := ck, sk_chainIndex := i + 1\<rparr>" and i: "sk_chainIndex (xs ! j) \<le> i"
    and D': "D' \<subseteq> D \<union> Pair (sk_senderKeyId (xs ! j)) ` {sk_chainIndex (xs ! j)..<i}"
  shows "addr_ok False (Some (hd (xs[j := x']))) (Some (xs[j := x'])) (kept ren D') ids
    (kept_log ren (ops @ [(sk_senderKeyId (xs ! j), i)])) snt"
proof (cases "sk_senderKeyId (xs ! j) \<in> ren")
  case True
  have ids: "map sk_senderKeyId (xs[j := x']) = map sk_senderKeyId xs"
    using j by (simp add: map_update x' list_update_same_conv)
  have b: "beyond (set xs) (kept ren D \<union> set (kept_log ren ops))" and r: "record_ok False c (Some xs) ids"
    and l: "logs_ok False (kept ren D) ids (kept_log ren ops) snt" using ok by (simp_all add: addr_ok_def)
  have "sk_senderKeyId ` set (xs[j := x']) \<subseteq> ids" unfolding image_set ids using r by (simp add: record_ok_def)
  then have "record_ok False (Some (hd (xs[j := x']))) (Some (xs[j := x'])) ids" using r j by (simp add: record_ok_def ids)
  moreover have "kept ren D' \<subseteq> kept ren D" using D' True by (auto simp: kept_def)
  moreover have all: "beyond (insert x' (set xs)) (kept ren D \<union> set (kept_log ren ops))"
    using b True by (simp add: beyond_insert) (simp add: x' kept_def kept_log_def)
  have "beyond (set (xs[j := x'])) (kept ren D' \<union> set (kept_log ren ops))"
    by (rule beyond_mono [OF all set_update_subset_insert]) (use \<open>kept ren D' \<subseteq> kept ren D\<close> in blast)
  moreover have "logs_ok False (kept ren D') ids (kept_log ren ops) snt"
    using l \<open>kept ren D' \<subseteq> kept ren D\<close> by (fastforce simp: logs_ok_def)
  ultimately show ?thesis using True by (simp add: addr_ok_def kept_log_append) (simp add: logs_ok_def beyond_def)
next
  case False
  have "kept ren D' \<subseteq> kept ren D \<union> Pair (sk_senderKeyId (xs ! j)) ` {sk_chainIndex (xs ! j)..<i}"
    using D' by (auto simp: kept_def)
  from addr_ok_opened [OF ok j x' i this] False show ?thesis by (simp add: kept_log_append)
qed

section \<open>What a frame names\<close>

lemma frame_message:
  assumes "group_frame m c plaintextBytes f c'" and w: "wire_text (sk_senderKeyId c)" "sk_senderKeyId c \<noteq> []"
  obtains cipherKey vector ct proto sigText sig where
    "deriveMessageKey m (sk_chainKey c) = Inr (cipherKey, vector)"
    "sm_encryptAes m cipherKey vector plaintextBytes = Inr ct"
    "serializeForSigning (sk_chainIndex c) (bytesToBase64 ct) (sk_senderKeyId c) (sk_chainId c) = Inr (sender_key_version_byte # proto)"
    "sign (sm_primitives m) (sk_signatureKey c) (sender_key_version_byte # proto) = Inr sigText"
    "base64ToBytes sigText = Inr sig"
    "encrypted_message f = Inr \<lparr>gm_senderKeyId = sk_senderKeyId c, gm_generation = 0, gm_chainIndex = sk_chainIndex c,
       gm_ciphertext = bytesToBase64 ct, gm_signature = bytesToBase64 sig\<rparr>"
proof -
  let ?fields = "\<lambda>ct. \<lparr>km_distributionUuid = Some (stringToBytes (sk_senderKeyId c)),
          km_chainId = Some (sk_chainId c), km_iteration = sk_chainIndex c, km_ciphertext = ct\<rparr>"
  from assms(1) obtain cipherKey vector ct proto sigText sig where
    k: "deriveMessageKey m (sk_chainKey c) = Inr (cipherKey, vector)"
      "sm_encryptAes m cipherKey vector plaintextBytes = Inr ct"
    and p: "encodeSenderKeyMessage (?fields ct) = Inr proto"
    and s: "sign (sm_primitives m) (sk_signatureKey c) (sender_key_version_byte # proto) = Inr sigText"
      "base64ToBytes sigText = Inr sig"
    and f: "frameSenderKeyMessage proto sig = Inr f"
    unfolding group_frame_def by blast
  have dec: "decodeSenderKeyMessage proto = Inr (?fields ct)"
    using sender_key_decode_encoded [OF p, of "[]" "[]" "[]" "[]"] w by (simp add: stringToBytes_def)
  have "decodeSenderKeyMessage [] \<noteq> Inr x" for x
    by (simp add: decodeSenderKeyMessage_def sender_key_empty_def requireDecoded_def)
  then have "proto \<noteq> []" using dec by metis
  moreover have "length sig = 64" using f by (simp add: frameSenderKeyMessage_def SIGNATURE_LEN_def split: if_splits)
  ultimately have "parseSenderKeyMessage f = Inr (4, proto, sig)" using f parse_sender_key_frame by blast
  then have "encrypted_message f = Inr \<lparr>gm_senderKeyId = sk_senderKeyId c, gm_generation = 0, gm_chainIndex = sk_chainIndex c,
       gm_ciphertext = bytesToBase64 ct, gm_signature = bytesToBase64 sig\<rparr>"
    using w by (simp add: encrypted_message_def dec stringToBytes_def utf8.dec_enc)
  moreover have "serializeForSigning (sk_chainIndex c) (bytesToBase64 ct) (sk_senderKeyId c) (sk_chainId c) =
      Inr (sender_key_version_byte # proto)"
    using p w by (simp add: serializeForSigning_def base64.dec_enc SENDER_KEY_MESSAGE_VERSION_def sender_key_version_byte_eq)
  ultimately show thesis using that k s by blast
qed

lemma new_sender_key_id:
  "new_sender_key m now random n = Inr state \<Longrightarrow> sk_senderKeyId state = generateUuidV4 (fst random)"
  by (auto simp: new_sender_key_def Let_def and_then_eq_Inr split: prod.splits)

section \<open>Every run keeps what holds of each device\<close>

context sender_key_store
begin

text \<open>What holds of a device, over the messages of its keys that were not renewed; the skipped keys are bounded all together.\<close>

definition dev_ok :: "sender_addr set \<Rightarrow> nat \<Rightarrow> 's \<Rightarrow> sender_addr \<Rightarrow> js_string set \<Rightarrow> js_string set \<Rightarrow>
    (js_string \<times> nat) list \<Rightarrow> (js_string \<times> nat) list \<Rightarrow> bool" where
  "dev_ok own M s a ids ren ops snt \<longleftrightarrow>
     addr_ok (a \<in> own) (cur s a) (rcd s a) (kept ren (dom (skp s a))) ids (kept_log ren ops) snt \<and> card (dom (skp s a)) \<le> max 1 M"

definition run_ok :: "sender_addr set \<Rightarrow> 's SenderKeyManager \<Rightarrow> 's \<Rightarrow> (sender_addr \<Rightarrow> js_string set) \<Rightarrow>
    (sender_addr \<Rightarrow> js_string set) \<Rightarrow> message_log \<Rightarrow> message_log \<Rightarrow> bool" where
  "run_ok own m s known renewed opened sent \<longleftrightarrow> valid s \<and>
     (\<forall>a. dev_ok own (sm_maxSkippedKeys m) s a (known a) (renewed a) (opened a) (sent a))"

lemma run_ok_addr:
  "run_ok own m s known renewed opened sent \<Longrightarrow> dev_ok own (sm_maxSkippedKeys m) s a (known a) (renewed a) (opened a) (sent a)"
  unfolding run_ok_def by blast

lemma run_ok_valid: "run_ok own m s known renewed opened sent \<Longrightarrow> valid s"
  unfolding run_ok_def by blast

lemma dev_ok_same:
  assumes "dev_ok own M s a ids ren ops snt" and "cur t a = cur s a" "rcd t a = rcd s a" "skp t a = skp s a"
    and "ids \<subseteq> ids'" "ren \<subseteq> ren'"
  shows "dev_ok own M t a ids' ren' ops snt"
  using assms(1) addr_ok_renewed [OF _ assms(5,6)] by (simp add: dev_ok_def assms(2-4))

lemma run_ok_same:
  assumes "run_ok own m s known renewed opened sent" and "same_keys s t" and "\<And>b. known b \<subseteq> known' b" "\<And>b. renewed b \<subseteq> renewed' b"
  shows "run_ok own m t known' renewed' opened sent"
  unfolding run_ok_def
proof (intro conjI allI)
  show "valid t" using assms(1,2) by (simp add: run_ok_def same_keys_def)
  fix b
  show "dev_ok own (sm_maxSkippedKeys m) t b (known' b) (renewed' b) (opened b) (sent b)"
    by (rule dev_ok_same [OF run_ok_addr [OF assms(1)] _ _ _ assms(3,4)]) (use assms(2) in \<open>simp_all add: same_keys_def\<close>)
qed

text \<open>A call on one device leaves the others as they are.\<close>

lemma run_ok_change:
  assumes ok: "run_ok own m s known renewed opened sent" and "valid t"
    and others: "\<forall>b. b \<noteq> a \<longrightarrow> cur t b = cur s b \<and> rcd t b = rcd s b \<and> skp t b = skp s b"
    and "dev_ok own (sm_maxSkippedKeys m) t a ids ren ops snt"
  shows "run_ok own m t (known(a := ids)) (renewed(a := ren)) (opened(a := ops)) (sent(a := snt))"
  unfolding run_ok_def
proof (intro conjI allI)
  fix b
  show "dev_ok own (sm_maxSkippedKeys m) t b ((known(a := ids)) b) ((renewed(a := ren)) b) ((opened(a := ops)) b) ((sent(a := snt)) b)"
  proof (cases "b = a")
    case True
    then show ?thesis using assms(4) by simp
  next
    case False
    then have "cur t b = cur s b" "rcd t b = rcd s b" "skp t b = skp s b" using others by blast+
    from dev_ok_same [OF run_ok_addr [OF ok, of b] this order_refl order_refl] show ?thesis by (simp only: fun_upd_other [OF False])
  qed
qed (rule assms(2))

text \<open>A new key is written: by creating, by rotating, by a distribution.\<close>

lemma run_ok_new:
  assumes ok: "run_ok own m s known renewed opened sent" and a: "a = (g, u, d)"
    and w: "ks_storeSenderKeyRecord st g u d (state # prev) no_receive h s = (Inr (), t)"
    and ren: "renewed a \<subseteq> ren" and i: "sk_senderKeyId state \<notin> known a \<or> a \<notin> own \<and> sk_senderKeyId state \<in> ren"
    and prev: "prev \<in> {[], tl (loaded_states s a), take (MAX_SENDER_KEY_STATES - 1) (loaded_states s a)}"
    and fresh: "sk_senderKeyId state \<notin> sk_senderKeyId ` set prev"
    and wire: "a \<in> own \<Longrightarrow> wire_text (sk_senderKeyId state) \<and> sk_senderKeyId state \<noteq> []"
  shows "run_ok own m t (known(a := insert (sk_senderKeyId state) (known a))) (renewed(a := ren)) opened sent"
proof -
  note e = store_record [OF w run_ok_valid [OF ok], folded a]
  have k: "skp t a = skp s a" using e by (simp add: no_receive_def consumed_keys_def restrict_map_def)
  have addr: "addr_ok (a \<in> own) (cur s a) (rcd s a) (kept ren (dom (skp s a))) (known a) (kept_log ren (opened a)) (sent a)"
    using run_ok_addr [OF ok, of a] ren by (auto simp: dev_ok_def intro: addr_ok_renewed)
  then have "sk_senderKeyId state \<notin> fst ` (kept ren (dom (skp s a)) \<union> set (kept_log ren (opened a)) \<union> set (sent a))"
    using i by (auto simp: addr_ok_def logs_ok_def kept_def kept_log_def)
  from addr_ok_new [OF addr this prev [unfolded loaded_states_def] fresh wire]
  have "dev_ok own (sm_maxSkippedKeys m) t a (insert (sk_senderKeyId state) (known a)) ren (opened a) (sent a)"
    using e run_ok_addr [OF ok, of a] by (simp add: k dev_ok_def)
  moreover have "\<forall>b. b \<noteq> a \<longrightarrow> cur t b = cur s b \<and> rcd t b = rcd s b \<and> skp t b = skp s b"
    using e by (metis fun_upd_other)
  ultimately have "run_ok own m t (known(a := insert (sk_senderKeyId state) (known a))) (renewed(a := ren)) (opened(a := opened a)) (sent(a := sent a))"
    using e by (intro run_ok_change [OF ok]) simp_all
  then show ?thesis by (simp only: fun_upd_triv)
qed

lemma run_ok_decrypt:
  assumes m: "sm_storage m = st" and ok: "run_ok own m s known renewed opened sent" and a: "a = (g, u, d)" and own: "a \<notin> own"
    and dec: "decryptGroupMessage m g u d f seed s = (r, t)"
  shows "run_ok own m t known renewed (opened(a := opened a @ log_entry r (frame_entry f))) sent"
  using m dec
proof (cases rule: decrypt_cases)
  case (error e)
  then show ?thesis using run_ok_same [OF ok] by (simp add: log_entry_def)
next
  case (old message j key plaintext states)
  note old = old [folded a]
  let ?k = "(gm_senderKeyId message, gm_chainIndex message)"
  obtain x xs where states: "states = x # xs" using old(8) by (cases states) auto
  note e = store_record [OF old(9) [unfolded states] run_ok_valid [OF ok], folded a]
  have k: "skp t a = skp s a |` (- {?k})" using e by (simp add: consume_commit_def consumed_keys_def)
  have d: "dom (skp t a) = dom (skp s a) - {?k}" by (auto simp: k restrict_map_def split: if_splits)
  have log: "log_entry r (frame_entry f) = [?k]" by (simp add: log_entry_def frame_entry_def old(1,2))
  have addr: "addr_ok (a \<in> own) (cur s a) (rcd s a) (kept (renewed a) (dom (skp s a))) (known a) (kept_log (renewed a) (opened a)) (sent a)"
    and card: "card (dom (skp s a)) \<le> max 1 (sm_maxSkippedKeys m)" using run_ok_addr [OF ok, of a] by (simp_all add: dev_ok_def)
  have "addr_ok False (Some (hd states)) (Some states) (kept (renewed a) (dom (skp s a) - {?k})) (known a)
      (kept_log (renewed a) (opened a @ [?k])) (sent a)"
    using addr own old(5,7) by (intro addr_ok_consumed) auto
  moreover have "card (dom (skp s a) - {?k}) \<le> max 1 (sm_maxSkippedKeys m)"
    using card card_Diff1_le [of "dom (skp s a)" ?k] by linarith
  ultimately have "dev_ok own (sm_maxSkippedKeys m) t a (known a) (renewed a) (opened a @ [?k]) (sent a)"
    using e own by (simp add: d states dev_ok_def)
  moreover have "\<forall>b. b \<noteq> a \<longrightarrow> cur t b = cur s b \<and> rcd t b = rcd s b \<and> skp t b = skp s b"
    using e by (metis fun_upd_other)
  ultimately have "run_ok own m t (known(a := known a)) (renewed(a := renewed a)) (opened(a := opened a @ [?k])) (sent(a := sent a))"
    using e by (intro run_ok_change [OF ok]) simp_all
  then show ?thesis by (simp only: fun_upd_triv log)
next
  case (opened message j plaintext state keys)
  note opened' = opened [folded a]
  let ?L = "loaded_states s a" and ?M = "sm_maxSkippedKeys m"
  have addr: "addr_ok (a \<in> own) (cur s a) (rcd s a) (kept (renewed a) (dom (skp s a))) (known a) (kept_log (renewed a) (opened a)) (sent a)"
    and card: "card (dom (skp s a)) \<le> max 1 ?M" using run_ok_addr [OF ok, of a] by (simp_all add: dev_ok_def)
  note n = state_named_Some [OF opened'(3)] and o = open_Opened [OF opened'(4)]
  have r: "record_ok False (cur s a) (rcd s a) (known a)" using addr own by (simp add: addr_ok_def)
  have L: "rcd s a = Some ?L"
    by (rule record_ok_cases [OF r]) (use n in \<open>auto simp: loaded_states_def\<close>)
  obtain x xs where new: "?L[j := state] = x # xs" using n by (cases "?L[j := state]") auto
  note e = store_record [OF opened'(5) [unfolded new] run_ok_valid [OF ok], folded a]
  let ?staged = "Pair (sk_senderKeyId (?L ! j)) ` {sk_chainIndex (?L ! j)..<gm_chainIndex message}"
    and ?k = "(sk_senderKeyId (?L ! j), gm_chainIndex message)"
  have staged: "dom (staged_map keys) = ?staged" unfolding staged_dom o(3) by simp
  have sub: "dom (skp t a) \<subseteq> dom (skp s a) \<union> ?staged"
  proof
    fix k assume "k \<in> dom (skp t a)"
    then obtain v where "skp t a k = Some v" by blast
    then have "(skp s a ++ staged_map (rc_skippedKeys (group_receive_commit m keys seed plaintext g))) k = Some v" using e by blast
    then have "(skp s a ++ staged_map keys) k = Some v" by (simp add: group_receive_commit_def)
    then have "k \<in> dom (skp s a ++ staged_map keys)" by (rule domI)
    then show "k \<in> dom (skp s a) \<union> ?staged" by (simp only: dom_map_add staged Un_commute)
  qed
  have card: "card (dom (skp t a)) \<le> max 1 ?M"
    using e card by (simp add: group_receive_commit_def)
  obtain ck where ck: "state = (?L ! j)\<lparr>sk_chainKey := ck, sk_chainIndex := gm_chainIndex message + 1\<rparr>" using o(2) by blast
  have ok': "addr_ok False (cur s a) (Some ?L) (kept (renewed a) (dom (skp s a))) (known a) (kept_log (renewed a) (opened a)) (sent a)"
    using addr own by (simp add: L)
  have len: "j < length ?L" using n by simp
  from addr_ok_advanced [OF ok' len ck o(1) sub]
  have "dev_ok own ?M t a (known a) (renewed a) (opened a @ [?k]) (sent a)"
    unfolding new dev_ok_def using e own card by simp
  moreover have log: "log_entry r (frame_entry f) = [?k]"
    using n by (simp add: log_entry_def frame_entry_def opened'(1,2))
  moreover have "\<forall>b. b \<noteq> a \<longrightarrow> cur t b = cur s b \<and> rcd t b = rcd s b \<and> skp t b = skp s b"
    using e by (metis fun_upd_other)
  ultimately have "run_ok own m t (known(a := known a)) (renewed(a := renewed a)) (opened(a := opened a @ [?k])) (sent(a := sent a))"
    using e by (intro run_ok_change [OF ok]) simp_all
  then show ?thesis by (simp only: fun_upd_triv log)
qed

lemma run_ok_encrypt:
  assumes m: "sm_storage m = st" and ok: "run_ok own m s known renewed opened sent" and a: "a = (g, u, d)" and own: "a \<in> own"
    and enc: "encryptGroupMessage m now g u d plaintextBytes s = (r, t)"
  shows "run_ok own m t known renewed opened (sent(a := sent a @ sent_entry r))"
  using encrypt_cases [OF m enc, folded a]
proof (elim disjE exE conjE)
  fix e assume "r = Inl e" "same_keys s t"
  then show ?thesis using run_ok_same [OF ok] by (simp add: sent_entry_def)
next
  fix c c' ck
  assume c: "cur s a = Some c" and c': "c' = c\<lparr>sk_chainKey := ck, sk_chainIndex := sk_chainIndex c + 1\<rparr>"
    and w: "ks_storeSenderKey st g u d c' s = (Inr (), t)" and f: "\<forall>frame. r = Inr frame \<longrightarrow> group_frame m c plaintextBytes frame c'"
  note e = store_key [OF w run_ok_valid [OF ok], folded a]
  note dev = run_ok_addr [OF ok, of a]
  then have addr: "addr_ok (a \<in> own) (Some c) (rcd s a) (kept (renewed a) (dom (skp s a))) (known a) (kept_log (renewed a) (opened a)) (sent a)"
    by (simp add: dev_ok_def c)
  have wire: "wire_text (sk_senderKeyId c)" "sk_senderKeyId c \<noteq> []"
    using addr own by (auto simp: addr_ok_def record_ok_def split: option.splits)
  have log: "sent_entry r = [] \<or> sent_entry r = [(sk_senderKeyId c, sk_chainIndex c)]"
  proof (cases r)
    case (Inr frame)
    with f have "group_frame m c plaintextBytes frame c'" by blast
    then show ?thesis by (rule frame_message [OF _ wire]) (simp add: sent_entry_def frame_entry_def Inr)
  qed (simp add: sent_entry_def)
  have R: "rcd t a = Some (c' # previous_states (rcd s a)) \<or> rcd t a = rcd s a" using e by blast
  from addr_ok_encrypt [OF addr own c' R log]
  have "dev_ok own (sm_maxSkippedKeys m) t a (known a) (renewed a) (opened a) (sent a @ sent_entry r)"
    using e dev by (simp add: dev_ok_def)
  moreover have "\<forall>b. b \<noteq> a \<longrightarrow> cur t b = cur s b \<and> rcd t b = rcd s b \<and> skp t b = skp s b"
    using e by (metis fun_upd_other)
  ultimately have "run_ok own m t (known(a := known a)) (renewed(a := renewed a)) (opened(a := opened a)) (sent(a := sent a @ sent_entry r))"
    using e by (intro run_ok_change [OF ok]) simp_all
  then show ?thesis by (simp only: fun_upd_triv)
qed

lemma run_ok_delete:
  assumes m: "sm_storage m = st" and ok: "run_ok own m s known renewed opened sent" and a: "a = (g, u, d)"
    and del: "manager_deleteSenderKey m g u d s = (r, t)"
  shows "run_ok own m t known renewed opened sent"
  using delete_cases [OF m del]
proof (elim disjE exE conjE)
  fix h assume w: "ks_deleteSenderKey st g u d h s = (Inr (), t)"
  note e = delete_key [OF w run_ok_valid [OF ok], folded a]
  have "dev_ok own (sm_maxSkippedKeys m) t a (known a) (renewed a) (opened a) (sent a)"
    using run_ok_addr [OF ok, of a] e by (auto simp: dev_ok_def intro: addr_ok_delete)
  moreover have "\<forall>b. b \<noteq> a \<longrightarrow> cur t b = cur s b \<and> rcd t b = rcd s b \<and> skp t b = skp s b"
    using e by (metis fun_upd_other)
  ultimately have "run_ok own m t (known(a := known a)) (renewed(a := renewed a)) (opened(a := opened a)) (sent(a := sent a))"
    using e by (intro run_ok_change [OF ok]) simp_all
  then show ?thesis by (simp only: fun_upd_triv)
qed (use run_ok_same [OF ok] in blast)

lemma run_ok_made:
  assumes ok: "run_ok own m s known renewed opened sent" and a: "a = (g, u, d)" and own: "a \<in> own"
    and i: "generateUuidV4 (fst random) \<notin> known a" and n: "new_sender_key m now random n = Inr state"
    and w: "ks_storeSenderKeyRecord st g u d (state # prev) no_receive True s = (Inr (), t)"
    and prev: "prev = [] \<or> prev = take (MAX_SENDER_KEY_STATES - 1) (loaded_states s a)"
  shows "run_ok own m t (known(a := insert (generateUuidV4 (fst random)) (known a))) renewed opened sent"
proof -
  note id = new_sender_key_id [OF n]
  have "record_ok (a \<in> own) (cur s a) (rcd s a) (known a)" using run_ok_addr [OF ok, of a] by (simp add: dev_ok_def addr_ok_def)
  from loaded_ids [OF this] have "sk_senderKeyId ` set (loaded_states s a) \<subseteq> known a" by (simp add: loaded_states_def)
  then have fresh: "sk_senderKeyId state \<notin> sk_senderKeyId ` set prev" using prev i id by (auto dest: in_set_takeD)
  have "run_ok own m t (known(a := insert (sk_senderKeyId state) (known a))) (renewed(a := renewed a)) opened sent"
    by (rule run_ok_new [OF ok a w order_refl _ _ fresh]) (use prev i id uuid_wire in auto)
  then show ?thesis by (simp only: id fun_upd_triv)
qed

lemma run_ok_more:
  "run_ok own m s known renewed opened sent \<Longrightarrow> same_keys s t \<Longrightarrow> run_ok own m t (known(a := insert i (known a))) renewed opened sent"
  by (rule run_ok_same) auto

text \<open>A distribution: it repeats a held state and nothing changes, or its key is new, or its key is renewed.\<close>

lemma held_states_eq:
  "sm_storage m = st \<Longrightarrow> a = (g, u, d) \<Longrightarrow> held_states m a s = (case cur s a of None \<Rightarrow> [] | Some _ \<Rightarrow> loaded_states s a)"
  by (simp add: held_states_def load_key load_previous loaded_states_def loaded_list_def split: option.split)

lemma not_stale:
  assumes "record_ok own (Some x) R ids" and states: "loaded_list (Some x) R = states"
    and stale: "distribution_is_stale (Some x) (tl states) message = Inr False"
  shows "\<not> repeats message states" and "sd_senderKeyId message \<notin> sk_senderKeyId ` set (tl states)"
proof -
  obtain ys where ys: "states = x # ys" "sk_senderKeyId x \<notin> sk_senderKeyId ` set ys"
    by (rule record_ok_cases [OF assms(1)]) (use states in \<open>simp, metis distinct.simps(2) list.simps(9) list.set_map option.inject\<close>)
  have s: "if sk_senderKeyId x \<noteq> sd_senderKeyId message then sd_senderKeyId message \<notin> sk_senderKeyId ` set ys
    else sk_generation x < sd_generation message"
    using stale by (auto simp: distribution_is_stale_def ys(1) and_then_eq_Inr list_ex_iff)
  then show new: "sd_senderKeyId message \<notin> sk_senderKeyId ` set (tl states)" using ys by (auto split: if_splits)
  show "\<not> repeats message states"
    unfolding repeats_def
  proof (intro notI, elim exE conjE)
    fix j assume j: "j < length states" "sk_senderKeyId (states ! j) = sd_senderKeyId message"
      "j = 0 \<longrightarrow> sd_generation message \<le> sk_generation (states ! j)"
    then have "states ! j \<notin> set (tl states)" using new by force
    then have "j = 0" using j(1) ys(1) by (cases j) auto
    then show False using j s by (simp add: ys(1))
  qed
qed

lemma run_ok_install:
  assumes m: "sm_storage m = st" and ok: "run_ok own m s known renewed opened sent" and a: "a = (g, u, d)" and own: "a \<notin> own"
    and p: "processSenderKeyDistribution m now g u d message s = (r, t)"
  shows "run_ok own m t (known(a := after_install r message (known a)))
    (renewed(a := after_renewal r message (held_states m a s) (known a) (renewed a))) opened sent"
proof -
  let ?prev = "case cur s a of None \<Rightarrow> [] | Some old \<Rightarrow>
         if sk_senderKeyId old = sd_senderKeyId message then tl (loaded_states s a)
         else take (MAX_SENDER_KEY_STATES - 1) (loaded_states s a)"
  let ?ren = "after_renewal r message (held_states m a s) (known a) (renewed a)"
  have ren: "renewed a \<subseteq> ?ren" and known: "known a \<subseteq> after_install r message (known a)"
    by (auto simp: after_renewal_def after_install_def split: sum.split)
  consider (same) "same_keys s t" | (new) state where "r = Inr ()" "sk_senderKeyId state = sd_senderKeyId message"
    "distribution_is_stale (cur s a) (tl (loaded_states s a)) message = Inr False"
    "ks_storeSenderKeyRecord st g u d (state # ?prev) no_receive False s = (Inr (), t)"
    using process_cases [OF m p, folded a] by (elim disjE conjE exE) blast+
  then show ?thesis
  proof cases
    case same
    then show ?thesis by (rule run_ok_same [OF ok]) (use ren known in simp_all)
  next
    case new
    have r: "record_ok False (cur s a) (rcd s a) (known a)"
      using run_ok_addr [OF ok, of a] own by (simp add: dev_ok_def addr_ok_def)
    have "\<not> repeats message (held_states m a s)"
      using not_stale(1) [of False] r new(3) by (cases "cur s a") (auto simp: held_states_eq [OF m a] repeats_def loaded_states_def)
    then have i: "sk_senderKeyId state \<notin> known a \<or> a \<notin> own \<and> sk_senderKeyId state \<in> ?ren"
      using own by (auto simp: after_renewal_def after_install_def new(1,2))
    have fresh: "sk_senderKeyId state \<notin> sk_senderKeyId ` set ?prev"
    proof (cases "cur s a")
      case (Some x)
      have "sd_senderKeyId message \<notin> sk_senderKeyId ` set (tl (loaded_states s a))"
        using not_stale(2) [of False x] r new(3) by (simp add: Some loaded_states_def)
      moreover have "loaded_states s a = x # tl (loaded_states s a)" by (simp add: Some loaded_states_def loaded_list_def)
      ultimately have "sk_senderKeyId x = sd_senderKeyId message \<or> sd_senderKeyId message \<notin> sk_senderKeyId ` set (loaded_states s a)"
        by (metis image_insert insertE list.simps(15))
      with \<open>sd_senderKeyId message \<notin> _\<close> show ?thesis by (auto simp: Some new(2) dest: in_set_takeD)
    qed simp
    have "run_ok own m t (known(a := insert (sk_senderKeyId state) (known a))) (renewed(a := ?ren)) opened sent"
      by (rule run_ok_new [OF ok a new(4) ren i _ fresh]) (use own in \<open>auto split: option.split\<close>)
    then show ?thesis by (simp only: new(1,2) after_install_def sum.case)
  qed
qed

lemma run_ok_create:
  assumes m: "sm_storage m = st" and ok: "run_ok own m s known renewed opened sent" and a: "a = (g, u, d)" and own: "a \<in> own"
    and i: "generateUuidV4 (fst random) \<notin> known a" and c: "createSenderKey m now random g u d s = (r, t)"
  shows "run_ok own m t (known(a := insert (generateUuidV4 (fst random)) (known a))) renewed opened sent"
  using create_cases [OF m c] run_ok_made [OF ok a own i] run_ok_more [OF ok] by blast

lemma run_ok_rotate:
  assumes m: "sm_storage m = st" and ok: "run_ok own m s known renewed opened sent" and a: "a = (g, u, d)" and own: "a \<in> own"
    and i: "generateUuidV4 (fst random) \<notin> known a" and c: "rotateSenderKey m now random g u d s = (r, t)"
  shows "run_ok own m t (known(a := insert (generateUuidV4 (fst random)) (known a))) renewed opened sent"
  using rotate_cases [OF m c, folded a] run_ok_made [OF ok a own i] run_ok_more [OF ok] by blast

lemma group_run_ok:
  assumes "group_run own m s0 s known renewed opened sent" and m: "sm_storage m = st"
    and "valid s0" and e: "\<And>a. cur s0 a = None" "\<And>a. skp s0 a = Map.empty"
  shows "run_ok own m s known renewed opened sent"
  using assms(1)
proof (induction rule: group_run.induct)
  case start
  have "rcd s0 a = None" for a using no_record [OF \<open>valid s0\<close> e(1)] .
  then have "dev_ok own (sm_maxSkippedKeys m) s0 a {} {} [] []" for a
    by (simp add: e dev_ok_def addr_ok_def record_ok_def beyond_def logs_ok_def kept_def kept_log_def)
  then show ?case unfolding run_ok_def using \<open>valid s0\<close> by blast
next
  case create
  show ?case by (rule run_ok_create [OF m create.IH refl create.hyps(2-4)])
next
  case rotate
  show ?case by (rule run_ok_rotate [OF m rotate.IH refl rotate.hyps(2-4)])
next
  case encrypt
  show ?case by (rule run_ok_encrypt [OF m encrypt.IH refl encrypt.hyps(2,3)])
next
  case delete
  show ?case by (rule run_ok_delete [OF m delete.IH refl delete.hyps(2)])
next
  case install
  show ?case by (rule run_ok_install [OF m install.IH refl install.hyps(2,3)])
next
  case decrypt
  show ?case by (rule run_ok_decrypt [OF m decrypt.IH refl decrypt.hyps(2,3)])
qed

end

end
