(* ===== verification/Sender_Delivery.thy ===== *)
theory Sender_Delivery
  imports Sender_Run Key_Generation
begin

text \<open>
  What the sender keys are for, over a storage that does not fail: a device creates a key and encrypts messages, another
  device installs the distribution and decrypts the frames in any order and with repetitions. The first delivery of a frame
  gives its text, each later one is a duplicate.

  AES-CBC is a hypothesis (\<open>group_crypto\<close>): it encrypts every plaintext of a bounded size under a key of 32 and an
  initialization vector of 16 bytes, adds at most 16 bytes, and decrypts what it encrypted. So are signatures that verify.
\<close>

section \<open>Definitions\<close>

text \<open>Plaintexts encrypted one after the other; frames decrypted one after the other, whatever the results.\<close>

primrec encrypt_all :: "'s SenderKeyManager \<Rightarrow> int \<Rightarrow> js_string \<Rightarrow> js_string \<Rightarrow> int \<Rightarrow> bytes list \<Rightarrow> ('s, bytes list) action" where
  "encrypt_all m now groupId user device [] = ret []"
| "encrypt_all m now groupId user device (p # ps) =
     bnd (encryptGroupMessage m now groupId user device p) (\<lambda>f.
     bnd (encrypt_all m now groupId user device ps) (\<lambda>fs. ret (f # fs)))"

primrec decrypt_each :: "'s SenderKeyManager \<Rightarrow> js_string \<Rightarrow> js_string \<Rightarrow> int \<Rightarrow> bytes list \<Rightarrow> 's \<Rightarrow> js_string result list \<times> 's" where
  "decrypt_each m groupId user device [] s = ([], s)"
| "decrypt_each m groupId user device (f # fs) s =
     (case decryptGroupMessage m groupId user device f None s of (r, t) \<Rightarrow>
      case decrypt_each m groupId user device fs t of (rs, t') \<Rightarrow> (r # rs, t'))"

text \<open>What deliveries in the order \<open>is\<close> give, when the indices in \<open>seen\<close> were delivered before.\<close>

primrec deliveries :: "js_string list \<Rightarrow> nat set \<Rightarrow> nat list \<Rightarrow> js_string result list" where
  "deliveries texts seen [] = []"
| "deliveries texts seen (i # is) =
     (if i \<in> seen then Inl (EncryptionError MESSAGE_DUPLICATE) else Inr (texts ! i)) # deliveries texts (insert i seen) is"

definition group_crypto :: "'s SenderKeyManager \<Rightarrow> 't SenderKeyManager \<Rightarrow> bool" where
  "group_crypto m m' \<longleftrightarrow>
     sm_primitives m = sm_primitives m' \<and> sm_hkdfInfoString m = sm_hkdfInfoString m' \<and>
     (\<forall>k d. length (p_hmac (sm_primitives m) k d) = 32) \<and> signatures_verify (sm_primitives m) \<and>
     (\<forall>key vector p. length key = 32 \<longrightarrow> length vector = 16 \<longrightarrow>
        (\<exists>ct. sm_encryptAes m key vector p = Inr ct \<and> length ct \<le> length p + 16 \<and> sm_decryptAes m' key vector ct = Inr p))"

section \<open>A storage that does not fail\<close>

locale reliable_sender_key_store = sender_key_store st valid cur rcd skp
  for st :: "'s SenderKeyStorage" and valid cur rcd skp +
  fixes healthy :: "'s \<Rightarrow> bool"
  assumes store_key_total: "healthy s \<Longrightarrow> \<exists>t. ks_storeSenderKey st g u d k s = (Inr (), t) \<and> healthy t"
    and store_record_total: "healthy s \<Longrightarrow> rc_work receive = None \<Longrightarrow>
      \<exists>t. ks_storeSenderKeyRecord st g u d (k # ks) receive h s = (Inr (), t) \<and> healthy t"
begin

lemma persist_total:
  "sm_storage m = st \<Longrightarrow> healthy s \<Longrightarrow> valid s \<Longrightarrow>
   \<exists>t. persistSenderKeyRecord m g u d k ks h s = (Inr (), t) \<and> healthy t \<and> valid t \<and>
     cur t = (cur s)((g, u, d) \<mapsto> k) \<and> rcd t = (rcd s)((g, u, d) \<mapsto> k # ks) \<and> skp t (g, u, d) = skp s (g, u, d)"
  using store_record_total [of s no_receive g u d k ks h] store_record [of g u d k ks no_receive h s]
  by (auto simp: persistSenderKeyRecord_def no_receive_def consumed_keys_def restrict_map_def)

end

text \<open>The memory store, while no failure is injected.\<close>

definition quiet_store :: "'q MemoryStore \<Rightarrow> bool" where
  "quiet_store s \<longleftrightarrow> fc_writeFailureEvery (failures s) = None \<and> fc_scheduled (failures s) = []"

definition succeeds :: "('s \<Rightarrow> bool) \<Rightarrow> ('s, 'a) action \<Rightarrow> bool" where
  "succeeds healthy m \<longleftrightarrow> (\<forall>s. healthy s \<longrightarrow> (\<exists>x t. m s = (Inr x, t) \<and> healthy t))"

lemma succeeds_basic:
  "succeeds healthy (ret x)" "succeeds healthy (read_store view)"
  "(\<And>s. healthy s \<Longrightarrow> healthy (f s)) \<Longrightarrow> succeeds healthy (write_store f)"
  by (auto simp: succeeds_def action_eval)

lemma succeeds_bnd:
  assumes "succeeds healthy m" and "\<And>x. succeeds healthy (f x)"
  shows "succeeds healthy (bnd m f)"
proof -
  have "\<exists>x t. bnd m f s = (Inr x, t) \<and> healthy t" if "healthy s" for s
  proof -
    obtain x t where "m s = (Inr x, t)" "healthy t" using assms(1) \<open>healthy s\<close> by (auto simp: succeeds_def)
    then show ?thesis using assms(2) [of x] by (simp add: succeeds_def bnd_def)
  qed
  then show ?thesis by (simp add: succeeds_def)
qed

lemma succeeds_beforeWrite: "succeeds quiet_store (failures_beforeWrite operation)"
  by (auto simp: succeeds_def quiet_store_def failures_beforeWrite_def beforeWrite_def consumeScheduled_def action_eval bnd_eval Let_def)

lemma succeeds_stage: "succeeds quiet_store (stage_skipped a M ks t)"
  by (induction ks arbitrary: t) (auto simp: Let_def intro!: succeeds_basic succeeds_bnd succeeds_beforeWrite)

lemma succeedsD: "succeeds healthy m \<Longrightarrow> healthy s \<Longrightarrow> \<exists>x t. m s = (Inr x, t) \<and> healthy t"
  by (simp add: succeeds_def)

interpretation memory_reliable: reliable_sender_key_store memory_sender_keys sender_tables_ok key_view record_view skipped_view
  quiet_store
proof unfold_locales
  fix s :: "'q MemoryStore" and receive :: SenderKeyReceiveCommit and g u d k ks h
  assume q: "quiet_store s"
  have "succeeds quiet_store (storeSenderKey g u d k :: ('q MemoryStore, unit) action)"
    unfolding storeSenderKey_def
    by (intro succeeds_bnd succeeds_beforeWrite succeeds_basic) (simp add: quiet_store_def)
  from succeedsD [OF this q]
  show "\<exists>t. ks_storeSenderKey memory_sender_keys g u d k s = (Inr (), t) \<and> quiet_store t"
    by (simp add: memory_sender_keys_def)
  assume w: "rc_work receive = None"
  have "succeeds quiet_store (storeSenderKeyRecord g u d (k # ks) receive h :: ('q MemoryStore, unit) action)"
    unfolding storeSenderKeyRecord_def using w
    by (cases "rc_consumedSkippedKey receive")
      (auto simp: of_result_def ret_def [symmetric] quiet_store_def delete_group_handoffs_def
        intro!: succeeds_bnd succeeds_beforeWrite succeeds_basic succeeds_stage)
  from succeedsD [OF this q]
  show "\<exists>t. ks_storeSenderKeyRecord memory_sender_keys g u d (k # ks) receive h s = (Inr (), t) \<and> quiet_store t"
    by (simp add: memory_sender_keys_def)
qed

section \<open>The chain of a key\<close>

text \<open>The chain key, the message key and the state at an index, from the first chain key \<open>k\<close>.\<close>

definition group_chain_at :: "'s SenderKeyManager \<Rightarrow> bytes \<Rightarrow> nat \<Rightarrow> bytes" where
  "group_chain_at m k n = ((\<lambda>c. p_hmac (sm_primitives m) c [0x02]) ^^ n) k"

definition group_key :: "'s SenderKeyManager \<Rightarrow> bytes \<Rightarrow> nat \<Rightarrow> bytes \<times> bytes" where
  "group_key m k n = (case deriveMessageKey m (bytesToBase64 (group_chain_at m k n)) of Inl _ \<Rightarrow> ([], []) | Inr x \<Rightarrow> x)"

definition state_at :: "'s SenderKeyManager \<Rightarrow> bytes \<Rightarrow> SenderKeyState \<Rightarrow> nat \<Rightarrow> SenderKeyState" where
  "state_at m k state n = state\<lparr>sk_chainKey := bytesToBase64 (group_chain_at m k n), sk_chainIndex := n\<rparr>"

lemma state_at_simps [simp]:
  "sk_chainIndex (state_at m k c n) = n" "sk_chainKey (state_at m k c n) = bytesToBase64 (group_chain_at m k n)"
  "sk_senderKeyId (state_at m k c n) = sk_senderKeyId c" "sk_senderKeyVersion (state_at m k c n) = sk_senderKeyVersion c"
  "sk_chainId (state_at m k c n) = sk_chainId c" "sk_signatureKey (state_at m k c n) = sk_signatureKey c"
  "sk_publicSignatureKey (state_at m k c n) = sk_publicSignatureKey c" "sk_createdAt (state_at m k c n) = sk_createdAt c"
  "sk_generation (state_at m k c n) = sk_generation c"
  "(state_at m k c n)\<lparr>sk_chainKey := bytesToBase64 (group_chain_at m k j), sk_chainIndex := j\<rparr> = state_at m k c j"
  by (simp_all add: state_at_def)

lemma ownSenderKeyExpiry_at [simp]: "ownSenderKeyExpiry now (state_at m k c n) age = ownSenderKeyExpiry now c age"
  by (simp add: ownSenderKeyExpiry_def)

lemma advance_at: "advanceChainKey m (bytesToBase64 (group_chain_at m k n)) = Inr (bytesToBase64 (group_chain_at m k (Suc n)))"
  by (simp add: advanceChainKey_def base64.dec_enc group_chain_at_def)

lemma group_key_law:
  assumes "\<And>k d. length (p_hmac (sm_primitives m) k d) = 32"
  shows "deriveMessageKey m (bytesToBase64 (group_chain_at m k n)) = Inr (group_key m k n) \<and>
    length (fst (group_key m k n)) = 32 \<and> length (snd (group_key m k n)) = 16"
proof -
  obtain out where "hkdf (p_hmac (sm_primitives m)) (p_hmac (sm_primitives m) (group_chain_at m k n) [0x01]) (zeros 32)
      (stringToBytes (sm_hkdfInfoString m)) 48 = Inr out" "length out = 48"
    using hkdf_length [where hmac = "p_hmac (sm_primitives m)" and len = 48 and salt = "zeros 32"
        and ikm = "p_hmac (sm_primitives m) (group_chain_at m k n) [0x01]" and info = "stringToBytes (sm_hkdfInfoString m)", OF assms] by auto
  then have "\<exists>x. deriveMessageKey m (bytesToBase64 (group_chain_at m k n)) = Inr x \<and> length (fst x) = 32 \<and> length (snd x) = 16"
    by (simp add: deriveMessageKey_def base64.dec_enc Let_def js_slice_def)
  then show ?thesis by (auto simp: group_key_def)
qed

lemma same_group_key:
  assumes "sm_primitives m = sm_primitives m'" and "sm_hkdfInfoString m = sm_hkdfInfoString m'"
  shows "group_key m' k n = group_key m k n" "group_chain_at m' k n = group_chain_at m k n"
  using assms by (simp_all add: group_key_def deriveMessageKey_def group_chain_at_def)

section \<open>Sending\<close>

text \<open>What the receiver gets to see of a message.\<close>

definition frame_ok :: "'s SenderKeyManager \<Rightarrow> js_string \<Rightarrow> nat \<Rightarrow> Base64 \<Rightarrow> bytes \<Rightarrow> nat \<Rightarrow> bytes \<Rightarrow> bytes \<Rightarrow> bool" where
  "frame_ok m senderKeyId chainId pub k n p f \<longleftrightarrow>
     (\<exists>message signed ct. encrypted_message f = Inr message \<and> gm_senderKeyId message = senderKeyId \<and> gm_chainIndex message = n \<and>
        serializeForSigning n (gm_ciphertext message) senderKeyId chainId = Inr signed \<and>
        verify (sm_primitives m) pub signed (gm_signature message) \<and> gm_ciphertext message = bytesToBase64 ct \<and>
        sm_decryptAes m (fst (group_key m k n)) (snd (group_key m k n)) ct = Inr p)"

text \<open>A key that can be sent with.\<close>

definition sendable_key :: "'s SenderKeyManager \<Rightarrow> int \<Rightarrow> SenderKeyState \<Rightarrow> bool" where
  "sendable_key m now c \<longleftrightarrow> sk_senderKeyVersion c = SENDER_KEY_FORMAT \<and> sk_chainId c \<le> UINT32_MAX \<and>
     wire_text (sk_senderKeyId c) \<and> sk_senderKeyId c \<noteq> [] \<and> length (stringToBytes (sk_senderKeyId c)) \<le> UINT32_MAX \<and>
     ownSenderKeyExpiry now c (sm_maxSenderKeyAge m) = None \<and>
     (\<exists>seed pub. length seed = 32 \<and> sk_signatureKey c = bytesToBase64 seed \<and> sk_publicSignatureKey c = bytesToBase64 pub \<and>
        ed25519_getPublicKey (sm_primitives m) seed = Inr pub)"

lemma sendable_at [simp]: "sendable_key m now (state_at m' k c n) = sendable_key m now c"
  by (simp add: sendable_key_def)

lemma encode_sender_key_total:
  assumes "length u \<le> UINT32_MAX" and "c \<le> UINT32_MAX" and "n \<le> UINT32_MAX" and "length ct \<le> UINT32_MAX"
  shows "\<exists>e. encodeSenderKeyMessage \<lparr>km_distributionUuid = Some u, km_chainId = Some c, km_iteration = n, km_ciphertext = ct\<rparr> = Inr e"
  unfolding encodeSenderKeyMessage_def using assms
  by (intro ok_and_then fields_total) (simp_all add: uint32_def)

lemma sign_ok:
  assumes "signatures_verify p" and "length seed = 32" and "ed25519_getPublicKey p seed = Inr pub"
  shows "\<exists>sg. sign p (bytesToBase64 seed) data = Inr (bytesToBase64 sg) \<and> length sg = 64 \<and>
    verify p (bytesToBase64 pub) data (bytesToBase64 sg)"
proof -
  obtain s where "ed25519_sign p data seed = Inr s" "length s = 64" "ed25519_verify p s data pub = Inr True"
    using assms unfolding signatures_verify_def by (metis sum.inject(2))
  then show ?thesis by (simp add: sign_def verify_def base64.dec_enc)
qed

context reliable_sender_key_store
begin

lemma encrypt_step:
  assumes m: "sm_storage m = st" and crypto: "group_crypto m m'" and s: "valid s" "healthy s"
    and c: "cur s (g, u, d) = Some (state_at m k c n)" "sendable_key m now c"
    and n: "n < 0xfffffffe" and len: "length p + 16 \<le> UINT32_MAX"
  shows "\<exists>f t. encryptGroupMessage m now g u d p s = (Inr f, t) \<and> valid t \<and> healthy t \<and>
    cur t (g, u, d) = Some (state_at m k c (Suc n)) \<and>
    frame_ok m' (sk_senderKeyId c) (sk_chainId c) (sk_publicSignatureKey c) k n p f"
proof -
  let ?p = "sm_primitives m" and ?u = "stringToBytes (sk_senderKeyId c)" and ?c = "state_at m k c n"
  note laws = crypto [unfolded group_crypto_def] and snd = c(2) [unfolded sendable_key_def]
  have hm: "length (p_hmac ?p x y) = 32" for x y using laws by blast
  note mk = group_key_law [of m k n, OF hm] and same = same_group_key [of m m']
  obtain ck iv where key: "group_key m k n = (ck, iv)" by fastforce
  have key_ok: "deriveMessageKey m (sk_chainKey ?c) = Inr (ck, iv)" "length ck = 32" "length iv = 16"
    using mk key by simp_all
  obtain ct where ct: "sm_encryptAes m ck iv p = Inr ct" "length ct \<le> length p + 16" "sm_decryptAes m' ck iv ct = Inr p"
    using laws key_ok(2,3) by blast
  obtain proto where proto: "encodeSenderKeyMessage \<lparr>km_distributionUuid = Some ?u, km_chainId = Some (sk_chainId c),
      km_iteration = n, km_ciphertext = ct\<rparr> = Inr proto"
    using encode_sender_key_total [of ?u "sk_chainId c" n ct] snd n ct(2) len by (auto simp: UINT32_MAX_def)
  obtain seed pub where sd: "length seed = 32" "sk_signatureKey c = bytesToBase64 seed" "sk_publicSignatureKey c = bytesToBase64 pub"
    "ed25519_getPublicKey ?p seed = Inr pub" using snd by blast
  obtain sg where sg: "sign ?p (sk_signatureKey c) (sender_key_version_byte # proto) = Inr (bytesToBase64 sg)" "length sg = 64"
    "verify ?p (sk_publicSignatureKey c) (sender_key_version_byte # proto) (bytesToBase64 sg)"
    using sign_ok [of ?p seed pub "sender_key_version_byte # proto"] laws sd by auto
  obtain f where f: "frameSenderKeyMessage proto sg = Inr f" using sg(2) by (simp add: frameSenderKeyMessage_def SIGNATURE_LEN_def)
  obtain t where w: "ks_storeSenderKey st g u d (state_at m k c (Suc n)) s = (Inr (), t)" and t: "healthy t"
    using store_key_total [OF s(2)] by blast
  have v: "valid t" "cur t (g, u, d) = Some (state_at m k c (Suc n))" using store_key [OF w s(1)] by simp_all
  have ver: "assertSenderKeyVersion SENDER_KEY_FORMAT = Inr ()" by (simp add: assertSenderKeyVersion_def throw_if_def)
  have enc: "encryptGroupMessage m now g u d p s = (Inr f, t)"
    using snd n by (simp add: encryptGroupMessage_def bnd_eval load_key [OF m] c(1) action_eval ver key_ok(1) [simplified] m
      group_aesCbcEncrypt_def ct(1) base64.dec_enc proto sg(1) advance_at w f)
  have frame: "group_frame m ?c p f (state_at m k c (Suc n))"
    unfolding group_frame_def
    by (rule exI [of _ ck], rule exI [of _ iv], rule exI [of _ ct], rule exI [of _ proto],
        rule exI [of _ "bytesToBase64 sg"], rule exI [of _ sg], rule exI [of _ "bytesToBase64 (group_chain_at m k (Suc n))"])
      (simp add: key_ok(1) [simplified] ct(1) proto sg(1) base64.dec_enc advance_at f)
  have wire: "wire_text (sk_senderKeyId ?c)" "sk_senderKeyId ?c \<noteq> []" using snd by simp_all
  have "frame_ok m' (sk_senderKeyId c) (sk_chainId c) (sk_publicSignatureKey c) k n p f"
    using frame wire
  proof (rule frame_message)
    fix ck' iv' ct' proto' sg' sigText'
    assume a: "deriveMessageKey m (sk_chainKey ?c) = Inr (ck', iv')" "sm_encryptAes m ck' iv' p = Inr ct'"
      "serializeForSigning (sk_chainIndex ?c) (bytesToBase64 ct') (sk_senderKeyId ?c) (sk_chainId ?c) = Inr (sender_key_version_byte # proto')"
      "sign ?p (sk_signatureKey ?c) (sender_key_version_byte # proto') = Inr sigText'" "base64ToBytes sigText' = Inr sg'"
      "encrypted_message f = Inr \<lparr>gm_senderKeyId = sk_senderKeyId ?c, gm_generation = 0, gm_chainIndex = sk_chainIndex ?c,
         gm_ciphertext = bytesToBase64 ct', gm_signature = bytesToBase64 sg'\<rparr>"
    have e: "ck' = ck" "iv' = iv" "ct' = ct" using a(1,2) key_ok(1) ct(1) by auto
    obtain sg2 where "sign ?p (sk_signatureKey c) (sender_key_version_byte # proto') = Inr (bytesToBase64 sg2)"
        "verify ?p (sk_publicSignatureKey c) (sender_key_version_byte # proto') (bytesToBase64 sg2)"
      using sign_ok [of ?p seed pub "sender_key_version_byte # proto'"] laws sd by auto
    then have "verify ?p (sk_publicSignatureKey c) (sender_key_version_byte # proto') (bytesToBase64 sg')"
      using a(4,5) by (auto simp: base64.dec_enc)
    moreover have "sm_primitives m' = ?p" "group_key m' k n = (ck, iv)" using laws same key by simp_all
    ultimately show ?thesis
      unfolding frame_ok_def
      by (intro exI [of _ "\<lparr>gm_senderKeyId = sk_senderKeyId c, gm_generation = 0, gm_chainIndex = n,
            gm_ciphertext = bytesToBase64 ct, gm_signature = bytesToBase64 sg'\<rparr>"] exI [of _ "sender_key_version_byte # proto'"]
          exI [of _ ct] conjI) (use a(3,6) in \<open>simp_all add: e(3) ct(3)\<close>)
  qed
  with enc v t show ?thesis by blast
qed

lemma encrypt_all_ok:
  assumes m: "sm_storage m = st" and crypto: "group_crypto m m'"
    and "valid s" "healthy s" "cur s (g, u, d) = Some (state_at m k c n)" "sendable_key m now c"
    and "n + length ps \<le> 0xfffffffe" and "\<And>p. p \<in> set ps \<Longrightarrow> length p + 16 \<le> UINT32_MAX"
  shows "\<exists>fs t. encrypt_all m now g u d ps s = (Inr fs, t) \<and> length fs = length ps \<and>
    (\<forall>i < length ps. frame_ok m' (sk_senderKeyId c) (sk_chainId c) (sk_publicSignatureKey c) k (n + i) (ps ! i) (fs ! i))"
  using assms(3-)
proof (induction ps arbitrary: s n)
  case (Cons p ps)
  have n: "n < 0xfffffffe" "length p + 16 \<le> UINT32_MAX" "Suc n + length ps \<le> 0xfffffffe"
    "\<And>p. p \<in> set ps \<Longrightarrow> length p + 16 \<le> UINT32_MAX" using Cons.prems(5,6) by simp_all
  obtain f t where f: "encryptGroupMessage m now g u d p s = (Inr f, t)" "valid t" "healthy t"
      "cur t (g, u, d) = Some (state_at m k c (Suc n))"
    and ok: "frame_ok m' (sk_senderKeyId c) (sk_chainId c) (sk_publicSignatureKey c) k n p f"
    using encrypt_step [OF m crypto Cons.prems(1-4) n(1) n(2)] by blast
  obtain fs t' where fs: "encrypt_all m now g u d ps t = (Inr fs, t')" "length fs = length ps"
    and oks: "\<forall>i < length ps. frame_ok m' (sk_senderKeyId c) (sk_chainId c) (sk_publicSignatureKey c) k (Suc n + i) (ps ! i) (fs ! i)"
    using Cons.IH [OF f(2-4) Cons.prems(4) n(3) n(4)] by blast
  have "encrypt_all m now g u d (p # ps) s = (Inr (f # fs), t')" by (simp add: bnd_eval f(1) fs(1) action_eval)
  moreover have "frame_ok m' (sk_senderKeyId c) (sk_chainId c) (sk_publicSignatureKey c) k (n + i) ((p # ps) ! i) ((f # fs) ! i)"
    if "i < length (p # ps)" for i using that ok oks by (cases i) auto
  moreover have "length (f # fs) = length (p # ps)" using fs(2) by simp
  ultimately show ?case by blast
qed (simp add: action_eval)

end

section \<open>Receiving\<close>

definition gap_key :: "'s SenderKeyManager \<Rightarrow> bytes \<Rightarrow> nat \<Rightarrow> SkippedSenderMessageKey" where
  "gap_key m k n = \<lparr>mk_cipherKey = bytesToBase64 (fst (group_key m k n)), mk_iv = bytesToBase64 (snd (group_key m k n))\<rparr>"

lemma stage_gap_at:
  assumes h: "\<And>k d. length (p_hmac (sm_primitives m) k d) = 32"
  shows "stage_gap m j (state_at m k c n) =
    Inr (map (\<lambda>i. \<lparr>ss_senderKeyId = sk_senderKeyId c, ss_chainIndex = i, ss_messageKey = gap_key m k i\<rparr>) [n..<n + j],
         state_at m k c (n + j))"
proof (induction j arbitrary: n)
  case (Suc j)
  have key: "deriveMessageKey m (bytesToBase64 (group_chain_at m k n)) = Inr (fst (group_key m k n), snd (group_key m k n))"
    using group_key_law [of m k n, OF h] by simp
  have st: "(state_at m k c n)\<lparr>sk_chainKey := bytesToBase64 (group_chain_at m k (Suc n)), sk_chainIndex := n + 1\<rparr> = state_at m k c (Suc n)"
    by simp
  have "stage_gap m (Suc j) (state_at m k c n) =
      and_then (stage_gap m j (state_at m k c (Suc n))) (\<lambda>(keys, state'). Inr (\<lparr>ss_senderKeyId = sk_senderKeyId c, ss_chainIndex = n,
         ss_messageKey = gap_key m k n\<rparr> # keys, state'))"
    by (simp only: stage_gap.simps state_at_simps(1-3) key advance_at st and_then_Inr prod.case gap_key_def)
  then show ?case using Suc.IH [of "Suc n"] by (simp add: upt_conv_Cons del: upt_Suc)
qed simp

lemma staged_map_at:
  "staged_map (map (\<lambda>i. \<lparr>ss_senderKeyId = a, ss_chainIndex = i, ss_messageKey = f i\<rparr>) [n..<j]) =
   (\<lambda>(b, i). if b = a \<and> n \<le> i \<and> i < j then Some (f i) else None)"
proof -
  have "map_of (rev (map (\<lambda>i. ((a, i), f i)) xs)) = (\<lambda>(b, i). if b = a \<and> i \<in> set xs then Some (f i) else None)" for xs
    by (induction xs rule: rev_induct) (auto simp: fun_eq_iff)
  from this [of "[n..<j]"] show ?thesis by (simp add: staged_map_def comp_def fun_eq_iff)
qed

lemma lossless_text: "wire_text x \<Longrightarrow> encodeLosslessPlaintext (textEncoder_encode x) = Inr x"
  by (auto simp: encodeLosslessPlaintext_def utf8.dec_enc list_all_iff set_zip Let_def)

text \<open>The skipped keys of a device that has seen the messages \<open>S\<close> and is at index \<open>n\<close>.\<close>

definition gap_map :: "'s SenderKeyManager \<Rightarrow> bytes \<Rightarrow> js_string \<Rightarrow> nat set \<Rightarrow> nat \<Rightarrow> js_string \<times> nat \<Rightarrow> SkippedSenderMessageKey option" where
  "gap_map m k senderKeyId S n = (\<lambda>(a, i). if a = senderKeyId \<and> i < n \<and> i \<notin> S then Some (gap_key m k i) else None)"

lemma gap_map_card: "card (dom (gap_map m k a S n)) \<le> n"
proof -
  have "dom (gap_map m k a S n) \<subseteq> Pair a ` {..<n}" by (auto simp: gap_map_def split: if_splits)
  then have "card (dom (gap_map m k a S n)) \<le> card (Pair a ` {..<n})" by (intro card_mono) auto
  also have "\<dots> \<le> n" using card_image_le [of "{..<n}" "Pair a"] by simp
  finally show ?thesis .
qed

lemma gap_map_step:
  "i < n \<Longrightarrow> (gap_map m k a S n) |` (- {(a, i)}) = gap_map m k a (insert i S) n"
  "n \<le> i \<Longrightarrow> S \<subseteq> {..<n} \<Longrightarrow> gap_map m k a S n ++ (\<lambda>(b, x). if b = a \<and> n \<le> x \<and> x < i then Some (gap_key m k x) else None) =
    gap_map m k a (insert i S) (Suc i)"
  by (force simp: gap_map_def fun_eq_iff restrict_map_def map_add_def split: option.splits if_splits)+

context reliable_sender_key_store
begin

definition group_received :: "'s SenderKeyManager \<Rightarrow> bytes \<Rightarrow> SenderKeyState \<Rightarrow> sender_addr \<Rightarrow> nat set \<Rightarrow> nat \<Rightarrow> 's \<Rightarrow> bool" where
  "group_received m k c a S n s \<longleftrightarrow> valid s \<and> healthy s \<and> cur s a = Some (state_at m k c n) \<and> rcd s a = Some [state_at m k c n] \<and>
     S \<subseteq> {..<n} \<and> skp s a = gap_map m k (sk_senderKeyId c) S n"

lemma decrypt_step:
  assumes m: "sm_storage m = st" and h: "\<And>k d. length (p_hmac (sm_primitives m) k d) = 32"
    and s: "group_received m k c a S n s" and a: "a = (g, u, d)" and ver: "sk_senderKeyVersion c = SENDER_KEY_FORMAT"
    and f: "frame_ok m (sk_senderKeyId c) (sk_chainId c) (sk_publicSignatureKey c) k i (textEncoder_encode x) f"
    and x: "wire_text x" and bounds: "n \<le> N" "i < N" "N \<le> sm_maxSkippedKeys m" "N \<le> sm_maxChainAdvance m"
  shows "\<exists>r t n'. decryptGroupMessage m g u d f None s = (r, t) \<and> group_received m k c a (insert i S) n' t \<and> n' \<le> N \<and>
    r = (if i \<in> S then Inl (EncryptionError MESSAGE_DUPLICATE) else Inr x)"
proof -
  let ?st = "state_at m k c n"
  obtain message signed ct where msg: "encrypted_message f = Inr message" "gm_senderKeyId message = sk_senderKeyId c"
      "gm_chainIndex message = i" "serializeForSigning i (gm_ciphertext message) (sk_senderKeyId c) (sk_chainId c) = Inr signed"
      "verify (sm_primitives m) (sk_publicSignatureKey c) signed (gm_signature message)" "gm_ciphertext message = bytesToBase64 ct"
      "sm_decryptAes m (fst (group_key m k i)) (snd (group_key m k i)) ct = Inr (textEncoder_encode x)"
    using f unfolding frame_ok_def by blast
  note s' = s [unfolded group_received_def]
  have L: "loaded_states s a = [?st]" using s' by (simp add: loaded_states_def loaded_list_def previous_states_def)
  have assert_ok: "assertSenderKeyVersion SENDER_KEY_FORMAT = Inr ()" by (simp add: assertSenderKeyVersion_def throw_if_def)
  have dec: "decryptGroupMessage m g u d f None s = (case open_group_message m ?st message of Inl e \<Rightarrow> (Inl e, s)
      | Inr OldIndex \<Rightarrow> decryptWithSkippedKey m g u d message None s
      | Inr (Opened p state keys) \<Rightarrow> bnd (ks_storeSenderKeyRecord st g u d [state] (group_receive_commit m keys None p g) False) (\<lambda>_. ret p) s)"
    using msg(2) unfolding decrypt_message [OF m] L [unfolded a]
    by (simp add: bnd_eval [of "of_result _"] action_eval msg(1) decrypt_by_record_def state_named_Cons ver assert_ok m
      split: sum.split opened_message.split)
  show ?thesis
  proof (cases "i < n")
    case True
    have "open_group_message m ?st message = Inr OldIndex"
      using True by (simp add: open_group_message_def msg msg(4) [unfolded msg(6)])
    with dec have d: "decryptGroupMessage m g u d f None s = decryptWithSkippedKey m g u d message None s" by simp
    note skipped = decrypt_skipped_eval [OF m, of g u d message None s, folded a]
    show ?thesis
    proof (cases "i \<in> S")
      case True
      then have "skp s a (sk_senderKeyId c, i) = None" using s' by (simp add: gap_map_def)
      with d have "decryptGroupMessage m g u d f None s = (Inl (EncryptionError MESSAGE_DUPLICATE), s)"
        by (simp add: skipped msg(2,3))
      moreover have "insert i S = S" using True by blast
      ultimately show ?thesis using s True bounds(1) by auto
    next
      case False
      let ?commit = "consume_commit message None x g"
      have key: "skp s a (sk_senderKeyId c, i) = Some (gap_key m k i)" using s' \<open>i < n\<close> False by (simp add: gap_map_def)
      have pt: "skipped_plaintext m (gap_key m k i) (gm_ciphertext message) = Inr x"
        by (simp add: skipped_plaintext_def gap_key_def base64.dec_enc group_aesCbcDecrypt_def msg(6,7) lossless_text [OF x])
      obtain t where w: "ks_storeSenderKeyRecord st g u d [?st] ?commit False s = (Inr (), t)" and t: "healthy t"
        using store_record_total [of s ?commit g u d ?st "[]" False] s' by (auto simp: consume_commit_def)
      note e = store_record [OF w conjunct1 [OF s'], folded a]
      have "skp t a = skp s a |` (- {(sk_senderKeyId c, i)})"
        using e by (simp add: consume_commit_def consumed_keys_def msg(2,3))
      then have "skp t a = gap_map m k (sk_senderKeyId c) (insert i S) n"
        using s' gap_map_step(1) [OF \<open>i < n\<close>] by simp
      then have "group_received m k c a (insert i S) n t" using e t s' \<open>i < n\<close> by (simp add: group_received_def)
      moreover have "decryptGroupMessage m g u d f None s = (Inr x, t)"
      proof -
        have r: "rcd s a = Some [?st]" using s' by blast
        have "decryptWithSkippedKey m g u d message None s = bnd (ks_storeSenderKeyRecord st g u d [?st] ?commit False) (\<lambda>_. ret x) s"
          unfolding skipped msg(2,3) key option.case pt sum.case r by simp
        then show ?thesis using w by (simp only: d) (simp add: bnd_def ret_def)
      qed
      ultimately show ?thesis using False bounds(1) by auto
    qed
  next
    case False
    let ?keys = "map (\<lambda>i. \<lparr>ss_senderKeyId = sk_senderKeyId c, ss_chainIndex = i, ss_messageKey = gap_key m k i\<rparr>) [n..<i]"
    let ?new = "state_at m k c (Suc i)" and ?commit = "group_receive_commit m ?keys None x g"
    have gap: "stage_gap m (i - n) ?st = Inr (?keys, state_at m k c i)" using stage_gap_at [of m "i - n" k c n, OF h] False by simp
    obtain ck iv where gk: "group_key m k i = (ck, iv)" by fastforce
    have key: "deriveMessageKey m (bytesToBase64 (group_chain_at m k i)) = Inr (ck, iv)" "sm_decryptAes m ck iv ct = Inr (textEncoder_encode x)"
      using group_key_law [of m k i, OF h] msg(7) by (simp_all add: gk)
    have "\<not> sm_maxChainAdvance m < i - n" using bounds by simp
    then have "open_group_message m ?st message = Inr (Opened x ?new ?keys)"
      using False by (simp add: open_group_message_def msg(1-6) msg(4) [unfolded msg(6)] gap key group_aesCbcDecrypt_def base64.dec_enc lossless_text [OF x] advance_at)
    with dec have d: "decryptGroupMessage m g u d f None s = bnd (ks_storeSenderKeyRecord st g u d [?new] ?commit False) (\<lambda>_. ret x) s"
      by simp
    obtain t where w: "ks_storeSenderKeyRecord st g u d [?new] ?commit False s = (Inr (), t)" and t: "healthy t"
      using store_record_total [of s ?commit g u d ?new "[]" False] s' by (auto simp: group_receive_commit_def)
    note e = store_record [OF w conjunct1 [OF s'], folded a]
    have "card (dom (skp s a)) + length ?keys \<le> sm_maxSkippedKeys m"
      using gap_map_card [of m k "sk_senderKeyId c" S n] s' False bounds by simp
    then have "skp t a = skp s a ++ staged_map ?keys"
      using e by (simp add: group_receive_commit_def consumed_keys_def restrict_map_def)
    then have "skp t a = gap_map m k (sk_senderKeyId c) (insert i S) (Suc i)"
      unfolding staged_map_at using s' gap_map_step(2) [of n i S m k "sk_senderKeyId c"] False by simp
    moreover have "insert i S \<subseteq> {..<Suc i}" using s' False by auto
    ultimately have "group_received m k c a (insert i S) (Suc i) t" using e t by (simp add: group_received_def)
    moreover have "decryptGroupMessage m g u d f None s = (Inr x, t)" using d w by (simp add: bnd_def ret_def)
    moreover have "i \<notin> S" using s' False by auto
    ultimately show ?thesis using bounds(2) by auto
  qed
qed

lemma decrypt_each_ok:
  assumes m: "sm_storage m = st" and h: "\<And>k d. length (p_hmac (sm_primitives m) k d) = 32"
    and a: "a = (g, u, d)" and ver: "sk_senderKeyVersion c = SENDER_KEY_FORMAT"
    and f: "\<And>i. i < N \<Longrightarrow> wire_text (texts ! i) \<and> frame_ok m (sk_senderKeyId c) (sk_chainId c) (sk_publicSignatureKey c) k i
      (textEncoder_encode (texts ! i)) (frames ! i)"
    and N: "N \<le> sm_maxSkippedKeys m" "N \<le> sm_maxChainAdvance m"
    and "group_received m k c a S n s" "n \<le> N" "\<And>i. i \<in> set is \<Longrightarrow> i < N"
  shows "fst (decrypt_each m g u d (map (\<lambda>i. frames ! i) is) s) = deliveries texts S is"
  using assms(8-)
proof (induction "is" arbitrary: S n s)
  case (Cons i "is")
  have i: "i < N" using Cons.prems(3) by simp
  obtain r t n' where d: "decryptGroupMessage m g u d (frames ! i) None s = (r, t)" and t: "group_received m k c a (insert i S) n' t" "n' \<le> N"
    and r: "r = (if i \<in> S then Inl (EncryptionError MESSAGE_DUPLICATE) else Inr (texts ! i))"
    using decrypt_step [OF m h Cons.prems(1) a ver _ _ Cons.prems(2) i N, of "texts ! i" "frames ! i"] f [OF i] by blast
  have "fst (decrypt_each m g u d (map (\<lambda>i. frames ! i) is) t) = deliveries texts (insert i S) is"
    using Cons.IH [OF t] Cons.prems(3) by simp
  then show ?case by (simp add: d r split: prod.split) (metis fst_conv)
qed simp

end

section \<open>From the creation of a key to its messages\<close>

lemma ascii_unit: "c < 128 \<Longrightarrow> \<not> high_surrogate c \<and> \<not> low_surrogate c \<and> unat c < 128"
  by (auto simp: high_surrogate_def low_surrogate_def word_less_nat_alt word_le_nat_alt)

lemma utf16_scalars_ascii: "c < 128 \<Longrightarrow> utf16_scalars (c # rest) = unat c # utf16_scalars rest"
  using ascii_unit [of c] by (cases rest) simp_all

lemma plain_ascii_length: "plain_ascii s \<Longrightarrow> length (textEncoder_encode s) = length s"
proof (induction s)
  case (Cons c s)
  then have "c < 128" "plain_ascii s" by (simp_all add: plain_ascii_def)
  with Cons.IH ascii_unit [of c] show ?case by (simp add: textEncoder_encode_def utf16_scalars_ascii utf8_scalar_def)
qed simp

lemma uuid_length:
  assumes "length random = 16"
  shows "length (stringToBytes (generateUuidV4 random)) = 36"
proof -
  have "length (concat (map hex_byte bs)) = 2 * length bs" for bs by (induction bs) (simp_all add: hex_byte_def)
  then have "length (generateUuidV4 random) = 36" using assms by (simp add: generateUuidV4_def Let_def js_slice_def)
  then show ?thesis using plain_ascii_length [OF uuid_ascii] by (simp add: stringToBytes_def)
qed

context reliable_sender_key_store
begin

lemma create_ok:
  assumes m: "sm_storage m = st" and sig: "signatures_verify (sm_primitives m)" and s: "valid s" "healthy s"
    and random: "length uuid = 16" "length signing = 32" and now: "0 < now" "now' - now \<le> sm_maxSenderKeyAge m"
  shows "\<exists>c s1. createSenderKey m now (uuid, key, signing) g u d s = (Inr (sk_senderKeyId c, distribution_of (state_at m key c 0)), s1) \<and>
    valid s1 \<and> healthy s1 \<and> cur s1 (g, u, d) = Some (state_at m key c 0) \<and> sendable_key m now' c"
proof -
  let ?p = "sm_primitives m" and ?id = "generateUuidV4 uuid"
  obtain pub where pub: "ed25519_getPublicKey ?p signing = Inr pub"
    using sig random(2) unfolding signatures_verify_def by blast
  define c where "c = \<lparr>sk_senderKeyId = ?id, sk_senderKeyVersion = SENDER_KEY_FORMAT,
           sk_chainId = generateChainId ?id, sk_generation = 1,
           sk_chainKey = bytesToBase64 key, sk_signatureKey = bytesToBase64 signing,
           sk_publicSignatureKey = bytesToBase64 pub, sk_chainIndex = 0, sk_createdAt = Some now\<rparr>"
  have "state_at m key c 0 = c" by (simp add: state_at_def c_def group_chain_at_def)
  moreover have "new_sender_key m now (uuid, key, signing) 1 = Inr c"
    by (simp add: new_sender_key_def Let_def generateSigningKeyPair_def pub c_def)
  ultimately have new: "new_sender_key m now (uuid, key, signing) 1 = Inr (state_at m key c 0)" by simp
  obtain s1 where w: "persistSenderKeyRecord m g u d (state_at m key c 0) [] True s = (Inr (), s1)" "healthy s1" "valid s1"
      "cur s1 = (cur s)((g, u, d) \<mapsto> state_at m key c 0)"
    using persist_total [OF m s(2,1)] by blast
  have "createSenderKey m now (uuid, key, signing) g u d s =
      (Inr (sk_senderKeyId c, distribution_of (state_at m key c 0)), s1)"
    by (simp add: createSenderKey_def new [simplified] bnd_eval action_eval w(1))
  moreover have "generateChainId ?id \<le> UINT32_MAX"
  proof -
    have "unat x \<le> UINT32_MAX" for x :: "32 word"
      using unsigned_less [of x, where 'a = nat] by (simp add: UINT32_MAX_def)
    then show ?thesis unfolding generateChainId_def .
  qed
  then have "sendable_key m now' c"
    using uuid_wire [of uuid] uuid_length [OF random(1)] pub random(2) now
    by (auto simp: sendable_key_def c_def ownSenderKeyExpiry_def UINT32_MAX_def Let_def)
  ultimately show ?thesis using w by (metis fun_upd_same)
qed

lemma install_ok:
  assumes m: "sm_storage m = st" and r: "valid r" "healthy r" and a: "cur r (g, u, d) = None" "skp r (g, u, d) = Map.empty"
    and dist: "dist = distribution_of (state_at m' k c 0)" and same: "group_chain_at m k 0 = group_chain_at m' k 0"
  shows "\<exists>c' r1. processSenderKeyDistribution m now g u d dist r = (Inr (), r1) \<and>
    group_received m k c' (g, u, d) {} 0 r1 \<and> sk_senderKeyVersion c' = SENDER_KEY_FORMAT \<and> sk_senderKeyId c' = sk_senderKeyId c \<and>
    sk_chainId c' = sk_chainId c \<and> sk_publicSignatureKey c' = sk_publicSignatureKey c \<and> sk_generation c' = sk_generation c"
proof -
  define c' where "c' = \<lparr>sk_senderKeyId = sk_senderKeyId c, sk_senderKeyVersion = SENDER_KEY_FORMAT,
             sk_chainId = sk_chainId c, sk_generation = sd_generation dist,
             sk_chainKey = bytesToBase64 (group_chain_at m' k 0), sk_signatureKey = [],
             sk_publicSignatureKey = sk_publicSignatureKey c,
             sk_chainIndex = 0, sk_createdAt = Some now\<rparr>"
  have c': "c' = state_at m k c' 0" by (simp add: state_at_def c'_def same)
  obtain r1 where w: "persistSenderKeyRecord m g u d c' [] False r = (Inr (), r1)" "healthy r1" "valid r1"
      "cur r1 = (cur r)((g, u, d) \<mapsto> c')" "rcd r1 = (rcd r)((g, u, d) \<mapsto> [c'])" "skp r1 (g, u, d) = skp r (g, u, d)"
    using persist_total [OF m r(2,1)] by blast
  have "processSenderKeyDistribution m now g u d dist r = persistSenderKeyRecord m g u d c' [] False r"
    by (simp add: processSenderKeyDistribution_def bnd_eval [of "of_result _"] bnd_eval [of "loadSenderKey _ _ _ _"] load_key [OF m] a
        action_eval dist distribution_of_def assertSenderKeyVersion_def throw_if_def distribution_is_stale_def or_else_def Let_def c'_def)
  then have "processSenderKeyDistribution m now g u d dist r = (Inr (), r1)" using w(1) by simp
  moreover have "group_received m k c' (g, u, d) {} 0 r1"
    unfolding group_received_def c' [symmetric] using w a by (simp add: gap_map_def fun_eq_iff)
  ultimately show ?thesis by (intro exI [of _ c'] exI [of _ r1]) (simp add: c'_def dist distribution_of_def)
qed

text \<open>The same distribution once more changes nothing.\<close>

lemma install_again:
  assumes m: "sm_storage m = st" and s: "group_received m k c' (g, u, d) S n s" and ver: "sk_senderKeyVersion c' = SENDER_KEY_FORMAT"
    and dist: "dist = distribution_of (state_at m' k c 0)" and same: "sk_senderKeyId c' = sk_senderKeyId c" "sk_generation c' = sk_generation c"
  shows "processSenderKeyDistribution m now g u d dist s = (Inr (), s)"
proof -
  have "cur s (g, u, d) = Some (state_at m k c' n)" using s by (simp add: group_received_def)
  then show ?thesis
    by (simp add: processSenderKeyDistribution_def bnd_eval [of "of_result _"] bnd_eval [of "loadSenderKey _ _ _ _"] load_key [OF m]
        bnd_eval [of "loadPreviousStates _ _ _ _"] load_previous [OF m] action_eval dist distribution_of_def assertSenderKeyVersion_def
        throw_if_def distribution_is_stale_def ver same)
qed

lemma any_order:
  assumes m: "sm_storage m = st" "sm_storage m' = st" and crypto: "group_crypto m m'"
    and s: "valid s" "healthy s" and random: "length uuid = 16" "length signing = 32"
    and now: "0 < now" "now' - now \<le> sm_maxSenderKeyAge m"
    and r: "valid r" "healthy r" "cur r (g, u, d) = None" "skp r (g, u, d) = Map.empty"
    and texts: "\<And>x. x \<in> set texts \<Longrightarrow> wire_text x \<and> length (textEncoder_encode x) + 16 \<le> UINT32_MAX"
    and len: "length texts \<le> sm_maxSkippedKeys m'" "length texts \<le> sm_maxChainAdvance m'" "length texts \<le> 0xfffffffe"
    and order: "\<And>i. i \<in> set order \<Longrightarrow> i < length texts"
  shows "\<exists>i dist s1 frames s2 r1.
    createSenderKey m now (uuid, key, signing) g u d s = (Inr (i, dist), s1) \<and>
    encrypt_all m now' g u d (map textEncoder_encode texts) s1 = (Inr frames, s2) \<and>
    processSenderKeyDistribution m' now'' g u d dist r = (Inr (), r1) \<and>
    fst (decrypt_each m' g u d (map (\<lambda>i. frames ! i) order) r1) = deliveries texts {} order"
proof -
  note laws = crypto [unfolded group_crypto_def]
  obtain c s1 where c: "createSenderKey m now (uuid, key, signing) g u d s =
        (Inr (sk_senderKeyId c, distribution_of (state_at m key c 0)), s1)"
      "valid s1" "healthy s1" "cur s1 (g, u, d) = Some (state_at m key c 0)" "sendable_key m now' c"
    using create_ok [OF m(1) _ s random now] laws by blast
  have sizes: "length p + 16 \<le> UINT32_MAX" if "p \<in> set (map textEncoder_encode texts)" for p using that texts by auto
  have count: "0 + length (map textEncoder_encode texts) \<le> 0xfffffffe" using len(3) by simp
  obtain frames s2 where f: "encrypt_all m now' g u d (map textEncoder_encode texts) s1 = (Inr frames, s2)"
      "\<forall>i < length texts. frame_ok m' (sk_senderKeyId c) (sk_chainId c) (sk_publicSignatureKey c) key i
         (map textEncoder_encode texts ! i) (frames ! i)"
    using encrypt_all_ok [OF m(1) crypto c(2-5) count sizes] by auto
  have h: "length (p_hmac (sm_primitives m') x y) = 32" for x y using laws by metis
  obtain c' r1 where p: "processSenderKeyDistribution m' now'' g u d (distribution_of (state_at m key c 0)) r = (Inr (), r1)"
      "group_received m' key c' (g, u, d) {} 0 r1" "sk_senderKeyVersion c' = SENDER_KEY_FORMAT"
    and same: "sk_senderKeyId c' = sk_senderKeyId c" "sk_chainId c' = sk_chainId c" "sk_publicSignatureKey c' = sk_publicSignatureKey c"
    using install_ok [OF m(2) r refl, where k = key and m' = m and c = c and now = now''] laws by (auto simp: group_chain_at_def)
  have ok: "wire_text (texts ! i) \<and> frame_ok m' (sk_senderKeyId c') (sk_chainId c') (sk_publicSignatureKey c') key i
      (textEncoder_encode (texts ! i)) (frames ! i)" if "i < length texts" for i
    using f(2) that texts by (simp add: same)
  have "fst (decrypt_each m' g u d (map (\<lambda>i. frames ! i) order) r1) = deliveries texts {} order"
    by (rule decrypt_each_ok [OF m(2) h refl p(3) ok len(1,2) p(2) _ order]) simp_all
  with c(1) f(1) p(1) show ?thesis by blast
qed

end

end
