(* ===== verification/Sender_Properties.thy ===== *)
theory Sender_Properties
  imports Sender_Delivery
begin

text \<open>
  The properties of the sender keys over the memory store, with runs and deliveries of a sample manager as their witnesses:
  messages arrive in any order and once, records and skipped keys stay bounded, no chain index is sent twice, only signed
  messages are returned, the handoff ledger follows the key, and the wire form reads back.
\<close>

section \<open>A sample manager\<close>

text \<open>A manager over the memory store with the primitives of the samples and a transparent cipher.\<close>

definition sample_manager :: "unit MemoryStore SenderKeyManager" where
  "sample_manager = new_SenderKeyManager memory_sender_keys sample_primitives (\<lambda>key vector p. Inr p) (\<lambda>key vector ct. Inr ct)
     \<lparr>sc_hkdfInfoString = None, sc_maxChainAdvance = None, sc_maxSkippedKeys = None, sc_maxSenderKeyAge = None\<rparr>"

definition no_sender_keys :: "'q MemoryStore \<Rightarrow> bool" where
  "no_sender_keys s \<longleftrightarrow> senderKeys s = [] \<and> senderKeyRecords s = [] \<and> skippedSenderKeys s = []"

lemma no_sender_keys_views:
  assumes "no_sender_keys s"
  shows "sender_tables_ok s" "key_view s a = None" "skipped_view s a = Map.empty"
  using assms by (simp_all add: no_sender_keys_def sender_tables_ok_def key_view_def nested_get_def skipped_view_def fun_eq_iff)

lemma sample_manager_simps:
  "sm_storage sample_manager = memory_sender_keys" "sm_primitives sample_manager = sample_primitives"
  "sm_maxSkippedKeys sample_manager = 2000" "sm_maxChainAdvance sample_manager = 25000"
  "sm_maxSenderKeyAge sample_manager = 1209600000"
  by (simp_all add: sample_manager_def new_SenderKeyManager_def or_else_def DEFAULT_maxSkippedKeys_def DEFAULT_maxChainAdvance_def
      resolveMaxSenderKeyAge_def DEFAULT_maxSenderKeyAge_def)

lemma sample_group_crypto: "group_crypto sample_manager sample_manager"
  using sample_laws_total(3) sample_primitives_laws(5)
  by (simp add: group_crypto_def sample_manager_simps) (simp add: sample_manager_def new_SenderKeyManager_def)

lemma sample_store_quiet: "no_sender_keys sample_store" "quiet_store sample_store"
  by (simp_all add: no_sender_keys_def quiet_store_def sample_store_def no_failures_def)

text \<open>
  C18. Group messages arrive: after a device created a sender key and encrypted texts, and another one, which held neither a
  key nor skipped keys of that device, installed the distribution, the frames can be delivered in any order and with
  repetitions. Each gives its text the first time and is a duplicate each later time, as long as there are no more messages
  than the receiver's limits of skipped keys and of the chain advance, the key is not past its age, no failure is injected
  into the stores, and AES and the signatures obey their laws.
\<close>

theorem group_messages_any_order:
  fixes m m' :: "'q MemoryStore SenderKeyManager"
  assumes "sm_storage m = memory_sender_keys" "sm_storage m' = memory_sender_keys" and "group_crypto m m'"
    and "sender_tables_ok s" "quiet_store s" and "length uuid = 16" "length signing = 32"
    and "0 < now" "now' - now \<le> sm_maxSenderKeyAge m"
    and "sender_tables_ok r" "quiet_store r" "key_view r (g, u, d) = None" "skipped_view r (g, u, d) = Map.empty"
    and "\<forall>x \<in> set texts. wire_text x \<and> length (textEncoder_encode x) + 16 \<le> UINT32_MAX"
    and "length texts \<le> sm_maxSkippedKeys m'" "length texts \<le> sm_maxChainAdvance m'" "length texts \<le> 0xfffffffe"
    and "\<forall>i \<in> set order. i < length texts"
  shows "\<exists>i dist s1 frames s2 r1.
    createSenderKey m now (uuid, key, signing) g u d s = (Inr (i, dist), s1) \<and>
    encrypt_all m now' g u d (map textEncoder_encode texts) s1 = (Inr frames, s2) \<and>
    processSenderKeyDistribution m' now'' g u d dist r = (Inr (), r1) \<and>
    fst (decrypt_each m' g u d (map (\<lambda>i. frames ! i) order) r1) = deliveries texts {} order"
  by (rule memory_reliable.any_order [OF assms(1-13)]) (use assms(14-) in blast)+

lemma group_messages_any_order_witness:
  "\<exists>i dist s1 frames s2 r1.
    createSenderKey sample_manager 5 (replicate 16 5, replicate 32 6, replicate 32 7) (ascii ''g'') (ascii ''u'') 1 sample_store
      = (Inr (i, dist), s1) \<and>
    encrypt_all sample_manager 6 (ascii ''g'') (ascii ''u'') 1 (map textEncoder_encode (map ascii [''h'', ''i'', ''j''])) s1 =
      (Inr frames, s2) \<and>
    processSenderKeyDistribution sample_manager 7 (ascii ''g'') (ascii ''u'') 1 dist sample_store = (Inr (), r1) \<and>
    fst (decrypt_each sample_manager (ascii ''g'') (ascii ''u'') 1 (map (\<lambda>i. frames ! i) [2, 0, 2, 1]) r1) =
      [Inr (ascii ''j''), Inr (ascii ''h''), Inl (EncryptionError MESSAGE_DUPLICATE), Inr (ascii ''i'')]"
proof -
  let ?texts = "map ascii [''h'', ''i'', ''j'']"
  have "wire_text x \<and> length (textEncoder_encode x) + 16 \<le> UINT32_MAX" if "plain_ascii x" "length x < 10" for x
    using plain_ascii_wire plain_ascii_length that by (simp add: UINT32_MAX_def)
  then have sizes: "\<forall>x \<in> set ?texts. wire_text x \<and> length (textEncoder_encode x) + 16 \<le> UINT32_MAX"
    by (simp add: plain_ascii_def ascii_def of_char_of)
  have results: "deliveries ?texts {} [2, 0, 2, 1] =
      [Inr (ascii ''j''), Inr (ascii ''h''), Inl (EncryptionError MESSAGE_DUPLICATE), Inr (ascii ''i'')]" by simp
  note empty = no_sender_keys_views [OF sample_store_quiet(1)]
  show ?thesis
    unfolding results [symmetric]
    by (rule group_messages_any_order [OF sample_manager_simps(1) sample_manager_simps(1) sample_group_crypto empty(1)
          sample_store_quiet(2) _ _ _ _ empty(1) sample_store_quiet(2) empty(2) empty(3) sizes])
      (simp_all add: sample_manager_simps)
qed

text \<open>A run of one device that creates a key and sends with it, and a run of one that installs a key and receives.\<close>

lemma frame_ok_entry: "frame_ok m i chainId pub k n p f \<Longrightarrow> frame_entry f = [(i, n)]"
  by (auto simp: frame_ok_def frame_entry_def)

definition sample_addr :: sender_addr where "sample_addr = (ascii ''g'', ascii ''u'', 1)"

lemma sample_sent:
  obtains c s1 f t where "generateUuidV4 (replicate 16 5) = sk_senderKeyId c"
    "createSenderKey sample_manager 5 (replicate 16 5, replicate 32 6, replicate 32 7) (ascii ''g'') (ascii ''u'') 1 sample_store =
      (Inr (sk_senderKeyId c, distribution_of (state_at sample_manager (replicate 32 6) c 0)), s1)"
    "encryptGroupMessage sample_manager 6 (ascii ''g'') (ascii ''u'') 1 (textEncoder_encode (ascii ''h'')) s1 = (Inr f, t)"
    "frame_ok sample_manager (sk_senderKeyId c) (sk_chainId c) (sk_publicSignatureKey c) (replicate 32 6) 0
      (textEncoder_encode (ascii ''h'')) f"
proof -
  note empty = no_sender_keys_views [OF sample_store_quiet(1)]
  have sig: "signatures_verify (sm_primitives sample_manager)" using sample_laws_total(3) by (simp add: sample_manager_simps)
  obtain c s1 where c: "createSenderKey sample_manager 5 (replicate 16 5, replicate 32 6, replicate 32 7) (ascii ''g'') (ascii ''u'') 1 sample_store =
      (Inr (sk_senderKeyId c, distribution_of (state_at sample_manager (replicate 32 6) c 0)), s1)"
    "sender_tables_ok s1" "quiet_store s1" "key_view s1 (ascii ''g'', ascii ''u'', 1) = Some (state_at sample_manager (replicate 32 6) c 0)"
    "sendable_key sample_manager 6 c"
    using memory_reliable.create_ok [OF sample_manager_simps(1) sig empty(1) sample_store_quiet(2), of "replicate 16 5" "replicate 32 7" 5 6
        "replicate 32 6" "ascii ''g''" "ascii ''u''" 1] by (auto simp: sample_manager_simps)
  have "generateUuidV4 (replicate 16 5) = sk_senderKeyId c"
    using memory_keys.create_cases [OF sample_manager_simps(1) c(1)] new_sender_key_id by fastforce
  moreover have "length (textEncoder_encode (ascii ''h'')) + 16 \<le> UINT32_MAX"
    using plain_ascii_length [of "ascii ''h''"] by (simp add: plain_ascii_def ascii_def of_char_of UINT32_MAX_def)
  then obtain f t where "encryptGroupMessage sample_manager 6 (ascii ''g'') (ascii ''u'') 1 (textEncoder_encode (ascii ''h'')) s1 = (Inr f, t)"
    "frame_ok sample_manager (sk_senderKeyId c) (sk_chainId c) (sk_publicSignatureKey c) (replicate 32 6) 0
      (textEncoder_encode (ascii ''h'')) f"
    using memory_reliable.encrypt_step [OF sample_manager_simps(1) sample_group_crypto c(2-5)] by fastforce
  ultimately show ?thesis using c(1) that by blast
qed

lemma sample_sending_run:
  "\<exists>s known renewed opened sent i. group_run {sample_addr} sample_manager sample_store s known renewed opened sent \<and> sent sample_addr = [(i, 0)]"
proof -
  obtain c s1 f t where run: "generateUuidV4 (replicate 16 5) = sk_senderKeyId c"
    "createSenderKey sample_manager 5 (replicate 16 5, replicate 32 6, replicate 32 7) (ascii ''g'') (ascii ''u'') 1 sample_store =
      (Inr (sk_senderKeyId c, distribution_of (state_at sample_manager (replicate 32 6) c 0)), s1)"
    "encryptGroupMessage sample_manager 6 (ascii ''g'') (ascii ''u'') 1 (textEncoder_encode (ascii ''h'')) s1 = (Inr f, t)"
    and f: "frame_ok sample_manager (sk_senderKeyId c) (sk_chainId c) (sk_publicSignatureKey c) (replicate 32 6) 0
      (textEncoder_encode (ascii ''h'')) f" by (rule sample_sent)
  have own: "(ascii ''g'', ascii ''u'', 1) \<in> {sample_addr}" by (simp add: sample_addr_def)
  from group_run.encrypt [OF group_run.create [OF group_run.start own _ run(2)] own run(3)]
  show ?thesis using frame_ok_entry [OF f] by (fastforce simp: sample_addr_def sent_entry_def)
qed

text \<open>
  A run that receives: a distribution, a frame, and the same distribution once more. The key is not renewed by the second copy.
\<close>

lemma sample_receiving_run:
  obtains dist f s1 s2 state i known opened sent where
    "processSenderKeyDistribution sample_manager 7 (ascii ''g'') (ascii ''u'') 1 dist sample_store = (Inr (), s1)"
    "decryptGroupMessage sample_manager (ascii ''g'') (ascii ''u'') 1 f None s1 = (Inr (ascii ''h''), s2)"
    "processSenderKeyDistribution sample_manager 8 (ascii ''g'') (ascii ''u'') 1 dist s2 = (Inr (), s2)"
    "group_run {} sample_manager sample_store s2 known (\<lambda>_. {}) opened sent" "opened sample_addr = [(i, 0)]" "frame_entry f = [(i, 0)]"
    "record_view s2 sample_addr = Some [state]"
proof -
  note empty = no_sender_keys_views [OF sample_store_quiet(1)]
  obtain c :: SenderKeyState and f where f: "frame_ok sample_manager (sk_senderKeyId c) (sk_chainId c) (sk_publicSignatureKey c) (replicate 32 6) 0
      (textEncoder_encode (ascii ''h'')) f" by (rule sample_sent) blast
  define dist where "dist = distribution_of (state_at sample_manager (replicate 32 6) c 0)"
  obtain c' s1 where p: "processSenderKeyDistribution sample_manager 7 (ascii ''g'') (ascii ''u'') 1 dist sample_store = (Inr (), s1)"
      "memory_reliable.group_received sample_manager (replicate 32 6) c' (ascii ''g'', ascii ''u'', 1) {} 0 s1"
      "sk_senderKeyVersion c' = SENDER_KEY_FORMAT" and same: "sk_senderKeyId c' = sk_senderKeyId c" "sk_chainId c' = sk_chainId c"
      "sk_publicSignatureKey c' = sk_publicSignatureKey c" and generation: "sk_generation c' = sk_generation c"
    using memory_reliable.install_ok [OF sample_manager_simps(1) empty(1) sample_store_quiet(2) empty(2,3) dist_def refl] by blast
  have h: "length (p_hmac (sm_primitives sample_manager) x y) = 32" for x y
    using sample_primitives_laws(5) by (simp add: sample_manager_simps)
  have x: "wire_text (ascii ''h'')" by (rule plain_ascii_wire) (simp add: plain_ascii_def ascii_def of_char_of)
  obtain s2 S n where d: "decryptGroupMessage sample_manager (ascii ''g'') (ascii ''u'') 1 f None s1 = (Inr (ascii ''h''), s2)"
    and received: "memory_reliable.group_received sample_manager (replicate 32 6) c' (ascii ''g'', ascii ''u'', 1) S n s2"
    using memory_reliable.decrypt_step [OF sample_manager_simps(1) h p(2) refl p(3) f [folded same] x, of 1]
    by (auto simp: sample_manager_simps)
  have again: "processSenderKeyDistribution sample_manager 8 (ascii ''g'') (ascii ''u'') 1 dist s2 = (Inr (), s2)"
    by (rule memory_reliable.install_again [OF sample_manager_simps(1) received p(3) dist_def same(1) generation])
  have held: "held_states sample_manager sample_addr s2 = loaded_list (key_view s2 sample_addr) (record_view s2 sample_addr)"
    "key_view s2 sample_addr = Some (state_at sample_manager (replicate 32 6) c' n)"
    and stored: "record_view s2 sample_addr = Some [state_at sample_manager (replicate 32 6) c' n]"
    using memory_keys.held_states_eq [OF sample_manager_simps(1) sample_addr_def, of s2] received
    by (simp_all add: memory_reliable.group_received_def memory_keys.loaded_states_def sample_addr_def)
  have "repeats dist (held_states sample_manager sample_addr s2)"
    unfolding repeats_def held by (intro exI [of _ 0]) (simp add: loaded_list_def dist_def distribution_of_def same generation)
  then have renewals: "after_renewal (Inr ()) dist (held_states sample_manager (ascii ''g'', ascii ''u'', 1) s2) ids ren = ren" for ids ren
    by (simp add: after_renewal_def sample_addr_def)
  have none: "after_renewal r message states {} ren = ren" for r :: "unit result" and message states ren
    by (simp add: after_renewal_def)
  have own: "(ascii ''g'', ascii ''u'', 1) \<notin> {}" by simp
  from group_run.install [OF group_run.decrypt [OF group_run.install [OF group_run.start own p(1)] own d] own again]
  show ?thesis using that [OF p(1) d again] frame_ok_entry [OF f] stored
    by (simp add: none renewals sample_addr_def log_entry_def fun_upd_idem)
qed

lemma memory_run_ok:
  assumes "group_run own m s0 s known renewed opened sent" and "sm_storage m = memory_sender_keys" and "no_sender_keys s0"
  shows "addr_ok (a \<in> own) (key_view s a) (record_view s a) (kept (renewed a) (dom (skipped_view s a))) (known a)
      (kept_log (renewed a) (opened a)) (sent a) \<and>
    finite (dom (skipped_view s a)) \<and> card (dom (skipped_view s a)) \<le> max 1 (sm_maxSkippedKeys m)"
proof -
  have "memory_keys.run_ok own m s known renewed opened sent"
    by (rule memory_keys.group_run_ok [OF assms(1,2)]) (simp_all add: no_sender_keys_views [OF assms(3)])
  from memory_keys.run_ok_addr [OF this, of a] memory_keys.valid_skipped [OF memory_keys.run_ok_valid [OF this]]
  show ?thesis by (simp add: memory_keys.dev_ok_def)
qed

text \<open>
  C22. On every run of the manager over the memory store, with injected failures and whatever frames and distributions
  arrive for the devices of others (new ones, repeated and late ones, a known identifier with other contents or another
  generation), the record of a device holds at most five states with different identifiers, the current state has the
  identifier of the first, and no more skipped keys are kept than configured (one at a configured number of 0).
\<close>

theorem sender_record_bounded:
  assumes "group_run own m s0 s known renewed opened sent" and "sm_storage m = memory_sender_keys" and "no_sender_keys s0"
  shows "(case record_view s a of None \<Rightarrow> key_view s a = None
      | Some states \<Rightarrow> states \<noteq> [] \<and> length states \<le> MAX_SENDER_KEY_STATES \<and> distinct (map sk_senderKeyId states) \<and>
          map_option sk_senderKeyId (key_view s a) = Some (sk_senderKeyId (hd states))) \<and>
    finite (dom (skipped_view s a)) \<and> card (dom (skipped_view s a)) \<le> max 1 (sm_maxSkippedKeys m)"
  using memory_run_ok [OF assms, of a] by (auto simp: addr_ok_def record_ok_def split: option.splits)

text \<open>The second copy of a distribution does not make a second state.\<close>

lemma sender_record_bounded_witness:
  "\<exists>dist f s1 s2 state. processSenderKeyDistribution sample_manager 7 (ascii ''g'') (ascii ''u'') 1 dist sample_store = (Inr (), s1) \<and>
    decryptGroupMessage sample_manager (ascii ''g'') (ascii ''u'') 1 f None s1 = (Inr (ascii ''h''), s2) \<and>
    processSenderKeyDistribution sample_manager 8 (ascii ''g'') (ascii ''u'') 1 dist s2 = (Inr (), s2) \<and>
    record_view s2 sample_addr = Some [state] \<and> map_option sk_senderKeyId (key_view s2 sample_addr) = Some (sk_senderKeyId state) \<and>
    card (dom (skipped_view s2 sample_addr)) \<le> 2000"
proof -
  obtain dist f s1 s2 state i known opened sent where run:
    "processSenderKeyDistribution sample_manager 7 (ascii ''g'') (ascii ''u'') 1 dist sample_store = (Inr (), s1)"
    "decryptGroupMessage sample_manager (ascii ''g'') (ascii ''u'') 1 f None s1 = (Inr (ascii ''h''), s2)"
    "processSenderKeyDistribution sample_manager 8 (ascii ''g'') (ascii ''u'') 1 dist s2 = (Inr (), s2)"
    "group_run {} sample_manager sample_store s2 known (\<lambda>_. {}) opened sent" "record_view s2 sample_addr = Some [state]"
    by (rule sample_receiving_run)
  from sender_record_bounded [OF run(4) sample_manager_simps(1) sample_store_quiet(1), of sample_addr] run(5)
  have "map_option sk_senderKeyId (key_view s2 sample_addr) = Some (sk_senderKeyId state) \<and>
    card (dom (skipped_view s2 sample_addr)) \<le> 2000" by (simp add: sample_manager_simps)
  with run show ?thesis by blast
qed

text \<open>
  C19. On every such run no message \<open>(senderKeyId, chainIndex)\<close> of a key that was not renewed is returned by two
  decryptions, however often and in whatever order its frames and the distributions of its key arrive and whatever fails in
  between. A key is renewed when a distribution of it is processed although it was installed before and the record no
  longer holds it (it was deleted, or evicted by newer keys), or holds it as the current key in an earlier generation;
  copies of a distribution of a key that the record holds renew nothing.
\<close>

theorem group_message_once:
  assumes "group_run own m s0 s known renewed opened sent" and "sm_storage m = memory_sender_keys" and "no_sender_keys s0"
  shows "distinct (filter (\<lambda>(senderKeyId, chainIndex). senderKeyId \<notin> renewed a) (opened a))"
proof -
  have "filter (\<lambda>(senderKeyId, chainIndex). senderKeyId \<notin> renewed a) (opened a) = kept_log (renewed a) (opened a)"
    unfolding kept_log_def by (rule filter_cong) (simp_all add: split_beta)
  with memory_run_ok [OF assms, of a] show ?thesis by (simp add: addr_ok_def logs_ok_def)
qed

text \<open>After the second copy of its distribution the frame that was returned is not returned again.\<close>

lemma group_message_once_witness:
  "\<exists>dist f s1 s2. processSenderKeyDistribution sample_manager 7 (ascii ''g'') (ascii ''u'') 1 dist sample_store = (Inr (), s1) \<and>
    decryptGroupMessage sample_manager (ascii ''g'') (ascii ''u'') 1 f None s1 = (Inr (ascii ''h''), s2) \<and>
    processSenderKeyDistribution sample_manager 8 (ascii ''g'') (ascii ''u'') 1 dist s2 = (Inr (), s2) \<and>
    (\<forall>seed plaintext t. decryptGroupMessage sample_manager (ascii ''g'') (ascii ''u'') 1 f seed s2 \<noteq> (Inr plaintext, t))"
proof -
  obtain dist f s1 s2 state i known opened sent where run:
    "processSenderKeyDistribution sample_manager 7 (ascii ''g'') (ascii ''u'') 1 dist sample_store = (Inr (), s1)"
    "decryptGroupMessage sample_manager (ascii ''g'') (ascii ''u'') 1 f None s1 = (Inr (ascii ''h''), s2)"
    "processSenderKeyDistribution sample_manager 8 (ascii ''g'') (ascii ''u'') 1 dist s2 = (Inr (), s2)"
    and r: "group_run {} sample_manager sample_store s2 known (\<lambda>_. {}) opened sent" and o: "opened sample_addr = [(i, 0)]"
      "frame_entry f = [(i, 0)]" by (rule sample_receiving_run)
  have "decryptGroupMessage sample_manager (ascii ''g'') (ascii ''u'') 1 f seed s2 \<noteq> (Inr plaintext, t)" for seed plaintext t
  proof
    assume d: "decryptGroupMessage sample_manager (ascii ''g'') (ascii ''u'') 1 f seed s2 = (Inr plaintext, t)"
    have own: "(ascii ''g'', ascii ''u'', 1) \<notin> {}" by simp
    from group_message_once [OF group_run.decrypt [OF r own d] sample_manager_simps(1) sample_store_quiet(1), of sample_addr]
    show False using o by (simp add: sample_addr_def log_entry_def)
  qed
  with run show ?thesis by blast
qed

text \<open>C20. On every such run no chain index of a sender key is used by two frames that an encryption returned.\<close>

theorem group_index_once:
  assumes "group_run own m s0 s known renewed opened sent" and "sm_storage m = memory_sender_keys" and "no_sender_keys s0"
  shows "distinct (sent a)"
  using memory_run_ok [OF assms, of a] by (simp add: addr_ok_def logs_ok_def)

lemma group_index_once_witness:
  "\<exists>s known renewed opened sent i. group_run {sample_addr} sample_manager sample_store s known renewed opened sent \<and> sent sample_addr = [(i, 0)] \<and>
    distinct (sent sample_addr)"
  using sample_sending_run group_index_once [OF _ sample_manager_simps(1) sample_store_quiet(1), of "{sample_addr}"] by blast

text \<open>
  C21. A group message is returned only when its signature verifies under the public key of the stored state that it names,
  and a decryption that throws leaves all sender keys, records and skipped keys as they were.
\<close>

theorem group_decrypt_authentic:
  assumes "sm_storage m = memory_sender_keys" and "decryptGroupMessage m g u d f seed s = (r, t)"
  shows "case r of
      Inl e \<Rightarrow> key_view t = key_view s \<and> record_view t = record_view s \<and> skipped_view t = skipped_view s
    | Inr plaintext \<Rightarrow> \<exists>message signed. \<exists>state \<in> set (loaded_list (key_view s (g, u, d)) (record_view s (g, u, d))).
        encrypted_message f = Inr message \<and> sk_senderKeyId state = gm_senderKeyId message \<and>
        serializeForSigning (gm_chainIndex message) (gm_ciphertext message) (gm_senderKeyId message) (sk_chainId state) = Inr signed \<and>
        verify (sm_primitives m) (sk_publicSignatureKey state) signed (gm_signature message)"
  using assms
proof (cases rule: memory_keys.decrypt_cases)
  case (error e)
  then show ?thesis by (simp add: memory_keys.same_keys_def)
next
  case (old message j key plaintext states)
  from state_named_Some [OF old(3)] open_verified [OF old(4)] show ?thesis
    unfolding old(1) sum.case by (metis memory_keys.loaded_states_def nth_mem old(2))
next
  case (opened message j plaintext state keys)
  from state_named_Some [OF opened(3)] open_verified [OF opened(4)] show ?thesis
    unfolding opened(1) sum.case by (metis memory_keys.loaded_states_def nth_mem opened(2))
qed

lemma group_decrypt_authentic_witness:
  "decryptGroupMessage sample_manager (ascii ''g'') (ascii ''u'') 1 [1, 2, 3] None sample_store =
     (Inl (PlainError ''SenderKeyMessage too short''), sample_store) \<and> key_view sample_store = key_view sample_store"
proof -
  have d: "decryptGroupMessage sample_manager (ascii ''g'') (ascii ''u'') 1 [1, 2, 3] None sample_store =
     (Inl (PlainError ''SenderKeyMessage too short''), sample_store)"
    by (simp add: decryptGroupMessage_def encrypted_message_def parseSenderKeyMessage_def SIGNATURE_LEN_def bnd_eval action_eval)
  then show ?thesis using group_decrypt_authentic [OF sample_manager_simps(1) d] by simp
qed

lemma handoff_rows_after:
  "map_of groups g = None \<Longrightarrow> handoff_list g n groups = []"
  "map_of groups (ho_groupId record) = None \<Longrightarrow> handoff_list (ho_groupId record) n (handoff_record record groups) =
     (if ho_generation record = n then [record] else [])"
  by (simp_all add: handoff_list_def handoff_record_def Let_def update_conv')

lemma devices_needing:
  assumes "handoff_list g (hk_generation key) (senderKeyHandoffs s) = rows"
  shows "fst (devicesNeedingKey g key targets s) = Inr (filter (\<lambda>(device, rid). case rid of None \<Rightarrow> True
      | Some r \<Rightarrow> \<not> (\<exists>row \<in> set rows. ho_senderKeyId row = hk_senderKeyId key \<and> ho_generation row = hk_generation key \<and>
          ho_recipientUserId row = userId device \<and> ho_recipientDeviceId row = deviceId device \<and>
          ho_recipientRegistrationId row = r)) targets)"
proof -
  have "(x, y, z) \<in> set (map (\<lambda>row. (ho_recipientUserId row, ho_recipientDeviceId row, ho_recipientRegistrationId row))
      (filter (\<lambda>row. ho_senderKeyId row = hk_senderKeyId key \<and> ho_generation row = hk_generation key) rows)) \<longleftrightarrow>
    (\<exists>row \<in> set rows. ho_senderKeyId row = hk_senderKeyId key \<and> ho_generation row = hk_generation key \<and>
          ho_recipientUserId row = x \<and> ho_recipientDeviceId row = y \<and> ho_recipientRegistrationId row = z)" for x y z
    by force
  then show ?thesis
    by (simp add: devicesNeedingKey_def action_eval bnd_eval listSenderKeyHandoffs_def Let_def assms del: set_map set_filter)
      (auto intro!: filter_cong split: option.splits)
qed

text \<open>
  C23. The handoff ledger follows the key. After a rotation every target needs the key again, whatever was handed off before.
  After one handoff of it exactly the targets with that device and registration do not need it, and each of them needs every
  other key.
\<close>

theorem handoffs_follow_key:
  assumes "sm_storage m = memory_sender_keys" and "rotateSenderKey m now random g u d s = (Inr (i, dist), t)"
  shows "fst (devicesNeedingKey g key targets t) = Inr targets \<and>
    (\<forall>t'. ledger_record now' g key device rid t = (Inr (), t') \<longrightarrow>
       fst (devicesNeedingKey g key targets t') = Inr (filter (\<lambda>(target, r).
         \<not> (r = Some rid \<and> userId target = userId device \<and> deviceId target = deviceId device)) targets) \<and>
       (\<forall>other. other \<noteq> key \<longrightarrow> fst (devicesNeedingKey g other targets t') = Inr targets))"
proof -
  from memory_keys.rotate_cases [OF assms] obtain state prev
    where "storeSenderKeyRecord g u d (state # prev) no_receive True s = (Inr (), t)"
    by (auto simp: memory_sender_keys_def)
  then have none: "map_of (senderKeyHandoffs t) g = None"
    using storeSenderKeyRecord_ok by (fastforce simp: deleteGroup_def delete_conv')
  let ?row = "\<lparr>ho_groupId = g, ho_senderKeyId = hk_senderKeyId key, ho_generation = hk_generation key,
     ho_recipientUserId = userId device, ho_recipientDeviceId = deviceId device, ho_recipientRegistrationId = rid, ho_acceptedAt = now'\<rparr>"
  have rows: "handoff_list g n (senderKeyHandoffs t') = (if hk_generation key = n then [?row] else [])"
    if "ledger_record now' g key device rid t = (Inr (), t')" for t' n
  proof -
    from that obtain t1 where t1: "failures_beforeWrite ''recordSenderKeyHandoff'' t = (Inr (), t1)"
      "t' = t1\<lparr>senderKeyHandoffs := handoff_record ?row (senderKeyHandoffs t1)\<rparr>"
      by (auto simp: ledger_record_def recordSenderKeyHandoff_def bnd_Inr action_eval)
    obtain f where "t1 = t\<lparr>failures := f\<rparr>" using beforeWrite_Inr [OF t1(1)] .
    then show ?thesis using handoff_rows_after(2) [of "senderKeyHandoffs t" ?row n] none by (simp add: t1(2))
  qed
  have "fst (devicesNeedingKey g k targets t) = Inr targets" for k
    using devices_needing [of g k t "[]" targets] handoff_rows_after(1) [OF none] by (simp add: case_prod_beta option.case_eq_if)
  moreover have "fst (devicesNeedingKey g key targets t') = Inr (filter (\<lambda>(target, r).
         \<not> (r = Some rid \<and> userId target = userId device \<and> deviceId target = deviceId device)) targets)"
    if "ledger_record now' g key device rid t = (Inr (), t')" for t'
    using devices_needing [OF rows [OF that]] by (auto intro!: filter_cong split: option.split)
  moreover have "fst (devicesNeedingKey g other targets t') = Inr targets"
    if "ledger_record now' g key device rid t = (Inr (), t')" and "other \<noteq> key" for t' other
  proof -
    have "hk_senderKeyId other = hk_senderKeyId key \<longrightarrow> hk_generation other \<noteq> hk_generation key"
      using that(2) by (auto intro: SenderKeyHandoffKey.equality)
    then show ?thesis
      using devices_needing [OF rows [OF that(1)]] by (auto intro!: filter_True split: option.split)
  qed
  ultimately show ?thesis by blast
qed

lemma sample_rotation: "\<exists>i dist t. rotateSenderKey sample_manager 5 (replicate 16 5, replicate 32 6, replicate 32 7) (ascii ''g'') (ascii ''u'') 1
    sample_store = (Inr (i, dist), t)"
proof -
  note empty = no_sender_keys_views [OF sample_store_quiet(1)]
  obtain pub where pub: "ed25519_getPublicKey sample_primitives (replicate 32 7) = Inr pub"
    using sample_laws_total(3) unfolding signatures_verify_def by (metis length_replicate)
  then obtain state where n: "new_sender_key sample_manager 5 (replicate 16 5, replicate 32 6, replicate 32 7) 1 = Inr state"
    by (simp add: new_sender_key_def Let_def generateSigningKeyPair_def sample_manager_simps)
  obtain t where "persistSenderKeyRecord sample_manager (ascii ''g'') (ascii ''u'') 1 state [] True sample_store = (Inr (), t)"
    using memory_reliable.persist_total [OF sample_manager_simps(1) sample_store_quiet(2) empty(1)] by blast
  then have "rotateSenderKey sample_manager 5 (replicate 16 5, replicate 32 6, replicate 32 7) (ascii ''g'') (ascii ''u'') 1 sample_store =
      (Inr (sk_senderKeyId state, distribution_of state), t)"
    by (simp add: rotateSenderKey_def bnd_eval [of "loadSenderKey _ _ _ _"] bnd_eval [of "of_result _"] bnd_eval [of "persistSenderKeyRecord _ _ _ _ _ _ _"]
        memory_keys.load_key [OF sample_manager_simps(1)] empty action_eval n [simplified])
  then show ?thesis by blast
qed

lemma handoffs_follow_key_witness:
  "\<exists>i dist t. rotateSenderKey sample_manager 5 (replicate 16 5, replicate 32 6, replicate 32 7) (ascii ''g'') (ascii ''u'') 1
      sample_store = (Inr (i, dist), t) \<and>
    fst (devicesNeedingKey (ascii ''g'') \<lparr>hk_senderKeyId = i, hk_generation = 1\<rparr> [(sample_address 98 1, Some 5)] t) =
      Inr [(sample_address 98 1, Some 5)]"
proof -
  obtain i dist t where r: "rotateSenderKey sample_manager 5 (replicate 16 5, replicate 32 6, replicate 32 7) (ascii ''g'') (ascii ''u'') 1
      sample_store = (Inr (i, dist), t)" using sample_rotation by blast
  from handoffs_follow_key [OF sample_manager_simps(1) r] r show ?thesis by blast
qed

text \<open>
  C30. The wire form of a group message reads back: a frame of an encoded message and a signature parses into version, message
  and signature, and the decoder gives the fields back, also with unknown fields in front and behind. A frame is accepted
  only in this form.
\<close>

theorem sender_key_wire_roundtrip:
  assumes "encodeSenderKeyMessage message = Inr e" and "km_distributionUuid message \<noteq> Some []"
    and "unknown_fields sender_key_read us u" and "unknown_fields sender_key_read ts v" and "length sig = SIGNATURE_LEN"
  shows "(\<exists>f. frameSenderKeyMessage (u @ e @ v) sig = Inr f \<and> parseSenderKeyMessage f = Inr (4, u @ e @ v, sig) \<and>
      (\<forall>b version proto s. parseSenderKeyMessage b = Inr (version, proto, s) \<longrightarrow> version = 4 \<and> frameSenderKeyMessage proto s = Inr b)) \<and>
    decodeSenderKeyMessage (u @ e @ v) = Inr message"
proof -
  note d = sender_key_decode_encoded [OF assms(1-4)]
  have "decodeSenderKeyMessage [] \<noteq> Inr x" for x
    by (simp add: decodeSenderKeyMessage_def sender_key_empty_def requireDecoded_def)
  then have "u @ e @ v \<noteq> []" using d by metis
  then show ?thesis using d assms(5) [unfolded SIGNATURE_LEN_def]
    by (auto simp: parse_sender_key_frame) (auto simp: frameSenderKeyMessage_def SIGNATURE_LEN_def)
qed

definition sample_sender_key_message :: SenderKeyMessageFields where
  "sample_sender_key_message = \<lparr>km_distributionUuid = Some [65, 66], km_chainId = Some 7, km_iteration = 300, km_ciphertext = [1, 2, 3]\<rparr>"

lemma sender_key_wire_roundtrip_witness:
  "\<exists>e f. encodeSenderKeyMessage sample_sender_key_message = Inr e \<and> frameSenderKeyMessage e (zeros 64) = Inr f \<and>
    parseSenderKeyMessage f = Inr (4, e, zeros 64) \<and> decodeSenderKeyMessage e = Inr sample_sender_key_message"
proof -
  obtain e where e: "encodeSenderKeyMessage sample_sender_key_message = Inr e"
    using encode_sender_key_total [of "[65, 66]" 7 300 "[1, 2, 3]"] by (auto simp: sample_sender_key_message_def UINT32_MAX_def)
  have "km_distributionUuid sample_sender_key_message \<noteq> Some []" "length (zeros 64) = SIGNATURE_LEN"
    by (simp_all add: sample_sender_key_message_def zeros_def SIGNATURE_LEN_def)
  from sender_key_wire_roundtrip [OF e this(1) _ _ this(2), of "[]" "[]" "[]" "[]"] e show ?thesis by auto
qed


text \<open>The text form of a plaintext does not tell binary bytes from the text that is their base64 form.\<close>

lemma lossless_collision:
  "encodeLosslessPlaintext [0xff] = encodeLosslessPlaintext (textEncoder_encode (ascii ''/w==''))"
proof -
  have "plain_ascii (ascii ''/w=='')" by (simp add: plain_ascii_def ascii_def of_char_of)
  then have lossless: "encodeLosslessPlaintext (textEncoder_encode (ascii ''/w=='')) = Inr (ascii ''/w=='')"
    by (intro lossless_text plain_ascii_wire)
  have "utf8Decode [0xff] = Inr [0xfffd]"
    by (simp add: utf8Decode_def utf8DecodePortable_def Let_def utf8_loop.simps(2) invalid_def prepend_def emit_def REPLACEMENT_def)
  moreover have "length (textEncoder_encode [0xfffd]) = 3"
    by (simp add: textEncoder_encode_def utf8_scalar_def high_surrogate_def low_surrogate_def)
  moreover have "bytesToBase64 [0xff] = ''/w==''" by code_simp
  ultimately show ?thesis unfolding lossless by (simp add: encodeLosslessPlaintext_def)
qed

end
