(* ===== verification/Spec2Isabelle.thy ===== *)
theory Spec2Isabelle
  imports Session_Decrypt Key_Generation Braid_Run Spqr_Run Sender_Properties
begin

text \<open>
  Verification of the protocol core of signal-protocol-js: the message formats, the Double Ratchet, the
  identities and their trust records, the session record, the local store, the session cipher, the
  key agreement that starts a session, the post-quantum ratchet, and the sender keys of group messages.

  \<^bold>\<open>The parts and how they interact.\<close> \<open>SessionCipher\<close> (internal/session/cipher.ts) encrypts and decrypts
  for one remote device. It reads the session record of the device from the store, steps the Double
  Ratchet on a copy of a session of it, encodes or decodes the message, and hands the changed record
  with the trust record and the consumed prekeys to the store, which commits them together. The theories
  follow the sources from the bytes up:

  \<^item> Prelude: bytes, errors as values, results, lists and words.
  \<^item> Base64, Utf8, Key_Prefix, Padding: internal/crypto/utils.ts, internal/platform,
    internal/crypto/key-prefix.ts, internal/crypto/symmetric/padding.ts. Each decoder is shown to be
    the exact inverse of its encoder.
  \<^item> Proto_Wire, Signal_Message: internal/encoding/proto. Varints, the reader, both message forms, the
    address binding and the envelope: round trips, exactness and progress of the reader.
  \<^item> Kdf: internal/crypto/kdf/hkdf.ts. HKDF equals RFC 5869; sizes of the derived keys.
  \<^item> Double_Ratchet: internal/protocol/double-ratchet. Both ends agree on every message key in every
    order of delivery; the skipped keys are bounded and fetched once.
  \<^item> Identity: keys/identity.ts and internal/session/identity-binding.ts. The canonical identity, the
    contact record that never rolls back, the message MAC.
  \<^item> Session_Record: types/session.ts and internal/session/session-resolver.ts. The record with its
    bounded archive of sessions: bounds, promotion, candidates, validation.
  \<^item> Receive_Work: local/store/receive-work.ts. Validation, order and paging of receive records.
  \<^item> Store_Action: the asynchronous methods of a store as functions from a state to a result and a
    state, and the failure controller of local/store/memory/failures.ts.
  \<^item> Memory_Store: local/store/memory/adapter.ts, with the Kyber prekey lifecycle and the handoff table.
    The atomic commit, single use of prekeys, pinning of identities, rotation.
  \<^item> Session_Ratchet: internal/session/validation.ts and ratchet.ts.
  \<^item> Session_Cipher, Session_Decrypt: internal/session/decryption.ts and cipher.ts.
  \<^item> Pqxdh: internal/crypto/ec, internal/crypto/pq/kyber.ts, keys/prekey-signature.ts and
    internal/protocol/pqxdh. X25519 keys, ML-KEM-1024, prekey signatures and the PQXDH agreement: both
    ends derive the same secrets; a signature binds identity, algorithm, key ID and key.
  \<^item> Handshake: internal/session/handshake.ts, factory.ts and builder.ts. Which bundles are accepted, and
    that the sessions of the two ends belong together.
  \<^item> Key_Generation: keys/generation.ts. Every peer can start a session from freshly generated keys.
  \<^item> Galois, Interpolation, Erasure_Codec: internal/protocol/spqr/ml-kem-braid/rs. The tables form the
    field of 65,536 elements; any sufficient choice of distinct chunks gives the message back.
  \<^item> Braid, Braid_Run: the state machine of internal/protocol/spqr/ml-kem-braid and the runs of two ends
    over a network that loses, delays, reorders and repeats messages: both ends output the same keys.
  \<^item> Spqr_Wire: internal/encoding/proto/pq-ratchet-serialize.ts. The opaque bytes of the post-quantum ratchet; the encoder
    fills up short fields of the direct mode with zeros.
  \<^item> Spqr, Spqr_Batch: internal/protocol/spqr (spqr.ts, validate.ts, braid.ts, index.ts) and
    internal/protocol/version.ts. State, epochs, message keys, \<open>spqrSend\<close> and \<open>spqrRecv\<close>; which calls of the batch
    interface return.
  \<^item> Spqr_Keys: the life of one end against arbitrary bytes: bounded held keys, limits that stay, each
    key handed out once.
  \<^item> Spqr_Ends, Spqr_Run: two ends over the network. Every run of them is a run of the two machines of Braid_Run
    in which messages without payload are not delivered; from this both ends use equal keys, neither passes
    its first epoch, and an unanswered initiator can send exactly 65,536 messages.
  \<^item> Sender_Wire: internal/encoding/proto/sender-key-message.ts. Group message, distribution message and frame:
    round trips and exactness of the frame.
  \<^item> Sender_Store: the sender keys, records, skipped keys and handoff rows of local/store/memory/adapter.ts, and
    the contract of a sender-key storage.
  \<^item> Sender_Keys: internal/protocol/sender-keys (manager.ts, handoff-ledger.ts). Creating, rotating, deleting and
    installing keys, encrypting and decrypting, the ledger of handoffs.
  \<^item> Sender_Record: the effect of each operation of the manager on the record of a device, over any storage with the
    contract. Decrypting is finding the state that a message names, whichever branch of the code handles it.
  \<^item> Sender_Run: runs of all operations with injected failures: bounded records, each message of a key returned
    once, each index sent once. Distributions of other devices are arbitrary on a run; only a key that was deleted, evicted or
    announced in a later generation and then installed again starts anew. Sender_Delivery: over a storage that does not fail, messages arrive in any order.
    Sender_Properties: these facts for the memory store.

  \<^bold>\<open>State and effects.\<close> A class or an interface is a record with the fields of the source, a \<open>Map\<close> an
  association list in insertion order, an exception the left side of a sum, and a method that may throw
  and changes the state a function that returns both. A function that mutates its argument returns the
  changed value. Locks are left out: the calls on one session run one at a time.

  \<^bold>\<open>Interfaces.\<close> \<open>ordered_store\<close> (Session_Record) is a bounded store in insertion order, interpreted on
  the archive; \<open>session_store\<close> (Memory_Store) is what the cipher relies on of a store, interpreted on the
  in-memory store; \<open>sender_key_store\<close> (Sender_Store) is what the sender-key manager relies on, and
  \<open>reliable_sender_key_store\<close> (Sender_Delivery) extends it with writes that succeed, both interpreted there as well.

  \<^bold>\<open>Parameters.\<close> SHA-256, HMAC-SHA256, X25519, Ed25519, ML-KEM-1024, AES-CBC, the clock and the random key pairs come from
  outside the sources; the theorems that need a law of them, such as the length of an HMAC or that AES
  decryption inverts encryption, state it as a hypothesis. So do ML-KEM-768 and the lattice arithmetic of the incremental
  KEM under the braid. The post-quantum ratchet and the handler of prekey messages are parameters of the cipher; the
  ratchet and the key agreement behind the handler are modelled by themselves.

  \<^bold>\<open>Loops.\<close> Every function is total. The decoders end because the reader moves forward with each field
  (\<open>field_read_in_bounds\<close>); the retry loop of decryption runs over the number of attempts that the code
  computes. The loop of \<open>spqrBraidSend\<close> has fuel: \<open>spqr_batch_returns\<close> shows that \<open>MAX_CHUNKS_PER_SEND\<close> rounds are
  enough wherever it ends, and where it never ends.

  \<^bold>\<open>Not modelled.\<close> The session manager, the stored forms of the post-quantum ratchet, SESAME, group state and access control,
  sealed sender, the zero-knowledge credentials, the client and the stores over SQLite and IndexedDB;
  logging, zeroing of buffers and dummy work against timing.
\<close>

end
